(* ===== verification/Prelude.thy ===== *)
theory Prelude
  imports Main "HOL-Library.Char_ord" "HOL-Library.List_Lexorder" "HOL-Library.Product_Lexorder"
begin

text \<open>
  What the components share: the exceptions the code raises, as values; Python dicts as
  association lists in insertion order, with \<open>map_of\<close> as their abstraction; Python's
  \<open>min\<close> and \<open>max\<close> with a key, which return the first extremal element; UTC days and
  nanosecond timestamps as integers. Strings are UTF-8 byte lists, whose lexicographic
  order is Python's code point order.
\<close>

section \<open>Errors\<close>

text \<open>The exception classes the modelled code raises, with the fixed part of the message.\<close>

datatype py_error =
    ValueError string
  | RuntimeError string
  | FileNotFoundError string
  | AssertionError string
  | KeyError string
  | IndexError
  | TypeError string
  | AttributeError string
  | OSError string
  | InvalidOperation
  | QueueOverloaded

named_theorems inr_iff \<open>when a chain of guards and binds returns a value\<close>

named_theorems error_simps \<open>equations that evaluate the error-passing combinators\<close>

definition rbind :: "'e + 'a \<Rightarrow> ('a \<Rightarrow> 'e + 'b) \<Rightarrow> 'e + 'b" where
  "rbind m f = (case m of Inl e \<Rightarrow> Inl e | Inr x \<Rightarrow> f x)"

definition check :: "bool \<Rightarrow> 'e \<Rightarrow> 'e + unit" where
  "check ok e = (if ok then Inr () else Inl e)"

fun map_result :: "('a \<Rightarrow> 'e + 'b) \<Rightarrow> 'a list \<Rightarrow> 'e + 'b list" where
  "map_result f [] = Inr []"
| "map_result f (x # xs) = rbind (f x) (\<lambda>y. rbind (map_result f xs) (\<lambda>ys. Inr (y # ys)))"

fun fold_result :: "('s \<Rightarrow> 'a \<Rightarrow> 'e + 's) \<Rightarrow> 's \<Rightarrow> 'a list \<Rightarrow> 'e + 's" where
  "fold_result f s [] = Inr s"
| "fold_result f s (x # xs) = rbind (f s x) (\<lambda>s'. fold_result f s' xs)"

lemma rbind_simps [simp, error_simps]:
  "rbind (Inl e) f = Inl e"
  "rbind (Inr x) f = f x"
  by (simp_all add: rbind_def)

lemma rbind_Inr_iff [inr_iff]: "rbind m f = Inr y \<longleftrightarrow> (\<exists>x. m = Inr x \<and> f x = Inr y)"
  by (cases m) auto

lemma rbind_Inl_iff: "rbind m f = Inl e \<longleftrightarrow> m = Inl e \<or> (\<exists>x. m = Inr x \<and> f x = Inl e)"
  by (cases m) auto

lemma guard_Inr_iff [inr_iff]: "(if b then Inl e else r) = Inr x \<longleftrightarrow> \<not> b \<and> r = Inr x"
  by simp

text \<open>Evaluates a chain of binds from the front, without rewriting the continuations.\<close>

lemma rbind_eval_cong: "m = m' \<Longrightarrow> rbind m f = rbind m' f"
  by simp

lemma check_simps [simp, error_simps]:
  "check True e = Inr ()"
  "check False e = Inl e"
  by (simp_all add: check_def)

lemma check_Inr_iff: "check ok e = Inr u \<longleftrightarrow> ok"
  by (simp add: check_def)

lemma check_Inl_iff: "check ok e = Inl e' \<longleftrightarrow> \<not> ok \<and> e' = e"
  by (auto simp: check_def)

lemma length_map_result: "map_result f xs = Inr ys \<Longrightarrow> length ys = length xs"
  by (induction xs arbitrary: ys) (auto simp: rbind_Inr_iff)

lemma map_result_Inr_iff:
  "map_result f xs = Inr ys \<longleftrightarrow> list_all2 (\<lambda>x y. f x = Inr y) xs ys"
  by (induction xs arbitrary: ys) (auto simp: rbind_Inr_iff list_all2_Cons1)

lemma map_result_origin: "map_result f xs = Inr ys \<Longrightarrow> y \<in> set ys \<Longrightarrow> \<exists>x \<in> set xs. f x = Inr y"
  by (induction xs arbitrary: ys) (auto simp: rbind_Inr_iff)

lemma fold_result_append:
  "fold_result f s (xs @ ys) = rbind (fold_result f s xs) (\<lambda>t. fold_result f t ys)"
  by (induction xs arbitrary: s) (auto simp: rbind_def split: sum.splits)

lemma fold_result_invariant:
  assumes "fold_result f s xs = Inr t" and "P s"
    and "\<And>s x s'. P s \<Longrightarrow> x \<in> set xs \<Longrightarrow> f s x = Inr s' \<Longrightarrow> P s'"
  shows "P t"
  using assms
proof (induction xs arbitrary: s)
  case Nil
  then show ?case by simp
next
  case (Cons x xs)
  from Cons.prems(1) obtain s' where s': "f s x = Inr s'" and t: "fold_result f s' xs = Inr t"
    by (auto simp: rbind_Inr_iff)
  have "P s'" using Cons.prems(2,3) s' by (meson list.set_intros(1))
  then show ?case using Cons.IH t Cons.prems(3) by (meson list.set_intros(2))
qed

section \<open>Dicts\<close>

type_synonym ('k, 'v) dict = "('k \<times> 'v) list"

definition dict_get :: "('k, 'v) dict \<Rightarrow> 'k \<Rightarrow> 'v option" where
  "dict_get d k = map_of d k"

fun dict_set :: "'k \<Rightarrow> 'v \<Rightarrow> ('k, 'v) dict \<Rightarrow> ('k, 'v) dict" where
  "dict_set k v [] = [(k, v)]"
| "dict_set k v ((k', v') # d) = (if k' = k then (k', v) # d else (k', v') # dict_set k v d)"

definition dict_pop :: "'k \<Rightarrow> ('k, 'v) dict \<Rightarrow> ('k, 'v) dict" where
  "dict_pop k d = filter (\<lambda>kv. fst kv \<noteq> k) d"

definition dict_keys :: "('k, 'v) dict \<Rightarrow> 'k list" where
  "dict_keys d = map fst d"

definition dict_ok :: "('k, 'v) dict \<Rightarrow> bool" where
  "dict_ok d \<longleftrightarrow> distinct (map fst d)"

named_theorems dict_simps \<open>lookup and key equations of the dict operations\<close>

lemma dict_get_set [simp, dict_simps]: "dict_get (dict_set k v d) = (dict_get d)(k \<mapsto> v)"
  by (induction d) (auto simp: dict_get_def fun_eq_iff)

lemma dict_get_pop [simp, dict_simps]: "dict_get (dict_pop k d) = (dict_get d)(k := None)"
  by (induction d) (auto simp: dict_get_def dict_pop_def fun_eq_iff)

lemma dict_get_Nil [simp, dict_simps]: "dict_get [] = Map.empty"
  by (simp add: dict_get_def fun_eq_iff)

lemma set_keys_set [simp, dict_simps]: "fst ` set (dict_set k v d) = insert k (fst ` set d)"
proof (induction d)
  case (Cons kv d)
  then show ?case by (cases kv) auto
qed simp

lemma set_keys_pop [simp, dict_simps]: "fst ` set (dict_pop k d) = fst ` set d - {k}"
  by (auto simp: dict_pop_def)

lemma dict_ok_Nil [simp, intro]: "dict_ok []"
  by (simp add: dict_ok_def)

lemma dict_ok_set [simp, intro]: "dict_ok d \<Longrightarrow> dict_ok (dict_set k v d)"
proof (induction d)
  case (Cons kv d)
  then show ?case by (cases kv) (auto simp: dict_ok_def)
qed (simp add: dict_ok_def)

lemma dict_ok_pop [simp, intro]: "dict_ok d \<Longrightarrow> dict_ok (dict_pop k d)"
  unfolding dict_ok_def dict_pop_def by (induction d) auto

lemma dict_get_Some_iff: "dict_ok d \<Longrightarrow> dict_get d k = Some v \<longleftrightarrow> (k, v) \<in> set d"
  by (simp add: dict_ok_def dict_get_def)

lemma dict_get_None_iff: "dict_get d k = None \<longleftrightarrow> k \<notin> fst ` set d"
  by (simp add: dict_get_def map_of_eq_None_iff)

section \<open>Sorted iteration and first extrema\<close>

text \<open>Python's \<open>min(xs, key=f)\<close>, the first least element; \<open>None\<close> for the empty sequence.\<close>

fun first_min :: "('a \<Rightarrow> 'b::linorder) \<Rightarrow> 'a list \<Rightarrow> 'a option" where
  "first_min f [] = None"
| "first_min f (x # xs) =
     (case first_min f xs of None \<Rightarrow> Some x | Some y \<Rightarrow> if f x \<le> f y then Some x else Some y)"

text \<open>Python's \<open>max(xs, key=f)\<close>, the first greatest element.\<close>

fun first_max :: "('a \<Rightarrow> 'b::linorder) \<Rightarrow> 'a list \<Rightarrow> 'a option" where
  "first_max f [] = None"
| "first_max f (x # xs) =
     (case first_max f xs of None \<Rightarrow> Some x | Some y \<Rightarrow> if f y \<le> f x then Some x else Some y)"

lemma first_min_None [simp]: "first_min f xs = None \<longleftrightarrow> xs = []"
  by (cases xs) (auto split: option.splits)

lemma first_max_None [simp]: "first_max f xs = None \<longleftrightarrow> xs = []"
  by (cases xs) (auto split: option.splits)

lemma first_min_Some:
  "first_min f xs = Some x \<Longrightarrow> x \<in> set xs \<and> (\<forall>y \<in> set xs. f x \<le> f y)"
  by (induction xs arbitrary: x) (force split: option.splits if_splits)+

lemma first_max_Some:
  "first_max f xs = Some x \<Longrightarrow> x \<in> set xs \<and> (\<forall>y \<in> set xs. f y \<le> f x)"
  by (induction xs arbitrary: x) (force split: option.splits if_splits)+

text \<open>
  \<open>next((i for i, x in enumerate(xs) if p(x)), len(xs))\<close>: the index of the first element
  that satisfies \<open>p\<close>, the length if there is none.
\<close>

fun first_index :: "('a \<Rightarrow> bool) \<Rightarrow> 'a list \<Rightarrow> nat" where
  "first_index p [] = 0"
| "first_index p (x # xs) = (if p x then 0 else Suc (first_index p xs))"

lemma first_index_le: "first_index p xs \<le> length xs"
  by (induction xs) auto

lemma first_index_take: "x \<in> set (take (first_index p xs) xs) \<Longrightarrow> \<not> p x"
  by (induction xs) (auto split: if_splits)

lemma first_index_nth: "first_index p xs < length xs \<Longrightarrow> p (xs ! first_index p xs)"
  by (induction xs) auto

lemma first_index_length_iff: "first_index p xs = length xs \<longleftrightarrow> (\<forall>x \<in> set xs. \<not> p x)"
  by (induction xs) auto

section \<open>UTC time\<close>

text \<open>
  A \<open>date\<close> is its number of days since 1970-01-01, a realtime stamp its number of
  nanoseconds since that midnight; both are Python integers.
\<close>

type_synonym utc_date = int

definition ns_per_day :: int where
  "ns_per_day = 86400 * 1000000000"

definition midnight_ns :: "utc_date \<Rightarrow> int" where
  "midnight_ns d = d * ns_per_day"

definition date_of_ns :: "int \<Rightarrow> utc_date" where
  "date_of_ns ns = (ns div 1000000000) div 86400"

lemma ns_per_day_pos [simp]: "0 < ns_per_day"
  by (simp add: ns_per_day_def)

lemma date_of_ns_eq: "date_of_ns ns = ns div ns_per_day"
  by (simp add: date_of_ns_def ns_per_day_def zdiv_zmult2_eq [symmetric] mult.commute)

lemma date_of_ns_iff:
  "date_of_ns ns = d \<longleftrightarrow> midnight_ns d \<le> ns \<and> ns < midnight_ns (d + 1)"
  unfolding date_of_ns_eq midnight_ns_def ns_per_day_def by (auto simp: algebra_simps)

lemma date_of_midnight [simp]: "date_of_ns (midnight_ns d) = d"
  by (simp add: date_of_ns_iff) (simp add: midnight_ns_def algebra_simps)

lemma date_before_midnight [simp]: "date_of_ns (midnight_ns d - 1) = d - 1"
  by (simp add: date_of_ns_iff) (simp add: midnight_ns_def ns_per_day_def algebra_simps)

lemma midnight_ns_mono [simp]: "midnight_ns a \<le> midnight_ns b \<longleftrightarrow> a \<le> b"
  by (simp add: midnight_ns_def)

lemma midnight_ns_less [simp]: "midnight_ns a < midnight_ns b \<longleftrightarrow> a < b"
  by (simp add: midnight_ns_def)

end
