(* ===== verification/Bridge.thy ===== *)
theory Bridge
  imports Prelude
begin

text \<open>
  The shared order book bridge, \<open>src/miry/orderbook/bridge.py\<close>: \<open>locate_snapshot_bridge\<close>
  applies Binance's first-event overlap rule to an ordered buffer of depth diffs, and
  \<open>SnapshotBridgeTracker\<close> is the collector's state machine that proves a live book
  continuous. The tracker's \<open>None\<close> fields are options, its list a HOL list, and every
  method returns its result with the new state.
\<close>

section \<open>Data\<close>

datatype bridge_status =
  WAITING_FOR_EVENTS | STALE_SNAPSHOT | BRIDGED | CONTIGUOUS | SEQUENCE_GAP

record update_span =
  span_receive_seq :: int
  first_update_id :: int
  final_update_id :: int
  previous_final_update_id :: int

record bridge_result =
  status :: bridge_status
  bridge_index :: "nat option"
  discard_count :: nat
  expected_previous_update_id :: "int option"
  received_previous_update_id :: "int option"

definition bridge_result_of :: "bridge_status \<Rightarrow> bridge_result" where
  "bridge_result_of s = \<lparr>status = s, bridge_index = None, discard_count = 0,
     expected_previous_update_id = None, received_previous_update_id = None\<rparr>"

definition sequence_continues :: "int \<Rightarrow> int \<Rightarrow> bool" where
  "sequence_continues expected received \<longleftrightarrow> received = expected"

section \<open>The overlap rule\<close>

definition locate_snapshot_bridge :: "int \<Rightarrow> update_span list \<Rightarrow> bridge_result" where
  "locate_snapshot_bridge last_update_id spans =
     (let discard = first_index (\<lambda>span. last_update_id \<le> final_update_id span) spans in
      if discard = length spans then
        (bridge_result_of WAITING_FOR_EVENTS)\<lparr>discard_count := discard\<rparr>
      else if last_update_id < first_update_id (spans ! discard) then
        (bridge_result_of STALE_SNAPSHOT)\<lparr>discard_count := discard\<rparr>
      else
        (bridge_result_of BRIDGED)\<lparr>bridge_index := Some discard, discard_count := discard\<rparr>)"

definition overlaps :: "int \<Rightarrow> update_span \<Rightarrow> bool" where
  "overlaps l span \<longleftrightarrow> first_update_id span \<le> l \<and> l \<le> final_update_id span"

text \<open>
  The contract both clients of the rule (the collector's tracker here, the pipeline's
  connection book) rely on: what is discarded is older than the snapshot, and the three
  verdicts say what the first remaining event is.
\<close>

locale bridge_rule =
  fixes locate :: "int \<Rightarrow> update_span list \<Rightarrow> bridge_result"
  assumes discard_le: "discard_count (locate l xs) \<le> length xs"
    and discarded_old: "x \<in> set (take (discard_count (locate l xs)) xs) \<Longrightarrow> final_update_id x < l"
    and verdict: "status (locate l xs) \<in> {WAITING_FOR_EVENTS, STALE_SNAPSHOT, BRIDGED}"
    and waiting: "status (locate l xs) = WAITING_FOR_EVENTS \<longleftrightarrow> discard_count (locate l xs) = length xs"
    and stale: "status (locate l xs) = STALE_SNAPSHOT \<Longrightarrow>
      l < first_update_id (xs ! discard_count (locate l xs))"
    and bridged: "status (locate l xs) = BRIDGED \<Longrightarrow>
      overlaps l (xs ! discard_count (locate l xs)) \<and>
      bridge_index (locate l xs) = Some (discard_count (locate l xs))"
begin

lemma not_waiting_less:
  "status (locate l xs) \<noteq> WAITING_FOR_EVENTS \<Longrightarrow> discard_count (locate l xs) < length xs"
  using discard_le [of l xs] waiting [of l xs] by linarith

lemma kept_subset: "set (drop (discard_count (locate l xs)) xs) \<subseteq> set xs"
  by (rule set_drop_subset)

lemma waiting_all_old:
  "status (locate l xs) = WAITING_FOR_EVENTS \<Longrightarrow> x \<in> set xs \<Longrightarrow> final_update_id x < l"
  using discarded_old [of x l xs] waiting [of l xs] by simp

lemma waiting_keeps_nothing:
  "status (locate l xs) = WAITING_FOR_EVENTS \<Longrightarrow> drop (discard_count (locate l xs)) xs = []"
  using waiting [of l xs] by simp

lemma bridged_head:
  assumes "status (locate l xs) = BRIDGED"
  obtains b rest where "drop (discard_count (locate l xs)) xs = b # rest" "overlaps l b" "b \<in> set xs"
proof -
  let ?d = "discard_count (locate l xs)"
  have d: "?d < length xs" using not_waiting_less assms by simp
  then have "drop ?d xs = xs ! ?d # drop (Suc ?d) xs" by (rule Cons_nth_drop_Suc [symmetric])
  then show thesis using that bridged [OF assms] d by auto
qed

text \<open>
  With events in order of their first id, a stale snapshot overlaps no buffered event: it can
  never be bridged by this buffer or by anything that follows it, so it must be refetched.
\<close>

lemma stale_hopeless:
  assumes "status (locate l xs) = STALE_SNAPSHOT"
    and "sorted_wrt (\<lambda>a b. first_update_id a \<le> first_update_id b) xs"
    and "x \<in> set xs"
  shows "\<not> overlaps l x"
proof (cases "x \<in> set (take (discard_count (locate l xs)) xs)")
  case True
  then show ?thesis using discarded_old by (fastforce simp: overlaps_def)
next
  case False
  let ?d = "discard_count (locate l xs)"
  have d: "?d < length xs" using not_waiting_less assms(1) by simp
  have split: "xs = take ?d xs @ xs ! ?d # drop (Suc ?d) xs"
    using id_take_nth_drop [OF d] .
  from False assms(3) split have "x = xs ! ?d \<or> x \<in> set (drop (Suc ?d) xs)"
    by (metis Un_iff set_ConsD set_append)
  moreover have "\<forall>y \<in> set (drop (Suc ?d) xs). first_update_id (xs ! ?d) \<le> first_update_id y"
    using assms(2) split by (metis sorted_wrt.simps(2) sorted_wrt_append)
  ultimately have "first_update_id (xs ! ?d) \<le> first_update_id x" by auto
  with stale [OF assms(1)] show ?thesis by (simp add: overlaps_def)
qed

end

lemma locate_discard [simp]:
  "discard_count (locate_snapshot_bridge l xs) = first_index (\<lambda>span. l \<le> final_update_id span) xs"
  by (simp add: locate_snapshot_bridge_def Let_def)

interpretation rule: bridge_rule locate_snapshot_bridge
proof unfold_locales
  fix l xs
  let ?p = "\<lambda>span. l \<le> final_update_id span"
  show "discard_count (locate_snapshot_bridge l xs) \<le> length xs"
    by (simp add: first_index_le)
  show "x \<in> set (take (discard_count (locate_snapshot_bridge l xs)) xs) \<Longrightarrow> final_update_id x < l" for x
    using first_index_take [of x ?p xs] by simp
  show "status (locate_snapshot_bridge l xs) \<in> {WAITING_FOR_EVENTS, STALE_SNAPSHOT, BRIDGED}"
    by (simp add: locate_snapshot_bridge_def Let_def bridge_result_of_def)
  show "status (locate_snapshot_bridge l xs) = WAITING_FOR_EVENTS \<longleftrightarrow>
      discard_count (locate_snapshot_bridge l xs) = length xs"
    by (simp add: locate_snapshot_bridge_def Let_def bridge_result_of_def)
  show "status (locate_snapshot_bridge l xs) = STALE_SNAPSHOT \<Longrightarrow>
      l < first_update_id (xs ! discard_count (locate_snapshot_bridge l xs))"
    by (simp add: locate_snapshot_bridge_def Let_def bridge_result_of_def split: if_splits)
  assume "status (locate_snapshot_bridge l xs) = BRIDGED"
  then show "overlaps l (xs ! discard_count (locate_snapshot_bridge l xs)) \<and>
      bridge_index (locate_snapshot_bridge l xs) = Some (discard_count (locate_snapshot_bridge l xs))"
    using first_index_le [of ?p xs] first_index_nth [of ?p xs]
    by (auto simp: locate_snapshot_bridge_def Let_def bridge_result_of_def overlaps_def split: if_splits)
qed

section \<open>The tracker\<close>

record tracker =
  maximum_buffered_events :: nat
  tr_pending :: "update_span list"
  snapshot_last_update_id :: "int option"
  previous_update_id :: "int option"

definition new_tracker :: "int \<Rightarrow> py_error + tracker" where
  "new_tracker m =
     (if m < 1 then Inl (ValueError ''maximum buffered depth events must be positive'')
      else Inr \<lparr>maximum_buffered_events = nat m, tr_pending = [],
                snapshot_last_update_id = None, previous_update_id = None\<rparr>)"

definition has_events :: "tracker \<Rightarrow> bool" where
  "has_events t \<longleftrightarrow> tr_pending t \<noteq> []"

definition is_bridged :: "tracker \<Rightarrow> bool" where
  "is_bridged t \<longleftrightarrow> previous_update_id t \<noteq> None"

text \<open>\<open>any(previous.receive_seq > current.receive_seq for ... in zip(xs, xs[1:]))\<close>\<close>

fun out_of_order :: "update_span list \<Rightarrow> bool" where
  "out_of_order (x # y # xs) \<longleftrightarrow> span_receive_seq y < span_receive_seq x \<or> out_of_order (y # xs)"
| "out_of_order _ \<longleftrightarrow> False"

definition order_pending :: "update_span list \<Rightarrow> update_span list" where
  "order_pending xs = (if 1 < length xs \<and> out_of_order xs then sort_key span_receive_seq xs else xs)"

text \<open>
  The loop over the buffer after the bridge: \<open>Inl\<close> of the index, the expected and the
  received id at the first break, \<open>Inr\<close> of the last final id when there is none.
\<close>

fun scan_chain :: "int \<Rightarrow> nat \<Rightarrow> update_span list \<Rightarrow> (nat \<times> int \<times> int) + int" where
  "scan_chain previous index [] = Inr previous"
| "scan_chain previous index (span # spans) =
     (if \<not> sequence_continues previous (previous_final_update_id span)
      then Inl (index, previous, previous_final_update_id span)
      else scan_chain (final_update_id span) (Suc index) spans)"

definition evaluate_snapshot :: "tracker \<Rightarrow> bridge_result \<times> tracker" where
  "evaluate_snapshot t =
     (case snapshot_last_update_id t of
        None \<Rightarrow> (bridge_result_of WAITING_FOR_EVENTS, t)
      | Some l \<Rightarrow>
          let t1 = t\<lparr>tr_pending := order_pending (tr_pending t)\<rparr>;
              decision = locate_snapshot_bridge l (tr_pending t1);
              t2 = t1\<lparr>tr_pending := drop (discard_count decision) (tr_pending t1)\<rparr> in
          if status decision = WAITING_FOR_EVENTS then (decision, t2)
          else if status decision = STALE_SNAPSHOT then
            (decision, t2\<lparr>snapshot_last_update_id := None\<rparr>)
          else
            (case scan_chain (final_update_id (tr_pending t2 ! 0)) 1 (tl (tr_pending t2)) of
               Inl (index, previous, received) \<Rightarrow>
                 ((bridge_result_of SEQUENCE_GAP)\<lparr>bridge_index := Some 0,
                    expected_previous_update_id := Some previous,
                    received_previous_update_id := Some received\<rparr>,
                  t2\<lparr>snapshot_last_update_id := None, tr_pending := drop index (tr_pending t2)\<rparr>)
             | Inr previous \<Rightarrow>
                 ((bridge_result_of BRIDGED)\<lparr>bridge_index := Some 0\<rparr>,
                  t2\<lparr>previous_update_id := Some previous, snapshot_last_update_id := None,
                     tr_pending := []\<rparr>)))"

definition on_snapshot :: "int \<Rightarrow> tracker \<Rightarrow> bridge_result \<times> tracker" where
  "on_snapshot l t =
     evaluate_snapshot (t\<lparr>snapshot_last_update_id := Some l, previous_update_id := None\<rparr>)"

definition on_diff :: "update_span \<Rightarrow> tracker \<Rightarrow> bridge_result \<times> tracker" where
  "on_diff span t =
     (case previous_update_id t of
        Some expected \<Rightarrow>
          if \<not> sequence_continues expected (previous_final_update_id span) then
            ((bridge_result_of SEQUENCE_GAP)\<lparr>
               expected_previous_update_id := Some expected,
               received_previous_update_id := Some (previous_final_update_id span)\<rparr>,
             t\<lparr>previous_update_id := None, snapshot_last_update_id := None, tr_pending := [span]\<rparr>)
          else (bridge_result_of CONTIGUOUS, t\<lparr>previous_update_id := Some (final_update_id span)\<rparr>)
      | None \<Rightarrow>
          let pending = tr_pending t @ [span];
              kept = (if maximum_buffered_events t < length pending
                      then drop (length pending - maximum_buffered_events t) pending else pending)
          in evaluate_snapshot (t\<lparr>tr_pending := kept\<rparr>))"

definition invalidate :: "tracker \<Rightarrow> tracker" where
  "invalidate t = t\<lparr>tr_pending := [], snapshot_last_update_id := None, previous_update_id := None\<rparr>"

section \<open>Runs\<close>

datatype tracker_event = Snapshot int | Diff update_span | Invalidate

fun tracker_step :: "tracker_event \<Rightarrow> tracker \<Rightarrow> tracker" where
  "tracker_step (Snapshot l) t = snd (on_snapshot l t)"
| "tracker_step (Diff span) t = snd (on_diff span t)"
| "tracker_step Invalidate t = invalidate t"

text \<open>A run over the events in the order they arrived; the newest event is at the end.\<close>

definition tracker_run :: "tracker \<Rightarrow> tracker_event list \<Rightarrow> tracker" where
  "tracker_run t es = fold tracker_step es t"

text \<open>
  The evidence that a book is continuous: a non-empty chain of diffs whose first overlaps the
  snapshot and in which each diff names its predecessor as its previous update.
\<close>

fun linked :: "update_span list \<Rightarrow> bool" where
  "linked (x # y # xs) \<longleftrightarrow> previous_final_update_id y = final_update_id x \<and> linked (y # xs)"
| "linked _ \<longleftrightarrow> True"

definition anchored_chain :: "int \<Rightarrow> update_span list \<Rightarrow> bool" where
  "anchored_chain l c \<longleftrightarrow> c \<noteq> [] \<and> overlaps l (hd c) \<and> linked c"

section \<open>Lemmas of the tracker\<close>

lemma set_order_pending [simp]: "set (order_pending xs) = set xs"
  by (simp add: order_pending_def)

lemma length_order_pending [simp]: "length (order_pending xs) = length xs"
  by (simp add: order_pending_def)

lemma linked_append_one:
  "linked (c @ [x]) \<longleftrightarrow> linked c \<and> (c = [] \<or> previous_final_update_id x = final_update_id (last c))"
  by (induction c rule: linked.induct) auto

lemma scan_chain_Inr:
  "scan_chain p n xs = Inr q \<Longrightarrow> p = final_update_id b \<Longrightarrow>
   linked (b # xs) \<and> q = final_update_id (last (b # xs))"
proof (induction xs arbitrary: p n b)
  case Nil
  then show ?case by simp
next
  case (Cons x xs)
  then show ?case by (auto simp: sequence_continues_def split: if_splits)
qed

lemma scan_chain_linked:
  "linked (b # xs) \<Longrightarrow> scan_chain (final_update_id b) n xs = Inr (final_update_id (last (b # xs)))"
  by (induction xs arbitrary: b n) (auto simp: sequence_continues_def)

lemma scan_chain_Inl:
  "scan_chain p n xs = Inl (i, e, r) \<Longrightarrow>
   n \<le> i \<and> i < n + length xs \<and> r = previous_final_update_id (xs ! (i - n)) \<and> r \<noteq> e"
proof (induction xs arbitrary: p n)
  case Nil
  then show ?case by simp
next
  case (Cons x xs)
  show ?case
  proof (cases "sequence_continues p (previous_final_update_id x)")
    case True
    then have "Suc n \<le> i \<and> i < Suc n + length xs \<and>
        r = previous_final_update_id (xs ! (i - Suc n)) \<and> r \<noteq> e"
      using Cons.IH [of "final_update_id x" "Suc n"] Cons.prems by simp
    then show ?thesis by (auto simp: nth_Cons' Suc_diff_Suc)
  next
    case False
    with Cons.prems show ?thesis by (auto simp: sequence_continues_def)
  qed
qed

text \<open>
  The state between events: a bridged tracker holds neither buffer nor snapshot, and the
  buffer never passes its bound.
\<close>

definition tracker_ok :: "tracker \<Rightarrow> bool" where
  "tracker_ok t \<longleftrightarrow>
     0 < maximum_buffered_events t \<and> length (tr_pending t) \<le> maximum_buffered_events t \<and>
     (is_bridged t \<longrightarrow> tr_pending t = [] \<and> snapshot_last_update_id t = None)"

text \<open>
  \<open>evaluate_snapshot\<close> by cases: no snapshot, waiting, stale, a break in the buffer, or bridged.
\<close>

lemma evaluate_cases [case_names none waiting stale gap bridged]:
  assumes "previous_update_id t = None"
  obtains
    "snapshot_last_update_id t = None" "evaluate_snapshot t = (bridge_result_of WAITING_FOR_EVENTS, t)"
  | l where "snapshot_last_update_id t = Some l" "\<forall>x \<in> set (tr_pending t). final_update_id x < l"
      "status (fst (evaluate_snapshot t)) = WAITING_FOR_EVENTS"
      "snd (evaluate_snapshot t) = t\<lparr>tr_pending := []\<rparr>"
  | l rest where "snapshot_last_update_id t = Some l" "set rest \<subseteq> set (tr_pending t)"
      "length rest \<le> length (tr_pending t)" "rest \<noteq> []" "l < first_update_id (hd rest)"
      "status (fst (evaluate_snapshot t)) = STALE_SNAPSHOT"
      "snd (evaluate_snapshot t) = t\<lparr>tr_pending := rest, snapshot_last_update_id := None\<rparr>"
  | l rest where "snapshot_last_update_id t = Some l" "set rest \<subseteq> set (tr_pending t)"
      "length rest \<le> length (tr_pending t)"
      "status (fst (evaluate_snapshot t)) = SEQUENCE_GAP"
      "snd (evaluate_snapshot t) = t\<lparr>tr_pending := rest, snapshot_last_update_id := None\<rparr>"
  | l c where "snapshot_last_update_id t = Some l" "set c \<subseteq> set (tr_pending t)" "anchored_chain l c"
      "status (fst (evaluate_snapshot t)) = BRIDGED"
      "snd (evaluate_snapshot t) =
         t\<lparr>tr_pending := [], previous_update_id := Some (final_update_id (last c)),
           snapshot_last_update_id := None\<rparr>"
proof (cases "snapshot_last_update_id t")
  case None
  then show ?thesis using that(1) by (simp add: evaluate_snapshot_def)
next
  case (Some l)
  define xs where "xs = order_pending (tr_pending t)"
  define d where "d = locate_snapshot_bridge l xs"
  have sub: "set (drop (discard_count d) xs) \<subseteq> set (tr_pending t)"
    using set_drop_subset [of "discard_count d" xs] by (simp add: xs_def)
  have len: "length (drop (discard_count d) xs) \<le> length (tr_pending t)"
    by (simp add: xs_def)
  consider (w) "status d = WAITING_FOR_EVENTS" | (s) "status d = STALE_SNAPSHOT" | (b) "status d = BRIDGED"
    using rule.verdict [of l xs] by (auto simp: d_def)
  then show ?thesis
  proof cases
    case w
    have old: "\<forall>x \<in> set (tr_pending t). final_update_id x < l"
      using w rule.waiting_all_old [of l xs] by (auto simp: d_def xs_def)
    have "drop (discard_count d) xs = []"
      using w rule.waiting_keeps_nothing [of l xs] by (simp add: d_def)
    then have "evaluate_snapshot t = (d, t\<lparr>tr_pending := []\<rparr>)"
      using Some w by (simp add: evaluate_snapshot_def Let_def d_def xs_def)
    then show ?thesis using that(2) [OF Some old] w by simp
  next
    case s
    have n: "discard_count d < length xs" using s rule.not_waiting_less [of l xs] by (simp add: d_def)
    have "l < first_update_id (hd (drop (discard_count d) xs))"
      using s rule.stale [of l xs] n by (simp add: d_def hd_drop_conv_nth)
    moreover have "evaluate_snapshot t = (d, t\<lparr>tr_pending := drop (discard_count d) xs,
        snapshot_last_update_id := None\<rparr>)"
      using Some s by (simp add: evaluate_snapshot_def Let_def d_def xs_def)
    ultimately show ?thesis using that(3) [OF Some sub len] s n by simp
  next
    case b
    obtain br rest where drop: "drop (discard_count d) xs = br # rest" and ov: "overlaps l br"
      using rule.bridged_head b unfolding d_def by blast
    show ?thesis
    proof (cases "scan_chain (final_update_id br) 1 rest")
      case (Inl brk)
      obtain i e r where brk: "brk = (i, e, r)" by (cases brk)
      have s1: "set (drop i (br # rest)) \<subseteq> set (tr_pending t)"
        using sub drop set_drop_subset [of i "br # rest"] by auto
      have s2: "length (drop i (br # rest)) \<le> length (tr_pending t)"
        using len drop by simp
      have "evaluate_snapshot t = ((bridge_result_of SEQUENCE_GAP)\<lparr>bridge_index := Some 0,
          expected_previous_update_id := Some e, received_previous_update_id := Some r\<rparr>,
          t\<lparr>tr_pending := drop i (br # rest), snapshot_last_update_id := None\<rparr>)"
        using Some b drop Inl brk by (simp add: evaluate_snapshot_def Let_def d_def xs_def)
      then show ?thesis using that(4) [OF Some s1 s2] by (simp add: bridge_result_of_def)
    next
      case (Inr q)
      have c: "linked (br # rest) \<and> q = final_update_id (last (br # rest))"
        using scan_chain_Inr Inr by blast
      have a: "anchored_chain l (br # rest)" using c ov by (simp add: anchored_chain_def)
      have s1: "set (br # rest) \<subseteq> set (tr_pending t)" using sub drop by simp
      have "evaluate_snapshot t = ((bridge_result_of BRIDGED)\<lparr>bridge_index := Some 0\<rparr>,
          t\<lparr>tr_pending := [], previous_update_id := Some q, snapshot_last_update_id := None\<rparr>)"
        using Some b drop Inr by (simp add: evaluate_snapshot_def Let_def d_def xs_def)
      then show ?thesis using that(5) [OF Some s1 a] c by (simp add: bridge_result_of_def)
    qed
  qed
qed

lemma evaluate_keeps_max [simp]:
  "previous_update_id t = None \<Longrightarrow>
   maximum_buffered_events (snd (evaluate_snapshot t)) = maximum_buffered_events t"
  by (cases t rule: evaluate_cases) auto

lemma evaluate_ok:
  assumes "previous_update_id t = None" "0 < maximum_buffered_events t"
    and "length (tr_pending t) \<le> maximum_buffered_events t"
  shows "tracker_ok (snd (evaluate_snapshot t))"
  using assms(1)
  by (cases t rule: evaluate_cases) (use assms in \<open>auto simp: tracker_ok_def is_bridged_def\<close>)

lemma on_snapshot_ok: "tracker_ok t \<Longrightarrow> tracker_ok (snd (on_snapshot l t))"
  unfolding on_snapshot_def by (rule evaluate_ok) (auto simp: tracker_ok_def)

lemma on_diff_buffers:
  assumes "previous_update_id t = None"
  obtains xs where "on_diff span t = evaluate_snapshot (t\<lparr>tr_pending := xs\<rparr>)"
    "set xs \<subseteq> insert span (set (tr_pending t))" "length xs \<le> maximum_buffered_events t"
proof
  define xs where "xs = drop (Suc (length (tr_pending t)) - maximum_buffered_events t) (tr_pending t @ [span])"
  show "on_diff span t = evaluate_snapshot (t\<lparr>tr_pending := xs\<rparr>)"
    using assms by (simp add: on_diff_def Let_def xs_def del: drop_append)
  show "set xs \<subseteq> insert span (set (tr_pending t))"
    using set_drop_subset [of _ "tr_pending t @ [span]"] by (fastforce simp: xs_def simp del: drop_append)
  show "length xs \<le> maximum_buffered_events t"
    by (simp add: xs_def del: drop_append)
qed

lemma on_diff_ok:
  assumes "tracker_ok t"
  shows "tracker_ok (snd (on_diff span t))"
proof (cases "previous_update_id t")
  case None
  then obtain xs where "on_diff span t = evaluate_snapshot (t\<lparr>tr_pending := xs\<rparr>)"
      "length xs \<le> maximum_buffered_events t"
    by (rule on_diff_buffers)
  then show ?thesis using None assms
    using evaluate_ok [of "t\<lparr>tr_pending := xs\<rparr>"] by (simp add: tracker_ok_def)
next
  case (Some e)
  with assms show ?thesis
    by (auto simp: on_diff_def tracker_ok_def is_bridged_def Let_def)
qed

lemma invalidate_ok: "tracker_ok t \<Longrightarrow> tracker_ok (invalidate t)"
  by (simp add: invalidate_def tracker_ok_def is_bridged_def)

lemmas tracker_op_ok = on_snapshot_ok on_diff_ok invalidate_ok

lemma tracker_step_ok: "tracker_ok t \<Longrightarrow> tracker_ok (tracker_step e t)"
  by (cases e) (simp_all add: tracker_op_ok)

lemma tracker_run_ok: "tracker_ok t \<Longrightarrow> tracker_ok (tracker_run t es)"
  unfolding tracker_run_def by (induction es arbitrary: t) (auto simp: tracker_step_ok)

lemma new_tracker_ok: "new_tracker m = Inr t \<Longrightarrow> tracker_ok t"
  by (auto simp: new_tracker_def tracker_ok_def is_bridged_def split: if_splits)

text \<open>
  The ghost invariant of a run: what the tracker holds comes from events that happened, and a
  bridged tracker rests on an anchored chain of them.
\<close>

definition evidenced :: "tracker_event list \<Rightarrow> tracker \<Rightarrow> bool" where
  "evidenced es t \<longleftrightarrow>
     Diff ` set (tr_pending t) \<subseteq> set es \<and>
     (\<forall>l. snapshot_last_update_id t = Some l \<longrightarrow> Snapshot l \<in> set es) \<and>
     (\<forall>p. previous_update_id t = Some p \<longrightarrow>
        (\<exists>l c. Snapshot l \<in> set es \<and> Diff ` set c \<subseteq> set es \<and> anchored_chain l c \<and>
               final_update_id (last c) = p))"

lemma evidenced_mono: "evidenced es t \<Longrightarrow> set es \<subseteq> set es' \<Longrightarrow> evidenced es' t"
  unfolding evidenced_def by (meson subset_trans subsetD)

lemma evaluate_evidenced:
  assumes "previous_update_id t = None" "evidenced es t"
  shows "evidenced es (snd (evaluate_snapshot t))"
  using assms(1)
proof (cases t rule: evaluate_cases)
  case (bridged l c)
  moreover have "Diff ` set c \<subseteq> set es" using assms(2) bridged(2) by (auto simp: evidenced_def)
  ultimately show ?thesis using assms(2) by (auto simp: evidenced_def)
qed (use assms in \<open>auto simp: evidenced_def\<close>)

lemma evidenced_chain_extend:
  assumes "evidenced es t" "previous_update_id t = Some (previous_final_update_id span)"
    and "Diff span \<in> set es"
  shows "\<exists>l c. Snapshot l \<in> set es \<and> Diff ` set c \<subseteq> set es \<and> anchored_chain l c \<and>
               final_update_id (last c) = final_update_id span"
proof -
  obtain l c where lc: "Snapshot l \<in> set es" "Diff ` set c \<subseteq> set es" "anchored_chain l c"
      "final_update_id (last c) = previous_final_update_id span"
    using assms(1,2) by (auto simp: evidenced_def)
  have "anchored_chain l (c @ [span])"
    using lc(3,4) by (auto simp: anchored_chain_def linked_append_one)
  moreover have "Diff ` set (c @ [span]) \<subseteq> set es" using lc(2) assms(3) by auto
  ultimately show ?thesis using lc(1) by (metis last_snoc)
qed

lemma on_diff_evidenced:
  assumes "evidenced es t" "Diff span \<in> set es"
  shows "evidenced es (snd (on_diff span t))"
proof (cases "previous_update_id t")
  case None
  then obtain xs where xs: "on_diff span t = evaluate_snapshot (t\<lparr>tr_pending := xs\<rparr>)"
      "set xs \<subseteq> insert span (set (tr_pending t))"
    by (rule on_diff_buffers)
  then have "evidenced es (t\<lparr>tr_pending := xs\<rparr>)"
    using assms None by (auto simp: evidenced_def)
  then show ?thesis using evaluate_evidenced None xs by simp
next
  case (Some e)
  show ?thesis
  proof (cases "previous_final_update_id span = e")
    case True
    with Some assms evidenced_chain_extend [OF assms(1) _ assms(2)] show ?thesis
      by (auto simp: on_diff_def sequence_continues_def evidenced_def)
  next
    case False
    with Some assms show ?thesis
      by (auto simp: on_diff_def sequence_continues_def evidenced_def)
  qed
qed

lemma tracker_step_evidenced:
  assumes "evidenced es t"
  shows "evidenced (es @ [e]) (tracker_step e t)"
proof -
  have m: "evidenced (es @ [e]) t" using assms by (rule evidenced_mono) auto
  show ?thesis
  proof (cases e)
    case (Snapshot l)
    have "evidenced (es @ [e]) (t\<lparr>snapshot_last_update_id := Some l, previous_update_id := None\<rparr>)"
      using m Snapshot by (auto simp: evidenced_def)
    then show ?thesis using Snapshot evaluate_evidenced by (simp add: on_snapshot_def)
  next
    case (Diff span)
    with m on_diff_evidenced [of "es @ [e]" t span] show ?thesis by simp
  next
    case Invalidate
    with m show ?thesis by (auto simp: evidenced_def invalidate_def)
  qed
qed

lemma tracker_run_evidenced:
  "evidenced [] t \<Longrightarrow> evidenced es (tracker_run t es)"
  unfolding tracker_run_def
  by (induction es rule: rev_induct) (auto intro: tracker_step_evidenced)

lemma new_tracker_evidenced: "new_tracker m = Inr t \<Longrightarrow> evidenced [] t"
  by (auto simp: new_tracker_def evidenced_def split: if_splits)

section \<open>Example run\<close>

definition ex_span :: "int \<Rightarrow> int \<Rightarrow> int \<Rightarrow> int \<Rightarrow> update_span" where
  "ex_span n f l p = \<lparr>span_receive_seq = n, first_update_id = f, final_update_id = l,
     previous_final_update_id = p\<rparr>"

definition ex_events :: "tracker_event list" where
  "ex_events = [Diff (ex_span 1 90 99 80), Diff (ex_span 2 100 110 99), Snapshot 105,
     Diff (ex_span 3 111 120 110)]"

definition ex_tracker :: tracker where
  "ex_tracker = \<lparr>maximum_buffered_events = 4, tr_pending = [], snapshot_last_update_id = None,
     previous_update_id = None\<rparr>"

lemmas ex_tracker_defs = ex_tracker_def ex_events_def ex_span_def tracker_run_def on_snapshot_def
  on_diff_def evaluate_snapshot_def order_pending_def locate_snapshot_bridge_def
  bridge_result_of_def sequence_continues_def Let_def

section \<open>Properties\<close>

text \<open>C1. A tracker reports a book as bridged only on evidence: in every run from a new tracker,
  whatever the order of snapshots, diffs and invalidations, if a previous update id \<open>p\<close> is set
  then some snapshot of the run overlaps the first of a chain of diffs of the run, each of which
  names its predecessor's final id as its previous one, and \<open>p\<close> is the chain's last final id.\<close>

theorem bridged_only_on_evidence:
  assumes "new_tracker m = Inr t" and "previous_update_id (tracker_run t es) = Some p"
  shows "\<exists>l c. Snapshot l \<in> set es \<and> Diff ` set c \<subseteq> set es \<and> anchored_chain l c \<and>
               final_update_id (last c) = p"
  using tracker_run_evidenced [OF new_tracker_evidenced [OF assms(1)], of es] assms(2)
  by (simp add: evidenced_def)

theorem bridged_only_on_evidence_witness:
  "\<exists>l c. Snapshot l \<in> set ex_events \<and> Diff ` set c \<subseteq> set ex_events \<and> anchored_chain l c \<and>
     final_update_id (last c) = 120"
proof (rule bridged_only_on_evidence)
  show "new_tracker 4 = Inr ex_tracker" by (simp add: new_tracker_def ex_tracker_def)
  show "previous_update_id (tracker_run ex_tracker ex_events) = Some 120"
    by (simp add: ex_tracker_defs)
qed

text \<open>Invalidation forgets everything: whatever the tracker held before, a book that is bridged
  after an \<open>invalidate\<close> rests on a snapshot and on diffs that arrived after it.\<close>

lemma invalidate_forgets:
  assumes "previous_update_id (tracker_run t (es1 @ Invalidate # es2)) = Some p"
  shows "\<exists>l c. Snapshot l \<in> set es2 \<and> Diff ` set c \<subseteq> set es2 \<and> anchored_chain l c \<and>
               final_update_id (last c) = p"
proof -
  have "evidenced [] (invalidate (tracker_run t es1))"
    by (simp add: evidenced_def invalidate_def)
  then have "evidenced es2 (tracker_run t (es1 @ Invalidate # es2))"
    using tracker_run_evidenced by (simp add: tracker_run_def)
  then show ?thesis using assms by (simp add: evidenced_def)
qed

lemma invalidate_forgets_witness:
  "\<exists>l c. Snapshot l \<in> set ex_events \<and> Diff ` set c \<subseteq> set ex_events \<and> anchored_chain l c \<and>
     final_update_id (last c) = 120"
proof (rule invalidate_forgets)
  show "previous_update_id (tracker_run ex_tracker (ex_events @ Invalidate # ex_events)) = Some 120"
    by (simp add: ex_tracker_defs invalidate_def)
qed

text \<open>The buffer is bounded and exclusive in every run: it never holds more than the configured
  number of events, and a bridged tracker holds neither buffered events nor a snapshot.\<close>

lemma tracker_bounded:
  assumes "new_tracker m = Inr t"
  shows "int (length (tr_pending (tracker_run t es))) \<le> m \<and>
    (is_bridged (tracker_run t es) \<longrightarrow>
       \<not> has_events (tracker_run t es) \<and> snapshot_last_update_id (tracker_run t es) = None)"
proof -
  have max: "maximum_buffered_events (tracker_step e u) = maximum_buffered_events u" for e u
    by (cases e) (auto simp: on_snapshot_def on_diff_def invalidate_def Let_def split: option.split)
  have run: "maximum_buffered_events (tracker_run u es) = maximum_buffered_events u" for u
    unfolding tracker_run_def by (induction es arbitrary: u) (simp_all add: max)
  have "int (maximum_buffered_events t) = m"
    using assms by (auto simp: new_tracker_def split: if_splits)
  then show ?thesis
    using tracker_run_ok [OF new_tracker_ok [OF assms], of es] run [of t]
    by (auto simp: tracker_ok_def has_events_def)
qed

lemma tracker_bounded_witness:
  "int (length (tr_pending (tracker_run ex_tracker ex_events))) \<le> 4 \<and>
   is_bridged (tracker_run ex_tracker ex_events)"
proof -
  have "new_tracker 4 = Inr ex_tracker" by (simp add: new_tracker_def ex_tracker_def)
  from tracker_bounded [OF this, of ex_events] show ?thesis
    by (simp add: ex_tracker_defs is_bridged_def)
qed

text \<open>A snapshot bridges whenever it can: over a buffer in receive order, whose events before
  some \<open>b\<close> are all older than the snapshot, where \<open>b\<close> overlaps it and the events from \<open>b\<close> on are
  linked, \<open>on_snapshot\<close> answers BRIDGED, empties the buffer and continues from the last event.\<close>

lemma snapshot_bridges:
  assumes "tr_pending t = old @ b # rest" and "\<not> out_of_order (tr_pending t)"
    and "\<forall>x \<in> set old. final_update_id x < l" and "overlaps l b" and "linked (b # rest)"
  shows "status (fst (on_snapshot l t)) = BRIDGED \<and>
    snd (on_snapshot l t) = t\<lparr>tr_pending := [],
      previous_update_id := Some (final_update_id (last (b # rest))), snapshot_last_update_id := None\<rparr>"
proof -
  have idx: "first_index (\<lambda>span. l \<le> final_update_id span) (old @ b # rest) = length old"
    using assms(3,4) by (induction old) (auto simp: overlaps_def)
  have ord: "order_pending (old @ b # rest) = old @ b # rest"
    using assms(1,2) by (simp add: order_pending_def)
  have loc: "locate_snapshot_bridge l (old @ b # rest) =
      (bridge_result_of BRIDGED)\<lparr>bridge_index := Some (length old), discard_count := length old\<rparr>"
    using assms(4) by (simp add: locate_snapshot_bridge_def Let_def idx overlaps_def)
  show ?thesis
    using scan_chain_linked [OF assms(5), of 1]
    by (simp add: on_snapshot_def evaluate_snapshot_def Let_def assms(1) ord loc bridge_result_of_def)
qed

theorem snapshot_bridges_witness:
  "status (fst (on_snapshot 105 (ex_tracker\<lparr>tr_pending :=
     [ex_span 1 90 99 80, ex_span 2 100 110 99, ex_span 3 111 120 110]\<rparr>))) = BRIDGED"
  by (rule snapshot_bridges [where old = "[ex_span 1 90 99 80]" and b = "ex_span 2 100 110 99" and
      rest = "[ex_span 3 111 120 110]", THEN conjunct1])
     (simp_all add: ex_span_def overlaps_def)

text \<open>A bridged tracker accepts exactly the next diff: it answers CONTIGUOUS and advances if the
  diff names the current final id as its previous one; otherwise it answers SEQUENCE_GAP with both
  ids, is no longer bridged, has dropped the snapshot and keeps exactly that diff for the next one.\<close>

lemma bridged_diff_verdict:
  assumes "previous_update_id t = Some e"
  shows "if previous_final_update_id span = e
    then status (fst (on_diff span t)) = CONTIGUOUS \<and>
         snd (on_diff span t) = t\<lparr>previous_update_id := Some (final_update_id span)\<rparr>
    else status (fst (on_diff span t)) = SEQUENCE_GAP \<and>
         expected_previous_update_id (fst (on_diff span t)) = Some e \<and>
         received_previous_update_id (fst (on_diff span t)) = Some (previous_final_update_id span) \<and>
         \<not> is_bridged (snd (on_diff span t)) \<and> tr_pending (snd (on_diff span t)) = [span] \<and>
         snapshot_last_update_id (snd (on_diff span t)) = None"
  using assms by (auto simp: on_diff_def sequence_continues_def bridge_result_of_def is_bridged_def)

theorem bridged_diff_verdict_witness:
  "status (fst (on_diff (ex_span 4 121 130 120) (ex_tracker\<lparr>previous_update_id := Some 120\<rparr>))) = CONTIGUOUS \<and>
   status (fst (on_diff (ex_span 4 121 130 119) (ex_tracker\<lparr>previous_update_id := Some 120\<rparr>))) = SEQUENCE_GAP"
  using bridged_diff_verdict [of "ex_tracker\<lparr>previous_update_id := Some 120\<rparr>" 120 "ex_span 4 121 130 120"]
    bridged_diff_verdict [of "ex_tracker\<lparr>previous_update_id := Some 120\<rparr>" 120 "ex_span 4 121 130 119"]
  by (simp add: ex_span_def)

text \<open>A stale verdict is final: when a snapshot is found stale against a buffer whose events are
  in order of their first ids, no buffered event overlaps it, so it is dropped and a new snapshot
  is needed; the tracker is left unbridged with only events newer than the snapshot.\<close>

lemma stale_snapshot_hopeless:
  assumes "status (fst (on_snapshot l t)) = STALE_SNAPSHOT"
    and "sorted_wrt (\<lambda>a b. first_update_id a \<le> first_update_id b) (order_pending (tr_pending t))"
  shows "(\<forall>x \<in> set (tr_pending t). \<not> overlaps l x) \<and>
    \<not> is_bridged (snd (on_snapshot l t)) \<and> snapshot_last_update_id (snd (on_snapshot l t)) = None \<and>
    (\<forall>x \<in> set (tr_pending (snd (on_snapshot l t))). l < first_update_id x)"
proof -
  define d where "d = locate_snapshot_bridge l (order_pending (tr_pending t))"
  have st: "status d = STALE_SNAPSHOT"
    using assms(1) rule.verdict [of l "order_pending (tr_pending t)"]
    by (auto simp: on_snapshot_def evaluate_snapshot_def Let_def bridge_result_of_def
        simp flip: d_def split: if_splits sum.splits)
  have eq: "on_snapshot l t = (d, t\<lparr>tr_pending := drop (discard_count d) (order_pending (tr_pending t)),
      previous_update_id := None, snapshot_last_update_id := None\<rparr>)"
    using st by (simp add: on_snapshot_def evaluate_snapshot_def Let_def d_def)
  have none: "\<forall>x \<in> set (tr_pending t). \<not> overlaps l x"
    using rule.stale_hopeless [of l _ ] st assms(2) by (simp add: d_def)
  have n: "discard_count d < length (order_pending (tr_pending t))"
    using rule.not_waiting_less [of l "order_pending (tr_pending t)"] st by (simp add: d_def)
  have "sorted_wrt (\<lambda>a b. first_update_id a \<le> first_update_id b)
      (drop (discard_count d) (order_pending (tr_pending t)))"
    using assms(2) by (rule sorted_wrt_drop)
  moreover have "l < first_update_id (hd (drop (discard_count d) (order_pending (tr_pending t))))"
    using rule.stale [of l "order_pending (tr_pending t)"] st n by (simp add: d_def hd_drop_conv_nth)
  ultimately have "\<forall>x \<in> set (drop (discard_count d) (order_pending (tr_pending t))). l < first_update_id x"
    using n by (cases "drop (discard_count d) (order_pending (tr_pending t))") auto
  with eq none show ?thesis by (simp add: is_bridged_def)
qed

theorem stale_snapshot_hopeless_witness:
  "\<not> overlaps 95 (ex_span 2 100 110 99) \<and>
   status (fst (on_snapshot 95 (ex_tracker\<lparr>tr_pending := [ex_span 2 100 110 99]\<rparr>))) = STALE_SNAPSHOT"
proof -
  have "status (fst (on_snapshot 95 (ex_tracker\<lparr>tr_pending := [ex_span 2 100 110 99]\<rparr>))) = STALE_SNAPSHOT"
    by (simp add: ex_tracker_defs)
  then show ?thesis using stale_snapshot_hopeless [of 95 "ex_tracker\<lparr>tr_pending := [ex_span 2 100 110 99]\<rparr>"]
    by (simp add: order_pending_def)
qed

end
