(* ===== verification/Json.thy ===== *)
theory Json
  imports Complex_Main Prelude
begin

text \<open>
  JSON values as \<open>orjson.loads\<close> returns them, and the Python built-ins the code applies to
  them: \<open>dict.get\<close>, \<open>isinstance\<close>, \<open>int\<close>, \<open>str\<close>. The parser itself is third-party code, so
  its result is the model's input. A float carries its exact value and its \<open>repr\<close>. Text is
  read in ASCII: digits and white space outside ASCII are not recognised.
\<close>

section \<open>Values\<close>

datatype json =
    JNull
  | JBool bool
  | JInt int
  | JFloat rat string
  | JStr string
  | JList "json list"
  | JObj "(string \<times> json) list"

text \<open>\<open>obj.get(key)\<close> on a dict: \<open>None\<close> for a missing key.\<close>

definition jget :: "(string \<times> json) list \<Rightarrow> string \<Rightarrow> json" where
  "jget obj k = (case map_of obj k of None \<Rightarrow> JNull | Some v \<Rightarrow> v)"

text \<open>\<open>value == n\<close> for an int \<open>n\<close>: Python compares numbers by value, and bools are numbers.\<close>

definition equals_int :: "json \<Rightarrow> int \<Rightarrow> bool" where
  "equals_int v n = (case v of JInt i \<Rightarrow> i = n | JBool b \<Rightarrow> (if b then 1 else 0) = n
     | JFloat r _ \<Rightarrow> r = of_int n | _ \<Rightarrow> False)"

text \<open>\<open>isinstance(value, int)\<close>: bools are ints.\<close>

definition instance_int :: "json \<Rightarrow> int option" where
  "instance_int v = (case v of JInt i \<Rightarrow> Some i | JBool b \<Rightarrow> Some (if b then 1 else 0) | _ \<Rightarrow> None)"

section \<open>Decimal digits\<close>

definition is_digit :: "char \<Rightarrow> bool" where
  "is_digit c \<longleftrightarrow> CHR ''0'' \<le> c \<and> c \<le> CHR ''9''"

definition digit_char :: "nat \<Rightarrow> char" where
  "digit_char d = char_of (48 + d)"

definition char_digit :: "char \<Rightarrow> nat" where
  "char_digit c = of_char c - 48"

fun show_nat :: "nat \<Rightarrow> string" where
  "show_nat n = (if n < 10 then [digit_char n] else show_nat (n div 10) @ [digit_char (n mod 10)])"

declare show_nat.simps [simp del]

definition show_int :: "int \<Rightarrow> string" where
  "show_int i = (if i < 0 then CHR ''-'' # show_nat (nat (- i)) else show_nat (nat i))"

definition digits_value :: "string \<Rightarrow> nat" where
  "digits_value cs = foldl (\<lambda>n c. 10 * n + char_digit c) 0 cs"

lemma is_digit_code: "is_digit c \<longleftrightarrow> 48 \<le> (of_char c :: nat) \<and> (of_char c :: nat) \<le> 57"
  by (simp add: is_digit_def less_eq_char_def)

lemma is_digit_char [simp]: "d < 10 \<Longrightarrow> is_digit (digit_char d)"
  by (simp add: is_digit_code digit_char_def)

lemma char_digit_char [simp]: "d < 10 \<Longrightarrow> char_digit (digit_char d) = d"
  by (simp add: char_digit_def digit_char_def)

lemma digits_value_snoc: "digits_value (cs @ [c]) = 10 * digits_value cs + char_digit c"
  by (simp add: digits_value_def)

lemma digits_value_show [simp]: "digits_value (show_nat n) = n"
proof (induction n rule: show_nat.induct)
  case (1 n)
  then show ?case
    by (cases "n < 10") (simp_all add: show_nat.simps [of n] digits_value_snoc, simp add: digits_value_def)
qed

lemma show_nat_digits: "c \<in> set (show_nat n) \<Longrightarrow> is_digit c"
proof (induction n rule: show_nat.induct)
  case (1 n)
  then show ?case by (cases "n < 10") (auto simp: show_nat.simps [of n])
qed

lemma show_nat_nonempty [simp]: "show_nat n \<noteq> []"
  by (simp add: show_nat.simps [of n])

lemma not_digit_simps [simp]:
  "\<not> is_digit CHR ''-''" "\<not> is_digit CHR ''+''" "\<not> is_digit CHR ''_''" "\<not> is_digit CHR ''.''"
  "\<not> is_digit CHR ''E''" "\<not> is_digit CHR ''e''"
  by (simp_all add: is_digit_code)

section \<open>\<open>int(text)\<close>\<close>

definition is_space :: "char \<Rightarrow> bool" where
  "is_space c \<longleftrightarrow> c = CHR '' '' \<or> CHR 0x09 \<le> c \<and> c \<le> CHR 0x0D \<or> CHR 0x1C \<le> c \<and> c \<le> CHR 0x1F"

definition strip :: "string \<Rightarrow> string" where
  "strip s = rev (dropWhile is_space (rev (dropWhile is_space s)))"

text \<open>One or more digits, with single underscores allowed between two digits.\<close>

fun digit_run :: "string \<Rightarrow> bool" where
  "digit_run [] \<longleftrightarrow> False"
| "digit_run [c] \<longleftrightarrow> is_digit c"
| "digit_run (c # d # cs) \<longleftrightarrow> is_digit c \<and> (if d = CHR ''_'' then digit_run cs else digit_run (d # cs))"

fun split_sign :: "string \<Rightarrow> bool \<times> string" where
  "split_sign (c # cs) = (if c = CHR ''-'' then (True, cs) else if c = CHR ''+'' then (False, cs) else (False, c # cs))"
| "split_sign [] = (False, [])"

definition parse_int :: "string \<Rightarrow> int option" where
  "parse_int s =
     (let (neg, body) = split_sign (strip s) in
      if digit_run body then
        let n = int (digits_value (filter is_digit body)) in Some (if neg then - n else n)
      else None)"

text \<open>\<open>int(value)\<close> of a JSON value: floats truncate towards zero.\<close>

definition py_int :: "json \<Rightarrow> py_error + int" where
  "py_int v = (case v of
      JInt i \<Rightarrow> Inr i
    | JBool b \<Rightarrow> Inr (if b then 1 else 0)
    | JFloat r _ \<Rightarrow> Inr (if r < 0 then \<lceil>r\<rceil> else \<lfloor>r\<rfloor>)
    | JStr s \<Rightarrow> (case parse_int s of None \<Rightarrow> Inl (ValueError ''invalid literal for int()'') | Some i \<Rightarrow> Inr i)
    | _ \<Rightarrow> Inl (TypeError ''int() argument must be a string or a number''))"

text \<open>
  \<open>str(value)\<close> of a scalar; \<open>None\<close> for a list or a dict, whose text starts with a bracket and
  is therefore no number and no symbol.
\<close>

definition py_str :: "json \<Rightarrow> string option" where
  "py_str v = (case v of
      JNull \<Rightarrow> Some ''None''
    | JBool b \<Rightarrow> Some (if b then ''True'' else ''False'')
    | JInt i \<Rightarrow> Some (show_int i)
    | JFloat _ r \<Rightarrow> Some r
    | JStr s \<Rightarrow> Some s
    | _ \<Rightarrow> None)"

lemma digit_run_digits: "cs \<noteq> [] \<Longrightarrow> \<forall>c \<in> set cs. is_digit c \<Longrightarrow> digit_run cs"
  by (induction cs rule: digit_run.induct) auto

lemma strip_digits:
  assumes "s \<noteq> []" "\<not> is_space (hd s)" "\<not> is_space (last s)"
  shows "strip s = s"
proof -
  have "dropWhile is_space s = s" using assms by (cases s) auto
  moreover have "dropWhile is_space (rev s) = rev s"
    using assms by (cases "rev s") (auto simp: last_rev hd_rev dest: arg_cong [of _ _ rev])
  ultimately show ?thesis by (simp add: strip_def)
qed

lemma is_digit_not_space: "is_digit c \<Longrightarrow> \<not> is_space c"
  by (auto simp: is_digit_def is_space_def less_eq_char_def)

lemma split_sign_digits: "cs \<noteq> [] \<Longrightarrow> is_digit (hd cs) \<Longrightarrow> split_sign cs = (False, cs)"
  by (cases cs) auto

text \<open>Printing an int and reading it back is the identity.\<close>

lemma parse_show_int [simp]: "parse_int (show_int i) = Some i"
proof -
  have d: "\<forall>c \<in> set (show_nat n). is_digit c" for n using show_nat_digits by blast
  have h: "is_digit (hd (show_nat n))" "is_digit (last (show_nat n))" for n
    using d [of n] by (simp_all add: hd_in_set)
  have s: "\<not> is_space (hd (show_nat n))" "\<not> is_space (last (show_nat n))" for n
    using h [of n] by (simp_all add: is_digit_not_space)
  have m: "\<not> is_space CHR ''-''" by (simp add: is_space_def less_eq_char_def)
  show ?thesis
    using d m h s by (simp add: parse_int_def show_int_def strip_digits split_sign_digits digit_run_digits)
qed

end
