(* ===== verification/Decimals.thy ===== *)
theory Decimals
  imports Json
begin

text \<open>
  \<open>decimal.Decimal\<close> as the code uses it: a finite decimal is a sign, a coefficient and an
  exponent; \<open>Decimal(text)\<close> reads it exactly, \<open>str\<close> prints it in Python's scientific
  notation, and comparison is by value. Infinities and NaNs are read as non-finite.
\<close>

section \<open>Values\<close>

datatype decimal = Fin (negative: bool) (coefficient: nat) (exponent: int)

definition scale10 :: "int \<Rightarrow> rat" where
  "scale10 e = (if 0 \<le> e then 10 ^ nat e else 1 / 10 ^ nat (- e))"

definition dval :: "decimal \<Rightarrow> rat" where
  "dval d = (if negative d then - 1 else 1) * of_nat (coefficient d) * scale10 (exponent d)"

section \<open>Reading\<close>

definition exponent_part :: "string \<Rightarrow> int option" where
  "exponent_part r =
     (case r of
        [] \<Rightarrow> Some 0
      | c # cs \<Rightarrow>
          if c = CHR ''e'' \<or> c = CHR ''E'' then
            let (neg, ds) = split_sign cs in
            if ds \<noteq> [] \<and> list_all is_digit ds then
              Some (if neg then - int (digits_value ds) else int (digits_value ds))
            else None
          else None)"

definition parse_decimal_body :: "bool \<Rightarrow> string \<Rightarrow> decimal option" where
  "parse_decimal_body neg body =
     (let i = takeWhile is_digit body;
          r = dropWhile is_digit body;
          f = (case r of c # cs \<Rightarrow> if c = CHR ''.'' then takeWhile is_digit cs else [] | [] \<Rightarrow> []);
          r' = (case r of c # cs \<Rightarrow> if c = CHR ''.'' then dropWhile is_digit cs else r | [] \<Rightarrow> []) in
      if i = [] \<and> f = [] then None
      else map_option (\<lambda>e. Fin neg (digits_value (i @ f)) (e - int (length f))) (exponent_part r'))"

text \<open>\<open>Decimal(text)\<close> for a finite decimal; \<open>None\<close> for any other text.\<close>

definition parse_decimal :: "string \<Rightarrow> decimal option" where
  "parse_decimal s =
     (let (neg, body) = split_sign (filter (\<lambda>c. c \<noteq> CHR ''_'') (strip s)) in parse_decimal_body neg body)"

section \<open>Printing\<close>

definition show_exponent :: "int \<Rightarrow> string" where
  "show_exponent x = (if x = 0 then [] else CHR ''E'' # (if x < 0 then CHR ''-'' else CHR ''+'') # show_nat (nat \<bar>x\<bar>))"

definition show_decimal :: "decimal \<Rightarrow> string" where
  "show_decimal d =
     (let ds = show_nat (coefficient d);
          n = int (length ds);
          leftdigits = exponent d + n;
          dotplace = (if exponent d \<le> 0 \<and> - 6 < leftdigits then leftdigits else 1);
          intpart = (if dotplace \<le> 0 then ''0''
                     else if n \<le> dotplace then ds @ replicate (nat (dotplace - n)) CHR ''0''
                     else take (nat dotplace) ds);
          fracpart = (if dotplace \<le> 0 then CHR ''.'' # replicate (nat (- dotplace)) CHR ''0'' @ ds
                      else if n \<le> dotplace then []
                      else CHR ''.'' # drop (nat dotplace) ds) in
      (if negative d then ''-'' else []) @ intpart @ fracpart @ show_exponent (leftdigits - dotplace))"

section \<open>Reading back what was printed\<close>

lemma takeWhile_digits [simp]: "list_all is_digit ds \<Longrightarrow> takeWhile is_digit (ds @ r) = ds @ takeWhile is_digit r"
  by (induction ds) auto

lemma dropWhile_digits [simp]: "list_all is_digit ds \<Longrightarrow> dropWhile is_digit (ds @ r) = dropWhile is_digit r"
  by (induction ds) auto

lemma show_nat_all [simp]: "list_all is_digit (show_nat n)"
  using show_nat_digits by (auto simp: list_all_iff)

lemma exponent_part_show [simp]: "exponent_part (show_exponent x) = Some x"
proof (cases "x = 0")
  case True
  then show ?thesis by (simp add: show_exponent_def exponent_part_def)
next
  case False
  then show ?thesis by (auto simp: show_exponent_def exponent_part_def)
qed

lemma show_exponent_head: "show_exponent x = [] \<or> (\<exists>r. show_exponent x = CHR ''E'' # r)"
  by (simp add: show_exponent_def)

lemma parse_body_show:
  assumes "i \<noteq> []" "list_all is_digit i" "list_all is_digit f"
  shows "parse_decimal_body neg (i @ (if f = [] then [] else CHR ''.'' # f) @ show_exponent x) =
    Some (Fin neg (digits_value (i @ f)) (x - int (length f)))"
proof (cases "show_exponent x")
  case Nil
  then have "x = 0" by (simp add: show_exponent_def split: if_splits)
  have whole: "takeWhile is_digit xs = xs" "dropWhile is_digit xs = []" if "list_all is_digit xs" for xs
    using takeWhile_digits [OF that, of "[]"] dropWhile_digits [OF that, of "[]"] by simp_all
  from \<open>x = 0\<close> show ?thesis using assms Nil
    by (simp add: parse_decimal_body_def Let_def exponent_part_def whole [OF assms(2)] whole [OF assms(3)])
next
  case (Cons c r)
  then have c: "c = CHR ''E''" using show_exponent_head [of x] by auto
  have "takeWhile is_digit (f @ show_exponent x) = f" "dropWhile is_digit (f @ show_exponent x) = show_exponent x"
    using assms(3) Cons c by simp_all
  then show ?thesis
    using assms Cons c exponent_part_show [of x] by (simp add: parse_decimal_body_def Let_def)
qed

lemma digits_value_zeros [simp]: "digits_value (replicate k CHR ''0'' @ ds) = digits_value ds"
  by (induction k) (simp_all add: digits_value_def char_digit_def)

lemma digits_value_zero_Cons [simp]: "digits_value (CHR ''0'' # ds) = digits_value ds"
  using digits_value_zeros [of 1 ds] by simp

lemma show_decimal_shape:
  obtains i f x where "show_decimal d = (if negative d then ''-'' else []) @ i @
      (if f = [] then [] else CHR ''.'' # f) @ show_exponent x"
    "i \<noteq> []" "list_all is_digit i" "list_all is_digit f"
    "digits_value (i @ f) = coefficient d" "x - int (length f) = exponent d"
proof -
  define ds where "ds = show_nat (coefficient d)"
  define n where "n = int (length ds)"
  define left where "left = exponent d + n"
  define dot where "dot = (if exponent d \<le> 0 \<and> - 6 < left then left else 1)"
  have ds: "ds \<noteq> []" "list_all is_digit ds" "digits_value ds = coefficient d" "0 < n"
    by (simp_all add: ds_def n_def)
  have zero: "is_digit CHR ''0''" by (simp add: is_digit_code)
  have unfold: "show_decimal d = (if negative d then ''-'' else []) @
      (if dot \<le> 0 then ''0'' else if n \<le> dot then ds @ replicate (nat (dot - n)) CHR ''0'' else take (nat dot) ds) @
      (if dot \<le> 0 then CHR ''.'' # replicate (nat (- dot)) CHR ''0'' @ ds else if n \<le> dot then []
       else CHR ''.'' # drop (nat dot) ds) @ show_exponent (left - dot)"
    by (simp add: show_decimal_def Let_def ds_def n_def left_def dot_def)
  consider (small) "dot \<le> 0" | (whole) "0 < dot" "n \<le> dot" | (mixed) "0 < dot" "dot < n" by linarith
  then show thesis
  proof cases
    case small
    then have "dot = left" by (auto simp: dot_def split: if_splits)
    with small ds zero show thesis
      by (intro that [of "''0''" "replicate (nat (- dot)) CHR ''0'' @ ds" "left - dot"])
        (auto simp: unfold list_all_iff left_def n_def)
  next
    case whole
    then have "dot = n" using ds(4) by (auto simp: dot_def left_def split: if_splits)
    with whole ds show thesis
      by (intro that [of ds "[]" "left - dot"]) (auto simp: unfold left_def n_def)
  next
    case mixed
    then have "take (nat dot) ds \<noteq> []" "drop (nat dot) ds \<noteq> []" by (auto simp: n_def)
    moreover have "int (length (drop (nat dot) ds)) = n - dot" using mixed by (simp add: n_def)
    moreover have "list_all is_digit (take (nat dot) ds)" "list_all is_digit (drop (nat dot) ds)"
      using ds(2) by (auto simp: list_all_iff dest: in_set_takeD in_set_dropD)
    ultimately show thesis using mixed ds
      by (intro that [of "take (nat dot) ds" "drop (nat dot) ds" "left - dot"])
        (auto simp: unfold left_def)
  qed
qed

lemma parse_show_decimal [simp]: "parse_decimal (show_decimal d) = Some d"
proof -
  obtain i f x where sh: "show_decimal d = (if negative d then ''-'' else []) @ i @
      (if f = [] then [] else CHR ''.'' # f) @ show_exponent x"
    and i: "i \<noteq> []" "list_all is_digit i" and f: "list_all is_digit f"
    and v: "digits_value (i @ f) = coefficient d" "x - int (length f) = exponent d"
    by (rule show_decimal_shape)
  let ?b = "i @ (if f = [] then [] else CHR ''.'' # f) @ show_exponent x"
  have dg: "is_digit (hd i)" "\<And>xs. xs \<noteq> [] \<Longrightarrow> list_all is_digit xs \<Longrightarrow> is_digit (last xs)"
    using i by (auto simp: list_all_iff)
  have "is_digit (last ?b)"
    using i f dg(2) by (auto simp: show_exponent_def)
  moreover have hb: "hd ?b = hd i" "?b \<noteq> []" using i(1) by simp_all
  moreover have sp: "\<not> is_space CHR ''-''" by (simp add: is_space_def less_eq_char_def)
  ultimately have strip: "strip (show_decimal d) = show_decimal d"
    unfolding sh using dg(1) by (intro strip_digits) (auto simp: is_digit_not_space simp del: append_assoc)
  have us: "\<And>xs. list_all is_digit xs \<Longrightarrow> filter (\<lambda>c. c \<noteq> CHR ''_'') xs = xs"
    by (rule filter_True) (auto simp: list_all_iff)
  have "filter (\<lambda>c. c \<noteq> CHR ''_'') (show_decimal d) = show_decimal d"
    unfolding sh using i f us by (simp add: show_exponent_def)
  moreover have "split_sign ((if negative d then ''-'' else []) @ ?b) = (negative d, ?b)"
    using dg(1) hb split_sign_digits [of ?b] by simp
  ultimately show ?thesis
    using strip parse_body_show [OF i f, of "negative d" x] v sh
    by (simp add: parse_decimal_def)
qed

end
