(* ===== verification/Contracts.thy ===== *)
theory Contracts
  imports Decimals
begin

text \<open>
  The contracts shared by collector and pipeline, \<open>src/miry/contracts\<close>: symbols
  (\<open>symbols.py\<close>), the enumerations and validated records of \<open>models.py\<close>, the collection
  contract (\<open>collection.py\<close>) and the universe hash of \<open>serde.py\<close>. A pydantic model is a
  record, and its validation a function from the raw fields to the record or the first
  violation. Unicode tables, SHA-256 and \<open>orjson.dumps\<close> are parameters.
\<close>

section \<open>Symbols\<close>

text \<open>The Unicode database's part of \<open>str\<close>: \<open>strip\<close>, NFC, \<open>upper\<close> and \<open>isalnum\<close>.\<close>

record unicode =
  u_strip :: "string \<Rightarrow> string"
  u_nfc :: "string \<Rightarrow> string"
  u_upper :: "string \<Rightarrow> string"
  u_isalnum :: "string \<Rightarrow> bool"

text \<open>\<open>len(value)\<close> counts code points: the UTF-8 bytes that are not continuation bytes.\<close>

definition code_points :: "string \<Rightarrow> nat" where
  "code_points s = length (filter (\<lambda>c. \<not> (CHR 0x80 \<le> c \<and> c < CHR 0xC0)) s)"

definition MAX_SYMBOL_LENGTH :: nat where
  "MAX_SYMBOL_LENGTH = 30"

definition is_exchange_symbol :: "unicode \<Rightarrow> string \<Rightarrow> bool" where
  "is_exchange_symbol u s \<longleftrightarrow>
     1 \<le> code_points s \<and> code_points s \<le> MAX_SYMBOL_LENGTH \<and>
     s = u_strip u s \<and> s = u_nfc u s \<and> s = u_upper u s \<and> u_isalnum u s"

definition validate_exchange_symbol :: "unicode \<Rightarrow> string \<Rightarrow> py_error + string" where
  "validate_exchange_symbol u s =
     (if \<not> is_exchange_symbol u s then Inl (ValueError ''invalid canonical exchange symbol'') else Inr s)"

definition validate_symbols :: "unicode \<Rightarrow> string list \<Rightarrow> nat option \<Rightarrow> py_error + string list" where
  "validate_symbols u values count =
     rbind (map_result (validate_exchange_symbol u) (filter (\<lambda>raw. raw \<noteq> []) values)) (\<lambda>result.
       if length result \<noteq> card (set result) then Inl (ValueError ''symbol list contains duplicates'')
       else case count of
         Some n \<Rightarrow> if length result \<noteq> n then Inl (ValueError ''symbol list must contain exactly count values'')
                   else Inr result
       | None \<Rightarrow> Inr result)"

text \<open>The tables restricted to ASCII, on which examples are evaluated.\<close>

definition ascii_upper :: "char \<Rightarrow> char" where
  "ascii_upper c = (if CHR ''a'' \<le> c \<and> c \<le> CHR ''z''
     then char_of ((of_char c :: nat) - 32) else c)"

definition ascii_alnum :: "char \<Rightarrow> bool" where
  "ascii_alnum c \<longleftrightarrow> is_digit c \<or> CHR ''A'' \<le> c \<and> c \<le> CHR ''Z'' \<or> CHR ''a'' \<le> c \<and> c \<le> CHR ''z''"

definition ascii :: unicode where
  "ascii = \<lparr>u_strip = strip, u_nfc = id, u_upper = map ascii_upper,
     u_isalnum = (\<lambda>s. s \<noteq> [] \<and> list_all ascii_alnum s)\<rparr>"

section \<open>Enumerations\<close>

datatype stream_type =
    DEPTH | RPI_DEPTH | DEPTH_SNAPSHOT | RPI_DEPTH_SNAPSHOT | BOOK_TICKER | AGG_TRADE | TRADE
  | MARK_PRICE | FORCE_ORDER | CONTRACT_INFO | OPEN_INTEREST | EXCHANGE_INFO | MARKET_TICKERS
  | DAILY_KLINES | LIQUIDITY_DEPTH | UNIVERSE_DECISION | FORMAL_COLLECTION_STARTED | CLOCK_SAMPLE
  | WS_CONTROL | UNKNOWN

fun stream_value :: "stream_type \<Rightarrow> string" where
  "stream_value DEPTH = ''depth''"
| "stream_value RPI_DEPTH = ''rpi_depth''"
| "stream_value DEPTH_SNAPSHOT = ''depth_snapshot''"
| "stream_value RPI_DEPTH_SNAPSHOT = ''rpi_depth_snapshot''"
| "stream_value BOOK_TICKER = ''book_ticker''"
| "stream_value AGG_TRADE = ''agg_trade''"
| "stream_value TRADE = ''trade''"
| "stream_value MARK_PRICE = ''mark_price''"
| "stream_value FORCE_ORDER = ''force_order''"
| "stream_value CONTRACT_INFO = ''contract_info''"
| "stream_value OPEN_INTEREST = ''open_interest''"
| "stream_value EXCHANGE_INFO = ''exchange_info''"
| "stream_value MARKET_TICKERS = ''market_tickers''"
| "stream_value DAILY_KLINES = ''daily_klines''"
| "stream_value LIQUIDITY_DEPTH = ''liquidity_depth''"
| "stream_value UNIVERSE_DECISION = ''universe_decision''"
| "stream_value FORMAL_COLLECTION_STARTED = ''formal_collection_started''"
| "stream_value CLOCK_SAMPLE = ''clock_sample''"
| "stream_value WS_CONTROL = ''ws_control''"
| "stream_value UNKNOWN = ''unknown''"

datatype writer_group = GROUP_DEPTH | GROUP_TRADES_MARKET | GROUP_METADATA | GROUP_CONTROL

datatype content_type = PARQUET | GAP_JSON

datatype gap_reason =
    INGEST_OVERLOAD | STORAGE_EXHAUSTED | CONNECTION_LOST | L2_SEQUENCE | L2_REANCHOR
  | PLANNED_BOUNDARY | COLLECTOR_STOPPED

datatype gap_state = OPEN | CLOSED

datatype universe_decision_reason =
    FORMAL_BOOTSTRAP | DAILY_CANDIDATE | WEEKLY_CORE | INACTIVE_REPLACEMENT | MANUAL_CANDIDATE_OVERRIDE

text \<open>The enum values that are written to files and compared as strings.\<close>

fun writer_group_value :: "writer_group \<Rightarrow> string" where
  "writer_group_value GROUP_DEPTH = ''depth''"
| "writer_group_value GROUP_TRADES_MARKET = ''trades_market''"
| "writer_group_value GROUP_METADATA = ''metadata''"
| "writer_group_value GROUP_CONTROL = ''control''"

fun gap_reason_value :: "gap_reason \<Rightarrow> string" where
  "gap_reason_value INGEST_OVERLOAD = ''INGEST_OVERLOAD_GAP''"
| "gap_reason_value STORAGE_EXHAUSTED = ''STORAGE_EXHAUSTED_GAP''"
| "gap_reason_value CONNECTION_LOST = ''CONNECTION_LOST_GAP''"
| "gap_reason_value L2_SEQUENCE = ''L2_SEQUENCE_GAP''"
| "gap_reason_value L2_REANCHOR = ''L2_REANCHOR_GAP''"
| "gap_reason_value PLANNED_BOUNDARY = ''PLANNED_BOUNDARY_GAP''"
| "gap_reason_value COLLECTOR_STOPPED = ''COLLECTOR_STOPPED_GAP''"

fun gap_state_value :: "gap_state \<Rightarrow> string" where
  "gap_state_value OPEN = ''OPEN''"
| "gap_state_value CLOSED = ''CLOSED''"

section \<open>Time stamps with a zone\<close>

text \<open>
  A \<open>datetime\<close>: its wall clock in microseconds since 1970-01-01 00:00 and its offset from UTC
  in microseconds, \<open>None\<close> for a naive one.
\<close>

record py_datetime =
  wall_us :: int
  utc_offset :: "int option"

definition us_per_day :: int where
  "us_per_day = 86400 * 1000000"

definition dt_date :: "py_datetime \<Rightarrow> utc_date" where
  "dt_date d = wall_us d div us_per_day"

definition dt_midnight :: "py_datetime \<Rightarrow> bool" where
  "dt_midnight d \<longleftrightarrow> wall_us d mod us_per_day = 0"

definition require_utc :: "py_datetime \<Rightarrow> py_error + unit" where
  "require_utc d = check (utc_offset d = Some 0) (ValueError ''timestamp must be UTC'')"

section \<open>Patterns and paths\<close>

definition is_lower_hex :: "char \<Rightarrow> bool" where
  "is_lower_hex c \<longleftrightarrow> is_digit c \<or> CHR ''a'' \<le> c \<and> c \<le> CHR ''f''"

definition hash_pattern :: "string \<Rightarrow> bool" where
  "hash_pattern s \<longleftrightarrow> length s = 64 \<and> list_all is_lower_hex s"

definition is_id_char :: "char \<Rightarrow> bool" where
  "is_id_char c \<longleftrightarrow> ascii_alnum c \<or> c = CHR ''.'' \<or> c = CHR ''_'' \<or> c = CHR ''-''"

definition id_pattern :: "string \<Rightarrow> bool" where
  "id_pattern s \<longleftrightarrow> 8 \<le> length s \<and> length s \<le> 160 \<and> list_all is_id_char s"

text \<open>The components of \<open>PurePosixPath(value)\<close>: split at slashes, without empty ones and \<open>.\<close>.\<close>

fun split_slash :: "string \<Rightarrow> string list" where
  "split_slash [] = [[]]"
| "split_slash (c # cs) =
     (case split_slash cs of
        [] \<Rightarrow> []
      | p # ps \<Rightarrow> if c = CHR ''/'' then [] # p # ps else (c # p) # ps)"

definition path_parts :: "string \<Rightarrow> string list" where
  "path_parts s = filter (\<lambda>p. p \<noteq> [] \<and> p \<noteq> ''.'') (split_slash s)"

definition path_absolute :: "string \<Rightarrow> bool" where
  "path_absolute s \<longleftrightarrow> (case s of [] \<Rightarrow> False | c # _ \<Rightarrow> c = CHR ''/'')"

definition safe_relative_path :: "string \<Rightarrow> bool" where
  "safe_relative_path s \<longleftrightarrow> \<not> (path_absolute s \<or> ''..'' \<in> set (path_parts s))"

section \<open>Raw events\<close>

record raw_event =
  ev_schema_version :: int
  ev_exchange_symbol :: "string option"
  ev_stream_type :: stream_type
  ev_collector_id :: string
  ev_boot_id :: string
  ev_segment_id :: string
  ev_connection_id :: string
  ev_receive_seq :: int
  ev_app_receive_realtime_ns :: int
  ev_app_receive_monotonic_ns :: int
  ev_payload_bytes :: string
  ev_request_id :: "string option"
  ev_request_realtime_ns :: "int option"

definition raw_event_post_init :: "unicode \<Rightarrow> raw_event \<Rightarrow> py_error + raw_event" where
  "raw_event_post_init u e =
     (if ev_schema_version e \<noteq> 1 then Inl (ValueError ''raw event requires schema_version=1'')
      else if (case ev_exchange_symbol e of None \<Rightarrow> False | Some s \<Rightarrow> \<not> is_exchange_symbol u s) then
        Inl (ValueError ''invalid exchange_symbol'')
      else if ev_collector_id e = [] \<or> ev_boot_id e = [] \<or> ev_segment_id e = [] then
        Inl (ValueError ''collector, boot, and segment identities are required'')
      else if ev_connection_id e = [] then Inl (ValueError ''connection_id is required'')
      else if ev_receive_seq e < 1 then Inl (ValueError ''receive_seq must be positive'')
      else if min (ev_app_receive_realtime_ns e) (ev_app_receive_monotonic_ns e) < 0 then
        Inl (ValueError ''receive timestamps cannot be negative'')
      else if ev_payload_bytes e = [] then Inl (ValueError ''payload_bytes cannot be empty'')
      else if (ev_request_id e = None) \<noteq> (ev_request_realtime_ns e = None) then
        Inl (ValueError ''REST request identity and timestamp must be supplied together'')
      else Inr e)"

definition approximate_size_bytes :: "raw_event \<Rightarrow> int" where
  "approximate_size_bytes e = int (length (ev_payload_bytes e)) + 256"

definition writer_group_of :: "raw_event \<Rightarrow> writer_group" where
  "writer_group_of e =
     (if ev_stream_type e \<in> {DEPTH, RPI_DEPTH, DEPTH_SNAPSHOT, RPI_DEPTH_SNAPSHOT} then GROUP_DEPTH
      else if ev_stream_type e \<in> {BOOK_TICKER, AGG_TRADE, TRADE, MARK_PRICE, FORCE_ORDER} then GROUP_TRADES_MARKET
      else GROUP_METADATA)"

section \<open>Chunks, acknowledgements, days\<close>

record chunk_ref =
  chunk_id :: string
  data_path :: string
  chunk_sha256 :: string
  size_bytes :: int
  chunk_content_type :: content_type

text \<open>The field constraints of \<open>ChunkRef\<close>, in field order, then its validators.\<close>

definition validate_chunk_ref :: "chunk_ref \<Rightarrow> py_error + chunk_ref" where
  "validate_chunk_ref c =
     (if \<not> id_pattern (chunk_id c) then Inl (ValueError ''chunk_id contains unsafe characters'')
      else if \<not> (1 \<le> code_points (data_path c) \<and> code_points (data_path c) \<le> 500) then
        Inl (ValueError ''data_path has an invalid length'')
      else if \<not> safe_relative_path (data_path c) then
        Inl (ValueError ''data_path must be a safe relative POSIX path'')
      else if \<not> hash_pattern (chunk_sha256 c) then Inl (ValueError ''sha256 must be lowercase hexadecimal'')
      else if size_bytes c \<le> 0 then Inl (ValueError ''size_bytes must be positive'')
      else Inr c)"

definition valid_collector_id_length :: "string \<Rightarrow> bool" where
  "valid_collector_id_length s \<longleftrightarrow> 1 \<le> code_points s \<and> code_points s \<le> 100"

record chunk_manifest = chunk_ref +
  cm_schema_version :: int
  cm_collector_id :: string
  cm_writer_group :: writer_group
  cm_utc_date :: utc_date
  event_count :: int
  min_app_receive_realtime_ns :: int
  max_app_receive_realtime_ns :: int
  data_contract_hash :: string
  cm_universe_hash :: string
  cm_created_at :: py_datetime

definition as_ref :: "chunk_manifest \<Rightarrow> chunk_ref" where
  "as_ref c = \<lparr>chunk_id = chunk_id c, data_path = data_path c, chunk_sha256 = chunk_sha256 c,
     size_bytes = size_bytes c, chunk_content_type = chunk_content_type c\<rparr>"

definition validate_chunk_manifest :: "chunk_manifest \<Rightarrow> py_error + chunk_manifest" where
  "validate_chunk_manifest c =
     rbind (validate_chunk_ref (as_ref c)) (\<lambda>_.
     if cm_schema_version c \<noteq> 1 then Inl (ValueError ''schema_version must be 1'')
     else if \<not> valid_collector_id_length (cm_collector_id c) then Inl (ValueError ''collector_id has an invalid length'')
     else if event_count c \<le> 0 then Inl (ValueError ''event_count must be positive'')
     else if min_app_receive_realtime_ns c < 0 \<or> max_app_receive_realtime_ns c < 0 then
       Inl (ValueError ''timestamps cannot be negative'')
     else if \<not> hash_pattern (data_contract_hash c) \<or> \<not> hash_pattern (cm_universe_hash c) then
       Inl (ValueError ''contract hashes must be lowercase SHA-256'')
     else rbind (require_utc (cm_created_at c)) (\<lambda>_.
     if max_app_receive_realtime_ns c < min_app_receive_realtime_ns c then
       Inl (ValueError ''chunk timestamp range is reversed'')
     else Inr c))"

record ack =
  ack_schema_version :: int
  ack_chunk_id :: string
  ack_sha256 :: string
  durable_at :: py_datetime

definition validate_ack :: "ack \<Rightarrow> py_error + ack" where
  "validate_ack a =
     (if ack_schema_version a \<noteq> 1 then Inl (ValueError ''schema_version must be 1'')
      else if \<not> id_pattern (ack_chunk_id a) then Inl (ValueError ''chunk_id contains unsafe characters'')
      else if \<not> hash_pattern (ack_sha256 a) then Inl (ValueError ''sha256 must be lowercase hexadecimal'')
      else rbind (require_utc (durable_at a)) (\<lambda>_. Inr a))"

record day_manifest =
  dm_schema_version :: int
  dm_collector_id :: string
  dm_utc_date :: utc_date
  sealed_at :: py_datetime
  chunks :: "chunk_ref list"

definition chunk_identity :: "chunk_ref \<Rightarrow> string \<times> string" where
  "chunk_identity c = (chunk_id c, chunk_sha256 c)"

definition validate_day_manifest :: "day_manifest \<Rightarrow> py_error + day_manifest" where
  "validate_day_manifest d =
     (if dm_schema_version d \<noteq> 1 then Inl (ValueError ''schema_version must be 1'')
      else if \<not> valid_collector_id_length (dm_collector_id d) then Inl (ValueError ''collector_id has an invalid length'')
      else rbind (require_utc (sealed_at d)) (\<lambda>_.
      rbind (map_result validate_chunk_ref (chunks d)) (\<lambda>_.
      let identities = map chunk_identity (chunks d) in
      if length identities \<noteq> card (set identities) then
        Inl (ValueError ''day manifest contains duplicate chunk identities'')
      else if dt_date (sealed_at d) \<le> dm_utc_date d then
        Inl (ValueError ''a UTC day cannot be sealed before it ends'')
      else Inr d)))"

section \<open>Gap events\<close>

record gap_event =
  gap_id :: string
  gap_state :: gap_state
  reason :: gap_reason
  gap_collector_id :: string
  gap_connection_id :: "string option"
  exchange_symbols :: "string list"
  stream_types :: "stream_type list"
  observed_at_realtime_ns :: int
  affected_from_realtime_ns :: "int option"
  detail :: string

definition validate_gap_event :: "unicode \<Rightarrow> gap_event \<Rightarrow> py_error + gap_event" where
  "validate_gap_event u e =
     (if \<not> (8 \<le> code_points (gap_id e) \<and> code_points (gap_id e) \<le> 160) then
        Inl (ValueError ''gap_id has an invalid length'')
      else if \<not> valid_collector_id_length (gap_collector_id e) then
        Inl (ValueError ''collector_id has an invalid length'')
      else if (case gap_connection_id e of None \<Rightarrow> False | Some c \<Rightarrow> 160 < code_points c) then
        Inl (ValueError ''connection_id is too long'')
      else if list_ex (\<lambda>s. \<not> is_exchange_symbol u s) (exchange_symbols e) then
        Inl (ValueError ''gap contains an invalid exchange symbol'')
      else if observed_at_realtime_ns e < 0 then Inl (ValueError ''observed_at cannot be negative'')
      else if (case affected_from_realtime_ns e of None \<Rightarrow> False | Some a \<Rightarrow> a < 0) then
        Inl (ValueError ''affected_from cannot be negative'')
      else if 500 < code_points (detail e) then Inl (ValueError ''detail is too long'')
      else if (case affected_from_realtime_ns e of None \<Rightarrow> False | Some a \<Rightarrow> observed_at_realtime_ns e < a) then
        Inl (ValueError ''gap affected_from cannot be after observation'')
      else if gap_state e = CLOSED \<and> affected_from_realtime_ns e \<noteq> None then
        Inl (ValueError ''closed gap events cannot define affected_from'')
      else Inr e)"

section \<open>Universe decisions\<close>

text \<open>
  \<open>serde.universe_hash\<close>: SHA-256 of the roles as JSON with sorted keys; the digest and the
  serialiser are parameters.
\<close>

definition universe_hash ::
    "(string \<Rightarrow> string) \<Rightarrow> (json \<Rightarrow> string) \<Rightarrow> string list \<Rightarrow> string list \<Rightarrow> string list \<Rightarrow> string" where
  "universe_hash sha256 dumps core boundary probe =
     sha256 (dumps (JObj [(''boundary'', JList (map JStr boundary)), (''core'', JList (map JStr core)),
       (''probe'', JList (map JStr probe))]))"

record universe_decision =
  core_generation :: int
  candidate_revision :: int
  decision_sequence :: int
  universe_version :: string
  created_at :: py_datetime
  effective_at :: py_datetime
  decision_reason :: universe_decision_reason
  core :: "string list"
  boundary :: "string list"
  probe :: "string list"
  source_hashes :: "string list"
  ud_universe_hash :: string

definition version_pattern :: "string \<Rightarrow> bool" where
  "version_pattern s =
     (case dropWhile is_digit s of
        [] \<Rightarrow> False
      | c # r \<Rightarrow> c = CHR ''.'' \<and> r \<noteq> [] \<and> list_all is_digit r \<and>
          takeWhile is_digit s \<noteq> [] \<and> hd (takeWhile is_digit s) \<noteq> CHR ''0'')"

definition version_text :: "int \<Rightarrow> int \<Rightarrow> string" where
  "version_text g r = show_int g @ ''.'' @ show_int r"

definition validate_role :: "unicode \<Rightarrow> nat \<Rightarrow> string list \<Rightarrow> py_error + string list" where
  "validate_role u n values =
     (if length values \<noteq> n then Inl (ValueError ''universe role has the wrong size'')
      else let normalized = map (u_upper u) values in
      if list_ex (\<lambda>v. \<not> is_exchange_symbol u v) normalized then
        Inl (ValueError ''universe contains an invalid exchange symbol'')
      else if length normalized \<noteq> card (set normalized) then
        Inl (ValueError ''universe role contains duplicate members'')
      else if normalized \<noteq> sort normalized then Inl (ValueError ''universe role members must be sorted'')
      else Inr normalized)"

definition members :: "universe_decision \<Rightarrow> string list" where
  "members d = sort (core d @ boundary d @ probe d)"

text \<open>\<open>validate_schedule_version_and_hash\<close>, the model validator after the fields.\<close>

definition validate_schedule_version_and_hash ::
    "(string list \<Rightarrow> string list \<Rightarrow> string list \<Rightarrow> string) \<Rightarrow> universe_decision \<Rightarrow> py_error + universe_decision" where
  "validate_schedule_version_and_hash H d =
     (if universe_version d \<noteq> version_text (core_generation d) (candidate_revision d) then
        Inl (ValueError ''universe_version does not match its integer components'')
      else if wall_us (effective_at d) < wall_us (created_at d) then
        Inl (ValueError ''decision cannot be effective before creation'')
      else if card (set (core d @ boundary d @ probe d)) \<noteq> 60 then
        Inl (ValueError ''universe roles must contain 60 distinct members'')
      else if decision_reason d \<noteq> FORMAL_BOOTSTRAP \<and> \<not> dt_midnight (effective_at d) then
        Inl (ValueError ''universe changes must become effective at 00:00 UTC'')
      else if ud_universe_hash d \<noteq> H (core d) (boundary d) (probe d) then
        Inl (ValueError ''universe_hash does not match role membership'')
      else Inr d)"

definition validate_universe_decision ::
    "unicode \<Rightarrow> (string list \<Rightarrow> string list \<Rightarrow> string list \<Rightarrow> string) \<Rightarrow> universe_decision \<Rightarrow> py_error + universe_decision" where
  "validate_universe_decision u H d =
     (if core_generation d < 1 then Inl (ValueError ''core_generation must be positive'')
      else if candidate_revision d < 0 then Inl (ValueError ''candidate_revision cannot be negative'')
      else if decision_sequence d < 1 then Inl (ValueError ''decision_sequence must be positive'')
      else if \<not> version_pattern (universe_version d) then Inl (ValueError ''universe_version has the wrong form'')
      else rbind (require_utc (created_at d)) (\<lambda>_.
      rbind (require_utc (effective_at d)) (\<lambda>_.
      rbind (validate_role u 50 (core d)) (\<lambda>core'.
      rbind (validate_role u 5 (boundary d)) (\<lambda>boundary'.
      rbind (validate_role u 5 (probe d)) (\<lambda>probe'.
      if list_ex (\<lambda>h. \<not> hash_pattern h) (source_hashes d) then
        Inl (ValueError ''source hashes must be lowercase SHA-256'')
      else validate_schedule_version_and_hash H
        (d\<lparr>core := core', boundary := boundary', probe := probe'\<rparr>)))))))"

record candidate_override =
  co_created_at :: py_datetime
  co_effective_at :: py_datetime
  co_boundary :: "string list"
  co_probe :: "string list"

definition validate_override_role :: "unicode \<Rightarrow> string list \<Rightarrow> py_error + string list" where
  "validate_override_role u values =
     (if length values \<noteq> 5 then Inl (ValueError ''override role must have 5 members'')
      else let normalized = sort (map (u_upper u) values) in
      if list_ex (\<lambda>v. \<not> is_exchange_symbol u v) normalized then
        Inl (ValueError ''override contains an invalid exchange symbol'')
      else if card (set normalized) \<noteq> length normalized then
        Inl (ValueError ''override role contains duplicate members'')
      else Inr normalized)"

definition validate_candidate_override :: "unicode \<Rightarrow> candidate_override \<Rightarrow> py_error + candidate_override" where
  "validate_candidate_override u c =
     rbind (require_utc (co_created_at c)) (\<lambda>_.
     rbind (require_utc (co_effective_at c)) (\<lambda>_.
     rbind (validate_override_role u (co_boundary c)) (\<lambda>boundary'.
     rbind (validate_override_role u (co_probe c)) (\<lambda>probe'.
     if wall_us (co_effective_at c) < wall_us (co_created_at c) then
       Inl (ValueError ''override cannot be effective before creation'')
     else if \<not> dt_midnight (co_effective_at c) then
       Inl (ValueError ''candidate override must become effective at 00:00 UTC'')
     else if card (set (boundary' @ probe')) \<noteq> 10 then
       Inl (ValueError ''override roles must contain 10 distinct members'')
     else Inr (c\<lparr>co_boundary := boundary', co_probe := probe'\<rparr>)))))"

section \<open>Dataset releases\<close>

record day_release_ref =
  dr_collector_id :: string
  dr_utc_date :: utc_date
  sealed_manifest_sha256 :: string

definition validate_day_release_ref :: "day_release_ref \<Rightarrow> py_error + day_release_ref" where
  "validate_day_release_ref r =
     (if \<not> valid_collector_id_length (dr_collector_id r) then Inl (ValueError ''collector_id has an invalid length'')
      else if \<not> hash_pattern (sealed_manifest_sha256 r) then
        Inl (ValueError ''sealed manifest hash must be lowercase SHA-256'')
      else Inr r)"

record dataset_release =
  rel_schema_version :: int
  release_id :: string
  rel_created_at :: py_datetime
  days :: "day_release_ref list"

definition validate_dataset_release :: "dataset_release \<Rightarrow> py_error + dataset_release" where
  "validate_dataset_release r =
     (if rel_schema_version r \<noteq> 1 then Inl (ValueError ''schema_version must be 1'')
      else if \<not> id_pattern (release_id r) then Inl (ValueError ''release_id contains unsafe characters'')
      else rbind (require_utc (rel_created_at r)) (\<lambda>_.
      if days r = [] then Inl (ValueError ''release must name a day'')
      else rbind (map_result validate_day_release_ref (days r)) (\<lambda>_.
      let identities = map (\<lambda>d. (dr_collector_id d, dr_utc_date d)) (days r) in
      if length identities \<noteq> card (set identities) then
        Inl (ValueError ''release contains duplicate UTC days'')
      else Inr r)))"

section \<open>The collection contract\<close>

definition FORMAL_STREAMS :: "string list" where
  "FORMAL_STREAMS = [''agg_trade'', ''book_ticker'', ''clock_sample'', ''contract_info'', ''daily_klines'',
     ''depth'', ''depth_snapshot'', ''exchange_info'', ''force_order'', ''formal_collection_started'',
     ''liquidity_depth'', ''mark_price'', ''market_tickers'', ''open_interest'', ''universe_decision'']"

definition D0_STREAMS :: "string list" where
  "D0_STREAMS = [''rpi_depth'', ''rpi_depth_snapshot'', ''trade'']"

definition data_contract :: "bool \<Rightarrow> int \<Rightarrow> json" where
  "data_contract d0_enabled open_interest_interval_seconds =
     JObj [(''depth_interval_ms'', JInt 100), (''depth_snapshot_limit'', JInt 1000),
       (''d0_enabled'', JBool d0_enabled), (''exchange'', JStr ''binance_usdm''), (''gap_schema'', JInt 2),
       (''mark_price_interval_ms'', JInt 1000),
       (''open_interest_interval_seconds'', JInt open_interest_interval_seconds), (''raw_schema'', JInt 1),
       (''streams'', JList (map JStr (sort (FORMAL_STREAMS @ (if d0_enabled then D0_STREAMS else [])))))]"

definition data_contract_hash_of :: "(string \<Rightarrow> string) \<Rightarrow> (json \<Rightarrow> string) \<Rightarrow> bool \<Rightarrow> int \<Rightarrow> string" where
  "data_contract_hash_of sha256 canonical d0 oi = sha256 (canonical (data_contract d0 oi))"

section \<open>Lemmas\<close>

lemma length_card_distinct: "length xs = card (set xs) \<longleftrightarrow> distinct xs"
  by (metis card_distinct distinct_card)

lemma validate_role_Inr:
  assumes "validate_role u n xs = Inr ys"
  shows "length ys = n \<and> distinct ys \<and> sorted ys \<and> (\<forall>y \<in> set ys. is_exchange_symbol u y)"
proof -
  have "ys = map (u_upper u) xs" "length xs = n" "length ys = card (set ys)" "ys = sort ys"
      "\<forall>y \<in> set ys. is_exchange_symbol u y"
    using assms unfolding validate_role_def Let_def by (auto simp: list_ex_iff split: if_splits)
  then show ?thesis by (metis length_card_distinct length_map sorted_sort)
qed

lemma validate_chunk_ref_Inr:
  "validate_chunk_ref c = Inr c' \<Longrightarrow> c' = c \<and> id_pattern (chunk_id c) \<and> safe_relative_path (data_path c) \<and>
   hash_pattern (chunk_sha256 c) \<and> 0 < size_bytes c"
  unfolding validate_chunk_ref_def by (simp only: inr_iff sum.inject not_not not_le) auto

lemma require_utc_Inr: "require_utc d = Inr x \<longleftrightarrow> utc_offset d = Some 0"
  by (simp add: require_utc_def check_Inr_iff)

lemma effective_le_observed:
  "validate_gap_event u e = Inr e' \<Longrightarrow> affected_from_realtime_ns e = Some a \<Longrightarrow>
   0 \<le> a \<and> a \<le> observed_at_realtime_ns e \<and> gap_state e = OPEN \<and> e' = e"
  by (cases "gap_state e") (auto simp: validate_gap_event_def split: if_splits)

lemma digits_before_dot:
  "list_all is_digit i \<Longrightarrow> takeWhile is_digit (i @ ''.'' @ r) = i \<and> dropWhile is_digit (i @ ''.'' @ r) = ''.'' @ r"
  by (simp add: list_all_iff)

lemma show_int_nonneg: "0 \<le> i \<Longrightarrow> show_int i = show_nat (nat i)"
  by (simp add: show_int_def)

section \<open>Example decision\<close>

definition ex_symbols :: "string \<Rightarrow> string \<Rightarrow> string list" where
  "ex_symbols heads tails = concat (map (\<lambda>a. map (\<lambda>b. [a, b]) tails) heads)"

definition ex_time :: "int \<Rightarrow> py_datetime" where
  "ex_time d = \<lparr>wall_us = d * us_per_day, utc_offset = Some 0\<rparr>"

definition ex_decision :: universe_decision where
  "ex_decision = \<lparr>core_generation = 7, candidate_revision = 0, decision_sequence = 3,
     universe_version = ''7.0'', created_at = ex_time 20000, effective_at = ex_time 20001,
     decision_reason = DAILY_CANDIDATE, core = ex_symbols ''ABCDE'' ''ABCDEFGHIJ'',
     boundary = ex_symbols ''F'' ''ABCDE'', probe = ex_symbols ''F'' ''FGHIJ'', source_hashes = [], ud_universe_hash = ''h''\<rparr>"

lemma validate_decision_Inr:
  assumes "validate_universe_decision u H d = Inr d'"
  shows "length (core d') = 50 \<and> length (boundary d') = 5 \<and> length (probe d') = 5 \<and>
    distinct (core d' @ boundary d' @ probe d') \<and> length (members d') = 60 \<and> sorted (members d') \<and>
    (\<forall>s \<in> set (members d'). is_exchange_symbol u s) \<and>
    universe_version d' = version_text (core_generation d') (candidate_revision d') \<and>
    ud_universe_hash d' = H (core d') (boundary d') (probe d') \<and>
    wall_us (created_at d') \<le> wall_us (effective_at d') \<and>
    (decision_reason d' \<noteq> FORMAL_BOOTSTRAP \<longrightarrow> dt_midnight (effective_at d'))"
proof -
  obtain c b p where roles: "validate_role u 50 (core d) = Inr c" "validate_role u 5 (boundary d) = Inr b"
      "validate_role u 5 (probe d) = Inr p"
    and final: "validate_schedule_version_and_hash H (d\<lparr>core := c, boundary := b, probe := p\<rparr>) = Inr d'"
    using assms by (auto simp: validate_universe_decision_def rbind_Inr_iff split: if_splits)
  from final have d': "core d' = c" "boundary d' = b" "probe d' = p"
    by (auto simp: validate_schedule_version_and_hash_def split: if_splits)
  have all60: "card (set (c @ b @ p)) = 60"
    using final by (auto simp: validate_schedule_version_and_hash_def split: if_splits)
  note rs = validate_role_Inr [OF roles(1)] validate_role_Inr [OF roles(2)] validate_role_Inr [OF roles(3)]
  have len: "length (c @ b @ p) = 60" using rs by simp
  then have "distinct (c @ b @ p)" using all60 by (intro card_distinct) simp
  moreover have "\<forall>s \<in> set (members d'). is_exchange_symbol u s" using rs d' by (auto simp: members_def)
  moreover have "universe_version d' = version_text (core_generation d') (candidate_revision d') \<and>
      ud_universe_hash d' = H (core d') (boundary d') (probe d') \<and>
      wall_us (created_at d') \<le> wall_us (effective_at d') \<and>
      (decision_reason d' \<noteq> FORMAL_BOOTSTRAP \<longrightarrow> dt_midnight (effective_at d'))"
    using final by (auto simp: validate_schedule_version_and_hash_def split: if_splits)
  ultimately show ?thesis using rs d' len by (simp add: members_def)
qed

section \<open>Properties\<close>

text \<open>A validated universe decision is the 60-symbol universe the contract promises: roles of
  exactly 50, 5 and 5 canonical symbols, no symbol in two places, a version that prints its two
  components, the universe hash of exactly these roles, and an effective time that is not before
  creation and is a UTC midnight for everything but the formal bootstrap.\<close>

lemma validated_decision_sound:
  assumes "validate_universe_decision u H d = Inr d'"
  shows "length (core d') = 50 \<and> length (boundary d') = 5 \<and> length (probe d') = 5 \<and>
    distinct (core d' @ boundary d' @ probe d') \<and> length (members d') = 60 \<and> sorted (members d') \<and>
    (\<forall>s \<in> set (members d'). is_exchange_symbol u s) \<and>
    universe_version d' = version_text (core_generation d') (candidate_revision d') \<and>
    ud_universe_hash d' = H (core d') (boundary d') (probe d') \<and>
    wall_us (created_at d') \<le> wall_us (effective_at d') \<and>
    (decision_reason d' \<noteq> FORMAL_BOOTSTRAP \<longrightarrow> dt_midnight (effective_at d'))"
  by (rule validate_decision_Inr [OF assms])

lemma validated_decision_sound_witness:
  "length (members ex_decision) = 60 \<and> distinct (core ex_decision @ boundary ex_decision @ probe ex_decision)"
proof -
  have "validate_universe_decision ascii (\<lambda>_ _ _. ''h'') ex_decision = Inr ex_decision"
    by code_simp
  from validated_decision_sound [OF this] show ?thesis by simp
qed

text \<open>A universe version names one generation and one revision: two printed versions agree only
  if both integer components do.\<close>

lemma version_text_injective:
  assumes "0 \<le> g" "0 \<le> r" "0 \<le> g'" "0 \<le> r'" and "version_text g r = version_text g' r'"
  shows "g = g' \<and> r = r'"
proof -
  have split: "takeWhile is_digit (version_text a b) = show_nat (nat a) \<and>
      dropWhile is_digit (version_text a b) = ''.'' @ show_nat (nat b)" if "0 \<le> a" "0 \<le> b" for a b
    using digits_before_dot [OF show_nat_all, of "nat a" "show_nat (nat b)"] that
    by (simp add: version_text_def show_int_nonneg)
  have "show_nat (nat g) = show_nat (nat g')" "show_nat (nat r) = show_nat (nat r')"
    using split [OF assms(1,2)] split [OF assms(3,4)] assms(5) by auto
  then have "nat g = nat g'" "nat r = nat r'" by (metis digits_value_show)+
  then show ?thesis using assms(1-4) by (simp add: eq_nat_nat_iff)
qed

theorem version_text_injective_witness: "version_text 7 0 \<noteq> version_text 7 1"
  using version_text_injective [of 7 0 7 1] by auto

text \<open>A validated day manifest lists every chunk identity once, each under a safe relative path
  and a well-formed hash, and was sealed only after its UTC day had ended.\<close>

lemma validated_day_sound:
  assumes "validate_day_manifest d = Inr d'"
  shows "d' = d \<and> distinct (map chunk_identity (chunks d)) \<and> dm_utc_date d < dt_date (sealed_at d) \<and>
    (\<forall>c \<in> set (chunks d). \<not> path_absolute (data_path c) \<and> ''..'' \<notin> set (path_parts (data_path c)) \<and>
       length (chunk_sha256 c) = 64 \<and> 0 < size_bytes c)"
proof -
  obtain cs where cs: "map_result validate_chunk_ref (chunks d) = Inr cs"
    and rest: "length (map chunk_identity (chunks d)) = card (set (map chunk_identity (chunks d)))"
      "\<not> dt_date (sealed_at d) \<le> dm_utc_date d" "d' = d"
    using assms unfolding validate_day_manifest_def Let_def
    by (simp only: inr_iff sum.inject) blast
  have ok: "validate_chunk_ref c = Inr c'" if "(c, c') \<in> set (zip (chunks d) cs)" for c c'
    using cs that by (auto simp: map_result_Inr_iff list_all2_iff)
  have "\<exists>c'. validate_chunk_ref c = Inr c'" if "c \<in> set (chunks d)" for c
    using ok that cs by (metis length_map_result in_set_impl_in_set_zip1)
  then have "\<forall>c \<in> set (chunks d). \<not> path_absolute (data_path c) \<and> ''..'' \<notin> set (path_parts (data_path c)) \<and>
       length (chunk_sha256 c) = 64 \<and> 0 < size_bytes c"
    using validate_chunk_ref_Inr by (metis hash_pattern_def safe_relative_path_def)
  then show ?thesis using rest length_card_distinct [of "map chunk_identity (chunks d)"] by simp
qed

definition ex_chunk :: chunk_ref where
  "ex_chunk = \<lparr>chunk_id = ''chunk-0001'', data_path = ''date=2026-08-10/a.parquet'',
     chunk_sha256 = replicate 64 CHR ''a'', size_bytes = 10, chunk_content_type = PARQUET\<rparr>"

definition ex_day :: day_manifest where
  "ex_day = \<lparr>dm_schema_version = 1, dm_collector_id = ''vultr-01'', dm_utc_date = 20000,
     sealed_at = ex_time 20001, chunks = [ex_chunk]\<rparr>"

theorem validated_day_sound_witness: "dm_utc_date ex_day < dt_date (sealed_at ex_day)"
proof -
  have "validate_chunk_ref ex_chunk = Inr ex_chunk" by code_simp
  then have "validate_day_manifest ex_day = Inr ex_day"
    by (simp add: validate_day_manifest_def ex_day_def ex_time_def require_utc_def dt_date_def
        us_per_day_def valid_collector_id_length_def code_points_def)
  from validated_day_sound [OF this] show ?thesis by simp
qed

end
