(* ===== verification/Intervals.thy ===== *)
theory Intervals
  imports Prelude
begin

text \<open>
  The interval arithmetic of \<open>src/miry/pipeline/quality.py\<close>: clipping to the collection
  window, the length of a union (\<open>_union_duration\<close>), the length of an intersection
  (\<open>_intersection_duration\<close>) and the extension of an invalid interval to the next valid
  one (\<open>_extend_invalid_until_valid\<close>). An interval is a half-open pair of nanosecond stamps;
  what the functions measure is the set of stamps it covers.
\<close>

type_synonym interval = "int \<times> int"

section \<open>The code\<close>

definition clip :: "int \<Rightarrow> int \<Rightarrow> interval list \<Rightarrow> interval list" where
  "clip ws we xs = map (\<lambda>(s, e). (max s ws, min e we)) (filter (\<lambda>(s, e). max s ws < min e we) xs)"

text \<open>The sweep over the sorted intervals; the current interval is \<open>None\<close> before the first.\<close>

fun sweep :: "int \<Rightarrow> interval option \<Rightarrow> interval list \<Rightarrow> int" where
  "sweep acc None [] = acc"
| "sweep acc (Some (cs, ce)) [] = acc + (ce - cs)"
| "sweep acc None ((s, e) # xs) = sweep acc (Some (s, e)) xs"
| "sweep acc (Some (cs, ce)) ((s, e) # xs) =
     (if s \<le> ce then sweep acc (Some (cs, max ce e)) xs
      else sweep (acc + (ce - cs)) (Some (s, e)) xs)"

definition union_duration :: "interval list \<Rightarrow> int \<Rightarrow> int \<Rightarrow> int" where
  "union_duration xs ws we = sweep 0 None (sort (clip ws we xs))"

definition intersections :: "interval list \<Rightarrow> interval list \<Rightarrow> interval list" where
  "intersections left right =
     concat (map (\<lambda>(ls, le). map (\<lambda>(rs, re). (max ls rs, min le re))
       (filter (\<lambda>(rs, re). max ls rs < min le re) right)) left)"

definition intersection_duration :: "interval list \<Rightarrow> interval list \<Rightarrow> int \<Rightarrow> int \<Rightarrow> int" where
  "intersection_duration left right ws we = union_duration (intersections left right) ws we"

definition next_valid_start :: "interval list \<Rightarrow> int \<Rightarrow> int \<Rightarrow> int" where
  "next_valid_start valid e we =
     (case filter (\<lambda>(vs, ve). e \<le> vs) valid of [] \<Rightarrow> we | (vs, ve) # _ \<Rightarrow> vs)"

definition extend_one :: "interval list \<Rightarrow> int \<Rightarrow> interval \<Rightarrow> interval" where
  "extend_one valid we = (\<lambda>(s, e).
     (s, if list_ex (\<lambda>(vs, ve). vs \<le> e \<and> e < ve) valid then e else next_valid_start valid e we))"

definition extend_invalid_until_valid :: "interval list \<Rightarrow> interval list \<Rightarrow> int \<Rightarrow> interval list" where
  "extend_invalid_until_valid xs valid_intervals we = map (extend_one (sort valid_intervals) we) xs"

section \<open>What is measured\<close>

definition stamps :: "interval list \<Rightarrow> int set" where
  "stamps xs = (\<Union>(s, e) \<in> set xs. {s..<e})"

definition covered :: "interval list \<Rightarrow> int \<Rightarrow> int \<Rightarrow> int set" where
  "covered xs ws we = stamps xs \<inter> {ws..<we}"

named_theorems stamp_simps \<open>membership in the covered stamps\<close>

lemma stamps_simps [simp, stamp_simps]:
  "stamps [] = {}"
  "stamps ((s, e) # xs) = {s..<e} \<union> stamps xs"
  "stamps (xs @ ys) = stamps xs \<union> stamps ys"
  by (auto simp: stamps_def)

lemma in_stamps_iff [stamp_simps]: "t \<in> stamps xs \<longleftrightarrow> (\<exists>(s, e) \<in> set xs. s \<le> t \<and> t < e)"
  by (force simp: stamps_def)

lemma finite_stamps [simp]: "finite (stamps xs)"
  by (auto simp: stamps_def)

lemma finite_covered [simp]: "finite (covered xs ws we)"
  by (simp add: covered_def)

lemma stamps_cong: "set xs = set ys \<Longrightarrow> stamps xs = stamps ys"
  by (simp add: stamps_def)

lemma clip_simps [simp]:
  "clip ws we [] = []"
  "clip ws we ((s, e) # xs) =
     (if max s ws < min e we then (max s ws, min e we) # clip ws we xs else clip ws we xs)"
  by (simp_all add: clip_def)

lemma covered_simps [simp]:
  "covered [] ws we = {}"
  "covered ((s, e) # xs) ws we = {max s ws..<min e we} \<union> covered xs ws we"
  by (auto simp: covered_def)

lemma stamps_clip [simp]: "stamps (clip ws we xs) = covered xs ws we"
proof (induction xs)
  case (Cons x xs)
  obtain s e where x: "x = (s, e)" by (cases x)
  show ?case
  proof (cases "max s ws < min e we")
    case True
    with Cons x show ?thesis by (simp only: clip_simps if_True stamps_simps covered_simps)
  next
    case False
    then have "{max s ws..<min e we} = {}" by simp
    with False Cons x show ?thesis by (simp only: clip_simps if_False covered_simps Un_empty_left)
  qed
qed simp

lemma clip_proper: "(s, e) \<in> set (clip ws we xs) \<Longrightarrow> s < e"
  by (auto simp: clip_def)

lemma stamps_intersect_one:
  "stamps (map (\<lambda>(rs, re). (max ls rs, min le re)) (filter (\<lambda>(rs, re). max ls rs < min le re) ys))
   = {ls..<le} \<inter> stamps ys"
proof -
  have "map (\<lambda>(rs, re). (max ls rs, min le re)) (filter (\<lambda>(rs, re). max ls rs < min le re) ys)
      = clip ls le ys"
    unfolding clip_def by (simp only: max.commute [of ls] min.commute [of le])
  then show ?thesis by (simp only: stamps_clip covered_def Int_commute)
qed

lemma stamps_intersections [simp]: "stamps (intersections xs ys) = stamps xs \<inter> stamps ys"
proof (induction xs)
  case (Cons x xs)
  obtain ls le where x: "x = (ls, le)" by (cases x)
  have "stamps (intersections (x # xs) ys) = {ls..<le} \<inter> stamps ys \<union> stamps (intersections xs ys)"
    unfolding intersections_def x list.map concat.simps prod.case stamps_simps(3) stamps_intersect_one ..
  with Cons x show ?case by (simp add: Int_Un_distrib2)
qed (simp add: intersections_def)

section \<open>The sweep counts every covered stamp once\<close>

lemma sweep_Some:
  assumes "sorted (map fst xs)" "\<forall>(s, e) \<in> set xs. cs \<le> s \<and> s < e" "cs < ce"
  shows "sweep acc (Some (cs, ce)) xs = acc + int (card ({cs..<ce} \<union> stamps xs))"
  using assms
proof (induction xs arbitrary: acc cs ce)
  case Nil
  then show ?case by simp
next
  case (Cons x xs)
  obtain s e where x: "x = (s, e)" by (cases x)
  have se: "cs \<le> s" "s < e" using Cons.prems(2) x by auto
  have le: "\<forall>(s', e') \<in> set xs. s \<le> s' \<and> s' < e'"
    using Cons.prems(1,2) x by fastforce
  have srt: "sorted (map fst xs)" using Cons.prems(1) by simp
  show ?case
  proof (cases "s \<le> ce")
    case True
    have "{cs..<max ce e} = {cs..<ce} \<union> {s..<e}" using True se by auto
    moreover have "\<forall>(s', e') \<in> set xs. cs \<le> s' \<and> s' < e'" using Cons.prems(2) x by simp
    moreover have "cs < max ce e" using Cons.prems(3) by simp
    ultimately show ?thesis
      using Cons.IH [OF srt, of cs "max ce e" acc] True x by (simp add: Un_assoc)
  next
    case False
    have disj: "{cs..<ce} \<inter> ({s..<e} \<union> stamps xs) = {}"
      using False le by (fastforce simp: in_stamps_iff)
    have "int (card ({cs..<ce} \<union> ({s..<e} \<union> stamps xs))) =
        (ce - cs) + int (card ({s..<e} \<union> stamps xs))"
      using Cons.prems(3) by (simp add: card_Un_disjoint [OF _ _ disj])
    then show ?thesis
      using Cons.IH [OF srt le se(2), of "acc + (ce - cs)"] False x by simp
  qed
qed

lemma sweep_None:
  assumes "sorted (map fst xs)" "\<forall>(s, e) \<in> set xs. s < e"
  shows "sweep 0 None xs = int (card (stamps xs))"
proof (cases xs)
  case Nil
  then show ?thesis by simp
next
  case (Cons x ys)
  obtain s e where x: "x = (s, e)" by (cases x)
  have "\<forall>(s', e') \<in> set ys. s \<le> s' \<and> s' < e'" using assms Cons x by fastforce
  then show ?thesis using sweep_Some [of ys s e 0] assms Cons x by simp
qed

lemma sorted_map_fst: "sorted (xs :: interval list) \<Longrightarrow> sorted (map fst xs)"
  by (induction xs) (auto simp: less_eq_prod_def)

lemma union_duration_card: "union_duration xs ws we = int (card (covered xs ws we))"
proof -
  have "sweep 0 None (sort (clip ws we xs)) = int (card (stamps (sort (clip ws we xs))))"
    by (rule sweep_None) (auto simp: sorted_map_fst dest: clip_proper)
  then show ?thesis
    using stamps_cong [of "sort (clip ws we xs)" "clip ws we xs"] by (simp add: union_duration_def)
qed

section \<open>The measure as an interface\<close>

text \<open>
  What the quality gate needs of the two durations: one counts the stamps of a list inside a
  window, the other those of two lists at once.
\<close>

locale interval_measure =
  fixes dur :: "interval list \<Rightarrow> int \<Rightarrow> int \<Rightarrow> int"
    and both :: "interval list \<Rightarrow> interval list \<Rightarrow> int \<Rightarrow> int \<Rightarrow> int"
  assumes dur: "dur xs ws we = int (card (covered xs ws we))"
    and both: "both xs ys ws we = int (card (covered xs ws we \<inter> covered ys ws we))"
begin

lemma dur_nonneg: "0 \<le> dur xs ws we"
  by (simp add: dur)

lemma dur_mono: "stamps xs \<subseteq> stamps ys \<Longrightarrow> dur xs ws we \<le> dur ys ws we"
  unfolding dur by (auto simp: covered_def intro!: card_mono)

lemma dur_le_window: "ws \<le> we \<Longrightarrow> dur xs ws we \<le> we - ws"
proof -
  assume "ws \<le> we"
  have "card (covered xs ws we) \<le> card {ws..<we}" by (rule card_mono) (auto simp: covered_def)
  then show ?thesis using \<open>ws \<le> we\<close> by (simp add: dur)
qed

lemma dur_full_iff: "ws \<le> we \<Longrightarrow> dur xs ws we = we - ws \<longleftrightarrow> {ws..<we} \<subseteq> stamps xs"
proof
  assume le: "ws \<le> we" and full: "dur xs ws we = we - ws"
  have "covered xs ws we \<subseteq> {ws..<we}" by (simp add: covered_def)
  moreover have "card (covered xs ws we) = card {ws..<we}" using le full by (simp add: dur)
  ultimately have "covered xs ws we = {ws..<we}" by (intro card_subset_eq) auto
  then show "{ws..<we} \<subseteq> stamps xs" by (auto simp: covered_def)
next
  assume le: "ws \<le> we" and sub: "{ws..<we} \<subseteq> stamps xs"
  then have "covered xs ws we = {ws..<we}" by (auto simp: covered_def)
  then show "dur xs ws we = we - ws" using le by (simp add: dur)
qed

lemma inclusion_exclusion: "dur xs ws we + dur ys ws we = dur (xs @ ys) ws we + both xs ys ws we"
proof -
  have "covered (xs @ ys) ws we = covered xs ws we \<union> covered ys ws we" by (auto simp: covered_def)
  then show ?thesis using card_Un_Int [of "covered xs ws we" "covered ys ws we"]
    by (simp add: dur both)
qed

lemma both_zero_iff: "both xs ys ws we = 0 \<longleftrightarrow> covered xs ws we \<inter> covered ys ws we = {}"
  by (simp add: both)

end

interpretation ns: interval_measure union_duration intersection_duration
proof unfold_locales
  fix xs ys ws we
  show "union_duration xs ws we = int (card (covered xs ws we))" by (rule union_duration_card)
  have "covered (intersections xs ys) ws we = covered xs ws we \<inter> covered ys ws we"
    by (auto simp: covered_def)
  then show "intersection_duration xs ys ws we = int (card (covered xs ws we \<inter> covered ys ws we))"
    by (simp add: intersection_duration_def union_duration_card)
qed

section \<open>Extension to recovery\<close>

lemma extend_one_spec:
  assumes "extend_one (sort valid) we (s, e) = (s', e')"
  shows "s' = s \<and>
    (if \<exists>(vs, ve) \<in> set valid. vs \<le> e \<and> e < ve then e' = e
     else if \<exists>(vs, ve) \<in> set valid. e \<le> vs
       then e \<le> e' \<and> (\<exists>ve. (e', ve) \<in> set valid) \<and> {e..<e'} \<inter> stamps valid = {}
     else e' = we)"
proof -
  let ?later = "filter (\<lambda>(vs, ve). e \<le> vs) (sort valid)"
  have inside: "list_ex (\<lambda>(vs, ve). vs \<le> e \<and> e < ve) (sort valid) \<longleftrightarrow>
      (\<exists>(vs, ve) \<in> set valid. vs \<le> e \<and> e < ve)"
    by (auto simp: list_ex_iff)
  show ?thesis
  proof (cases "\<exists>(vs, ve) \<in> set valid. vs \<le> e \<and> e < ve")
    case True
    then show ?thesis using assms inside by (auto simp: extend_one_def)
  next
    case False
    then have e': "s' = s" "e' = next_valid_start (sort valid) e we"
      using assms inside by (auto simp: extend_one_def)
    show ?thesis
    proof (cases ?later)
      case Nil
      then have "\<not> (\<exists>(vs, ve) \<in> set valid. e \<le> vs)"
        by (auto simp: filter_empty_conv)
      with False e' Nil show ?thesis by (simp add: next_valid_start_def)
    next
      case (Cons v vs)
      obtain a b where v: "v = (a, b)" by (cases v)
      have mem: "set (v # vs) = {x \<in> set valid. e \<le> fst x}"
        unfolding Cons [symmetric] set_filter set_sort split_beta ..
      have "sorted ?later" by (rule sorted_wrt_filter) simp
      then have "sorted (v # vs)" unfolding Cons .
      then have least: "\<forall>x \<in> set valid. e \<le> fst x \<longrightarrow> a \<le> fst x"
        using mem v by (fastforce simp: less_eq_prod_def)
      have a: "e' = a" using e' Cons v by (simp add: next_valid_start_def)
      have "v \<in> {x \<in> set valid. e \<le> fst x}" unfolding mem [symmetric] by simp
      then have ab: "(a, b) \<in> set valid" "e \<le> a" using v by simp_all
      have gap: "{e..<a} \<inter> stamps valid = {}"
      proof (rule equals0I)
        fix t assume "t \<in> {e..<a} \<inter> stamps valid"
        then obtain p q where pq: "(p, q) \<in> set valid" "p \<le> t" "t < q" "e \<le> t" "t < a"
          by (auto simp: in_stamps_iff)
        show False
        proof (cases "e \<le> p")
          case True
          then show False using least pq by fastforce
        next
          case False
          then have "p \<le> e \<and> e < q" using pq by linarith
          then show False using \<open>\<not> (\<exists>(vs, ve) \<in> set valid. vs \<le> e \<and> e < ve)\<close> pq(1) by blast
        qed
      qed
      have "\<exists>(vs, ve) \<in> set valid. e \<le> vs" using ab by blast
      with False e'(1) a ab gap show ?thesis by (simp only: if_False if_True) blast
    qed
  qed
qed

text \<open>No valid stamp lies between the old and the new end, whichever case applies.\<close>

lemma extend_one_gap:
  assumes "extend_one (sort valid) we (s, e) = (s', e')"
  shows "s' = s \<and> {e..<e'} \<inter> stamps valid = {}"
proof (cases "(\<exists>(vs, ve) \<in> set valid. vs \<le> e \<and> e < ve) \<or> (\<exists>(vs, ve) \<in> set valid. e \<le> vs)")
  case True
  then show ?thesis using extend_one_spec [OF assms] by (auto split: if_splits)
next
  case False
  have "{e..<e'} \<inter> stamps valid = {}"
  proof (rule equals0I)
    fix t assume "t \<in> {e..<e'} \<inter> stamps valid"
    then obtain p q where pq: "(p, q) \<in> set valid" "p \<le> t" "t < q" "e \<le> t" by (auto simp: in_stamps_iff)
    then have "p < e" using False by fastforce
    then have "p \<le> e \<and> e < q" using pq by linarith
    then show False using False pq(1) by blast
  qed
  then show ?thesis using extend_one_spec [OF assms] False by auto
qed

section \<open>Properties\<close>

text \<open>C5. The union sweep measures exactly what it means to: for any list of intervals, in any
  order and however they overlap, touch or leave the window, \<open>_union_duration\<close> is the number of
  nanosecond stamps of the window that lie in at least one of them.\<close>

theorem union_duration_counts:
  "union_duration xs ws we = int (card {t. ws \<le> t \<and> t < we \<and> (\<exists>(s, e) \<in> set xs. s \<le> t \<and> t < e)})"
proof -
  have "covered xs ws we = {t. ws \<le> t \<and> t < we \<and> (\<exists>(s, e) \<in> set xs. s \<le> t \<and> t < e)}"
    unfolding covered_def in_stamps_iff [abs_def] set_eq_iff Int_iff in_stamps_iff by auto
  then show ?thesis by (simp add: union_duration_card)
qed

text \<open>The four durations of a day's coverage agree: valid time plus explicitly invalid time is
  the accounted time plus the conflicting time, for every window.\<close>

lemma coverage_balance:
  "union_duration valid ws we + union_duration invalid ws we =
   union_duration (valid @ invalid) ws we + intersection_duration valid invalid ws we"
  by (rule ns.inclusion_exclusion)

text \<open>Extending an invalid interval stops exactly at recovery: the start is kept; if the end lies
  in a valid interval it is kept, otherwise the new end is the least later valid start, or the end
  of the window when there is none, and no valid stamp lies between the old and the new end.\<close>

lemma extend_until_recovery:
  assumes "extend_one (sort valid) we (s, e) = (s', e')"
  shows "s' = s \<and>
    (if \<exists>(vs, ve) \<in> set valid. vs \<le> e \<and> e < ve then e' = e
     else if \<exists>(vs, ve) \<in> set valid. e \<le> vs
       then e \<le> e' \<and> (\<exists>ve. (e', ve) \<in> set valid) \<and> {e..<e'} \<inter> stamps valid = {}
     else e' = we)"
  by (rule extend_one_spec [OF assms])

lemma extend_until_recovery_witness:
  "extend_one (sort [(30, 40), (0, 10)]) 50 (10, 20) = (10, 30) \<and>
   {20..<(30::int)} \<inter> stamps [(30, 40), (0, 10)] = {}"
proof -
  have "extend_one (sort [(30, 40), (0, 10)]) 50 (10, 20) = (10, 30)"
    by (simp add: extend_one_def next_valid_start_def)
  from extend_until_recovery [OF this] show ?thesis
    by (simp add: extend_one_def next_valid_start_def)
qed

end
