(* ===== verification/L2_Book.thy ===== *)
theory L2_Book
  imports Bridge Contracts
begin

text \<open>
  The replayed order book of one connection, \<open>ConnectionBook\<close> of
  \<open>src/miry/pipeline/l2.py\<close>, with its sides, its checkpoints and the functions that apply
  levels. A side is the dict from price to quantity text: keys are equal when the decimals are
  (so the key is the value), and the first decimal stored under a key stays its key, as in a
  Python dict. A price that \<open>Decimal\<close> cannot read raises, so every operation returns an error or
  its result with the new book.
\<close>

section \<open>Levels and sides\<close>

type_synonym level = "string \<times> string"
type_synonym side = "(rat, decimal \<times> string) dict"

definition price_of :: "string \<Rightarrow> py_error + decimal" where
  "price_of text = (case parse_decimal text of None \<Rightarrow> Inl InvalidOperation | Some d \<Rightarrow> Inr d)"

text \<open>\<open>value.lower().split('e', 1)[0].lstrip('+-')\<close>, non-empty and all of \<open>0.\<close>\<close>

definition is_zero :: "string \<Rightarrow> bool" where
  "is_zero v =
     (let mantissa = dropWhile (\<lambda>c. c = CHR ''+'' \<or> c = CHR ''-'')
            (takeWhile (\<lambda>c. c \<noteq> CHR ''e'' \<and> c \<noteq> CHR ''E'') v) in
      mantissa \<noteq> [] \<and> list_all (\<lambda>c. c = CHR ''0'' \<or> c = CHR ''.'') mantissa)"

definition side_set :: "decimal \<Rightarrow> string \<Rightarrow> side \<Rightarrow> side" where
  "side_set p q s = dict_set (dval p) (case dict_get s (dval p) of None \<Rightarrow> (p, q) | Some (p0, _) \<Rightarrow> (p0, q)) s"

definition side_get :: "side \<Rightarrow> rat \<Rightarrow> string option" where
  "side_get s r = map_option snd (dict_get s r)"

definition apply_level :: "side \<Rightarrow> level \<Rightarrow> py_error + side" where
  "apply_level s = (\<lambda>(price_text, quantity_text).
     rbind (price_of price_text) (\<lambda>price.
       Inr (if is_zero quantity_text then dict_pop (dval price) s else side_set price quantity_text s)))"

definition apply_levels :: "side \<Rightarrow> level list \<Rightarrow> py_error + side" where
  "apply_levels s levels = fold_result apply_level s levels"

definition book_side :: "level list \<Rightarrow> py_error + side" where
  "book_side levels = fold_result (\<lambda>s (price_text, quantity_text).
     if \<not> is_zero quantity_text then
       rbind (price_of price_text) (\<lambda>price. Inr (side_set price quantity_text s))
     else Inr s) [] levels"

definition checkpoint_levels :: "side \<Rightarrow> level list" where
  "checkpoint_levels s = map (\<lambda>(_, price, quantity). (show_decimal price, quantity)) (sort_key fst s)"

section \<open>Diffs, snapshots, state changes\<close>

datatype l2_state = UNANCHORED | VALID | GAPPED

record depth_diff =
  df_connection_id :: string
  df_receive_seq :: int
  df_received_ns :: int
  df_first_update_id :: int
  df_final_update_id :: int
  df_previous_final_update_id :: int
  df_payload_hash :: string
  df_bids :: "level list"
  df_asks :: "level list"

record depth_snapshot =
  sn_connection_id :: string
  sn_receive_seq :: int
  sn_received_ns :: int
  sn_last_update_id :: int
  sn_bids :: "level list"
  sn_asks :: "level list"

record state_change =
  ch_connection_id :: string
  at_ns :: int
  ch_state :: l2_state
  ch_update_id :: "int option"
  ch_reason :: string

type_synonym diff_identity = "int \<times> int \<times> int \<times> string"

record connection_book =
  cb_connection_id :: string
  cb_state :: l2_state
  cb_bids :: side
  cb_asks :: side
  cb_previous :: "int option"
  cb_pending :: "depth_diff list"
  seen_diffs :: "diff_identity set"
  anchor_last_update_id :: "int option"
  anchor_received_ns :: "int option"

definition new_book :: "string \<Rightarrow> connection_book" where
  "new_book c = \<lparr>cb_connection_id = c, cb_state = UNANCHORED, cb_bids = [], cb_asks = [],
     cb_previous = None, cb_pending = [], seen_diffs = {}, anchor_last_update_id = None,
     anchor_received_ns = None\<rparr>"

definition diff_identity :: "depth_diff \<Rightarrow> diff_identity" where
  "diff_identity d = (df_first_update_id d, df_final_update_id d, df_previous_final_update_id d, df_payload_hash d)"

definition span_of :: "depth_diff \<Rightarrow> update_span" where
  "span_of d = \<lparr>span_receive_seq = df_receive_seq d, first_update_id = df_first_update_id d,
     final_update_id = df_final_update_id d, previous_final_update_id = df_previous_final_update_id d\<rparr>"

section \<open>The book's operations\<close>

definition book_apply :: "depth_diff \<Rightarrow> connection_book \<Rightarrow> py_error + connection_book" where
  "book_apply d b =
     rbind (apply_levels (cb_bids b) (df_bids d)) (\<lambda>bids.
     rbind (apply_levels (cb_asks b) (df_asks d)) (\<lambda>asks.
     Inr (b\<lparr>cb_bids := bids, cb_asks := asks, cb_previous := Some (df_final_update_id d)\<rparr>)))"

definition book_invalidate :: "connection_book \<Rightarrow> connection_book" where
  "book_invalidate b = b\<lparr>cb_state := GAPPED, cb_bids := [], cb_asks := [], cb_previous := None,
     cb_pending := [], anchor_last_update_id := None, anchor_received_ns := None\<rparr>"

definition gapped_change :: "connection_book \<Rightarrow> depth_diff \<Rightarrow> string \<Rightarrow> state_change" where
  "gapped_change b d why = \<lparr>ch_connection_id = cb_connection_id b, at_ns = df_received_ns d,
     ch_state = GAPPED, ch_update_id = Some (df_final_update_id d), ch_reason = why\<rparr>"

text \<open>
  The loop over the candidates after the bridge: \<open>Inr (Inl d)\<close> of the diff that breaks the chain,
  \<open>Inr (Inr b)\<close> of the book with all of them applied.
\<close>

fun apply_chain :: "depth_diff list \<Rightarrow> connection_book \<Rightarrow> py_error + (depth_diff + connection_book)" where
  "apply_chain [] b = Inr (Inr b)"
| "apply_chain (d # ds) b =
     (case cb_previous b of
        None \<Rightarrow> Inl (AssertionError ''bridged L2 book omitted its previous update ID'')
      | Some expected \<Rightarrow>
          if \<not> sequence_continues expected (df_previous_final_update_id d) then Inr (Inl d)
          else rbind (book_apply d b) (apply_chain ds))"

fun diffs_out_of_order :: "depth_diff list \<Rightarrow> bool" where
  "diffs_out_of_order (x # y # xs) \<longleftrightarrow> df_receive_seq y < df_receive_seq x \<or> diffs_out_of_order (y # xs)"
| "diffs_out_of_order _ \<longleftrightarrow> False"

definition try_bridge :: "connection_book \<Rightarrow> py_error + (state_change option \<times> connection_book)" where
  "try_bridge b =
     (case (anchor_last_update_id b, anchor_received_ns b) of
        (Some anchor, Some anchor_ns) \<Rightarrow>
          let sorted_candidates = (if diffs_out_of_order (cb_pending b)
                then sort_key df_receive_seq (cb_pending b) else cb_pending b);
              decision = locate_snapshot_bridge anchor (map span_of sorted_candidates);
              candidates = drop (discard_count decision) sorted_candidates in
          if status decision = WAITING_FOR_EVENTS then Inr (None, b\<lparr>cb_pending := candidates\<rparr>)
          else if status decision = STALE_SNAPSHOT then
            Inr (None, b\<lparr>cb_bids := [], cb_asks := [], cb_previous := None,
              anchor_last_update_id := None, anchor_received_ns := None, cb_pending := candidates\<rparr>)
          else
            (case bridge_index decision of
               None \<Rightarrow> Inl (AssertionError ''bridged snapshot omitted its bridge index'')
             | Some index \<Rightarrow>
                 let bridge_at = index - discard_count decision;
                     bridge = candidates ! bridge_at in
                 rbind (book_apply bridge b) (\<lambda>b1.
                 rbind (apply_chain (drop (Suc bridge_at) candidates) b1) (\<lambda>r.
                 (case r of
                    Inl d \<Rightarrow> Inr (Some (gapped_change b d ''buffered_pu_discontinuity''),
                      (book_invalidate b1)\<lparr>cb_pending := [d]\<rparr>)
                  | Inr b2 \<Rightarrow>
                      Inr (Some \<lparr>ch_connection_id = cb_connection_id b,
                             at_ns = max anchor_ns (df_received_ns bridge), ch_state = VALID,
                             ch_update_id = cb_previous b2, ch_reason = ''snapshot_bridge''\<rparr>,
                           b2\<lparr>cb_pending := [], cb_state := VALID,
                              anchor_last_update_id := None, anchor_received_ns := None\<rparr>)))))
      | _ \<Rightarrow> Inr (None, b))"

definition book_on_diff :: "depth_diff \<Rightarrow> connection_book \<Rightarrow> py_error + (state_change option \<times> connection_book)" where
  "book_on_diff d b =
     (if diff_identity d \<in> seen_diffs b then Inr (None, b)
      else let b1 = b\<lparr>seen_diffs := insert (diff_identity d) (seen_diffs b)\<rparr> in
      if cb_state b1 \<noteq> VALID then
        let b2 = b1\<lparr>cb_pending := cb_pending b1 @ [d]\<rparr> in
        (case anchor_last_update_id b2 of
           Some anchor \<Rightarrow>
             if \<not> (df_first_update_id d \<le> anchor \<and> anchor \<le> df_final_update_id d) then Inr (None, b2)
             else try_bridge b2
         | None \<Rightarrow> try_bridge b2)
      else
        (case cb_previous b1 of
           None \<Rightarrow> Inl (AssertionError ''valid L2 book omitted its previous update ID'')
         | Some expected \<Rightarrow>
             if \<not> sequence_continues expected (df_previous_final_update_id d) then
               Inr (Some (gapped_change b1 d ''pu_discontinuity''), (book_invalidate b1)\<lparr>cb_pending := [d]\<rparr>)
             else rbind (book_apply d b1) (\<lambda>b2. Inr (None, b2))))"

definition book_on_snapshot :: "depth_snapshot \<Rightarrow> connection_book \<Rightarrow> py_error + (state_change option \<times> connection_book)" where
  "book_on_snapshot s b =
     rbind (book_side (sn_bids s)) (\<lambda>bids.
     rbind (book_side (sn_asks s)) (\<lambda>asks.
     try_bridge (b\<lparr>cb_bids := bids, cb_asks := asks, cb_previous := Some (sn_last_update_id s),
       anchor_last_update_id := Some (sn_last_update_id s), anchor_received_ns := Some (sn_received_ns s)\<rparr>)))"

section \<open>Checkpoints\<close>

record diff_checkpoint =
  dc_connection_id :: string
  dc_receive_seq :: int
  dc_received_ns :: int
  dc_first_update_id :: int
  dc_final_update_id :: int
  dc_previous_final_update_id :: int
  dc_payload_hash :: string
  dc_bids :: "level list"
  dc_asks :: "level list"

record anchored_checkpoint =
  ac_connection_id :: string
  ac_state :: l2_state
  ac_previous_update_id :: int
  ac_anchor_last_update_id :: int
  ac_anchor_received_ns :: int
  ac_bids :: "level list"
  ac_asks :: "level list"
  ac_pending :: "diff_checkpoint list"

definition validate_anchor :: "anchored_checkpoint \<Rightarrow> py_error + anchored_checkpoint" where
  "validate_anchor c =
     (if ac_state c = VALID \<or> ac_bids c = [] \<or> ac_asks c = [] then
        Inl (ValueError ''anchored checkpoint must be an unbridged book'')
      else Inr c)"

record l2_checkpoint =
  lc_collector_id :: string
  lc_utc_date :: utc_date
  lc_exchange_symbol :: string
  lc_state :: l2_state
  lc_connection_id :: "string option"
  lc_previous_update_id :: "int option"
  valid_through_ns :: "int option"
  lc_bids :: "level list"
  lc_asks :: "level list"
  anchored_books :: "anchored_checkpoint list"

definition validate_l2_checkpoint :: "l2_checkpoint \<Rightarrow> py_error + l2_checkpoint" where
  "validate_l2_checkpoint c =
     (if lc_state c = VALID then
        if lc_connection_id c = None \<or> lc_previous_update_id c = None \<or> valid_through_ns c = None \<or>
           lc_bids c = [] \<or> lc_asks c = []
        then Inl (ValueError ''valid L2 checkpoint is incomplete'')
        else Inr c
      else
        if lc_connection_id c \<noteq> None \<or> lc_previous_update_id c \<noteq> None \<or> valid_through_ns c \<noteq> None \<or>
           lc_bids c \<noteq> [] \<or> lc_asks c \<noteq> []
        then Inl (ValueError ''invalid L2 checkpoint cannot carry book state'')
        else Inr c)"

text \<open>\<open>payload_hash.hex()\<close> and \<open>bytes.fromhex\<close> are a text encoding of the same bytes; the model keeps the bytes.\<close>

definition diff_to_checkpoint :: "depth_diff \<Rightarrow> diff_checkpoint" where
  "diff_to_checkpoint d = \<lparr>dc_connection_id = df_connection_id d, dc_receive_seq = df_receive_seq d,
     dc_received_ns = df_received_ns d, dc_first_update_id = df_first_update_id d,
     dc_final_update_id = df_final_update_id d,
     dc_previous_final_update_id = df_previous_final_update_id d, dc_payload_hash = df_payload_hash d,
     dc_bids = df_bids d, dc_asks = df_asks d\<rparr>"

definition diff_from_checkpoint :: "diff_checkpoint \<Rightarrow> depth_diff" where
  "diff_from_checkpoint c = \<lparr>df_connection_id = dc_connection_id c, df_receive_seq = dc_receive_seq c,
     df_received_ns = dc_received_ns c, df_first_update_id = dc_first_update_id c,
     df_final_update_id = dc_final_update_id c,
     df_previous_final_update_id = dc_previous_final_update_id c, df_payload_hash = dc_payload_hash c,
     df_bids = dc_bids c, df_asks = dc_asks c\<rparr>"

definition anchor_checkpoint :: "connection_book \<Rightarrow> py_error + anchored_checkpoint" where
  "anchor_checkpoint b =
     (case (cb_previous b, anchor_last_update_id b, anchor_received_ns b) of
        (Some previous, Some anchor, Some anchor_ns) \<Rightarrow>
          validate_anchor \<lparr>ac_connection_id = cb_connection_id b, ac_state = cb_state b,
            ac_previous_update_id = previous, ac_anchor_last_update_id = anchor,
            ac_anchor_received_ns = anchor_ns, ac_bids = checkpoint_levels (cb_bids b),
            ac_asks = checkpoint_levels (cb_asks b),
            ac_pending = map diff_to_checkpoint
              (filter (\<lambda>d. anchor \<le> df_final_update_id d) (cb_pending b))\<rparr>
      | _ \<Rightarrow> Inl (ValueError ''connection book has no anchor''))"

definition from_checkpoint :: "l2_checkpoint \<Rightarrow> py_error + connection_book" where
  "from_checkpoint c =
     (if lc_state c \<noteq> VALID \<or> lc_connection_id c = None then
        Inl (ValueError ''only a valid checkpoint can restore a connection book'')
      else
        rbind (book_side (lc_bids c)) (\<lambda>bids.
        rbind (book_side (lc_asks c)) (\<lambda>asks.
        Inr ((new_book (the (lc_connection_id c)))\<lparr>cb_state := VALID, cb_bids := bids, cb_asks := asks,
          cb_previous := lc_previous_update_id c\<rparr>))))"

definition from_anchor_checkpoint :: "anchored_checkpoint \<Rightarrow> py_error + connection_book" where
  "from_anchor_checkpoint c =
     rbind (book_side (ac_bids c)) (\<lambda>bids.
     rbind (book_side (ac_asks c)) (\<lambda>asks.
     Inr ((new_book (ac_connection_id c))\<lparr>cb_state := ac_state c, cb_bids := bids, cb_asks := asks,
       cb_previous := Some (ac_previous_update_id c),
       cb_pending := map diff_from_checkpoint (ac_pending c),
       anchor_last_update_id := Some (ac_anchor_last_update_id c),
       anchor_received_ns := Some (ac_anchor_received_ns c)\<rparr>)))"

section \<open>Sides as maps from price to quantity\<close>

definition side_ok :: "side \<Rightarrow> bool" where
  "side_ok s \<longleftrightarrow> dict_ok s \<and> (\<forall>(r, p, q) \<in> set s. r = dval p \<and> \<not> is_zero q)"

lemma side_ok_Nil [simp]: "side_ok []"
  by (simp add: side_ok_def)

lemma set_dict_set: "x \<in> set (dict_set k v d) \<Longrightarrow> x = (k, v) \<or> x \<in> set d"
  by (induction d) (auto split: if_splits)

lemma set_dict_pop: "x \<in> set (dict_pop k d) \<Longrightarrow> x \<in> set d"
  by (auto simp: dict_pop_def)

lemma side_ok_set:
  assumes "side_ok s" "\<not> is_zero q"
  shows "side_ok (side_set p q s)"
proof -
  have "dval p = dval p0" if "dict_get s (dval p) = Some (p0, q0)" for p0 q0
    using that assms(1) by (fastforce simp: side_ok_def dict_get_Some_iff)
  then have "\<forall>(r, p', q') \<in> set (side_set p q s). r = dval p' \<and> \<not> is_zero q'"
    using assms unfolding side_set_def side_ok_def
    by (fastforce dest!: set_dict_set split: option.splits)
  then show ?thesis using assms(1) by (simp add: side_ok_def side_set_def)
qed

lemma side_ok_pop: "side_ok s \<Longrightarrow> side_ok (dict_pop r s)"
  by (auto simp: side_ok_def dest: set_dict_pop)

lemma side_get_set [simp]: "side_get (side_set p q s) = (side_get s)(dval p \<mapsto> q)"
  by (auto simp: side_get_def side_set_def fun_eq_iff split: option.split)

lemma side_get_pop [simp]: "side_get (dict_pop r s) = (side_get s)(r := None)"
  by (auto simp: side_get_def fun_eq_iff)

lemma side_get_Nil [simp]: "side_get [] = Map.empty"
  by (simp add: side_get_def fun_eq_iff)

lemma price_of_Inr_iff: "price_of t = Inr d \<longleftrightarrow> parse_decimal t = Some d"
  by (simp add: price_of_def split: option.splits)

lemma apply_level_Inr_iff:
  "apply_level s (p, q) = Inr s' \<longleftrightarrow>
   (\<exists>d. parse_decimal p = Some d \<and> s' = (if is_zero q then dict_pop (dval d) s else side_set d q s))"
  by (auto simp: apply_level_def rbind_Inr_iff price_of_Inr_iff)

lemma apply_level_ok: "apply_level s l = Inr s' \<Longrightarrow> side_ok s \<Longrightarrow> side_ok s'"
  by (cases l) (auto simp: apply_level_Inr_iff side_ok_set side_ok_pop)

lemma apply_levels_ok: "apply_levels s ls = Inr s' \<Longrightarrow> side_ok s \<Longrightarrow> side_ok s'"
  unfolding apply_levels_def by (rule fold_result_invariant) (auto intro: apply_level_ok)

lemma book_side_ok: "book_side ls = Inr s \<Longrightarrow> side_ok s"
  unfolding book_side_def
  by (rule fold_result_invariant [where P = side_ok])
     (auto simp: inr_iff side_ok_set split: prod.splits if_splits)

text \<open>What a list of levels does to the map from price to quantity: the last entry of a price wins.\<close>

fun levels_map :: "(rat \<rightharpoonup> string) \<Rightarrow> level list \<Rightarrow> (rat \<rightharpoonup> string)" where
  "levels_map m [] = m"
| "levels_map m ((p, q) # ls) =
     levels_map (case parse_decimal p of None \<Rightarrow> m
       | Some d \<Rightarrow> m(dval d := (if is_zero q then None else Some q))) ls"

lemma apply_levels_map: "apply_levels s ls = Inr s' \<Longrightarrow> side_get s' = levels_map (side_get s) ls"
  unfolding apply_levels_def
proof (induction ls arbitrary: s)
  case (Cons l ls)
  obtain p q where l: "l = (p, q)" by (cases l)
  with Cons.prems obtain d s1 where d: "parse_decimal p = Some d"
    and s1: "s1 = (if is_zero q then dict_pop (dval d) s else side_set d q s)"
    and rest: "fold_result apply_level s1 ls = Inr s'"
    by (auto simp: rbind_Inr_iff apply_level_Inr_iff)
  from Cons.IH [OF rest] show ?case using d s1 l by (simp add: fun_upd_def)
qed simp

lemma apply_levels_total:
  "\<forall>(p, q) \<in> set ls. parse_decimal p \<noteq> None \<Longrightarrow> \<exists>s'. apply_levels s ls = Inr s'"
  unfolding apply_levels_def
proof (induction ls arbitrary: s)
  case (Cons l ls)
  obtain p q where l: "l = (p, q)" by (cases l)
  with Cons.prems obtain d where "parse_decimal p = Some d" by auto
  then obtain s1 where "apply_level s l = Inr s1" by (simp add: apply_level_def l price_of_def)
  with Cons show ?case by simp
qed simp

lemma book_side_total:
  "\<forall>(p, q) \<in> set ls. parse_decimal p \<noteq> None \<Longrightarrow> \<exists>s. book_side ls = Inr s"
proof -
  let ?f = "\<lambda>s (price_text, quantity_text).
     if \<not> is_zero quantity_text then
       rbind (price_of price_text) (\<lambda>price. Inr (side_set price quantity_text s))
     else Inr s"
  have "\<forall>(p, q) \<in> set ls. parse_decimal p \<noteq> None \<Longrightarrow> \<exists>t. fold_result ?f s ls = Inr t" for s
  proof (induction ls arbitrary: s)
    case (Cons l ls)
    obtain p q where l: "l = (p, q)" by (cases l)
    with Cons.prems obtain d where d: "parse_decimal p = Some d" by auto
    then have "?f s l = Inr (if is_zero q then s else side_set d q s)"
      by (simp add: l price_of_def)
    with Cons show ?case by simp
  qed simp
  then show "\<forall>(p, q) \<in> set ls. parse_decimal p \<noteq> None \<Longrightarrow> \<exists>s. book_side ls = Inr s"
    unfolding book_side_def by blast
qed

section \<open>Checkpointed levels read back\<close>

lemma book_side_of_entries:
  assumes "\<forall>(r, p, q) \<in> set xs. r = dval p \<and> \<not> is_zero q"
  shows "fold_result (\<lambda>s (price_text, quantity_text).
     if \<not> is_zero quantity_text then
       rbind (price_of price_text) (\<lambda>price. Inr (side_set price quantity_text s))
     else Inr s) s (map (\<lambda>(_, price, quantity). (show_decimal price, quantity)) xs)
   = Inr (foldl (\<lambda>s (_, p, q). side_set p q s) s xs)"
  using assms by (induction xs arbitrary: s) (auto simp: price_of_def)

lemma side_get_foldl:
  assumes "distinct (map fst xs)" "\<forall>(r, p, q) \<in> set xs. r = dval p"
  shows "side_get (foldl (\<lambda>s (_, p, q). side_set p q s) s xs) =
    (\<lambda>r. case map_of xs r of None \<Rightarrow> side_get s r | Some (p, q) \<Rightarrow> Some q)"
  using assms
proof (induction xs arbitrary: s)
  case (Cons x xs)
  obtain r p q where x: "x = (r, p, q)" by (cases x)
  with Cons.prems have "map_of xs r = None" "r = dval p" by (auto simp: map_of_eq_None_iff)
  with Cons x show ?case by (auto simp: fun_eq_iff split: option.splits)
qed simp

lemma checkpoint_levels_roundtrip:
  assumes "side_ok s"
  shows "\<exists>s'. book_side (checkpoint_levels s) = Inr s' \<and> side_get s' = side_get s \<and> side_ok s'"
proof -
  let ?xs = "sort_key fst s"
  have ok: "\<forall>(r, p, q) \<in> set ?xs. r = dval p \<and> \<not> is_zero q" "distinct (map fst ?xs)"
    using assms distinct_map [of fst s] distinct_map [of fst ?xs] by (auto simp: side_ok_def dict_ok_def)
  have eq: "map_of ?xs = map_of s"
    using ok(2) assms by (intro map_of_inject_set [THEN iffD2]) (auto simp: side_ok_def dict_ok_def)
  have keys: "\<forall>(r, p, q) \<in> set ?xs. r = dval p" using ok(1) by auto
  let ?t = "foldl (\<lambda>s (_, p, q). side_set p q s) [] ?xs"
  have b: "book_side (checkpoint_levels s) = Inr ?t"
    unfolding book_side_def checkpoint_levels_def by (rule book_side_of_entries [OF ok(1)])
  moreover have "side_get ?t = side_get s"
  proof
    fix r
    have "side_get ?t r = (case map_of s r of None \<Rightarrow> side_get [] r | Some (p, q) \<Rightarrow> Some q)"
      using side_get_foldl [OF ok(2) keys, of "[]"] by (simp only: eq)
    also have "\<dots> = side_get s r"
      by (cases "map_of s r") (auto simp: side_get_def dict_get_def)
    finally show "side_get ?t r = side_get s r" .
  qed
  ultimately show ?thesis using book_side_ok by blast
qed

section \<open>The zero test on printed quantities\<close>

lemma digits_value_zero_iff: "list_all is_digit ds \<Longrightarrow> digits_value ds = 0 \<longleftrightarrow> list_all (\<lambda>c. c = CHR ''0'') ds"
proof (induction ds rule: rev_induct)
  case (snoc c ds)
  have "char_digit c = 0 \<longleftrightarrow> c = CHR ''0''" if "is_digit c" for c
  proof -
    have "char_digit c = 0 \<longleftrightarrow> of_char c = (48 :: nat)"
      using that by (auto simp: char_digit_def is_digit_code)
    also have "\<dots> \<longleftrightarrow> c = CHR ''0''"
      using of_char_eq_iff [of c "CHR ''0''", where ?'a = nat] by simp
    finally show ?thesis .
  qed
  with snoc show ?case by (simp add: digits_value_snoc)
qed (simp add: digits_value_def)

lemma is_zero_show: "is_zero (show_decimal d) \<longleftrightarrow> coefficient d = 0"
proof -
  obtain i f x where sh: "show_decimal d = (if negative d then ''-'' else []) @ i @
      (if f = [] then [] else CHR ''.'' # f) @ show_exponent x"
    and i: "i \<noteq> []" "list_all is_digit i" and f: "list_all is_digit f"
    and v: "digits_value (i @ f) = coefficient d"
    by (rule show_decimal_shape)
  let ?m = "i @ (if f = [] then [] else CHR ''.'' # f)"
  let ?e = "\<lambda>c. c \<noteq> CHR ''e'' \<and> c \<noteq> CHR ''E''"
  have d: "is_digit c \<Longrightarrow> ?e c \<and> c \<noteq> CHR ''+'' \<and> c \<noteq> CHR ''-'' \<and> c \<noteq> CHR ''.''" for c
    using not_digit_simps by metis
  have all: "\<forall>c \<in> set ?m. ?e c" using i f d by (auto simp: list_all_iff)
  have "takeWhile ?e (?m @ show_exponent x) = ?m"
    using all by (simp add: takeWhile_append show_exponent_def)
  then have tw: "takeWhile ?e (show_decimal d) = (if negative d then ''-'' else []) @ ?m"
    by (simp add: sh)
  have "hd i \<noteq> CHR ''+'' \<and> hd i \<noteq> CHR ''-''" using i d by (metis list_all_iff hd_in_set)
  then have "dropWhile (\<lambda>c. c = CHR ''+'' \<or> c = CHR ''-'') ((if negative d then ''-'' else []) @ ?m) = ?m"
    using i(1) by (cases i) auto
  then have "is_zero (show_decimal d) \<longleftrightarrow> list_all (\<lambda>c. c = CHR ''0'' \<or> c = CHR ''.'') ?m"
    using i(1) by (simp add: is_zero_def Let_def tw)
  also have "\<dots> \<longleftrightarrow> list_all (\<lambda>c. c = CHR ''0'') (i @ f)"
    using i f d by (auto simp: list_all_iff)
  also have "\<dots> \<longleftrightarrow> coefficient d = 0"
    using digits_value_zero_iff [of "i @ f"] i f v by simp
  finally show ?thesis .
qed

section \<open>The book's invariant\<close>

definition book_ok :: "connection_book \<Rightarrow> bool" where
  "book_ok b \<longleftrightarrow>
     (cb_state b = VALID \<longrightarrow> cb_previous b \<noteq> None \<and> cb_pending b = []) \<and>
     (anchor_last_update_id b = None \<longleftrightarrow> anchor_received_ns b = None) \<and>
     side_ok (cb_bids b) \<and> side_ok (cb_asks b)"

definition readable_levels :: "level list \<Rightarrow> bool" where
  "readable_levels ls \<longleftrightarrow> (\<forall>(p, q) \<in> set ls. parse_decimal p \<noteq> None)"

definition readable_diff :: "depth_diff \<Rightarrow> bool" where
  "readable_diff d \<longleftrightarrow> readable_levels (df_bids d) \<and> readable_levels (df_asks d)"

lemma book_apply_Inr:
  "book_apply d b = Inr b' \<Longrightarrow> \<exists>bids asks. apply_levels (cb_bids b) (df_bids d) = Inr bids \<and>
     apply_levels (cb_asks b) (df_asks d) = Inr asks \<and>
     b' = b\<lparr>cb_bids := bids, cb_asks := asks, cb_previous := Some (df_final_update_id d)\<rparr>"
  by (auto simp: book_apply_def rbind_Inr_iff)

lemma book_apply_frame [simp]:
  assumes "book_apply d b = Inr b'"
  shows "cb_connection_id b' = cb_connection_id b" "cb_state b' = cb_state b"
    "cb_pending b' = cb_pending b" "seen_diffs b' = seen_diffs b"
    "anchor_last_update_id b' = anchor_last_update_id b" "anchor_received_ns b' = anchor_received_ns b"
    "cb_previous b' = Some (df_final_update_id d)"
  using book_apply_Inr [OF assms] by auto

lemma book_apply_sides:
  "book_apply d b = Inr b' \<Longrightarrow> side_ok (cb_bids b) \<and> side_ok (cb_asks b) \<Longrightarrow>
   side_ok (cb_bids b') \<and> side_ok (cb_asks b')"
  by (auto dest!: book_apply_Inr intro: apply_levels_ok)

lemma book_apply_total: "readable_diff d \<Longrightarrow> \<exists>b'. book_apply d b = Inr b'"
  using apply_levels_total [of "df_bids d" "cb_bids b"] apply_levels_total [of "df_asks d" "cb_asks b"]
  by (auto simp: book_apply_def readable_diff_def readable_levels_def)

lemma apply_chain_frame:
  "apply_chain ds b = Inr (Inr b') \<Longrightarrow>
   cb_connection_id b' = cb_connection_id b \<and> cb_state b' = cb_state b \<and> seen_diffs b' = seen_diffs b \<and>
   (cb_previous b \<noteq> None \<longrightarrow> cb_previous b' \<noteq> None) \<and>
   (side_ok (cb_bids b) \<and> side_ok (cb_asks b) \<longrightarrow> side_ok (cb_bids b') \<and> side_ok (cb_asks b'))"
proof (induction ds arbitrary: b)
  case (Cons d ds)
  then obtain b1 where b1: "book_apply d b = Inr b1" "apply_chain ds b1 = Inr (Inr b')"
    by (auto simp: rbind_Inr_iff split: option.splits if_splits)
  from Cons.IH [OF b1(2)] show ?case
    using b1(1) book_apply_sides [OF b1(1)] by simp
qed simp

lemma apply_chain_break_in: "apply_chain ds b = Inr (Inl d) \<Longrightarrow> d \<in> set ds"
  by (induction ds arbitrary: b) (auto simp: rbind_Inr_iff split: option.splits if_splits)

lemma apply_chain_total:
  "\<forall>d \<in> set ds. readable_diff d \<Longrightarrow> cb_previous b \<noteq> None \<Longrightarrow> \<exists>r. apply_chain ds b = Inr r"
proof (induction ds arbitrary: b)
  case (Cons d ds)
  obtain b1 where b1: "book_apply d b = Inr b1" using Cons.prems(1) book_apply_total by force
  have "\<exists>r. apply_chain ds b1 = Inr r" using Cons b1 by simp
  then show ?case using Cons.prems(2) b1 by auto
qed simp

lemma invalidate_book_ok [simp]: "book_ok ((book_invalidate b)\<lparr>cb_pending := ds\<rparr>)"
  by (simp add: book_ok_def book_invalidate_def)

lemma invalidate_book_ok' [simp]: "book_ok (book_invalidate b)"
  by (simp add: book_ok_def book_invalidate_def)

text \<open>
  \<open>try_bridge\<close> by cases: no anchor, waiting, stale, a break in the buffered chain, or bridged.
\<close>

definition candidates_of :: "connection_book \<Rightarrow> depth_diff list" where
  "candidates_of b = (if diffs_out_of_order (cb_pending b)
     then sort_key df_receive_seq (cb_pending b) else cb_pending b)"

lemma set_candidates [simp]: "set (candidates_of b) = set (cb_pending b)"
  by (simp add: candidates_of_def)

lemma try_bridge_cases [consumes 1, case_names none waiting stale bridge]:
  assumes "anchor_last_update_id b = None \<longleftrightarrow> anchor_received_ns b = None"
  obtains
    "anchor_last_update_id b = None" "try_bridge b = Inr (None, b)"
  | l where "anchor_last_update_id b = Some l" "try_bridge b = Inr (None, b\<lparr>cb_pending := []\<rparr>)"
      "\<forall>d \<in> set (cb_pending b). df_final_update_id d < l"
  | l ds where "anchor_last_update_id b = Some l" "set ds \<subseteq> set (cb_pending b)" "ds \<noteq> []"
      "try_bridge b = Inr (None, b\<lparr>cb_bids := [], cb_asks := [], cb_previous := None,
        anchor_last_update_id := None, anchor_received_ns := None, cb_pending := ds\<rparr>)"
  | l ns d ds where "anchor_last_update_id b = Some l" "anchor_received_ns b = Some ns"
      "set (d # ds) \<subseteq> set (cb_pending b)" "overlaps l (span_of d)"
      "try_bridge b = rbind (book_apply d b) (\<lambda>b1. rbind (apply_chain ds b1) (\<lambda>r. (case r of
         Inl e \<Rightarrow> Inr (Some (gapped_change b e ''buffered_pu_discontinuity''),
           (book_invalidate b1)\<lparr>cb_pending := [e]\<rparr>)
       | Inr b2 \<Rightarrow> Inr (Some \<lparr>ch_connection_id = cb_connection_id b, at_ns = max ns (df_received_ns d),
           ch_state = VALID, ch_update_id = cb_previous b2, ch_reason = ''snapshot_bridge''\<rparr>,
           b2\<lparr>cb_pending := [], cb_state := VALID, anchor_last_update_id := None,
             anchor_received_ns := None\<rparr>))))"
proof (cases "anchor_last_update_id b")
  case None
  then show ?thesis using assms that(1) by (simp add: try_bridge_def)
next
  case (Some l)
  then obtain ns where ns: "anchor_received_ns b = Some ns" using assms by auto
  define xs where "xs = candidates_of b"
  define dec where "dec = locate_snapshot_bridge l (map span_of xs)"
  have sub: "set (drop (discard_count dec) xs) \<subseteq> set (cb_pending b)"
    using set_drop_subset [of "discard_count dec" xs] by (simp add: xs_def)
  note unf = try_bridge_def Some ns Let_def xs_def dec_def candidates_of_def
  consider (w) "status dec = WAITING_FOR_EVENTS" | (s) "status dec = STALE_SNAPSHOT" | (b) "status dec = BRIDGED"
    using rule.verdict [of l "map span_of xs"] by (auto simp: dec_def)
  then show ?thesis
  proof cases
    case w
    have "\<forall>d \<in> set (cb_pending b). df_final_update_id d < l"
      using w rule.waiting_all_old [of l "map span_of xs"]
      by (fastforce simp: dec_def xs_def span_of_def)
    moreover have "drop (discard_count dec) xs = []"
      using w rule.waiting_keeps_nothing [of l "map span_of xs"] by (simp add: dec_def drop_map)
    then have "try_bridge b = Inr (None, b\<lparr>cb_pending := []\<rparr>)" using w by (simp add: unf)
    ultimately show ?thesis using that(2) [OF Some] by simp
  next
    case s
    have "discard_count dec < length xs"
      using s rule.not_waiting_less [of l "map span_of xs"] by (simp add: dec_def)
    then have ne: "drop (discard_count dec) xs \<noteq> []" by simp
    show ?thesis using s by (intro that(3) [OF Some sub ne]) (simp add: unf)
  next
    case b
    obtain br where br: "drop (discard_count dec) (map span_of xs) = map span_of (drop (discard_count dec) xs)"
        "drop (discard_count dec) (map span_of xs) \<noteq> []" "overlaps l (hd (drop (discard_count dec) (map span_of xs)))"
      using rule.bridged_head b unfolding dec_def by (metis drop_map list.sel(1) list.discI)
    then obtain d ds where dd: "drop (discard_count dec) xs = d # ds" "overlaps l (span_of d)"
      by (cases "drop (discard_count dec) xs") auto
    have idx: "bridge_index dec = Some (discard_count dec)"
      using b rule.bridged [of l "map span_of xs"] by (simp add: dec_def)
    have s1: "set (d # ds) \<subseteq> set (cb_pending b)" using sub dd by simp
    have st: "status dec \<noteq> WAITING_FOR_EVENTS" "status dec \<noteq> STALE_SNAPSHOT" using b by simp_all
    show ?thesis
    proof (rule that(4) [OF Some ns s1 dd(2)])
    qed (use st idx dd in \<open>simp add: try_bridge_def Some ns Let_def xs_def [symmetric]
        dec_def [symmetric] candidates_of_def [symmetric]\<close>)
  qed
qed

lemma try_bridge_ok:
  assumes "book_ok b" "try_bridge b = Inr (c, b')" "cb_state b \<noteq> VALID \<or> cb_pending b = []"
  shows "book_ok b'"
proof -
  have iff: "anchor_last_update_id b = None \<longleftrightarrow> anchor_received_ns b = None"
    and sides: "side_ok (cb_bids b) \<and> side_ok (cb_asks b)"
    using assms(1) by (auto simp: book_ok_def)
  from iff show ?thesis
  proof (cases b rule: try_bridge_cases)
    case (stale l ds)
    then have "cb_state b \<noteq> VALID" using assms(3) by auto
    with stale assms show ?thesis by (auto simp: book_ok_def)
  next
    case (bridge l ns d ds)
    note run = assms(2) [unfolded bridge(5)]
    obtain b1 r where b1: "book_apply d b = Inr b1" and r: "apply_chain ds b1 = Inr r"
      using run by (auto simp: rbind_Inr_iff)
    show ?thesis
    proof (cases r)
      case (Inl e)
      with b1 r run show ?thesis by auto
    next
      case (Inr b2)
      with b1 r run have "b' = b2\<lparr>cb_pending := [], cb_state := VALID,
          anchor_last_update_id := None, anchor_received_ns := None\<rparr>" by auto
      then show ?thesis
        using apply_chain_frame [of ds b1 b2] r Inr b1 book_apply_sides [OF b1 sides]
        by (simp add: book_ok_def)
    qed
  qed (use assms in \<open>auto simp: book_ok_def\<close>)
qed

lemma book_on_diff_ok:
  assumes "book_ok b" "book_on_diff d b = Inr (c, b')"
  shows "book_ok b'"
proof -
  define b1 where "b1 = b\<lparr>seen_diffs := insert (diff_identity d) (seen_diffs b)\<rparr>"
  have ok1: "book_ok b1" using assms(1) by (simp add: book_ok_def b1_def)
  show ?thesis
  proof (cases "diff_identity d \<in> seen_diffs b")
    case True
    with assms show ?thesis by (simp add: book_on_diff_def)
  next
    case False
    show ?thesis
    proof (cases "cb_state b = VALID")
      case True
      then obtain e where e: "cb_previous b = Some e" using assms(1) by (auto simp: book_ok_def)
      show ?thesis
      proof (cases "sequence_continues e (df_previous_final_update_id d)")
        case True
        with False e \<open>cb_state b = VALID\<close> assms(2) have "book_apply d b1 = Inr b'"
          by (auto simp: book_on_diff_def b1_def Let_def rbind_Inr_iff)
        then show ?thesis using ok1 book_apply_sides [of d b1 b'] by (simp add: book_ok_def)
      next
        case no: False
        with False e \<open>cb_state b = VALID\<close> assms(2) show ?thesis
          by (auto simp: book_on_diff_def Let_def)
      qed
    next
      case nv: False
      define b2 where "b2 = b1\<lparr>cb_pending := cb_pending b1 @ [d]\<rparr>"
      have ok2: "book_ok b2" "cb_state b2 \<noteq> VALID"
        using ok1 nv by (auto simp: b2_def b1_def book_ok_def)
      have "Inr (c, b') = (case anchor_last_update_id b2 of
           Some anchor \<Rightarrow>
             if \<not> (df_first_update_id d \<le> anchor \<and> anchor \<le> df_final_update_id d) then Inr (None, b2)
             else try_bridge b2
         | None \<Rightarrow> try_bridge b2)"
        using False nv assms(2) [symmetric]
        unfolding book_on_diff_def b2_def b1_def Let_def by simp
      then have "b' = b2 \<or> try_bridge b2 = Inr (c, b')"
        by (auto split: option.splits if_splits)
      then show ?thesis using ok2 try_bridge_ok [OF ok2(1)] by auto
    qed
  qed
qed

lemma book_on_snapshot_ok:
  assumes "book_ok b" "book_on_snapshot s b = Inr (c, b')"
  shows "book_ok b'"
proof -
  obtain bids asks where ba: "book_side (sn_bids s) = Inr bids" "book_side (sn_asks s) = Inr asks"
    and tb: "try_bridge (b\<lparr>cb_bids := bids, cb_asks := asks, cb_previous := Some (sn_last_update_id s),
       anchor_last_update_id := Some (sn_last_update_id s), anchor_received_ns := Some (sn_received_ns s)\<rparr>) = Inr (c, b')"
    using assms(2) by (auto simp: book_on_snapshot_def rbind_Inr_iff)
  show ?thesis using assms(1) ba
    by (intro try_bridge_ok [OF _ tb]) (auto simp: book_ok_def book_side_ok)
qed

lemma new_book_ok [simp]: "book_ok (new_book c)"
  by (simp add: new_book_def book_ok_def)

section \<open>Totality\<close>

lemma try_bridge_total:
  assumes "book_ok b" "\<forall>d \<in> set (cb_pending b). readable_diff d"
  shows "\<exists>c b'. try_bridge b = Inr (c, b')"
proof -
  have iff: "anchor_last_update_id b = None \<longleftrightarrow> anchor_received_ns b = None"
    using assms(1) by (simp add: book_ok_def)
  from iff show ?thesis
  proof (cases b rule: try_bridge_cases)
    case (bridge l ns d ds)
    obtain b1 where b1: "book_apply d b = Inr b1" using book_apply_total bridge(3) assms(2) by force
    have "\<forall>d \<in> set ds. readable_diff d" using bridge(3) assms(2) by auto
    then obtain r where "apply_chain ds b1 = Inr r" using apply_chain_total b1 by force
    then show ?thesis using bridge(5) b1 by (cases r) auto
  qed auto
qed

text \<open>Events a book can see, with readable prices; the operations then never raise.\<close>

datatype book_event = BDiff depth_diff | BSnap depth_snapshot | BInvalidate

fun readable_event :: "book_event \<Rightarrow> bool" where
  "readable_event (BDiff d) \<longleftrightarrow> readable_diff d"
| "readable_event (BSnap s) \<longleftrightarrow> readable_levels (sn_bids s) \<and> readable_levels (sn_asks s)"
| "readable_event BInvalidate \<longleftrightarrow> True"

fun book_step :: "connection_book \<Rightarrow> book_event \<Rightarrow> py_error + connection_book" where
  "book_step b (BDiff d) = rbind (book_on_diff d b) (\<lambda>(_, b'). Inr b')"
| "book_step b (BSnap s) = rbind (book_on_snapshot s b) (\<lambda>(_, b'). Inr b')"
| "book_step b BInvalidate = Inr (book_invalidate b)"

definition book_run :: "connection_book \<Rightarrow> book_event list \<Rightarrow> py_error + connection_book" where
  "book_run b es = fold_result book_step b es"

lemma book_step_ok: "book_step b e = Inr b' \<Longrightarrow> book_ok b \<Longrightarrow> book_ok b'"
  by (cases e) (auto simp: rbind_Inr_iff intro: book_on_diff_ok book_on_snapshot_ok)

lemma try_bridge_pending:
  assumes "anchor_last_update_id b = None \<longleftrightarrow> anchor_received_ns b = None" "try_bridge b = Inr (c, b')"
  shows "set (cb_pending b') \<subseteq> set (cb_pending b)"
  using assms(1)
proof (cases b rule: try_bridge_cases)
  case (bridge l ns d ds)
  note run = assms(2) [unfolded bridge(5)]
  obtain b1 r where "apply_chain ds b1 = Inr r" "cb_pending b' = [] \<or> (\<exists>e. r = Inl e \<and> cb_pending b' = [e])"
  proof -
    obtain b1 r where b: "book_apply d b = Inr b1" "apply_chain ds b1 = Inr r"
      using run by (auto simp: rbind_Inr_iff)
    then show ?thesis using run that [of b1 r] by (cases r) auto
  qed
  then show ?thesis using bridge(3) apply_chain_break_in by fastforce
qed (use assms(2) in auto)

lemma book_on_diff_pending:
  assumes "book_ok b" "book_on_diff d b = Inr (c, b')"
  shows "set (cb_pending b') \<subseteq> insert d (set (cb_pending b))"
proof -
  have iff: "anchor_last_update_id b = None \<longleftrightarrow> anchor_received_ns b = None"
    using assms(1) by (simp add: book_ok_def)
  show ?thesis
    using assms(2) iff try_bridge_pending [of "b\<lparr>seen_diffs := insert (diff_identity d) (seen_diffs b),
      cb_pending := cb_pending b @ [d]\<rparr>" c b']
    by (auto simp: book_on_diff_def Let_def rbind_Inr_iff split: if_splits option.splits)
qed

lemma book_on_snapshot_pending:
  assumes "book_on_snapshot s b = Inr (c, b')"
  shows "set (cb_pending b') \<subseteq> set (cb_pending b)"
  using assms by (auto simp: book_on_snapshot_def rbind_Inr_iff dest!: try_bridge_pending [rotated])

lemma book_on_diff_total:
  assumes "book_ok b" "\<forall>d \<in> set (cb_pending b). readable_diff d" "readable_diff d"
  shows "\<exists>c b'. book_on_diff d b = Inr (c, b')"
proof -
  define b1 where "b1 = b\<lparr>seen_diffs := insert (diff_identity d) (seen_diffs b)\<rparr>"
  have "\<exists>c b'. try_bridge (b1\<lparr>cb_pending := cb_pending b1 @ [d]\<rparr>) = Inr (c, b')" if "cb_state b \<noteq> VALID"
    using that assms by (intro try_bridge_total) (auto simp: b1_def book_ok_def)
  moreover obtain b2 where "book_apply d b1 = Inr b2" using book_apply_total [OF assms(3)] by blast
  ultimately show ?thesis using assms(1)
    by (auto simp: book_on_diff_def b1_def Let_def book_ok_def split: option.splits)
qed

lemma book_on_snapshot_total:
  assumes "book_ok b" "\<forall>d \<in> set (cb_pending b). readable_diff d"
    and "readable_levels (sn_bids s)" "readable_levels (sn_asks s)"
  shows "\<exists>c b'. book_on_snapshot s b = Inr (c, b')"
proof -
  obtain bids asks where "book_side (sn_bids s) = Inr bids" "book_side (sn_asks s) = Inr asks"
    using assms(3,4) book_side_total unfolding readable_levels_def by metis
  moreover from this have "\<exists>c b'. try_bridge (b\<lparr>cb_bids := bids, cb_asks := asks,
       cb_previous := Some (sn_last_update_id s), anchor_last_update_id := Some (sn_last_update_id s),
       anchor_received_ns := Some (sn_received_ns s)\<rparr>) = Inr (c, b')"
    using assms(1,2) by (intro try_bridge_total) (auto simp: book_ok_def book_side_ok)
  ultimately show ?thesis by (simp add: book_on_snapshot_def)
qed

lemma book_run_total:
  assumes "book_ok b" "\<forall>d \<in> set (cb_pending b). readable_diff d" "\<forall>e \<in> set es. readable_event e"
  shows "\<exists>b'. book_run b es = Inr b' \<and> book_ok b' \<and> (\<forall>d \<in> set (cb_pending b'). readable_diff d)"
  using assms unfolding book_run_def
proof (induction es arbitrary: b)
  case (Cons e es)
  have "\<exists>b1. book_step b e = Inr b1 \<and> (\<forall>d \<in> set (cb_pending b1). readable_diff d)"
  proof (cases e)
    case (BDiff d)
    then obtain c b1 where "book_on_diff d b = Inr (c, b1)" using book_on_diff_total Cons.prems by force
    then show ?thesis using BDiff book_on_diff_pending [OF Cons.prems(1)] Cons.prems by fastforce
  next
    case (BSnap s)
    then obtain c b1 where "book_on_snapshot s b = Inr (c, b1)" using book_on_snapshot_total Cons.prems by force
    then show ?thesis using BSnap book_on_snapshot_pending Cons.prems by fastforce
  next
    case BInvalidate
    then show ?thesis by (simp add: book_invalidate_def)
  qed
  then obtain b1 where b1: "book_step b e = Inr b1" "\<forall>d \<in> set (cb_pending b1). readable_diff d" by blast
  then show ?case using Cons.IH [OF book_step_ok [OF b1(1) Cons.prems(1)] b1(2)] Cons.prems(3) by simp
qed simp

section \<open>What a valid book rests on\<close>

text \<open>
  A snapshot among the events, and a chain of diffs among the events that starts by overlapping it
  and is linked (the same \<open>anchored_chain\<close> as for the collector's tracker), whose levels applied in
  order to the snapshot's sides give the book's sides.
\<close>

definition book_evidence :: "book_event list \<Rightarrow> connection_book \<Rightarrow> bool" where
  "book_evidence es b \<longleftrightarrow> (\<exists>s ds bids asks. BSnap s \<in> set es \<and> (\<forall>d \<in> set ds. BDiff d \<in> set es) \<and>
     anchored_chain (sn_last_update_id s) (map span_of ds) \<and>
     book_side (sn_bids s) = Inr bids \<and> book_side (sn_asks s) = Inr asks \<and>
     apply_levels bids (concat (map df_bids ds)) = Inr (cb_bids b) \<and>
     apply_levels asks (concat (map df_asks ds)) = Inr (cb_asks b) \<and>
     cb_previous b = Some (df_final_update_id (last ds)))"

definition holds_snapshot :: "book_event list \<Rightarrow> connection_book \<Rightarrow> bool" where
  "holds_snapshot es b \<longleftrightarrow> (\<forall>l. anchor_last_update_id b = Some l \<longrightarrow>
     (\<exists>s. BSnap s \<in> set es \<and> sn_last_update_id s = l \<and> book_side (sn_bids s) = Inr (cb_bids b) \<and>
        book_side (sn_asks s) = Inr (cb_asks b)))"

definition book_grounded :: "book_event list \<Rightarrow> connection_book \<Rightarrow> bool" where
  "book_grounded es b \<longleftrightarrow> book_ok b \<and> (\<forall>d \<in> set (cb_pending b). BDiff d \<in> set es) \<and>
     (cb_state b \<noteq> VALID \<longrightarrow> holds_snapshot es b) \<and>
     (cb_state b = VALID \<and> anchor_last_update_id b = None \<longrightarrow> book_evidence es b)"

lemma apply_levels_append:
  "apply_levels s (xs @ ys) = rbind (apply_levels s xs) (\<lambda>t. apply_levels t ys)"
  by (simp add: apply_levels_def fold_result_append)

lemma apply_chain_content:
  "apply_chain ds b = Inr (Inr b') \<Longrightarrow> cb_previous b = Some (final_update_id x) \<Longrightarrow>
   linked (x # map span_of ds) \<and>
   apply_levels (cb_bids b) (concat (map df_bids ds)) = Inr (cb_bids b') \<and>
   apply_levels (cb_asks b) (concat (map df_asks ds)) = Inr (cb_asks b') \<and>
   cb_previous b' = Some (final_update_id (last (x # map span_of ds)))"
proof (induction ds arbitrary: b x)
  case (Cons d ds)
  from Cons.prems obtain b1 where b1: "book_apply d b = Inr b1" "apply_chain ds b1 = Inr (Inr b')"
    and link: "df_previous_final_update_id d = final_update_id x"
    by (auto simp: rbind_Inr_iff sequence_continues_def split: if_splits)
  have "cb_previous b1 = Some (final_update_id (span_of d))" using b1(1) by (simp add: span_of_def)
  from Cons.IH [OF b1(2) this] show ?case
    using book_apply_Inr [OF b1(1)] link by (auto simp: apply_levels_append span_of_def)
qed (simp add: apply_levels_def)

lemma try_bridge_grounded:
  assumes ok: "book_ok b" and run: "try_bridge b = Inr (c, b')"
    and st: "cb_state b \<noteq> VALID \<or> cb_pending b = []"
    and pend: "\<forall>d \<in> set (cb_pending b). BDiff d \<in> set es" and held: "holds_snapshot es b"
    and ev: "cb_state b = VALID \<and> anchor_last_update_id b = None \<longrightarrow> book_evidence es b"
  shows "book_grounded es b'"
proof -
  have ok': "book_ok b'" by (rule try_bridge_ok [OF ok run st])
  have iff: "anchor_last_update_id b = None \<longleftrightarrow> anchor_received_ns b = None"
    using ok by (simp add: book_ok_def)
  have pend': "\<forall>d \<in> set (cb_pending b'). BDiff d \<in> set es"
    using try_bridge_pending [OF iff run] pend by auto
  from iff have "(cb_state b' \<noteq> VALID \<longrightarrow> holds_snapshot es b') \<and>
     (cb_state b' = VALID \<and> anchor_last_update_id b' = None \<longrightarrow> book_evidence es b')"
  proof (cases b rule: try_bridge_cases)
    case (stale l ds)
    then have "cb_state b \<noteq> VALID" using st by auto
    with stale run show ?thesis by (auto simp: holds_snapshot_def)
  next
    case (bridge l ns d ds)
    note step = run [unfolded bridge(5)]
    obtain b1 r where b1: "book_apply d b = Inr b1" and r: "apply_chain ds b1 = Inr r"
      using step by (auto simp: rbind_Inr_iff)
    obtain s where s: "BSnap s \<in> set es" "sn_last_update_id s = l"
      "book_side (sn_bids s) = Inr (cb_bids b)" "book_side (sn_asks s) = Inr (cb_asks b)"
      using held bridge(1) by (auto simp: holds_snapshot_def)
    show ?thesis
    proof (cases r)
      case (Inl e)
      with step b1 r show ?thesis by (auto simp: holds_snapshot_def book_invalidate_def)
    next
      case (Inr b2)
      have b': "b' = b2\<lparr>cb_pending := [], cb_state := VALID, anchor_last_update_id := None,
          anchor_received_ns := None\<rparr>" using step b1 r Inr by auto
      have "cb_previous b1 = Some (final_update_id (span_of d))" using b1 by (simp add: span_of_def)
      note content = apply_chain_content [OF r [unfolded Inr] this]
      have "last (map span_of (d # ds)) = span_of (last (d # ds))" by (rule last_map) simp
      then have prev: "cb_previous b2 = Some (df_final_update_id (last (d # ds)))"
        using content by (simp add: span_of_def)
      have "book_evidence es b'"
        unfolding book_evidence_def
      proof (rule exI [of _ s], rule exI [of _ "d # ds"], rule exI [of _ "cb_bids b"],
          rule exI [of _ "cb_asks b"], intro conjI)
        show "\<forall>d \<in> set (d # ds). BDiff d \<in> set es" using bridge(3) pend by auto
        show "anchored_chain (sn_last_update_id s) (map span_of (d # ds))"
          using content bridge(4) s(2) by (simp add: anchored_chain_def)
      qed (use s content prev b' book_apply_Inr [OF b1] in \<open>auto simp: apply_levels_append\<close>)
      then show ?thesis using b' by simp
    qed
  qed (use run held ev in \<open>auto simp: holds_snapshot_def book_evidence_def\<close>)
  with ok' pend' show ?thesis by (simp add: book_grounded_def)
qed

lemma book_grounded_mono: "book_grounded es b \<Longrightarrow> set es \<subseteq> set es' \<Longrightarrow> book_grounded es' b"
  unfolding book_grounded_def holds_snapshot_def book_evidence_def by (meson subsetD)

lemma book_grounded_invalidate [simp]: "book_grounded es (book_invalidate b)"
  by (simp add: book_grounded_def holds_snapshot_def) (simp add: book_invalidate_def)

lemma book_grounded_gap: "BDiff d \<in> set es \<Longrightarrow> book_grounded es ((book_invalidate b)\<lparr>cb_pending := [d]\<rparr>)"
  by (simp add: book_grounded_def holds_snapshot_def) (simp add: book_invalidate_def)

lemma book_evidence_extend:
  assumes "book_evidence es b" "BDiff d \<in> set es" "cb_previous b = Some (df_previous_final_update_id d)"
    "book_apply d b = Inr b'"
  shows "book_evidence es b'"
proof -
  obtain s ds bids asks where ev: "BSnap s \<in> set es" "\<forall>d \<in> set ds. BDiff d \<in> set es"
    "anchored_chain (sn_last_update_id s) (map span_of ds)"
    "book_side (sn_bids s) = Inr bids" "book_side (sn_asks s) = Inr asks"
    "apply_levels bids (concat (map df_bids ds)) = Inr (cb_bids b)"
    "apply_levels asks (concat (map df_asks ds)) = Inr (cb_asks b)"
    "cb_previous b = Some (df_final_update_id (last ds))"
    using assms(1) unfolding book_evidence_def by blast
  have ne: "ds \<noteq> []" using ev(3) by (auto simp: anchored_chain_def)
  have chain: "anchored_chain (sn_last_update_id s) (map span_of (ds @ [d]))"
    using ev(3,8) ne assms(3)
    by (simp add: anchored_chain_def linked_append_one last_map) (simp add: span_of_def)
  show ?thesis
    unfolding book_evidence_def
    by (rule exI [of _ s], rule exI [of _ "ds @ [d]"], rule exI [of _ bids], rule exI [of _ asks])
       (use ev chain assms(2) book_apply_Inr [OF assms(4)] in \<open>auto simp: apply_levels_append\<close>)
qed

lemma book_on_diff_grounded:
  assumes g: "book_grounded es b" and run: "book_on_diff d b = Inr (c, b')" and d: "BDiff d \<in> set es"
  shows "book_grounded es b'"
proof -
  define b1 where "b1 = b\<lparr>seen_diffs := insert (diff_identity d) (seen_diffs b)\<rparr>"
  have g1: "book_grounded es b1"
    using g by (simp add: book_grounded_def b1_def book_ok_def holds_snapshot_def book_evidence_def)
  note run1 = run [unfolded book_on_diff_def Let_def, folded b1_def]
  show ?thesis
  proof (cases "diff_identity d \<in> seen_diffs b")
    case True
    with run g show ?thesis by (simp add: book_on_diff_def)
  next
    case new: False
    show ?thesis
    proof (cases "cb_state b1 = VALID")
      case v: True
      then obtain e where e: "cb_previous b1 = Some e" using g1 by (auto simp: book_grounded_def book_ok_def)
      show ?thesis
      proof (cases "sequence_continues e (df_previous_final_update_id d)")
        case True
        then have "book_apply d b1 = Inr b'" using run1 new v e by (auto simp: rbind_Inr_iff)
        moreover from this have "book_ok b'"
          using g1 book_apply_sides [of d b1 b'] by (simp add: book_grounded_def book_ok_def)
        ultimately show ?thesis
          using g1 v e True d book_evidence_extend [of es b1 d b']
          by (auto simp: book_grounded_def sequence_continues_def book_ok_def)
      next
        case False
        then show ?thesis using run1 new v e book_grounded_gap [OF d, of b1] by auto
      qed
    next
      case nv: False
      define b2 where "b2 = b1\<lparr>cb_pending := cb_pending b1 @ [d]\<rparr>"
      have g2: "book_grounded es b2"
        using g1 d nv by (auto simp: book_grounded_def b2_def book_ok_def holds_snapshot_def)
      have "b' = b2 \<or> try_bridge b2 = Inr (c, b')"
        using run1 [folded b2_def] new nv by (auto split: option.splits if_splits)
      then show ?thesis
        using g2 nv try_bridge_grounded [of b2 c b' es] by (auto simp: book_grounded_def b2_def)
    qed
  qed
qed

lemma book_on_snapshot_grounded:
  assumes g: "book_grounded es b" and run: "book_on_snapshot s b = Inr (c, b')" and s: "BSnap s \<in> set es"
  shows "book_grounded es b'"
proof -
  obtain bids asks where ba: "book_side (sn_bids s) = Inr bids" "book_side (sn_asks s) = Inr asks"
    and tb: "try_bridge (b\<lparr>cb_bids := bids, cb_asks := asks, cb_previous := Some (sn_last_update_id s),
       anchor_last_update_id := Some (sn_last_update_id s), anchor_received_ns := Some (sn_received_ns s)\<rparr>) = Inr (c, b')"
    using run by (auto simp: book_on_snapshot_def rbind_Inr_iff)
  show ?thesis using g ba s
    by (intro try_bridge_grounded [OF _ tb])
       (auto simp: book_grounded_def book_ok_def book_side_ok holds_snapshot_def)
qed

lemma book_run_grounded:
  assumes "book_grounded es b" "fold_result book_step b es' = Inr b'" "set es' \<subseteq> set es"
  shows "book_grounded es b'"
proof (rule fold_result_invariant [OF assms(2), where P = "book_grounded es", OF assms(1)])
  fix u e u' assume "book_grounded es u" "e \<in> set es'" "book_step u e = Inr u'"
  with assms(3) show "book_grounded es u'"
    by (cases e) (auto simp: rbind_Inr_iff intro: book_on_diff_grounded book_on_snapshot_grounded)
qed

definition unanchored :: "connection_book \<Rightarrow> bool" where
  "unanchored b \<longleftrightarrow> cb_state b \<noteq> VALID \<and> cb_pending b = [] \<and> anchor_last_update_id b = None \<and>
     anchor_received_ns b = None \<and> cb_bids b = [] \<and> cb_asks b = []"

lemma unanchored_new [simp]: "unanchored (new_book c)"
  by (simp add: unanchored_def new_book_def)

lemma unanchored_invalidate [simp]: "unanchored (book_invalidate b)"
  by (simp add: unanchored_def book_invalidate_def)

lemma unanchored_grounded: "unanchored b \<Longrightarrow> book_grounded es b"
  by (auto simp: unanchored_def book_grounded_def book_ok_def holds_snapshot_def)

section \<open>Properties\<close>

text \<open>C2. Whatever events a book receives from an unanchored start (a new book, or one just
  invalidated), if it is then VALID with no outstanding anchor, there are a snapshot and a chain of
  diffs among those events, linked and overlapping the snapshot, such that each of its
  sides is the snapshot's with the levels of those diffs applied in order (the last level of a
  price wins, a zero removes it), and its previous update id is the final id of the last diff.\<close>

theorem valid_book_rests_on_snapshot:
  assumes "unanchored b0" and "book_run b0 es = Inr b"
    and "cb_state b = VALID" and "anchor_last_update_id b = None"
  shows "\<exists>s ds bids asks. BSnap s \<in> set es \<and> (\<forall>d \<in> set ds. BDiff d \<in> set es) \<and>
     anchored_chain (sn_last_update_id s) (map span_of ds) \<and>
     book_side (sn_bids s) = Inr bids \<and> book_side (sn_asks s) = Inr asks \<and>
     side_get (cb_bids b) = levels_map (side_get bids) (concat (map df_bids ds)) \<and>
     side_get (cb_asks b) = levels_map (side_get asks) (concat (map df_asks ds)) \<and>
     cb_previous b = Some (df_final_update_id (last ds))"
proof -
  have "book_grounded es b"
    using book_run_grounded [OF unanchored_grounded [OF assms(1)]] assms(2) by (simp add: book_run_def)
  then have "book_evidence es b" using assms(3,4) by (simp add: book_grounded_def)
  then show ?thesis unfolding book_evidence_def
    by (elim ex_forward conj_forward) (simp_all add: apply_levels_map)
qed

definition ex_diff :: "int \<Rightarrow> int \<Rightarrow> int \<Rightarrow> level list \<Rightarrow> depth_diff" where
  "ex_diff u final pu bids = \<lparr>df_connection_id = ''c1'', df_receive_seq = u, df_received_ns = 10 * u,
     df_first_update_id = u, df_final_update_id = final, df_previous_final_update_id = pu,
     df_payload_hash = ''h'', df_bids = bids, df_asks = []\<rparr>"

definition ex_snapshot :: depth_snapshot where
  "ex_snapshot = \<lparr>sn_connection_id = ''c1'', sn_receive_seq = 3, sn_received_ns = 55,
     sn_last_update_id = 5, sn_bids = [(''1.5'', ''2''), (''1.4'', ''1'')], sn_asks = [(''1.6'', ''3'')]\<rparr>"

definition ex_book_events :: "book_event list" where
  "ex_book_events = [BDiff (ex_diff 4 6 3 [(''1.50'', ''0.00'')]), BSnap ex_snapshot,
     BDiff (ex_diff 7 8 6 [(''1.3'', ''9'')])]"

definition ex_book :: connection_book where
  "ex_book = (case book_run (new_book ''c1'') ex_book_events of Inl _ \<Rightarrow> new_book ''c1'' | Inr b \<Rightarrow> b)"

lemma ex_book_run: "book_run (new_book ''c1'') ex_book_events = Inr ex_book \<and> cb_state ex_book = VALID \<and>
    anchor_last_update_id ex_book = None \<and> map (snd \<circ> snd) (cb_bids ex_book) = [''1'', ''9''] \<and>
    cb_previous ex_book = Some 8 \<and> cb_pending ex_book = []"
proof -
  have d: "parse_decimal ''1.50'' = Some (Fin False 150 (- 2))" "parse_decimal ''1.5'' = Some (Fin False 15 (- 1))"
    "parse_decimal ''1.4'' = Some (Fin False 14 (- 1))" "parse_decimal ''1.6'' = Some (Fin False 16 (- 1))"
    "parse_decimal ''1.3'' = Some (Fin False 13 (- 1))"
    by code_simp+
  have v: "dval (Fin False 150 (- 2)) = 3 / 2" "dval (Fin False 15 (- 1)) = 3 / 2" "dval (Fin False 14 (- 1)) = 7 / 5"
    "dval (Fin False 16 (- 1)) = 8 / 5" "dval (Fin False 13 (- 1)) = 13 / 10"
    by code_simp+
  have z: "is_zero ''0.00''" "\<not> is_zero ''2''" "\<not> is_zero ''1''" "\<not> is_zero ''3''" "\<not> is_zero ''9''"
    by code_simp+
  show ?thesis
    by (simp add: ex_book_def ex_book_events_def ex_diff_def ex_snapshot_def book_run_def d v z
        book_on_diff_def book_on_snapshot_def book_side_def price_of_def side_set_def dict_get_def
        dict_pop_def new_book_def diff_identity_def try_bridge_def locate_snapshot_bridge_def span_of_def
        sequence_continues_def apply_levels_def apply_level_def book_apply_def bridge_result_of_def Let_def
        cong: rbind_eval_cong)
qed

theorem valid_book_rests_on_snapshot_witness:
  "\<exists>s ds. BSnap s \<in> set ex_book_events \<and> (\<forall>d \<in> set ds. BDiff d \<in> set ex_book_events) \<and>
     anchored_chain (sn_last_update_id s) (map span_of ds) \<and> cb_previous ex_book = Some (df_final_update_id (last ds))"
  using valid_book_rests_on_snapshot [of "new_book ''c1''" ex_book_events ex_book] ex_book_run by auto

text \<open>On events whose prices read as finite decimals a book never raises, from a new book on,
  whatever their order: \<open>on_diff\<close>, \<open>on_snapshot\<close> and \<open>invalidate\<close> return (neither of the two
  assertions of the code can fail), and the result is well formed: a VALID book has a previous
  update id and buffers nothing, the two anchor fields are set together, and no side stores a zero
  quantity or two entries for one price.\<close>

lemma book_never_raises:
  assumes "\<forall>e \<in> set es. readable_event e"
  shows "\<exists>b. book_run (new_book c) es = Inr b \<and>
    (cb_state b = VALID \<longrightarrow> cb_previous b \<noteq> None \<and> cb_pending b = []) \<and>
    (anchor_last_update_id b = None \<longleftrightarrow> anchor_received_ns b = None) \<and>
    side_ok (cb_bids b) \<and> side_ok (cb_asks b)"
  using book_run_total [OF new_book_ok _ assms, of c] by (auto simp: book_ok_def new_book_def)

lemma book_never_raises_witness:
  "\<exists>b. book_run (new_book ''c1'') [BDiff (ex_diff 4 6 3 [(''1.50'', ''0.00'')]), BInvalidate] = Inr b \<and>
     side_ok (cb_bids b)"
proof -
  have "parse_decimal ''1.50'' \<noteq> None" by code_simp
  then have "\<forall>e \<in> set [BDiff (ex_diff 4 6 3 [(''1.50'', ''0.00'')]), BInvalidate]. readable_event e"
    by (simp add: ex_diff_def readable_diff_def readable_levels_def)
  from book_never_raises [OF this, of "''c1''"] show ?thesis by blast
qed

text \<open>C3. An anchored book saved at the end of a day and restored the next is the same book: the
  restored one has the connection, the state, the ids and the anchor, the same quantity at every
  price of both sides, and exactly the buffered diffs that can still matter (those not older than
  the anchor), in order; only the memory of seen diffs starts empty.\<close>

theorem anchored_book_restored:
  assumes "book_ok b" and "anchor_checkpoint b = Inr c"
  shows "\<exists>b'. from_anchor_checkpoint c = Inr b' \<and> book_ok b' \<and>
    cb_connection_id b' = cb_connection_id b \<and> cb_state b' = cb_state b \<and> cb_state b' \<noteq> VALID \<and>
    cb_previous b' = cb_previous b \<and> anchor_last_update_id b' = anchor_last_update_id b \<and>
    anchor_received_ns b' = anchor_received_ns b \<and>
    side_get (cb_bids b') = side_get (cb_bids b) \<and> side_get (cb_asks b') = side_get (cb_asks b) \<and>
    cb_pending b' = filter (\<lambda>d. the (anchor_last_update_id b) \<le> df_final_update_id d) (cb_pending b) \<and>
    seen_diffs b' = {}"
proof -
  obtain p l ns where pl: "cb_previous b = Some p" "anchor_last_update_id b = Some l" "anchor_received_ns b = Some ns"
    using assms(2) by (auto simp: anchor_checkpoint_def split: option.splits)
  note c = assms(2) [unfolded anchor_checkpoint_def pl option.case prod.case validate_anchor_def, THEN sym]
  have sides: "side_ok (cb_bids b)" "side_ok (cb_asks b)" using assms(1) by (simp_all add: book_ok_def)
  from checkpoint_levels_roundtrip [OF sides(1)] obtain bids where bids:
    "book_side (checkpoint_levels (cb_bids b)) = Inr bids" "side_get bids = side_get (cb_bids b)" "side_ok bids" by blast
  from checkpoint_levels_roundtrip [OF sides(2)] obtain asks where asks:
    "book_side (checkpoint_levels (cb_asks b)) = Inr asks" "side_get asks = side_get (cb_asks b)" "side_ok asks" by blast
  have inv: "diff_from_checkpoint (diff_to_checkpoint d) = d" for d
    by (simp add: diff_from_checkpoint_def diff_to_checkpoint_def)
  from c have nv: "cb_state b \<noteq> VALID" by (auto split: if_splits)
  show ?thesis using c nv pl bids asks
    by (auto simp: from_anchor_checkpoint_def new_book_def book_ok_def comp_def inv split: if_splits)
qed

definition ex_anchored :: connection_book where
  "ex_anchored = (new_book ''c1'')\<lparr>cb_bids := [(3 / 2, Fin False 15 (- 1), ''2'')],
     cb_asks := [(8 / 5, Fin False 16 (- 1), ''3'')], cb_previous := Some 5,
     cb_pending := [ex_diff 2 4 1 []], anchor_last_update_id := Some 5, anchor_received_ns := Some 55\<rparr>"

theorem anchored_book_restored_witness:
  "\<exists>c b'. anchor_checkpoint ex_anchored = Inr c \<and> from_anchor_checkpoint c = Inr b' \<and> cb_pending b' = [] \<and>
     side_get (cb_bids b') = side_get (cb_bids ex_anchored)"
proof -
  have v: "dval (Fin False 15 (- 1)) = 3 / 2" "dval (Fin False 16 (- 1)) = 8 / 5" by code_simp+
  have z: "\<not> is_zero ''2''" "\<not> is_zero ''3''" by code_simp+
  have ok: "book_ok ex_anchored"
    by (simp add: book_ok_def ex_anchored_def new_book_def side_ok_def dict_ok_def v z)
  obtain c where c: "anchor_checkpoint ex_anchored = Inr c"
    by (simp add: anchor_checkpoint_def ex_anchored_def validate_anchor_def new_book_def checkpoint_levels_def
        insort_key_def)
  have "cb_pending ex_anchored = [ex_diff 2 4 1 []]" "anchor_last_update_id ex_anchored = Some 5"
    by (simp_all add: ex_anchored_def)
  with anchored_book_restored [OF ok c] c show ?thesis by (auto simp: ex_diff_def)
qed

text \<open>The zero test reads text, yet agrees with the number: on any quantity as \<open>str(Decimal)\<close>
  prints it, signed zeros and exponents included, \<open>_is_zero\<close> answers whether the decimal is zero.\<close>

lemma zero_test_exact: "is_zero (show_decimal d) \<longleftrightarrow> dval d = 0"
  by (simp add: is_zero_show dval_def scale10_def)

text \<open>C4. A second snapshot on a VALID book leaves a state the code cannot save: the book answers no
  change and stays VALID, but on the new snapshot and with an anchor no diff has overlapped, and
  \<open>_anchor_checkpoint\<close> then raises, since an anchored checkpoint must not be VALID.\<close>

theorem snapshot_on_valid_book_unsaveable:
  assumes "book_ok b" and "cb_state b = VALID" and "book_on_snapshot s b = Inr (c, b')"
  shows "c = None \<and> cb_state b' = VALID \<and> cb_previous b' = Some (sn_last_update_id s) \<and>
    anchor_last_update_id b' = Some (sn_last_update_id s) \<and>
    anchor_checkpoint b' = Inl (ValueError ''anchored checkpoint must be an unbridged book'')"
proof -
  have p: "cb_pending b = []" using assms(1,2) by (simp add: book_ok_def)
  have loc: "locate_snapshot_bridge l [] = (bridge_result_of WAITING_FOR_EVENTS)" for l
    by (simp add: locate_snapshot_bridge_def bridge_result_of_def)
  have "c = None \<and> (\<exists>bids asks. b' = b\<lparr>cb_bids := bids, cb_asks := asks, cb_previous := Some (sn_last_update_id s),
       anchor_last_update_id := Some (sn_last_update_id s), anchor_received_ns := Some (sn_received_ns s),
       cb_pending := []\<rparr>)"
    using assms(3) p
    by (auto simp: book_on_snapshot_def rbind_Inr_iff try_bridge_def loc Let_def bridge_result_of_def)
  then show ?thesis using assms(2) by (auto simp: anchor_checkpoint_def validate_anchor_def)
qed

theorem snapshot_on_valid_book_unsaveable_witness:
  "\<exists>b'. book_on_snapshot (ex_snapshot\<lparr>sn_bids := [], sn_asks := []\<rparr>) ex_book = Inr (None, b') \<and> cb_state b' = VALID"
proof -
  have ok: "book_ok ex_book"
    using book_run_grounded [OF unanchored_grounded [OF unanchored_new [of "''c1''"], of ex_book_events], of _ ex_book]
      ex_book_run by (auto simp: book_run_def book_grounded_def)
  obtain c b' where run: "book_on_snapshot (ex_snapshot\<lparr>sn_bids := [], sn_asks := []\<rparr>) ex_book = Inr (c, b')"
    using book_on_snapshot_total [OF ok, of "ex_snapshot\<lparr>sn_bids := [], sn_asks := []\<rparr>"] ex_book_run
    by (auto simp: readable_levels_def)
  from snapshot_on_valid_book_unsaveable [OF ok _ run] ex_book_run run show ?thesis by auto
qed

end
