(* ===== verification/L2_Day.thy ===== *)
theory L2_Day
  imports L2_Book
begin

text \<open>
  The reconstruction of one UTC day of one symbol, \<open>L2DayReconstructor\<close> of
  \<open>src/miry/pipeline/l2.py\<close>: the rows of the day in file order, merged with the transport gaps in
  the order of their effective times, drive one book per connection and the authority whose validity
  is recorded. Files are inputs (\<open>None\<close> for a file that is not there, parsed JSON or the decoded
  rows otherwise) and the three files written are the result.
\<close>

section \<open>Rows\<close>

record depth_row =
  row_exchange_symbol :: "string option"
  row_stream_type :: string
  row_connection_id :: string
  row_receive_seq :: int
  row_received_ns :: int
  row_payload_hash :: string
  row_first_update_id :: "int option"
  row_final_update_id :: "int option"
  row_previous_final_update_id :: "int option"
  row_last_update_id :: "int option"
  row_bids :: "level list option"
  row_asks :: "level list option"

text \<open>A null column where the code needs a value: \<open>int(None)\<close> and iterating \<open>None\<close> raise.\<close>

definition required :: "'a option \<Rightarrow> py_error + 'a" where
  "required x = (case x of None \<Rightarrow> Inl (TypeError ''null column'') | Some v \<Rightarrow> Inr v)"

definition diff_from_row :: "depth_row \<Rightarrow> py_error + depth_diff" where
  "diff_from_row row =
     rbind (required (row_first_update_id row)) (\<lambda>first.
     rbind (required (row_final_update_id row)) (\<lambda>final.
     rbind (required (row_previous_final_update_id row)) (\<lambda>previous.
     rbind (required (row_bids row)) (\<lambda>bids.
     rbind (required (row_asks row)) (\<lambda>asks.
     Inr \<lparr>df_connection_id = row_connection_id row, df_receive_seq = row_receive_seq row,
       df_received_ns = row_received_ns row, df_first_update_id = first, df_final_update_id = final,
       df_previous_final_update_id = previous, df_payload_hash = row_payload_hash row,
       df_bids = bids, df_asks = asks\<rparr>)))))"

definition snapshot_from_row :: "depth_row \<Rightarrow> py_error + depth_snapshot" where
  "snapshot_from_row row =
     rbind (required (row_last_update_id row)) (\<lambda>last.
     rbind (required (row_bids row)) (\<lambda>bids.
     rbind (required (row_asks row)) (\<lambda>asks.
     Inr \<lparr>sn_connection_id = row_connection_id row, sn_receive_seq = row_receive_seq row,
       sn_received_ns = row_received_ns row, sn_last_update_id = last, sn_bids = bids,
       sn_asks = asks\<rparr>)))"

text \<open>\<open>StreamType(text)\<close> raises for a text that is no member's value.\<close>

definition all_stream_types :: "stream_type list" where
  "all_stream_types = [DEPTH, RPI_DEPTH, DEPTH_SNAPSHOT, RPI_DEPTH_SNAPSHOT, BOOK_TICKER, AGG_TRADE,
     TRADE, MARK_PRICE, FORCE_ORDER, CONTRACT_INFO, OPEN_INTEREST, EXCHANGE_INFO, MARKET_TICKERS,
     DAILY_KLINES, LIQUIDITY_DEPTH, UNIVERSE_DECISION, FORMAL_COLLECTION_STARTED, CLOCK_SAMPLE,
     WS_CONTROL, UNKNOWN]"

definition stream_type_of :: "string \<Rightarrow> py_error + stream_type" where
  "stream_type_of text = (case find (\<lambda>t. stream_value t = text) all_stream_types of
     None \<Rightarrow> Inl (ValueError ''not a valid StreamType'') | Some t \<Rightarrow> Inr t)"

definition depth_rows :: "string \<Rightarrow> bool \<Rightarrow> depth_row list \<Rightarrow> depth_row list" where
  "depth_rows symbol partitioned rows =
     (if partitioned then rows
      else filter (\<lambda>row. row_exchange_symbol row = Some symbol \<and>
             row_stream_type row \<in> {stream_value DEPTH, stream_value DEPTH_SNAPSHOT}) rows)"

section \<open>Transport gaps\<close>

definition gap_effective_ns :: "gap_event \<Rightarrow> int" where
  "gap_effective_ns e =
     (case affected_from_realtime_ns e of
        Some affected \<Rightarrow> if gap_state e = OPEN then affected else observed_at_realtime_ns e
      | None \<Rightarrow> observed_at_realtime_ns e)"

definition transport_gap_events ::
    "unicode \<Rightarrow> string \<Rightarrow> gap_event list option \<Rightarrow> py_error + gap_event list" where
  "transport_gap_events u symbol file =
     (case file of
        None \<Rightarrow> Inr []
      | Some lines \<Rightarrow>
          rbind (map_result (validate_gap_event u) lines) (\<lambda>events.
          Inr (sort_key (\<lambda>e. (gap_effective_ns e, gap_id e, gap_state_value (gap_state e)))
            (filter (\<lambda>e. \<not> (exchange_symbols e \<noteq> [] \<and> symbol \<notin> set (exchange_symbols e)) \<and>
                         \<not> (stream_types e \<noteq> [] \<and> DEPTH \<notin> set (stream_types e))) events))))"

section \<open>The state of the day\<close>

record validity =
  valid_from_ns :: int
  valid_to_ns :: int
  vi_connection_id :: string
  end_reason :: string

record day_state =
  books :: "(string, connection_book) dict"
  changes :: "state_change list"
  intervals :: "validity list"
  authority :: "string option"
  valid_from :: "int option"
  last_valid_connection :: "string option"
  active_gaps :: "string set"

definition interval :: "int \<Rightarrow> int \<Rightarrow> string \<Rightarrow> string \<Rightarrow> validity" where
  "interval start stop c why = \<lparr>valid_from_ns = start, valid_to_ns = stop, vi_connection_id = c, end_reason = why\<rparr>"

text \<open>\<open>if authority is not None and valid_from is not None: intervals.append(...)\<close>\<close>

definition close_interval :: "int \<Rightarrow> string \<Rightarrow> day_state \<Rightarrow> day_state" where
  "close_interval ends why st =
     (case (authority st, valid_from st) of
        (Some c, Some start) \<Rightarrow> st\<lparr>intervals := intervals st @ [interval start ends c why]\<rparr>
      | _ \<Rightarrow> st)"

definition handle_gap :: "gap_event \<Rightarrow> day_state \<Rightarrow> day_state" where
  "handle_gap e st =
     (let effective_ns = gap_effective_ns e in
      if gap_state e = OPEN then
        let st1 = close_interval effective_ns ''transport_gap'' st in
        st1\<lparr>authority := None, valid_from := None, last_valid_connection := None,
          active_gaps := insert (gap_id e) (active_gaps st1),
          changes := changes st1 @
            map (\<lambda>(_, b). \<lparr>ch_connection_id = cb_connection_id b, at_ns = effective_ns,
                   ch_state = GAPPED, ch_update_id = cb_previous b,
                   ch_reason = gap_reason_value (reason e)\<rparr>)
              (filter (\<lambda>(_, b). cb_state b = VALID) (books st1)),
          books := map (\<lambda>(c, b). (c, book_invalidate b)) (books st1)\<rparr>
      else
        let st1 = st\<lparr>active_gaps := active_gaps st - {gap_id e}\<rparr> in
        if active_gaps st1 \<noteq> {} then st1
        else case last_valid_connection st1 of
            None \<Rightarrow> st1
          | Some c \<Rightarrow>
              (case dict_get (books st1) c of
                 None \<Rightarrow> st1
               | Some candidate \<Rightarrow>
                   if cb_state candidate \<noteq> VALID then st1
                   else st1\<lparr>authority := Some c, valid_from := Some (observed_at_realtime_ns e)\<rparr>))"

section \<open>One row\<close>

definition apply_change :: "string \<Rightarrow> state_change \<Rightarrow> day_state \<Rightarrow> day_state" where
  "apply_change c change st =
     (let st1 = st\<lparr>changes := changes st @ [change]\<rparr> in
      if ch_state change = VALID then
        let st2 = st1\<lparr>last_valid_connection := Some c\<rparr> in
        if active_gaps st2 \<noteq> {} then st2
        else (close_interval (at_ns change) ''connection_switch'' st2)
               \<lparr>authority := Some c, valid_from := Some (at_ns change)\<rparr>
      else if authority st1 = Some c \<and> valid_from st1 \<noteq> None then
        let st2 = close_interval (at_ns change) (ch_reason change) st1 in
        st2\<lparr>authority := None, valid_from := None,
          last_valid_connection := (if last_valid_connection st2 = Some c then None
                                    else last_valid_connection st2)\<rparr>
      else st1)"

definition on_row :: "depth_row \<Rightarrow> day_state \<Rightarrow> py_error + day_state" where
  "on_row row st =
     (let c = row_connection_id row;
          book = (case dict_get (books st) c of None \<Rightarrow> new_book c | Some b \<Rightarrow> b) in
      rbind (stream_type_of (row_stream_type row)) (\<lambda>stream.
      rbind (if stream = DEPTH then rbind (diff_from_row row) (\<lambda>d. book_on_diff d book)
             else rbind (snapshot_from_row row) (\<lambda>s. book_on_snapshot s book)) (\<lambda>(change, book').
      let st1 = st\<lparr>books := dict_set c book' (books st)\<rparr> in
      case change of None \<Rightarrow> Inr st1 | Some ch \<Rightarrow> Inr (apply_change c ch st1))))"

text \<open>The main loop: before a row, the gaps that took effect up to its receive time.\<close>

fun day_loop :: "depth_row list \<Rightarrow> gap_event list \<Rightarrow> day_state \<Rightarrow> py_error + day_state" where
  "day_loop [] gaps st = Inr (fold handle_gap gaps st)"
| "day_loop (row # rows) gaps st =
     (let due = takeWhile (\<lambda>g. gap_effective_ns g \<le> row_received_ns row) gaps in
      rbind (on_row row (fold handle_gap due st)) (\<lambda>st'.
      day_loop rows (drop (length due) gaps) st'))"

section \<open>The previous day\<close>

record day_job =
  job_collector_id :: string
  job_date :: utc_date
  job_symbol :: string

definition can_start_without_previous_checkpoint ::
    "day_job \<Rightarrow> (string \<times> json) list option \<Rightarrow> (string \<times> json) list option \<Rightarrow> py_error + bool" where
  "can_start_without_previous_checkpoint job marker previous =
     (case marker of
        None \<Rightarrow> Inl (FileNotFoundError ''normalized day marker does not exist'')
      | Some m \<Rightarrow>
          if jget m ''formal_start_realtime_ns'' \<noteq> JNull then
            (case instance_int (jget m ''formal_start_realtime_ns'') of
               None \<Rightarrow> Inl (ValueError ''normalized formal start is invalid'')
             | Some ns \<Rightarrow>
                 if \<not> (midnight_ns (job_date job) \<le> ns \<and> ns < midnight_ns (job_date job + 1)) then
                   Inl (ValueError ''normalized formal start is invalid'')
                 else Inr True)
          else
            (case previous of
               None \<Rightarrow> Inr False
             | Some p \<Rightarrow>
                 (case jget p ''expected_symbols'' of
                    JList vs \<Rightarrow>
                      if list_ex (\<lambda>v. case v of JStr _ \<Rightarrow> False | _ \<Rightarrow> True) vs then
                        Inl (ValueError ''previous normalized universe is invalid'')
                      else Inr (JStr (job_symbol job) \<notin> set vs)
                  | _ \<Rightarrow> Inl (ValueError ''previous normalized universe is invalid''))))"

definition load_previous_checkpoint ::
    "day_job \<Rightarrow> l2_checkpoint option \<Rightarrow> py_error + l2_checkpoint option" where
  "load_previous_checkpoint job file =
     (case file of
        None \<Rightarrow> Inr None
      | Some raw \<Rightarrow>
          rbind (map_result validate_anchor (anchored_books raw)) (\<lambda>_.
          rbind (validate_l2_checkpoint raw) (\<lambda>cp.
          if lc_collector_id cp \<noteq> job_collector_id job \<or> lc_utc_date cp \<noteq> job_date job - 1 \<or>
             lc_exchange_symbol cp \<noteq> job_symbol job then
            Inl (ValueError ''previous L2 checkpoint identity mismatch'')
          else if lc_state cp = VALID \<and> valid_through_ns cp \<noteq> Some (midnight_ns (job_date job)) then
            Inl (ValueError ''previous L2 checkpoint does not reach UTC boundary'')
          else Inr (Some cp))))"

definition empty_day :: day_state where
  "empty_day = \<lparr>books = [], changes = [], intervals = [], authority = None, valid_from = None,
     last_valid_connection = None, active_gaps = {}\<rparr>"

definition restore_anchored :: "day_state \<Rightarrow> anchored_checkpoint \<Rightarrow> py_error + day_state" where
  "restore_anchored st a =
     (if dict_get (books st) (ac_connection_id a) \<noteq> None then
        Inl (ValueError ''checkpoint repeats a connection ID'')
      else rbind (from_anchor_checkpoint a) (\<lambda>b.
        Inr (st\<lparr>books := dict_set (ac_connection_id a) b (books st)\<rparr>)))"

definition restore_day :: "day_job \<Rightarrow> l2_checkpoint \<Rightarrow> py_error + day_state" where
  "restore_day job cp =
     rbind (if lc_state cp = VALID then
              case lc_connection_id cp of
                None \<Rightarrow> Inl (ValueError ''valid checkpoint has no connection ID'')
              | Some _ \<Rightarrow>
                  rbind (from_checkpoint cp) (\<lambda>b. let c = cb_connection_id b in
                  Inr (empty_day\<lparr>books := [(c, b)], authority := Some c, last_valid_connection := Some c,
                    valid_from := Some (midnight_ns (job_date job))\<rparr>))
            else Inr empty_day)
       (\<lambda>st. fold_result restore_anchored st (anchored_books cp))"

section \<open>The result of the day\<close>

definition build_checkpoint ::
    "day_job \<Rightarrow> connection_book option \<Rightarrow> (string, connection_book) dict \<Rightarrow> py_error + l2_checkpoint" where
  "build_checkpoint job book bs =
     rbind (map_result anchor_checkpoint
         (filter (\<lambda>b. anchor_last_update_id b \<noteq> None \<and> anchor_received_ns b \<noteq> None \<and>
                      cb_bids b \<noteq> [] \<and> cb_asks b \<noteq> []) (map snd bs))) (\<lambda>anchored.
     let unanchored_day = \<lparr>lc_collector_id = job_collector_id job, lc_utc_date = job_date job,
           lc_exchange_symbol = job_symbol job, lc_state = UNANCHORED, lc_connection_id = None,
           lc_previous_update_id = None, valid_through_ns = None, lc_bids = [], lc_asks = [],
           anchored_books = anchored\<rparr> in
     case book of
       None \<Rightarrow> validate_l2_checkpoint unanchored_day
     | Some b \<Rightarrow>
         if cb_state b \<noteq> VALID \<or> cb_previous b = None \<or> cb_bids b = [] \<or> cb_asks b = [] then
           validate_l2_checkpoint unanchored_day
         else validate_l2_checkpoint (unanchored_day\<lparr>lc_state := VALID,
           lc_connection_id := Some (cb_connection_id b), lc_previous_update_id := cb_previous b,
           valid_through_ns := Some (midnight_ns (job_date job + 1)),
           lc_bids := checkpoint_levels (cb_bids b), lc_asks := checkpoint_levels (cb_asks b)\<rparr>))"

record day_inputs =
  in_marker :: "(string \<times> json) list option"
  in_previous_marker :: "(string \<times> json) list option"
  in_checkpoint :: "l2_checkpoint option"
  in_gaps :: "gap_event list option"
  in_partitioned :: bool
  in_rows :: "depth_row list"

record day_result =
  out_changes :: "state_change list"
  out_intervals :: "validity list"
  out_checkpoint :: l2_checkpoint

definition finish_day :: "day_job \<Rightarrow> day_state \<Rightarrow> py_error + day_result" where
  "finish_day job st =
     (let st1 = close_interval (midnight_ns (job_date job + 1)) ''utc_day_end'' st;
          kept = filter (\<lambda>i. valid_from_ns i < valid_to_ns i) (intervals st1);
          final_book = (if active_gaps st = {} then
             case authority st of None \<Rightarrow> None | Some c \<Rightarrow> dict_get (books st) c else None) in
      rbind (build_checkpoint job final_book (books st)) (\<lambda>cp.
      Inr \<lparr>out_changes = changes st1, out_intervals = kept, out_checkpoint = cp\<rparr>))"

definition reconstruct_run :: "unicode \<Rightarrow> day_job \<Rightarrow> day_inputs \<Rightarrow> py_error + day_result" where
  "reconstruct_run u job inp =
     rbind (can_start_without_previous_checkpoint job (in_marker inp) (in_previous_marker inp)) (\<lambda>can_start.
     rbind (load_previous_checkpoint job (in_checkpoint inp)) (\<lambda>checkpoint.
     if checkpoint = None \<and> \<not> can_start then
       Inl (FileNotFoundError ''previous L2 checkpoint is required'')
     else
       rbind (case checkpoint of None \<Rightarrow> Inr empty_day | Some cp \<Rightarrow> restore_day job cp) (\<lambda>st.
       rbind (transport_gap_events u (job_symbol job) (in_gaps inp)) (\<lambda>gaps.
       rbind (day_loop (depth_rows (job_symbol job) (in_partitioned inp) (in_rows inp)) gaps st)
         (finish_day job)))))"

section \<open>Books in time\<close>

text \<open>
  What holds of a book at time \<open>now\<close>: nothing it buffers or anchors on is later, and no buffered
  diff overlaps the anchor (it would have bridged). So a book turns VALID at the time of the row
  that makes it so.
\<close>

definition book_timed :: "int \<Rightarrow> connection_book \<Rightarrow> bool" where
  "book_timed now b \<longleftrightarrow> (\<forall>d \<in> set (cb_pending b). df_received_ns d \<le> now) \<and>
     (\<forall>n. anchor_received_ns b = Some n \<longrightarrow> n \<le> now)"

definition book_timely :: "int \<Rightarrow> connection_book \<Rightarrow> bool" where
  "book_timely now b \<longleftrightarrow> book_ok b \<and> book_timed now b \<and>
     (\<forall>l. anchor_last_update_id b = Some l \<longrightarrow> (\<forall>d \<in> set (cb_pending b). \<not> overlaps l (span_of d)))"

lemma overlaps_span_of: "overlaps l (span_of d) \<longleftrightarrow> df_first_update_id d \<le> l \<and> l \<le> df_final_update_id d"
  by (simp add: overlaps_def span_of_def)

lemma book_timely_mono: "book_timely a b \<Longrightarrow> a \<le> a' \<Longrightarrow> book_timely a' b"
  by (fastforce simp: book_timely_def book_timed_def)

lemma book_timely_new [simp]: "book_timely now (new_book c)"
  by (simp add: book_timely_def book_timed_def) (simp add: new_book_def)

lemma book_timely_invalidate [simp]: "book_timely now (book_invalidate b)"
  by (simp add: book_timely_def book_timed_def) (simp add: book_invalidate_def)

lemma try_bridge_timely:
  assumes ok: "book_ok b" and run: "try_bridge b = Inr (c, b')"
    and st: "cb_state b \<noteq> VALID \<or> cb_pending b = []" and timed: "book_timed now b"
  shows "book_timely now b' \<and> cb_connection_id b' = cb_connection_id b \<and>
    (case c of None \<Rightarrow> cb_state b' = cb_state b
     | Some ch \<Rightarrow> ch_state ch = cb_state b' \<and> cb_state b \<noteq> VALID \<and>
         (cb_state b' = VALID \<longrightarrow> (\<exists>l ns d. anchor_last_update_id b = Some l \<and>
            anchor_received_ns b = Some ns \<and> d \<in> set (cb_pending b) \<and> overlaps l (span_of d) \<and>
            at_ns ch = max ns (df_received_ns d))))"
proof -
  have ok': "book_ok b'" by (rule try_bridge_ok [OF ok run st])
  have iff: "anchor_last_update_id b = None \<longleftrightarrow> anchor_received_ns b = None"
    using ok by (simp add: book_ok_def)
  have pend: "set (cb_pending b') \<subseteq> set (cb_pending b)" by (rule try_bridge_pending [OF iff run])
  from iff show ?thesis
  proof (cases b rule: try_bridge_cases)
    case (bridge l ns d ds)
    note step = run [unfolded bridge(5)]
    have nv: "cb_state b \<noteq> VALID" using bridge(3) st by auto
    obtain b1 r where b1: "book_apply d b = Inr b1" and r: "apply_chain ds b1 = Inr r"
      using step by (auto simp: rbind_Inr_iff)
    show ?thesis
    proof (cases r)
      case (Inl e)
      then have eq: "c = Some (gapped_change b e ''buffered_pu_discontinuity'')"
          "b' = (book_invalidate b1)\<lparr>cb_pending := [e]\<rparr>"
        using step b1 r by auto
      have "e \<in> set ds" using apply_chain_break_in r Inl by blast
      then show ?thesis using eq b1 nv bridge(3) timed ok'
        by (auto simp: book_timely_def book_timed_def book_invalidate_def gapped_change_def)
    next
      case (Inr b2)
      then show ?thesis
        using step b1 r nv bridge(1-4) ok' apply_chain_frame [of ds b1 b2]
        by (auto simp: book_timely_def book_timed_def)
    qed
  qed (use run timed ok' pend in \<open>auto simp: book_timely_def book_timed_def\<close>)
qed

lemma book_on_diff_timely:
  assumes b: "book_timely now b" and run: "book_on_diff d b = Inr (c, b')"
    and t: "now \<le> df_received_ns d"
  shows "book_timely (df_received_ns d) b' \<and> cb_connection_id b' = cb_connection_id b \<and>
    (case c of None \<Rightarrow> cb_state b' = cb_state b
     | Some ch \<Rightarrow> ch_state ch = cb_state b' \<and> (cb_state b = VALID \<longrightarrow> cb_state b' \<noteq> VALID) \<and>
         (cb_state b = VALID \<or> cb_state b' = VALID \<longrightarrow> at_ns ch = df_received_ns d))"
proof -
  have ok': "book_ok b'" using b run by (auto simp: book_timely_def intro: book_on_diff_ok)
  have late: "book_timely (df_received_ns d) b" by (rule book_timely_mono [OF b t])
  define b1 where "b1 = b\<lparr>seen_diffs := insert (diff_identity d) (seen_diffs b)\<rparr>"
  note run1 = run [unfolded book_on_diff_def Let_def, folded b1_def]
  have same: "cb_state b1 = cb_state b" "cb_pending b1 = cb_pending b" "cb_previous b1 = cb_previous b"
    "anchor_last_update_id b1 = anchor_last_update_id b" "anchor_received_ns b1 = anchor_received_ns b"
    "cb_connection_id b1 = cb_connection_id b" "cb_bids b1 = cb_bids b" "cb_asks b1 = cb_asks b"
    by (simp_all add: b1_def)
  show ?thesis
  proof (cases "diff_identity d \<in> seen_diffs b")
    case True
    with run late show ?thesis by (simp add: book_on_diff_def)
  next
    case new: False
    show ?thesis
    proof (cases "cb_state b = VALID")
      case v: True
      then obtain e where e: "cb_previous b = Some e"
        using b by (auto simp: book_timely_def book_ok_def)
      have p: "cb_pending b = []" using b v by (simp add: book_timely_def book_ok_def)
      show ?thesis
      proof (cases "sequence_continues e (df_previous_final_update_id d)")
        case True
        then have c: "c = None" and ap: "book_apply d b1 = Inr b'"
          using run1 new v e same by (auto simp: rbind_Inr_iff)
        show ?thesis using late c p ok' same book_apply_frame [OF ap]
          by (simp add: book_timely_def book_timed_def)
      next
        case False
        then have c: "c = Some (gapped_change b1 d ''pu_discontinuity'')"
            and b': "b' = (book_invalidate b1)\<lparr>cb_pending := [d]\<rparr>"
          using run1 new v e same by auto
        have s': "cb_state b' = GAPPED" "cb_pending b' = [d]" "anchor_received_ns b' = None"
            "anchor_last_update_id b' = None" "cb_connection_id b' = cb_connection_id b"
          using b' same by (simp_all add: book_invalidate_def)
        show ?thesis using ok' c s' same
          by (simp add: book_timely_def book_timed_def gapped_change_def)
      qed
    next
      case nv: False
      define b2 where "b2 = b1\<lparr>cb_pending := cb_pending b1 @ [d]\<rparr>"
      have ok2: "book_ok b2" using b nv same by (simp add: b2_def book_timely_def book_ok_def)
      have timed2: "book_timed (df_received_ns d) b2"
        using late same by (auto simp: b2_def book_timely_def book_timed_def)
      have s2: "cb_state b2 = cb_state b" "cb_connection_id b2 = cb_connection_id b"
          "cb_pending b2 = cb_pending b @ [d]" "anchor_last_update_id b2 = anchor_last_update_id b"
          "anchor_received_ns b2 = anchor_received_ns b"
        using same by (simp_all add: b2_def)
      have old: "\<not> overlaps l (span_of x)"
        if "anchor_last_update_id b = Some l" "x \<in> set (cb_pending b)" for l x
        using that b by (simp add: book_timely_def)
      consider (skip) l where "anchor_last_update_id b = Some l" "\<not> overlaps l (span_of d)" "c = None" "b' = b2"
        | (go) "try_bridge b2 = Inr (c, b')"
      proof -
        have "(case anchor_last_update_id b of None \<Rightarrow> try_bridge b2 | Some anchor \<Rightarrow>
            if \<not> overlaps anchor (span_of d) then Inr (None, b2) else try_bridge b2) = Inr (c, b')"
          using run1 [folded b2_def] new nv same(1) unfolding s2(4)
          unfolding overlaps_span_of by simp
        then show ?thesis using skip go
          by (cases "anchor_last_update_id b"; cases "overlaps (the (anchor_last_update_id b)) (span_of d)")
             simp_all
      qed
      then show ?thesis
      proof cases
        case skip
        then show ?thesis using ok2 timed2 s2 old by (auto simp: book_timely_def)
      next
        case go
        have nv2: "cb_state b2 \<noteq> VALID \<or> cb_pending b2 = []" using nv s2 by simp
        note tb = try_bridge_timely [OF ok2 go nv2 timed2, unfolded s2(1,2)]
        have at: "at_ns ch = df_received_ns d"
          if v: "cb_state b' = VALID" and ch: "c = Some ch" for ch
        proof -
          obtain l ns x where x: "anchor_last_update_id b = Some l" "anchor_received_ns b = Some ns"
            "x \<in> set (cb_pending b @ [d])" "overlaps l (span_of x)" "at_ns ch = max ns (df_received_ns x)"
            using tb [unfolded ch, simplified] v s2 by auto
          then have "x = d" using old by auto
          moreover have "ns \<le> df_received_ns d"
            using late x(2) by (simp add: book_timely_def book_timed_def)
          ultimately show ?thesis using x(5) by simp
        qed

        show ?thesis
        proof (cases c)
          case None
          then show ?thesis using tb by simp
        next
          case (Some ch)
          then show ?thesis using tb at [OF _ Some] nv by simp
        qed
      qed
    qed
  qed
qed

lemma book_on_snapshot_timely:
  assumes b: "book_timely now b" and run: "book_on_snapshot s b = Inr (c, b')"
    and t: "now \<le> sn_received_ns s"
  shows "book_timely (sn_received_ns s) b' \<and> cb_connection_id b' = cb_connection_id b \<and>
    (case c of None \<Rightarrow> cb_state b' = cb_state b
     | Some ch \<Rightarrow> ch_state ch = cb_state b' \<and> cb_state b \<noteq> VALID \<and>
         (cb_state b' = VALID \<longrightarrow> at_ns ch = sn_received_ns s))"
proof -
  have late: "book_timely (sn_received_ns s) b" by (rule book_timely_mono [OF b t])
  obtain bids asks where ba: "book_side (sn_bids s) = Inr bids" "book_side (sn_asks s) = Inr asks"
    and tb: "try_bridge (b\<lparr>cb_bids := bids, cb_asks := asks, cb_previous := Some (sn_last_update_id s),
       anchor_last_update_id := Some (sn_last_update_id s), anchor_received_ns := Some (sn_received_ns s)\<rparr>) = Inr (c, b')"
    using run by (auto simp: book_on_snapshot_def rbind_Inr_iff)
  let ?b = "b\<lparr>cb_bids := bids, cb_asks := asks, cb_previous := Some (sn_last_update_id s),
       anchor_last_update_id := Some (sn_last_update_id s), anchor_received_ns := Some (sn_received_ns s)\<rparr>"
  have ok: "book_ok ?b" using late ba by (auto simp: book_timely_def book_ok_def book_side_ok)
  have st: "cb_state ?b \<noteq> VALID \<or> cb_pending ?b = []"
    using late by (auto simp: book_timely_def book_ok_def)
  have timed: "book_timed (sn_received_ns s) ?b" using late by (simp add: book_timely_def book_timed_def)
  have at: "at_ns ch = sn_received_ns s" if "\<exists>l ns d. anchor_received_ns ?b = Some ns \<and>
      d \<in> set (cb_pending ?b) \<and> at_ns ch = max ns (df_received_ns d)" for ch
    using that timed by (auto simp: book_timed_def max_def)
  note res = try_bridge_timely [OF ok tb st timed]
  show ?thesis
  proof (cases c)
    case None
    then show ?thesis using res by simp
  next
    case (Some ch)
    then show ?thesis using res at [of ch] by simp blast
  qed
qed

section \<open>The day's invariant\<close>

text \<open>
  The authority is a VALID book, holds only while no transport gap is open, and is the last VALID
  connection; the intervals kept so far are ordered, disjoint and end before the current one starts.
\<close>

definition kept :: "validity list \<Rightarrow> validity list" where
  "kept ivs = filter (\<lambda>i. valid_from_ns i < valid_to_ns i) ivs"

definition ordered_until :: "int \<Rightarrow> validity list \<Rightarrow> int \<Rightarrow> bool" where
  "ordered_until lo ivs hi \<longleftrightarrow> sorted_wrt (\<lambda>i j. valid_to_ns i \<le> valid_from_ns j) (kept ivs) \<and>
     (\<forall>i \<in> set (kept ivs). lo \<le> valid_from_ns i \<and> valid_to_ns i \<le> hi \<and> vi_connection_id i \<noteq> [])"

definition authority_ok :: "day_state \<Rightarrow> bool" where
  "authority_ok st \<longleftrightarrow> (authority st = None \<longleftrightarrow> valid_from st = None) \<and>
     (\<forall>c. last_valid_connection st = Some c \<longrightarrow> c \<noteq> []) \<and>
     (\<forall>c. authority st = Some c \<longrightarrow> active_gaps st = {} \<and> last_valid_connection st = Some c \<and>
        (\<exists>b. dict_get (books st) c = Some b \<and> cb_state b = VALID))"

definition books_ok :: "int \<Rightarrow> day_state \<Rightarrow> bool" where
  "books_ok now st \<longleftrightarrow> dict_ok (books st) \<and>
     (\<forall>(c, b) \<in> set (books st). book_timely now b \<and> cb_connection_id b = c)"

definition day_ok :: "int \<Rightarrow> int \<Rightarrow> day_state \<Rightarrow> bool" where
  "day_ok lo now st \<longleftrightarrow> lo \<le> now \<and> books_ok now st \<and> authority_ok st \<and>
     (\<forall>v. valid_from st = Some v \<longrightarrow> lo \<le> v \<and> v \<le> now) \<and>
     ordered_until lo (intervals st) (case valid_from st of None \<Rightarrow> now | Some v \<Rightarrow> v)"

lemma ordered_until_mono: "ordered_until lo ivs a \<Longrightarrow> a \<le> b \<Longrightarrow> ordered_until lo ivs b"
  by (fastforce simp: ordered_until_def)

lemma ordered_until_append:
  assumes "ordered_until lo ivs v" "lo \<le> v" "c \<noteq> []"
  shows "ordered_until lo (ivs @ [interval v e c why]) (max v e)"
  using assms by (fastforce simp: ordered_until_def kept_def interval_def sorted_wrt_append)

lemma close_interval_simps [simp]:
  "books (close_interval t w st) = books st" "changes (close_interval t w st) = changes st"
  "authority (close_interval t w st) = authority st" "valid_from (close_interval t w st) = valid_from st"
  "last_valid_connection (close_interval t w st) = last_valid_connection st"
  "active_gaps (close_interval t w st) = active_gaps st"
  by (simp_all add: close_interval_def split: option.split)

lemma close_interval_ordered:
  assumes "day_ok lo now st" "now \<le> now'" "e \<le> now'"
  shows "ordered_until lo (intervals (close_interval e w st)) now'"
proof (cases "valid_from st")
  case None
  then show ?thesis using assms
    by (auto simp: day_ok_def close_interval_def intro: ordered_until_mono split: option.split)
next
  case (Some v)
  then obtain c where c: "authority st = Some c" "c \<noteq> []" using assms(1)
    by (auto simp: day_ok_def authority_ok_def)
  have "ordered_until lo (intervals st @ [interval v e c w]) (max v e)"
    using assms(1) Some c(2) by (intro ordered_until_append) (auto simp: day_ok_def)
  moreover have "max v e \<le> now'" using assms Some by (auto simp: day_ok_def)
  ultimately show ?thesis
    using Some c(1) by (simp add: close_interval_def ordered_until_mono)
qed

lemma handle_gap_ok:
  assumes st: "day_ok lo now st" and closed: "gap_state e = CLOSED \<Longrightarrow> now \<le> gap_effective_ns e"
  shows "day_ok lo (max now (gap_effective_ns e)) (handle_gap e st)"
proof (cases "gap_state e")
  case OPEN
  have "ordered_until lo (intervals (close_interval (gap_effective_ns e) ''transport_gap'' st))
      (max now (gap_effective_ns e))"
    using close_interval_ordered [OF st] by simp
  moreover have "dict_ok (map (\<lambda>(c, b). (c, book_invalidate b)) (books st))"
    using st by (simp add: day_ok_def books_ok_def dict_ok_def comp_def case_prod_beta)
  moreover have "\<forall>x \<in> set (books st). cb_connection_id (book_invalidate (snd x)) = fst x"
    using st by (auto simp: day_ok_def books_ok_def book_invalidate_def)
  ultimately show ?thesis
    using OPEN st
    by (simp add: handle_gap_def Let_def day_ok_def books_ok_def authority_ok_def case_prod_beta
        le_max_iff_disj)
next
  case CLOSED
  then have le: "now \<le> gap_effective_ns e" and eff: "gap_effective_ns e = observed_at_realtime_ns e"
    using closed by (auto simp: gap_effective_ns_def split: option.split)
  have bs: "books_ok (gap_effective_ns e) st"
    using st le book_timely_mono by (fastforce simp: day_ok_def books_ok_def)
  define st1 where "st1 = st\<lparr>active_gaps := active_gaps st - {gap_id e}\<rparr>"
  have ord: "ordered_until lo (intervals st) (gap_effective_ns e)"
    using st le by (auto simp: day_ok_def intro: ordered_until_mono split: option.splits)
  have ok1: "day_ok lo (gap_effective_ns e) st1"
    using st bs le ord by (auto simp: day_ok_def st1_def books_ok_def authority_ok_def split: option.splits)
  have "handle_gap e st = st1 \<or> (\<exists>c b. handle_gap e st = st1\<lparr>authority := Some c, valid_from := Some (gap_effective_ns e)\<rparr> \<and>
      last_valid_connection st1 = Some c \<and> dict_get (books st1) c = Some b \<and> cb_state b = VALID \<and> active_gaps st1 = {})"
    unfolding handle_gap_def Let_def st1_def [symmetric] using CLOSED eff
    by (simp split: option.split)
  then show ?thesis
  proof (elim disjE exE conjE)
    assume "handle_gap e st = st1"
    then show ?thesis using ok1 le by (simp add: max_absorb2)
  next
    fix c b
    assume h: "handle_gap e st = st1\<lparr>authority := Some c, valid_from := Some (gap_effective_ns e)\<rparr>"
      "last_valid_connection st1 = Some c" "dict_get (books st1) c = Some b" "cb_state b = VALID" "active_gaps st1 = {}"
    then show ?thesis using ok1 ord le
      by (simp add: day_ok_def books_ok_def authority_ok_def max_absorb2 st1_def)
  qed
qed

definition row_result :: "depth_row \<Rightarrow> connection_book \<Rightarrow> py_error + (state_change option \<times> connection_book)" where
  "row_result row b = rbind (stream_type_of (row_stream_type row)) (\<lambda>stream.
     if stream = DEPTH then rbind (diff_from_row row) (\<lambda>d. book_on_diff d b)
     else rbind (snapshot_from_row row) (\<lambda>s. book_on_snapshot s b))"

lemma row_result_timely:
  assumes "book_timely now b" "now \<le> row_received_ns row" "row_result row b = Inr (change, b')"
  shows "book_timely (row_received_ns row) b' \<and> cb_connection_id b' = cb_connection_id b \<and>
    (case change of None \<Rightarrow> cb_state b' = cb_state b
     | Some ch \<Rightarrow> ch_state ch = cb_state b' \<and> (cb_state b = VALID \<longrightarrow> cb_state b' \<noteq> VALID) \<and>
         (cb_state b = VALID \<or> cb_state b' = VALID \<longrightarrow> at_ns ch = row_received_ns row))"
proof -
  obtain stream where "stream_type_of (row_stream_type row) = Inr stream"
    using assms(3) by (auto simp: row_result_def rbind_Inr_iff)
  then consider (d) d where "diff_from_row row = Inr d" "book_on_diff d b = Inr (change, b')"
    | (s) s where "snapshot_from_row row = Inr s" "book_on_snapshot s b = Inr (change, b')"
    using assms(3) by (auto simp: row_result_def rbind_Inr_iff split: if_splits)
  then show ?thesis
  proof cases
    case d
    have "df_received_ns d = row_received_ns row"
      using d(1) by (auto simp: diff_from_row_def rbind_Inr_iff)
    then show ?thesis using book_on_diff_timely [OF assms(1) d(2)] assms(2)
      by (cases change) simp_all
  next
    case s
    have "sn_received_ns s = row_received_ns row"
      using s(1) by (auto simp: snapshot_from_row_def rbind_Inr_iff)
    then show ?thesis using book_on_snapshot_timely [OF assms(1) s(2)] assms(2)
      by (cases change) simp_all
  qed
qed

definition row_book :: "depth_row \<Rightarrow> day_state \<Rightarrow> connection_book" where
  "row_book row st = (case dict_get (books st) (row_connection_id row) of
     None \<Rightarrow> new_book (row_connection_id row) | Some b \<Rightarrow> b)"

lemma on_row_eq:
  "on_row row st = rbind (row_result row (row_book row st)) (\<lambda>(change, b').
     let st1 = st\<lparr>books := dict_set (row_connection_id row) b' (books st)\<rparr> in
     case change of None \<Rightarrow> Inr st1 | Some ch \<Rightarrow> Inr (apply_change (row_connection_id row) ch st1))"
  by (simp add: on_row_def row_result_def row_book_def Let_def rbind_def split: sum.split option.split)

lemma books_ok_get: "books_ok now st \<Longrightarrow> dict_get (books st) c = Some b \<Longrightarrow> book_timely now b \<and> cb_connection_id b = c"
  unfolding books_ok_def by (auto simp: dict_get_Some_iff)

lemma books_ok_set:
  assumes "books_ok now st" "now \<le> now'" "book_timely now' b" "cb_connection_id b = c"
  shows "books_ok now' (st\<lparr>books := dict_set c b (books st)\<rparr>)"
proof -
  have "\<forall>(c, b) \<in> set (books st). book_timely now' b \<and> cb_connection_id b = c"
    using assms(1,2) book_timely_mono by (fastforce simp: books_ok_def)
  then have "\<forall>(c', b') \<in> set (dict_set c b (books st)). book_timely now' b' \<and> cb_connection_id b' = c'"
    using assms(3,4) by (fastforce dest!: set_dict_set)
  then show ?thesis using assms(1) by (simp add: books_ok_def)
qed

lemma on_row_ok:
  assumes st: "day_ok lo now st" and t: "now \<le> row_received_ns row" and c: "row_connection_id row \<noteq> []"
    and run: "on_row row st = Inr st'"
  shows "day_ok lo (row_received_ns row) st'"
proof -
  define t1 where "t1 = row_received_ns row"
  define b where "b = row_book row st"
  define c0 where "c0 = row_connection_id row"
  obtain change b' where res: "row_result row b = Inr (change, b')"
    and st': "st' = (let st1 = st\<lparr>books := dict_set c0 b' (books st)\<rparr> in
        case change of None \<Rightarrow> st1 | Some ch \<Rightarrow> apply_change c0 ch st1)"
    using run by (auto simp: on_row_eq rbind_Inr_iff Let_def b_def c0_def split: option.splits)
  have bk: "books_ok now st" using st by (simp add: day_ok_def)
  have b: "book_timely now b" "cb_connection_id b = c0"
    using books_ok_get [OF bk] by (auto simp: b_def row_book_def c0_def split: option.split) (simp add: new_book_def)
  note step = row_result_timely [OF b(1) t res, folded t1_def]
  define st1 where "st1 = st\<lparr>books := dict_set c0 b' (books st)\<rparr>"
  have bk1: "books_ok t1 st1"
    unfolding st1_def using books_ok_set [OF bk t [folded t1_def], of b' c0] step b(2) by simp
  have same: "authority st1 = authority st" "valid_from st1 = valid_from st" "intervals st1 = intervals st"
    "active_gaps st1 = active_gaps st" "last_valid_connection st1 = last_valid_connection st"
    "dict_get (books st1) = (dict_get (books st))(c0 \<mapsto> b')"
    by (simp_all add: st1_def)
  have bst: "cb_state b = VALID" if "authority st = Some c0"
    using that st by (auto simp: day_ok_def authority_ok_def b_def row_book_def c0_def)
  have base: "lo \<le> t1" "\<forall>v. valid_from st = Some v \<longrightarrow> lo \<le> v \<and> v \<le> t1"
    "ordered_until lo (intervals st) (case valid_from st of None \<Rightarrow> t1 | Some v \<Rightarrow> v)"
    using st t by (auto simp: day_ok_def t1_def intro: ordered_until_mono split: option.splits)
  have nonempty: "\<forall>c. last_valid_connection st = Some c \<longrightarrow> c \<noteq> []"
    using st by (simp add: day_ok_def authority_ok_def)
  have day1: "day_ok lo t1 st1" if "authority st = Some c0 \<longrightarrow> cb_state b' = VALID"
    using that st bk1 base same by (auto simp: day_ok_def authority_ok_def)
  show ?thesis
  proof (cases change)
    case None
    then show ?thesis using day1 bst step st' by (simp add: st1_def Let_def t1_def)
  next
    case (Some ch)
    have s': "st' = apply_change c0 ch st1" using st' Some by (simp add: st1_def Let_def)
    have chs: "ch_state ch = cb_state b'" "cb_state b = VALID \<longrightarrow> cb_state b' \<noteq> VALID"
      "cb_state b = VALID \<or> cb_state b' = VALID \<longrightarrow> at_ns ch = t1" using step Some by auto
    have closed: "ordered_until lo (intervals (close_interval t1 w st1)) t1" for w
    proof -
      have eq: "intervals (close_interval t1 w st1) = intervals (close_interval t1 w st)"
        by (simp add: close_interval_def same split: option.split)
      show ?thesis unfolding eq using close_interval_ordered [OF st t [folded t1_def]] by simp
    qed
    show ?thesis
    proof (cases "cb_state b' = VALID")
      case v: True
      have na: "authority st \<noteq> Some c0" using bst chs(2) v by auto
      show ?thesis
      proof (cases "active_gaps st = {}")
        case True
        then have "st' = (close_interval t1 ''connection_switch''
            (st1\<lparr>changes := changes st1 @ [ch], last_valid_connection := Some c0\<rparr>))
              \<lparr>authority := Some c0, valid_from := Some t1\<rparr>"
          using s' chs v same by (simp add: apply_change_def Let_def)
        moreover have "intervals (close_interval t1 w (st1\<lparr>changes := x, last_valid_connection := y\<rparr>)) =
            intervals (close_interval t1 w st1)" for w x y
          by (simp add: close_interval_def split: option.split)
        ultimately show ?thesis
          using closed bk1 base(1) True same c v
          by (simp add: day_ok_def authority_ok_def t1_def books_ok_def c0_def)
      next
        case False
        then have a: "authority st = None" "valid_from st = None" using st
          by (auto simp: day_ok_def authority_ok_def)
        have "st' = st1\<lparr>changes := changes st1 @ [ch], last_valid_connection := Some c0\<rparr>"
          using False s' chs v same by (simp add: apply_change_def Let_def)
        then show ?thesis
          using a base bk1 c same by (simp add: day_ok_def authority_ok_def t1_def books_ok_def c0_def)
      qed
    next
      case nv: False
      show ?thesis
      proof (cases "authority st = Some c0")
        case True
        then have vf: "valid_from st \<noteq> None" using st by (auto simp: day_ok_def authority_ok_def)
        have "st' = (close_interval t1 (ch_reason ch) (st1\<lparr>changes := changes st1 @ [ch]\<rparr>))
            \<lparr>authority := None, valid_from := None,
              last_valid_connection := (if last_valid_connection st = Some c0 then None else last_valid_connection st)\<rparr>"
          using True s' chs nv vf same bst by (simp add: apply_change_def Let_def)
        moreover have "intervals (close_interval t1 w (st1\<lparr>changes := x\<rparr>)) =
            intervals (close_interval t1 w st1)" for w x
          by (simp add: close_interval_def split: option.split)
        ultimately show ?thesis
          using closed bk1 base(1) same nonempty
          by (simp add: day_ok_def authority_ok_def t1_def books_ok_def)
      next
        case False
        then have "st' = st1\<lparr>changes := changes st1 @ [ch]\<rparr>"
          using s' chs nv same by (simp add: apply_change_def Let_def)
        then show ?thesis using day1 False by (simp add: day_ok_def authority_ok_def t1_def books_ok_def)
      qed
    qed
  qed
qed

lemma day_ok_mono: "day_ok lo now st \<Longrightarrow> now \<le> now' \<Longrightarrow> day_ok lo now' st"
  unfolding day_ok_def
  by (auto simp: books_ok_def intro: ordered_until_mono book_timely_mono split: option.splits)

section \<open>Gaps are respected\<close>

text \<open>
  With the gap events \<open>G\<close> handled so far: every kept interval ends before a gap opens or starts
  after that gap is closed again, and so does the current one.
\<close>

definition closed_between :: "gap_event set \<Rightarrow> gap_event \<Rightarrow> int \<Rightarrow> bool" where
  "closed_between G g t \<longleftrightarrow> (\<exists>h \<in> G. gap_state h = CLOSED \<and> gap_id h = gap_id g \<and>
     gap_effective_ns g < gap_effective_ns h \<and> gap_effective_ns h \<le> t)"

text \<open>The order of the events: at one time, a gap's CLOSED event comes before its OPEN event.\<close>

definition gap_before :: "gap_event \<Rightarrow> gap_event \<Rightarrow> bool" where
  "gap_before g h \<longleftrightarrow> gap_effective_ns g \<le> gap_effective_ns h \<and>
     (gap_state g = OPEN \<and> gap_state h = CLOSED \<and> gap_id g = gap_id h \<longrightarrow>
        gap_effective_ns g < gap_effective_ns h)"

definition clear_of :: "gap_event set \<Rightarrow> validity \<Rightarrow> bool" where
  "clear_of G i \<longleftrightarrow> (\<forall>g \<in> G. gap_state g = OPEN \<longrightarrow>
     valid_to_ns i \<le> gap_effective_ns g \<or> closed_between G g (valid_from_ns i))"

definition gaps_respected :: "int \<Rightarrow> gap_event set \<Rightarrow> day_state \<Rightarrow> bool" where
  "gaps_respected now G st \<longleftrightarrow> (\<forall>g \<in> G. gap_effective_ns g \<le> now) \<and>
     (\<forall>i \<in> set (kept (intervals st)). clear_of G i) \<and>
     (\<forall>v. valid_from st = Some v \<longrightarrow> (\<forall>g \<in> G. gap_state g = OPEN \<longrightarrow> closed_between G g v)) \<and>
     (\<forall>g \<in> G. gap_state g = OPEN \<longrightarrow> gap_id g \<in> active_gaps st \<or> closed_between G g now)"

lemma closed_between_mono: "closed_between G g t \<Longrightarrow> G \<subseteq> G' \<Longrightarrow> t \<le> t' \<Longrightarrow> closed_between G' g t'"
  unfolding closed_between_def by (meson order_trans subsetD)

lemma kept_append_interval:
  "set (kept (ivs @ [interval v e c w])) \<subseteq> insert (interval v e c w) (set (kept ivs))"
  by (auto simp: kept_def)

lemma kept_close_interval:
  "i \<in> set (kept (intervals (close_interval e w st))) \<Longrightarrow> i \<in> set (kept (intervals st)) \<or>
     (\<exists>v. valid_from st = Some v \<and> valid_from_ns i = v \<and> valid_to_ns i = e \<and> v < e)"
  by (auto simp: close_interval_def kept_def interval_def split: option.splits if_splits)

lemma close_interval_clear:
  assumes "gaps_respected now G st" "i \<in> set (kept (intervals (close_interval e w st)))"
  shows "clear_of G i"
  using kept_close_interval [OF assms(2)] assms(1) by (auto simp: gaps_respected_def clear_of_def)

lemma handle_gap_respects:
  assumes day: "day_ok lo now st" and g: "gaps_respected now G st"
    and late: "now \<le> gap_effective_ns e \<or> gap_state e = OPEN \<and> kept (intervals st) = [] \<and> now = lo"
    and before: "\<forall>x \<in> G. gap_before x e"
  shows "gaps_respected (max now (gap_effective_ns e)) (insert e G) (handle_gap e st)"
proof -
  define m where "m = max now (gap_effective_ns e)"
  have Gm: "\<forall>g \<in> insert e G. gap_effective_ns g \<le> m"
    using g by (auto simp: gaps_respected_def m_def)
  have up: "closed_between G x t \<Longrightarrow> t \<le> t' \<Longrightarrow> closed_between (insert e G) x t'" for x t t'
    by (rule closed_between_mono) auto
  have clear_up: "clear_of (insert e G) i"
    if "clear_of G i" "gap_state e = OPEN \<longrightarrow> valid_to_ns i \<le> gap_effective_ns e" for i
    using that up unfolding clear_of_def by (metis insert_iff order_refl)
  show ?thesis
  proof (cases "gap_state e")
    case OPEN
    have ends: "valid_to_ns i \<le> gap_effective_ns e"
      if i: "i \<in> set (kept (intervals (close_interval (gap_effective_ns e) w st)))" for i w
      using kept_close_interval [OF i]
    proof
      assume old: "i \<in> set (kept (intervals st))"
      then have "now \<le> gap_effective_ns e" using late by auto
      moreover have "valid_to_ns i \<le> now"
        using day old by (fastforce simp: day_ok_def ordered_until_def split: option.splits)
      ultimately show ?thesis by simp
    qed auto
    have "\<forall>i \<in> set (kept (intervals (handle_gap e st))). clear_of (insert e G) i"
      using clear_up ends close_interval_clear [OF g] OPEN by (simp add: handle_gap_def Let_def)
    moreover have "\<forall>x \<in> insert e G. gap_state x = OPEN \<longrightarrow>
        gap_id x \<in> insert (gap_id e) (active_gaps st) \<or> closed_between (insert e G) x m"
      using g up unfolding gaps_respected_def m_def by (metis insert_iff max.cobounded1)
    ultimately show ?thesis
      using OPEN Gm unfolding gaps_respected_def m_def [symmetric]
      by (simp add: handle_gap_def Let_def)
  next
    case CLOSED
    then have le: "m = gap_effective_ns e" using late by (auto simp: m_def)
    define A where "A = active_gaps st - {gap_id e}"
    have C: "\<forall>x \<in> insert e G. gap_state x = OPEN \<longrightarrow> gap_id x \<in> A \<or> closed_between (insert e G) x m"
    proof (intro ballI impI)
      fix x assume x: "x \<in> insert e G" "gap_state x = OPEN"
      then have xG: "x \<in> G" using CLOSED by auto
      show "gap_id x \<in> A \<or> closed_between (insert e G) x m"
      proof (cases "gap_id x = gap_id e")
        case True
        then have "closed_between (insert e G) x m"
          using CLOSED before xG x(2) le by (auto simp: closed_between_def gap_before_def)
        then show ?thesis by simp
      next
        case False
        have "gap_id x \<in> active_gaps st \<or> closed_between G x now" using g xG x(2) by (auto simp: gaps_respected_def)
        then show ?thesis using False up [of x now m] by (auto simp: A_def m_def)
      qed
    qed
    have old: "\<forall>i \<in> set (kept (intervals st)). clear_of (insert e G) i"
      using clear_up g CLOSED by (auto simp: gaps_respected_def)
    have vf: "closed_between (insert e G) x v"
      if "valid_from st = Some v" "x \<in> insert e G" "gap_state x = OPEN" for v x
      using that g CLOSED up [of x v v] by (auto simp: gaps_respected_def)
    have obs: "observed_at_realtime_ns e = m" using CLOSED le by (simp add: gap_effective_ns_def split: option.split)
    define st1 where "st1 = st\<lparr>active_gaps := A\<rparr>"
    have r1: "gaps_respected m (insert e G) st1"
      using Gm old vf C by (simp add: gaps_respected_def st1_def)
    have "handle_gap e st = st1 \<or>
        (\<exists>c. handle_gap e st = st1\<lparr>authority := Some c, valid_from := Some m\<rparr> \<and> A = {})"
      unfolding handle_gap_def Let_def obs using CLOSED
      by (simp add: A_def [symmetric] st1_def [symmetric] split: option.split) (auto simp: st1_def)
    then show ?thesis
    proof (elim disjE exE conjE)
      assume "handle_gap e st = st1"
      then show ?thesis using r1 by (simp add: m_def)
    next
      fix c assume "handle_gap e st = st1\<lparr>authority := Some c, valid_from := Some m\<rparr>" "A = {}"
      then show ?thesis using r1 C unfolding m_def [symmetric] by (simp add: gaps_respected_def)
    qed
  qed
qed

text \<open>What a row does to the validity: nothing, a new authority, or the loss of the current one.\<close>

lemma on_row_effect:
  assumes st: "day_ok lo now st" and t: "now \<le> row_received_ns row" and run: "on_row row st = Inr st'"
  shows "active_gaps st' = active_gaps st \<and>
    (valid_from st' = valid_from st \<and> intervals st' = intervals st \<or>
     active_gaps st = {} \<and> valid_from st' = Some (row_received_ns row) \<and>
       (\<exists>w. intervals st' = intervals (close_interval (row_received_ns row) w st)) \<or>
     valid_from st' = None \<and> (\<exists>w. intervals st' = intervals (close_interval (row_received_ns row) w st)))"
proof -
  define t1 c0 where tc: "t1 = row_received_ns row" "c0 = row_connection_id row"
  define b where "b = row_book row st"
  obtain change b' where res: "row_result row b = Inr (change, b')"
    and st': "st' = (let st1 = st\<lparr>books := dict_set c0 b' (books st)\<rparr> in
        case change of None \<Rightarrow> st1 | Some ch \<Rightarrow> apply_change c0 ch st1)"
    using run by (auto simp: on_row_eq rbind_Inr_iff Let_def b_def tc split: option.splits)
  have bk: "books_ok now st" using st by (simp add: day_ok_def)
  have b: "book_timely now b"
    using books_ok_get [OF bk] by (auto simp: b_def row_book_def split: option.split)
  note step = row_result_timely [OF b t res, folded tc(1)]
  have bst: "cb_state b = VALID" if "authority st = Some c0"
    using that st by (auto simp: day_ok_def authority_ok_def b_def row_book_def tc)
  have ivs: "intervals (close_interval t1 w (st\<lparr>books := x, changes := y\<rparr>)) = intervals (close_interval t1 w st)"
    "intervals (close_interval t1 w (st\<lparr>books := x, changes := y, last_valid_connection := z\<rparr>)) =
       intervals (close_interval t1 w st)" for w x y z
    by (simp_all add: close_interval_def split: option.split)
  show ?thesis
  proof (cases change)
    case None
    then show ?thesis using st' by (simp add: Let_def)
  next
    case (Some ch)
    have s': "st' = apply_change c0 ch (st\<lparr>books := dict_set c0 b' (books st)\<rparr>)"
      using st' Some by (simp add: Let_def)
    have chs: "ch_state ch = cb_state b'" "cb_state b = VALID \<or> cb_state b' = VALID \<longrightarrow> at_ns ch = t1"
      using step Some by auto
    consider "cb_state b' = VALID" "active_gaps st \<noteq> {}" | "cb_state b' = VALID" "active_gaps st = {}"
      | "cb_state b' \<noteq> VALID" "\<not> (authority st = Some c0 \<and> valid_from st \<noteq> None)"
      | "cb_state b' \<noteq> VALID" "authority st = Some c0 \<and> valid_from st \<noteq> None" by blast
    then show ?thesis
    proof cases
      case 1
      then show ?thesis using s' chs by (simp add: apply_change_def)
    next
      case 2
      then show ?thesis using s' chs ivs by (simp add: apply_change_def Let_def tc(1) [symmetric]) blast
    next
      case 3
      then have "apply_change c0 ch (st\<lparr>books := dict_set c0 b' (books st)\<rparr>) =
          st\<lparr>books := dict_set c0 b' (books st), changes := changes st @ [ch]\<rparr>"
        using chs(1) by (auto simp: apply_change_def Let_def)
      then show ?thesis using s' by simp
    next
      case 4
      then show ?thesis using s' chs bst ivs by (simp add: apply_change_def Let_def tc(1) [symmetric]) blast
    qed
  qed
qed

lemma on_row_respects:
  assumes st: "day_ok lo now st" and g: "gaps_respected now G st" and t: "now \<le> row_received_ns row"
    and run: "on_row row st = Inr st'"
  shows "gaps_respected (row_received_ns row) G st'"
proof -
  have up: "closed_between G x now \<Longrightarrow> closed_between G x (row_received_ns row)" for x
    by (rule closed_between_mono [OF _ order_refl t])
  have base: "\<forall>x \<in> G. gap_effective_ns x \<le> row_received_ns row"
    "\<forall>x \<in> G. gap_state x = OPEN \<longrightarrow> gap_id x \<in> active_gaps st \<or> closed_between G x (row_received_ns row)"
    using g t up by (auto simp: gaps_respected_def intro: order_trans)
  note ivs = close_interval_clear [OF g, where e = "row_received_ns row"]
  have eff: "active_gaps st' = active_gaps st"
    "valid_from st' = valid_from st \<and> intervals st' = intervals st \<or>
     active_gaps st = {} \<and> valid_from st' = Some (row_received_ns row) \<and>
       (\<exists>w. intervals st' = intervals (close_interval (row_received_ns row) w st)) \<or>
     valid_from st' = None \<and> (\<exists>w. intervals st' = intervals (close_interval (row_received_ns row) w st))"
    using on_row_effect [OF st t run] by simp_all
  from eff(2) show ?thesis
  proof (elim disjE exE conjE)
    assume "valid_from st' = valid_from st" "intervals st' = intervals st"
    then show ?thesis using base g eff(1) by (auto simp: gaps_respected_def)
  next
    fix w assume "active_gaps st = {}" "valid_from st' = Some (row_received_ns row)"
      "intervals st' = intervals (close_interval (row_received_ns row) w st)"
    then show ?thesis using base ivs [of _ w] eff(1) by (auto simp: gaps_respected_def)
  next
    fix w assume "valid_from st' = None" "intervals st' = intervals (close_interval (row_received_ns row) w st)"
    then show ?thesis using base ivs [of _ w] eff(1) by (auto simp: gaps_respected_def)
  qed
qed

section \<open>The whole loop\<close>

definition gaps_ahead :: "int \<Rightarrow> int \<Rightarrow> gap_event set \<Rightarrow> gap_event list \<Rightarrow> day_state \<Rightarrow> bool" where
  "gaps_ahead lo now G gs st \<longleftrightarrow> sorted_wrt gap_before gs \<and> (\<forall>g \<in> G. \<forall>h \<in> set gs. gap_before g h) \<and>
     (\<forall>g \<in> set gs. now \<le> gap_effective_ns g \<or>
        gap_state g = OPEN \<and> kept (intervals st) = [] \<and> now = lo)"

lemma fold_gaps:
  assumes "day_ok lo now st" "gaps_respected now G st" "gaps_ahead lo now G gs st"
    "now \<le> hi" "\<forall>g \<in> set gs. gap_effective_ns g \<le> hi"
  shows "day_ok lo hi (fold handle_gap gs st) \<and> gaps_respected hi (G \<union> set gs) (fold handle_gap gs st)"
  using assms
proof (induction gs arbitrary: now G st)
  case Nil
  have "gaps_respected hi G st"
    using Nil.prems(2,4) closed_between_mono [of G _ now G hi]
    by (auto simp: gaps_respected_def intro: order_trans)
  then show ?case using Nil.prems(1,4) day_ok_mono by simp
next
  case (Cons e gs)
  let ?m = "max now (gap_effective_ns e)"
  have late: "now \<le> gap_effective_ns e \<or> gap_state e = OPEN \<and> kept (intervals st) = [] \<and> now = lo"
    using Cons.prems(3) by (simp add: gaps_ahead_def)
  have day: "day_ok lo ?m (handle_gap e st)"
    using late by (intro handle_gap_ok [OF Cons.prems(1)]) auto
  have before: "\<forall>x \<in> G. gap_before x e" using Cons.prems(3) by (simp add: gaps_ahead_def)
  note resp = handle_gap_respects [OF Cons.prems(1,2) late before]
  have "gaps_ahead lo ?m (insert e G) gs (handle_gap e st)"
  proof (cases "now \<le> gap_effective_ns e")
    case True
    then show ?thesis using Cons.prems(3) by (auto simp: gaps_ahead_def max_absorb2 gap_before_def)
  next
    case False
    then have o: "gap_state e = OPEN" "kept (intervals st) = []" "now = lo" using late by auto
    have "kept (intervals (close_interval (gap_effective_ns e) w st)) = []" for w
    proof (rule ccontr)
      assume "kept (intervals (close_interval (gap_effective_ns e) w st)) \<noteq> []"
      then obtain i where i: "i \<in> set (kept (intervals (close_interval (gap_effective_ns e) w st)))"
        using last_in_set by blast
      from kept_close_interval [OF i] show False
        using o(2,3) False Cons.prems(1) by (auto simp: day_ok_def)
    qed
    then have "kept (intervals (handle_gap e st)) = []" using o(1) by (simp add: handle_gap_def Let_def)
    then show ?thesis using False o Cons.prems(3) by (auto simp: gaps_ahead_def max_absorb1)
  qed
  from Cons.IH [OF day resp this] show ?case using Cons.prems(4,5) by simp
qed

lemma day_loop_ok:
  assumes "day_ok lo now st" "gaps_respected now G st" "gaps_ahead lo now G gs st"
    "sorted (map row_received_ns rows)" "\<forall>r \<in> set rows. now \<le> row_received_ns r \<and> row_received_ns r \<le> hi"
    "\<forall>r \<in> set rows. row_connection_id r \<noteq> []"
    "now \<le> hi" "\<forall>g \<in> set gs. gap_effective_ns g \<le> hi" "day_loop rows gs st = Inr st'"
  shows "day_ok lo hi st' \<and> gaps_respected hi (G \<union> set gs) st'"
  using assms
proof (induction rows arbitrary: now G gs st)
  case Nil
  then show ?case using fold_gaps [OF Nil.prems(1,2,3,7,8)] by simp
next
  case (Cons row rows)
  let ?t = "row_received_ns row"
  define p where "p g \<longleftrightarrow> gap_effective_ns g \<le> ?t" for g
  define due where "due = takeWhile p gs"
  define rest where "rest = dropWhile p gs"
  have split: "gs = due @ rest" by (simp add: due_def rest_def)
  have t: "now \<le> ?t" "?t \<le> hi" using Cons.prems(5) by simp_all
  have sd: "sorted_wrt gap_before due" "sorted_wrt gap_before rest"
      "\<forall>g \<in> G \<union> set due. \<forall>h \<in> set rest. gap_before g h"
    using Cons.prems(3) split by (auto simp: gaps_ahead_def sorted_wrt_append)
  have due: "\<forall>g \<in> set due. gap_effective_ns g \<le> ?t" by (auto simp: due_def p_def dest: set_takeWhileD)
  have rest: "\<forall>g \<in> set rest. ?t < gap_effective_ns g"
  proof (cases rest)
    case (Cons g r)
    then have "\<not> p g" using hd_dropWhile [of p gs] by (simp add: rest_def)
    then show ?thesis using sd(2) Cons by (auto simp: p_def gap_before_def)
  qed simp
  have "gaps_ahead lo now G due st" using Cons.prems(3) sd split by (auto simp: gaps_ahead_def)
  note mid = fold_gaps [OF Cons.prems(1,2) this t(1) due]
  obtain st2 where row: "on_row row (fold handle_gap due st) = Inr st2" and
    rest_run: "day_loop rows rest st2 = Inr st'"
  proof -
    have "takeWhile (\<lambda>g. gap_effective_ns g \<le> ?t) gs = due" by (simp add: due_def p_def [abs_def])
    moreover have "drop (length due) gs = rest" by (simp add: split)
    ultimately show ?thesis using Cons.prems(9) that by (auto simp: Let_def rbind_Inr_iff)
  qed
  have c: "row_connection_id row \<noteq> []" using Cons.prems(6) by simp
  have day2: "day_ok lo ?t st2" by (rule on_row_ok [OF conjunct1 [OF mid] order_refl c row])
  have resp2: "gaps_respected ?t (G \<union> set due) st2"
    by (rule on_row_respects [OF conjunct1 [OF mid] conjunct2 [OF mid] order_refl row])
  have "gaps_ahead lo ?t (G \<union> set due) rest st2" using sd(2,3) rest by (auto simp: gaps_ahead_def)
  from Cons.IH [OF day2 resp2 this _ _ _ t(2) _ rest_run]
  have "day_ok lo hi st' \<and> gaps_respected hi (G \<union> set due \<union> set rest) st'"
    using Cons.prems(4,5,6,8) split by (simp add: image_iff)
  then show ?case using split by (simp add: Un_assoc)
qed

section \<open>Across days\<close>

text \<open>
  What a checkpoint must satisfy at the boundary \<open>t\<close>, and what the one a day writes satisfies at its
  own end: connections are named, and its anchored books hold nothing later than \<open>t\<close> and no diff
  that should already have bridged.
\<close>

definition checkpoint_timely :: "int \<Rightarrow> l2_checkpoint \<Rightarrow> bool" where
  "checkpoint_timely t cp \<longleftrightarrow> lc_connection_id cp \<noteq> Some [] \<and>
     (\<forall>a \<in> set (anchored_books cp). ac_anchor_received_ns a \<le> t \<and>
        (\<forall>d \<in> set (ac_pending a). dc_received_ns d \<le> t \<and>
           \<not> (dc_first_update_id d \<le> ac_anchor_last_update_id a \<and>
              ac_anchor_last_update_id a \<le> dc_final_update_id d)))"

text \<open>
  A regular day is a side condition of the properties below and no part of the code: \<open>l2.py\<close> reads the files in the order of
  their names and neither sorts the rows nor checks any of this. The depth rows of the symbol come in the order of their
  receive times, over all files, lie in the UTC day (its last midnight included) and name a connection; no gap event of the
  symbol takes effect after the day, and no CLOSED one before it; and the previous checkpoint, if there is one, is timely.
\<close>

definition regular_day :: "unicode \<Rightarrow> day_job \<Rightarrow> day_inputs \<Rightarrow> bool" where
  "regular_day u job inp \<longleftrightarrow>
     (let start = midnight_ns (job_date job); stop = midnight_ns (job_date job + 1);
          rows = depth_rows (job_symbol job) (in_partitioned inp) (in_rows inp) in
      sorted (map row_received_ns rows) \<and>
      list_all (\<lambda>r. start \<le> row_received_ns r \<and> row_received_ns r \<le> stop \<and> row_connection_id r \<noteq> []) rows \<and>
      (case transport_gap_events u (job_symbol job) (in_gaps inp) of Inl _ \<Rightarrow> True
       | Inr gaps \<Rightarrow> list_all (\<lambda>g. gap_effective_ns g \<le> stop \<and>
           (gap_state g = CLOSED \<longrightarrow> start \<le> gap_effective_ns g)) gaps) \<and>
      (case in_checkpoint inp of None \<Rightarrow> True | Some cp \<Rightarrow> checkpoint_timely start cp))"

lemma transport_gaps_sorted: "transport_gap_events u s file = Inr gaps \<Longrightarrow> sorted_wrt gap_before gaps"
proof -
  let ?k = "\<lambda>e. (gap_effective_ns e, gap_id e, gap_state_value (gap_state e))"
  assume "transport_gap_events u s file = Inr gaps"
  then have "gaps = [] \<or> (\<exists>xs. gaps = sort_key ?k xs)"
    by (auto simp: transport_gap_events_def rbind_Inr_iff split: option.splits)
  then have "sorted (map ?k gaps)" by auto
  moreover have "gap_before x y" if "?k x \<le> ?k y" for x y
    using that by (auto simp: gap_before_def less_eq_prod_def less_eq_char_def)
  ultimately show ?thesis by (auto simp: sorted_wrt_map elim: sorted_wrt_mono_rel [rotated])
qed

lemma from_anchor_timely:
  assumes "from_anchor_checkpoint a = Inr b" "ac_state a \<noteq> VALID" "ac_anchor_received_ns a \<le> t"
    "\<forall>d \<in> set (ac_pending a). dc_received_ns d \<le> t \<and>
       \<not> (dc_first_update_id d \<le> ac_anchor_last_update_id a \<and> ac_anchor_last_update_id a \<le> dc_final_update_id d)"
  shows "book_timely t b \<and> cb_connection_id b = ac_connection_id a \<and> cb_state b \<noteq> VALID"
  using assms
  by (auto simp: from_anchor_checkpoint_def rbind_Inr_iff book_timely_def book_timed_def book_ok_def
      new_book_def book_side_ok diff_from_checkpoint_def overlaps_span_of)

lemma from_checkpoint_timely:
  assumes "from_checkpoint cp = Inr b" "validate_l2_checkpoint cp = Inr cp'"
  shows "book_timely t b \<and> lc_connection_id cp = Some (cb_connection_id b) \<and> cb_state b = VALID"
  using assms
  by (auto simp: from_checkpoint_def rbind_Inr_iff book_timely_def book_timed_def book_ok_def
      new_book_def book_side_ok validate_l2_checkpoint_def split: if_splits)

lemma restore_anchored_ok:
  assumes st: "day_ok t t st" and run: "restore_anchored st a = Inr st'"
    and a: "ac_state a \<noteq> VALID" "ac_anchor_received_ns a \<le> t"
      "\<forall>d \<in> set (ac_pending a). dc_received_ns d \<le> t \<and>
         \<not> (dc_first_update_id d \<le> ac_anchor_last_update_id a \<and> ac_anchor_last_update_id a \<le> dc_final_update_id d)"
  shows "day_ok t t st' \<and> intervals st' = intervals st"
proof -
  obtain b where new: "dict_get (books st) (ac_connection_id a) = None" and b: "from_anchor_checkpoint a = Inr b"
    and st': "st' = st\<lparr>books := dict_set (ac_connection_id a) b (books st)\<rparr>"
    using run by (auto simp: restore_anchored_def rbind_Inr_iff split: if_splits)
  have bk: "books_ok t st'" unfolding st'
    using from_anchor_timely [OF b a] st by (intro books_ok_set [OF _ order_refl]) (auto simp: day_ok_def)
  have "dict_get (books st') c = Some b'" if "dict_get (books st) c = Some b'" for c b'
    using that new st' by auto
  then have "authority_ok st'" using st st' unfolding day_ok_def authority_ok_def by fastforce
  then show ?thesis using st st' bk by (simp add: day_ok_def)
qed

lemma empty_day_ok [simp]: "day_ok t t empty_day"
  by (simp add: day_ok_def books_ok_def authority_ok_def empty_day_def ordered_until_def kept_def)

lemma restore_day_ok:
  assumes load: "load_previous_checkpoint job file = Inr (Some cp)"
    and cp: "checkpoint_timely (midnight_ns (job_date job)) cp" and run: "restore_day job cp = Inr st"
  shows "day_ok (midnight_ns (job_date job)) (midnight_ns (job_date job)) st \<and> intervals st = []"
proof -
  let ?t = "midnight_ns (job_date job)"
  have val: "map_result validate_anchor (anchored_books cp) = Inr x \<Longrightarrow> \<forall>a \<in> set (anchored_books cp). ac_state a \<noteq> VALID" for x
    by (auto simp: map_result_Inr_iff list_all2_conv_all_nth in_set_conv_nth validate_anchor_def split: if_splits)
  obtain raw x where raw: "file = Some raw" "map_result validate_anchor (anchored_books raw) = Inr x"
    "validate_l2_checkpoint raw = Inr cp"
    using load by (auto simp: load_previous_checkpoint_def rbind_Inr_iff split: option.splits if_splits)
  have eq: "cp = raw" using raw(3) by (auto simp: validate_l2_checkpoint_def split: if_splits)
  have nv: "\<forall>a \<in> set (anchored_books cp). ac_state a \<noteq> VALID" using val raw(2) eq by simp
  obtain st0 where fold: "fold_result restore_anchored st0 (anchored_books cp) = Inr st"
    and st0: "st0 = empty_day \<or> (\<exists>b. from_checkpoint cp = Inr b \<and>
      st0 = empty_day\<lparr>books := [(cb_connection_id b, b)], authority := Some (cb_connection_id b),
        last_valid_connection := Some (cb_connection_id b), valid_from := Some ?t\<rparr>)"
    using run by (auto simp: restore_day_def rbind_Inr_iff Let_def split: if_splits option.splits)
  have "day_ok ?t ?t st0 \<and> intervals st0 = []"
    using st0
  proof (elim disjE exE conjE)
    assume "st0 = empty_day"
    then show ?thesis by simp (simp add: empty_day_def)
  next
    fix b assume b: "from_checkpoint cp = Inr b"
      "st0 = empty_day\<lparr>books := [(cb_connection_id b, b)], authority := Some (cb_connection_id b),
        last_valid_connection := Some (cb_connection_id b), valid_from := Some ?t\<rparr>"
    have t: "book_timely ?t b" "cb_state b = VALID" "cb_connection_id b \<noteq> []"
      using from_checkpoint_timely [OF b(1) raw(3) [folded eq]] cp by (auto simp: checkpoint_timely_def)
    then show ?thesis using b(2)
      by (simp add: day_ok_def books_ok_def authority_ok_def empty_day_def ordered_until_def kept_def
          dict_ok_def dict_get_def)
  qed
  with fold show ?thesis
  proof (rule fold_result_invariant [where P = "\<lambda>s. day_ok ?t ?t s \<and> intervals s = []"])
    fix s a s' assume "day_ok ?t ?t s \<and> intervals s = []" "a \<in> set (anchored_books cp)" "restore_anchored s a = Inr s'"
    then show "day_ok ?t ?t s' \<and> intervals s' = []"
      using restore_anchored_ok [of ?t s a s'] nv cp by (auto simp: checkpoint_timely_def)
  qed
qed

lemma anchor_checkpoint_timely:
  assumes "book_timely t b" "anchor_checkpoint b = Inr a"
  shows "ac_anchor_received_ns a \<le> t \<and>
    (\<forall>d \<in> set (ac_pending a). dc_received_ns d \<le> t \<and>
       \<not> (dc_first_update_id d \<le> ac_anchor_last_update_id a \<and> ac_anchor_last_update_id a \<le> dc_final_update_id d))"
proof -
  obtain p l ns where pl: "cb_previous b = Some p" "anchor_last_update_id b = Some l" "anchor_received_ns b = Some ns"
    using assms(2) by (auto simp: anchor_checkpoint_def split: option.splits)
  then have a: "ac_anchor_received_ns a = ns" "ac_anchor_last_update_id a = l"
    "ac_pending a = map diff_to_checkpoint (filter (\<lambda>d. l \<le> df_final_update_id d) (cb_pending b))"
    using assms(2) by (auto simp: anchor_checkpoint_def validate_anchor_def split: if_splits)
  show ?thesis using assms(1) pl unfolding a
    by (auto simp: book_timely_def book_timed_def diff_to_checkpoint_def overlaps_span_of)
qed

lemma build_checkpoint_timely:
  assumes bk: "books_ok t st" and run: "build_checkpoint job final (books st) = Inr cp"
    and final: "final = None \<or> (\<exists>c. dict_get (books st) c = final \<and> c \<noteq> [])"
  shows "checkpoint_timely t cp"
proof -
  obtain as where as: "map_result anchor_checkpoint
         (filter (\<lambda>b. anchor_last_update_id b \<noteq> None \<and> anchor_received_ns b \<noteq> None \<and>
                      cb_bids b \<noteq> [] \<and> cb_asks b \<noteq> []) (map snd (books st))) = Inr as"
    and cp: "anchored_books cp = as" "lc_connection_id cp = None \<or>
      (\<exists>b. final = Some b \<and> lc_connection_id cp = Some (cb_connection_id b))"
  proof -
    have v: "validate_l2_checkpoint c = Inr c' \<Longrightarrow> c' = c" for c c'
      by (simp add: validate_l2_checkpoint_def split: if_splits)
    obtain x where x: "map_result anchor_checkpoint
         (filter (\<lambda>b. anchor_last_update_id b \<noteq> None \<and> anchor_received_ns b \<noteq> None \<and>
                      cb_bids b \<noteq> [] \<and> cb_asks b \<noteq> []) (map snd (books st))) = Inr x"
      using run unfolding build_checkpoint_def rbind_Inr_iff by blast
    note rest = run [unfolded build_checkpoint_def x rbind_simps Let_def]
    show ?thesis
    proof (cases final)
      case None
      then show ?thesis using rest by (intro that [OF x]) (auto dest!: v)
    next
      case (Some b)
      then show ?thesis using rest by (intro that [OF x]) (auto dest!: v split: if_splits)
    qed
  qed
  have "\<exists>b. book_timely t b \<and> anchor_checkpoint b = Inr a" if a: "a \<in> set as" for a
  proof -
    obtain b where "b \<in> set (map snd (books st))" "anchor_checkpoint b = Inr a"
      using map_result_origin [OF as a] by auto
    then show ?thesis using bk by (auto simp: books_ok_def)
  qed
  moreover have "lc_connection_id cp \<noteq> Some []"
    using cp(2) final books_ok_get [OF bk] by auto
  moreover have "ac_anchor_received_ns a \<le> t \<and>
      (\<forall>d \<in> set (ac_pending a). dc_received_ns d \<le> t \<and>
         \<not> (dc_first_update_id d \<le> ac_anchor_last_update_id a \<and> ac_anchor_last_update_id a \<le> dc_final_update_id d))"
    if "a \<in> set as" for a
    using calculation(1) [OF that] anchor_checkpoint_timely by blast
  ultimately show ?thesis using cp(1) unfolding checkpoint_timely_def by simp
qed

section \<open>Handing over to the next day\<close>

lemma validate_l2_checkpoint_id: "validate_l2_checkpoint c = Inr c' \<Longrightarrow> c' = c"
  by (simp add: validate_l2_checkpoint_def split: if_splits)

lemma anchor_checkpoint_restores:
  assumes "book_ok b" "anchor_checkpoint b = Inr a"
  shows "ac_connection_id a = cb_connection_id b \<and> ac_state a \<noteq> VALID \<and> cb_state b \<noteq> VALID \<and>
    validate_anchor a = Inr a \<and> (\<exists>b'. from_anchor_checkpoint a = Inr b')"
proof -
  have "side_ok (cb_bids b)" "side_ok (cb_asks b)" using assms(1) by (simp_all add: book_ok_def)
  then obtain bids asks where "book_side (checkpoint_levels (cb_bids b)) = Inr bids"
    "book_side (checkpoint_levels (cb_asks b)) = Inr asks"
    using checkpoint_levels_roundtrip by meson
  moreover have "ac_connection_id a = cb_connection_id b \<and> ac_state a = cb_state b \<and>
      ac_bids a = checkpoint_levels (cb_bids b) \<and> ac_asks a = checkpoint_levels (cb_asks b) \<and>
      cb_state b \<noteq> VALID \<and> checkpoint_levels (cb_bids b) \<noteq> [] \<and> checkpoint_levels (cb_asks b) \<noteq> []"
    using assms(2) by (auto simp: anchor_checkpoint_def validate_anchor_def split: option.splits if_splits)
  ultimately show ?thesis by (simp add: from_anchor_checkpoint_def validate_anchor_def)
qed

lemma anchored_connections:
  "\<forall>b \<in> set bs. book_ok b \<Longrightarrow> map_result anchor_checkpoint bs = Inr as \<Longrightarrow>
   map ac_connection_id as = map cb_connection_id bs \<and> map_result validate_anchor as = Inr as \<and>
   (\<forall>a \<in> set as. \<exists>b'. from_anchor_checkpoint a = Inr b')"
proof (induction bs arbitrary: as)
  case (Cons b bs)
  then obtain a as' where a: "anchor_checkpoint b = Inr a" "map_result anchor_checkpoint bs = Inr as'" "as = a # as'"
    by (auto simp: rbind_Inr_iff)
  have "book_ok b" using Cons.prems(1) by simp
  with Cons.IH [OF _ a(2)] Cons.prems(1) anchor_checkpoint_restores [OF _ a(1)] a(3) show ?case by simp
qed simp

lemma restore_anchored_total:
  assumes "distinct (map ac_connection_id as)" "\<forall>a \<in> set as. \<exists>b. from_anchor_checkpoint a = Inr b"
    "\<forall>a \<in> set as. dict_get (books st) (ac_connection_id a) = None"
  shows "\<exists>st'. fold_result restore_anchored st as = Inr st' \<and> authority st' = authority st \<and>
    valid_from st' = valid_from st"
  using assms
proof (induction as arbitrary: st)
  case (Cons a as)
  obtain b where b: "from_anchor_checkpoint a = Inr b" using Cons.prems(2) by auto
  let ?st = "st\<lparr>books := dict_set (ac_connection_id a) b (books st)\<rparr>"
  have "restore_anchored st a = Inr ?st" using b Cons.prems(3) by (simp add: restore_anchored_def)
  moreover have "\<exists>st'. fold_result restore_anchored ?st as = Inr st' \<and> authority st' = authority ?st \<and>
      valid_from st' = valid_from ?st"
  proof (intro Cons.IH)
    have "ac_connection_id a \<notin> set (map ac_connection_id as)" using Cons.prems(1) by simp
    then have "\<forall>x \<in> set as. ac_connection_id x \<noteq> ac_connection_id a" by (metis image_eqI set_map)
    then show "\<forall>x \<in> set as. dict_get (books ?st) (ac_connection_id x) = None" using Cons.prems(3) by simp
  qed (use Cons.prems in auto)
  ultimately show ?case by simp
qed simp

text \<open>The checkpoint of a day, field by field, and why it is readable.\<close>

lemma build_checkpoint_readable:
  assumes bk: "books_ok t st" and run: "build_checkpoint job final (books st) = Inr cp"
    and final: "final = None \<or> (\<exists>c. dict_get (books st) c = final)"
  shows "lc_collector_id cp = job_collector_id job \<and> lc_utc_date cp = job_date job \<and>
    lc_exchange_symbol cp = job_symbol job \<and> validate_l2_checkpoint cp = Inr cp \<and>
    map_result validate_anchor (anchored_books cp) = Inr (anchored_books cp) \<and>
    distinct (map ac_connection_id (anchored_books cp)) \<and>
    (\<forall>a \<in> set (anchored_books cp). (\<exists>b. from_anchor_checkpoint a = Inr b) \<and>
       lc_connection_id cp \<noteq> Some (ac_connection_id a)) \<and>
    (lc_state cp = VALID \<longrightarrow> valid_through_ns cp = Some (midnight_ns (job_date job + 1)) \<and>
       lc_connection_id cp \<noteq> None \<and>
       (\<exists>b. final = Some b \<and> lc_connection_id cp = Some (cb_connection_id b)) \<and>
       (\<exists>b. from_checkpoint cp = Inr b)) \<and>
    (lc_state cp \<noteq> VALID \<longrightarrow> lc_connection_id cp = None)"
proof -
  let ?bs = "filter (\<lambda>b. anchor_last_update_id b \<noteq> None \<and> anchor_received_ns b \<noteq> None \<and>
                      cb_bids b \<noteq> [] \<and> cb_asks b \<noteq> []) (map snd (books st))"
  obtain as where as: "map_result anchor_checkpoint ?bs = Inr as"
    using run unfolding build_checkpoint_def rbind_Inr_iff by blast
  note rest = run [unfolded build_checkpoint_def as rbind_simps Let_def]
  have ids: "map cb_connection_id (map snd (books st)) = map fst (books st)"
    using bk by (auto simp: books_ok_def)
  have "\<forall>b \<in> set ?bs. book_ok b" using bk by (auto simp: books_ok_def book_timely_def)
  note conn = anchored_connections [OF this as]
  have "distinct (map cb_connection_id (map snd (books st)))"
    using bk unfolding ids by (simp add: books_ok_def dict_ok_def)
  then have "distinct (map cb_connection_id ?bs)" by (rule distinct_map_filter)
  then have dist: "distinct (map ac_connection_id as)" using conn by simp
  have sub: "ac_connection_id a \<noteq> cb_connection_id b"
    if a: "a \<in> set as" and b: "final = Some b" "cb_state b = VALID" for a b
  proof
    assume eq: "ac_connection_id a = cb_connection_id b"
    obtain x where x: "x \<in> set ?bs" "anchor_checkpoint x = Inr a" using map_result_origin [OF as a] by blast
    have okx: "book_ok x" using x(1) bk by (auto simp: books_ok_def book_timely_def)
    note r = anchor_checkpoint_restores [OF okx x(2)]
    obtain c where c: "dict_get (books st) c = Some b" using final b by auto
    then have "cb_connection_id b = c" using books_ok_get [OF bk] by simp
    moreover have "(cb_connection_id x, x) \<in> set (books st)" using x(1) bk by (auto simp: books_ok_def)
    then have "dict_get (books st) (cb_connection_id x) = Some x"
      using bk by (simp add: books_ok_def dict_get_Some_iff)
    ultimately have "x = b" using c eq r by simp
    then show False using r b by simp
  qed
  consider (no) "lc_connection_id cp = None" "lc_state cp \<noteq> VALID" "anchored_books cp = as"
      "lc_collector_id cp = job_collector_id job" "lc_utc_date cp = job_date job"
      "lc_exchange_symbol cp = job_symbol job" "validate_l2_checkpoint cp = Inr cp"
    | (yes) b where "final = Some b" "cb_state b = VALID" "anchored_books cp = as" "lc_state cp = VALID"
      "lc_connection_id cp = Some (cb_connection_id b)"
      "valid_through_ns cp = Some (midnight_ns (job_date job + 1))"
      "lc_bids cp = checkpoint_levels (cb_bids b)" "lc_asks cp = checkpoint_levels (cb_asks b)"
      "lc_collector_id cp = job_collector_id job" "lc_utc_date cp = job_date job"
      "lc_exchange_symbol cp = job_symbol job" "validate_l2_checkpoint cp = Inr cp"
  proof (cases final)
    case None
    then show ?thesis using rest by (intro no) (auto dest: validate_l2_checkpoint_id)
  next
    case (Some b)
    show ?thesis
    proof (cases "cb_state b \<noteq> VALID \<or> cb_previous b = None \<or> cb_bids b = [] \<or> cb_asks b = []")
      case True
      then show ?thesis using rest Some by (intro no) (auto dest: validate_l2_checkpoint_id)
    next
      case False
      note rest' = rest [unfolded Some option.case if_not_P [OF False]]
      note eq = validate_l2_checkpoint_id [OF rest']
      have "validate_l2_checkpoint cp = Inr cp" using rest' eq by simp
      then show ?thesis using Some False eq by (intro yes [of b]) simp_all
    qed
  qed
  then show ?thesis
  proof cases
    case no
    then show ?thesis using conn dist by simp
  next
    case yes
    obtain c where "dict_get (books st) c = Some b" using final yes(1) by auto
    then have side: "side_ok (cb_bids b)" "side_ok (cb_asks b)"
      using books_ok_get [OF bk] by (auto simp: book_timely_def book_ok_def)
    obtain bids asks where "book_side (checkpoint_levels (cb_bids b)) = Inr bids"
      "book_side (checkpoint_levels (cb_asks b)) = Inr asks"
      using checkpoint_levels_roundtrip [OF side(1)] checkpoint_levels_roundtrip [OF side(2)] by blast
    then have "\<exists>b'. from_checkpoint cp = Inr b'" using yes by (simp add: from_checkpoint_def)
    moreover have "\<forall>a \<in> set as. lc_connection_id cp \<noteq> Some (ac_connection_id a)"
    proof
      fix a assume "a \<in> set as"
      from sub [OF this yes(1,2)] show "lc_connection_id cp \<noteq> Some (ac_connection_id a)" by (simp add: yes(5))
    qed
    ultimately show ?thesis using yes conn dist by simp
  qed
qed

lemma reconstruct_ok:
  assumes run: "reconstruct_run u job inp = Inr res" and reg: "regular_day u job inp"
  defines "start \<equiv> midnight_ns (job_date job)" and "stop \<equiv> midnight_ns (job_date job + 1)"
  shows "ordered_until start (out_intervals res) stop \<and> out_intervals res = kept (out_intervals res) \<and>
    checkpoint_timely stop (out_checkpoint res) \<and>
    (\<exists>st final. books_ok stop st \<and> build_checkpoint job final (books st) = Inr (out_checkpoint res) \<and>
       (final = None \<or> (\<exists>c. dict_get (books st) c = final))) \<and>
    (\<exists>gaps. transport_gap_events u (job_symbol job) (in_gaps inp) = Inr gaps \<and>
       (\<forall>i \<in> set (out_intervals res). clear_of (set gaps) i))"
proof -
  obtain cp st gaps st' where load: "load_previous_checkpoint job (in_checkpoint inp) = Inr cp"
    and init: "(case cp of None \<Rightarrow> Inr empty_day | Some cp \<Rightarrow> restore_day job cp) = Inr st"
    and gaps: "transport_gap_events u (job_symbol job) (in_gaps inp) = Inr gaps"
    and loop: "day_loop (depth_rows (job_symbol job) (in_partitioned inp) (in_rows inp)) gaps st = Inr st'"
    and fin: "finish_day job st' = Inr res"
    using run by (auto simp: reconstruct_run_def rbind_Inr_iff split: if_splits)
  let ?rows = "depth_rows (job_symbol job) (in_partitioned inp) (in_rows inp)"
  have cpt: "checkpoint_timely start c" if "cp = Some c" for c
  proof -
    have "in_checkpoint inp = Some c"
      using load that by (auto simp: load_previous_checkpoint_def rbind_Inr_iff validate_l2_checkpoint_def
          split: option.splits if_splits)
    then show ?thesis using reg by (simp add: regular_day_def Let_def start_def)
  qed
  have st: "day_ok start start st \<and> intervals st = []"
  proof (cases cp)
    case None
    then have "st = empty_day" using init by simp
    then show ?thesis by simp (simp add: empty_day_def)
  next
    case (Some c)
    then show ?thesis using init load cpt restore_day_ok [of job "in_checkpoint inp" c st]
      by (simp add: start_def)
  qed
  have rows: "sorted (map row_received_ns ?rows)" "\<forall>r \<in> set ?rows. start \<le> row_received_ns r \<and> row_received_ns r \<le> stop"
    "\<forall>r \<in> set ?rows. row_connection_id r \<noteq> []"
    and gs: "\<forall>g \<in> set gaps. gap_effective_ns g \<le> stop" "\<forall>g \<in> set gaps. gap_state g = CLOSED \<longrightarrow> start \<le> gap_effective_ns g"
    using reg gaps by (auto simp: regular_day_def Let_def start_def stop_def list_all_iff)
  have "gaps_ahead start start {} gaps st"
    using transport_gaps_sorted [OF gaps] gs(2) st
    by (auto simp: gaps_ahead_def kept_def) (metis gap_state.exhaust)
  moreover have "gaps_respected start {} st" using st by (simp add: gaps_respected_def kept_def)
  moreover have "start \<le> stop" by (simp add: start_def stop_def)
  ultimately have loop_ok: "day_ok start stop st'" "gaps_respected stop (set gaps) st'"
    using day_loop_ok [of start start st "{}" gaps ?rows stop st'] st rows gs(1) loop by simp_all
  let ?st1 = "close_interval stop ''utc_day_end'' st'"
  obtain final where bc: "build_checkpoint job final (books st') = Inr (out_checkpoint res)"
    and final: "final = None \<or> (\<exists>c. authority st' = Some c \<and> dict_get (books st') c = final)"
    and out: "out_intervals res = kept (intervals ?st1)"
  proof -
    define final where "final = (if active_gaps st' = {} then
       case authority st' of None \<Rightarrow> None | Some c \<Rightarrow> dict_get (books st') c else None)"
    have "final = None \<or> (\<exists>c. authority st' = Some c \<and> dict_get (books st') c = final)"
      by (simp add: final_def split: option.split)
    moreover obtain c where "build_checkpoint job final (books st') = Inr c"
      "res = \<lparr>out_changes = changes ?st1, out_intervals = kept (intervals ?st1), out_checkpoint = c\<rparr>"
      using fin unfolding finish_day_def Let_def final_def [symmetric] rbind_Inr_iff kept_def stop_def by auto
    ultimately show ?thesis using that by simp
  qed
  have idem: "kept (kept xs) = kept xs" for xs by (simp add: kept_def)
  have "ordered_until start (intervals ?st1) stop"
    using close_interval_ordered [OF loop_ok(1) order_refl order_refl] .
  then have "ordered_until start (out_intervals res) stop" using out idem by (simp add: ordered_until_def)
  moreover have "checkpoint_timely stop (out_checkpoint res)"
    using loop_ok(1) final by (intro build_checkpoint_timely [OF _ bc]) (auto simp: day_ok_def authority_ok_def)
  moreover have "\<exists>st final. books_ok stop st \<and> build_checkpoint job final (books st) = Inr (out_checkpoint res) \<and>
       (final = None \<or> (\<exists>c. dict_get (books st) c = final))"
    using loop_ok(1) bc final by (auto simp: day_ok_def)
  moreover have "\<forall>i \<in> set (out_intervals res). clear_of (set gaps) i"
    using out close_interval_clear [OF loop_ok(2)] by simp
  moreover have "out_intervals res = kept (out_intervals res)" using out idem by simp
  ultimately show ?thesis using gaps by blast
qed

section \<open>Properties\<close>

text \<open>The validity file of a day is well formed: whatever rows the day holds (in receive order and
  within the day), whatever transport gaps, connections and restored books, the intervals written
  are non-empty, lie within the UTC day, name a connection, and follow one another without overlap.\<close>

lemma validity_intervals_ordered:
  assumes "reconstruct_run u job inp = Inr res" and "regular_day u job inp"
  shows "sorted_wrt (\<lambda>i j. valid_to_ns i \<le> valid_from_ns j) (out_intervals res) \<and>
    (\<forall>i \<in> set (out_intervals res). midnight_ns (job_date job) \<le> valid_from_ns i \<and>
       valid_from_ns i < valid_to_ns i \<and> valid_to_ns i \<le> midnight_ns (job_date job + 1) \<and>
       vi_connection_id i \<noteq> [])"
proof -
  note r = reconstruct_ok [OF assms]
  have "valid_from_ns i < valid_to_ns i" if "i \<in> set (out_intervals res)" for i
  proof -
    have "i \<in> set (kept (out_intervals res))" using r that by simp
    then show ?thesis by (simp add: kept_def)
  qed
  moreover have "ordered_until (midnight_ns (job_date job)) (out_intervals res) (midnight_ns (job_date job + 1))"
    and "kept (out_intervals res) = out_intervals res" using r by simp_all
  ultimately show ?thesis unfolding ordered_until_def by simp
qed

text \<open>C6. On a regular day no validity interval reaches into a transport gap: for every OPEN event that applies to the
  symbol's depth, each interval of the day ends by the time the gap takes effect, or starts after a
  later CLOSED event of the same gap. Regular means (\<open>regular_day\<close>) that the depth rows of the symbol, over all files,
  come in the order of their receive times, lie in the day and name a connection, that its gap events take effect by the end of the
  day and the CLOSED ones not before it, and that the previous checkpoint holds nothing later than the start of the day. The
  code relies on it and does not check it; on rows out of order an interval can reach back into a gap.\<close>

theorem validity_respects_gaps:
  assumes "reconstruct_run u job inp = Inr res" and "regular_day u job inp"
    and "transport_gap_events u (job_symbol job) (in_gaps inp) = Inr gaps"
    and "i \<in> set (out_intervals res)" and "g \<in> set gaps" and "gap_state g = OPEN"
  shows "valid_to_ns i \<le> gap_effective_ns g \<or>
    (\<exists>h \<in> set gaps. gap_state h = CLOSED \<and> gap_id h = gap_id g \<and>
       gap_effective_ns g < gap_effective_ns h \<and> gap_effective_ns h \<le> valid_from_ns i)"
proof -
  have "clear_of (set gaps) i" using reconstruct_ok [OF assms(1,2)] assms(3,4) by auto
  then show ?thesis using assms(5,6) by (simp add: clear_of_def closed_between_def)
qed

text \<open>C7. Days chain: the checkpoint that a regular day writes is accepted by the run of the next day, which
  restores every book of it without an error; the checkpoint is timely at that midnight, which is what the next day needs
  of it to be regular, and a VALID one makes its connection the authority from midnight on, so validity carries
  over the boundary without a hole. Regular is \<open>regular_day\<close>, as in C6: rows in the order of their receive times over all
  files and within the day, gap events by its end and CLOSED ones from its start, a timely previous checkpoint; the code does
  not check it.\<close>

theorem checkpoint_hands_over:
  assumes "reconstruct_run u job inp = Inr res" and "regular_day u job inp"
  defines "next \<equiv> job\<lparr>job_date := job_date job + 1\<rparr>" and "cp \<equiv> out_checkpoint res"
  shows "load_previous_checkpoint next (Some cp) = Inr (Some cp) \<and>
    checkpoint_timely (midnight_ns (job_date next)) cp \<and>
    (\<exists>st. restore_day next cp = Inr st \<and>
       (lc_state cp = VALID \<longrightarrow> authority st = lc_connection_id cp \<and> authority st \<noteq> None \<and>
          valid_from st = Some (midnight_ns (job_date next))))"
proof -
  obtain st0 final where b: "books_ok (midnight_ns (job_date job + 1)) st0"
    "build_checkpoint job final (books st0) = Inr cp" "final = None \<or> (\<exists>c. dict_get (books st0) c = final)"
    and timely: "checkpoint_timely (midnight_ns (job_date next)) cp"
    using reconstruct_ok [OF assms(1,2)] by (auto simp: cp_def next_def)
  note r = build_checkpoint_readable [OF b]
  have dist: "distinct (map ac_connection_id (anchored_books cp))"
    and fine: "\<forall>a \<in> set (anchored_books cp). \<exists>b. from_anchor_checkpoint a = Inr b"
    and fresh: "\<forall>a \<in> set (anchored_books cp). lc_connection_id cp \<noteq> Some (ac_connection_id a)"
    and valid: "validate_l2_checkpoint cp = Inr cp"
    and vcp: "lc_state cp = VALID \<longrightarrow> lc_connection_id cp \<noteq> None \<and> (\<exists>b. from_checkpoint cp = Inr b)"
    using r by blast+
  have load: "load_previous_checkpoint next (Some cp) = Inr (Some cp)"
    using r by (auto simp: load_previous_checkpoint_def next_def)
  have "\<exists>st. restore_day next cp = Inr st \<and>
       (lc_state cp = VALID \<longrightarrow> authority st = lc_connection_id cp \<and> authority st \<noteq> None \<and>
          valid_from st = Some (midnight_ns (job_date next)))"
  proof (cases "lc_state cp = VALID")
    case True
    then obtain x c where x: "from_checkpoint cp = Inr x" "lc_connection_id cp = Some c" using vcp by auto
    then have c: "cb_connection_id x = c" using from_checkpoint_timely [OF x(1) valid] by simp
    let ?st = "empty_day\<lparr>books := [(c, x)], authority := Some c, last_valid_connection := Some c,
      valid_from := Some (midnight_ns (job_date next))\<rparr>"
    have "\<exists>st. fold_result restore_anchored ?st (anchored_books cp) = Inr st \<and>
        authority st = authority ?st \<and> valid_from st = valid_from ?st"
      using fresh x(2) by (intro restore_anchored_total [OF dist fine]) (auto simp: dict_get_def)
    then show ?thesis using True x c by (auto simp: restore_day_def Let_def)
  next
    case False
    have "\<exists>st. fold_result restore_anchored empty_day (anchored_books cp) = Inr st \<and>
        authority st = authority empty_day \<and> valid_from st = valid_from empty_day"
      by (intro restore_anchored_total [OF dist fine]) (simp add: empty_day_def)
    then show ?thesis using False by (auto simp: restore_day_def)
  qed
  then show ?thesis using load timely by blast
qed

section \<open>A day evaluated\<close>

definition ex_row :: "string \<Rightarrow> int \<Rightarrow> int \<Rightarrow> int option \<Rightarrow> int option \<Rightarrow> level list \<Rightarrow> depth_row" where
  "ex_row stream t u pu lastid bids = \<lparr>row_exchange_symbol = Some ''BTC'', row_stream_type = stream,
     row_connection_id = ''c1'', row_receive_seq = t, row_received_ns = t, row_payload_hash = ''h'',
     row_first_update_id = Some u, row_final_update_id = Some (u + 1), row_previous_final_update_id = pu,
     row_last_update_id = lastid, row_bids = Some bids, row_asks = Some bids\<rparr>"

definition ex_gap :: "gap_state \<Rightarrow> int \<Rightarrow> gap_event" where
  "ex_gap s t = \<lparr>gap_id = ''gap-0001'', gap_state = s, reason = CONNECTION_LOST,
     gap_collector_id = ''c'', gap_connection_id = None, exchange_symbols = [], stream_types = [],
     observed_at_realtime_ns = t, affected_from_realtime_ns = None, detail = []\<rparr>"

definition ex_job :: day_job where
  "ex_job = \<lparr>job_collector_id = ''c'', job_date = 0, job_symbol = ''BTC''\<rparr>"

definition ex_inputs :: day_inputs where
  "ex_inputs = \<lparr>in_marker = Some [(''formal_start_realtime_ns'', JInt 5)], in_previous_marker = None,
     in_checkpoint = None, in_gaps = Some [ex_gap CLOSED 350, ex_gap OPEN 300], in_partitioned = False,
     in_rows = [ex_row ''depth'' 100 4 (Some 3) None [], ex_row ''depth_snapshot'' 150 0 None (Some 5) [],
       ex_row ''depth'' 200 6 (Some 5) None []]\<rparr>"

lemma ex_gaps: "transport_gap_events ascii ''BTC'' (Some [ex_gap CLOSED 350, ex_gap OPEN 300]) =
    Inr [ex_gap OPEN 300, ex_gap CLOSED 350]"
proof -
  have "validate_gap_event ascii (ex_gap CLOSED 350) = Inr (ex_gap CLOSED 350)"
    "validate_gap_event ascii (ex_gap OPEN 300) = Inr (ex_gap OPEN 300)"
    by code_simp+
  then show ?thesis
    by (simp add: transport_gap_events_def ex_gap_def gap_effective_ns_def insort_key_def less_eq_prod_def)
qed

lemma ex_gap_fields: "gap_state (ex_gap s t) = s" "gap_id (ex_gap s t) = ''gap-0001''"
    "gap_effective_ns (ex_gap s t) = t" "observed_at_realtime_ns (ex_gap s t) = t"
    "reason (ex_gap s t) = CONNECTION_LOST"
  by (simp_all add: ex_gap_def gap_effective_ns_def)

lemma ex_streams: "stream_type_of ''depth'' = Inr DEPTH" "stream_type_of ''depth_snapshot'' = Inr DEPTH_SNAPSHOT"
  by code_simp+

lemma ex_day_run: "\<exists>res. reconstruct_run ascii ex_job ex_inputs = Inr res \<and>
    out_intervals res = [interval 150 300 ''c1'' ''transport_gap'']"
  by (simp add: reconstruct_run_def ex_job_def ex_inputs_def can_start_without_previous_checkpoint_def
      jget_def instance_int_def midnight_ns_def ns_per_day_def load_previous_checkpoint_def ex_gaps
      depth_rows_def ex_row_def ex_gap_fields empty_day_def on_row_def ex_streams
      required_def diff_from_row_def snapshot_from_row_def dict_get_def new_book_def diff_identity_def
      book_on_diff_def book_on_snapshot_def book_side_def try_bridge_def locate_snapshot_bridge_def
      span_of_def sequence_continues_def apply_levels_def book_apply_def bridge_result_of_def Let_def
      apply_change_def handle_gap_def close_interval_def interval_def finish_day_def build_checkpoint_def
      validate_l2_checkpoint_def book_invalidate_def cong: rbind_eval_cong)

lemma ex_day_regular: "regular_day ascii ex_job ex_inputs"
  by (simp add: regular_day_def ex_job_def ex_inputs_def depth_rows_def ex_row_def ex_gaps ex_gap_fields
      midnight_ns_def ns_per_day_def Let_def)

lemma validity_intervals_ordered_witness:
  "\<exists>res. reconstruct_run ascii ex_job ex_inputs = Inr res \<and>
     sorted_wrt (\<lambda>i j. valid_to_ns i \<le> valid_from_ns j) (out_intervals res) \<and> out_intervals res \<noteq> []"
  using ex_day_run validity_intervals_ordered [OF _ ex_day_regular] by fastforce

theorem validity_respects_gaps_witness:
  "\<exists>res i. reconstruct_run ascii ex_job ex_inputs = Inr res \<and> i \<in> set (out_intervals res) \<and>
     (valid_to_ns i \<le> 300 \<or> 350 \<le> valid_from_ns i)"
proof -
  obtain res where res: "reconstruct_run ascii ex_job ex_inputs = Inr res"
    and i: "interval 150 300 ''c1'' ''transport_gap'' \<in> set (out_intervals res)"
    using ex_day_run by auto
  have "transport_gap_events ascii (job_symbol ex_job) (in_gaps ex_inputs) = Inr [ex_gap OPEN 300, ex_gap CLOSED 350]"
    by (simp add: ex_job_def ex_inputs_def ex_gaps)
  from validity_respects_gaps [OF res ex_day_regular this i, of "ex_gap OPEN 300"] res i
  show ?thesis by (auto simp: ex_gap_fields)
qed

theorem checkpoint_hands_over_witness:
  "\<exists>res st. reconstruct_run ascii ex_job ex_inputs = Inr res \<and>
     restore_day (ex_job\<lparr>job_date := 1\<rparr>) (out_checkpoint res) = Inr st"
proof -
  obtain res where res: "reconstruct_run ascii ex_job ex_inputs = Inr res" using ex_day_run by auto
  from checkpoint_hands_over [OF res ex_day_regular] res show ?thesis by (auto simp: ex_job_def)
qed

end
