(* ===== verification/Quality.thy ===== *)
theory Quality
  imports L2_Day Intervals
begin

text \<open>
  The quality gate of a day, \<open>src/miry/pipeline/quality.py\<close>: reading the validity rows, the
  explicitly invalid intervals of the gap ledger, and \<open>finalize_day\<close>, which accepts or rejects the
  day. Files are inputs: \<open>None\<close> for a missing file, a validity line as its parsed JSON (\<open>None\<close> if
  it does not parse), the ledger's lines as the gap events \<open>build_transport_gap_ledger\<close> wrote.
  The two ratio texts of the coverage record are a rendering of the numbers kept here.
\<close>

section \<open>Validity rows\<close>

definition read_validity_row :: "json option \<Rightarrow> py_error + ((string \<times> json) list \<times> int \<times> int)" where
  "read_validity_row line =
     (case line of
        Some (JObj row) \<Rightarrow>
          (case (map_of row ''valid_from_ns'', map_of row ''valid_to_ns'') of
             (Some a, Some b) \<Rightarrow>
               (case (py_int a, py_int b) of
                  (Inr start, Inr stop) \<Rightarrow> Inr (row, start, stop)
                | _ \<Rightarrow> Inl (ValueError ''invalid L2 validity row''))
           | _ \<Rightarrow> Inl (ValueError ''invalid L2 validity row''))
      | _ \<Rightarrow> Inl (ValueError ''invalid L2 validity row''))"

definition validity_step ::
    "utc_date \<Rightarrow> int option \<times> interval list \<Rightarrow> json option \<Rightarrow> py_error + (int option \<times> interval list)" where
  "validity_step utc_date = (\<lambda>(previous_end, intervals) line.
     rbind (read_validity_row line) (\<lambda>(row, start, stop).
     if \<not> equals_int (jget row ''schema_version'') 1 \<or>
        (case jget row ''connection_id'' of JStr c \<Rightarrow> c = [] | _ \<Rightarrow> True) \<or>
        \<not> (midnight_ns utc_date \<le> start \<and> start < stop \<and> stop \<le> midnight_ns (utc_date + 1)) \<or>
        (case previous_end of None \<Rightarrow> False | Some p \<Rightarrow> start < p)
     then Inl (ValueError ''invalid L2 validity ordering'')
     else Inr (Some stop, intervals @ [(start, stop)])))"

definition validate_validity :: "utc_date \<Rightarrow> json option list \<Rightarrow> py_error + interval list" where
  "validate_validity utc_date lines =
     rbind (fold_result (validity_step utc_date) (None, []) lines) (\<lambda>(_, intervals). Inr intervals)"

text \<open>A row as \<open>L2DayReconstructor._write\<close> writes it.\<close>

definition validity_json :: "validity \<Rightarrow> json" where
  "validity_json i = JObj [(''connection_id'', JStr (vi_connection_id i)), (''end_reason'', JStr (end_reason i)),
     (''schema_version'', JInt 1), (''valid_from_ns'', JInt (valid_from_ns i)), (''valid_to_ns'', JInt (valid_to_ns i))]"

section \<open>Explicitly invalid intervals\<close>

text \<open>\<open>event.get("affected_from_realtime_ns") or observed_ns\<close>: zero counts as missing.\<close>

definition quality_effective_ns :: "gap_event \<Rightarrow> int" where
  "quality_effective_ns e =
     (if gap_state e = OPEN then
        case affected_from_realtime_ns e of
          Some a \<Rightarrow> if a = 0 then observed_at_realtime_ns e else a
        | None \<Rightarrow> observed_at_realtime_ns e
      else observed_at_realtime_ns e)"

definition continues_text :: string where
  "continues_text = ''gap continues into the next UTC day''"

type_synonym gap_row = "int \<times> string \<times> string \<times> string"

definition gap_rows :: "string \<Rightarrow> gap_event list \<Rightarrow> gap_row list" where
  "gap_rows symbol events =
     sort (map (\<lambda>e. (quality_effective_ns e, gap_id e, gap_state_value (gap_state e), detail e))
       (filter (\<lambda>e. \<not> (exchange_symbols e \<noteq> [] \<and> symbol \<notin> set (exchange_symbols e)) \<and>
                    \<not> (stream_types e \<noteq> [] \<and> DEPTH \<notin> set (stream_types e))) events))"

definition match_gap :: "gap_row \<Rightarrow> (string, int) dict \<times> interval list \<Rightarrow> (string, int) dict \<times> interval list" where
  "match_gap = (\<lambda>(effective_ns, g, state, why) (opened, intervals).
     if state = ''OPEN'' then (dict_set g effective_ns opened, intervals)
     else if state = ''CLOSED'' then
       (case dict_get opened g of
          None \<Rightarrow> (opened, intervals)
        | Some start \<Rightarrow> (dict_pop g opened,
            intervals @ [(start, effective_ns + (if why = continues_text then 1 else 0))]))
     else (opened, intervals))"

definition explicit_invalid_intervals :: "gap_event list option \<Rightarrow> string \<Rightarrow> int \<Rightarrow> int \<Rightarrow> interval list" where
  "explicit_invalid_intervals ledger symbol ws we =
     (case ledger of
        None \<Rightarrow> []
      | Some events \<Rightarrow>
          let (opened, intervals) = fold match_gap (gap_rows symbol events) ([], []) in
          clip ws we (intervals @ map (\<lambda>(_, start). (start, we)) opened))"

section \<open>The verdict on a day\<close>

record coverage =
  expected_ns :: int
  valid_ns :: int
  explicit_invalid_ns :: int
  conflicting_ns :: int
  unclassified_ns :: int

definition MINIMUM_L2_VALID_RATIO_PER_MILLE :: int where
  "MINIMUM_L2_VALID_RATIO_PER_MILLE = 999"

definition symbol_coverage :: "interval list \<Rightarrow> interval list \<Rightarrow> int \<Rightarrow> int \<Rightarrow> coverage" where
  "symbol_coverage valid invalid ws we = \<lparr>expected_ns = we - ws,
     valid_ns = union_duration valid ws we,
     explicit_invalid_ns = union_duration invalid ws we,
     conflicting_ns = intersection_duration valid invalid ws we,
     unclassified_ns = (we - ws) - union_duration (valid @ invalid) ws we\<rparr>"

definition below_contract :: "coverage \<Rightarrow> bool" where
  "below_contract c \<longleftrightarrow> valid_ns c * 1000 < expected_ns c * MINIMUM_L2_VALID_RATIO_PER_MILLE \<or>
     unclassified_ns c \<noteq> 0 \<or> conflicting_ns c \<noteq> 0"

record symbol_files =
  sf_validity :: "json option list option"
  sf_checkpoint :: "l2_checkpoint option"

record quality_state =
  missing :: "string list"
  l2_coverage :: "(string, coverage) dict"
  rejected :: "string list"

definition check_symbol ::
    "string \<Rightarrow> utc_date \<Rightarrow> int \<Rightarrow> int \<Rightarrow> gap_event list option \<Rightarrow> (string \<Rightarrow> symbol_files) \<Rightarrow>
     quality_state \<Rightarrow> string \<Rightarrow> py_error + quality_state" where
  "check_symbol collector_id utc_date ws we ledger files st symbol =
     (case (sf_validity (files symbol), sf_checkpoint (files symbol)) of
        (Some lines, Some raw) \<Rightarrow>
          rbind (validate_validity utc_date lines) (\<lambda>valid.
          rbind (map_result validate_anchor (anchored_books raw)) (\<lambda>_.
          rbind (validate_l2_checkpoint raw) (\<lambda>checkpoint.
          if lc_collector_id checkpoint \<noteq> collector_id \<or> lc_utc_date checkpoint \<noteq> utc_date \<or>
             lc_exchange_symbol checkpoint \<noteq> symbol then
            Inl (ValueError ''L2 checkpoint identity mismatch'')
          else
            let invalid = extend_invalid_until_valid (explicit_invalid_intervals ledger symbol ws we) valid we;
                c = symbol_coverage valid invalid ws we in
            Inr (st\<lparr>l2_coverage := dict_set symbol c (l2_coverage st),
              rejected := (if below_contract c then rejected st @ [symbol] else rejected st)\<rparr>))))
      | _ \<Rightarrow> Inr (st\<lparr>missing := missing st @ [symbol]\<rparr>))"

text \<open>
  The two endings that write a marker: \<open>_PROCESSED.json\<close>, or \<open>_QUALITY_REJECTED.json\<close> followed by
  the \<open>ValueError\<close> that names the rejected symbols.
\<close>

datatype quality_outcome =
    Processed "(string, coverage) dict"
  | Quality_Rejected "(string, coverage) dict" "string list"

definition get_int_default :: "(string \<times> json) list \<Rightarrow> string \<Rightarrow> int \<Rightarrow> py_error + int" where
  "get_int_default obj k fallback = (case map_of obj k of None \<Rightarrow> Inr fallback | Some v \<Rightarrow> py_int v)"

definition authoritative_universe :: "(string \<times> json) list \<Rightarrow> py_error + string list" where
  "authoritative_universe normalized =
     (case jget normalized ''expected_symbols'' of
        JList vs \<Rightarrow>
          if length vs \<noteq> 60 \<or> list_ex (\<lambda>v. case v of JStr _ \<Rightarrow> False | _ \<Rightarrow> True) vs \<or> card (set vs) \<noteq> 60 then
            Inl (ValueError ''normalized day has no authoritative 60-symbol universe'')
          else Inr (map (\<lambda>v. case v of JStr s \<Rightarrow> s | _ \<Rightarrow> []) vs)
      | _ \<Rightarrow> Inl (ValueError ''normalized day has no authoritative 60-symbol universe''))"

definition finalize_day ::
    "string \<Rightarrow> utc_date \<Rightarrow> string list \<Rightarrow> (string \<times> json) list option \<Rightarrow> gap_event list option \<Rightarrow>
     (string \<Rightarrow> symbol_files) \<Rightarrow> py_error + quality_outcome" where
  "finalize_day collector_id utc_date symbols normalized ledger files =
     (case normalized of
        None \<Rightarrow> Inl (FileNotFoundError ''day is not normalized'')
      | Some marker \<Rightarrow>
          rbind (authoritative_universe marker) (\<lambda>expected.
          if sort symbols \<noteq> sort expected then
            Inl (ValueError ''requested symbols do not match sealed universe'')
          else
            rbind (get_int_default marker ''collection_window_start_ns'' (midnight_ns utc_date)) (\<lambda>ws.
            rbind (get_int_default marker ''collection_window_end_ns'' (midnight_ns utc_date + ns_per_day)) (\<lambda>we.
            if \<not> (midnight_ns utc_date \<le> ws \<and> ws < we \<and> we \<le> midnight_ns utc_date + ns_per_day) then
              Inl (ValueError ''normalized collection window falls outside UTC day'')
            else
              rbind (fold_result (check_symbol collector_id utc_date ws we ledger files)
                  \<lparr>missing = [], l2_coverage = [], rejected = []\<rparr> symbols) (\<lambda>st.
              if missing st \<noteq> [] then Inl (FileNotFoundError ''missing L2 outputs'')
              else if rejected st \<noteq> [] then Inr (Quality_Rejected (l2_coverage st) (rejected st))
              else Inr (Processed (l2_coverage st)))))))"

section \<open>Reading back what was written\<close>

lemma read_validity_json:
  "read_validity_row (Some (validity_json i)) =
   Inr ([(''connection_id'', JStr (vi_connection_id i)), (''end_reason'', JStr (end_reason i)),
     (''schema_version'', JInt 1), (''valid_from_ns'', JInt (valid_from_ns i)),
     (''valid_to_ns'', JInt (valid_to_ns i))], valid_from_ns i, valid_to_ns i)"
  by (simp add: read_validity_row_def validity_json_def py_int_def)

lemma validity_steps_written:
  assumes "sorted_wrt (\<lambda>i j. valid_to_ns i \<le> valid_from_ns j) is"
    "\<forall>i \<in> set is. midnight_ns d \<le> valid_from_ns i \<and> valid_from_ns i < valid_to_ns i \<and>
       valid_to_ns i \<le> midnight_ns (d + 1) \<and> vi_connection_id i \<noteq> []"
    "\<forall>p. prev = Some p \<longrightarrow> (\<forall>i \<in> set is. p \<le> valid_from_ns i)"
  shows "\<exists>p. fold_result (validity_step d) (prev, acc) (map (Some \<circ> validity_json) is) =
    Inr (p, acc @ map (\<lambda>i. (valid_from_ns i, valid_to_ns i)) is)"
  using assms
proof (induction "is" arbitrary: prev acc)
  case (Cons i "is")
  have "validity_step d (prev, acc) (Some (validity_json i)) =
      Inr (Some (valid_to_ns i), acc @ [(valid_from_ns i, valid_to_ns i)])"
    using Cons.prems(2,3)
    by (simp add: validity_step_def read_validity_json jget_def equals_int_def split: option.split)
       (auto simp: leD)
  moreover have "\<exists>p. fold_result (validity_step d) (Some (valid_to_ns i), acc @ [(valid_from_ns i, valid_to_ns i)])
      (map (Some \<circ> validity_json) is) =
      Inr (p, (acc @ [(valid_from_ns i, valid_to_ns i)]) @ map (\<lambda>i. (valid_from_ns i, valid_to_ns i)) is)"
    using Cons.prems by (intro Cons.IH) auto
  ultimately show ?case by (auto simp: comp_def)
qed simp

lemma validity_roundtrip:
  assumes "sorted_wrt (\<lambda>i j. valid_to_ns i \<le> valid_from_ns j) is"
    "\<forall>i \<in> set is. midnight_ns d \<le> valid_from_ns i \<and> valid_from_ns i < valid_to_ns i \<and>
       valid_to_ns i \<le> midnight_ns (d + 1) \<and> vi_connection_id i \<noteq> []"
  shows "validate_validity d (map (Some \<circ> validity_json) is) = Inr (map (\<lambda>i. (valid_from_ns i, valid_to_ns i)) is)"
  using validity_steps_written [OF assms, of None "[]"] by (auto simp: validate_validity_def)

section \<open>Gaps as invalid intervals\<close>

text \<open>
  What the matching keeps true, of the rows \<open>P\<close> read so far: an open gap has seen no later CLOSED
  row, and an interval ends at the first CLOSED row of its gap after its start.
\<close>

definition closes :: "gap_row list \<Rightarrow> string \<Rightarrow> int set" where
  "closes P g = {t. \<exists>why. (t, g, ''CLOSED'', why) \<in> set P}"

definition from_gap :: "gap_row list \<Rightarrow> interval \<Rightarrow> bool" where
  "from_gap P i \<longleftrightarrow> (\<exists>g why. (fst i, g, ''OPEN'', why) \<in> set P \<and>
     (\<forall>t \<in> closes P g. t \<le> fst i \<or> snd i \<le> t))"

definition matching_ok :: "gap_row list \<Rightarrow> (string, int) dict \<times> interval list \<Rightarrow> bool" where
  "matching_ok P = (\<lambda>(opened, intervals). dict_ok opened \<and>
     (\<forall>g t. dict_get opened g = Some t \<longrightarrow> (\<exists>why. (t, g, ''OPEN'', why) \<in> set P) \<and> (\<forall>c \<in> closes P g. c \<le> t)) \<and>
     (\<forall>i \<in> set intervals. from_gap P i))"

lemma match_gap_ok:
  assumes "matching_ok P s" "\<forall>i \<in> set (snd s). \<exists>x \<in> set P. snd i \<le> fst x"
    "\<forall>x \<in> set P. fst x \<le> t" "why \<noteq> continues_text"
  shows "matching_ok (P @ [(t, g, state, why)]) (match_gap (t, g, state, why) s) \<and>
    (\<forall>i \<in> set (snd (match_gap (t, g, state, why) s)). \<exists>x \<in> set (P @ [(t, g, state, why)]). snd i \<le> fst x)"
proof -
  let ?P = "P @ [(t, g, state, why)]"
  obtain opened ivs where s: "s = (opened, ivs)" by (cases s)
  have cl: "closes ?P g' = closes P g' \<union> (if state = ''CLOSED'' \<and> g' = g then {t} else {})" for g'
    by (auto simp: closes_def)
  have le: "c \<le> t" if "c \<in> closes P g'" for c g' using that assms(3) by (fastforce simp: closes_def)
  have old: "from_gap ?P i" if i: "i \<in> set ivs" for i
  proof -
    obtain g' w where g': "(fst i, g', ''OPEN'', w) \<in> set P" "\<forall>t \<in> closes P g'. t \<le> fst i \<or> snd i \<le> t"
      using assms(1) i s by (auto simp: matching_ok_def from_gap_def)
    have "snd i \<le> t" using assms(2,3) i s by fastforce
    then show ?thesis using g' cl [of g'] unfolding from_gap_def by (intro exI [of _ g'] exI [of _ w]) auto
  qed
  have ends: "\<forall>i \<in> set ivs. \<exists>x \<in> set ?P. snd i \<le> fst x" using assms(2) s by auto
  have ok: "dict_ok opened"
    and op: "\<And>g t. dict_get opened g = Some t \<Longrightarrow> (\<exists>why. (t, g, ''OPEN'', why) \<in> set P) \<and> (\<forall>c \<in> closes P g. c \<le> t)"
    using assms(1) s by (auto simp: matching_ok_def)
  consider (o) "state = ''OPEN''" | (c) "state = ''CLOSED''" | (x) "state \<noteq> ''OPEN''" "state \<noteq> ''CLOSED''" by blast
  then show ?thesis
  proof cases
    case o
    have "match_gap (t, g, state, why) s = (dict_set g t opened, ivs)" using o s by (simp add: match_gap_def)
    then show ?thesis using old ends ok op cl le o by (auto simp: matching_ok_def)
  next
    case c
    show ?thesis
    proof (cases "dict_get opened g")
      case None
      then have "match_gap (t, g, state, why) s = (opened, ivs)" using c s by (simp add: match_gap_def)
      moreover have "(\<exists>w. (t', g', ''OPEN'', w) \<in> set ?P) \<and> (\<forall>c \<in> closes ?P g'. c \<le> t')"
        if "dict_get opened g' = Some t'" for g' t'
      proof -
        have "g' \<noteq> g" using that None by auto
        then show ?thesis using op [OF that] cl [of g'] by auto
      qed
      ultimately show ?thesis using old ends ok by (simp add: matching_ok_def)
    next
      case (Some start)
      then have m: "match_gap (t, g, state, why) s = (dict_pop g opened, ivs @ [(start, t)])"
        using c s assms(4) by (simp add: match_gap_def)
      have rest: "(\<exists>w. (t', g', ''OPEN'', w) \<in> set ?P) \<and> (\<forall>c \<in> closes ?P g'. c \<le> t')"
        if "dict_get (dict_pop g opened) g' = Some t'" for g' t'
      proof -
        have "g' \<noteq> g" "dict_get opened g' = Some t'" using that by (auto split: if_splits)
        then show ?thesis using op [of g' t'] cl [of g'] by auto
      qed
      obtain w where "(start, g, ''OPEN'', w) \<in> set P" "\<forall>c \<in> closes P g. c \<le> start" using op [OF Some] by blast
      then have "from_gap ?P (start, t)"
        unfolding from_gap_def using cl [of g] by (intro exI [of _ g] exI [of _ w]) auto
      then show ?thesis unfolding m using old ends ok rest by (auto simp: matching_ok_def)
    qed
  next
    case x
    then have "match_gap (t, g, state, why) s = s" by (simp add: match_gap_def)
    then show ?thesis using x old ends ok op cl s by (auto simp: matching_ok_def)
  qed
qed

lemma match_gaps_ok:
  assumes "sorted rows" "\<forall>(_, _, _, why) \<in> set rows. why \<noteq> continues_text"
  shows "matching_ok rows (fold match_gap rows ([], []))"
proof -
  have "matching_ok rows (fold match_gap rows ([], [])) \<and>
      (\<forall>i \<in> set (snd (fold match_gap rows ([], []))). \<exists>x \<in> set rows. snd i \<le> fst x)"
    using assms
  proof (induction rows rule: rev_induct)
    case (snoc r rows)
    obtain t g state why where r: "r = (t, g, state, why)" by (cases r)
    have "\<forall>x \<in> set rows. x \<le> r" using snoc.prems(1) unfolding sorted_append by simp
    then have "\<forall>x \<in> set rows. fst x \<le> t" using r by (auto simp: less_eq_prod_def)
    moreover have "why \<noteq> continues_text" using snoc.prems(2) r by auto
    ultimately show ?case
      using match_gap_ok [of rows "fold match_gap rows ([], [])" t why g state] snoc r
      by (simp add: sorted_append)
  qed (simp add: matching_ok_def)
  then show ?thesis by simp
qed

lemma clip_source: "i \<in> set (clip ws we xs) \<Longrightarrow> \<exists>j \<in> set xs. fst j \<le> fst i \<and> snd i \<le> snd j"
proof -
  assume "i \<in> set (clip ws we xs)"
  then obtain s e where "(s, e) \<in> set xs" "i = (max s ws, min e we)" by (auto simp: clip_def)
  then show ?thesis by (intro bexI [of _ "(s, e)"]) auto
qed

lemma explicit_invalid_from_gap:
  assumes "i \<in> set (explicit_invalid_intervals (Some events) symbol ws we)"
    "\<forall>e \<in> set events. detail e \<noteq> continues_text"
  shows "\<exists>j. from_gap (gap_rows symbol events) j \<and> fst j \<le> fst i \<and> snd i \<le> snd j \<or>
    (\<exists>g why. (fst j, g, ''OPEN'', why) \<in> set (gap_rows symbol events) \<and> fst j \<le> fst i \<and>
       (\<forall>t \<in> closes (gap_rows symbol events) g. t \<le> fst j))"
proof -
  let ?rows = "gap_rows symbol events"
  obtain opened ivs where f: "fold match_gap ?rows ([], []) = (opened, ivs)" by fastforce
  have "matching_ok ?rows (opened, ivs)"
    using match_gaps_ok [of ?rows] assms(2) f by (auto simp: gap_rows_def)
  note ok = this [unfolded matching_ok_def prod.case]
  obtain j where j: "j \<in> set (ivs @ map (\<lambda>(_, start). (start, we)) opened)" "fst j \<le> fst i" "snd i \<le> snd j"
  proof -
    have "i \<in> set (clip ws we (ivs @ map (\<lambda>(_, start). (start, we)) opened))"
      using assms(1) f by (simp add: explicit_invalid_intervals_def)
    from clip_source [OF this] that show ?thesis by blast
  qed
  then consider "j \<in> set ivs" | g where "(g, fst j) \<in> set opened" by auto
  then show ?thesis
  proof cases
    case 1
    then show ?thesis using ok j by blast
  next
    case 2
    then have "dict_get opened g = Some (fst j)" using ok by (simp add: dict_get_Some_iff)
    then show ?thesis using ok j(2) by blast
  qed
qed

section \<open>Validity and gaps never conflict\<close>

definition spans :: "validity list \<Rightarrow> interval list" where
  "spans is = map (\<lambda>i. (valid_from_ns i, valid_to_ns i)) is"

lemma ledger_rows:
  assumes "transport_gap_events u symbol (Some events) = Inr gaps"
    and "\<forall>e \<in> set events. affected_from_realtime_ns e \<noteq> Some 0"
  shows "(t, g, s, w) \<in> set (gap_rows symbol events) \<longleftrightarrow>
    (\<exists>e \<in> set gaps. gap_effective_ns e = t \<and> gap_id e = g \<and> gap_state_value (gap_state e) = s \<and> detail e = w)"
proof -
  have id: "map_result (validate_gap_event u) xs = Inr ys \<Longrightarrow> ys = xs" for xs ys
    by (induction xs arbitrary: ys) (auto simp: rbind_Inr_iff validate_gap_event_def split: if_splits)
  have eff: "quality_effective_ns e = gap_effective_ns e" if "e \<in> set events" for e
    using that assms(2) by (cases "gap_state e")
      (auto simp: quality_effective_ns_def gap_effective_ns_def split: option.split)
  have "set gaps = set (filter (\<lambda>e. \<not> (exchange_symbols e \<noteq> [] \<and> symbol \<notin> set (exchange_symbols e)) \<and>
                         \<not> (stream_types e \<noteq> [] \<and> DEPTH \<notin> set (stream_types e))) events)"
    using assms(1) by (auto simp: transport_gap_events_def rbind_Inr_iff dest!: id)
  then show ?thesis using eff by (auto simp: gap_rows_def)
qed

lemma clear_interval_disjoint:
  assumes rows: "\<And>t g s w. (t, g, s, w) \<in> set rows \<longleftrightarrow>
      (\<exists>e \<in> set gaps. gap_effective_ns e = t \<and> gap_id e = g \<and> gap_state_value (gap_state e) = s \<and> detail e = w)"
    and open_row: "(o1, g, ''OPEN'', why) \<in> set rows" and closes: "\<forall>t \<in> closes rows g. t \<le> o1 \<or> c1 \<le> t"
    and clear: "clear_of (set gaps) i"
  shows "valid_to_ns i \<le> o1 \<or> c1 \<le> valid_from_ns i"
proof -
  obtain e where e: "e \<in> set gaps" "gap_effective_ns e = o1" "gap_id e = g" "gap_state_value (gap_state e) = ''OPEN''"
    using open_row rows by blast
  then have "gap_state e = OPEN" by (cases "gap_state e") auto
  then consider "valid_to_ns i \<le> o1" | "closed_between (set gaps) e (valid_from_ns i)"
    using clear e by (auto simp: clear_of_def)
  then show ?thesis
  proof cases
    case 2
    then obtain h where h: "h \<in> set gaps" "gap_state h = CLOSED" "gap_id h = g" "o1 < gap_effective_ns h"
      "gap_effective_ns h \<le> valid_from_ns i"
      using e by (auto simp: closed_between_def)
    have "(gap_effective_ns h, g, ''CLOSED'', detail h) \<in> set rows"
      unfolding rows using h by (intro bexI [of _ h]) auto
    then have "gap_effective_ns h \<in> closes rows g" by (auto simp: closes_def)
    then show ?thesis using closes h by auto
  qed simp
qed

lemma gaps_never_conflict:
  assumes run: "reconstruct_run u job inp = Inr res" and reg: "regular_day u job inp"
    and ledger: "in_gaps inp = Some events"
    and events: "\<forall>e \<in> set events. affected_from_realtime_ns e \<noteq> Some 0 \<and> detail e \<noteq> continues_text"
    and v: "v \<in> set (spans (out_intervals res))"
    and i: "i \<in> set (explicit_invalid_intervals (Some events) (job_symbol job) ws we)"
  shows "snd v \<le> fst i \<or> snd i \<le> fst v"
proof -
  obtain gaps where gaps: "transport_gap_events u (job_symbol job) (Some events) = Inr gaps"
    and clear: "\<forall>i \<in> set (out_intervals res). clear_of (set gaps) i"
    using reconstruct_ok [OF run reg] ledger by auto
  let ?rows = "gap_rows (job_symbol job) events"
  have rows: "(t, g, s, w) \<in> set ?rows \<longleftrightarrow> (\<exists>e \<in> set gaps. gap_effective_ns e = t \<and> gap_id e = g \<and>
      gap_state_value (gap_state e) = s \<and> detail e = w)" for t g s w
    using ledger_rows [OF gaps] events by blast
  obtain x where x: "x \<in> set (out_intervals res)" "v = (valid_from_ns x, valid_to_ns x)"
    using v by (auto simp: spans_def)
  have cx: "clear_of (set gaps) x" using clear x(1) by blast
  have d: "\<forall>e \<in> set events. detail e \<noteq> continues_text" using events by blast
  obtain j where "from_gap ?rows j \<and> fst j \<le> fst i \<and> snd i \<le> snd j \<or>
    (\<exists>g why. (fst j, g, ''OPEN'', why) \<in> set ?rows \<and> fst j \<le> fst i \<and> (\<forall>t \<in> closes ?rows g. t \<le> fst j))"
    using explicit_invalid_from_gap [OF i d] by blast
  then show ?thesis
  proof
    assume j: "from_gap ?rows j \<and> fst j \<le> fst i \<and> snd i \<le> snd j"
    then obtain g w where "(fst j, g, ''OPEN'', w) \<in> set ?rows" "\<forall>t \<in> closes ?rows g. t \<le> fst j \<or> snd j \<le> t"
      by (auto simp: from_gap_def)
    from clear_interval_disjoint [OF rows this cx] show ?thesis using j x(2) by auto
  next
    assume "\<exists>g why. (fst j, g, ''OPEN'', why) \<in> set ?rows \<and> fst j \<le> fst i \<and> (\<forall>t \<in> closes ?rows g. t \<le> fst j)"
    then obtain g w where g: "(fst j, g, ''OPEN'', w) \<in> set ?rows" "fst j \<le> fst i"
      "\<forall>t \<in> closes ?rows g. t \<le> fst j \<or> valid_from_ns x + 1 \<le> t" by blast
    from clear_interval_disjoint [OF rows g(1,3) cx] show ?thesis using g(2) x(2) by auto
  qed
qed

lemma extension_no_conflict:
  assumes "\<forall>v \<in> set valid. \<forall>i \<in> set invalid. snd v \<le> fst i \<or> snd i \<le> fst v"
  shows "stamps valid \<inter> stamps (extend_invalid_until_valid invalid valid we) = {}"
proof (rule equals0I)
  fix t assume t: "t \<in> stamps valid \<inter> stamps (extend_invalid_until_valid invalid valid we)"
  then obtain s e s' e' where i: "(s, e) \<in> set invalid" "extend_one (sort valid) we (s, e) = (s', e')"
    "s' \<le> t" "t < e'"
    by (auto simp: in_stamps_iff extend_invalid_until_valid_def)
  have ext: "s' = s" "{e..<e'} \<inter> stamps valid = {}" using extend_one_gap [OF i(2)] by auto
  obtain p q where v: "(p, q) \<in> set valid" "p \<le> t" "t < q" using t by (auto simp: in_stamps_iff)
  have "q \<le> s \<or> e \<le> p" using assms v(1) i(1) by fastforce
  then have "t \<in> {e..<e'}" using v i(3,4) ext(1) by auto
  then show False using ext(2) t by auto
qed

section \<open>The verdict\<close>

lemma check_symbol_grows:
  assumes "check_symbol c d ws we ledger files st s = Inr st'"
  shows "(missing st' = [] \<longrightarrow> missing st = []) \<and> (rejected st' = [] \<longrightarrow> rejected st = []) \<and>
    (missing st' = [] \<and> rejected st' = [] \<longrightarrow>
      (\<exists>lines valid. sf_validity (files s) = Some lines \<and> sf_checkpoint (files s) \<noteq> None \<and>
         validate_validity d lines = Inr valid \<and>
         \<not> below_contract (symbol_coverage valid
            (extend_invalid_until_valid (explicit_invalid_intervals ledger s ws we) valid we) ws we)))"
  using assms by (auto simp: check_symbol_def rbind_Inr_iff Let_def split: option.splits if_splits)

lemma check_symbols_sound:
  assumes "fold_result (check_symbol c d ws we ledger files) st symbols = Inr st'"
    and "missing st' = []" and "rejected st' = []"
  shows "missing st = [] \<and> rejected st = [] \<and> (\<forall>s \<in> set symbols.
      \<exists>lines valid. sf_validity (files s) = Some lines \<and> sf_checkpoint (files s) \<noteq> None \<and>
         validate_validity d lines = Inr valid \<and>
         \<not> below_contract (symbol_coverage valid
            (extend_invalid_until_valid (explicit_invalid_intervals ledger s ws we) valid we) ws we))"
  using assms
proof (induction symbols arbitrary: st)
  case (Cons s symbols)
  then obtain st1 where st1: "check_symbol c d ws we ledger files st s = Inr st1"
    "fold_result (check_symbol c d ws we ledger files) st1 symbols = Inr st'"
    by (auto simp: rbind_Inr_iff)
  from Cons.IH [OF st1(2) Cons.prems(2,3)] check_symbol_grows [OF st1(1)] show ?case by simp
qed simp

lemma within_contract_iff:
  assumes "ws < we"
  shows "\<not> below_contract (symbol_coverage valid invalid ws we) \<longleftrightarrow>
    999 * (we - ws) \<le> 1000 * int (card (covered valid ws we)) \<and>
    (\<forall>t. ws \<le> t \<and> t < we \<longrightarrow> (t \<in> stamps valid \<longleftrightarrow> t \<notin> stamps invalid))"
proof -
  have full: "(we - ws) - union_duration (valid @ invalid) ws we = 0 \<longleftrightarrow>
      {ws..<we} \<subseteq> stamps valid \<union> stamps invalid"
    using ns.dur_full_iff [of ws we "valid @ invalid"] assms by auto
  have none: "intersection_duration valid invalid ws we = 0 \<longleftrightarrow>
      covered valid ws we \<inter> covered invalid ws we = {}"
    by (rule ns.both_zero_iff)
  have ratio: "union_duration valid ws we * 1000 < (we - ws) * 999 \<longleftrightarrow>
      \<not> 999 * (we - ws) \<le> 1000 * int (card (covered valid ws we))"
    by (auto simp: union_duration_card)
  show ?thesis
    unfolding below_contract_def symbol_coverage_def MINIMUM_L2_VALID_RATIO_PER_MILLE_def
      coverage.simps full none ratio
    unfolding covered_def by auto
qed

section \<open>Properties\<close>

text \<open>What the reconstruction writes, the quality gate reads: the validity rows of a day, as JSON
  lines, pass every check of \<open>_validate_validity\<close> and give exactly the intervals of the run.\<close>

lemma written_validity_accepted:
  assumes "reconstruct_run u job inp = Inr res" and "regular_day u job inp"
  shows "validate_validity (job_date job) (map (Some \<circ> validity_json) (out_intervals res)) =
    Inr (spans (out_intervals res))"
proof -
  note r = reconstruct_ok [OF assms]
  have kept: "kept (out_intervals res) = out_intervals res" using r by simp
  have pos: "\<forall>i \<in> set (kept (out_intervals res)). valid_from_ns i < valid_to_ns i" by (simp add: kept_def)
  have "ordered_until (midnight_ns (job_date job)) (out_intervals res) (midnight_ns (job_date job + 1))"
    using r by blast
  then show ?thesis
    using pos unfolding ordered_until_def kept spans_def by (intro validity_roundtrip) auto
qed

text \<open>The two halves of the pipeline agree about gaps: for a regular day, the valid intervals of
  the reconstruction and the invalid intervals the quality gate derives from the same gap ledger,
  extended to the next recovery, share no nanosecond, so the conflicting time is zero. The ledger's
  events must have no affected-from time of zero and none may be a gap that continues into the next
  day, whose end the gate moves one nanosecond further.\<close>

lemma coverage_has_no_conflict:
  assumes "reconstruct_run u job inp = Inr res" and "regular_day u job inp"
    and "in_gaps inp = Some events"
    and "\<forall>e \<in> set events. affected_from_realtime_ns e \<noteq> Some 0 \<and> detail e \<noteq> continues_text"
  shows "conflicting_ns (symbol_coverage (spans (out_intervals res))
    (extend_invalid_until_valid (explicit_invalid_intervals (Some events) (job_symbol job) ws we)
       (spans (out_intervals res)) we) ws we) = 0"
proof -
  have "stamps (spans (out_intervals res)) \<inter> stamps (extend_invalid_until_valid
      (explicit_invalid_intervals (Some events) (job_symbol job) ws we) (spans (out_intervals res)) we) = {}"
    by (rule extension_no_conflict) (use gaps_never_conflict [OF assms] in blast)
  then show ?thesis
    unfolding symbol_coverage_def by (auto simp: ns.both_zero_iff covered_def)
qed

text \<open>C8. A processed day meets its contract: when \<open>finalize_day\<close> writes \<open>_PROCESSED.json\<close>, the day was normalized; the
  symbols are 60 distinct ones and exactly the \<open>expected_symbols\<close> of the marker, the sealed universe; the window is the
  collection window of the marker (the whole day where the marker names none) and lies in the UTC day; and each symbol
  has validity rows that pass the reader, such that every nanosecond of the window is either valid or explicitly invalid
  and never both, and at least 999 of 1000 nanoseconds are valid.\<close>

theorem processed_day_contract:
  assumes "finalize_day c d symbols normalized ledger files = Inr (Processed cov)"
  shows "distinct symbols \<and> length symbols = 60 \<and> (\<exists>marker expected ws we. normalized = Some marker \<and>
    authoritative_universe marker = Inr expected \<and> set symbols = set expected \<and>
    get_int_default marker ''collection_window_start_ns'' (midnight_ns d) = Inr ws \<and>
    get_int_default marker ''collection_window_end_ns'' (midnight_ns (d + 1)) = Inr we \<and>
    midnight_ns d \<le> ws \<and> ws < we \<and> we \<le> midnight_ns (d + 1) \<and> (\<forall>s \<in> set symbols. \<exists>lines valid invalid.
      sf_validity (files s) = Some lines \<and> validate_validity d lines = Inr valid \<and>
      invalid = extend_invalid_until_valid (explicit_invalid_intervals ledger s ws we) valid we \<and>
      999 * (we - ws) \<le> 1000 * int (card (covered valid ws we)) \<and>
      (\<forall>t. ws \<le> t \<and> t < we \<longrightarrow> (t \<in> stamps valid \<longleftrightarrow> t \<notin> stamps invalid))))"
proof -
  have tomorrow: "midnight_ns (d + 1) = midnight_ns d + ns_per_day" by (simp add: midnight_ns_def algebra_simps)
  obtain marker expected ws we st where marker: "normalized = Some marker"
    and universe: "authoritative_universe marker = Inr expected" and same: "sort symbols = sort expected"
    and bounds: "get_int_default marker ''collection_window_start_ns'' (midnight_ns d) = Inr ws"
      "get_int_default marker ''collection_window_end_ns'' (midnight_ns d + ns_per_day) = Inr we"
    and window: "midnight_ns d \<le> ws" "ws < we" "we \<le> midnight_ns d + ns_per_day"
    and fold: "fold_result (check_symbol c d ws we ledger files)
        \<lparr>missing = [], l2_coverage = [], rejected = []\<rparr> symbols = Inr st"
    and ok: "missing st = []" "rejected st = []"
    using assms by (auto simp: finalize_day_def rbind_Inr_iff split: option.splits if_splits)
  obtain vs where vs: "length vs = 60" "card (set vs) = 60" "\<forall>v \<in> set vs. \<exists>s. v = JStr s"
    "expected = map (\<lambda>v. case v of JStr s \<Rightarrow> s | _ \<Rightarrow> []) vs"
    using universe by (auto simp: authoritative_universe_def list_ex_iff split: json.splits if_splits)
  have "distinct vs" using vs(1,2) by (simp add: card_distinct)
  moreover have "inj_on (\<lambda>v. case v of JStr s \<Rightarrow> s | _ \<Rightarrow> []) (set vs)"
    using vs(3) by (intro inj_on_inverseI [where g = JStr]) auto
  ultimately have "distinct expected" unfolding vs(4) by (simp add: distinct_map)
  then have "distinct symbols \<and> length symbols = 60"
    using same vs(1,4) by (metis distinct_sort length_map length_sort)
  moreover have "set symbols = set expected" using same by (metis set_sort)
  ultimately show ?thesis
    using marker universe bounds window check_symbols_sound [OF fold ok] within_contract_iff [OF window(2)]
    unfolding tomorrow by (intro conjI exI [of _ marker] exI [of _ expected] exI [of _ ws] exI [of _ we]) auto
qed

text \<open>The example day of the reconstruction, through the gate; and a full day for 60 symbols.\<close>

lemma written_validity_accepted_witness:
  "\<exists>res. reconstruct_run ascii ex_job ex_inputs = Inr res \<and>
     validate_validity 0 (map (Some \<circ> validity_json) (out_intervals res)) = Inr [(150, 300)]"
proof -
  obtain res where res: "reconstruct_run ascii ex_job ex_inputs = Inr res"
    and i: "out_intervals res = [interval 150 300 ''c1'' ''transport_gap'']"
    using ex_day_run by auto
  from written_validity_accepted [OF res ex_day_regular] res i show ?thesis
    by (auto simp: ex_job_def spans_def interval_def)
qed

lemma coverage_has_no_conflict_witness:
  "\<exists>res. reconstruct_run ascii ex_job ex_inputs = Inr res \<and>
    conflicting_ns (symbol_coverage (spans (out_intervals res))
      (extend_invalid_until_valid (explicit_invalid_intervals (Some [ex_gap CLOSED 350, ex_gap OPEN 300]) ''BTC'' 0 1000)
         (spans (out_intervals res)) 1000) 0 1000) = 0"
proof -
  obtain res where res: "reconstruct_run ascii ex_job ex_inputs = Inr res" using ex_day_run by auto
  have gaps: "in_gaps ex_inputs = Some [ex_gap CLOSED 350, ex_gap OPEN 300]" by (simp add: ex_inputs_def)
  have "\<forall>e \<in> set [ex_gap CLOSED 350, ex_gap OPEN 300]. affected_from_realtime_ns e \<noteq> Some 0 \<and> detail e \<noteq> continues_text"
    by (simp add: ex_gap_def continues_text_def)
  from coverage_has_no_conflict [OF res ex_day_regular gaps this, of 0 1000] res show ?thesis
    by (auto simp: ex_job_def)
qed

definition ex_universe :: "string list" where
  "ex_universe = ex_symbols ''ABCDEF'' ''0123456789''"

definition ex_files :: "string \<Rightarrow> symbol_files" where
  "ex_files s = \<lparr>sf_validity = Some [Some (validity_json (interval 0 1000 ''c1'' ''utc_day_end''))],
     sf_checkpoint = Some \<lparr>lc_collector_id = ''c'', lc_utc_date = 0, lc_exchange_symbol = s,
       lc_state = UNANCHORED, lc_connection_id = None, lc_previous_update_id = None,
       valid_through_ns = None, lc_bids = [], lc_asks = [], anchored_books = []\<rparr>\<rparr>"

definition ex_marker :: "(string \<times> json) list" where
  "ex_marker = [(''expected_symbols'', JList (map JStr ex_universe)),
     (''collection_window_start_ns'', JInt 0), (''collection_window_end_ns'', JInt 1000)]"

lemma ex_validity: "validate_validity 0 [Some (validity_json (interval 0 1000 ''c1'' ''utc_day_end''))] = Inr [(0, 1000)]"
  using validity_roundtrip [of "[interval 0 1000 ''c1'' ''utc_day_end'']" 0]
  by (simp add: interval_def midnight_ns_def ns_per_day_def)

lemma ex_check: "\<exists>cov. check_symbol ''c'' 0 0 1000 None ex_files st s = Inr (st\<lparr>l2_coverage := cov\<rparr>)"
proof -
  have "\<not> below_contract (symbol_coverage [(0, 1000)] [] 0 1000)"
    by (simp add: within_contract_iff)
  then have "check_symbol ''c'' 0 0 1000 None ex_files st s =
      Inr (st\<lparr>l2_coverage := dict_set s (symbol_coverage [(0, 1000)] [] 0 1000) (l2_coverage st)\<rparr>)"
    by (simp add: check_symbol_def ex_files_def ex_validity validate_l2_checkpoint_def Let_def
        explicit_invalid_intervals_def extend_invalid_until_valid_def)
  then show ?thesis by blast
qed

lemma ex_checks:
  "\<exists>cov. fold_result (check_symbol ''c'' 0 0 1000 None ex_files) st symbols = Inr (st\<lparr>l2_coverage := cov\<rparr>)"
proof (induction symbols arbitrary: st)
  case Nil
  have "st = st\<lparr>l2_coverage := l2_coverage st\<rparr>" by simp
  then show ?case by (metis fold_result.simps(1))
next
  case (Cons s symbols)
  obtain cov where "check_symbol ''c'' 0 0 1000 None ex_files st s = Inr (st\<lparr>l2_coverage := cov\<rparr>)"
    using ex_check by blast
  then show ?case using Cons.IH [of "st\<lparr>l2_coverage := cov\<rparr>"] by simp
qed

theorem processed_day_contract_witness:
  "(\<exists>cov. finalize_day ''c'' 0 ex_universe (Some ex_marker) None ex_files = Inr (Processed cov)) \<and>
   length ex_universe = 60 \<and> (\<exists>expected. authoritative_universe ex_marker = Inr expected \<and> set ex_universe = set expected)"
proof -
  have d: "distinct ex_universe" "length ex_universe = 60" by code_simp+
  have "distinct (map JStr ex_universe)" using d(1) by (simp add: distinct_map inj_on_def)
  from distinct_card [OF this] have "card (JStr ` set ex_universe) = 60" using d(2) by simp
  moreover have "map ((\<lambda>v. case v of JStr s \<Rightarrow> s | _ \<Rightarrow> []) \<circ> JStr) ex_universe = ex_universe"
    by (simp add: comp_def)
  ultimately have "authoritative_universe ex_marker = Inr ex_universe"
    using d(2) by (simp add: authoritative_universe_def ex_marker_def jget_def list_ex_iff)
  moreover have "midnight_ns 0 = 0" by (simp add: midnight_ns_def)
  moreover obtain cov where "fold_result (check_symbol ''c'' 0 0 1000 None ex_files)
      \<lparr>missing = [], l2_coverage = [], rejected = []\<rparr> ex_universe =
      Inr (\<lparr>missing = [], l2_coverage = [], rejected = []\<rparr>\<lparr>l2_coverage := cov\<rparr>)"
    using ex_checks by blast
  moreover have "get_int_default ex_marker ''collection_window_start_ns'' k = Inr 0"
    "get_int_default ex_marker ''collection_window_end_ns'' k = Inr 1000" for k
    by (simp_all add: get_int_default_def ex_marker_def py_int_def)
  ultimately have "finalize_day ''c'' 0 ex_universe (Some ex_marker) None ex_files = Inr (Processed cov)"
    by (simp add: finalize_day_def ns_per_day_def)
  with processed_day_contract [OF this] show ?thesis by blast
qed

section \<open>A gap over midnight\<close>

text \<open>
  The hypothesis on continuing gaps cannot be dropped. At midnight the journal closes the day's part of an open gap one
  nanosecond before the day ends. The reconstruction takes the authority back at that event, the gate extends the invalid
  interval past it, and the last nanosecond of the day is both.
\<close>

text \<open>The events that the readers take for the depth of a symbol.\<close>

definition affects :: "string \<Rightarrow> gap_event \<Rightarrow> bool" where
  "affects symbol e \<longleftrightarrow> \<not> (exchange_symbols e \<noteq> [] \<and> symbol \<notin> set (exchange_symbols e)) \<and>
     \<not> (stream_types e \<noteq> [] \<and> DEPTH \<notin> set (stream_types e))"

lemma in_gap_rows:
  "(t, g, s, w) \<in> set (gap_rows symbol events) \<longleftrightarrow> (\<exists>e \<in> set events. affects symbol e \<and>
     quality_effective_ns e = t \<and> gap_id e = g \<and> gap_state_value (gap_state e) = s \<and> detail e = w)"
  by (auto simp: gap_rows_def affects_def)

lemma match_gap_keeps: "i \<in> set (snd s) \<Longrightarrow> i \<in> set (snd (fold match_gap rows s))"
proof (induction rows arbitrary: s)
  case (Cons r rows)
  have "i \<in> set (snd (match_gap r s))"
    using Cons.prems by (auto simp: match_gap_def split: prod.splits option.splits)
  then show ?case using Cons.IH by simp
qed simp

lemma match_gap_open:
  assumes "(t, g, ''OPEN'', w) \<in> set rows" "\<forall>t w. (t, g, ''CLOSED'', w) \<notin> set rows"
  shows "\<exists>start w. dict_get (fst (fold match_gap rows s)) g = Some start \<and> (start, g, ''OPEN'', w) \<in> set rows"
  using assms
proof (induction rows rule: rev_induct)
  case (snoc r rows)
  obtain t' g' s' w' where r: "r = (t', g', s', w')" by (cases r)
  obtain opened ivs where f: "fold match_gap rows s = (opened, ivs)" by fastforce
  show ?case
  proof (cases "g' = g \<and> s' = ''OPEN''")
    case True
    then have "match_gap r (opened, ivs) = (dict_set g t' opened, ivs)" by (simp add: r match_gap_def)
    then have "dict_get (fst (fold match_gap (rows @ [r]) s)) g = Some t'" by (simp add: f)
    moreover have "(t', g, ''OPEN'', w') \<in> set (rows @ [r])" using True by (simp add: r)
    ultimately show ?thesis by blast
  next
    case False
    have "g' = g \<Longrightarrow> s' \<noteq> ''CLOSED''" using snoc.prems(2) by (auto simp: r)
    then have "dict_get (fst (match_gap r (opened, ivs))) g = dict_get opened g"
      using False by (auto simp: r match_gap_def split: option.splits)
    moreover have "(t, g, ''OPEN'', w) \<in> set rows" using snoc.prems(1) False by (auto simp: r)
    ultimately show ?thesis using snoc by (auto simp: f)
  qed
qed simp

text \<open>The gate's interval of a gap that continues over the end of the window.\<close>

lemma continued_gap_interval:
  assumes "e \<in> set events" "affects symbol e" "gap_state e = CLOSED" "detail e = continues_text"
    and "start_event \<in> set events" "affects symbol start_event" "gap_state start_event = OPEN" "gap_id start_event = gap_id e"
    and "quality_effective_ns start_event < observed_at_realtime_ns e"
    and once: "\<forall>h \<in> set events. gap_state h = CLOSED \<and> gap_id h = gap_id e \<longrightarrow> h = e"
    and "ws < we" "observed_at_realtime_ns e = we - 1"
  shows "we - 1 \<in> stamps (explicit_invalid_intervals (Some events) symbol ws we)"
proof -
  let ?rows = "gap_rows symbol events" and ?t = "observed_at_realtime_ns e"
  let ?row = "(?t, gap_id e, ''CLOSED'', continues_text)"
  have eff: "quality_effective_ns e = ?t" using assms(3) by (simp add: quality_effective_ns_def)
  have "?row \<in> set ?rows" unfolding in_gap_rows using assms(1-4) eff by (intro bexI [of _ e]) auto
  then obtain pre post where rows: "?rows = pre @ ?row # post" "?row \<notin> set pre" by (meson split_list_first)
  have sorted: "sorted ?rows" by (simp add: gap_rows_def)
  have "(quality_effective_ns start_event, gap_id e, ''OPEN'', detail start_event) \<in> set ?rows"
    unfolding in_gap_rows using assms(5-8) by (intro bexI [of _ start_event]) auto
  moreover have "\<forall>x \<in> set post. ?t \<le> fst x" using sorted by (auto simp: rows sorted_append less_eq_prod_def)
  ultimately have op: "(quality_effective_ns start_event, gap_id e, ''OPEN'', detail start_event) \<in> set pre"
    using assms(9) by (force simp: rows)
  have state: "gap_state_value s = ''CLOSED'' \<longleftrightarrow> s = CLOSED" for s by (cases s) simp_all
  have "(t, gap_id e, ''CLOSED'', w) \<notin> set pre" for t w
  proof
    assume x: "(t, gap_id e, ''CLOSED'', w) \<in> set pre"
    then have "(t, gap_id e, ''CLOSED'', w) \<in> set ?rows" by (simp add: rows)
    then have "t = ?t \<and> w = continues_text"
      unfolding in_gap_rows state using once eff assms(4) by auto
    then show False using x rows(2) by simp
  qed
  then obtain start w where s: "dict_get (fst (fold match_gap pre ([], []))) (gap_id e) = Some start"
    "(start, gap_id e, ''OPEN'', w) \<in> set pre"
    using match_gap_open [OF op] by blast
  have before: "start \<le> ?t" using sorted s(2) by (fastforce simp: rows sorted_append less_eq_prod_def)
  obtain opened ivs where f: "fold match_gap ?rows ([], []) = (opened, ivs)" by fastforce
  have "(start, ?t + 1) \<in> set (snd (match_gap ?row (fold match_gap pre ([], []))))"
    using s(1) by (auto simp: match_gap_def split: prod.splits)
  then have "(start, ?t + 1) \<in> set ivs"
    using match_gap_keeps [of _ "match_gap ?row (fold match_gap pre ([], []))" post] f by (simp add: rows)
  then have "we - 1 \<in> stamps (ivs @ map (\<lambda>(_, start). (start, we)) opened)"
    unfolding in_stamps_iff using before assms(12) by (intro bexI [of _ "(start, ?t + 1)"]) auto
  then show ?thesis using assms(11) by (simp add: explicit_invalid_intervals_def f covered_def)
qed

lemma extension_keeps: "stamps xs \<subseteq> stamps (extend_invalid_until_valid xs valid we)" if "\<forall>(s, e) \<in> set xs. e \<le> we"
proof
  fix t assume "t \<in> stamps xs"
  then obtain s e where x: "(s, e) \<in> set xs" "s \<le> t" "t < e" by (auto simp: in_stamps_iff)
  obtain s' e' where y: "extend_one (sort valid) we (s, e) = (s', e')" by fastforce
  have "e \<le> we" using that x(1) by auto
  then have "s' = s \<and> e \<le> e'" using extend_one_spec [OF y] by (auto split: if_splits)
  moreover have "(s', e') \<in> set (extend_invalid_until_valid xs valid we)"
    using x(1) y by (force simp: extend_invalid_until_valid_def)
  ultimately show "t \<in> stamps (extend_invalid_until_valid xs valid we)" using x unfolding in_stamps_iff by (intro bexI [of _ "(s', e')"]) auto
qed

text \<open>The reconstruction's side: the last gap of the day, closed one nanosecond before its end.\<close>

lemma day_loop_last_gap:
  assumes "\<forall>row \<in> set rows. row_received_ns row < gap_effective_ns e" "day_loop rows gaps st = Inr st'"
  shows "day_loop rows (gaps @ [e]) st = Inr (handle_gap e st')"
  using assms
proof (induction rows arbitrary: gaps st)
  case (Cons row rows)
  let ?P = "\<lambda>g. gap_effective_ns g \<le> row_received_ns row"
  have "takeWhile ?P (gaps @ [e]) = takeWhile ?P gaps" using Cons.prems(1) by (auto simp: takeWhile_append takeWhile_eq_all_conv [THEN iffD2])
  moreover have "length (takeWhile ?P gaps) \<le> length gaps" by (rule length_takeWhile_le)
  ultimately show ?case using Cons by (auto simp: Let_def rbind_Inr_iff)
qed simp

lemma last_nanosecond_valid:
  assumes "gap_state e = CLOSED" "observed_at_realtime_ns e = midnight_ns (job_date job + 1) - 1"
    and "active_gaps st = {gap_id e}" "last_valid_connection st = Some c" "dict_get (books st) c = Some b" "cb_state b = VALID"
    and "finish_day job (handle_gap e st) = Inr res"
  shows "midnight_ns (job_date job + 1) - 1 \<in> stamps (spans (out_intervals res))"
proof -
  let ?n = "midnight_ns (job_date job + 1)"
  have "handle_gap e st = st\<lparr>active_gaps := {}, authority := Some c, valid_from := Some (?n - 1)\<rparr>"
    using assms(1-6) by (simp add: handle_gap_def Let_def)
  then have "interval (?n - 1) ?n c ''utc_day_end'' \<in> set (out_intervals res)"
    using assms(7) by (auto simp: finish_day_def rbind_Inr_iff Let_def close_interval_def interval_def)
  then show ?thesis
    unfolding in_stamps_iff spans_def by (force simp: interval_def)
qed

text \<open>C9. The hypothesis on continuing gaps is needed, on every day: take a day whose last gap event \<open>e\<close> is the half that the
  journal closes at midnight (one nanosecond before the day ends, with the detail of a continuing gap), after the
  last row; at that point no other gap is active and the last connection that was VALID still has a VALID book (it
  recovered while the gap was open). If the gap's OPEN event is in the ledger of the day and no other event closes it, the
  reconstruction makes the last nanosecond of the day valid and the quality gate makes it invalid: the conflicting time is not
  zero for any collection window that ends at midnight, so the gate rejects the symbol.\<close>

theorem continuing_gap_conflicts:
  assumes "gap_state e = CLOSED" "detail e = continues_text" "observed_at_realtime_ns e = midnight_ns (job_date job + 1) - 1"
    and "e \<in> set events" "affects (job_symbol job) e"
    and "start_event \<in> set events" "affects (job_symbol job) start_event" "gap_state start_event = OPEN" "gap_id start_event = gap_id e"
    and "quality_effective_ns start_event < observed_at_realtime_ns e"
    and "\<forall>h \<in> set events. gap_state h = CLOSED \<and> gap_id h = gap_id e \<longrightarrow> h = e"
    and "\<forall>row \<in> set rows. row_received_ns row < gap_effective_ns e"
    and "day_loop rows gaps st0 = Inr st"
    and "active_gaps st = {gap_id e}" "last_valid_connection st = Some c" "dict_get (books st) c = Some b" "cb_state b = VALID"
    and "rbind (day_loop rows (gaps @ [e]) st0) (finish_day job) = Inr res"
    and "ws < midnight_ns (job_date job + 1)"
  defines "we \<equiv> midnight_ns (job_date job + 1)" and "valid \<equiv> spans (out_intervals res)"
  defines "verdict \<equiv> symbol_coverage valid
    (extend_invalid_until_valid (explicit_invalid_intervals (Some events) (job_symbol job) ws we) valid we) ws we"
  shows "conflicting_ns verdict \<noteq> 0 \<and> below_contract verdict"
proof -
  let ?invalid = "explicit_invalid_intervals (Some events) (job_symbol job) ws we"
  have w: "ws < we" "observed_at_realtime_ns e = we - 1" using assms(3,19) by (simp_all add: we_def)
  have "finish_day job (handle_gap e st) = Inr res"
    using assms(18) day_loop_last_gap [OF assms(12,13)] by simp
  from last_nanosecond_valid [OF assms(1,3,14-17) this]
  have valid: "we - 1 \<in> stamps valid" by (simp add: we_def valid_def)
  have "\<forall>(s, e) \<in> set ?invalid. e \<le> we" by (auto simp: explicit_invalid_intervals_def clip_def split: prod.splits)
  from extension_keeps [OF this] continued_gap_interval [OF assms(4,5,1,2,6-11) w]
  have "we - 1 \<in> stamps (extend_invalid_until_valid ?invalid valid we)" by blast
  then have "covered valid ws we \<inter> covered (extend_invalid_until_valid ?invalid valid we) ws we \<noteq> {}"
    using valid w(1) by (auto simp: covered_def)
  then show ?thesis by (simp add: verdict_def symbol_coverage_def below_contract_def ns.both_zero_iff)
qed

text \<open>The gap opens at 50, the book turns VALID at 150 while it is open, and the gap continues over midnight.\<close>

definition ex_midnight :: int where "ex_midnight = 86400000000000"

definition ex_continued :: gap_event where
  "ex_continued = (ex_gap CLOSED (ex_midnight - 1))\<lparr>detail := continues_text\<rparr>"

lemma ex_continued_fields: "gap_state ex_continued = CLOSED" "detail ex_continued = continues_text"
  "observed_at_realtime_ns ex_continued = 86399999999999" "gap_id ex_continued = ''gap-0001''"
  "gap_effective_ns ex_continued = 86399999999999" "affects s ex_continued" "affects s (ex_gap z t)"
  "quality_effective_ns (ex_gap OPEN t) = t"
  by (simp_all add: ex_continued_def ex_gap_def ex_midnight_def gap_effective_ns_def affects_def quality_effective_ns_def)

lemma ex_over_midnight_run:
  "\<exists>st b. day_loop (in_rows ex_inputs) [ex_gap OPEN 50] empty_day = Inr st \<and> active_gaps st = {''gap-0001''} \<and>
     last_valid_connection st = Some ''c1'' \<and> dict_get (books st) ''c1'' = Some b \<and> cb_state b = VALID \<and>
     (\<exists>res. finish_day ex_job (handle_gap ex_continued st) = Inr res)"
  by (simp add: ex_job_def ex_inputs_def midnight_ns_def ns_per_day_def ex_continued_fields
      ex_row_def ex_gap_fields empty_day_def on_row_def ex_streams
      required_def diff_from_row_def snapshot_from_row_def dict_get_def new_book_def diff_identity_def
      book_on_diff_def book_on_snapshot_def book_side_def try_bridge_def locate_snapshot_bridge_def
      span_of_def sequence_continues_def apply_levels_def book_apply_def bridge_result_of_def Let_def
      apply_change_def handle_gap_def close_interval_def interval_def finish_day_def build_checkpoint_def
      validate_l2_checkpoint_def book_invalidate_def cong: rbind_eval_cong)

theorem continuing_gap_conflicts_witness:
  "\<exists>res. rbind (day_loop (in_rows ex_inputs) [ex_gap OPEN 50, ex_continued] empty_day) (finish_day ex_job) = Inr res \<and>
     below_contract (symbol_coverage (spans (out_intervals res))
       (extend_invalid_until_valid (explicit_invalid_intervals (Some [ex_gap OPEN 50, ex_continued]) ''BTC'' 0 ex_midnight)
          (spans (out_intervals res)) ex_midnight) 0 ex_midnight)"
proof -
  obtain st b res where st: "day_loop (in_rows ex_inputs) [ex_gap OPEN 50] empty_day = Inr st" "active_gaps st = {''gap-0001''}"
    "last_valid_connection st = Some ''c1''" "dict_get (books st) ''c1'' = Some b" "cb_state b = VALID"
    and res: "finish_day ex_job (handle_gap ex_continued st) = Inr res"
    using ex_over_midnight_run that by (elim exE conjE)
  have day: "midnight_ns (job_date ex_job + 1) = ex_midnight" "job_symbol ex_job = ''BTC''"
    by (simp_all add: ex_job_def ex_midnight_def midnight_ns_def ns_per_day_def)
  have rows: "\<forall>row \<in> set (in_rows ex_inputs). row_received_ns row < gap_effective_ns ex_continued"
    by (simp add: ex_inputs_def ex_row_def ex_continued_fields)
  have run: "rbind (day_loop (in_rows ex_inputs) ([ex_gap OPEN 50] @ [ex_continued]) empty_day) (finish_day ex_job) = Inr res"
    using day_loop_last_gap [OF rows st(1)] res by simp
  let ?events = "[ex_gap OPEN 50, ex_continued]"
  have e: "observed_at_realtime_ns ex_continued = midnight_ns (job_date ex_job + 1) - 1" "ex_continued \<in> set ?events"
    "ex_gap OPEN 50 \<in> set ?events" "gap_state (ex_gap OPEN 50) = OPEN" "gap_id (ex_gap OPEN 50) = gap_id ex_continued"
    "quality_effective_ns (ex_gap OPEN 50) < observed_at_realtime_ns ex_continued" "0 < midnight_ns (job_date ex_job + 1)"
    by (simp_all add: day ex_continued_fields ex_gap_fields) (simp_all add: ex_midnight_def)
  have once: "\<forall>h \<in> set ?events. gap_state h = CLOSED \<and> gap_id h = gap_id ex_continued \<longrightarrow> h = ex_continued"
    by (simp add: ex_gap_fields)
  have active: "active_gaps st = {gap_id ex_continued}" using st(2) by (simp add: ex_continued_fields)
  note c = continuing_gap_conflicts [OF ex_continued_fields(1,2) e(1,2) ex_continued_fields(6) e(3) ex_continued_fields(7)
      e(4-6) once rows st(1) active st(3-5) run e(7)]
  show ?thesis using c [THEN conjunct2] run unfolding day by (intro exI [of _ res] conjI) simp_all
qed

end
