(* ===== verification/Parsing.thy ===== *)
theory Parsing
  imports L2_Day
begin

text \<open>
  The parser of raw events, \<open>src/miry/pipeline/parsing.py\<close>: the JSON payload of a stream to the row
  of the typed schema, or an error. The payload is the value \<open>orjson.loads\<close> returns (\<open>None\<close> when it
  raises). Parameters: the SHA-256 of the canonical JSON, the Unicode \<open>upper\<close>, and the text Python
  gives a list or a dict, which is never a number.
\<close>

section \<open>Streams\<close>

definition TYPED_STREAMS :: "stream_type list" where
  "TYPED_STREAMS = [DEPTH, RPI_DEPTH, DEPTH_SNAPSHOT, RPI_DEPTH_SNAPSHOT, BOOK_TICKER, AGG_TRADE, TRADE,
     MARK_PRICE, FORCE_ORDER, CONTRACT_INFO, OPEN_INTEREST, CLOCK_SAMPLE]"

definition OBJECT_STREAMS :: "stream_type list" where
  "OBJECT_STREAMS = [EXCHANGE_INFO, DAILY_KLINES, LIQUIDITY_DEPTH, FORMAL_COLLECTION_STARTED,
     UNIVERSE_DECISION, WS_CONTROL]"

section \<open>Fields\<close>

type_synonym json_obj = "(string \<times> json) list"

definition require_event :: "json_obj \<Rightarrow> string \<Rightarrow> py_error + unit" where
  "require_event data expected = check (jget data ''e'' = JStr expected) (ValueError ''expected Binance event'')"

text \<open>\<open>data[key]\<close>\<close>

definition item :: "json_obj \<Rightarrow> string \<Rightarrow> py_error + json" where
  "item data k = (case map_of data k of None \<Rightarrow> Inl (KeyError k) | Some v \<Rightarrow> Inr v)"

definition int_field :: "json_obj \<Rightarrow> string \<Rightarrow> py_error + int" where
  "int_field data k = rbind (item data k) (\<lambda>v.
     case v of JBool _ \<Rightarrow> Inl (ValueError ''must be an integer'') | _ \<Rightarrow> py_int v)"

definition optional_int :: "json_obj \<Rightarrow> string \<Rightarrow> py_error + int option" where
  "optional_int data k =
     (if map_of data k \<noteq> None then rbind (int_field data k) (\<lambda>i. Inr (Some i)) else Inr None)"

definition bool_field :: "json_obj \<Rightarrow> string \<Rightarrow> py_error + bool" where
  "bool_field data k = rbind (item data k) (\<lambda>v.
     case v of JBool b \<Rightarrow> Inr b | _ \<Rightarrow> Inl (ValueError ''must be a boolean''))"

text \<open>The texts \<open>Decimal\<close> reads as an infinity or a NaN.\<close>

definition nonfinite_text :: "string \<Rightarrow> bool" where
  "nonfinite_text text =
     (let (_, body) = split_sign (filter (\<lambda>c. c \<noteq> CHR ''_'') (strip text)); low = map
          (\<lambda>c. if CHR ''A'' \<le> c \<and> c \<le> CHR ''Z'' then char_of ((of_char c :: nat) + 32) else c) body in
      low = ''inf'' \<or> low = ''infinity'' \<or>
      take 3 low = ''nan'' \<and> list_all is_digit (drop 3 low) \<or>
      take 4 low = ''snan'' \<and> list_all is_digit (drop 4 low))"

definition level_decimal :: "bool \<Rightarrow> bool \<Rightarrow> json \<Rightarrow> py_error + string" where
  "level_decimal allow_zero allow_negative raw =
     (case py_str raw of
        None \<Rightarrow> Inl (ValueError ''must be a decimal'')
      | Some text \<Rightarrow>
          if nonfinite_text text then Inl (ValueError ''must be finite'')
          else
            (case parse_decimal text of
               None \<Rightarrow> Inl (ValueError ''must be a decimal'')
             | Some v \<Rightarrow>
                 if dval v < 0 \<and> \<not> allow_negative then Inl (ValueError ''cannot be negative'')
                 else if dval v = 0 \<and> \<not> allow_zero then Inl (ValueError ''must be positive'')
                 else Inr (show_decimal v)))"

text \<open>\<open>_decimal\<close> is the same on \<open>data[key]\<close>; a missing key is a \<open>ValueError\<close> there.\<close>

definition decimal_field :: "bool \<Rightarrow> bool \<Rightarrow> json_obj \<Rightarrow> string \<Rightarrow> py_error + string" where
  "decimal_field allow_zero allow_negative data k =
     (case map_of data k of
        None \<Rightarrow> Inl (ValueError ''must be a decimal'')
      | Some v \<Rightarrow> level_decimal allow_zero allow_negative v)"

definition optional_decimal :: "json_obj \<Rightarrow> string \<Rightarrow> py_error + string option" where
  "optional_decimal data k =
     (if map_of data k \<noteq> None then rbind (decimal_field True False data k) (\<lambda>d. Inr (Some d)) else Inr None)"

definition parse_level :: "json \<Rightarrow> py_error + level" where
  "parse_level v =
     (case v of
        JList (p # q # _) \<Rightarrow>
          rbind (level_decimal False False p) (\<lambda>price.
          rbind (level_decimal True False q) (\<lambda>quantity. Inr (price, quantity)))
      | _ \<Rightarrow> Inl (ValueError ''invalid level''))"

definition levels_field :: "json_obj \<Rightarrow> string \<Rightarrow> py_error + level list" where
  "levels_field data k =
     (case jget data k of JList ls \<Rightarrow> map_result parse_level ls | _ \<Rightarrow> Inl (ValueError ''must be an array''))"

section \<open>Rows\<close>

record raw_row =
  raw_exchange_symbol :: "string option"
  raw_stream_type :: string
  raw_connection_id :: string
  raw_receive_seq :: int
  raw_realtime_ns :: int
  raw_monotonic_ns :: int
  raw_payload :: "json option"
  raw_request_realtime_ns :: "int option"

record typed_row =
  ty_exchange_symbol :: "string option"
  ty_stream :: stream_type
  ty_connection_id :: string
  ty_receive_seq :: int
  ty_app_receive_realtime_ns :: int
  ty_app_receive_monotonic_ns :: int
  ty_request_realtime_ns :: "int option"
  ty_exchange_event_time_ms :: "int option"
  ty_exchange_transaction_time_ms :: "int option"
  ty_payload_hash :: string
  ty_is_duplicate :: bool
  ty_update_id :: "int option"
  ty_first_update :: "int option"
  ty_final_update :: "int option"
  ty_previous_final_update :: "int option"
  ty_last_update_id :: "int option"
  ty_trade_id :: "int option"
  ty_aggregate_trade_id :: "int option"
  ty_first_trade_id :: "int option"
  ty_last_trade_id :: "int option"
  ty_price :: "string option"
  ty_quantity :: "string option"
  ty_non_rpi_quantity :: "string option"
  ty_buyer_is_maker :: "bool option"
  ty_bid_price :: "string option"
  ty_bid_quantity :: "string option"
  ty_ask_price :: "string option"
  ty_ask_quantity :: "string option"
  ty_mark_price :: "string option"
  ty_index_price :: "string option"
  ty_estimated_settle_price :: "string option"
  ty_funding_rate :: "string option"
  ty_next_funding_time_ms :: "int option"
  ty_open_interest :: "string option"
  ty_order_side :: "string option"
  ty_order_type :: "string option"
  ty_time_in_force :: "string option"
  ty_order_status :: "string option"
  ty_average_price :: "string option"
  ty_last_filled_quantity :: "string option"
  ty_accumulated_filled_quantity :: "string option"
  ty_contract_type :: "string option"
  ty_delivery_date_ms :: "int option"
  ty_onboard_date_ms :: "int option"
  ty_contract_status :: "string option"
  ty_bids :: "level list option"
  ty_asks :: "level list option"

text \<open>The parameters of the parser.\<close>

record parse_env =
  env_hash :: "json \<Rightarrow> string"
  env_upper :: "string \<Rightarrow> string"
  env_container_text :: "json \<Rightarrow> string"

definition text_of :: "parse_env \<Rightarrow> json \<Rightarrow> string" where
  "text_of env v = (case py_str v of Some s \<Rightarrow> s | None \<Rightarrow> env_container_text env v)"

text \<open>\<open>str(data["o"].get("s", ""))\<close>, or of \<open>data\<close> itself.\<close>

definition event_symbol :: "parse_env \<Rightarrow> json_obj \<Rightarrow> string" where
  "event_symbol env data =
     (let obj = (case jget data ''o'' of JObj order \<Rightarrow> order | _ \<Rightarrow> data) in
      case map_of obj ''s'' of None \<Rightarrow> [] | Some v \<Rightarrow> text_of env v)"

definition base_row :: "parse_env \<Rightarrow> raw_row \<Rightarrow> stream_type \<Rightarrow> string option \<Rightarrow> json_obj \<Rightarrow> typed_row" where
  "base_row env raw st symbol data = \<lparr>ty_exchange_symbol = symbol, ty_stream = st,
     ty_connection_id = raw_connection_id raw, ty_receive_seq = raw_receive_seq raw,
     ty_app_receive_realtime_ns = raw_realtime_ns raw, ty_app_receive_monotonic_ns = raw_monotonic_ns raw,
     ty_request_realtime_ns = raw_request_realtime_ns raw, ty_exchange_event_time_ms = None,
     ty_exchange_transaction_time_ms = None, ty_payload_hash = env_hash env (JObj data), ty_is_duplicate = False,
     ty_update_id = None, ty_first_update = None, ty_final_update = None, ty_previous_final_update = None,
     ty_last_update_id = None, ty_trade_id = None, ty_aggregate_trade_id = None, ty_first_trade_id = None,
     ty_last_trade_id = None, ty_price = None, ty_quantity = None, ty_non_rpi_quantity = None, ty_buyer_is_maker = None,
     ty_bid_price = None, ty_bid_quantity = None, ty_ask_price = None, ty_ask_quantity = None, ty_mark_price = None,
     ty_index_price = None, ty_estimated_settle_price = None, ty_funding_rate = None, ty_next_funding_time_ms = None,
     ty_open_interest = None, ty_order_side = None, ty_order_type = None, ty_time_in_force = None, ty_order_status = None,
     ty_average_price = None, ty_last_filled_quantity = None, ty_accumulated_filled_quantity = None,
     ty_contract_type = None, ty_delivery_date_ms = None, ty_onboard_date_ms = None, ty_contract_status = None,
     ty_bids = None, ty_asks = None\<rparr>"

section \<open>One stream each\<close>

definition parse_depth :: "json_obj \<Rightarrow> typed_row \<Rightarrow> py_error + typed_row" where
  "parse_depth data row =
     rbind (require_event data ''depthUpdate'') (\<lambda>_.
     rbind (int_field data ''E'') (\<lambda>e. rbind (int_field data ''T'') (\<lambda>t.
     rbind (int_field data ''U'') (\<lambda>first. rbind (int_field data ''u'') (\<lambda>final.
     rbind (int_field data ''pu'') (\<lambda>previous.
     rbind (levels_field data ''b'') (\<lambda>b. rbind (levels_field data ''a'') (\<lambda>a.
     Inr (row\<lparr>ty_exchange_event_time_ms := Some e, ty_exchange_transaction_time_ms := Some t,
       ty_first_update := Some first, ty_final_update := Some final, ty_previous_final_update := Some previous,
       ty_bids := Some b, ty_asks := Some a\<rparr>)))))))))"

definition parse_snapshot :: "json_obj \<Rightarrow> typed_row \<Rightarrow> py_error + typed_row" where
  "parse_snapshot data row =
     rbind (optional_int data ''E'') (\<lambda>e. rbind (optional_int data ''T'') (\<lambda>t.
     rbind (int_field data ''lastUpdateId'') (\<lambda>l.
     rbind (levels_field data ''bids'') (\<lambda>b. rbind (levels_field data ''asks'') (\<lambda>a.
     Inr (row\<lparr>ty_exchange_event_time_ms := e, ty_exchange_transaction_time_ms := t,
       ty_last_update_id := Some l, ty_bids := Some b, ty_asks := Some a\<rparr>))))))"

definition parse_book_ticker :: "json_obj \<Rightarrow> typed_row \<Rightarrow> py_error + typed_row" where
  "parse_book_ticker data row =
     rbind (require_event data ''bookTicker'') (\<lambda>_.
     rbind (int_field data ''E'') (\<lambda>e. rbind (int_field data ''T'') (\<lambda>t. rbind (int_field data ''u'') (\<lambda>u.
     rbind (decimal_field False False data ''b'') (\<lambda>bp. rbind (decimal_field True False data ''B'') (\<lambda>bq.
     rbind (decimal_field False False data ''a'') (\<lambda>ap. rbind (decimal_field True False data ''A'') (\<lambda>aq.
     Inr (row\<lparr>ty_exchange_event_time_ms := Some e, ty_exchange_transaction_time_ms := Some t, ty_update_id := Some u,
       ty_bid_price := Some bp, ty_bid_quantity := Some bq, ty_ask_price := Some ap, ty_ask_quantity := Some aq\<rparr>)))))))))"

definition parse_trade :: "bool \<Rightarrow> json_obj \<Rightarrow> typed_row \<Rightarrow> py_error + typed_row" where
  "parse_trade aggregate data row =
     rbind (require_event data (if aggregate then ''aggTrade'' else ''trade'')) (\<lambda>_.
     rbind (int_field data ''E'') (\<lambda>e. rbind (int_field data ''T'') (\<lambda>t.
     rbind (decimal_field False False data ''p'') (\<lambda>p. rbind (decimal_field False False data ''q'') (\<lambda>q.
     rbind (bool_field data ''m'') (\<lambda>m.
     let row' = row\<lparr>ty_exchange_event_time_ms := Some e, ty_exchange_transaction_time_ms := Some t,
           ty_price := Some p, ty_quantity := Some q, ty_buyer_is_maker := Some m\<rparr> in
     if aggregate then
       rbind (int_field data ''a'') (\<lambda>a. rbind (int_field data ''f'') (\<lambda>f. rbind (int_field data ''l'') (\<lambda>l.
       rbind (optional_decimal data ''nq'') (\<lambda>nq.
       Inr (row'\<lparr>ty_aggregate_trade_id := Some a, ty_first_trade_id := Some f, ty_last_trade_id := Some l,
         ty_non_rpi_quantity := nq\<rparr>)))))
     else rbind (int_field data ''t'') (\<lambda>i. Inr (row'\<lparr>ty_trade_id := Some i\<rparr>))))))))"

definition parse_mark_price :: "json_obj \<Rightarrow> typed_row \<Rightarrow> py_error + typed_row" where
  "parse_mark_price data row =
     rbind (require_event data ''markPriceUpdate'') (\<lambda>_.
     rbind (int_field data ''E'') (\<lambda>e.
     rbind (decimal_field False False data ''p'') (\<lambda>p. rbind (decimal_field False False data ''i'') (\<lambda>i.
     rbind (decimal_field True False data ''P'') (\<lambda>s. rbind (decimal_field True True data ''r'') (\<lambda>r.
     rbind (int_field data ''T'') (\<lambda>t.
     Inr (row\<lparr>ty_exchange_event_time_ms := Some e, ty_mark_price := Some p, ty_index_price := Some i,
       ty_estimated_settle_price := Some s, ty_funding_rate := Some r, ty_next_funding_time_ms := Some t\<rparr>))))))))"

definition text_field :: "parse_env \<Rightarrow> json_obj \<Rightarrow> string \<Rightarrow> py_error + string" where
  "text_field env data k = rbind (item data k) (\<lambda>v. Inr (text_of env v))"

definition parse_force_order :: "parse_env \<Rightarrow> json_obj \<Rightarrow> typed_row \<Rightarrow> py_error + typed_row" where
  "parse_force_order env data row =
     rbind (require_event data ''forceOrder'') (\<lambda>_.
     case jget data ''o'' of
       JObj order \<Rightarrow>
         rbind (int_field data ''E'') (\<lambda>e. rbind (int_field order ''T'') (\<lambda>t.
         rbind (text_field env order ''S'') (\<lambda>s. rbind (text_field env order ''o'') (\<lambda>ty.
         rbind (text_field env order ''f'') (\<lambda>f. rbind (text_field env order ''X'') (\<lambda>x.
         rbind (decimal_field True False order ''p'') (\<lambda>p. rbind (decimal_field False False order ''q'') (\<lambda>q.
         rbind (decimal_field True False order ''ap'') (\<lambda>ap. rbind (decimal_field True False order ''l'') (\<lambda>l.
         rbind (decimal_field True False order ''z'') (\<lambda>z.
         Inr (row\<lparr>ty_exchange_event_time_ms := Some e, ty_exchange_transaction_time_ms := Some t,
           ty_order_side := Some s, ty_order_type := Some ty, ty_time_in_force := Some f, ty_order_status := Some x,
           ty_price := Some p, ty_quantity := Some q, ty_average_price := Some ap,
           ty_last_filled_quantity := Some l, ty_accumulated_filled_quantity := Some z\<rparr>))))))))))))
     | _ \<Rightarrow> Inl (ValueError ''forceOrder payload has no order object''))"

definition parse_contract_info :: "parse_env \<Rightarrow> json_obj \<Rightarrow> typed_row \<Rightarrow> py_error + typed_row" where
  "parse_contract_info env data row =
     rbind (require_event data ''contractInfo'') (\<lambda>_.
     rbind (int_field data ''E'') (\<lambda>e. rbind (text_field env data ''ct'') (\<lambda>ct.
     rbind (int_field data ''dt'') (\<lambda>dt. rbind (int_field data ''ot'') (\<lambda>ot.
     rbind (text_field env data ''cs'') (\<lambda>cs.
     Inr (row\<lparr>ty_exchange_event_time_ms := Some e, ty_contract_type := Some ct, ty_delivery_date_ms := Some dt,
       ty_onboard_date_ms := Some ot, ty_contract_status := Some cs\<rparr>)))))))"

definition parse_open_interest :: "json_obj \<Rightarrow> typed_row \<Rightarrow> py_error + typed_row" where
  "parse_open_interest data row =
     rbind (int_field data ''time'') (\<lambda>e. rbind (decimal_field True False data ''openInterest'') (\<lambda>oi.
     Inr (row\<lparr>ty_exchange_event_time_ms := Some e, ty_open_interest := Some oi\<rparr>)))"

definition parse_clock_sample :: "json_obj \<Rightarrow> typed_row \<Rightarrow> py_error + typed_row" where
  "parse_clock_sample data row =
     rbind (int_field data ''serverTime'') (\<lambda>t. Inr (row\<lparr>ty_exchange_event_time_ms := Some t\<rparr>))"

fun parse_stream :: "parse_env \<Rightarrow> stream_type \<Rightarrow> json_obj \<Rightarrow> typed_row \<Rightarrow> py_error + typed_row" where
  "parse_stream env DEPTH data row = parse_depth data row"
| "parse_stream env RPI_DEPTH data row = parse_depth data row"
| "parse_stream env DEPTH_SNAPSHOT data row = parse_snapshot data row"
| "parse_stream env RPI_DEPTH_SNAPSHOT data row = parse_snapshot data row"
| "parse_stream env BOOK_TICKER data row = parse_book_ticker data row"
| "parse_stream env AGG_TRADE data row = parse_trade True data row"
| "parse_stream env TRADE data row = parse_trade False data row"
| "parse_stream env MARK_PRICE data row = parse_mark_price data row"
| "parse_stream env FORCE_ORDER data row = parse_force_order env data row"
| "parse_stream env CONTRACT_INFO data row = parse_contract_info env data row"
| "parse_stream env OPEN_INTEREST data row = parse_open_interest data row"
| "parse_stream env CLOCK_SAMPLE data row = parse_clock_sample data row"
| "parse_stream env _ data row = Inr row"

definition row_symbol :: "parse_env \<Rightarrow> raw_row \<Rightarrow> json_obj \<Rightarrow> string option" where
  "row_symbol env raw data =
     (let text = (case raw_exchange_symbol raw of
            Some s \<Rightarrow> if s = [] then event_symbol env data else s
          | None \<Rightarrow> event_symbol env data) in
      if text = [] then None else Some (env_upper env text))"

definition parse_typed_row :: "parse_env \<Rightarrow> raw_row \<Rightarrow> py_error + typed_row option" where
  "parse_typed_row env raw =
     rbind (stream_type_of (raw_stream_type raw)) (\<lambda>st.
     case raw_payload raw of
       None \<Rightarrow> Inl (ValueError ''invalid JSON'')
     | Some value \<Rightarrow>
         if st \<notin> set TYPED_STREAMS then
           if st = MARKET_TICKERS \<and> (case value of JList _ \<Rightarrow> False | _ \<Rightarrow> True) then
             Inl (ValueError ''market tickers payload must be an array'')
           else if st \<in> set OBJECT_STREAMS \<and> (case value of JObj _ \<Rightarrow> False | _ \<Rightarrow> True) then
             Inl (ValueError ''payload must be an object'')
           else Inr None
         else
           (case value of
              JObj payload \<Rightarrow>
                (case (case map_of payload ''data'' of None \<Rightarrow> JObj payload | Some d \<Rightarrow> d) of
                   JObj data \<Rightarrow>
                     let symbol = row_symbol env raw data in
                     if (case symbol of None \<Rightarrow> True | Some s \<Rightarrow> s = []) \<and> st \<noteq> CLOCK_SAMPLE then
                       Inl (ValueError ''event has no symbol'')
                     else rbind (parse_stream env st data (base_row env raw st symbol data)) (\<lambda>row. Inr (Some row))
                 | _ \<Rightarrow> Inl (ValueError ''Binance event data must be an object''))
            | _ \<Rightarrow> Inl (ValueError ''Binance payload must be a JSON object'')))"

section \<open>Identities\<close>

datatype identity_part = IdStream string | IdText string | IdInt int | IdBytes string

type_synonym identity = "identity_part list"

definition required_int :: "int option \<Rightarrow> string \<Rightarrow> py_error + int" where
  "required_int v label = (case v of None \<Rightarrow> Inl (ValueError label) | Some i \<Rightarrow> Inr i)"

text \<open>
  The identity under which one logical event can arrive several times; \<open>None\<close> for a stream whose
  rows are all kept. The symbol is the text of the column, \<open>None\<close> for a row without one.
\<close>

definition logical_identity :: "typed_row \<Rightarrow> py_error + identity option" where
  "logical_identity row =
     (let symbol = (case ty_exchange_symbol row of None \<Rightarrow> ''None'' | Some s \<Rightarrow> s);
          key = (\<lambda>parts. Inr (Some (IdStream (stream_value (ty_stream row)) # IdText symbol # parts)));
          num = (\<lambda>v label. required_int v label) in
      if ty_stream row = AGG_TRADE then
        rbind (num (ty_aggregate_trade_id row) ''aggregate_trade_id'') (\<lambda>i. key [IdInt i])
      else if ty_stream row = TRADE then rbind (num (ty_trade_id row) ''trade_id'') (\<lambda>i. key [IdInt i])
      else if ty_stream row = DEPTH \<or> ty_stream row = RPI_DEPTH then
        rbind (num (ty_first_update row) ''first_update_id'') (\<lambda>a.
        rbind (num (ty_final_update row) ''final_update_id'') (\<lambda>b.
        rbind (num (ty_previous_final_update row) ''previous_final_update_id'') (\<lambda>c.
        key [IdInt a, IdInt b, IdInt c])))
      else if ty_stream row = BOOK_TICKER then rbind (num (ty_update_id row) ''update_id'') (\<lambda>i. key [IdInt i])
      else if ty_stream row = MARK_PRICE then
        rbind (num (ty_exchange_event_time_ms row) ''exchange_event_time_ms'') (\<lambda>t.
        key [IdInt t, IdBytes (ty_payload_hash row)])
      else if ty_stream row = FORCE_ORDER then
        rbind (num (ty_exchange_event_time_ms row) ''exchange_event_time_ms'') (\<lambda>t.
        rbind (num (ty_exchange_transaction_time_ms row) ''exchange_transaction_time_ms'') (\<lambda>x.
        key [IdInt t, IdInt x, IdBytes (ty_payload_hash row)]))
      else if ty_stream row = CONTRACT_INFO then
        rbind (num (ty_exchange_event_time_ms row) ''exchange_event_time_ms'') (\<lambda>t.
        key [IdInt t, IdBytes (ty_payload_hash row)])
      else Inr None)"

section \<open>What a parsed row holds\<close>

lemma level_decimal_Inr:
  "level_decimal z n raw = Inr s \<Longrightarrow>
   \<exists>d. s = show_decimal d \<and> parse_decimal s = Some d \<and> (dval d < 0 \<longrightarrow> n) \<and> (dval d = 0 \<longrightarrow> z)"
  by (auto simp: level_decimal_def split: option.splits if_splits)

text \<open>Levels with a positive price and a quantity that is not negative, both in canonical text.\<close>

definition sound_level :: "level \<Rightarrow> bool" where
  "sound_level = (\<lambda>(p, q).
     (case parse_decimal p of None \<Rightarrow> False | Some d \<Rightarrow> 0 < dval d \<and> p = show_decimal d) \<and>
     (case parse_decimal q of None \<Rightarrow> False | Some d \<Rightarrow> 0 \<le> dval d \<and> q = show_decimal d))"

lemma levels_field_sound: "levels_field data k = Inr ls \<Longrightarrow> list_all sound_level ls"
proof -
  have one: "sound_level l" if pl: "parse_level v = Inr l" for v l
  proof -
    obtain p q rest a b where v: "v = JList (p # q # rest)" "l = (a, b)"
      "level_decimal False False p = Inr a" "level_decimal True False q = Inr b"
      using pl by (auto simp: parse_level_def rbind_Inr_iff split: json.splits list.splits)
    then show ?thesis
      using level_decimal_Inr [OF v(3)] level_decimal_Inr [OF v(4)] by (auto simp: sound_level_def)
  qed
  assume "levels_field data k = Inr ls"
  then obtain vs where "map_result parse_level vs = Inr ls"
    by (auto simp: levels_field_def split: json.splits)
  then show ?thesis using one map_result_origin by (fastforce simp: list_all_iff)
qed

lemma sound_levels_readable: "list_all sound_level ls \<Longrightarrow> readable_levels ls"
  by (fastforce simp: readable_levels_def sound_level_def list_all_iff split: option.splits)

text \<open>The columns \<open>_depth_rows\<close> selects from a typed row.\<close>

definition depth_columns :: "typed_row \<Rightarrow> depth_row" where
  "depth_columns row = \<lparr>row_exchange_symbol = ty_exchange_symbol row,
     row_stream_type = stream_value (ty_stream row), row_connection_id = ty_connection_id row,
     row_receive_seq = ty_receive_seq row, row_received_ns = ty_app_receive_realtime_ns row,
     row_payload_hash = ty_payload_hash row, row_first_update_id = ty_first_update row,
     row_final_update_id = ty_final_update row, row_previous_final_update_id = ty_previous_final_update row,
     row_last_update_id = ty_last_update_id row, row_bids = ty_bids row, row_asks = ty_asks row\<rparr>"

definition ids_kept :: "typed_row \<Rightarrow> typed_row \<Rightarrow> bool" where
  "ids_kept row row' \<longleftrightarrow> ty_exchange_symbol row' = ty_exchange_symbol row \<and> ty_stream row' = ty_stream row \<and>
     ty_connection_id row' = ty_connection_id row \<and> ty_receive_seq row' = ty_receive_seq row \<and>
     ty_app_receive_realtime_ns row' = ty_app_receive_realtime_ns row \<and>
     ty_payload_hash row' = ty_payload_hash row \<and> ty_is_duplicate row' = ty_is_duplicate row"

lemmas parser_defs = parse_depth_def parse_snapshot_def parse_book_ticker_def parse_trade_def
  parse_mark_price_def parse_force_order_def parse_contract_info_def parse_open_interest_def
  parse_clock_sample_def

lemma parse_stream_ids: "parse_stream env st data row = Inr row' \<Longrightarrow> ids_kept row row'"
  by (cases st) (auto simp: parser_defs rbind_Inr_iff ids_kept_def Let_def split: if_splits json.splits)

lemma parse_typed_row_Inr:
  assumes "parse_typed_row env raw = Inr (Some row)"
  shows "\<exists>data symbol. stream_type_of (raw_stream_type raw) = Inr (ty_stream row) \<and>
    ty_stream row \<in> set TYPED_STREAMS \<and> ty_exchange_symbol row = symbol \<and>
    (ty_stream row = CLOCK_SAMPLE \<or> (\<exists>s. symbol = Some s \<and> s \<noteq> [])) \<and>
    ty_connection_id row = raw_connection_id raw \<and> ty_receive_seq row = raw_receive_seq raw \<and>
    ty_app_receive_realtime_ns row = raw_realtime_ns raw \<and>
    ty_payload_hash row = env_hash env (JObj data) \<and> \<not> ty_is_duplicate row \<and>
    parse_stream env (ty_stream row) data (base_row env raw (ty_stream row) symbol data) = Inr row"
proof -
  obtain st where st: "stream_type_of (raw_stream_type raw) = Inr st"
    using assms unfolding parse_typed_row_def rbind_Inr_iff by blast
  note run = assms [unfolded parse_typed_row_def st rbind_simps]
  obtain data symbol where typed: "st \<in> set TYPED_STREAMS"
    and sym: "\<not> ((case symbol of None \<Rightarrow> True | Some s \<Rightarrow> s = []) \<and> st \<noteq> CLOCK_SAMPLE)"
    and row: "parse_stream env st data (base_row env raw st symbol data) = Inr row"
    using run by (auto simp: Let_def rbind_Inr_iff intro!: that split: option.splits json.splits if_splits)
  have "ids_kept (base_row env raw st symbol data) row" by (rule parse_stream_ids [OF row])
  then have ids: "ty_stream row = st" "ty_exchange_symbol row = symbol"
    "ty_connection_id row = raw_connection_id raw" "ty_receive_seq row = raw_receive_seq raw"
    "ty_app_receive_realtime_ns row = raw_realtime_ns raw" "ty_payload_hash row = env_hash env (JObj data)"
    "\<not> ty_is_duplicate row"
    by (simp_all add: ids_kept_def base_row_def)
  show ?thesis
    using st typed sym row ids by (intro exI [of _ data] exI [of _ symbol]) (auto split: option.splits)
qed

lemma parse_depth_row:
  assumes "parse_depth data row = Inr row'"
  shows "\<exists>a b c bs as. ty_first_update row' = Some a \<and> ty_final_update row' = Some b \<and>
    ty_previous_final_update row' = Some c \<and> ty_bids row' = Some bs \<and> ty_asks row' = Some as \<and>
    list_all sound_level bs \<and> list_all sound_level as"
  using assms by (auto simp: parse_depth_def rbind_Inr_iff levels_field_sound)

lemma parse_snapshot_row:
  assumes "parse_snapshot data row = Inr row'"
  shows "\<exists>a bs as. ty_last_update_id row' = Some a \<and> ty_bids row' = Some bs \<and> ty_asks row' = Some as \<and>
    list_all sound_level bs \<and> list_all sound_level as"
  using assms by (auto simp: parse_snapshot_def rbind_Inr_iff levels_field_sound)

section \<open>Properties\<close>

text \<open>A parsed depth event always reaches the order book: when the parser returns a row of the
  depth stream, its columns give a diff, with no missing id, whose levels have positive prices and
  quantities that are not negative, in the canonical decimal text, so no book operation can raise on
  it; a row of the snapshot stream gives such a snapshot. The row carries the raw event's stream,
  connection, sequence and time, a symbol that is not empty, and is not marked a duplicate.\<close>

lemma parsed_depth_feeds_book:
  assumes "parse_typed_row env raw = Inr (Some row)" and "ty_stream row \<in> {DEPTH, DEPTH_SNAPSHOT}"
  shows "stream_type_of (raw_stream_type raw) = Inr (ty_stream row) \<and>
    (\<exists>s. ty_exchange_symbol row = Some s \<and> s \<noteq> []) \<and> \<not> ty_is_duplicate row \<and>
    ty_connection_id row = raw_connection_id raw \<and> ty_receive_seq row = raw_receive_seq raw \<and>
    ty_app_receive_realtime_ns row = raw_realtime_ns raw \<and>
    (if ty_stream row = DEPTH then
       \<exists>d. diff_from_row (depth_columns row) = Inr d \<and> readable_event (BDiff d) \<and>
         list_all sound_level (df_bids d) \<and> list_all sound_level (df_asks d)
     else
       \<exists>s. snapshot_from_row (depth_columns row) = Inr s \<and> readable_event (BSnap s) \<and>
         list_all sound_level (sn_bids s) \<and> list_all sound_level (sn_asks s))"
proof -
  obtain data symbol where r: "stream_type_of (raw_stream_type raw) = Inr (ty_stream row)"
    "ty_exchange_symbol row = symbol" "ty_stream row = CLOCK_SAMPLE \<or> (\<exists>s. symbol = Some s \<and> s \<noteq> [])"
    "ty_connection_id row = raw_connection_id raw" "ty_receive_seq row = raw_receive_seq raw"
    "ty_app_receive_realtime_ns row = raw_realtime_ns raw" "\<not> ty_is_duplicate row"
    "parse_stream env (ty_stream row) data (base_row env raw (ty_stream row) symbol data) = Inr row"
    using parse_typed_row_Inr [OF assms(1)] by blast
  show ?thesis
  proof (cases "ty_stream row = DEPTH")
    case True
    then have "parse_depth data (base_row env raw DEPTH symbol data) = Inr row" using r(8) by simp
    from parse_depth_row [OF this] show ?thesis using r(1-7) True
      by (auto simp: diff_from_row_def depth_columns_def required_def readable_diff_def sound_levels_readable)
  next
    case False
    then have s: "ty_stream row = DEPTH_SNAPSHOT" using assms(2) by simp
    then have "parse_snapshot data (base_row env raw DEPTH_SNAPSHOT symbol data) = Inr row" using r(8) by simp
    from parse_snapshot_row [OF this] show ?thesis using r(1-7) s
      by (auto simp: snapshot_from_row_def depth_columns_def required_def sound_levels_readable)
  qed
qed

definition ex_env :: parse_env where
  "ex_env = \<lparr>env_hash = (\<lambda>_. ''h''), env_upper = map ascii_upper, env_container_text = (\<lambda>_. ''[]'')\<rparr>"

definition ex_raw :: raw_row where
  "ex_raw = \<lparr>raw_exchange_symbol = None, raw_stream_type = ''depth'', raw_connection_id = ''c1'',
     raw_receive_seq = 1, raw_realtime_ns = 7, raw_monotonic_ns = 7,
     raw_payload = Some (JObj [(''stream'', JStr ''x''), (''data'', JObj [(''e'', JStr ''depthUpdate''),
       (''E'', JInt 1), (''T'', JInt 1), (''s'', JStr ''btc''), (''U'', JInt 4), (''u'', JInt 5),
       (''pu'', JInt 3), (''b'', JList [JList [JStr ''1.50'', JStr ''0'']]), (''a'', JList [])])]),
     raw_request_realtime_ns = None\<rparr>"

lemma ex_parsed: "\<exists>row. parse_typed_row ex_env ex_raw = Inr (Some row) \<and> ty_stream row = DEPTH \<and>
    ty_exchange_symbol row = Some ''BTC'' \<and> ty_bids row = Some [(''1.50'', ''0'')]"
proof -
  have "parse_level (JList [JStr ''1.50'', JStr ''0'']) = Inr (''1.50'', ''0'')"
    by code_simp
  moreover have "map ascii_upper ''btc'' = ''BTC''" by code_simp
  ultimately show ?thesis
    by (simp add: parse_typed_row_def ex_raw_def ex_env_def ex_streams TYPED_STREAMS_def jget_def
        row_symbol_def event_symbol_def text_of_def py_str_def parse_depth_def require_event_def int_field_def item_def
        py_int_def levels_field_def base_row_def check_def cong: rbind_eval_cong)
qed

lemma parsed_depth_feeds_book_witness:
  "\<exists>row d. parse_typed_row ex_env ex_raw = Inr (Some row) \<and> diff_from_row (depth_columns row) = Inr d \<and>
     readable_event (BDiff d)"
  using ex_parsed parsed_depth_feeds_book [of ex_env ex_raw] by fastforce

end
