(* ===== verification/Dedup.thy ===== *)
theory Dedup
  imports Parsing
begin

text \<open>
  The duplicate filter of \<open>src/miry/pipeline/normalize.py\<close>, \<open>_Deduplicator\<close>: what was seen of an
  identity in the last ten minutes, pruned through one-second buckets and a heap of bucket numbers,
  with a second such wheel for the entries of the previous day's checkpoint, which are known by the
  digest of their identity. The digest is a parameter. A heap is the sorted list of its elements.
\<close>

section \<open>A wheel of buckets\<close>

definition DEDUP_WINDOW_NS :: int where "DEDUP_WINDOW_NS = 600 * 1000000000"
definition DEDUP_BUCKET_NS :: int where "DEDUP_BUCKET_NS = 1000000000"

record 'k wheel =
  seen :: "('k, string \<times> int) dict"
  buckets :: "(int, ('k \<times> int) list) dict"
  bucket_heap :: "int list"

definition empty_wheel :: "'k wheel" where
  "empty_wheel = \<lparr>seen = [], buckets = [], bucket_heap = []\<rparr>"

definition schedule :: "'k \<Rightarrow> int \<Rightarrow> 'k wheel \<Rightarrow> 'k wheel" where
  "schedule k observed_ns w =
     (let bucket = observed_ns div DEDUP_BUCKET_NS in
      case dict_get (buckets w) bucket of
        None \<Rightarrow> w\<lparr>buckets := dict_set bucket [(k, observed_ns)] (buckets w),
          bucket_heap := insort bucket (bucket_heap w)\<rparr>
      | Some values \<Rightarrow> w\<lparr>buckets := dict_set bucket (values @ [(k, observed_ns)]) (buckets w)\<rparr>)"

definition forget_entry :: "'k \<times> int \<Rightarrow> ('k, string \<times> int) dict \<Rightarrow> ('k, string \<times> int) dict" where
  "forget_entry = (\<lambda>(k, observed_ns) s.
     case dict_get s k of
       None \<Rightarrow> s
     | Some (_, current) \<Rightarrow> if current = observed_ns then dict_pop k s else s)"

text \<open>\<open>while heap and heap[0] <= expired_through: ...\<close>, along the heap in order.\<close>

fun expire :: "int \<Rightarrow> int list \<Rightarrow> 'k wheel \<Rightarrow> py_error + 'k wheel" where
  "expire expired_through [] w = Inr (w\<lparr>bucket_heap := []\<rparr>)"
| "expire expired_through (b # heap) w =
     (if b \<le> expired_through then
        case dict_get (buckets w) b of
          None \<Rightarrow> Inl (KeyError ''bucket'')
        | Some entries \<Rightarrow> expire expired_through heap
            (w\<lparr>buckets := dict_pop b (buckets w), seen := fold forget_entry entries (seen w)\<rparr>)
      else Inr (w\<lparr>bucket_heap := b # heap\<rparr>))"

section \<open>The deduplicator\<close>

record dedup =
  main :: "identity wheel"
  legacy :: "string wheel"
  pruned_through_bucket :: int
  next_prune_cutoff_ns :: int
  watermark_ns :: int

definition new_dedup :: dedup where
  "new_dedup = \<lparr>main = empty_wheel, legacy = empty_wheel, pruned_through_bucket = - 1,
     next_prune_cutoff_ns = DEDUP_BUCKET_NS, watermark_ns = 0\<rparr>"

definition prune :: "int \<Rightarrow> dedup \<Rightarrow> py_error + dedup" where
  "prune cutoff_ns d =
     (let expired_through = cutoff_ns div DEDUP_BUCKET_NS - 1 in
      if expired_through \<le> pruned_through_bucket d then Inr d
      else
        rbind (expire expired_through (bucket_heap (main d)) (main d)) (\<lambda>m.
        rbind (expire expired_through (bucket_heap (legacy d)) (legacy d)) (\<lambda>l.
        Inr (d\<lparr>main := m, legacy := l, pruned_through_bucket := expired_through,
          next_prune_cutoff_ns := (expired_through + 2) * DEDUP_BUCKET_NS\<rparr>))))"

text \<open>\<open>if previous is not None and previous[1] < cutoff_ns: previous = None\<close>\<close>

definition fresh_since :: "int \<Rightarrow> (string \<times> int) option \<Rightarrow> (string \<times> int) option" where
  "fresh_since cutoff_ns p = (case p of Some (h, t) \<Rightarrow> if t < cutoff_ns then None else Some (h, t) | None \<Rightarrow> None)"

definition observe :: "(identity \<Rightarrow> string) \<Rightarrow> identity \<Rightarrow> string \<Rightarrow> int \<Rightarrow> dedup \<Rightarrow> py_error + (bool \<times> dedup)" where
  "observe key_of i payload_hash observed_ns d =
     (let w = max (watermark_ns d) observed_ns;
          d1 = d\<lparr>watermark_ns := w\<rparr>;
          cutoff_ns = w - DEDUP_WINDOW_NS in
      rbind (if next_prune_cutoff_ns d1 \<le> cutoff_ns then prune cutoff_ns d1 else Inr d1) (\<lambda>d2.
      let previous = fresh_since cutoff_ns (dict_get (seen (main d2)) i);
          previous' = (if previous = None \<and> seen (legacy d2) \<noteq> []
            then fresh_since cutoff_ns (dict_get (seen (legacy d2)) (key_of i)) else previous) in
      if previous' \<noteq> None \<and> fst (the previous') \<noteq> payload_hash then
        Inl (ValueError ''conflicting payload for logical event identity'')
      else Inr (previous' \<noteq> None, d2\<lparr>main := schedule i observed_ns
        ((main d2)\<lparr>seen := dict_set i (payload_hash, observed_ns) (seen (main d2))\<rparr>)\<rparr>)))"

section \<open>Checkpoints\<close>

record dedup_entry =
  identity_key :: string
  entry_payload_hash :: string
  entry_observed_ns :: int

record dedup_file =
  file_schema_version :: int
  file_window_ns :: int
  file_entries :: "dedup_entry list"

definition load_entry :: "dedup_entry \<Rightarrow> dedup \<Rightarrow> dedup" where
  "load_entry e d =
     d\<lparr>legacy := schedule (identity_key e) (entry_observed_ns e)
         ((legacy d)\<lparr>seen := dict_set (identity_key e) (entry_payload_hash e, entry_observed_ns e) (seen (legacy d))\<rparr>),
       watermark_ns := max (watermark_ns d) (entry_observed_ns e)\<rparr>"

definition load :: "dedup_file option \<Rightarrow> py_error + dedup" where
  "load file =
     (case file of
        None \<Rightarrow> Inr new_dedup
      | Some v \<Rightarrow>
          if file_schema_version v \<noteq> 1 \<or> file_window_ns v \<noteq> DEDUP_WINDOW_NS then
            Inl (ValueError ''incompatible dedup checkpoint'')
          else
            let d = fold load_entry (file_entries v) new_dedup in
            prune (watermark_ns d - DEDUP_WINDOW_NS) d)"

definition merge_key :: "(identity \<Rightarrow> string) \<Rightarrow> int \<Rightarrow> identity \<times> string \<times> int \<Rightarrow>
    (string, string \<times> int) dict \<Rightarrow> (string, string \<times> int) dict" where
  "merge_key key_of cutoff = (\<lambda>(i, h, t) by_key.
     if t < cutoff then by_key
     else case dict_get by_key (key_of i) of
         None \<Rightarrow> dict_set (key_of i) (h, t) by_key
       | Some (_, existing) \<Rightarrow> if existing \<le> t then dict_set (key_of i) (h, t) by_key else by_key)"

definition dedup_checkpoint :: "(identity \<Rightarrow> string) \<Rightarrow> int \<Rightarrow> dedup \<Rightarrow> dedup_file" where
  "dedup_checkpoint key_of day_end_ns d =
     (let cutoff = day_end_ns - DEDUP_WINDOW_NS;
          kept = filter (\<lambda>(_, _, t). cutoff \<le> t) (seen (legacy d));
          by_key = fold (merge_key key_of cutoff) (seen (main d)) kept in
      \<lparr>file_schema_version = 1, file_window_ns = DEDUP_WINDOW_NS, file_entries =
        map (\<lambda>(k, h, t). \<lparr>identity_key = k, entry_payload_hash = h, entry_observed_ns = t\<rparr>) (sort by_key)\<rparr>)"

section \<open>The reference\<close>

text \<open>What the filter means: everything is remembered, and only what is in the window counts.\<close>

record memory =
  mem_seen :: "identity \<Rightarrow> (string \<times> int) option"
  mem_legacy :: "string \<Rightarrow> (string \<times> int) option"
  mem_watermark :: int

definition remembered :: "(identity \<Rightarrow> string) \<Rightarrow> int \<Rightarrow> identity \<Rightarrow> memory \<Rightarrow> (string \<times> int) option" where
  "remembered key_of cutoff i m =
     (case fresh_since cutoff (mem_seen m i) of
        Some p \<Rightarrow> Some p | None \<Rightarrow> fresh_since cutoff (mem_legacy m (key_of i)))"

definition spec_observe :: "(identity \<Rightarrow> string) \<Rightarrow> identity \<Rightarrow> string \<Rightarrow> int \<Rightarrow> memory \<Rightarrow> py_error + (bool \<times> memory)" where
  "spec_observe key_of i h t m =
     (let w = max (mem_watermark m) t; p = remembered key_of (w - DEDUP_WINDOW_NS) i m in
      if p \<noteq> None \<and> fst (the p) \<noteq> h then
        Inl (ValueError ''conflicting payload for logical event identity'')
      else Inr (p \<noteq> None, m\<lparr>mem_seen := (mem_seen m)(i := Some (h, t)), mem_watermark := w\<rparr>))"

section \<open>The wheels\<close>

definition wheel_ok :: "'k wheel \<Rightarrow> bool" where
  "wheel_ok w \<longleftrightarrow> dict_ok (buckets w) \<and> sorted (bucket_heap w) \<and> distinct (bucket_heap w) \<and>
     set (bucket_heap w) = dom (dict_get (buckets w)) \<and>
     (\<forall>b es. dict_get (buckets w) b = Some es \<longrightarrow> (\<forall>(k, t) \<in> set es. t div DEDUP_BUCKET_NS = b))"

text \<open>A wheel that lost only entries older than \<open>t\<close>.\<close>

definition lost_before :: "int \<Rightarrow> ('k \<Rightarrow> (string \<times> int) option) \<Rightarrow> ('k \<Rightarrow> (string \<times> int) option) \<Rightarrow> bool" where
  "lost_before t f g \<longleftrightarrow> (\<forall>k. g k = f k \<or> g k = None \<and> (\<exists>h s. f k = Some (h, s) \<and> s < t))"

lemma lost_before_refl [simp]: "lost_before t f f"
  by (simp add: lost_before_def)

lemma lost_before_trans: "lost_before t f g \<Longrightarrow> lost_before t g h \<Longrightarrow> lost_before t f h"
  unfolding lost_before_def by metis

lemma lost_before_mono: "lost_before t f g \<Longrightarrow> t \<le> t' \<Longrightarrow> lost_before t' f g"
  unfolding lost_before_def by (meson order_less_le_trans)

lemma lost_before_fresh: "lost_before t f g \<Longrightarrow> t \<le> cutoff \<Longrightarrow> fresh_since cutoff (g k) = fresh_since cutoff (f k)"
  unfolding lost_before_def by (drule spec [of _ k]) (auto simp: fresh_since_def)

lemma lost_before_upd: "lost_before t f g \<Longrightarrow> lost_before t (f(k := v)) (g(k := v))"
  by (auto simp: lost_before_def)

lemma forget_entry_lost:
  "t < c \<Longrightarrow> lost_before c (dict_get s) (dict_get (forget_entry (k, t) s))"
  by (auto simp: forget_entry_def lost_before_def split: option.splits)

lemma forget_entries_lost:
  "\<forall>(k, t) \<in> set es. t < c \<Longrightarrow> lost_before c (dict_get s) (dict_get (fold forget_entry es s))"
proof (induction es arbitrary: s)
  case (Cons e es)
  obtain k t where e: "e = (k, t)" by (cases e)
  then show ?case using Cons lost_before_trans [OF forget_entry_lost [of t c s k]] by auto
qed simp

lemma schedule_seen [simp]: "seen (schedule k t w) = seen w"
  by (simp add: schedule_def Let_def split: option.split)

lemma schedule_ok:
  assumes "wheel_ok w"
  shows "wheel_ok (schedule k t w)"
proof (cases "dict_get (buckets w) (t div DEDUP_BUCKET_NS)")
  case None
  then have "t div DEDUP_BUCKET_NS \<notin> set (bucket_heap w)" using assms by (auto simp: wheel_ok_def)
  with None assms show ?thesis
    by (auto simp: wheel_ok_def schedule_def Let_def sorted_insort distinct_insort set_insort_key)
next
  case (Some es)
  with assms show ?thesis by (auto simp: wheel_ok_def schedule_def Let_def)
qed

lemma wheel_seen_irrelevant [simp]: "wheel_ok (w\<lparr>seen := s\<rparr>) = wheel_ok w"
  by (simp add: wheel_ok_def)

lemma empty_wheel_ok [simp]: "wheel_ok empty_wheel"
  by (auto simp: wheel_ok_def empty_wheel_def)

lemma expire_ok:
  assumes "wheel_ok (w\<lparr>bucket_heap := heap\<rparr>)" "c = (expired + 1) * DEDUP_BUCKET_NS"
  shows "\<exists>w'. expire expired heap w = Inr w' \<and> wheel_ok w' \<and> lost_before c (dict_get (seen w)) (dict_get (seen w'))"
  using assms(1)
proof (induction heap arbitrary: w)
  case (Cons b heap)
  show ?case
  proof (cases "b \<le> expired")
    case True
    obtain es where es: "dict_get (buckets w) b = Some es"
      using Cons.prems by (fastforce simp: wheel_ok_def)
    have old: "\<forall>(k, t) \<in> set es. t < c"
    proof clarify
      fix k t assume "(k, t) \<in> set es"
      then have "t div DEDUP_BUCKET_NS = b" using Cons.prems es by (fastforce simp: wheel_ok_def)
      then have "t < (b + 1) * DEDUP_BUCKET_NS" by (auto simp: DEDUP_BUCKET_NS_def)
      also have "\<dots> \<le> c" using True assms(2) by (simp add: DEDUP_BUCKET_NS_def)
      finally show "t < c" .
    qed
    let ?w = "w\<lparr>buckets := dict_pop b (buckets w), seen := fold forget_entry es (seen w)\<rparr>"
    have "wheel_ok (?w\<lparr>bucket_heap := heap\<rparr>)"
      using Cons.prems by (auto simp: wheel_ok_def)
    from Cons.IH [OF this] obtain w' where "expire expired heap ?w = Inr w'" "wheel_ok w'"
      "lost_before c (dict_get (fold forget_entry es (seen w))) (dict_get (seen w'))" by auto
    then show ?thesis using True es lost_before_trans [OF forget_entries_lost [OF old]] by auto
  next
    case False
    then show ?thesis using Cons.prems by simp
  qed
qed simp

section \<open>The filter refines the reference\<close>

definition dedup_ok :: "dedup \<Rightarrow> bool" where
  "dedup_ok d \<longleftrightarrow> wheel_ok (main d) \<and> wheel_ok (legacy d)"

definition refines :: "memory \<Rightarrow> dedup \<Rightarrow> bool" where
  "refines m d \<longleftrightarrow> dedup_ok d \<and> mem_watermark m = watermark_ns d \<and>
     lost_before (watermark_ns d - DEDUP_WINDOW_NS) (mem_seen m) (dict_get (seen (main d))) \<and>
     lost_before (watermark_ns d - DEDUP_WINDOW_NS) (mem_legacy m) (dict_get (seen (legacy d)))"

lemma prune_refines:
  assumes "refines m d"
  shows "\<exists>d'. prune (watermark_ns d - DEDUP_WINDOW_NS) d = Inr d' \<and> refines m d' \<and> watermark_ns d' = watermark_ns d"
proof -
  define cutoff where "cutoff = watermark_ns d - DEDUP_WINDOW_NS"
  define e where "e = cutoff div DEDUP_BUCKET_NS - 1"
  define c where "c = (e + 1) * DEDUP_BUCKET_NS"
  have c: "c \<le> cutoff" by (simp add: c_def e_def DEDUP_BUCKET_NS_def)
  show ?thesis
  proof (cases "e \<le> pruned_through_bucket d")
    case True
    then show ?thesis using assms by (simp add: prune_def Let_def e_def cutoff_def)
  next
    case False
    have ok: "wheel_ok (main d)" "wheel_ok (legacy d)" using assms by (simp_all add: refines_def dedup_ok_def)
    obtain m' where m': "expire e (bucket_heap (main d)) (main d) = Inr m'" "wheel_ok m'"
      "lost_before cutoff (dict_get (seen (main d))) (dict_get (seen m'))"
    proof -
      have "wheel_ok ((main d)\<lparr>bucket_heap := bucket_heap (main d)\<rparr>)" using ok by simp
      from expire_ok [OF this c_def] that c lost_before_mono show ?thesis by blast
    qed
    obtain l' where l': "expire e (bucket_heap (legacy d)) (legacy d) = Inr l'" "wheel_ok l'"
      "lost_before cutoff (dict_get (seen (legacy d))) (dict_get (seen l'))"
    proof -
      have "wheel_ok ((legacy d)\<lparr>bucket_heap := bucket_heap (legacy d)\<rparr>)" using ok by simp
      from expire_ok [OF this c_def] that c lost_before_mono show ?thesis by blast
    qed
    have "prune cutoff d = Inr (d\<lparr>main := m', legacy := l', pruned_through_bucket := e,
        next_prune_cutoff_ns := (e + 2) * DEDUP_BUCKET_NS\<rparr>)"
      using False m'(1) l'(1) by (simp add: prune_def Let_def e_def)
    moreover have "lost_before cutoff (mem_seen m) (dict_get (seen m'))"
      "lost_before cutoff (mem_legacy m) (dict_get (seen l'))"
      using assms lost_before_trans m'(3) l'(3) unfolding refines_def cutoff_def by blast+
    ultimately show ?thesis
      using assms m'(2) l'(2) unfolding cutoff_def by (simp add: refines_def dedup_ok_def)
  qed
qed

lemma dict_get_empty_iff: "s = [] \<longleftrightarrow> dict_get s = Map.empty"
  by (cases s) (auto simp: dict_get_def fun_eq_iff)

lemma observe_refines:
  assumes r: "refines m d"
  shows "case spec_observe key_of i h t m of
      Inl e \<Rightarrow> observe key_of i h t d = Inl e
    | Inr (dup, m') \<Rightarrow> \<exists>d'. observe key_of i h t d = Inr (dup, d') \<and> refines m' d'"
proof -
  define w where "w = max (watermark_ns d) t"
  define cutoff where "cutoff = w - DEDUP_WINDOW_NS"
  define d1 where "d1 = d\<lparr>watermark_ns := w\<rparr>"
  define m1 where "m1 = m\<lparr>mem_watermark := w\<rparr>"
  have w: "watermark_ns d1 = w" "mem_watermark m = watermark_ns d" using r by (simp_all add: d1_def refines_def)
  have le: "watermark_ns d - DEDUP_WINDOW_NS \<le> w - DEDUP_WINDOW_NS" by (simp add: w_def)
  have r1: "refines m1 d1"
    using r unfolding refines_def m1_def d1_def dedup_ok_def by (simp add: lost_before_mono [OF _ le])
  obtain d2 where d2: "(if next_prune_cutoff_ns d1 \<le> cutoff then prune cutoff d1 else Inr d1) = Inr d2"
    and r2: "refines m1 d2" "watermark_ns d2 = w"
  proof (cases "next_prune_cutoff_ns d1 \<le> cutoff")
    case True
    have "cutoff = watermark_ns d1 - DEDUP_WINDOW_NS" by (simp add: w(1) cutoff_def)
    with True show ?thesis using prune_refines [OF r1] that w(1) by auto
  next
    case False
    then show ?thesis using that r1 w(1) by simp
  qed
  have lost: "lost_before cutoff (mem_seen m) (dict_get (seen (main d2)))"
    "lost_before cutoff (mem_legacy m) (dict_get (seen (legacy d2)))"
    using r2 by (simp_all add: refines_def m1_def cutoff_def)
  have main_eq: "fresh_since cutoff (dict_get (seen (main d2)) i) = fresh_since cutoff (mem_seen m i)"
    by (rule lost_before_fresh [OF lost(1) order_refl])
  have legacy_eq: "fresh_since cutoff (dict_get (seen (legacy d2)) k) = fresh_since cutoff (mem_legacy m k)" for k
    by (rule lost_before_fresh [OF lost(2) order_refl])
  define p where "p = remembered key_of cutoff i m"
  define q where "q = (if fresh_since cutoff (mem_seen m i) = None \<and> seen (legacy d2) \<noteq> []
      then fresh_since cutoff (dict_get (seen (legacy d2)) (key_of i)) else fresh_since cutoff (mem_seen m i))"
  have pq: "q = p"
  proof (cases "seen (legacy d2) = []")
    case True
    then have "fresh_since cutoff (mem_legacy m (key_of i)) = None"
      using legacy_eq [of "key_of i"] by (simp add: fresh_since_def)
    then show ?thesis using True by (simp add: p_def q_def remembered_def split: option.split)
  next
    case False
    then show ?thesis using legacy_eq by (simp add: p_def q_def remembered_def split: option.split)
  qed
  define d3 where "d3 = d2\<lparr>main := schedule i t ((main d2)\<lparr>seen := dict_set i (h, t) (seen (main d2))\<rparr>)\<rparr>"
  have obs: "observe key_of i h t d = (if p \<noteq> None \<and> fst (the p) \<noteq> h then
      Inl (ValueError ''conflicting payload for logical event identity'') else Inr (p \<noteq> None, d3))"
    unfolding observe_def Let_def w_def [symmetric] cutoff_def [symmetric] d1_def [symmetric]
    unfolding d2 rbind_simps main_eq q_def [symmetric] pq d3_def ..
  have "refines (m\<lparr>mem_seen := (mem_seen m)(i := Some (h, t)), mem_watermark := w\<rparr>) d3"
    using r2 lost_before_upd by (auto simp: refines_def m1_def d3_def dedup_ok_def intro: schedule_ok)
  then show ?thesis
    unfolding obs spec_observe_def Let_def w(2) w_def [symmetric] cutoff_def [symmetric] p_def [symmetric]
    by simp
qed

section \<open>Marking the rows of a day\<close>

text \<open>
  \<open>_deduplicate_typed\<close> over the rows in order: the flag of each row and the filter after it. A row
  without an identity is kept unflagged and not observed.
\<close>

type_synonym ('i, 'h) dedup_row = "'i option \<times> 'h \<times> int"

fun mark_with :: "('i \<Rightarrow> 'h \<Rightarrow> int \<Rightarrow> 's \<Rightarrow> 'e + (bool \<times> 's)) \<Rightarrow> ('i, 'h) dedup_row list \<Rightarrow> 's \<Rightarrow>
    'e + (bool list \<times> 's)" where
  "mark_with obs [] s = Inr ([], s)"
| "mark_with obs ((i, h, t) # rows) s =
     rbind (case i of None \<Rightarrow> Inr (False, s) | Some i \<Rightarrow> obs i h t s) (\<lambda>(dup, s').
     rbind (mark_with obs rows s') (\<lambda>(dups, s''). Inr (dup # dups, s'')))"

definition mark_duplicates :: "(identity \<Rightarrow> string) \<Rightarrow> (identity, string) dedup_row list \<Rightarrow> dedup \<Rightarrow>
    py_error + (bool list \<times> dedup)" where
  "mark_duplicates key_of rows d = mark_with (observe key_of) rows d"

lemma mark_refines:
  "refines m d \<Longrightarrow>
   (case mark_with (spec_observe key_of) rows m of
      Inl e \<Rightarrow> mark_with (observe key_of) rows d = Inl e
    | Inr (dups, m') \<Rightarrow> \<exists>d'. mark_with (observe key_of) rows d = Inr (dups, d') \<and> refines m' d')"
proof (induction rows arbitrary: m d)
  case (Cons r rows)
  obtain i h t where r: "r = (i, h, t)" by (cases r)
  define sp where "sp = (case i of None \<Rightarrow> Inr (False, m) | Some i \<Rightarrow> spec_observe key_of i h t m)"
  define im where "im = (case i of None \<Rightarrow> Inr (False, d) | Some i \<Rightarrow> observe key_of i h t d)"
  have step: "case sp of Inl e \<Rightarrow> im = Inl e | Inr (dup, m') \<Rightarrow> \<exists>d'. im = Inr (dup, d') \<and> refines m' d'"
  proof (cases i)
    case None
    then show ?thesis using Cons.prems by (simp add: sp_def im_def)
  next
    case (Some j)
    show ?thesis unfolding sp_def im_def Some option.case by (rule observe_refines [OF Cons.prems])
  qed
  have eqs: "mark_with (spec_observe key_of) (r # rows) m = rbind sp (\<lambda>(dup, m').
       rbind (mark_with (spec_observe key_of) rows m') (\<lambda>(dups, m''). Inr (dup # dups, m'')))"
    "mark_with (observe key_of) (r # rows) d = rbind im (\<lambda>(dup, d').
       rbind (mark_with (observe key_of) rows d') (\<lambda>(dups, d''). Inr (dup # dups, d'')))"
    by (simp_all add: r sp_def im_def)
  show ?case
  proof (cases sp)
    case (Inl e)
    then show ?thesis using step by (simp add: eqs)
  next
    case (Inr x)
    obtain dup m' where x: "x = (dup, m')" by (cases x)
    then obtain d' where d': "im = Inr (dup, d')" "refines m' d'" using step Inr by auto
    show ?thesis
      using Cons.IH [OF d'(2)] Inr x d'(1)
      by (auto simp: eqs split: sum.splits prod.splits)
  qed
qed simp

definition memory_of :: "dedup_entry list \<Rightarrow> memory" where
  "memory_of entries = fold (\<lambda>e m. m\<lparr>mem_legacy := (mem_legacy m)(identity_key e \<mapsto>
      (entry_payload_hash e, entry_observed_ns e)), mem_watermark := max (mem_watermark m) (entry_observed_ns e)\<rparr>)
    entries \<lparr>mem_seen = Map.empty, mem_legacy = Map.empty, mem_watermark = 0\<rparr>"

lemma new_dedup_refines: "refines \<lparr>mem_seen = Map.empty, mem_legacy = Map.empty, mem_watermark = 0\<rparr> new_dedup"
  by (simp add: refines_def new_dedup_def dedup_ok_def) (simp add: empty_wheel_def lost_before_def dict_get_def)

lemma load_entry_refines:
  assumes "refines m d"
  shows "refines (m\<lparr>mem_legacy := (mem_legacy m)(identity_key e \<mapsto>
      (entry_payload_hash e, entry_observed_ns e)), mem_watermark := max (mem_watermark m) (entry_observed_ns e)\<rparr>)
    (load_entry e d)"
proof -
  have le: "watermark_ns d - DEDUP_WINDOW_NS \<le> max (watermark_ns d) (entry_observed_ns e) - DEDUP_WINDOW_NS" by simp
  show ?thesis
    using assms unfolding refines_def load_entry_def dedup_ok_def
    by (simp add: schedule_ok lost_before_upd lost_before_mono [OF _ le])
qed

lemma load_refines:
  assumes "file_schema_version v = 1" "file_window_ns v = DEDUP_WINDOW_NS"
  shows "\<exists>d. load (Some v) = Inr d \<and> refines (memory_of (file_entries v)) d"
proof -
  have "refines m d \<Longrightarrow> refines (fold (\<lambda>e m. m\<lparr>mem_legacy := (mem_legacy m)(identity_key e \<mapsto>
      (entry_payload_hash e, entry_observed_ns e)), mem_watermark := max (mem_watermark m) (entry_observed_ns e)\<rparr>)
    es m) (fold load_entry es d)" for es m d
    by (induction es arbitrary: m d) (auto intro: load_entry_refines)
  from this [OF new_dedup_refines] have r: "refines (memory_of (file_entries v)) (fold load_entry (file_entries v) new_dedup)"
    by (simp add: memory_of_def)
  show ?thesis using prune_refines [OF r] assms by (auto simp: load_def Let_def)
qed

section \<open>The contract of a window filter\<close>

text \<open>The last observation of an identity in some rows, and the newest time among the observed.\<close>

fun last_seen :: "('i, 'h) dedup_row list \<Rightarrow> 'i \<Rightarrow> ('h \<times> int) option" where
  "last_seen [] i = None"
| "last_seen ((j, h, t) # rows) i =
     (case last_seen rows i of Some p \<Rightarrow> Some p | None \<Rightarrow> if j = Some i then Some (h, t) else None)"

fun newest :: "int \<Rightarrow> ('i, 'h) dedup_row list \<Rightarrow> int" where
  "newest w [] = w"
| "newest w ((j, h, t) # rows) = newest (if j = None then w else max w t) rows"

text \<open>
  What the marking of rows needs of the filter: its answer is whether the last observation of the
  identity is in the window of the newest time, two observations in the window agree on the payload,
  and an observation replaces the last one and advances the time.
\<close>

locale window_filter =
  fixes obs :: "'i \<Rightarrow> 'h \<Rightarrow> int \<Rightarrow> 's \<Rightarrow> 'e + (bool \<times> 's)"
    and good :: "'s \<Rightarrow> bool"
    and last_of :: "'s \<Rightarrow> 'i \<Rightarrow> ('h \<times> int) option"
    and now :: "'s \<Rightarrow> int"
    and window :: int
  assumes answer: "good s \<Longrightarrow> obs i h t s = Inr (dup, s') \<Longrightarrow>
      dup \<longleftrightarrow> (\<exists>h' t'. last_of s i = Some (h', t') \<and> max (now s) t - window \<le> t')"
    and agree: "good s \<Longrightarrow> obs i h t s = Inr (dup, s') \<Longrightarrow> last_of s i = Some (h', t') \<Longrightarrow>
      max (now s) t - window \<le> t' \<Longrightarrow> h' = h"
    and step: "good s \<Longrightarrow> obs i h t s = Inr (dup, s') \<Longrightarrow>
      good s' \<and> last_of s' = (last_of s)(i \<mapsto> (h, t)) \<and> now s' = max (now s) t"
begin

lemma flags_meaning:
  assumes "good s" "mark_with obs rows s = Inr (flags, s')"
  shows "length flags = length rows \<and> (\<forall>j < length rows. case rows ! j of
      (None, _, _) \<Rightarrow> \<not> flags ! j
    | (Some i, h, t) \<Rightarrow>
        (flags ! j \<longleftrightarrow> (\<exists>h' t'. (case last_seen (take j rows) i of Some p \<Rightarrow> Some p | None \<Rightarrow> last_of s i) = Some (h', t') \<and>
           newest (now s) (take (Suc j) rows) - window \<le> t')) \<and>
        (flags ! j \<longrightarrow> (\<exists>t'. (case last_seen (take j rows) i of Some p \<Rightarrow> Some p | None \<Rightarrow> last_of s i) = Some (h, t'))))"
  using assms
proof (induction rows arbitrary: s flags)
  case (Cons r rows)
  obtain i h t where r: "r = (i, h, t)" by (cases r)
  obtain dup s1 flags' where first: "(case i of None \<Rightarrow> Inr (False, s) | Some i \<Rightarrow> obs i h t s) = Inr (dup, s1)"
    and rest: "mark_with obs rows s1 = Inr (flags', s')" and flags: "flags = dup # flags'"
    using Cons.prems(2) r by (auto simp: rbind_Inr_iff)
  have s1: "good s1 \<and> last_of s1 = (case i of None \<Rightarrow> last_of s | Some i \<Rightarrow> (last_of s)(i \<mapsto> (h, t))) \<and>
      now s1 = (if i = None then now s else max (now s) t)"
    using first Cons.prems(1) step by (cases i) auto
  note IH = Cons.IH [OF conjunct1 [OF s1] rest]
  have comb: "(case last_seen xs k of Some p \<Rightarrow> Some p | None \<Rightarrow> last_of s1 k) =
      (case last_seen ((i, h, t) # xs) k of Some p \<Rightarrow> Some p | None \<Rightarrow> last_of s k)" for xs k
    using s1 by (auto split: option.split)
  show ?case
  proof (intro conjI allI impI)
    show "length flags = length (r # rows)" using IH flags by simp
  next
    fix j assume j: "j < length (r # rows)"
    show "case (r # rows) ! j of (None, _, _) \<Rightarrow> \<not> flags ! j
    | (Some i, h, t) \<Rightarrow>
        (flags ! j \<longleftrightarrow> (\<exists>h' t'. (case last_seen (take j (r # rows)) i of Some p \<Rightarrow> Some p | None \<Rightarrow> last_of s i) = Some (h', t') \<and>
           newest (now s) (take (Suc j) (r # rows)) - window \<le> t')) \<and>
        (flags ! j \<longrightarrow> (\<exists>t'. (case last_seen (take j (r # rows)) i of Some p \<Rightarrow> Some p | None \<Rightarrow> last_of s i) = Some (h, t')))"
    proof (cases j)
      case 0
      show ?thesis
      proof (cases i)
        case None
        then show ?thesis using 0 r flags first by simp
      next
        case (Some k)
        then have "obs k h t s = Inr (dup, s1)" using first by simp
        then show ?thesis using 0 r flags Some answer [OF Cons.prems(1)] agree [OF Cons.prems(1)] by fastforce
      qed
    next
      case (Suc j')
      have j': "j' < length rows" using j Suc by simp
      have shift: "(r # rows) ! j = rows ! j'" "flags ! j = flags' ! j'"
        "take j (r # rows) = (i, h, t) # take j' rows"
        "newest (now s) (take (Suc j) (r # rows)) = newest (now s1) (take (Suc j') rows)"
        using s1 by (simp_all add: Suc flags r)
      show ?thesis unfolding shift comb [symmetric] by (rule mp [OF spec [OF conjunct2 [OF IH]] j'])
    qed
  qed
qed simp

end

interpretation reference: window_filter "spec_observe key_of" "\<lambda>m. mem_legacy m = Map.empty" mem_seen
    mem_watermark DEDUP_WINDOW_NS for key_of
proof unfold_locales
  fix m i h t dup m'
  assume good: "mem_legacy m = Map.empty" and obs: "spec_observe key_of i h t m = Inr (dup, m')"
  have "remembered key_of c i m = fresh_since c (mem_seen m i)" for c
    using good by (simp add: remembered_def fresh_since_def split: option.split)
  note spec = obs [unfolded spec_observe_def Let_def this]
  show "dup \<longleftrightarrow> (\<exists>h' t'. mem_seen m i = Some (h', t') \<and> max (mem_watermark m) t - DEDUP_WINDOW_NS \<le> t')"
    using spec by (auto simp: fresh_since_def split: if_splits option.splits)
  show "mem_legacy m' = Map.empty \<and> mem_seen m' = (mem_seen m)(i \<mapsto> (h, t)) \<and> mem_watermark m' = max (mem_watermark m) t"
    using spec good by (auto split: if_splits)
  fix h' t' assume "mem_seen m i = Some (h', t')" "max (mem_watermark m) t - DEDUP_WINDOW_NS \<le> t'"
  then show "h' = h" using spec by (auto simp: fresh_since_def split: if_splits)
qed

section \<open>Properties\<close>

text \<open>C10. The pruned, bucketed filter is the window: on any rows, from any checkpoint, it returns the
  same flags, or raises at the same row with the same error, as the reference that remembers every
  observation and lets one count while it is at most ten minutes older than the newest time seen.
  No row makes the buckets and the heap disagree.\<close>

theorem dedup_is_window:
  assumes "file_schema_version v = 1" "file_window_ns v = DEDUP_WINDOW_NS"
  shows "map_sum id fst (rbind (load (Some v)) (mark_duplicates key_of rows)) =
   map_sum id fst (mark_with (spec_observe key_of) rows (memory_of (file_entries v)))"
proof -
  obtain d where d: "load (Some v) = Inr d" "refines (memory_of (file_entries v)) d"
    using load_refines [OF assms] by blast
  show ?thesis
    using mark_refines [OF d(2), of key_of rows] d(1) by (auto simp: mark_duplicates_def split: sum.splits)
qed

definition sample_file :: dedup_file where
  "sample_file = \<lparr>file_schema_version = 1, file_window_ns = DEDUP_WINDOW_NS,
     file_entries = [\<lparr>identity_key = ''k'', entry_payload_hash = ''x'', entry_observed_ns = 0\<rparr>]\<rparr>"

lemma dedup_is_window_witness:
  "map_sum id fst (rbind (load (Some sample_file)) (mark_duplicates (\<lambda>_. ''k'') [(Some [], ''x'', DEDUP_BUCKET_NS)])) =
   (Inr [True] :: py_error + bool list)"
proof -
  have "map_sum id fst (rbind (load (Some sample_file)) (mark_duplicates (\<lambda>_. ''k'') [(Some [], ''x'', DEDUP_BUCKET_NS)])) =
    map_sum id fst (mark_with (spec_observe (\<lambda>_. ''k'')) [(Some [], ''x'', DEDUP_BUCKET_NS)] (memory_of (file_entries sample_file)))"
    by (rule dedup_is_window) (simp_all add: sample_file_def)
  also have "\<dots> = Inr [True]"
    by (simp add: sample_file_def memory_of_def spec_observe_def remembered_def fresh_since_def Let_def
        DEDUP_WINDOW_NS_def DEDUP_BUCKET_NS_def)
  finally show ?thesis .
qed

lemma fresh_flags:
  assumes "mark_duplicates key_of rows new_dedup = Inr (flags, d)"
  shows "length flags = length rows \<and> (\<forall>j < length rows. case rows ! j of
      (None, _, _) \<Rightarrow> \<not> flags ! j
    | (Some i, h, t) \<Rightarrow>
        (flags ! j \<longleftrightarrow> (\<exists>h' t'. last_seen (take j rows) i = Some (h', t') \<and>
           newest 0 (take (Suc j) rows) - DEDUP_WINDOW_NS \<le> t')) \<and>
        (flags ! j \<longrightarrow> (\<exists>t'. last_seen (take j rows) i = Some (h, t'))))"
proof -
  let ?m = "\<lparr>mem_seen = Map.empty, mem_legacy = Map.empty, mem_watermark = 0\<rparr> :: memory"
  obtain m' where m': "mark_with (spec_observe key_of) rows ?m = Inr (flags, m')"
    using mark_refines [OF new_dedup_refines, of key_of rows] assms
    by (auto simp: mark_duplicates_def split: sum.splits)
  have none: "(case p of Some p \<Rightarrow> Some p | None \<Rightarrow> mem_seen ?m i) = p" for p i by (cases p) simp_all
  have start: "mem_legacy ?m = Map.empty" "mem_watermark ?m = 0" by simp_all
  show ?thesis using reference.flags_meaning [OF start(1) m'] unfolding none start(2) .
qed

text \<open>C11. What the duplicate flags of a first day mean: a row with an identity is marked exactly when the
  last earlier row of the same identity was received at most ten minutes before the newest row so
  far, and then both carry the same payload; a row without identity is never marked.\<close>

theorem duplicate_flags_meaning:
  assumes "mark_duplicates key_of rows new_dedup = Inr (flags, d)" "j < length rows" "rows ! j = (Some i, h, t)"
  shows "flags ! j \<longleftrightarrow> (\<exists>t'. last_seen (take j rows) i = Some (h, t') \<and>
    newest 0 (take (Suc j) rows) - DEDUP_WINDOW_NS \<le> t')"
proof -
  have "(flags ! j \<longleftrightarrow> (\<exists>h' t'. last_seen (take j rows) i = Some (h', t') \<and>
           newest 0 (take (Suc j) rows) - DEDUP_WINDOW_NS \<le> t')) \<and>
        (flags ! j \<longrightarrow> (\<exists>t'. last_seen (take j rows) i = Some (h, t')))"
    using mp [OF spec [OF conjunct2 [OF fresh_flags [OF assms(1)]]] assms(2)] unfolding assms(3) by simp
  then show ?thesis by auto
qed

definition sample_rows :: "(identity, string) dedup_row list" where
  "sample_rows = [(Some ([IdText ''B'', IdInt 7]), ''x'', 5 * DEDUP_BUCKET_NS),
     (Some ([IdText ''B'', IdInt 7]), ''x'', 605 * DEDUP_BUCKET_NS),
     (Some ([IdText ''B'', IdInt 7]), ''x'', 1206 * DEDUP_BUCKET_NS)]"

lemma sample_flags:
  "\<exists>d. mark_duplicates (\<lambda>_. []) sample_rows new_dedup = Inr ([False, True, False], d)"
  by (simp add: mark_duplicates_def sample_rows_def observe_def new_dedup_def prune_def Let_def schedule_def
      empty_wheel_def fresh_since_def DEDUP_WINDOW_NS_def DEDUP_BUCKET_NS_def dict_get_def dict_set.simps dict_pop_def
      forget_entry_def cong: rbind_eval_cong)

lemma duplicate_flags_meaning_witness:
  "\<exists>t'. last_seen (take 1 sample_rows) [IdText ''B'', IdInt 7] = Some (''x'', t') \<and>
    newest 0 (take (Suc 1) sample_rows) - DEDUP_WINDOW_NS \<le> t'"
proof -
  obtain d where d: "mark_duplicates (\<lambda>_. []) sample_rows new_dedup = Inr ([False, True, False], d)"
    using sample_flags by blast
  have row: "sample_rows ! 1 = (Some [IdText ''B'', IdInt 7], ''x'', 605 * DEDUP_BUCKET_NS)"
    "1 < length sample_rows" by (simp_all add: sample_rows_def)
  have "[False, True, False] ! 1 \<longleftrightarrow> (\<exists>t'. last_seen (take 1 sample_rows) [IdText ''B'', IdInt 7] = Some (''x'', t') \<and>
    newest 0 (take (Suc 1) sample_rows) - DEDUP_WINDOW_NS \<le> t')"
    by (rule duplicate_flags_meaning [OF d row(2,1)])
  then show ?thesis by simp
qed

end
