(* ===== verification/Doubles.thy ===== *)
theory Doubles
  imports Json "HOL-Library.Log_Nat"
begin

text \<open>
  Binary64 floats as the code uses them, by their exact rational value: an arithmetic operation
  is the exact one followed by rounding to 53 significant bits, half to even. The magnitudes of the
  code are far from the limits of the exponent, so there is no overflow and no subnormal.
\<close>

definition pow2 :: "int \<Rightarrow> rat" where
  "pow2 e = (if 0 \<le> e then 2 ^ nat e else 1 / 2 ^ nat (- e))"

definition half_even :: "rat \<Rightarrow> int" where
  "half_even q =
     (let f = \<lfloor>q\<rfloor>; r = q - of_int f in
      if r < 1 / 2 then f else if 1 / 2 < r then f + 1 else if even f then f else f + 1)"

definition double_exponent :: "rat \<Rightarrow> int" where
  "double_exponent q =
     (let (n, d) = quotient_of q; e = int (floorlog 2 (nat n)) - int (floorlog 2 (nat d)) - 53 in
      if q < pow2 (e + 53) then e else e + 1)"

definition round_pos :: "rat \<Rightarrow> rat" where
  "round_pos q = (let e = double_exponent q in of_int (half_even (q / pow2 e)) * pow2 e)"

definition double :: "rat \<Rightarrow> rat" where
  "double q = (if q = 0 then 0 else if 0 < q then round_pos q else - round_pos (- q))"

definition trunc_int :: "rat \<Rightarrow> int" where
  "trunc_int r = (if r < 0 then \<lceil>r\<rceil> else \<lfloor>r\<rfloor>)"

section \<open>Exactness\<close>

lemma pow2_pos [simp]: "0 < pow2 e"
  by (simp add: pow2_def)

lemma pow2_nonzero [simp]: "pow2 e \<noteq> 0"
  using pow2_pos [of e] by linarith

lemma pow2_nat: "pow2 (int n) = 2 ^ n"
  by (simp add: pow2_def)

lemma pow2_powi: "pow2 e = 2 powi e"
  by (simp add: pow2_def power_int_def power_inverse inverse_eq_divide power_one_over)

lemma pow2_add: "pow2 (a + b) = pow2 a * pow2 b"
  by (simp add: pow2_powi power_int_add)

lemma pow2_mono: "a \<le> b \<Longrightarrow> pow2 a \<le> pow2 b"
  by (simp add: pow2_powi power_int_increasing)

lemma half_even_int [simp]: "half_even (of_int i) = i"
  by (simp add: half_even_def)

lemma floorlog_bounds:
  assumes "0 < n"
  shows "pow2 (int (floorlog 2 n) - 1) \<le> of_nat n" "of_nat n < pow2 (int (floorlog 2 n))"
proof -
  have b: "2 ^ (floorlog 2 n - 1) \<le> n" "n < 2 ^ floorlog 2 n"
    using floorlog_bounds [of n 2] assms by auto
  have "0 < floorlog 2 n" using assms b(2) by (cases "floorlog 2 n") auto
  then have "pow2 (int (floorlog 2 n) - 1) = 2 ^ (floorlog 2 n - 1)"
    using pow2_nat [of "floorlog 2 n - 1"] by (simp add: of_nat_diff)
  also have "\<dots> \<le> of_nat n" using b(1) by (metis of_nat_le_iff of_nat_numeral of_nat_power)
  finally show "pow2 (int (floorlog 2 n) - 1) \<le> of_nat n" .
  show "of_nat n < pow2 (int (floorlog 2 n))"
    using b(2) by (metis pow2_nat of_nat_less_iff of_nat_numeral of_nat_power)
qed

lemma double_exponent_bounds:
  assumes "0 < q"
  shows "pow2 (double_exponent q + 52) \<le> q"
proof -
  obtain n d where nd: "quotient_of q = (n, d)" by (cases "quotient_of q")
  have d: "0 < d" "q = of_int n / of_int d" using nd quotient_of_denom_pos quotient_of_div by blast+
  then have n: "0 < n" using assms by (simp add: zero_less_divide_iff)
  define a where "a = int (floorlog 2 (nat n))"
  define b where "b = int (floorlog 2 (nat d))"
  have "pow2 (a - 1) \<le> of_int n" using floorlog_bounds(1) [of "nat n"] n by (simp add: a_def)
  moreover have "of_int d < pow2 b" using floorlog_bounds(2) [of "nat d"] d by (simp add: b_def)
  ultimately have "pow2 (a - 1) / pow2 b \<le> q"
    unfolding d(2) using d(1) n by (intro frac_le) auto
  moreover have "pow2 (a - 1) / pow2 b = pow2 (a - b - 53 + 52)"
    by (simp add: field_simps flip: pow2_add)
  ultimately have low: "pow2 (a - b - 53 + 52) \<le> q" by simp
  have e: "double_exponent q = (if q < pow2 (a - b - 53 + 53) then a - b - 53 else a - b - 53 + 1)"
    by (simp add: double_exponent_def nd a_def b_def)
  show ?thesis
  proof (cases "q < pow2 (a - b - 53 + 53)")
    case True
    then show ?thesis using low e by simp
  next
    case False
    then show ?thesis unfolding e by (simp add: algebra_simps)
  qed
qed

lemma round_pos_exact:
  assumes "0 < m" "m < 2 ^ 53"
  shows "round_pos (of_int m * 2 ^ k) = of_int m * 2 ^ k"
proof -
  define q where "q = (of_int m * 2 ^ k :: rat)"
  define e where "e = double_exponent q"
  have q: "0 < q" using assms by (simp add: q_def)
  have "pow2 (e + 52) \<le> q" using double_exponent_bounds [OF q] by (simp add: e_def)
  also have "q < pow2 53 * pow2 (int k)"
    using assms by (simp add: q_def pow2_def)
  finally have "pow2 (e + 52) < pow2 (53 + int k)" by (simp add: pow2_add)
  then have "e \<le> int k" using pow2_mono [of "53 + int k" "e + 52"] by linarith
  then obtain j where j: "int k = int j + e" by (metis add.commute diff_add_cancel nonneg_int_cases le_iff_diff_le_0 diff_ge_0_iff_ge)
  have "(2 ^ k :: rat) = 2 ^ j * pow2 e" using pow2_add [of "int j" e] pow2_nat [of j] pow2_nat [of k] j by simp
  then have "q / pow2 e = of_int (m * 2 ^ j)" by (simp add: q_def)
  then show ?thesis
    unfolding q_def [symmetric] round_pos_def Let_def e_def [symmetric]
    by (metis half_even_int nonzero_eq_divide_eq pow2_nonzero)
qed

lemma double_exact:
  assumes "\<bar>m\<bar> < 2 ^ 53"
  shows "double (of_int m * 2 ^ k) = of_int m * 2 ^ k"
proof -
  consider "m = 0" | "0 < m" | "0 < - m" by linarith
  then show ?thesis
  proof cases
    case 3
    then have "round_pos (of_int (- m) * 2 ^ k) = of_int (- m) * 2 ^ k"
      using assms by (intro round_pos_exact) auto
    then show ?thesis using 3 by (simp add: double_def mult_less_0_iff zero_less_mult_iff)
  qed (use assms in \<open>simp_all add: double_def round_pos_exact\<close>)
qed

lemma trunc_int_of_int [simp]: "trunc_int (of_int i) = i"
  by (simp add: trunc_int_def)

end
