(* ===== verification/Calendar.thy ===== *)
theory Calendar
  imports Doubles Contracts
begin

text \<open>
  \<open>datetime.date\<close> and aware datetimes as the code prints and converts them: \<open>isoformat\<close> of a date
  in the proleptic Gregorian calendar, and \<open>int(stamp.timestamp() * 1_000_000_000)\<close>, which goes
  through two floats.
\<close>

definition civil :: "utc_date \<Rightarrow> int \<times> int \<times> int" where
  "civil d =
     (let z = d + 719468; era = z div 146097; doe = z mod 146097;
          yoe = (doe - doe div 1460 + doe div 36524 - doe div 146096) div 365;
          doy = doe - (365 * yoe + yoe div 4 - yoe div 100);
          mp = (5 * doy + 2) div 153;
          month = (if mp < 10 then mp + 3 else mp - 9) in
      (yoe + era * 400 + (if month \<le> 2 then 1 else 0), month, doy - (153 * mp + 2) div 5 + 1))"

definition zfill :: "nat \<Rightarrow> int \<Rightarrow> string" where
  "zfill n i = (let s = show_nat (nat i) in replicate (n - length s) CHR ''0'' @ s)"

definition iso_date :: "utc_date \<Rightarrow> string" where
  "iso_date d = (let (y, m, k) = civil d in zfill 4 y @ ''-'' @ zfill 2 m @ ''-'' @ zfill 2 k)"

text \<open>
  \<open>timestamp()\<close> of an aware datetime is the exact number of microseconds divided by a million, as a
  float; the product with a billion is a second float, and \<open>int\<close> truncates it.
\<close>

definition timestamp_ns :: "py_datetime \<Rightarrow> int" where
  "timestamp_ns t =
     (let us = wall_us t - (case utc_offset t of None \<Rightarrow> 0 | Some off \<Rightarrow> off) in
      trunc_int (double (double (of_int us / 1000000) * 1000000000)))"

text \<open>
  A stamp on a whole second is a multiple of 512 nanoseconds, so both floats are exact for some
  hundred years.
\<close>

lemma timestamp_whole_second:
  assumes "utc_offset t = Some 0" "wall_us t = s * 1000000" "\<bar>s\<bar> < 2 ^ 32"
  shows "timestamp_ns t = s * 1000000000"
proof -
  have "double (of_int s * 2 ^ 0) = (of_int s * 2 ^ 0 :: rat)"
    using assms(3) by (intro double_exact) auto
  then have one: "double (of_int (wall_us t) / 1000000) = of_int s" by (simp add: assms(2))
  have "\<bar>s * 1953125\<bar> < 2 ^ 53" using assms(3) by (simp add: abs_mult)
  from double_exact [OF this, of 9]
  have "double (of_int s * 1000000000) = of_int (s * 1000000000)" by (simp add: algebra_simps)
  then show ?thesis by (simp add: timestamp_ns_def Let_def assms(1) one del: of_int_mult)
qed

lemma timestamp_midnight:
  assumes "utc_offset t = Some 0" "dt_midnight t" "0 \<le> wall_us t" "dt_date t < 40000"
  shows "timestamp_ns t = midnight_ns (dt_date t)"
proof -
  let ?s = "dt_date t * 86400"
  have w: "wall_us t = ?s * 1000000"
    using assms(2) by (simp add: dt_date_def dt_midnight_def us_per_day_def flip: minus_mod_eq_mult_div)
  have "0 \<le> dt_date t" using assms(3) by (simp add: dt_date_def us_per_day_def pos_imp_zdiv_nonneg_iff)
  then have "timestamp_ns t = ?s * 1000000000"
    using assms(4) by (intro timestamp_whole_second [OF assms(1) w]) auto
  then show ?thesis by (simp add: midnight_ns_def ns_per_day_def)
qed

end
