(* ===== verification/Projection.thy ===== *)
theory Projection
  imports Contracts L2_Day
begin

text \<open>
  \<open>src/miry/contracts/l2_projection.py\<close>: the identities of the typed files a day was normalized into,
  the marker of the per-symbol projection of a day and the check of one projected file, with
  \<open>partitioned_l2_input\<close> of \<open>src/miry/pipeline/l2.py\<close>, which picks the file of one symbol. The
  content hash, a prefixed SHA-256 of canonical JSON, is a parameter; objects are built with their keys
  in the order in which the canonical form sorts them or in one fixed order.
\<close>

type_synonym json_obj = "(string \<times> json) list"

section \<open>Values of a decoded document\<close>

text \<open>\<open>isinstance(value, int) and not isinstance(value, bool)\<close>.\<close>

definition plain_int :: "json \<Rightarrow> int option" where
  "plain_int v = (case v of JInt i \<Rightarrow> Some i | _ \<Rightarrow> None)"

definition json_text :: "json \<Rightarrow> string option" where
  "json_text v = (case v of JStr s \<Rightarrow> Some s | _ \<Rightarrow> None)"

definition obj_keys :: "json_obj \<Rightarrow> string set" where
  "obj_keys o' = set (map fst o')"

text \<open>\<open>value or ()\<close>, then \<open>tuple\<close>: a list, a dict's keys or the characters of a text; else not iterable.\<close>

definition falsy :: "json \<Rightarrow> bool" where
  "falsy v \<longleftrightarrow> v \<in> {JNull, JBool False, JInt 0, JStr [], JList [], JObj []} \<or> (case v of JFloat r _ \<Rightarrow> r = 0 | _ \<Rightarrow> False)"

definition tuple_or_empty :: "json \<Rightarrow> py_error + json list" where
  "tuple_or_empty v =
     (if falsy v then Inr []
      else case v of
          JList vs \<Rightarrow> Inr vs
        | JObj kvs \<Rightarrow> Inr (map (JStr \<circ> fst) kvs)
        | JStr s \<Rightarrow> Inr (map (\<lambda>c. JStr [c]) s)
        | _ \<Rightarrow> Inl (TypeError ''object is not iterable''))"

text \<open>Python refuses lists and dicts in a set.\<close>

definition hashable :: "json \<Rightarrow> bool" where
  "hashable v \<longleftrightarrow> (case v of JList _ \<Rightarrow> False | JObj _ \<Rightarrow> False | _ \<Rightarrow> True)"

section \<open>Source file identities\<close>

definition prefixed_hash :: "string \<Rightarrow> bool" where
  "prefixed_hash s \<longleftrightarrow> take 7 s = ''sha256:'' \<and> hash_pattern (drop 7 s)"

definition identity_payload :: "json \<Rightarrow> json \<Rightarrow> json \<Rightarrow> json" where
  "identity_payload uri sz h = JObj [(''uri'', uri), (''size_bytes'', sz), (''content_hash'', h)]"

text \<open>\<open>source_file_identity\<close> of a file with a size and a hexadecimal SHA-256.\<close>

definition source_file_identity :: "(json \<Rightarrow> string) \<Rightarrow> string \<Rightarrow> int \<Rightarrow> string \<Rightarrow> json" where
  "source_file_identity content_hash uri sz sha =
     (let h = JStr (''sha256:'' @ sha) in
      JObj [(''uri'', JStr uri), (''size_bytes'', JInt sz), (''content_hash'', h),
        (''identity_hash'', JStr (content_hash (identity_payload (JStr uri) (JInt sz) h)))])"

definition identity_fields_valid :: "json_obj \<Rightarrow> bool" where
  "identity_fields_valid item \<longleftrightarrow>
     (case (jget item ''uri'', plain_int (jget item ''size_bytes''), jget item ''content_hash'', jget item ''identity_hash'') of
        (JStr uri, Some sz, JStr source_hash, JStr identity_hash) \<Rightarrow>
          uri \<noteq> [] \<and> \<not> path_absolute uri \<and> ''..'' \<notin> set (path_parts uri) \<and> 1 \<le> sz \<and>
          prefixed_hash source_hash \<and> prefixed_hash identity_hash
      | _ \<Rightarrow> False)"

definition validate_identity :: "(json \<Rightarrow> string) \<Rightarrow> json \<Rightarrow> py_error + string" where
  "validate_identity content_hash v =
     (case v of
        JObj item \<Rightarrow>
          if obj_keys item \<noteq> {''uri'', ''size_bytes'', ''content_hash'', ''identity_hash''} \<or>
             \<not> identity_fields_valid item then Inl (ValueError ''typed source identity invalid'')
          else if jget item ''identity_hash'' \<noteq> JStr (content_hash (identity_payload (jget item ''uri'')
              (jget item ''size_bytes'') (jget item ''content_hash''))) then
            Inl (ValueError ''typed source identity hash invalid'')
          else Inr (case jget item ''uri'' of JStr uri \<Rightarrow> uri | _ \<Rightarrow> [])
      | _ \<Rightarrow> Inl (ValueError ''typed source identity invalid''))"

definition validate_source_file_identities :: "(json \<Rightarrow> string) \<Rightarrow> json \<Rightarrow> json \<Rightarrow> py_error + json list" where
  "validate_source_file_identities content_hash values expected_set_hash =
     (case values of
        JList identities \<Rightarrow>
          if JStr (content_hash (JList identities)) \<noteq> expected_set_hash then
            Inl (ValueError ''typed source file set hash invalid'')
          else rbind (map_result (validate_identity content_hash) identities) (\<lambda>uris.
            if uris \<noteq> sort (remdups uris) then
              Inl (ValueError ''typed source identities must be ordered and unique'')
            else Inr identities)
      | _ \<Rightarrow> Inl (ValueError ''typed source identities must be an array''))"

section \<open>The marker of a projection\<close>

definition L2_SYMBOL_PROJECTION_SCHEMA_ID :: string where
  "L2_SYMBOL_PROJECTION_SCHEMA_ID = ''miry.market-data/l2-symbol-projection/v1''"

definition L2_SYMBOL_PROJECTION_SCHEMA_HASH :: string where
  "L2_SYMBOL_PROJECTION_SCHEMA_HASH =
     ''sha256:987bf197829779e96a7e5bee9b57d90b267e5388d75de108ec75dce57fc60457''"

definition marker_fields :: "string set" where
  "marker_fields = {''schema_version'', ''schema_id'', ''schema_hash'', ''layout'', ''canonical_replay'',
     ''data_role'', ''retention_policy'', ''minimum_retention_days'', ''collector_id'', ''utc_date'',
     ''normalized_sha256'', ''typed_source_files'', ''typed_source_file_set_hash'', ''symbols'', ''files'',
     ''schedule'', ''ignored_rows'', ''total_rows'', ''total_bytes'', ''output_root''}"

text \<open>What a projection must be of: collector, day, hash of the normalized marker, symbols.\<close>

record projection_key =
  pk_collector_id :: string
  pk_utc_date :: string
  pk_normalized_sha256 :: string
  pk_symbols :: "string list"

definition marker_head_valid :: "projection_key \<Rightarrow> json_obj \<Rightarrow> bool" where
  "marker_head_valid key m \<longleftrightarrow>
     obj_keys m = marker_fields \<and> equals_int (jget m ''schema_version'') 3 \<and>
     jget m ''schema_id'' = JStr L2_SYMBOL_PROJECTION_SCHEMA_ID \<and>
     jget m ''schema_hash'' = JStr L2_SYMBOL_PROJECTION_SCHEMA_HASH \<and>
     jget m ''layout'' = JStr ''PER_SYMBOL_L2_CAUSAL_V1'' \<and> jget m ''canonical_replay'' = JBool False \<and>
     jget m ''data_role'' = JStr ''PERFORMANCE_PROJECTION'' \<and>
     jget m ''retention_policy'' = JStr ''BOUNDED_REGENERABLE'' \<and>
     (case plain_int (jget m ''minimum_retention_days'') of None \<Rightarrow> False | Some n \<Rightarrow> 7 \<le> n) \<and>
     jget m ''collector_id'' = JStr (pk_collector_id key) \<and> jget m ''utc_date'' = JStr (pk_utc_date key) \<and>
     jget m ''normalized_sha256'' = JStr (pk_normalized_sha256 key)"

definition schedule_valid :: "projection_key \<Rightarrow> json list \<Rightarrow> bool" where
  "schedule_valid key schedule \<longleftrightarrow>
     length schedule = card (set schedule) \<and> set schedule = JStr ` set (pk_symbols key)"

definition file_record_valid :: "json \<Rightarrow> (int \<times> int) option" where
  "file_record_valid v =
     (case v of
        JObj item \<Rightarrow>
          (case (plain_int (jget item ''rows''), plain_int (jget item ''size_bytes''), jget item ''sha256'') of
             (Some rows, Some sz, JStr h) \<Rightarrow>
               if obj_keys item = {''rows'', ''size_bytes'', ''sha256''} \<and> 1 \<le> rows \<and> 1 \<le> sz \<and> hash_pattern h
               then Some (rows, sz) else None
           | _ \<Rightarrow> None)
      | _ \<Rightarrow> None)"

definition add_file_record :: "int \<times> int \<Rightarrow> string \<times> json \<Rightarrow> py_error + (int \<times> int)" where
  "add_file_record = (\<lambda>(rows, sz) (_, v).
     case file_record_valid v of
       None \<Rightarrow> Inl (ValueError ''L2 symbol projection file record invalid'')
     | Some (r, s) \<Rightarrow> Inr (rows + r, sz + s))"

definition ignored_rows_valid :: "json \<Rightarrow> bool" where
  "ignored_rows_valid v \<longleftrightarrow>
     (case v of
        JObj kvs \<Rightarrow> list_all (\<lambda>(_, n). case plain_int n of None \<Rightarrow> False | Some i \<Rightarrow> 0 \<le> i) kvs
      | _ \<Rightarrow> False)"

definition marker_identity_error :: py_error where
  "marker_identity_error = ValueError ''L2 symbol projection marker identity invalid''"

definition validate_marker :: "(json \<Rightarrow> string) \<Rightarrow> projection_key \<Rightarrow> json_obj \<Rightarrow> py_error + json_obj" where
  "validate_marker content_hash key m =
     rbind (tuple_or_empty (jget m ''schedule'')) (\<lambda>schedule.
     if \<not> marker_head_valid key m then Inl marker_identity_error
     else rbind (tuple_or_empty (jget m ''symbols'')) (\<lambda>symbols.
     if symbols \<noteq> map JStr (pk_symbols key) then Inl marker_identity_error
     else if list_ex (\<lambda>v. \<not> hashable v) schedule then Inl (TypeError ''unhashable type'')
     else if \<not> schedule_valid key schedule then Inl marker_identity_error
     else
       (case (jget m ''typed_source_files'', jget m ''files'') of
          (JList sources, JObj files) \<Rightarrow>
            rbind (validate_source_file_identities content_hash (JList sources)
                (jget m ''typed_source_file_set_hash'')) (\<lambda>_.
            if obj_keys files \<noteq> set (pk_symbols key) then
              Inl (ValueError ''L2 symbol projection file universe invalid'')
            else rbind (fold_result add_file_record (0, 0) files) (\<lambda>(rows, sz).
              if \<not> ignored_rows_valid (jget m ''ignored_rows'') \<or>
                 \<not> equals_int (jget m ''total_rows'') rows \<or> \<not> equals_int (jget m ''total_bytes'') sz \<or>
                 (case jget m ''output_root'' of JStr s \<Rightarrow> s = [] | _ \<Rightarrow> True) then
                Inl (ValueError ''L2 symbol projection marker totals invalid'')
              else Inr files))
        | _ \<Rightarrow> Inl marker_identity_error)))"

section \<open>One projected file\<close>

record shard_file =
  sh_size :: int
  sh_sha256 :: string
  sh_num_rows :: int
  sh_schema_matches :: bool

definition validate_shard :: "shard_file option \<Rightarrow> json_obj \<Rightarrow> py_error + unit" where
  "validate_shard file details =
     (case file of
        None \<Rightarrow> Inl (ValueError ''L2 symbol projection shard invalid'')
      | Some f \<Rightarrow>
          rbind (case map_of details ''size_bytes'' of None \<Rightarrow> Inr (- 1) | Some v \<Rightarrow> py_int v) (\<lambda>sz.
          if sh_size f \<noteq> sz \<or> JStr (sh_sha256 f) \<noteq> jget details ''sha256'' then
            Inl (ValueError ''L2 symbol projection shard invalid'')
          else
            (case map_of details ''rows'' of
               None \<Rightarrow> Inl (KeyError ''rows'')
             | Some v \<Rightarrow> rbind (py_int v) (\<lambda>rows.
                 if sh_num_rows f \<noteq> rows \<or> \<not> sh_schema_matches f then
                   Inl (ValueError ''L2 symbol projection Parquet contract invalid'')
                 else Inr ()))))"

text \<open>
  \<open>partitioned_l2_input\<close>: no projection, no input; otherwise the file of the symbol, valid under the
  marker. The result says whether there is one.
\<close>

definition symbol_text :: "json \<Rightarrow> string" where
  "symbol_text v = (case v of JStr s \<Rightarrow> s | _ \<Rightarrow> [])"

definition partitioned_l2_input ::
    "(json \<Rightarrow> string) \<Rightarrow> string \<Rightarrow> string \<Rightarrow> string \<Rightarrow> json_obj option \<Rightarrow> (json_obj \<times> string) option \<Rightarrow>
     (string \<Rightarrow> shard_file option) \<Rightarrow> py_error + shard_file option" where
  "partitioned_l2_input content_hash collector utc_date symbol marker normalized shards =
     (case marker of
        None \<Rightarrow> Inr None
      | Some m \<Rightarrow>
          (case normalized of
             None \<Rightarrow> Inl (FileNotFoundError ''_NORMALIZED.json'')
           | Some (normal, norm_sha) \<Rightarrow>
               rbind (tuple_or_empty (jget normal ''expected_symbols'')) (\<lambda>expected.
               if list_ex (\<lambda>v. json_text v = None) expected then Inl marker_identity_error
               else
                 rbind (validate_marker content_hash \<lparr>pk_collector_id = collector, pk_utc_date = utc_date,
                     pk_normalized_sha256 = norm_sha, pk_symbols = map symbol_text expected\<rparr> m) (\<lambda>files.
                 case jget files symbol of
                   JObj item \<Rightarrow>
                     rbind (case map_of item ''rows'' of None \<Rightarrow> Inr 0 | Some v \<Rightarrow> py_int v) (\<lambda>rows.
                     if rows \<le> 0 then Inl (ValueError ''invalid L2 input cache'')
                     else rbind (validate_shard (shards symbol) item) (\<lambda>_. Inr (shards symbol)))
                 | _ \<Rightarrow> Inl (ValueError ''invalid L2 input cache'')))))"

end
