(* ===== verification/Normalize.thy ===== *)
theory Normalize
  imports Dedup Calendar Projection Quality
begin

text \<open>
  \<open>src/miry/pipeline/normalize.py\<close>, \<open>DayNormalizer\<close>: the sealed day and its chunk manifests are
  checked, each Parquet chunk is verified and parsed, duplicates are flagged, and the marker names the
  collection window and the active universe. Files, Parquet footers and decoded JSON payloads are
  inputs; the typed files and the marker are the result.
\<close>

section \<open>Inputs\<close>

record parquet_file =
  pq_schema_matches :: bool
  pq_metadata :: "(string, string) dict"
  pq_num_rows :: int
  pq_statistics :: "(int \<times> int) option list"
  pq_rows :: "raw_row list"

record chunk_file =
  cf_size :: int
  cf_sha256 :: string
  cf_parquet :: parquet_file

text \<open>
  The parameters: the parser's, the Unicode tables, the hash of a universe, the decoding of a
  universe decision and of an ISO time stamp, the digest of an identity, and the size and hash of a
  typed file.
\<close>

record normalize_env =
  ne_parse :: parse_env
  ne_unicode :: unicode
  ne_universe_hash :: "string list \<Rightarrow> string list \<Rightarrow> string list \<Rightarrow> string"
  ne_decode_decision :: "json option \<Rightarrow> py_error + universe_decision"
  ne_fromisoformat :: "string \<Rightarrow> py_datetime option"
  ne_content_hash :: "json \<Rightarrow> string"
  ne_identity_key :: "identity \<Rightarrow> string"
  ne_typed_file :: "typed_row list \<Rightarrow> int \<times> string"

record day_source =
  ds_collector_id :: string
  ds_date :: utc_date
  ds_day_manifest :: "day_manifest option"
  ds_day_manifest_sha256 :: string
  ds_chunk_manifest :: "string \<Rightarrow> chunk_manifest option"
  ds_chunk_file :: "string \<Rightarrow> chunk_file option"
  ds_previous_dedup :: "dedup_file option"
  ds_stale_typed :: "(string, int \<times> string) dict"

section \<open>Manifests\<close>

definition load_day_manifest :: "day_source \<Rightarrow> py_error + day_manifest" where
  "load_day_manifest src =
     (case ds_day_manifest src of
        None \<Rightarrow> Inl (FileNotFoundError ''sealed day manifest does not exist'')
      | Some raw \<Rightarrow>
          rbind (validate_day_manifest raw) (\<lambda>manifest.
          if dm_collector_id manifest \<noteq> ds_collector_id src \<or> dm_utc_date manifest \<noteq> ds_date src then
            Inl (ValueError ''sealed day manifest identity mismatch'')
          else Inr manifest))"

definition load_chunk_manifest :: "day_source \<Rightarrow> chunk_ref \<Rightarrow> py_error + chunk_manifest" where
  "load_chunk_manifest src chunk =
     (case ds_chunk_manifest src (data_path chunk) of
        None \<Rightarrow> Inl (FileNotFoundError ''chunk manifest'')
      | Some raw \<Rightarrow>
          rbind (validate_chunk_manifest raw) (\<lambda>manifest.
          if as_ref manifest \<noteq> chunk then Inl (ValueError ''day/chunk manifest disagreement'')
          else if cm_collector_id manifest \<noteq> ds_collector_id src then Inl (ValueError ''chunk collector mismatch'')
          else if cm_utc_date manifest \<noteq> ds_date src then Inl (ValueError ''chunk UTC date mismatch'')
          else if butlast (path_parts (data_path manifest)) \<noteq>
              [''date='' @ iso_date (ds_date src), ''writer='' @ writer_group_value (cm_writer_group manifest)] then
            Inl (ValueError ''chunk path/writer mismatch'')
          else Inr manifest))"

definition load_chunk_manifests :: "day_source \<Rightarrow> day_manifest \<Rightarrow> py_error + chunk_manifest list" where
  "load_chunk_manifests src day = map_result (load_chunk_manifest src) (chunks day)"

section \<open>Chunks\<close>

definition verify_chunk :: "chunk_file \<Rightarrow> chunk_manifest \<Rightarrow> py_error + unit" where
  "verify_chunk f manifest =
     check (cf_size f = size_bytes manifest \<and> cf_sha256 f = chunk_sha256 manifest)
       (ValueError ''raw chunk integrity failure'')"

definition expected_metadata :: "chunk_manifest \<Rightarrow> (string \<times> string) list" where
  "expected_metadata m =
     [(''chunk_id'', chunk_id m), (''collector_id'', cm_collector_id m),
      (''data_contract_hash'', data_contract_hash m), (''universe_hash'', cm_universe_hash m),
      (''utc_date'', iso_date (cm_utc_date m)), (''writer_group'', writer_group_value (cm_writer_group m))]"

definition verify_parquet :: "day_source \<Rightarrow> parquet_file \<Rightarrow> chunk_manifest \<Rightarrow> py_error + unit" where
  "verify_parquet src pq m =
     (if \<not> pq_schema_matches pq then Inl (ValueError ''raw schema mismatch'')
      else if list_ex (\<lambda>(k, v). dict_get (pq_metadata pq) k \<noteq> Some v) (expected_metadata m) then
        Inl (ValueError ''raw metadata mismatch'')
      else if pq_num_rows pq \<noteq> event_count m then Inl (ValueError ''raw event count mismatch'')
      else if pq_statistics pq = [] \<or> None \<in> set (pq_statistics pq) then
        Inl (ValueError ''raw receive time statistics unavailable'')
      else
        let stats = map the (pq_statistics pq);
            lo = fold min (map fst (tl stats)) (fst (hd stats));
            hi = fold max (map snd (tl stats)) (snd (hd stats)) in
        if lo \<noteq> min_app_receive_realtime_ns m \<or> hi \<noteq> max_app_receive_realtime_ns m then
          Inl (ValueError ''raw receive time range mismatch'')
        else if \<not> (midnight_ns (ds_date src) \<le> lo \<and> lo \<le> hi \<and> hi < midnight_ns (ds_date src) + ns_per_day) then
          Inl (ValueError ''raw receive time range falls outside UTC date'')
        else Inr ())"

record parsed_chunk =
  pc_raw_events :: int
  pc_rows :: "typed_row list"
  pc_formal_starts :: "(int \<times> json option \<times> string) list"
  pc_universe_events :: "(json option \<times> string) list"

definition parse_row :: "normalize_env \<Rightarrow> string \<Rightarrow> parsed_chunk \<Rightarrow> raw_row \<Rightarrow> py_error + parsed_chunk" where
  "parse_row env h p raw =
     (let p1 = p\<lparr>pc_raw_events := pc_raw_events p + 1\<rparr>;
          p2 = (if raw_stream_type raw = stream_value FORMAL_COLLECTION_STARTED then
                  p1\<lparr>pc_formal_starts := pc_formal_starts p1 @ [(raw_realtime_ns raw, raw_payload raw, h)]\<rparr>
                else if raw_stream_type raw = stream_value UNIVERSE_DECISION then
                  p1\<lparr>pc_universe_events := pc_universe_events p1 @ [(raw_payload raw, h)]\<rparr>
                else p1) in
      rbind (parse_typed_row (ne_parse env) raw) (\<lambda>typed.
      case typed of None \<Rightarrow> Inr p2 | Some row \<Rightarrow> Inr (p2\<lparr>pc_rows := pc_rows p2 @ [row]\<rparr>)))"

definition empty_parsed :: parsed_chunk where
  "empty_parsed = \<lparr>pc_raw_events = 0, pc_rows = [], pc_formal_starts = [], pc_universe_events = []\<rparr>"

definition parse_chunk :: "normalize_env \<Rightarrow> day_source \<Rightarrow> chunk_manifest \<Rightarrow> py_error + parsed_chunk" where
  "parse_chunk env src m =
     (case ds_chunk_file src (data_path m) of
        None \<Rightarrow> Inl (FileNotFoundError ''raw chunk'')
      | Some f \<Rightarrow>
          rbind (verify_chunk f m) (\<lambda>_.
          rbind (verify_parquet src (cf_parquet f) m) (\<lambda>_.
          fold_result (parse_row env (cm_universe_hash m)) empty_parsed (pq_rows (cf_parquet f)))))"

section \<open>Control events\<close>

definition formal_start_payload :: "normalize_env \<Rightarrow> json option \<Rightarrow> py_error + json_obj" where
  "formal_start_payload env raw =
     (case raw of
        None \<Rightarrow> Inl (ValueError ''invalid JSON'')
      | Some (JObj v) \<Rightarrow>
          if jget v ''event'' \<noteq> JStr ''FORMAL_COLLECTION_STARTED'' then
            Inl (ValueError ''invalid formal collection start event'')
          else if (case jget v ''experiment_id'' of JStr s \<Rightarrow> s = [] | _ \<Rightarrow> True) then
            Inl (ValueError ''formal start has no experiment ID'')
          else
            (case (plain_int (jget v ''core_generation''), plain_int (jget v ''candidate_revision''),
                plain_int (jget v ''decision_sequence'')) of
               (Some g, Some r, Some q) \<Rightarrow>
                 if g < 1 \<or> r < 0 \<or> q < 1 \<or> jget v ''universe_version'' \<noteq> JStr (version_text g r) then
                   Inl (ValueError ''formal start has an invalid structured universe version'')
                 else if (case jget v ''universe_hash'' of JStr _ \<Rightarrow> False | _ \<Rightarrow> True) then
                   Inl (ValueError ''formal start has no universe hash'')
                 else
                   (case map_of v ''started_at'' of
                      None \<Rightarrow> Inl (ValueError ''formal start has an invalid started_at'')
                    | Some started \<Rightarrow>
                        (case ne_fromisoformat env (text_of (ne_parse env) started) of
                           None \<Rightarrow> Inl (ValueError ''formal start has an invalid started_at'')
                         | Some t \<Rightarrow>
                             if utc_offset t \<noteq> Some 0 then
                               Inl (ValueError ''formal start started_at must be UTC'')
                             else Inr v))
             | _ \<Rightarrow> Inl (ValueError ''formal start has invalid structured universe version fields''))
      | Some _ \<Rightarrow> Inl (ValueError ''invalid formal collection start event''))"

definition read_decision :: "normalize_env \<Rightarrow> json option \<Rightarrow> py_error + universe_decision" where
  "read_decision env payload =
     rbind (ne_decode_decision env payload) (validate_universe_decision (ne_unicode env) (ne_universe_hash env))"

text \<open>The universe in force: the last decision effective by then, by sequence and effective time.\<close>

definition active_universe ::
    "(universe_decision \<times> string) list \<Rightarrow> int \<Rightarrow> py_error + universe_decision option" where
  "active_universe events at_time =
     (case first_max (\<lambda>(d, _). (decision_sequence d, wall_us (effective_at d)))
         (filter (\<lambda>(d, _). timestamp_ns (effective_at d) \<le> at_time) events) of
        None \<Rightarrow> Inr None
      | Some (d, chunk_hash) \<Rightarrow>
          if ud_universe_hash d \<noteq> chunk_hash then
            Inl (ValueError ''active universe event/chunk hash mismatch'')
          else Inr (Some d))"

definition validate_formal_start :: "int \<times> json_obj \<times> string \<Rightarrow> universe_decision \<Rightarrow> py_error + unit" where
  "validate_formal_start = (\<lambda>(_, payload, chunk_hash) active.
     check (equals_int (jget payload ''core_generation'') (core_generation active) \<and>
        equals_int (jget payload ''candidate_revision'') (candidate_revision active) \<and>
        equals_int (jget payload ''decision_sequence'') (decision_sequence active) \<and>
        jget payload ''universe_version'' = JStr (universe_version active) \<and>
        jget payload ''universe_hash'' = JStr (ud_universe_hash active) \<and>
        chunk_hash = ud_universe_hash active)
       (ValueError ''formal start/universe identity mismatch''))"

section \<open>The run\<close>

text \<open>\<open>_deduplicate_typed\<close>: the rows of one typed file with their flags, and the filter after them.\<close>

fun deduplicate_typed :: "(identity \<Rightarrow> string) \<Rightarrow> typed_row list \<Rightarrow> dedup \<Rightarrow> py_error + (typed_row list \<times> dedup)" where
  "deduplicate_typed key_of [] d = Inr ([], d)"
| "deduplicate_typed key_of (row # rows) d =
     rbind (logical_identity row) (\<lambda>i.
     rbind (case i of
              None \<Rightarrow> Inr (False, d)
            | Some i \<Rightarrow> observe key_of i (ty_payload_hash row) (ty_app_receive_realtime_ns row) d) (\<lambda>(dup, d').
     rbind (deduplicate_typed key_of rows d') (\<lambda>(rows', d'').
     Inr (row\<lparr>ty_is_duplicate := dup\<rparr> # rows', d''))))"

record normalize_state =
  ns_dedup :: dedup
  ns_formal_starts :: "(int \<times> json_obj \<times> string) list"
  ns_universe_events :: "(universe_decision \<times> string) list"
  ns_raw :: int
  ns_typed :: int
  ns_duplicates :: int
  ns_outputs :: int
  ns_files :: "(string, typed_row list) dict"

definition normalize_chunk ::
    "normalize_env \<Rightarrow> day_source \<Rightarrow> normalize_state \<Rightarrow> chunk_manifest \<Rightarrow> py_error + normalize_state" where
  "normalize_chunk env src st m =
     rbind (parse_chunk env src m) (\<lambda>p.
     rbind (map_result (\<lambda>(ns, payload, h). rbind (formal_start_payload env payload) (\<lambda>v. Inr (ns, v, h)))
         (pc_formal_starts p)) (\<lambda>starts.
     rbind (map_result (\<lambda>(payload, h). rbind (read_decision env payload) (\<lambda>d. Inr (d, h)))
         (pc_universe_events p)) (\<lambda>decisions.
     let st1 = st\<lparr>ns_raw := ns_raw st + pc_raw_events p, ns_typed := ns_typed st + int (length (pc_rows p)),
           ns_formal_starts := ns_formal_starts st @ starts,
           ns_universe_events := ns_universe_events st @ decisions\<rparr> in
     if pc_rows p = [] then Inr st1
     else rbind (deduplicate_typed (ne_identity_key env) (pc_rows p) (ns_dedup st1)) (\<lambda>(rows, d).
       Inr (st1\<lparr>ns_dedup := d,
         ns_duplicates := ns_duplicates st1 + int (length (filter ty_is_duplicate rows)),
         ns_outputs := ns_outputs st1 + 1,
         ns_files := dict_set (chunk_id m) rows (ns_files st1)\<rparr>)))))"

record normalize_result =
  nr_state :: normalize_state
  nr_checkpoint :: dedup_file
  nr_marker :: json_obj

definition opt_json :: "('a \<Rightarrow> json) \<Rightarrow> 'a option \<Rightarrow> json" where
  "opt_json f v = (case v of None \<Rightarrow> JNull | Some x \<Rightarrow> f x)"

text \<open>The typed files of the day's directory in order of their names, those of an earlier run included.\<close>

definition typed_inventory :: "normalize_env \<Rightarrow> day_source \<Rightarrow> normalize_state \<Rightarrow> (string \<times> int \<times> string) list" where
  "typed_inventory env src st =
     sort_key fst (fold (\<lambda>(name, rows). dict_set (name @ ''.typed.parquet'') (ne_typed_file env rows)) (ns_files st)
       (ds_stale_typed src))"

definition typed_uri :: "string \<Rightarrow> utc_date \<Rightarrow> string \<Rightarrow> string" where
  "typed_uri collector d name = ''derived/typed/collector='' @ collector @ ''/date='' @ iso_date d @ ''/'' @ name"

definition typed_source_files :: "normalize_env \<Rightarrow> day_source \<Rightarrow> normalize_state \<Rightarrow> json list" where
  "typed_source_files env src st =
     map (\<lambda>(name, n, sha). source_file_identity (ne_content_hash env)
         (typed_uri (ds_collector_id src) (ds_date src) name) n sha)
       (typed_inventory env src st)"

definition normalized_marker ::
    "normalize_env \<Rightarrow> day_source \<Rightarrow> normalize_state \<Rightarrow> int \<Rightarrow> (int \<times> json_obj \<times> string) option \<Rightarrow>
     universe_decision option \<Rightarrow> json_obj" where
  "normalized_marker env src st window_start formal_start active =
     [(''schema_version'', JInt 1), (''collector_id'', JStr (ds_collector_id src)),
      (''utc_date'', JStr (iso_date (ds_date src))),
      (''raw_events'', JInt (ns_raw st)), (''typed_events'', JInt (ns_typed st)),
      (''duplicate_events'', JInt (ns_duplicates st)), (''output_files'', JInt (ns_outputs st)),
      (''typed_source_files'', JList (typed_source_files env src st)),
      (''typed_source_file_set_hash'', JStr (ne_content_hash env (JList (typed_source_files env src st)))),
      (''collection_window_start_ns'', JInt window_start),
      (''collection_window_end_ns'', JInt (midnight_ns (ds_date src) + ns_per_day)),
      (''formal_start_realtime_ns'', opt_json (\<lambda>(ns, _). JInt ns) formal_start),
      (''formal_start_experiment_id'', opt_json (\<lambda>(_, payload, _). jget payload ''experiment_id'') formal_start),
      (''expected_symbols'', opt_json (\<lambda>d. JList (map JStr (members d))) active),
      (''core_generation'', opt_json (\<lambda>d. JInt (core_generation d)) active),
      (''candidate_revision'', opt_json (\<lambda>d. JInt (candidate_revision d)) active),
      (''decision_sequence'', opt_json (\<lambda>d. JInt (decision_sequence d)) active),
      (''universe_version'', opt_json (\<lambda>d. JStr (universe_version d)) active),
      (''universe_hash'', opt_json (\<lambda>d. JStr (ud_universe_hash d)) active),
      (''sealed_manifest_sha256'', JStr (ds_day_manifest_sha256 src)),
      (''dedup_window_ns'', JInt DEDUP_WINDOW_NS)]"

text \<open>\<open>collection_window_start_ns = formal_start_ns or self._day_start_ns\<close>: a start at 0 counts as none.\<close>

definition window_start_of :: "day_source \<Rightarrow> (int \<times> json_obj \<times> string) option \<Rightarrow> int" where
  "window_start_of src formal_start =
     (case formal_start of
        Some (ns, _) \<Rightarrow> if ns = 0 then midnight_ns (ds_date src) else ns
      | None \<Rightarrow> midnight_ns (ds_date src))"

definition normalize_run :: "normalize_env \<Rightarrow> day_source \<Rightarrow> py_error + normalize_result" where
  "normalize_run env src =
     rbind (load_day_manifest src) (\<lambda>day.
     rbind (load_chunk_manifests src day) (\<lambda>loaded.
     rbind (load (ds_previous_dedup src)) (\<lambda>d.
     let manifests = filter (\<lambda>m. chunk_content_type m = PARQUET)
           (sort_key (\<lambda>m. (min_app_receive_realtime_ns m, chunk_id m)) loaded) in
     rbind (fold_result (normalize_chunk env src)
         \<lparr>ns_dedup = d, ns_formal_starts = [], ns_universe_events = [], ns_raw = 0, ns_typed = 0,
          ns_duplicates = 0, ns_outputs = 0, ns_files = []\<rparr> manifests) (\<lambda>st.
     let formal_start = first_min fst (ns_formal_starts st);
         window_start = window_start_of src formal_start in
     rbind (active_universe (ns_universe_events st) window_start) (\<lambda>active.
     rbind (case formal_start of
              None \<Rightarrow> Inr ()
            | Some evidence \<Rightarrow>
                (case active of
                   None \<Rightarrow> Inl (ValueError ''formal start has no active universe decision'')
                 | Some decision \<Rightarrow> validate_formal_start evidence decision)) (\<lambda>_.
     Inr \<lparr>nr_state = st,
       nr_checkpoint = dedup_checkpoint (ne_identity_key env) (midnight_ns (ds_date src) + ns_per_day) (ns_dedup st),
       nr_marker = normalized_marker env src st window_start formal_start active\<rparr>))))))"

section \<open>What a run keeps true\<close>

text \<open>The footer of a Parquet file is truthful: it counts the rows and its ranges cover their times.\<close>

definition truthful_footer :: "parquet_file \<Rightarrow> bool" where
  "truthful_footer pq \<longleftrightarrow> pq_num_rows pq = int (length (pq_rows pq)) \<and>
     (\<forall>row \<in> set (pq_rows pq). \<exists>lo hi. Some (lo, hi) \<in> set (pq_statistics pq) \<and>
        lo \<le> raw_realtime_ns row \<and> raw_realtime_ns row \<le> hi)"

lemma fold_min_le: "fold min xs a \<le> (a :: int)" "x \<in> set xs \<Longrightarrow> fold min xs a \<le> x"
proof -
  show base: "fold min xs a \<le> a" for xs :: "int list" and a
    by (induction xs arbitrary: a) (simp_all, meson min.boundedE order_refl order_trans)
  show "x \<in> set xs \<Longrightarrow> fold min xs a \<le> x"
  proof (induction xs arbitrary: a)
    case (Cons y ys)
    then show ?case using base [of ys "min y a"] by auto
  qed simp
qed

lemma fold_max_ge: "(a :: int) \<le> fold max xs a" "x \<in> set xs \<Longrightarrow> x \<le> fold max xs a"
proof -
  show base: "a \<le> fold max xs a" for xs :: "int list" and a
    by (induction xs arbitrary: a) (simp_all, meson max.boundedE order_refl order_trans)
  show "x \<in> set xs \<Longrightarrow> x \<le> fold max xs a"
  proof (induction xs arbitrary: a)
    case (Cons y ys)
    then show ?case using base [of "max y a" ys] by auto
  qed simp
qed

lemma verified_rows_in_day:
  assumes "verify_parquet src pq m = Inr u" "truthful_footer pq" "row \<in> set (pq_rows pq)"
  shows "midnight_ns (ds_date src) \<le> raw_realtime_ns row \<and>
    raw_realtime_ns row < midnight_ns (ds_date src) + ns_per_day \<and> int (length (pq_rows pq)) = event_count m"
proof -
  define stats where "stats = map the (pq_statistics pq)"
  let ?lo = "fold min (map fst (tl stats)) (fst (hd stats))"
  let ?hi = "fold max (map snd (tl stats)) (snd (hd stats))"
  obtain lo hi where r: "Some (lo, hi) \<in> set (pq_statistics pq)" "lo \<le> raw_realtime_ns row" "raw_realtime_ns row \<le> hi"
    using assms(2,3) by (auto simp: truthful_footer_def)
  have "the (Some (lo, hi)) \<in> set stats" unfolding stats_def set_map using r(1) by (rule imageI)
  then obtain s ss where ss: "stats = s # ss" "(lo, hi) \<in> set (s # ss)" by (cases stats) auto
  have "?lo \<le> lo"
    using ss fold_min_le(1) [of "map fst ss" "fst s"] fold_min_le(2) [of lo "map fst ss" "fst s"] by force
  moreover have "hi \<le> ?hi"
    using ss fold_max_ge(1) [of "snd s" "map snd ss"] fold_max_ge(2) [of hi "map snd ss" "snd s"] by force
  moreover have "midnight_ns (ds_date src) \<le> ?lo \<and> ?hi < midnight_ns (ds_date src) + ns_per_day"
    "pq_num_rows pq = event_count m"
    using assms(1) by (auto simp: verify_parquet_def Let_def stats_def split: if_splits)
  ultimately show ?thesis using r assms(2) by (auto simp: truthful_footer_def)
qed

lemma parse_rows_facts:
  assumes "fold_result (parse_row env h) p rows = Inr q"
  shows "pc_raw_events q = pc_raw_events p + int (length rows) \<and>
    (\<forall>(ns, _, h') \<in> set (pc_formal_starts q). (\<exists>v. (ns, v, h') \<in> set (pc_formal_starts p)) \<or>
       (h' = h \<and> ns \<in> raw_realtime_ns ` set rows))"
  using assms
proof (induction rows arbitrary: p)
  case (Cons row rows)
  obtain p' where p': "parse_row env h p row = Inr p'" "fold_result (parse_row env h) p' rows = Inr q"
    using Cons.prems by (auto simp: rbind_Inr_iff)
  have one: "pc_raw_events p' = pc_raw_events p + 1 \<and>
      (\<forall>(ns, v, h') \<in> set (pc_formal_starts p'). (ns, v, h') \<in> set (pc_formal_starts p) \<or>
         (h' = h \<and> ns = raw_realtime_ns row))"
    using p'(1) by (auto simp: parse_row_def Let_def rbind_Inr_iff split: option.splits if_splits)
  show ?case using Cons.IH [OF p'(2)] one by fastforce
qed auto

text \<open>
  What the state of a run holds after the chunks of \<open>day\<close>: starts inside the day, and decisions that
  validated.
\<close>

definition normalize_ok :: "normalize_env \<Rightarrow> day_source \<Rightarrow> normalize_state \<Rightarrow> bool" where
  "normalize_ok env src st \<longleftrightarrow>
     (\<forall>(ns, v, h) \<in> set (ns_formal_starts st). midnight_ns (ds_date src) \<le> ns \<and>
        ns < midnight_ns (ds_date src) + ns_per_day \<and> (\<exists>raw. formal_start_payload env raw = Inr v)) \<and>
     (\<forall>(d, h) \<in> set (ns_universe_events st). \<exists>d0.
        validate_universe_decision (ne_unicode env) (ne_universe_hash env) d0 = Inr d)"

lemma normalize_chunk_ok:
  assumes "normalize_chunk env src st m = Inr st'" "normalize_ok env src st"
    and truthful: "\<And>path f. ds_chunk_file src path = Some f \<Longrightarrow> truthful_footer (cf_parquet f)"
  shows "normalize_ok env src st'"
proof -
  obtain p starts decisions where p: "parse_chunk env src m = Inr p"
    and starts: "map_result (\<lambda>(ns, payload, h). rbind (formal_start_payload env payload) (\<lambda>v. Inr (ns, v, h)))
         (pc_formal_starts p) = Inr starts"
    and decisions: "map_result (\<lambda>(payload, h). rbind (read_decision env payload) (\<lambda>d. Inr (d, h)))
         (pc_universe_events p) = Inr decisions"
    and st': "ns_formal_starts st' = ns_formal_starts st @ starts"
      "ns_universe_events st' = ns_universe_events st @ decisions"
    using assms(1) by (auto simp: normalize_chunk_def rbind_Inr_iff Let_def split: if_splits)
  obtain f where f: "ds_chunk_file src (data_path m) = Some f" "verify_parquet src (cf_parquet f) m = Inr ()"
    "fold_result (parse_row env (cm_universe_hash m)) empty_parsed (pq_rows (cf_parquet f)) = Inr p"
    using p by (auto simp: parse_chunk_def rbind_Inr_iff split: option.splits)
  note rows = verified_rows_in_day [OF f(2) truthful [OF f(1)]]
  have "midnight_ns (ds_date src) \<le> ns \<and> ns < midnight_ns (ds_date src) + ns_per_day \<and>
      (\<exists>raw. formal_start_payload env raw = Inr v)" if mem: "(ns, v, h) \<in> set starts" for ns v h
  proof -
    obtain payload where src: "(ns, payload, h) \<in> set (pc_formal_starts p)" "formal_start_payload env payload = Inr v"
      using map_result_origin [OF starts mem] by (auto simp: rbind_Inr_iff)
    then have "ns \<in> raw_realtime_ns ` set (pq_rows (cf_parquet f))"
      using parse_rows_facts [OF f(3)] by (fastforce simp: empty_parsed_def)
    then show ?thesis using rows src(2) by auto
  qed
  moreover have "\<exists>d0. validate_universe_decision (ne_unicode env) (ne_universe_hash env) d0 = Inr d"
    if mem: "(d, h) \<in> set decisions" for d h
    using map_result_origin [OF decisions mem] by (auto simp: rbind_Inr_iff read_decision_def)
  ultimately show ?thesis using assms(2) st' unfolding normalize_ok_def by fastforce
qed

lemma normalize_run_Inr:
  assumes "normalize_run env src = Inr r"
    and truthful: "\<And>path f. ds_chunk_file src path = Some f \<Longrightarrow> truthful_footer (cf_parquet f)"
  obtains active where "normalize_ok env src (nr_state r)"
    "active_universe (ns_universe_events (nr_state r))
       (window_start_of src (first_min fst (ns_formal_starts (nr_state r)))) = Inr active"
    "case first_min fst (ns_formal_starts (nr_state r)) of
       None \<Rightarrow> True | Some e \<Rightarrow> (case active of None \<Rightarrow> False | Some d \<Rightarrow> validate_formal_start e d = Inr ())"
    "nr_marker r = normalized_marker env src (nr_state r)
       (window_start_of src (first_min fst (ns_formal_starts (nr_state r))))
       (first_min fst (ns_formal_starts (nr_state r))) active"
proof -
  obtain loaded d st active where
    st: "fold_result (normalize_chunk env src)
         \<lparr>ns_dedup = d, ns_formal_starts = [], ns_universe_events = [], ns_raw = 0, ns_typed = 0,
          ns_duplicates = 0, ns_outputs = 0, ns_files = []\<rparr>
         (filter (\<lambda>m. chunk_content_type m = PARQUET)
           (sort_key (\<lambda>m. (min_app_receive_realtime_ns m, chunk_id m)) loaded)) = Inr st"
    and active: "active_universe (ns_universe_events st) (window_start_of src (first_min fst (ns_formal_starts st))) = Inr active"
    and formal: "(case first_min fst (ns_formal_starts st) of None \<Rightarrow> Inr ()
        | Some e \<Rightarrow> (case active of None \<Rightarrow> Inl (ValueError ''formal start has no active universe decision'')
            | Some d \<Rightarrow> validate_formal_start e d)) = Inr ()"
    and r: "nr_state r = st" "nr_marker r = normalized_marker env src st
        (window_start_of src (first_min fst (ns_formal_starts st))) (first_min fst (ns_formal_starts st)) active"
    using assms(1) unfolding normalize_run_def Let_def by (auto simp: rbind_Inr_iff simp del: first_min.simps)
  have "normalize_ok env src st"
    by (rule fold_result_invariant [OF st, of "normalize_ok env src"])
      (simp add: normalize_ok_def, blast intro: normalize_chunk_ok truthful)
  then show thesis
    using active formal r by (intro that [of active]) (auto split: option.splits)
qed

section \<open>The marker\<close>

lemma marker_fields_read:
  "jget (normalized_marker env src st ws fs active) ''formal_start_realtime_ns'' = opt_json (\<lambda>(ns, _). JInt ns) fs"
  "jget (normalized_marker env src st ws fs active) ''expected_symbols'' = opt_json (\<lambda>d. JList (map JStr (members d))) active"
  "jget (normalized_marker env src st ws fs active) ''universe_hash'' = opt_json (\<lambda>d. JStr (ud_universe_hash d)) active"
  "get_int_default (normalized_marker env src st ws fs active) ''collection_window_start_ns'' x = Inr ws"
  "get_int_default (normalized_marker env src st ws fs active) ''collection_window_end_ns'' x =
     Inr (midnight_ns (ds_date src) + ns_per_day)"
  by (simp_all add: normalized_marker_def jget_def get_int_default_def py_int_def)

lemma window_start_in_day:
  assumes "normalize_ok env src st"
  shows "midnight_ns (ds_date src) \<le> window_start_of src (first_min fst (ns_formal_starts st)) \<and>
    window_start_of src (first_min fst (ns_formal_starts st)) < midnight_ns (ds_date src) + ns_per_day"
proof (cases "first_min fst (ns_formal_starts st)")
  case None
  then show ?thesis by (simp add: window_start_of_def)
next
  case (Some e)
  obtain ns v h where e: "e = (ns, v, h)" by (cases e)
  have "(ns, v, h) \<in> set (ns_formal_starts st)" using first_min_Some [OF Some] e by simp
  then show ?thesis using assms Some e by (auto simp: normalize_ok_def window_start_of_def)
qed

lemma active_universe_Some:
  assumes "active_universe events t = Inr (Some d)"
  shows "(d, ud_universe_hash d) \<in> set events \<and> timestamp_ns (effective_at d) \<le> t \<and>
    (\<forall>(d', h') \<in> set events. timestamp_ns (effective_at d') \<le> t \<longrightarrow>
       (decision_sequence d', wall_us (effective_at d')) \<le> (decision_sequence d, wall_us (effective_at d)))"
proof -
  obtain h where m: "first_max (\<lambda>(d, _). (decision_sequence d, wall_us (effective_at d)))
      (filter (\<lambda>(d, _). timestamp_ns (effective_at d) \<le> t) events) = Some (d, h)" "h = ud_universe_hash d"
    using assms by (auto simp: active_universe_def split: option.splits if_splits)
  show ?thesis using first_max_Some [OF m(1)] m(2) by auto
qed

lemma authoritative_members:
  assumes "jget marker ''expected_symbols'' = JList (map JStr ss)" "length ss = 60" "distinct ss"
  shows "authoritative_universe marker = Inr ss"
proof -
  have "inj JStr" by (rule injI) simp
  then have "card (set (map JStr ss)) = 60" using assms by (simp add: card_image inj_on_subset distinct_card)
  then show ?thesis using assms by (simp add: authoritative_universe_def list_ex_iff comp_def)
qed

text \<open>The marker of a normalized day whose universe is known passes the gate's own checks: it names an
  authoritative universe of 60 symbols, and its window begins inside the day and ends with it.\<close>

lemma normalized_day_reaches_gate:
  assumes "normalize_run env src = Inr r"
    and "\<forall>path f. ds_chunk_file src path = Some f \<longrightarrow> truthful_footer (cf_parquet f)"
    and "jget (nr_marker r) ''expected_symbols'' \<noteq> JNull"
  shows "\<exists>symbols ws. authoritative_universe (nr_marker r) = Inr symbols \<and> length symbols = 60 \<and>
    get_int_default (nr_marker r) ''collection_window_start_ns'' (midnight_ns (ds_date src)) = Inr ws \<and>
    midnight_ns (ds_date src) \<le> ws \<and> ws < midnight_ns (ds_date src) + ns_per_day \<and>
    get_int_default (nr_marker r) ''collection_window_end_ns'' (midnight_ns (ds_date src) + ns_per_day) =
      Inr (midnight_ns (ds_date src) + ns_per_day)"
proof -
  obtain active where run: "normalize_ok env src (nr_state r)"
    "active_universe (ns_universe_events (nr_state r))
       (window_start_of src (first_min fst (ns_formal_starts (nr_state r)))) = Inr active"
    "nr_marker r = normalized_marker env src (nr_state r)
       (window_start_of src (first_min fst (ns_formal_starts (nr_state r))))
       (first_min fst (ns_formal_starts (nr_state r))) active"
    by (rule normalize_run_Inr [OF assms(1)]) (use assms(2) in blast)+
  then obtain d where d: "active = Some d"
    using assms(3) by (cases active) (simp_all add: marker_fields_read opt_json_def)
  then have "(d, ud_universe_hash d) \<in> set (ns_universe_events (nr_state r))"
    using active_universe_Some run(2) by blast
  then obtain d0 where "validate_universe_decision (ne_unicode env) (ne_universe_hash env) d0 = Inr d"
    using run(1) by (auto simp: normalize_ok_def)
  note ok = validate_decision_Inr [OF this]
  have "distinct (members d)" using ok by (simp add: members_def)
  then have "authoritative_universe (nr_marker r) = Inr (members d)"
    using ok by (intro authoritative_members) (simp_all add: run(3) d marker_fields_read opt_json_def)
  then show ?thesis using ok window_start_in_day [OF run(1)] unfolding run(3) marker_fields_read by auto
qed

text \<open>A formal start names the universe in force: the marker's start is the earliest start event of the
  day, its payload, the chunk that carried it and the marker all name the decision with the largest
  sequence among those effective by then, and the reconstruction of every symbol may begin without a
  checkpoint of the day before.\<close>

lemma formal_start_names_universe:
  assumes "normalize_run env src = Inr r"
    and "\<forall>path f. ds_chunk_file src path = Some f \<longrightarrow> truthful_footer (cf_parquet f)"
    and "jget (nr_marker r) ''formal_start_realtime_ns'' = JInt ns"
  shows "\<exists>v d. (ns, v, ud_universe_hash d) \<in> set (ns_formal_starts (nr_state r)) \<and>
    (\<forall>(ns', _, _) \<in> set (ns_formal_starts (nr_state r)). ns \<le> ns') \<and>
    jget v ''universe_hash'' = JStr (ud_universe_hash d) \<and>
    jget (nr_marker r) ''universe_hash'' = JStr (ud_universe_hash d) \<and>
    jget (nr_marker r) ''expected_symbols'' = JList (map JStr (members d)) \<and>
    (\<forall>(d', h') \<in> set (ns_universe_events (nr_state r)).
       timestamp_ns (effective_at d') \<le> window_start_of src (Some (ns, v, ud_universe_hash d)) \<longrightarrow>
       decision_sequence d' \<le> decision_sequence d) \<and>
    (\<forall>job previous. job_date job = ds_date src \<longrightarrow>
       can_start_without_previous_checkpoint job (Some (nr_marker r)) previous = Inr True)"
proof -
  obtain active where run: "normalize_ok env src (nr_state r)"
    "active_universe (ns_universe_events (nr_state r))
       (window_start_of src (first_min fst (ns_formal_starts (nr_state r)))) = Inr active"
    "case first_min fst (ns_formal_starts (nr_state r)) of
       None \<Rightarrow> True | Some e \<Rightarrow> (case active of None \<Rightarrow> False | Some d \<Rightarrow> validate_formal_start e d = Inr ())"
    "nr_marker r = normalized_marker env src (nr_state r)
       (window_start_of src (first_min fst (ns_formal_starts (nr_state r))))
       (first_min fst (ns_formal_starts (nr_state r))) active"
    by (rule normalize_run_Inr [OF assms(1)]) (use assms(2) in blast)+
  obtain v h where e: "first_min fst (ns_formal_starts (nr_state r)) = Some (ns, v, h)"
    using assms(3) unfolding run(4) marker_fields_read by (auto simp: opt_json_def split: option.splits)
  then obtain d where d: "active = Some d" and val: "validate_formal_start (ns, v, h) d = Inr ()"
    using run(3) by (auto split: option.splits)
  have h: "h = ud_universe_hash d" "jget v ''universe_hash'' = JStr (ud_universe_hash d)"
    using val by (simp_all add: validate_formal_start_def check_Inr_iff)
  have min: "(ns, v, h) \<in> set (ns_formal_starts (nr_state r))" "\<forall>(ns', _, _) \<in> set (ns_formal_starts (nr_state r)). ns \<le> ns'"
    using first_min_Some [OF e] by auto
  have max: "\<forall>(d', h') \<in> set (ns_universe_events (nr_state r)).
       timestamp_ns (effective_at d') \<le> window_start_of src (Some (ns, v, h)) \<longrightarrow> decision_sequence d' \<le> decision_sequence d"
    using active_universe_Some [of _ _ d] run(2) by (fastforce simp: d e less_eq_prod_def)
  have day: "midnight_ns (ds_date src) \<le> ns" "ns < midnight_ns (ds_date src) + ns_per_day"
    using run(1) min(1) by (auto simp: normalize_ok_def)
  have "can_start_without_previous_checkpoint job (Some (nr_marker r)) previous = Inr True"
    if "job_date job = ds_date src" for job previous
    using day that assms(3)
    by (simp add: can_start_without_previous_checkpoint_def instance_int_def midnight_ns_def algebra_simps)
  then show ?thesis
    using min max h by (intro exI [of _ v] exI [of _ d]) (simp add: run(4) marker_fields_read d opt_json_def)
qed

section \<open>A concrete day\<close>

definition zeros :: string where "zeros = replicate 64 CHR ''0''"

definition run_decision :: universe_decision where
  "run_decision = ex_decision\<lparr>ud_universe_hash := zeros\<rparr>"

definition run_payload :: json_obj where
  "run_payload = [(''event'', JStr ''FORMAL_COLLECTION_STARTED''), (''experiment_id'', JStr ''e1''),
     (''core_generation'', JInt 7), (''candidate_revision'', JInt 0), (''decision_sequence'', JInt 3),
     (''universe_version'', JStr ''7.0''), (''universe_hash'', JStr zeros), (''started_at'', JStr ''t'')]"

definition run_start_ns :: int where "run_start_ns = 20001 * 86400000000000 + 5"

definition control_row :: "string \<Rightarrow> json \<Rightarrow> raw_row" where
  "control_row stream payload = \<lparr>raw_exchange_symbol = None, raw_stream_type = stream, raw_connection_id = ''c1'',
     raw_receive_seq = 1, raw_realtime_ns = run_start_ns, raw_monotonic_ns = 7, raw_payload = Some payload,
     raw_request_realtime_ns = None\<rparr>"

definition run_manifest :: chunk_manifest where
  "run_manifest = \<lparr>chunk_id = ''chunk-0001'', data_path = ''date=2024-10-05/writer=metadata/a.parquet'',
     chunk_sha256 = zeros, size_bytes = 10, chunk_content_type = PARQUET, cm_schema_version = 1,
     cm_collector_id = ''c'', cm_writer_group = GROUP_METADATA, cm_utc_date = 20001, event_count = 2,
     min_app_receive_realtime_ns = run_start_ns, max_app_receive_realtime_ns = run_start_ns,
     data_contract_hash = zeros, cm_universe_hash = zeros, cm_created_at = ex_time 20001\<rparr>"

definition run_file :: chunk_file where
  "run_file = \<lparr>cf_size = 10, cf_sha256 = zeros, cf_parquet = \<lparr>pq_schema_matches = True,
     pq_metadata = expected_metadata run_manifest, pq_num_rows = 2,
     pq_statistics = [Some (run_start_ns, run_start_ns)],
     pq_rows = [control_row ''universe_decision'' (JObj []), control_row ''formal_collection_started'' (JObj run_payload)]\<rparr>\<rparr>"

definition run_env :: normalize_env where
  "run_env = \<lparr>ne_parse = ex_env, ne_unicode = ascii, ne_universe_hash = (\<lambda>_ _ _. zeros),
     ne_decode_decision = (\<lambda>_. Inr run_decision), ne_fromisoformat = (\<lambda>_. Some (ex_time 20001)),
     ne_content_hash = (\<lambda>_. ''sha256:'' @ zeros), ne_identity_key = (\<lambda>_. []), ne_typed_file = (\<lambda>_. (1, zeros))\<rparr>"

definition run_day :: day_manifest where
  "run_day = \<lparr>dm_schema_version = 1, dm_collector_id = ''c'', dm_utc_date = 20001,
     sealed_at = ex_time 20002, chunks = [as_ref run_manifest]\<rparr>"

definition run_source :: day_source where
  "run_source = \<lparr>ds_collector_id = ''c'', ds_date = 20001, ds_day_manifest = Some run_day,
     ds_day_manifest_sha256 = zeros, ds_chunk_manifest = (\<lambda>_. Some run_manifest),
     ds_chunk_file = (\<lambda>_. Some run_file), ds_previous_dedup = None, ds_stale_typed = []\<rparr>"

lemma iso_20001: "iso_date 20001 = ''2024-10-05''"
  by code_simp

lemma run_truthful: "truthful_footer (cf_parquet run_file)"
  by (simp add: truthful_footer_def run_file_def control_row_def)

lemma run_manifests:
  "load_day_manifest run_source = Inr run_day" "load_chunk_manifests run_source run_day = Inr [run_manifest]"
proof -
  have ref: "validate_chunk_ref (as_ref run_manifest) = Inr (as_ref run_manifest)" by code_simp
  have "validate_day_manifest run_day = Inr run_day"
    by (simp add: validate_day_manifest_def run_day_def ref ex_time_def require_utc_def dt_date_def us_per_day_def
        valid_collector_id_length_def code_points_def chunk_identity_def)
  then show "load_day_manifest run_source = Inr run_day"
    by (simp add: load_day_manifest_def run_source_def run_day_def)
  have man: "validate_chunk_manifest run_manifest = Inr run_manifest" by code_simp
  have "butlast (path_parts (data_path run_manifest)) = [''date=2024-10-05'', ''writer=metadata'']" by code_simp
  then have "load_chunk_manifest run_source (as_ref run_manifest) = Inr run_manifest"
    by (simp add: load_chunk_manifest_def run_source_def man iso_20001) (simp add: run_manifest_def)
  then show "load_chunk_manifests run_source run_day = Inr [run_manifest]"
    by (simp add: load_chunk_manifests_def run_day_def)
qed

lemma run_parsed:
  "parse_chunk run_env run_source run_manifest = Inr \<lparr>pc_raw_events = 2, pc_rows = [],
     pc_formal_starts = [(run_start_ns, Some (JObj run_payload), zeros)], pc_universe_events = [(Some (JObj []), zeros)]\<rparr>"
proof -
  have v: "verify_chunk run_file run_manifest = Inr ()" by (simp add: verify_chunk_def run_file_def run_manifest_def)
  have "verify_parquet run_source (cf_parquet run_file) run_manifest = Inr ()"
    by (simp add: verify_parquet_def run_file_def expected_metadata_def dict_get_def)
      (simp add: run_manifest_def run_source_def run_start_ns_def midnight_ns_def ns_per_day_def)
  moreover have "stream_type_of ''universe_decision'' = Inr UNIVERSE_DECISION"
    "stream_type_of ''formal_collection_started'' = Inr FORMAL_COLLECTION_STARTED"
    by (code_simp)+
  then have "parse_typed_row ex_env (control_row ''universe_decision'' (JObj [])) = Inr None"
    "parse_typed_row ex_env (control_row ''formal_collection_started'' (JObj run_payload)) = Inr None"
    by (simp_all add: parse_typed_row_def control_row_def TYPED_STREAMS_def OBJECT_STREAMS_def)
  ultimately show ?thesis
    using v
    by (simp add: parse_chunk_def run_source_def run_file_def run_env_def parse_row_def empty_parsed_def
        run_manifest_def control_row_def)
qed

definition run_state :: normalize_state where
  "run_state = \<lparr>ns_dedup = new_dedup, ns_formal_starts = [(run_start_ns, run_payload, zeros)],
     ns_universe_events = [(run_decision, zeros)], ns_raw = 2, ns_typed = 0, ns_duplicates = 0,
     ns_outputs = 0, ns_files = []\<rparr>"

lemma run_chunk:
  "normalize_chunk run_env run_source \<lparr>ns_dedup = new_dedup, ns_formal_starts = [], ns_universe_events = [], ns_raw = 0,
     ns_typed = 0, ns_duplicates = 0, ns_outputs = 0, ns_files = []\<rparr> run_manifest = Inr run_state"
proof -
  have version: "version_text 7 0 = ''7.0''" by code_simp
  have payload: "formal_start_payload run_env (Some (JObj run_payload)) = Inr run_payload"
    by (simp add: formal_start_payload_def run_payload_def jget_def plain_int_def version run_env_def ex_time_def)
  have "validate_universe_decision ascii (\<lambda>_ _ _. zeros) run_decision = Inr run_decision"
    by code_simp
  then have "read_decision run_env (Some (JObj [])) = Inr run_decision"
    by (simp add: read_decision_def run_env_def)
  then show ?thesis
    by (simp add: normalize_chunk_def run_parsed payload run_state_def)
qed

lemma run_active: "active_universe [(run_decision, zeros)] run_start_ns = Inr (Some run_decision)"
proof -
  have "timestamp_ns (effective_at run_decision) = midnight_ns (dt_date (effective_at run_decision))"
    by (rule timestamp_midnight) (simp_all add: run_decision_def ex_decision_def ex_time_def dt_midnight_def dt_date_def us_per_day_def)
  then have "timestamp_ns (effective_at run_decision) \<le> run_start_ns"
    by (simp add: run_decision_def ex_decision_def ex_time_def dt_date_def us_per_day_def midnight_ns_def
        ns_per_day_def run_start_ns_def)
  then show ?thesis by (simp add: active_universe_def) (simp add: run_decision_def)
qed

lemma run_result:
  "\<exists>r. normalize_run run_env run_source = Inr r \<and> nr_state r = run_state \<and>
     nr_marker r = normalized_marker run_env run_source run_state run_start_ns
       (Some (run_start_ns, run_payload, zeros)) (Some run_decision)"
proof -
  have parquet: "filter (\<lambda>m. chunk_content_type m = PARQUET)
      (sort_key (\<lambda>m. (min_app_receive_realtime_ns m, chunk_id m)) [run_manifest]) = [run_manifest]"
    by (simp add: run_manifest_def)
  have prev: "load (ds_previous_dedup run_source) = Inr new_dedup" by (simp add: run_source_def load_def)
  have start: "window_start_of run_source (Some (run_start_ns, run_payload, zeros)) = run_start_ns"
    "first_min fst (ns_formal_starts run_state) = Some (run_start_ns, run_payload, zeros)"
    by (simp_all add: run_state_def window_start_of_def run_start_ns_def)
  have "validate_formal_start (run_start_ns, run_payload, zeros) run_decision = Inr ()"
    by (simp add: validate_formal_start_def run_payload_def jget_def equals_int_def run_decision_def ex_decision_def)
  moreover have "active_universe (ns_universe_events run_state) run_start_ns = Inr (Some run_decision)"
    using run_active by (simp add: run_state_def)
  ultimately show ?thesis
    unfolding normalize_run_def run_manifests rbind_simps prev Let_def parquet fold_result.simps run_chunk start
    by simp
qed

lemma run_source_truthful: "\<forall>path f. ds_chunk_file run_source path = Some f \<longrightarrow> truthful_footer (cf_parquet f)"
  using run_truthful by (simp add: run_source_def)

lemma normalized_day_reaches_gate_witness:
  "\<exists>r symbols. normalize_run run_env run_source = Inr r \<and> authoritative_universe (nr_marker r) = Inr symbols \<and>
     length symbols = 60"
proof -
  obtain r where r: "normalize_run run_env run_source = Inr r" "nr_marker r = normalized_marker run_env run_source
      run_state run_start_ns (Some (run_start_ns, run_payload, zeros)) (Some run_decision)"
    using run_result by blast
  have "jget (nr_marker r) ''expected_symbols'' \<noteq> JNull"
    by (simp add: r(2) marker_fields_read opt_json_def)
  from normalized_day_reaches_gate [OF r(1) run_source_truthful this] show ?thesis using r(1) by blast
qed

lemma formal_start_names_universe_witness:
  "\<exists>r. normalize_run run_env run_source = Inr r \<and>
     can_start_without_previous_checkpoint \<lparr>job_collector_id = ''c'', job_date = 20001, job_symbol = ''AA''\<rparr>
       (Some (nr_marker r)) None = Inr True"
proof -
  obtain r where r: "normalize_run run_env run_source = Inr r" "nr_marker r = normalized_marker run_env run_source
      run_state run_start_ns (Some (run_start_ns, run_payload, zeros)) (Some run_decision)"
    using run_result by blast
  have "jget (nr_marker r) ''formal_start_realtime_ns'' = JInt run_start_ns"
    by (simp add: r(2) marker_fields_read opt_json_def)
  from formal_start_names_universe [OF r(1) run_source_truthful this] r(1) show ?thesis
    by (auto simp: run_source_def)
qed

end
