(* ===== verification/Projection_Build.thy ===== *)
theory Projection_Build
  imports Normalize
begin

text \<open>
  \<open>deploy/campus-107/build-l2-inputs.py\<close>: the depth rows of a normalized day, one ordered file per
  symbol, under a marker that \<open>Projection\<close> validates. The batches of the typed files, the size and hash
  of a written file and the outcome of the final rename are inputs; a depth row has a symbol, since the
  parser refuses one without.
\<close>

section \<open>Partitioning\<close>

definition row_symbol_text :: "typed_row \<Rightarrow> string" where
  "row_symbol_text row = (case ty_exchange_symbol row of None \<Rightarrow> [] | Some s \<Rightarrow> s)"

definition is_depth_row :: "typed_row \<Rightarrow> bool" where
  "is_depth_row row \<longleftrightarrow> ty_stream row = DEPTH \<or> ty_stream row = DEPTH_SNAPSHOT"

text \<open>The run-end encoding of a column: maximal runs of one symbol.\<close>

fun symbol_runs :: "typed_row list \<Rightarrow> (string \<times> typed_row list) list" where
  "symbol_runs [] = []"
| "symbol_runs (row # rows) =
     (case symbol_runs rows of
        (s, grp) # rest \<Rightarrow>
          if s = row_symbol_text row then (s, row # grp) # rest
          else (row_symbol_text row, [row]) # (s, grp) # rest
      | [] \<Rightarrow> [(row_symbol_text row, [row])])"

definition group_by_symbol_preserving_order :: "typed_row list \<Rightarrow> (string \<times> typed_row list) list" where
  "group_by_symbol_preserving_order batch = symbol_runs (sort_key row_symbol_text batch)"

record build_state =
  bs_writers :: "(string, typed_row list) dict"
  bs_row_counts :: "(string, int) dict"
  bs_ignored :: "(string, int) dict"

definition add_group :: "string \<times> typed_row list \<Rightarrow> build_state \<Rightarrow> build_state" where
  "add_group = (\<lambda>(symbol, selected) st.
     case dict_get (bs_row_counts st) symbol of
       None \<Rightarrow>
         st\<lparr>bs_ignored := dict_set symbol
           ((case dict_get (bs_ignored st) symbol of None \<Rightarrow> 0 | Some n \<Rightarrow> n) + int (length selected)) (bs_ignored st)\<rparr>
     | Some n \<Rightarrow>
         let written = (case dict_get (bs_writers st) symbol of None \<Rightarrow> [] | Some rows \<Rightarrow> rows) in
         st\<lparr>bs_writers := dict_set symbol (written @ selected) (bs_writers st),
           bs_row_counts := dict_set symbol (n + int (length selected)) (bs_row_counts st)\<rparr>)"

definition add_batch :: "typed_row list \<Rightarrow> build_state \<Rightarrow> build_state" where
  "add_batch batch st = fold add_group (group_by_symbol_preserving_order (filter is_depth_row batch)) st"

definition new_build :: "string list \<Rightarrow> build_state" where
  "new_build symbols = \<lparr>bs_writers = [], bs_row_counts = fold (\<lambda>s. dict_set s 0) symbols [], bs_ignored = []\<rparr>"

definition partition_rows :: "string list \<Rightarrow> typed_row list list \<Rightarrow> build_state" where
  "partition_rows symbols batches = fold add_batch batches (new_build symbols)"

section \<open>The marker\<close>

definition count_of :: "build_state \<Rightarrow> string \<Rightarrow> int" where
  "count_of st s = (case dict_get (bs_row_counts st) s of None \<Rightarrow> 0 | Some n \<Rightarrow> n)"

definition written_of :: "build_state \<Rightarrow> string \<Rightarrow> typed_row list" where
  "written_of st s = (case dict_get (bs_writers st) s of None \<Rightarrow> [] | Some rows \<Rightarrow> rows)"

definition file_record :: "(typed_row list \<Rightarrow> int \<times> string) \<Rightarrow> build_state \<Rightarrow> string \<Rightarrow> json" where
  "file_record shard_of st s = (case shard_of (written_of st s) of
     (n, sha) \<Rightarrow> JObj [(''rows'', JInt (count_of st s)), (''size_bytes'', JInt n), (''sha256'', JStr sha)])"

definition build_marker ::
    "(json \<Rightarrow> string) \<Rightarrow> (typed_row list \<Rightarrow> int \<times> string) \<Rightarrow> projection_key \<Rightarrow> json list \<Rightarrow> string \<Rightarrow>
     build_state \<Rightarrow> json_obj" where
  "build_marker content_hash shard_of key sources output_root st =
     (let symbols = pk_symbols key in
      [(''schema_version'', JInt 3), (''schema_id'', JStr L2_SYMBOL_PROJECTION_SCHEMA_ID),
       (''schema_hash'', JStr L2_SYMBOL_PROJECTION_SCHEMA_HASH), (''layout'', JStr ''PER_SYMBOL_L2_CAUSAL_V1''),
       (''canonical_replay'', JBool False), (''data_role'', JStr ''PERFORMANCE_PROJECTION''),
       (''retention_policy'', JStr ''BOUNDED_REGENERABLE''), (''minimum_retention_days'', JInt 7),
       (''collector_id'', JStr (pk_collector_id key)), (''utc_date'', JStr (pk_utc_date key)),
       (''normalized_sha256'', JStr (pk_normalized_sha256 key)),
       (''typed_source_files'', JList sources), (''typed_source_file_set_hash'', JStr (content_hash (JList sources))),
       (''symbols'', JList (map JStr symbols)),
       (''files'', JObj (map (\<lambda>s. (s, file_record shard_of st s)) symbols)),
       (''schedule'', JList (map JStr (sort_key (\<lambda>s. (- count_of st s, s)) symbols))),
       (''ignored_rows'', JObj (map (\<lambda>(s, n). (s, JInt n)) (bs_ignored st))),
       (''total_rows'', JInt (sum_list (map snd (bs_row_counts st)))),
       (''total_bytes'', JInt (sum_list (map (\<lambda>s. fst (shard_of (written_of st s))) symbols))),
       (''output_root'', JStr output_root)])"

section \<open>Sources\<close>

definition known_symbols :: "string \<Rightarrow> string \<Rightarrow> json_obj \<Rightarrow> py_error + string list" where
  "known_symbols collector utc_date normalized =
     (case jget normalized ''expected_symbols'' of
        JList vs \<Rightarrow>
          if jget normalized ''collector_id'' \<noteq> JStr collector \<or> jget normalized ''utc_date'' \<noteq> JStr utc_date \<or>
             length vs \<noteq> 60 \<or> list_ex (\<lambda>v. case v of JStr s \<Rightarrow> s = [] | _ \<Rightarrow> True) vs \<or> card (set vs) \<noteq> 60 then
            Inl (ValueError ''normalized marker has no authoritative 60-symbol universe'')
          else Inr (map symbol_text vs)
      | _ \<Rightarrow> Inl (ValueError ''normalized marker has no authoritative 60-symbol universe''))"

text \<open>
  The identities of the typed files: the marker's own, those of a sidecar of the same day, or, on
  request, those computed from the files, which become the sidecar.
\<close>

definition sidecar_fields :: "string set" where
  "sidecar_fields = {''schema_version'', ''collector_id'', ''utc_date'', ''normalized_sha256'',
     ''typed_source_files'', ''typed_source_file_set_hash''}"

definition load_typed_source_files ::
    "(json \<Rightarrow> string) \<Rightarrow> string \<Rightarrow> string \<Rightarrow> string \<Rightarrow> json_obj \<Rightarrow> json_obj option \<Rightarrow> bool \<Rightarrow>
     (string \<times> int \<times> string) list \<Rightarrow> py_error + json list" where
  "load_typed_source_files content_hash collector utc_date norm_sha normalized sidecar bootstrap files =
     (if ''typed_source_files'' \<in> obj_keys normalized \<or> ''typed_source_file_set_hash'' \<in> obj_keys normalized then
        validate_source_file_identities content_hash (jget normalized ''typed_source_files'')
          (jget normalized ''typed_source_file_set_hash'')
      else
        (case sidecar of
           Some side \<Rightarrow>
             if obj_keys side \<noteq> sidecar_fields \<or> \<not> equals_int (jget side ''schema_version'') 1 \<or>
                jget side ''collector_id'' \<noteq> JStr collector \<or> jget side ''utc_date'' \<noteq> JStr utc_date \<or>
                jget side ''normalized_sha256'' \<noteq> JStr norm_sha then
               Inl (ValueError ''legacy typed source identity sidecar invalid'')
             else validate_source_file_identities content_hash (jget side ''typed_source_files'')
               (jget side ''typed_source_file_set_hash'')
         | None \<Rightarrow>
             if \<not> bootstrap then Inl (ValueError ''normalized marker lacks typed source identities'')
             else
               let identities = map (\<lambda>(name, n, sha). source_file_identity content_hash
                     (''derived/typed/collector='' @ collector @ ''/date='' @ utc_date @ ''/'' @ name) n sha)
                   (sort_key fst files) in
               if identities = [] then Inl (ValueError ''legacy normalized day has no typed Parquet files'')
               else validate_source_file_identities content_hash (JList identities)
                 (JStr (content_hash (JList identities)))))"

section \<open>Existing outputs\<close>

record projection_dir =
  pd_marker :: "json_obj option"
  pd_shards :: "string \<Rightarrow> shard_file option"

text \<open>\<open>typed_sizes\<close> gives the size of the file a URI names, if there is one.\<close>

definition source_present :: "(string \<Rightarrow> int option) \<Rightarrow> json \<Rightarrow> bool" where
  "source_present typed_sizes v =
     (case v of JObj rec \<Rightarrow> typed_sizes (symbol_text (jget rec ''uri'')) = plain_int (jget rec ''size_bytes'') \<and>
        typed_sizes (symbol_text (jget rec ''uri'')) \<noteq> None
      | _ \<Rightarrow> False)"

definition validate_output :: "(string \<Rightarrow> shard_file option) \<Rightarrow> json_obj \<Rightarrow> string \<Rightarrow> py_error + unit" where
  "validate_output shards files symbol =
     (case jget files symbol of
        JObj rec \<Rightarrow>
          rbind (case map_of rec ''rows'' of None \<Rightarrow> Inr 0 | Some v \<Rightarrow> py_int v) (\<lambda>rows.
          if rows \<le> 0 then Inl (ValueError ''invalid L2 symbol projection file record'')
          else validate_shard (shards symbol) rec)
      | _ \<Rightarrow> Inl (ValueError ''invalid L2 symbol projection file record''))"

definition validate_outputs ::
    "(json \<Rightarrow> string) \<Rightarrow> (string \<Rightarrow> int option) \<Rightarrow> projection_key \<Rightarrow> projection_dir \<Rightarrow> json_obj \<Rightarrow> py_error + unit" where
  "validate_outputs content_hash typed_sizes key dir m =
     rbind (validate_marker content_hash key m) (\<lambda>files.
     rbind (validate_source_file_identities content_hash (jget m ''typed_source_files'')
         (jget m ''typed_source_file_set_hash'')) (\<lambda>sources.
     if list_ex (\<lambda>v. \<not> source_present typed_sizes v) sources then
       Inl (ValueError ''L2 input cache typed source file mismatch'')
     else rbind (map_result (validate_output (pd_shards dir) files) (pk_symbols key)) (\<lambda>_. Inr ())))"

section \<open>The build\<close>

record build_inputs =
  bi_collector :: string
  bi_utc_date :: string
  bi_normalized :: json_obj
  bi_normalized_sha256 :: string
  bi_sidecar :: "json_obj option"
  bi_bootstrap :: bool
  bi_typed_files :: "(string \<times> int \<times> string) list"
  bi_batches :: "string \<Rightarrow> typed_row list list"
  bi_existing :: projection_dir
  bi_output_root :: string
  bi_rename_conflict :: "projection_dir option"

definition typed_uri_of :: "build_inputs \<Rightarrow> string \<Rightarrow> string" where
  "typed_uri_of b name = ''derived/typed/collector='' @ bi_collector b @ ''/date='' @ bi_utc_date b @ ''/'' @ name"

definition typed_sizes_of :: "build_inputs \<Rightarrow> string \<Rightarrow> int option" where
  "typed_sizes_of b = map_of (map (\<lambda>(name, n, _). (typed_uri_of b name, n)) (bi_typed_files b))"

text \<open>The result: the marker, and the partition if it was built now.\<close>

definition existing_marker_of ::
    "(json \<Rightarrow> string) \<Rightarrow> build_inputs \<Rightarrow> projection_key \<Rightarrow> projection_dir \<Rightarrow> json_obj \<Rightarrow>
     py_error + (json_obj \<times> build_state option)" where
  "existing_marker_of content_hash b key dir m =
     rbind (validate_outputs content_hash (typed_sizes_of b) key dir m) (\<lambda>_. Inr (m, None))"

definition build_l2_inputs ::
    "(json \<Rightarrow> string) \<Rightarrow> (typed_row list \<Rightarrow> int \<times> string) \<Rightarrow> build_inputs \<Rightarrow>
     py_error + (json_obj \<times> build_state option)" where
  "build_l2_inputs content_hash shard_of b =
     rbind (known_symbols (bi_collector b) (bi_utc_date b) (bi_normalized b)) (\<lambda>symbols.
     rbind (load_typed_source_files content_hash (bi_collector b) (bi_utc_date b) (bi_normalized_sha256 b)
         (bi_normalized b) (bi_sidecar b) (bi_bootstrap b) (bi_typed_files b)) (\<lambda>sources.
     let uris = map (\<lambda>v. case v of JObj rec \<Rightarrow> symbol_text (jget rec ''uri'') | _ \<Rightarrow> []) sources;
         key = \<lparr>pk_collector_id = bi_collector b, pk_utc_date = bi_utc_date b,
           pk_normalized_sha256 = bi_normalized_sha256 b, pk_symbols = symbols\<rparr> in
     if sort (map (\<lambda>(name, _). typed_uri_of b name) (bi_typed_files b)) \<noteq> uris \<or>
        list_ex (\<lambda>v. \<not> source_present (typed_sizes_of b) v) sources then
       Inl (ValueError ''normalized typed source inventory does not match actual files'')
     else
       (case pd_marker (bi_existing b) of
          Some m \<Rightarrow>
            if jget m ''normalized_sha256'' \<noteq> JStr (bi_normalized_sha256 b) then
              Inl (ValueError ''L2 input cache source mismatch'')
            else existing_marker_of content_hash b key (bi_existing b) m
        | None \<Rightarrow>
            let st = partition_rows symbols (concat (map (bi_batches b) uris)) in
            if list_ex (\<lambda>(_, n). n = 0) (bs_row_counts st) then
              Inl (ValueError ''symbols have no L2 input rows'')
            else
              (case bi_rename_conflict b of
                 None \<Rightarrow> Inr (build_marker content_hash shard_of key sources (bi_output_root b) st, Some st)
               | Some dir \<Rightarrow>
                   (case pd_marker dir of
                      None \<Rightarrow> Inl (OSError ''FileExistsError'')
                    | Some m \<Rightarrow>
                        if jget m ''normalized_sha256'' \<noteq> JStr (bi_normalized_sha256 b) then
                          Inl (OSError ''FileExistsError'')
                        else existing_marker_of content_hash b key dir m)))))"

section \<open>The partition is a filter\<close>

abbreviation of_symbol :: "string \<Rightarrow> typed_row list \<Rightarrow> typed_row list" where
  "of_symbol s rows \<equiv> filter (\<lambda>r. row_symbol_text r = s) rows"

lemma symbol_runs_concat: "concat (map snd (symbol_runs rows)) = rows"
  by (induction rows) (auto split: list.splits prod.splits if_splits)

lemma symbol_runs_uniform: "(s, g) \<in> set (symbol_runs rows) \<Longrightarrow> r \<in> set g \<Longrightarrow> row_symbol_text r = s"
proof (induction rows arbitrary: s g r)
  case (Cons row rows)
  show ?case
  proof (cases "symbol_runs rows")
    case Nil
    then show ?thesis using Cons.prems by simp
  next
    case (Cons grp rest)
    obtain s' g' where grp: "grp = (s', g')" by (cases grp)
    have "\<forall>r \<in> set g'. row_symbol_text r = s'" using Cons.IH [of s' g'] Cons grp by auto
    moreover have "(s, g) \<in> set rest \<Longrightarrow> row_symbol_text r = s"
      using Cons.IH [of s g] Cons Cons.prems(2) by auto
    ultimately show ?thesis using Cons.prems Cons grp by (auto split: if_splits)
  qed
qed simp

text \<open>What a build over rows so far holds, for a fixed universe.\<close>

definition partition_ok :: "string list \<Rightarrow> typed_row list \<Rightarrow> build_state \<Rightarrow> bool" where
  "partition_ok symbols rows st \<longleftrightarrow> map fst (bs_row_counts st) = symbols \<and>
     (\<forall>s \<in> set symbols. written_of st s = of_symbol s rows \<and> count_of st s = int (length (of_symbol s rows))) \<and>
     (\<forall>(s, n) \<in> set (bs_ignored st). 0 \<le> n)"

lemma dict_set_keys: "k \<in> set (map fst d) \<Longrightarrow> map fst (dict_set k v d) = map fst d"
proof (induction d)
  case (Cons kv d)
  then show ?case by (cases kv) (auto simp: image_iff)
qed simp

lemma dict_set_values: "(k', w) \<in> set (dict_set k v d) \<Longrightarrow> w = v \<or> (k', w) \<in> set d"
  by (induction d) (auto split: if_splits)

lemma dict_get_keys: "dict_get d k \<noteq> None \<longleftrightarrow> k \<in> set (map fst d)"
  by (simp add: dict_get_None_iff)

lemma add_group_ok:
  assumes "partition_ok symbols rows st" "\<forall>r \<in> set g. row_symbol_text r = s"
  shows "partition_ok symbols (rows @ g) (add_group (s, g) st)"
proof (cases "s \<in> set symbols")
  case True
  then obtain n where n: "dict_get (bs_row_counts st) s = Some n"
    using assms(1) dict_get_keys [of "bs_row_counts st" s] by (auto simp: partition_ok_def)
  have own: "of_symbol s g = g" using assms(2) by (simp add: filter_id_conv)
  have other: "of_symbol s' g = []" if "s' \<noteq> s" for s' using assms(2) that by (auto simp: filter_empty_conv)
  have keys: "s \<in> set (map fst (bs_row_counts st))" using True assms(1) by (simp add: partition_ok_def)
  show ?thesis
    using assms(1) True n own other dict_set_keys [OF keys]
    by (auto simp: partition_ok_def add_group_def Let_def written_of_def count_of_def)
next
  case False
  then have none: "dict_get (bs_row_counts st) s = None"
    using assms(1) dict_get_keys [of "bs_row_counts st" s] by (auto simp: partition_ok_def)
  have other: "of_symbol s' g = []" if "s' \<in> set symbols" for s'
    using assms(2) False that by (auto simp: filter_empty_conv)
  have old: "0 \<le> (case dict_get (bs_ignored st) s of None \<Rightarrow> 0 | Some n \<Rightarrow> n)"
    using assms(1) by (auto simp: partition_ok_def dict_get_def split: option.split dest!: map_of_SomeD)
  show ?thesis
    using assms(1) none other old
    by (fastforce simp: partition_ok_def add_group_def written_of_def count_of_def dest: dict_set_values)
qed

lemma add_groups_ok:
  assumes "partition_ok symbols rows st" "\<forall>(s, g) \<in> set groups. \<forall>r \<in> set g. row_symbol_text r = s"
  shows "partition_ok symbols (rows @ concat (map snd groups)) (fold add_group groups st)"
  using assms
proof (induction groups arbitrary: rows st)
  case (Cons sg groups)
  obtain s g where sg: "sg = (s, g)" by (cases sg)
  have "partition_ok symbols (rows @ g) (add_group (s, g) st)"
    using Cons.prems sg by (intro add_group_ok) auto
  from Cons.IH [OF this] show ?case using Cons.prems(2) sg by simp
qed simp

lemma partition_ok_stable:
  assumes "\<forall>s. of_symbol s rows = of_symbol s rows'"
  shows "partition_ok symbols rows st \<longleftrightarrow> partition_ok symbols rows' st"
  using assms by (simp add: partition_ok_def)

lemma add_batch_ok:
  assumes "partition_ok symbols rows st"
  shows "partition_ok symbols (rows @ filter is_depth_row batch) (add_batch batch st)"
proof -
  let ?sorted = "sort_key row_symbol_text (filter is_depth_row batch)"
  have "partition_ok symbols (rows @ ?sorted) (add_batch batch st)"
    unfolding add_batch_def group_by_symbol_preserving_order_def
    using add_groups_ok [OF assms, of "symbol_runs ?sorted"] symbol_runs_uniform symbol_runs_concat by fastforce
  moreover have "of_symbol s (rows @ ?sorted) = of_symbol s (rows @ filter is_depth_row batch)" for s
    by (simp add: sort_key_stable)
  ultimately show ?thesis using partition_ok_stable by blast
qed

lemma new_build_ok:
  assumes "distinct symbols"
  shows "partition_ok symbols [] (new_build symbols)"
proof -
  have "distinct (map fst d @ xs) \<Longrightarrow> fold (\<lambda>s. dict_set s 0) xs d = d @ map (\<lambda>s. (s, 0 :: int)) xs" for xs d
  proof (induction xs arbitrary: d)
    case (Cons x xs)
    have "x \<notin> set (map fst d) \<Longrightarrow> dict_set x 0 d = d @ [(x, 0 :: int)]"
      by (induction d) auto
    then show ?case using Cons by simp
  qed simp
  from this [of "[]"] have "fold (\<lambda>s. dict_set s 0) symbols [] = map (\<lambda>s. (s, 0 :: int)) symbols" using assms by simp
  then show ?thesis
    by (auto simp: partition_ok_def new_build_def written_of_def count_of_def comp_def dict_get_def map_of_map_keys
        split: option.split dest: map_of_SomeD)
qed

lemma partition_rows_ok:
  assumes "distinct symbols"
  shows "partition_ok symbols (filter is_depth_row (concat batches)) (partition_rows symbols batches)"
proof -
  have "partition_ok symbols rows st \<Longrightarrow>
      partition_ok symbols (rows @ filter is_depth_row (concat batches)) (fold add_batch batches st)" for rows st
  proof (induction batches arbitrary: rows st)
    case (Cons b bs)
    from Cons.IH [OF add_batch_ok [OF Cons.prems]] show ?case by simp
  qed simp
  from this [OF new_build_ok [OF assms]] show ?thesis by (simp add: partition_rows_def)
qed

section \<open>The marker validates\<close>

lemma sum_counts:
  assumes "map fst d = symbols" "distinct symbols"
  shows "sum_list (map snd d) = sum_list (map (\<lambda>s. case dict_get d s of None \<Rightarrow> 0 | Some n \<Rightarrow> n) symbols)"
proof -
  have "snd kv = (case dict_get d (fst kv) of None \<Rightarrow> 0 | Some n \<Rightarrow> n)" if "kv \<in> set d" for kv
  proof -
    have "dict_ok d" using assms by (simp add: dict_ok_def)
    then have "dict_get d (fst kv) = Some (snd kv)" using that by (simp add: dict_get_Some_iff)
    then show ?thesis by simp
  qed
  then have "map snd d = map ((\<lambda>s. case dict_get d s of None \<Rightarrow> 0 | Some n \<Rightarrow> n) \<circ> fst) d" by simp
  then show ?thesis using assms(1) by (simp flip: map_map)
qed

lemma add_file_records:
  assumes "\<forall>s \<in> set symbols. file_record_valid (f s) = Some (rows s, sizes s)"
  shows "fold_result add_file_record (a, b) (map (\<lambda>s. (s, f s)) symbols) =
    Inr (a + sum_list (map rows symbols), b + sum_list (map sizes symbols))"
  using assms by (induction symbols arbitrary: a b) (simp_all add: add_file_record_def algebra_simps)

text \<open>The hash and the size of a file that was written are well formed.\<close>

definition good_shards :: "(typed_row list \<Rightarrow> int \<times> string) \<Rightarrow> bool" where
  "good_shards shard_of \<longleftrightarrow> (\<forall>rows. 1 \<le> fst (shard_of rows) \<and> hash_pattern (snd (shard_of rows)))"

lemma built_marker_valid:
  assumes ok: "partition_ok (pk_symbols key) rows st" "distinct (pk_symbols key)" "pk_symbols key \<noteq> []"
    and counts: "\<not> list_ex (\<lambda>(_, n). n = 0) (bs_row_counts st)"
    and sources: "validate_source_file_identities content_hash (JList sources) (JStr (content_hash (JList sources))) = Inr sources"
    and shards: "good_shards shard_of" "out \<noteq> []"
  shows "validate_marker content_hash key (build_marker content_hash shard_of key sources out st) =
    Inr (map (\<lambda>s. (s, file_record shard_of st s)) (pk_symbols key))"
proof -
  let ?m = "build_marker content_hash shard_of key sources out st"
  let ?symbols = "pk_symbols key"
  let ?sched = "sort_key (\<lambda>s. (- count_of st s, s)) ?symbols"
  have sched_ne: "?sched \<noteq> []" using ok(3) by (metis length_0_conv length_sort)
  have tuples: "tuple_or_empty (JList (map JStr ss)) = Inr (map JStr ss)" for ss
    by (cases ss) (simp_all add: tuple_or_empty_def falsy_def)
  have inj: "inj JStr" by (rule injI) simp
  have head: "marker_head_valid key ?m"
    by (auto simp: marker_head_valid_def build_marker_def Let_def obj_keys_def marker_fields_def jget_def equals_int_def plain_int_def)
  have "distinct (map JStr ?sched)"
    using ok(2) inj by (simp add: distinct_map inj_on_subset [OF inj])
  then have sched: "schedule_valid key (map JStr ?sched)"
    using distinct_card [of "map JStr ?sched"] by (simp add: schedule_valid_def)
  have pos: "1 \<le> count_of st s" if mem: "s \<in> set ?symbols" for s
  proof -
    have dok: "dict_ok (bs_row_counts st)" using ok(1,2) by (simp add: partition_ok_def dict_ok_def)
    obtain n where n: "dict_get (bs_row_counts st) s = Some n"
      using mem dict_get_keys [of "bs_row_counts st" s] partition_ok_def [THEN iffD1, OF ok(1)] by auto
    then have "(s, n) \<in> set (bs_row_counts st)" using dict_get_Some_iff [OF dok] by blast
    then have "n \<noteq> 0" using counts by (auto simp: list_ex_iff)
    moreover have "0 \<le> n" using ok(1) mem n by (auto simp: partition_ok_def count_of_def)
    ultimately show ?thesis using n by (simp add: count_of_def)
  qed
  have records: "\<forall>s \<in> set ?symbols. file_record_valid (file_record shard_of st s) =
      Some (count_of st s, fst (shard_of (written_of st s)))"
    using pos shards(1)
    by (auto simp: file_record_def file_record_valid_def good_shards_def jget_def plain_int_def obj_keys_def case_prod_unfold)
  have totals: "sum_list (map snd (bs_row_counts st)) = sum_list (map (count_of st) ?symbols)"
    using sum_counts [of "bs_row_counts st" ?symbols] ok(1,2)
    by (simp add: partition_ok_def count_of_def [abs_def])
  have ignored: "ignored_rows_valid (JObj (map (\<lambda>(s, n). (s, JInt n)) (bs_ignored st)))"
    using ok(1) by (auto simp: ignored_rows_valid_def partition_ok_def plain_int_def list_all_iff)
  have fields: "jget ?m ''schedule'' = JList (map JStr ?sched)" "jget ?m ''symbols'' = JList (map JStr ?symbols)"
    "jget ?m ''typed_source_files'' = JList sources" "jget ?m ''typed_source_file_set_hash'' = JStr (content_hash (JList sources))"
    "jget ?m ''files'' = JObj (map (\<lambda>s. (s, file_record shard_of st s)) ?symbols)"
    "jget ?m ''ignored_rows'' = JObj (map (\<lambda>(s, n). (s, JInt n)) (bs_ignored st))"
    "jget ?m ''total_rows'' = JInt (sum_list (map snd (bs_row_counts st)))"
    "jget ?m ''total_bytes'' = JInt (sum_list (map (\<lambda>s. fst (shard_of (written_of st s))) ?symbols))"
    "jget ?m ''output_root'' = JStr out"
    by (simp_all add: build_marker_def Let_def jget_def)
  have keys: "obj_keys (map (\<lambda>s. (s, file_record shard_of st s)) ?symbols) = set ?symbols"
    by (simp add: obj_keys_def comp_def)
  have hash_ok: "\<not> list_ex (\<lambda>v. \<not> hashable v) (map JStr ?sched)" by (simp add: list_ex_iff hashable_def)
  show ?thesis
    unfolding validate_marker_def fields tuples rbind_simps
    using head sched hash_ok ignored shards(2)
    by (simp add: sources add_file_records [OF records] keys totals equals_int_def)
qed

text \<open>The file of a symbol holds exactly the depth rows of that symbol, in the order of the typed
  files, and the counts in the marker are their numbers; sorting batches by symbol loses and reorders
  nothing.\<close>

lemma partition_is_filter:
  assumes "distinct symbols" "s \<in> set symbols"
  shows "written_of (partition_rows symbols batches) s =
      filter (\<lambda>r. is_depth_row r \<and> row_symbol_text r = s) (concat batches) \<and>
    count_of (partition_rows symbols batches) s = int (length (written_of (partition_rows symbols batches) s))"
  using partition_rows_ok [OF assms(1), of batches] assms(2)
  by (simp add: partition_ok_def filter_filter conj_commute)

lemma known_symbols_Inr:
  assumes "known_symbols c d normalized = Inr symbols"
  shows "distinct symbols \<and> length symbols = 60"
proof -
  obtain vs where vs0: "length vs = 60" "card (set vs) = 60" "symbols = map symbol_text vs"
    "\<not> list_ex (\<lambda>v. case v of JStr s \<Rightarrow> s = [] | _ \<Rightarrow> True) vs"
    using assms by (auto simp: known_symbols_def split: json.splits if_splits)
  have "\<forall>v \<in> set vs. \<exists>s. v = JStr s"
  proof
    fix v assume "v \<in> set vs"
    then have "\<not> (case v of JStr s \<Rightarrow> s = [] | _ \<Rightarrow> True)" using vs0(4) by (auto simp: list_ex_iff)
    then show "\<exists>s. v = JStr s" by (cases v) auto
  qed
  note vs = vs0(1,2) this vs0(3)
  have "inj_on symbol_text (set vs)" 
  proof (rule inj_onI)
    fix v w assume "v \<in> set vs" "w \<in> set vs" "symbol_text v = symbol_text w"
    then obtain x y where xy: "v = JStr x" "w = JStr y" and eq: "symbol_text v = symbol_text w" using vs(3) by blast
    then show "v = w" by (simp add: symbol_text_def)
  qed
  moreover have "distinct vs" using vs(1,2) by (simp add: card_distinct)
  ultimately show ?thesis using vs by (simp add: distinct_map)
qed

lemma identities_idempotent:
  assumes "validate_source_file_identities h v e = Inr sources"
  shows "v = JList sources \<and> e = JStr (h (JList sources))"
  using assms by (auto simp: validate_source_file_identities_def rbind_Inr_iff split: json.splits if_splits)

text \<open>A projection that was built is accepted when it is read back: its marker validates for the same
  collector, day, normalized marker and symbols, with the file records of exactly these symbols.\<close>

lemma built_projection_validates:
  assumes "build_l2_inputs content_hash shard_of b = Inr (m, Some st)"
    and "good_shards shard_of" "bi_output_root b \<noteq> []"
  shows "\<exists>symbols files. known_symbols (bi_collector b) (bi_utc_date b) (bi_normalized b) = Inr symbols \<and>
    validate_marker content_hash \<lparr>pk_collector_id = bi_collector b, pk_utc_date = bi_utc_date b,
      pk_normalized_sha256 = bi_normalized_sha256 b, pk_symbols = symbols\<rparr> m = Inr files \<and>
    map fst files = symbols"
proof -
  obtain symbols sources where s: "known_symbols (bi_collector b) (bi_utc_date b) (bi_normalized b) = Inr symbols"
    and src: "load_typed_source_files content_hash (bi_collector b) (bi_utc_date b) (bi_normalized_sha256 b)
         (bi_normalized b) (bi_sidecar b) (bi_bootstrap b) (bi_typed_files b) = Inr sources"
    and m: "m = build_marker content_hash shard_of \<lparr>pk_collector_id = bi_collector b, pk_utc_date = bi_utc_date b,
      pk_normalized_sha256 = bi_normalized_sha256 b, pk_symbols = symbols\<rparr> sources (bi_output_root b) st"
    and st: "st = partition_rows symbols (concat (map (bi_batches b)
        (map (\<lambda>v. case v of JObj rec \<Rightarrow> symbol_text (jget rec ''uri'') | _ \<Rightarrow> []) sources)))"
      "\<not> list_ex (\<lambda>(_, n). n = 0) (bs_row_counts st)"
    using assms(1) unfolding build_l2_inputs_def Let_def existing_marker_of_def
    by (auto simp: rbind_Inr_iff split: if_splits option.splits)
  have "\<exists>v e. validate_source_file_identities content_hash v e = Inr sources"
    using src unfolding load_typed_source_files_def Let_def by (auto split: if_splits option.splits)
  then have sources: "validate_source_file_identities content_hash (JList sources) (JStr (content_hash (JList sources))) = Inr sources"
    using identities_idempotent by metis
  note d = known_symbols_Inr [OF s]
  then have "symbols \<noteq> []" by auto
  then show ?thesis
    using s d built_marker_valid [OF _ _ _ st(2) sources assms(2,3), of "\<lparr>pk_collector_id = bi_collector b, pk_utc_date = bi_utc_date b,
      pk_normalized_sha256 = bi_normalized_sha256 b, pk_symbols = symbols\<rparr>"] partition_rows_ok
    unfolding m st(1) by (fastforce simp: comp_def)
qed

section \<open>A concrete build\<close>

definition demo_symbols :: "string list" where "demo_symbols = members ex_decision"

definition demo_row :: "string \<Rightarrow> typed_row" where
  "demo_row s = base_row ex_env ex_raw DEPTH (Some s) []"

definition demo_hash :: "json \<Rightarrow> string" where "demo_hash v = ''sha256:'' @ zeros"

definition demo_source :: json where
  "demo_source = source_file_identity demo_hash ''derived/typed/collector=c/date=d/a'' 1 zeros"

definition demo_build :: build_inputs where
  "demo_build = \<lparr>bi_collector = ''c'', bi_utc_date = ''d'',
     bi_normalized = [(''collector_id'', JStr ''c''), (''utc_date'', JStr ''d''),
       (''expected_symbols'', JList (map JStr demo_symbols)), (''typed_source_files'', JList [demo_source]),
       (''typed_source_file_set_hash'', JStr (demo_hash JNull))],
     bi_normalized_sha256 = zeros, bi_sidecar = None, bi_bootstrap = False,
     bi_typed_files = [(''a'', 1, zeros)], bi_batches = (\<lambda>_. [map demo_row demo_symbols]),
     bi_existing = \<lparr>pd_marker = None, pd_shards = (\<lambda>_. None)\<rparr>, bi_output_root = ''o'', bi_rename_conflict = None\<rparr>"

lemma demo_decision: "validate_universe_decision ascii (\<lambda>_ _ _. ''h'') ex_decision = Inr ex_decision"
  by code_simp

lemma demo_symbols_ok: "distinct demo_symbols" "length demo_symbols = 60" "\<forall>s \<in> set demo_symbols. s \<noteq> []"
proof -
  note ok = validate_decision_Inr [OF demo_decision]
  then show "distinct demo_symbols" "length demo_symbols = 60" by (simp_all add: demo_symbols_def members_def)
  have "s \<noteq> []" if "is_exchange_symbol ascii s" for s
    using that by (auto simp: is_exchange_symbol_def code_points_def)
  then show "\<forall>s \<in> set demo_symbols. s \<noteq> []" using ok by (auto simp: demo_symbols_def)
qed

lemma demo_counts: "\<not> list_ex (\<lambda>(_, n). n = 0) (bs_row_counts (partition_rows demo_symbols [map demo_row demo_symbols]))"
proof -
  let ?st = "partition_rows demo_symbols [map demo_row demo_symbols]"
  note ok = partition_rows_ok [OF demo_symbols_ok(1), of "[map demo_row demo_symbols]"]
  have dok: "dict_ok (bs_row_counts ?st)" using ok demo_symbols_ok(1) by (simp add: partition_ok_def dict_ok_def)
  have "n \<noteq> 0" if mem: "(s, n) \<in> set (bs_row_counts ?st)" for s n
  proof -
    have "s \<in> fst ` set (bs_row_counts ?st)" using mem by force
    then have s: "s \<in> set demo_symbols"
      using ok unfolding partition_ok_def set_map [symmetric] by simp
    then have "demo_row s \<in> set (of_symbol s (filter is_depth_row (concat [map demo_row demo_symbols])))"
      by (simp add: demo_row_def base_row_def is_depth_row_def row_symbol_text_def)
    then have "0 < length (of_symbol s (filter is_depth_row (concat [map demo_row demo_symbols])))"
      by (rule length_pos_if_in_set)
    moreover have "count_of ?st s = int (length (of_symbol s (filter is_depth_row (concat [map demo_row demo_symbols]))))"
      using ok s unfolding partition_ok_def by blast
    moreover have "count_of ?st s = n"
      using iffD2 [OF dict_get_Some_iff [OF dok] mem] by (simp add: count_of_def)
    ultimately show ?thesis by linarith
  qed
  then show ?thesis by (auto simp: list_ex_iff)
qed

lemma demo_built:
  "\<exists>m. build_l2_inputs demo_hash (\<lambda>_. (1, zeros)) demo_build =
     Inr (m, Some (partition_rows demo_symbols [map demo_row demo_symbols]))"
proof -
  have "card (set (map JStr demo_symbols)) = 60"
    using demo_symbols_ok by (subst distinct_card) (simp_all add: distinct_map inj_on_def)
  then have known: "known_symbols ''c'' ''d'' (bi_normalized demo_build) = Inr demo_symbols"
    using demo_symbols_ok(2,3)
    by (simp add: known_symbols_def demo_build_def jget_def list_ex_iff symbol_text_def comp_def)
  have "validate_identity demo_hash demo_source = Inr ''derived/typed/collector=c/date=d/a''"
    by code_simp
  then have "validate_source_file_identities demo_hash (JList [demo_source]) (JStr (demo_hash JNull)) = Inr [demo_source]"
    by (simp add: validate_source_file_identities_def demo_hash_def)
  then have loaded: "load_typed_source_files demo_hash ''c'' ''d'' zeros (bi_normalized demo_build) None False
      [(''a'', 1, zeros)] = Inr [demo_source]"
    by (simp add: load_typed_source_files_def demo_build_def jget_def obj_keys_def)
  have uri: "demo_source = JObj rec \<Longrightarrow> symbol_text (jget rec ''uri'') = ''derived/typed/collector=c/date=d/a'' \<and>
      plain_int (jget rec ''size_bytes'') = Some 1" for rec
    by (auto simp: demo_source_def source_file_identity_def Let_def jget_def symbol_text_def plain_int_def)
  obtain rec where rec: "demo_source = JObj rec" by (simp add: demo_source_def source_file_identity_def Let_def)
  show ?thesis
    unfolding build_l2_inputs_def
    using known loaded demo_counts uri [OF rec]
    by (simp add: demo_build_def rec source_present_def typed_sizes_of_def typed_uri_of_def Let_def)
qed

lemma partition_is_filter_witness:
  "written_of (partition_rows demo_symbols [map demo_row demo_symbols]) (hd demo_symbols) = [demo_row (hd demo_symbols)]"
proof -
  obtain s ss where ss: "demo_symbols = s # ss" using demo_symbols_ok(2) by (cases demo_symbols) auto
  have "is_depth_row (demo_row t) \<and> row_symbol_text (demo_row t) = t" for t
    by (simp add: demo_row_def base_row_def is_depth_row_def row_symbol_text_def)
  then have "filter (\<lambda>r. is_depth_row r \<and> row_symbol_text r = s) (map demo_row demo_symbols) = [demo_row s]"
    using demo_symbols_ok(1) by (auto simp: ss filter_map comp_def filter_empty_conv)
  then show ?thesis
    using partition_is_filter [OF demo_symbols_ok(1), of s "[map demo_row demo_symbols]"] by (simp add: ss)
qed

lemma built_projection_validates_witness:
  "\<exists>m files. validate_marker demo_hash \<lparr>pk_collector_id = ''c'', pk_utc_date = ''d'',
     pk_normalized_sha256 = zeros, pk_symbols = demo_symbols\<rparr> m = Inr files \<and> map fst files = demo_symbols"
proof -
  obtain m where m: "build_l2_inputs demo_hash (\<lambda>_. (1, zeros)) demo_build =
     Inr (m, Some (partition_rows demo_symbols [map demo_row demo_symbols]))"
    using demo_built by blast
  have z: "hash_pattern zeros" by code_simp
  have "good_shards (\<lambda>_. (1, zeros))" using z by (simp add: good_shards_def)
  from built_projection_validates [OF m this] obtain symbols files where
    v: "validate_marker demo_hash \<lparr>pk_collector_id = ''c'', pk_utc_date = ''d'',
     pk_normalized_sha256 = zeros, pk_symbols = symbols\<rparr> m = Inr files" "map fst files = symbols"
    "known_symbols ''c'' ''d'' (bi_normalized demo_build) = Inr symbols"
    by (auto simp: demo_build_def)
  have "symbols = demo_symbols"
    using v(3) by (auto simp: known_symbols_def demo_build_def jget_def symbol_text_def comp_def split: if_splits)
  then show ?thesis using v by blast
qed

end
