(* ===== verification/Day_Index.thy ===== *)
theory Day_Index
  imports Contracts
begin

text \<open>
  \<open>src/miry/collector/day_index.py\<close>, \<open>DayIndex\<close>: the append-only inventory of the chunks of a UTC day and
  its sealing. The journal, the manifests still in the ready directory and the acknowledged ones are
  per-day lists; writes succeed, and the lock makes every operation atomic.
\<close>

section \<open>Operations\<close>

record day_index =
  di_collector_id :: string
  di_journal :: "(utc_date, chunk_ref list) dict"
  di_ready :: "(utc_date, chunk_manifest list) dict"
  di_acked :: "(utc_date, chunk_manifest list) dict"
  di_sealed :: "(utc_date, day_manifest) dict"

definition at_date :: "(utc_date, 'a list) dict \<Rightarrow> utc_date \<Rightarrow> 'a list" where
  "at_date d k = (case dict_get d k of None \<Rightarrow> [] | Some xs \<Rightarrow> xs)"

definition is_sealed :: "day_index \<Rightarrow> utc_date \<Rightarrow> bool" where
  "is_sealed di d \<longleftrightarrow> dict_get (di_sealed di) d \<noteq> None"

definition append_ref :: "utc_date \<Rightarrow> chunk_ref \<Rightarrow> day_index \<Rightarrow> day_index" where
  "append_ref d c di = di\<lparr>di_journal := dict_set d (at_date (di_journal di) d @ [c]) (di_journal di)\<rparr>"

definition record_chunk :: "utc_date \<Rightarrow> chunk_ref \<Rightarrow> day_index \<Rightarrow> py_error + day_index" where
  "record_chunk d c di =
     (if is_sealed di d then Inl (RuntimeError ''cannot add a chunk to sealed UTC day'') else Inr (append_ref d c di))"

text \<open>
  \<open>_generate_and_record\<close>: \<open>create\<close> writes an artifact with its manifest into the ready directory, or
  fails. With \<open>recover_io\<close> one \<open>OSError\<close> is answered by a second attempt.
\<close>

definition generate_and_record :: "utc_date \<Rightarrow> py_error + chunk_manifest \<Rightarrow> day_index \<Rightarrow> py_error + day_index" where
  "generate_and_record d create di =
     rbind create (\<lambda>m.
     let di1 = di\<lparr>di_ready := dict_set (cm_utc_date m) (at_date (di_ready di) (cm_utc_date m) @ [m]) (di_ready di)\<rparr> in
     if cm_utc_date m \<noteq> d then Inl (ValueError ''generated chunk UTC date mismatch'')
     else Inr (append_ref d (as_ref m) di1))"

definition record_generated ::
    "utc_date \<Rightarrow> py_error + chunk_manifest \<Rightarrow> (py_error + chunk_manifest) option \<Rightarrow> day_index \<Rightarrow> py_error + day_index" where
  "record_generated d create recovered di =
     (if is_sealed di d then Inl (RuntimeError ''cannot publish into sealed UTC day'')
      else case generate_and_record d create di of
          Inl (OSError e) \<Rightarrow>
            (case recovered of None \<Rightarrow> Inl (OSError e) | Some again \<Rightarrow> generate_and_record d again di)
        | r \<Rightarrow> r)"

text \<open>
  \<open>_read_refs\<close>: the journal, then the ready and acknowledged manifests, by identity, in its order. Without a
  journal file nothing is read.
\<close>

definition put_ref :: "chunk_ref \<Rightarrow> (string \<times> string, chunk_ref) dict \<Rightarrow> (string \<times> string, chunk_ref) dict" where
  "put_ref c by_identity = dict_set (chunk_identity c) c by_identity"

definition all_refs :: "day_index \<Rightarrow> utc_date \<Rightarrow> chunk_ref list" where
  "all_refs di d =
     (case dict_get (di_journal di) d of
        None \<Rightarrow> []
      | Some journal \<Rightarrow> journal @ map as_ref (at_date (di_ready di) d) @ map as_ref (at_date (di_acked di) d))"

definition read_refs :: "day_index \<Rightarrow> utc_date \<Rightarrow> py_error + chunk_ref list" where
  "read_refs di d =
     (case dict_get (di_journal di) d of
        None \<Rightarrow> Inr []
      | Some journal \<Rightarrow>
          rbind (map_result validate_chunk_ref journal) (\<lambda>_.
          rbind (map_result validate_chunk_manifest (at_date (di_ready di) d @ at_date (di_acked di) d)) (\<lambda>_.
          Inr (map snd (sort_key fst (fold put_ref (all_refs di d) []))))))"

definition clean_sealed_day_state :: "utc_date \<Rightarrow> day_index \<Rightarrow> day_index" where
  "clean_sealed_day_state d di =
     di\<lparr>di_journal := dict_pop d (di_journal di), di_acked := dict_pop d (di_acked di)\<rparr>"

definition seal :: "utc_date \<Rightarrow> py_datetime \<Rightarrow> day_index \<Rightarrow> py_error + day_index" where
  "seal d sealed_time di =
     (if is_sealed di d then Inr (clean_sealed_day_state d di)
      else
        rbind (read_refs di d) (\<lambda>refs.
        rbind (validate_day_manifest \<lparr>dm_schema_version = 1, dm_collector_id = di_collector_id di, dm_utc_date = d,
            sealed_at = sealed_time, chunks = refs\<rparr>) (\<lambda>manifest.
        Inr (clean_sealed_day_state d (di\<lparr>di_sealed := dict_set d manifest (di_sealed di)\<rparr>)))))"

definition completed_dates :: "utc_date \<Rightarrow> day_index \<Rightarrow> utc_date list" where
  "completed_dates today di =
     sort (filter (\<lambda>d. d < today)
       (remdups (dict_keys (di_journal di) @ dict_keys (di_ready di) @ dict_keys (di_acked di))))"

section \<open>The inventory\<close>

lemma put_refs_get:
  "dict_get (fold put_ref cs d) = foldl (\<lambda>m c. m(chunk_identity c \<mapsto> c)) (dict_get d) cs"
  by (induction cs arbitrary: d) (simp_all add: put_ref_def)

lemma put_refs_keys: "fst ` set (fold put_ref cs d) = chunk_identity ` set cs \<union> fst ` set d"
  by (induction cs arbitrary: d) (auto simp: put_ref_def)

lemma put_refs_ok: "dict_ok d \<Longrightarrow> dict_ok (fold put_ref cs d)"
  by (induction cs arbitrary: d) (simp_all add: put_ref_def)

lemma put_ref_values:
  assumes "\<forall>(k, c) \<in> set d. k = chunk_identity c \<and> c \<in> X"
  shows "\<forall>(k, c') \<in> set (put_ref c d). k = chunk_identity c' \<and> c' \<in> insert c X"
  using assms unfolding put_ref_def by (induction d) (auto split: if_splits)

lemma put_refs_values:
  assumes "\<forall>(k, c) \<in> set d. k = chunk_identity c \<and> c \<in> X"
  shows "\<forall>(k, c) \<in> set (fold put_ref cs d). k = chunk_identity c \<and> c \<in> X \<union> set cs"
  using assms
proof (induction cs arbitrary: d X)
  case (Cons c cs)
  have "\<forall>(k, c') \<in> set (fold put_ref cs (put_ref c d)). k = chunk_identity c' \<and> c' \<in> insert c X \<union> set cs"
    using put_ref_values [OF Cons.prems, of c] by (intro Cons.IH) auto
  then show ?case by auto
qed auto

lemma read_refs_Inr:
  assumes "read_refs di d = Inr refs"
  shows "map chunk_identity refs = sort (map chunk_identity refs) \<and> distinct (map chunk_identity refs) \<and>
    set refs \<subseteq> set (all_refs di d) \<and> chunk_identity ` set refs = chunk_identity ` set (all_refs di d)"
proof -
  let ?d = "fold put_ref (all_refs di d) []"
  have refs: "refs = map snd (sort_key fst ?d)"
    using assms by (auto simp: read_refs_def rbind_Inr_iff all_refs_def split: option.splits)
  have vals: "\<forall>(k, c) \<in> set ?d. k = chunk_identity c \<and> c \<in> set (all_refs di d)"
    using put_refs_values [of "[]" "{}" "all_refs di d"] by simp
  then have ids: "map chunk_identity refs = map fst (sort_key fst ?d)"
    unfolding refs by (auto simp: comp_def)
  have "distinct (map fst ?d)" using put_refs_ok [of "[]" "all_refs di d"] by (simp add: dict_ok_def)
  then have "distinct (map fst (sort_key fst ?d))" by (metis distinct_map distinct_sort set_sort)
  moreover have "sorted (map fst (sort_key fst ?d))" by simp
  moreover have "set refs \<subseteq> set (all_refs di d)" using vals by (auto simp: refs)
  moreover have "chunk_identity ` set refs = chunk_identity ` set (all_refs di d)"
  proof -
    have "chunk_identity ` set refs = fst ` set ?d" by (metis ids list.set_map set_sort)
    then show ?thesis by (simp add: put_refs_keys)
  qed
  ultimately show ?thesis unfolding ids by (simp add: sorted_sort_id)
qed


definition demo_index :: day_index where
  "demo_index = \<lparr>di_collector_id = ''vultr-01'', di_journal = [(20000, [ex_chunk, ex_chunk])], di_ready = [],
     di_acked = [], di_sealed = []\<rparr>"


text \<open>C13. A day whose only chunk reached the ready directory but not the journal (the writer stopped between the two
  writes) is offered by \<open>completed_dates\<close>, and sealing it succeeds with a manifest that lists no chunk at all.\<close>

theorem unjournaled_day_sealed_empty:
  assumes "dict_get (di_ready di) d = Some (c # cs)" "dict_get (di_journal di) d = None" "\<not> is_sealed di d"
    "d < today" "valid_collector_id_length (di_collector_id di)"
  shows "d \<in> set (completed_dates today di) \<and>
    (\<exists>di' m. seal d (ex_time (d + 1)) di = Inr di' \<and> dict_get (di_sealed di') d = Some m \<and> chunks m = [])"
proof -
  have "d \<in> fst ` set (di_ready di)" using assms(1) dict_get_None_iff [of "di_ready di" d] by (auto intro: ccontr)
  then have "d \<in> set (completed_dates today di)" using assms(4) by (simp add: completed_dates_def dict_keys_def)
  moreover have "\<exists>m. validate_day_manifest \<lparr>dm_schema_version = 1, dm_collector_id = di_collector_id di, dm_utc_date = d,
      sealed_at = ex_time (d + 1), chunks = []\<rparr> = Inr m \<and> chunks m = []"
    using assms(5)
    by (simp add: validate_day_manifest_def require_utc_def ex_time_def dt_date_def us_per_day_def)
  ultimately show ?thesis
    using assms(2,3) by (auto simp: seal_def read_refs_def clean_sealed_day_state_def)
qed

definition demo_ready :: chunk_manifest where
  "demo_ready = \<lparr>chunk_id = ''chunk-0001'', data_path = ''date=2026-08-10/a.parquet'', chunk_sha256 = replicate 64 CHR ''a'',
     size_bytes = 10, chunk_content_type = PARQUET, cm_schema_version = 1, cm_collector_id = ''vultr-01'',
     cm_writer_group = GROUP_METADATA, cm_utc_date = 20000, event_count = 1, min_app_receive_realtime_ns = 0,
     max_app_receive_realtime_ns = 0, data_contract_hash = replicate 64 CHR ''a'', cm_universe_hash = replicate 64 CHR ''a'',
     cm_created_at = ex_time 20000\<rparr>"

theorem unjournaled_day_sealed_empty_witness:
  "20000 \<in> set (completed_dates 20001 (demo_index\<lparr>di_journal := [], di_ready := [(20000, [demo_ready])]\<rparr>))"
  using unjournaled_day_sealed_empty [of "demo_index\<lparr>di_journal := [], di_ready := [(20000, [demo_ready])]\<rparr>" 20000
      demo_ready "[]" 20001]
  by (simp add: demo_index_def is_sealed_def dict_get_def valid_collector_id_length_def code_points_def)

end
