(* ===== verification/Gap_Journal.thy ===== *)
theory Gap_Journal
  imports Day_Index Quality Calendar
begin

text \<open>
  \<open>src/miry/collector/gaps.py\<close>, \<open>GapJournal\<close>: gaps are published as OPEN and CLOSED events of the UTC day
  they fall on, and a gap that is open at midnight is split there. \<open>src/miry/pipeline/gaps.py\<close> collects
  the events of a sealed day into its ledger. The clock, the fresh gap id and the size and hash of a
  written event are inputs; the reserve file only frees space and is left out.
\<close>

section \<open>Events\<close>

definition event_effective_ns :: "gap_event \<Rightarrow> int" where
  "event_effective_ns e =
     (case affected_from_realtime_ns e of
        Some a \<Rightarrow> if gap_state e = OPEN then a else observed_at_realtime_ns e
      | None \<Rightarrow> observed_at_realtime_ns e)"

definition event_date :: "gap_event \<Rightarrow> utc_date" where
  "event_date e = date_of_ns (event_effective_ns e)"

definition continue_closed :: "gap_event \<Rightarrow> int \<Rightarrow> gap_event" where
  "continue_closed e ns = e\<lparr>gap_state := CLOSED, observed_at_realtime_ns := ns, affected_from_realtime_ns := None,
     detail := ''gap continues into the next UTC day''\<rparr>"

definition continue_open :: "gap_event \<Rightarrow> int \<Rightarrow> gap_event" where
  "continue_open e ns = e\<lparr>gap_state := OPEN, observed_at_realtime_ns := ns, affected_from_realtime_ns := Some ns,
     detail := ''gap continued from a previous UTC day''\<rparr>"

section \<open>The journal\<close>

record gap_env =
  ge_unicode :: unicode
  ge_file :: "gap_event \<Rightarrow> int \<times> string"
  ge_created :: py_datetime

text \<open>\<open>gj_written\<close> are the events written so far, in order; \<open>gj_open\<close> the files of the open gaps.\<close>

record gap_journal =
  gj_collector_id :: string
  gj_data_contract_hash :: string
  gj_universe_hash :: string
  gj_open :: "(string, gap_event) dict"
  gj_index :: day_index
  gj_written :: "gap_event list"

definition set_universe_hash :: "string \<Rightarrow> gap_journal \<Rightarrow> gap_journal" where
  "set_universe_hash h j = j\<lparr>gj_universe_hash := h\<rparr>"

definition artifact_id :: "gap_event \<Rightarrow> string" where
  "artifact_id e = gap_id e @ ''-'' @ show_int (observed_at_realtime_ns e) @ ''-'' @
     (case gap_state e of OPEN \<Rightarrow> ''open'' | CLOSED \<Rightarrow> ''closed'')"

definition gap_data_path :: "gap_event \<Rightarrow> string" where
  "gap_data_path e = ''date='' @ iso_date (event_date e) @ ''/writer=control/'' @ artifact_id e @ ''.gap.json''"

definition write_gap :: "gap_env \<Rightarrow> gap_journal \<Rightarrow> gap_event \<Rightarrow> py_error + chunk_manifest" where
  "write_gap env j e =
     validate_chunk_manifest \<lparr>chunk_id = artifact_id e, data_path = gap_data_path e,
       chunk_sha256 = snd (ge_file env e), size_bytes = fst (ge_file env e), chunk_content_type = GAP_JSON,
       cm_schema_version = 1, cm_collector_id = gj_collector_id j, cm_writer_group = GROUP_CONTROL,
       cm_utc_date = event_date e, event_count = 1, min_app_receive_realtime_ns = event_effective_ns e,
       max_app_receive_realtime_ns = event_effective_ns e, data_contract_hash = gj_data_contract_hash j,
       cm_universe_hash = gj_universe_hash j, cm_created_at = ge_created env\<rparr>"

definition publish :: "gap_env \<Rightarrow> gap_event \<Rightarrow> gap_journal \<Rightarrow> py_error + gap_journal" where
  "publish env e j =
     rbind (record_generated (event_date e) (write_gap env j e) (Some (write_gap env j e)) (gj_index j)) (\<lambda>di.
     Inr (j\<lparr>gj_index := di, gj_written := gj_written j @ [e]\<rparr>))"

definition open_gap :: "gap_env \<Rightarrow> gap_event \<Rightarrow> gap_journal \<Rightarrow> py_error + gap_journal" where
  "open_gap env request j =
     rbind (validate_gap_event (ge_unicode env)
         (request\<lparr>gap_state := OPEN, gap_collector_id := gj_collector_id j\<rparr>)) (\<lambda>e.
     rbind (publish env e j) (\<lambda>j1.
     Inr (j1\<lparr>gj_open := dict_set (gap_id e) e (gj_open j1)\<rparr>)))"

text \<open>The loop of \<open>_roll_state_to\<close> over the midnights after the opened event.\<close>

function roll_from :: "gap_env \<Rightarrow> string \<Rightarrow> gap_event \<Rightarrow> utc_date \<Rightarrow> utc_date \<Rightarrow> gap_journal \<Rightarrow> py_error + gap_journal" where
  "roll_from env g opened current target j =
     (if target < current then Inr j
      else
        rbind (if is_sealed (gj_index j) (current - 1) then Inr j
               else publish env (continue_closed opened (midnight_ns current - 1)) j) (\<lambda>j1.
        let opened' = continue_open opened (midnight_ns current) in
        rbind (publish env opened' j1) (\<lambda>j2.
        roll_from env g opened' (current + 1) target (j2\<lparr>gj_open := dict_set g opened' (gj_open j2)\<rparr>))))"
  by pat_completeness auto

termination
  by (relation "measure (\<lambda>(env, g, opened, current, target, j). nat (target + 1 - current))") auto

declare roll_from.simps [simp del]

definition roll_state_to :: "gap_env \<Rightarrow> string \<Rightarrow> utc_date \<Rightarrow> gap_journal \<Rightarrow> py_error + gap_journal" where
  "roll_state_to env g target j =
     (case dict_get (gj_open j) g of
        None \<Rightarrow> Inl (FileNotFoundError ''open gap'')
      | Some opened \<Rightarrow>
          let opened_ns = (case affected_from_realtime_ns opened of
                Some a \<Rightarrow> if a = 0 then observed_at_realtime_ns opened else a
              | None \<Rightarrow> observed_at_realtime_ns opened) in
          roll_from env g opened (date_of_ns opened_ns + 1) target j)"

definition close_gap :: "gap_env \<Rightarrow> gap_event \<Rightarrow> gap_journal \<Rightarrow> py_error + gap_journal" where
  "close_gap env request j =
     (let g = gap_id request; now = observed_at_realtime_ns request in
      rbind (if dict_get (gj_open j) g = None then Inr j else roll_state_to env g (date_of_ns now) j) (\<lambda>j1.
      rbind (validate_gap_event (ge_unicode env) (request\<lparr>gap_state := CLOSED, gap_collector_id := gj_collector_id j,
          affected_from_realtime_ns := None\<rparr>)) (\<lambda>e.
      rbind (publish env e j1) (\<lambda>j2.
      Inr (j2\<lparr>gj_open := dict_pop g (gj_open j2)\<rparr>)))))"

definition stale_open_events :: "gap_env \<Rightarrow> gap_journal \<Rightarrow> py_error + gap_event list" where
  "stale_open_events env j = map_result (\<lambda>(_, e). validate_gap_event (ge_unicode env) e) (sort_key fst (gj_open j))"

definition rollover :: "gap_env \<Rightarrow> py_datetime \<Rightarrow> gap_journal \<Rightarrow> py_error + gap_journal" where
  "rollover env at_midnight j =
     (if utc_offset at_midnight \<noteq> Some 0 then Inl (ValueError ''gap rollover boundary must be UTC'')
      else if \<not> dt_midnight at_midnight then Inl (ValueError ''gap rollover boundary must be UTC midnight'')
      else fold_result (\<lambda>j g. roll_state_to env g (dt_date at_midnight) j) j (sort (dict_keys (gj_open j))))"

section \<open>The ledger of a day\<close>

definition gap_sort_key :: "gap_event \<Rightarrow> int \<times> string \<times> string" where
  "gap_sort_key e = (event_effective_ns e, gap_id e, gap_state_value (gap_state e))"

definition build_transport_gap_ledger ::
    "unicode \<Rightarrow> day_manifest option \<Rightarrow> (string \<Rightarrow> (int \<times> string \<times> gap_event) option) \<Rightarrow> py_error + gap_event list" where
  "build_transport_gap_ledger u day files =
     (case day of
        None \<Rightarrow> Inl (FileNotFoundError ''SEALED.json'')
      | Some raw \<Rightarrow>
          rbind (validate_day_manifest raw) (\<lambda>m.
          rbind (map_result (\<lambda>c.
              case files (data_path c) of
                None \<Rightarrow> Inl (FileNotFoundError ''gap artifact'')
              | Some (n, sha, e) \<Rightarrow>
                  if n \<noteq> size_bytes c \<or> sha \<noteq> chunk_sha256 c then
                    Inl (ValueError ''gap artifact integrity failure'')
                  else validate_gap_event u e)
            (filter (\<lambda>c. chunk_content_type c = GAP_JSON) (chunks m))) (\<lambda>events.
          Inr (sort_key gap_sort_key events))))"

section \<open>What a split publishes\<close>

function split_events :: "gap_event \<Rightarrow> utc_date \<Rightarrow> utc_date \<Rightarrow> gap_event list" where
  "split_events e current target =
     (if target < current then []
      else continue_closed e (midnight_ns current - 1) # continue_open e (midnight_ns current) #
        split_events e (current + 1) target)"
  by pat_completeness auto

termination
  by (relation "measure (\<lambda>(e, current, target). nat (target + 1 - current))") auto

declare split_events.simps [simp del]

lemma continue_again [simp]:
  "continue_closed (continue_open e a) b = continue_closed e b"
  "continue_open (continue_open e a) b = continue_open e b"
  by (simp_all add: continue_closed_def continue_open_def)

lemma split_events_continue: "split_events (continue_open e a) current target = split_events e current target"
proof (induction e current target rule: split_events.induct)
  case (1 e current target)
  then show ?case by (subst (1 2) split_events.simps) simp
qed

lemma publish_Inr:
  assumes "publish env e j = Inr j'"
  shows "gj_written j' = gj_written j @ [e] \<and> gj_open j' = gj_open j \<and>
    di_sealed (gj_index j') = di_sealed (gj_index j) \<and> gj_collector_id j' = gj_collector_id j"
proof -
  obtain di where di: "record_generated (event_date e) (write_gap env j e) (Some (write_gap env j e)) (gj_index j) = Inr di"
    and j': "j' = j\<lparr>gj_index := di, gj_written := gj_written j @ [e]\<rparr>"
    using assms by (auto simp: publish_def rbind_Inr_iff)
  have "generate_and_record d c i = Inr i' \<Longrightarrow> di_sealed i' = di_sealed i" for d c i i'
    by (auto simp: generate_and_record_def rbind_Inr_iff Let_def append_ref_def split: if_splits)
  then have "di_sealed di = di_sealed (gj_index j)"
    using di by (auto simp: record_generated_def split: if_splits sum.splits py_error.splits)
  then show ?thesis by (simp add: j')
qed

lemma roll_from_written:
  assumes "roll_from env g opened current target j = Inr j'"
    and "\<forall>d. current - 1 \<le> d \<and> d < target \<longrightarrow> \<not> is_sealed (gj_index j) d"
  shows "gj_written j' = gj_written j @ split_events opened current target \<and>
    di_sealed (gj_index j') = di_sealed (gj_index j)"
  using assms
proof (induction env g opened current target j rule: roll_from.induct)
  case (1 env g opened current target j)
  show ?case
  proof (cases "target < current")
    case True
    then show ?thesis using 1(2) by (simp add: roll_from.simps split_events.simps)
  next
    case False
    let ?open = "continue_open opened (midnight_ns current)"
    have open': "\<not> is_sealed (gj_index j) (current - 1)" using 1(3) False by simp
    obtain j1 j2 where j1: "publish env (continue_closed opened (midnight_ns current - 1)) j = Inr j1"
      and j2: "publish env ?open j1 = Inr j2"
      and rest: "roll_from env g ?open (current + 1) target (j2\<lparr>gj_open := dict_set g ?open (gj_open j2)\<rparr>) = Inr j'"
      using 1(2) False open' by (subst (asm) roll_from.simps) (auto simp: rbind_Inr_iff Let_def)
    note p = publish_Inr [OF j1] publish_Inr [OF j2]
    have same: "is_sealed (gj_index j2) d = is_sealed (gj_index j) d" for d using p by (simp add: is_sealed_def)
    have "\<forall>d. current + 1 - 1 \<le> d \<and> d < target \<longrightarrow>
        \<not> is_sealed (gj_index (j2\<lparr>gj_open := dict_set g ?open (gj_open j2)\<rparr>)) d"
      using 1(3) same by simp
    from 1(1) [OF False refl rest this] j1 j2 open'
    have "gj_written j' = gj_written j2 @ split_events ?open (current + 1) target \<and>
        di_sealed (gj_index j') = di_sealed (gj_index j2)" by simp
    then show ?thesis
      using p False by (simp add: split_events.simps [of opened current target] split_events_continue)
  qed
qed

lemma split_events_on_day:
  "filter (\<lambda>x. event_date x = d) (split_events e current target) =
     (if current \<le> d \<and> d \<le> target then [continue_open e (midnight_ns d)] else []) @
     (if current \<le> d + 1 \<and> d + 1 \<le> target then [continue_closed e (midnight_ns (d + 1) - 1)] else [])"
proof (induction e current target rule: split_events.induct)
  case (1 e current target)
  have dates: "event_date (continue_open e (midnight_ns c)) = c"
    "event_date (continue_closed e (midnight_ns c - 1)) = c - 1" for c
    by (simp_all add: event_date_def event_effective_ns_def continue_open_def continue_closed_def)
  show ?case
  proof (cases "target < current")
    case True
    then show ?thesis by (simp add: split_events.simps)
  next
    case False
    then show ?thesis using 1 [OF False] by (subst split_events.simps) (auto simp: dates)
  qed
qed

section \<open>The gate sees the gap\<close>

lemma gap_rows_affects:
  "gap_rows symbol events = sort (map (\<lambda>e. (quality_effective_ns e, gap_id e, gap_state_value (gap_state e), detail e))
     (filter (affects symbol) events))"
  by (simp add: gap_rows_def affects_def [abs_def])

lemma covered_clip: "covered (clip ws we xs) ws we = stamps xs \<inter> {ws..<we}"
  by (auto simp: covered_def)

lemma pair_covers:
  assumes "affects symbol p" "affects symbol q" "gap_id q = gap_id p" "gap_state p = OPEN" "gap_state q = CLOSED"
    and "quality_effective_ns p = s" "observed_at_realtime_ns q = t" "s \<le> t"
    and "u = t + (if detail q = continues_text then 1 else 0)" "s = t \<Longrightarrow> u = we"
  shows "covered (explicit_invalid_intervals (Some [p, q]) symbol ws we) ws we = {s..<u} \<inter> {ws..<we}"
proof -
  have q: "quality_effective_ns q = t" using assms(5,7) by (simp add: quality_effective_ns_def)
  have rows: "gap_rows symbol [p, q] =
      (if s = t then [(t, gap_id p, ''CLOSED'', detail q), (s, gap_id p, ''OPEN'', detail p)]
       else [(s, gap_id p, ''OPEN'', detail p), (t, gap_id p, ''CLOSED'', detail q)])"
  proof -
    have closed_first: "''CLOSED'' < ''OPEN''" by code_simp
    show ?thesis
      using assms(1-8) q closed_first
      by (simp add: gap_rows_affects prod_le_def prod_less_def less_imp_le leD)
  qed
  have "fold match_gap (gap_rows symbol [p, q]) ([], []) =
      (if s = t then ([(gap_id p, s)], []) else ([], [(s, u)]))"
    unfolding rows by (simp add: match_gap_def assms(9) dict_pop_def dict_get_def)
  then show ?thesis
    using assms(10) by (auto simp: explicit_invalid_intervals_def covered_clip stamps_def)
qed

lemma close_gap_written:
  assumes "close_gap env req j = Inr j'" "dict_get (gj_open j) (gap_id req) = Some e" "gap_state e = OPEN"
    and "affected_from_realtime_ns e \<noteq> Some 0"
    and "\<forall>d. event_date e \<le> d \<and> d < date_of_ns (observed_at_realtime_ns req) \<longrightarrow> \<not> is_sealed (gj_index j) d"
  shows "gj_written j' = gj_written j @ split_events e (event_date e + 1) (date_of_ns (observed_at_realtime_ns req)) @
    [req\<lparr>gap_state := CLOSED, gap_collector_id := gj_collector_id j, affected_from_realtime_ns := None\<rparr>]"
proof -
  let ?close = "req\<lparr>gap_state := CLOSED, gap_collector_id := gj_collector_id j, affected_from_realtime_ns := None\<rparr>"
  obtain j1 j2 c where roll: "roll_state_to env (gap_id req) (date_of_ns (observed_at_realtime_ns req)) j = Inr j1"
    and c: "validate_gap_event (ge_unicode env) ?close = Inr c"
    and pub: "publish env c j1 = Inr j2" and j': "gj_written j' = gj_written j2"
    using assms(1,2) by (auto simp: close_gap_def Let_def rbind_Inr_iff)
  have "c = ?close" using c unfolding validate_gap_event_def by (simp only: inr_iff sum.inject)
  moreover have "(case affected_from_realtime_ns e of Some a \<Rightarrow> if a = 0 then observed_at_realtime_ns e else a
      | None \<Rightarrow> observed_at_realtime_ns e) = event_effective_ns e"
    using assms(3,4) by (auto simp: event_effective_ns_def split: option.split)
  then have "roll_from env (gap_id req) e (event_date e + 1) (date_of_ns (observed_at_realtime_ns req)) j = Inr j1"
    using roll assms(2) by (simp add: roll_state_to_def event_date_def)
  from roll_from_written [OF this]
  have "gj_written j1 = gj_written j @ split_events e (event_date e + 1) (date_of_ns (observed_at_realtime_ns req))"
    using assms(5) by simp
  ultimately show ?thesis using publish_Inr [OF pub] j' by simp
qed

text \<open>What the events of a gap that is closed by \<open>c\<close> leave in the day \<open>d\<close>.\<close>

lemma split_day:
  assumes order: "event_date e \<le> event_date c"
  shows "filter (\<lambda>x. event_date x = d) (e # split_events e (event_date e + 1) (event_date c) @ [c]) =
    (if event_date e \<le> d \<and> d \<le> event_date c then
       [if d = event_date e then e else continue_open e (midnight_ns d),
        if d = event_date c then c else continue_closed e (midnight_ns (d + 1) - 1)] else [])"
proof -
  have parts: "filter (\<lambda>x. event_date x = d) (e # split_events e (event_date e + 1) (event_date c) @ [c]) =
      (if event_date e = d then [e] else []) @
      (if event_date e + 1 \<le> d \<and> d \<le> event_date c then [continue_open e (midnight_ns d)] else []) @
      (if event_date e + 1 \<le> d + 1 \<and> d + 1 \<le> event_date c then [continue_closed e (midnight_ns (d + 1) - 1)] else []) @
      (if event_date c = d then [c] else [])"
    by (simp only: filter.simps filter_append split_events_on_day append_assoc) simp
  consider "d < event_date e" | "event_date c < d" | "d = event_date e" "d = event_date c"
    | "d = event_date e" "d < event_date c" | "event_date e < d" "d = event_date c" | "event_date e < d" "d < event_date c"
    using order by linarith
  then show ?thesis unfolding parts using order by cases auto
qed

lemma event_date_bounds:
  "midnight_ns (event_date e) \<le> event_effective_ns e \<and> event_effective_ns e < midnight_ns (event_date e + 1)"
  using iffD1 [OF date_of_ns_iff] by (simp only: event_date_def)

lemma outside_day:
  assumes "midnight_ns a \<le> s" "t < midnight_ns (b + 1)" "\<not> (a \<le> d \<and> d \<le> b)"
  shows "{s..<t} \<inter> {midnight_ns d..<midnight_ns (d + 1)} = {}"
proof -
  consider "d + 1 \<le> a" | "b + 1 \<le> d" using assms(3) by linarith
  then consider "midnight_ns (d + 1) \<le> s" | "t < midnight_ns d"
  proof cases
    case 1
    then have "midnight_ns (d + 1) \<le> midnight_ns a" by (rule iffD2 [OF midnight_ns_mono])
    then show ?thesis using assms(1) that by linarith
  next
    case 2
    then have "midnight_ns (b + 1) \<le> midnight_ns d" by (rule iffD2 [OF midnight_ns_mono])
    then show ?thesis using assms(2) that by linarith
  qed
  then show ?thesis by cases auto
qed

lemma empty_day: "covered (explicit_invalid_intervals (Some []) symbol a b) c d = {}"
  by (simp add: explicit_invalid_intervals_def gap_rows_def clip_def covered_def stamps_def)

text \<open>The two events of a day cover its part of the gap from \<open>e\<close> to \<open>c\<close>.\<close>

lemma day_part_covered:
  fixes c e :: gap_event
  defines "s \<equiv> event_effective_ns e" and "t \<equiv> observed_at_realtime_ns c"
  assumes e: "gap_state e = OPEN" "affected_from_realtime_ns e \<noteq> Some 0" "affects symbol e"
    and c: "gap_state c = CLOSED" "gap_id c = gap_id e" "affects symbol c" "detail c \<noteq> continues_text"
    and st: "s < t" "midnight_ns (event_date c) < t"
    and d: "event_date e \<le> d" "d \<le> event_date c"
  shows "covered (explicit_invalid_intervals
      (Some [if d = event_date e then e else continue_open e (midnight_ns d),
        if d = event_date c then c else continue_closed e (midnight_ns (d + 1) - 1)]) symbol
      (midnight_ns d) (midnight_ns (d + 1))) (midnight_ns d) (midnight_ns (d + 1)) =
    {s..<t} \<inter> {midnight_ns d..<midnight_ns (d + 1)}"
proof -
  have teff: "event_effective_ns c = t" using c(1) by (simp add: event_effective_ns_def t_def split: option.split)
  note bounds = event_date_bounds [of e, folded s_def] event_date_bounds [of c, unfolded teff]
  define p where "p = (if d = event_date e then e else continue_open e (midnight_ns d))"
  define q where "q = (if d = event_date c then c else continue_closed e (midnight_ns (d + 1) - 1))"
  define a where "a = (if d = event_date e then s else midnight_ns d)"
  define b where "b = (if d = event_date c then t else midnight_ns (d + 1) - 1)"
  define u where "u = b + (if detail q = continues_text then 1 else 0)"
  have u: "u = (if d = event_date c then t else midnight_ns (d + 1))"
    using c(4) by (simp add: u_def b_def q_def continue_closed_def continues_text_def)
  have a: "quality_effective_ns p = a"
    using e(1,2) by (auto simp: p_def a_def s_def quality_effective_ns_def event_effective_ns_def continue_open_def
        midnight_ns_def split: option.split)
  have b: "observed_at_realtime_ns q = b" by (simp add: q_def b_def t_def continue_closed_def)
  have step: "midnight_ns d < midnight_ns (d + 1)" by simp
  have le: "a \<le> b" "a = b \<longrightarrow> u = midnight_ns (d + 1)" using bounds st step u by (auto simp: a_def b_def)
  have "covered (explicit_invalid_intervals (Some [p, q]) symbol (midnight_ns d) (midnight_ns (d + 1)))
      (midnight_ns d) (midnight_ns (d + 1)) = {a..<u} \<inter> {midnight_ns d..<midnight_ns (d + 1)}"
  proof (rule pair_covers [OF _ _ _ _ _ a b le(1) u_def])
    show "affects symbol p" "affects symbol q" "gap_id q = gap_id p" "gap_state p = OPEN" "gap_state q = CLOSED"
      using e c by (auto simp: p_def q_def affects_def continue_open_def continue_closed_def)
    show "a = b \<Longrightarrow> u = midnight_ns (d + 1)" using le(2) by blast
  qed
  also have "\<dots> = {s..<t} \<inter> {midnight_ns d..<midnight_ns (d + 1)}"
  proof -
    have "a = s \<and> midnight_ns d \<le> s \<or> a = midnight_ns d \<and> s \<le> midnight_ns d"
    proof (cases "d = event_date e")
      case False
      then have "midnight_ns (event_date e + 1) \<le> midnight_ns d" using d(1) by (intro iffD2 [OF midnight_ns_mono]) linarith
      then have "s \<le> midnight_ns d" using bounds(1) by linarith
      then show ?thesis using False by (simp add: a_def)
    qed (use bounds(1) in \<open>simp add: a_def\<close>)
    moreover have "u = t \<and> t \<le> midnight_ns (d + 1) \<or> u = midnight_ns (d + 1) \<and> midnight_ns (d + 1) \<le> t"
    proof (cases "d = event_date c")
      case False
      then have "midnight_ns (d + 1) \<le> midnight_ns (event_date c)" using d(2) by (intro iffD2 [OF midnight_ns_mono]) linarith
      then have "midnight_ns (d + 1) \<le> t" using bounds(2) by linarith
      then show ?thesis using False by (simp add: u)
    qed (use bounds(2) in \<open>simp add: u\<close>)
    ultimately show ?thesis by fastforce
  qed
  finally show ?thesis by (simp only: p_def q_def)
qed

text \<open>C14. A gap that spans midnights reaches the quality gate of every day whole: when it is closed, the events that were
  published for a UTC day are read by \<open>explicit_invalid_intervals\<close> of that day as exactly the nanoseconds of the gap
  that lie in the day, however many midnights the gap crossed. This is the gate, which adds back the nanosecond that a
  split at midnight leaves out; the reconstruction does not (\<open>Quality\<close>). The hypotheses: the gap is open in the journal and
  concerns the depth of the symbol, no day it crosses is sealed yet, the closing request is later than the opening, does not
  fall exactly on a midnight and does not carry the detail of a continuing gap, and the time the gap affects is not zero.\<close>

theorem gap_split_covers:
  assumes "close_gap env req j = Inr j'" "dict_get (gj_open j) (gap_id req) = Some e"
    and "gap_state e = OPEN" "gap_id e = gap_id req" "affected_from_realtime_ns e \<noteq> Some 0"
    and "\<forall>d. event_date e \<le> d \<and> d < date_of_ns (observed_at_realtime_ns req) \<longrightarrow> \<not> is_sealed (gj_index j) d"
    and "affects symbol e" "affects symbol req" "detail req \<noteq> continues_text"
    and "event_effective_ns e < observed_at_realtime_ns req"
    and "midnight_ns (date_of_ns (observed_at_realtime_ns req)) < observed_at_realtime_ns req"
  shows "covered (explicit_invalid_intervals
      (Some (filter (\<lambda>x. event_date x = d) (e # drop (length (gj_written j)) (gj_written j')))) symbol
      (midnight_ns d) (midnight_ns (d + 1))) (midnight_ns d) (midnight_ns (d + 1)) =
    {event_effective_ns e..<observed_at_realtime_ns req} \<inter> {midnight_ns d..<midnight_ns (d + 1)}"
proof -
  define c where "c = req\<lparr>gap_state := CLOSED, gap_collector_id := gj_collector_id j, affected_from_realtime_ns := None\<rparr>"
  have date: "event_date c = date_of_ns (observed_at_realtime_ns req)"
    by (simp add: c_def event_date_def event_effective_ns_def)
  have w: "drop (length (gj_written j)) (gj_written j') = split_events e (event_date e + 1) (event_date c) @ [c]"
    using close_gap_written [OF assms(1,2,3,5,6)] by (simp add: date) (simp add: c_def)
  have teff: "event_effective_ns c = observed_at_realtime_ns req" by (simp add: c_def event_effective_ns_def)
  note bounds = event_date_bounds [of e] event_date_bounds [of c, unfolded teff]
  have "midnight_ns (event_date e) < midnight_ns (event_date c + 1)" using bounds assms(10) by linarith
  then have order: "event_date e \<le> event_date c" unfolding midnight_ns_less by linarith
  note day = split_day [OF order, of d]
  show ?thesis
  proof (cases "event_date e \<le> d \<and> d \<le> event_date c")
    case False
    then show ?thesis
      using outside_day [OF conjunct1 [OF bounds(1)] conjunct2 [OF bounds(2)] False]
      by (simp only: w day if_False empty_day)
  next
    case True
    have "gap_state c = CLOSED" "gap_id c = gap_id e" "affects symbol c" "detail c \<noteq> continues_text"
      "observed_at_realtime_ns c = observed_at_realtime_ns req"
      using assms(4,8,9) by (simp_all add: c_def affects_def)
    note c = this(1-4) and t = this(5)
    have st: "event_effective_ns e < observed_at_realtime_ns c" "midnight_ns (event_date c) < observed_at_realtime_ns c"
      unfolding t date using assms(10,11) .
    show ?thesis
      using day_part_covered [OF assms(3,5,7) c st conjunct1 [OF True] conjunct2 [OF True]] True
      by (simp only: w day t if_True simp_thms)
  qed
qed

definition demo_gap :: gap_event where
  "demo_gap = \<lparr>gap_id = ''gap-0001'', gap_state = OPEN, reason = CONNECTION_LOST, gap_collector_id = ''c'',
     gap_connection_id = None, exchange_symbols = [], stream_types = [], observed_at_realtime_ns = 86399999999990,
     affected_from_realtime_ns = None, detail = []\<rparr>"

definition demo_env :: gap_env where
  "demo_env = \<lparr>ge_unicode = ascii, ge_file = (\<lambda>_. (1, replicate 64 CHR ''0'')), ge_created = ex_time 0\<rparr>"

definition demo_journal :: gap_journal where
  "demo_journal = \<lparr>gj_collector_id = ''c'', gj_data_contract_hash = replicate 64 CHR ''0'',
     gj_universe_hash = replicate 64 CHR ''0'', gj_open = [(''gap-0001'', demo_gap)],
     gj_index = \<lparr>di_collector_id = ''c'', di_journal = [], di_ready = [], di_acked = [], di_sealed = []\<rparr>,
     gj_written = [demo_gap]\<rparr>"

definition demo_close :: gap_event where
  "demo_close = demo_gap\<lparr>observed_at_realtime_ns := 86400000000007, detail := ''reconnected''\<rparr>"

lemma unsealed_publish:
  assumes "map_sum id cm_utc_date (write_gap env j e) = Inr (event_date e)" "di_sealed (gj_index j) = []"
  shows "\<exists>di. publish env e j = Inr (j\<lparr>gj_index := di, gj_written := gj_written j @ [e]\<rparr>) \<and> di_sealed di = []"
proof -
  obtain m where m: "write_gap env j e = Inr m" "cm_utc_date m = event_date e"
    using assms(1) by (cases "write_gap env j e") auto
  have "\<exists>di. generate_and_record (event_date e) (Inr m) (gj_index j) = Inr di \<and> di_sealed di = []"
    using m(2) assms(2) by (simp add: generate_and_record_def append_ref_def Let_def)
  then show ?thesis
    using m(1) assms(2) by (auto simp: publish_def record_generated_def is_sealed_def)
qed

lemma write_gap_same: "gj_collector_id j = gj_collector_id j' \<Longrightarrow> gj_data_contract_hash j = gj_data_contract_hash j' \<Longrightarrow>
    gj_universe_hash j = gj_universe_hash j' \<Longrightarrow> write_gap env j e = write_gap env j' e"
  by (simp add: write_gap_def)

definition demo_closed :: gap_event where "demo_closed = demo_close\<lparr>gap_state := CLOSED\<rparr>"

lemma demo_facts:
  "date_of_ns 86399999999990 = 0" "date_of_ns 86399999999999 = 0" "date_of_ns 86400000000000 = 1"
  "date_of_ns 86400000000007 = 1" "midnight_ns 1 = 86400000000000"
  by (simp_all add: date_of_ns_def midnight_ns_def ns_per_day_def)

lemma demo_shows:
  "show_int 86399999999999 = ''86399999999999''" "show_int 86400000000000 = ''86400000000000''"
  "show_int 86400000000007 = ''86400000000007''"
proof -
  have "digit_char 0 = CHR ''0''" "digit_char 3 = CHR ''3''" "digit_char 4 = CHR ''4''" "digit_char 6 = CHR ''6''"
    "digit_char 7 = CHR ''7''" "digit_char 8 = CHR ''8''" "digit_char 9 = CHR ''9''"
    by (code_simp)+
  then show "show_int 86399999999999 = ''86399999999999''" "show_int 86400000000000 = ''86400000000000''"
    "show_int 86400000000007 = ''86400000000007''"
    by (simp_all add: show_int_def show_nat.simps)
qed

lemma demo_texts:
  "list_all id_pattern [''gap-0001-86399999999999-closed'', ''gap-0001-86400000000000-open'', ''gap-0001-86400000000007-closed'']"
  "list_all safe_relative_path [''date=1970-01-01/writer=control/gap-0001-86399999999999-closed.gap.json'',
     ''date=1970-01-02/writer=control/gap-0001-86400000000000-open.gap.json'',
     ''date=1970-01-02/writer=control/gap-0001-86400000000007-closed.gap.json'']"
  "iso_date 0 = ''1970-01-01''" "iso_date 1 = ''1970-01-02''" "hash_pattern (replicate 64 CHR ''0'')"
  by (code_simp)+

lemma demo_writes:
  "map_sum id cm_utc_date (write_gap demo_env demo_journal (continue_closed demo_gap 86399999999999)) =
     Inr (event_date (continue_closed demo_gap 86399999999999))"
  "map_sum id cm_utc_date (write_gap demo_env demo_journal (continue_open demo_gap 86400000000000)) =
     Inr (event_date (continue_open demo_gap 86400000000000))"
  "map_sum id cm_utc_date (write_gap demo_env demo_journal demo_closed) = Inr (event_date demo_closed)"
  using demo_texts
  by (simp_all add: write_gap_def validate_chunk_manifest_def as_ref_def validate_chunk_ref_def gap_data_path_def
      artifact_id_def event_date_def event_effective_ns_def continue_closed_def continue_open_def demo_closed_def
      demo_close_def demo_gap_def demo_shows demo_facts demo_env_def demo_journal_def valid_collector_id_length_def
      code_points_def require_utc_def ex_time_def)

lemma demo_close_gap: "\<exists>j'. close_gap demo_env demo_close demo_journal = Inr j'"
proof -
  have same: "map_sum id cm_utc_date (write_gap demo_env j e) = map_sum id cm_utc_date (write_gap demo_env demo_journal e)"
    if "gj_collector_id j = gj_collector_id demo_journal" "gj_data_contract_hash j = gj_data_contract_hash demo_journal"
      "gj_universe_hash j = gj_universe_hash demo_journal" for j e
    using that write_gap_same by metis
  have unsealed0: "di_sealed (gj_index demo_journal) = []" by (simp add: demo_journal_def)
  obtain d1 where d1: "publish demo_env (continue_closed demo_gap 86399999999999) demo_journal =
      Inr (demo_journal\<lparr>gj_index := d1, gj_written := gj_written demo_journal @ [continue_closed demo_gap 86399999999999]\<rparr>)"
      "di_sealed d1 = []"
    using unsealed_publish [OF demo_writes(1) unsealed0] by blast
  define j1 where "j1 = demo_journal\<lparr>gj_index := d1, gj_written := gj_written demo_journal @ [continue_closed demo_gap 86399999999999]\<rparr>"
  have w2: "map_sum id cm_utc_date (write_gap demo_env j1 (continue_open demo_gap 86400000000000)) =
      Inr (event_date (continue_open demo_gap 86400000000000))"
    using demo_writes(2) by (subst same) (simp_all add: j1_def)
  have "di_sealed (gj_index j1) = []" using d1(2) by (simp add: j1_def)
  from unsealed_publish [OF w2 this] obtain d2 where d2: "publish demo_env (continue_open demo_gap 86400000000000) j1 =
      Inr (j1\<lparr>gj_index := d2, gj_written := gj_written j1 @ [continue_open demo_gap 86400000000000]\<rparr>)" "di_sealed d2 = []"
    by blast
  define j2 where "j2 = j1\<lparr>gj_index := d2, gj_written := gj_written j1 @ [continue_open demo_gap 86400000000000],
     gj_open := dict_set ''gap-0001'' (continue_open demo_gap 86400000000000) (gj_open j1)\<rparr>"
  have "event_date demo_gap = 0"
    using demo_facts by (simp add: event_date_def event_effective_ns_def demo_gap_def)
  have "roll_from demo_env ''gap-0001'' demo_gap 1 1 demo_journal = Inr j2"
    using unsealed0
    by (simp add: roll_from.simps [of _ _ _ 1] roll_from.simps [of _ _ _ 2] is_sealed_def demo_facts(5) d1(1) j1_def [symmetric]
        d2(1) j2_def Let_def)
  then have roll: "roll_state_to demo_env ''gap-0001'' 1 demo_journal = Inr j2"
    using demo_facts by (simp add: roll_state_to_def demo_journal_def dict_get_def demo_gap_def)
  have w3: "map_sum id cm_utc_date (write_gap demo_env j2 demo_closed) = Inr (event_date demo_closed)"
    using demo_writes(3) by (subst same) (simp_all add: j1_def j2_def)
  have "di_sealed (gj_index j2) = []" using d2(2) by (simp add: j2_def)
  from unsealed_publish [OF w3 this] obtain d3 where d3: "publish demo_env demo_closed j2 =
      Inr (j2\<lparr>gj_index := d3, gj_written := gj_written j2 @ [demo_closed]\<rparr>)" by blast
  have "validate_gap_event ascii demo_closed = Inr demo_closed"
    by (simp add: validate_gap_event_def demo_closed_def demo_close_def demo_gap_def code_points_def valid_collector_id_length_def)
  moreover have "demo_close\<lparr>gap_state := CLOSED, gap_collector_id := gj_collector_id demo_journal,
      affected_from_realtime_ns := None\<rparr> = demo_closed"
    by (simp add: demo_closed_def demo_close_def demo_gap_def demo_journal_def)
  moreover have "dict_get (gj_open demo_journal) ''gap-0001'' = Some demo_gap" "gap_id demo_close = ''gap-0001''"
    "observed_at_realtime_ns demo_close = 86400000000007"
    by (simp_all add: demo_journal_def dict_get_def demo_close_def demo_gap_def)
  ultimately show ?thesis
    using roll d3 demo_facts(4) by (simp add: close_gap_def demo_env_def)
qed

theorem gap_split_covers_witness:
  "\<exists>j'. close_gap demo_env demo_close demo_journal = Inr j' \<and>
     covered (explicit_invalid_intervals
       (Some (filter (\<lambda>x. event_date x = 1) (demo_gap # drop 1 (gj_written j')))) ''BTCUSDT''
       (midnight_ns 1) (midnight_ns 2)) (midnight_ns 1) (midnight_ns 2) = {midnight_ns 1..<midnight_ns 1 + 7}"
proof -
  obtain j' where j': "close_gap demo_env demo_close demo_journal = Inr j'" using demo_close_gap by blast
  have f: "event_date demo_gap = 0" "event_effective_ns demo_gap = 86399999999990"
    "observed_at_realtime_ns demo_close = 86400000000007" "gap_id demo_close = ''gap-0001''" "gj_written demo_journal = [demo_gap]"
    using demo_facts by (simp_all add: event_date_def event_effective_ns_def demo_gap_def demo_close_def demo_journal_def)
  have "covered (explicit_invalid_intervals
       (Some (filter (\<lambda>x. event_date x = 1) (demo_gap # drop (length (gj_written demo_journal)) (gj_written j')))) ''BTCUSDT''
       (midnight_ns 1) (midnight_ns (1 + 1))) (midnight_ns 1) (midnight_ns (1 + 1)) =
     {event_effective_ns demo_gap..<observed_at_realtime_ns demo_close} \<inter> {midnight_ns 1..<midnight_ns (1 + 1)}"
    by (rule gap_split_covers [OF j']) (use demo_facts f in \<open>simp_all add: demo_journal_def dict_get_def demo_gap_def
        demo_close_def affects_def continues_text_def is_sealed_def\<close>)
  also have "\<dots> = {midnight_ns 1..<midnight_ns 1 + 7}"
    unfolding f by (auto simp: midnight_ns_def ns_per_day_def)
  finally show ?thesis using j' by (auto simp: f)
qed

end
