(* ===== verification/Byte_Queue.thy ===== *)
theory Byte_Queue
  imports Contracts Doubles
begin

text \<open>
  \<open>src/miry/collector/queue.py\<close>, \<open>ByteBoundedQueues\<close>: three item queues that share one byte budget. The
  dicts over the three writer groups are functions; any other group is a \<open>KeyError\<close>. A future is the number
  it is known by, a monotonic clock reading a rational, and a ratio the exact value of its float. An
  operation that may raise returns the error with the state it leaves behind. Waiting for a budget is a test
  the caller repeats.
\<close>

section \<open>State\<close>

record queued_event =
  qe_event :: raw_event
  qe_reserved_bytes :: int

datatype writer_item =
    Queued queued_event
  | Rotate_Writer string nat
  | Stop_Writer nat

definition writer_groups :: "writer_group list" where
  "writer_groups = [GROUP_DEPTH, GROUP_TRADES_MARKET, GROUP_METADATA]"

record byte_queues =
  bq_max_bytes :: int
  bq_warn_bytes :: int
  bq_resume_bytes :: int
  bq_used_bytes :: int
  bq_queues :: "writer_group \<Rightarrow> writer_item list"
  bq_last_event :: "writer_group \<Rightarrow> rat option"
  bq_used_by_group :: "writer_group \<Rightarrow> int"
  bq_high_water :: int
  bq_interval_high_water :: int
  bq_warn_crossings :: nat
  bq_hard_rejections :: nat
  bq_above_warn :: bool

definition ratio_bytes :: "int \<Rightarrow> rat \<Rightarrow> int" where
  "ratio_bytes max_bytes ratio = trunc_int (double (of_int max_bytes * ratio))"

definition new_queues :: "int \<Rightarrow> rat \<Rightarrow> rat \<Rightarrow> byte_queues" where
  "new_queues max_bytes warn_ratio resume_ratio =
     \<lparr>bq_max_bytes = max_bytes, bq_warn_bytes = ratio_bytes max_bytes warn_ratio,
       bq_resume_bytes = ratio_bytes max_bytes resume_ratio, bq_used_bytes = 0, bq_queues = (\<lambda>_. []),
       bq_last_event = (\<lambda>_. None), bq_used_by_group = (\<lambda>_. 0), bq_high_water = 0, bq_interval_high_water = 0,
       bq_warn_crossings = 0, bq_hard_rejections = 0, bq_above_warn = False\<rparr>"

section \<open>Operations\<close>

definition utilization :: "byte_queues \<Rightarrow> rat" where
  "utilization q = double (of_int (bq_used_bytes q) / of_int (bq_max_bytes q))"

definition take_interval_high_water :: "byte_queues \<Rightarrow> int \<times> byte_queues" where
  "take_interval_high_water q = (bq_interval_high_water q, q\<lparr>bq_interval_high_water := bq_used_bytes q\<rparr>)"

definition idle_seconds :: "writer_group \<Rightarrow> rat \<Rightarrow> byte_queues \<Rightarrow> py_error + rat option" where
  "idle_seconds g now q =
     (if g \<notin> set writer_groups then Inl (KeyError ''writer group'')
      else Inr (map_option (\<lambda>last_event. max 0 (double (now - last_event))) (bq_last_event q g)))"

definition append_item :: "writer_group \<Rightarrow> writer_item \<Rightarrow> byte_queues \<Rightarrow> byte_queues" where
  "append_item g item q = q\<lparr>bq_queues := (bq_queues q)(g := bq_queues q g @ [item])\<rparr>"

definition queue_put :: "rat \<Rightarrow> raw_event \<Rightarrow> byte_queues \<Rightarrow> (py_error + unit) \<times> byte_queues" where
  "queue_put now event q =
     (let reserved = approximate_size_bytes event; g = writer_group_of event in
      if bq_max_bytes q < reserved \<or> bq_max_bytes q < bq_used_bytes q + reserved then
        (Inl QueueOverloaded, q\<lparr>bq_hard_rejections := bq_hard_rejections q + 1\<rparr>)
      else
        let used = bq_used_bytes q + reserved;
            crossing = (\<not> bq_above_warn q \<and> bq_warn_bytes q \<le> used);
            q1 = q\<lparr>bq_used_bytes := used, bq_used_by_group := (bq_used_by_group q)(g := bq_used_by_group q g + reserved),
              bq_high_water := max (bq_high_water q) used, bq_interval_high_water := max (bq_interval_high_water q) used,
              bq_above_warn := bq_above_warn q \<or> crossing,
              bq_warn_crossings := bq_warn_crossings q + (if crossing then 1 else 0),
              bq_last_event := (bq_last_event q)(g := Some now)\<rparr> in
        (Inr (), append_item g (Queued \<lparr>qe_event = event, qe_reserved_bytes = reserved\<rparr>) q1))"

text \<open>\<open>get_nowait\<close>; \<open>None\<close> is \<open>QueueEmpty\<close>. The awaiting \<open>get\<close> returns the same item once there is one.\<close>

definition queue_get :: "writer_group \<Rightarrow> byte_queues \<Rightarrow> (writer_item \<times> byte_queues) option" where
  "queue_get g q = (case bq_queues q g of [] \<Rightarrow> None | item # rest \<Rightarrow> Some (item, q\<lparr>bq_queues := (bq_queues q)(g := rest)\<rparr>))"

definition queue_release :: "writer_group \<Rightarrow> int \<Rightarrow> byte_queues \<Rightarrow> (py_error + unit) \<times> byte_queues" where
  "queue_release g reserved q =
     (let used = bq_used_bytes q - reserved; by_group = bq_used_by_group q g - reserved;
          q1 = q\<lparr>bq_used_bytes := used, bq_used_by_group := (bq_used_by_group q)(g := by_group)\<rparr> in
      if used < 0 \<or> by_group < 0 then (Inl (RuntimeError ''queue byte accounting became negative''), q1)
      else (Inr (), if bq_above_warn q \<and> used \<le> bq_resume_bytes q then q1\<lparr>bq_above_warn := False\<rparr> else q1))"

definition resumable :: "byte_queues \<Rightarrow> bool" where
  "resumable q \<longleftrightarrow> bq_used_bytes q \<le> bq_resume_bytes q"

definition put_control :: "writer_group \<Rightarrow> writer_item \<Rightarrow> byte_queues \<Rightarrow> byte_queues" where
  "put_control g item q = append_item g item q"

section \<open>The queue as its client sees it\<close>

text \<open>What a writer relies on: its own queue is first in, first out, and untouched by the other groups.\<close>

locale item_queue =
  fixes contents :: "'q \<Rightarrow> 'g \<Rightarrow> 'i list" and push :: "'g \<Rightarrow> 'i \<Rightarrow> 'q \<Rightarrow> 'q" and pop :: "'g \<Rightarrow> 'q \<Rightarrow> ('i \<times> 'q) option"
  assumes push_contents: "contents (push g i q) h = (if h = g then contents q h @ [i] else contents q h)"
    and pop_None: "pop g q = None \<longleftrightarrow> contents q g = []"
    and pop_Some: "pop g q = Some (i, q') \<Longrightarrow> contents q h = (if h = g then i # contents q' h else contents q' h)"
begin

text \<open>\<open>n\<close> pops on one group.\<close>

fun pops :: "'g \<Rightarrow> nat \<Rightarrow> 'q \<Rightarrow> 'i list \<times> 'q" where
  "pops g 0 q = ([], q)"
| "pops g (Suc n) q = (case pop g q of None \<Rightarrow> ([], q) | Some (i, q') \<Rightarrow> apfst ((#) i) (pops g n q'))"

lemma pops_take: "fst (pops g n q) = take n (contents q g) \<and> contents (snd (pops g n q)) g = drop n (contents q g)"
proof (induction n arbitrary: q)
  case (Suc n)
  show ?case
  proof (cases "pop g q")
    case None
    then show ?thesis using pop_None [of g q] by simp
  next
    case (Some iq)
    then obtain i q' where iq: "pop g q = Some (i, q')" by (cases iq) auto
    show ?thesis using Suc [of q'] pop_Some [OF iq, of g] by (simp add: iq)
  qed
qed simp

lemma pop_pushed: "contents q g = [] \<Longrightarrow> \<exists>q'. pop g (push g i q) = Some (i, q') \<and> contents q' g = []"
proof -
  assume "contents q g = []"
  then have c: "contents (push g i q) g = [i]" by (simp add: push_contents)
  then obtain x q' where x: "pop g (push g i q) = Some (x, q')" using pop_None [of g "push g i q"] by (cases "pop g (push g i q)") auto
  then show ?thesis using pop_Some [OF x, of g] c by simp
qed

end

interpretation queues: item_queue bq_queues append_item queue_get
  by unfold_locales (auto simp: append_item_def queue_get_def split: list.splits)

text \<open>A successful \<open>put\<close> appends the event to its group; \<open>release\<close> and a rejected \<open>put\<close> leave every queue alone.\<close>

lemma queue_put_contents:
  "queue_put now e q = (r, q') \<Longrightarrow> bq_queues q' h =
     (if h = writer_group_of e \<and> r = Inr () then bq_queues q h @ [Queued \<lparr>qe_event = e, qe_reserved_bytes = approximate_size_bytes e\<rparr>]
      else bq_queues q h)"
  by (auto simp: queue_put_def Let_def append_item_def split: if_splits)

lemma queue_release_contents: "queue_release g n q = (r, q') \<Longrightarrow> bq_queues q' = bq_queues q"
  by (auto simp: queue_release_def Let_def split: if_splits)

end
