(* ===== verification/Writer.thy ===== *)
theory Writer
  imports Byte_Queue Day_Index Calendar
begin

text \<open>
  \<open>src/miry/collector/writer.py\<close> and \<open>ingest.py\<close>: the writer pool that turns queued events into immutable
  chunks. A Parquet file is the list of the tables written to it; its bytes and their digest are
  parameters. A file published in the ready directory is listed with its manifest, \<open>None\<close> as long as the
  manifest is not written. One step of a writer is one round of its loop; clock readings and the random
  part of a chunk id are inputs of the step. Writes succeed.
\<close>

section \<open>Chunk sessions\<close>

record chunk_limits =
  max_seconds :: int
  max_bytes :: int
  max_events :: int
  batch_events :: int
  batch_bytes :: int

record chunk_session =
  cs_chunk_id :: string
  cs_collector_id :: string
  cs_writer_group :: writer_group
  cs_utc_date :: utc_date
  cs_data_contract_hash :: string
  cs_universe_hash :: string
  cs_limits :: chunk_limits
  cs_started :: rat
  cs_event_count :: int
  cs_estimated_bytes :: int
  cs_min_ns :: "int option"
  cs_max_ns :: "int option"
  cs_batch :: "queued_event list"
  cs_batch_bytes :: int
  cs_tables :: "raw_event list list"

text \<open>What the writer uses of other code: the bytes of a Parquet file with its metadata, and their digest.\<close>

record writer_env =
  we_file :: "(string \<times> string) list \<Rightarrow> raw_event list list \<Rightarrow> string"
  we_sha256 :: "string \<Rightarrow> string"

definition chunk_id_text :: "string \<Rightarrow> writer_group \<Rightarrow> string \<Rightarrow> string \<Rightarrow> string" where
  "chunk_id_text collector g stamp uuid = collector @ ''-'' @ writer_group_value g @ ''-'' @ stamp @ ''-'' @ uuid"

definition new_session ::
    "string \<Rightarrow> writer_group \<Rightarrow> utc_date \<Rightarrow> string \<Rightarrow> string \<Rightarrow> chunk_limits \<Rightarrow> string \<Rightarrow> string \<Rightarrow> rat \<Rightarrow> chunk_session" where
  "new_session collector g d contract_hash universe limits stamp uuid now =
     \<lparr>cs_chunk_id = chunk_id_text collector g stamp uuid, cs_collector_id = collector, cs_writer_group = g, cs_utc_date = d,
       cs_data_contract_hash = contract_hash, cs_universe_hash = universe, cs_limits = limits, cs_started = now,
       cs_event_count = 0, cs_estimated_bytes = 0, cs_min_ns = None, cs_max_ns = None, cs_batch = [], cs_batch_bytes = 0,
       cs_tables = []\<rparr>"

definition should_rotate_before :: "raw_event \<Rightarrow> utc_date \<Rightarrow> chunk_session \<Rightarrow> bool" where
  "should_rotate_before e event_day s \<longleftrightarrow>
     (if event_day \<noteq> cs_utc_date s then True
      else if cs_event_count s = 0 then False
      else max_bytes (cs_limits s) < cs_estimated_bytes s + approximate_size_bytes e \<or>
        max_events (cs_limits s) < cs_event_count s + 1)"

definition add_queued :: "queued_event \<Rightarrow> chunk_session \<Rightarrow> bool \<times> chunk_session" where
  "add_queued queued s =
     (let t = ev_app_receive_realtime_ns (qe_event queued);
          s1 = s\<lparr>cs_batch := cs_batch s @ [queued], cs_batch_bytes := cs_batch_bytes s + qe_reserved_bytes queued,
            cs_event_count := cs_event_count s + 1, cs_estimated_bytes := cs_estimated_bytes s + qe_reserved_bytes queued,
            cs_min_ns := Some (case cs_min_ns s of None \<Rightarrow> t | Some m \<Rightarrow> min m t),
            cs_max_ns := Some (case cs_max_ns s of None \<Rightarrow> t | Some m \<Rightarrow> max m t)\<rparr> in
      (batch_events (cs_limits s) \<le> int (length (cs_batch s1)) \<or> batch_bytes (cs_limits s) \<le> cs_batch_bytes s1, s1))"

definition flush_batch :: "chunk_session \<Rightarrow> int \<times> chunk_session" where
  "flush_batch s =
     (if cs_batch s = [] then (0, s)
      else (cs_batch_bytes s, s\<lparr>cs_batch := [], cs_batch_bytes := 0, cs_tables := cs_tables s @ [map qe_event (cs_batch s)]\<rparr>))"

definition chunk_data_path :: "chunk_session \<Rightarrow> string" where
  "chunk_data_path s = ''date='' @ iso_date (cs_utc_date s) @ ''/writer='' @ writer_group_value (cs_writer_group s) @ ''/'' @
     cs_chunk_id s @ ''.parquet''"

definition session_metadata :: "chunk_session \<Rightarrow> (string \<times> string) list" where
  "session_metadata s =
     [(''data_contract_hash'', cs_data_contract_hash s), (''universe_hash'', cs_universe_hash s),
      (''collector_id'', cs_collector_id s), (''writer_group'', writer_group_value (cs_writer_group s)),
      (''utc_date'', iso_date (cs_utc_date s)), (''chunk_id'', cs_chunk_id s)]"

definition session_bytes :: "writer_env \<Rightarrow> chunk_session \<Rightarrow> string" where
  "session_bytes env s = we_file env (session_metadata s) (cs_tables s)"

definition session_manifest :: "writer_env \<Rightarrow> py_datetime \<Rightarrow> int \<Rightarrow> int \<Rightarrow> chunk_session \<Rightarrow> chunk_manifest" where
  "session_manifest env created lo hi s =
     \<lparr>chunk_id = cs_chunk_id s, data_path = chunk_data_path s, chunk_sha256 = we_sha256 env (session_bytes env s),
       size_bytes = int (length (session_bytes env s)), chunk_content_type = PARQUET, cm_schema_version = 1,
       cm_collector_id = cs_collector_id s, cm_writer_group = cs_writer_group s, cm_utc_date = cs_utc_date s,
       event_count = cs_event_count s, min_app_receive_realtime_ns = lo, max_app_receive_realtime_ns = hi,
       data_contract_hash = cs_data_contract_hash s, cm_universe_hash = cs_universe_hash s, cm_created_at = created\<rparr>"

section \<open>The pool\<close>

datatype writer_status = Idle | Running | Stopped | Failed

record published_file =
  pf_path :: string
  pf_metadata :: "(string \<times> string) list"
  pf_tables :: "raw_event list list"
  pf_manifest :: "chunk_manifest option"

record writer_pool =
  wp_collector_id :: string
  wp_data_contract_hash :: string
  wp_universe_hash :: string
  wp_limits :: chunk_limits
  wp_queues :: byte_queues
  wp_index :: day_index
  wp_ready :: "published_file list"
  wp_session :: "writer_group \<Rightarrow> chunk_session option"
  wp_group_hash :: "writer_group \<Rightarrow> string"
  wp_status :: "writer_group \<Rightarrow> writer_status"
  wp_completed :: "nat list"
  wp_rejected :: "nat list"
  wp_next_future :: nat
  wp_chunks_written :: nat
  wp_events_written :: int
  wp_compressed_bytes :: int
  wp_max_finalize_seconds :: rat
  wp_durable_through_ns :: "writer_group \<Rightarrow> int option"

text \<open>A step that may raise leaves a state behind; the next one only follows a success.\<close>

definition andthen :: "(py_error + unit) \<times> 's \<Rightarrow> ('s \<Rightarrow> (py_error + unit) \<times> 's) \<Rightarrow> (py_error + unit) \<times> 's" where
  "andthen m f = (case m of (Inl e, s) \<Rightarrow> (Inl e, s) | (Inr _, s) \<Rightarrow> f s)"

lemma andthen_simps [simp]: "andthen (Inl e, s) f = (Inl e, s)" "andthen (Inr u, s) f = f s"
  by (simp_all add: andthen_def)

definition flush_group :: "writer_group \<Rightarrow> writer_pool \<Rightarrow> (py_error + unit) \<times> writer_pool" where
  "flush_group g p =
     (case wp_session p g of
        None \<Rightarrow> (Inr (), p)
      | Some s \<Rightarrow>
          let (released, s1) = flush_batch s; p1 = p\<lparr>wp_session := (wp_session p)(g := Some s1)\<rparr> in
          if released = 0 then (Inr (), p1)
          else let (r, q) = queue_release g released (wp_queues p) in (r, p1\<lparr>wp_queues := q\<rparr>))"

text \<open>\<open>ChunkSession.finish\<close> moves the file to the ready directory before it writes the manifest.\<close>

definition session_finish ::
    "writer_env \<Rightarrow> py_datetime \<Rightarrow> chunk_session \<Rightarrow> writer_pool \<Rightarrow> (py_error + chunk_manifest) \<times> writer_pool" where
  "session_finish env created s p =
     (if cs_batch s \<noteq> [] then (Inl (RuntimeError ''chunk must be flushed before finish''), p)
      else case (cs_min_ns s, cs_max_ns s) of
        (Some lo, Some hi) \<Rightarrow>
          if cs_event_count s = 0 then (Inl (RuntimeError ''cannot finish an empty chunk''), p)
          else
            let file = \<lparr>pf_path = chunk_data_path s, pf_metadata = session_metadata s, pf_tables = cs_tables s,
                  pf_manifest = None\<rparr> in
            (case validate_chunk_manifest (session_manifest env created lo hi s) of
               Inl e \<Rightarrow> (Inl e, p\<lparr>wp_ready := wp_ready p @ [file]\<rparr>)
             | Inr m \<Rightarrow> (Inr m, p\<lparr>wp_ready := wp_ready p @ [file\<lparr>pf_manifest := Some m\<rparr>],
                 wp_index := (wp_index p)\<lparr>di_ready := dict_set (cm_utc_date m)
                   (at_date (di_ready (wp_index p)) (cm_utc_date m) @ [m]) (di_ready (wp_index p))\<rparr>\<rparr>))
      | _ \<Rightarrow> (Inl (RuntimeError ''cannot finish an empty chunk''), p))"

text \<open>The counters after a chunk is recorded; the session ends.\<close>

definition count_chunk :: "writer_group \<Rightarrow> rat \<Rightarrow> chunk_manifest \<Rightarrow> writer_pool \<Rightarrow> writer_pool" where
  "count_chunk g elapsed m p =
     p\<lparr>wp_chunks_written := wp_chunks_written p + 1, wp_events_written := wp_events_written p + event_count m,
       wp_compressed_bytes := wp_compressed_bytes p + size_bytes m,
       wp_max_finalize_seconds := max (wp_max_finalize_seconds p) elapsed,
       wp_durable_through_ns := (wp_durable_through_ns p)(g := Some (max
         (case wp_durable_through_ns p g of None \<Rightarrow> 0 | Some w \<Rightarrow> w) (max_app_receive_realtime_ns m))),
       wp_session := (wp_session p)(g := None)\<rparr>"

definition finish_group :: "writer_env \<Rightarrow> rat \<times> py_datetime \<Rightarrow> writer_group \<Rightarrow> writer_pool \<Rightarrow> (py_error + unit) \<times> writer_pool" where
  "finish_group env = (\<lambda>(elapsed, created) g p.
     if wp_session p g = None then (Inr (), p)
     else andthen (flush_group g p) (\<lambda>p1.
       case wp_session p1 g of
         None \<Rightarrow> (Inr (), p1)
       | Some s \<Rightarrow>
           (case session_finish env created s p1 of
              (Inl e, p2) \<Rightarrow> (Inl e, p2)
            | (Inr m, p2) \<Rightarrow>
                (case record_chunk (cm_utc_date m) (as_ref m) (wp_index p2) of
                   Inl e \<Rightarrow> (Inl e, p2)
                 | Inr di \<Rightarrow> (Inr (), count_chunk g elapsed m (p2\<lparr>wp_index := di\<rparr>))))))"

section \<open>One round of a writer\<close>

text \<open>The clock readings of a round: session stamp and random part, its start, the age check, two finishes.\<close>

record writer_clock =
  wc_stamp :: string
  wc_uuid :: string
  wc_started :: rat
  wc_checked :: rat
  wc_finish_before :: "rat \<times> py_datetime"
  wc_finish_after :: "rat \<times> py_datetime"

definition session_elapsed :: "rat \<Rightarrow> chunk_session \<Rightarrow> rat" where
  "session_elapsed now s = double (now - cs_started s)"

definition event_day :: "raw_event \<Rightarrow> utc_date" where
  "event_day e = date_of_ns (ev_app_receive_realtime_ns e)"

definition open_session :: "writer_clock \<Rightarrow> writer_group \<Rightarrow> utc_date \<Rightarrow> writer_pool \<Rightarrow> writer_pool" where
  "open_session clk g d p =
     (if wp_session p g \<noteq> None then p
      else p\<lparr>wp_session := (wp_session p)(g := Some (new_session (wp_collector_id p) g d (wp_data_contract_hash p)
        (wp_group_hash p g) (wp_limits p) (wc_stamp clk) (wc_uuid clk) (wc_started clk)))\<rparr>)"

definition limit_reached :: "rat \<Rightarrow> chunk_limits \<Rightarrow> chunk_session \<Rightarrow> bool" where
  "limit_reached now limits s \<longleftrightarrow>
     max_bytes limits \<le> cs_estimated_bytes s \<or> max_events limits \<le> cs_event_count s \<or>
     of_int (max_seconds limits) \<le> session_elapsed now s"

definition add_to_session :: "queued_event \<Rightarrow> writer_group \<Rightarrow> writer_pool \<Rightarrow> (py_error + unit) \<times> writer_pool" where
  "add_to_session queued g p =
     (case wp_session p g of
        None \<Rightarrow> (Inr (), p)
      | Some s \<Rightarrow>
          let (full, s1) = add_queued queued s; p1 = p\<lparr>wp_session := (wp_session p)(g := Some s1)\<rparr> in
          if full then flush_group g p1 else (Inr (), p1))"

definition finish_if :: "writer_env \<Rightarrow> rat \<times> py_datetime \<Rightarrow> (chunk_session \<Rightarrow> bool) \<Rightarrow> writer_group \<Rightarrow> writer_pool \<Rightarrow> (py_error + unit) \<times> writer_pool" where
  "finish_if env fin test g p =
     (case wp_session p g of
        None \<Rightarrow> (Inr (), p)
      | Some s \<Rightarrow> if test s then finish_group env fin g p else (Inr (), p))"

definition write_event :: "writer_env \<Rightarrow> writer_clock \<Rightarrow> queued_event \<Rightarrow> writer_group \<Rightarrow> writer_pool \<Rightarrow> (py_error + unit) \<times> writer_pool" where
  "write_event env clk queued g p =
     (let e = qe_event queued in
      andthen (finish_if env (wc_finish_before clk) (should_rotate_before e (event_day e)) g p) (\<lambda>p1.
      andthen (add_to_session queued g (open_session clk g (event_day e) p1)) (\<lambda>p2.
      finish_if env (wc_finish_after clk) (limit_reached (wc_checked clk) (wp_limits p2)) g p2)))"

text \<open>A control item whose finish raises hands the error to its future.\<close>

definition finish_control :: "writer_env \<Rightarrow> rat \<times> py_datetime \<Rightarrow> nat \<Rightarrow> writer_group \<Rightarrow> writer_pool \<Rightarrow> (py_error + unit) \<times> writer_pool" where
  "finish_control env fin completion g p =
     (case finish_group env fin g p of
        (Inl e, p1) \<Rightarrow> (Inl e, p1\<lparr>wp_rejected := wp_rejected p1 @ [completion]\<rparr>)
      | (Inr _, p1) \<Rightarrow> (Inr (), p1))"

definition writer_round :: "writer_env \<Rightarrow> writer_clock \<Rightarrow> writer_group \<Rightarrow> writer_pool \<Rightarrow> (py_error + unit) \<times> writer_pool" where
  "writer_round env clk g p =
     (case queue_get g (wp_queues p) of
        None \<Rightarrow> finish_if env (wc_finish_before clk)
          (\<lambda>s. of_int (max_seconds (wp_limits p)) \<le> session_elapsed (wc_checked clk) s) g p
      | Some (item, q) \<Rightarrow>
          let p1 = p\<lparr>wp_queues := q\<rparr> in
          (case item of
             Queued queued \<Rightarrow> write_event env clk queued g p1
           | Rotate_Writer universe completion \<Rightarrow>
               andthen (finish_control env (wc_finish_before clk) completion g p1) (\<lambda>p2.
               (Inr (), p2\<lparr>wp_group_hash := (wp_group_hash p2)(g := universe), wp_completed := wp_completed p2 @ [completion]\<rparr>))
           | Stop_Writer completion \<Rightarrow>
               andthen (finish_control env (wc_finish_before clk) completion g p1) (\<lambda>p2.
               (Inr (), p2\<lparr>wp_status := (wp_status p2)(g := Stopped), wp_completed := wp_completed p2 @ [completion]\<rparr>))))"

text \<open>A round that raises ends the task.\<close>

definition task_result :: "writer_group \<Rightarrow> (py_error + unit) \<times> writer_pool \<Rightarrow> writer_pool" where
  "task_result g res =
     (case res of (Inl _, p) \<Rightarrow> p\<lparr>wp_status := (wp_status p)(g := Failed)\<rparr> | (Inr _, p) \<Rightarrow> p)"

definition writer_task :: "writer_env \<Rightarrow> writer_clock \<Rightarrow> writer_group \<Rightarrow> writer_pool \<Rightarrow> writer_pool" where
  "writer_task env clk g p = task_result g (writer_round env clk g p)"

section \<open>Pool and coordinator\<close>

definition new_pool :: "string \<Rightarrow> string \<Rightarrow> string \<Rightarrow> chunk_limits \<Rightarrow> byte_queues \<Rightarrow> day_index \<Rightarrow> writer_pool" where
  "new_pool collector contract_hash universe limits q di =
     \<lparr>wp_collector_id = collector, wp_data_contract_hash = contract_hash, wp_universe_hash = universe, wp_limits = limits,
       wp_queues = q, wp_index = di, wp_ready = [], wp_session = (\<lambda>_. None), wp_group_hash = (\<lambda>_. universe),
       wp_status = (\<lambda>_. Idle), wp_completed = [], wp_rejected = [], wp_next_future = 0, wp_chunks_written = 0, wp_events_written = 0,
       wp_compressed_bytes = 0, wp_max_finalize_seconds = 0, wp_durable_through_ns = (\<lambda>_. None)\<rparr>"

definition start_writers :: "writer_pool \<Rightarrow> py_error + writer_pool" where
  "start_writers p =
     (if \<exists>g \<in> set writer_groups. wp_status p g \<noteq> Idle then Inl (RuntimeError ''writer pool already started'')
      else Inr (p\<lparr>wp_group_hash := (\<lambda>g. if g \<in> set writer_groups then wp_universe_hash p else wp_group_hash p g),
        wp_status := (\<lambda>g. if g \<in> set writer_groups then Running else wp_status p g)\<rparr>))"

record writer_metrics =
  wm_chunks :: nat
  wm_events :: int
  wm_compressed_bytes :: int
  wm_max_finalize_seconds :: rat
  wm_durable_through_ns :: "int option"

definition pool_metrics :: "writer_pool \<Rightarrow> writer_metrics" where
  "pool_metrics p =
     \<lparr>wm_chunks = wp_chunks_written p, wm_events = wp_events_written p, wm_compressed_bytes = wp_compressed_bytes p,
       wm_max_finalize_seconds = wp_max_finalize_seconds p,
       wm_durable_through_ns = (case (wp_durable_through_ns p GROUP_DEPTH, wp_durable_through_ns p GROUP_TRADES_MARKET) of
           (Some a, Some b) \<Rightarrow> Some (min a b)
         | _ \<Rightarrow> None)\<rparr>"

text \<open>A control item with a fresh future for every group of the list.\<close>

fun send_control :: "(nat \<Rightarrow> writer_item) \<Rightarrow> writer_group list \<Rightarrow> writer_pool \<Rightarrow> writer_pool" where
  "send_control item [] p = p"
| "send_control item (g # gs) p =
     send_control item gs (p\<lparr>wp_queues := put_control g (item (wp_next_future p)) (wp_queues p),
       wp_next_future := wp_next_future p + 1\<rparr>)"

definition request_stop :: "writer_pool \<Rightarrow> writer_pool" where
  "request_stop p = send_control Stop_Writer (filter (\<lambda>g. wp_status p g = Running) writer_groups) p"

text \<open>\<open>IngestCoordinator\<close>; the rotation in progress is its hash with the futures it waits for.\<close>

record ingest =
  in_pool :: writer_pool
  in_accepting :: bool
  in_rotation :: "(string \<times> nat list) option"

definition new_ingest :: "writer_pool \<Rightarrow> ingest" where
  "new_ingest p = \<lparr>in_pool = p, in_accepting = True, in_rotation = None\<rparr>"

text \<open>\<open>put\<close>; \<open>None\<close> while it waits for the rotation to end.\<close>

definition ingest_put :: "rat \<Rightarrow> raw_event \<Rightarrow> ingest \<Rightarrow> ((py_error + unit) \<times> ingest) option" where
  "ingest_put now e st =
     (if \<not> in_accepting st then None
      else let (r, q) = queue_put now e (wp_queues (in_pool st)) in
        Some (r, st\<lparr>in_pool := (in_pool st)\<lparr>wp_queues := q\<rparr>\<rparr>))"

definition ingest_rotate :: "string \<Rightarrow> ingest \<Rightarrow> ingest option" where
  "ingest_rotate universe st =
     (if in_rotation st \<noteq> None then None
      else let p = in_pool st; n = wp_next_future p in
        Some \<lparr>in_pool = send_control (Rotate_Writer universe) writer_groups p, in_accepting = False,
          in_rotation = Some (universe, [n..<n + length writer_groups])\<rparr>)"

text \<open>The end of a rotation, once its futures allow it; an exception reopens the gate with the old hash.\<close>

definition ingest_rotated :: "ingest \<Rightarrow> ingest option" where
  "ingest_rotated st =
     (case in_rotation st of
        None \<Rightarrow> None
      | Some (universe, futures) \<Rightarrow>
          if set futures \<inter> set (wp_rejected (in_pool st)) \<noteq> {} then Some (st\<lparr>in_accepting := True, in_rotation := None\<rparr>)
          else if set futures \<subseteq> set (wp_completed (in_pool st)) then
            Some \<lparr>in_pool = (in_pool st)\<lparr>wp_universe_hash := universe\<rparr>, in_accepting = True, in_rotation = None\<rparr>
          else None)"

end
