(* ===== verification/Writer_Run.thy ===== *)
theory Writer_Run
  imports Writer
begin

text \<open>
  Runs of the writer pool: no accepted event is lost, duplicated or reordered, every event is filed under the
  universe hash in force when it was accepted, the byte accounting is exact, and every chunk is what its
  manifest says.
\<close>

section \<open>What the queues hold\<close>

text \<open>The events of a list of items with the hash in force at each, and the hash in force after it.\<close>

fun tagged :: "string \<Rightarrow> writer_item list \<Rightarrow> (raw_event \<times> string) list" where
  "tagged h [] = []"
| "tagged h (Queued q # items) = (qe_event q, h) # tagged h items"
| "tagged h (Rotate_Writer h' _ # items) = tagged h' items"
| "tagged h (Stop_Writer _ # items) = tagged h items"

fun hash_after :: "string \<Rightarrow> writer_item list \<Rightarrow> string" where
  "hash_after h [] = h"
| "hash_after h (Queued _ # items) = hash_after h items"
| "hash_after h (Rotate_Writer h' _ # items) = hash_after h' items"
| "hash_after h (Stop_Writer _ # items) = hash_after h items"

lemma tagged_append: "tagged h (xs @ ys) = tagged h xs @ tagged (hash_after h xs) ys"
  by (induction h xs rule: tagged.induct) simp_all

lemma hash_after_append: "hash_after h (xs @ ys) = hash_after (hash_after h xs) ys"
  by (induction h xs rule: hash_after.induct) simp_all

fun item_bytes :: "writer_item \<Rightarrow> int" where
  "item_bytes (Queued q) = qe_reserved_bytes q"
| "item_bytes _ = 0"

definition queue_bytes :: "writer_item list \<Rightarrow> int" where
  "queue_bytes items = sum_list (map item_bytes items)"

lemma queue_bytes_simps [simp]:
  "queue_bytes [] = 0" "queue_bytes (i # items) = item_bytes i + queue_bytes items"
  "queue_bytes (xs @ ys) = queue_bytes xs + queue_bytes ys"
  by (simp_all add: queue_bytes_def)

fun item_ok :: "writer_group \<Rightarrow> writer_item \<Rightarrow> bool" where
  "item_ok g (Queued q) \<longleftrightarrow> qe_reserved_bytes q = approximate_size_bytes (qe_event q) \<and> writer_group_of (qe_event q) = g"
| "item_ok g _ \<longleftrightarrow> True"

lemma approximate_size_pos: "0 < approximate_size_bytes e"
  by (simp add: approximate_size_bytes_def)

lemma item_bytes_nonneg: "item_ok g i \<Longrightarrow> 0 \<le> item_bytes i"
  using approximate_size_pos by (cases i) (auto intro: less_imp_le)

lemma queue_bytes_nonneg: "\<forall>i \<in> set items. item_ok g i \<Longrightarrow> 0 \<le> queue_bytes items"
  by (induction items) (auto intro!: add_nonneg_nonneg item_bytes_nonneg)

text \<open>The total of the groups is the total of the budget.\<close>

definition books_balance :: "byte_queues \<Rightarrow> bool" where
  "books_balance q \<longleftrightarrow> bq_used_bytes q = sum_list (map (bq_used_by_group q) writer_groups) \<and> bq_used_bytes q \<le> bq_max_bytes q"

lemma group_in_writer_groups: "writer_group_of e \<in> set writer_groups"
  by (simp add: writer_group_of_def writer_groups_def)

lemma sum_groups_upd: "g \<in> set writer_groups \<Longrightarrow>
  sum_list (map (f(g := v)) writer_groups) = sum_list (map f writer_groups) + v - (f g :: int)"
  by (auto simp: writer_groups_def)

lemma queue_put_books:
  assumes "queue_put now e q = (r, q')" "books_balance q"
  shows "books_balance q' \<and> bq_used_by_group q' h =
    (if h = writer_group_of e \<and> r = Inr () then bq_used_by_group q h + approximate_size_bytes e else bq_used_by_group q h)"
  using assms sum_groups_upd [OF group_in_writer_groups [of e], of "bq_used_by_group q"]
  by (auto simp: queue_put_def Let_def append_item_def books_balance_def split: if_splits)

lemma queue_release_books:
  assumes "books_balance q" "g \<in> set writer_groups" "0 \<le> n" "n \<le> bq_used_by_group q g" "\<forall>h \<in> set writer_groups. 0 \<le> bq_used_by_group q h"
  shows "\<exists>q'. queue_release g n q = (Inr (), q') \<and> books_balance q' \<and> bq_queues q' = bq_queues q \<and>
    bq_used_by_group q' = (bq_used_by_group q)(g := bq_used_by_group q g - n)"
proof -
  have "n \<le> bq_used_bytes q"
    using assms by (auto simp: books_balance_def writer_groups_def)
  then show ?thesis
    using assms sum_groups_upd [OF assms(2), of "bq_used_by_group q"]
    by (auto simp: queue_release_def Let_def books_balance_def)
qed

section \<open>What the sessions hold\<close>

definition session_events :: "chunk_session \<Rightarrow> raw_event list" where
  "session_events s = concat (cs_tables s) @ map qe_event (cs_batch s)"

abbreviation receive_ns :: "raw_event \<Rightarrow> int" where
  "receive_ns \<equiv> ev_app_receive_realtime_ns"

text \<open>What a manifest says of its events.\<close>

definition describes :: "raw_event list \<Rightarrow> writer_group \<Rightarrow> utc_date \<Rightarrow> int \<Rightarrow> int option \<Rightarrow> int option \<Rightarrow> bool" where
  "describes es g d count lo hi \<longleftrightarrow>
     (\<forall>e \<in> set es. event_day e = d \<and> writer_group_of e = g) \<and> count = int (length es) \<and>
     (if es = [] then lo = None \<and> hi = None
      else lo = Some (Min (receive_ns ` set es)) \<and> hi = Some (Max (receive_ns ` set es)))"

definition within_limits :: "chunk_limits \<Rightarrow> raw_event list \<Rightarrow> bool" where
  "within_limits l es \<longleftrightarrow> length es \<le> 1 \<or>
     (sum_list (map approximate_size_bytes es) \<le> max_bytes l \<and> int (length es) \<le> max_events l)"

definition session_ok :: "writer_group \<Rightarrow> chunk_session \<Rightarrow> bool" where
  "session_ok g s \<longleftrightarrow> cs_writer_group s = g \<and>
     describes (session_events s) g (cs_utc_date s) (cs_event_count s) (cs_min_ns s) (cs_max_ns s) \<and>
     cs_estimated_bytes s = sum_list (map approximate_size_bytes (session_events s)) \<and>
     cs_batch_bytes s = sum_list (map qe_reserved_bytes (cs_batch s)) \<and>
     (\<forall>q \<in> set (cs_batch s). item_ok g (Queued q)) \<and> within_limits (cs_limits s) (session_events s)"

definition file_sound :: "writer_env \<Rightarrow> chunk_limits \<Rightarrow> published_file \<Rightarrow> bool" where
  "file_sound env l f \<longleftrightarrow> (case pf_manifest f of None \<Rightarrow> True
     | Some m \<Rightarrow> concat (pf_tables f) \<noteq> [] \<and> (\<exists>s created lo hi. m = session_manifest env created lo hi s \<and>
           validate_chunk_manifest m = Inr m \<and> pf_path f = chunk_data_path s \<and> pf_metadata f = session_metadata s \<and>
           pf_tables f = cs_tables s) \<and>
         describes (concat (pf_tables f)) (cm_writer_group m) (cm_utc_date m) (event_count m)
           (Some (min_app_receive_realtime_ns m)) (Some (max_app_receive_realtime_ns m)) \<and>
         within_limits l (concat (pf_tables f)))"

text \<open>Adding the next event, when the session should not be rotated before it.\<close>

lemma describes_snoc:
  assumes "describes es g d count lo hi" "event_day e = d" "writer_group_of e = g"
  shows "describes (es @ [e]) g d (count + 1)
    (Some (case lo of None \<Rightarrow> receive_ns e | Some m \<Rightarrow> min m (receive_ns e)))
    (Some (case hi of None \<Rightarrow> receive_ns e | Some m \<Rightarrow> max m (receive_ns e)))"
proof (cases "es = []")
  case False
  then have "set es \<noteq> {}" by simp
  then show ?thesis using assms False by (auto simp: describes_def min.commute max.commute)
qed (use assms in \<open>auto simp: describes_def\<close>)

lemma add_queued_ok:
  assumes "session_ok g s" "item_ok g (Queued q)" "event_day (qe_event q) = cs_utc_date s"
    and "\<not> should_rotate_before (qe_event q) (event_day (qe_event q)) s"
    and "add_queued q s = (full, s')"
  shows "session_ok g s'" "session_events s' = session_events s @ [qe_event q]" "cs_universe_hash s' = cs_universe_hash s"
    "cs_limits s' = cs_limits s" "cs_batch_bytes s' = cs_batch_bytes s + qe_reserved_bytes q"
proof -
  have s': "s' = snd (add_queued q s)" using assms(5) by simp
  show ev: "session_events s' = session_events s @ [qe_event q]" "cs_universe_hash s' = cs_universe_hash s"
    "cs_limits s' = cs_limits s" "cs_batch_bytes s' = cs_batch_bytes s + qe_reserved_bytes q"
    unfolding s' by (simp_all add: add_queued_def Let_def session_events_def)
  have d: "describes (session_events s) g (cs_utc_date s) (cs_event_count s) (cs_min_ns s) (cs_max_ns s)"
    and wg: "writer_group_of (qe_event q) = g" using assms(1,2) by (simp_all add: session_ok_def)
  have "describes (session_events s') g (cs_utc_date s') (cs_event_count s') (cs_min_ns s') (cs_max_ns s')"
    unfolding ev using describes_snoc [OF d assms(3) wg] unfolding s' by (simp add: add_queued_def Let_def)
  moreover have "within_limits (cs_limits s') (session_events s')"
  proof (cases "session_events s = []")
    case False
    then have "cs_event_count s \<noteq> 0" "cs_event_count s = int (length (session_events s))" using d by (auto simp: describes_def)
    then show ?thesis
      using assms(1,3,4) unfolding ev by (simp add: within_limits_def should_rotate_before_def session_ok_def)
  qed (simp add: ev within_limits_def)
  moreover have "cs_writer_group s' = g \<and> cs_estimated_bytes s' = cs_estimated_bytes s + qe_reserved_bytes q \<and>
      cs_batch s' = cs_batch s @ [q]"
    using assms(1) unfolding s' by (simp add: add_queued_def Let_def session_ok_def)
  ultimately show "session_ok g s'"
    using assms(1,2) ev by (simp add: session_ok_def)
qed

lemma flush_batch_ok:
  assumes "session_ok g s" "flush_batch s = (released, s')"
  shows "session_ok g s'" "session_events s' = session_events s" "cs_universe_hash s' = cs_universe_hash s"
    "cs_limits s' = cs_limits s" "cs_batch s' = []" "released = cs_batch_bytes s" "cs_batch_bytes s' = 0"
    "cs_utc_date s' = cs_utc_date s"
proof -
  have ev: "session_events s' = session_events s" using assms(2) by (auto simp: flush_batch_def session_events_def split: if_splits)
  then show "session_events s' = session_events s" .
  show "session_ok g s'" using assms ev by (auto simp: flush_batch_def session_ok_def split: if_splits)
  show "cs_universe_hash s' = cs_universe_hash s" "cs_limits s' = cs_limits s" "cs_batch s' = []"
    "released = cs_batch_bytes s" "cs_batch_bytes s' = 0" "cs_utc_date s' = cs_utc_date s"
    using assms by (auto simp: flush_batch_def session_ok_def split: if_splits)
qed

section \<open>The invariant of the pool\<close>

definition file_group :: "writer_group \<Rightarrow> published_file \<Rightarrow> bool" where
  "file_group g f \<longleftrightarrow> (case pf_manifest f of None \<Rightarrow> False | Some m \<Rightarrow> cm_writer_group m = g)"

definition file_tagged :: "published_file \<Rightarrow> (raw_event \<times> string) list" where
  "file_tagged f = (case pf_manifest f of None \<Rightarrow> [] | Some m \<Rightarrow> map (\<lambda>e. (e, cm_universe_hash m)) (concat (pf_tables f)))"

text \<open>The events of a group that are in published chunks and in its open session, with their hashes.\<close>

definition in_chunks :: "writer_group \<Rightarrow> writer_pool \<Rightarrow> (raw_event \<times> string) list" where
  "in_chunks g p = concat (map file_tagged (filter (file_group g) (wp_ready p)))"

definition in_session :: "writer_group \<Rightarrow> writer_pool \<Rightarrow> (raw_event \<times> string) list" where
  "in_session g p = (case wp_session p g of None \<Rightarrow> [] | Some s \<Rightarrow> map (\<lambda>e. (e, cs_universe_hash s)) (session_events s))"

definition queue_of :: "writer_pool \<Rightarrow> writer_group \<Rightarrow> writer_item list" where
  "queue_of p g = bq_queues (wp_queues p) g"

text \<open>The record of a group: chunks, session, the items held by the running round and the queue make up its log.\<close>

definition recorded :: "string \<Rightarrow> writer_item list \<Rightarrow> writer_item list \<Rightarrow> writer_group \<Rightarrow> writer_pool \<Rightarrow> bool" where
  "recorded h0 accepted held g p \<longleftrightarrow>
     in_chunks g p @ in_session g p @ tagged (wp_group_hash p g) (held @ queue_of p g) = tagged h0 accepted \<and>
     hash_after (wp_group_hash p g) (held @ queue_of p g) = hash_after h0 accepted"

definition outstanding :: "writer_group \<Rightarrow> writer_pool \<Rightarrow> int" where
  "outstanding g p = queue_bytes (queue_of p g) + (case wp_session p g of None \<Rightarrow> 0 | Some s \<Rightarrow> cs_batch_bytes s)"

definition group_ok :: "writer_item list \<Rightarrow> writer_group \<Rightarrow> writer_pool \<Rightarrow> bool" where
  "group_ok held g p \<longleftrightarrow>
     (\<forall>i \<in> set (held @ queue_of p g). item_ok g i) \<and>
     (\<forall>s. wp_session p g = Some s \<longrightarrow> session_ok g s \<and> cs_universe_hash s = wp_group_hash p g \<and> cs_limits s = wp_limits p) \<and>
     (if wp_status p g = Failed then outstanding g p \<le> bq_used_by_group (wp_queues p) g
      else bq_used_by_group (wp_queues p) g = queue_bytes held + outstanding g p)"

definition files_sound :: "writer_env \<Rightarrow> writer_pool \<Rightarrow> bool" where
  "files_sound env p \<longleftrightarrow> (\<forall>f \<in> set (wp_ready p). file_sound env (wp_limits p) f)"

definition pool_ok :: "writer_env \<Rightarrow> (writer_group \<Rightarrow> writer_item list) \<Rightarrow> writer_pool \<Rightarrow> bool" where
  "pool_ok env held p \<longleftrightarrow> books_balance (wp_queues p) \<and> files_sound env p \<and> (\<forall>g \<in> set writer_groups. group_ok (held g) g p)"

text \<open>What a round of group \<open>g\<close> leaves alone.\<close>

definition other_groups_same :: "writer_group \<Rightarrow> writer_pool \<Rightarrow> writer_pool \<Rightarrow> bool" where
  "other_groups_same g p p' \<longleftrightarrow> wp_limits p' = wp_limits p \<and> (\<forall>h. h \<noteq> g \<longrightarrow>
     queue_of p' h = queue_of p h \<and> bq_used_by_group (wp_queues p') h = bq_used_by_group (wp_queues p) h \<and>
     wp_session p' h = wp_session p h \<and> wp_group_hash p' h = wp_group_hash p h \<and> wp_status p' h = wp_status p h \<and>
     in_chunks h p' = in_chunks h p)"

lemma other_groups_refl [simp]: "other_groups_same g p p"
  by (simp add: other_groups_same_def)

lemma other_groups_trans: "other_groups_same g p p1 \<Longrightarrow> other_groups_same g p1 p2 \<Longrightarrow> other_groups_same g p p2"
  by (simp add: other_groups_same_def)

lemma others_ok:
  assumes "other_groups_same g p p'" "h \<noteq> g"
  shows "group_ok held h p' = group_ok held h p" "recorded h0 accepted held h p' = recorded h0 accepted held h p"
proof -
  have "outstanding h p' = outstanding h p" using assms by (simp add: other_groups_same_def outstanding_def)
  then show "group_ok held h p' = group_ok held h p" using assms by (simp add: other_groups_same_def group_ok_def)
  have "in_session h p' = in_session h p" using assms by (simp add: other_groups_same_def in_session_def)
  then show "recorded h0 accepted held h p' = recorded h0 accepted held h p" using assms by (simp add: other_groups_same_def recorded_def)
qed

text \<open>The invariant during a round of \<open>g\<close> that still holds \<open>held\<close>.\<close>

definition round_ok :: "writer_env \<Rightarrow> string \<Rightarrow> writer_item list \<Rightarrow> writer_item list \<Rightarrow> writer_group \<Rightarrow> writer_pool \<Rightarrow> bool" where
  "round_ok env h0 accepted held g p \<longleftrightarrow> pool_ok env (\<lambda>h. if h = g then held else []) p \<and> g \<in> set writer_groups \<and>
     wp_status p g = Running \<and> recorded h0 accepted held g p"

lemma round_ok_from:
  assumes "round_ok env h0 accepted held g p" "other_groups_same g p p'" "books_balance (wp_queues p')" "files_sound env p'"
    and "group_ok held' g p'" "wp_status p' g = Running" "recorded h0 accepted held' g p'"
  shows "round_ok env h0 accepted held' g p'"
  using assms others_ok(1) [OF assms(2)] by (auto simp: round_ok_def pool_ok_def)

lemma used_nonneg:
  assumes "pool_ok env held p" "h \<in> set writer_groups"
  shows "0 \<le> bq_used_by_group (wp_queues p) h"
proof -
  have g: "group_ok (held h) h p" using assms by (simp add: pool_ok_def)
  have "0 \<le> queue_bytes (held h)" "0 \<le> queue_bytes (queue_of p h)"
    using g by (auto simp: group_ok_def intro: queue_bytes_nonneg)
  moreover have "0 \<le> cs_batch_bytes s" if "wp_session p h = Some s" for s
  proof -
    have "session_ok h s" using g that by (simp add: group_ok_def)
    then have "\<forall>q \<in> set (cs_batch s). 0 \<le> qe_reserved_bytes q" "cs_batch_bytes s = sum_list (map qe_reserved_bytes (cs_batch s))"
      using item_bytes_nonneg [of h "Queued q" for q] by (auto simp: session_ok_def)
    then show ?thesis by (auto intro!: sum_list_nonneg)
  qed
  ultimately show ?thesis using g by (auto simp: group_ok_def outstanding_def split: if_splits option.splits)
qed

section \<open>The operations of a round\<close>

lemma flush_group_ok:
  assumes "round_ok env h0 accepted held g p" "wp_session p g = Some s"
  shows "\<exists>p' s'. flush_group g p = (Inr (), p') \<and> round_ok env h0 accepted held g p' \<and> other_groups_same g p p' \<and>
    wp_session p' g = Some s' \<and> cs_batch s' = [] \<and> session_events s' = session_events s \<and>
    wp_group_hash p' = wp_group_hash p \<and> wp_status p' = wp_status p \<and> wp_ready p' = wp_ready p"
proof -
  let ?held = "\<lambda>h. if h = g then held else []"
  have p: "pool_ok env ?held p" "g \<in> set writer_groups" "wp_status p g = Running" "recorded h0 accepted held g p"
    using assms(1) by (simp_all add: round_ok_def)
  have g: "group_ok held g p" using p(1,2) by (auto simp: pool_ok_def)
  have s: "session_ok g s" using g assms(2) by (simp add: group_ok_def)
  obtain released s' where f: "flush_batch s = (released, s')" by (cases "flush_batch s")
  note F = flush_batch_ok [OF s f]
  let ?p1 = "p\<lparr>wp_session := (wp_session p)(g := Some s')\<rparr>"
  have rel: "0 \<le> released" "released \<le> bq_used_by_group (wp_queues p) g"
  proof -
    have "\<forall>q \<in> set (cs_batch s). 0 \<le> qe_reserved_bytes q" "cs_batch_bytes s = sum_list (map qe_reserved_bytes (cs_batch s))"
      using s item_bytes_nonneg [of g "Queued q" for q] by (auto simp: session_ok_def)
    then show "0 \<le> released" unfolding F(6) by (auto intro!: sum_list_nonneg)
    have "0 \<le> queue_bytes held" "0 \<le> queue_bytes (queue_of p g)"
      using g by (auto simp: group_ok_def intro: queue_bytes_nonneg)
    then show "released \<le> bq_used_by_group (wp_queues p) g"
      using g p(3) assms(2) unfolding F(6) by (simp add: group_ok_def outstanding_def)
  qed
  obtain q where q: "queue_release g released (wp_queues p) = (Inr (), q)" "books_balance q" "bq_queues q = bq_queues (wp_queues p)"
    "bq_used_by_group q = (bq_used_by_group (wp_queues p))(g := bq_used_by_group (wp_queues p) g - released)"
    using queue_release_books [OF _ p(2) rel] used_nonneg [OF p(1)] p(1) by (auto simp: pool_ok_def)
  let ?p2 = "(if released = 0 then ?p1 else ?p1\<lparr>wp_queues := q\<rparr>)"
  have run: "flush_group g p = (Inr (), ?p2)" using assms(2) f q(1) by (simp add: flush_group_def)
  have same: "other_groups_same g p ?p2"
    using q by (simp add: other_groups_same_def queue_of_def in_chunks_def)
  have "round_ok env h0 accepted held g ?p2"
  proof (rule round_ok_from [OF assms(1) same])
    show "books_balance (wp_queues ?p2)" using p(1) q(2) by (simp add: pool_ok_def)
    show "files_sound env ?p2" using p(1) by (simp add: pool_ok_def files_sound_def)
    show "group_ok held g ?p2"
      using g F q assms(2) p(3) by (auto simp: group_ok_def outstanding_def queue_of_def)
    show "wp_status ?p2 g = Running" using p(3) by simp
    show "recorded h0 accepted held g ?p2"
      using p(4) F q assms(2) by (auto simp: recorded_def in_session_def queue_of_def in_chunks_def)
  qed
  then show ?thesis using run same F by (intro exI [of _ ?p2] exI [of _ s']) auto
qed

lemma validated_manifest: "validate_chunk_manifest c = Inr m \<Longrightarrow> m = c"
  by (auto simp: validate_chunk_manifest_def rbind_Inr_iff split: if_splits)

lemma fail_ok:
  assumes "round_ok env h0 accepted held g p" "wp_queues p' = wp_queues p" "wp_session p' = wp_session p"
    and "wp_limits p' = wp_limits p" "wp_status p' = wp_status p" "wp_group_hash p' = wp_group_hash p" "files_sound env p'"
  shows "pool_ok env (\<lambda>h. []) (p'\<lparr>wp_status := (wp_status p')(g := Failed)\<rparr>)"
  unfolding pool_ok_def
proof (intro conjI ballI)
  have p: "pool_ok env (\<lambda>h. if h = g then held else []) p" "wp_status p g = Running" using assms(1) by (simp_all add: round_ok_def)
  show "books_balance (wp_queues (p'\<lparr>wp_status := (wp_status p')(g := Failed)\<rparr>))" using p(1) assms(2) by (simp add: pool_ok_def)
  show "files_sound env (p'\<lparr>wp_status := (wp_status p')(g := Failed)\<rparr>)" using assms(7) by (simp add: files_sound_def)
  fix h assume "h \<in> set writer_groups"
  then have "group_ok (if h = g then held else []) h p" using p(1) by (simp add: pool_ok_def)
  moreover have "0 \<le> queue_bytes held" if "group_ok held g p"
    using that by (auto simp: group_ok_def intro: queue_bytes_nonneg)
  ultimately show "group_ok [] h (p'\<lparr>wp_status := (wp_status p')(g := Failed)\<rparr>)"
    using assms(2-6) p(2) by (auto simp: group_ok_def queue_of_def outstanding_def split: if_splits)
qed

lemma finished_file_sound:
  assumes "session_ok g s" "cs_batch s = []" "cs_min_ns s = Some lo" "cs_max_ns s = Some hi" "cs_limits s = l"
    and "m = session_manifest env created lo hi s" "validate_chunk_manifest m = Inr m"
  shows "file_sound env l \<lparr>pf_path = chunk_data_path s, pf_metadata = session_metadata s, pf_tables = cs_tables s, pf_manifest = Some m\<rparr>"
    "file_tagged \<lparr>pf_path = chunk_data_path s, pf_metadata = session_metadata s, pf_tables = cs_tables s, pf_manifest = Some m\<rparr> =
       map (\<lambda>e. (e, cs_universe_hash s)) (session_events s)"
    "file_group h \<lparr>pf_path = chunk_data_path s, pf_metadata = session_metadata s, pf_tables = cs_tables s, pf_manifest = Some m\<rparr> \<longleftrightarrow> h = g"
proof -
  have ev: "session_events s = concat (cs_tables s)" using assms(2) by (simp add: session_events_def)
  have "session_events s \<noteq> []" using assms(1,3) by (auto simp: session_ok_def describes_def)
  moreover have "\<exists>s' created' lo' hi'. m = session_manifest env created' lo' hi' s' \<and> validate_chunk_manifest m = Inr m \<and>
      chunk_data_path s = chunk_data_path s' \<and> session_metadata s = session_metadata s' \<and> cs_tables s = cs_tables s'"
    using assms(6,7) by blast
  ultimately show "file_sound env l \<lparr>pf_path = chunk_data_path s, pf_metadata = session_metadata s, pf_tables = cs_tables s, pf_manifest = Some m\<rparr>"
    using assms ev by (simp add: file_sound_def session_manifest_def session_ok_def)
  show "file_tagged \<lparr>pf_path = chunk_data_path s, pf_metadata = session_metadata s, pf_tables = cs_tables s, pf_manifest = Some m\<rparr> =
      map (\<lambda>e. (e, cs_universe_hash s)) (session_events s)"
    using assms(6) ev by (simp add: file_tagged_def session_manifest_def)
  show "file_group h \<lparr>pf_path = chunk_data_path s, pf_metadata = session_metadata s, pf_tables = cs_tables s, pf_manifest = Some m\<rparr> \<longleftrightarrow> h = g"
    using assms(1,6) by (auto simp: file_group_def session_manifest_def session_ok_def)
qed

text \<open>\<open>ChunkSession.finish\<close> by its outcomes.\<close>

lemma session_finish_cases:
  assumes "session_finish env created s p = (r, p')" "cs_batch s = []"
  obtains (empty) e where "r = Inl e" "p' = p"
  | (orphan) e f where "r = Inl e" "pf_manifest f = None" "p' = p\<lparr>wp_ready := wp_ready p @ [f]\<rparr>"
  | (written) lo hi m di where "r = Inr m" "cs_min_ns s = Some lo" "cs_max_ns s = Some hi" "m = session_manifest env created lo hi s"
    "validate_chunk_manifest m = Inr m"
    "p' = p\<lparr>wp_ready := wp_ready p @ [\<lparr>pf_path = chunk_data_path s, pf_metadata = session_metadata s, pf_tables = cs_tables s, pf_manifest = Some m\<rparr>], wp_index := di\<rparr>"
proof (cases "cs_min_ns s = None \<or> cs_max_ns s = None \<or> cs_event_count s = 0")
  case True
  then show thesis using assms empty by (auto simp: session_finish_def split: option.splits)
next
  case False
  then obtain lo hi where m: "cs_min_ns s = Some lo" "cs_max_ns s = Some hi" by auto
  show thesis
  proof (cases "validate_chunk_manifest (session_manifest env created lo hi s)")
    case (Inl e)
    then show thesis using assms False m
      orphan [of e "\<lparr>pf_path = chunk_data_path s, pf_metadata = session_metadata s, pf_tables = cs_tables s, pf_manifest = None\<rparr>"]
      by (auto simp: session_finish_def Let_def)
  next
    case (Inr c)
    then show thesis using assms False m written [OF _ m] validated_manifest [OF Inr] by (auto simp: session_finish_def Let_def)
  qed
qed

text \<open>A finish either ends the session or raises, and then the task fails; it never raises on the accounting.\<close>

lemma finish_group_ok:
  assumes "round_ok env h0 accepted held g p" "finish_group env fin g p = (r, p')"
  shows "other_groups_same g p p' \<and> wp_group_hash p' = wp_group_hash p \<and>
    (if r = Inr () then round_ok env h0 accepted held g p' \<and> wp_session p' g = None
     else pool_ok env (\<lambda>h. []) (p'\<lparr>wp_status := (wp_status p')(g := Failed)\<rparr>))"
proof (cases "wp_session p g")
  case None
  then show ?thesis using assms by (auto simp: finish_group_def split: prod.splits)
next
  case (Some s)
  obtain elapsed created where fin: "fin = (elapsed, created)" by (cases fin)
  obtain p1 s1 where f: "flush_group g p = (Inr (), p1)" "round_ok env h0 accepted held g p1" "other_groups_same g p p1"
    "wp_session p1 g = Some s1" "cs_batch s1 = []" "session_events s1 = session_events s"
    "wp_group_hash p1 = wp_group_hash p" "wp_status p1 = wp_status p" "wp_ready p1 = wp_ready p"
    using flush_group_ok [OF assms(1) Some] by blast
  have "group_ok held g p1" using f(2) by (auto simp: round_ok_def pool_ok_def)
  then have s1: "session_ok g s1" "cs_universe_hash s1 = wp_group_hash p1 g" "cs_limits s1 = wp_limits p1"
    using f(4) by (simp_all add: group_ok_def)
  have files: "files_sound env p1" using f(2) by (simp add: round_ok_def pool_ok_def)
  have run: "(r, p') = (case session_finish env created s1 p1 of
        (Inl e, p2) \<Rightarrow> (Inl e, p2)
      | (Inr m, p2) \<Rightarrow> (case record_chunk (cm_utc_date m) (as_ref m) (wp_index p2) of
            Inl e \<Rightarrow> (Inl e, p2) | Inr di \<Rightarrow> (Inr (), count_chunk g elapsed m (p2\<lparr>wp_index := di\<rparr>))))"
    using assms(2) Some f(1,4) by (simp add: finish_group_def fin)
  obtain r2 p2 where sf: "session_finish env created s1 p1 = (r2, p2)" by (cases "session_finish env created s1 p1")
  show ?thesis
    using sf f(5)
  proof (cases rule: session_finish_cases)
    case (empty e)
    then have "r = Inl e" "p' = p1" using run sf by simp_all
    then show ?thesis using f(3,7) fail_ok [OF f(2), of p1] files by simp
  next
    case (orphan e file0)
    then have r: "r = Inl e" "p' = p2" using run sf by simp_all
    have "file_sound env l file0" "\<not> file_group h file0" for l h using orphan(2) by (simp_all add: file_sound_def file_group_def)
    then have "files_sound env p2" "other_groups_same g p1 p2"
      using files orphan(3) by (auto simp: files_sound_def other_groups_same_def queue_of_def in_chunks_def)
    then show ?thesis
      using r fail_ok [OF f(2), of p2] orphan(3) f(3,7) other_groups_trans [OF f(3)] by simp
  next
    case (written lo hi m di)
    note F = finished_file_sound [OF s1(1) f(5) written(2,3) s1(3) written(4,5)]
    have same: "files_sound env p2" "other_groups_same g p1 p2"
      using files written(6) F by (auto simp: files_sound_def other_groups_same_def queue_of_def in_chunks_def)
    show ?thesis
    proof (cases "record_chunk (cm_utc_date m) (as_ref m) (wp_index p2)")
      case (Inl e)
      then have "r = Inl e" "p' = p2" using run sf written(1) by simp_all
      then show ?thesis using fail_ok [OF f(2), of p2] written(6) f(7) same other_groups_trans [OF f(3)] by simp
    next
      case (Inr di')
      then have r: "r = Inr ()" "p' = count_chunk g elapsed m (p2\<lparr>wp_index := di'\<rparr>)" using run sf written(1) by simp_all
      have same': "other_groups_same g p1 p'"
        using same(2) by (simp add: r(2) count_chunk_def other_groups_same_def queue_of_def in_chunks_def)
      have "round_ok env h0 accepted held g p'"
      proof (rule round_ok_from [OF f(2) same'])
        show "books_balance (wp_queues p')" using f(2) written(6) by (simp add: r(2) count_chunk_def round_ok_def pool_ok_def)
        show "files_sound env p'" using same(1) by (simp add: r(2) count_chunk_def files_sound_def)
        have "cs_batch_bytes s1 = 0" using s1(1) f(5) by (simp add: session_ok_def)
        moreover have "wp_status p1 g = Running" using f(2) by (simp add: round_ok_def)
        ultimately show "group_ok held g p'" using \<open>group_ok held g p1\<close> f(4) written(6)
          by (simp add: r(2) count_chunk_def group_ok_def outstanding_def queue_of_def)
        show "wp_status p' g = Running" using f(2) written(6) by (simp add: r(2) count_chunk_def round_ok_def)
        show "recorded h0 accepted held g p'"
          using f(2,4) written(6) F(2,3) s1(2)
          by (simp add: r(2) count_chunk_def round_ok_def recorded_def in_session_def in_chunks_def queue_of_def)
      qed
      then show ?thesis
        using r f(7) written(6) other_groups_trans [OF f(3) same'] by (simp add: count_chunk_def)
    qed
  qed
qed

text \<open>How an operation of a round may end: the invariant holds with what is still held, or the task fails.\<close>

definition ends_ok :: "writer_env \<Rightarrow> string \<Rightarrow> writer_item list \<Rightarrow> writer_item list \<Rightarrow> writer_group \<Rightarrow> writer_pool \<Rightarrow> (py_error + unit) \<times> writer_pool \<Rightarrow> bool" where
  "ends_ok env h0 accepted held g p res \<longleftrightarrow> other_groups_same g p (snd res) \<and> wp_group_hash (snd res) = wp_group_hash p \<and>
     (if fst res = Inr () then round_ok env h0 accepted held g (snd res)
      else pool_ok env (\<lambda>h. []) ((snd res)\<lparr>wp_status := (wp_status (snd res))(g := Failed)\<rparr>))"

lemma ends_ok_andthen:
  assumes "ends_ok env h0 accepted held g p m" "\<And>p'. m = (Inr (), p') \<Longrightarrow> ends_ok env h0 accepted held' g p' (f p')"
  shows "ends_ok env h0 accepted held' g p (andthen m f)"
proof (cases m)
  case (Pair r p')
  show ?thesis
  proof (cases r)
    case (Inl e)
    then show ?thesis using assms(1) Pair by (simp add: ends_ok_def)
  next
    case (Inr u)
    then have m: "m = (Inr (), p')" using Pair by simp
    have "other_groups_same g p p' \<and> wp_group_hash p' = wp_group_hash p" using assms(1) m by (simp add: ends_ok_def)
    then show ?thesis using assms(2) [OF m] other_groups_trans unfolding m andthen_simps ends_ok_def by auto
  qed
qed

lemma finish_if_ok:
  assumes "round_ok env h0 accepted held g p"
  shows "ends_ok env h0 accepted held g p (finish_if env fin test g p)"
    "finish_if env fin test g p = (Inr (), p') \<Longrightarrow> wp_session p' g = Some s \<Longrightarrow> \<not> test s"
proof -
  obtain r p1 where f: "finish_group env fin g p = (r, p1)" by (cases "finish_group env fin g p")
  note F = finish_group_ok [OF assms f]
  show "ends_ok env h0 accepted held g p (finish_if env fin test g p)"
    using F f assms by (auto simp: finish_if_def ends_ok_def split: option.splits)
  show "\<not> test s" if "finish_if env fin test g p = (Inr (), p')" "wp_session p' g = Some s"
    using that F f by (auto simp: finish_if_def split: option.splits if_splits)
qed

lemma open_session_ok:
  assumes "round_ok env h0 accepted held g p" "\<And>s. wp_session p g = Some s \<Longrightarrow> \<not> should_rotate_before e (event_day e) s"
  shows "round_ok env h0 accepted held g (open_session clk g (event_day e) p) \<and> other_groups_same g p (open_session clk g (event_day e) p) \<and>
    wp_group_hash (open_session clk g (event_day e) p) = wp_group_hash p \<and>
    (\<exists>s. wp_session (open_session clk g (event_day e) p) g = Some s \<and> \<not> should_rotate_before e (event_day e) s)"
proof (cases "wp_session p g")
  case None
  let ?s = "new_session (wp_collector_id p) g (event_day e) (wp_data_contract_hash p) (wp_group_hash p g) (wp_limits p)
    (wc_stamp clk) (wc_uuid clk) (wc_started clk)"
  let ?p = "p\<lparr>wp_session := (wp_session p)(g := Some ?s)\<rparr>"
  have p: "open_session clk g (event_day e) p = ?p" using None by (simp add: open_session_def)
  have same: "other_groups_same g p ?p" by (simp add: other_groups_same_def queue_of_def in_chunks_def)
  have s: "session_ok g ?s" "session_events ?s = []" "cs_batch_bytes ?s = 0" "cs_limits ?s = wp_limits p"
    "cs_universe_hash ?s = wp_group_hash p g" "\<not> should_rotate_before e (event_day e) ?s"
    by (simp_all add: new_session_def session_ok_def session_events_def describes_def within_limits_def should_rotate_before_def)
  have "round_ok env h0 accepted held g ?p"
  proof (rule round_ok_from [OF assms(1) same])
    show "books_balance (wp_queues ?p)" using assms(1) by (simp add: round_ok_def pool_ok_def)
    show "files_sound env ?p" using assms(1) by (simp add: round_ok_def pool_ok_def files_sound_def)
    show "wp_status ?p g = Running" using assms(1) by (simp add: round_ok_def)
    have "group_ok held g p" "wp_status p g = Running" using assms(1) by (auto simp: round_ok_def pool_ok_def)
    then show "group_ok held g ?p" using None s by (simp add: group_ok_def queue_of_def outstanding_def)
    show "recorded h0 accepted held g ?p"
      using assms(1) None s(2) by (simp add: round_ok_def recorded_def in_session_def queue_of_def in_chunks_def)
  qed
  then show ?thesis unfolding p using same s(6) by simp
next
  case (Some s)
  then show ?thesis using assms by (simp add: open_session_def)
qed

lemma add_to_session_ok:
  assumes "round_ok env h0 accepted (Queued q # held) g p" "wp_session p g = Some s"
    and "\<not> should_rotate_before (qe_event q) (event_day (qe_event q)) s"
  shows "ends_ok env h0 accepted held g p (add_to_session q g p)"
proof -
  have g: "group_ok (Queued q # held) g p" "wp_status p g = Running" using assms(1) by (auto simp: round_ok_def pool_ok_def)
  then have s: "session_ok g s" "cs_universe_hash s = wp_group_hash p g" "cs_limits s = wp_limits p" "item_ok g (Queued q)"
    using assms(2) by (simp_all add: group_ok_def)
  obtain full s1 where add: "add_queued q s = (full, s1)" by (cases "add_queued q s")
  have day: "event_day (qe_event q) = cs_utc_date s" using assms(3) by (simp add: should_rotate_before_def split: if_splits)
  note A = add_queued_ok [OF s(1,4) day assms(3) add]
  let ?p = "p\<lparr>wp_session := (wp_session p)(g := Some s1)\<rparr>"
  have same: "other_groups_same g p ?p" by (simp add: other_groups_same_def queue_of_def in_chunks_def)
  have ok: "round_ok env h0 accepted held g ?p"
  proof (rule round_ok_from [OF assms(1) same])
    show "books_balance (wp_queues ?p)" using assms(1) by (simp add: round_ok_def pool_ok_def)
    show "files_sound env ?p" using assms(1) by (simp add: round_ok_def pool_ok_def files_sound_def)
    show "wp_status ?p g = Running" using g(2) by simp
    show "group_ok held g ?p" using g A s assms(2) by (simp add: group_ok_def queue_of_def outstanding_def)
    show "recorded h0 accepted held g ?p"
      using assms(1,2) A s(2) by (simp add: round_ok_def recorded_def in_session_def queue_of_def in_chunks_def)
  qed
  show ?thesis
  proof (cases full)
    case False
    then show ?thesis using assms(2) add ok same by (simp add: add_to_session_def ends_ok_def)
  next
    case True
    have "wp_session ?p g = Some s1" by simp
    from flush_group_ok [OF ok this] obtain p2 where "flush_group g ?p = (Inr (), p2)" "round_ok env h0 accepted held g p2"
      "other_groups_same g ?p p2" "wp_group_hash p2 = wp_group_hash ?p" by blast
    then show ?thesis using True assms(2) add other_groups_trans [OF same] by (simp add: add_to_session_def ends_ok_def)
  qed
qed

lemma write_event_ok:
  assumes "round_ok env h0 accepted (Queued q # held) g p"
  shows "ends_ok env h0 accepted held g p (write_event env clk q g p)"
  unfolding write_event_def Let_def
proof (rule ends_ok_andthen)
  let ?e = "qe_event q"
  let ?fin = "finish_if env (wc_finish_before clk) (should_rotate_before ?e (event_day ?e)) g p"
  show "ends_ok env h0 accepted (Queued q # held) g p ?fin" by (rule finish_if_ok(1) [OF assms])
  fix p1 assume p1: "?fin = (Inr (), p1)"
  let ?p2 = "open_session clk g (event_day ?e) p1"
  have ok1: "round_ok env h0 accepted (Queued q # held) g p1"
    using finish_if_ok(1) [OF assms, of "wc_finish_before clk"] p1 by (metis ends_ok_def fst_conv snd_conv)
  have "\<not> should_rotate_before ?e (event_day ?e) s" if "wp_session p1 g = Some s" for s
    using finish_if_ok(2) [OF assms p1 that] .
  note O = open_session_ok [OF ok1 this, of clk]
  then obtain s where s: "wp_session ?p2 g = Some s" "\<not> should_rotate_before ?e (event_day ?e) s" by blast
  have "ends_ok env h0 accepted held g ?p2 (add_to_session q g ?p2)" using O s by (intro add_to_session_ok) auto
  then have "ends_ok env h0 accepted held g p1 (add_to_session q g ?p2)"
    using O other_groups_trans by (auto simp: ends_ok_def)
  then show "ends_ok env h0 accepted held g p1 (andthen (add_to_session q g ?p2) (\<lambda>p2.
      finish_if env (wc_finish_after clk) (limit_reached (wc_checked clk) (wp_limits p2)) g p2))"
  proof (rule ends_ok_andthen)
    fix p3 assume "add_to_session q g ?p2 = (Inr (), p3)"
    then have "round_ok env h0 accepted held g p3"
      using \<open>ends_ok env h0 accepted held g p1 (add_to_session q g ?p2)\<close> by (simp add: ends_ok_def)
    then show "ends_ok env h0 accepted held g p3 (finish_if env (wc_finish_after clk) (limit_reached (wc_checked clk) (wp_limits p3)) g p3)"
      by (rule finish_if_ok(1))
  qed
qed

lemma finish_ends_ok:
  assumes "round_ok env h0 accepted held g p"
  shows "ends_ok env h0 accepted held g p (finish_group env fin g p)"
  using finish_group_ok [OF assms] by (cases "finish_group env fin g p") (auto simp: ends_ok_def)

lemma finish_control_ok:
  assumes "round_ok env h0 accepted held g p"
  shows "ends_ok env h0 accepted held g p (finish_control env fin c g p)"
    "finish_control env fin c g p = (Inr (), p') \<Longrightarrow> round_ok env h0 accepted held g p' \<and> wp_session p' g = None"
proof -
  obtain r p1 where f: "finish_group env fin g p = (r, p1)" by (cases "finish_group env fin g p")
  note F = finish_group_ok [OF assms f]
  have rej: "pool_ok env h (p1\<lparr>wp_rejected := x, wp_status := y\<rparr>) = pool_ok env h (p1\<lparr>wp_status := y\<rparr>)" for h x y
    by (simp add: pool_ok_def group_ok_def files_sound_def queue_of_def outstanding_def)
  have "other_groups_same g p (p1\<lparr>wp_rejected := x\<rparr>) = other_groups_same g p p1" for x
    by (simp add: other_groups_same_def queue_of_def in_chunks_def)
  then show "ends_ok env h0 accepted held g p (finish_control env fin c g p)"
    using F f rej by (cases r) (simp_all add: finish_control_def ends_ok_def)
  show "round_ok env h0 accepted held g p' \<and> wp_session p' g = None" if "finish_control env fin c g p = (Inr (), p')"
    using that F f by (cases r) (simp_all add: finish_control_def)
qed

lemma round_ok_pop:
  assumes "round_ok env h0 accepted [] g p" "queue_get g (wp_queues p) = Some (item, q)"
  shows "round_ok env h0 accepted [item] g (p\<lparr>wp_queues := q\<rparr>)" "other_groups_same g p (p\<lparr>wp_queues := q\<rparr>)"
proof -
  have c: "bq_queues (wp_queues p) g = item # bq_queues q g" "\<And>h. h \<noteq> g \<Longrightarrow> bq_queues (wp_queues p) h = bq_queues q h"
    using queues.pop_Some [OF assms(2)] by simp_all
  have b: "bq_used_by_group q = bq_used_by_group (wp_queues p)" "books_balance q = books_balance (wp_queues p)"
    using assms(2) by (auto simp: queue_get_def books_balance_def split: list.splits)
  show same: "other_groups_same g p (p\<lparr>wp_queues := q\<rparr>)"
    using c(2) b(1) by (simp add: other_groups_same_def queue_of_def in_chunks_def)
  have g: "group_ok [] g p" "wp_status p g = Running" using assms(1) by (auto simp: round_ok_def pool_ok_def)
  show "round_ok env h0 accepted [item] g (p\<lparr>wp_queues := q\<rparr>)"
  proof (rule round_ok_from [OF assms(1) same])
    show "books_balance (wp_queues (p\<lparr>wp_queues := q\<rparr>))" using b(2) assms(1) by (simp add: round_ok_def pool_ok_def)
    show "files_sound env (p\<lparr>wp_queues := q\<rparr>)" using assms(1) by (simp add: round_ok_def pool_ok_def files_sound_def)
    show "wp_status (p\<lparr>wp_queues := q\<rparr>) g = Running" using g(2) by simp
    show "group_ok [item] g (p\<lparr>wp_queues := q\<rparr>)" using g c(1) b(1) by (simp add: group_ok_def queue_of_def outstanding_def)
    show "recorded h0 accepted [item] g (p\<lparr>wp_queues := q\<rparr>)"
      using assms(1) c(1) by (simp add: round_ok_def recorded_def in_session_def queue_of_def in_chunks_def)
  qed
qed

text \<open>One round of a running task, whatever its item.\<close>

definition task_ok :: "string \<Rightarrow> writer_item list \<Rightarrow> writer_group \<Rightarrow> writer_pool \<Rightarrow> bool" where
  "task_ok h0 accepted g p \<longleftrightarrow> (wp_status p g \<noteq> Failed \<longrightarrow> recorded h0 accepted [] g p)"

lemma ends_ok_task:
  assumes "ends_ok env h0 accepted [] g p res"
  shows "pool_ok env (\<lambda>h. []) (task_result g res) \<and> other_groups_same g p (task_result g res) \<and> task_ok h0 accepted g (task_result g res)"
proof (cases res)
  case (Pair r p')
  show ?thesis
  proof (cases r)
    case (Inl e)
    then show ?thesis using assms Pair
      by (simp add: ends_ok_def task_ok_def task_result_def other_groups_same_def queue_of_def in_chunks_def)
  next
    case (Inr u)
    then have "round_ok env h0 accepted [] g p'" using assms Pair by (simp add: ends_ok_def)
    then show ?thesis using assms Pair Inr by (simp add: ends_ok_def task_ok_def task_result_def round_ok_def)
  qed
qed

lemma control_done:
  assumes "round_ok env h0 accepted [item] g p" "wp_session p g = None" "item_bytes item = 0"
    and "wp_queues p' = wp_queues p" "wp_session p' = wp_session p" "wp_limits p' = wp_limits p" "wp_ready p' = wp_ready p"
    and "\<And>h. h \<noteq> g \<Longrightarrow> wp_group_hash p' h = wp_group_hash p h \<and> wp_status p' h = wp_status p h" "wp_status p' g \<noteq> Failed"
    and "\<And>xs. tagged (wp_group_hash p g) (item # xs) = tagged (wp_group_hash p' g) xs"
    and "\<And>xs. hash_after (wp_group_hash p g) (item # xs) = hash_after (wp_group_hash p' g) xs"
  shows "pool_ok env (\<lambda>h. []) p' \<and> other_groups_same g p p' \<and> task_ok h0 accepted g p'"
proof (intro conjI)
  show same: "other_groups_same g p p'"
    using assms(4-8) by (simp add: other_groups_same_def queue_of_def in_chunks_def)
  have p: "pool_ok env (\<lambda>h. if h = g then [item] else []) p" "g \<in> set writer_groups" "wp_status p g = Running"
    "recorded h0 accepted [item] g p" using assms(1) by (simp_all add: round_ok_def)
  have g: "group_ok [item] g p" using p(1,2) by (auto simp: pool_ok_def)
  have "group_ok [] g p'"
    using g p(3) assms(2-5,9) by (simp add: group_ok_def queue_of_def outstanding_def)
  then show "pool_ok env (\<lambda>h. []) p'"
    using p(1) others_ok(1) [OF same] assms(4,6,7) unfolding pool_ok_def files_sound_def by metis
  show "task_ok h0 accepted g p'"
    using p(4) assms(2,4,5,7,10,11) by (simp add: task_ok_def recorded_def in_session_def in_chunks_def queue_of_def)
qed

lemma writer_task_ok:
  assumes "pool_ok env (\<lambda>h. []) p" "wp_status p g = Running" "g \<in> set writer_groups" "recorded h0 accepted [] g p"
  shows "pool_ok env (\<lambda>h. []) (writer_task env clk g p) \<and> other_groups_same g p (writer_task env clk g p) \<and>
    task_ok h0 accepted g (writer_task env clk g p)"
proof -
  have start: "round_ok env h0 accepted [] g p" using assms by (simp add: round_ok_def)
  show ?thesis
  proof (cases "queue_get g (wp_queues p)")
    case None
    then show ?thesis using ends_ok_task [OF finish_if_ok(1) [OF start]] by (simp add: writer_task_def writer_round_def)
  next
    case (Some iq)
    then obtain item q where iq: "queue_get g (wp_queues p) = Some (item, q)" by (cases iq) simp
    let ?p = "p\<lparr>wp_queues := q\<rparr>"
    note P = round_ok_pop [OF start iq]
    show ?thesis
    proof (cases item)
      case (Queued qe)
      have "ends_ok env h0 accepted [] g ?p (write_event env clk qe g ?p)" using P(1) Queued by (intro write_event_ok) simp
      from ends_ok_task [OF this] show ?thesis
        using iq Queued other_groups_trans [OF P(2)] by (simp add: writer_task_def writer_round_def Let_def)
    next
      case (Rotate_Writer h c)
      note F = finish_control_ok [OF P(1), of "wc_finish_before clk" c]
      obtain r p2 where fc: "finish_control env (wc_finish_before clk) c g ?p = (r, p2)"
        by (cases "finish_control env (wc_finish_before clk) c g ?p")
      let ?p3 = "p2\<lparr>wp_group_hash := (wp_group_hash p2)(g := h), wp_completed := wp_completed p2 @ [c]\<rparr>"
      show ?thesis
      proof (cases r)
        case (Inl e)
        then have "writer_task env clk g p = task_result g (finish_control env (wc_finish_before clk) c g ?p)"
          using iq Rotate_Writer fc by (simp add: writer_task_def writer_round_def Let_def)
        moreover have "ends_ok env h0 accepted [] g ?p (finish_control env (wc_finish_before clk) c g ?p)"
          using F(1) Inl fc by (simp add: ends_ok_def)
        ultimately show ?thesis using ends_ok_task other_groups_trans [OF P(2)] by metis
      next
        case (Inr u)
        then have "writer_task env clk g p = ?p3" "round_ok env h0 accepted [item] g p2" "wp_session p2 g = None" "other_groups_same g ?p p2"
          using iq Rotate_Writer fc F by (simp_all add: writer_task_def writer_round_def Let_def task_result_def ends_ok_def)
        then show ?thesis
          using control_done [of env h0 accepted item g p2 ?p3] Rotate_Writer P(2) other_groups_trans
          by (simp add: round_ok_def)
      qed
    next
      case (Stop_Writer c)
      note F = finish_control_ok [OF P(1), of "wc_finish_before clk" c]
      obtain r p2 where fc: "finish_control env (wc_finish_before clk) c g ?p = (r, p2)"
        by (cases "finish_control env (wc_finish_before clk) c g ?p")
      let ?p3 = "p2\<lparr>wp_status := (wp_status p2)(g := Stopped), wp_completed := wp_completed p2 @ [c]\<rparr>"
      show ?thesis
      proof (cases r)
        case (Inl e)
        then have "writer_task env clk g p = task_result g (finish_control env (wc_finish_before clk) c g ?p)"
          using iq Stop_Writer fc by (simp add: writer_task_def writer_round_def Let_def)
        moreover have "ends_ok env h0 accepted [] g ?p (finish_control env (wc_finish_before clk) c g ?p)"
          using F(1) Inl fc by (simp add: ends_ok_def)
        ultimately show ?thesis using ends_ok_task other_groups_trans [OF P(2)] by metis
      next
        case (Inr u)
        then have "writer_task env clk g p = ?p3" "round_ok env h0 accepted [item] g p2" "wp_session p2 g = None" "other_groups_same g ?p p2"
          using iq Stop_Writer fc F by (simp_all add: writer_task_def writer_round_def Let_def task_result_def ends_ok_def)
        then show ?thesis
          using control_done [of env h0 accepted item g p2 ?p3] Stop_Writer P(2) other_groups_trans
          by (simp add: round_ok_def)
      qed
    qed
  qed
qed

section \<open>Runs\<close>

text \<open>What the clients of the queues append is added to the log of the group.\<close>

definition appended :: "writer_pool \<Rightarrow> writer_pool \<Rightarrow> writer_group \<Rightarrow> writer_item list" where
  "appended p p' g = drop (length (queue_of p g)) (queue_of p' g)"

inductive ingest_run :: "writer_env \<Rightarrow> writer_pool \<Rightarrow> (writer_group \<Rightarrow> writer_item list) \<Rightarrow> ingest \<Rightarrow> bool" for env p0 where
  started: "start_writers p0 = Inr p \<Longrightarrow> ingest_run env p0 (\<lambda>_. []) (new_ingest p)"
| put: "ingest_run env p0 accepted st \<Longrightarrow> ingest_put now e st = Some (r, st') \<Longrightarrow>
    ingest_run env p0 (\<lambda>g. accepted g @ appended (in_pool st) (in_pool st') g) st'"
| rotate: "ingest_run env p0 accepted st \<Longrightarrow> ingest_rotate u st = Some st' \<Longrightarrow>
    ingest_run env p0 (\<lambda>g. accepted g @ appended (in_pool st) (in_pool st') g) st'"
| rotated: "ingest_run env p0 accepted st \<Longrightarrow> ingest_rotated st = Some st' \<Longrightarrow> ingest_run env p0 accepted st'"
| stop: "ingest_run env p0 accepted st \<Longrightarrow> st' = st\<lparr>in_pool := request_stop (in_pool st)\<rparr> \<Longrightarrow>
    ingest_run env p0 (\<lambda>g. accepted g @ appended (in_pool st) (in_pool st') g) st'"
| round: "ingest_run env p0 accepted st \<Longrightarrow> g \<in> set writer_groups \<Longrightarrow> wp_status (in_pool st) g = Running \<Longrightarrow>
    ingest_run env p0 accepted (st\<lparr>in_pool := writer_task env clk g (in_pool st)\<rparr>)"

definition run_ok :: "writer_env \<Rightarrow> string \<Rightarrow> (writer_group \<Rightarrow> writer_item list) \<Rightarrow> writer_pool \<Rightarrow> bool" where
  "run_ok env h0 accepted p \<longleftrightarrow> pool_ok env (\<lambda>h. []) p \<and> (\<forall>g \<in> set writer_groups. task_ok h0 (accepted g) g p)"

text \<open>The fields of the pool that only the writers change.\<close>

definition writers_same :: "writer_pool \<Rightarrow> writer_pool \<Rightarrow> bool" where
  "writers_same p p' \<longleftrightarrow> wp_limits p' = wp_limits p \<and> wp_ready p' = wp_ready p \<and> wp_session p' = wp_session p \<and>
     wp_group_hash p' = wp_group_hash p \<and> wp_status p' = wp_status p"

definition client_step :: "writer_pool \<Rightarrow> writer_pool \<Rightarrow> bool" where
  "client_step p p' \<longleftrightarrow> writers_same p p' \<and> books_balance (wp_queues p') \<and>
     (\<forall>g \<in> set writer_groups. queue_of p' g = queue_of p g @ appended p p' g \<and> (\<forall>i \<in> set (appended p p' g). item_ok g i) \<and>
        bq_used_by_group (wp_queues p') g = bq_used_by_group (wp_queues p) g + queue_bytes (appended p p' g))"

lemma client_step_ok:
  assumes "run_ok env h0 accepted p" "client_step p p'"
  shows "run_ok env h0 (\<lambda>g. accepted g @ appended p p' g) p'"
  unfolding run_ok_def pool_ok_def
proof (intro conjI ballI)
  have p: "pool_ok env (\<lambda>h. []) p" "\<And>g. g \<in> set writer_groups \<Longrightarrow> task_ok h0 (accepted g) g p"
    using assms(1) by (simp_all add: run_ok_def)
  have w: "writers_same p p'" using assms(2) by (simp add: client_step_def)
  show "books_balance (wp_queues p')" using assms(2) by (simp add: client_step_def)
  show "files_sound env p'" using p(1) w by (simp add: pool_ok_def files_sound_def writers_same_def)
  fix g assume g: "g \<in> set writer_groups"
  have c: "queue_of p' g = queue_of p g @ appended p p' g" "\<forall>i \<in> set (appended p p' g). item_ok g i"
    "bq_used_by_group (wp_queues p') g = bq_used_by_group (wp_queues p) g + queue_bytes (appended p p' g)"
    using assms(2) g by (simp_all add: client_step_def)
  have "group_ok [] g p" using p(1) g by (simp add: pool_ok_def)
  moreover have "outstanding g p' = outstanding g p + queue_bytes (appended p p' g)"
    using c(1) w by (simp add: outstanding_def writers_same_def split: option.split)
  ultimately show "group_ok [] g p'" using c w by (auto simp: group_ok_def writers_same_def split: if_splits)
  have "recorded h0 (accepted g @ appended p p' g) [] g p'" if "recorded h0 (accepted g) [] g p"
  proof -
    have "in_chunks g p' = in_chunks g p" "in_session g p' = in_session g p" "wp_group_hash p' = wp_group_hash p"
      using w by (simp_all add: writers_same_def in_chunks_def in_session_def)
    then show ?thesis using that c(1) by (simp add: recorded_def tagged_append hash_after_append)
  qed
  then show "task_ok h0 (accepted g @ appended p p' g) g p'"
    using p(2) [OF g] w by (simp add: task_ok_def writers_same_def)
qed

lemma put_client_step:
  assumes "pool_ok env (\<lambda>h. []) (in_pool st)" "ingest_put now e st = Some (r, st')"
  shows "client_step (in_pool st) (in_pool st')"
proof -
  let ?p = "in_pool st"
  obtain q where q: "queue_put now e (wp_queues ?p) = (r, q)" "in_pool st' = ?p\<lparr>wp_queues := q\<rparr>"
    using assms(2) by (auto simp: ingest_put_def split: if_splits prod.splits)
  have "books_balance (wp_queues ?p)" using assms(1) by (simp add: pool_ok_def)
  note B = queue_put_books [OF q(1) this] and C = queue_put_contents [OF q(1)]
  have "writers_same ?p (in_pool st')" using q(2) by (simp add: writers_same_def)
  then show ?thesis using B C q(2) by (auto simp: client_step_def appended_def queue_of_def)
qed

lemma send_control_step:
  assumes "distinct gs" "\<And>n g. item_ok g (item n) \<and> item_bytes (item n) = 0"
  shows "writers_same p (send_control item gs p) \<and>
    bq_used_by_group (wp_queues (send_control item gs p)) = bq_used_by_group (wp_queues p) \<and>
    books_balance (wp_queues (send_control item gs p)) = books_balance (wp_queues p) \<and>
    (\<forall>g. \<exists>new. queue_of (send_control item gs p) g = queue_of p g @ new \<and> (\<forall>i \<in> set new. item_ok g i) \<and> queue_bytes new = 0)"
  using assms(1)
proof (induction gs arbitrary: p)
  case Nil
  then show ?case by (auto simp: writers_same_def)
next
  case (Cons g gs)
  let ?p = "p\<lparr>wp_queues := put_control g (item (wp_next_future p)) (wp_queues p), wp_next_future := wp_next_future p + 1\<rparr>"
  note IH = Cons.IH [of ?p]
  have "writers_same p ?p" "bq_used_by_group (wp_queues ?p) = bq_used_by_group (wp_queues p)"
    "books_balance (wp_queues ?p) = books_balance (wp_queues p)"
    by (simp_all add: writers_same_def put_control_def append_item_def books_balance_def)
  moreover have "\<exists>new. queue_of (send_control item gs ?p) h = queue_of p h @ new \<and> (\<forall>i \<in> set new. item_ok h i) \<and> queue_bytes new = 0" for h
  proof -
    obtain new where "queue_of (send_control item gs ?p) h = queue_of ?p h @ new" "\<forall>i \<in> set new. item_ok h i" "queue_bytes new = 0"
      using IH Cons.prems by auto
    moreover have "queue_of ?p h = queue_of p h @ (if h = g then [item (wp_next_future p)] else [])"
      by (simp add: queue_of_def put_control_def append_item_def)
    ultimately show ?thesis
      using assms(2) [of h "wp_next_future p"]
      by (intro exI [of _ "(if h = g then [item (wp_next_future p)] else []) @ new"]) auto
  qed
  ultimately show ?case using IH Cons.prems by (simp add: writers_same_def)
qed

lemma control_client_step:
  assumes "pool_ok env (\<lambda>h. []) p" "distinct gs" "\<And>n g. item_ok g (item n) \<and> item_bytes (item n) = 0"
  shows "client_step p (send_control item gs p)"
proof -
  note S = send_control_step [where item = item, OF assms(2,3), of p]
  have "queue_of (send_control item gs p) g = queue_of p g @ appended p (send_control item gs p) g \<and>
      (\<forall>i \<in> set (appended p (send_control item gs p) g). item_ok g i) \<and> queue_bytes (appended p (send_control item gs p) g) = 0" for g
  proof -
    obtain new where "queue_of (send_control item gs p) g = queue_of p g @ new" "\<forall>i \<in> set new. item_ok g i" "queue_bytes new = 0"
      using S by blast
    then show ?thesis by (simp add: appended_def)
  qed
  then show ?thesis using S assms(1) by (simp add: client_step_def pool_ok_def)
qed

lemma ingest_run_ok:
  assumes "ingest_run env p0 accepted st" "p0 = new_pool c ch u limits (new_queues mb wr rr) di" "0 \<le> mb"
  shows "run_ok env u accepted (in_pool st)"
  using assms(1)
proof induction
  case (started p)
  then have p: "wp_queues p = new_queues mb wr rr" "wp_ready p = []" "wp_session p = (\<lambda>_. None)" "wp_group_hash p = (\<lambda>_. u)"
    "\<forall>g \<in> set writer_groups. wp_status p g = Running"
    using assms(2) by (auto simp: start_writers_def new_pool_def split: if_splits)
  then show ?case using assms(3)
    by (simp add: run_ok_def new_ingest_def pool_ok_def books_balance_def new_queues_def files_sound_def group_ok_def queue_of_def
        outstanding_def task_ok_def recorded_def in_chunks_def in_session_def writer_groups_def)
next
  case (put accepted st now e r st')
  then have "client_step (in_pool st) (in_pool st')" using put_client_step unfolding run_ok_def by blast
  then show ?case by (rule client_step_ok [OF put.IH])
next
  case (rotate accepted st u' st')
  then have "in_pool st' = send_control (Rotate_Writer u') writer_groups (in_pool st)"
    by (auto simp: ingest_rotate_def Let_def split: if_splits)
  moreover have "pool_ok env (\<lambda>h. []) (in_pool st)" using rotate.IH by (simp add: run_ok_def)
  then have "client_step (in_pool st) (send_control (Rotate_Writer u') writer_groups (in_pool st))"
    by (rule control_client_step) (simp_all add: writer_groups_def)
  ultimately show ?case using client_step_ok [OF rotate.IH] by simp
next
  case (rotated accepted st st')
  then have "writers_same (in_pool st) (in_pool st')" "wp_queues (in_pool st') = wp_queues (in_pool st)"
    by (auto simp: ingest_rotated_def writers_same_def split: option.splits if_splits)
  then have "client_step (in_pool st) (in_pool st')" "appended (in_pool st) (in_pool st') = (\<lambda>_. [])"
    using rotated.IH by (simp_all add: client_step_def appended_def queue_of_def run_ok_def pool_ok_def fun_eq_iff)
  from client_step_ok [OF rotated.IH this(1)] this(2) show ?case by simp
next
  case (stop accepted st st')
  have "pool_ok env (\<lambda>h. []) (in_pool st)" using stop.IH by (simp add: run_ok_def)
  then have "client_step (in_pool st) (request_stop (in_pool st))"
    unfolding request_stop_def by (rule control_client_step) (simp_all add: writer_groups_def)
  then show ?case using client_step_ok [OF stop.IH] stop.hyps by simp
next
  case (round accepted st g clk)
  let ?p = "in_pool st" and ?p' = "writer_task env clk g (in_pool st)"
  have "recorded u (accepted g) [] g ?p" using round by (simp add: run_ok_def task_ok_def)
  then have W: "pool_ok env (\<lambda>h. []) ?p'" "other_groups_same g ?p ?p'" "task_ok u (accepted g) g ?p'"
    using writer_task_ok [of env ?p g u "accepted g" clk] round by (simp_all add: run_ok_def)
  have "task_ok u (accepted h) h ?p'" if "h \<in> set writer_groups" "h \<noteq> g" for h
    using round.IH that others_ok(2) [OF W(2) that(2)] W(2) by (auto simp: run_ok_def task_ok_def other_groups_same_def)
  then show ?case using W by (auto simp: run_ok_def)
qed

section \<open>Properties\<close>

definition collector_pool :: "string \<Rightarrow> string \<Rightarrow> string \<Rightarrow> chunk_limits \<Rightarrow> int \<Rightarrow> rat \<Rightarrow> rat \<Rightarrow> day_index \<Rightarrow> writer_pool" where
  "collector_pool c contract u limits budget warn resume di = new_pool c contract u limits (new_queues budget warn resume) di"

text \<open>C21. No accepted event is lost, duplicated or reordered: in every run of the collector's queues and writers, the published
  chunks of a group, its open session and its queue are together exactly the events the group has accepted, in order; and
  every event stands in a chunk of the universe hash that was in force when it was accepted. Only a failed writer task is exempt.\<close>

theorem accepted_events_conserved:
  assumes "ingest_run env (collector_pool c contract u limits budget warn resume di) accepted st" "0 \<le> budget"
    and "g \<in> set writer_groups" "wp_status (in_pool st) g \<noteq> Failed"
  shows "in_chunks g (in_pool st) @ in_session g (in_pool st) @ tagged (wp_group_hash (in_pool st) g) (queue_of (in_pool st) g) =
    tagged u (accepted g)"
  using ingest_run_ok [OF assms(1) collector_pool_def assms(2)] assms(3,4)
  by (simp add: run_ok_def task_ok_def recorded_def)

text \<open>C22. The byte budget is strict and exact: in every run the used bytes are the sum of the groups and never exceed the budget,
  a group that has not failed uses exactly the bytes of its queued and batched events, and releasing a flushed batch never makes the
  accounting negative.\<close>

theorem byte_budget_exact:
  assumes "ingest_run env (collector_pool c contract u limits budget warn resume di) accepted st" "0 \<le> budget"
    and "g \<in> set writer_groups" "wp_status (in_pool st) g = Running"
  shows "bq_used_bytes (wp_queues (in_pool st)) = sum_list (map (bq_used_by_group (wp_queues (in_pool st))) writer_groups) \<and>
    0 \<le> bq_used_by_group (wp_queues (in_pool st)) g \<and>
    bq_used_bytes (wp_queues (in_pool st)) \<le> bq_max_bytes (wp_queues (in_pool st)) \<and>
    bq_used_by_group (wp_queues (in_pool st)) g = outstanding g (in_pool st) \<and> fst (flush_group g (in_pool st)) = Inr ()"
proof -
  let ?p = "in_pool st"
  have ok: "run_ok env u accepted ?p" using ingest_run_ok [OF assms(1) collector_pool_def assms(2)] .
  then have p: "pool_ok env (\<lambda>_. []) ?p" "recorded u (accepted g) [] g ?p" using assms(3,4) by (simp_all add: run_ok_def task_ok_def)
  then have R: "round_ok env u (accepted g) [] g ?p" using assms(3,4) by (simp add: round_ok_def)
  have "fst (flush_group g ?p) = Inr ()"
  proof (cases "wp_session ?p g")
    case (Some s)
    then show ?thesis using flush_group_ok [OF R Some] by auto
  qed (simp add: flush_group_def)
  moreover have "group_ok [] g ?p" using p(1) assms(3) by (simp add: pool_ok_def)
  ultimately show ?thesis using p(1) used_nonneg [OF p(1) assms(3)] assms(4) by (simp add: pool_ok_def books_balance_def group_ok_def)
qed

definition demo_event :: "nat \<Rightarrow> raw_event" where
  "demo_event n = \<lparr>ev_schema_version = 1, ev_exchange_symbol = None, ev_stream_type = DEPTH, ev_collector_id = ''c'', ev_boot_id = ''b'',
     ev_segment_id = ''s'', ev_connection_id = ''k'', ev_receive_seq = 1 + int n, ev_app_receive_realtime_ns = int n,
     ev_app_receive_monotonic_ns = 0, ev_payload_bytes = ''x'', ev_request_id = None, ev_request_realtime_ns = None\<rparr>"

definition demo_limits :: chunk_limits where
  "demo_limits = \<lparr>max_seconds = 60, max_bytes = 1000, max_events = 1, batch_events = 1, batch_bytes = 1000\<rparr>"

definition demo_env :: writer_env where
  "demo_env = \<lparr>we_file = (\<lambda>_ _. ''file''), we_sha256 = (\<lambda>_. replicate 64 CHR ''0'')\<rparr>"

definition demo_clock :: writer_clock where
  "demo_clock = \<lparr>wc_stamp = ''t'', wc_uuid = ''u'', wc_started = 0, wc_checked = 0,
     wc_finish_before = (0, \<lparr>wall_us = 0, utc_offset = Some 0\<rparr>), wc_finish_after = (0, \<lparr>wall_us = 0, utc_offset = Some 0\<rparr>)\<rparr>"

definition demo_hash :: string where "demo_hash = replicate 64 CHR ''a''"

definition demo_pool :: writer_pool where
  "demo_pool = collector_pool ''collector'' demo_hash demo_hash demo_limits 10000 0 0
     \<lparr>di_collector_id = ''collector'', di_journal = [], di_ready = [], di_acked = [], di_sealed = []\<rparr>"

text \<open>A run that accepts two events and publishes the first.\<close>

definition demo_start :: ingest where
  "demo_start = (case start_writers demo_pool of Inl _ \<Rightarrow> new_ingest demo_pool | Inr p \<Rightarrow> new_ingest p)"

definition demo_put :: "nat \<Rightarrow> ingest \<Rightarrow> ingest" where
  "demo_put n st = snd (the (ingest_put 0 (demo_event n) st))"

definition demo_round :: "ingest \<Rightarrow> ingest" where
  "demo_round st = st\<lparr>in_pool := writer_task demo_env demo_clock GROUP_DEPTH (in_pool st)\<rparr>"

definition demo_end :: ingest where
  "demo_end = demo_round (demo_put 1 (demo_put 0 demo_start))"

definition demo_ready :: "ingest \<Rightarrow> bool" where
  "demo_ready st \<longleftrightarrow> in_accepting st \<and> wp_status (in_pool st) GROUP_DEPTH = Running"

lemma demo_putI:
  assumes "ingest_run env p0 accepted st" "demo_ready st"
  shows "\<exists>accepted. ingest_run env p0 accepted (demo_put n st)"
proof -
  obtain r st' where "ingest_put 0 (demo_event n) st = Some (r, st')"
    using assms(2) by (cases "queue_put 0 (demo_event n) (wp_queues (in_pool st))") (simp add: demo_ready_def ingest_put_def)
  with ingest_run.put [OF assms(1) this] show ?thesis unfolding demo_put_def by auto
qed

lemma demo_roundI: "ingest_run demo_env p0 accepted st \<Longrightarrow> demo_ready st \<Longrightarrow> ingest_run demo_env p0 accepted (demo_round st)"
  unfolding demo_round_def demo_ready_def by (intro ingest_run.round) (auto simp: writer_groups_def)

lemma demo_ready_steps: "demo_ready demo_start" "demo_ready (demo_put 0 demo_start)" "demo_ready (demo_put 1 (demo_put 0 demo_start))"
  by code_simp+

text \<open>The round that publishes the first event, evaluated step by step.\<close>

definition demo_session :: chunk_session where
  "demo_session = snd (flush_batch (snd (add_queued \<lparr>qe_event = demo_event 0, qe_reserved_bytes = 257\<rparr>
     (new_session ''collector'' GROUP_DEPTH 0 demo_hash demo_hash demo_limits ''t'' ''u'' 0))))"

lemma demo_session_manifest:
  "validate_chunk_manifest (session_manifest demo_env \<lparr>wall_us = 0, utc_offset = Some 0\<rparr> 0 0 demo_session) =
     Inr (session_manifest demo_env \<lparr>wall_us = 0, utc_offset = Some 0\<rparr> 0 0 demo_session)"
  by code_simp

lemma finish_written:
  assumes "wp_session p g = Some s" "cs_batch s = []" "cs_min_ns s = Some lo" "cs_max_ns s = Some hi" "cs_event_count s \<noteq> 0"
    and "validate_chunk_manifest (session_manifest env created lo hi s) = Inr m" "\<not> is_sealed (wp_index p) (cm_utc_date m)"
  shows "fst (finish_group env (elapsed, created) g p) = Inr () \<and> wp_status (snd (finish_group env (elapsed, created) g p)) = wp_status p \<and>
    wp_ready (snd (finish_group env (elapsed, created) g p)) = wp_ready p @
      [\<lparr>pf_path = chunk_data_path s, pf_metadata = session_metadata s, pf_tables = cs_tables s, pf_manifest = Some m\<rparr>]"
  using assms
  by (simp add: finish_group_def flush_group_def flush_batch_def session_finish_def Let_def record_chunk_def is_sealed_def
      count_chunk_def fun_upd_idem)

lemma demo_before_finish:
  "\<exists>p. wp_session p GROUP_DEPTH = Some demo_session \<and> wp_status p GROUP_DEPTH = Running \<and> wp_ready p = [] \<and> di_sealed (wp_index p) = [] \<and>
     in_pool demo_end = task_result GROUP_DEPTH (finish_group demo_env (0, \<lparr>wall_us = 0, utc_offset = Some 0\<rparr>) GROUP_DEPTH p)"
  by (simp add: demo_end_def demo_round_def demo_put_def demo_start_def demo_pool_def collector_pool_def new_pool_def start_writers_def
      new_ingest_def ingest_put_def queue_put_def Let_def new_queues_def append_item_def demo_event_def approximate_size_bytes_def
      writer_group_of_def writer_task_def writer_round_def queue_get_def write_event_def finish_if_def open_session_def
      add_to_session_def add_queued_def new_session_def demo_limits_def flush_group_def flush_batch_def queue_release_def
      limit_reached_def demo_clock_def demo_session_def ratio_bytes_def double_def trunc_int_def)
    (intro exI conjI refl, simp_all add: event_day_def date_of_ns_def writer_groups_def)

definition demo_manifest :: chunk_manifest where
  "demo_manifest = session_manifest demo_env \<lparr>wall_us = 0, utc_offset = Some 0\<rparr> 0 0 demo_session"

lemma demo_published:
  "wp_status (in_pool demo_end) GROUP_DEPTH = Running"
  "wp_ready (in_pool demo_end) = [\<lparr>pf_path = chunk_data_path demo_session, pf_metadata = session_metadata demo_session,
     pf_tables = [[demo_event 0]], pf_manifest = Some demo_manifest\<rparr>]"
proof -
  let ?fin = "(0, \<lparr>wall_us = 0, utc_offset = Some 0\<rparr>)"
  obtain p where p: "wp_session p GROUP_DEPTH = Some demo_session" "wp_status p GROUP_DEPTH = Running" "wp_ready p = []"
    "di_sealed (wp_index p) = []" "in_pool demo_end = task_result GROUP_DEPTH (finish_group demo_env ?fin GROUP_DEPTH p)"
    using demo_before_finish by blast
  have s: "cs_batch demo_session = []" "cs_min_ns demo_session = Some 0" "cs_max_ns demo_session = Some 0"
    "cs_event_count demo_session \<noteq> 0" "cs_tables demo_session = [[demo_event 0]]"
    by (simp_all add: demo_session_def flush_batch_def add_queued_def Let_def new_session_def demo_event_def)
  obtain r p' where run: "finish_group demo_env ?fin GROUP_DEPTH p = (r, p')" by (cases "finish_group demo_env ?fin GROUP_DEPTH p")
  have "\<not> is_sealed (wp_index p) (cm_utc_date (session_manifest demo_env (snd ?fin) 0 0 demo_session))"
    using p(4) by (simp add: is_sealed_def)
  from finish_written [OF p(1) s(1-4) demo_session_manifest this [unfolded snd_conv], of 0] p(2,3)
  have "r = Inr ()" "wp_status p' GROUP_DEPTH = Running" "wp_ready p' = [\<lparr>pf_path = chunk_data_path demo_session,
      pf_metadata = session_metadata demo_session, pf_tables = [[demo_event 0]], pf_manifest = Some demo_manifest\<rparr>]"
    unfolding run s(5) demo_manifest_def by simp_all
  then show "wp_status (in_pool demo_end) GROUP_DEPTH = Running"
    "wp_ready (in_pool demo_end) = [\<lparr>pf_path = chunk_data_path demo_session, pf_metadata = session_metadata demo_session,
       pf_tables = [[demo_event 0]], pf_manifest = Some demo_manifest\<rparr>]"
    unfolding p(5) run by (simp_all add: task_result_def)
qed

lemma demo_end_facts:
  "wp_status (in_pool demo_end) GROUP_DEPTH = Running \<and> length (in_chunks GROUP_DEPTH (in_pool demo_end)) = 1"
proof -
  have "cm_writer_group demo_manifest = GROUP_DEPTH"
    by (simp add: demo_manifest_def session_manifest_def demo_session_def flush_batch_def add_queued_def Let_def new_session_def)
  then show ?thesis by (simp add: demo_published in_chunks_def file_group_def file_tagged_def)
qed

lemma demo_run: "\<exists>accepted. ingest_run demo_env demo_pool accepted demo_end"
proof -
  have "start_writers demo_pool = Inr (in_pool demo_start)" "demo_start = new_ingest (in_pool demo_start)"
    by (simp_all add: demo_start_def start_writers_def new_ingest_def demo_pool_def collector_pool_def new_pool_def)
  then have "ingest_run demo_env demo_pool (\<lambda>_. []) demo_start" using ingest_run.started by metis
  from demo_putI [OF this demo_ready_steps(1)] obtain a0 where "ingest_run demo_env demo_pool a0 (demo_put 0 demo_start)" ..
  from demo_putI [OF this demo_ready_steps(2)] obtain a1 where "ingest_run demo_env demo_pool a1 (demo_put 1 (demo_put 0 demo_start))" ..
  from demo_roundI [OF this demo_ready_steps(3)] show ?thesis unfolding demo_end_def by blast
qed

theorem accepted_events_conserved_witness:
  "\<exists>accepted. in_chunks GROUP_DEPTH (in_pool demo_end) @ in_session GROUP_DEPTH (in_pool demo_end) @
     tagged (wp_group_hash (in_pool demo_end) GROUP_DEPTH) (queue_of (in_pool demo_end) GROUP_DEPTH) = tagged demo_hash accepted \<and>
     length (in_chunks GROUP_DEPTH (in_pool demo_end)) = 1"
proof -
  obtain accepted where "ingest_run demo_env demo_pool accepted demo_end" using demo_run by blast
  from accepted_events_conserved [OF this [unfolded demo_pool_def], of GROUP_DEPTH] show ?thesis
    using demo_end_facts by (auto simp: writer_groups_def)
qed

theorem byte_budget_exact_witness: "bq_used_by_group (wp_queues (in_pool demo_end)) GROUP_DEPTH = outstanding GROUP_DEPTH (in_pool demo_end)"
proof -
  obtain accepted where "ingest_run demo_env demo_pool accepted demo_end" using demo_run by blast
  from byte_budget_exact [OF this [unfolded demo_pool_def], of GROUP_DEPTH] show ?thesis
    using demo_end_facts by (simp add: writer_groups_def)
qed

end
