(* ===== verification/Handover.thy ===== *)
theory Handover
  imports Writer_Run Normalize
begin

text \<open>
  The collector and the pipeline meet in the chunk: what the writer publishes passes the verification of the
  day normalizer. Of Parquet only this is used: a footer gives back the metadata the file was written with, the
  number of its rows, and for every row group the least and the greatest receive time.
\<close>

text \<open>The footer of a file whose rows are stored in the given row groups. Writer and normalizer use the same
  schema, \<open>RAW_EVENT_SCHEMA\<close> of \<open>contracts/raw.py\<close>, so it matches.\<close>

definition footer_of :: "published_file \<Rightarrow> raw_event list list \<Rightarrow> raw_row list \<Rightarrow> parquet_file" where
  "footer_of f groups rows =
     \<lparr>pq_schema_matches = True, pq_metadata = pf_metadata f, pq_num_rows = int (length (concat groups)),
       pq_statistics = map (\<lambda>es. Some (Min (receive_ns ` set es), Max (receive_ns ` set es))) groups, pq_rows = rows\<rparr>"

text \<open>The least and greatest value over nonempty groups, as the normalizer folds them.\<close>

lemma fold_min_groups:
  assumes "\<forall>es \<in> set groups. es \<noteq> []" "groups \<noteq> []"
  shows "fold min (map (\<lambda>es. Min (receive_ns ` set es)) (tl groups)) (Min (receive_ns ` set (hd groups))) =
    Min (receive_ns ` set (concat groups))"
  using assms
proof (induction groups rule: rev_induct)
  case (snoc es groups)
  show ?case
  proof (cases "groups = []")
    case False
    have "set (concat groups) \<noteq> {}" "es \<noteq> []" using snoc.prems False by (cases groups; auto)+
    then have "Min (receive_ns ` set (concat (groups @ [es]))) = min (Min (receive_ns ` set (concat groups))) (Min (receive_ns ` set es))"
      by (simp add: image_Un Min_Un del: set_concat)
    then show ?thesis using snoc.IH snoc.prems False by (simp add: min.commute del: set_concat)
  qed simp
qed simp

lemma fold_max_groups:
  assumes "\<forall>es \<in> set groups. es \<noteq> []" "groups \<noteq> []"
  shows "fold max (map (\<lambda>es. Max (receive_ns ` set es)) (tl groups)) (Max (receive_ns ` set (hd groups))) =
    Max (receive_ns ` set (concat groups))"
  using assms
proof (induction groups rule: rev_induct)
  case (snoc es groups)
  show ?case
  proof (cases "groups = []")
    case False
    have "set (concat groups) \<noteq> {}" "es \<noteq> []" using snoc.prems False by (cases groups; auto)+
    then have "Max (receive_ns ` set (concat (groups @ [es]))) = max (Max (receive_ns ` set (concat groups))) (Max (receive_ns ` set es))"
      by (simp add: image_Un Max_Un del: set_concat)
    then show ?thesis using snoc.IH snoc.prems False by (simp add: max.commute del: set_concat)
  qed simp
qed simp

lemma session_metadata_expected:
  "(k, v) \<in> set (expected_metadata (session_manifest env created lo hi s)) \<Longrightarrow> dict_get (session_metadata s) k = Some v"
  by (auto simp: expected_metadata_def session_metadata_def session_manifest_def dict_get_def)

lemma described_in_day:
  assumes "describes es g d n (Some lo) (Some hi)" "es \<noteq> []"
  shows "midnight_ns d \<le> lo \<and> lo \<le> hi \<and> hi < midnight_ns d + ns_per_day"
proof -
  have fin: "finite (receive_ns ` set es)" "receive_ns ` set es \<noteq> {}" using assms(2) by auto
  have lo: "lo = Min (receive_ns ` set es)" "hi = Max (receive_ns ` set es)" using assms by (simp_all add: describes_def)
  obtain a b where ab: "a \<in> set es" "lo = receive_ns a" "b \<in> set es" "hi = receive_ns b"
    using Min_in [OF fin] Max_in [OF fin] unfolding lo by auto
  have "date_of_ns lo = d" "date_of_ns hi = d" using assms(1) ab by (auto simp: describes_def event_day_def)
  moreover have "lo \<le> hi" unfolding lo by (meson Max_ge Min_in fin)
  ultimately show ?thesis by (simp add: date_of_ns_iff midnight_ns_def algebra_simps)
qed

text \<open>C23. The collector's chunks pass the pipeline: in every run of the writers, a chunk published with its manifest survives the
  integrity check and the Parquet check of the day normalizer for the day of its manifest - size, digest, metadata, row count, and a
  receive time range inside that UTC day - however Parquet splits its rows into row groups.\<close>

theorem published_chunk_verifies:
  assumes "ingest_run env (collector_pool c contract u limits budget warn resume di) accepted st" "0 \<le> budget"
    and "f \<in> set (wp_ready (in_pool st))" "pf_manifest f = Some m"
    and "concat groups = concat (pf_tables f)" "\<forall>es \<in> set groups. es \<noteq> []" "ds_date src = cm_utc_date m"
  shows "verify_chunk \<lparr>cf_size = int (length (we_file env (pf_metadata f) (pf_tables f))),
      cf_sha256 = we_sha256 env (we_file env (pf_metadata f) (pf_tables f)), cf_parquet = pq\<rparr> m = Inr () \<and>
    verify_parquet src (footer_of f groups rows) m = Inr ()"
proof -
  have "run_ok env u accepted (in_pool st)" by (rule ingest_run_ok [OF assms(1) collector_pool_def assms(2)])
  then have "file_sound env (wp_limits (in_pool st)) f" using assms(3) by (simp add: run_ok_def pool_ok_def files_sound_def)
  then obtain s created lo hi where f: "concat (pf_tables f) \<noteq> []" "m = session_manifest env created lo hi s"
    "pf_metadata f = session_metadata s" "pf_tables f = cs_tables s"
    and d: "describes (concat (pf_tables f)) (cm_writer_group m) (cm_utc_date m) (event_count m)
      (Some (min_app_receive_realtime_ns m)) (Some (max_app_receive_realtime_ns m))"
    unfolding file_sound_def assms(4) option.case by blast
  have groups: "groups \<noteq> []" using f(1) assms(5) by auto
  have "verify_chunk \<lparr>cf_size = int (length (we_file env (pf_metadata f) (pf_tables f))),
      cf_sha256 = we_sha256 env (we_file env (pf_metadata f) (pf_tables f)), cf_parquet = pq\<rparr> m = Inr ()"
    using f by (simp add: verify_chunk_def session_manifest_def session_bytes_def)
  moreover have "\<not> list_ex (\<lambda>(k, v). dict_get (pf_metadata f) k \<noteq> Some v) (expected_metadata m)"
    using session_metadata_expected [of _ _ env created lo hi s] f(2,3) by (auto simp: list_ex_iff)
  moreover have "min_app_receive_realtime_ns m = Min (receive_ns ` set (concat groups))"
    "max_app_receive_realtime_ns m = Max (receive_ns ` set (concat groups))" "event_count m = int (length (concat groups))"
    using d unfolding assms(5) describes_def if_not_P [OF f(1)] by simp_all
  ultimately show ?thesis
    using described_in_day [OF d f(1)] fold_min_groups [OF assms(6) groups] fold_max_groups [OF assms(6) groups] groups assms(7)
    by (auto simp: verify_parquet_def footer_of_def Let_def comp_def hd_map map_tl [symmetric])
qed

theorem published_chunk_verifies_witness:
  "verify_parquet \<lparr>ds_collector_id = ''collector'', ds_date = cm_utc_date demo_manifest, ds_day_manifest = None, ds_day_manifest_sha256 = '''',
      ds_chunk_manifest = (\<lambda>_. None), ds_chunk_file = (\<lambda>_. None), ds_previous_dedup = None, ds_stale_typed = []\<rparr>
     (footer_of (hd (wp_ready (in_pool demo_end))) [[demo_event 0]] []) demo_manifest = Inr ()"
proof -
  obtain accepted where run: "ingest_run demo_env demo_pool accepted demo_end" using demo_run by blast
  let ?f = "hd (wp_ready (in_pool demo_end))"
  have f: "?f \<in> set (wp_ready (in_pool demo_end))" "pf_manifest ?f = Some demo_manifest" "concat [[demo_event 0]] = concat (pf_tables ?f)"
    by (simp_all add: demo_published)
  show ?thesis
    by (rule published_chunk_verifies [OF run [unfolded demo_pool_def] _ f, THEN conjunct2]) simp_all
qed

end
