(* ===== verification/Durable_Files.thy ===== *)
theory Durable_Files
  imports Json Calendar
begin

text \<open>
  The disk under the transfer of chunks: the files of a data root by the components of their paths, the
  transfer ledger and status of \<open>src/miry/transfer.py\<close>, and a host that may die between any two changes of
  its disk. Writes and renames are atomic, as \<open>atomic_write_bytes\<close> makes them with its temporary file; a
  host that has died ignores every later change, so a function is written as if it always ran to its end.
\<close>

section \<open>Paths\<close>

type_synonym path = "string list"

type_synonym files = "(path, string) dict"

definition name_of :: "path \<Rightarrow> string" where
  "name_of p = (if p = [] then [] else List.last p)"

definition ends_with :: "string \<Rightarrow> string \<Rightarrow> bool" where
  "ends_with s suffix \<longleftrightarrow> length suffix \<le> length s \<and> drop (length s - length suffix) s = suffix"

text \<open>The position of the last dot of a name; a dot at either end begins no suffix.\<close>

fun last_dot :: "nat \<Rightarrow> string \<Rightarrow> nat option" where
  "last_dot i [] = None"
| "last_dot i (c # cs) =
     (case last_dot (i + 1) cs of Some j \<Rightarrow> Some j | None \<Rightarrow> if c = CHR ''.'' then Some i else None)"

definition suffix_stem :: "string \<Rightarrow> string" where
  "suffix_stem name =
     (case last_dot 0 name of None \<Rightarrow> name | Some i \<Rightarrow> if 0 < i \<and> i + 1 < length name then take i name else name)"

definition with_suffix :: "path \<Rightarrow> string \<Rightarrow> path" where
  "with_suffix p suffix = butlast p @ [suffix_stem (name_of p) @ suffix]"

definition under :: "path \<Rightarrow> path \<Rightarrow> bool" where
  "under p directory \<longleftrightarrow> length directory < length p \<and> take (length directory) p = directory"

text \<open>\<open>sorted(directory.glob("*" + suffix))\<close> and \<open>directory.rglob("*" + suffix)\<close> in directory order.\<close>

definition glob :: "path \<Rightarrow> string \<Rightarrow> files \<Rightarrow> path list" where
  "glob directory suffix fs = sort (filter (\<lambda>p. p \<noteq> [] \<and> butlast p = directory \<and> ends_with (name_of p) suffix) (dict_keys fs))"

definition rglob :: "path \<Rightarrow> string \<Rightarrow> files \<Rightarrow> path list" where
  "rglob directory suffix fs = filter (\<lambda>p. under p directory \<and> ends_with (name_of p) suffix) (dict_keys fs)"

definition file_exists :: "files \<Rightarrow> path \<Rightarrow> bool" where
  "file_exists fs p \<longleftrightarrow> dict_get fs p \<noteq> None"

definition read_bytes :: "files \<Rightarrow> path \<Rightarrow> py_error + string" where
  "read_bytes fs p = (case dict_get fs p of None \<Rightarrow> Inl (FileNotFoundError (name_of p)) | Some b \<Rightarrow> Inr b)"

section \<open>Transfer events\<close>

type_synonym transfer_fields = "(string \<times> json) list"

definition clock_text :: "int \<Rightarrow> string" where
  "clock_text us =
     (let s = us div 1000000 in
      zfill 2 (s div 3600) @ '':'' @ zfill 2 (s div 60 mod 60) @ '':'' @ zfill 2 (s mod 60) @ ''.'' @ zfill 3 (us div 1000 mod 1000))"

definition utc_text :: "py_datetime \<Rightarrow> py_error + string" where
  "utc_text d =
     (if utc_offset d \<noteq> Some 0 then Inl (ValueError ''transfer timestamps must be UTC'')
      else Inr (iso_date (dt_date d) @ ''T'' @ clock_text (wall_us d mod us_per_day) @ ''Z''))"

text \<open>The text of a stamp known to be in UTC.\<close>

definition utc_text_of :: "py_datetime \<Rightarrow> string" where
  "utc_text_of d = (case utc_text d of Inl _ \<Rightarrow> [] | Inr s \<Rightarrow> s)"

definition transfer_event :: "string \<Rightarrow> py_datetime \<Rightarrow> string \<Rightarrow> transfer_fields \<Rightarrow> transfer_fields" where
  "transfer_event event occurred_at event_id extra =
     [(''event'', JStr event), (''event_id'', JStr event_id), (''occurred_at'', JStr (utc_text_of occurred_at))] @ extra"

section \<open>Hosts\<close>

record disk =
  dk_files :: files
  dk_rejected :: "(path \<times> string \<times> string) list"
  dk_ledger :: "(string, transfer_fields list) dict"
  dk_status :: "transfer_fields option"

text \<open>The changes left before the host dies; \<open>None\<close> for a host that does not.\<close>

record host =
  ho_disk :: disk
  ho_budget :: "nat option"
  ho_alive :: bool

definition mutate :: "(disk \<Rightarrow> disk) \<Rightarrow> host \<Rightarrow> host" where
  "mutate f h =
     (if \<not> ho_alive h then h
      else case ho_budget h of
          None \<Rightarrow> h\<lparr>ho_disk := f (ho_disk h)\<rparr>
        | Some 0 \<Rightarrow> h\<lparr>ho_alive := False\<rparr>
        | Some (Suc n) \<Rightarrow> h\<lparr>ho_disk := f (ho_disk h), ho_budget := Some n\<rparr>)"

definition host_files :: "host \<Rightarrow> files" where
  "host_files h = dk_files (ho_disk h)"

definition put_file :: "path \<Rightarrow> string \<Rightarrow> disk \<Rightarrow> disk" where
  "put_file p b d = d\<lparr>dk_files := dict_set p b (dk_files d)\<rparr>"

definition drop_file :: "path \<Rightarrow> disk \<Rightarrow> disk" where
  "drop_file p d = d\<lparr>dk_files := dict_pop p (dk_files d)\<rparr>"

definition rename_file :: "path \<Rightarrow> path \<Rightarrow> disk \<Rightarrow> disk" where
  "rename_file p q d =
     (case dict_get (dk_files d) p of
        None \<Rightarrow> d
      | Some b \<Rightarrow> d\<lparr>dk_files := dict_set q b (dict_pop p (dk_files d))\<rparr>)"

text \<open>\<open>_quarantine\<close>: the file leaves its directory. The time in the new name keeps the rejected files apart, so they are a list.\<close>

definition reject_file :: "path \<Rightarrow> string \<Rightarrow> disk \<Rightarrow> disk" where
  "reject_file p why d =
     (case dict_get (dk_files d) p of
        None \<Rightarrow> d
      | Some b \<Rightarrow> d\<lparr>dk_files := dict_pop p (dk_files d), dk_rejected := dk_rejected d @ [(p, why, b)]\<rparr>)"

definition set_status :: "transfer_fields \<Rightarrow> disk \<Rightarrow> disk" where
  "set_status s d = d\<lparr>dk_status := Some s\<rparr>"

text \<open>\<open>TransferJournal.append\<close>: the events by their UTC day, one write for a day, in the order of their first event.\<close>

definition occurred_day :: "transfer_fields \<Rightarrow> py_error + string" where
  "occurred_day event =
     (case map_of event ''occurred_at'' of
        Some (JStr s) \<Rightarrow> if length s < 10 then Inl (ValueError ''transfer event requires an ISO UTC occurred_at'') else Inr (take 10 s)
      | _ \<Rightarrow> Inl (ValueError ''transfer event requires an ISO UTC occurred_at''))"

definition group_event :: "(string, transfer_fields list) dict \<Rightarrow> transfer_fields \<Rightarrow> py_error + (string, transfer_fields list) dict" where
  "group_event grouped event =
     rbind (occurred_day event) (\<lambda>day.
     Inr (dict_set day ((case dict_get grouped day of None \<Rightarrow> [] | Some es \<Rightarrow> es) @ [event]) grouped))"

definition append_day :: "string \<times> transfer_fields list \<Rightarrow> disk \<Rightarrow> disk" where
  "append_day = (\<lambda>(day, events) d. d\<lparr>dk_ledger :=
     dict_set day ((case dict_get (dk_ledger d) day of None \<Rightarrow> [] | Some es \<Rightarrow> es) @ events) (dk_ledger d)\<rparr>)"

definition journal_append :: "transfer_fields list \<Rightarrow> host \<Rightarrow> py_error + host" where
  "journal_append events h =
     rbind (fold_result group_event [] events) (\<lambda>grouped. Inr (fold (\<lambda>g. mutate (append_day g)) grouped h))"

section \<open>Facts of hosts\<close>

lemma mutate_keeps:
  assumes "P (ho_disk h)" "\<And>d. P d \<Longrightarrow> P (f d)"
  shows "P (ho_disk (mutate f h))"
  using assms by (auto simp: mutate_def split: option.split nat.split)

lemma mutate_immortal [simp]: "ho_budget h = None \<Longrightarrow> ho_budget (mutate f h) = None"
  by (simp add: mutate_def)

lemma mutate_alive [simp]: "ho_budget h = None \<Longrightarrow> ho_alive (mutate f h) = ho_alive h"
  by (simp add: mutate_def)

lemma mutate_disk [simp]: "ho_budget h = None \<Longrightarrow> ho_alive h \<Longrightarrow> ho_disk (mutate f h) = f (ho_disk h)"
  by (simp add: mutate_def)

lemma mutate_dead [simp]: "\<not> ho_alive h \<Longrightarrow> mutate f h = h"
  by (simp add: mutate_def)

end
