(* ===== verification/Spool.thy ===== *)
theory Spool
  imports Durable_Files
begin

text \<open>
  \<open>src/miry/collector/spool.py\<close>, \<open>SpoolManager\<close>: acknowledged chunks leave the collector. An acknowledgement
  becomes a transaction file, and only transactions delete data. The decoders of the three JSON records
  are parameters; what they yield passes the validators of the contract. Data paths name files.
\<close>

section \<open>Records\<close>

record ack_transaction =
  tx_ack :: ack
  tx_manifest :: chunk_manifest
  tx_accepted_at :: py_datetime

record spool_env =
  se_manifest :: "string \<Rightarrow> py_error + chunk_manifest"
  se_ack :: "string \<Rightarrow> py_error + ack"
  se_transaction :: "string \<Rightarrow> py_error + ack_transaction"
  se_transaction_json :: "ack_transaction \<Rightarrow> string"
  se_repr :: "py_error \<Rightarrow> string"

record spool_status =
  ss_used_bytes :: int
  ss_free_bytes :: int
  ss_hard_limited :: bool

record ack_apply_result =
  ar_seen :: nat
  ar_applied :: nat
  ar_replayed :: nat
  ar_gc_bytes :: int
  ar_invalid :: nat
  ar_hash_mismatches :: nat
  ar_unknown :: nat
  ar_manifest_errors :: nat
  ar_recovered :: nat

definition no_acks :: ack_apply_result where
  "no_acks = \<lparr>ar_seen = 0, ar_applied = 0, ar_replayed = 0, ar_gc_bytes = 0, ar_invalid = 0, ar_hash_mismatches = 0,
     ar_unknown = 0, ar_manifest_errors = 0, ar_recovered = 0\<rparr>"

definition READY_ROOT :: path where "READY_ROOT = [''ready'']"
definition ACK_ROOT :: path where "ACK_ROOT = [''control'', ''acks'']"
definition APPLYING_ROOT :: path where "APPLYING_ROOT = [''control'', ''applying-acks'']"
definition ACKED_ROOT :: path where "ACKED_ROOT = [''control'', ''acked-manifests'']"

definition date_dir :: "utc_date \<Rightarrow> string" where
  "date_dir d = ''date='' @ iso_date d"

definition sealed_path :: "utc_date \<Rightarrow> path" where
  "sealed_path d = READY_ROOT @ [''day-manifests'', date_dir d, ''SEALED.json'']"

definition chunk_path :: "chunk_manifest \<Rightarrow> path" where
  "chunk_path m = READY_ROOT @ path_parts (data_path m)"

definition manifest_path :: "chunk_manifest \<Rightarrow> path" where
  "manifest_path m = with_suffix (chunk_path m) ''.manifest.json''"

definition acked_path :: "chunk_manifest \<Rightarrow> path" where
  "acked_path m = ACKED_ROOT @ [date_dir (cm_utc_date m), name_of (manifest_path m)]"

definition transaction_path :: "string \<Rightarrow> path" where
  "transaction_path chunk = APPLYING_ROOT @ [chunk @ ''.transaction.json'']"

definition path_text :: "path \<Rightarrow> string" where
  "path_text p = concat (map (\<lambda>part. part @ ''/'') (butlast p)) @ name_of p"

definition read_manifest :: "spool_env \<Rightarrow> files \<Rightarrow> path \<Rightarrow> py_error + chunk_manifest" where
  "read_manifest env fs p = rbind (read_bytes fs p) (\<lambda>b. rbind (se_manifest env b) validate_chunk_manifest)"

definition read_ack :: "spool_env \<Rightarrow> files \<Rightarrow> path \<Rightarrow> py_error + ack" where
  "read_ack env fs p = rbind (read_bytes fs p) (\<lambda>b. rbind (se_ack env b) validate_ack)"

definition read_transaction :: "spool_env \<Rightarrow> files \<Rightarrow> path \<Rightarrow> py_error + ack_transaction" where
  "read_transaction env fs p =
     rbind (read_bytes fs p) (\<lambda>b. rbind (se_transaction env b) (\<lambda>t.
     rbind (validate_ack (tx_ack t)) (\<lambda>_. rbind (validate_chunk_manifest (tx_manifest t)) (\<lambda>_. Inr t))))"

text \<open>\<open>status\<close>: \<open>_tree_size\<close> adds the files below a root; the free bytes are those of the volume.\<close>

definition tree_size :: "path \<Rightarrow> files \<Rightarrow> int" where
  "tree_size root_dir fs = sum_list (map (\<lambda>(p, b). if under p root_dir then int (length b) else 0) fs)"

definition status_of :: "int \<Rightarrow> int \<Rightarrow> int \<Rightarrow> files \<Rightarrow> spool_status" where
  "status_of max_size minimum_free free fs =
     (let used = tree_size READY_ROOT fs + tree_size [''writing''] fs in
      \<lparr>ss_used_bytes = used, ss_free_bytes = free, ss_hard_limited = (max_size \<le> used \<or> free < minimum_free)\<rparr>)"

section \<open>Reading manifests\<close>

record apply_run =
  run_id :: string
  run_now :: py_datetime

definition run_event :: "apply_run \<Rightarrow> string \<Rightarrow> string \<Rightarrow> transfer_fields \<Rightarrow> transfer_fields" where
  "run_event r kind subject extra =
     transfer_event kind (run_now r) (run_id r @ '':'' @ subject @ '':'' @ kind) ((''apply_id'', JStr (run_id r)) # extra)"

text \<open>\<open>_rejection_event\<close>\<close>

definition rejection_event :: "apply_run \<Rightarrow> string \<Rightarrow> path \<Rightarrow> transfer_fields \<Rightarrow> transfer_fields" where
  "rejection_event r kind p extra = run_event r kind (name_of p) ((''path'', JStr (path_text p)) # extra)"

definition error_field :: "spool_env \<Rightarrow> py_error \<Rightarrow> string \<times> json" where
  "error_field env e = (''error'', JStr (take 500 (se_repr env e)))"

record ready_scan =
  rs_manifests :: "(string, path \<times> chunk_manifest) dict"
  rs_conflicted :: "string list"
  rs_errors :: nat
  rs_events :: "transfer_fields list"

definition scan_error :: "transfer_fields \<Rightarrow> ready_scan \<Rightarrow> ready_scan" where
  "scan_error event s = s\<lparr>rs_errors := rs_errors s + 1, rs_events := rs_events s @ [event]\<rparr>"

definition scan_ready :: "spool_env \<Rightarrow> apply_run \<Rightarrow> files \<Rightarrow> path \<Rightarrow> ready_scan \<Rightarrow> ready_scan" where
  "scan_ready env r fs p s =
     (case read_manifest env fs p of
        Inl e \<Rightarrow> scan_error (rejection_event r ''READY_MANIFEST_INVALID'' p [error_field env e]) s
      | Inr m \<Rightarrow>
          if p \<noteq> manifest_path m then
            scan_error (rejection_event r ''READY_MANIFEST_MISPLACED'' p
              [(''chunk_id'', JStr (chunk_id m)), (''expected_path'', JStr (path_text (manifest_path m)))]) s
          else if chunk_id m \<in> set (rs_conflicted s) then s
          else case dict_get (rs_manifests s) (chunk_id m) of
              Some (q, existing) \<Rightarrow>
                if existing \<noteq> m then
                  scan_error (run_event r ''READY_MANIFEST_CONFLICT'' (chunk_id m) [(''chunk_id'', JStr (chunk_id m))])
                    (s\<lparr>rs_manifests := dict_pop (chunk_id m) (rs_manifests s), rs_conflicted := chunk_id m # rs_conflicted s\<rparr>)
                else s\<lparr>rs_manifests := dict_set (chunk_id m) (p, m) (rs_manifests s)\<rparr>
            | None \<Rightarrow> s\<lparr>rs_manifests := dict_set (chunk_id m) (p, m) (rs_manifests s)\<rparr>)"

definition ready_manifests :: "spool_env \<Rightarrow> apply_run \<Rightarrow> files \<Rightarrow> ready_scan" where
  "ready_manifests env r fs =
     fold (scan_ready env r fs) (rglob READY_ROOT ''.manifest.json'' fs)
       \<lparr>rs_manifests = [], rs_conflicted = [], rs_errors = 0, rs_events = []\<rparr>"

text \<open>\<open>_acked_manifest\<close>; a conflict ends the search.\<close>

definition acked_candidates :: "string \<Rightarrow> files \<Rightarrow> path list" where
  "acked_candidates chunk fs =
     sort (filter (\<lambda>p. length p = 4 \<and> take 2 p = ACKED_ROOT \<and> take 5 (p ! 2) = ''date='' \<and> p ! 3 = chunk @ ''.manifest.json'')
       (dict_keys fs))"

fun search_acked ::
    "spool_env \<Rightarrow> apply_run \<Rightarrow> files \<Rightarrow> string \<Rightarrow> path list \<Rightarrow> chunk_manifest option \<Rightarrow>
      nat \<Rightarrow> transfer_fields list \<Rightarrow> chunk_manifest option \<times> nat \<times> transfer_fields list" where
  "search_acked env r fs chunk [] found errors events = (found, errors, events)"
| "search_acked env r fs chunk (p # ps) found errors events =
     (case read_manifest env fs p of
        Inl e \<Rightarrow> search_acked env r fs chunk ps found (errors + 1)
          (events @ [rejection_event r ''ACKED_MANIFEST_INVALID'' p [error_field env e]])
      | Inr m \<Rightarrow>
          if p \<noteq> acked_path m then
            search_acked env r fs chunk ps found (errors + 1)
              (events @ [rejection_event r ''ACKED_MANIFEST_MISPLACED'' p
                [(''chunk_id'', JStr (chunk_id m)), (''expected_path'', JStr (path_text (acked_path m)))]])
          else if chunk_id m \<noteq> chunk then
            search_acked env r fs chunk ps found (errors + 1)
              (events @ [run_event r ''ACKED_MANIFEST_ID_MISMATCH'' (name_of p)
                [(''expected_chunk_id'', JStr chunk), (''received_chunk_id'', JStr (chunk_id m)), (''path'', JStr (path_text p))]])
          else if found \<noteq> None \<and> found \<noteq> Some m then
            (None, errors + 1, events @ [run_event r ''ACKED_MANIFEST_CONFLICT'' chunk [(''chunk_id'', JStr chunk)]])
          else search_acked env r fs chunk ps (Some m) errors events)"

definition acked_manifest ::
    "spool_env \<Rightarrow> apply_run \<Rightarrow> files \<Rightarrow> string \<Rightarrow> chunk_manifest option \<times> nat \<times> transfer_fields list" where
  "acked_manifest env r fs chunk = search_acked env r fs chunk (acked_candidates chunk fs) None 0 []"

section \<open>Applying acknowledgements\<close>

record apply_state =
  ap_host :: host
  ap_result :: ack_apply_result
  ap_events :: "transfer_fields list"
  ap_manifests :: "(string, path \<times> chunk_manifest) dict"
  ap_transactions :: "path list"
  ap_completed :: "path list"

definition count_invalid :: "ack_apply_result \<Rightarrow> ack_apply_result" where
  "count_invalid c = c\<lparr>ar_invalid := ar_invalid c + 1\<rparr>"

definition count_mismatch :: "ack_apply_result \<Rightarrow> ack_apply_result" where
  "count_mismatch c = c\<lparr>ar_hash_mismatches := ar_hash_mismatches c + 1\<rparr>"

definition count_unknown :: "ack_apply_result \<Rightarrow> ack_apply_result" where
  "count_unknown c = c\<lparr>ar_unknown := ar_unknown c + 1\<rparr>"

text \<open>A file is counted, reported and quarantined.\<close>

definition reject ::
    "(ack_apply_result \<Rightarrow> ack_apply_result) \<Rightarrow> transfer_fields \<Rightarrow> path \<Rightarrow> string \<Rightarrow> apply_state \<Rightarrow> apply_state" where
  "reject count event p why s =
     s\<lparr>ap_result := count (ap_result s), ap_events := ap_events s @ [event], ap_host := mutate (reject_file p why) (ap_host s)\<rparr>"

definition mismatch_fields :: "string \<Rightarrow> string \<Rightarrow> string \<Rightarrow> transfer_fields" where
  "mismatch_fields chunk expected received =
     [(''chunk_id'', JStr chunk), (''expected_sha256'', JStr expected), (''received_sha256'', JStr received)]"

text \<open>An acknowledgement whose manifest is not ready: a known chunk is acknowledged again, any other is unknown.\<close>

definition apply_absent :: "spool_env \<Rightarrow> apply_run \<Rightarrow> path \<Rightarrow> ack \<Rightarrow> apply_state \<Rightarrow> apply_state" where
  "apply_absent env r p a s =
     (let (known, errors, events) = acked_manifest env r (host_files (ap_host s)) (ack_chunk_id a);
          s1 = s\<lparr>ap_result := (ap_result s)\<lparr>ar_manifest_errors := ar_manifest_errors (ap_result s) + errors\<rparr>,
            ap_events := ap_events s @ events\<rparr> in
      case known of
        None \<Rightarrow> reject count_unknown (rejection_event r ''ACK_UNKNOWN'' p [(''chunk_id'', JStr (ack_chunk_id a))]) p ''unknown'' s1
      | Some m \<Rightarrow>
          if ack_sha256 a \<noteq> chunk_sha256 m then
            reject count_mismatch (rejection_event r ''ACK_HASH_MISMATCH'' p (mismatch_fields (ack_chunk_id a) (chunk_sha256 m) (ack_sha256 a)))
              p ''hash-mismatch'' s1
          else
            s1\<lparr>ap_result := (ap_result s1)\<lparr>ar_replayed := ar_replayed (ap_result s1) + 1\<rparr>,
              ap_events := ap_events s1 @ [run_event r ''ACK_REPLAYED'' (ack_chunk_id a)
                [(''collector_id'', JStr (cm_collector_id m)), (''chunk_id'', JStr (ack_chunk_id a)), (''sha256'', JStr (ack_sha256 a)),
                 (''ack_durable_at'', JStr (utc_text_of (durable_at a)))]],
              ap_host := mutate (drop_file p) (ap_host s1)\<rparr>)"

text \<open>A transaction that is already there must be of the same manifest and acknowledgement.\<close>

definition same_transaction :: "chunk_manifest \<Rightarrow> ack \<Rightarrow> py_error + ack_transaction \<Rightarrow> bool" where
  "same_transaction m a existing =
     (case existing of
        Inl _ \<Rightarrow> False
      | Inr t \<Rightarrow> tx_manifest t = m \<and> ack_chunk_id (tx_ack t) = ack_chunk_id a \<and> ack_sha256 (tx_ack t) = ack_sha256 a)"

definition accept_ack :: "path \<Rightarrow> ack \<Rightarrow> apply_state \<Rightarrow> apply_state" where
  "accept_ack p a s =
     s\<lparr>ap_host := mutate (drop_file p) (ap_host s), ap_manifests := dict_pop (ack_chunk_id a) (ap_manifests s),
       ap_transactions := ap_transactions s @ [transaction_path (ack_chunk_id a)]\<rparr>"

definition apply_known :: "spool_env \<Rightarrow> apply_run \<Rightarrow> path \<Rightarrow> ack \<Rightarrow> chunk_manifest \<Rightarrow> apply_state \<Rightarrow> apply_state" where
  "apply_known env r p a m s =
     (let fs = host_files (ap_host s); tp = transaction_path (ack_chunk_id a) in
      if ack_sha256 a \<noteq> chunk_sha256 m then
        reject count_mismatch (rejection_event r ''ACK_HASH_MISMATCH'' p (mismatch_fields (ack_chunk_id a) (chunk_sha256 m) (ack_sha256 a)))
          p ''hash-mismatch'' s
      else if file_exists fs tp then
        if same_transaction m a (read_transaction env fs tp) then accept_ack p a s
        else reject count_invalid (rejection_event r ''ACK_TRANSACTION_CONFLICT'' p [(''chunk_id'', JStr (ack_chunk_id a))])
          p ''transaction-conflict'' s
      else
        accept_ack p a (s\<lparr>ap_host := mutate (put_file tp
          (se_transaction_json env \<lparr>tx_ack = a, tx_manifest = m, tx_accepted_at = run_now r\<rparr>)) (ap_host s)\<rparr>))"

definition apply_ack :: "spool_env \<Rightarrow> apply_run \<Rightarrow> path \<Rightarrow> apply_state \<Rightarrow> apply_state" where
  "apply_ack env r p s =
     (case read_ack env (host_files (ap_host s)) p of
        Inl e \<Rightarrow> reject count_invalid (rejection_event r ''ACK_INVALID'' p [(''error'', JStr (se_repr env e))]) p ''invalid'' s
      | Inr a \<Rightarrow>
          if name_of p \<noteq> ack_chunk_id a @ ''.ack.json'' then
            reject count_invalid (rejection_event r ''ACK_INVALID'' p
              [(''chunk_id'', JStr (ack_chunk_id a)), (''error'', JStr ''ACK filename does not match chunk_id'')]) p ''invalid-name'' s
          else case dict_get (ap_manifests s) (ack_chunk_id a) of
              None \<Rightarrow> apply_absent env r p a s
            | Some (_, m) \<Rightarrow> apply_known env r p a m s)"

section \<open>Transactions\<close>

text \<open>The chunk leaves the ready directory: its manifest first, which an unsealed day keeps, then its data.\<close>

definition retire_chunk :: "chunk_manifest \<Rightarrow> host \<Rightarrow> host" where
  "retire_chunk m h =
     (let h1 = (if file_exists (host_files h) (manifest_path m) \<and> file_exists (host_files h) (sealed_path (cm_utc_date m)) then
                  mutate (drop_file (manifest_path m)) h
                else if file_exists (host_files h) (manifest_path m) then mutate (rename_file (manifest_path m) (acked_path m)) h
                else h) in
      if file_exists (host_files h1) (chunk_path m) then mutate (drop_file (chunk_path m)) h1 else h1)"

definition gc_fields :: "apply_run \<Rightarrow> ack_transaction \<Rightarrow> transfer_fields" where
  "gc_fields r t =
     (let m = tx_manifest t in
      [(''apply_id'', JStr (run_id r)), (''collector_id'', JStr (cm_collector_id m)), (''chunk_id'', JStr (chunk_id m)),
       (''sha256'', JStr (chunk_sha256 m)), (''size_bytes'', JInt (size_bytes m)), (''utc_date'', JStr (iso_date (cm_utc_date m))),
       (''ack_durable_at'', JStr (utc_text_of (durable_at (tx_ack t))))])"

text \<open>These event ids do not name the run, so a repeated transaction repeats them.\<close>

definition gc_events :: "apply_run \<Rightarrow> bool \<Rightarrow> ack_transaction \<Rightarrow> transfer_fields list" where
  "gc_events r recovered t =
     (let identity = chunk_id (tx_manifest t) @ '':'' @ utc_text_of (durable_at (tx_ack t)) in
      [transfer_event ''ACK_VALIDATED'' (run_now r) (identity @ '':ACK_VALIDATED'') (gc_fields r t),
       transfer_event ''REMOTE_GC'' (run_now r) (identity @ '':REMOTE_GC'') ((''recovered'', JBool recovered) # gc_fields r t)])"

definition apply_transaction :: "spool_env \<Rightarrow> apply_run \<Rightarrow> path \<Rightarrow> apply_state \<Rightarrow> apply_state" where
  "apply_transaction env r p s =
     (let fs = host_files (ap_host s) in
      case read_transaction env fs p of
        Inl e \<Rightarrow> reject count_invalid (rejection_event r ''ACK_TRANSACTION_INVALID'' p [(''error'', JStr (se_repr env e))])
          p ''invalid-transaction'' s
      | Inr t \<Rightarrow>
          let a = tx_ack t; m = tx_manifest t in
          if ack_sha256 a \<noteq> chunk_sha256 m then
            reject count_mismatch (rejection_event r ''ACK_TRANSACTION_HASH_MISMATCH'' p
              (mismatch_fields (ack_chunk_id a) (chunk_sha256 m) (ack_sha256 a))) p ''transaction-hash-mismatch'' s
          else
            let recovered = (\<not> file_exists fs (chunk_path m) \<or> \<not> file_exists fs (manifest_path m)) in
            s\<lparr>ap_host := retire_chunk m (ap_host s),
              ap_result := (ap_result s)\<lparr>ar_applied := ar_applied (ap_result s) + 1,
                ar_gc_bytes := ar_gc_bytes (ap_result s) + size_bytes m,
                ar_recovered := ar_recovered (ap_result s) + (if recovered then 1 else 0)\<rparr>,
              ap_events := ap_events s @ gc_events r recovered t, ap_completed := ap_completed s @ [p]\<rparr>)"

definition transfer_status :: "apply_run \<Rightarrow> apply_state \<Rightarrow> transfer_fields" where
  "transfer_status r s =
     (let c = ap_result s; fs = host_files (ap_host s); num = (\<lambda>n. JInt (int n)) in
      [(''apply_id'', JStr (run_id r)), (''updated_at'', JStr (utc_text_of (run_now r))),
       (''state'', JStr (if ar_invalid c = 0 \<and> ar_hash_mismatches c = 0 \<and> ar_unknown c = 0 \<and> ar_manifest_errors c = 0
          then ''ok'' else ''attention'')),
       (''acks_seen'', num (ar_seen c)), (''acks_applied'', num (ar_applied c)), (''acks_replayed'', num (ar_replayed c)),
       (''gc_bytes'', JInt (ar_gc_bytes c)), (''invalid_acks'', num (ar_invalid c)), (''hash_mismatches'', num (ar_hash_mismatches c)),
       (''unknown_acks'', num (ar_unknown c)), (''manifest_errors'', num (ar_manifest_errors c)),
       (''recovered_transactions'', num (ar_recovered c)), (''acks_pending'', num (length (glob ACK_ROOT ''.ack.json'' fs))),
       (''transactions_pending'', num (length (glob APPLYING_ROOT ''.transaction.json'' fs) - length (ap_completed s))),
       (''ready_manifests_remaining'', num (length (rglob READY_ROOT ''.manifest.json'' fs)))])"

definition start_apply :: "spool_env \<Rightarrow> apply_run \<Rightarrow> path list \<Rightarrow> path list \<Rightarrow> host \<Rightarrow> apply_state" where
  "start_apply env r ack_paths transaction_paths h =
     (let scan = ready_manifests env r (host_files h) in
      \<lparr>ap_host = h, ap_result = no_acks\<lparr>ar_seen := length ack_paths, ar_manifest_errors := rs_errors scan\<rparr>, ap_events = rs_events scan,
        ap_manifests = rs_manifests scan, ap_transactions = transaction_paths, ap_completed = []\<rparr>)"

definition apply_acks :: "spool_env \<Rightarrow> apply_run \<Rightarrow> host \<Rightarrow> py_error + ack_apply_result \<times> host" where
  "apply_acks env r h =
     (let ack_paths = glob ACK_ROOT ''.ack.json'' (host_files h);
          transaction_paths = glob APPLYING_ROOT ''.transaction.json'' (host_files h) in
      if ack_paths = [] \<and> transaction_paths = [] then Inr (no_acks, h)
      else
        let s1 = fold (apply_ack env r) ack_paths (start_apply env r ack_paths transaction_paths h);
            s2 = fold (apply_transaction env r) (sort (remdups (ap_transactions s1))) s1 in
        rbind (journal_append (ap_events s2) (ap_host s2)) (\<lambda>h3.
        let h4 = mutate (set_status (transfer_status r (s2\<lparr>ap_host := h3\<rparr>))) h3 in
        Inr (ap_result s2, fold (\<lambda>p. mutate (drop_file p)) (ap_completed s2) h4)))"

end
