(* ===== verification/Spool_Recovery.thy ===== *)
theory Spool_Recovery
  imports Spool
begin

text \<open>
  What applying acknowledgements amounts to when nothing interrupts it, as a function of the files alone, and
  the proof that a host that dies in the middle, however often, ends with the same files once it completes.
\<close>

section \<open>Parts of a directory tree\<close>

definition only :: "(path \<Rightarrow> bool) \<Rightarrow> files \<Rightarrow> files" where
  "only P fs = filter (\<lambda>kv. P (fst kv)) fs"

lemma only_get: "dict_get (only P fs) p = (if P p then dict_get fs p else None)"
  by (induction fs) (auto simp: only_def dict_get_def)

lemma only_keys: "dict_keys (only P fs) = filter P (dict_keys fs)"
  by (induction fs) (auto simp: only_def dict_keys_def)

lemma only_pop: "only P (dict_pop p fs) = dict_pop p (only P fs)"
  by (simp add: only_def dict_pop_def conj_commute)

lemma pop_absent: "p \<notin> fst ` set fs \<Longrightarrow> dict_pop p fs = fs"
  by (force simp: dict_pop_def filter_id_conv)

lemma only_pop_other: "\<not> P p \<Longrightarrow> only P (dict_pop p fs) = only P fs"
  by (subst only_pop, rule pop_absent) (auto simp: only_def)

lemma only_set: "only P (dict_set p b fs) = (if P p then dict_set p b (only P fs) else only P fs)"
  by (induction fs) (auto simp: only_def)

lemma keys_pop: "dict_keys (dict_pop p fs) = filter (\<lambda>q. q \<noteq> p) (dict_keys fs)"
  by (induction fs) (auto simp: dict_keys_def dict_pop_def)

lemma keys_set_present: "p \<in> set (dict_keys fs) \<Longrightarrow> dict_keys (dict_set p b fs) = dict_keys fs"
  by (induction fs) (force simp: dict_keys_def)+

lemma keys_set_absent: "p \<notin> set (dict_keys fs) \<Longrightarrow> dict_keys (dict_set p b fs) = dict_keys fs @ [p]"
  by (induction fs) (force simp: dict_keys_def)+

lemma pop_set: "p \<noteq> q \<Longrightarrow> dict_pop q (dict_set p b fs) = dict_set p b (dict_pop q fs)"
  by (induction fs) (auto simp: dict_pop_def)

lemma set_set_present: "p \<noteq> q \<Longrightarrow> p \<in> set (dict_keys fs) \<Longrightarrow> dict_set q c (dict_set p b fs) = dict_set p b (dict_set q c fs)"
  by (induction fs) (force simp: dict_keys_def)+

lemma set_twice: "dict_set p b (dict_set p c fs) = dict_set p b fs"
  by (induction fs) auto

lemma exists_iff: "file_exists fs p \<longleftrightarrow> p \<in> set (dict_keys fs)"
  by (simp add: file_exists_def dict_get_None_iff dict_keys_def)

lemma ok_keys: "dict_ok fs \<longleftrightarrow> distinct (dict_keys fs)"
  by (simp add: dict_ok_def dict_keys_def)

definition is_ack :: "path \<Rightarrow> bool" where
  "is_ack p \<longleftrightarrow> p \<noteq> [] \<and> butlast p = ACK_ROOT \<and> ends_with (name_of p) ''.ack.json''"

definition is_txn :: "path \<Rightarrow> bool" where
  "is_txn p \<longleftrightarrow> p \<noteq> [] \<and> butlast p = APPLYING_ROOT \<and> ends_with (name_of p) ''.transaction.json''"

definition stable :: "path \<Rightarrow> bool" where
  "stable p \<longleftrightarrow> \<not> is_ack p \<and> \<not> is_txn p"

definition base :: "files \<Rightarrow> files" where
  "base fs = only stable fs"

lemma glob_acks: "glob ACK_ROOT ''.ack.json'' fs = sort (filter is_ack (dict_keys fs))"
  unfolding glob_def is_ack_def ..

lemma glob_txns: "glob APPLYING_ROOT ''.transaction.json'' fs = sort (filter is_txn (dict_keys fs))"
  unfolding glob_def is_txn_def ..

lemma not_both: "is_ack p \<Longrightarrow> \<not> is_txn p"
  by (auto simp: is_ack_def is_txn_def ACK_ROOT_def APPLYING_ROOT_def)

lemma outside_control:
  assumes "p = [] \<or> hd p \<noteq> ''control'' \<or> take 2 p = ACKED_ROOT"
  shows "stable p"
  using assms by (cases p rule: rev_cases) (auto simp: stable_def is_ack_def is_txn_def ACK_ROOT_def APPLYING_ROOT_def ACKED_ROOT_def)

lemma transaction_path_txn: "is_txn (transaction_path c)"
  by (auto simp: is_txn_def transaction_path_def APPLYING_ROOT_def name_of_def ends_with_def)

lemma transaction_path_eq: "transaction_path c = transaction_path c' \<longleftrightarrow> c = c'"
  by (simp add: transaction_path_def)

lemma txn_not_ack: "\<not> is_ack (transaction_path c)"
  using transaction_path_txn not_both by blast

lemma chunk_path_stable: "stable (chunk_path m)"
  by (rule outside_control) (simp add: chunk_path_def READY_ROOT_def)

lemma manifest_path_head: "hd (manifest_path m) \<noteq> ''control''"
  by (cases "path_parts (data_path m)" rule: rev_cases)
    (auto simp: manifest_path_def with_suffix_def chunk_path_def READY_ROOT_def butlast_append name_of_def hd_append suffix_stem_def)

lemma manifest_path_stable: "stable (manifest_path m)"
  by (rule outside_control) (simp add: manifest_path_head)

lemma acked_path_stable: "stable (acked_path m)"
  by (rule outside_control) (simp add: acked_path_def ACKED_ROOT_def)

lemma acked_path_head: "hd (acked_path m) = ''control''"
  by (simp add: acked_path_def ACKED_ROOT_def)

lemma chunk_path_head: "hd (chunk_path m) = ''ready''"
  by (simp add: chunk_path_def READY_ROOT_def)

section \<open>Lookups\<close>

text \<open>Reading manifests depends on the stable files only, and not on the run.\<close>

lemma read_manifest_base: "stable p \<Longrightarrow> read_manifest env (base fs) p = read_manifest env fs p"
  by (simp add: read_manifest_def read_bytes_def base_def only_get)

lemma ready_stable: "under p READY_ROOT \<Longrightarrow> stable p"
  by (rule outside_control) (cases p; auto simp: under_def READY_ROOT_def)

lemma rglob_base: "rglob READY_ROOT suffix (base fs) = rglob READY_ROOT suffix fs"
  by (auto simp: rglob_def base_def only_keys intro!: filter_cong dest: ready_stable)

definition scan_core :: "ready_scan \<Rightarrow> (string, path \<times> chunk_manifest) dict \<times> string list" where
  "scan_core s = (rs_manifests s, rs_conflicted s)"

lemma scan_error_fields [simp]:
  "rs_manifests (scan_error event s) = rs_manifests s" "rs_conflicted (scan_error event s) = rs_conflicted s"
  by (simp_all add: scan_error_def)

lemma scan_ready_core:
  assumes "scan_core s = scan_core s'" "read_manifest env fs p = read_manifest env fs' p"
  shows "scan_core (scan_ready env r fs p s) = scan_core (scan_ready env r' fs' p s')"
proof -
  have same: "rs_manifests s = rs_manifests s'" "rs_conflicted s = rs_conflicted s'" using assms(1) by (simp_all add: scan_core_def)
  show ?thesis
    unfolding scan_ready_def assms(2) scan_core_def
    by (cases "read_manifest env fs' p") (simp_all add: same split: option.split prod.split)
qed

lemma fold_scan_core:
  assumes "scan_core s = scan_core s'" "\<forall>p \<in> set ps. read_manifest env fs p = read_manifest env fs' p"
  shows "scan_core (fold (scan_ready env r fs) ps s) = scan_core (fold (scan_ready env r' fs') ps s')"
  using assms
proof (induction ps arbitrary: s s')
  case (Cons p ps)
  have "scan_core (scan_ready env r fs p s) = scan_core (scan_ready env r' fs' p s')"
    using Cons.prems by (intro scan_ready_core) simp_all
  from Cons.IH [OF this] Cons.prems(2) show ?case by simp
qed simp

definition ready_lookup :: "spool_env \<Rightarrow> files \<Rightarrow> (string, path \<times> chunk_manifest) dict" where
  "ready_lookup env fs = rs_manifests (ready_manifests env \<lparr>run_id = [], run_now = \<lparr>wall_us = 0, utc_offset = Some 0\<rparr>\<rparr> fs)"

lemma ready_manifests_lookup: "rs_manifests (ready_manifests env r fs) = ready_lookup env (base fs)"
proof -
  have "read_manifest env fs p = read_manifest env (base fs) p" if "p \<in> set (rglob READY_ROOT ''.manifest.json'' fs)" for p
    using that by (intro read_manifest_base [symmetric] ready_stable) (simp add: rglob_def)
  then show ?thesis
    unfolding ready_lookup_def ready_manifests_def rglob_base
    using fold_scan_core [OF refl, of "rglob READY_ROOT ''.manifest.json'' fs" env fs "base fs"]
    by (simp add: scan_core_def)
qed

lemma search_acked_core:
  assumes "\<forall>p \<in> set ps. read_manifest env fs p = read_manifest env fs' p"
  shows "fst (search_acked env r fs c ps found n ev) = fst (search_acked env r' fs' c ps found n' ev')"
  using assms
proof (induction ps arbitrary: found n ev n' ev')
  case (Cons p ps)
  have "read_manifest env fs p = read_manifest env fs' p" using Cons.prems by simp
  then show ?case using Cons.IH Cons.prems by (cases "read_manifest env fs' p") simp_all
qed simp

definition acked_lookup :: "spool_env \<Rightarrow> files \<Rightarrow> string \<Rightarrow> chunk_manifest option" where
  "acked_lookup env fs c = fst (acked_manifest env \<lparr>run_id = [], run_now = \<lparr>wall_us = 0, utc_offset = Some 0\<rparr>\<rparr> fs c)"

lemma acked_candidate_stable: "p \<in> set (acked_candidates c fs) \<Longrightarrow> stable p"
  by (rule outside_control) (simp add: acked_candidates_def)

lemma acked_candidates_base: "acked_candidates c (base fs) = acked_candidates c fs"
  unfolding acked_candidates_def base_def only_keys
  by (auto intro!: arg_cong [of _ _ sort] filter_cong intro: outside_control)

lemma acked_manifest_lookup: "fst (acked_manifest env r fs c) = acked_lookup env (base fs) c"
  unfolding acked_lookup_def acked_manifest_def acked_candidates_base
  by (rule search_acked_core) (auto intro: read_manifest_base [symmetric] dest: acked_candidate_stable)

section \<open>The settled files\<close>

type_synonym rejections = "(path \<times> string \<times> string) list"

datatype ack_verdict = Rejected_As string | Known | New_Transaction ack chunk_manifest

text \<open>What happens to an acknowledgement, given the stable files it is looked up in.\<close>

definition ack_verdict :: "spool_env \<Rightarrow> files \<Rightarrow> files \<Rightarrow> path \<Rightarrow> ack_verdict" where
  "ack_verdict env st fs p =
     (case read_ack env fs p of
        Inl _ \<Rightarrow> Rejected_As ''invalid''
      | Inr a \<Rightarrow>
          if name_of p \<noteq> ack_chunk_id a @ ''.ack.json'' then Rejected_As ''invalid-name''
          else case dict_get (ready_lookup env st) (ack_chunk_id a) of
              None \<Rightarrow>
                (case acked_lookup env st (ack_chunk_id a) of
                   None \<Rightarrow> Rejected_As ''unknown''
                 | Some m \<Rightarrow> if ack_sha256 a \<noteq> chunk_sha256 m then Rejected_As ''hash-mismatch'' else Known)
            | Some (_, m) \<Rightarrow>
                if ack_sha256 a \<noteq> chunk_sha256 m then Rejected_As ''hash-mismatch''
                else if \<not> file_exists fs (transaction_path (ack_chunk_id a)) then New_Transaction a m
                else if same_transaction m a (read_transaction env fs (transaction_path (ack_chunk_id a))) then Known
                else Rejected_As ''transaction-conflict'')"

definition reject_from :: "path \<Rightarrow> string \<Rightarrow> files \<times> rejections \<Rightarrow> files \<times> rejections" where
  "reject_from p why c = (case dict_get (fst c) p of None \<Rightarrow> c | Some b \<Rightarrow> (dict_pop p (fst c), snd c @ [(p, why, b)]))"

definition new_transaction :: "spool_env \<Rightarrow> apply_run \<Rightarrow> ack \<Rightarrow> chunk_manifest \<Rightarrow> string" where
  "new_transaction env r a m = se_transaction_json env \<lparr>tx_ack = a, tx_manifest = m, tx_accepted_at = run_now r\<rparr>"

definition settle_ack :: "spool_env \<Rightarrow> apply_run \<Rightarrow> files \<Rightarrow> path \<Rightarrow> files \<times> rejections \<Rightarrow> files \<times> rejections" where
  "settle_ack env r st p c =
     (case ack_verdict env st (fst c) p of
        Rejected_As why \<Rightarrow> reject_from p why c
      | Known \<Rightarrow> (dict_pop p (fst c), snd c)
      | New_Transaction a m \<Rightarrow> (dict_pop p (dict_set (transaction_path (ack_chunk_id a)) (new_transaction env r a m) (fst c)), snd c))"

text \<open>A transaction names a chunk to retire, or is rejected for a reason.\<close>

definition transaction_view :: "spool_env \<Rightarrow> files \<Rightarrow> path \<Rightarrow> (path \<times> string \<times> string) + chunk_manifest" where
  "transaction_view env fs p =
     (let b = the (dict_get fs p) in
      case read_transaction env fs p of
        Inl _ \<Rightarrow> Inl (p, ''invalid-transaction'', b)
      | Inr t \<Rightarrow>
          if ack_sha256 (tx_ack t) \<noteq> chunk_sha256 (tx_manifest t) then Inl (p, ''transaction-hash-mismatch'', b)
          else Inr (tx_manifest t))"

definition views :: "spool_env \<Rightarrow> files \<Rightarrow> ((path \<times> string \<times> string) + chunk_manifest) list" where
  "views env fs = map (transaction_view env fs) (glob APPLYING_ROOT ''.transaction.json'' fs)"

definition lefts :: "('a + 'b) list \<Rightarrow> 'a list" where
  "lefts xs = concat (map (case_sum (\<lambda>a. [a]) (\<lambda>_. [])) xs)"

definition rights :: "('a + 'b) list \<Rightarrow> 'b list" where
  "rights xs = concat (map (case_sum (\<lambda>_. []) (\<lambda>b. [b])) xs)"

definition retire_manifest :: "chunk_manifest \<Rightarrow> files \<Rightarrow> files" where
  "retire_manifest m fs =
     (case dict_get fs (manifest_path m) of
        None \<Rightarrow> fs
      | Some b \<Rightarrow>
          if file_exists fs (sealed_path (cm_utc_date m)) then dict_pop (manifest_path m) fs
          else dict_set (acked_path m) b (dict_pop (manifest_path m) fs))"

definition retire :: "chunk_manifest \<Rightarrow> files \<Rightarrow> files" where
  "retire m fs = dict_pop (chunk_path m) (retire_manifest m fs)"

definition settle_transactions :: "spool_env \<Rightarrow> files \<times> rejections \<Rightarrow> files \<times> rejections" where
  "settle_transactions env c = (fold retire (rights (views env (fst c))) (base (fst c)), snd c @ lefts (views env (fst c)))"

definition settle :: "spool_env \<Rightarrow> apply_run \<Rightarrow> files \<times> rejections \<Rightarrow> files \<times> rejections" where
  "settle env r c =
     settle_transactions env (fold (settle_ack env r (base (fst c))) (glob ACK_ROOT ''.ack.json'' (fst c)) c)"

definition core_of :: "disk \<Rightarrow> files \<times> rejections" where
  "core_of d = (dk_files d, dk_rejected d)"

section \<open>Retiring a chunk again changes nothing\<close>

lemma sum_parts [simp]: "lefts [] = []" "rights [] = []" "lefts (Inl a # xs) = a # lefts xs" "lefts (Inr b # xs) = lefts xs"
  "rights (Inl a # xs) = rights xs" "rights (Inr b # xs) = b # rights xs"
  by (simp_all add: lefts_def rights_def)

definition retired :: "files \<Rightarrow> chunk_manifest \<Rightarrow> bool" where
  "retired fs m \<longleftrightarrow> dict_get fs (manifest_path m) = None \<and> dict_get fs (chunk_path m) = None"

lemma not_acked: "manifest_path m \<noteq> acked_path m'" "chunk_path m \<noteq> acked_path m'"
  using manifest_path_head [of m] acked_path_head [of m'] chunk_path_head [of m] by auto

lemma retire_manifest_get:
  "hd p \<noteq> ''control'' \<Longrightarrow> dict_get (retire_manifest m fs) p = (if p = manifest_path m then None else dict_get fs p)"
  using acked_path_head [of m] by (auto simp: retire_manifest_def split: option.split)

lemma retire_get: "hd p \<noteq> ''control'' \<Longrightarrow> dict_get (retire m fs) p = (if p \<in> {manifest_path m, chunk_path m} then None else dict_get fs p)"
  by (auto simp: retire_def retire_manifest_get)

lemma retired_retire: "retired (retire m fs) m"
  by (simp add: retired_def retire_get manifest_path_head chunk_path_head)

lemma retired_mono: "retired fs m \<Longrightarrow> retired (retire m' fs) m"
  by (simp add: retired_def retire_get manifest_path_head chunk_path_head)

lemma get_None_pop: "dict_get fs p = None \<Longrightarrow> dict_pop p fs = fs"
  by (rule pop_absent) (simp add: dict_get_None_iff)

lemma retire_retired: "retired fs m \<Longrightarrow> retire m fs = fs"
  by (simp add: retired_def retire_def retire_manifest_def get_None_pop)

lemma retire_again: "retire m (retire_manifest m fs) = retire m fs"
proof -
  have "dict_get (retire_manifest m fs) (manifest_path m) = None" by (simp add: retire_manifest_get manifest_path_head)
  then show ?thesis by (simp add: retire_def retire_manifest_def [of m "retire_manifest m fs"])
qed

lemma fold_retired: "\<forall>m \<in> set ms. retired fs m \<Longrightarrow> fold retire ms fs = fs"
  by (induction ms) (simp_all add: retire_retired)

lemma fold_retire_base: "fold retire ms (base fs) = base (fold retire ms fs)"
proof (induction ms arbitrary: fs)
  case (Cons m ms)
  have "base (retire m fs) = retire m (base fs)"
    by (simp add: base_def retire_def retire_manifest_def only_pop only_set only_get exists_iff only_keys manifest_path_stable
        acked_path_stable outside_control sealed_path_def READY_ROOT_def split: option.split)
  then show ?case using Cons.IH [of "retire m fs"] by simp
qed simp

section \<open>Settling step by step\<close>

lemma base_pop: "\<not> stable p \<Longrightarrow> base (dict_pop p fs) = base fs"
  by (simp add: base_def only_pop_other)

lemma base_set: "\<not> stable p \<Longrightarrow> base (dict_set p b fs) = base fs"
  by (simp add: base_def only_set)

lemma filter_keys_pop: "sort (filter P (dict_keys (dict_pop p fs))) = filter (\<lambda>q. q \<noteq> p) (sort (filter P (dict_keys fs)))"
  unfolding keys_pop by (subst filter_sort) (simp add: conj_commute)

lemma filter_keys_set: "\<not> P p \<Longrightarrow> filter P (dict_keys (dict_set p b fs)) = filter P (dict_keys fs)"
  by (cases "p \<in> set (dict_keys fs)") (simp_all add: keys_set_present keys_set_absent)

lemma glob_pop: "glob dir suffix (dict_pop p fs) = filter (\<lambda>q. q \<noteq> p) (glob dir suffix fs)"
  unfolding glob_def by (rule filter_keys_pop)

lemma glob_distinct: "dict_ok fs \<Longrightarrow> distinct (glob dir suffix fs)"
  by (simp add: glob_def ok_keys)

lemma glob_sorted: "sorted (glob dir suffix fs)"
  by (simp add: glob_def)

lemma glob_in_keys: "p \<in> set (glob dir suffix fs) \<Longrightarrow> dict_get fs p \<noteq> None"
  by (simp add: glob_def dict_get_None_iff dict_keys_def)

lemma pop_head: "p \<notin> set qs \<Longrightarrow> filter (\<lambda>q. q \<noteq> p) qs = qs"
  by (auto simp: filter_id_conv)

lemma acks_ignore_transactions: "glob ACK_ROOT ''.ack.json'' (dict_set (transaction_path c) b fs) = glob ACK_ROOT ''.ack.json'' fs"
  by (simp add: glob_acks filter_keys_set txn_not_ack)

lemma transactions_ignore_acks: "is_ack p \<Longrightarrow> glob APPLYING_ROOT ''.transaction.json'' (dict_pop p fs) = glob APPLYING_ROOT ''.transaction.json'' fs"
  by (auto simp: glob_txns filter_keys_pop not_both intro!: filter_True)

lemma glob_ack_is: "p \<in> set (glob ACK_ROOT ''.ack.json'' fs) \<Longrightarrow> is_ack p"
  by (simp add: glob_acks)

lemma glob_txn_is: "p \<in> set (glob APPLYING_ROOT ''.transaction.json'' fs) \<Longrightarrow> is_txn p"
  by (simp add: glob_txns)

lemma reject_from_present: "dict_get fs p = Some b \<Longrightarrow> reject_from p why (fs, rej) = (dict_pop p fs, rej @ [(p, why, b)])"
  by (simp add: reject_from_def)

text \<open>One acknowledgement leaves the stable files and the others.\<close>

lemma settle_ack_parts:
  assumes "is_ack p" "dict_get fs p \<noteq> None"
  shows "base (fst (settle_ack env r st p (fs, rej))) = base fs"
    and "glob ACK_ROOT ''.ack.json'' (fst (settle_ack env r st p (fs, rej))) = filter (\<lambda>q. q \<noteq> p) (glob ACK_ROOT ''.ack.json'' fs)"
    and "dict_ok fs \<Longrightarrow> dict_ok (fst (settle_ack env r st p (fs, rej)))"
proof -
  obtain b where b: "dict_get fs p = Some b" using assms(2) by blast
  have p: "\<not> stable p" "\<And>c. \<not> stable (transaction_path c)" using assms(1) transaction_path_txn by (simp_all add: stable_def)
  show "base (fst (settle_ack env r st p (fs, rej))) = base fs"
    by (simp add: settle_ack_def reject_from_def b base_pop base_set p split: ack_verdict.split)
  show "glob ACK_ROOT ''.ack.json'' (fst (settle_ack env r st p (fs, rej))) = filter (\<lambda>q. q \<noteq> p) (glob ACK_ROOT ''.ack.json'' fs)"
    by (simp add: settle_ack_def reject_from_def b glob_pop acks_ignore_transactions split: ack_verdict.split)
  show "dict_ok fs \<Longrightarrow> dict_ok (fst (settle_ack env r st p (fs, rej)))"
    by (simp add: settle_ack_def reject_from_def b split: ack_verdict.split)
qed

lemma settle_first_ack:
  assumes "glob ACK_ROOT ''.ack.json'' fs = p # qs" "dict_ok fs"
  shows "settle env r (settle_ack env r (base fs) p (fs, rej)) = settle env r (fs, rej)"
proof -
  have p: "is_ack p" "dict_get fs p \<noteq> None" using glob_ack_is [of p fs] glob_in_keys [of p ACK_ROOT "''.ack.json''" fs] assms(1) by auto
  have "glob ACK_ROOT ''.ack.json'' (fst (settle_ack env r (base fs) p (fs, rej))) = qs"
    unfolding settle_ack_parts(2) [OF p] assms(1) using glob_distinct [OF assms(2), of ACK_ROOT "''.ack.json''"] assms(1) by (simp add: pop_head)
  then show ?thesis by (simp add: settle_def settle_ack_parts(1) [OF p] assms(1))
qed

text \<open>The content of a transaction file matters only through the chunk it names.\<close>

lemma views_other:
  assumes "p \<in> set (dict_keys fs)" "transaction_view env (dict_set p b fs) p = transaction_view env fs p" "is_txn p"
  shows "settle_transactions env (dict_set p b fs, rej) = settle_transactions env (fs, rej)"
proof -
  have keys: "dict_keys (dict_set p b fs) = dict_keys fs" using assms(1) by (rule keys_set_present)
  have "transaction_view env (dict_set p b fs) q = transaction_view env fs q" for q
    using assms(2) by (cases "q = p") (simp_all add: transaction_view_def read_transaction_def read_bytes_def)
  then have "views env (dict_set p b fs) = views env fs" by (simp add: views_def glob_def keys)
  moreover have "base (dict_set p b fs) = base fs" using assms(3) by (simp add: base_set stable_def)
  ultimately show ?thesis by (simp add: settle_transactions_def)
qed

definition ack_path :: "string \<Rightarrow> path" where
  "ack_path c = ACK_ROOT @ [c @ ''.ack.json'']"

lemma named_ack: "is_ack p \<Longrightarrow> name_of p = c @ ''.ack.json'' \<Longrightarrow> p = ack_path c"
  by (metis ack_path_def append_butlast_last_id is_ack_def name_of_def)

lemma settle_ack_commutes:
  assumes "is_ack q" "q \<noteq> ack_path c" "transaction_path c \<in> set (dict_keys fs)" "dict_get fs q \<noteq> None"
  shows "settle_ack env r st q (dict_set (transaction_path c) b fs, rej) =
    apfst (dict_set (transaction_path c) b) (settle_ack env r st q (fs, rej))"
proof -
  let ?tp = "transaction_path c"
  have ne: "q \<noteq> ?tp" using assms(1) txn_not_ack by blast
  have read: "read_ack env (dict_set ?tp b fs) q = read_ack env fs q"
    using ne by (simp add: read_ack_def read_bytes_def)
  obtain bq where bq: "dict_get fs q = Some bq" using assms(4) by blast
  have other: "ack_chunk_id a \<noteq> c" if "name_of q = ack_chunk_id a @ ''.ack.json''" for a
    using named_ack [OF assms(1) that] assms(2) by auto
  have same: "ack_verdict env st (dict_set ?tp b fs) q = ack_verdict env st fs q"
    unfolding ack_verdict_def read
    by (auto simp: file_exists_def read_transaction_def read_bytes_def transaction_path_eq other split: sum.split option.split)
  have new: "ack_verdict env st fs q = New_Transaction a m \<Longrightarrow> ack_chunk_id a \<noteq> c" for a m
    unfolding ack_verdict_def by (auto split: sum.splits option.splits if_splits dest: other)
  show ?thesis
    unfolding settle_ack_def fst_conv same
    using ne new assms(3)
    by (auto simp: reject_from_def bq pop_set transaction_path_eq set_set_present split: ack_verdict.split option.split)
qed

lemma settle_ack_keeps_transaction:
  assumes "is_ack q" "transaction_path c \<in> set (dict_keys fs)"
  shows "transaction_path c \<in> set (dict_keys (fst (settle_ack env r st q (fs, rej))))"
    "q \<noteq> ack_path c \<Longrightarrow> dict_get (fst (settle_ack env r st q (fs, rej))) (transaction_path c) = dict_get fs (transaction_path c)"
proof -
  have "q \<noteq> transaction_path c" using assms(1) txn_not_ack by blast
  then show "transaction_path c \<in> set (dict_keys (fst (settle_ack env r st q (fs, rej))))"
    using assms(2) by (auto simp: settle_ack_def reject_from_def exists_iff [symmetric] file_exists_def split: ack_verdict.split option.split)
  assume "q \<noteq> ack_path c"
  then have new: "ack_verdict env st fs q = New_Transaction a m \<Longrightarrow> ack_chunk_id a \<noteq> c" for a m
    using named_ack [OF assms(1)] unfolding ack_verdict_def by (auto split: sum.splits option.splits if_splits)
  show "dict_get (fst (settle_ack env r st q (fs, rej))) (transaction_path c) = dict_get fs (transaction_path c)"
    using new \<open>q \<noteq> transaction_path c\<close>
    by (auto simp: settle_ack_def reject_from_def transaction_path_eq split: ack_verdict.split option.split)
qed

lemma fold_settle_commutes:
  assumes "\<forall>q \<in> set qs. is_ack q \<and> q \<noteq> ack_path c \<and> dict_get fs q \<noteq> None" "distinct qs" "transaction_path c \<in> set (dict_keys fs)"
  shows "fold (settle_ack env r st) qs (dict_set (transaction_path c) b fs, rej) =
    apfst (dict_set (transaction_path c) b) (fold (settle_ack env r st) qs (fs, rej)) \<and>
    transaction_path c \<in> set (dict_keys (fst (fold (settle_ack env r st) qs (fs, rej)))) \<and>
    dict_get (fst (fold (settle_ack env r st) qs (fs, rej))) (transaction_path c) = dict_get fs (transaction_path c)"
  using assms
proof (induction qs arbitrary: fs rej)
  case (Cons q qs)
  obtain fs' rej' where step: "settle_ack env r st q (fs, rej) = (fs', rej')" by force
  have q: "is_ack q" "q \<noteq> ack_path c" "dict_get fs q \<noteq> None" using Cons.prems by auto
  have keep: "transaction_path c \<in> set (dict_keys fs')" "dict_get fs' (transaction_path c) = dict_get fs (transaction_path c)"
    using settle_ack_keeps_transaction [OF q(1) Cons.prems(3), of env r st rej] q(2) step by simp_all
  have "dict_get fs' q' \<noteq> None" if "q' \<in> set qs" for q'
  proof -
    have "q' \<in> set (glob ACK_ROOT ''.ack.json'' fs)" "q' \<noteq> q"
      using Cons.prems(1,2) that by (auto simp: glob_acks dict_get_None_iff dict_keys_def)
    then have "q' \<in> set (glob ACK_ROOT ''.ack.json'' fs')"
      using settle_ack_parts(2) [OF q(1,3), of env r st rej] step by simp
    then show ?thesis by (rule glob_in_keys)
  qed
  then have "\<forall>q' \<in> set qs. is_ack q' \<and> q' \<noteq> ack_path c \<and> dict_get fs' q' \<noteq> None" using Cons.prems(1) by auto
  from Cons.IH [OF this _ keep(1), of rej'] Cons.prems(2) keep(2) settle_ack_commutes [OF q(1,2) Cons.prems(3) q(3), of env r st b rej] step
  show ?case by simp
qed simp

text \<open>A transaction written by one run is as good as the one a later run would write.\<close>

definition transactions_roundtrip :: "spool_env \<Rightarrow> bool" where
  "transactions_roundtrip env \<longleftrightarrow> (\<forall>a m now x y. se_ack env x = Inr a \<longrightarrow> se_manifest env y = Inr m \<longrightarrow>
     (let t = \<lparr>tx_ack = a, tx_manifest = m, tx_accepted_at = now\<rparr> in se_transaction env (se_transaction_json env t) = Inr t))"

lemma validate_ack_Inr: "validate_ack a = Inr a' \<Longrightarrow> a' = a"
  unfolding validate_ack_def by (simp only: inr_iff sum.inject) auto

lemma validate_chunk_manifest_Inr: "validate_chunk_manifest m = Inr m' \<Longrightarrow> m' = m"
  unfolding validate_chunk_manifest_def by (simp only: inr_iff sum.inject) auto

lemma read_ack_valid: "read_ack env fs p = Inr a \<Longrightarrow> validate_ack a = Inr a"
  by (auto simp: read_ack_def rbind_Inr_iff dest: validate_ack_Inr)

lemma read_manifest_valid: "read_manifest env fs p = Inr m \<Longrightarrow> validate_chunk_manifest m = Inr m"
  by (auto simp: read_manifest_def rbind_Inr_iff dest: validate_chunk_manifest_Inr)

lemma dict_set_get_cases: "dict_get (dict_set k v d) x = Some y \<Longrightarrow> (x = k \<and> y = v) \<or> dict_get d x = Some y"
  by (auto split: if_splits)

lemma scan_ready_sound:
  assumes "\<And>c p m. dict_get (rs_manifests s) c = Some (p, m) \<Longrightarrow> Q c p m"
    and "\<And>p m. p \<in> set (p0 # []) \<Longrightarrow> read_manifest env fs p = Inr m \<Longrightarrow> p = manifest_path m \<Longrightarrow> Q (chunk_id m) p m"
    and "dict_get (rs_manifests (scan_ready env r fs p0 s)) c = Some (p, m)"
  shows "Q c p m"
  using assms
  by (cases "read_manifest env fs p0")
    (auto simp: scan_ready_def split: if_splits option.splits)

lemma fold_scan_sound:
  assumes "\<And>c p m. dict_get (rs_manifests s) c = Some (p, m) \<Longrightarrow> Q c p m"
    and "\<And>p m. p \<in> set ps \<Longrightarrow> read_manifest env fs p = Inr m \<Longrightarrow> p = manifest_path m \<Longrightarrow> Q (chunk_id m) p m"
    and "dict_get (rs_manifests (fold (scan_ready env r fs) ps s)) c = Some (p, m)"
  shows "Q c p m"
  using assms
proof (induction ps arbitrary: s)
  case (Cons p0 ps)
  show ?case
  proof (rule Cons.IH [where s = "scan_ready env r fs p0 s"])
    show "Q c p m" if "dict_get (rs_manifests (scan_ready env r fs p0 s)) c = Some (p, m)" for c p m
      using scan_ready_sound [where Q = Q, OF Cons.prems(1) _ that] Cons.prems(2) by simp
  qed (use Cons.prems in auto)
qed simp

lemma ready_lookup_sound:
  assumes "dict_get (ready_lookup env fs) c = Some (p, m)"
  shows "read_manifest env fs p = Inr m \<and> p = manifest_path m \<and> chunk_id m = c \<and> p \<in> set (rglob READY_ROOT ''.manifest.json'' fs)"
  using fold_scan_sound [where Q = "\<lambda>c p m. read_manifest env fs p = Inr m \<and> p = manifest_path m \<and> chunk_id m = c \<and>
    p \<in> set (rglob READY_ROOT ''.manifest.json'' fs)", OF _ _ assms [unfolded ready_lookup_def ready_manifests_def]]
  by fastforce

lemma new_transaction_view:
  assumes "transactions_roundtrip env" "ack_verdict env st fs p = New_Transaction a m" "dict_get fs' tp = Some (new_transaction env r a m)"
  shows "read_transaction env fs' tp = Inr \<lparr>tx_ack = a, tx_manifest = m, tx_accepted_at = run_now r\<rparr>"
    "transaction_view env fs' tp = Inr m"
proof -
  obtain q where a: "read_ack env fs p = Inr a" "ack_sha256 a = chunk_sha256 m" "dict_get (ready_lookup env st) (ack_chunk_id a) = Some (q, m)"
    using assms(2) unfolding ack_verdict_def by (auto split: sum.splits option.splits if_splits)
  have m: "read_manifest env st (manifest_path m) = Inr m" using ready_lookup_sound [OF a(3)] by auto
  have valid: "validate_ack a = Inr a" "validate_chunk_manifest m = Inr m"
    using read_ack_valid [OF a(1)] read_manifest_valid [OF m] by blast+
  obtain x y where "se_ack env x = Inr a" "se_manifest env y = Inr m"
    using a(1) m by (auto simp: read_ack_def read_manifest_def rbind_Inr_iff dest!: validate_ack_Inr validate_chunk_manifest_Inr)
  then have "se_transaction env (new_transaction env r a m) = Inr \<lparr>tx_ack = a, tx_manifest = m, tx_accepted_at = run_now r\<rparr>"
    using assms(1) unfolding transactions_roundtrip_def new_transaction_def Let_def by blast
  then show "read_transaction env fs' tp = Inr \<lparr>tx_ack = a, tx_manifest = m, tx_accepted_at = run_now r\<rparr>"
    using assms(3) valid by (simp add: read_transaction_def read_bytes_def)
  then show "transaction_view env fs' tp = Inr m" by (simp add: transaction_view_def a(2))
qed

lemma ack_id_of_path: "is_ack p \<Longrightarrow> ack_verdict env st fs p = New_Transaction a m \<Longrightarrow> p = ack_path (ack_chunk_id a)"
  unfolding ack_verdict_def by (auto split: sum.splits option.splits if_splits intro: named_ack)

lemma verdict_after_put:
  assumes "transactions_roundtrip env" "is_ack p" "ack_verdict env st fs p = New_Transaction a m"
  shows "ack_verdict env st (dict_set (transaction_path (ack_chunk_id a)) (new_transaction env r a m) fs) p = Known"
proof -
  let ?tp = "transaction_path (ack_chunk_id a)"
  let ?fs = "dict_set ?tp (new_transaction env r a m) fs"
  have "p \<noteq> ?tp" using assms(2) txn_not_ack by blast
  then have read: "read_ack env ?fs p = read_ack env fs p" by (simp add: read_ack_def read_bytes_def)
  have "read_transaction env ?fs ?tp = Inr \<lparr>tx_ack = a, tx_manifest = m, tx_accepted_at = run_now r\<rparr>"
    using new_transaction_view(1) [OF assms(1,3)] by simp
  then have same: "same_transaction m a (read_transaction env ?fs ?tp)" "file_exists ?fs ?tp"
    by (simp_all add: same_transaction_def file_exists_def)
  show ?thesis
    using assms(3) same unfolding ack_verdict_def read by (auto split: sum.splits option.splits if_splits)
qed

lemma settle_put_transaction:
  assumes "transactions_roundtrip env" "dict_ok fs" "glob ACK_ROOT ''.ack.json'' fs = p # qs"
    "ack_verdict env (base fs) fs p = New_Transaction a m"
  shows "settle env r' (dict_set (transaction_path (ack_chunk_id a)) (new_transaction env r a m) fs, rej) = settle env r' (fs, rej)"
proof -
  let ?c = "ack_chunk_id a"
  let ?tp = "transaction_path ?c"
  let ?b = "new_transaction env r a m" and ?b' = "new_transaction env r' a m"
  let ?fs = "dict_pop p (dict_set ?tp ?b fs)"
  have p: "is_ack p" "p \<noteq> ?tp" using glob_ack_is [of p fs] assms(3) txn_not_ack by auto
  have left: "settle_ack env r' (base fs) p (dict_set ?tp ?b fs, rej) = (?fs, rej)"
    unfolding settle_ack_def fst_conv verdict_after_put [OF assms(1) p(1) assms(4)] by simp
  have right: "settle_ack env r' (base fs) p (fs, rej) = (dict_set ?tp ?b' ?fs, rej)"
    unfolding settle_ack_def fst_conv assms(4) using p(2) by (simp add: pop_set set_twice)
  have in_keys: "?tp \<in> set (dict_keys ?fs)" using p(2) by (simp add: exists_iff [symmetric] file_exists_def)
  have path: "p = ack_path ?c" using ack_id_of_path [OF p(1) assms(4)] .
  have ps: "p \<notin> set qs" "distinct qs" using glob_distinct [OF assms(2), of ACK_ROOT "''.ack.json''"] assms(3) by simp_all
  have "is_ack q \<and> q \<noteq> ack_path ?c \<and> dict_get ?fs q \<noteq> None" if "q \<in> set qs" for q
  proof -
    have "q \<in> set (glob ACK_ROOT ''.ack.json'' fs)" "q \<noteq> p" using that assms(3) ps(1) by auto
    then show ?thesis using glob_ack_is [of q fs] glob_in_keys [of q ACK_ROOT "''.ack.json''" fs] path by simp
  qed
  then have qs: "\<forall>q \<in> set qs. is_ack q \<and> q \<noteq> ack_path ?c \<and> dict_get ?fs q \<noteq> None" by blast
  obtain fe re where fe: "fold (settle_ack env r' (base fs)) qs (?fs, rej) = (fe, re)" by force
  from fold_settle_commutes [OF qs ps(2) in_keys, of env r' "base fs" ?b' rej] fe p(2)
  have all: "fold (settle_ack env r' (base fs)) qs (dict_set ?tp ?b' ?fs, rej) = (dict_set ?tp ?b' fe, re)"
    "?tp \<in> set (dict_keys fe)" "dict_get fe ?tp = Some ?b" by simp_all
  have "transaction_view env fe ?tp = Inr m" "transaction_view env (dict_set ?tp ?b' fe) ?tp = Inr m"
    using new_transaction_view(2) [OF assms(1,4)] all(3) by simp_all
  then have "settle_transactions env (dict_set ?tp ?b' fe, re) = settle_transactions env (fe, re)"
    by (intro views_other [OF all(2)]) (simp_all add: transaction_path_txn)
  then show ?thesis
    using transaction_path_txn [of ?c]
    by (simp add: settle_def acks_ignore_transactions base_set stable_def assms(3) left right fe all(1))
qed

section \<open>Settling the transactions\<close>

lemma settle_without_acks:
  "glob ACK_ROOT ''.ack.json'' (fst c) = [] \<Longrightarrow> settle env r c = settle_transactions env c"
  by (simp add: settle_def)

text \<open>What the transaction loop has done: the chunks of the transactions before the next are retired.\<close>

definition all_done :: "spool_env \<Rightarrow> files \<Rightarrow> path list \<Rightarrow> bool" where
  "all_done env fs done_paths \<longleftrightarrow> (\<forall>p \<in> set done_paths. \<exists>m. transaction_view env fs p = Inr m \<and> retired fs m)"

lemma all_done_views:
  assumes "all_done env fs ps"
  shows "lefts (map (transaction_view env fs) ps) = []" "\<forall>m \<in> set (rights (map (transaction_view env fs) ps)). retired fs m"
  using assms by (induction ps) (auto simp: all_done_def)

lemma parts_append: "lefts (xs @ ys) = lefts xs @ lefts ys" "rights (xs @ ys) = rights xs @ rights ys"
  by (simp_all add: lefts_def rights_def)

lemma retired_base: "retired (base fs) m \<longleftrightarrow> retired fs m"
  by (simp add: retired_def base_def only_get chunk_path_stable manifest_path_stable)

lemma base_retire: "base (retire m fs) = retire m (base fs)"
  using fold_retire_base [of "[m]" fs] by simp

lemma txn_head: "is_txn p \<Longrightarrow> hd p = ''control'' \<and> p \<noteq> acked_path m"
proof -
  assume p: "is_txn p"
  then have "butlast p = [''control'', ''applying-acks'']" by (simp add: is_txn_def APPLYING_ROOT_def)
  then have "p = [''control'', ''applying-acks'', List.last p]" using p by (metis append_butlast_last_id append_Cons append_Nil is_txn_def)
  then show ?thesis using p acked_path_stable [of m] by (metis list.sel(1) stable_def)
qed

lemma txn_not_ready: "is_txn p \<Longrightarrow> p \<noteq> manifest_path m \<and> p \<noteq> chunk_path m \<and> p \<noteq> acked_path m"
  using txn_head [of p m] manifest_path_head [of m] chunk_path_head [of m] by auto

lemma retire_manifest_txn: "is_txn p \<Longrightarrow> dict_get (retire_manifest m fs) p = dict_get fs p"
  using txn_not_ready [of p m] by (simp add: retire_manifest_def split: option.split)

lemma retire_txn: "is_txn p \<Longrightarrow> dict_get (retire m fs) p = dict_get fs p"
  using txn_not_ready [of p m] by (simp add: retire_def retire_manifest_txn)

lemma view_cong: "dict_get fs' p = dict_get fs p \<Longrightarrow> transaction_view env fs' p = transaction_view env fs p"
  by (simp add: transaction_view_def read_transaction_def read_bytes_def)

lemma keys_retire_manifest:
  assumes "\<And>p. P p \<Longrightarrow> p \<noteq> manifest_path m \<and> p \<noteq> acked_path m"
  shows "filter P (dict_keys (retire_manifest m fs)) = filter P (dict_keys fs)"
proof -
  have P: "\<not> P (manifest_path m)" "\<not> P (acked_path m)" using assms by blast+
  have "filter P (dict_keys (dict_pop (manifest_path m) fs)) = filter P (dict_keys fs)"
    unfolding keys_pop filter_filter using P(1) by (intro filter_cong) auto
  then show ?thesis using P by (simp add: retire_manifest_def filter_keys_set split: option.split)
qed

lemma glob_retire_manifest: "glob APPLYING_ROOT ''.transaction.json'' (retire_manifest m fs) = glob APPLYING_ROOT ''.transaction.json'' fs"
    "glob ACK_ROOT ''.ack.json'' (retire_manifest m fs) = glob ACK_ROOT ''.ack.json'' fs"
proof -
  have "is_txn p \<or> is_ack p \<Longrightarrow> p \<noteq> manifest_path m \<and> p \<noteq> acked_path m" for p
    using manifest_path_stable [of m] acked_path_stable [of m] by (auto simp: stable_def)
  then show "glob APPLYING_ROOT ''.transaction.json'' (retire_manifest m fs) = glob APPLYING_ROOT ''.transaction.json'' fs"
    "glob ACK_ROOT ''.ack.json'' (retire_manifest m fs) = glob ACK_ROOT ''.ack.json'' fs"
    by (simp_all add: glob_txns glob_acks keys_retire_manifest)
qed

lemma glob_drop_chunk: "glob APPLYING_ROOT ''.transaction.json'' (dict_pop (chunk_path m) fs) = glob APPLYING_ROOT ''.transaction.json'' fs"
    "glob ACK_ROOT ''.ack.json'' (dict_pop (chunk_path m) fs) = glob ACK_ROOT ''.ack.json'' fs"
  using chunk_path_stable [of m] by (auto simp: glob_pop stable_def glob_txns glob_acks intro!: filter_True)

lemma views_retire:
  "views env (retire_manifest m fs) = views env fs" "views env (retire m fs) = views env fs"
proof -
  have "transaction_view env (retire_manifest m fs) p = transaction_view env fs p"
    "transaction_view env (retire m fs) p = transaction_view env fs p"
    if "p \<in> set (glob APPLYING_ROOT ''.transaction.json'' fs)" for p
    using glob_txn_is [OF that] by (auto intro: view_cong retire_manifest_txn retire_txn)
  then have "map (transaction_view env (retire_manifest m fs)) (glob APPLYING_ROOT ''.transaction.json'' fs) = views env fs"
    "map (transaction_view env (retire m fs)) (glob APPLYING_ROOT ''.transaction.json'' fs) = views env fs"
    by (simp_all add: views_def)
  moreover have "glob APPLYING_ROOT ''.transaction.json'' (retire m fs) = glob APPLYING_ROOT ''.transaction.json'' fs"
    unfolding retire_def glob_drop_chunk glob_retire_manifest ..
  ultimately show "views env (retire_manifest m fs) = views env fs" "views env (retire m fs) = views env fs"
    unfolding views_def [of env "retire_manifest m fs"] views_def [of env "retire m fs"] glob_retire_manifest by simp_all
qed

lemma base_retire_manifest: "base (retire_manifest m fs) = retire_manifest m (base fs)"
  by (simp add: base_def retire_manifest_def only_pop only_set only_get exists_iff only_keys manifest_path_stable
      acked_path_stable outside_control sealed_path_def READY_ROOT_def split: option.split)

lemma retired_retire_manifest: "retired fs m \<Longrightarrow> retired (retire_manifest m' fs) m"
  by (simp add: retired_def retire_manifest_get manifest_path_head chunk_path_head)

text \<open>The next transaction of the loop, after those of \<open>done_paths\<close>.\<close>

lemma settle_next_good:
  assumes "glob APPLYING_ROOT ''.transaction.json'' fs = done_paths @ p # todo" "all_done env fs done_paths"
    and "transaction_view env fs p = Inr m"
  shows "settle_transactions env (retire_manifest m fs, rej) = settle_transactions env (fs, rej)"
    and "settle_transactions env (retire m fs, rej) = settle_transactions env (fs, rej)"
proof -
  have R: "\<forall>m \<in> set (rights (map (transaction_view env fs) done_paths)). retired (base fs) m"
    using all_done_views(2) [OF assms(2)] by (simp add: retired_base)
  have split: "rights (views env fs) = rights (map (transaction_view env fs) done_paths) @ m # rights (map (transaction_view env fs) todo)"
    by (simp add: views_def assms(1,3) parts_append)
  have "fold retire (rights (views env fs)) (retire_manifest m (base fs)) = fold retire (rights (views env fs)) (base fs)"
    "fold retire (rights (views env fs)) (retire m (base fs)) = fold retire (rights (views env fs)) (base fs)"
    using R by (simp_all add: split fold_retired retired_retire_manifest retired_mono retire_again retire_retired retired_retire)
  then show "settle_transactions env (retire_manifest m fs, rej) = settle_transactions env (fs, rej)"
    "settle_transactions env (retire m fs, rej) = settle_transactions env (fs, rej)"
    by (simp_all add: settle_transactions_def views_retire base_retire_manifest base_retire)
qed

lemma views_pop:
  assumes "glob APPLYING_ROOT ''.transaction.json'' fs = done_paths @ p # todo" "dict_ok fs"
  shows "glob APPLYING_ROOT ''.transaction.json'' (dict_pop p fs) = done_paths @ todo"
    and "views env (dict_pop p fs) = map (transaction_view env fs) (done_paths @ todo)"
proof -
  have d: "distinct (done_paths @ p # todo)" using glob_distinct [OF assms(2), of APPLYING_ROOT "''.transaction.json''"] assms(1) by simp
  then show g: "glob APPLYING_ROOT ''.transaction.json'' (dict_pop p fs) = done_paths @ todo"
    by (simp add: glob_pop assms(1) pop_head)
  show "views env (dict_pop p fs) = map (transaction_view env fs) (done_paths @ todo)"
    unfolding views_def g using d by (auto intro!: view_cong)
qed

lemma settle_next_bad:
  assumes "glob APPLYING_ROOT ''.transaction.json'' fs = done_paths @ p # todo" "all_done env fs done_paths" "dict_ok fs"
    and "transaction_view env fs p = Inl x"
  shows "settle_transactions env (dict_pop p fs, rej @ [x]) = settle_transactions env (fs, rej)"
proof -
  have "is_txn p" using glob_txn_is [of p fs] assms(1) by simp
  then have "base (dict_pop p fs) = base fs" by (simp add: base_pop stable_def)
  then show ?thesis
    using all_done_views(1) [OF assms(2)] views_pop(2) [OF assms(1,3), of env]
    by (simp add: settle_transactions_def views_def assms(1,4) parts_append)
qed

lemma settle_all_done:
  assumes "all_done env fs (glob APPLYING_ROOT ''.transaction.json'' fs)"
  shows "settle_transactions env (fs, rej) = (base fs, rej)"
  using all_done_views [OF assms] by (simp add: settle_transactions_def views_def fold_retired retired_base)

section \<open>A run that may be interrupted\<close>

text \<open>Changes of a host as seen by its files and rejections.\<close>

definition host_core :: "host \<Rightarrow> files \<times> rejections" where
  "host_core h = core_of (ho_disk h)"

lemma core_changes:
  "core_of (drop_file p d) = (dict_pop p (dk_files d), dk_rejected d)"
  "core_of (put_file p b d) = (dict_set p b (dk_files d), dk_rejected d)"
  "core_of (reject_file p why d) = reject_from p why (core_of d)"
  "core_of (append_day g d) = core_of d" "core_of (set_status st d) = core_of d"
  by (auto simp: core_of_def drop_file_def put_file_def reject_file_def reject_from_def append_day_def set_status_def
      split: option.split prod.split)

lemma mutate_cases:
  obtains "host_core (mutate f h) = host_core h" "\<not> ho_alive (mutate f h)"
  | "host_core (mutate f h) = core_of (f (ho_disk h))" "ho_alive (mutate f h)" "ho_alive h"
proof (cases "ho_alive (mutate f h)")
  case True
  then show ?thesis using that(2) by (auto simp: mutate_def host_core_def split: if_splits option.splits nat.splits)
next
  case False
  then show ?thesis using that(1) by (auto simp: mutate_def host_core_def split: if_splits option.splits nat.splits)
qed

lemma fold_dead: "(\<And>x h. \<not> ho_alive h \<Longrightarrow> F x h = h) \<Longrightarrow> \<not> ho_alive h \<Longrightarrow> fold F xs h = h"
  by (induction xs arbitrary: h) simp_all

text \<open>The state while the acknowledgements \<open>todo\<close> are still to be read.\<close>

definition acks_left :: "spool_env \<Rightarrow> files \<Rightarrow> path list \<Rightarrow> apply_state \<Rightarrow> bool" where
  "acks_left env st todo s \<longleftrightarrow>
     (let fs = host_files (ap_host s) in
      dict_ok fs \<and> glob ACK_ROOT ''.ack.json'' fs = todo \<and> base fs = st \<and>
      (\<forall>p \<in> set todo. \<forall>c. p = ack_path c \<longrightarrow> dict_get (ap_manifests s) c = dict_get (ready_lookup env st) c) \<and>
      set (ap_transactions s) = set (glob APPLYING_ROOT ''.transaction.json'' fs))"

text \<open>The host of the next state, in terms of the verdict.\<close>

lemma apply_ack_host:
  fixes r :: apply_run
  assumes "\<And>c. p = ack_path c \<Longrightarrow> dict_get (ap_manifests s) c = dict_get (ready_lookup env (base (host_files (ap_host s)))) c"
    and "is_ack p"
  defines "h \<equiv> ap_host s" and "s' \<equiv> apply_ack env r p s"
  shows "case ack_verdict env (base (host_files h)) (host_files h) p of
      Rejected_As why \<Rightarrow> ap_host s' = mutate (reject_file p why) h \<and> ap_manifests s' = ap_manifests s \<and> ap_transactions s' = ap_transactions s
    | Known \<Rightarrow> ap_host s' = mutate (drop_file p) h \<and>
        (\<forall>c. p \<noteq> ack_path c \<longrightarrow> dict_get (ap_manifests s') c = dict_get (ap_manifests s) c) \<and>
        (ap_transactions s' = ap_transactions s \<or>
          (\<exists>c. ap_transactions s' = ap_transactions s @ [transaction_path c] \<and> file_exists (host_files h) (transaction_path c)))
    | New_Transaction a m \<Rightarrow>
        ap_host s' = mutate (drop_file p) (mutate (put_file (transaction_path (ack_chunk_id a)) (new_transaction env r a m)) h) \<and>
        (\<forall>c. p \<noteq> ack_path c \<longrightarrow> dict_get (ap_manifests s') c = dict_get (ap_manifests s) c) \<and>
        ap_transactions s' = ap_transactions s @ [transaction_path (ack_chunk_id a)]"
proof (cases "read_ack env (host_files h) p")
  case (Inl e)
  then show ?thesis by (simp add: ack_verdict_def s'_def apply_ack_def reject_def h_def)
next
  case (Inr a)
  let ?c = "ack_chunk_id a"
  show ?thesis
  proof (cases "name_of p = ?c @ ''.ack.json''")
    case False
    then show ?thesis using Inr by (simp add: ack_verdict_def s'_def apply_ack_def reject_def h_def)
  next
    case True
    then have path: "p = ack_path ?c" using assms(2) by (rule named_ack [rotated])
    then have look: "dict_get (ap_manifests s) ?c = dict_get (ready_lookup env (base (host_files h))) ?c"
      using assms(1) unfolding h_def by blast
    show ?thesis
    proof (cases "dict_get (ready_lookup env (base (host_files h))) ?c")
      case None
      obtain n ev where known: "acked_manifest env r (host_files h) ?c = (acked_lookup env (base (host_files h)) ?c, n, ev)"
        using acked_manifest_lookup [of env r "host_files h" ?c] by (metis prod.collapse)
      have s': "s' = apply_absent env r p a s" using Inr True None look by (simp add: s'_def apply_ack_def h_def)
      show ?thesis
        using Inr True None known unfolding s' ack_verdict_def apply_absent_def
        by (cases "acked_lookup env (base (host_files h)) ?c") (auto simp: reject_def Let_def h_def)
    next
      case (Some qm)
      obtain q m where qm: "qm = (q, m)" by force
      have s': "s' = apply_known env r p a m s" using Inr True Some look qm by (simp add: s'_def apply_ack_def h_def)
      show ?thesis
        using Inr True Some qm path unfolding s' ack_verdict_def apply_known_def
        by (auto simp: reject_def accept_ack_def Let_def h_def new_transaction_def ack_path_def)
    qed
  qed
qed

lemma apply_ack_dead: "\<not> ho_alive (ap_host s) \<Longrightarrow> ap_host (apply_ack env r p s) = ap_host s"
  by (auto simp: apply_ack_def apply_absent_def apply_known_def reject_def accept_ack_def Let_def split: sum.split option.split prod.split)

lemma host_core_eq: "host_core h = (host_files h, dk_rejected (ho_disk h))"
  by (simp add: host_core_def core_of_def host_files_def)

text \<open>A change that takes the acknowledgement out of its directory.\<close>

lemma acks_left_drop:
  assumes "acks_left env st (p # todo) s" "fs' = dict_pop p (host_files (ap_host s))" "host_files (ap_host s') = fs'"
    and "\<forall>c. p \<noteq> ack_path c \<longrightarrow> dict_get (ap_manifests s') c = dict_get (ap_manifests s) c"
    and "set (ap_transactions s') = set (ap_transactions s)"
  shows "acks_left env st todo s'"
proof -
  let ?fs = "host_files (ap_host s)"
  have s: "dict_ok ?fs" "glob ACK_ROOT ''.ack.json'' ?fs = p # todo" "base ?fs = st"
    "\<forall>q \<in> set (p # todo). \<forall>c. q = ack_path c \<longrightarrow> dict_get (ap_manifests s) c = dict_get (ready_lookup env st) c"
    "set (ap_transactions s) = set (glob APPLYING_ROOT ''.transaction.json'' ?fs)"
    using assms(1) by (simp_all add: acks_left_def Let_def)
  have p: "is_ack p" "p \<notin> set todo" using glob_ack_is [of p ?fs] glob_distinct [OF s(1), of ACK_ROOT "''.ack.json''"] s(2) by simp_all
  then have "base fs' = st" "glob ACK_ROOT ''.ack.json'' fs' = todo"
    "glob APPLYING_ROOT ''.transaction.json'' fs' = glob APPLYING_ROOT ''.transaction.json'' ?fs"
    using s(2,3) by (simp_all add: assms(2) base_pop stable_def glob_pop pop_head transactions_ignore_acks [unfolded glob_pop])
  moreover have "dict_get (ap_manifests s') c = dict_get (ready_lookup env st) c" if "ack_path c \<in> set todo" for c
    using s(4) that p(2) assms(4) by auto
  ultimately show ?thesis using s(1,5) assms(2,3,5) by (auto simp: acks_left_def Let_def)
qed

lemma apply_ack_step:
  fixes r :: apply_run
  assumes "transactions_roundtrip env" "settle env r' (host_core (ap_host s)) = R" "ho_alive (ap_host s) \<longrightarrow> acks_left env st (p # todo) s"
  defines "s' \<equiv> apply_ack env r p s"
  shows "settle env r' (host_core (ap_host s')) = R \<and> (ho_alive (ap_host s') \<longrightarrow> acks_left env st todo s')"
proof (cases "ho_alive (ap_host s)")
  case False
  then show ?thesis using assms(2) by (simp add: s'_def apply_ack_dead)
next
  case True
  let ?h = "ap_host s"
  let ?fs = "host_files ?h" and ?rej = "dk_rejected (ho_disk ?h)"
  have s: "acks_left env st (p # todo) s" using True assms(3) by blast
  then have ok: "dict_ok ?fs" "glob ACK_ROOT ''.ack.json'' ?fs = p # todo" "base ?fs = st"
    "\<And>c. p = ack_path c \<Longrightarrow> dict_get (ap_manifests s) c = dict_get (ready_lookup env (base ?fs)) c"
    "set (ap_transactions s) = set (glob APPLYING_ROOT ''.transaction.json'' ?fs)"
    by (auto simp: acks_left_def Let_def)
  have p: "is_ack p" "dict_get ?fs p \<noteq> None"
    using glob_ack_is [of p ?fs] glob_in_keys [of p ACK_ROOT "''.ack.json''" ?fs] ok(2) by auto
  have R: "settle env r' (?fs, ?rej) = R" using assms(2) by (simp add: host_core_eq)
  have first: "settle env r' (settle_ack env r' st p (?fs, ?rej)) = R"
    using settle_first_ack [OF ok(2,1), of env r' ?rej] ok(3) R by simp
  note H = apply_ack_host [where env = env and s = s and p = p and r = r, OF ok(4) p(1), folded s'_def]
  show ?thesis
  proof (cases "ack_verdict env (base ?fs) ?fs p")
    case (Rejected_As why)
    obtain b where b: "dict_get ?fs p = Some b" using p(2) by blast
    have here: "core_of (ho_disk ?h) = (?fs, ?rej)" by (simp add: core_of_def host_files_def)
    have core: "core_of (reject_file p why (ho_disk ?h)) = settle_ack env r' st p (?fs, ?rej)"
      using Rejected_As ok(3) by (simp add: core_changes settle_ack_def here)
    have files: "host_files (ap_host s') = dict_pop p ?fs" if "host_core (ap_host s') = core_of (reject_file p why (ho_disk ?h))"
      using that b by (simp add: core_changes(3) here host_core_eq reject_from_def)
    have host: "ap_host s' = mutate (reject_file p why) ?h" using H Rejected_As by simp
    show ?thesis
    proof (cases rule: mutate_cases [of "reject_file p why" ?h])
      case 1
      then show ?thesis using R by (simp add: host host_core_eq)
    next
      case 2
      then show ?thesis using acks_left_drop [OF s refl files] H Rejected_As first core by (simp add: host)
    qed
  next
    case Known
    have core: "core_of (drop_file p (ho_disk ?h)) = settle_ack env r' st p (?fs, ?rej)"
      using Known ok(3) by (simp add: core_changes settle_ack_def host_files_def)
    have files: "host_files (ap_host s') = dict_pop p ?fs" if "host_core (ap_host s') = core_of (drop_file p (ho_disk ?h))"
      using that by (simp add: core_changes host_core_eq host_files_def)
    have tx: "set (ap_transactions s') = set (ap_transactions s)"
    proof -
      have "transaction_path c \<in> set (ap_transactions s)" if "file_exists ?fs (transaction_path c)" for c
        using that transaction_path_txn [of c] by (simp add: ok(5) glob_txns exists_iff)
      then show ?thesis using H Known by auto
    qed
    have m: "\<forall>c. p \<noteq> ack_path c \<longrightarrow> dict_get (ap_manifests s') c = dict_get (ap_manifests s) c" using H Known by simp
    have host: "ap_host s' = mutate (drop_file p) ?h" using H Known by simp
    show ?thesis
    proof (cases rule: mutate_cases [of "drop_file p" ?h])
      case 1
      then show ?thesis using R by (simp add: host host_core_eq)
    next
      case 2
      then show ?thesis using acks_left_drop [OF s refl files m tx] first core by (simp add: host)
    qed
  next
    case (New_Transaction a m)
    let ?tp = "transaction_path (ack_chunk_id a)" and ?b = "new_transaction env r a m"
    let ?h1 = "mutate (put_file ?tp ?b) ?h"
    have host: "ap_host s' = mutate (drop_file p) ?h1" using H New_Transaction by simp
    have R1: "settle env r' (dict_set ?tp ?b ?fs, ?rej) = R"
      using settle_put_transaction [OF assms(1) ok(1,2) New_Transaction] R by simp
    show ?thesis
    proof (cases rule: mutate_cases [of "put_file ?tp ?b" ?h])
      case 1
      then show ?thesis using R by (simp add: host host_core_eq)
    next
      case 2
      have core1: "host_core ?h1 = (dict_set ?tp ?b ?fs, ?rej)" using 2 by (simp add: core_changes host_files_def)
      then have fs1: "host_files ?h1 = dict_set ?tp ?b ?fs" by (simp add: host_core_eq)
      have absent: "?tp \<notin> set (dict_keys ?fs)"
        using New_Transaction by (auto simp: ack_verdict_def exists_iff split: sum.splits option.splits if_splits)
      let ?s1 = "s\<lparr>ap_host := ?h1, ap_transactions := ap_transactions s'\<rparr>"
      have s1: "acks_left env st (p # todo) ?s1"
        using s H New_Transaction transaction_path_txn [of "ack_chunk_id a"] txn_not_ack [of "ack_chunk_id a"]
        by (auto simp: acks_left_def Let_def fs1 base_set stable_def acks_ignore_transactions glob_txns keys_set_absent [OF absent])
      have glob1: "glob ACK_ROOT ''.ack.json'' (dict_set ?tp ?b ?fs) = p # todo" using ok(2) by (simp add: acks_ignore_transactions)
      have base1: "base (dict_set ?tp ?b ?fs) = st" using ok(3) transaction_path_txn by (simp add: base_set stable_def)
      have "settle_ack env r' st p (dict_set ?tp ?b ?fs, ?rej) = (dict_pop p (dict_set ?tp ?b ?fs), ?rej)"
        using verdict_after_put [OF assms(1) p(1) New_Transaction] ok(3) by (simp add: settle_ack_def)
      then have R2: "settle env r' (dict_pop p (dict_set ?tp ?b ?fs), ?rej) = R"
        using settle_first_ack [OF glob1 dict_ok_set [OF ok(1)], of env r' ?rej] base1 R1 by simp
      show ?thesis
      proof (cases rule: mutate_cases [of "drop_file p" ?h1])
        case 1
        then show ?thesis using R1 core1 by (simp add: host)
      next
        case 2
        have core: "host_core (ap_host s') = (dict_pop p (dict_set ?tp ?b ?fs), ?rej)"
          using 2(1) core1 unfolding host core_changes(1) by (simp add: host_core_eq host_files_def)
        have "acks_left env st todo s'"
          using core H New_Transaction by (intro acks_left_drop [OF s1 refl]) (simp_all add: host_core_eq fs1)
        then show ?thesis using R2 core by simp
      qed
    qed
  qed
qed

lemma apply_acks_phase:
  assumes "transactions_roundtrip env" "settle env r' (host_core (ap_host s)) = R" "ho_alive (ap_host s) \<longrightarrow> acks_left env st ps s"
  shows "settle env r' (host_core (ap_host (fold (apply_ack env r) ps s))) = R \<and>
    (ho_alive (ap_host (fold (apply_ack env r) ps s)) \<longrightarrow> acks_left env st [] (fold (apply_ack env r) ps s))"
  using assms(2,3)
proof (induction ps arbitrary: s)
  case (Cons p ps)
  from apply_ack_step [OF assms(1) Cons.prems, of r] Cons.IH [of "apply_ack env r p s"] show ?case by simp
qed simp

text \<open>The state while the transactions \<open>todo\<close> are still to be applied.\<close>

definition transactions_left :: "spool_env \<Rightarrow> path list \<Rightarrow> apply_state \<Rightarrow> bool" where
  "transactions_left env todo s \<longleftrightarrow>
     (let fs = host_files (ap_host s) in
      dict_ok fs \<and> glob ACK_ROOT ''.ack.json'' fs = [] \<and>
      glob APPLYING_ROOT ''.transaction.json'' fs = ap_completed s @ todo \<and> all_done env fs (ap_completed s))"

lemma apply_transaction_host:
  "case transaction_view env (host_files (ap_host s)) p of
     Inl (q, why, b) \<Rightarrow> q = p \<and> b = the (dict_get (host_files (ap_host s)) p) \<and>
       ap_host (apply_transaction env r p s) = mutate (reject_file p why) (ap_host s) \<and>
       ap_completed (apply_transaction env r p s) = ap_completed s
   | Inr m \<Rightarrow> ap_host (apply_transaction env r p s) = retire_chunk m (ap_host s) \<and>
       ap_completed (apply_transaction env r p s) = ap_completed s @ [p]"
  by (cases "read_transaction env (host_files (ap_host s)) p")
    (simp_all add: transaction_view_def apply_transaction_def Let_def reject_def)

lemma retire_chunk_dead: "\<not> ho_alive h \<Longrightarrow> retire_chunk m h = h"
  by (simp add: retire_chunk_def Let_def)

lemma apply_transaction_dead: "\<not> ho_alive (ap_host s) \<Longrightarrow> ap_host (apply_transaction env r p s) = ap_host s"
  by (auto simp: apply_transaction_def Let_def reject_def retire_chunk_dead split: sum.split)

definition manifest_step :: "chunk_manifest \<Rightarrow> host \<Rightarrow> host" where
  "manifest_step m h =
     (if file_exists (host_files h) (manifest_path m) \<and> file_exists (host_files h) (sealed_path (cm_utc_date m)) then
        mutate (drop_file (manifest_path m)) h
      else if file_exists (host_files h) (manifest_path m) then mutate (rename_file (manifest_path m) (acked_path m)) h
      else h)"

lemma retire_chunk_steps:
  "retire_chunk m h = (let h1 = manifest_step m h in
     if file_exists (host_files h1) (chunk_path m) then mutate (drop_file (chunk_path m)) h1 else h1)"
  by (simp add: retire_chunk_def manifest_step_def)

lemma host_core_fields: "host_core h = (fs, rej) \<longleftrightarrow> host_files h = fs \<and> dk_rejected (ho_disk h) = rej"
  by (simp add: host_core_eq)

lemma manifest_step_core:
  assumes "host_core h = (fs, rej)" "ho_alive h"
  shows "host_core (manifest_step m h) = (fs, rej) \<and> \<not> ho_alive (manifest_step m h) \<or>
    host_core (manifest_step m h) = (retire_manifest m fs, rej) \<and> ho_alive (manifest_step m h)"
proof -
  have d: "dk_files (ho_disk h) = fs" "dk_rejected (ho_disk h) = rej" using assms(1) by (simp_all add: host_core_def core_of_def)
  have fs: "host_files h = fs" using d by (simp add: host_files_def)
  show ?thesis
  proof (cases "dict_get fs (manifest_path m)")
    case None
    then show ?thesis using assms by (simp add: manifest_step_def fs file_exists_def retire_manifest_def)
  next
    case (Some b)
    obtain f where f: "manifest_step m h = mutate f h" "core_of (f (ho_disk h)) = (retire_manifest m fs, rej)"
    proof (cases "file_exists fs (sealed_path (cm_utc_date m))")
      case True
      then have "manifest_step m h = mutate (drop_file (manifest_path m)) h" using Some by (simp add: manifest_step_def fs file_exists_def)
      then show ?thesis using that True Some d by (simp add: core_changes(1) retire_manifest_def)
    next
      case False
      then have "manifest_step m h = mutate (rename_file (manifest_path m) (acked_path m)) h"
        using Some by (simp add: manifest_step_def fs file_exists_def)
      then show ?thesis using that False Some d by (simp add: core_of_def rename_file_def retire_manifest_def)
    qed
    show ?thesis
      unfolding f(1) by (cases rule: mutate_cases [of f h]) (simp_all add: f(2) assms(1))
  qed
qed

lemma retire_chunk_core:
  assumes "host_core h = (fs, rej)" "ho_alive h"
  shows "host_core (retire_chunk m h) = (retire m fs, rej) \<and> ho_alive (retire_chunk m h) \<or>
    host_core (retire_chunk m h) \<in> {(fs, rej), (retire_manifest m fs, rej)} \<and> \<not> ho_alive (retire_chunk m h)"
proof (cases "ho_alive (manifest_step m h)")
  case False
  then have "retire_chunk m h = manifest_step m h" by (simp add: retire_chunk_steps Let_def)
  then show ?thesis using manifest_step_core [OF assms, of m] False by simp
next
  case True
  let ?h = "manifest_step m h"
  have core: "host_core ?h = (retire_manifest m fs, rej)" using manifest_step_core [OF assms, of m] True by simp
  then have fs: "host_files ?h = retire_manifest m fs" "dk_files (ho_disk ?h) = retire_manifest m fs" "dk_rejected (ho_disk ?h) = rej"
    by (simp_all add: host_core_eq host_files_def)
  show ?thesis
  proof (cases "file_exists (host_files ?h) (chunk_path m)")
    case False
    then have "retire m fs = retire_manifest m fs" by (simp add: retire_def fs file_exists_def get_None_pop)
    then show ?thesis using False core True by (simp add: retire_chunk_steps Let_def)
  next
    case True
    then have "retire_chunk m h = mutate (drop_file (chunk_path m)) ?h" by (simp add: retire_chunk_steps Let_def)
    then show ?thesis
      by (cases rule: mutate_cases [of "drop_file (chunk_path m)" ?h]) (simp_all add: core core_changes(1) fs retire_def)
  qed
qed

lemma dict_ok_retire: "dict_ok fs \<Longrightarrow> dict_ok (retire_manifest m fs)" "dict_ok fs \<Longrightarrow> dict_ok (retire m fs)"
  by (auto simp: retire_def retire_manifest_def split: option.split)

lemma apply_transaction_step:
  fixes r :: apply_run
  assumes "settle env r' (host_core (ap_host s)) = R" "ho_alive (ap_host s) \<longrightarrow> transactions_left env (p # todo) s"
  defines "s' \<equiv> apply_transaction env r p s"
  shows "settle env r' (host_core (ap_host s')) = R \<and> (ho_alive (ap_host s') \<longrightarrow> transactions_left env todo s')"
proof (cases "ho_alive (ap_host s)")
  case False
  then show ?thesis using assms(1) by (simp add: s'_def apply_transaction_dead)
next
  case True
  let ?h = "ap_host s"
  let ?fs = "host_files ?h" and ?rej = "dk_rejected (ho_disk ?h)"
  have s: "dict_ok ?fs" "glob ACK_ROOT ''.ack.json'' ?fs = []" "glob APPLYING_ROOT ''.transaction.json'' ?fs = ap_completed s @ p # todo"
    "all_done env ?fs (ap_completed s)"
    using True assms(2) by (simp_all add: transactions_left_def Let_def)
  have R: "settle_transactions env (?fs, ?rej) = R" using assms(1) s(2) by (simp add: host_core_eq settle_without_acks)
  have p: "is_txn p" using glob_txn_is [of p ?fs] s(3) by simp
  have txns: "\<forall>q \<in> set (ap_completed s @ p # todo). is_txn q" using glob_txn_is [of _ ?fs] unfolding s(3) by blast
  note H = apply_transaction_host [where env = env and s = s and p = p and r = r, folded s'_def]
  show ?thesis
  proof (cases "transaction_view env ?fs p")
    case (Inl x)
    obtain why b where x: "x = (p, why, b)" "dict_get ?fs p = Some b"
      using H Inl glob_in_keys [of p APPLYING_ROOT "''.transaction.json''" ?fs] s(3) by (cases x) auto
    have host: "ap_host s' = mutate (reject_file p why) ?h" "ap_completed s' = ap_completed s" using H Inl x by simp_all
    have here: "core_of (ho_disk ?h) = (?fs, ?rej)" by (simp add: core_of_def host_files_def)
    show ?thesis
    proof (cases rule: mutate_cases [of "reject_file p why" ?h])
      case 1
      then show ?thesis using assms(1) by (simp add: host)
    next
      case 2
      then have core: "host_core (ap_host s') = (dict_pop p ?fs, ?rej @ [x])"
        using x by (simp add: host core_changes(3) here reject_from_def)
      then have fs': "host_files (ap_host s') = dict_pop p ?fs" by (simp add: host_core_eq)
      have acks: "glob ACK_ROOT ''.ack.json'' (dict_pop p ?fs) = []" using s(2) by (simp add: glob_pop)
      have "settle env r' (host_core (ap_host s')) = R"
        unfolding core using settle_next_bad [OF s(3,4,1) Inl, of ?rej] R acks by (simp add: settle_without_acks)
      moreover have "all_done env (dict_pop p ?fs) (ap_completed s)"
      proof -
        have ne: "p \<notin> set (ap_completed s)" using glob_distinct [OF s(1), of APPLYING_ROOT "''.transaction.json''"] s(3) by simp
        show ?thesis
          unfolding all_done_def
        proof
          fix q assume q: "q \<in> set (ap_completed s)"
          then obtain m where m: "transaction_view env ?fs q = Inr m" "retired ?fs m" using s(4) by (auto simp: all_done_def)
          have "q \<noteq> p" using q ne by blast
          then have "dict_get (dict_pop p ?fs) q = dict_get ?fs q" by simp
          from view_cong [OF this, of env] have "transaction_view env (dict_pop p ?fs) q = Inr m" using m(1) by simp
          then show "\<exists>m. transaction_view env (dict_pop p ?fs) q = Inr m \<and> retired (dict_pop p ?fs) m"
            using m(2) by (simp add: retired_def)
        qed
      qed
      ultimately show ?thesis
        using s(1) acks views_pop(1) [OF s(3,1)] by (simp add: transactions_left_def fs' host(2) Let_def)
    qed
  next
    case (Inr m)
    have host: "ap_host s' = retire_chunk m ?h" "ap_completed s' = ap_completed s @ [p]" using H Inr by simp_all
    have same: "transaction_view env (retire m ?fs) q = transaction_view env ?fs q" if "is_txn q" for q
      using that by (intro view_cong retire_txn)
    have globs: "glob ACK_ROOT ''.ack.json'' (retire m ?fs) = []" "glob ACK_ROOT ''.ack.json'' (retire_manifest m ?fs) = []"
      "glob APPLYING_ROOT ''.transaction.json'' (retire m ?fs) = ap_completed s @ p # todo"
      using s(2,3) by (simp_all add: retire_def glob_drop_chunk glob_retire_manifest)
    have "host_core ?h = (?fs, ?rej)" by (simp add: host_core_eq)
    from retire_chunk_core [OF this True, of m] show ?thesis
    proof
      assume finished: "host_core (retire_chunk m ?h) = (retire m ?fs, ?rej) \<and> ho_alive (retire_chunk m ?h)"
      then have fs': "host_files (ap_host s') = retire m ?fs" by (simp add: host host_core_eq)
      have "settle env r' (host_core (ap_host s')) = R"
        using finished settle_next_good(2) [OF s(3,4) Inr, of ?rej] R globs by (simp add: host settle_without_acks)
      moreover have "all_done env (retire m ?fs) (ap_completed s @ [p])"
        unfolding all_done_def
      proof
        fix q assume q: "q \<in> set (ap_completed s @ [p])"
        then have "is_txn q" using txns by auto
        then show "\<exists>m'. transaction_view env (retire m ?fs) q = Inr m' \<and> retired (retire m ?fs) m'"
          using q Inr s(4) retired_retire [of m ?fs] retired_mono [of ?fs _ m] by (auto simp: same all_done_def)
      qed
      ultimately show ?thesis
        using dict_ok_retire(2) [OF s(1), of m] globs by (simp add: transactions_left_def fs' host(2) Let_def)
    next
      assume dead: "host_core (retire_chunk m ?h) \<in> {(?fs, ?rej), (retire_manifest m ?fs, ?rej)} \<and> \<not> ho_alive (retire_chunk m ?h)"
      then have "settle_transactions env (host_core (ap_host s')) = R" "glob ACK_ROOT ''.ack.json'' (fst (host_core (ap_host s'))) = []"
        using settle_next_good(1) [OF s(3,4) Inr, of ?rej] R globs s(2) by (auto simp: host)
      then show ?thesis using dead by (simp add: host settle_without_acks)
    qed
  qed
qed

lemma apply_transactions_phase:
  assumes "settle env r' (host_core (ap_host s)) = R" "ho_alive (ap_host s) \<longrightarrow> transactions_left env ps s"
  shows "settle env r' (host_core (ap_host (fold (apply_transaction env r) ps s))) = R \<and>
    (ho_alive (ap_host (fold (apply_transaction env r) ps s)) \<longrightarrow> transactions_left env [] (fold (apply_transaction env r) ps s))"
  using assms
proof (induction ps arbitrary: s)
  case (Cons p ps)
  from apply_transaction_step [OF Cons.prems, of r] Cons.IH [of "apply_transaction env r p s"] show ?case by simp
qed simp

text \<open>The completed transactions are removed last.\<close>

definition removals_left :: "spool_env \<Rightarrow> path list \<Rightarrow> host \<Rightarrow> bool" where
  "removals_left env todo h \<longleftrightarrow>
     (let fs = host_files h in
      dict_ok fs \<and> glob ACK_ROOT ''.ack.json'' fs = [] \<and> glob APPLYING_ROOT ''.transaction.json'' fs = todo \<and> all_done env fs todo)"

lemma removal_step:
  assumes "settle env r' (host_core h) = R" "ho_alive h \<longrightarrow> removals_left env (p # todo) h"
  shows "settle env r' (host_core (mutate (drop_file p) h)) = R \<and>
    (ho_alive (mutate (drop_file p) h) \<longrightarrow> removals_left env todo (mutate (drop_file p) h))"
proof (cases rule: mutate_cases [of "drop_file p" h])
  case 1
  then show ?thesis using assms(1) by simp
next
  case 2
  let ?fs = "host_files h" and ?rej = "dk_rejected (ho_disk h)"
  have h: "dict_ok ?fs" "glob ACK_ROOT ''.ack.json'' ?fs = []" "glob APPLYING_ROOT ''.transaction.json'' ?fs = [] @ p # todo"
    "all_done env ?fs (p # todo)"
    using assms(2) 2(3) by (simp_all add: removals_left_def Let_def)
  have core: "host_core (mutate (drop_file p) h) = (dict_pop p ?fs, ?rej)" using 2(1) by (simp add: core_changes(1) host_files_def)
  then have fs': "host_files (mutate (drop_file p) h) = dict_pop p ?fs" by (simp add: host_core_eq)
  have globs: "glob ACK_ROOT ''.ack.json'' (dict_pop p ?fs) = []" "glob APPLYING_ROOT ''.transaction.json'' (dict_pop p ?fs) = todo"
    using h(2) views_pop(1) [OF h(3,1)] by (simp_all add: glob_pop)
  have ne: "p \<notin> set todo" using glob_distinct [OF h(1), of APPLYING_ROOT "''.transaction.json''"] h(3) by simp
  have rest: "all_done env (dict_pop p ?fs) todo"
    unfolding all_done_def
  proof
    fix q assume q: "q \<in> set todo"
    then obtain m where m: "transaction_view env ?fs q = Inr m" "retired ?fs m" using h(4) by (auto simp: all_done_def)
    have "q \<noteq> p" using q ne by blast
    then have "dict_get (dict_pop p ?fs) q = dict_get ?fs q" by simp
    from view_cong [OF this, of env] have "transaction_view env (dict_pop p ?fs) q = Inr m" using m(1) by simp
    then show "\<exists>m. transaction_view env (dict_pop p ?fs) q = Inr m \<and> retired (dict_pop p ?fs) m" using m(2) by (auto simp: retired_def)
  qed
  have "is_txn p" using glob_txn_is [of p ?fs] h(3) by simp
  then have "base (dict_pop p ?fs) = base ?fs" by (simp add: base_pop stable_def)
  then have "settle_transactions env (dict_pop p ?fs, ?rej) = settle_transactions env (?fs, ?rej)"
    using settle_all_done [of env ?fs] settle_all_done [of env "dict_pop p ?fs"] h(3,4) rest globs by simp
  then have "settle env r' (host_core (mutate (drop_file p) h)) = R"
    using assms(1) h(2) globs(1) unfolding core by (simp add: settle_without_acks host_core_eq)
  then show ?thesis using h(1) globs rest by (simp add: removals_left_def fs' Let_def)
qed

lemma removals_phase:
  assumes "settle env r' (host_core h) = R" "ho_alive h \<longrightarrow> removals_left env ps h"
  shows "settle env r' (host_core (fold (\<lambda>p. mutate (drop_file p)) ps h)) = R \<and>
    (ho_alive (fold (\<lambda>p. mutate (drop_file p)) ps h) \<longrightarrow> removals_left env [] (fold (\<lambda>p. mutate (drop_file p)) ps h))"
  using assms
proof (induction ps arbitrary: h)
  case (Cons p ps)
  from removal_step [OF Cons.prems] Cons.IH [of "mutate (drop_file p) h"] show ?case by simp
qed simp

lemma settled_core:
  assumes "removals_left env [] h"
  shows "settle env r (host_core h) = host_core h"
proof -
  let ?fs = "host_files h"
  have "filter is_ack (dict_keys ?fs) = []" "filter is_txn (dict_keys ?fs) = []"
    using assms unfolding removals_left_def Let_def glob_acks glob_txns by (metis set_empty set_sort)+
  then have "\<forall>kv \<in> set ?fs. stable (fst kv)" unfolding stable_def dict_keys_def filter_empty_conv by simp
  then have "base ?fs = ?fs" by (simp add: base_def only_def)
  then show ?thesis using assms settle_all_done [of env ?fs] by (simp add: removals_left_def Let_def host_core_eq settle_without_acks)
qed

text \<open>The ledger and the status leave the files alone.\<close>

lemma mutate_same_core:
  assumes "\<And>d. core_of (f d) = core_of d"
  shows "host_core (mutate f h) = host_core h"
  using mutate_cases [of f h] assms by (metis host_core_def)

lemma mutate_alive_back: "ho_alive (mutate f h) \<Longrightarrow> ho_alive h"
  by (auto simp: mutate_def split: if_splits)

lemma fold_journal_core:
  "host_core (fold (\<lambda>g. mutate (append_day g)) gs h) = host_core h \<and> (ho_alive (fold (\<lambda>g. mutate (append_day g)) gs h) \<longrightarrow> ho_alive h)"
  by (induction gs arbitrary: h) (auto simp: mutate_same_core core_changes dest: mutate_alive_back)

lemma journal_core:
  assumes "journal_append events h = Inr h'"
  shows "host_core h' = host_core h" "ho_alive h' \<Longrightarrow> ho_alive h"
proof -
  obtain grouped where "h' = fold (\<lambda>g. mutate (append_day g)) grouped h" using assms by (auto simp: journal_append_def rbind_Inr_iff)
  then show "host_core h' = host_core h" "ho_alive h' \<Longrightarrow> ho_alive h" using fold_journal_core by auto
qed

text \<open>Every run, interrupted or not, keeps what the files settle to; one that survives leaves nothing to do.\<close>

lemma apply_acks_settles:
  assumes "transactions_roundtrip env" "dict_ok (host_files h)" "apply_acks env r h = Inr (res, h')" "ho_alive h"
  shows "settle env r' (host_core h') = settle env r' (host_core h) \<and> (ho_alive h' \<longrightarrow> removals_left env [] h')"
proof (cases "glob ACK_ROOT ''.ack.json'' (host_files h) = [] \<and> glob APPLYING_ROOT ''.transaction.json'' (host_files h) = []")
  case True
  then show ?thesis using assms by (simp add: apply_acks_def Let_def removals_left_def all_done_def)
next
  case False
  let ?fs = "host_files h" and ?R = "settle env r' (host_core h)"
  define acks where "acks = glob ACK_ROOT ''.ack.json'' ?fs"
  define s0 where "s0 = start_apply env r acks (glob APPLYING_ROOT ''.transaction.json'' ?fs) h"
  define s1 where "s1 = fold (apply_ack env r) acks s0"
  define s2 where "s2 = fold (apply_transaction env r) (sort (remdups (ap_transactions s1))) s1"
  obtain h3 where h3: "journal_append (ap_events s2) (ap_host s2) = Inr h3"
    "h' = fold (\<lambda>p. mutate (drop_file p)) (ap_completed s2) (mutate (set_status (transfer_status r (s2\<lparr>ap_host := h3\<rparr>))) h3)"
    using assms(3) False unfolding apply_acks_def Let_def acks_def [symmetric] s0_def [symmetric] s1_def [symmetric] s2_def [symmetric]
    by (auto simp: rbind_Inr_iff)
  let ?h4 = "mutate (set_status (transfer_status r (s2\<lparr>ap_host := h3\<rparr>))) h3"
  have host0: "ap_host s0 = h" by (simp add: s0_def start_apply_def Let_def)
  have "acks_left env (base ?fs) acks s0"
    using assms(2) by (simp add: acks_left_def Let_def host0 acks_def s0_def start_apply_def ready_manifests_lookup)
  then have one: "settle env r' (host_core (ap_host s1)) = ?R" "ho_alive (ap_host s1) \<Longrightarrow> acks_left env (base ?fs) [] s1"
    using apply_acks_phase [OF assms(1), of r' s0 ?R "base ?fs" acks r] by (simp_all add: host0 s1_def)
  have empty0: "ap_completed s1 = []"
  proof -
    have "ap_completed (apply_ack env r p s) = ap_completed s" for p s
      by (auto simp: apply_ack_def apply_absent_def apply_known_def reject_def accept_ack_def Let_def split: sum.split option.split prod.split)
    then have "ap_completed (fold (apply_ack env r) ps s) = ap_completed s" for ps s by (induction ps arbitrary: s) simp_all
    then show ?thesis by (simp add: s1_def s0_def start_apply_def Let_def)
  qed
  have "transactions_left env (sort (remdups (ap_transactions s1))) s1" if "ho_alive (ap_host s1)"
  proof -
    let ?fs1 = "host_files (ap_host s1)"
    have a: "dict_ok ?fs1" "glob ACK_ROOT ''.ack.json'' ?fs1 = []" "set (ap_transactions s1) = set (glob APPLYING_ROOT ''.transaction.json'' ?fs1)"
      using one(2) [OF that] by (simp_all add: acks_left_def Let_def)
    have "sort (remdups (ap_transactions s1)) = glob APPLYING_ROOT ''.transaction.json'' ?fs1"
      using a glob_sorted glob_distinct [OF a(1)] by (intro sorted_distinct_set_unique) simp_all
    then show ?thesis using a by (simp add: transactions_left_def Let_def empty0 all_done_def)
  qed
  then have two: "settle env r' (host_core (ap_host s2)) = ?R" "ho_alive (ap_host s2) \<Longrightarrow> transactions_left env [] s2"
    using apply_transactions_phase [OF one(1), of "sort (remdups (ap_transactions s1))" r] by (simp_all add: s2_def)
  have core4: "host_core ?h4 = host_core (ap_host s2)" "ho_alive ?h4 \<Longrightarrow> ho_alive (ap_host s2)"
    using journal_core [OF h3(1)] mutate_alive_back [of "set_status (transfer_status r (s2\<lparr>ap_host := h3\<rparr>))" h3]
      mutate_same_core [of "set_status (transfer_status r (s2\<lparr>ap_host := h3\<rparr>))" h3] core_changes(5) by simp_all
  have "removals_left env (ap_completed s2) ?h4" if "ho_alive ?h4"
  proof -
    have "host_files ?h4 = host_files (ap_host s2)" using core4(1) by (simp add: host_core_eq)
    then show ?thesis using two(2) [OF core4(2) [OF that]] by (simp add: transactions_left_def removals_left_def Let_def)
  qed
  then show ?thesis using removals_phase [of env r' ?h4 ?R "ap_completed s2"] two(1) core4(1) by (simp add: h3(2))
qed

section \<open>Invariants of a run\<close>

text \<open>What a run needs of a property of disks to keep it, however early it ends.\<close>

definition kept_by_runs :: "spool_env \<Rightarrow> files \<Rightarrow> (disk \<Rightarrow> bool) \<Rightarrow> bool" where
  "kept_by_runs env start P \<longleftrightarrow>
     (\<forall>d g. P d \<longrightarrow> P (append_day g d)) \<and> (\<forall>d st. P d \<longrightarrow> P (set_status st d)) \<and>
     (\<forall>d p why. P d \<longrightarrow> \<not> stable p \<longrightarrow> P (reject_file p why d)) \<and> (\<forall>d p. P d \<longrightarrow> \<not> stable p \<longrightarrow> P (drop_file p d)) \<and>
     (\<forall>d p a m r. P d \<longrightarrow> is_ack p \<longrightarrow> read_ack env (dk_files d) p = Inr a \<longrightarrow> read_manifest env start (manifest_path m) = Inr m \<longrightarrow>
       chunk_id m = ack_chunk_id a \<longrightarrow> ack_sha256 a = chunk_sha256 m \<longrightarrow>
       P (put_file (transaction_path (ack_chunk_id a)) (new_transaction env r a m) d)) \<and>
     (\<forall>d p t. P d \<longrightarrow> is_txn p \<longrightarrow> read_transaction env (dk_files d) p = Inr t \<longrightarrow> ack_sha256 (tx_ack t) = chunk_sha256 (tx_manifest t) \<longrightarrow>
       P (drop_file (manifest_path (tx_manifest t)) d) \<and>
       P (rename_file (manifest_path (tx_manifest t)) (acked_path (tx_manifest t)) d) \<and> P (drop_file (chunk_path (tx_manifest t)) d))"

lemma kept_changes:
  assumes "kept_by_runs env start P" "P d"
  shows "P (append_day g d)" "P (set_status st d)" "\<not> stable p \<Longrightarrow> P (reject_file p why d)" "\<not> stable p \<Longrightarrow> P (drop_file p d)"
  using assms unfolding kept_by_runs_def by metis+

lemma kept_put:
  assumes "kept_by_runs env start P" "P d" "is_ack p" "read_ack env (dk_files d) p = Inr a" "read_manifest env start (manifest_path m) = Inr m"
    "chunk_id m = ack_chunk_id a" "ack_sha256 a = chunk_sha256 m"
  shows "P (put_file (transaction_path (ack_chunk_id a)) (new_transaction env r a m) d)"
  using assms unfolding kept_by_runs_def by metis

lemma kept_retire:
  assumes "kept_by_runs env start P" "P d" "is_txn p" "read_transaction env (dk_files d) p = Inr t" "ack_sha256 (tx_ack t) = chunk_sha256 (tx_manifest t)"
  shows "P (drop_file (manifest_path (tx_manifest t)) d)" "P (rename_file (manifest_path (tx_manifest t)) (acked_path (tx_manifest t)) d)"
    "P (drop_file (chunk_path (tx_manifest t)) d)"
  using assms unfolding kept_by_runs_def by metis+

lemma kept_mutate: "P (ho_disk h) \<Longrightarrow> P (f (ho_disk h)) \<Longrightarrow> P (ho_disk (mutate f h))"
  by (auto simp: mutate_def split: option.split nat.split)

definition from_start :: "spool_env \<Rightarrow> files \<Rightarrow> apply_state \<Rightarrow> bool" where
  "from_start env start s \<longleftrightarrow> (\<forall>c q m. dict_get (ap_manifests s) c = Some (q, m) \<longrightarrow>
     chunk_id m = c \<and> read_manifest env start (manifest_path m) = Inr m)"

lemma read_ack_put: "is_ack p \<Longrightarrow> read_ack env (dict_set (transaction_path c) b fs) p = read_ack env fs p"
  using txn_not_ack [of c] by (auto simp: read_ack_def read_bytes_def)

lemma unstable: "is_ack p \<Longrightarrow> \<not> stable p" "is_txn p \<Longrightarrow> \<not> stable p"
  by (simp_all add: stable_def)

lemma kept_hosts:
  assumes "kept_by_runs env start P" "P (ho_disk h)"
  shows "P (ho_disk (mutate (append_day g) h))" "P (ho_disk (mutate (set_status st) h))"
    "\<not> stable p \<Longrightarrow> P (ho_disk (mutate (reject_file p why) h))" "\<not> stable p \<Longrightarrow> P (ho_disk (mutate (drop_file p) h))"
  using kept_mutate [where P = P] assms(2) kept_changes [OF assms] by blast+

lemma apply_ack_keeps:
  assumes "kept_by_runs env start P" "P (ho_disk (ap_host s))" "from_start env start s" "is_ack p"
  shows "P (ho_disk (ap_host (apply_ack env r p s))) \<and> from_start env start (apply_ack env r p s)"
proof (cases "read_ack env (host_files (ap_host s)) p")
  case (Inl e)
  then show ?thesis
    using kept_hosts(3) [OF assms(1,2) unstable(1) [OF assms(4)]] assms(3) by (simp add: apply_ack_def reject_def from_start_def)
next
  case (Inr a)
  note rejects = kept_hosts(3,4) [OF assms(1,2) unstable(1) [OF assms(4)]]
  have other: "P (ho_disk (ap_host (apply_absent env r p a s))) \<and> from_start env start (apply_absent env r p a s)"
    using rejects assms(3) by (simp add: apply_absent_def reject_def Let_def from_start_def split: prod.split option.split)
  show ?thesis
  proof (cases "name_of p = ack_chunk_id a @ ''.ack.json''")
    case False
    then show ?thesis using Inr rejects assms(3) by (simp add: apply_ack_def reject_def from_start_def)
  next
    case name: True
    show ?thesis
    proof (cases "dict_get (ap_manifests s) (ack_chunk_id a)")
      case None
      then show ?thesis using Inr name other by (simp add: apply_ack_def)
    next
      case (Some qm)
      obtain q m where qm: "qm = (q, m)" by force
      have m: "chunk_id m = ack_chunk_id a" "read_manifest env start (manifest_path m) = Inr m"
        using assms(3) Some qm by (auto simp: from_start_def)
      have put: "P (ho_disk (mutate (put_file (transaction_path (ack_chunk_id a)) (new_transaction env r a m)) (ap_host s)))"
        if "ack_sha256 a = chunk_sha256 m"
        using kept_mutate [where P = P, OF assms(2)] kept_put [OF assms(1,2,4) Inr [unfolded host_files_def] m(2,1) that] by blast
      have step: "apply_ack env r p s = apply_known env r p a m s" using Inr Some qm name by (simp add: apply_ack_def)
      have start: "from_start env start (apply_known env r p a m s)"
        using assms(3) by (auto simp: apply_known_def reject_def accept_ack_def Let_def from_start_def)
      have "P (ho_disk (ap_host (apply_known env r p a m s)))"
        using rejects put kept_hosts(4) [OF assms(1) put unstable(1) [OF assms(4)]]
        by (simp add: apply_known_def reject_def accept_ack_def Let_def new_transaction_def)
      then show ?thesis using start by (simp add: step)
    qed
  qed
qed

lemma fold_apply_ack_keeps:
  assumes "kept_by_runs env start P" "P (ho_disk (ap_host s))" "from_start env start s" "\<forall>p \<in> set ps. is_ack p"
  shows "P (ho_disk (ap_host (fold (apply_ack env r) ps s)))"
  using assms(2-4)
proof (induction ps arbitrary: s)
  case (Cons p ps)
  then show ?case using apply_ack_keeps [OF assms(1) Cons.prems(1,2), of p r] by simp
qed simp

lemma retire_chunk_keeps:
  assumes "kept_by_runs env start P" "P (ho_disk h)" "is_txn p" "read_transaction env (host_files h) p = Inr t"
    "ack_sha256 (tx_ack t) = chunk_sha256 (tx_manifest t)"
  shows "P (ho_disk (retire_chunk (tx_manifest t) h))"
proof -
  let ?m = "tx_manifest t"
  have p: "p \<noteq> manifest_path ?m" "p \<noteq> acked_path ?m" using txn_not_ready [OF assms(3), of ?m] by simp_all
  define h1 where "h1 = manifest_step ?m h"
  note kept = kept_retire [OF assms(1) _ assms(3) _ assms(5)]
  have read: "read_transaction env (dk_files (ho_disk h)) p = Inr t" using assms(4) by (simp add: host_files_def)
  have one: "P (ho_disk h1)"
    using kept_mutate [where P = P and h = h] assms(2) kept(1,2) [OF assms(2) read] unfolding h1_def manifest_step_def by simp
  have "dict_get (dk_files (ho_disk h1)) p = dict_get (dk_files (ho_disk h)) p"
    using p unfolding h1_def manifest_step_def
    by (simp add: mutate_def drop_file_def rename_file_def split: option.split nat.split)
  then have "read_transaction env (dk_files (ho_disk h1)) p = Inr t"
    using read by (simp add: read_transaction_def read_bytes_def)
  then have "P (drop_file (chunk_path ?m) (ho_disk h1))" using kept(3) [OF one] by blast
  then show ?thesis
    using kept_mutate [where P = P and h = h1] one by (simp add: retire_chunk_steps h1_def [symmetric] Let_def)
qed

lemma apply_transaction_keeps:
  assumes "kept_by_runs env start P" "P (ho_disk (ap_host s))" "is_txn p"
  shows "P (ho_disk (ap_host (apply_transaction env r p s)))"
proof (cases "read_transaction env (host_files (ap_host s)) p")
  case (Inl e)
  then show ?thesis using kept_hosts(3) [OF assms(1,2) unstable(2) [OF assms(3)]] by (simp add: apply_transaction_def reject_def Let_def)
next
  case (Inr t)
  then show ?thesis
    using kept_hosts(3) [OF assms(1,2) unstable(2) [OF assms(3)]] retire_chunk_keeps [OF assms(1,2,3) Inr]
    by (simp add: apply_transaction_def reject_def Let_def)
qed

lemma apply_acks_quiet:
  "ap_completed (fold (apply_ack env r) ps s) = ap_completed s"
  "\<forall>p \<in> set (ap_transactions s). is_txn p \<Longrightarrow> \<forall>p \<in> set (ap_transactions (fold (apply_ack env r) ps s)). is_txn p"
  "set (ap_completed (fold (apply_transaction env r) ps s)) \<subseteq> set ps \<union> set (ap_completed s)"
proof -
  have one: "ap_completed (apply_ack env r p s) = ap_completed s" for p s
    by (simp add: apply_ack_def apply_absent_def apply_known_def reject_def accept_ack_def Let_def split: sum.split option.split prod.split)
  then show "ap_completed (fold (apply_ack env r) ps s) = ap_completed s" by (induction ps arbitrary: s) simp_all
  have two: "\<forall>p \<in> set (ap_transactions (apply_ack env r q s)). is_txn p" if "\<forall>p \<in> set (ap_transactions s). is_txn p" for q s
    using that transaction_path_txn
    by (simp add: apply_ack_def apply_absent_def apply_known_def reject_def accept_ack_def Let_def split: sum.split option.split prod.split)
  show "\<forall>p \<in> set (ap_transactions s). is_txn p \<Longrightarrow> \<forall>p \<in> set (ap_transactions (fold (apply_ack env r) ps s)). is_txn p"
  proof (induction ps arbitrary: s)
    case (Cons q ps)
    then show ?case using Cons.IH [OF two [OF Cons.prems]] by simp
  qed simp
  have "set (ap_completed (apply_transaction env r p s)) \<subseteq> insert p (set (ap_completed s))" for p s
    by (auto simp: apply_transaction_def reject_def Let_def split: sum.splits)
  then show "set (ap_completed (fold (apply_transaction env r) ps s)) \<subseteq> set ps \<union> set (ap_completed s)"
    by (induction ps arbitrary: s) (simp, fastforce)
qed

lemma apply_acks_keeps:
  assumes "kept_by_runs env (host_files h) P" "P (ho_disk h)" "apply_acks env r h = Inr (res, h')"
  shows "P (ho_disk h')"
proof (cases "glob ACK_ROOT ''.ack.json'' (host_files h) = [] \<and> glob APPLYING_ROOT ''.transaction.json'' (host_files h) = []")
  case True
  then show ?thesis using assms by (simp add: apply_acks_def Let_def)
next
  case False
  let ?fs = "host_files h"
  define acks where "acks = glob ACK_ROOT ''.ack.json'' ?fs"
  define s0 where "s0 = start_apply env r acks (glob APPLYING_ROOT ''.transaction.json'' ?fs) h"
  define s1 where "s1 = fold (apply_ack env r) acks s0"
  define s2 where "s2 = fold (apply_transaction env r) (sort (remdups (ap_transactions s1))) s1"
  obtain h3 where h3: "journal_append (ap_events s2) (ap_host s2) = Inr h3"
    "h' = fold (\<lambda>p. mutate (drop_file p)) (ap_completed s2) (mutate (set_status (transfer_status r (s2\<lparr>ap_host := h3\<rparr>))) h3)"
    using assms(3) False unfolding apply_acks_def Let_def acks_def [symmetric] s0_def [symmetric] s1_def [symmetric] s2_def [symmetric]
    by (auto simp: rbind_Inr_iff)
  have txns: "\<forall>p \<in> set (ap_transactions s1). is_txn p"
    unfolding s1_def by (rule apply_acks_quiet(2)) (simp add: s0_def start_apply_def Let_def glob_txns)
  have "from_start env ?fs s0"
  proof -
    have "chunk_id m = c \<and> read_manifest env ?fs (manifest_path m) = Inr m" if "dict_get (ready_lookup env (base ?fs)) c = Some (q, m)" for c q m
      using ready_lookup_sound [OF that] read_manifest_base [OF manifest_path_stable [of m], of env ?fs] by auto
    then show ?thesis by (auto simp: from_start_def s0_def start_apply_def Let_def ready_manifests_lookup)
  qed
  then have P1: "P (ho_disk (ap_host s1))"
    unfolding s1_def using assms(2) by (intro fold_apply_ack_keeps [OF assms(1)]) (simp_all add: s0_def start_apply_def Let_def acks_def glob_acks)
  have "\<forall>p \<in> set ps. is_txn p \<Longrightarrow> P (ho_disk (ap_host s)) \<Longrightarrow> P (ho_disk (ap_host (fold (apply_transaction env r) ps s)))" for ps s
    by (induction ps arbitrary: s) (simp_all add: apply_transaction_keeps [OF assms(1)])
  then have P2: "P (ho_disk (ap_host s2))" using txns P1 by (simp add: s2_def)
  have "P (ho_disk (fold (\<lambda>g. mutate (append_day g)) gs h0))" if "P (ho_disk h0)" for gs h0
    using that by (induction gs arbitrary: h0) (simp_all add: kept_hosts(1) [OF assms(1)])
  then have P3: "P (ho_disk h3)" using P2 h3(1) by (auto simp: journal_append_def rbind_Inr_iff)
  have "ap_completed s1 = []" by (simp add: s1_def apply_acks_quiet(1) s0_def start_apply_def Let_def)
  then have completed: "\<forall>p \<in> set (ap_completed s2). is_txn p"
    using apply_acks_quiet(3) [of env r "sort (remdups (ap_transactions s1))" s1] txns by (auto simp: s2_def)
  have "P (ho_disk (fold (\<lambda>p. mutate (drop_file p)) ps h0))" if "P (ho_disk h0)" "\<forall>p \<in> set ps. is_txn p" for ps h0
    using that by (induction ps arbitrary: h0) (simp_all add: kept_hosts(4) [OF assms(1)] unstable(2))
  then show ?thesis using completed kept_hosts(2) [OF assms(1) P3] by (simp add: h3(2))
qed

section \<open>A run always returns\<close>

definition dated :: "transfer_fields \<Rightarrow> bool" where
  "dated e \<longleftrightarrow> (\<exists>d. occurred_day e = Inr d)"

lemma length_zfill: "n \<le> length (zfill n i)"
  by (simp add: zfill_def Let_def)

lemma length_iso_date: "10 \<le> length (iso_date d)"
proof -
  obtain y m k where c: "civil d = (y, m, k)" by (cases "civil d")
  show ?thesis using length_zfill [of 4 y] length_zfill [of 2 m] length_zfill [of 2 k] by (simp add: iso_date_def c)
qed

lemma transfer_event_dated:
  assumes "utc_offset now = Some 0"
  shows "dated (transfer_event kind now event_id extra)"
proof -
  have "10 \<le> length (utc_text_of now)" using length_iso_date [of "dt_date now"] assms by (simp add: utc_text_of_def utc_text_def)
  then show ?thesis by (simp add: dated_def occurred_day_def transfer_event_def)
qed

lemma group_dated: "list_all dated events \<Longrightarrow> \<exists>grouped. fold_result group_event g events = Inr grouped"
  by (induction events arbitrary: g) (auto simp: group_event_def dated_def)

lemma journal_append_total: "list_all dated events \<Longrightarrow> \<exists>h'. journal_append events h = Inr h'"
  using group_dated [of events "[]"] by (auto simp: journal_append_def)

lemma run_events_dated:
  assumes "utc_offset (run_now r) = Some 0"
  shows "dated (run_event r kind subject extra)" "dated (rejection_event r kind p extra)"
  by (simp_all add: run_event_def rejection_event_def transfer_event_dated assms)

lemma scan_dated:
  assumes "utc_offset (run_now r) = Some 0"
  shows "list_all dated (rs_events s) \<Longrightarrow> list_all dated (rs_events (fold (scan_ready env r fs) ps s))"
proof (induction ps arbitrary: s)
  case (Cons p ps)
  have "list_all dated (rs_events (scan_ready env r fs p s))"
    using Cons.prems by (cases "read_manifest env fs p")
      (simp_all add: scan_ready_def scan_error_def run_events_dated assms split: option.split prod.split)
  then show ?case using Cons.IH by simp
qed simp

lemma search_dated:
  assumes "utc_offset (run_now r) = Some 0"
  shows "list_all dated ev \<Longrightarrow> list_all dated (snd (snd (search_acked env r fs c ps found n ev)))"
proof (induction ps arbitrary: found n ev)
  case (Cons p ps)
  then show ?case by (cases "read_manifest env fs p") (simp_all add: run_events_dated assms)
qed simp

lemma apply_ack_dated:
  assumes "utc_offset (run_now r) = Some 0" "list_all dated (ap_events s)"
  shows "list_all dated (ap_events (apply_ack env r p s))"
proof (cases "read_ack env (host_files (ap_host s)) p")
  case (Inr a)
  obtain known n ev where known: "acked_manifest env r (host_files (ap_host s)) (ack_chunk_id a) = (known, n, ev)"
    by (cases "acked_manifest env r (host_files (ap_host s)) (ack_chunk_id a)") blast
  have "list_all dated (snd (snd (acked_manifest env r (host_files (ap_host s)) (ack_chunk_id a))))"
    unfolding acked_manifest_def by (rule search_dated [OF assms(1)]) simp
  then have "list_all dated (ap_events (apply_absent env r p a s))"
    using assms by (simp add: apply_absent_def reject_def run_events_dated Let_def known split: option.split)
  moreover have "list_all dated (ap_events (apply_known env r p a m s))" for m
    using assms by (simp add: apply_known_def reject_def accept_ack_def run_events_dated Let_def)
  ultimately show ?thesis
    using Inr assms by (simp add: apply_ack_def reject_def run_events_dated split: option.split prod.split)
qed (use assms in \<open>simp add: apply_ack_def reject_def run_events_dated\<close>)

lemma apply_transaction_dated:
  assumes "utc_offset (run_now r) = Some 0" "list_all dated (ap_events s)"
  shows "list_all dated (ap_events (apply_transaction env r p s))"
  using assms by (cases "read_transaction env (host_files (ap_host s)) p")
    (simp_all add: apply_transaction_def reject_def run_events_dated gc_events_def transfer_event_dated Let_def)

lemma apply_acks_total:
  assumes "utc_offset (run_now r) = Some 0"
  shows "\<exists>res h'. apply_acks env r h = Inr (res, h')"
proof (cases "glob ACK_ROOT ''.ack.json'' (host_files h) = [] \<and> glob APPLYING_ROOT ''.transaction.json'' (host_files h) = []")
  case False
  have "list_all dated (ap_events (fold (apply_ack env r) ps s))" if "list_all dated (ap_events s)" for ps s
    using that
  proof (induction ps arbitrary: s)
    case (Cons p ps)
    show ?case using Cons.IH [OF apply_ack_dated [OF assms Cons.prems]] by simp
  qed simp
  moreover have "list_all dated (ap_events (fold (apply_transaction env r) ps s))" if "list_all dated (ap_events s)" for ps s
    using that
  proof (induction ps arbitrary: s)
    case (Cons p ps)
    show ?case using Cons.IH [OF apply_transaction_dated [OF assms Cons.prems]] by simp
  qed simp
  moreover have "list_all dated (ap_events (start_apply env r ps qs h))" for ps qs
    unfolding start_apply_def ready_manifests_def Let_def apply_state.simps by (rule scan_dated [OF assms]) simp
  ultimately show ?thesis using False journal_append_total unfolding apply_acks_def Let_def by (auto simp: rbind_Inr_iff)
qed (simp add: apply_acks_def Let_def)

section \<open>Properties\<close>

text \<open>A collector that dies in runs of \<open>apply_acks\<close>, each time after some number of changes of its disk.\<close>

definition alive_for :: "nat option \<Rightarrow> disk \<Rightarrow> host" where
  "alive_for budget d = \<lparr>ho_disk = d, ho_budget = budget, ho_alive = True\<rparr>"

inductive interrupted_runs :: "spool_env \<Rightarrow> disk \<Rightarrow> disk \<Rightarrow> bool" for env where
  untouched: "interrupted_runs env d d"
| interrupted: "interrupted_runs env d d1 \<Longrightarrow> apply_acks env r (alive_for budget d1) = Inr (res, h) \<Longrightarrow> interrupted_runs env d (ho_disk h)"

lemma dict_ok_kept: "kept_by_runs env start (\<lambda>d. dict_ok (dk_files d))"
  unfolding kept_by_runs_def
  by (auto simp: append_day_def set_status_def reject_file_def drop_file_def put_file_def rename_file_def split: option.split prod.split)

lemma interrupted_runs_settle:
  assumes "interrupted_runs env d d'" "transactions_roundtrip env" "dict_ok (dk_files d)"
  shows "dict_ok (dk_files d') \<and> settle env r (core_of d') = settle env r (core_of d)"
  using assms(1,3)
proof induction
  case (interrupted d d1 r1 budget res h)
  have ok: "dict_ok (host_files (alive_for budget d1))" using interrupted.IH interrupted.prems by (simp add: alive_for_def host_files_def)
  have "dict_ok (dk_files (ho_disk h))"
    using apply_acks_keeps [where P = "\<lambda>d. dict_ok (dk_files d)", OF dict_ok_kept _ interrupted.hyps(2)] ok by (simp add: alive_for_def host_files_def)
  moreover have "settle env r (host_core h) = settle env r (host_core (alive_for budget d1))"
    using apply_acks_settles [OF assms(2) ok interrupted.hyps(2)] by (simp add: alive_for_def)
  ultimately show ?case using interrupted.IH interrupted.prems by (simp add: host_core_def alive_for_def)
qed simp

lemma immortal_alive: "ho_budget h = None \<Longrightarrow> ho_alive h \<Longrightarrow> apply_acks env r h = Inr (res, h') \<Longrightarrow> ho_alive h'"
proof -
  define P where "P = (\<lambda>h :: host. ho_budget h = None \<and> ho_alive h)"
  have m: "P h \<Longrightarrow> P (mutate f h)" for f h by (simp add: P_def)
  have folds: "P h \<Longrightarrow> P (fold (\<lambda>x. mutate (f x)) xs h)" for f xs h
    by (induction xs arbitrary: h) (simp_all add: m)
  have ack: "P (ap_host s) \<Longrightarrow> P (ap_host (apply_ack env r p s))" for p s
    by (simp add: apply_ack_def apply_absent_def apply_known_def reject_def accept_ack_def Let_def m split: sum.split option.split prod.split)
  have acks: "P (ap_host s) \<Longrightarrow> P (ap_host (fold (apply_ack env r) ps s))" for ps s
    by (induction ps arbitrary: s) (simp_all add: ack)
  have retire: "P h \<Longrightarrow> P (retire_chunk c h)" for c h by (simp add: retire_chunk_def Let_def m)
  have txn: "P (ap_host s) \<Longrightarrow> P (ap_host (apply_transaction env r p s))" for p s
    by (simp add: apply_transaction_def reject_def Let_def m retire split: sum.split)
  have txns: "P (ap_host s) \<Longrightarrow> P (ap_host (fold (apply_transaction env r) ps s))" for ps s
    by (induction ps arbitrary: s) (simp_all add: txn)
  assume "ho_budget h = None" "ho_alive h" and run: "apply_acks env r h = Inr (res, h')"
  then have "P h" by (simp add: P_def)
  then have "P (ap_host (start_apply env r ps qs h))" for ps qs by (simp add: start_apply_def Let_def)
  then have "P h'" using run \<open>P h\<close> unfolding apply_acks_def Let_def journal_append_def
    by (auto simp: rbind_Inr_iff split: if_splits intro!: folds m txns acks)
  then show ?thesis by (simp add: P_def)
qed

text \<open>C24. Applying acknowledgements survives crashes: after any number of runs that died between any two changes of the disk, one
  run that completes leaves exactly the files, and the quarantined files in the same order, that it would have left without
  the crashes; no acknowledgement and no transaction remains, and the run never raises.\<close>

theorem interrupted_apply_recovers:
  assumes "transactions_roundtrip env" "dict_ok (dk_files d)" "interrupted_runs env d d'"
    and "utc_offset (run_now r) = Some 0" "utc_offset (run_now r') = Some 0"
  shows "\<exists>res h res' h'. apply_acks env r (alive_for None d) = Inr (res, h) \<and> apply_acks env r' (alive_for None d') = Inr (res', h') \<and>
    dk_files (ho_disk h') = dk_files (ho_disk h) \<and> dk_rejected (ho_disk h') = dk_rejected (ho_disk h) \<and>
    glob ACK_ROOT ''.ack.json'' (dk_files (ho_disk h')) = [] \<and> glob APPLYING_ROOT ''.transaction.json'' (dk_files (ho_disk h')) = []"
proof -
  obtain res h where h: "apply_acks env r (alive_for None d) = Inr (res, h)" using apply_acks_total [OF assms(4)] by blast
  obtain res' h' where h': "apply_acks env r' (alive_for None d') = Inr (res', h')" using apply_acks_total [OF assms(5)] by blast
  have d': "dict_ok (dk_files d')" "settle env r (core_of d') = settle env r (core_of d)"
    using interrupted_runs_settle [OF assms(3,1,2), of r] by simp_all
  have core: "settle env r (host_core k) = host_core k \<and> settle env r (host_core k) = settle env r (core_of e) \<and> removals_left env [] k"
    if "apply_acks env r1 (alive_for None e) = Inr (res1, k)" "dict_ok (dk_files e)" for r1 e res1 k
  proof -
    have "ho_alive k" using immortal_alive [OF _ _ that(1)] by (simp add: alive_for_def)
    moreover have "dict_ok (host_files (alive_for None e))" using that(2) by (simp add: alive_for_def host_files_def)
    ultimately show ?thesis
      using apply_acks_settles [OF assms(1) _ that(1), of r] settled_core [of env k r] by (simp add: alive_for_def host_core_def)
  qed
  have "host_core h' = host_core h" using core [OF h assms(2)] core [OF h' d'(1)] d'(2) by metis
  moreover have "removals_left env [] h'" using core [OF h' d'(1)] by simp
  ultimately show ?thesis using h h' by (auto simp: host_core_def core_of_def removals_left_def Let_def host_files_def)
qed

text \<open>A chunk whose acknowledgement arrives, on a collector that dies after it has written the transaction.\<close>

definition spool_manifest :: chunk_manifest where
  "spool_manifest = \<lparr>chunk_id = ''chunk-01'', data_path = ''a.parquet'', chunk_sha256 = replicate 64 CHR ''0'', size_bytes = 4,
     chunk_content_type = PARQUET, cm_schema_version = 1, cm_collector_id = ''c'', cm_writer_group = GROUP_DEPTH, cm_utc_date = 0,
     event_count = 1, min_app_receive_realtime_ns = 0, max_app_receive_realtime_ns = 0, data_contract_hash = replicate 64 CHR ''0'',
     cm_universe_hash = replicate 64 CHR ''0'', cm_created_at = \<lparr>wall_us = 0, utc_offset = Some 0\<rparr>\<rparr>"

definition spool_ack :: ack where
  "spool_ack = \<lparr>ack_schema_version = 1, ack_chunk_id = ''chunk-01'', ack_sha256 = replicate 64 CHR ''0'',
     durable_at = \<lparr>wall_us = 0, utc_offset = Some 0\<rparr>\<rparr>"

definition int_text :: "int \<Rightarrow> string" where
  "int_text i = (if i < 0 then CHR ''-'' # replicate (nat (- i)) CHR ''1'' else replicate (nat i) CHR ''1'')"

definition text_int :: "string \<Rightarrow> int" where
  "text_int s = (case s of [] \<Rightarrow> 0 | c # r \<Rightarrow> if c = CHR ''-'' then - int (length r) else int (length s))"

definition stamp_text :: "py_datetime \<Rightarrow> string" where
  "stamp_text d = int_text (wall_us d) @ CHR '';'' # (case utc_offset d of None \<Rightarrow> '';'' | Some off \<Rightarrow> int_text off)"

definition text_stamp :: "string \<Rightarrow> py_datetime" where
  "text_stamp s = (let r = tl (dropWhile (\<lambda>c. c \<noteq> CHR '';'') s) in
     \<lparr>wall_us = text_int (takeWhile (\<lambda>c. c \<noteq> CHR '';'') s), utc_offset = (if r = '';'' then None else Some (text_int r))\<rparr>)"

definition spool_demo_env :: spool_env where
  "spool_demo_env = \<lparr>se_manifest = (\<lambda>b. if b = ''m'' then Inr spool_manifest else Inl (ValueError [])),
     se_ack = (\<lambda>b. if b = ''a'' then Inr spool_ack else Inl (ValueError [])),
     se_transaction = (\<lambda>b. Inr \<lparr>tx_ack = spool_ack, tx_manifest = spool_manifest, tx_accepted_at = text_stamp b\<rparr>),
     se_transaction_json = (\<lambda>t. stamp_text (tx_accepted_at t)), se_repr = (\<lambda>_. [])\<rparr>"

definition spool_demo_disk :: disk where
  "spool_demo_disk = \<lparr>dk_files = [([''ready'', ''a.parquet''], ''data''), ([''ready'', ''a.manifest.json''], ''m''),
     ([''control'', ''acks'', ''chunk-01.ack.json''], ''a'')], dk_rejected = [], dk_ledger = [], dk_status = None\<rparr>"

definition spool_demo_run :: apply_run where
  "spool_demo_run = \<lparr>run_id = ''r'', run_now = \<lparr>wall_us = 0, utc_offset = Some 0\<rparr>\<rparr>"

lemma text_int_text: "text_int (int_text i) = i"
  by (cases "nat i") (auto simp: int_text_def text_int_def)

lemma int_text_chars: "c \<in> set (int_text i) \<Longrightarrow> c \<noteq> CHR '';''"
  by (auto simp: int_text_def split: if_splits)

lemma text_stamp_text: "text_stamp (stamp_text d) = d"
proof -
  have "takeWhile (\<lambda>c. c \<noteq> CHR '';'') (int_text i @ CHR '';'' # r) = int_text i"
    "dropWhile (\<lambda>c. c \<noteq> CHR '';'') (int_text i @ CHR '';'' # r) = CHR '';'' # r" for i r
    using int_text_chars by (simp_all add: takeWhile_append2 dropWhile_append2)
  moreover have "int_text i \<noteq> '';''" for i using int_text_chars [of "CHR '';''" i] by auto
  ultimately show ?thesis by (simp add: text_stamp_def stamp_text_def text_int_text Let_def split: option.split)
qed

lemma spool_demo_roundtrip: "transactions_roundtrip spool_demo_env"
  by (auto simp: transactions_roundtrip_def spool_demo_env_def text_stamp_text split: if_splits)

definition spool_crashed :: disk where
  "spool_crashed = spool_demo_disk\<lparr>dk_files := dk_files spool_demo_disk @ [([''control'', ''applying-acks'', ''chunk-01.transaction.json''], '';'')]\<rparr>"

lemma spool_demo_reads:
  "glob ACK_ROOT ''.ack.json'' (dk_files spool_demo_disk) = [ack_path ''chunk-01'']"
  "glob APPLYING_ROOT ''.transaction.json'' (dk_files spool_demo_disk) = []"
  "rs_manifests (ready_manifests spool_demo_env spool_demo_run (dk_files spool_demo_disk)) = [(''chunk-01'', manifest_path spool_manifest, spool_manifest)]"
  "read_ack spool_demo_env (dk_files spool_demo_disk) (ack_path ''chunk-01'') = Inr spool_ack"
  "dict_get (dk_files spool_demo_disk) (transaction_path ''chunk-01'') = None"
  "dict_set (transaction_path ''chunk-01'') '';'' (dk_files spool_demo_disk) = dk_files spool_crashed"
  "new_transaction spool_demo_env spool_demo_run spool_ack spool_manifest = '';''"
  "name_of (ack_path ''chunk-01'') = ''chunk-01.ack.json''"
  by code_simp+

lemma apply_acks_dies:
  assumes "apply_acks env r h = Inr (res, h')" "glob ACK_ROOT ''.ack.json'' (host_files h) = [p]"
    and "\<not> ho_alive (ap_host (apply_ack env r p (start_apply env r [p] (glob APPLYING_ROOT ''.transaction.json'' (host_files h)) h)))"
  shows "ho_disk h' = ho_disk (ap_host (apply_ack env r p (start_apply env r [p] (glob APPLYING_ROOT ''.transaction.json'' (host_files h)) h)))"
proof -
  define s1 where "s1 = apply_ack env r p (start_apply env r [p] (glob APPLYING_ROOT ''.transaction.json'' (host_files h)) h)"
  have dead: "ap_host (fold (apply_transaction env r) ps s) = ap_host s" if "\<not> ho_alive (ap_host s)" for ps s
    using that by (induction ps arbitrary: s) (simp_all add: apply_transaction_dead)
  have same: "fold (\<lambda>x. mutate (f x)) xs k = k" if "\<not> ho_alive k" for f xs k
    using that by (induction xs) simp_all
  show ?thesis
    using assms(1,3) unfolding apply_acks_def Let_def assms(2) journal_append_def
    by (auto simp: rbind_Inr_iff s1_def [symmetric] dead same)
qed

lemma spool_demo_crash:
  assumes "apply_acks spool_demo_env spool_demo_run (alive_for (Some 1) spool_demo_disk) = Inr (res, h)"
  shows "ho_disk h = spool_crashed"
proof -
  let ?p = "ack_path ''chunk-01''"
  let ?s = "apply_ack spool_demo_env spool_demo_run ?p (start_apply spool_demo_env spool_demo_run [?p] [] (alive_for (Some 1) spool_demo_disk))"
  have ack: "ack_chunk_id spool_ack = ''chunk-01''" "ack_sha256 spool_ack = chunk_sha256 spool_manifest"
    by (simp_all add: spool_ack_def spool_manifest_def)
  have files: "dk_files (put_file (transaction_path ''chunk-01'') '';'' spool_demo_disk) = dk_files spool_crashed" 
    by (simp add: put_file_def spool_demo_reads(6))
  then have "put_file (transaction_path ''chunk-01'') '';'' spool_demo_disk = spool_crashed"
    by (simp add: put_file_def spool_crashed_def spool_demo_reads(6))
  then have "ap_host ?s = \<lparr>ho_disk = spool_crashed, ho_budget = Some 0, ho_alive = False\<rparr>"
    by (simp add: apply_ack_def start_apply_def alive_for_def host_files_def Let_def spool_demo_reads dict_get_def apply_known_def ack
        file_exists_def [of _ "transaction_path ''chunk-01''"] new_transaction_def [symmetric] accept_ack_def mutate_def
        spool_demo_reads(5) [unfolded dict_get_def])
  then show ?thesis
    using apply_acks_dies [OF assms, of ?p] by (simp add: alive_for_def host_files_def spool_demo_reads(1,2))
qed

theorem interrupted_apply_recovers_witness:
  "\<exists>res h res' h'. apply_acks spool_demo_env spool_demo_run (alive_for None spool_demo_disk) = Inr (res, h) \<and>
    apply_acks spool_demo_env spool_demo_run (alive_for None spool_crashed) = Inr (res', h') \<and>
    dk_files (ho_disk h') = dk_files (ho_disk h) \<and> dk_rejected (ho_disk h') = dk_rejected (ho_disk h) \<and>
    glob ACK_ROOT ''.ack.json'' (dk_files (ho_disk h')) = [] \<and> glob APPLYING_ROOT ''.transaction.json'' (dk_files (ho_disk h')) = []"
proof -
  have now: "utc_offset (run_now spool_demo_run) = Some 0" by (simp add: spool_demo_run_def)
  obtain res h where run: "apply_acks spool_demo_env spool_demo_run (alive_for (Some 1) spool_demo_disk) = Inr (res, h)"
    using apply_acks_total [OF now] by blast
  have "interrupted_runs spool_demo_env spool_demo_disk spool_crashed"
    using interrupted [OF untouched run] by (simp add: spool_demo_crash [OF run])
  moreover have "dict_ok (dk_files spool_demo_disk)" by (simp add: spool_demo_disk_def dict_ok_def)
  ultimately show ?thesis by (intro interrupted_apply_recovers [OF spool_demo_roundtrip _ _ now now])
qed

end
