(* ===== verification/Gap_Replay.thy ===== *)
theory Gap_Replay
  imports Spool_Recovery Gap_Journal
begin

text \<open>
  Where the gap journal and the acknowledgement spool meet: the manifest of a gap artifact keeps the name of
  its data file up to the last suffix, while the spool looks up acknowledged manifests by the bare chunk id.
\<close>

lemma split_slash_plain: "CHR ''/'' \<notin> set a \<Longrightarrow> split_slash a = [a]"
  by (induction a) (auto split: list.split)

lemma split_slash_nonempty: "split_slash s \<noteq> []"
  by (induction s) (auto split: list.split)

lemma split_slash_append: "CHR ''/'' \<notin> set a \<Longrightarrow> split_slash (a @ CHR ''/'' # b) = a # split_slash b"
proof (induction a)
  case Nil
  then show ?case using split_slash_nonempty [of b] by (auto split: list.split)
next
  case (Cons c a)
  then show ?case by auto
qed

lemma last_dot_plain: "CHR ''.'' \<notin> set y \<Longrightarrow> last_dot i y = None"
  by (induction y arbitrary: i) auto

lemma last_dot_append: "CHR ''.'' \<notin> set y \<Longrightarrow> last_dot i (x @ CHR ''.'' # y) = Some (i + length x)"
  by (induction x arbitrary: i) (simp_all add: last_dot_plain)

lemma suffix_stem_append: "CHR ''.'' \<notin> set y \<Longrightarrow> x \<noteq> [] \<Longrightarrow> y \<noteq> [] \<Longrightarrow> suffix_stem (x @ CHR ''.'' # y) = x"
  by (simp add: suffix_stem_def last_dot_append)

lemma zfill_chars: "c \<in> set (zfill n i) \<Longrightarrow> is_digit c"
  by (auto simp: zfill_def Let_def is_digit_def dest: show_nat_digits [unfolded is_digit_def])

lemma iso_date_no_slash: "CHR ''/'' \<notin> set (iso_date d)"
proof -
  obtain y m k where c: "civil d = (y, m, k)" by (cases "civil d")
  have "\<not> is_digit CHR ''/''" by code_simp
  then show ?thesis using zfill_chars by (auto simp: iso_date_def c)
qed

text \<open>The names of the files of a gap artifact.\<close>

lemma gap_manifest_name:
  assumes "write_gap genv j e = Inr m"
  shows "name_of (manifest_path m) = chunk_id m @ ''.gap.manifest.json''"
proof -
  have m: "chunk_id m = artifact_id e" "data_path m = gap_data_path e" "id_pattern (chunk_id m)"
    using assms validate_chunk_manifest_Inr [OF assms [unfolded write_gap_def]]
    by (auto simp: write_gap_def validate_chunk_manifest_def as_ref_def rbind_Inr_iff dest!: validate_chunk_ref_Inr)
  have "\<not> is_id_char CHR ''/''" by code_simp
  then have no_slash: "CHR ''/'' \<notin> set (artifact_id e @ ''.gap.json'')"
    using m(1,3) by (auto simp: id_pattern_def list_all_iff)
  have ne: "artifact_id e \<noteq> []" by (simp add: artifact_id_def)
  have "split_slash (gap_data_path e) = [''date='' @ iso_date (event_date e), ''writer=control'', artifact_id e @ ''.gap.json'']"
  proof -
    have "gap_data_path e = (''date='' @ iso_date (event_date e)) @ CHR ''/'' # ''writer=control'' @ CHR ''/'' # artifact_id e @ ''.gap.json''"
      by (simp add: gap_data_path_def)
    moreover have plain: "CHR ''/'' \<notin> set (''date='' @ iso_date (event_date e))" "CHR ''/'' \<notin> set ''writer=control''"
      using iso_date_no_slash by simp_all
    have "split_slash ((''date='' @ iso_date (event_date e)) @ CHR ''/'' # ''writer=control'' @ CHR ''/'' # artifact_id e @ ''.gap.json'') =
        [''date='' @ iso_date (event_date e), ''writer=control'', artifact_id e @ ''.gap.json'']"
      by (subst split_slash_append [OF plain(1)], subst split_slash_append [OF plain(2)], subst split_slash_plain [OF no_slash]) (rule refl)
    ultimately show ?thesis by (simp only:)
  qed
  then have "path_parts (data_path m) = [''date='' @ iso_date (event_date e), ''writer=control'', artifact_id e @ ''.gap.json'']"
    using ne by (simp add: path_parts_def m(2))
  moreover have "suffix_stem (artifact_id e @ ''.gap.json'') = artifact_id e @ ''.gap''"
    using suffix_stem_append [of "''json''" "artifact_id e @ ''.gap''"] by simp
  ultimately show ?thesis by (simp add: manifest_path_def with_suffix_def chunk_path_def name_of_def m(1))
qed

text \<open>C25. The acknowledgement of a gap artifact is not recognised when it comes again: although the acknowledged manifest of the
  artifact is the one that is kept, a repeated acknowledgement, whatever its hash, is counted as unknown and quarantined.\<close>

theorem gap_ack_replay_unknown:
  assumes "write_gap genv j e = Inr m"
    and "read_ack env (host_files (ap_host s)) p = Inr a" "name_of p = ack_chunk_id a @ ''.ack.json''" "ack_chunk_id a = chunk_id m"
    and "dict_get (ap_manifests s) (chunk_id m) = None"
    and "\<forall>q \<in> set (dict_keys (host_files (ap_host s))). take 2 q = ACKED_ROOT \<longrightarrow> q = acked_path m"
  shows "ap_host (apply_ack env r p s) = mutate (reject_file p ''unknown'') (ap_host s) \<and>
    ar_unknown (ap_result (apply_ack env r p s)) = ar_unknown (ap_result s) + 1"
proof -
  have "acked_path m ! 3 \<noteq> chunk_id m @ ''.manifest.json''"
    using gap_manifest_name [OF assms(1)] by (simp add: acked_path_def ACKED_ROOT_def)
  then have "acked_candidates (chunk_id m) (host_files (ap_host s)) = []"
    unfolding acked_candidates_def using assms(6) by (subst filter_False) auto
  then have "acked_manifest env r (host_files (ap_host s)) (ack_chunk_id a) = (None, 0, [])" using assms(4) by (simp add: acked_manifest_def)
  then show ?thesis
    using assms(2-5) by (simp add: apply_ack_def apply_absent_def reject_def count_unknown_def)
qed

theorem gap_ack_replay_unknown_witness:
  "\<exists>m. write_gap demo_env demo_journal demo_closed = Inr m \<and> (\<exists>env a s.
     read_ack env (host_files (ap_host s)) (ack_path (chunk_id m)) = Inr a \<and> ack_sha256 a = chunk_sha256 m \<and>
     dict_get (host_files (ap_host s)) (acked_path m) = Some ''m'' \<and> ar_unknown (ap_result (apply_ack env spool_demo_run (ack_path (chunk_id m)) s)) = 1)"
proof -
  obtain m where m: "write_gap demo_env demo_journal demo_closed = Inr m" using demo_writes(3) by (cases "write_gap demo_env demo_journal demo_closed") auto
  have valid: "id_pattern (chunk_id m)" "hash_pattern (chunk_sha256 m)"
    using m validate_chunk_manifest_Inr [OF m [unfolded write_gap_def]]
    by (auto simp: write_gap_def validate_chunk_manifest_def as_ref_def rbind_Inr_iff dest!: validate_chunk_ref_Inr)
  define a where "a = \<lparr>ack_schema_version = 1, ack_chunk_id = chunk_id m, ack_sha256 = chunk_sha256 m,
     durable_at = \<lparr>wall_us = 0, utc_offset = Some 0\<rparr>\<rparr>"
  define env where "env = spool_demo_env\<lparr>se_ack := (\<lambda>_. Inr a)\<rparr>"
  define fs where "fs = [(acked_path m, ''m''), (ack_path (chunk_id m), ''a'')]"
  define s where "s = \<lparr>ap_host = alive_for None \<lparr>dk_files = fs, dk_rejected = [], dk_ledger = [], dk_status = None\<rparr>,
     ap_result = no_acks, ap_events = [], ap_manifests = [], ap_transactions = [], ap_completed = []\<rparr>"
  have ne: "ack_path (chunk_id m) \<noteq> acked_path m" by (simp add: ack_path_def acked_path_def ACK_ROOT_def ACKED_ROOT_def)
  have a_chunk: "ack_chunk_id a = chunk_id m" by (simp add: a_def)
  have s_manifests: "dict_get (ap_manifests s) k = None" for k by (simp add: s_def)
  have files: "host_files (ap_host s) = fs" by (simp add: s_def alive_for_def host_files_def)
  have read: "read_ack env fs (ack_path (chunk_id m)) = Inr a"
    using valid ne by (simp add: read_ack_def read_bytes_def fs_def dict_get_def env_def validate_ack_def a_def require_utc_def)
  have "\<forall>q \<in> set (dict_keys fs). take 2 q = ACKED_ROOT \<longrightarrow> q = acked_path m"
    by (simp add: fs_def dict_keys_def ack_path_def ACK_ROOT_def ACKED_ROOT_def)
  then have "ar_unknown (ap_result (apply_ack env spool_demo_run (ack_path (chunk_id m)) s)) = ar_unknown (ap_result s) + 1"
    using gap_ack_replay_unknown [OF m, of env s "ack_path (chunk_id m)" a spool_demo_run] read
    by (simp add: files a_chunk s_manifests ack_path_def name_of_def)
  moreover have "ar_unknown (ap_result s) = 0" "ack_sha256 a = chunk_sha256 m" "dict_get fs (acked_path m) = Some ''m''"
    by (simp_all add: s_def no_acks_def a_def fs_def dict_get_def)
  ultimately show ?thesis using m read unfolding files [symmetric] by (metis add_0)
qed

end
