(* ===== verification/Pull.thy ===== *)
theory Pull
  imports Spool
begin

text \<open>
  \<open>src/miry/pipeline/pull.py\<close>: chunks reach the pipeline. rsync mirrors the ready directory of the collector
  below a staging root; the puller verifies every mirrored chunk, makes it durable below the raw root, and
  only then writes its acknowledgement into the mirror. A remote path is a string; on disk it is the list of
  its components below the mirror. Symbolic links do not occur, as rsync leaves them out.
\<close>

section \<open>Configuration and results\<close>

record pull_env =
  pe_manifest :: "string \<Rightarrow> py_error + chunk_manifest"
  pe_day_manifest :: "string \<Rightarrow> py_error + day_manifest"
  pe_ack :: "string \<Rightarrow> py_error + ack"
  pe_ack_json :: "ack \<Rightarrow> string"
  pe_sha256 :: "string \<Rightarrow> string"
  pe_repr :: "py_error \<Rightarrow> string"
  pe_same_device :: bool

record pull_config =
  pc_mirror :: path
  pc_raw_root :: path
  pc_ready_root :: string
  pc_ack_root :: string

record pulled_chunk =
  pu_manifest :: chunk_manifest
  pu_ack :: ack
  pu_wrote_data :: bool

record pull_failure =
  pf_kind :: string
  pf_remote_path :: string
  pf_error :: string

record pull_result =
  pr_manifests_seen :: nat
  pr_chunks :: "pulled_chunk list"
  pr_day_manifests_seen :: nat
  pr_days_published :: nat
  pr_failures :: "pull_failure list"

definition new_chunks :: "pull_result \<Rightarrow> nat" where
  "new_chunks r = length (filter pu_wrote_data (pr_chunks r))"

definition existing_chunks :: "pull_result \<Rightarrow> int" where
  "existing_chunks r = int (length (pr_chunks r)) - int (new_chunks r)"

definition verified_bytes :: "pull_result \<Rightarrow> int" where
  "verified_bytes r = sum_list (map (\<lambda>c. size_bytes (pu_manifest c)) (pr_chunks r))"

section \<open>Remote paths\<close>

definition strip_right :: "string \<Rightarrow> string" where
  "strip_right s = rev (dropWhile (\<lambda>c. c = CHR ''/'') (rev s))"

definition safe_remote_root :: "string \<Rightarrow> py_error + string" where
  "safe_remote_root v =
     (if v = [] \<or> list_ex (\<lambda>c. of_char c < (32 :: nat) \<or> of_char c = (127 :: nat)) v \<or> path_absolute v \<or> ''..'' \<in> set (path_parts v) then
        Inl (ValueError ''remote paths must be relative to the restricted rsync root'')
      else Inr (strip_right v))"

text \<open>\<open>posixpath.join\<close> of two parts\<close>

definition posix_join :: "string \<Rightarrow> string \<Rightarrow> string" where
  "posix_join a b = (if path_absolute b then b else if a = [] \<or> ends_with a ''/'' then a @ b else a @ ''/'' @ b)"

text \<open>\<open>FilesystemRemoteStore._path\<close>\<close>

definition store_path :: "path \<Rightarrow> string \<Rightarrow> py_error + path" where
  "store_path mirror v = rbind (safe_remote_root v) (\<lambda>relative. Inr (mirror @ path_parts relative))"

definition list_files :: "path \<Rightarrow> string \<Rightarrow> files \<Rightarrow> py_error + string list" where
  "list_files mirror v fs =
     rbind (store_path mirror v) (\<lambda>directory.
     Inr (sort (map (\<lambda>p. path_text (drop (length mirror) p)) (filter (\<lambda>p. under p directory) (dict_keys fs)))))"

definition store_read :: "path \<Rightarrow> string \<Rightarrow> files \<Rightarrow> py_error + string" where
  "store_read mirror v fs = rbind (store_path mirror v) (read_bytes fs)"

section \<open>The puller\<close>

definition is_collector_char :: "char \<Rightarrow> bool" where
  "is_collector_char c \<longleftrightarrow> is_id_char c"

definition collector_id_pattern :: "string \<Rightarrow> bool" where
  "collector_id_pattern s \<longleftrightarrow> 1 \<le> length s \<and> length s \<le> 100 \<and> list_all is_collector_char s"

definition collector_root :: "pull_config \<Rightarrow> string \<Rightarrow> py_error + path" where
  "collector_root cfg c =
     (if \<not> collector_id_pattern c then Inl (ValueError ''unsafe collector_id'') else Inr (pc_raw_root cfg @ [''collector='' @ c]))"

definition verify_bytes :: "pull_env \<Rightarrow> chunk_manifest \<Rightarrow> string \<Rightarrow> py_error + unit" where
  "verify_bytes env m b =
     (if int (length b) \<noteq> size_bytes m then Inl (ValueError ''chunk size mismatch'')
      else if pe_sha256 env b \<noteq> chunk_sha256 m then Inl (ValueError ''chunk hash mismatch'')
      else Inr ())"

definition verify_local :: "pull_env \<Rightarrow> files \<Rightarrow> path \<Rightarrow> chunk_manifest \<Rightarrow> py_error + unit" where
  "verify_local env fs p m = rbind (read_bytes fs p) (verify_bytes env m)"

text \<open>A step that may raise after it has changed the disk.\<close>

definition attempt :: "(py_error + 'a) \<times> host \<Rightarrow> ('a \<Rightarrow> host \<Rightarrow> (py_error + 'b) \<times> host) \<Rightarrow> (py_error + 'b) \<times> host" where
  "attempt r f = (case r of (Inl e, h) \<Rightarrow> (Inl e, h) | (Inr x, h) \<Rightarrow> f x h)"

text \<open>\<open>promote\<close>: on one device the verified file is renamed; \<open>False\<close> asks for a copy.\<close>

definition promote :: "pull_env \<Rightarrow> pull_config \<Rightarrow> string \<Rightarrow> path \<Rightarrow> chunk_manifest \<Rightarrow> host \<Rightarrow> (py_error + bool) \<times> host" where
  "promote env cfg remote destination m h =
     (case rbind (store_path (pc_mirror cfg) remote) (\<lambda>source. rbind (read_bytes (host_files h) source) (\<lambda>b. Inr (source, b))) of
        Inl e \<Rightarrow> (Inl e, h)
      | Inr (source, b) \<Rightarrow>
          if \<not> pe_same_device env then (Inr False, h)
          else case verify_bytes env m b of
              Inl e \<Rightarrow> (Inl e, h)
            | Inr _ \<Rightarrow> (Inr True, mutate (rename_file source destination) h))"

definition partial_path :: "path \<Rightarrow> path" where
  "partial_path p = butlast p @ [''.'' @ name_of p @ ''.partial'']"

text \<open>The copy goes to a partial file, which exists before the source is opened, and is renamed once it is verified.\<close>

definition copy_chunk :: "pull_env \<Rightarrow> pull_config \<Rightarrow> string \<Rightarrow> path \<Rightarrow> chunk_manifest \<Rightarrow> host \<Rightarrow> (py_error + unit) \<times> host" where
  "copy_chunk env cfg remote destination m h =
     (let partial = partial_path destination; h1 = mutate (put_file partial []) h in
      case store_read (pc_mirror cfg) remote (host_files h1) of
        Inl e \<Rightarrow> (Inl e, h1)
      | Inr b \<Rightarrow>
          let h2 = mutate (put_file partial b) h1 in
          (case verify_local env (host_files h2) partial m of
             Inl e \<Rightarrow> (Inl e, h2)
           | Inr _ \<Rightarrow> (Inr (), mutate (rename_file partial destination) h2)))"

definition fetch_chunk :: "pull_env \<Rightarrow> pull_config \<Rightarrow> path \<Rightarrow> chunk_manifest \<Rightarrow> host \<Rightarrow> (py_error + bool) \<times> host" where
  "fetch_chunk env cfg destination m h =
     (if file_exists (host_files h) destination then
        (case verify_local env (host_files h) destination m of Inl e \<Rightarrow> (Inl e, h) | Inr _ \<Rightarrow> (Inr False, h))
      else
        let remote = posix_join (strip_right (pc_ready_root cfg)) (data_path m) in
        attempt (promote env cfg remote destination m h) (\<lambda>promoted h1.
        if promoted then (Inr True, h1)
        else attempt (copy_chunk env cfg remote destination m h1) (\<lambda>_ h2. (Inr True, h2))))"

definition keep_manifest :: "path \<Rightarrow> string \<Rightarrow> host \<Rightarrow> (py_error + unit) \<times> host" where
  "keep_manifest local_manifest b h =
     (case dict_get (host_files h) local_manifest of
        Some existing \<Rightarrow> if existing \<noteq> b then (Inl (ValueError ''conflicting local manifest''), h) else (Inr (), h)
      | None \<Rightarrow> (Inr (), mutate (put_file local_manifest b) h))"

definition ack_of :: "py_datetime \<Rightarrow> chunk_manifest \<Rightarrow> ack" where
  "ack_of now m = \<lparr>ack_schema_version = 1, ack_chunk_id = chunk_id m, ack_sha256 = chunk_sha256 m, durable_at = now\<rparr>"

definition write_ack :: "pull_env \<Rightarrow> pull_config \<Rightarrow> ack \<Rightarrow> host \<Rightarrow> (py_error + unit) \<times> host" where
  "write_ack env cfg a h =
     (case store_path (pc_mirror cfg) (posix_join (strip_right (pc_ack_root cfg)) (ack_chunk_id a @ ''.ack.json'')) of
        Inl e \<Rightarrow> (Inl e, h)
      | Inr p \<Rightarrow> (Inr (), mutate (put_file p (pe_ack_json env a)) h))"

definition ingest_chunk :: "pull_env \<Rightarrow> pull_config \<Rightarrow> py_datetime \<Rightarrow> string \<Rightarrow> host \<Rightarrow> (py_error + pulled_chunk) \<times> host" where
  "ingest_chunk env cfg now remote_manifest h =
     (case rbind (store_read (pc_mirror cfg) remote_manifest (host_files h)) (\<lambda>b.
          rbind (rbind (pe_manifest env b) validate_chunk_manifest) (\<lambda>m.
          rbind (collector_root cfg (cm_collector_id m)) (\<lambda>collector. Inr (b, m, collector @ path_parts (data_path m))))) of
        Inl e \<Rightarrow> (Inl e, h)
      | Inr (b, m, destination) \<Rightarrow>
          attempt (fetch_chunk env cfg destination m h) (\<lambda>wrote h1.
          attempt (keep_manifest (with_suffix destination ''.manifest.json'') b h1) (\<lambda>_ h2.
          attempt (validate_ack (ack_of now m), h2) (\<lambda>a h3.
          attempt (write_ack env cfg a h3) (\<lambda>_ h4.
          (Inr \<lparr>pu_manifest = m, pu_ack = a, pu_wrote_data = wrote\<rparr>, h4))))))"

text \<open>\<open>_publish_complete_day\<close>; \<open>None\<close> from the check of a chunk that is not there yet.\<close>

fun chunks_present :: "pull_env \<Rightarrow> files \<Rightarrow> path \<Rightarrow> chunk_ref list \<Rightarrow> py_error + bool" where
  "chunks_present env fs collector [] = Inr True"
| "chunks_present env fs collector (c # cs) =
     (case dict_get fs (collector @ path_parts (data_path c)) of
        None \<Rightarrow> Inr False
      | Some b \<Rightarrow>
          if int (length b) \<noteq> size_bytes c then Inr False
          else if pe_sha256 env b \<noteq> chunk_sha256 c then Inl (ValueError ''day manifest hash mismatch'')
          else chunks_present env fs collector cs)"

definition publish_complete_day :: "pull_env \<Rightarrow> pull_config \<Rightarrow> string \<Rightarrow> host \<Rightarrow> (py_error + nat) \<times> host" where
  "publish_complete_day env cfg remote_day h =
     (case rbind (store_read (pc_mirror cfg) remote_day (host_files h)) (\<lambda>b.
          rbind (rbind (pe_day_manifest env b) validate_day_manifest) (\<lambda>d.
          rbind (collector_root cfg (dm_collector_id d)) (\<lambda>collector. Inr (b, d, collector)))) of
        Inl e \<Rightarrow> (Inl e, h)
      | Inr (b, d, collector) \<Rightarrow>
          let destination = collector @ [''day-manifests'', date_dir (dm_utc_date d), ''SEALED.json''] in
          (case dict_get (host_files h) destination of
             Some existing \<Rightarrow> if existing \<noteq> b then (Inl (ValueError ''conflicting sealed day manifest''), h) else (Inr 0, h)
           | None \<Rightarrow>
               (case chunks_present env (host_files h) collector (chunks d) of
                  Inl e \<Rightarrow> (Inl e, h)
                | Inr present \<Rightarrow> if present then (Inr 1, mutate (put_file destination b) h) else (Inr 0, h))))"

text \<open>\<open>run\<close>: the errors it catches become failures.\<close>

fun is_caught :: "py_error \<Rightarrow> bool" where
  "is_caught (ValueError _) = True"
| "is_caught (OSError _) = True"
| "is_caught (FileNotFoundError _) = True"
| "is_caught _ = False"

definition failure_of :: "pull_env \<Rightarrow> string \<Rightarrow> string \<Rightarrow> py_error \<Rightarrow> pull_failure" where
  "failure_of env kind p e = \<lparr>pf_kind = kind, pf_remote_path = p, pf_error = take 500 (pe_repr env e)\<rparr>"

fun pull_chunks :: "pull_env \<Rightarrow> pull_config \<Rightarrow> (nat \<Rightarrow> py_datetime) \<Rightarrow> string list \<Rightarrow> pulled_chunk list \<times> pull_failure list \<Rightarrow> host \<Rightarrow>
    (py_error + pulled_chunk list \<times> pull_failure list) \<times> host" where
  "pull_chunks env cfg now [] acc h = (Inr acc, h)"
| "pull_chunks env cfg now (p # ps) acc h =
     (case ingest_chunk env cfg (now (length ps)) p h of
        (Inr c, h1) \<Rightarrow> pull_chunks env cfg now ps (fst acc @ [c], snd acc) h1
      | (Inl e, h1) \<Rightarrow>
          if is_caught e then pull_chunks env cfg now ps (fst acc, snd acc @ [failure_of env ''chunk'' p e]) h1 else (Inl e, h1))"

fun pull_days :: "pull_env \<Rightarrow> pull_config \<Rightarrow> string list \<Rightarrow> nat \<times> pull_failure list \<Rightarrow> host \<Rightarrow>
    (py_error + nat \<times> pull_failure list) \<times> host" where
  "pull_days env cfg [] acc h = (Inr acc, h)"
| "pull_days env cfg (p # ps) acc h =
     (case publish_complete_day env cfg p h of
        (Inr n, h1) \<Rightarrow> pull_days env cfg ps (fst acc + n, snd acc) h1
      | (Inl e, h1) \<Rightarrow>
          if is_caught e then pull_days env cfg ps (fst acc, snd acc @ [failure_of env ''day'' p e]) h1 else (Inl e, h1))"

definition visible :: "string \<Rightarrow> bool" where
  "visible p \<longleftrightarrow> \<not> list_ex (\<lambda>part. take 1 part = ''.'') (path_parts p)"

definition puller_run :: "pull_env \<Rightarrow> pull_config \<Rightarrow> (nat \<Rightarrow> py_datetime) \<Rightarrow> host \<Rightarrow> (py_error + pull_result) \<times> host" where
  "puller_run env cfg now h =
     (case list_files (pc_mirror cfg) (strip_right (pc_ready_root cfg)) (host_files h) of
        Inl e \<Rightarrow> (Inl e, h)
      | Inr listed \<Rightarrow>
          let names = filter visible listed;
              chunk_manifests = filter (\<lambda>p. ends_with p ''.manifest.json'') names;
              day_manifests = filter (\<lambda>p. ends_with p ''/SEALED.json'') names in
          attempt (pull_chunks env cfg now chunk_manifests ([], []) h) (\<lambda>(pulled, failures) h1.
          attempt (pull_days env cfg day_manifests (0, failures) h1) (\<lambda>(published, all_failures) h2.
          (Inr \<lparr>pr_manifests_seen = length chunk_manifests, pr_chunks = pulled, pr_day_manifests_seen = length day_manifests,
             pr_days_published = published, pr_failures = all_failures\<rparr>, h2))))"

section \<open>The transport\<close>

text \<open>
  \<open>RsyncTransport\<close>. A run of rsync changes the mirror in ways the code does not control; what it transfers
  stands in the mirror, and its outcome is an input. The inventory is a second mirror of the manifests.
\<close>

record download_plan =
  dp_downloads :: "(string, int) dict"
  dp_seen :: "string list"
  dp_count :: nat

definition plan_manifest :: "pull_env \<Rightarrow> pull_config \<Rightarrow> files \<Rightarrow> download_plan \<Rightarrow> path \<Rightarrow> py_error + download_plan" where
  "plan_manifest env cfg fs plan p =
     rbind (read_bytes fs p) (\<lambda>b.
     rbind (rbind (pe_manifest env b) validate_chunk_manifest) (\<lambda>m.
     rbind (safe_remote_root (data_path m)) (\<lambda>d.
     if d = [] then Inl (ValueError ''manifest has an empty data path'')
     else if d \<in> set (dp_seen plan) then Inl (ValueError ''duplicate manifest data path'')
     else if \<not> collector_id_pattern (cm_collector_id m) then Inl (ValueError ''unsafe collector_id'')
     else
       let plan1 = plan\<lparr>dp_seen := d # dp_seen plan, dp_count := dp_count plan + 1\<rparr> in
       if file_exists fs (pc_raw_root cfg @ [''collector='' @ cm_collector_id m] @ path_parts d) then Inr plan1
       else Inr (plan1\<lparr>dp_downloads := dict_set d (size_bytes m) (dp_downloads plan1)\<rparr>))))"

definition visible_below :: "path \<Rightarrow> path \<Rightarrow> bool" where
  "visible_below dir p \<longleftrightarrow> \<not> list_ex (\<lambda>part. take 1 part = ''.'') (drop (length dir) p)"

definition inventory_downloads :: "pull_env \<Rightarrow> pull_config \<Rightarrow> path \<Rightarrow> files \<Rightarrow> py_error + (string, int) dict \<times> nat" where
  "inventory_downloads env cfg inventory fs =
     rbind (fold_result (plan_manifest env cfg fs) \<lparr>dp_downloads = [], dp_seen = [], dp_count = 0\<rparr>
       (filter (visible_below inventory) (sort (rglob inventory ''.manifest.json'' fs))))
     (\<lambda>plan. Inr (dp_downloads plan, dp_count plan))"

text \<open>\<open>partition_downloads\<close>: the largest first, each to the lane with the least bytes so far.\<close>

definition download_order :: "(string, int) dict \<Rightarrow> (string \<times> int) list" where
  "download_order downloads = sort_key (\<lambda>(p, s). (- s, p)) downloads"

definition smallest_lane :: "(string list \<times> int) list \<Rightarrow> nat" where
  "smallest_lane lanes = hd (sort_key (\<lambda>i. (snd (lanes ! i), i)) [0..<length lanes])"

definition add_to_lane :: "(string list \<times> int) list \<Rightarrow> string \<times> int \<Rightarrow> (string list \<times> int) list" where
  "add_to_lane lanes download =
     (let i = smallest_lane lanes in lanes[i := (fst (lanes ! i) @ [fst download], snd (lanes ! i) + snd download)])"

definition partition_downloads :: "(string, int) dict \<Rightarrow> nat \<Rightarrow> string list list" where
  "partition_downloads downloads lane_limit =
     map fst (foldl add_to_lane (replicate (min lane_limit (length downloads)) ([], 0)) (download_order downloads))"

text \<open>\<open>_publish_inventory\<close>: the manifests become visible, and whatever the inventory does not name goes.\<close>

definition copy_metadata :: "path \<Rightarrow> path \<Rightarrow> path \<Rightarrow> host \<Rightarrow> host" where
  "copy_metadata inventory destination p h =
     (let target = destination @ drop (length inventory) p in
      case dict_get (host_files h) p of
        None \<Rightarrow> h
      | Some b \<Rightarrow> if dict_get (host_files h) target = Some b then h else mutate (put_file target b) h)"

definition publish_inventory :: "path \<Rightarrow> path \<Rightarrow> string list \<Rightarrow> host \<Rightarrow> host" where
  "publish_inventory inventory destination expected_data h =
     (let metadata = filter (\<lambda>p. under p inventory \<and> visible_below inventory p) (dict_keys (host_files h));
          expected = expected_data @ map (\<lambda>p. path_text (drop (length inventory) p)) metadata;
          h1 = fold (copy_metadata inventory destination) metadata h;
          stale = filter (\<lambda>p. under p destination \<and> path_text (drop (length destination) p) \<notin> set expected) (dict_keys (host_files h1)) in
      fold (\<lambda>p. mutate (drop_file p)) stale h1)"

text \<open>
  \<open>pull_ready\<close>: the manifests of the collector reach the inventory, what they name reaches the mirror in lanes,
  and only then the manifests become visible. The two kinds of rsync runs are parameters; the lanes run one
  after another.
\<close>

record rsync_runs =
  rr_inventory :: "host \<Rightarrow> (py_error + unit) \<times> host"
  rr_lane :: "string \<Rightarrow> host \<Rightarrow> (py_error + unit) \<times> host"

definition lane_root :: "pull_config \<Rightarrow> path" where
  "lane_root cfg = pc_mirror cfg @ [''control'', ''download-lanes'']"

definition stale_lanes :: "pull_config \<Rightarrow> files \<Rightarrow> path list" where
  "stale_lanes cfg fs = filter (\<lambda>p. p \<noteq> [] \<and> butlast p = lane_root cfg \<and> take 5 (name_of p) = ''lane-'' \<and>
     ends_with (drop 5 (name_of p)) ''.txt'') (dict_keys fs)"

definition lane_text :: "string list \<Rightarrow> string" where
  "lane_text lane = concat (map (\<lambda>p. p @ [CHR 0x0A]) lane)"

definition write_lane :: "pull_config \<Rightarrow> nat \<times> string list \<Rightarrow> host \<Rightarrow> host" where
  "write_lane cfg = (\<lambda>(i, lane). mutate (put_file (lane_root cfg @ [''lane-'' @ zfill 1 (int i) @ ''.txt'']) (lane_text lane)))"

fun pull_lanes :: "rsync_runs \<Rightarrow> string list list \<Rightarrow> host \<Rightarrow> (py_error + unit) \<times> host" where
  "pull_lanes rs [] h = (Inr (), h)"
| "pull_lanes rs (lane # lanes) h = attempt (rr_lane rs (lane_text lane) h) (\<lambda>_ h1. pull_lanes rs lanes h1)"

definition pull_ready :: "pull_env \<Rightarrow> pull_config \<Rightarrow> nat \<Rightarrow> rsync_runs \<Rightarrow> host \<Rightarrow> (py_error + unit) \<times> host" where
  "pull_ready env cfg lane_limit rs h =
     (let destination = pc_mirror cfg @ path_parts (strip_right (pc_ready_root cfg));
          inventory = pc_mirror cfg @ [''inventory''] @ path_parts (strip_right (pc_ready_root cfg)) in
      attempt (rr_inventory rs h) (\<lambda>_ h1.
      case inventory_downloads env cfg inventory (host_files h1) of
        Inl e \<Rightarrow> (Inl e, h1)
      | Inr (downloads, manifests) \<Rightarrow>
          let lanes = partition_downloads downloads lane_limit;
              h2 = fold (\<lambda>p. mutate (drop_file p)) (stale_lanes cfg (host_files h1)) h1;
              h3 = fold (write_lane cfg) (enumerate 0 lanes) h2 in
          attempt (pull_lanes rs lanes h3) (\<lambda>_ h4. (Inr (), publish_inventory inventory destination (dict_keys downloads) h4))))"

section \<open>Acknowledgements to the collector\<close>

record ack_push_result =
  ak_queued :: nat
  ak_pushed :: nat
  ak_invalid :: nat

record pull_run =
  pn_id :: string
  pn_started_at :: py_datetime
  pn_push_at :: py_datetime
  pn_pushed_at :: py_datetime
  pn_completed_at :: py_datetime
  pn_failed_at :: py_datetime
  pn_duration :: json

definition read_staged_ack :: "pull_env \<Rightarrow> files \<Rightarrow> path \<Rightarrow> py_error + ack" where
  "read_staged_ack env fs p =
     rbind (read_bytes fs p) (\<lambda>b. rbind (rbind (pe_ack env b) validate_ack) (\<lambda>a.
     if name_of p \<noteq> ack_chunk_id a @ ''.ack.json'' then Inl (ValueError ''ACK filename does not match chunk_id'') else Inr a))"

definition staging_event :: "pull_env \<Rightarrow> pull_config \<Rightarrow> pull_run \<Rightarrow> path \<Rightarrow> py_error \<Rightarrow> transfer_fields" where
  "staging_event env cfg n p e =
     transfer_event ''ACK_STAGING_INVALID'' (pn_push_at n) (pn_id n @ '':'' @ name_of p @ '':ACK_STAGING_INVALID'')
       [(''run_id'', JStr (pn_id n)), (''path'', JStr (path_text (drop (length (pc_mirror cfg)) p))),
        (''error'', JStr (take 500 (pe_repr env e)))]"

definition stage_ack :: "pull_env \<Rightarrow> pull_config \<Rightarrow> pull_run \<Rightarrow> path \<Rightarrow> (path \<times> ack) list \<times> transfer_fields list \<times> host \<Rightarrow>
    (path \<times> ack) list \<times> transfer_fields list \<times> host" where
  "stage_ack env cfg n p = (\<lambda>(valid, rejected, h).
     case read_staged_ack env (host_files h) p of
       Inl e \<Rightarrow> (valid, rejected @ [staging_event env cfg n p e], mutate (reject_file p ''invalid'') h)
     | Inr a \<Rightarrow> (valid @ [(p, a)], rejected, h))"

definition pushed_event :: "pull_run \<Rightarrow> ack \<Rightarrow> transfer_fields" where
  "pushed_event n a =
     transfer_event ''ACK_PUSHED'' (pn_pushed_at n) (pn_id n @ '':'' @ ack_chunk_id a @ '':ACK_PUSHED'')
       [(''run_id'', JStr (pn_id n)), (''chunk_id'', JStr (ack_chunk_id a)), (''sha256'', JStr (ack_sha256 a)),
        (''durable_at'', JStr (utc_text_of (durable_at a)))]"

definition journal_step :: "transfer_fields list \<Rightarrow> host \<Rightarrow> (py_error + unit) \<times> host" where
  "journal_step events h = (case journal_append events h of Inl e \<Rightarrow> (Inl e, h) | Inr h1 \<Rightarrow> (Inr (), h1))"

definition push_acks :: "pull_env \<Rightarrow> pull_config \<Rightarrow> pull_run \<Rightarrow> bool \<Rightarrow> host \<Rightarrow> (py_error + ack_push_result) \<times> host" where
  "push_acks env cfg n rsync_ok h =
     (case store_path (pc_mirror cfg) (pc_ack_root cfg) of
        Inl e \<Rightarrow> (Inl e, h)
      | Inr source \<Rightarrow>
          let ack_paths = glob source ''.ack.json'' (host_files h) in
          if ack_paths = [] then (Inr \<lparr>ak_queued = 0, ak_pushed = 0, ak_invalid = 0\<rparr>, h)
          else
            let (valid, rejected, h1) = fold (stage_ack env cfg n) ack_paths ([], [], h); queued = length ack_paths in
            attempt (if rejected = [] then (Inr (), h1) else journal_step rejected h1) (\<lambda>_ h2.
            if valid = [] then (Inr \<lparr>ak_queued = queued, ak_pushed = 0, ak_invalid = queued\<rparr>, h2)
            else if \<not> rsync_ok then (Inl (OSError ''rsync failed''), h2)
            else attempt (journal_step (map (pushed_event n \<circ> snd) valid) h2) (\<lambda>_ h3.
              (Inr \<lparr>ak_queued = queued, ak_pushed = length valid, ak_invalid = queued - length valid\<rparr>,
               fold (\<lambda>v. mutate (drop_file (fst v))) valid h3))))"

section \<open>A pull\<close>

definition durable_event :: "pull_run \<Rightarrow> pulled_chunk \<Rightarrow> transfer_fields" where
  "durable_event n c =
     (let m = pu_manifest c in
      transfer_event ''LOCAL_DURABLE'' (durable_at (pu_ack c)) (pn_id n @ '':'' @ chunk_id m @ '':LOCAL_DURABLE'')
        [(''run_id'', JStr (pn_id n)), (''collector_id'', JStr (cm_collector_id m)), (''chunk_id'', JStr (chunk_id m)),
         (''sha256'', JStr (chunk_sha256 m)), (''size_bytes'', JInt (size_bytes m)), (''utc_date'', JStr (iso_date (cm_utc_date m)))])"

definition pull_status :: "pull_run \<Rightarrow> pull_result \<Rightarrow> ack_push_result \<Rightarrow> transfer_fields" where
  "pull_status n r a =
     (let failures = length (pr_failures r) + ak_invalid a; num = (\<lambda>k. JInt (int k)) in
      [(''run_id'', JStr (pn_id n)), (''state'', JStr (if failures = 0 then ''ok'' else ''failed'')),
       (''started_at'', JStr (utc_text_of (pn_started_at n))), (''completed_at'', JStr (utc_text_of (pn_completed_at n))),
       (''duration_seconds'', pn_duration n), (''remote_manifests'', num (pr_manifests_seen r)), (''new_chunks'', num (new_chunks r)),
       (''existing_chunks_verified'', JInt (existing_chunks r)), (''verified_bytes'', JInt (verified_bytes r)),
       (''acks_queued'', num (ak_queued a)), (''acks_pushed'', num (ak_pushed a)), (''invalid_staged_acks'', num (ak_invalid a)),
       (''day_manifests_seen'', num (pr_day_manifests_seen r)), (''days_published'', num (pr_days_published r)),
       (''failures'', num failures), (''ingest_failures'', num (length (pr_failures r))),
       (''failure_details'', JList (map (\<lambda>f. JObj [(''kind'', JStr (pf_kind f)), (''remote_path'', JStr (pf_remote_path f)),
          (''error'', JStr (pf_error f))]) (take 20 (pr_failures r))))])"

definition fatal_status :: "pull_env \<Rightarrow> pull_run \<Rightarrow> py_error \<Rightarrow> transfer_fields" where
  "fatal_status env n e =
     [(''run_id'', JStr (pn_id n)), (''state'', JStr ''failed''), (''started_at'', JStr (utc_text_of (pn_started_at n))),
      (''completed_at'', JStr (utc_text_of (pn_failed_at n))), (''duration_seconds'', pn_duration n),
      (''fatal_error'', JStr (take 1000 (pe_repr env e)))]"

definition run_event_of :: "string \<Rightarrow> py_datetime \<Rightarrow> pull_run \<Rightarrow> transfer_fields \<Rightarrow> transfer_fields" where
  "run_event_of kind t n status = transfer_event kind t (pn_id n @ '':PULL_RUN'') status"

text \<open>\<open>_record_pull_failure\<close>\<close>

definition record_pull_failure :: "pull_env \<Rightarrow> pull_run \<Rightarrow> py_error \<Rightarrow> host \<Rightarrow> host" where
  "record_pull_failure env n e h =
     (case journal_append [run_event_of ''PULL_RUN_FAILED'' (pn_failed_at n) n (fatal_status env n e)] h of
        Inl _ \<Rightarrow> h
      | Inr h1 \<Rightarrow> mutate (set_status (fatal_status env n e)) h1)"

text \<open>\<open>run_pull\<close> after the mirror is in place; the number of failures, or the error it raises again.\<close>

definition run_pull :: "pull_env \<Rightarrow> pull_config \<Rightarrow> (nat \<Rightarrow> py_datetime) \<Rightarrow> pull_run \<Rightarrow> bool \<Rightarrow> host \<Rightarrow> (py_error + nat) \<times> host" where
  "run_pull env cfg now n rsync_ok h =
     (case attempt (puller_run env cfg now h) (\<lambda>r h1.
          attempt (journal_step (map (durable_event n) (filter pu_wrote_data (pr_chunks r))) h1) (\<lambda>_ h2.
          attempt (push_acks env cfg n rsync_ok h2) (\<lambda>a h3.
          let status = pull_status n r a; failures = length (pr_failures r) + ak_invalid a in
          attempt (journal_step [run_event_of (if failures = 0 then ''PULL_RUN_COMPLETED'' else ''PULL_RUN_FAILED'') (pn_completed_at n) n status] h3)
            (\<lambda>_ h4. (Inr failures, mutate (set_status status) h4))))) of
        (Inl e, h5) \<Rightarrow> (Inl e, record_pull_failure env n e h5)
      | (Inr failures, h5) \<Rightarrow> (Inr failures, h5))"

text \<open>The command: a transport with an unsafe root is refused before anything is recorded.\<close>

definition pull_command :: "pull_env \<Rightarrow> pull_config \<Rightarrow> nat \<Rightarrow> rsync_runs \<Rightarrow> (nat \<Rightarrow> py_datetime) \<Rightarrow> pull_run \<Rightarrow> bool \<Rightarrow> host \<Rightarrow>
    (py_error + nat) \<times> host" where
  "pull_command env cfg lane_limit rs now n rsync_ok h =
     (case rbind (safe_remote_root (pc_ready_root cfg)) (\<lambda>_. safe_remote_root (pc_ack_root cfg)) of
        Inl e \<Rightarrow> (Inl e, h)
      | Inr _ \<Rightarrow>
          (case pull_ready env cfg lane_limit rs h of
             (Inl e, h1) \<Rightarrow> (Inl e, record_pull_failure env n e h1)
           | (Inr _, h1) \<Rightarrow> run_pull env cfg now n rsync_ok h1))"

end
