(* ===== verification/Download_Lanes.thy ===== *)
theory Download_Lanes
  imports Pull "HOL-Library.Multiset"
begin

text \<open>
  How the downloads of \<open>src/miry/pipeline/pull.py\<close> are shared out among parallel runs of rsync.
\<close>

section \<open>Lanes\<close>

definition lane_bytes :: "(string, int) dict \<Rightarrow> string list \<Rightarrow> int" where
  "lane_bytes downloads lane = sum_list (map (\<lambda>p. the (dict_get downloads p)) lane)"

lemma smallest_lane_least:
  assumes "lanes \<noteq> []"
  shows "smallest_lane lanes < length lanes \<and> (\<forall>j < length lanes. snd (lanes ! smallest_lane lanes) \<le> snd (lanes ! j))"
proof -
  let ?key = "\<lambda>i. (snd (lanes ! i), i)"
  define xs where "xs = sort_key ?key [0..<length lanes]"
  have "length xs = length lanes" by (simp add: xs_def)
  then have ne: "xs \<noteq> []" using assms by auto
  have set: "set xs = {0..<length lanes}" by (simp add: xs_def)
  have sorted: "sorted (map ?key xs)" by (simp add: xs_def)
  have "snd (lanes ! hd xs) \<le> snd (lanes ! j)" if "j < length lanes" for j
  proof -
    have "j \<in> set xs" using that set by simp
    then have "?key (hd xs) \<le> ?key j" using sorted ne by (cases xs) auto
    then show ?thesis by auto
  qed
  moreover have "hd xs < length lanes" using set ne hd_in_set [of xs] by auto
  ultimately show ?thesis by (simp add: smallest_lane_def xs_def)
qed

definition lanes_ok :: "int \<Rightarrow> (string \<times> int) list \<Rightarrow> (string list \<times> int) list \<Rightarrow> bool" where
  "lanes_ok M taken lanes \<longleftrightarrow>
     mset (concat (map fst lanes)) = mset (map fst taken) \<and>
     (\<forall>lane \<in> set lanes. snd lane = sum_list (map (\<lambda>p. the (map_of taken p)) (fst lane))) \<and>
     (\<forall>a \<in> set lanes. \<forall>b \<in> set lanes. snd a \<le> snd b + M)"

lemma concat_list_update:
  "i < length xss \<Longrightarrow> mset (concat (xss[i := xss ! i @ [x]])) = mset (concat xss) + {#x#}"
proof (induction xss arbitrary: i)
  case (Cons xs xss)
  then show ?case by (cases i) simp_all
qed simp

lemma add_to_lane_ok:
  assumes "lanes_ok M taken lanes" "lanes \<noteq> []" "0 \<le> snd d" "snd d \<le> M" "fst d \<notin> fst ` set taken"
  shows "lanes_ok M (taken @ [d]) (add_to_lane lanes d)"
proof -
  obtain p s where d: "d = (p, s)" by force
  let ?i = "smallest_lane lanes"
  let ?new = "(fst (lanes ! ?i) @ [p], snd (lanes ! ?i) + s)"
  have i: "?i < length lanes" "\<And>j. j < length lanes \<Longrightarrow> snd (lanes ! ?i) \<le> snd (lanes ! j)"
    using smallest_lane_least [OF assms(2)] by auto
  have add: "add_to_lane lanes d = lanes[?i := ?new]" by (simp add: add_to_lane_def d Let_def)
  have ms: "mset (concat (map fst lanes)) = mset (map fst taken)" using assms(1) by (simp add: lanes_ok_def)
  have "mset (concat (map fst (lanes[?i := ?new]))) = mset (map fst (taken @ [d]))"
    using concat_list_update [of ?i "map fst lanes" p] i(1) ms by (simp add: map_update d)
  moreover have names: "p' \<noteq> p" if "lane \<in> set lanes" "p' \<in> set (fst lane)" for lane p'
  proof -
    have "p' \<in># mset (concat (map fst lanes))" using that by auto
    then have "p' \<in> fst ` set taken" unfolding ms by simp
    then show ?thesis using assms(5) by (auto simp: d)
  qed
  have old: "map_of (taken @ [d]) p' = map_of taken p'" if "p' \<noteq> p" for p'
    using that by (auto simp: d map_add_def split: option.split)
  have new: "map_of (taken @ [d]) p = Some s"
    using assms(5) by (auto simp: d map_add_def split: option.split dest: map_of_SomeD intro: rev_image_eqI)
  have sums: "snd lane = sum_list (map (\<lambda>p. the (map_of (taken @ [d]) p)) (fst lane))" if "lane \<in> set lanes" for lane
  proof -
    have new: "map (\<lambda>p. the (map_of (taken @ [d]) p)) (fst lane) = map (\<lambda>p. the (map_of taken p)) (fst lane)"
      using names [OF that] old by (intro map_cong) auto
    have "snd lane = sum_list (map (\<lambda>p. the (map_of taken p)) (fst lane))" using assms(1) that unfolding lanes_ok_def by blast
    then show ?thesis unfolding new .
  qed
  have in_set: "lanes ! ?i \<in> set lanes" using i(1) by simp
  have mem: "lane = ?new \<or> lane \<in> set lanes" if "lane \<in> set (lanes[?i := ?new])" for lane
    using that set_update_subset_insert [of lanes ?i ?new] by auto
  have "snd lane = sum_list (map (\<lambda>p. the (map_of (taken @ [d]) p)) (fst lane))" if "lane \<in> set (lanes[?i := ?new])" for lane
    using mem [OF that] sums [of lane] sums [OF in_set] new by (auto simp del: map_of_append)
  moreover have "snd a \<le> snd b + M" if "a \<in> set (lanes[?i := ?new])" "b \<in> set (lanes[?i := ?new])" for a b
  proof -
    have least: "snd (lanes ! ?i) \<le> snd l" if "l \<in> set lanes" for l
      using i(2) that by (auto simp: in_set_conv_nth)
    have old: "snd l \<le> snd l' + M" if "l \<in> set lanes" "l' \<in> set lanes" for l l'
      using assms(1) that unfolding lanes_ok_def by blast
    show ?thesis
      using mem [OF that(1)] mem [OF that(2)] least [of a] least [of b] old [of a b] old [of a "lanes ! ?i"] in_set assms(3,4)
      by (auto simp: d)
  qed
  ultimately show ?thesis unfolding lanes_ok_def add by blast
qed

lemma add_to_lane_length: "length (add_to_lane lanes d) = length lanes"
  by (simp add: add_to_lane_def Let_def)

lemma fold_lanes_ok:
  assumes "lanes_ok M taken lanes" "lanes \<noteq> []" "\<forall>d \<in> set ds. 0 \<le> snd d \<and> snd d \<le> M" "distinct (map fst (taken @ ds))"
  shows "lanes_ok M (taken @ ds) (foldl add_to_lane lanes ds) \<and> length (foldl add_to_lane lanes ds) = length lanes"
  using assms
proof (induction ds arbitrary: taken lanes)
  case (Cons d ds)
  have "fst d \<notin> fst ` set taken" using Cons.prems(4) by auto
  then have "lanes_ok M (taken @ [d]) (add_to_lane lanes d)"
    using Cons.prems by (intro add_to_lane_ok) auto
  moreover have "add_to_lane lanes d \<noteq> []" using Cons.prems(2) add_to_lane_length [of lanes d] by (metis length_0_conv)
  ultimately show ?case using Cons.IH [of "taken @ [d]" "add_to_lane lanes d"] Cons.prems by (simp add: add_to_lane_length)
qed simp

text \<open>The downloads are shared out among the lanes: every path stands in exactly one lane, there are no more lanes than allowed,
  and the planned bytes of two lanes differ by at most the largest file.\<close>

lemma download_lanes_balanced:
  assumes "dict_ok downloads" "\<forall>(p, s) \<in> set downloads. 0 \<le> s \<and> s \<le> M" "0 < lane_limit"
  shows "mset (concat (partition_downloads downloads lane_limit)) = mset (dict_keys downloads) \<and>
    length (partition_downloads downloads lane_limit) = min lane_limit (length downloads) \<and>
    (\<forall>a \<in> set (partition_downloads downloads lane_limit). \<forall>b \<in> set (partition_downloads downloads lane_limit).
      lane_bytes downloads a \<le> lane_bytes downloads b + M)"
proof (cases "downloads = []")
  case True
  then show ?thesis by (simp add: partition_downloads_def download_order_def dict_keys_def)
next
  case False
  define n where "n = min lane_limit (length downloads)"
  define ds where "ds = download_order downloads"
  define lanes where "lanes = foldl add_to_lane (replicate n ([], 0)) ds"
  have ds: "mset ds = mset downloads" by (simp add: ds_def download_order_def)
  then have mset_map: "mset (map fst ds) = mset (map fst downloads)" by simp
  then have dist: "distinct (map fst ds)" using assms(1) unfolding dict_ok_def by (metis mset_eq_imp_distinct_iff)
  have n: "n \<noteq> 0" using False assms(3) by (simp add: n_def)
  have "concat (replicate n []) = ([] :: string list)" by (induction n) simp_all
  moreover have "0 \<le> M" using assms(2) False by (cases downloads) auto
  ultimately have "lanes_ok M [] (replicate n ([], 0))" by (simp add: lanes_ok_def)
  moreover have "\<forall>d \<in> set ds. 0 \<le> snd d \<and> snd d \<le> M" using assms(2) ds by (metis (mono_tags, lifting) case_prod_beta' mset_eq_setD)
  ultimately have ok: "lanes_ok M ds lanes" "length lanes = n"
    using fold_lanes_ok [of M "[]" "replicate n ([], 0)" ds] n dist by (simp_all add: lanes_def)
  have same: "map_of ds = dict_get downloads"
    unfolding dict_get_def fun_eq_iff using assms(1) dist ds map_of_inject_set [of ds downloads] unfolding dict_ok_def by (metis mset_eq_setD)
  have bytes: "lane_bytes downloads (fst l) = snd l" if "l \<in> set lanes" for l
    using ok(1) that by (simp add: lanes_ok_def lane_bytes_def same)
  have part: "partition_downloads downloads lane_limit = map fst lanes"
    by (simp add: partition_downloads_def lanes_def n_def ds_def)
  have "mset (concat (map fst lanes)) = mset (dict_keys downloads)"
    using ok(1) mset_map unfolding lanes_ok_def dict_keys_def by simp
  moreover have "lane_bytes downloads a \<le> lane_bytes downloads b + M" if "a \<in> set (map fst lanes)" "b \<in> set (map fst lanes)" for a b
  proof -
    obtain l k where l: "l \<in> set lanes" "a = fst l" "k \<in> set lanes" "b = fst k" using \<open>a \<in> set (map fst lanes)\<close> \<open>b \<in> set (map fst lanes)\<close> by auto
    then have "snd l \<le> snd k + M" using ok(1) unfolding lanes_ok_def by blast
    then show ?thesis using bytes l by simp
  qed
  ultimately show ?thesis using ok(2) unfolding part n_def by simp
qed

lemma download_lanes_balanced_witness:
  "mset (concat (partition_downloads [(''a'', 5), (''b'', 7), (''c'', 4)] 2)) = mset (dict_keys [(''a'', 5 :: int), (''b'', 7), (''c'', 4)]) \<and>
    partition_downloads [(''a'', 5), (''b'', 7), (''c'', 4)] 2 = [[''b''], [''a'', ''c'']]"
  using download_lanes_balanced [of "[(''a'', 5), (''b'', 7), (''c'', 4)]" 7 2]
  by (simp add: dict_ok_def) code_simp

end
