(* ===== verification/Chunk_Transfer.thy ===== *)
theory Chunk_Transfer
  imports Spool_Recovery Pull
begin

text \<open>
  The collector, the mirror and the pipeline together. The transport may put anything into the mirror and may
  deliver any of the acknowledgements there; both hosts may die at any change of their disks.
\<close>

section \<open>The pipeline keeps what it holds\<close>

definition raw_file :: "pull_config \<Rightarrow> path \<Rightarrow> bool" where
  "raw_file cfg p \<longleftrightarrow> under p (pc_raw_root cfg) \<and> take 1 (name_of p) \<noteq> ''.''"

definition holds_digest :: "pull_env \<Rightarrow> pull_config \<Rightarrow> files \<Rightarrow> string \<Rightarrow> bool" where
  "holds_digest env cfg fs digest \<longleftrightarrow> (\<exists>p b. raw_file cfg p \<and> dict_get fs p = Some b \<and> pe_sha256 env b = digest)"

text \<open>The raw root and the mirror are apart, and the acknowledgements stand directly below their root in the mirror.\<close>

definition roots_apart :: "pull_config \<Rightarrow> bool" where
  "roots_apart cfg \<longleftrightarrow> (\<forall>p. \<not> (under p (pc_raw_root cfg) \<and> take (length (pc_mirror cfg)) p = pc_mirror cfg))"

definition mirror_acks :: "pull_config \<Rightarrow> path" where
  "mirror_acks cfg = pc_mirror cfg @ path_parts (strip_right (pc_ack_root cfg))"

text \<open>Every acknowledgement staged in the mirror names a digest the pipeline holds.\<close>

definition acks_backed :: "(string \<Rightarrow> py_error + ack) \<Rightarrow> pull_env \<Rightarrow> pull_config \<Rightarrow> files \<Rightarrow> bool" where
  "acks_backed decode env cfg fs \<longleftrightarrow> (\<forall>p b a. under p (mirror_acks cfg) \<and> dict_get fs p = Some b \<and> decode b = Inr a \<longrightarrow>
     holds_digest env cfg fs (ack_sha256 a))"

definition keeps_raw :: "pull_config \<Rightarrow> files \<Rightarrow> files \<Rightarrow> bool" where
  "keeps_raw cfg fs fs' \<longleftrightarrow> (\<forall>p b. raw_file cfg p \<longrightarrow> dict_get fs p = Some b \<longrightarrow> dict_get fs' p = Some b)"

definition pull_safe :: "(string \<Rightarrow> py_error + ack) \<Rightarrow> pull_env \<Rightarrow> pull_config \<Rightarrow> host \<Rightarrow> host \<Rightarrow> bool" where
  "pull_safe decode env cfg h h' \<longleftrightarrow> keeps_raw cfg (host_files h) (host_files h') \<and>
     (acks_backed decode env cfg (host_files h) \<longrightarrow> acks_backed decode env cfg (host_files h'))"

lemma keeps_raw_holds: "keeps_raw cfg fs fs' \<Longrightarrow> holds_digest env cfg fs x \<Longrightarrow> holds_digest env cfg fs' x"
  unfolding keeps_raw_def holds_digest_def by blast

lemma pull_safe_refl [simp]: "pull_safe decode env cfg h h"
  by (simp add: pull_safe_def keeps_raw_def)

lemma pull_safe_trans: "pull_safe decode env cfg h h1 \<Longrightarrow> pull_safe decode env cfg h1 h2 \<Longrightarrow> pull_safe decode env cfg h h2"
  by (simp add: pull_safe_def keeps_raw_def)

lemma pull_safe_fold:
  assumes "\<And>x h. x \<in> set xs \<Longrightarrow> pull_safe decode env cfg h (F x h)"
  shows "pull_safe decode env cfg h (fold F xs h)"
  using assms
proof (induction xs arbitrary: h)
  case (Cons x xs)
  have "pull_safe decode env cfg (F x h) (fold F xs (F x h))" using Cons.prems by (intro Cons.IH) simp
  then show ?case using pull_safe_trans [OF Cons.prems [of x h]] by simp
qed simp

lemma mutate_files: "host_files (mutate f h) = host_files h \<or> host_files (mutate f h) = dk_files (f (ho_disk h))"
  by (auto simp: mutate_def host_files_def split: option.split nat.split)

text \<open>One change of the disk: files disappear outside the raw root, or one file gets new content.\<close>

lemma pull_safe_mutate:
  assumes "keeps_raw cfg (host_files h) (dk_files (f (ho_disk h)))"
    and "acks_backed decode env cfg (host_files h) \<Longrightarrow> acks_backed decode env cfg (dk_files (f (ho_disk h)))"
  shows "pull_safe decode env cfg h (mutate f h)"
  using mutate_files [of f h]
proof
  assume "host_files (mutate f h) = host_files h"
  then show ?thesis by (simp add: pull_safe_def keeps_raw_def)
next
  assume "host_files (mutate f h) = dk_files (f (ho_disk h))"
  then show ?thesis using assms by (simp add: pull_safe_def)
qed

lemma pull_safe_same_files: "(\<And>d. dk_files (f d) = dk_files d) \<Longrightarrow> pull_safe decode env cfg h (mutate f h)"
  by (rule pull_safe_mutate) (simp_all add: host_files_def keeps_raw_def)

lemma acks_backed_fewer:
  assumes "acks_backed decode env cfg fs" "keeps_raw cfg fs fs'"
    and "\<And>p b. under p (mirror_acks cfg) \<Longrightarrow> dict_get fs' p = Some b \<Longrightarrow> dict_get fs p = Some b"
  shows "acks_backed decode env cfg fs'"
  using assms keeps_raw_holds unfolding acks_backed_def by blast

lemma raw_not_mirror: "roots_apart cfg \<Longrightarrow> raw_file cfg p \<Longrightarrow> p \<noteq> pc_mirror cfg @ q"
  by (auto simp: roots_apart_def raw_file_def)

lemma under_raw_not_ack: "roots_apart cfg \<Longrightarrow> under p (pc_raw_root cfg) \<Longrightarrow> \<not> under p (mirror_acks cfg)"
  unfolding roots_apart_def under_def mirror_acks_def by (metis append_eq_append_conv_if append_take_drop_id length_append le_add1 nle_le take_append take_take min_def)

lemma drop_mirror_safe:
  assumes "roots_apart cfg" "p = pc_mirror cfg @ q"
  shows "pull_safe decode env cfg h (mutate (drop_file p) h)" "pull_safe decode env cfg h (mutate (reject_file p why) h)"
proof -
  have k: "keeps_raw cfg fs (dict_pop p fs)" for fs
    using raw_not_mirror [OF assms(1), of _ q] assms(2) by (auto simp: keeps_raw_def)
  have b: "acks_backed decode env cfg fs \<Longrightarrow> acks_backed decode env cfg (dict_pop p fs)" for fs
    by (erule acks_backed_fewer [OF _ k]) (auto split: if_splits)
  show "pull_safe decode env cfg h (mutate (drop_file p) h)"
    by (rule pull_safe_mutate) (simp_all add: drop_file_def host_files_def k b)
  show "pull_safe decode env cfg h (mutate (reject_file p why) h)"
  proof (cases "dict_get (host_files h) p")
    case None
    then show ?thesis by (intro pull_safe_mutate) (simp_all add: reject_file_def host_files_def keeps_raw_def)
  next
    case (Some c)
    then show ?thesis by (intro pull_safe_mutate) (simp_all add: reject_file_def host_files_def k b)
  qed
qed

lemma put_raw_safe:
  assumes "roots_apart cfg" "under p (pc_raw_root cfg)" "\<not> raw_file cfg p \<or> dict_get (host_files h) p = None"
  shows "pull_safe decode env cfg h (mutate (put_file p b) h)"
proof -
  have k: "keeps_raw cfg (host_files h) (dict_set p b (host_files h))" using assms(3) by (auto simp: keeps_raw_def)
  have "acks_backed decode env cfg (host_files h) \<Longrightarrow> acks_backed decode env cfg (dict_set p b (host_files h))"
    using under_raw_not_ack [OF assms(1,2)] by (elim acks_backed_fewer [OF _ k]) (auto split: if_splits)
  then show ?thesis using k by (intro pull_safe_mutate) (simp_all add: put_file_def host_files_def)
qed

text \<open>A file that becomes durable under a name that was free.\<close>

lemma rename_raw_safe:
  assumes "roots_apart cfg" "under q (pc_raw_root cfg)" "dict_get (host_files h) q = None" "\<not> raw_file cfg p"
  shows "pull_safe decode env cfg h (mutate (rename_file p q) h)"
proof (cases "dict_get (host_files h) p")
  case None
  then show ?thesis by (intro pull_safe_mutate) (simp_all add: rename_file_def host_files_def keeps_raw_def)
next
  case (Some b)
  have k: "keeps_raw cfg (host_files h) (dict_set q b (dict_pop p (host_files h)))" using assms(3,4) by (auto simp: keeps_raw_def)
  have "acks_backed decode env cfg (host_files h) \<Longrightarrow> acks_backed decode env cfg (dict_set q b (dict_pop p (host_files h)))"
    using under_raw_not_ack [OF assms(1,2)] by (elim acks_backed_fewer [OF _ k]) (auto split: if_splits)
  then show ?thesis using k Some by (intro pull_safe_mutate) (simp_all add: rename_file_def host_files_def)
qed

section \<open>A pulled chunk is held before it is acknowledged\<close>

definition shown :: "chunk_manifest \<Rightarrow> bool" where
  "shown m \<longleftrightarrow> path_parts (data_path m) \<noteq> [] \<and> take 1 (name_of (path_parts (data_path m))) \<noteq> ''.''"

lemma store_path_mirror: "store_path mirror v = Inr p \<Longrightarrow> \<exists>q. p = mirror @ q"
  by (auto simp: store_path_def rbind_Inr_iff)

lemma partial_hidden: "\<not> raw_file cfg (partial_path p)"
  by (simp add: raw_file_def partial_path_def name_of_def)

lemma partial_under: "under p dir \<Longrightarrow> under (partial_path p) dir"
  by (cases p rule: rev_cases) (auto simp: under_def partial_path_def)

lemma partial_not_raw: "raw_file cfg p \<Longrightarrow> partial_path p \<noteq> p"
  using partial_hidden [of cfg p] by auto

definition holds_at :: "pull_env \<Rightarrow> files \<Rightarrow> path \<Rightarrow> chunk_manifest \<Rightarrow> bool" where
  "holds_at env fs p m \<longleftrightarrow> (\<exists>b. dict_get fs p = Some b \<and> pe_sha256 env b = chunk_sha256 m)"

lemma verify_bytes_Inr: "verify_bytes env m b = Inr u \<Longrightarrow> pe_sha256 env b = chunk_sha256 m"
  by (auto simp: verify_bytes_def split: if_splits)

lemma verify_local_Inr: "verify_local env fs p m = Inr u \<Longrightarrow> holds_at env fs p m"
  by (auto simp: verify_local_def read_bytes_def holds_at_def rbind_Inr_iff dest: verify_bytes_Inr split: option.splits)

lemma mutate_alive_files: "ho_alive (mutate f h) \<Longrightarrow> host_files (mutate f h) = dk_files (f (ho_disk h)) \<and> ho_alive h"
  by (auto simp: mutate_def host_files_def split: if_splits option.splits nat.splits)

lemma attempt_Inr: "attempt r f = (Inr y, h') \<Longrightarrow> \<exists>x h1. r = (Inr x, h1) \<and> f x h1 = (Inr y, h')"
  by (auto simp: attempt_def split: prod.splits sum.splits)

lemma promote_safe:
  assumes "roots_apart cfg" "raw_file cfg dst" "dict_get (host_files h) dst = None" "promote env cfg remote dst m h = (res, h')"
  shows "pull_safe decode env cfg h h' \<and> (res = Inr True \<longrightarrow> ho_alive h' \<longrightarrow> holds_at env (host_files h') dst m) \<and> (res = Inr False \<longrightarrow> h' = h)"
proof (cases "rbind (store_path (pc_mirror cfg) remote) (\<lambda>source. rbind (read_bytes (host_files h) source) (\<lambda>b. Inr (source, b)))")
  case (Inl e)
  then show ?thesis using assms(4) by (auto simp: promote_def)
next
  case (Inr sb)
  obtain source b where sb: "sb = (source, b)" "store_path (pc_mirror cfg) remote = Inr source" "dict_get (host_files h) source = Some b"
    using Inr by (auto simp: rbind_Inr_iff read_bytes_def split: option.splits)
  obtain q where q: "source = pc_mirror cfg @ q" using store_path_mirror [OF sb(2)] by blast
  have nr: "\<not> raw_file cfg source" using raw_not_mirror [OF assms(1)] q by blast
  show ?thesis
  proof (cases "pe_same_device env \<and> (\<exists>u. verify_bytes env m b = Inr u)")
    case False
    then show ?thesis using assms(4) Inr sb(1) by (auto simp: promote_def split: if_splits sum.splits)
  next
    case True
    then have h': "res = Inr True" "h' = mutate (rename_file source dst) h" and sha: "pe_sha256 env b = chunk_sha256 m"
      using assms(4) Inr sb(1) by (auto simp: promote_def dest: verify_bytes_Inr)
    have "holds_at env (host_files h') dst m" if "ho_alive h'"
      using mutate_alive_files [of "rename_file source dst" h] that sb(3) sha by (simp add: h'(2) rename_file_def host_files_def holds_at_def)
    then show ?thesis
      using rename_raw_safe [OF assms(1) _ assms(3) nr] assms(2) by (simp add: h' raw_file_def)
  qed
qed

lemma copy_chunk_safe:
  assumes "roots_apart cfg" "raw_file cfg dst" "dict_get (host_files h) dst = None" "copy_chunk env cfg remote dst m h = (res, h')"
  shows "pull_safe decode env cfg h h' \<and> (\<forall>u. res = Inr u \<longrightarrow> ho_alive h' \<longrightarrow> holds_at env (host_files h') dst m)"
proof -
  let ?p = "partial_path dst"
  define h1 where "h1 = mutate (put_file ?p []) h"
  have under: "under ?p (pc_raw_root cfg)" "under dst (pc_raw_root cfg)" using assms(2) partial_under by (simp_all add: raw_file_def)
  have free: "dict_get (host_files (mutate (put_file ?p b) k)) dst = None" if "dict_get (host_files k) dst = None" for b k
    using that partial_not_raw [OF assms(2)] mutate_files [of "put_file ?p b" k] by (auto simp: put_file_def host_files_def)
  have put: "pull_safe decode env cfg k (mutate (put_file ?p b) k)" for b k
    by (rule put_raw_safe [OF assms(1) under(1)]) (simp add: partial_hidden)
  have one: "pull_safe decode env cfg h h1" "dict_get (host_files h1) dst = None" using put free [OF assms(3)] by (simp_all add: h1_def)
  show ?thesis
  proof (cases "store_read (pc_mirror cfg) remote (host_files h1)")
    case (Inl e)
    then show ?thesis using assms(4) one by (auto simp: copy_chunk_def Let_def h1_def [symmetric])
  next
    case (Inr b)
    define h2 where "h2 = mutate (put_file ?p b) h1"
    have two: "pull_safe decode env cfg h h2" "dict_get (host_files h2) dst = None"
      using pull_safe_trans [OF one(1) put] free [OF one(2)] by (simp_all add: h2_def)
    show ?thesis
    proof (cases "verify_local env (host_files h2) ?p m")
      case (Inl e)
      then show ?thesis using assms(4) Inr two by (auto simp: copy_chunk_def Let_def h1_def [symmetric] h2_def [symmetric])
    next
      case (Inr u)
      then have h': "res = Inr ()" "h' = mutate (rename_file ?p dst) h2"
        using assms(4) \<open>store_read (pc_mirror cfg) remote (host_files h1) = Inr b\<close>
        by (simp_all add: copy_chunk_def Let_def h1_def [symmetric] h2_def [symmetric])
      have "holds_at env (host_files h2) ?p m" using verify_local_Inr [OF Inr] .
      then have "holds_at env (host_files h') dst m" if "ho_alive h'"
        using mutate_alive_files [of "rename_file ?p dst" h2] that by (auto simp: h'(2) rename_file_def host_files_def holds_at_def)
      then show ?thesis
        using pull_safe_trans [OF two(1) rename_raw_safe [OF assms(1) under(2) two(2) partial_hidden]] by (simp add: h')
    qed
  qed
qed

lemma fetch_chunk_safe:
  assumes "roots_apart cfg" "raw_file cfg dst" "fetch_chunk env cfg dst m h = (res, h')"
  shows "pull_safe decode env cfg h h' \<and> (\<forall>w. res = Inr w \<longrightarrow> ho_alive h' \<longrightarrow> holds_at env (host_files h') dst m)"
proof (cases "dict_get (host_files h) dst")
  case (Some b)
  then show ?thesis
    using assms(3) by (auto simp: fetch_chunk_def file_exists_def dest: verify_local_Inr split: sum.splits)
next
  case None
  let ?remote = "posix_join (strip_right (pc_ready_root cfg)) (data_path m)"
  obtain r1 h1 where p: "promote env cfg ?remote dst m h = (r1, h1)" by force
  note P = promote_safe [OF assms(1,2) None p, of decode]
  have fetch: "fetch_chunk env cfg dst m h = attempt (r1, h1) (\<lambda>promoted h1. if promoted then (Inr True, h1)
      else attempt (copy_chunk env cfg ?remote dst m h1) (\<lambda>_ h2. (Inr True, h2)))"
    using None by (simp add: fetch_chunk_def file_exists_def p)
  show ?thesis
  proof (cases r1)
    case (Inl e)
    then show ?thesis using assms(3) P by (auto simp: fetch attempt_def)
  next
    case (Inr promoted)
    show ?thesis
    proof (cases promoted)
      case True
      then show ?thesis using assms(3) P Inr by (auto simp: fetch attempt_def)
    next
      case False
      then have h1: "h1 = h" using P Inr by simp
      obtain r2 h2 where c: "copy_chunk env cfg ?remote dst m h = (r2, h2)" by force
      show ?thesis
        using assms(3) copy_chunk_safe [OF assms(1,2) None c, of decode] False Inr h1 c
        by (cases r2) (auto simp: fetch attempt_def)
    qed
  qed
qed

definition ack_roundtrip :: "(string \<Rightarrow> py_error + ack) \<Rightarrow> pull_env \<Rightarrow> bool" where
  "ack_roundtrip decode env \<longleftrightarrow> (\<forall>a. decode (pe_ack_json env a) = Inr a)"

definition shown_manifests :: "pull_env \<Rightarrow> bool" where
  "shown_manifests env \<longleftrightarrow> (\<forall>b m. pe_manifest env b = Inr m \<longrightarrow> shown m)"

lemma collector_root_raw: "collector_root cfg c = Inr r \<Longrightarrow> r = pc_raw_root cfg @ [''collector='' @ c]"
  by (auto simp: collector_root_def split: if_splits)

lemma destination_raw:
  assumes "collector_root cfg c = Inr r" "shown m"
  shows "raw_file cfg (r @ path_parts (data_path m))"
  using assms by (cases "path_parts (data_path m)" rule: rev_cases)
    (auto simp: raw_file_def under_def shown_def name_of_def dest!: collector_root_raw)

lemma with_suffix_under: "under p dir \<Longrightarrow> under (with_suffix p s) dir"
  by (cases p rule: rev_cases) (auto simp: under_def with_suffix_def)

lemma keep_manifest_safe:
  assumes "roots_apart cfg" "under p (pc_raw_root cfg)" "keep_manifest p b h = (res, h')"
  shows "pull_safe decode env cfg h h'" "\<And>q x. raw_file cfg q \<Longrightarrow> dict_get (host_files h) q = Some x \<Longrightarrow> dict_get (host_files h') q = Some x"
    "ho_alive h' \<Longrightarrow> ho_alive h"
proof -
  have h': "h' = h \<or> dict_get (host_files h) p = None \<and> h' = mutate (put_file p b) h"
    using assms(3) by (auto simp: keep_manifest_def split: option.splits if_splits)
  then show safe: "pull_safe decode env cfg h h'" using put_raw_safe [OF assms(1,2)] by auto
  show "\<And>q x. raw_file cfg q \<Longrightarrow> dict_get (host_files h) q = Some x \<Longrightarrow> dict_get (host_files h') q = Some x"
    using safe unfolding pull_safe_def keeps_raw_def by blast
  show "ho_alive h' \<Longrightarrow> ho_alive h" using h' mutate_alive_back [of "put_file p b" h] by auto
qed

lemma write_ack_safe:
  assumes "roots_apart cfg" "ack_roundtrip decode env" "write_ack env cfg a h = (res, h')"
    and "ho_alive h \<Longrightarrow> holds_digest env cfg (host_files h) (ack_sha256 a)"
  shows "pull_safe decode env cfg h h'"
proof (cases "ho_alive h \<and> res = Inr ()")
  case False
  then show ?thesis using assms(3) by (auto simp: write_ack_def split: sum.splits)
next
  case True
  then obtain p where p: "h' = mutate (put_file p (pe_ack_json env a)) h" "\<exists>q. p = pc_mirror cfg @ q"
    using assms(3) store_path_mirror by (auto simp: write_ack_def split: sum.splits)
  have k: "keeps_raw cfg (host_files h) (dict_set p (pe_ack_json env a) (host_files h))"
    using raw_not_mirror [OF assms(1)] p(2) by (auto simp: keeps_raw_def)
  have "acks_backed decode env cfg (dict_set p (pe_ack_json env a) (host_files h))" if "acks_backed decode env cfg (host_files h)"
    unfolding acks_backed_def
  proof (intro allI impI)
    fix q b a' assume q: "under q (mirror_acks cfg) \<and> dict_get (dict_set p (pe_ack_json env a) (host_files h)) q = Some b \<and> decode b = Inr a'"
    have "holds_digest env cfg (host_files h) (ack_sha256 a')"
    proof (cases "q = p")
      case True
      then have "a' = a" using q assms(2) by (auto simp: ack_roundtrip_def)
      then show ?thesis using assms(4) \<open>ho_alive h \<and> res = Inr ()\<close> by simp
    next
      case False
      then show ?thesis using q that unfolding acks_backed_def by auto
    qed
    then show "holds_digest env cfg (dict_set p (pe_ack_json env a) (host_files h)) (ack_sha256 a')" by (rule keeps_raw_holds [OF k])
  qed
  then show ?thesis using k unfolding p(1) by (intro pull_safe_mutate) (simp_all add: put_file_def host_files_def)
qed

lemma ingest_chunk_safe:
  assumes "roots_apart cfg" "ack_roundtrip decode env" "shown_manifests env" "ingest_chunk env cfg now p h = (res, h')"
  shows "pull_safe decode env cfg h h'"
proof (cases "rbind (store_read (pc_mirror cfg) p (host_files h)) (\<lambda>b.
          rbind (rbind (pe_manifest env b) validate_chunk_manifest) (\<lambda>m.
          rbind (collector_root cfg (cm_collector_id m)) (\<lambda>collector. Inr (b, m, collector @ path_parts (data_path m)))))")
  case (Inl e)
  then show ?thesis using assms(4) by (auto simp: ingest_chunk_def)
next
  case (Inr bmd)
  obtain b m dst where bmd: "bmd = (b, m, dst)" by (cases bmd) auto
  obtain r where r: "pe_manifest env b = Inr m" "collector_root cfg (cm_collector_id m) = Inr r" "dst = r @ path_parts (data_path m)"
    using Inr bmd by (auto simp: rbind_Inr_iff dest!: validate_chunk_manifest_Inr)
  have raw: "raw_file cfg dst" using destination_raw [OF r(2)] assms(3) r(1,3) by (simp add: shown_manifests_def)
  then have under: "under (with_suffix dst ''.manifest.json'') (pc_raw_root cfg)" by (simp add: raw_file_def with_suffix_under)
  obtain r1 h1 where f: "fetch_chunk env cfg dst m h = (r1, h1)" by force
  note F = fetch_chunk_safe [OF assms(1) raw f, of decode]
  show ?thesis
  proof (cases r1)
    case (Inl e)
    then show ?thesis using assms(4) F \<open>rbind _ _ = Inr bmd\<close> by (auto simp: ingest_chunk_def bmd f attempt_def)
  next
    case (Inr w)
    obtain r2 h2 where k: "keep_manifest (with_suffix dst ''.manifest.json'') b h1 = (r2, h2)" by force
    note K = keep_manifest_safe [OF assms(1) under k]
    have safe2: "pull_safe decode env cfg h h2" using pull_safe_trans F K(1) by blast
    show ?thesis
    proof (cases "\<exists>a. r2 = Inr () \<and> validate_ack (ack_of now m) = Inr a")
      case False
      then have "h' = h2"
        using assms(4) \<open>rbind _ _ = Inr bmd\<close> Inr by (cases r2; cases "validate_ack (ack_of now m)") (auto simp: ingest_chunk_def bmd f k attempt_def)
      then show ?thesis using safe2 by simp
    next
      case True
      then obtain a where a: "r2 = Inr ()" "validate_ack (ack_of now m) = Inr a" by blast
      then have sha: "ack_sha256 a = chunk_sha256 m" using validate_ack_Inr [OF a(2)] by (simp add: ack_of_def)
      obtain r3 h3 where w: "write_ack env cfg a h2 = (r3, h3)" by force
      have "holds_digest env cfg (host_files h2) (ack_sha256 a)" if "ho_alive h2"
      proof -
        have "holds_at env (host_files h1) dst m" using F Inr K(3) [OF that] by simp
        then show ?thesis using K(2) [OF raw] raw unfolding holds_at_def holds_digest_def sha by blast
      qed
      from write_ack_safe [OF assms(1,2) w this] have "pull_safe decode env cfg h h3" using pull_safe_trans [OF safe2] by blast
      moreover have "h' = h3"
        using assms(4) \<open>rbind _ _ = Inr bmd\<close> Inr a w by (cases r3) (auto simp: ingest_chunk_def bmd f k attempt_def)
      ultimately show ?thesis by simp
    qed
  qed
qed

lemma publish_day_safe:
  assumes "roots_apart cfg" "publish_complete_day env cfg p h = (res, h')"
  shows "pull_safe decode env cfg h h'"
proof -
  obtain res1 where res1: "res1 = rbind (store_read (pc_mirror cfg) p (host_files h)) (\<lambda>b.
          rbind (rbind (pe_day_manifest env b) validate_day_manifest) (\<lambda>d.
          rbind (collector_root cfg (dm_collector_id d)) (\<lambda>collector. Inr (b, d, collector))))" by blast
  show ?thesis
  proof (cases res1)
    case (Inl e)
    then show ?thesis using assms(2) by (auto simp: publish_complete_day_def res1 [symmetric])
  next
    case (Inr bdr)
    obtain b d r where bdr: "bdr = (b, d, r)" by (cases bdr) auto
    have r: "r = pc_raw_root cfg @ [''collector='' @ dm_collector_id d]"
      using Inr bdr res1 by (auto simp: rbind_Inr_iff dest!: collector_root_raw)
    let ?p = "r @ [''day-manifests'', date_dir (dm_utc_date d), ''SEALED.json'']"
    have "h' = h \<or> dict_get (host_files h) ?p = None \<and> h' = mutate (put_file ?p b) h"
      using assms(2) Inr unfolding publish_complete_day_def res1 [symmetric]
      by (simp add: bdr Let_def split: option.splits sum.splits if_splits)
    moreover have "under ?p (pc_raw_root cfg)" by (simp add: under_def r)
    ultimately show ?thesis using put_raw_safe [OF assms(1)] by auto
  qed
qed

lemma pull_chunks_safe:
  assumes "roots_apart cfg" "ack_roundtrip decode env" "shown_manifests env" "pull_chunks env cfg now ps acc h = (res, h')"
  shows "pull_safe decode env cfg h h'"
  using assms(4)
proof (induction ps arbitrary: acc h)
  case (Cons p ps)
  obtain r1 h1 where i: "ingest_chunk env cfg (now (length ps)) p h = (r1, h1)" by force
  have "pull_safe decode env cfg h h1" using ingest_chunk_safe [OF assms(1-3) i] .
  then show ?case
    using Cons.prems Cons.IH pull_safe_trans by (cases r1) (auto simp: i split: if_splits)
qed simp

lemma pull_days_safe:
  assumes "roots_apart cfg" "pull_days env cfg ps acc h = (res, h')"
  shows "pull_safe decode env cfg h h'"
  using assms(2)
proof (induction ps arbitrary: acc h)
  case (Cons p ps)
  obtain r1 h1 where i: "publish_complete_day env cfg p h = (r1, h1)" by force
  have "pull_safe decode env cfg h h1" using publish_day_safe [OF assms(1) i] .
  then show ?case
    using Cons.prems Cons.IH pull_safe_trans by (cases r1) (auto simp: i split: if_splits)
qed simp

lemma puller_run_safe:
  assumes "roots_apart cfg" "ack_roundtrip decode env" "shown_manifests env" "puller_run env cfg now h = (res, h')"
  shows "pull_safe decode env cfg h h'"
proof (cases "list_files (pc_mirror cfg) (strip_right (pc_ready_root cfg)) (host_files h)")
  case (Inl e)
  then show ?thesis using assms(4) by (auto simp: puller_run_def)
next
  case (Inr listed)
  let ?cs = "filter (\<lambda>p. ends_with p ''.manifest.json'') (filter visible listed)"
  let ?ds = "filter (\<lambda>p. ends_with p ''/SEALED.json'') (filter visible listed)"
  obtain r1 h1 where c: "pull_chunks env cfg now ?cs ([], []) h = (r1, h1)" by force
  have one: "pull_safe decode env cfg h h1" using pull_chunks_safe [OF assms(1-3) c] .
  show ?thesis
  proof (cases r1)
    case (Inl e)
    then show ?thesis using assms(4) one \<open>list_files _ _ _ = Inr listed\<close> c by (auto simp: puller_run_def Let_def attempt_def)
  next
    case (Inr cf)
    obtain r2 h2 where d: "pull_days env cfg ?ds (0, snd cf) h1 = (r2, h2)" by force
    have "pull_safe decode env cfg h h2" using pull_safe_trans [OF one pull_days_safe [OF assms(1) d]] .
    then show ?thesis
      using assms(4) \<open>list_files _ _ _ = Inr listed\<close> c d Inr
      by (cases r2; cases cf) (auto simp: puller_run_def Let_def attempt_def)
  qed
qed

lemma journal_append_safe:
  assumes "journal_append events h = Inr h'"
  shows "pull_safe decode env cfg h h'"
proof -
  obtain grouped where h': "h' = fold (\<lambda>g. mutate (append_day g)) grouped h" using assms by (auto simp: journal_append_def rbind_Inr_iff)
  have same: "dk_files (append_day g d) = dk_files d" for g d by (cases g) (simp add: append_day_def)
  have "pull_safe decode env cfg k (mutate (append_day g) k)" for g k
    by (rule pull_safe_same_files [where f = "append_day g", OF same])
  then show ?thesis unfolding h' by (rule pull_safe_fold)
qed

lemma journal_step_safe: "pull_safe decode env cfg h (snd (journal_step events h))"
  by (cases "journal_append events h") (simp_all add: journal_step_def journal_append_safe)

lemma stage_ack_cases:
  "read_staged_ack env (host_files h) p = Inl e \<Longrightarrow>
     stage_ack env cfg n p (valid, rejected, h) = (valid, rejected @ [staging_event env cfg n p e], mutate (reject_file p ''invalid'') h)"
  "read_staged_ack env (host_files h) p = Inr a \<Longrightarrow> stage_ack env cfg n p (valid, rejected, h) = (valid @ [(p, a)], rejected, h)"
  by (simp_all add: stage_ack_def)

definition in_mirror :: "pull_config \<Rightarrow> path \<Rightarrow> bool" where
  "in_mirror cfg p \<longleftrightarrow> (\<exists>q. p = pc_mirror cfg @ q)"

lemma drop_in_mirror_safe:
  "roots_apart cfg \<Longrightarrow> in_mirror cfg p \<Longrightarrow> pull_safe decode env cfg h (mutate (drop_file p) h)"
  "roots_apart cfg \<Longrightarrow> in_mirror cfg p \<Longrightarrow> pull_safe decode env cfg h (mutate (reject_file p why) h)"
  by (auto simp: in_mirror_def intro: drop_mirror_safe)

lemma stage_acks_safe:
  assumes "roots_apart cfg" "\<forall>p \<in> set ps. in_mirror cfg p" "\<forall>v \<in> set valid. in_mirror cfg (fst v)"
    and "fold (stage_ack env cfg n) ps (valid, rejected, h) = (valid', rejected', h')"
  shows "pull_safe decode env cfg h h' \<and> (\<forall>v \<in> set valid'. in_mirror cfg (fst v))"
  using assms(2-4)
proof (induction ps arbitrary: valid rejected h)
  case (Cons p ps)
  have p: "in_mirror cfg p" "\<forall>q \<in> set ps. in_mirror cfg q" using Cons.prems(1) by simp_all
  show ?case
  proof (cases "read_staged_ack env (host_files h) p")
    case (Inl e)
    have "fold (stage_ack env cfg n) ps (valid, rejected @ [staging_event env cfg n p e], mutate (reject_file p ''invalid'') h) = (valid', rejected', h')"
      using Cons.prems(3) by (simp add: stage_ack_cases(1) [OF Inl])
    from Cons.IH [OF p(2) Cons.prems(2) this] show ?thesis
      using pull_safe_trans [OF drop_in_mirror_safe(2) [OF assms(1) p(1)]] by blast
  next
    case (Inr a)
    have rest: "fold (stage_ack env cfg n) ps (valid @ [(p, a)], rejected, h) = (valid', rejected', h')"
      using Cons.prems(3) by (simp add: stage_ack_cases(2) [OF Inr])
    show ?thesis using Cons.IH [OF p(2) _ rest] Cons.prems(2) p(1) by auto
  qed
qed simp

lemma push_acks_safe:
  assumes "roots_apart cfg" "push_acks env cfg n ok h = (res, h')"
  shows "pull_safe decode env cfg h h'"
proof (cases "store_path (pc_mirror cfg) (pc_ack_root cfg)")
  case (Inl e)
  then show ?thesis using assms(2) by (auto simp: push_acks_def)
next
  case (Inr source)
  let ?ps = "glob source ''.ack.json'' (host_files h)"
  show ?thesis
  proof (cases "?ps = []")
    case True
    then show ?thesis using assms(2) Inr by (auto simp: push_acks_def Let_def)
  next
    case False
    obtain valid rejected h1 where s: "fold (stage_ack env cfg n) ?ps ([], [], h) = (valid, rejected, h1)"
      by (cases "fold (stage_ack env cfg n) ?ps ([], [], h)") auto
    have "in_mirror cfg p" if "p \<in> set ?ps" for p
    proof -
      have "p \<noteq> []" "butlast p = source" using that by (simp_all add: glob_def)
      then have "p = source @ [List.last p]" by (metis append_butlast_last_id)
      moreover obtain q where "source = pc_mirror cfg @ q" using store_path_mirror [OF Inr] by blast
      ultimately show ?thesis unfolding in_mirror_def by (metis append_assoc)
    qed
    then have S: "pull_safe decode env cfg h h1" "\<forall>v \<in> set valid. in_mirror cfg (fst v)"
      using stage_acks_safe [OF assms(1) _ _ s, of decode] by auto
    obtain r2 h2 where j: "(if rejected = [] then (Inr (), h1) else journal_step rejected h1) = (r2, h2)" by force
    then have two: "pull_safe decode env cfg h h2"
      using S(1) journal_step_safe [of decode env cfg h1 rejected] pull_safe_trans by (auto split: if_splits)
    obtain r3 h3 where k: "journal_step (map (pushed_event n \<circ> snd) valid) h2 = (r3, h3)" by force
    have three: "pull_safe decode env cfg h h3"
      using pull_safe_trans [OF two journal_step_safe [of decode env cfg h2 "map (pushed_event n \<circ> snd) valid"]] by (simp add: k)
    have "pull_safe decode env cfg h3 (fold (\<lambda>v. mutate (drop_file (fst v))) valid h3)"
      using S(2) drop_in_mirror_safe(1) [OF assms(1)] by (intro pull_safe_fold) blast
    then have four: "pull_safe decode env cfg h (fold (\<lambda>v. mutate (drop_file (fst v))) valid h3)" using pull_safe_trans [OF three] by blast
    have run: "push_acks env cfg n ok h = attempt (r2, h2) (\<lambda>_ h2.
            if valid = [] then (Inr \<lparr>ak_queued = length ?ps, ak_pushed = 0, ak_invalid = length ?ps\<rparr>, h2)
            else if \<not> ok then (Inl (OSError ''rsync failed''), h2)
            else attempt (journal_step (map (pushed_event n \<circ> snd) valid) h2) (\<lambda>_ h3.
              (Inr \<lparr>ak_queued = length ?ps, ak_pushed = length valid, ak_invalid = length ?ps - length valid\<rparr>,
               fold (\<lambda>v. mutate (drop_file (fst v))) valid h3)))"
      using False by (simp add: push_acks_def Inr s Let_def j)
    show ?thesis
      using assms(2) two three four k unfolding run by (cases r2; cases r3) (auto simp: attempt_def split: if_splits)
  qed
qed

lemma attempt_safe:
  assumes "\<And>x h1 y h2. r = (Inr x, h1) \<Longrightarrow> f x h1 = (y, h2) \<Longrightarrow> pull_safe decode env cfg h1 h2"
    and "pull_safe decode env cfg h (snd r)" "attempt r f = (res, h')"
  shows "pull_safe decode env cfg h h'"
proof (cases r)
  case (Pair x h1)
  then show ?thesis using assms pull_safe_trans by (cases x) (auto simp: attempt_def)
qed

lemma run_pull_safe:
  assumes "roots_apart cfg" "ack_roundtrip decode env" "shown_manifests env" "run_pull env cfg now n ok h = (res, h')"
  shows "pull_safe decode env cfg h h'"
proof -
  define body where "body = attempt (puller_run env cfg now h) (\<lambda>r h1.
          attempt (journal_step (map (durable_event n) (filter pu_wrote_data (pr_chunks r))) h1) (\<lambda>_ h2.
          attempt (push_acks env cfg n ok h2) (\<lambda>a h3.
          let status = pull_status n r a; failures = length (pr_failures r) + ak_invalid a in
          attempt (journal_step [run_event_of (if failures = 0 then ''PULL_RUN_COMPLETED'' else ''PULL_RUN_FAILED'') (pn_completed_at n) n status] h3)
            (\<lambda>_ h4. (Inr failures, mutate (set_status status) h4)))))"
  have status: "pull_safe decode env cfg k (mutate (set_status st) k)" for k st
    by (rule pull_safe_same_files) (simp add: set_status_def)
  obtain r h5 where b: "body = (r, h5)" by force
  have "pull_safe decode env cfg h h5"
  proof (rule attempt_safe [OF _ _ b [unfolded body_def]], goal_cases)
    case (1 pr h1 y h2)
    show ?case
    proof (rule attempt_safe [OF _ _ 1(2)], goal_cases)
      case (1 u h2 y h3)
      show ?case
      proof (rule attempt_safe [OF _ _ 1(2)], goal_cases)
        case (1 a h3 y h4)
        show ?case
        proof (rule attempt_safe [OF _ _ 1(2) [unfolded Let_def]], goal_cases)
          case (1 u h4 y h5)
          then show ?case using status by auto
        next
          case 2
          show ?case by (rule journal_step_safe)
        qed
      next
        case 2
        show ?case by (rule push_acks_safe [OF assms(1) prod.collapse [symmetric]])
      qed
    next
      case 2
      show ?case by (rule journal_step_safe)
    qed
  next
    case 2
    show ?case by (rule puller_run_safe [OF assms(1-3) prod.collapse [symmetric]])
  qed
  moreover have "h' = h5 \<or> (\<exists>e. h' = record_pull_failure env n e h5)"
    using assms(4) b unfolding run_pull_def body_def [symmetric] by (auto split: sum.splits)
  moreover have "pull_safe decode env cfg h5 (record_pull_failure env n e h5)" for e
  proof (cases "journal_append [run_event_of ''PULL_RUN_FAILED'' (pn_failed_at n) n (fatal_status env n e)] h5")
    case (Inr h6)
    then show ?thesis
      using pull_safe_trans [OF journal_append_safe [OF Inr] status] by (simp add: record_pull_failure_def)
  qed (simp add: record_pull_failure_def)
  ultimately show ?thesis using pull_safe_trans by blast
qed

section \<open>The transfer\<close>

text \<open>
  A step of the collector writes a chunk, writes its manifest, changes any file the transfer does not read
  (the day index, the gaps, the recorder), receives an acknowledgement from the mirror or runs
  \<open>apply_acks\<close>; a step of the pipeline changes its mirror as rsync likes, runs a pull, or runs one of the two
  halves of a pull, between which acknowledgements are delivered. A run may die after any of its changes; it is
  otherwise one step.
\<close>

record transfer =
  tr_collector :: disk
  tr_pipeline :: disk
  tr_published :: "(chunk_manifest \<times> string) list"

definition manifest_name :: "path \<Rightarrow> bool" where
  "manifest_name p \<longleftrightarrow> ends_with (name_of p) ''.manifest.json''"

definition new_chunk_path :: "(chunk_manifest \<times> string) list \<Rightarrow> chunk_manifest \<Rightarrow> bool" where
  "new_chunk_path published m \<longleftrightarrow> \<not> manifest_name (chunk_path m) \<and> chunk_path m \<notin> (chunk_path \<circ> fst) ` set published"

definition transfer_file :: "(chunk_manifest \<times> string) list \<Rightarrow> path \<Rightarrow> bool" where
  "transfer_file published p \<longleftrightarrow> is_ack p \<or> is_txn p \<or> p \<in> range manifest_path \<or> p \<in> (chunk_path \<circ> fst) ` set published"

definition mirror_file :: "pull_config \<Rightarrow> path \<Rightarrow> bool" where
  "mirror_file cfg p \<longleftrightarrow> in_mirror cfg p \<and> \<not> under p (mirror_acks cfg)"

inductive transfers :: "spool_env \<Rightarrow> pull_env \<Rightarrow> pull_config \<Rightarrow> transfer \<Rightarrow> bool" for cenv penv cfg where
  tr_empty: "dk_files c = [] \<Longrightarrow> dk_files p = [] \<Longrightarrow> transfers cenv penv cfg \<lparr>tr_collector = c, tr_pipeline = p, tr_published = []\<rparr>"
| tr_chunk: "transfers cenv penv cfg s \<Longrightarrow> new_chunk_path (tr_published s) m \<Longrightarrow> pe_sha256 penv b = chunk_sha256 m \<Longrightarrow>
    transfers cenv penv cfg (s\<lparr>tr_collector := put_file (chunk_path m) b (tr_collector s), tr_published := (m, b) # tr_published s\<rparr>)"
| tr_manifest: "transfers cenv penv cfg s \<Longrightarrow> (m, b) \<in> set (tr_published s) \<Longrightarrow> se_manifest cenv text = Inr m \<Longrightarrow>
    transfers cenv penv cfg (s\<lparr>tr_collector := put_file (manifest_path m) text (tr_collector s)\<rparr>)"
| tr_collect: "transfers cenv penv cfg s \<Longrightarrow>
    (\<And>p. transfer_file (tr_published s) p \<Longrightarrow> dict_get (dk_files c) p = dict_get (dk_files (tr_collector s)) p) \<Longrightarrow>
    transfers cenv penv cfg (s\<lparr>tr_collector := c\<rparr>)"
| tr_mirror: "transfers cenv penv cfg s \<Longrightarrow>
    (\<And>p. \<not> mirror_file cfg p \<Longrightarrow> dict_get (dk_files d) p = dict_get (dk_files (tr_pipeline s)) p) \<Longrightarrow>
    transfers cenv penv cfg (s\<lparr>tr_pipeline := d\<rparr>)"
| tr_pull: "transfers cenv penv cfg s \<Longrightarrow> run_pull penv cfg now n ok (alive_for budget (tr_pipeline s)) = (res, h) \<Longrightarrow>
    transfers cenv penv cfg (s\<lparr>tr_pipeline := ho_disk h\<rparr>)"
| tr_ingest: "transfers cenv penv cfg s \<Longrightarrow> puller_run penv cfg now (alive_for budget (tr_pipeline s)) = (pulled, h) \<Longrightarrow>
    transfers cenv penv cfg (s\<lparr>tr_pipeline := ho_disk h\<rparr>)"
| tr_push: "transfers cenv penv cfg s \<Longrightarrow> push_acks penv cfg n ok (alive_for budget (tr_pipeline s)) = (pushed, h) \<Longrightarrow>
    transfers cenv penv cfg (s\<lparr>tr_pipeline := ho_disk h\<rparr>)"
| tr_deliver: "transfers cenv penv cfg s \<Longrightarrow> under p (mirror_acks cfg) \<Longrightarrow> dict_get (dk_files (tr_pipeline s)) p = Some b \<Longrightarrow>
    transfers cenv penv cfg (s\<lparr>tr_collector := put_file (ACK_ROOT @ [name_of p]) b (tr_collector s)\<rparr>)"
| tr_apply: "transfers cenv penv cfg s \<Longrightarrow> apply_acks cenv r (alive_for budget (tr_collector s)) = Inr (res2, h) \<Longrightarrow>
    transfers cenv penv cfg (s\<lparr>tr_collector := ho_disk h\<rparr>)"

text \<open>What holds of the collector, with \<open>held\<close> the digests the pipeline holds.\<close>

definition acks_held :: "spool_env \<Rightarrow> (string \<Rightarrow> bool) \<Rightarrow> files \<Rightarrow> bool" where
  "acks_held cenv held fs \<longleftrightarrow> (\<forall>p a. is_ack p \<longrightarrow> read_ack cenv fs p = Inr a \<longrightarrow> held (ack_sha256 a))"

definition transactions_held :: "spool_env \<Rightarrow> (string \<Rightarrow> bool) \<Rightarrow> (chunk_manifest \<times> string) list \<Rightarrow> files \<Rightarrow> bool" where
  "transactions_held cenv held published fs \<longleftrightarrow> (\<forall>p t. is_txn p \<longrightarrow> read_transaction cenv fs p = Inr t \<longrightarrow>
     ack_sha256 (tx_ack t) = chunk_sha256 (tx_manifest t) \<longrightarrow> tx_manifest t \<in> fst ` set published \<and> held (ack_sha256 (tx_ack t)))"

definition manifests_published :: "spool_env \<Rightarrow> (chunk_manifest \<times> string) list \<Rightarrow> files \<Rightarrow> bool" where
  "manifests_published cenv published fs \<longleftrightarrow> (\<forall>m. read_manifest cenv fs (manifest_path m) = Inr m \<longrightarrow> m \<in> fst ` set published)"

definition chunks_safe :: "(string \<Rightarrow> bool) \<Rightarrow> (chunk_manifest \<times> string) list \<Rightarrow> files \<Rightarrow> bool" where
  "chunks_safe held published fs \<longleftrightarrow> (\<forall>(m, b) \<in> set published. dict_get fs (chunk_path m) = Some b \<or> held (chunk_sha256 m))"

definition collector_safe :: "spool_env \<Rightarrow> (string \<Rightarrow> bool) \<Rightarrow> (chunk_manifest \<times> string) list \<Rightarrow> disk \<Rightarrow> bool" where
  "collector_safe cenv held published d \<longleftrightarrow> acks_held cenv held (dk_files d) \<and> transactions_held cenv held published (dk_files d) \<and>
     manifests_published cenv published (dk_files d) \<and> chunks_safe held published (dk_files d)"

definition published_apart :: "(chunk_manifest \<times> string) list \<Rightarrow> bool" where
  "published_apart published \<longleftrightarrow> inj_on (chunk_path \<circ> fst) (set published) \<and> (\<forall>(m, b) \<in> set published. \<not> manifest_name (chunk_path m))"

lemma manifest_path_name: "manifest_name (manifest_path m)"
  by (simp add: manifest_name_def manifest_path_def with_suffix_def name_of_def ends_with_def)

text \<open>The four parts depend on these files only.\<close>

lemma collector_safe_cong:
  assumes "\<And>p. transfer_file published p \<Longrightarrow> dict_get (dk_files d') p = dict_get (dk_files d) p"
  shows "collector_safe cenv held published d' = collector_safe cenv held published d"
proof -
  have "acks_held cenv held (dk_files d') = acks_held cenv held (dk_files d)"
    using assms by (auto simp: acks_held_def read_ack_def read_bytes_def transfer_file_def)
  moreover have "transactions_held cenv held published (dk_files d') = transactions_held cenv held published (dk_files d)"
    using assms by (auto simp: transactions_held_def read_transaction_def read_bytes_def transfer_file_def)
  moreover have "manifests_published cenv published (dk_files d') = manifests_published cenv published (dk_files d)"
    using assms by (auto simp: manifests_published_def read_manifest_def read_bytes_def transfer_file_def)
  moreover have "chunks_safe held published (dk_files d') = chunks_safe held published (dk_files d)"
    using assms by (force simp: chunks_safe_def transfer_file_def)
  ultimately show ?thesis by (simp add: collector_safe_def)
qed

lemma collector_safe_pop:
  assumes "collector_safe cenv held published d" "dk_files d' = dict_pop p (dk_files d)"
    and "\<And>m b. (m, b) \<in> set published \<Longrightarrow> chunk_path m = p \<Longrightarrow> held (chunk_sha256 m)"
  shows "collector_safe cenv held published d'"
proof -
  have gone: "read_ack cenv (dict_pop p fs) q = Inr a \<Longrightarrow> read_ack cenv fs q = Inr a"
    "read_transaction cenv (dict_pop p fs) q = Inr t \<Longrightarrow> read_transaction cenv fs q = Inr t"
    "read_manifest cenv (dict_pop p fs) q = Inr m \<Longrightarrow> read_manifest cenv fs q = Inr m" for fs q a t m
    by (auto simp: read_ack_def read_transaction_def read_manifest_def read_bytes_def split: if_splits)
  have "chunks_safe held published (dict_pop p (dk_files d))"
    using assms(1,3) by (fastforce simp: collector_safe_def chunks_safe_def)
  moreover have "acks_held cenv held (dict_pop p (dk_files d))"
    using assms(1) gone(1) unfolding collector_safe_def acks_held_def by blast
  moreover have "transactions_held cenv held published (dict_pop p (dk_files d))"
    using assms(1) gone(2) unfolding collector_safe_def transactions_held_def by blast
  moreover have "manifests_published cenv published (dict_pop p (dk_files d))"
    using assms(1) gone(3) unfolding collector_safe_def manifests_published_def by blast
  ultimately show ?thesis using assms(2) by (simp add: collector_safe_def)
qed

lemma other_paths:
  "\<not> stable p \<Longrightarrow> p \<notin> range manifest_path" "\<not> stable p \<Longrightarrow> p \<noteq> chunk_path m"
  using manifest_path_stable chunk_path_stable by auto

lemma collector_safe_put_transaction:
  assumes "collector_safe cenv held published d" "transactions_roundtrip cenv" "manifests_published cenv published start"
    and "is_ack p" "read_ack cenv (dk_files d) p = Inr a" "read_manifest cenv start (manifest_path m) = Inr m"
    and "chunk_id m = ack_chunk_id a" "ack_sha256 a = chunk_sha256 m"
  shows "collector_safe cenv held published (put_file (transaction_path (ack_chunk_id a)) (new_transaction cenv r a m) d)"
proof -
  let ?q = "transaction_path (ack_chunk_id a)" let ?b = "new_transaction cenv r a m" let ?fs = "dict_set ?q ?b (dk_files d)"
  have q: "\<not> stable ?q" "\<not> is_ack ?q" using transaction_path_txn txn_not_ack unstable by blast+
  have "acks_held cenv held ?fs"
    using assms(1) q(2) unfolding collector_safe_def acks_held_def by (auto simp: read_ack_def read_bytes_def)
  moreover have "manifests_published cenv published ?fs"
    using assms(1) other_paths(1) [OF q(1)] unfolding collector_safe_def manifests_published_def
    by (auto simp: read_manifest_def read_bytes_def split: if_splits) (metis rangeI)+
  moreover have "chunks_safe held published ?fs"
  proof -
    have "dict_get ?fs (chunk_path m') = dict_get (dk_files d) (chunk_path m')" for m' using other_paths(2) [OF q(1), of m'] by auto
    moreover have "chunks_safe held published (dk_files d)" using assms(1) by (simp add: collector_safe_def)
    ultimately show ?thesis by (simp only: chunks_safe_def)
  qed
  moreover have "transactions_held cenv held published ?fs"
    unfolding transactions_held_def
  proof (intro allI impI)
    fix p' t assume t: "is_txn p'" "read_transaction cenv ?fs p' = Inr t" "ack_sha256 (tx_ack t) = chunk_sha256 (tx_manifest t)"
    show "tx_manifest t \<in> fst ` set published \<and> held (ack_sha256 (tx_ack t))"
    proof (cases "p' = ?q")
      case False
      then have "read_transaction cenv (dk_files d) p' = Inr t" using t(2) by (simp add: read_transaction_def read_bytes_def)
      then show ?thesis using assms(1) t(1,3) unfolding collector_safe_def transactions_held_def by blast
    next
      case True
      obtain x y where "se_ack cenv x = Inr a" "se_manifest cenv y = Inr m"
        using assms(5,6) by (auto simp: read_ack_def read_manifest_def rbind_Inr_iff dest!: validate_ack_Inr validate_chunk_manifest_Inr)
      then have "se_transaction cenv ?b = Inr \<lparr>tx_ack = a, tx_manifest = m, tx_accepted_at = run_now r\<rparr>"
        using assms(2) unfolding transactions_roundtrip_def new_transaction_def Let_def by blast
      then have "tx_ack t = a" "tx_manifest t = m"
        using t(2) True by (auto simp: read_transaction_def read_bytes_def rbind_Inr_iff)
      moreover have "held (ack_sha256 a)" using assms(1,4,5) unfolding collector_safe_def acks_held_def by blast
      moreover have "m \<in> fst ` set published" using assms(3,6) unfolding manifests_published_def by blast
      ultimately show ?thesis by simp
    qed
  qed
  ultimately show ?thesis by (simp add: collector_safe_def put_file_def)
qed

lemma transaction_manifest_held:
  assumes "collector_safe cenv held published d" "published_apart published" "is_txn p" "read_transaction cenv (dk_files d) p = Inr t"
    and "ack_sha256 (tx_ack t) = chunk_sha256 (tx_manifest t)" "(m, b) \<in> set published" "chunk_path m = chunk_path (tx_manifest t)"
  shows "held (chunk_sha256 m)"
proof -
  have t: "tx_manifest t \<in> fst ` set published" "held (chunk_sha256 (tx_manifest t))"
    using assms(1,3,4,5) unfolding collector_safe_def transactions_held_def by auto
  then obtain b' where "(tx_manifest t, b') \<in> set published" by auto
  moreover have "inj_on (chunk_path \<circ> fst) (set published)" using assms(2) by (simp add: published_apart_def)
  ultimately have "(tx_manifest t, b') = (m, b)"
    using assms(6,7) inj_onD [of "chunk_path \<circ> fst" "set published" "(tx_manifest t, b')" "(m, b)"] by simp
  then show ?thesis using t(2) by simp
qed

lemma collector_safe_kept:
  assumes "transactions_roundtrip cenv" "published_apart published" "manifests_published cenv published start"
  shows "kept_by_runs cenv start (collector_safe cenv held published)"
proof -
  let ?P = "collector_safe cenv held published"
  have same: "dk_files d' = dk_files d \<Longrightarrow> ?P d \<Longrightarrow> ?P d'" for d d' using collector_safe_cong [of published d' d] by simp
  have pop: "?P d \<Longrightarrow> \<not> stable p \<Longrightarrow> dk_files d' = dict_pop p (dk_files d) \<Longrightarrow> ?P d'" for d d' p
    using collector_safe_pop [of cenv held published d d' p] other_paths(2) by metis
  have manifest: "?P d \<Longrightarrow> dk_files d' = dict_pop (manifest_path m) (dk_files d) \<Longrightarrow> ?P d'" for d d' m
  proof (rule collector_safe_pop [of cenv held published d d' "manifest_path m"])
    fix m' b assume "(m', b) \<in> set published" "chunk_path m' = manifest_path m"
    then show "held (chunk_sha256 m')" using assms(2) manifest_path_name [of m] by (auto simp: published_apart_def)
  qed
  have rename: "?P (rename_file (manifest_path m) (acked_path m) d)" if "?P d" for d m
  proof (cases "dict_get (dk_files d) (manifest_path m)")
    case None
    then show ?thesis using that by (simp add: rename_file_def)
  next
    case (Some b)
    have "?P (drop_file (manifest_path m) d)" by (rule manifest [OF that]) (simp add: drop_file_def)
    moreover have "\<not> transfer_file published (acked_path m)"
      using acked_path_stable [of m] by (auto simp: transfer_file_def stable_def not_acked not_acked [symmetric])
    ultimately have "?P (rename_file (manifest_path m) (acked_path m) d) = ?P (drop_file (manifest_path m) d)"
      using Some by (intro collector_safe_cong) (auto simp: rename_file_def drop_file_def)
    then show ?thesis using \<open>?P (drop_file (manifest_path m) d)\<close> by simp
  qed
  show ?thesis
    unfolding kept_by_runs_def
  proof (intro conjI allI impI)
    show "?P d \<Longrightarrow> ?P (append_day g d)" for d g by (rule same [where d = d]) (auto simp: append_day_def split: prod.split)
    show "?P d \<Longrightarrow> ?P (set_status st d)" for d st by (rule same [where d = d]) (auto simp: set_status_def)
    show "?P d \<Longrightarrow> \<not> stable p \<Longrightarrow> ?P (drop_file p d)" for d p by (erule pop) (simp_all add: drop_file_def)
    show "?P d \<Longrightarrow> \<not> stable p \<Longrightarrow> ?P (reject_file p why d)" for d p why
    proof (cases "dict_get (dk_files d) p")
      case (Some b)
      then show "?P d \<Longrightarrow> \<not> stable p \<Longrightarrow> ?P (reject_file p why d)" by (elim pop) (simp_all add: reject_file_def)
    qed (simp add: reject_file_def)
    show "?P d \<Longrightarrow> is_ack p \<Longrightarrow> read_ack cenv (dk_files d) p = Inr a \<Longrightarrow> read_manifest cenv start (manifest_path m) = Inr m \<Longrightarrow>
      chunk_id m = ack_chunk_id a \<Longrightarrow> ack_sha256 a = chunk_sha256 m \<Longrightarrow>
      ?P (put_file (transaction_path (ack_chunk_id a)) (new_transaction cenv r a m) d)" for d p a m r
      by (rule collector_safe_put_transaction [OF _ assms(1,3)])
    show "?P d \<Longrightarrow> ?P (drop_file (manifest_path (tx_manifest t)) d)" for d t
      by (erule manifest) (simp add: drop_file_def)
    show "?P d \<Longrightarrow> ?P (rename_file (manifest_path (tx_manifest t)) (acked_path (tx_manifest t)) d)" for d t
      by (rule rename)
    show "?P d \<Longrightarrow> is_txn p \<Longrightarrow> read_transaction cenv (dk_files d) p = Inr t \<Longrightarrow>
      ack_sha256 (tx_ack t) = chunk_sha256 (tx_manifest t) \<Longrightarrow> ?P (drop_file (chunk_path (tx_manifest t)) d)" for d p t
      using collector_safe_pop [of cenv held published d "drop_file (chunk_path (tx_manifest t)) d" "chunk_path (tx_manifest t)"]
        transaction_manifest_held [OF _ assms(2), of cenv held d p t] by (auto simp: drop_file_def)
  qed
qed

lemma held_more:
  assumes "collector_safe cenv held published d" "\<And>x. held x \<Longrightarrow> held' x"
  shows "collector_safe cenv held' published d"
  using assms unfolding collector_safe_def acks_held_def transactions_held_def chunks_safe_def by (auto; blast)

definition transfer_safe :: "spool_env \<Rightarrow> pull_env \<Rightarrow> pull_config \<Rightarrow> transfer \<Rightarrow> bool" where
  "transfer_safe cenv penv cfg s \<longleftrightarrow> published_apart (tr_published s) \<and>
     acks_backed (se_ack cenv) penv cfg (dk_files (tr_pipeline s)) \<and>
     collector_safe cenv (holds_digest penv cfg (dk_files (tr_pipeline s))) (tr_published s) (tr_collector s) \<and>
     (\<forall>(m, b) \<in> set (tr_published s). pe_sha256 penv b = chunk_sha256 m)"

text \<open>A step of the pipeline keeps what it holds.\<close>

lemma pipeline_step_safe:
  assumes "transfer_safe cenv penv cfg s" "pull_safe (se_ack cenv) penv cfg (alive_for budget (tr_pipeline s)) h"
  shows "transfer_safe cenv penv cfg (s\<lparr>tr_pipeline := ho_disk h\<rparr>)"
proof -
  have k: "keeps_raw cfg (dk_files (tr_pipeline s)) (dk_files (ho_disk h))"
    using assms(2) by (simp add: pull_safe_def alive_for_def host_files_def)
  then show ?thesis
    using assms held_more [OF _ keeps_raw_holds [OF k]] unfolding transfer_safe_def pull_safe_def
    by (auto simp: alive_for_def host_files_def)
qed

lemma mirror_step_safe:
  assumes "transfer_safe cenv penv cfg s" "roots_apart cfg"
    and "\<And>p. \<not> mirror_file cfg p \<Longrightarrow> dict_get (dk_files d) p = dict_get (dk_files (tr_pipeline s)) p"
  shows "transfer_safe cenv penv cfg (s\<lparr>tr_pipeline := d\<rparr>)"
proof -
  have k: "keeps_raw cfg (dk_files (tr_pipeline s)) (dk_files d)"
    using assms(3) raw_not_mirror [OF assms(2)] by (auto simp: keeps_raw_def mirror_file_def in_mirror_def)
  have "acks_backed (se_ack cenv) penv cfg (dk_files d)"
    using assms(1,3) by (intro acks_backed_fewer [OF _ k]) (auto simp: transfer_safe_def mirror_file_def)
  then show ?thesis using assms(1) held_more [OF _ keeps_raw_holds [OF k]] by (auto simp: transfer_safe_def)
qed

lemma chunk_step_safe:
  assumes "transfer_safe cenv penv cfg s" "new_chunk_path (tr_published s) m" "pe_sha256 penv b = chunk_sha256 m"
  shows "transfer_safe cenv penv cfg (s\<lparr>tr_collector := put_file (chunk_path m) b (tr_collector s), tr_published := (m, b) # tr_published s\<rparr>)"
proof -
  let ?held = "holds_digest penv cfg (dk_files (tr_pipeline s))" let ?fs = "dk_files (tr_collector s)"
  have new: "chunk_path m \<notin> range manifest_path" "chunk_path m \<notin> (chunk_path \<circ> fst) ` set (tr_published s)"
    using assms(2) manifest_path_name by (auto simp: new_chunk_path_def)
  have safe: "collector_safe cenv ?held (tr_published s) (tr_collector s)" using assms(1) by (simp add: transfer_safe_def)
  have "collector_safe cenv ?held (tr_published s) (put_file (chunk_path m) b (tr_collector s)) = collector_safe cenv ?held (tr_published s) (tr_collector s)"
    using new chunk_path_stable [of m] by (intro collector_safe_cong) (auto simp: transfer_file_def put_file_def stable_def)
  then have "collector_safe cenv ?held ((m, b) # tr_published s) (put_file (chunk_path m) b (tr_collector s))"
    using safe unfolding collector_safe_def transactions_held_def manifests_published_def chunks_safe_def
    by (auto simp: put_file_def)
  moreover have "published_apart ((m, b) # tr_published s)"
    using assms(1,2) by (auto simp: published_apart_def transfer_safe_def new_chunk_path_def)
  ultimately show ?thesis using assms(1,3) by (simp add: transfer_safe_def)
qed

lemma manifest_step_safe:
  assumes "transfer_safe cenv penv cfg s" "(m, b) \<in> set (tr_published s)" "se_manifest cenv text = Inr m"
  shows "transfer_safe cenv penv cfg (s\<lparr>tr_collector := put_file (manifest_path m) text (tr_collector s)\<rparr>)"
proof -
  let ?fs = "dk_files (tr_collector s)" let ?fs' = "dict_set (manifest_path m) text ?fs"
  have safe: "collector_safe cenv (holds_digest penv cfg (dk_files (tr_pipeline s))) (tr_published s) (tr_collector s)"
    and apart: "published_apart (tr_published s)" using assms(1) by (simp_all add: transfer_safe_def)
  have get: "p \<noteq> manifest_path m \<Longrightarrow> dict_get ?fs' p = dict_get ?fs p" for p by simp
  have acks: "is_ack p \<Longrightarrow> read_ack cenv ?fs' p = read_ack cenv ?fs p" for p
    using get [of p] manifest_path_stable [of m] by (auto simp: stable_def read_ack_def read_bytes_def)
  have txns: "is_txn p \<Longrightarrow> read_transaction cenv ?fs' p = read_transaction cenv ?fs p" for p
    using get [of p] manifest_path_stable [of m] by (auto simp: stable_def read_transaction_def read_bytes_def)
  have "manifests_published cenv (tr_published s) ?fs'"
    unfolding manifests_published_def
  proof (intro allI impI)
    fix m' assume m': "read_manifest cenv ?fs' (manifest_path m') = Inr m'"
    show "m' \<in> fst ` set (tr_published s)"
    proof (cases "manifest_path m' = manifest_path m")
      case True
      then have "m' = m" using m' assms(3) by (auto simp: read_manifest_def read_bytes_def rbind_Inr_iff dest!: validate_chunk_manifest_Inr)
      then show ?thesis using assms(2) by force
    next
      case False
      then have "read_manifest cenv ?fs (manifest_path m') = Inr m'" using m' by (simp add: read_manifest_def read_bytes_def)
      then show ?thesis using safe by (simp add: collector_safe_def manifests_published_def)
    qed
  qed
  moreover have "chunks_safe held (tr_published s) ?fs'" if "chunks_safe held (tr_published s) ?fs" for held
    using that apart manifest_path_name [of m] unfolding chunks_safe_def published_apart_def by fastforce
  ultimately show ?thesis
    using assms(1) acks txns by (simp add: transfer_safe_def collector_safe_def put_file_def acks_held_def transactions_held_def)
qed

lemma deliver_step_safe:
  assumes "transfer_safe cenv penv cfg s" "under p (mirror_acks cfg)" "dict_get (dk_files (tr_pipeline s)) p = Some b"
  shows "transfer_safe cenv penv cfg (s\<lparr>tr_collector := put_file (ACK_ROOT @ [x]) b (tr_collector s)\<rparr>)"
proof -
  let ?held = "holds_digest penv cfg (dk_files (tr_pipeline s))" let ?q = "ACK_ROOT @ [x]"
  let ?fs = "dk_files (tr_collector s)" let ?fs' = "dict_set ?q b ?fs"
  have safe: "collector_safe cenv ?held (tr_published s) (tr_collector s)" using assms(1) by (simp add: transfer_safe_def)
  have q: "?q \<noteq> manifest_path m" "?q \<noteq> chunk_path m" "\<not> is_txn ?q" for m
    using manifest_path_head [of m] chunk_path_head [of m] by (auto simp: ACK_ROOT_def is_txn_def APPLYING_ROOT_def dest: arg_cong [where f = hd])
  have "acks_held cenv ?held ?fs'"
    unfolding acks_held_def
  proof (intro allI impI)
    fix p' a assume a: "is_ack p'" "read_ack cenv ?fs' p' = Inr a"
    show "?held (ack_sha256 a)"
    proof (cases "p' = ?q")
      case True
      then have "se_ack cenv b = Inr a" using a(2) by (auto simp: read_ack_def read_bytes_def rbind_Inr_iff dest!: validate_ack_Inr)
      then show ?thesis using assms unfolding transfer_safe_def acks_backed_def by blast
    next
      case False
      then have "read_ack cenv ?fs p' = Inr a" using a(2) by (simp add: read_ack_def read_bytes_def)
      then show ?thesis using safe a(1) by (simp add: collector_safe_def acks_held_def)
    qed
  qed
  moreover have "is_txn p' \<Longrightarrow> read_transaction cenv ?fs' p' = read_transaction cenv ?fs p'" for p'
    using q(3) by (auto simp: read_transaction_def read_bytes_def)
  moreover have "read_manifest cenv ?fs' (manifest_path m) = read_manifest cenv ?fs (manifest_path m)" for m
    using q(1) [of m] by (auto simp: read_manifest_def read_bytes_def)
  moreover have "dict_get ?fs' (chunk_path m) = dict_get ?fs (chunk_path m)" for m using q(2) [of m] by auto
  ultimately show ?thesis
    using assms(1) by (simp add: transfer_safe_def collector_safe_def put_file_def transactions_held_def manifests_published_def chunks_safe_def)
qed

lemma apply_step_safe:
  assumes "transfer_safe cenv penv cfg s" "transactions_roundtrip cenv" "apply_acks cenv r (alive_for budget (tr_collector s)) = Inr (res, h)"
  shows "transfer_safe cenv penv cfg (s\<lparr>tr_collector := ho_disk h\<rparr>)"
proof -
  let ?held = "holds_digest penv cfg (dk_files (tr_pipeline s))"
  have safe: "collector_safe cenv ?held (tr_published s) (tr_collector s)" and apart: "published_apart (tr_published s)"
    using assms(1) by (simp_all add: transfer_safe_def)
  then have "manifests_published cenv (tr_published s) (host_files (alive_for budget (tr_collector s)))"
    by (simp add: collector_safe_def alive_for_def host_files_def)
  then have "collector_safe cenv ?held (tr_published s) (ho_disk h)"
    using apply_acks_keeps [OF collector_safe_kept [OF assms(2) apart] _ assms(3)] safe by (simp add: alive_for_def)
  then show ?thesis using assms(1) by (simp add: transfer_safe_def)
qed

lemma transfers_safe:
  assumes "transfers cenv penv cfg s" "transactions_roundtrip cenv" "roots_apart cfg" "ack_roundtrip (se_ack cenv) penv" "shown_manifests penv"
  shows "transfer_safe cenv penv cfg s"
  using assms(1)
proof induction
  case (tr_empty c p)
  have "read_ack cenv [] q = Inl (FileNotFoundError (name_of q))" "read_transaction cenv [] q = Inl (FileNotFoundError (name_of q))"
    "read_manifest cenv [] q = Inl (FileNotFoundError (name_of q))" for q
    by (simp_all add: read_ack_def read_transaction_def read_manifest_def read_bytes_def rbind_def)
  then show ?case
    using tr_empty by (simp add: transfer_safe_def published_apart_def acks_backed_def collector_safe_def acks_held_def
      transactions_held_def manifests_published_def chunks_safe_def)
next
  case (tr_chunk s m b)
  show ?case by (rule chunk_step_safe [OF tr_chunk.IH tr_chunk.hyps(2,3)])
next
  case (tr_manifest s m b x)
  show ?case by (rule manifest_step_safe [OF tr_manifest.IH tr_manifest.hyps(2,3)])
next
  case (tr_collect s c)
  then show ?case using collector_safe_cong [OF tr_collect.hyps(2)] by (simp add: transfer_safe_def)
next
  case (tr_mirror s d)
  show ?case by (rule mirror_step_safe [OF tr_mirror.IH assms(3) tr_mirror.hyps(2)])
next
  case (tr_pull s now n ok budget res h)
  show ?case by (rule pipeline_step_safe [OF tr_pull.IH run_pull_safe [OF assms(3-5) tr_pull.hyps(2)]])
next
  case (tr_ingest s now budget pulled h)
  show ?case by (rule pipeline_step_safe [OF tr_ingest.IH puller_run_safe [OF assms(3-5) tr_ingest.hyps(2)]])
next
  case (tr_push s n ok budget pushed h)
  show ?case by (rule pipeline_step_safe [OF tr_push.IH push_acks_safe [OF assms(3) tr_push.hyps(2)]])
next
  case (tr_deliver s p b)
  show ?case by (rule deliver_step_safe [OF tr_deliver.IH tr_deliver.hyps(2,3)])
next
  case (tr_apply s r budget res2 h)
  show ?case by (rule apply_step_safe [OF tr_apply.IH assms(2) tr_apply.hyps(2)])
qed

section \<open>Properties\<close>

text \<open>C26. However the writer, the puller, rsync and \<open>apply_acks\<close> interleave, and wherever either host dies in
  a run, every chunk the collector has published is still its ready file, byte for byte, or the raw store of the
  pipeline holds a file with its digest. The hypotheses: the decoders read back what the encoders write, the data
  paths of manifests name visible files, and the mirror and the raw root are apart.\<close>

theorem published_chunk_never_lost:
  assumes "transfers cenv penv cfg s" "transactions_roundtrip cenv" "ack_roundtrip (se_ack cenv) penv" "shown_manifests penv" "roots_apart cfg"
    and "(m, b) \<in> set (tr_published s)"
  shows "dict_get (dk_files (tr_collector s)) (chunk_path m) = Some b \<or>
    holds_digest penv cfg (dk_files (tr_pipeline s)) (pe_sha256 penv b)"
proof -
  have "transfer_safe cenv penv cfg s" by (rule transfers_safe [OF assms(1,2,5,3,4)])
  then show ?thesis using assms(6) unfolding transfer_safe_def collector_safe_def chunks_safe_def by (fastforce dest: bspec)
qed

text \<open>A chunk is published, mirrored, pulled and acknowledged, and leaves the collector. Texts of records are lists of
  fields with their lengths.\<close>

definition fields_text :: "string list \<Rightarrow> string" where
  "fields_text xs = concat (map (\<lambda>s. int_text (int (length s)) @ CHR '';'' # s) xs)"

primrec text_fields :: "nat \<Rightarrow> string \<Rightarrow> string list" where
  "text_fields 0 s = []"
| "text_fields (Suc k) s =
     (let n = nat (text_int (takeWhile (\<lambda>c. c \<noteq> CHR '';'') s)); r = tl (dropWhile (\<lambda>c. c \<noteq> CHR '';'') s) in
      take n r # text_fields k (drop n r))"

lemma text_fields_text: "text_fields (length xs) (fields_text xs) = xs"
proof (induction xs)
  case (Cons x xs)
  have "takeWhile (\<lambda>c. c \<noteq> CHR '';'') (int_text i @ CHR '';'' # r) = int_text i"
    "dropWhile (\<lambda>c. c \<noteq> CHR '';'') (int_text i @ CHR '';'' # r) = CHR '';'' # r" for i r
    using int_text_chars by (simp_all add: takeWhile_append2 dropWhile_append2)
  then show ?case using Cons.IH by (simp add: fields_text_def text_int_text Let_def)
qed simp

definition ack_text :: "ack \<Rightarrow> string" where
  "ack_text a = fields_text [int_text (ack_schema_version a), ack_chunk_id a, ack_sha256 a, stamp_text (durable_at a)]"

definition text_ack :: "string \<Rightarrow> ack" where
  "text_ack s = (let fs = text_fields 4 s in
     \<lparr>ack_schema_version = text_int (fs ! 0), ack_chunk_id = fs ! 1, ack_sha256 = fs ! 2, durable_at = text_stamp (fs ! 3)\<rparr>)"

lemma text_ack_text: "text_ack (ack_text a) = a"
  using text_fields_text [of "[int_text (ack_schema_version a), ack_chunk_id a, ack_sha256 a, stamp_text (durable_at a)]"]
  by (simp add: ack_text_def text_ack_def Let_def text_int_text text_stamp_text numeral_nat)

definition transfer_cenv :: spool_env where
  "transfer_cenv = \<lparr>se_manifest = (\<lambda>b. if b = ''m'' then Inr spool_manifest else Inl (ValueError [])), se_ack = (\<lambda>b. Inr (text_ack b)),
     se_transaction = (\<lambda>b. let fs = text_fields 2 b in
       Inr \<lparr>tx_ack = text_ack (fs ! 0), tx_manifest = spool_manifest, tx_accepted_at = text_stamp (fs ! 1)\<rparr>),
     se_transaction_json = (\<lambda>t. fields_text [ack_text (tx_ack t), stamp_text (tx_accepted_at t)]), se_repr = (\<lambda>_. [])\<rparr>"

definition transfer_penv :: pull_env where
  "transfer_penv = \<lparr>pe_manifest = se_manifest transfer_cenv, pe_day_manifest = (\<lambda>_. Inl (ValueError [])), pe_ack = (\<lambda>b. Inr (text_ack b)),
     pe_ack_json = ack_text, pe_sha256 = (\<lambda>b. replicate 64 (if b = ''data'' then CHR ''0'' else CHR ''1'')), pe_repr = (\<lambda>_. []),
     pe_same_device = True\<rparr>"

definition transfer_cfg :: pull_config where
  "transfer_cfg = \<lparr>pc_mirror = [''mirror''], pc_raw_root = [''raw''], pc_ready_root = ''ready/'', pc_ack_root = ''control/acks''\<rparr>"

lemma transfer_demo_roundtrips:
  "transactions_roundtrip transfer_cenv" "ack_roundtrip (se_ack transfer_cenv) transfer_penv" "shown_manifests transfer_penv" "roots_apart transfer_cfg"
proof -
  have "text_fields 2 (fields_text [x, y]) = [x, y]" for x y using text_fields_text [of "[x, y]"] by (simp add: numeral_2_eq_2)
  then show "transactions_roundtrip transfer_cenv"
    by (auto simp: transactions_roundtrip_def transfer_cenv_def text_stamp_text text_ack_text Let_def split: if_splits)
  show "ack_roundtrip (se_ack transfer_cenv) transfer_penv"
    by (simp add: ack_roundtrip_def transfer_cenv_def transfer_penv_def text_ack_text)
  have "shown spool_manifest" by code_simp
  then show "shown_manifests transfer_penv" by (simp add: shown_manifests_def transfer_penv_def transfer_cenv_def)
  have "take 1 p = [''raw''] \<Longrightarrow> take 1 p \<noteq> [''mirror'']" for p :: path by simp
  then show "roots_apart transfer_cfg" by (auto simp: roots_apart_def transfer_cfg_def under_def)
qed

definition demo_now :: py_datetime where
  "demo_now = \<lparr>wall_us = 0, utc_offset = Some 0\<rparr>"

definition empty_disk :: disk where
  "empty_disk = \<lparr>dk_files = [], dk_rejected = [], dk_ledger = [], dk_status = None\<rparr>"

definition transfer_ready :: disk where
  "transfer_ready = put_file [''ready'', ''a.manifest.json''] ''m'' (put_file [''ready'', ''a.parquet''] ''data'' empty_disk)"

definition transfer_mirror :: disk where
  "transfer_mirror = put_file [''mirror'', ''ready'', ''a.manifest.json''] ''m'' (put_file [''mirror'', ''ready'', ''a.parquet''] ''data'' empty_disk)"

definition transfer_pulled :: disk where
  "transfer_pulled = ho_disk (snd (puller_run transfer_penv transfer_cfg (\<lambda>_. demo_now) (alive_for None transfer_mirror)))"

lemma transfer_demo_pull:
  "dk_files transfer_pulled = [([''mirror'', ''ready'', ''a.manifest.json''], ''m''), ([''raw'', ''collector=c'', ''a.parquet''], ''data''),
     ([''raw'', ''collector=c'', ''a.manifest.json''], ''m''), ([''mirror'', ''control'', ''acks'', ''chunk-01.ack.json''], ack_text spool_ack)]"
  by code_simp

definition transfer_told :: disk where
  "transfer_told = put_file (ACK_ROOT @ [name_of [''mirror'', ''control'', ''acks'', ''chunk-01.ack.json'']]) (ack_text spool_ack) transfer_ready"

lemma completed_run_settles:
  assumes "transactions_roundtrip env" "dict_ok (dk_files d)" "apply_acks env r (alive_for None d) = Inr (res, h)"
  shows "host_core h = settle env r' (core_of d)"
proof -
  have "ho_alive h" using immortal_alive [OF _ _ assms(3)] by (simp add: alive_for_def)
  moreover have "dict_ok (host_files (alive_for None d))" using assms(2) by (simp add: alive_for_def host_files_def)
  ultimately show ?thesis
    using apply_acks_settles [OF assms(1) _ assms(3), of r'] settled_core [of env h r'] by (simp add: alive_for_def host_core_def)
qed

lemma transfer_demo_mirror:
  "\<not> under [''mirror'', ''ready'', ''a.parquet''] (mirror_acks transfer_cfg)"
  "\<not> under [''mirror'', ''ready'', ''a.manifest.json''] (mirror_acks transfer_cfg)"
  by code_simp+

lemma transfer_demo_verdict:
  "glob ACK_ROOT ''.ack.json'' (dk_files transfer_told) = [ack_path ''chunk-01'']"
  "ack_verdict transfer_cenv (base (dk_files transfer_told)) (dk_files transfer_told) (ack_path ''chunk-01'') = New_Transaction spool_ack spool_manifest"
  "glob APPLYING_ROOT ''.transaction.json'' (dict_pop (ack_path ''chunk-01'') (dict_set (transaction_path ''chunk-01'') b (dk_files transfer_told)))
    = [transaction_path ''chunk-01'']"
  "ack_chunk_id spool_ack = ''chunk-01''" "transaction_path ''chunk-01'' \<noteq> ack_path ''chunk-01''" "dk_rejected transfer_told = []"
  by code_simp+

lemma transfer_demo_settle:
  "dict_get (fst (settle transfer_cenv spool_demo_run (core_of transfer_told))) (chunk_path spool_manifest) = None"
proof -
  let ?b = "new_transaction transfer_cenv spool_demo_run spool_ack spool_manifest" let ?t = "transaction_path ''chunk-01''"
  let ?fs = "dict_pop (ack_path ''chunk-01'') (dict_set ?t ?b (dk_files transfer_told))"
  have "dict_get ?fs ?t = Some ?b" using transfer_demo_verdict(5) by simp
  then have "views transfer_cenv ?fs = [Inr spool_manifest]"
    using new_transaction_view(2) [OF transfer_demo_roundtrips(1) transfer_demo_verdict(2)] by (simp add: views_def transfer_demo_verdict(3))
  moreover have "core_of transfer_told = (dk_files transfer_told, [])" by (simp add: core_of_def transfer_demo_verdict(6))
  ultimately show ?thesis
    by (simp add: settle_def settle_ack_def settle_transactions_def transfer_demo_verdict(1,2,4) retire_def)
qed

theorem published_chunk_never_lost_witness:
  "\<exists>s. transfers transfer_cenv transfer_penv transfer_cfg s \<and> (spool_manifest, ''data'') \<in> set (tr_published s) \<and>
    dict_get (dk_files (tr_collector s)) (chunk_path spool_manifest) = None \<and>
    holds_digest transfer_penv transfer_cfg (dk_files (tr_pipeline s)) (pe_sha256 transfer_penv ''data'')"
proof -
  let ?run = "transfers transfer_cenv transfer_penv transfer_cfg" let ?m = spool_manifest
  have paths: "chunk_path ?m = [''ready'', ''a.parquet'']" "manifest_path ?m = [''ready'', ''a.manifest.json'']"
    "\<not> manifest_name (chunk_path ?m)" by code_simp+
  have se: "se_manifest transfer_cenv ''m'' = Inr ?m" "pe_sha256 transfer_penv ''data'' = chunk_sha256 ?m" by code_simp+
  have s0: "?run \<lparr>tr_collector = empty_disk, tr_pipeline = empty_disk, tr_published = []\<rparr>"
    by (rule tr_empty) (simp_all add: empty_disk_def)
  have s1: "?run \<lparr>tr_collector = put_file (chunk_path ?m) ''data'' empty_disk, tr_pipeline = empty_disk, tr_published = [(?m, ''data'')]\<rparr>"
    using tr_chunk [OF s0, of ?m "''data''"] paths(3) se(2) by (simp add: new_chunk_path_def)
  have s2: "?run \<lparr>tr_collector = transfer_ready, tr_pipeline = empty_disk, tr_published = [(?m, ''data'')]\<rparr>"
    using tr_manifest [OF s1 _ se(1), of "''data''"] by (simp add: transfer_ready_def paths)
  have s3: "?run \<lparr>tr_collector = transfer_ready, tr_pipeline = transfer_mirror, tr_published = [(?m, ''data'')]\<rparr>"
  proof -
    have "mirror_file transfer_cfg [''mirror'', ''ready'', ''a.parquet'']" "mirror_file transfer_cfg [''mirror'', ''ready'', ''a.manifest.json'']"
      using transfer_demo_mirror by (auto simp: mirror_file_def in_mirror_def transfer_cfg_def)
    then have "dict_get (dk_files transfer_mirror) p = dict_get (dk_files empty_disk) p" if "\<not> mirror_file transfer_cfg p" for p
      using that by (auto simp: transfer_mirror_def put_file_def empty_disk_def dict_get_def)
    then show ?thesis using tr_mirror [OF s2, of transfer_mirror] by simp
  qed
  have "puller_run transfer_penv transfer_cfg (\<lambda>_. demo_now) (alive_for None transfer_mirror) =
      (fst (puller_run transfer_penv transfer_cfg (\<lambda>_. demo_now) (alive_for None transfer_mirror)),
       snd (puller_run transfer_penv transfer_cfg (\<lambda>_. demo_now) (alive_for None transfer_mirror)))" by simp
  from tr_ingest [OF s3, of "\<lambda>_. demo_now", simplified, OF this]
  have s4: "?run \<lparr>tr_collector = transfer_ready, tr_pipeline = transfer_pulled, tr_published = [(?m, ''data'')]\<rparr>"
    by (simp add: transfer_pulled_def)
  have ack: "under [''mirror'', ''control'', ''acks'', ''chunk-01.ack.json''] (mirror_acks transfer_cfg)" by code_simp
  have s5: "?run \<lparr>tr_collector = transfer_told, tr_pipeline = transfer_pulled, tr_published = [(?m, ''data'')]\<rparr>"
    using tr_deliver [OF s4 ack] by (simp add: transfer_demo_pull transfer_told_def dict_get_def)
  have "utc_offset (run_now spool_demo_run) = Some 0" by (simp add: spool_demo_run_def)
  then obtain res h where h: "apply_acks transfer_cenv spool_demo_run (alive_for None transfer_told) = Inr (res, h)"
    using apply_acks_total by blast
  have s6: "?run \<lparr>tr_collector = ho_disk h, tr_pipeline = transfer_pulled, tr_published = [(?m, ''data'')]\<rparr>"
    using tr_apply [OF s5, simplified, OF h] by simp
  have "dict_ok (dk_files transfer_told)" by (simp add: transfer_told_def transfer_ready_def put_file_def empty_disk_def del: dict_set.simps)
  from completed_run_settles [OF transfer_demo_roundtrips(1) this h, of spool_demo_run] transfer_demo_settle
  have gone: "dict_get (dk_files (ho_disk h)) (chunk_path ?m) = None" by (metis core_of_def fst_conv host_core_def)
  then show ?thesis
    using published_chunk_never_lost [OF s6 transfer_demo_roundtrips, of ?m "''data''"] s6 by auto
qed

end
