(* ===== verification/Stream_Decode.thy ===== *)
theory Stream_Decode
  imports Contracts
begin

text \<open>
  What a websocket frame is, \<open>src/miry/collector/websocket.py\<close>: \<open>decode_websocket\<close>, the identity that
  numbers the events of a connection, the names of the streams, and the snapshot that belongs to a stream.
  \<open>orjson.loads\<close>, Unicode case and the text of a container are parameters.
\<close>

section \<open>Frames\<close>

record frame_env =
  fe_loads :: "string \<Rightarrow> json option"
  fe_container_text :: "json \<Rightarrow> string"
  fe_lower :: "string \<Rightarrow> string"
  fe_upper :: "string \<Rightarrow> string"
  fe_unicode :: unicode

record decoded_frame =
  df_stream_type :: stream_type
  df_symbol :: "string option"
  df_message :: "(string \<times> json) list option"
  df_data :: "(string \<times> json) list option"

definition str_value :: "frame_env \<Rightarrow> json \<Rightarrow> string" where
  "str_value env v = (case py_str v of Some s \<Rightarrow> s | None \<Rightarrow> fe_container_text env v)"

text \<open>\<open>bool(value)\<close>\<close>

fun truth :: "json \<Rightarrow> bool" where
  "truth JNull \<longleftrightarrow> False"
| "truth (JBool b) \<longleftrightarrow> b"
| "truth (JInt i) \<longleftrightarrow> i \<noteq> 0"
| "truth (JFloat r _) \<longleftrightarrow> r \<noteq> 0"
| "truth (JStr s) \<longleftrightarrow> s \<noteq> []"
| "truth (JList vs) \<longleftrightarrow> vs \<noteq> []"
| "truth (JObj fs) \<longleftrightarrow> fs \<noteq> []"

definition has_key :: "string \<Rightarrow> (string \<times> json) list \<Rightarrow> bool" where
  "has_key k obj \<longleftrightarrow> map_of obj k \<noteq> None"

definition get_or :: "(string \<times> json) list \<Rightarrow> string \<Rightarrow> json \<Rightarrow> json" where
  "get_or obj k d = (case map_of obj k of None \<Rightarrow> d | Some v \<Rightarrow> v)"

fun contains :: "string \<Rightarrow> string \<Rightarrow> bool" where
  "contains s [] \<longleftrightarrow> s = []"
| "contains s (c # cs) \<longleftrightarrow> take (length s) (c # cs) = s \<or> contains s cs"

definition EVENT_STREAMS :: "(string \<times> stream_type) list" where
  "EVENT_STREAMS = [(''bookTicker'', BOOK_TICKER), (''aggTrade'', AGG_TRADE), (''trade'', TRADE),
     (''markPriceUpdate'', MARK_PRICE), (''forceOrder'', FORCE_ORDER), (''contractInfo'', CONTRACT_INFO)]"

definition unknown_frame :: "(string \<times> json) list option \<Rightarrow> decoded_frame" where
  "unknown_frame message = \<lparr>df_stream_type = UNKNOWN, df_symbol = None, df_message = message, df_data = None\<rparr>"

definition event_symbol :: "frame_env \<Rightarrow> string \<Rightarrow> (string \<times> json) list \<Rightarrow> string option" where
  "event_symbol env event_type data =
     (let v = (case jget data ''o'' of JObj order \<Rightarrow> if event_type = ''forceOrder'' then jget order ''s'' else jget data ''s''
        | _ \<Rightarrow> jget data ''s'') in
      if truth v then Some (fe_upper env (str_value env v)) else None)"

definition event_stream :: "frame_env \<Rightarrow> string \<Rightarrow> string \<Rightarrow> stream_type" where
  "event_stream env stream event_type =
     (if event_type = ''depthUpdate'' then (if contains ''@rpidepth@'' stream then RPI_DEPTH else DEPTH)
      else case map_of EVENT_STREAMS event_type of None \<Rightarrow> UNKNOWN | Some t \<Rightarrow> t)"

definition decode_message :: "frame_env \<Rightarrow> (string \<times> json) list \<Rightarrow> decoded_frame" where
  "decode_message env message =
     (if has_key ''result'' message \<or> has_key ''id'' message \<and> \<not> has_key ''data'' message then
        \<lparr>df_stream_type = WS_CONTROL, df_symbol = None, df_message = Some message, df_data = None\<rparr>
      else
        let stream = fe_lower env (str_value env (get_or message ''stream'' (JStr []))) in
        case get_or message ''data'' (JObj message) of
          JObj data \<Rightarrow>
            let event_type = str_value env (get_or data ''e'' (JStr [])) in
            \<lparr>df_stream_type = event_stream env stream event_type, df_symbol = event_symbol env event_type data,
              df_message = Some message, df_data = Some data\<rparr>
        | _ \<Rightarrow> unknown_frame (Some message))"

definition decode_websocket :: "frame_env \<Rightarrow> string \<Rightarrow> decoded_frame" where
  "decode_websocket env raw =
     (case fe_loads env raw of
        Some (JObj message) \<Rightarrow> decode_message env message
      | _ \<Rightarrow> unknown_frame None)"

section \<open>Events\<close>

record source_identity =
  si_collector_id :: string
  si_boot_id :: string
  si_segment_id :: string
  si_connection_id :: string
  si_sequence :: int

definition identity_event :: "unicode \<Rightarrow> stream_type \<Rightarrow> string option \<Rightarrow> string \<Rightarrow> int \<Rightarrow> int \<Rightarrow> string option \<Rightarrow> int option \<Rightarrow>
    source_identity \<Rightarrow> py_error + raw_event \<times> source_identity" where
  "identity_event u stream symbol payload realtime_ns monotonic_ns request_id request_ns i =
     (let i1 = i\<lparr>si_sequence := si_sequence i + 1\<rparr> in
      rbind (raw_event_post_init u
        \<lparr>ev_schema_version = 1, ev_exchange_symbol = symbol, ev_stream_type = stream, ev_collector_id = si_collector_id i,
          ev_boot_id = si_boot_id i, ev_segment_id = si_segment_id i, ev_connection_id = si_connection_id i,
          ev_receive_seq = si_sequence i1, ev_app_receive_realtime_ns = realtime_ns, ev_app_receive_monotonic_ns = monotonic_ns,
          ev_payload_bytes = payload, ev_request_id = request_id, ev_request_realtime_ns = request_ns\<rparr>)
        (\<lambda>e. Inr (e, i1)))"

section \<open>Streams and snapshots\<close>

definition snapshot_type_for_stream :: "stream_type \<Rightarrow> py_error + stream_type" where
  "snapshot_type_for_stream t = (case t of
      DEPTH \<Rightarrow> Inr DEPTH_SNAPSHOT | RPI_DEPTH \<Rightarrow> Inr RPI_DEPTH_SNAPSHOT | _ \<Rightarrow> Inl (ValueError ''stream has no snapshot type''))"

definition stream_type_for_snapshot :: "stream_type \<Rightarrow> py_error + stream_type" where
  "stream_type_for_snapshot t = (case t of
      DEPTH_SNAPSHOT \<Rightarrow> Inr DEPTH | RPI_DEPTH_SNAPSHOT \<Rightarrow> Inr RPI_DEPTH | _ \<Rightarrow> Inl (ValueError ''unsupported snapshot type''))"

definition public_subscriptions :: "frame_env \<Rightarrow> string list \<Rightarrow> bool \<Rightarrow> string list" where
  "public_subscriptions env instruments d0_enabled =
     concat (map (\<lambda>s. [fe_lower env s @ ''@bookTicker'', fe_lower env s @ ''@depth@100ms'']) instruments) @
     (if d0_enabled then map (\<lambda>s. fe_lower env s @ ''@trade'') instruments @ map (\<lambda>s. fe_lower env s @ ''@rpiDepth@500ms'') instruments
      else [])"

definition market_subscriptions :: "frame_env \<Rightarrow> string list \<Rightarrow> string list" where
  "market_subscriptions env instruments =
     concat (map (\<lambda>s. [fe_lower env s @ ''@aggTrade'', fe_lower env s @ ''@markPrice@1s'', fe_lower env s @ ''@forceOrder'']) instruments) @
     [''!contractInfo'']"

end
