(* ===== verification/Ws_Control.thy ===== *)
theory Ws_Control
  imports Contracts
begin

text \<open>
  Subscriptions of one websocket connection, \<open>src/miry/collector/ws_control.py\<close>: \<open>ControlRequests\<close> matches
  responses to requests by their id, \<open>SubscriptionController\<close> applies updates and audits what the server
  says it streams. A step is what happens between two awaits; a message is the JSON object the server sent.
\<close>

section \<open>Futures\<close>

datatype 'a future = Unset | Result 'a | Raised py_error | Cancelled

fun future_done :: "'a future \<Rightarrow> bool" where
  "future_done Unset \<longleftrightarrow> False"
| "future_done _ \<longleftrightarrow> True"

definition settle_future :: "'a future \<Rightarrow> 'a future \<Rightarrow> 'a future" where
  "settle_future v f = (if future_done f then f else v)"

section \<open>Requests\<close>

type_synonym control_message = "(string \<times> json) list"

record control_response =
  cr_request_id :: int
  cr_message :: control_message
  cr_observed_at :: int

record control_request =
  cq_method :: string
  cq_id :: int
  cq_params :: "string list option"

record control_requests =
  cs_next_id :: int
  cs_pending :: "(int, control_response future) dict"

definition new_requests :: "int \<Rightarrow> control_requests" where
  "new_requests initial_id = \<lparr>cs_next_id = initial_id - 1, cs_pending = []\<rparr>"

text \<open>\<open>send\<close>: the id is used up and nothing stays pending when the socket refuses the frame.\<close>

definition send_request :: "string \<Rightarrow> string list option \<Rightarrow> py_error option \<Rightarrow> control_requests \<Rightarrow>
    (py_error + control_request) \<times> control_requests" where
  "send_request sent_method params failure rq =
     (let i = cs_next_id rq + 1; rq1 = rq\<lparr>cs_next_id := i, cs_pending := dict_set i Unset (cs_pending rq)\<rparr> in
      case failure of
        Some e \<Rightarrow> (Inl e, rq1\<lparr>cs_pending := dict_pop i (cs_pending rq1)\<rparr>)
      | None \<Rightarrow> (Inr \<lparr>cq_method = sent_method, cq_id = i, cq_params = params\<rparr>, rq1))"

definition request_payload :: "control_request \<Rightarrow> control_message" where
  "request_payload q = [(''method'', JStr (cq_method q)), (''id'', JInt (cq_id q))] @
     (case cq_params q of None \<Rightarrow> [] | Some ps \<Rightarrow> [(''params'', JList (map JStr ps))])"

text \<open>\<open>wait\<close> returns when its future is settled and forgets it; a timeout forgets it too.\<close>

definition take_response :: "int \<Rightarrow> control_requests \<Rightarrow> (control_response future \<times> control_requests) option" where
  "take_response i rq =
     (case dict_get (cs_pending rq) i of
        Some f \<Rightarrow> if future_done f then Some (f, rq\<lparr>cs_pending := dict_pop i (cs_pending rq)\<rparr>) else None
      | None \<Rightarrow> None)"

definition forget_request :: "int \<Rightarrow> control_requests \<Rightarrow> control_requests" where
  "forget_request i rq = rq\<lparr>cs_pending := dict_pop i (cs_pending rq)\<rparr>"

definition deliver_response :: "control_message \<Rightarrow> int \<Rightarrow> control_requests \<Rightarrow> control_requests" where
  "deliver_response message observed_at rq =
     (case instance_int (jget message ''id'') of
        None \<Rightarrow> rq
      | Some i \<Rightarrow>
          (case dict_get (cs_pending rq) i of
             None \<Rightarrow> rq
           | Some f \<Rightarrow> rq\<lparr>cs_pending := dict_set i (settle_future
               (Result \<lparr>cr_request_id = i, cr_message = message, cr_observed_at = observed_at\<rparr>) f) (cs_pending rq)\<rparr>))"

definition cancel_requests :: "control_requests \<Rightarrow> control_requests" where
  "cancel_requests rq = rq\<lparr>cs_pending := []\<rparr>"

section \<open>Updates\<close>

record subscription_update =
  su_add :: "string list"
  su_remove :: "string list"
  su_snapshot_requests :: "(string \<times> stream_type) list"
  su_started :: "unit future"
  su_acknowledged :: "unit future"
  su_completion :: "unit future"

definition new_update :: "string list \<Rightarrow> string list \<Rightarrow> (string \<times> stream_type) list \<Rightarrow> subscription_update" where
  "new_update add remove snapshots = \<lparr>su_add = add, su_remove = remove, su_snapshot_requests = snapshots,
     su_started = Unset, su_acknowledged = Unset, su_completion = Unset\<rparr>"

definition update_abandoned :: "subscription_update \<Rightarrow> bool" where
  "update_abandoned u \<longleftrightarrow> su_started u = Cancelled \<or> su_acknowledged u = Cancelled \<or> su_completion u = Cancelled"

text \<open>\<open>_fail_subscription_update\<close>: the error goes to the first stage that is still open, later ones are cancelled.\<close>

definition fail_update :: "subscription_update \<Rightarrow> py_error \<Rightarrow> subscription_update" where
  "fail_update u e =
     (let cancel_later = (\<lambda>u. u\<lparr>su_completion := settle_future Cancelled (su_completion u)\<rparr>) in
      if su_started u = Cancelled then
        cancel_later (u\<lparr>su_acknowledged := settle_future Cancelled (su_acknowledged u)\<rparr>)
      else if \<not> future_done (su_started u) then
        cancel_later (u\<lparr>su_started := Raised e, su_acknowledged := settle_future Cancelled (su_acknowledged u)\<rparr>)
      else if su_acknowledged u = Cancelled then cancel_later u
      else if \<not> future_done (su_acknowledged u) then cancel_later (u\<lparr>su_acknowledged := Raised e\<rparr>)
      else u\<lparr>su_completion := settle_future (Raised e) (su_completion u)\<rparr>)"

section \<open>The controller\<close>

record controller =
  ctl_subscriptions :: "string list"
  ctl_requests :: control_requests
  ctl_active :: "string list"
  ctl_proven_ns :: "int option"
  ctl_audit_failures :: nat
  ctl_failure_limit :: nat

datatype audit_error = Audit_Error string int

definition new_controller :: "string list \<Rightarrow> int \<Rightarrow> nat \<Rightarrow> controller" where
  "new_controller subscriptions initial_id failure_limit =
     \<lparr>ctl_subscriptions = subscriptions, ctl_requests = new_requests initial_id, ctl_active = remdups subscriptions,
       ctl_proven_ns = None, ctl_audit_failures = 0, ctl_failure_limit = failure_limit\<rparr>"

definition is_subscription_ack :: "control_message \<Rightarrow> int \<Rightarrow> bool" where
  "is_subscription_ack value expected_id \<longleftrightarrow> equals_int (jget value ''id'') expected_id \<and> jget value ''result'' = JNull"

definition send_initial :: "py_error option \<Rightarrow> controller \<Rightarrow> (py_error + control_request) \<times> controller" where
  "send_initial failure c =
     (let (r, rq) = send_request ''SUBSCRIBE'' (Some (ctl_subscriptions c)) failure (ctl_requests c) in
      (r, c\<lparr>ctl_requests := rq\<rparr>))"

definition complete_initial :: "control_response \<Rightarrow> controller \<Rightarrow> py_error + controller" where
  "complete_initial response c =
     (if \<not> is_subscription_ack (cr_message response) (cr_request_id response) then
        Inl (OSError ''Binance subscription rejected'')
      else Inr (c\<lparr>ctl_proven_ns := Some (cr_observed_at response)\<rparr>))"

definition control_error :: "control_message \<Rightarrow> py_error option" where
  "control_error message =
     (if jget message ''code'' \<noteq> JNull then Some (OSError ''Binance subscription rejected'') else None)"

definition controller_deliver :: "control_message \<Rightarrow> int \<Rightarrow> controller \<Rightarrow> py_error + controller" where
  "controller_deliver message observed_at c =
     (case control_error message of
        Some e \<Rightarrow> Inl e
      | None \<Rightarrow> Inr (c\<lparr>ctl_requests := deliver_response message observed_at (ctl_requests c)\<rparr>))"

text \<open>\<open>_apply_update\<close> before and after its requests are answered; the answers are not read.\<close>

definition begin_update :: "subscription_update \<Rightarrow> subscription_update" where
  "begin_update u = u\<lparr>su_started := settle_future (Result ()) (su_started u)\<rparr>"

definition update_methods :: "subscription_update \<Rightarrow> (string \<times> string list) list" where
  "update_methods u = filter (\<lambda>(_, streams). streams \<noteq> []) [(''UNSUBSCRIBE'', su_remove u), (''SUBSCRIBE'', su_add u)]"

fun send_update :: "(string \<times> string list) list \<Rightarrow> control_requests \<Rightarrow> control_request list \<times> control_requests" where
  "send_update [] rq = ([], rq)"
| "send_update ((sent_method, streams) # methods) rq =
     (case send_request sent_method (Some streams) None rq of
        (Inl _, rq1) \<Rightarrow> ([], rq1)
      | (Inr q, rq1) \<Rightarrow> let (qs, rq2) = send_update methods rq1 in (q # qs, rq2))"

definition apply_members :: "subscription_update \<Rightarrow> string list \<Rightarrow> string list" where
  "apply_members u active = (let kept = filter (\<lambda>s. s \<notin> set (su_remove u)) active in
     kept @ filter (\<lambda>s. s \<notin> set kept) (remdups (su_add u)))"

definition answer_update :: "subscription_update \<Rightarrow> controller \<Rightarrow> subscription_update \<times> controller" where
  "answer_update u c =
     (let u1 = u\<lparr>su_acknowledged := settle_future (Result ()) (su_acknowledged u)\<rparr> in
      (if su_snapshot_requests u = [] then u1\<lparr>su_completion := settle_future (Result ()) (su_completion u1)\<rparr> else u1,
       c\<lparr>ctl_active := apply_members u (ctl_active c)\<rparr>))"

section \<open>Audits\<close>

definition audit_streams :: "control_message \<Rightarrow> string list" where
  "audit_streams message =
     (case jget message ''result'' of
        JList vs \<Rightarrow> if list_all (\<lambda>v. case v of JStr _ \<Rightarrow> True | _ \<Rightarrow> False) vs
          then map (\<lambda>v. case v of JStr s \<Rightarrow> s | _ \<Rightarrow> []) vs else []
      | _ \<Rightarrow> [])"

text \<open>\<open>self._subscription_proven_realtime_ns or ...\<close>: a stamp of zero counts as none.\<close>

definition affected_from :: "controller \<Rightarrow> int \<Rightarrow> int" where
  "affected_from c otherwise = (case ctl_proven_ns c of Some t \<Rightarrow> if t = 0 then otherwise else t | None \<Rightarrow> otherwise)"

definition validate_audit :: "control_response \<Rightarrow> controller \<Rightarrow> audit_error + unit" where
  "validate_audit response c =
     (if set (audit_streams (cr_message response)) = set (ctl_active c) then Inr ()
      else Inl (Audit_Error ''subscription audit mismatch'' (affected_from c (cr_observed_at response))))"

definition audit_answered :: "control_response \<Rightarrow> controller \<Rightarrow> audit_error + controller" where
  "audit_answered response c =
     rbind (validate_audit response c) (\<lambda>_. Inr (c\<lparr>ctl_audit_failures := 0, ctl_proven_ns := Some (cr_observed_at response)\<rparr>))"

definition audit_timed_out :: "int \<Rightarrow> controller \<Rightarrow> audit_error + controller" where
  "audit_timed_out now c =
     (let failures = ctl_audit_failures c + 1 in
      if ctl_failure_limit c \<le> failures then
        Inl (Audit_Error ''subscription audit response was not received'' (affected_from c now))
      else Inr (c\<lparr>ctl_audit_failures := failures\<rparr>))"

end
