(* ===== verification/Websocket.thy ===== *)
theory Websocket
  imports Stream_Decode Ws_Control Bridge
begin

text \<open>
  One websocket connection, \<open>src/miry/collector/websocket.py\<close>: the receive loop, the recoveries that bridge
  a snapshot into the depth diffs of a stream, and the gap that covers a broken sequence. The tasks of the
  event loop are data: the receiver is in one of its awaits, a recovery has its stage. A step runs one task
  from an await to its next one; an exception of any task ends the connection. Timeouts, replies of the
  exchange and the moments at which awaits return are inputs.
\<close>

section \<open>State\<close>

type_synonym depth_key = "stream_type \<times> string"

datatype recovery_owner = By_Bootstrap | By_Update nat | By_Reanchor nat

datatype recovery_stage = Await_Events | Fetching | Storing raw_event | Await_Decision

record recovery =
  rc_owner :: recovery_owner
  rc_key :: depth_key
  rc_attempt :: nat
  rc_stage :: recovery_stage

datatype receiver =
    Rx_Idle
  | Rx_Storing decoded_frame raw_event "py_error option"
  | Rx_Opening depth_key int int int

datatype gap_action = Gap_Opened nat depth_key int int int | Gap_Closed nat depth_key

record connection =
  cn_identity :: source_identity
  cn_events :: "raw_event list"
  cn_receiver :: receiver
  cn_requests :: "(string \<times> stream_type) list"
  cn_acknowledged :: bool
  cn_ready :: bool
  cn_transport_pending :: "depth_key list"
  cn_transport_ready :: bool
  cn_bridges :: "(depth_key, tracker) dict"
  cn_pending :: "(string \<times> stream_type) list"
  cn_recoveries :: "(nat, recovery) dict"
  cn_resync :: "(depth_key, nat) dict"
  cn_closing :: "(nat, nat \<times> depth_key) dict"
  cn_next_task :: nat
  cn_next_gap :: nat
  cn_gaps :: "gap_action list"
  cn_completed :: "nat list"

definition SNAPSHOT_BRIDGE_ATTEMPTS :: nat where
  "SNAPSHOT_BRIDGE_ATTEMPTS = 5"

definition new_connection :: "source_identity \<Rightarrow> (string \<times> stream_type) list \<Rightarrow> depth_key list \<Rightarrow> connection" where
  "new_connection identity requests transport_keys =
     \<lparr>cn_identity = identity, cn_events = [], cn_receiver = Rx_Idle, cn_requests = requests, cn_acknowledged = False, cn_ready = False,
       cn_transport_pending = transport_keys, cn_transport_ready = False, cn_bridges = [], cn_pending = requests,
       cn_recoveries = [], cn_resync = [], cn_closing = [], cn_next_task = 0, cn_next_gap = 0, cn_gaps = [], cn_completed = []\<rparr>"

definition default_tracker :: tracker where
  "default_tracker = \<lparr>maximum_buffered_events = 4096, tr_pending = [], snapshot_last_update_id = None, previous_update_id = None\<rparr>"

text \<open>\<open>self._bridges.setdefault(key, SnapshotBridgeTracker())\<close>\<close>

definition bridge_of :: "connection \<Rightarrow> depth_key \<Rightarrow> tracker" where
  "bridge_of c k = (case dict_get (cn_bridges c) k of Some t \<Rightarrow> t | None \<Rightarrow> default_tracker)"

definition set_bridge :: "depth_key \<Rightarrow> tracker \<Rightarrow> connection \<Rightarrow> connection" where
  "set_bridge k t c = c\<lparr>cn_bridges := dict_set k t (cn_bridges c)\<rparr>"

definition maybe_transport_ready :: "connection \<Rightarrow> connection" where
  "maybe_transport_ready c = (if cn_acknowledged c \<and> cn_transport_pending c = [] then c\<lparr>cn_transport_ready := True\<rparr> else c)"

section \<open>Recoveries\<close>

text \<open>\<open>_recover_snapshot_bridge\<close> until its first await.\<close>

definition start_recovery :: "recovery_owner \<Rightarrow> connection \<Rightarrow> string \<times> stream_type \<Rightarrow> py_error + connection" where
  "start_recovery owner c request =
     rbind (stream_type_for_snapshot (snd request)) (\<lambda>stream.
     let k = (stream, fst request) in
     Inr ((set_bridge k (bridge_of c k) c)\<lparr>cn_pending := request # removeAll request (cn_pending c),
       cn_recoveries := cn_recoveries c @ [(cn_next_task c, \<lparr>rc_owner = owner, rc_key = k, rc_attempt = 1, rc_stage = Await_Events\<rparr>)],
       cn_next_task := cn_next_task c + 1\<rparr>))"

definition snapshot_request_of :: "depth_key \<Rightarrow> string \<times> stream_type" where
  "snapshot_request_of k = (snd k, if fst k = DEPTH then DEPTH_SNAPSHOT else RPI_DEPTH_SNAPSHOT)"

definition owned_by :: "recovery_owner \<Rightarrow> connection \<Rightarrow> bool" where
  "owned_by owner c \<longleftrightarrow> list_ex (\<lambda>(_, r). rc_owner r = owner) (cn_recoveries c)"

text \<open>A recovery returns: the last one of the bootstrap makes the connection ready, the last one of an update completes it, and a
  reanchored stream closes its gap.\<close>

definition finish_recovery :: "nat \<Rightarrow> recovery \<Rightarrow> connection \<Rightarrow> connection" where
  "finish_recovery t r c =
     (let c1 = c\<lparr>cn_pending := removeAll (snapshot_request_of (rc_key r)) (cn_pending c), cn_recoveries := dict_pop t (cn_recoveries c)\<rparr> in
      case rc_owner r of
        By_Bootstrap \<Rightarrow> if owned_by By_Bootstrap c1 then c1 else c1\<lparr>cn_ready := True\<rparr>
      | By_Update n \<Rightarrow> if owned_by (By_Update n) c1 then c1 else c1\<lparr>cn_completed := cn_completed c1 @ [n]\<rparr>
      | By_Reanchor g \<Rightarrow> c1\<lparr>cn_closing := dict_set t (g, rc_key r) (cn_closing c1)\<rparr>)"

definition set_recovery :: "nat \<Rightarrow> recovery \<Rightarrow> connection \<Rightarrow> connection" where
  "set_recovery t r c = c\<lparr>cn_recoveries := dict_set t r (cn_recoveries c)\<rparr>"

definition next_attempt :: "nat \<Rightarrow> recovery \<Rightarrow> connection \<Rightarrow> py_error + connection" where
  "next_attempt t r c =
     (if rc_attempt r < SNAPSHOT_BRIDGE_ATTEMPTS then Inr (set_recovery t (r\<lparr>rc_attempt := rc_attempt r + 1, rc_stage := Await_Events\<rparr>) c)
      else Inl (OSError ''snapshot did not bridge''))"

text \<open>\<open>_fetch_snapshot\<close>: at most five requests, of which client errors and timeouts are repeated.\<close>

datatype http_reply = Client_Error string | Http_Error py_error | Snapshot_Payload string int int string

fun first_reply :: "nat \<Rightarrow> http_reply list \<Rightarrow> (py_error + string \<times> int \<times> int \<times> string) option" where
  "first_reply attempt [] = None"
| "first_reply attempt (Client_Error e # replies) = (if attempt = 4 then Some (Inl (OSError e)) else first_reply (attempt + 1) replies)"
| "first_reply attempt (Http_Error e # replies) = Some (Inl e)"
| "first_reply attempt (Snapshot_Payload payload requested observed request_id # replies) = Some (Inr (payload, requested, observed, request_id))"

definition last_update_id :: "frame_env \<Rightarrow> string \<Rightarrow> py_error + int" where
  "last_update_id env payload =
     (case fe_loads env payload of
        None \<Rightarrow> Inl (ValueError ''invalid JSON'')
      | Some (JObj fs) \<Rightarrow> (case map_of fs ''lastUpdateId'' of None \<Rightarrow> Inl (KeyError ''lastUpdateId'') | Some v \<Rightarrow> py_int v)
      | Some _ \<Rightarrow> Inl (ValueError ''depth snapshot is not an object''))"

definition recovery_fetched :: "frame_env \<Rightarrow> nat \<Rightarrow> recovery \<Rightarrow> int \<Rightarrow> string \<times> int \<times> int \<times> string \<Rightarrow> connection \<Rightarrow> py_error + connection" where
  "recovery_fetched env t r now = (\<lambda>(payload, requested, observed, request_id) c.
     rbind (identity_event (fe_unicode env) (snd (snapshot_request_of (rc_key r))) (Some (snd (rc_key r))) payload observed now
       (Some request_id) (Some requested) (cn_identity c)) (\<lambda>(e, i).
     Inr (set_recovery t (r\<lparr>rc_stage := Storing e\<rparr>) (c\<lparr>cn_identity := i\<rparr>))))"

definition recovery_stored :: "frame_env \<Rightarrow> nat \<Rightarrow> recovery \<Rightarrow> raw_event \<Rightarrow> connection \<Rightarrow> py_error + connection" where
  "recovery_stored env t r e c =
     rbind (last_update_id env (ev_payload_bytes e)) (\<lambda>l.
     let (result, tracker) = on_snapshot l (bridge_of c (rc_key r));
         c1 = (set_bridge (rc_key r) tracker c)\<lparr>cn_events := cn_events c @ [e]\<rparr> in
     if status result = BRIDGED then Inr (finish_recovery t r c1)
     else if status result = STALE_SNAPSHOT then next_attempt t r c1
     else Inr (set_recovery t (r\<lparr>rc_stage := Await_Decision\<rparr>) c1))"

definition recovery_decided :: "nat \<Rightarrow> recovery \<Rightarrow> connection \<Rightarrow> py_error + connection" where
  "recovery_decided t r c = (if is_bridged (bridge_of c (rc_key r)) then Inr (finish_recovery t r c) else next_attempt t r c)"

datatype recovery_event =
  Events_Seen | Events_Timeout | Replies int "http_reply list" | Snapshot_Stored | Decision_Seen | Decision_Timeout

definition recovery_step :: "frame_env \<Rightarrow> nat \<Rightarrow> recovery \<Rightarrow> recovery_event \<Rightarrow> connection \<Rightarrow> (py_error + connection) option" where
  "recovery_step env t r e c =
     (let tracker = bridge_of c (rc_key r) in
      case (rc_stage r, e) of
        (Await_Events, Events_Seen) \<Rightarrow> if has_events tracker then Some (Inr (set_recovery t (r\<lparr>rc_stage := Fetching\<rparr>) c)) else None
      | (Await_Events, Events_Timeout) \<Rightarrow> Some (Inl (OSError ''no depth event available before snapshot''))
      | (Fetching, Replies now replies) \<Rightarrow>
          (case first_reply 0 replies of
             None \<Rightarrow> None
           | Some (Inl err) \<Rightarrow> Some (Inl err)
           | Some (Inr reply) \<Rightarrow> Some (recovery_fetched env t r now reply c))
      | (Storing event, Snapshot_Stored) \<Rightarrow> Some (recovery_stored env t r event c)
      | (Await_Decision, Decision_Seen) \<Rightarrow>
          if snapshot_last_update_id tracker = None \<or> is_bridged tracker then Some (recovery_decided t r c) else None
      | (Await_Decision, Decision_Timeout) \<Rightarrow> Some (next_attempt t r (set_bridge (rc_key r) (invalidate tracker) c))
      | _ \<Rightarrow> None)"


section \<open>The receive loop\<close>

definition receive_frame :: "frame_env \<Rightarrow> string \<Rightarrow> int \<Rightarrow> int \<Rightarrow> connection \<Rightarrow> py_error + connection" where
  "receive_frame env raw realtime_ns monotonic_ns c =
     (let d = decode_websocket env raw in
      rbind (identity_event (fe_unicode env) (df_stream_type d) (df_symbol d) raw realtime_ns monotonic_ns None None (cn_identity c)) (\<lambda>(e, i).
      Inr (c\<lparr>cn_identity := i, cn_receiver := Rx_Storing d e
        (if df_stream_type d = WS_CONTROL then (case df_message d of Some message \<Rightarrow> if message = [] then None else control_error message | None \<Rightarrow> None)
         else None)\<rparr>)))"

text \<open>The key and the update span of a frame with depth data.\<close>

definition depth_of :: "decoded_frame \<Rightarrow> (depth_key \<times> (string \<times> json) list) option" where
  "depth_of d =
     (case (df_symbol d, df_data d) of
        (Some s, Some data) \<Rightarrow> if df_stream_type d \<in> {DEPTH, RPI_DEPTH} \<and> s \<noteq> [] then Some ((df_stream_type d, s), data) else None
      | _ \<Rightarrow> None)"

definition id_field :: "(string \<times> json) list \<Rightarrow> string \<Rightarrow> py_error + int" where
  "id_field data k = (case map_of data k of None \<Rightarrow> Inl (KeyError k) | Some v \<Rightarrow> py_int v)"

definition span_of :: "raw_event \<Rightarrow> (string \<times> json) list \<Rightarrow> py_error + update_span" where
  "span_of e data =
     rbind (id_field data ''U'') (\<lambda>first.
     rbind (id_field data ''u'') (\<lambda>final.
     rbind (id_field data ''pu'') (\<lambda>previous.
     Inr \<lparr>span_receive_seq = ev_receive_seq e, first_update_id = first, final_update_id = final, previous_final_update_id = previous\<rparr>)))"

definition recovering :: "connection \<Rightarrow> depth_key \<Rightarrow> bool" where
  "recovering c k \<longleftrightarrow> list_ex (\<lambda>(_, r). rc_key r = k) (cn_recoveries c)"

text \<open>\<open>_observe_depth_update\<close> until it awaits the gap journal.\<close>

definition observe_depth :: "depth_key \<Rightarrow> update_span \<Rightarrow> int \<Rightarrow> connection \<Rightarrow> py_error + connection" where
  "observe_depth k sp received_ns c =
     (let (result, tracker) = on_diff sp (bridge_of c k); c1 = set_bridge k tracker c in
      if status result \<noteq> SEQUENCE_GAP \<or> dict_get (cn_resync c) k \<noteq> None \<or> snapshot_request_of k \<in> set (cn_pending c) then Inr c1
      else case (expected_previous_update_id result, received_previous_update_id result) of
          (Some expected, Some previous) \<Rightarrow> Inr (c1\<lparr>cn_receiver := Rx_Opening k expected previous received_ns\<rparr>)
        | _ \<Rightarrow> Inl (AssertionError ''sequence gap result omitted update IDs''))"

definition frame_stored :: "decoded_frame \<Rightarrow> raw_event \<Rightarrow> py_error option \<Rightarrow> connection \<Rightarrow> py_error + connection" where
  "frame_stored d e err c =
     (let c1 = c\<lparr>cn_events := cn_events c @ [e], cn_receiver := Rx_Idle\<rparr> in
      case err of
        Some x \<Rightarrow> Inl x
      | None \<Rightarrow>
          let k = (df_stream_type d, case df_symbol d of Some s \<Rightarrow> s | None \<Rightarrow> []);
              c2 = maybe_transport_ready (c1\<lparr>cn_transport_pending := removeAll k (cn_transport_pending c1)\<rparr>) in
          (case depth_of d of
             None \<Rightarrow> Inr c2
           | Some (k, data) \<Rightarrow> rbind (span_of e data) (\<lambda>sp. observe_depth k sp (ev_app_receive_realtime_ns e) c2)))"

text \<open>The gap is open: its recovery starts and is the one of its stream.\<close>

definition gap_opened :: "depth_key \<Rightarrow> int \<Rightarrow> int \<Rightarrow> int \<Rightarrow> connection \<Rightarrow> py_error + connection" where
  "gap_opened k expected previous received_ns c =
     (let g = cn_next_gap c; t = cn_next_task c;
          c1 = c\<lparr>cn_gaps := cn_gaps c @ [Gap_Opened g k expected previous received_ns], cn_next_gap := g + 1, cn_receiver := Rx_Idle,
            cn_resync := dict_set k t (cn_resync c)\<rparr> in
      start_recovery (By_Reanchor g) c1 (snapshot_request_of k))"

section \<open>The connection\<close>

text \<open>The end of the subscription handshake.\<close>

definition connection_acknowledged :: "connection \<Rightarrow> py_error + connection" where
  "connection_acknowledged c =
     (let c1 = maybe_transport_ready (c\<lparr>cn_acknowledged := True\<rparr>) in
      if cn_requests c = [] then Inr (c1\<lparr>cn_ready := True\<rparr>)
      else fold_result (start_recovery By_Bootstrap) c1 (cn_requests c))"

text \<open>\<open>_fetch_requested_snapshots\<close>\<close>

definition snapshots_requested :: "nat \<Rightarrow> (string \<times> stream_type) list \<Rightarrow> connection \<Rightarrow> py_error + connection" where
  "snapshots_requested n requests c =
     (if requests = [] then Inr (c\<lparr>cn_completed := cn_completed c @ [n]\<rparr>)
      else fold_result (start_recovery (By_Update n)) c requests)"

text \<open>\<open>_resync_done\<close> after the gap of a reanchored stream is closed.\<close>

definition gap_closed :: "nat \<Rightarrow> nat \<Rightarrow> depth_key \<Rightarrow> connection \<Rightarrow> connection" where
  "gap_closed t g k c = c\<lparr>cn_gaps := cn_gaps c @ [Gap_Closed g k], cn_closing := dict_pop t (cn_closing c),
     cn_resync := (if dict_get (cn_resync c) k = Some t then dict_pop k (cn_resync c) else cn_resync c)\<rparr>"

datatype connection_event =
    Frame string int int
  | Frame_Stored
  | Store_Failed
  | Gap_Journaled
  | Recovery nat recovery_event
  | Gap_Close_Journaled nat
  | Acknowledged
  | Update_Requested nat "(string \<times> stream_type) list"

definition connection_step :: "frame_env \<Rightarrow> connection_event \<Rightarrow> connection \<Rightarrow> (py_error + connection) option" where
  "connection_step env e c =
     (case e of
        Frame raw realtime_ns monotonic_ns \<Rightarrow>
          if cn_receiver c = Rx_Idle then Some (receive_frame env raw realtime_ns monotonic_ns c) else None
      | Frame_Stored \<Rightarrow> (case cn_receiver c of Rx_Storing d event err \<Rightarrow> Some (frame_stored d event err c) | _ \<Rightarrow> None)
      | Store_Failed \<Rightarrow> Some (Inl QueueOverloaded)
      | Gap_Journaled \<Rightarrow>
          (case cn_receiver c of Rx_Opening k expected previous ns \<Rightarrow> Some (gap_opened k expected previous ns c) | _ \<Rightarrow> None)
      | Recovery t re \<Rightarrow> (case dict_get (cn_recoveries c) t of Some r \<Rightarrow> recovery_step env t r re c | None \<Rightarrow> None)
      | Gap_Close_Journaled t \<Rightarrow> (case dict_get (cn_closing c) t of Some (g, k) \<Rightarrow> Some (Inr (gap_closed t g k c)) | None \<Rightarrow> None)
      | Acknowledged \<Rightarrow> if cn_acknowledged c then None else Some (connection_acknowledged c)
      | Update_Requested n requests \<Rightarrow> if cn_ready c then Some (snapshots_requested n requests c) else None)"

end
