(* ===== verification/Websocket_Run.thy ===== *)
theory Websocket_Run
  imports Websocket
begin

text \<open>
  Runs of a websocket connection: once it is ready every depth stream it was asked for is bridged, or a
  recovery is on its way and the gap it closes is still open. The exception is a break that is seen while
  the gap of the previous one is being closed.
\<close>

section \<open>Runs\<close>

text \<open>A break is missed when it is seen after the recovery of its stream has ended and before its gap is closed.\<close>

definition missed_break :: "connection_event \<Rightarrow> connection \<Rightarrow> bool" where
  "missed_break ev c \<longleftrightarrow>
     (case (ev, cn_receiver c) of
        (Frame_Stored, Rx_Storing d e err) \<Rightarrow>
          (case depth_of d of
             None \<Rightarrow> False
           | Some (k, data) \<Rightarrow>
               (case span_of e data of
                  Inl _ \<Rightarrow> False
                | Inr sp \<Rightarrow> status (fst (on_diff sp (bridge_of c k))) = SEQUENCE_GAP \<and> dict_get (cn_resync c) k \<noteq> None \<and> \<not> recovering c k))
      | _ \<Rightarrow> False)"

inductive connection_run :: "frame_env \<Rightarrow> connection \<Rightarrow> bool \<Rightarrow> connection \<Rightarrow> bool" for env c0 where
  connected: "connection_run env c0 True c0"
| stepped: "connection_run env c0 noticed c \<Longrightarrow> connection_step env ev c = Some (Inr c') \<Longrightarrow>
    connection_run env c0 (noticed \<and> \<not> missed_break ev c) c'"

section \<open>Invariants\<close>

definition journaling :: "connection \<Rightarrow> depth_key \<Rightarrow> bool" where
  "journaling c k \<longleftrightarrow> (case cn_receiver c of Rx_Opening k' _ _ _ \<Rightarrow> k' = k | _ \<Rightarrow> False)"

definition covered :: "connection \<Rightarrow> depth_key \<Rightarrow> bool" where
  "covered c k \<longleftrightarrow> is_bridged (bridge_of c k) \<or> recovering c k \<or> journaling c k"

definition depth_key :: "depth_key \<Rightarrow> bool" where
  "depth_key k \<longleftrightarrow> fst k \<in> {DEPTH, RPI_DEPTH}"

definition untouched_bridge :: "tracker \<Rightarrow> bool" where
  "untouched_bridge t \<longleftrightarrow> snapshot_last_update_id t = None \<and> previous_update_id t = None"

definition tasks_ok :: "connection \<Rightarrow> bool" where
  "tasks_ok c \<longleftrightarrow> dict_ok (cn_recoveries c) \<and>
     (\<forall>t r. dict_get (cn_recoveries c) t = Some r \<longrightarrow> t < cn_next_task c \<and> depth_key (rc_key r)) \<and>
     (\<forall>k. journaling c k \<longrightarrow> depth_key k)"

definition before_ack :: "connection \<Rightarrow> bool" where
  "before_ack c \<longleftrightarrow> cn_recoveries c = [] \<and> (\<forall>k. untouched_bridge (bridge_of c k) \<and> \<not> journaling c k) \<and> \<not> cn_ready c \<and>
     set (cn_pending c) \<subseteq> set (cn_requests c)"

definition after_ack :: "connection \<Rightarrow> bool" where
  "after_ack c \<longleftrightarrow> (\<forall>request \<in> set (cn_requests c). \<exists>stream. stream_type_for_snapshot (snd request) = Inr stream \<and> covered c (stream, fst request)) \<and>
     (\<forall>k. depth_key k \<longrightarrow> snapshot_request_of k \<in> set (cn_pending c) \<longrightarrow> recovering c k)"

definition connection_ok :: "connection \<Rightarrow> bool" where
  "connection_ok c \<longleftrightarrow> tasks_ok c \<and> (if cn_acknowledged c then after_ack c else before_ack c)"

section \<open>Lookups\<close>

lemma recovering_iff: "dict_ok (cn_recoveries c) \<Longrightarrow> recovering c k \<longleftrightarrow> (\<exists>t r. dict_get (cn_recoveries c) t = Some r \<and> rc_key r = k)"
  by (auto simp: recovering_def list_ex_iff dict_get_Some_iff)

lemma bridge_of_set: "bridge_of (set_bridge k t c) k' = (if k' = k then t else bridge_of c k')"
  by (simp add: bridge_of_def set_bridge_def)

lemma stream_of_snapshot: "stream_type_for_snapshot snap = Inr stream \<Longrightarrow>
    depth_key (stream, s) \<and> snapshot_request_of (stream, s) = (s, snap)"
  by (cases snap) (auto simp: stream_type_for_snapshot_def depth_key_def snapshot_request_of_def)

lemma snapshot_of_stream: "depth_key k \<Longrightarrow> stream_type_for_snapshot (snd (snapshot_request_of k)) = Inr (fst k) \<and> fst (snapshot_request_of k) = snd k"
  by (auto simp: depth_key_def snapshot_request_of_def stream_type_for_snapshot_def)

lemma snapshot_request_inj: "depth_key k \<Longrightarrow> depth_key k' \<Longrightarrow> snapshot_request_of k = snapshot_request_of k' \<longleftrightarrow> k = k'"
  by (auto simp: depth_key_def snapshot_request_of_def prod_eq_iff)

lemma depth_of_key: "depth_of d = Some (k, data) \<Longrightarrow> depth_key k"
  by (auto simp: depth_of_def depth_key_def split: option.splits if_splits)

text \<open>A diff never bridges without a snapshot.\<close>

lemma untouched_diff:
  assumes "untouched_bridge t"
  shows "untouched_bridge (snd (on_diff sp t))" "status (fst (on_diff sp t)) = WAITING_FOR_EVENTS"
  using assms by (simp_all add: untouched_bridge_def on_diff_def Let_def evaluate_snapshot_def bridge_result_of_def)

lemma diff_unbridges: "is_bridged t \<Longrightarrow> \<not> is_bridged (snd (on_diff sp t)) \<Longrightarrow> status (fst (on_diff sp t)) = SEQUENCE_GAP"
  by (auto simp: is_bridged_def on_diff_def Let_def bridge_result_of_def split: if_splits)

section \<open>Steps of recoveries\<close>

lemma start_recovery_effect:
  assumes "start_recovery owner c request = Inr c'"
  obtains stream where "stream_type_for_snapshot (snd request) = Inr stream"
    "cn_recoveries c' = cn_recoveries c @ [(cn_next_task c, \<lparr>rc_owner = owner, rc_key = (stream, fst request), rc_attempt = 1, rc_stage = Await_Events\<rparr>)]"
    "cn_next_task c' = cn_next_task c + 1" "set (cn_pending c') = insert request (set (cn_pending c))"
    "\<And>k. bridge_of c' k = bridge_of c k" "cn_receiver c' = cn_receiver c" "cn_requests c' = cn_requests c"
    "cn_acknowledged c' = cn_acknowledged c" "cn_ready c' = cn_ready c"
proof -
  obtain stream where s: "stream_type_for_snapshot (snd request) = Inr stream" using assms by (auto simp: start_recovery_def rbind_Inr_iff)
  show thesis by (rule that [OF s]) (use assms s in \<open>auto simp: start_recovery_def Let_def bridge_of_def set_bridge_def\<close>)
qed

text \<open>What starting recoveries does, whether the handshake is over or not.\<close>

lemma start_recovery_ok:
  assumes "start_recovery owner c request = Inr c'" "tasks_ok c"
  shows "tasks_ok c' \<and> (\<forall>k. covered c k \<longrightarrow> covered c' k) \<and> (\<forall>k. recovering c k \<longrightarrow> recovering c' k) \<and>
    (\<exists>stream. stream_type_for_snapshot (snd request) = Inr stream \<and> recovering c' (stream, fst request)) \<and>
    set (cn_pending c') = insert request (set (cn_pending c)) \<and> cn_requests c' = cn_requests c \<and>
    cn_acknowledged c' = cn_acknowledged c \<and> cn_ready c' = cn_ready c"
  using assms(1)
proof (rule start_recovery_effect)
  fix stream
  assume e: "stream_type_for_snapshot (snd request) = Inr stream"
    "cn_recoveries c' = cn_recoveries c @ [(cn_next_task c, \<lparr>rc_owner = owner, rc_key = (stream, fst request), rc_attempt = 1, rc_stage = Await_Events\<rparr>)]"
    "cn_next_task c' = cn_next_task c + 1" "set (cn_pending c') = insert request (set (cn_pending c))"
    "\<And>k. bridge_of c' k = bridge_of c k" "cn_receiver c' = cn_receiver c" "cn_requests c' = cn_requests c"
    "cn_acknowledged c' = cn_acknowledged c" "cn_ready c' = cn_ready c"
  have fresh: "cn_next_task c \<notin> fst ` set (cn_recoveries c)"
  proof
    assume "cn_next_task c \<in> fst ` set (cn_recoveries c)"
    then obtain r where "(cn_next_task c, r) \<in> set (cn_recoveries c)" by auto
    then have "dict_get (cn_recoveries c) (cn_next_task c) = Some r" using assms(2) by (simp add: tasks_ok_def dict_get_Some_iff)
    then show False using assms(2) by (auto simp: tasks_ok_def)
  qed
  have ok: "dict_ok (cn_recoveries c')" using assms(2) fresh by (simp add: e(2) dict_ok_def tasks_ok_def)
  have get: "dict_get (cn_recoveries c') t = (case dict_get (cn_recoveries c) t of Some r \<Rightarrow> Some r
      | None \<Rightarrow> if t = cn_next_task c then Some \<lparr>rc_owner = owner, rc_key = (stream, fst request), rc_attempt = 1, rc_stage = Await_Events\<rparr> else None)" for t
    by (simp add: e(2) dict_get_def map_add_def split: option.split)
  have op: "journaling c' k = journaling c k" for k by (simp add: journaling_def e(6))
  have "tasks_ok c'"
    using assms(2) ok stream_of_snapshot [OF e(1), of "fst request"] unfolding tasks_ok_def get e(3) op
    by (auto split: option.splits if_splits intro: less_SucI)
  moreover have "recovering c k \<Longrightarrow> recovering c' k" for k by (auto simp: recovering_def e(2))
  moreover have "recovering c' (stream, fst request)" by (simp add: recovering_def e(2))
  ultimately show ?thesis using e op by (auto simp: covered_def)
qed

lemma start_recoveries_ok:
  assumes "fold_result (start_recovery owner) c requests = Inr c'" "tasks_ok c"
  shows "tasks_ok c' \<and> (\<forall>k. covered c k \<longrightarrow> covered c' k) \<and> (\<forall>k. recovering c k \<longrightarrow> recovering c' k) \<and>
    (\<forall>request \<in> set requests. \<exists>stream. stream_type_for_snapshot (snd request) = Inr stream \<and> recovering c' (stream, fst request)) \<and>
    set (cn_pending c') = set requests \<union> set (cn_pending c) \<and> cn_requests c' = cn_requests c \<and>
    cn_acknowledged c' = cn_acknowledged c \<and> cn_ready c' = cn_ready c"
  using assms
proof (induction requests arbitrary: c)
  case (Cons request requests)
  then obtain c1 where c1: "start_recovery owner c request = Inr c1" "fold_result (start_recovery owner) c1 requests = Inr c'"
    by (auto simp: rbind_Inr_iff)
  note one = start_recovery_ok [OF c1(1) Cons.prems(2)]
  then have "tasks_ok c1" by blast
  note rest = Cons.IH [OF c1(2) this]
  show ?case using one rest by auto
qed simp

section \<open>Steps keep the invariant\<close>

lemma connection_view_cong:
  assumes "cn_bridges c' = cn_bridges c" "cn_recoveries c' = cn_recoveries c" "cn_next_task c' = cn_next_task c" "cn_pending c' = cn_pending c"
    "cn_requests c' = cn_requests c" "cn_acknowledged c' = cn_acknowledged c" "cn_ready c' = cn_ready c" "\<And>k. journaling c' k = journaling c k"
  shows "connection_ok c' = connection_ok c"
proof -
  have r: "recovering c' = recovering c" using assms(2) by (simp add: recovering_def fun_eq_iff)
  have b: "bridge_of c' = bridge_of c" using assms(1) by (simp add: bridge_of_def fun_eq_iff)
  have "covered c' = covered c" using r b assms(8) by (simp add: covered_def fun_eq_iff)
  then show ?thesis using r b assms by (simp add: connection_ok_def tasks_ok_def after_ack_def before_ack_def)
qed

lemma task_running:
  assumes "connection_ok c" "dict_get (cn_recoveries c) t = Some r"
  shows "tasks_ok c" "cn_acknowledged c" "after_ack c" "recovering c (rc_key r)" "depth_key (rc_key r)"
proof -
  show ok: "tasks_ok c" using assms(1) by (simp add: connection_ok_def)
  show "cn_acknowledged c" using assms by (auto simp: connection_ok_def before_ack_def split: if_splits)
  then show "after_ack c" using assms(1) by (simp add: connection_ok_def)
  show "recovering c (rc_key r)" "depth_key (rc_key r)" using ok assms(2) recovering_iff by (auto simp: tasks_ok_def)
qed

lemma after_ack_mono:
  assumes "after_ack c" "cn_requests c' = cn_requests c" "\<And>k. covered c k \<Longrightarrow> covered c' k"
    and "\<And>k. depth_key k \<Longrightarrow> snapshot_request_of k \<in> set (cn_pending c') \<Longrightarrow> recovering c' k"
  shows "after_ack c'"
  using assms unfolding after_ack_def by metis

lemma after_ackD: "after_ack c \<Longrightarrow> depth_key k \<Longrightarrow> snapshot_request_of k \<in> set (cn_pending c) \<Longrightarrow> recovering c k"
  unfolding after_ack_def by blast

lemma set_bridge_ok:
  assumes "connection_ok c" "dict_get (cn_recoveries c) t = Some r"
  shows "connection_ok (set_bridge (rc_key r) tr c)"
proof -
  let ?c = "set_bridge (rc_key r) tr c"
  note T = task_running [OF assms]
  have fields: "cn_recoveries ?c = cn_recoveries c" "cn_next_task ?c = cn_next_task c" "cn_pending ?c = cn_pending c"
    "cn_requests ?c = cn_requests c" "cn_acknowledged ?c = cn_acknowledged c" "cn_receiver ?c = cn_receiver c"
    by (simp_all add: set_bridge_def)
  have r: "recovering ?c k = recovering c k" "journaling ?c k = journaling c k" for k by (simp_all add: recovering_def journaling_def fields)
  have "covered c k \<Longrightarrow> covered ?c k" for k using T(4) by (cases "k = rc_key r") (auto simp: covered_def r bridge_of_set)
  then have "after_ack ?c" using T(3) r fields by (intro after_ack_mono [OF T(3)]) (auto simp: after_ack_def)
  moreover have "tasks_ok ?c" using T(1) r fields by (simp add: tasks_ok_def)
  ultimately show ?thesis using T(2) by (simp add: connection_ok_def fields)
qed

lemma set_recovery_ok:
  assumes "connection_ok c" "dict_get (cn_recoveries c) t = Some r" "rc_key r' = rc_key r"
  shows "connection_ok (set_recovery t r' c)"
proof -
  let ?c = "set_recovery t r' c"
  note T = task_running [OF assms(1,2)]
  have fields: "cn_recoveries ?c = dict_set t r' (cn_recoveries c)" "cn_next_task ?c = cn_next_task c" "cn_pending ?c = cn_pending c"
    "cn_requests ?c = cn_requests c" "cn_acknowledged ?c = cn_acknowledged c" "cn_receiver ?c = cn_receiver c" "bridge_of ?c = bridge_of c"
    by (simp_all add: set_recovery_def bridge_of_def fun_eq_iff)
  have ok: "dict_ok (cn_recoveries ?c)" "dict_ok (cn_recoveries c)" using T(1) by (simp_all add: tasks_ok_def fields)
  have r: "recovering ?c k = recovering c k" for k
    using assms(2,3) unfolding recovering_iff [OF ok(1)] recovering_iff [OF ok(2)] fields(1) dict_get_set fun_upd_apply by (metis option.inject)
  have j: "journaling ?c k = journaling c k" for k by (simp add: journaling_def fields)
  have "covered c k \<Longrightarrow> covered ?c k" for k by (simp add: covered_def r j fields)
  then have "after_ack ?c" using T(3) r fields by (intro after_ack_mono [OF T(3)]) (auto simp: after_ack_def)
  moreover have "tasks_ok ?c" using T(1) ok(1) assms(2,3) unfolding tasks_ok_def fields dict_get_set j by auto
  ultimately show ?thesis using T(2) by (simp add: connection_ok_def fields)
qed

lemma finish_recovery_fields:
  "cn_recoveries (finish_recovery t r c) = dict_pop t (cn_recoveries c)" "cn_next_task (finish_recovery t r c) = cn_next_task c"
  "cn_pending (finish_recovery t r c) = removeAll (snapshot_request_of (rc_key r)) (cn_pending c)"
  "cn_requests (finish_recovery t r c) = cn_requests c" "cn_acknowledged (finish_recovery t r c) = cn_acknowledged c"
  "cn_receiver (finish_recovery t r c) = cn_receiver c" "bridge_of (finish_recovery t r c) = bridge_of c"
  by (simp_all add: finish_recovery_def Let_def bridge_of_def fun_eq_iff split: recovery_owner.split)

lemma finish_recovery_ok:
  assumes "connection_ok c" "dict_get (cn_recoveries c) t = Some r" "is_bridged (bridge_of c (rc_key r))"
  shows "connection_ok (finish_recovery t r c)"
proof -
  let ?c = "finish_recovery t r c"
  note fields = finish_recovery_fields [of t r c]
  note T = task_running [OF assms(1,2)]
  have ok: "dict_ok (cn_recoveries ?c)" "dict_ok (cn_recoveries c)" using T(1) by (simp_all add: tasks_ok_def fields)
  have r: "recovering ?c k" if "recovering c k" "k \<noteq> rc_key r" for k
    using that assms(2) unfolding recovering_iff [OF ok(1)] recovering_iff [OF ok(2)] fields(1) dict_get_pop fun_upd_apply by (metis option.inject)
  have j: "journaling ?c k = journaling c k" for k by (simp add: journaling_def fields)
  have "covered c k \<Longrightarrow> covered ?c k" for k using r [of k] assms(3) by (cases "k = rc_key r") (auto simp: covered_def j fields)
  moreover have "recovering ?c k" if "depth_key k" "snapshot_request_of k \<in> set (cn_pending ?c)" for k
  proof -
    have "k \<noteq> rc_key r" "snapshot_request_of k \<in> set (cn_pending c)" using that(2) by (auto simp: fields)
    then show ?thesis using that(1) r [of k] T(3) unfolding after_ack_def by blast
  qed
  ultimately have "after_ack ?c" using fields by (intro after_ack_mono [OF T(3)])
  moreover have "tasks_ok ?c" using T(1) ok(1) unfolding tasks_ok_def fields dict_get_pop j by auto
  ultimately show ?thesis using T(2) by (simp add: connection_ok_def fields)
qed

lemma next_attempt_ok:
  "connection_ok c \<Longrightarrow> dict_get (cn_recoveries c) t = Some r \<Longrightarrow> next_attempt t r c = Inr c' \<Longrightarrow> connection_ok c'"
  using set_recovery_ok [of c t r] by (auto simp: next_attempt_def split: if_splits)

lemma same_recoveries: "cn_recoveries (set_bridge k tr c) = cn_recoveries c"
  by (simp add: set_bridge_def)

lemma snapshot_bridged: "status (fst (on_snapshot l t)) = BRIDGED \<Longrightarrow> is_bridged (snd (on_snapshot l t))"
  by (cases "t\<lparr>snapshot_last_update_id := Some l, previous_update_id := None\<rparr>" rule: evaluate_cases)
    (auto simp: on_snapshot_def is_bridged_def bridge_result_of_def)

lemma recovery_stored_ok:
  assumes "connection_ok c" "dict_get (cn_recoveries c) t = Some r" "recovery_stored env t r e c = Inr c'"
  shows "connection_ok c'"
proof -
  obtain l where l: "last_update_id env (ev_payload_bytes e) = Inr l" using assms(3) by (auto simp: recovery_stored_def rbind_Inr_iff)
  let ?res = "on_snapshot l (bridge_of c (rc_key r))"
  define c1 where "c1 = (set_bridge (rc_key r) (snd ?res) c)\<lparr>cn_events := cn_events c @ [e]\<rparr>"
  have "connection_ok c1 = connection_ok (set_bridge (rc_key r) (snd ?res) c)"
    unfolding c1_def by (rule connection_view_cong) (simp_all add: journaling_def)
  then have ok: "connection_ok c1" using set_bridge_ok [OF assms(1,2)] by simp
  have get: "dict_get (cn_recoveries c1) t = Some r" using assms(2) by (simp add: c1_def same_recoveries)
  have bridge: "bridge_of c1 (rc_key r) = snd ?res" using bridge_of_set [of "rc_key r" "snd ?res" c "rc_key r"] by (simp add: c1_def bridge_of_def)
  have "c' = finish_recovery t r c1 \<and> status (fst ?res) = BRIDGED \<or> next_attempt t r c1 = Inr c' \<or> c' = set_recovery t (r\<lparr>rc_stage := Await_Decision\<rparr>) c1"
    using assms(3) l by (auto simp: recovery_stored_def c1_def Let_def split: prod.splits if_splits)
  then show ?thesis
    using finish_recovery_ok [OF ok get] snapshot_bridged bridge next_attempt_ok [OF ok get] set_recovery_ok [OF ok get] by auto
qed

lemma recovery_fetched_ok:
  assumes "connection_ok c" "dict_get (cn_recoveries c) t = Some r" "recovery_fetched env t r now reply c = Inr c'"
  shows "connection_ok c'"
proof -
  obtain e i where c': "c' = set_recovery t (r\<lparr>rc_stage := Storing e\<rparr>) (c\<lparr>cn_identity := i\<rparr>)"
    using assms(3) by (cases reply) (auto simp: recovery_fetched_def rbind_Inr_iff)
  have "connection_ok (c\<lparr>cn_identity := i\<rparr>) = connection_ok c" by (rule connection_view_cong) (simp_all add: journaling_def)
  then show ?thesis using set_recovery_ok [of "c\<lparr>cn_identity := i\<rparr>" t r] assms(1,2) by (simp add: c')
qed

lemma recovery_step_ok:
  assumes "connection_ok c" "dict_get (cn_recoveries c) t = Some r" "recovery_step env t r re c = Some (Inr c')"
  shows "connection_ok c'"
proof -
  have "dict_get (cn_recoveries (set_bridge (rc_key r) tr c)) t = Some r" for tr using assms(2) by (simp add: same_recoveries)
  then have invalidated: "next_attempt t r (set_bridge (rc_key r) tr c) = Inr c' \<Longrightarrow> ?thesis" for tr
    using next_attempt_ok [OF set_bridge_ok [OF assms(1,2)]] by blast
  show ?thesis
    using assms(3) set_recovery_ok [OF assms(1,2)] recovery_stored_ok [OF assms(1,2)] recovery_fetched_ok [OF assms(1,2)]
      next_attempt_ok [OF assms(1,2)] finish_recovery_ok [OF assms(1,2)] invalidated
    by (auto simp: recovery_step_def recovery_decided_def Let_def split: recovery_stage.splits recovery_event.splits if_splits option.splits sum.splits)
qed


lemma before_ackD:
  "before_ack c \<Longrightarrow> untouched_bridge (bridge_of c k)" "before_ack c \<Longrightarrow> \<not> journaling c k" "before_ack c \<Longrightarrow> cn_recoveries c = []"
  "before_ack c \<Longrightarrow> \<not> cn_ready c" "before_ack c \<Longrightarrow> set (cn_pending c) \<subseteq> set (cn_requests c)"
  unfolding before_ack_def by blast+

text \<open>The receiver: a diff may break a bridge, and then it awaits the gap, unless a recovery runs or the break is missed.\<close>

lemma observe_depth_ok:
  assumes "connection_ok c" "depth_key k" "cn_receiver c = Rx_Idle" "observe_depth k sp ns c = Inr c'"
    and noticed: "\<not> (status (fst (on_diff sp (bridge_of c k))) = SEQUENCE_GAP \<and> dict_get (cn_resync c) k \<noteq> None \<and> \<not> recovering c k)"
  shows "connection_ok c'"
proof -
  let ?res = "on_diff sp (bridge_of c k)"
  define c1 where "c1 = set_bridge k (snd ?res) c"
  have fields: "cn_recoveries c1 = cn_recoveries c" "cn_next_task c1 = cn_next_task c" "cn_pending c1 = cn_pending c" "cn_ready c1 = cn_ready c"
    "cn_requests c1 = cn_requests c" "cn_acknowledged c1 = cn_acknowledged c" "cn_receiver c1 = Rx_Idle" "cn_resync c1 = cn_resync c"
    by (simp_all add: c1_def set_bridge_def assms(3))
  have b: "bridge_of c1 k' = (if k' = k then snd ?res else bridge_of c k')" for k' by (simp add: c1_def bridge_of_set)
  have r: "recovering c1 k' = recovering c k'" "\<not> journaling c k'" "\<not> journaling c1 k'" for k'
    by (simp_all add: recovering_def journaling_def fields assms(3))
  have cases: "c' = c1 \<and> (status (fst ?res) \<noteq> SEQUENCE_GAP \<or> dict_get (cn_resync c) k \<noteq> None \<or> snapshot_request_of k \<in> set (cn_pending c)) \<or>
      status (fst ?res) = SEQUENCE_GAP \<and> (\<exists>x y. c' = c1\<lparr>cn_receiver := Rx_Opening k x y ns\<rparr>)"
    using assms(4) unfolding observe_depth_def case_prod_beta Let_def c1_def [symmetric] by (auto split: if_splits option.splits)
  have tasks: "tasks_ok c" using assms(1) by (simp add: connection_ok_def)
  show ?thesis
  proof (cases "cn_acknowledged c")
    case False
    then have pre: "before_ack c" using assms(1) by (simp add: connection_ok_def)
    then have same: "c' = c1" using cases untouched_diff(2) [OF before_ackD(1) [OF pre], of sp k] by auto
    have u: "untouched_bridge (bridge_of c1 k')" for k'
      unfolding b using before_ackD(1) [OF pre] untouched_diff(1) [OF before_ackD(1) [OF pre]] by simp
    have "before_ack c1" using u r(3) before_ackD(3-5) [OF pre] unfolding before_ack_def fields by blast
    moreover have "tasks_ok c1" using tasks r(3) unfolding tasks_ok_def fields by blast
    ultimately show ?thesis using False by (simp add: same connection_ok_def fields)
  next
    case True
    then have post: "after_ack c" using assms(1) by (simp add: connection_ok_def)
    have c': "cn_recoveries c' = cn_recoveries c" "cn_next_task c' = cn_next_task c" "cn_pending c' = cn_pending c"
      "cn_requests c' = cn_requests c" "cn_acknowledged c'" "bridge_of c' = bridge_of c1" "recovering c' = recovering c"
      using cases True by (auto simp: fields bridge_of_def recovering_def fun_eq_iff)
    have "covered c' k'" if "covered c k'" for k'
    proof (cases "k' = k")
      case False
      then have "bridge_of c' k' = bridge_of c k'" by (simp add: c' b)
      then show ?thesis using that r(2) unfolding covered_def c'(7) by metis
    next
      case True
      show ?thesis
      proof (cases "recovering c k \<or> is_bridged (snd ?res)")
        case True
        then show ?thesis using \<open>k' = k\<close> by (auto simp: covered_def c' b)
      next
        case False
        then have "is_bridged (bridge_of c k)" using that \<open>k' = k\<close> r by (auto simp: covered_def)
        then have gap: "status (fst ?res) = SEQUENCE_GAP" using diff_unbridges False by blast
        moreover have "snapshot_request_of k \<notin> set (cn_pending c)" using after_ackD [OF post assms(2)] False by blast
        ultimately have "journaling c' k" using cases noticed False by (auto simp: journaling_def)
        then show ?thesis using \<open>k' = k\<close> by (simp add: covered_def)
      qed
    qed
    then have "after_ack c'" by (intro after_ack_mono [OF post]) (simp_all add: c' after_ackD [OF post])
    moreover have "cn_receiver c' = Rx_Idle \<or> (\<exists>x y. cn_receiver c' = Rx_Opening k x y ns)" using cases by (auto simp: fields)
    then have "journaling c' k' \<Longrightarrow> k' = k" for k' by (auto simp: journaling_def)
    then have "tasks_ok c'" using tasks assms(2) unfolding tasks_ok_def c' by blast
    ultimately show ?thesis using c' by (simp add: connection_ok_def)
  qed
qed

lemma frame_stored_ok:
  assumes "connection_ok c" "cn_receiver c = Rx_Storing d e err" "frame_stored d e err c = Inr c'" "\<not> missed_break Frame_Stored c"
  shows "connection_ok c'"
proof -
  define c1 where "c1 = c\<lparr>cn_events := cn_events c @ [e], cn_receiver := Rx_Idle\<rparr>"
  define c2 where "c2 = maybe_transport_ready (c1\<lparr>cn_transport_pending :=
    removeAll (df_stream_type d, case df_symbol d of Some s \<Rightarrow> s | None \<Rightarrow> []) (cn_transport_pending c1)\<rparr>)"
  have fields: "cn_bridges c2 = cn_bridges c" "cn_recoveries c2 = cn_recoveries c" "cn_next_task c2 = cn_next_task c" "cn_pending c2 = cn_pending c"
    "cn_requests c2 = cn_requests c" "cn_acknowledged c2 = cn_acknowledged c" "cn_ready c2 = cn_ready c" "cn_receiver c2 = Rx_Idle"
    "cn_resync c2 = cn_resync c"
    by (simp_all add: c2_def c1_def maybe_transport_ready_def)
  have "connection_ok c2 = connection_ok c" by (rule connection_view_cong) (simp_all add: fields journaling_def assms(2))
  then have ok: "connection_ok c2" using assms(1) by simp
  have same: "bridge_of c2 = bridge_of c" "recovering c2 = recovering c" by (simp_all add: bridge_of_def recovering_def fields fun_eq_iff)
  show ?thesis
  proof (cases "depth_of d")
    case None
    then show ?thesis using assms(3) ok by (simp add: frame_stored_def c1_def [symmetric] c2_def [symmetric] Let_def split: option.splits)
  next
    case (Some kd)
    obtain k data where kd: "kd = (k, data)" by (cases kd) blast
    obtain sp where sp: "span_of e data = Inr sp" "observe_depth k sp (ev_app_receive_realtime_ns e) c2 = Inr c'"
      using assms(3) Some kd by (auto simp: frame_stored_def c1_def [symmetric] c2_def [symmetric] Let_def rbind_Inr_iff split: option.splits)
    have "\<not> (status (fst (on_diff sp (bridge_of c2 k))) = SEQUENCE_GAP \<and> dict_get (cn_resync c2) k \<noteq> None \<and> \<not> recovering c2 k)"
      using assms(4) Some kd sp(1) by (simp add: missed_break_def assms(2) same fields)
    then show ?thesis using observe_depth_ok [OF ok _ fields(8) sp(2)] depth_of_key Some kd by blast
  qed
qed

lemma gap_opened_ok:
  assumes "connection_ok c" "cn_receiver c = Rx_Opening k x y ns" "gap_opened k x y ns c = Inr c'"
  shows "connection_ok c'"
proof -
  define c1 where "c1 = c\<lparr>cn_gaps := cn_gaps c @ [Gap_Opened (cn_next_gap c) k x y ns], cn_next_gap := cn_next_gap c + 1, cn_receiver := Rx_Idle,
            cn_resync := dict_set k (cn_next_task c) (cn_resync c)\<rparr>"
  have start: "start_recovery (By_Reanchor (cn_next_gap c)) c1 (snapshot_request_of k) = Inr c'"
    using assms(3) by (simp add: gap_opened_def c1_def Let_def)
  have j: "journaling c k" by (simp add: journaling_def assms(2))
  have tasks: "tasks_ok c" using assms(1) by (simp add: connection_ok_def)
  then have k: "depth_key k" using j unfolding tasks_ok_def by blast
  have post: "after_ack c" "cn_acknowledged c" using assms(1) j before_ackD(2) [of c k] by (auto simp: connection_ok_def split: if_splits)
  have same: "bridge_of c1 = bridge_of c" "recovering c1 = recovering c" "cn_pending c1 = cn_pending c" "cn_requests c1 = cn_requests c" "cn_acknowledged c1 = cn_acknowledged c"
    by (simp_all add: c1_def bridge_of_def recovering_def fun_eq_iff)
  have none: "\<not> journaling c1 k'" for k' by (simp add: c1_def journaling_def)
  have "tasks_ok c1" using tasks none by (simp add: tasks_ok_def c1_def)
  note S = start_recovery_ok [OF start this]
  have rk: "recovering c' k" using S snapshot_of_stream [OF k] by auto
  have "covered c' k'" if "covered c k'" for k'
  proof (cases "k' = k")
    case False
    then have "\<not> journaling c k'" by (simp add: journaling_def assms(2))
    then have "covered c1 k'" using that unfolding covered_def same by blast
    then show ?thesis using S by blast
  qed (simp add: covered_def rk)
  moreover have "recovering c' k'" if "depth_key k'" "snapshot_request_of k' \<in> set (cn_pending c')" for k'
  proof (cases "k' = k")
    case False
    then have "snapshot_request_of k' \<in> set (cn_pending c)" using that S snapshot_request_inj [OF that(1) k] by (auto simp: same)
    then have "recovering c1 k'" using post(1) that(1) unfolding after_ack_def same by blast
    then show ?thesis using S by blast
  qed (simp add: rk)
  moreover have "cn_requests c' = cn_requests c" using S same by metis
  ultimately have "after_ack c'" by (intro after_ack_mono [OF post(1)]) blast+
  then show ?thesis using S post(2) same by (simp add: connection_ok_def)
qed

lemma requested_recovering:
  assumes "\<forall>request \<in> set requests. \<exists>stream. stream_type_for_snapshot (snd request) = Inr stream \<and> recovering c (stream, fst request)"
    and "depth_key k" "snapshot_request_of k \<in> set requests"
  shows "recovering c k"
  using assms snapshot_of_stream [OF assms(2)] by force

lemma acknowledged_ok:
  assumes "connection_ok c" "\<not> cn_acknowledged c" "connection_acknowledged c = Inr c'"
  shows "connection_ok c'"
proof -
  define c1 where "c1 = maybe_transport_ready (c\<lparr>cn_acknowledged := True\<rparr>)"
  have pre: "before_ack c" "tasks_ok c" using assms(1,2) by (simp_all add: connection_ok_def)
  have fields: "cn_recoveries c1 = cn_recoveries c" "cn_next_task c1 = cn_next_task c" "cn_pending c1 = cn_pending c"
    "cn_requests c1 = cn_requests c" "cn_acknowledged c1" "cn_receiver c1 = cn_receiver c"
    by (simp_all add: c1_def maybe_transport_ready_def)
  have tasks: "tasks_ok c1" using pre(2) by (simp add: tasks_ok_def journaling_def fields)
  show ?thesis
  proof (cases "cn_requests c = []")
    case True
    then have c': "c' = c1\<lparr>cn_ready := True\<rparr>" using assms(3) by (simp add: connection_acknowledged_def c1_def Let_def)
    have "tasks_ok c'" using tasks by (simp add: c' tasks_ok_def journaling_def)
    then show ?thesis using True pre(1) by (simp add: connection_ok_def after_ack_def c' fields before_ack_def)
  next
    case False
    then have "fold_result (start_recovery By_Bootstrap) c1 (cn_requests c) = Inr c'"
      using assms(3) by (simp add: connection_acknowledged_def c1_def Let_def)
    note S = start_recoveries_ok [OF this tasks]
    have pending: "set (cn_pending c') = set (cn_requests c)" using S pre(1) by (auto simp: fields before_ack_def)
    have "recovering c' k" if "depth_key k" "snapshot_request_of k \<in> set (cn_pending c')" for k
      using requested_recovering [OF _ that(1)] that(2) S unfolding pending fields by blast
    moreover have "\<exists>stream. stream_type_for_snapshot (snd request) = Inr stream \<and> covered c' (stream, fst request)" if "request \<in> set (cn_requests c')" for request
      using that S fields(4) unfolding covered_def by auto
    ultimately have "after_ack c'" unfolding after_ack_def by blast
    then show ?thesis using S fields by (simp add: connection_ok_def)
  qed
qed

lemma requested_ok:
  assumes "connection_ok c" "cn_ready c" "snapshots_requested n requests c = Inr c'"
  shows "connection_ok c'"
proof (cases "requests = []")
  case True
  then have c': "c' = c\<lparr>cn_completed := cn_completed c @ [n]\<rparr>" using assms(3) by (simp add: snapshots_requested_def)
  have "connection_ok c' = connection_ok c" unfolding c' by (rule connection_view_cong) (simp_all add: journaling_def)
  then show ?thesis using assms(1) by simp
next
  case False
  have post: "cn_acknowledged c" "after_ack c" "tasks_ok c" using assms(1,2) by (auto simp: connection_ok_def before_ack_def split: if_splits)
  have "fold_result (start_recovery (By_Update n)) c requests = Inr c'" using False assms(3) by (simp add: snapshots_requested_def)
  note S = start_recoveries_ok [OF this post(3)]
  have "recovering c' k" if "depth_key k" "snapshot_request_of k \<in> set (cn_pending c')" for k
  proof (cases "snapshot_request_of k \<in> set requests")
    case True
    then show ?thesis using requested_recovering [OF _ that(1)] S by blast
  next
    case False
    then have "snapshot_request_of k \<in> set (cn_pending c)" using that(2) S by blast
    then show ?thesis using post(2) that(1) S unfolding after_ack_def by blast
  qed
  then have "after_ack c'" using S by (intro after_ack_mono [OF post(2)]) blast+
  then show ?thesis using S post(1) by (simp add: connection_ok_def)
qed

lemma connection_step_ok:
  assumes "connection_ok c" "connection_step env ev c = Some (Inr c')" "\<not> missed_break ev c"
  shows "connection_ok c'"
proof (cases ev)
  case (Frame raw realtime_ns monotonic_ns)
  then obtain i rx where c': "c' = c\<lparr>cn_identity := i, cn_receiver := rx\<rparr>" "\<And>k. \<not> journaling c' k" "cn_receiver c = Rx_Idle"
    using assms(2) by (auto simp: connection_step_def receive_frame_def Let_def rbind_Inr_iff journaling_def split: if_splits)
  have "connection_ok c' = connection_ok c" by (rule connection_view_cong) (simp_all add: c'(2), simp_all add: c'(1) c'(3) journaling_def)
  then show ?thesis using assms(1) by simp
next
  case Frame_Stored
  then show ?thesis using assms frame_stored_ok by (auto simp: connection_step_def split: receiver.splits)
next
  case Gap_Journaled
  then show ?thesis using assms gap_opened_ok by (auto simp: connection_step_def split: receiver.splits)
next
  case (Recovery t re)
  then show ?thesis using assms recovery_step_ok by (auto simp: connection_step_def split: option.splits)
next
  case (Gap_Close_Journaled t)
  then obtain g k where c': "c' = gap_closed t g k c" using assms(2) by (auto simp: connection_step_def split: option.splits)
  have "connection_ok c' = connection_ok c" unfolding c' by (rule connection_view_cong) (simp_all add: gap_closed_def journaling_def)
  then show ?thesis using assms(1) by simp
next
  case Acknowledged
  then show ?thesis using assms acknowledged_ok by (auto simp: connection_step_def split: if_splits)
next
  case (Update_Requested n requests)
  then show ?thesis using assms requested_ok by (auto simp: connection_step_def split: if_splits)
qed (use assms in \<open>auto simp: connection_step_def\<close>)


section \<open>Gaps stay open while their stream is recovered\<close>

definition gap_open :: "connection \<Rightarrow> nat \<Rightarrow> depth_key \<Rightarrow> bool" where
  "gap_open c g k \<longleftrightarrow> (\<exists>x y ns. Gap_Opened g k x y ns \<in> set (cn_gaps c)) \<and> (\<forall>k'. Gap_Closed g k' \<notin> set (cn_gaps c))"

text \<open>The tasks that own a gap: those that recover its stream, and those that are closing it.\<close>

definition reanchor :: "connection \<Rightarrow> nat \<Rightarrow> nat \<Rightarrow> depth_key \<Rightarrow> bool" where
  "reanchor c t g k \<longleftrightarrow> (\<exists>r. dict_get (cn_recoveries c) t = Some r \<and> rc_owner r = By_Reanchor g \<and> rc_key r = k) \<or> dict_get (cn_closing c) t = Some (g, k)"

definition gaps_ok :: "connection \<Rightarrow> bool" where
  "gaps_ok c \<longleftrightarrow> (\<forall>t g k. reanchor c t g k \<longrightarrow> g < cn_next_gap c \<and> gap_open c g k) \<and>
     (\<forall>t t' g k k'. reanchor c t g k \<longrightarrow> reanchor c t' g k' \<longrightarrow> t = t') \<and>
     (\<forall>t. dict_get (cn_closing c) t \<noteq> None \<longrightarrow> t < cn_next_task c \<and> dict_get (cn_recoveries c) t = None) \<and>
     (\<forall>t r. dict_get (cn_recoveries c) t = Some r \<longrightarrow> t < cn_next_task c) \<and>
     (\<forall>g k. Gap_Closed g k \<in> set (cn_gaps c) \<longrightarrow> g < cn_next_gap c)"

lemma gapsD:
  assumes "gaps_ok c"
  shows "reanchor c t g k \<Longrightarrow> g < cn_next_gap c" "reanchor c t g k \<Longrightarrow> gap_open c g k" "reanchor c t g k \<Longrightarrow> reanchor c t' g k' \<Longrightarrow> t = t'"
    "dict_get (cn_closing c) t \<noteq> None \<Longrightarrow> t < cn_next_task c" "dict_get (cn_closing c) t \<noteq> None \<Longrightarrow> dict_get (cn_recoveries c) t = None"
    "dict_get (cn_recoveries c) t = Some r \<Longrightarrow> t < cn_next_task c" "Gap_Closed g k \<in> set (cn_gaps c) \<Longrightarrow> g < cn_next_gap c"
  using assms unfolding gaps_ok_def by blast+

lemma gapsI:
  assumes "\<And>t g k. reanchor c t g k \<Longrightarrow> g < cn_next_gap c \<and> gap_open c g k" "\<And>t t' g k k'. reanchor c t g k \<Longrightarrow> reanchor c t' g k' \<Longrightarrow> t = t'"
    "\<And>t. dict_get (cn_closing c) t \<noteq> None \<Longrightarrow> t < cn_next_task c \<and> dict_get (cn_recoveries c) t = None"
    "\<And>t r. dict_get (cn_recoveries c) t = Some r \<Longrightarrow> t < cn_next_task c" "\<And>g k. Gap_Closed g k \<in> set (cn_gaps c) \<Longrightarrow> g < cn_next_gap c"
  shows "gaps_ok c"
  using assms unfolding gaps_ok_def by blast

lemma fresh_task:
  assumes "gaps_ok c"
  shows "dict_get (cn_recoveries c) (cn_next_task c) = None" "dict_get (cn_closing c) (cn_next_task c) = None"
  using gapsD(4,6) [OF assms, of "cn_next_task c"] by (metis less_irrefl_nat option.exhaust)+

lemma gaps_view:
  assumes "cn_gaps c' = cn_gaps c" "cn_next_gap c' = cn_next_gap c" "cn_next_task c' = cn_next_task c" "cn_closing c' = cn_closing c"
    and "cn_recoveries c' = cn_recoveries c" "gaps_ok c"
  shows "gaps_ok c'"
  using assms(6) unfolding gaps_ok_def reanchor_def gap_open_def assms(1-5) .

lemma start_recovery_fields:
  assumes "start_recovery owner c request = Inr c'"
  shows "\<exists>k. cn_recoveries c' = cn_recoveries c @ [(cn_next_task c, \<lparr>rc_owner = owner, rc_key = k, rc_attempt = 1, rc_stage = Await_Events\<rparr>)] \<and>
    cn_next_task c' = cn_next_task c + 1 \<and> cn_gaps c' = cn_gaps c \<and> cn_next_gap c' = cn_next_gap c \<and> cn_closing c' = cn_closing c \<and>
    stream_type_for_snapshot (snd request) = Inr (fst k) \<and> snd k = fst request"
  using assms by (auto simp: start_recovery_def rbind_Inr_iff Let_def set_bridge_def)

lemma append_get: "dict_get (d @ [(t, r)]) t' = (case dict_get d t' of Some x \<Rightarrow> Some x | None \<Rightarrow> if t' = t then Some r else None)"
  by (simp add: dict_get_def map_add_def split: option.split)

lemma start_recovery_gaps:
  assumes "start_recovery owner c request = Inr c'" "gaps_ok c" "\<And>g. owner \<noteq> By_Reanchor g"
  shows "gaps_ok c'"
proof -
  obtain k where e: "cn_recoveries c' = cn_recoveries c @ [(cn_next_task c, \<lparr>rc_owner = owner, rc_key = k, rc_attempt = 1, rc_stage = Await_Events\<rparr>)]"
    "cn_next_task c' = cn_next_task c + 1" "cn_gaps c' = cn_gaps c" "cn_next_gap c' = cn_next_gap c" "cn_closing c' = cn_closing c"
    using start_recovery_fields [OF assms(1)] by blast
  have "reanchor c' t g k \<longleftrightarrow> reanchor c t g k" for t g k
    using assms(3) by (auto simp: reanchor_def e append_get split: option.splits if_splits)
  moreover have "gap_open c' g k = gap_open c g k" for g k by (simp add: gap_open_def e)
  ultimately show ?thesis
    using gapsD [OF assms(2)] fresh_task [OF assms(2)]
    by (intro gapsI) (auto simp: e append_get less_Suc_eq split: option.splits if_splits)
qed

lemma start_recoveries_gaps:
  assumes "fold_result (start_recovery owner) c requests = Inr c'" "gaps_ok c" "\<And>g. owner \<noteq> By_Reanchor g"
  shows "gaps_ok c'"
  using assms(1,2) start_recovery_gaps [OF _ _ assms(3)] by (induction requests arbitrary: c) (auto simp: rbind_Inr_iff)

lemma gap_opened_gaps:
  assumes "gap_opened k x y ns c = Inr c'" "gaps_ok c" "depth_key k"
  shows "gaps_ok c'"
proof -
  let ?g = "cn_next_gap c"
  obtain k' where e: "cn_recoveries c' = cn_recoveries c @ [(cn_next_task c, \<lparr>rc_owner = By_Reanchor ?g, rc_key = k', rc_attempt = 1, rc_stage = Await_Events\<rparr>)]"
    "cn_next_task c' = cn_next_task c + 1" "cn_gaps c' = cn_gaps c @ [Gap_Opened ?g k x y ns]" "cn_next_gap c' = ?g + 1" "cn_closing c' = cn_closing c"
    and k: "stream_type_for_snapshot (snd (snapshot_request_of k)) = Inr (fst k')" "snd k' = fst (snapshot_request_of k)"
    using start_recovery_fields [OF assms(1) [unfolded gap_opened_def Let_def]] by auto
  have "k' = k" using k snapshot_of_stream [OF assms(3)] by (simp add: prod_eq_iff)
  note e = e [unfolded this]
  note free = fresh_task [OF assms(2)]
  have re: "reanchor c' t g k1 \<longleftrightarrow> reanchor c t g k1 \<or> t = cn_next_task c \<and> g = ?g \<and> k1 = k" for t g k1
    using free by (auto simp: reanchor_def e append_get split: option.splits if_splits)
  have closed: "Gap_Closed g k1 \<in> set (cn_gaps c') \<longleftrightarrow> Gap_Closed g k1 \<in> set (cn_gaps c)" for g k1 by (simp add: e)
  note old = gapsD [OF assms(2)]
  have keep: "gap_open c g k1 \<Longrightarrow> gap_open c' g k1" for g k1 by (auto simp: gap_open_def e)
  have new: "gap_open c' ?g k" using old(7) by (fastforce simp: gap_open_def e)
  show ?thesis
  proof (rule gapsI)
    show "g < cn_next_gap c' \<and> gap_open c' g k1" if "reanchor c' t g k1" for t g k1
      using that new keep old(1,2) unfolding re e(4) by (metis less_Suc_eq add.commute plus_1_eq_Suc)
    show "t = t'" if "reanchor c' t g k1" "reanchor c' t' g k2" for t t' g k1 k2
      using that old(1,3) unfolding re by (metis less_irrefl_nat)
    show "t < cn_next_task c' \<and> dict_get (cn_recoveries c') t = None" if "dict_get (cn_closing c') t \<noteq> None" for t
      using that old(4,5) [of t] free unfolding e append_get by (auto split: option.splits)
    show "t < cn_next_task c'" if "dict_get (cn_recoveries c') t = Some r" for t r
      using that old(6) [of t] unfolding e append_get by (auto split: option.splits if_splits)
    show "g < cn_next_gap c'" if "Gap_Closed g k1 \<in> set (cn_gaps c')" for g k1
      using that old(7) [of g k1] by (simp add: closed e)
  qed
qed

lemma set_recovery_gaps:
  assumes "gaps_ok c" "dict_get (cn_recoveries c) t = Some r" "rc_key r' = rc_key r" "rc_owner r' = rc_owner r"
  shows "gaps_ok (set_recovery t r' c)"
proof -
  have "reanchor (set_recovery t r' c) t1 g k = reanchor c t1 g k" for t1 g k
    using assms(2-4) by (auto simp: reanchor_def set_recovery_def)
  moreover have "gap_open (set_recovery t r' c) g k = gap_open c g k" for g k by (simp add: gap_open_def set_recovery_def)
  ultimately show ?thesis
    using gapsD [OF assms(1)] assms(2) by (intro gapsI) (auto simp: set_recovery_def split: if_splits)
qed

lemma finish_recovery_gap_fields:
  "cn_gaps (finish_recovery t r c) = cn_gaps c" "cn_next_gap (finish_recovery t r c) = cn_next_gap c"
  "cn_closing (finish_recovery t r c) = (case rc_owner r of By_Reanchor g \<Rightarrow> dict_set t (g, rc_key r) (cn_closing c) | _ \<Rightarrow> cn_closing c)"
  by (simp_all add: finish_recovery_def Let_def split: recovery_owner.split)

lemma finish_recovery_gaps:
  assumes "gaps_ok c" "dict_get (cn_recoveries c) t = Some r"
  shows "gaps_ok (finish_recovery t r c)"
proof -
  note f = finish_recovery_fields(1,2) [of t r c] finish_recovery_gap_fields [of t r c]
  have no: "dict_get (cn_closing c) t = None" using gapsD(5) [OF assms(1)] assms(2) by (metis option.distinct(1))
  have re: "reanchor (finish_recovery t r c) t1 g k \<longleftrightarrow> reanchor c t1 g k" for t1 g k
    using assms(2) no by (auto simp: reanchor_def f split: recovery_owner.splits if_splits)
  have tasks: "t < cn_next_task c" using gapsD(6) [OF assms(1,2)] .
  have same: "gap_open (finish_recovery t r c) g k = gap_open c g k" for g k by (simp add: gap_open_def f)
  show ?thesis
  proof (rule gapsI, unfold re same f)
    show "g < cn_next_gap c \<and> gap_open c g k" if "reanchor c t1 g k" for t1 g k using gapsD(1,2) [OF assms(1) that] by blast
    show "t1 = t2" if "reanchor c t1 g k" "reanchor c t2 g k'" for t1 t2 g k k' using gapsD(3) [OF assms(1) that] .
    show "t1 < cn_next_task c \<and> dict_get (dict_pop t (cn_recoveries c)) t1 = None"
      if "dict_get (case rc_owner r of By_Reanchor g \<Rightarrow> dict_set t (g, rc_key r) (cn_closing c) | _ \<Rightarrow> cn_closing c) t1 \<noteq> None" for t1
      using that gapsD(4,5) [OF assms(1), of t1] tasks by (auto split: recovery_owner.splits if_splits)
    show "t1 < cn_next_task c" if "dict_get (dict_pop t (cn_recoveries c)) t1 = Some r1" for t1 r1
      using that gapsD(6) [OF assms(1), of t1] by (auto split: if_splits)
    show "g < cn_next_gap c" if "Gap_Closed g k \<in> set (cn_gaps c)" for g k using gapsD(7) [OF assms(1) that] .
  qed
qed


lemma next_attempt_gaps:
  "gaps_ok c \<Longrightarrow> dict_get (cn_recoveries c) t = Some r \<Longrightarrow> next_attempt t r c = Inr c' \<Longrightarrow> gaps_ok c'"
  using set_recovery_gaps [of c t r] by (auto simp: next_attempt_def split: if_splits)

lemma set_bridge_gaps: "gaps_ok (set_bridge k tr c) = gaps_ok c"
  unfolding gaps_ok_def reanchor_def gap_open_def by (simp add: set_bridge_def)

lemma recovery_step_gaps:
  assumes "gaps_ok c" "dict_get (cn_recoveries c) t = Some r" "recovery_step env t r re c = Some (Inr c')"
  shows "gaps_ok c'"
proof -
  have get: "dict_get (cn_recoveries (set_bridge (rc_key r) tr c)) t = Some r" for tr using assms(2) by (simp add: same_recoveries)
  have bridge: "gaps_ok (set_bridge (rc_key r) tr c)" for tr using assms(1) by (simp add: set_bridge_gaps)
  have stored: "gaps_ok c'" if run: "recovery_stored env t r e c = Inr c'" for e
  proof -
    obtain l where l: "last_update_id env (ev_payload_bytes e) = Inr l" using run by (auto simp: recovery_stored_def rbind_Inr_iff)
    define c1 where "c1 = (set_bridge (rc_key r) (snd (on_snapshot l (bridge_of c (rc_key r)))) c)\<lparr>cn_events := cn_events c @ [e]\<rparr>"
    have c1: "gaps_ok c1" "dict_get (cn_recoveries c1) t = Some r"
      unfolding c1_def by (rule gaps_view [OF _ _ _ _ _ bridge], simp_all add: get)
    have "c' = finish_recovery t r c1 \<or> next_attempt t r c1 = Inr c' \<or> c' = set_recovery t (r\<lparr>rc_stage := Await_Decision\<rparr>) c1"
      using run l by (auto simp: recovery_stored_def c1_def Let_def split: prod.splits if_splits)
    then show ?thesis using finish_recovery_gaps [OF c1] next_attempt_gaps [OF c1] set_recovery_gaps [OF c1] by auto
  qed
  have fetched: "gaps_ok c'" if run: "recovery_fetched env t r now reply c = Inr c'" for now reply
  proof -
    obtain e i where c': "c' = set_recovery t (r\<lparr>rc_stage := Storing e\<rparr>) (c\<lparr>cn_identity := i\<rparr>)"
      using run by (cases reply) (auto simp: recovery_fetched_def rbind_Inr_iff)
    have "gaps_ok (c\<lparr>cn_identity := i\<rparr>)" by (rule gaps_view [OF _ _ _ _ _ assms(1)]) simp_all
    then show ?thesis using set_recovery_gaps [of "c\<lparr>cn_identity := i\<rparr>" t r] assms(2) by (simp add: c')
  qed
  show ?thesis
    using assms(3) set_recovery_gaps [OF assms(1,2)] stored fetched next_attempt_gaps [OF assms(1,2)] finish_recovery_gaps [OF assms(1,2)]
      next_attempt_gaps [OF bridge get]
    by (auto simp: recovery_step_def recovery_decided_def Let_def split: recovery_stage.splits recovery_event.splits if_splits option.splits sum.splits)
qed

lemma gap_closed_gaps:
  assumes "gaps_ok c" "dict_get (cn_closing c) t = Some (g, k)"
  shows "gaps_ok (gap_closed t g k c)"
proof -
  let ?c = "gap_closed t g k c"
  have own: "reanchor c t g k" using assms(2) by (simp add: reanchor_def)
  have f: "cn_recoveries ?c = cn_recoveries c" "cn_next_task ?c = cn_next_task c" "cn_next_gap ?c = cn_next_gap c"
    "cn_closing ?c = dict_pop t (cn_closing c)" "cn_gaps ?c = cn_gaps c @ [Gap_Closed g k]" by (simp_all add: gap_closed_def)
  have re: "reanchor c t1 g1 k1 \<and> g1 \<noteq> g" if "reanchor ?c t1 g1 k1" for t1 g1 k1
  proof -
    have r: "reanchor c t1 g1 k1" using that by (auto simp: reanchor_def f split: if_splits)
    have "dict_get (cn_recoveries c) t = None" using gapsD(5) [OF assms(1)] assms(2) by simp
    then have "\<not> reanchor ?c t g1 k1" by (simp add: reanchor_def f)
    then have "t1 \<noteq> t" using that by blast
    then show ?thesis using r own gapsD(3) [OF assms(1)] by blast
  qed
  show ?thesis
  proof (rule gapsI)
    show "g1 < cn_next_gap ?c \<and> gap_open ?c g1 k1" if "reanchor ?c t1 g1 k1" for t1 g1 k1
    proof -
      have "g1 \<noteq> g" "g1 < cn_next_gap c" "gap_open c g1 k1" using re [OF that] gapsD(1,2) [OF assms(1)] by blast+
      then show ?thesis by (auto simp: gap_open_def f)
    qed
    show "t1 = t2" if "reanchor ?c t1 g1 k1" "reanchor ?c t2 g1 k2" for t1 t2 g1 k1 k2
      using re that gapsD(3) [OF assms(1)] by blast
    show "t1 < cn_next_task ?c \<and> dict_get (cn_recoveries ?c) t1 = None" if "dict_get (cn_closing ?c) t1 \<noteq> None" for t1
      using that gapsD(4,5) [OF assms(1), of t1] by (auto simp: f split: if_splits)
    show "t1 < cn_next_task ?c" if "dict_get (cn_recoveries ?c) t1 = Some r1" for t1 r1 using that gapsD(6) [OF assms(1)] by (simp add: f)
    show "g1 < cn_next_gap ?c" if "Gap_Closed g1 k1 \<in> set (cn_gaps ?c)" for g1 k1
    proof -
      have "g1 = g \<or> Gap_Closed g1 k1 \<in> set (cn_gaps c)" using that by (auto simp: f)
      then show ?thesis using gapsD(1) [OF assms(1) own] gapsD(7) [OF assms(1)] unfolding f by blast
    qed
  qed
qed

lemma observe_depth_gap_fields:
  assumes "observe_depth k sp ns c = Inr c'"
  shows "cn_gaps c' = cn_gaps c \<and> cn_next_gap c' = cn_next_gap c \<and> cn_next_task c' = cn_next_task c \<and> cn_closing c' = cn_closing c \<and>
    cn_recoveries c' = cn_recoveries c \<and> cn_requests c' = cn_requests c"
  using assms by (auto simp: observe_depth_def Let_def set_bridge_def split: prod.splits if_splits option.splits)

lemma frame_stored_gaps:
  assumes "gaps_ok c" "frame_stored d e err c = Inr c'"
  shows "gaps_ok c'"
proof -
  define c2 where "c2 = maybe_transport_ready (c\<lparr>cn_events := cn_events c @ [e], cn_receiver := Rx_Idle, cn_transport_pending :=
    removeAll (df_stream_type d, case df_symbol d of Some s \<Rightarrow> s | None \<Rightarrow> []) (cn_transport_pending c)\<rparr>)"
  have ok: "gaps_ok c2" by (rule gaps_view [OF _ _ _ _ _ assms(1)]) (simp_all add: c2_def maybe_transport_ready_def)
  have "c' = c2 \<or> (\<exists>k sp ns. observe_depth k sp ns c2 = Inr c')"
    using assms(2) by (auto simp: frame_stored_def c2_def Let_def rbind_Inr_iff split: option.splits)
  then show ?thesis using ok gaps_view [OF _ _ _ _ _ ok] observe_depth_gap_fields by metis
qed

lemma connection_step_gaps:
  assumes "gaps_ok c" "tasks_ok c" "connection_step env ev c = Some (Inr c')"
  shows "gaps_ok c'"
proof (cases ev)
  case (Frame raw realtime_ns monotonic_ns)
  then obtain i rx where c': "c' = c\<lparr>cn_identity := i, cn_receiver := rx\<rparr>"
    using assms(3) by (auto simp: connection_step_def receive_frame_def Let_def rbind_Inr_iff split: if_splits)
  show ?thesis unfolding c' by (rule gaps_view [OF _ _ _ _ _ assms(1)]) simp_all
next
  case Frame_Stored
  then show ?thesis using assms frame_stored_gaps by (auto simp: connection_step_def split: receiver.splits)
next
  case Gap_Journaled
  then obtain k x y ns where "cn_receiver c = Rx_Opening k x y ns" "gap_opened k x y ns c = Inr c'"
    using assms(3) by (auto simp: connection_step_def split: receiver.splits)
  moreover from this have "depth_key k" using assms(2) unfolding tasks_ok_def journaling_def by auto
  ultimately show ?thesis using gap_opened_gaps assms(1) by blast
next
  case (Recovery t re)
  then show ?thesis using assms recovery_step_gaps by (auto simp: connection_step_def split: option.splits)
next
  case (Gap_Close_Journaled t)
  then show ?thesis using assms gap_closed_gaps by (auto simp: connection_step_def split: option.splits)
next
  case Acknowledged
  then have run: "connection_acknowledged c = Inr c'" using assms(3) by (simp add: connection_step_def split: if_splits)
  have ok: "gaps_ok (maybe_transport_ready (c\<lparr>cn_acknowledged := True\<rparr>))" "gaps_ok ((maybe_transport_ready (c\<lparr>cn_acknowledged := True\<rparr>))\<lparr>cn_ready := True\<rparr>)"
    by (rule gaps_view [OF _ _ _ _ _ assms(1)]; simp add: maybe_transport_ready_def)+
  then show ?thesis using run start_recoveries_gaps [OF _ ok(1), of By_Bootstrap] by (auto simp: connection_acknowledged_def Let_def split: if_splits)
next
  case (Update_Requested n requests)
  have "gaps_ok (c\<lparr>cn_completed := cn_completed c @ [n]\<rparr>)" by (rule gaps_view [OF _ _ _ _ _ assms(1)]) simp_all
  then show ?thesis using Update_Requested assms(3) start_recoveries_gaps [OF _ assms(1), of "By_Update n"]
    by (auto simp: connection_step_def snapshots_requested_def split: if_splits)
qed (use assms in \<open>auto simp: connection_step_def\<close>)

lemma new_connection_ok: "connection_ok (new_connection identity requests keys)" "gaps_ok (new_connection identity requests keys)"
  by (simp_all add: new_connection_def connection_ok_def tasks_ok_def before_ack_def journaling_def bridge_of_def default_tracker_def
      untouched_bridge_def gaps_ok_def reanchor_def)

lemma start_recoveries_requests:
  "fold_result (start_recovery owner) c requests = Inr c' \<Longrightarrow> cn_requests c' = cn_requests c"
proof (induction requests arbitrary: c)
  case (Cons request requests)
  then obtain c1 where c1: "start_recovery owner c request = Inr c1" "fold_result (start_recovery owner) c1 requests = Inr c'"
    by (auto simp: rbind_Inr_iff)
  have "cn_requests c1 = cn_requests c" using c1(1) by (auto simp: start_recovery_def Let_def set_bridge_def rbind_Inr_iff)
  then show ?case using Cons.IH [OF c1(2)] by simp
qed simp

lemma recovery_stored_cases:
  assumes "recovery_stored env t r e c = Inr c'"
  shows "\<exists>tr. let c1 = (set_bridge (rc_key r) tr c)\<lparr>cn_events := cn_events c @ [e]\<rparr> in
    c' = finish_recovery t r c1 \<or> next_attempt t r c1 = Inr c' \<or> c' = set_recovery t (r\<lparr>rc_stage := Await_Decision\<rparr>) c1"
proof -
  obtain l where l: "last_update_id env (ev_payload_bytes e) = Inr l" using assms by (auto simp: recovery_stored_def rbind_Inr_iff)
  then show ?thesis
    using assms by (intro exI [where x = "snd (on_snapshot l (bridge_of c (rc_key r)))"])
      (auto simp: recovery_stored_def Let_def split: prod.splits if_splits)
qed

lemma recovery_step_requests:
  assumes "recovery_step env t r re c = Some (Inr c')"
  shows "cn_requests c' = cn_requests c"
proof -
  have again: "next_attempt t r c1 = Inr c2 \<Longrightarrow> cn_requests c2 = cn_requests c1" for c1 c2
    by (auto simp: next_attempt_def set_recovery_def split: if_splits)
  have stored: "recovery_stored env t r e c = Inr c' \<Longrightarrow> ?thesis" for e
    using again recovery_stored_cases [of env t r e c c']
    by (auto simp: Let_def finish_recovery_fields set_recovery_def set_bridge_def dest: again)
  have fetched: "recovery_fetched env t r now reply c = Inr c' \<Longrightarrow> ?thesis" for now reply
    by (cases reply) (auto simp: recovery_fetched_def rbind_Inr_iff set_recovery_def)
  show ?thesis
    using assms stored fetched again
    by (auto simp: recovery_step_def recovery_decided_def Let_def finish_recovery_fields set_recovery_def set_bridge_def
        split: recovery_stage.splits recovery_event.splits if_splits option.splits sum.splits dest!: again)
qed

lemma connection_step_requests:
  assumes "connection_step env ev c = Some (Inr c')"
  shows "cn_requests c' = cn_requests c"
proof (cases ev)
  case Frame_Stored
  then obtain d e err where run: "frame_stored d e err c = Inr c'" using assms by (auto simp: connection_step_def split: receiver.splits)
  define c2 where "c2 = maybe_transport_ready (c\<lparr>cn_events := cn_events c @ [e], cn_receiver := Rx_Idle, cn_transport_pending :=
    removeAll (df_stream_type d, case df_symbol d of Some s \<Rightarrow> s | None \<Rightarrow> []) (cn_transport_pending c)\<rparr>)"
  have "c' = c2 \<or> (\<exists>k sp ns. observe_depth k sp ns c2 = Inr c')"
    using run by (auto simp: frame_stored_def c2_def Let_def rbind_Inr_iff split: option.splits)
  then have "cn_requests c' = cn_requests c2" using observe_depth_gap_fields by metis
  then show ?thesis by (simp add: c2_def maybe_transport_ready_def)
next
  case Gap_Journaled
  then show ?thesis using assms
    by (auto simp: connection_step_def gap_opened_def start_recovery_def set_bridge_def Let_def rbind_Inr_iff split: receiver.splits)
next
  case (Recovery t re)
  then show ?thesis using assms recovery_step_requests by (auto simp: connection_step_def split: option.splits)
next
  case Acknowledged
  then show ?thesis using assms start_recoveries_requests
    by (fastforce simp: connection_step_def connection_acknowledged_def maybe_transport_ready_def Let_def split: if_splits)
next
  case (Update_Requested n requests)
  then show ?thesis using assms start_recoveries_requests by (fastforce simp: connection_step_def snapshots_requested_def split: if_splits)
qed (use assms in \<open>auto simp: connection_step_def receive_frame_def gap_closed_def Let_def rbind_Inr_iff split: if_splits option.splits\<close>)

lemma connection_run_ok:
  assumes "connection_run env (new_connection identity requests keys) noticed c"
  shows "cn_requests c = requests \<and> (noticed \<longrightarrow> connection_ok c \<and> gaps_ok c)"
  using assms
proof induction
  case connected
  then show ?case using new_connection_ok by (simp add: new_connection_def)
next
  case (stepped noticed c ev c')
  then show ?case using connection_step_requests [OF stepped.hyps(2)] connection_step_ok [OF _ stepped.hyps(2)]
      connection_step_gaps [OF _ _ stepped.hyps(2)] by (auto simp: connection_ok_def)
qed

section \<open>A missed break\<close>

text \<open>The gaps that were opened for a stream, and the runs in which no update asks for its snapshot.\<close>

definition opened_gaps :: "depth_key \<Rightarrow> connection \<Rightarrow> gap_action list" where
  "opened_gaps k c = filter (\<lambda>x. case x of Gap_Opened _ k' _ _ _ \<Rightarrow> k' = k | Gap_Closed _ _ \<Rightarrow> False) (cn_gaps c)"

definition asks :: "connection_event \<Rightarrow> depth_key \<Rightarrow> bool" where
  "asks ev k \<longleftrightarrow> (case ev of
     Update_Requested n requests \<Rightarrow> list_ex (\<lambda>r. stream_type_for_snapshot (snd r) = Inr (fst k) \<and> fst r = snd k) requests
   | _ \<Rightarrow> False)"

inductive unasked_run :: "frame_env \<Rightarrow> depth_key \<Rightarrow> connection \<Rightarrow> connection \<Rightarrow> bool" for env k c0 where
  unasked: "unasked_run env k c0 c0"
| goes_on: "unasked_run env k c0 c \<Longrightarrow> connection_step env ev c = Some (Inr c') \<Longrightarrow> \<not> asks ev k \<Longrightarrow> unasked_run env k c0 c'"

text \<open>A stream that is not bridged, and that nothing recovers.\<close>

definition lost :: "depth_key \<Rightarrow> connection \<Rightarrow> bool" where
  "lost k c \<longleftrightarrow> cn_acknowledged c \<and> untouched_bridge (bridge_of c k) \<and> \<not> recovering c k \<and>
     (\<forall>k'. journaling c k' \<longrightarrow> depth_key k' \<and> k' \<noteq> k)"

text \<open>What stays lost, from one state to a later one.\<close>

definition stays_lost :: "depth_key \<Rightarrow> connection \<Rightarrow> connection \<Rightarrow> bool" where
  "stays_lost k c c' \<longleftrightarrow> lost k c' \<and> opened_gaps k c' = opened_gaps k c \<and> (cn_ready c \<longrightarrow> cn_ready c')"

lemma stays_lostI:
  assumes "lost k c" "cn_acknowledged c' = cn_acknowledged c" "bridge_of c' k = bridge_of c k" "recovering c' k \<Longrightarrow> recovering c k"
    and "cn_receiver c' = cn_receiver c \<or> (\<forall>k'. journaling c' k' \<longrightarrow> depth_key k' \<and> k' \<noteq> k)" "cn_gaps c' = cn_gaps c" "cn_ready c \<Longrightarrow> cn_ready c'"
  shows "stays_lost k c c'"
proof -
  have "cn_receiver c' = cn_receiver c \<Longrightarrow> journaling c' = journaling c" by (simp add: journaling_def fun_eq_iff)
  moreover have "\<forall>k'. journaling c k' \<longrightarrow> depth_key k' \<and> k' \<noteq> k" using assms(1) unfolding lost_def by blast
  ultimately have "\<forall>k'. journaling c' k' \<longrightarrow> depth_key k' \<and> k' \<noteq> k" using assms(5) by metis
  then show ?thesis using assms unfolding stays_lost_def lost_def opened_gaps_def by auto
qed

lemma stays_lost_trans: "stays_lost k c c1 \<Longrightarrow> stays_lost k c1 c2 \<Longrightarrow> stays_lost k c c2"
  by (simp add: stays_lost_def)

lemma recovering_set: "recovering (set_recovery t r c) k \<Longrightarrow> recovering c k \<or> k = rc_key r"
proof -
  have "x \<in> set (dict_set t r d) \<Longrightarrow> x \<in> set d \<or> x = (t, r)" for x and d :: "(nat, recovery) dict"
    by (induction d) (auto split: if_splits)
  then show "recovering (set_recovery t r c) k \<Longrightarrow> recovering c k \<or> k = rc_key r"
    by (fastforce simp: recovering_def set_recovery_def list_ex_iff)
qed

lemma set_recovery_lost: "lost k c \<Longrightarrow> rc_key r \<noteq> k \<Longrightarrow> stays_lost k c (set_recovery t r c)"
  using recovering_set [of t r c k] by (intro stays_lostI) (auto simp: set_recovery_def bridge_of_def)

lemma set_bridge_lost:
  assumes "lost k c" "k' \<noteq> k"
  shows "stays_lost k c (set_bridge k' tr c)"
proof (rule stays_lostI [OF assms(1)])
  show "bridge_of (set_bridge k' tr c) k = bridge_of c k" using assms(2) by (simp add: bridge_of_set)
qed (simp_all add: set_bridge_def recovering_def)

lemma finish_recovery_lost:
  assumes "lost k c"
  shows "stays_lost k c (finish_recovery t r c)"
proof (rule stays_lostI [OF assms])
  show "recovering (finish_recovery t r c) k \<Longrightarrow> recovering c k"
    by (auto simp: finish_recovery_fields recovering_def list_ex_iff dict_pop_def)
  show "cn_gaps (finish_recovery t r c) = cn_gaps c" "cn_ready c \<Longrightarrow> cn_ready (finish_recovery t r c)"
    by (simp_all add: finish_recovery_def Let_def split: recovery_owner.splits)
qed (simp_all add: finish_recovery_fields)

lemma next_attempt_lost: "lost k c \<Longrightarrow> rc_key r \<noteq> k \<Longrightarrow> next_attempt t r c = Inr c' \<Longrightarrow> stays_lost k c c'"
  using set_recovery_lost [of k c "r\<lparr>rc_attempt := rc_attempt r + 1, rc_stage := Await_Events\<rparr>" t] by (auto simp: next_attempt_def split: if_splits)

lemma events_lost: "lost k c \<Longrightarrow> stays_lost k c (c\<lparr>cn_events := es\<rparr>)" "lost k c \<Longrightarrow> stays_lost k c (c\<lparr>cn_identity := i\<rparr>)"
  by (rule stays_lostI; simp add: bridge_of_def recovering_def)+

lemma recovery_step_lost:
  assumes "lost k c" "dict_get (cn_recoveries c) t = Some r" "recovery_step env t r re c = Some (Inr c')"
  shows "stays_lost k c c'"
proof -
  have "(t, r) \<in> set (cn_recoveries c)" using assms(2) by (simp add: dict_get_def map_of_SomeD)
  then have key: "rc_key r \<noteq> k" using assms(1) by (auto simp: lost_def recovering_def list_ex_iff)
  note chain = stays_lost_trans [of k c]
  have ok: "stays_lost k c x \<Longrightarrow> lost k x" for x by (simp add: stays_lost_def)
  have stored: "recovery_stored env t r e c = Inr c' \<Longrightarrow> ?thesis" for e
  proof -
    assume "recovery_stored env t r e c = Inr c'"
    then obtain tr where s: "let c1 = (set_bridge (rc_key r) tr c)\<lparr>cn_events := cn_events c @ [e]\<rparr> in
        c' = finish_recovery t r c1 \<or> next_attempt t r c1 = Inr c' \<or> c' = set_recovery t (r\<lparr>rc_stage := Await_Decision\<rparr>) c1"
      using recovery_stored_cases by blast
    have b: "stays_lost k c (set_bridge (rc_key r) tr c)" by (rule set_bridge_lost [OF assms(1) key])
    have c1: "stays_lost k c ((set_bridge (rc_key r) tr c)\<lparr>cn_events := cn_events c @ [e]\<rparr>)"
      by (rule chain [OF b events_lost(1) [OF ok [OF b]]])
    show ?thesis using s chain [OF c1] finish_recovery_lost [OF ok [OF c1]] next_attempt_lost [OF ok [OF c1] key]
        set_recovery_lost [OF ok [OF c1], of "r\<lparr>rc_stage := Await_Decision\<rparr>" t] key by (auto simp: Let_def)
  qed
  have fetched: "recovery_fetched env t r now reply c = Inr c' \<Longrightarrow> ?thesis" for now reply
  proof -
    assume "recovery_fetched env t r now reply c = Inr c'"
    then obtain e i where "c' = set_recovery t (r\<lparr>rc_stage := Storing e\<rparr>) (c\<lparr>cn_identity := i\<rparr>)"
      by (cases reply) (auto simp: recovery_fetched_def rbind_Inr_iff)
    moreover have "stays_lost k (c\<lparr>cn_identity := i\<rparr>) (set_recovery t (r\<lparr>rc_stage := Storing e\<rparr>) (c\<lparr>cn_identity := i\<rparr>))"
      using key by (intro set_recovery_lost ok [OF events_lost(2) [OF assms(1)]]) simp
    ultimately show ?thesis using chain [OF events_lost(2) [OF assms(1)]] by simp
  qed
  have b: "stays_lost k c (set_bridge (rc_key r) tr c)" for tr by (rule set_bridge_lost [OF assms(1) key])
  have invalidated: "next_attempt t r (set_bridge (rc_key r) tr c) = Inr c' \<Longrightarrow> ?thesis" for tr
    using chain [OF b] next_attempt_lost [OF ok [OF b] key] by blast
  show ?thesis
    using assms(3) stored fetched invalidated next_attempt_lost [OF assms(1) key] finish_recovery_lost [OF assms(1)]
      set_recovery_lost [OF assms(1)] key
    by (auto simp: recovery_step_def recovery_decided_def Let_def split: recovery_stage.splits recovery_event.splits if_splits option.splits sum.splits)
qed

lemma start_recovery_lost:
  assumes "lost k c" "start_recovery owner c request = Inr c'" "\<not> (stream_type_for_snapshot (snd request) = Inr (fst k) \<and> fst request = snd k)"
  shows "stays_lost k c c'"
proof -
  obtain stream where s: "stream_type_for_snapshot (snd request) = Inr stream" using assms(2) by (auto simp: start_recovery_def rbind_Inr_iff)
  then have "(stream, fst request) \<noteq> k" using assms(3) by (cases k) auto
  moreover have c': "cn_gaps c' = cn_gaps c" "cn_ready c' = cn_ready c"
    "cn_recoveries c' = cn_recoveries c @ [(cn_next_task c, \<lparr>rc_owner = owner, rc_key = (stream, fst request), rc_attempt = 1, rc_stage = Await_Events\<rparr>)]"
    using assms(2) s by (auto simp: start_recovery_def Let_def set_bridge_def)
  ultimately show ?thesis
    using assms(1,2) by (intro stays_lostI) (auto elim: start_recovery_effect simp: recovering_def)
qed

lemma start_recoveries_lost:
  assumes "lost k c" "fold_result (start_recovery owner) c requests = Inr c'"
    "\<not> list_ex (\<lambda>r. stream_type_for_snapshot (snd r) = Inr (fst k) \<and> fst r = snd k) requests"
  shows "stays_lost k c c'"
  using assms
proof (induction requests arbitrary: c)
  case Nil
  then show ?case by (simp add: stays_lost_def)
next
  case (Cons request requests)
  then obtain c1 where c1: "start_recovery owner c request = Inr c1" "fold_result (start_recovery owner) c1 requests = Inr c'"
    by (auto simp: rbind_Inr_iff)
  have s: "stays_lost k c c1" using start_recovery_lost [OF Cons.prems(1) c1(1)] Cons.prems(3) by simp
  then show ?case using stays_lost_trans [OF s Cons.IH [OF _ c1(2)]] Cons.prems(3) by (simp add: stays_lost_def)
qed

lemma frame_stored_lost:
  assumes "lost k c" "frame_stored d e err c = Inr c'"
  shows "stays_lost k c c'"
proof -
  define c2 where "c2 = maybe_transport_ready (c\<lparr>cn_events := cn_events c @ [e], cn_receiver := Rx_Idle, cn_transport_pending :=
    removeAll (df_stream_type d, case df_symbol d of Some s \<Rightarrow> s | None \<Rightarrow> []) (cn_transport_pending c)\<rparr>)"
  have same: "bridge_of c2 = bridge_of c" "cn_gaps c2 = cn_gaps c" "cn_ready c2 = cn_ready c"
    "recovering c2 = recovering c" "cn_acknowledged c2 = cn_acknowledged c"
    by (simp_all add: c2_def maybe_transport_ready_def bridge_of_def recovering_def fun_eq_iff)
  have idle: "\<not> journaling c2 k'" for k' by (simp add: c2_def maybe_transport_ready_def journaling_def)
  have c2: "stays_lost k c c2" using assms(1) idle by (intro stays_lostI) (simp_all add: same)
  show ?thesis
  proof (cases "c' = c2")
    case False
    then obtain k' data sp ns where o: "depth_of d = Some (k', data)" "observe_depth k' sp ns c2 = Inr c'"
      using assms(2) by (auto simp: frame_stored_def c2_def Let_def rbind_Inr_iff split: option.splits)
    let ?res = "on_diff sp (bridge_of c2 k')"
    have lost2: "lost k c2" using c2 by (simp add: stays_lost_def)
    have k: "depth_key k'" by (rule depth_of_key [OF o(1)])
    have cases: "c' = set_bridge k' (snd ?res) c2 \<or>
        status (fst ?res) = SEQUENCE_GAP \<and> (\<exists>x y. c' = (set_bridge k' (snd ?res) c2)\<lparr>cn_receiver := Rx_Opening k' x y ns\<rparr>)"
      using o(2) unfolding observe_depth_def case_prod_beta Let_def by (auto split: if_splits option.splits)
    show ?thesis
    proof (cases "k' = k")
      case True
      have u: "untouched_bridge (bridge_of c2 k)" using lost2 by (simp add: lost_def)
      then have "c' = set_bridge k (snd ?res) c2" using cases untouched_diff(2) [OF u, of sp] True by auto
      then have "lost k c'" "cn_gaps c' = cn_gaps c2" "cn_ready c' = cn_ready c2"
        using lost2 untouched_diff(1) [OF u, of sp] idle True
        by (auto simp: lost_def bridge_of_set) (auto simp: set_bridge_def recovering_def journaling_def)
      then show ?thesis using c2 by (simp add: stays_lost_def opened_gaps_def)
    next
      case False
      have "stays_lost k c2 c'"
        using cases lost2 False k idle
        by (intro stays_lostI) (auto simp: bridge_of_set set_bridge_def recovering_def journaling_def bridge_of_def)
      then show ?thesis by (rule stays_lost_trans [OF c2])
    qed
  qed (use c2 in simp)
qed

lemma connection_step_lost:
  assumes "lost k c" "connection_step env ev c = Some (Inr c')" "\<not> asks ev k"
  shows "stays_lost k c c'"
proof (cases ev)
  case (Frame raw realtime_ns monotonic_ns)
  then obtain i x where "c' = c\<lparr>cn_identity := i, cn_receiver := x\<rparr>" "\<forall>k'. \<not> journaling c' k'"
    using assms(2) by (auto simp: connection_step_def receive_frame_def Let_def rbind_Inr_iff journaling_def split: if_splits)
  then show ?thesis using assms(1) by (intro stays_lostI) (auto simp: bridge_of_def recovering_def)
next
  case Frame_Stored
  then show ?thesis using assms(2) frame_stored_lost [OF assms(1)] by (auto simp: connection_step_def split: receiver.splits)
next
  case Store_Failed
  then show ?thesis using assms(2) by (simp add: connection_step_def)
next
  case Gap_Journaled
  then obtain k' x y ns where rx: "cn_receiver c = Rx_Opening k' x y ns" and run: "gap_opened k' x y ns c = Inr c'"
    using assms(2) by (auto simp: connection_step_def split: receiver.splits)
  have k': "depth_key k'" "k' \<noteq> k" using assms(1) rx by (auto simp: lost_def journaling_def)
  define c1 where "c1 = c\<lparr>cn_gaps := cn_gaps c @ [Gap_Opened (cn_next_gap c) k' x y ns], cn_next_gap := cn_next_gap c + 1, cn_receiver := Rx_Idle,
            cn_resync := dict_set k' (cn_next_task c) (cn_resync c)\<rparr>"
  have start: "start_recovery (By_Reanchor (cn_next_gap c)) c1 (snapshot_request_of k') = Inr c'"
    using run by (simp add: gap_opened_def c1_def Let_def)
  have c1: "stays_lost k c c1"
    using assms(1) k'(2) by (auto simp: stays_lost_def lost_def c1_def bridge_of_def recovering_def journaling_def opened_gaps_def)
  then have "lost k c1" by (simp add: stays_lost_def)
  from start_recovery_lost [OF this start] have "stays_lost k c1 c'"
    using snapshot_of_stream [OF k'(1)] k'(2) by (cases k'; cases k) auto
  then show ?thesis by (rule stays_lost_trans [OF c1])
next
  case (Recovery t re)
  then show ?thesis using assms(2) recovery_step_lost [OF assms(1)] by (auto simp: connection_step_def split: option.splits)
next
  case (Gap_Close_Journaled t)
  then obtain g k' where c': "c' = gap_closed t g k' c" using assms(2) by (auto simp: connection_step_def split: option.splits)
  have "bridge_of c' = bridge_of c" "recovering c' = recovering c" "journaling c' = journaling c" "cn_acknowledged c' = cn_acknowledged c"
    "opened_gaps k c' = opened_gaps k c" "cn_ready c' = cn_ready c"
    by (simp_all add: c' gap_closed_def bridge_of_def recovering_def journaling_def opened_gaps_def fun_eq_iff)
  then show ?thesis using assms(1) by (simp add: stays_lost_def lost_def)
next
  case Acknowledged
  then show ?thesis using assms(1,2) by (simp add: connection_step_def lost_def)
next
  case (Update_Requested n requests)
  have "stays_lost k c (c\<lparr>cn_completed := x\<rparr>)" for x
    by (rule stays_lostI [OF assms(1)]) (simp_all add: bridge_of_def recovering_def)
  then show ?thesis using Update_Requested assms(2,3) start_recoveries_lost [OF assms(1)]
    by (auto simp: connection_step_def snapshots_requested_def asks_def split: if_splits)
qed

lemma unasked_run_lost:
  assumes "unasked_run env k c c'" "lost k c"
  shows "stays_lost k c c'"
  using assms
proof induction
  case unasked
  then show ?case by (simp add: stays_lost_def)
next
  case (goes_on c1 ev c2)
  then show ?case using connection_step_lost stays_lost_trans by (meson stays_lost_def)
qed

lemma broken_untouched: "status (fst (on_diff sp t)) = SEQUENCE_GAP \<Longrightarrow> untouched_bridge (snd (on_diff sp t))"
  by (auto simp: on_diff_def evaluate_snapshot_def Let_def untouched_bridge_def bridge_result_of_def split: option.splits if_splits sum.splits)

text \<open>The break itself: the tracker forgets its bridge, and nothing else happens.\<close>

lemma missed_break_lost:
  assumes "connection_ok c" "cn_receiver c = Rx_Storing d e err" "depth_of d = Some (k, data)" "span_of e data = Inr sp"
    and "status (fst (on_diff sp (bridge_of c k))) = SEQUENCE_GAP" "dict_get (cn_resync c) k \<noteq> None" "\<not> recovering c k"
    and "frame_stored d e err c = Inr c1"
  shows "lost k c1 \<and> cn_receiver c1 = Rx_Idle \<and> cn_gaps c1 = cn_gaps c \<and> cn_ready c1 = cn_ready c"
proof -
  define c2 where "c2 = maybe_transport_ready (c\<lparr>cn_events := cn_events c @ [e], cn_receiver := Rx_Idle, cn_transport_pending :=
    removeAll (df_stream_type d, case df_symbol d of Some s \<Rightarrow> s | None \<Rightarrow> []) (cn_transport_pending c)\<rparr>)"
  have same: "bridge_of c2 = bridge_of c" "cn_resync c2 = cn_resync c" "cn_receiver c2 = Rx_Idle" "cn_gaps c2 = cn_gaps c" "cn_ready c2 = cn_ready c"
    "recovering c2 = recovering c" "cn_acknowledged c2 = cn_acknowledged c"
    by (simp_all add: c2_def maybe_transport_ready_def bridge_of_def recovering_def fun_eq_iff)
  have "observe_depth k sp (ev_app_receive_realtime_ns e) c2 = Inr c1"
    using assms(3,4,8) by (auto simp: frame_stored_def c2_def Let_def split: option.splits)
  then have c1: "c1 = set_bridge k (snd (on_diff sp (bridge_of c k))) c2"
    using assms(5,6) by (simp add: observe_depth_def case_prod_beta Let_def same split: if_splits)
  have f: "cn_acknowledged c1 = cn_acknowledged c2" "bridge_of c1 k = snd (on_diff sp (bridge_of c k))" "recovering c1 k = recovering c2 k"
    "cn_receiver c1 = cn_receiver c2" "cn_gaps c1 = cn_gaps c2" "cn_ready c1 = cn_ready c2"
    by (simp_all add: c1 bridge_of_set) (simp_all add: set_bridge_def recovering_def)
  have u: "untouched_bridge (snd (on_diff sp (bridge_of c k)))"
    by (rule broken_untouched [OF assms(5)])
  have "\<not> untouched_bridge (bridge_of c k)" using assms(5) untouched_diff(2) [of "bridge_of c k" sp] by auto
  then have ack: "cn_acknowledged c" using assms(1) before_ackD(1) by (auto simp: connection_ok_def split: if_splits)
  show ?thesis
    using u ack assms(7) same f by (auto simp: lost_def journaling_def)
qed

section \<open>Properties\<close>

text \<open>C27. In every run of a connection in which no break was missed, once the connection is ready every depth stream of its
  initial requests (streams that a later update asks for are left out) is bridged, or a recovery of it is under way, or the
  receive loop is about to open a gap for it. A recovery that a broken sequence started has its gap still open; the recoveries of
  the bootstrap, and those that an update or the liveness loop requested, have no gap of their own. The missed breaks are
  those of C28.\<close>

theorem ready_stream_bridged_or_gapped:
  assumes "connection_run env (new_connection identity requests keys) True c" "cn_ready c"
    and "(s, snap) \<in> set requests" "stream_type_for_snapshot snap = Inr stream"
  shows "is_bridged (bridge_of c (stream, s)) \<or>
    (\<exists>t r. dict_get (cn_recoveries c) t = Some r \<and> rc_key r = (stream, s) \<and> (\<forall>g. rc_owner r = By_Reanchor g \<longrightarrow> gap_open c g (stream, s))) \<or>
    (\<exists>expected previous ns. cn_receiver c = Rx_Opening (stream, s) expected previous ns)"
proof -
  have ok: "cn_requests c = requests" "connection_ok c" "gaps_ok c" using connection_run_ok [OF assms(1)] by auto
  then have "cn_acknowledged c" "after_ack c" "tasks_ok c" using assms(2) before_ackD(4) by (auto simp: connection_ok_def split: if_splits)
  then have "covered c (stream, s)" using ok(1) assms(3,4) by (fastforce simp: after_ack_def)
  then consider "is_bridged (bridge_of c (stream, s))" | "recovering c (stream, s)" | "journaling c (stream, s)" unfolding covered_def by blast
  then show ?thesis
  proof cases
    case 2
    then obtain t r where r: "dict_get (cn_recoveries c) t = Some r" "rc_key r = (stream, s)"
      using recovering_iff \<open>tasks_ok c\<close> by (auto simp: tasks_ok_def)
    then have "rc_owner r = By_Reanchor g \<Longrightarrow> reanchor c t g (stream, s)" for g by (simp add: reanchor_def)
    then show ?thesis using r gapsD(2) [OF ok(3)] by blast
  next
    case 3
    then show ?thesis by (auto simp: journaling_def split: receiver.splits)
  qed blast
qed

text \<open>A connection of one stream: its book is bridged, breaks, is recovered, and breaks again while the gap is being closed.\<close>

fun run_events :: "frame_env \<Rightarrow> connection_event list \<Rightarrow> bool \<times> connection \<Rightarrow> (bool \<times> connection) option" where
  "run_events env [] s = Some s"
| "run_events env (ev # evs) (noticed, c) =
     (case connection_step env ev c of
        Some (Inr c') \<Rightarrow> run_events env evs (noticed \<and> \<not> missed_break ev c, c')
      | _ \<Rightarrow> None)"

lemma run_events_run:
  "run_events env evs (noticed, c) = Some (noticed', c') \<Longrightarrow> connection_run env c0 noticed c \<Longrightarrow> connection_run env c0 noticed' c'"
proof (induction evs arbitrary: noticed c)
  case (Cons ev evs)
  then obtain c1 where c1: "connection_step env ev c = Some (Inr c1)" "run_events env evs (noticed \<and> \<not> missed_break ev c, c1) = Some (noticed', c')"
    by (auto split: option.splits sum.splits)
  show ?case by (rule Cons.IH [OF c1(2) stepped [OF Cons.prems(2) c1(1)]])
qed simp

definition demo_diff :: "int \<Rightarrow> int \<Rightarrow> int \<Rightarrow> json" where
  "demo_diff first final previous = JObj [(''stream'', JStr ''a@depth@100ms''), (''data'', JObj [(''e'', JStr ''depthUpdate''),
     (''s'', JStr ''A''), (''U'', JInt first), (''u'', JInt final), (''pu'', JInt previous)])]"

definition ws_env :: frame_env where
  "ws_env = \<lparr>fe_loads = map_of [(''d1'', demo_diff 1 2 0), (''d2'', demo_diff 5 6 4), (''d3'', demo_diff 9 10 8),
     (''s1'', JObj [(''lastUpdateId'', JInt 2)]), (''s2'', JObj [(''lastUpdateId'', JInt 6)])],
     fe_container_text = (\<lambda>_. []), fe_lower = id, fe_upper = id, fe_unicode = ascii\<rparr>"

definition ws_start :: connection where
  "ws_start = new_connection \<lparr>si_collector_id = ''c'', si_boot_id = ''b'', si_segment_id = ''s'', si_connection_id = ''n'', si_sequence = 0\<rparr>
     [(''A'', DEPTH_SNAPSHOT)] [(DEPTH, ''A'')]"

definition ws_break :: "connection_event list" where
  "ws_break = [Acknowledged, Frame ''d1'' 1 1, Frame_Stored, Recovery 0 Events_Seen, Recovery 0 (Replies 2 [Client_Error [], Snapshot_Payload ''s1'' 1 2 ''r'']),
     Recovery 0 Snapshot_Stored, Frame ''d2'' 3 3, Frame_Stored, Gap_Journaled]"

definition ws_miss :: "connection_event list" where
  "ws_miss = [Recovery 1 Events_Seen, Recovery 1 (Replies 5 [Snapshot_Payload ''s2'' 4 5 ''r'']), Recovery 1 Snapshot_Stored,
     Frame ''d3'' 6 6, Frame_Stored, Gap_Close_Journaled 1]"

definition ws_broken :: connection where
  "ws_broken = snd (the (run_events ws_env ws_break (True, ws_start)))"

definition ws_silent :: connection where
  "ws_silent = snd (the (run_events ws_env ws_miss (True, ws_broken)))"

lemma ws_evaluated:
  "case run_events ws_env ws_break (True, ws_start) of
     None \<Rightarrow> False
   | Some (noticed, c) \<Rightarrow>
       (noticed \<and> cn_ready c \<and> \<not> is_bridged (bridge_of c (DEPTH, ''A'')) \<and> cn_receiver c = Rx_Idle) \<and>
       (case run_events ws_env ws_miss (noticed, c) of
          None \<Rightarrow> False
        | Some (noticed', c') \<Rightarrow> \<not> noticed' \<and> cn_ready c' \<and> cn_recoveries c' = [] \<and> cn_closing c' = [] \<and> cn_receiver c' = Rx_Idle \<and>
            cn_gaps c' = [Gap_Opened 0 (DEPTH, ''A'') 2 4 3, Gap_Closed 0 (DEPTH, ''A'')] \<and> untouched_bridge (bridge_of c' (DEPTH, ''A'')))"
  by code_simp

lemma ws_runs:
  "run_events ws_env ws_break (True, ws_start) = Some (True, ws_broken)" "cn_ready ws_broken" "\<not> is_bridged (bridge_of ws_broken (DEPTH, ''A''))"
  "cn_receiver ws_broken = Rx_Idle"
  "run_events ws_env ws_miss (True, ws_broken) = Some (False, ws_silent)" "cn_ready ws_silent" "cn_recoveries ws_silent = []"
  "cn_closing ws_silent = []" "cn_receiver ws_silent = Rx_Idle"
  "cn_gaps ws_silent = [Gap_Opened 0 (DEPTH, ''A'') 2 4 3, Gap_Closed 0 (DEPTH, ''A'')]" "untouched_bridge (bridge_of ws_silent (DEPTH, ''A''))"
proof -
  obtain n c where c: "run_events ws_env ws_break (True, ws_start) = Some (n, c)" using ws_evaluated by (auto split: option.splits)
  note at_c = ws_evaluated [unfolded c option.case prod.case]
  then have n: n by blast
  obtain n' c' where c': "run_events ws_env ws_miss (n, c) = Some (n', c')" using at_c by (auto split: option.splits)
  note at_c' = at_c [unfolded c' option.case prod.case]
  have "c = ws_broken" "c' = ws_silent" using c c' n by (simp_all add: ws_broken_def ws_silent_def)
  then show "run_events ws_env ws_break (True, ws_start) = Some (True, ws_broken)" "run_events ws_env ws_miss (True, ws_broken) = Some (False, ws_silent)"
    and "cn_ready ws_broken" "\<not> is_bridged (bridge_of ws_broken (DEPTH, ''A''))" "cn_receiver ws_broken = Rx_Idle"
    and "cn_ready ws_silent" "cn_recoveries ws_silent = []" "cn_closing ws_silent = []" "cn_receiver ws_silent = Rx_Idle"
    and "cn_gaps ws_silent = [Gap_Opened 0 (DEPTH, ''A'') 2 4 3, Gap_Closed 0 (DEPTH, ''A'')]" "untouched_bridge (bridge_of ws_silent (DEPTH, ''A''))"
    using c c' n at_c' by simp_all
qed

lemma ws_reached: "connection_run ws_env ws_start True ws_broken" "connection_run ws_env ws_start False ws_silent"
proof -
  show broken: "connection_run ws_env ws_start True ws_broken" by (rule run_events_run [OF ws_runs(1) connected])
  show "connection_run ws_env ws_start False ws_silent" by (rule run_events_run [OF ws_runs(5) broken])
qed

theorem ready_stream_bridged_or_gapped_witness:
  "cn_ready ws_broken \<and> \<not> is_bridged (bridge_of ws_broken (DEPTH, ''A'')) \<and>
    (\<exists>t r. dict_get (cn_recoveries ws_broken) t = Some r \<and> rc_key r = (DEPTH, ''A'') \<and>
      (\<forall>g. rc_owner r = By_Reanchor g \<longrightarrow> gap_open ws_broken g (DEPTH, ''A'')))"
  using ready_stream_bridged_or_gapped [OF ws_reached(1) [unfolded ws_start_def] ws_runs(2), of "''A''" DEPTH_SNAPSHOT DEPTH] ws_runs(2,3,4)
  by (simp add: stream_type_for_snapshot_def)

text \<open>C28. A break that is seen while the gap of the previous one is being closed is lost. Take any connection of a run in which
  nothing was missed before, with a frame of a stream \<open>k\<close> whose diff breaks its sequence, while \<open>k\<close> is still among the
  resync tasks although no recovery of it is under way: only the close of the previous gap is. The frame opens no gap, and in
  every continuation in which no update asks for the snapshot of \<open>k\<close> - whatever further frames come, gaps are closed and
  other streams break and recover - no gap of \<open>k\<close> is opened, no recovery of it starts, the stream is not bridged, and a
  connection that was ready stays ready.\<close>

theorem missed_break_is_silent:
  assumes "connection_run env (new_connection identity requests keys) True c" "cn_receiver c = Rx_Storing d e err"
    and "depth_of d = Some (k, data)" "span_of e data = Inr sp" "status (fst (on_diff sp (bridge_of c k))) = SEQUENCE_GAP"
    and "dict_get (cn_resync c) k \<noteq> None" "\<not> recovering c k"
    and "connection_step env Frame_Stored c = Some (Inr c1)" "unasked_run env k c1 c2"
  shows "cn_receiver c1 = Rx_Idle \<and> opened_gaps k c2 = opened_gaps k c \<and> \<not> is_bridged (bridge_of c2 k) \<and>
    \<not> recovering c2 k \<and> \<not> journaling c2 k \<and> (cn_ready c \<longrightarrow> cn_ready c2)"
proof -
  have ok: "connection_ok c" using connection_run_ok [OF assms(1)] by simp
  have "frame_stored d e err c = Inr c1" using assms(2,8) by (simp add: connection_step_def)
  from missed_break_lost [OF ok assms(2-7) this]
  have c1: "lost k c1" "cn_receiver c1 = Rx_Idle" "opened_gaps k c1 = opened_gaps k c" "cn_ready c1 = cn_ready c"
    by (simp_all add: opened_gaps_def)
  have "stays_lost k c1 c2" by (rule unasked_run_lost [OF assms(9) c1(1)])
  then have later: "lost k c2" "opened_gaps k c2 = opened_gaps k c1" "cn_ready c1 \<longrightarrow> cn_ready c2" by (simp_all add: stays_lost_def)
  have "untouched_bridge (bridge_of c2 k)" using later(1) unfolding lost_def by blast
  moreover have "\<not> recovering c2 k" using later(1) unfolding lost_def by blast
  moreover have "\<not> journaling c2 k" using later(1) unfolding lost_def by blast
  ultimately have "\<not> is_bridged (bridge_of c2 k)" "\<not> recovering c2 k" "\<not> journaling c2 k"
    by (simp_all add: untouched_bridge_def is_bridged_def)
  then show ?thesis using c1(2-4) later(2,3) by simp
qed

text \<open>The run above misses a break: the frame \<open>d3\<close> comes before the gap of the first break is closed.\<close>

definition ws_breaking :: connection where
  "ws_breaking = snd (the (run_events ws_env (take 4 ws_miss) (True, ws_broken)))"

lemma ws_breaking_evaluated:
  "case run_events ws_env ws_break (True, ws_start) of
     None \<Rightarrow> False
   | Some (noticed, c) \<Rightarrow>
       (case run_events ws_env (take 4 ws_miss) (True, c) of
          None \<Rightarrow> False
        | Some (noticed', c') \<Rightarrow> noticed' \<and> cn_ready c' \<and> \<not> recovering c' (DEPTH, ''A'') \<and> dict_get (cn_resync c') (DEPTH, ''A'') \<noteq> None \<and>
            (case cn_receiver c' of
               Rx_Storing d e err \<Rightarrow>
                 (case depth_of d of
                    Some (k, data) \<Rightarrow> k = (DEPTH, ''A'') \<and>
                      (case span_of e data of Inr sp \<Rightarrow> status (fst (on_diff sp (bridge_of c' k))) = SEQUENCE_GAP | Inl _ \<Rightarrow> False)
                  | None \<Rightarrow> False)
             | _ \<Rightarrow> False) \<and>
            (case connection_step ws_env Frame_Stored c' of
               Some (Inr c1) \<Rightarrow>
                 (case connection_step ws_env (Gap_Close_Journaled 1) c1 of Some (Inr c2) \<Rightarrow> True | _ \<Rightarrow> False)
             | _ \<Rightarrow> False))"
  by code_simp

theorem missed_break_is_silent_witness:
  "\<exists>c1 c2. connection_step ws_env Frame_Stored ws_breaking = Some (Inr c1) \<and> connection_step ws_env (Gap_Close_Journaled 1) c1 = Some (Inr c2) \<and>
     cn_ready c2 \<and> \<not> is_bridged (bridge_of c2 (DEPTH, ''A'')) \<and> \<not> recovering c2 (DEPTH, ''A'')"
proof -
  define x where "x = run_events ws_env (take 4 ws_miss) (True, ws_broken)"
  note E = ws_breaking_evaluated [unfolded ws_runs(1) option.case prod.case, folded x_def]
  have "x \<noteq> None"
  proof
    assume "x = None"
    then show False using E by (simp only: option.case)
  qed
  moreover have "ws_breaking = snd (the x)" by (simp only: ws_breaking_def x_def)
  ultimately obtain n where r: "x = Some (n, ws_breaking)" by (cases x; cases "the x") auto
  note at = E [unfolded r option.case prod.case]
  have n: "n" "cn_ready ws_breaking" "\<not> recovering ws_breaking (DEPTH, ''A'')" "dict_get (cn_resync ws_breaking) (DEPTH, ''A'') \<noteq> None"
    using at [THEN conjunct1] at [THEN conjunct2, THEN conjunct1] at [THEN conjunct2, THEN conjunct2, THEN conjunct1]
      at [THEN conjunct2, THEN conjunct2, THEN conjunct2, THEN conjunct1] .
  have rx0: "case cn_receiver ws_breaking of
       Rx_Storing d e err \<Rightarrow>
         (case depth_of d of
            Some (k, data) \<Rightarrow> k = (DEPTH, ''A'') \<and>
              (case span_of e data of Inr sp \<Rightarrow> status (fst (on_diff sp (bridge_of ws_breaking k))) = SEQUENCE_GAP | Inl _ \<Rightarrow> False)
          | None \<Rightarrow> False)
     | _ \<Rightarrow> False"
    using at [THEN conjunct2, THEN conjunct2, THEN conjunct2, THEN conjunct2, THEN conjunct1] .
  obtain d e err where d: "cn_receiver ws_breaking = Rx_Storing d e err" using rx0 by (cases "cn_receiver ws_breaking") simp_all
  note rx1 = rx0 [unfolded d receiver.case]
  obtain data where data: "depth_of d = Some ((DEPTH, ''A''), data)" using rx1 by (auto split: option.splits)
  note rx2 = rx1 [unfolded data option.case prod.case]
  obtain sp where sp: "span_of e data = Inr sp" "status (fst (on_diff sp (bridge_of ws_breaking (DEPTH, ''A'')))) = SEQUENCE_GAP"
    using rx2 by (cases "span_of e data") simp_all
  have s0: "case connection_step ws_env Frame_Stored ws_breaking of
       Some (Inr c1) \<Rightarrow> (case connection_step ws_env (Gap_Close_Journaled 1) c1 of Some (Inr c2) \<Rightarrow> True | _ \<Rightarrow> False)
     | _ \<Rightarrow> False"
    using at [THEN conjunct2, THEN conjunct2, THEN conjunct2, THEN conjunct2, THEN conjunct2] .
  obtain c1 where c1: "connection_step ws_env Frame_Stored ws_breaking = Some (Inr c1)"
    using s0 by (cases "connection_step ws_env Frame_Stored ws_breaking"; cases "the (connection_step ws_env Frame_Stored ws_breaking)") simp_all
  note s1 = s0 [unfolded c1 option.case sum.case]
  obtain c2 where c2: "connection_step ws_env (Gap_Close_Journaled 1) c1 = Some (Inr c2)"
    using s1 by (cases "connection_step ws_env (Gap_Close_Journaled 1) c1"; cases "the (connection_step ws_env (Gap_Close_Journaled 1) c1)") simp_all
  have run: "connection_run ws_env (new_connection \<lparr>si_collector_id = ''c'', si_boot_id = ''b'', si_segment_id = ''s'', si_connection_id = ''n'',
      si_sequence = 0\<rparr> [(''A'', DEPTH_SNAPSHOT)] [(DEPTH, ''A'')]) True ws_breaking"
    using run_events_run [OF r [unfolded x_def] ws_reached(1)] n(1) by (simp add: ws_start_def)
  have later: "unasked_run ws_env (DEPTH, ''A'') c1 c2" by (rule goes_on [OF unasked c2]) (simp add: asks_def)
  from missed_break_is_silent [OF run d data sp n(4,3) c1 later] show ?thesis using c1 c2 n(2) by (intro exI [of _ c1] exI [of _ c2]) simp
qed

text \<open>While a stream is reanchored its gap is open; when the connection ends then, the close of \<open>reanchor\<close> is cancelled with it.\<close>

lemma reanchor_in_progress_gap_open:
  assumes "connection_run env (new_connection identity requests keys) True c"
    and "dict_get (cn_recoveries c) t = Some r" "rc_owner r = By_Reanchor g"
  shows "gap_open c g (rc_key r)"
proof -
  have "reanchor c t g (rc_key r)" using assms(2,3) by (simp add: reanchor_def)
  then show ?thesis using gapsD(2) connection_run_ok [OF assms(1)] by blast
qed

end
