(* ===== verification/Routes.thy ===== *)
theory Routes
  imports Ws_Control Stream_Decode
begin

text \<open>
  A route, \<open>src/miry/collector/routes.py\<close>: the runner that keeps one websocket connection up, rotates it and
  covers its losses with gaps, and the liveness loop that refreshes stale streams. The locals of \<open>run\<close> and of
  \<open>liveness_loop\<close> are fields of the state and the place where a task waits is data. A step is what happens
  between two awaits; the writes of the gap journal are part of the step that awaits them and may fail.
  Monotonic times are rationals.
\<close>

section \<open>State\<close>

type_synonym liveness_key = "stream_type \<times> string"

text \<open>The exceptions of a connection; \<open>Transport_Lost\<close> stands for the client, socket and timeout errors.\<close>

datatype route_error =
    Overloaded string
  | Transport_Lost string
  | Audit_Lost audit_error
  | Unexpected_Error string
  | Task_Cancelled

datatype route_gap =
    Route_Opened nat gap_reason "string option" "string list" "stream_type list" int string
  | Route_Closed nat gap_reason "string option" "string list" "stream_type list" string

text \<open>\<open>hd_end\<close> is set when the task of the connection is over: with its error, or none.\<close>

record handle =
  hd_connection :: string
  hd_end :: "route_error option option"

datatype phase =
    Loop_Top
  | Starting handle bool bool bool
  | Pausing
  | Watching
  | Replacing handle bool bool
  | Overlapping handle
  | Route_Ended
  | Route_Crashed

text \<open>Where the liveness loop waits: asleep, closing the gaps of resumed streams, opening those of stale ones, refreshing,
  waiting for fresh events, or closing the gaps of refreshed streams.\<close>

datatype live_phase =
    Live_Sleep
  | Live_Resume rat "liveness_key list"
  | Live_Open "(liveness_key \<times> int) list" "liveness_key list"
  | Live_Opened liveness_key nat "(liveness_key \<times> int) list" "liveness_key list"
  | Live_Refresh "liveness_key list" nat
  | Live_Wait "liveness_key list" nat rat
  | Live_Close "liveness_key list" nat
  | Live_Ended
  | Live_Crashed

text \<open>An \<open>update_instruments\<close> that waits for its subscriptions and first events.\<close>

record route_update =
  ru_instruments :: "string list"
  ru_subscriptions :: "string list"
  ru_previous :: "string list"
  ru_keys :: "liveness_key list"
  ru_started :: rat
  ru_started_ns :: int

record route =
  rt_name :: string
  rt_subscriptions :: "string list"
  rt_instruments :: "string list"
  rt_stream_types :: "stream_type list"
  rt_liveness_types :: "stream_type list"
  rt_d0 :: bool
  rt_refresh_limit :: nat
  rt_rotation :: rat
  rt_rotation_base :: rat
  rt_last_event :: "(liveness_key, rat \<times> int) dict"
  rt_generation :: nat
  rt_connection_ready :: bool
  rt_reconnect :: bool
  rt_reported :: bool
  rt_gaps :: "route_gap list"
  rt_next_gap :: nat
  rt_phase :: phase
  rt_current :: "handle option"
  rt_gap :: "nat option"
  rt_l2_gap :: "nat option"
  rt_gap_reason :: gap_reason
  rt_failures :: nat
  rt_active_since :: "rat option"
  rt_update :: "route_update option"
  rt_live_phase :: live_phase
  rt_liveness_timeout :: "rat option"
  rt_live :: "(liveness_key, nat \<times> rat) dict"
  rt_failure_generation :: int
  rt_refresh_failures :: nat

definition event_keys :: "stream_type list \<Rightarrow> string list \<Rightarrow> liveness_key list" where
  "event_keys types symbols = concat (map (\<lambda>t. map (\<lambda>s. (t, s)) symbols) types)"

definition new_route :: "string \<Rightarrow> string list \<Rightarrow> string list \<Rightarrow> stream_type list \<Rightarrow> stream_type list \<Rightarrow> bool \<Rightarrow> nat \<Rightarrow> rat \<Rightarrow> rat \<Rightarrow>
    rat option \<Rightarrow> rat \<Rightarrow> int \<Rightarrow> route" where
  "new_route name subscriptions instruments types liveness d0 refresh_limit rotation offset timeout now now_ns =
     \<lparr>rt_name = name, rt_subscriptions = subscriptions, rt_instruments = instruments, rt_stream_types = types,
       rt_liveness_types = rev (remdups (rev (if liveness = [] then types else liveness))), rt_d0 = d0, rt_refresh_limit = refresh_limit,
       rt_rotation = rotation + offset, rt_rotation_base = rotation,
       rt_last_event = map (\<lambda>k. (k, now, now_ns)) (event_keys (rev (remdups (rev (if liveness = [] then types else liveness)))) instruments),
       rt_generation = 0, rt_connection_ready = False, rt_reconnect = False, rt_reported = False, rt_gaps = [], rt_next_gap = 0,
       rt_phase = Loop_Top, rt_current = None, rt_gap = None, rt_l2_gap = None, rt_gap_reason = CONNECTION_LOST, rt_failures = 0,
       rt_active_since = None, rt_update = None, rt_live_phase = Live_Sleep, rt_liveness_timeout = timeout, rt_live = [], rt_failure_generation = -1, rt_refresh_failures = 0\<rparr>"

definition route_ready :: "route \<Rightarrow> bool" where
  "route_ready r \<longleftrightarrow> rt_connection_ready r \<and> \<not> rt_reconnect r"

section \<open>Gaps\<close>

definition journal_open :: "gap_reason \<Rightarrow> string option \<Rightarrow> string list \<Rightarrow> stream_type list \<Rightarrow> int \<Rightarrow> string \<Rightarrow> route \<Rightarrow> nat \<times> route" where
  "journal_open why connection symbols types affected_ns note r =
     (rt_next_gap r, r\<lparr>rt_gaps := rt_gaps r @ [Route_Opened (rt_next_gap r) why connection symbols types affected_ns note],
       rt_next_gap := rt_next_gap r + 1\<rparr>)"

definition journal_close :: "nat \<Rightarrow> gap_reason \<Rightarrow> string option \<Rightarrow> string list \<Rightarrow> stream_type list \<Rightarrow> string \<Rightarrow> route \<Rightarrow> route" where
  "journal_close g why connection symbols types note r = r\<lparr>rt_gaps := rt_gaps r @ [Route_Closed g why connection symbols types note]\<rparr>"

text \<open>The oldest last event of the chosen streams, or now when there is none.\<close>

definition oldest_event :: "(liveness_key \<Rightarrow> bool) \<Rightarrow> int \<Rightarrow> route \<Rightarrow> int" where
  "oldest_event chosen now_ns r =
     (case map (\<lambda>(_, _, t). t) (filter (\<lambda>(k, _). chosen k) (rt_last_event r)) of [] \<Rightarrow> now_ns | t # ts \<Rightarrow> fold min ts t)"

definition gap_note :: "route \<Rightarrow> string \<Rightarrow> string" where
  "gap_note r note = take 500 (rt_name r @ '': '' @ note)"

definition open_route_gap :: "gap_reason \<Rightarrow> string \<Rightarrow> string option \<Rightarrow> int option \<Rightarrow> int \<Rightarrow> route \<Rightarrow> nat \<times> route" where
  "open_route_gap why note connection affected_ns now_ns r =
     journal_open why connection (rt_instruments r) (rt_stream_types r)
       (case affected_ns of Some t \<Rightarrow> t | None \<Rightarrow> oldest_event (\<lambda>_. True) now_ns r) (gap_note r note) r"

definition depth_types :: "route \<Rightarrow> stream_type list" where
  "depth_types r = filter (\<lambda>t. t \<in> {DEPTH, RPI_DEPTH}) (rt_stream_types r)"

definition open_l2_reanchor_gap :: "string \<Rightarrow> string option \<Rightarrow> int option \<Rightarrow> int \<Rightarrow> route \<Rightarrow> nat option \<times> route" where
  "open_l2_reanchor_gap note connection affected_ns now_ns r =
     (if depth_types r = [] then (None, r)
      else let (g, r1) = journal_open L2_REANCHOR connection (rt_instruments r) (depth_types r)
          (case affected_ns of Some t \<Rightarrow> t | None \<Rightarrow> oldest_event (\<lambda>k. fst k \<in> set (depth_types r)) now_ns r) (gap_note r note) r in
        (Some g, r1))"

definition close_l2_reanchor_gap :: "nat \<Rightarrow> string \<Rightarrow> route \<Rightarrow> route" where
  "close_l2_reanchor_gap g connection r =
     journal_close g L2_REANCHOR (Some connection) (rt_instruments r) (depth_types r) (rt_name r @ '' snapshot bridges verified'') r"

definition close_transport_gap :: "nat \<Rightarrow> gap_reason \<Rightarrow> string \<Rightarrow> route \<Rightarrow> route" where
  "close_transport_gap g why connection r =
     journal_close g why (Some connection) (rt_instruments r) (rt_stream_types r)
       (rt_name r @ '' transport recovered; L2 remains invalid until snapshot bridge'') r"

definition open_depth_gap :: "string \<Rightarrow> string \<Rightarrow> stream_type \<Rightarrow> int \<Rightarrow> string \<Rightarrow> route \<Rightarrow> nat \<times> route" where
  "open_depth_gap connection symbol stream affected_ns note r = journal_open L2_SEQUENCE (Some connection) [symbol] [stream] affected_ns note r"

definition close_depth_gap :: "nat \<Rightarrow> string \<Rightarrow> stream_type \<Rightarrow> route \<Rightarrow> route" where
  "close_depth_gap g symbol stream r =
     journal_close g L2_SEQUENCE None [symbol] [stream] ''snapshot bridge verified for the active depth sequence'' r"

section \<open>The runner\<close>

definition error_affected_from :: "route_error \<Rightarrow> int option" where
  "error_affected_from e = (case e of Audit_Lost (Audit_Error _ t) \<Rightarrow> Some t | _ \<Rightarrow> None)"

definition error_text :: "route_error \<Rightarrow> string" where
  "error_text e = (case e of Overloaded s \<Rightarrow> s | Transport_Lost s \<Rightarrow> s | Audit_Lost (Audit_Error s _) \<Rightarrow> s | Unexpected_Error s \<Rightarrow> s | Task_Cancelled \<Rightarrow> [])"

text \<open>The jitter is between 0.8 and 1.2.\<close>

definition reconnect_delay :: "nat \<Rightarrow> rat \<Rightarrow> rat" where
  "reconnect_delay failures jitter = min 30 (min 30 (2 ^ (failures - 1)) * jitter)"

definition activate_connection :: "rat \<Rightarrow> route \<Rightarrow> route" where
  "activate_connection now r = r\<lparr>rt_generation := rt_generation r + 1, rt_reconnect := False, rt_connection_ready := True,
     rt_active_since := Some now, rt_phase := Watching\<rparr>"

text \<open>The gaps of a loss: one for the transport, one for the books unless one is held already.\<close>

definition cover_loss :: "gap_reason \<Rightarrow> string \<Rightarrow> string option \<Rightarrow> int option \<Rightarrow> int \<Rightarrow> route \<Rightarrow> route" where
  "cover_loss why note connection affected_ns now_ns r =
     (let (g, r1) = open_route_gap why note connection affected_ns now_ns r;
          r2 = r1\<lparr>rt_gap := Some g, rt_gap_reason := why\<rparr> in
      if rt_l2_gap r2 = None then
        let (l, r3) = open_l2_reanchor_gap note connection affected_ns now_ns r2 in r3\<lparr>rt_l2_gap := l\<rparr>
      else r2)"

definition start_failed :: "route_error \<Rightarrow> bool \<Rightarrow> int \<Rightarrow> route \<Rightarrow> route" where
  "start_failed e open_ok now_ns r =
     (case e of
        Task_Cancelled \<Rightarrow> r\<lparr>rt_phase := Route_Ended\<rparr>
      | Unexpected_Error _ \<Rightarrow> r\<lparr>rt_phase := Route_Crashed\<rparr>
      | Overloaded note \<Rightarrow>
          if rt_gap r \<noteq> None then r\<lparr>rt_phase := Pausing\<rparr>
          else if open_ok then (cover_loss INGEST_OVERLOAD note None None now_ns r)\<lparr>rt_phase := Pausing\<rparr>
          else r\<lparr>rt_phase := Route_Crashed\<rparr>
      | _ \<Rightarrow>
          if rt_gap r \<noteq> None then r\<lparr>rt_failures := rt_failures r + 1, rt_phase := Pausing\<rparr>
          else if open_ok then
            (cover_loss CONNECTION_LOST (error_text e) None (error_affected_from e) now_ns r)\<lparr>rt_failures := rt_failures r + 1, rt_phase := Pausing\<rparr>
          else r\<lparr>rt_phase := Route_Crashed\<rparr>)"

definition journal_error :: route_error where
  "journal_error = Transport_Lost ''gap journal write failed''"

text \<open>\<open>_start_ready_connection\<close> has returned.\<close>

definition start_finished :: "handle \<Rightarrow> bool \<Rightarrow> bool \<Rightarrow> rat \<Rightarrow> int \<Rightarrow> route \<Rightarrow> route" where
  "start_finished h l2_ok open_ok now now_ns r =
     (let r1 = r\<lparr>rt_current := Some h\<rparr> in
      case rt_l2_gap r1 of
        None \<Rightarrow> (activate_connection now r1)\<lparr>rt_reported := True\<rparr>
      | Some l \<Rightarrow>
          if l2_ok then
            (activate_connection now ((close_l2_reanchor_gap l (hd_connection h) r1)\<lparr>rt_l2_gap := None\<rparr>))\<lparr>rt_reported := True\<rparr>
          else start_failed journal_error open_ok now_ns r1)"

definition continue_start :: "handle \<Rightarrow> bool \<Rightarrow> bool \<Rightarrow> bool \<Rightarrow> bool \<Rightarrow> bool \<Rightarrow> rat \<Rightarrow> int \<Rightarrow> route \<Rightarrow> route" where
  "continue_start h reports transported ready l2_ok open_ok now now_ns r =
     (if ready \<and> transported then start_finished h l2_ok open_ok now now_ns r
      else r\<lparr>rt_phase := Starting h reports transported ready\<rparr>)"

text \<open>The transport of the connection being started is ready: its loss gap closes.\<close>

definition start_transported :: "handle \<Rightarrow> bool \<Rightarrow> bool \<Rightarrow> bool \<Rightarrow> bool \<Rightarrow> bool \<Rightarrow> rat \<Rightarrow> int \<Rightarrow> route \<Rightarrow> route" where
  "start_transported h reports ready transport_ok l2_ok open_ok now now_ns r =
     (case (reports, rt_gap r) of
        (True, Some g) \<Rightarrow>
          if transport_ok then
            continue_start h reports True ready l2_ok open_ok now now_ns
              ((close_transport_gap g (rt_gap_reason r) (hd_connection h) r)\<lparr>rt_gap := None\<rparr>)
          else start_failed journal_error open_ok now_ns r
      | _ \<Rightarrow> continue_start h reports True ready l2_ok open_ok now now_ns r)"

text \<open>The current connection failed, or a reconnect was asked for.\<close>

definition connection_lost :: "handle \<Rightarrow> route_error option \<Rightarrow> bool \<Rightarrow> rat \<Rightarrow> int \<Rightarrow> route \<Rightarrow> route" where
  "connection_lost h e open_ok now now_ns r =
     (let why = (case e of Some (Overloaded _) \<Rightarrow> INGEST_OVERLOAD | _ \<Rightarrow> CONNECTION_LOST);
          note = (case e of Some err \<Rightarrow> error_text err | None \<Rightarrow> ''connection closed'');
          r1 = r\<lparr>rt_connection_ready := False, rt_reconnect := False\<rparr> in
      if \<not> open_ok then r1\<lparr>rt_phase := Route_Crashed\<rparr>
      else
        let r2 = (cover_loss why note (Some (hd_connection h)) (Option.bind e error_affected_from) now_ns r1)\<lparr>rt_current := None, rt_phase := Pausing\<rparr> in
        if why = INGEST_OVERLOAD then r2
        else r2\<lparr>rt_failures := (case rt_active_since r2 of Some t \<Rightarrow> if 60 \<le> now - t then 0 else rt_failures r2 | None \<Rightarrow> rt_failures r2) + 1\<rparr>)"

text \<open>\<open>_wait_current\<close> wakes up.\<close>

definition watch_woken :: "bool \<Rightarrow> bool \<Rightarrow> string \<Rightarrow> bool \<Rightarrow> rat \<Rightarrow> int \<Rightarrow> handle \<Rightarrow> route \<Rightarrow> route option" where
  "watch_woken stopping rotating replacement open_ok now now_ns h r =
     (if stopping then Some (r\<lparr>rt_phase := Route_Ended\<rparr>)
      else case hd_end h of
        Some e \<Rightarrow> Some (connection_lost h e open_ok now now_ns r)
      | None \<Rightarrow>
          if rt_reconnect r then
            Some (connection_lost h (Some (Transport_Lost ''targeted subscription recovery requested route reconnect'')) open_ok now now_ns r)
          else if rotating then
            Some (r\<lparr>rt_rotation := rt_rotation_base r, rt_phase := Replacing \<lparr>hd_connection = replacement, hd_end = None\<rparr> False False\<rparr>)
          else None)"

definition replacement_failed :: "route_error \<Rightarrow> route \<Rightarrow> route" where
  "replacement_failed e r = r\<lparr>rt_phase := (case e of Task_Cancelled \<Rightarrow> Route_Ended | Unexpected_Error _ \<Rightarrow> Route_Crashed | _ \<Rightarrow> Pausing)\<rparr>"

definition continue_replacement :: "handle \<Rightarrow> bool \<Rightarrow> bool \<Rightarrow> route \<Rightarrow> route" where
  "continue_replacement h transported ready r =
     r\<lparr>rt_phase := (if ready \<and> transported then Overlapping h else Replacing h transported ready)\<rparr>"

definition overlap_over :: "bool \<Rightarrow> rat \<Rightarrow> handle \<Rightarrow> route \<Rightarrow> route" where
  "overlap_over stopping now h r =
     (if stopping then r\<lparr>rt_phase := Route_Ended\<rparr> else activate_connection now (r\<lparr>rt_current := Some h\<rparr>))"

text \<open>The task of a running connection ends. While a connection is started its end is a failure of the start.\<close>

definition end_handle :: "string \<Rightarrow> route_error option \<Rightarrow> handle \<Rightarrow> handle" where
  "end_handle connection e h = (if hd_connection h = connection \<and> hd_end h = None then h\<lparr>hd_end := Some e\<rparr> else h)"

definition task_ended :: "string \<Rightarrow> route_error option \<Rightarrow> route \<Rightarrow> route" where
  "task_ended connection e r =
     r\<lparr>rt_current := map_option (end_handle connection e) (rt_current r),
       rt_phase := (case rt_phase r of Overlapping h \<Rightarrow> Overlapping (end_handle connection e h) | p \<Rightarrow> p)\<rparr>"

section \<open>Events and updates\<close>

definition mark_event :: "stream_type \<Rightarrow> string option \<Rightarrow> rat \<Rightarrow> int \<Rightarrow> route \<Rightarrow> route" where
  "mark_event stream symbol now now_ns r =
     (case symbol of
        None \<Rightarrow> r
      | Some s \<Rightarrow>
          if dict_get (rt_last_event r) (stream, s) = None then r
          else r\<lparr>rt_last_event := dict_set (stream, s) (now, now_ns) (rt_last_event r)\<rparr>)"

text \<open>One pass of \<open>_wait_for_fresh_events\<close>; \<open>self._last_event[key]\<close> raises when the key is not there.\<close>

definition pending_keys :: "liveness_key list \<Rightarrow> rat \<Rightarrow> route \<Rightarrow> py_error + liveness_key list" where
  "pending_keys keys seen_after r =
     rbind (map_result (\<lambda>k. case dict_get (rt_last_event r) k of None \<Rightarrow> Inl (KeyError (snd k)) | Some (t, _) \<Rightarrow> Inr (k, t)) keys) (\<lambda>kts.
     Inr (map fst (filter (\<lambda>(_, t). t \<le> seen_after) kts)))"

definition snapshot_requests_for :: "string list \<Rightarrow> route \<Rightarrow> (string \<times> stream_type) list" where
  "snapshot_requests_for symbols r =
     (if DEPTH \<notin> set (rt_stream_types r) then []
      else map (\<lambda>s. (s, DEPTH_SNAPSHOT)) symbols @ (if rt_d0 r then map (\<lambda>s. (s, RPI_DEPTH_SNAPSHOT)) symbols else []))"

text \<open>\<open>update_instruments\<close> until it waits, for the subscriptions of the new instruments.\<close>

definition begin_update_instruments :: "string list \<Rightarrow> string list \<Rightarrow> rat \<Rightarrow> int \<Rightarrow> route \<Rightarrow> (subscription_update \<times> route) option" where
  "begin_update_instruments symbols subscriptions now now_ns r =
     (if symbols = rt_instruments r then None
      else
        let added = sort (remdups (filter (\<lambda>s. s \<notin> set (rt_instruments r)) symbols));
            keys = event_keys (rt_liveness_types r) added in
        Some (new_update (sort (remdups (filter (\<lambda>s. s \<notin> set (rt_subscriptions r)) subscriptions)))
            (sort (remdups (filter (\<lambda>s. s \<notin> set subscriptions) (rt_subscriptions r)))) (snapshot_requests_for added r),
          r\<lparr>rt_last_event := fold (\<lambda>k. dict_set k (now, now_ns)) keys (rt_last_event r),
            rt_update := Some \<lparr>ru_instruments = symbols, ru_subscriptions = subscriptions, ru_previous = rt_instruments r,
              ru_keys = keys, ru_started = now, ru_started_ns = now_ns\<rparr>\<rparr>))"

definition fail_update_instruments :: "route_update \<Rightarrow> route \<Rightarrow> route" where
  "fail_update_instruments u r = r\<lparr>rt_last_event := filter (\<lambda>(k, _). snd k \<in> set (ru_previous u)) (rt_last_event r),
     rt_reconnect := True, rt_update := None\<rparr>"

definition finish_update_instruments :: "route_update \<Rightarrow> rat \<Rightarrow> route \<Rightarrow> route" where
  "finish_update_instruments u now r = r\<lparr>rt_subscriptions := ru_subscriptions u, rt_instruments := ru_instruments u,
     rt_last_event := map (\<lambda>k. (k, case dict_get (rt_last_event r) k of Some v \<Rightarrow> v | None \<Rightarrow> (now, ru_started_ns u)))
       (event_keys (rt_liveness_types r) (ru_instruments u)),
     rt_update := None\<rparr>"

section \<open>The liveness loop\<close>

definition liveness_subscription :: "(string \<Rightarrow> string) \<Rightarrow> liveness_key \<Rightarrow> py_error + string" where
  "liveness_subscription lower k =
     (let name = lower (snd k) in
      case fst k of
        DEPTH \<Rightarrow> Inr (name @ ''@depth@100ms'')
      | RPI_DEPTH \<Rightarrow> Inr (name @ ''@rpiDepth@500ms'')
      | BOOK_TICKER \<Rightarrow> Inr (name @ ''@bookTicker'')
      | MARK_PRICE \<Rightarrow> Inr (name @ ''@markPrice@1s'')
      | _ \<Rightarrow> Inl (ValueError ''unsupported liveness subscription''))"

text \<open>The update of \<open>_refresh_keys\<close>: the stale streams are removed and added again.\<close>

definition refresh_update :: "(string \<Rightarrow> string) \<Rightarrow> liveness_key list \<Rightarrow> py_error + subscription_update" where
  "refresh_update lower keys =
     rbind (map_result (liveness_subscription lower) keys) (\<lambda>streams.
     rbind (map_result (\<lambda>k. rbind (snapshot_type_for_stream (fst k)) (\<lambda>t. Inr (snd k, t)))
       (filter (\<lambda>k. fst k \<in> {DEPTH, RPI_DEPTH}) keys)) (\<lambda>snapshots.
     Inr (new_update (sort streams) (sort streams) snapshots)))"

definition stream_resumed :: "liveness_key \<Rightarrow> rat \<Rightarrow> route \<Rightarrow> bool" where
  "stream_resumed k opened_after r \<longleftrightarrow> (case dict_get (rt_last_event r) k of None \<Rightarrow> True | Some (t, _) \<Rightarrow> \<not> t \<le> opened_after)"

definition close_live_gap :: "liveness_key \<Rightarrow> nat \<Rightarrow> string \<Rightarrow> route \<Rightarrow> route" where
  "close_live_gap k g note r =
     (journal_close g CONNECTION_LOST None [snd k] [fst k] note r)\<lparr>rt_live := dict_pop k (rt_live r)\<rparr>"

definition stale_keys :: "rat \<Rightarrow> rat \<Rightarrow> route \<Rightarrow> (liveness_key \<times> int) list" where
  "stale_keys now timeout r =
     map (\<lambda>(k, _, ns). (k, ns)) (filter (\<lambda>(k, t, _). snd k \<in> set (rt_instruments r) \<and> timeout \<le> now - t) (rt_last_event r))"

definition live_resume :: "rat \<Rightarrow> liveness_key list \<Rightarrow> bool \<Rightarrow> route \<Rightarrow> route" where
  "live_resume now keys ok r =
     (case keys of
        k # ks \<Rightarrow>
          (case dict_get (rt_live r) k of
             Some (g, opened_after) \<Rightarrow>
               if \<not> stream_resumed k opened_after r then r\<lparr>rt_live_phase := Live_Resume now ks\<rparr>
               else if ok then (close_live_gap k g
                 (if dict_get (rt_last_event r) k = None then ''stream removed from the active route''
                  else ''stream activity resumed after targeted recovery'') r)\<lparr>rt_live_phase := Live_Resume now ks\<rparr>
               else r\<lparr>rt_live_phase := Live_Crashed\<rparr>
           | None \<Rightarrow> r\<lparr>rt_live_phase := Live_Resume now ks\<rparr>)
      | [] \<Rightarrow>
          let stale = stale_keys now (case rt_liveness_timeout r of Some t \<Rightarrow> t | None \<Rightarrow> 0) r in
          r\<lparr>rt_live_phase := (if stale = [] then Live_Sleep else Live_Open stale (map fst stale))\<rparr>)"

definition live_open :: "(liveness_key \<times> int) list \<Rightarrow> liveness_key list \<Rightarrow> string \<Rightarrow> bool \<Rightarrow> route \<Rightarrow> route" where
  "live_open stale keys note ok r =
     (case stale of
        [] \<Rightarrow> r\<lparr>rt_live_phase := Live_Refresh keys (rt_generation r)\<rparr>
      | (k, ns) # rest \<Rightarrow>
          if dict_get (rt_live r) k \<noteq> None then r\<lparr>rt_live_phase := Live_Open rest keys\<rparr>
          else if ok then
            let (g, r1) = journal_open CONNECTION_LOST None [snd k] [fst k] ns note r in r1\<lparr>rt_live_phase := Live_Opened k g rest keys\<rparr>
          else r\<lparr>rt_live_phase := Live_Crashed\<rparr>)"

text \<open>\<open>active_gaps[key] = (gap_id, self._last_event[key][0])\<close>\<close>

definition live_opened :: "liveness_key \<Rightarrow> nat \<Rightarrow> (liveness_key \<times> int) list \<Rightarrow> liveness_key list \<Rightarrow> route \<Rightarrow> route" where
  "live_opened k g rest keys r =
     (case dict_get (rt_last_event r) k of
        None \<Rightarrow> r\<lparr>rt_live_phase := Live_Crashed\<rparr>
      | Some (t, _) \<Rightarrow> r\<lparr>rt_live := dict_set k (g, t) (rt_live r), rt_live_phase := Live_Open rest keys\<rparr>)"

definition live_failed :: "route_error \<Rightarrow> nat \<Rightarrow> route \<Rightarrow> route" where
  "live_failed e generation r =
     (case e of
        Overloaded _ \<Rightarrow> r\<lparr>rt_live_phase := Live_Sleep\<rparr>
      | Unexpected_Error _ \<Rightarrow> r\<lparr>rt_live_phase := Live_Crashed\<rparr>
      | Task_Cancelled \<Rightarrow> r\<lparr>rt_live_phase := Live_Crashed\<rparr>
      | _ \<Rightarrow>
          if generation = rt_generation r \<and> rt_connection_ready r then
            let failures = (if rt_failure_generation r = int generation then rt_refresh_failures r else 0) + 1 in
            r\<lparr>rt_failure_generation := int generation, rt_refresh_failures := failures,
              rt_reconnect := (rt_reconnect r \<or> rt_refresh_limit r \<le> failures), rt_live_phase := Live_Sleep\<rparr>
          else r\<lparr>rt_failure_generation := -1, rt_refresh_failures := 0, rt_live_phase := Live_Sleep\<rparr>)"

definition live_wait :: "liveness_key list \<Rightarrow> nat \<Rightarrow> rat \<Rightarrow> route \<Rightarrow> route option" where
  "live_wait keys generation seen_after r =
     (case pending_keys keys seen_after r of
        Inl _ \<Rightarrow> Some (r\<lparr>rt_live_phase := Live_Crashed\<rparr>)
      | Inr [] \<Rightarrow> Some (r\<lparr>rt_live_phase := Live_Close keys generation\<rparr>)
      | Inr _ \<Rightarrow> None)"

definition live_close :: "liveness_key list \<Rightarrow> nat \<Rightarrow> bool \<Rightarrow> route \<Rightarrow> route" where
  "live_close keys generation ok r =
     (case keys of
        [] \<Rightarrow> r\<lparr>rt_failure_generation := -1, rt_refresh_failures := 0, rt_live_phase := Live_Sleep\<rparr>
      | k # ks \<Rightarrow>
          (case dict_get (rt_live r) k of
             None \<Rightarrow> r\<lparr>rt_live_phase := Live_Close ks generation\<rparr>
           | Some (g, _) \<Rightarrow>
               if ok then (close_live_gap k g ''targeted subscriptions and L2 snapshots refreshed'' r)\<lparr>rt_live_phase := Live_Close ks generation\<rparr>
               else live_failed journal_error generation r))"

section \<open>Steps\<close>

text \<open>The booleans of an event tell whether the gap journal writes of the step succeed: of a close of the transport gap, of a close of the
  books' gap, and of an opening.\<close>

datatype route_event =
    Loop bool string
  | Start_Transported bool bool bool rat int
  | Start_Ready bool bool rat int
  | Start_Failed route_error bool int
  | Pause_Over
  | Watch_Woken bool bool string bool rat int
  | Overlap_Over bool rat
  | Task_Ended string "route_error option"
  | Event_Seen stream_type "string option" rat int
  | Depth_Gap_Opened string string stream_type int string
  | Depth_Gap_Closed nat string stream_type
  | Update_Begun "string list" "string list" rat int
  | Update_Failed
  | Update_Done rat
  | Live_Woken bool rat
  | Live_Moved string bool
  | Live_Refreshed rat
  | Live_Failed route_error

definition runner_step :: "route_event \<Rightarrow> route \<Rightarrow> route option" where
  "runner_step ev r =
     (case (ev, rt_phase r) of
        (Loop stopping new_connection, Loop_Top) \<Rightarrow>
          Some (if stopping then r\<lparr>rt_phase := Route_Ended\<rparr>
            else if rt_current r = None then
              r\<lparr>rt_phase := Starting \<lparr>hd_connection = new_connection, hd_end = None\<rparr> (rt_gap r \<noteq> None) False False\<rparr>
            else r\<lparr>rt_phase := Watching\<rparr>)
      | (Start_Transported transport_ok l2_ok open_ok now now_ns, Starting h reports False ready) \<Rightarrow>
          Some (start_transported h reports ready transport_ok l2_ok open_ok now now_ns r)
      | (Start_Ready l2_ok open_ok now now_ns, Starting h reports transported False) \<Rightarrow>
          Some (continue_start h reports transported True l2_ok open_ok now now_ns r)
      | (Start_Failed e open_ok now_ns, Starting _ _ _ _) \<Rightarrow> Some (start_failed e open_ok now_ns r)
      | (Pause_Over, Pausing) \<Rightarrow> Some (r\<lparr>rt_phase := Loop_Top\<rparr>)
      | (Watch_Woken stopping rotating replacement open_ok now now_ns, Watching) \<Rightarrow>
          (case rt_current r of
             None \<Rightarrow> None
           | Some h \<Rightarrow> watch_woken stopping (rotating \<and> rt_update r = None) replacement open_ok now now_ns h r)
      | (Start_Transported _ _ _ _ _, Replacing h False ready) \<Rightarrow> Some (continue_replacement h True ready r)
      | (Start_Ready _ _ _ _, Replacing h transported False) \<Rightarrow> Some (continue_replacement h transported True r)
      | (Start_Failed e _ _, Replacing _ _ _) \<Rightarrow> Some (replacement_failed e r)
      | (Overlap_Over stopping now, Overlapping h) \<Rightarrow> Some (overlap_over stopping now h r)
      | _ \<Rightarrow> None)"

definition live_step :: "route_event \<Rightarrow> route \<Rightarrow> route option" where
  "live_step ev r =
     (case (ev, rt_live_phase r) of
        (Live_Woken stopping now, Live_Sleep) \<Rightarrow>
          if rt_liveness_timeout r = None then None
          else Some (r\<lparr>rt_live_phase := (if stopping then Live_Ended else Live_Resume now (dict_keys (rt_live r)))\<rparr>)
      | (Live_Moved _ ok, Live_Resume now keys) \<Rightarrow> Some (live_resume now keys ok r)
      | (Live_Moved note ok, Live_Open stale keys) \<Rightarrow> Some (live_open stale keys note ok r)
      | (Live_Moved _ _, Live_Opened k g rest keys) \<Rightarrow> Some (live_opened k g rest keys r)
      | (Live_Refreshed now, Live_Refresh keys generation) \<Rightarrow> Some (r\<lparr>rt_live_phase := Live_Wait keys generation now\<rparr>)
      | (Live_Failed e, Live_Refresh _ generation) \<Rightarrow> Some (live_failed e generation r)
      | (Live_Moved _ _, Live_Wait keys generation seen_after) \<Rightarrow> live_wait keys generation seen_after r
      | (Live_Failed e, Live_Wait _ generation _) \<Rightarrow> Some (live_failed e generation r)
      | (Live_Moved _ ok, Live_Close keys generation) \<Rightarrow> Some (live_close keys generation ok r)
      | _ \<Rightarrow> None)"

definition update_step :: "route_event \<Rightarrow> route \<Rightarrow> route option" where
  "update_step ev r =
     (case (ev, rt_update r) of
        (Update_Begun symbols subscriptions now now_ns, None) \<Rightarrow>
          (case rt_phase r of
             Replacing _ _ _ \<Rightarrow> None
           | Overlapping _ \<Rightarrow> None
           | _ \<Rightarrow> map_option snd (begin_update_instruments symbols subscriptions now now_ns r))
      | (Update_Failed, Some u) \<Rightarrow> Some (fail_update_instruments u r)
      | (Update_Done now, Some u) \<Rightarrow>
          if pending_keys (ru_keys u) (ru_started u) r = Inr [] then Some (finish_update_instruments u now r) else None
      | _ \<Rightarrow> None)"

definition route_step :: "route_event \<Rightarrow> route \<Rightarrow> route option" where
  "route_step ev r =
     (case ev of
        Task_Ended connection e \<Rightarrow> Some (task_ended connection e r)
      | Event_Seen stream symbol now now_ns \<Rightarrow> Some (mark_event stream symbol now now_ns r)
      | Depth_Gap_Opened connection symbol stream affected_ns note \<Rightarrow> Some (snd (open_depth_gap connection symbol stream affected_ns note r))
      | Depth_Gap_Closed g symbol stream \<Rightarrow> Some (close_depth_gap g symbol stream r)
      | _ \<Rightarrow>
          (case runner_step ev r of
             Some r1 \<Rightarrow> Some r1
           | None \<Rightarrow> (case update_step ev r of Some r1 \<Rightarrow> Some r1 | None \<Rightarrow> live_step ev r)))"

end
