(* ===== verification/Route_Run.thy ===== *)
theory Route_Run
  imports Routes "HOL-Library.Multiset"
begin

text \<open>
  Runs of a route and the gaps it keeps open: in a run in which the journal closes the gaps of the books when asked, the gaps of
  the route that are open are exactly those the runner and the liveness loop hold, and a route without an active connection
  holds one for its books.
\<close>

section \<open>Open gaps\<close>

fun gap_opening :: "route_gap \<Rightarrow> (nat \<times> gap_reason) option" where
  "gap_opening (Route_Opened g why _ _ _ _ _) = Some (g, why)"
| "gap_opening (Route_Closed _ _ _ _ _ _) = None"

fun gap_closing :: "route_gap \<Rightarrow> nat option" where
  "gap_closing (Route_Opened _ _ _ _ _ _ _) = None"
| "gap_closing (Route_Closed g _ _ _ _ _) = Some g"

definition opened_gaps :: "route \<Rightarrow> (nat \<times> gap_reason) set" where
  "opened_gaps r = set (List.map_filter gap_opening (rt_gaps r))"

definition closed_gaps :: "route \<Rightarrow> nat set" where
  "closed_gaps r = set (List.map_filter gap_closing (rt_gaps r))"

definition gap_is_open :: "route \<Rightarrow> nat \<Rightarrow> gap_reason \<Rightarrow> bool" where
  "gap_is_open r g why \<longleftrightarrow> (g, why) \<in> opened_gaps r \<and> g \<notin> closed_gaps r"

text \<open>The gaps the two tasks of the route know.\<close>

definition held_gaps :: "route \<Rightarrow> (nat \<times> gap_reason) list" where
  "held_gaps r =
     (case rt_gap r of None \<Rightarrow> [] | Some g \<Rightarrow> [(g, rt_gap_reason r)]) @
     (case rt_l2_gap r of None \<Rightarrow> [] | Some g \<Rightarrow> [(g, L2_REANCHOR)]) @
     map (\<lambda>(_, g, _). (g, CONNECTION_LOST)) (rt_live r) @
     (case rt_live_phase r of Live_Opened _ g _ _ \<Rightarrow> [(g, CONNECTION_LOST)] | _ \<Rightarrow> [])"

section \<open>Runs\<close>

text \<open>The close of the books' gap fails.\<close>

definition books_close_fails :: "route_event \<Rightarrow> bool" where
  "books_close_fails ev \<longleftrightarrow> (case ev of Start_Transported _ l2_ok _ _ _ \<Rightarrow> \<not> l2_ok | Start_Ready l2_ok _ _ _ \<Rightarrow> \<not> l2_ok | _ \<Rightarrow> False)"

text \<open>A connection closes the gaps it has opened. The flag of a run tells that no such close failed and the liveness loop is alive.\<close>

definition event_allowed :: "route_event \<Rightarrow> route \<Rightarrow> bool" where
  "event_allowed ev r \<longleftrightarrow> (case ev of Depth_Gap_Closed g _ _ \<Rightarrow> gap_is_open r g L2_SEQUENCE | _ \<Rightarrow> True)"

inductive route_run :: "route \<Rightarrow> bool \<Rightarrow> route \<Rightarrow> bool" where
  created: "route_run r0 True r0"
| moved: "route_run r0 clean r \<Longrightarrow> event_allowed ev r \<Longrightarrow> route_step ev r = Some r' \<Longrightarrow>
    route_run r0 (clean \<and> \<not> books_close_fails ev \<and> rt_live_phase r' \<noteq> Live_Crashed) r'"

section \<open>The balance of the gaps\<close>

text \<open>\<open>depth\<close> are the open gaps of broken sequences: they belong to the connections.\<close>

definition balance :: "bool \<Rightarrow> nat set \<Rightarrow> nat \<Rightarrow> (nat \<times> gap_reason) set \<Rightarrow> nat set \<Rightarrow> (nat \<times> gap_reason) list \<Rightarrow> bool" where
  "balance clean depth n opened closings held \<longleftrightarrow>
     (\<forall>g v. (g, v) \<in> opened \<longrightarrow> g < n) \<and> (\<forall>g \<in> closings. g < n) \<and> (\<forall>g v w. (g, v) \<in> opened \<longrightarrow> (g, w) \<in> opened \<longrightarrow> v = w) \<and>
     distinct (map fst held) \<and>
     (\<forall>g v. (g, v) \<in> set held \<longrightarrow> (g, v) \<in> opened \<and> g \<notin> closings \<and> v \<noteq> L2_SEQUENCE) \<and>
     (clean \<longrightarrow> (\<forall>g v. (g, v) \<in> opened \<longrightarrow> g \<notin> closings \<longrightarrow> v \<noteq> L2_SEQUENCE \<longrightarrow> (g, v) \<in> set held)) \<and>
     (\<forall>g. g \<in> depth \<longleftrightarrow> (g, L2_SEQUENCE) \<in> opened \<and> g \<notin> closings)"

definition balanced :: "bool \<Rightarrow> nat set \<Rightarrow> route \<Rightarrow> bool" where
  "balanced clean D r \<longleftrightarrow> balance clean D (rt_next_gap r) (opened_gaps r) (closed_gaps r) (held_gaps r)"

lemma balanceD:
  assumes "balance clean D n opened closings held"
  shows "(g, v) \<in> opened \<Longrightarrow> g < n" "g \<in> closings \<Longrightarrow> g < n" "(g, v) \<in> opened \<Longrightarrow> (g, w) \<in> opened \<Longrightarrow> v = w" "distinct (map fst held)"
    "(g, v) \<in> set held \<Longrightarrow> (g, v) \<in> opened" "(g, v) \<in> set held \<Longrightarrow> g \<notin> closings" "(g, v) \<in> set held \<Longrightarrow> v \<noteq> L2_SEQUENCE"
    "clean \<Longrightarrow> (g, v) \<in> opened \<Longrightarrow> g \<notin> closings \<Longrightarrow> v \<noteq> L2_SEQUENCE \<Longrightarrow> (g, v) \<in> set held"
    "g \<in> D \<longleftrightarrow> (g, L2_SEQUENCE) \<in> opened \<and> g \<notin> closings"
  using assms unfolding balance_def by blast+

lemma balanceI:
  assumes "\<And>g v. (g, v) \<in> opened \<Longrightarrow> g < n" "\<And>g. g \<in> closings \<Longrightarrow> g < n" "\<And>g v w. (g, v) \<in> opened \<Longrightarrow> (g, w) \<in> opened \<Longrightarrow> v = w"
    "distinct (map fst held)" "\<And>g v. (g, v) \<in> set held \<Longrightarrow> (g, v) \<in> opened \<and> g \<notin> closings \<and> v \<noteq> L2_SEQUENCE"
    "\<And>g v. clean \<Longrightarrow> (g, v) \<in> opened \<Longrightarrow> g \<notin> closings \<Longrightarrow> v \<noteq> L2_SEQUENCE \<Longrightarrow> (g, v) \<in> set held"
    "\<And>g. g \<in> D \<longleftrightarrow> (g, L2_SEQUENCE) \<in> opened \<and> g \<notin> closings"
  shows "balance clean D n opened closings held"
  unfolding balance_def using assms by blast

lemma held_distinct:
  fixes held held' :: "(nat \<times> gap_reason) list"
  assumes "mset held' = mset held"
  shows "distinct (map fst held') = distinct (map fst held)"
  by (rule mset_eq_imp_distinct_iff) (simp add: assms)

lemma balance_held:
  assumes "balance clean D n opened closings held" "mset held' = mset held"
  shows "balance clean D n opened closings held'"
  using assms(1) unfolding balance_def held_distinct [OF assms(2)] mset_eq_setD [OF assms(2)] .

lemma balance_opens:
  assumes "balance clean D n opened closings held" "why \<noteq> L2_SEQUENCE"
  shows "balance clean D (n + 1) (insert (n, why) opened) closings ((n, why) # held)"
proof (rule balanceI)
  note D = balanceD [OF assms(1)]
  have new: "(n, w) \<notin> opened" "n \<notin> closings" for w using D(1,2) by blast+
  show "g < n + 1" if "(g, v) \<in> insert (n, why) opened" for g v using that D(1) [of g v] by auto
  show "g < n + 1" if "g \<in> closings" for g using D(2) [OF that] by simp
  show "v = w" if "(g, v) \<in> insert (n, why) opened" "(g, w) \<in> insert (n, why) opened" for g v w using that new(1) D(3) by blast
  have "n \<notin> fst ` set held" using D(5) new(1) by force
  then show "distinct (map fst ((n, why) # held))" using D(4) by simp
  show "(g, v) \<in> insert (n, why) opened \<and> g \<notin> closings \<and> v \<noteq> L2_SEQUENCE" if "(g, v) \<in> set ((n, why) # held)" for g v
    using that D(5,6,7) [of g v] new(2) assms(2) by auto
  show "(g, v) \<in> set ((n, why) # held)" if "clean" "(g, v) \<in> insert (n, why) opened" "g \<notin> closings" "v \<noteq> L2_SEQUENCE" for g v
    using that D(8) by auto
  show "g \<in> D \<longleftrightarrow> (g, L2_SEQUENCE) \<in> insert (n, why) opened \<and> g \<notin> closings" for g using D(9) assms(2) by auto
qed

lemma balance_closes:
  assumes "balance clean D n opened closings ((g, why) # held)"
  shows "balance clean D n opened (insert g closings) held"
proof (rule balanceI)
  note D = balanceD [OF assms]
  have g: "(g, w) \<notin> set held" for w using D(4) by force
  show "h < n" if "(h, v) \<in> opened" for h v using that D(1) by blast
  show "h < n" if "h \<in> insert g closings" for h using that D(2) D(1) [OF D(5) [of g why]] by auto
  show "v = w" if "(h, v) \<in> opened" "(h, w) \<in> opened" for h v w using that D(3) by blast
  show "distinct (map fst held)" using D(4) by simp
  show "(h, v) \<in> opened \<and> h \<notin> insert g closings \<and> v \<noteq> L2_SEQUENCE" if "(h, v) \<in> set held" for h v
    using that D(5,6,7) [of h v] g by auto
  show "(h, v) \<in> set held" if "clean" "(h, v) \<in> opened" "h \<notin> insert g closings" "v \<noteq> L2_SEQUENCE" for h v
    using that D(8) [of h v] by auto
  show "h \<in> D \<longleftrightarrow> (h, L2_SEQUENCE) \<in> opened \<and> h \<notin> insert g closings" for h
    using D(9) [of h] D(3) [of g why L2_SEQUENCE] D(5,7) [of g why] by auto
qed

lemma balance_depth_opens:
  assumes "balance clean D n opened closings held"
  shows "balance clean (insert n D) (n + 1) (insert (n, L2_SEQUENCE) opened) closings held"
proof (rule balanceI)
  note D = balanceD [OF assms]
  have new: "(n, w) \<notin> opened" for w using D(1) by blast
  show "g < n + 1" if "(g, v) \<in> insert (n, L2_SEQUENCE) opened" for g v using that D(1) [of g v] by auto
  show "g < n + 1" if "g \<in> closings" for g using D(2) [OF that] by simp
  show "v = w" if "(g, v) \<in> insert (n, L2_SEQUENCE) opened" "(g, w) \<in> insert (n, L2_SEQUENCE) opened" for g v w
    using that new D(3) by blast
  show "distinct (map fst held)" by (rule D(4))
  show "(g, v) \<in> insert (n, L2_SEQUENCE) opened \<and> g \<notin> closings \<and> v \<noteq> L2_SEQUENCE" if "(g, v) \<in> set held" for g v
    using D(5,6,7) [OF that] by blast
  show "(g, v) \<in> set held" if "clean" "(g, v) \<in> insert (n, L2_SEQUENCE) opened" "g \<notin> closings" "v \<noteq> L2_SEQUENCE" for g v
    using that D(8) by blast
  show "g \<in> insert n D \<longleftrightarrow> (g, L2_SEQUENCE) \<in> insert (n, L2_SEQUENCE) opened \<and> g \<notin> closings" for g
    using D(9) [of g] D(2) [of n] by auto
qed

lemma balance_depth_closes:
  assumes "balance clean D n opened closings held" "(g, L2_SEQUENCE) \<in> opened"
  shows "balance clean (D - {g}) n opened (insert g closings) held"
proof (rule balanceI)
  note D = balanceD [OF assms(1)]
  have g: "(g, w) \<notin> set held" for w using D(3,5,7) assms(2) by blast
  show "h < n" if "(h, v) \<in> opened" for h v using that D(1) by blast
  show "h < n" if "h \<in> insert g closings" for h using that D(2) D(1) [OF assms(2)] by blast
  show "v = w" if "(h, v) \<in> opened" "(h, w) \<in> opened" for h v w using that D(3) by blast
  show "distinct (map fst held)" by (rule D(4))
  show "(h, v) \<in> opened \<and> h \<notin> insert g closings \<and> v \<noteq> L2_SEQUENCE" if "(h, v) \<in> set held" for h v
    using D(5,6,7) [OF that] that g by blast
  show "(h, v) \<in> set held" if "clean" "(h, v) \<in> opened" "h \<notin> insert g closings" "v \<noteq> L2_SEQUENCE" for h v
    using that D(8) by blast
  show "h \<in> D - {g} \<longleftrightarrow> (h, L2_SEQUENCE) \<in> opened \<and> h \<notin> insert g closings" for h using D(9) [of h] by auto
qed

lemma balance_weaken: "balance clean D n opened closings held \<Longrightarrow> balance False D n opened closings held"
  by (simp add: balance_def)

lemma balance_drops: "balance clean D n opened closings (p # held) \<Longrightarrow> balance False D n opened closings held"
  unfolding balance_def by auto

lemma opened_snoc: "rt_gaps r' = rt_gaps r @ [a] \<Longrightarrow> opened_gaps r' = (case gap_opening a of Some p \<Rightarrow> insert p (opened_gaps r) | None \<Rightarrow> opened_gaps r)"
  by (cases a) (auto simp: opened_gaps_def List.map_filter_def)

lemma closed_snoc: "rt_gaps r' = rt_gaps r @ [a] \<Longrightarrow> closed_gaps r' = (case gap_closing a of Some p \<Rightarrow> insert p (closed_gaps r) | None \<Rightarrow> closed_gaps r)"
  by (cases a) (auto simp: closed_gaps_def List.map_filter_def)

lemma same_gaps: "rt_gaps r' = rt_gaps r \<Longrightarrow> opened_gaps r' = opened_gaps r \<and> closed_gaps r' = closed_gaps r"
  by (simp add: opened_gaps_def closed_gaps_def)

lemma balanced_same:
  assumes "balanced clean D r" "rt_gaps r' = rt_gaps r" "rt_next_gap r' = rt_next_gap r" "mset (held_gaps r') = mset (held_gaps r)"
  shows "balanced clean D r'"
  using balance_held [OF _ assms(4)] assms(1) same_gaps [OF assms(2)] assms(3) by (simp add: balanced_def)

lemma balanced_open:
  assumes "balanced clean D r" "rt_gaps r' = rt_gaps r @ [Route_Opened (rt_next_gap r) why c s t n d]" "rt_next_gap r' = rt_next_gap r + 1"
    "why \<noteq> L2_SEQUENCE" "mset (held_gaps r') = add_mset (rt_next_gap r, why) (mset (held_gaps r))"
  shows "balanced clean D r'"
  using balance_held [of clean D _ _ _ "(rt_next_gap r, why) # held_gaps r" "held_gaps r'"] balance_opens [OF _ assms(4)] assms(1,3,5)
    opened_snoc [OF assms(2)] closed_snoc [OF assms(2)] by (simp add: balanced_def)

lemma balanced_close:
  assumes "balanced clean D r" "rt_gaps r' = rt_gaps r @ [Route_Closed g why' c s t d]" "rt_next_gap r' = rt_next_gap r"
    "mset (held_gaps r) = add_mset (g, why) (mset (held_gaps r'))"
  shows "balanced clean D r'"
  using balance_held [of clean D _ _ _ "held_gaps r" "(g, why) # held_gaps r'"] balance_closes [of clean D _ _ _ g why] assms(1,3,4)
    opened_snoc [OF assms(2)] closed_snoc [OF assms(2)] by (simp add: balanced_def)

lemma balanced_depth_open:
  assumes "balanced clean D r" "rt_gaps r' = rt_gaps r @ [Route_Opened (rt_next_gap r) L2_SEQUENCE c s t n d]"
    "rt_next_gap r' = rt_next_gap r + 1" "held_gaps r' = held_gaps r"
  shows "balanced clean (insert (rt_next_gap r) D) r'"
  using balance_depth_opens assms opened_snoc [OF assms(2)] closed_snoc [OF assms(2)] by (simp add: balanced_def)

lemma balanced_depth_close:
  assumes "balanced clean D r" "rt_gaps r' = rt_gaps r @ [Route_Closed g why c s t d]" "gap_is_open r g L2_SEQUENCE"
    "rt_next_gap r' = rt_next_gap r" "held_gaps r' = held_gaps r"
  shows "balanced clean (D - {g}) r'"
  using balance_depth_closes assms opened_snoc [OF assms(2)] closed_snoc [OF assms(2)] by (simp add: balanced_def gap_is_open_def)

lemma balanced_weaken: "balanced clean D r \<Longrightarrow> balanced False D r"
  unfolding balanced_def by (rule balance_weaken)

lemma balanced_drop:
  assumes "balanced clean D r" "rt_gaps r' = rt_gaps r" "rt_next_gap r' = rt_next_gap r"
    "mset (held_gaps r) = add_mset p (mset (held_gaps r'))"
  shows "balanced False D r'"
  using balance_held [of clean D _ _ _ "held_gaps r" "p # held_gaps r'"] balance_drops [of clean D _ _ _ p] assms(1,3,4) same_gaps [OF assms(2)]
  by (simp add: balanced_def)

section \<open>Steps keep the balance\<close>

lemma live_taken:
  assumes "dict_get d k = Some (g, t)" "dict_ok d"
  shows "mset (map (\<lambda>(_, g, _). (g, CONNECTION_LOST)) d) = add_mset (g, CONNECTION_LOST) (mset (map (\<lambda>(_, g, _). (g, CONNECTION_LOST)) (dict_pop k d)))"
  using assms
proof (induction d)
  case (Cons a d)
  obtain k' v where a: "a = (k', v)" by (cases a) blast
  show ?case
  proof (cases "k' = k")
    case True
    then have "v = (g, t)" using Cons.prems(1) by (simp add: a dict_get_def)
    moreover have "dict_pop k d = d" using Cons.prems(2) True unfolding a dict_pop_def dict_ok_def by (force simp: filter_id_conv)
    ultimately show ?thesis using True by (simp add: a dict_pop_def)
  next
    case False
    then have "dict_get d k = Some (g, t)" "dict_ok d" using Cons.prems by (simp_all add: a dict_get_def dict_ok_def)
    then show ?thesis using Cons.IH False by (simp add: a dict_pop_def split: prod.splits)
  qed
qed (simp add: dict_get_def)

lemma live_added: "dict_get d k = None \<Longrightarrow> dict_set k v d = d @ [(k, v)]"
  by (induction d) (auto simp: dict_get_def split: if_splits)

definition live_ok :: "route \<Rightarrow> bool" where
  "live_ok r \<longleftrightarrow> dict_ok (rt_live r) \<and> (case rt_live_phase r of Live_Opened k _ _ _ \<Rightarrow> dict_get (rt_live r) k = None | _ \<Rightarrow> True)"

lemma cover_loss_gap:
  assumes "balanced clean D r" "clean \<longrightarrow> rt_gap r = None" "why \<noteq> L2_SEQUENCE"
  shows "balanced clean D (cover_loss why note c a now r)"
proof -
  define r0 where "r0 = r\<lparr>rt_gap := None\<rparr>"
  have r0: "balanced clean D r0"
  proof (cases clean)
    case True
    then have "r0 = r" using assms(2) by (simp add: r0_def)
    then show ?thesis using assms(1) by simp
  next
    case False
    then show ?thesis using assms(1) balanced_drop [of clean D r r0] balanced_same [of clean D r r0]
      by (cases "rt_gap r") (auto simp: r0_def held_gaps_def)
  qed
  define r2 where "r2 = (snd (open_route_gap why note c a now r))\<lparr>rt_gap := Some (rt_next_gap r), rt_gap_reason := why\<rparr>"
  have r2: "balanced clean D r2"
    by (rule balanced_open [OF r0, where why = why]) (use assms(3) in \<open>auto simp: r2_def r0_def open_route_gap_def journal_open_def held_gaps_def\<close>)
  show ?thesis
  proof (cases "rt_l2_gap r2 = None \<and> depth_types r2 \<noteq> []")
    case True
    have "balanced clean D ((snd (open_l2_reanchor_gap note c a now r2))\<lparr>rt_l2_gap := Some (rt_next_gap r2)\<rparr>)"
      by (rule balanced_open [OF r2, where why = L2_REANCHOR]) (use True in \<open>auto simp: open_l2_reanchor_gap_def journal_open_def held_gaps_def split: option.split\<close>)
    then show ?thesis using True
      by (simp add: cover_loss_def Let_def r2_def open_route_gap_def journal_open_def open_l2_reanchor_gap_def)
  next
    case False
    then have "cover_loss why note c a now r = r2\<lparr>rt_l2_gap := rt_l2_gap r2\<rparr>"
      by (auto simp: cover_loss_def Let_def r2_def open_route_gap_def journal_open_def open_l2_reanchor_gap_def)
    then show ?thesis using r2 by simp
  qed
qed

lemma balanced_view:
  "balanced clean D r \<Longrightarrow> rt_gaps r' = rt_gaps r \<Longrightarrow> rt_next_gap r' = rt_next_gap r \<Longrightarrow> rt_gap r' = rt_gap r \<Longrightarrow> rt_l2_gap r' = rt_l2_gap r \<Longrightarrow>
    (rt_gap r \<noteq> None \<Longrightarrow> rt_gap_reason r' = rt_gap_reason r) \<Longrightarrow> rt_live r' = rt_live r \<Longrightarrow> rt_live_phase r' = rt_live_phase r \<Longrightarrow> balanced clean D r'"
  by (erule balanced_same) (auto simp: held_gaps_def split: option.splits)

text \<open>What the phase says about the connection and the gaps held: the arguments are whether there is a current connection, a transport gap,
  a gap of the books, how many connections were active, and whether the route has books.\<close>

definition runner_fits :: "phase \<Rightarrow> bool \<Rightarrow> bool \<Rightarrow> bool \<Rightarrow> nat \<Rightarrow> bool \<Rightarrow> bool" where
  "runner_fits p current gap l2 generation books \<longleftrightarrow>
     (p \<noteq> Route_Ended \<longrightarrow> p \<noteq> Route_Crashed \<longrightarrow>
       (if current then \<not> gap \<and> \<not> l2 \<and> (case p of Starting _ _ _ _ \<Rightarrow> False | _ \<Rightarrow> True)
        else (0 < generation \<longrightarrow> books \<longrightarrow> l2) \<and>
          (case p of
             Starting _ reports transported _ \<Rightarrow> (gap \<longleftrightarrow> reports \<and> \<not> transported) \<and> (0 < generation \<longrightarrow> reports)
           | Loop_Top \<Rightarrow> 0 < generation \<longrightarrow> gap
           | Pausing \<Rightarrow> gap
           | _ \<Rightarrow> False)))"

definition runner_ok :: "route \<Rightarrow> bool" where
  "runner_ok r \<longleftrightarrow> runner_fits (rt_phase r) (rt_current r \<noteq> None) (rt_gap r \<noteq> None) (rt_l2_gap r \<noteq> None) (rt_generation r) (depth_types r \<noteq> [])"

lemma cover_loss_fields:
  "\<exists>g. rt_gap (cover_loss why note c a now r) = Some g" "rt_current (cover_loss why note c a now r) = rt_current r"
  "rt_generation (cover_loss why note c a now r) = rt_generation r" "depth_types (cover_loss why note c a now r) = depth_types r"
  "depth_types r \<noteq> [] \<Longrightarrow> \<exists>l. rt_l2_gap (cover_loss why note c a now r) = Some l"
  "rt_live (cover_loss why note c a now r) = rt_live r" "rt_live_phase (cover_loss why note c a now r) = rt_live_phase r"
  "rt_phase (cover_loss why note c a now r) = rt_phase r"
  by (auto simp: cover_loss_def open_route_gap_def journal_open_def open_l2_reanchor_gap_def depth_types_def Let_def)

lemma depth_types_update [simp]:
  "depth_types (r\<lparr>rt_phase := p\<rparr>) = depth_types r" "depth_types (r\<lparr>rt_failures := n\<rparr>) = depth_types r"
  "depth_types (r\<lparr>rt_current := h\<rparr>) = depth_types r" "depth_types (r\<lparr>rt_connection_ready := b\<rparr>) = depth_types r"
  "depth_types (r\<lparr>rt_reconnect := b\<rparr>) = depth_types r" "depth_types (r\<lparr>rt_gap := g\<rparr>) = depth_types r"
  by (simp_all add: depth_types_def)

text \<open>A failing start keeps or opens the gaps of the route.\<close>

lemma start_failed_ok:
  assumes "balanced clean D r" "clean \<longrightarrow> rt_current r = None \<and> (0 < rt_generation r \<longrightarrow> depth_types r \<noteq> [] \<longrightarrow> rt_l2_gap r \<noteq> None)"
  shows "balanced clean D (start_failed e ok now r)" "clean \<longrightarrow> runner_ok (start_failed e ok now r)"
    "rt_live (start_failed e ok now r) = rt_live r" "rt_live_phase (start_failed e ok now r) = rt_live_phase r"
proof -
  have view: "balanced clean D (x\<lparr>rt_phase := p\<rparr>)" "balanced clean D (x\<lparr>rt_failures := n, rt_phase := p\<rparr>)" if "balanced clean D x" for x p n
    by (rule balanced_view [OF that]; simp)+
  have cover: "rt_gap r = None \<Longrightarrow> balanced clean D (cover_loss why msg c a now r)" if "why \<noteq> L2_SEQUENCE" for why msg c a
    using cover_loss_gap [OF assms(1)] that by blast
  show "balanced clean D (start_failed e ok now r)"
    using assms(1) by (auto simp: start_failed_def view cover split: route_error.splits)
  show "clean \<longrightarrow> runner_ok (start_failed e ok now r)"
    using assms(2) by (auto simp: start_failed_def runner_ok_def runner_fits_def cover_loss_fields split: route_error.splits)
  show "rt_live (start_failed e ok now r) = rt_live r" "rt_live_phase (start_failed e ok now r) = rt_live_phase r"
    by (auto simp: start_failed_def cover_loss_fields split: route_error.splits)
qed

lemma start_finished_ok:
  assumes "balanced clean D r" "clean \<longrightarrow> rt_gap r = None \<and> rt_current r = None" "clean \<longrightarrow> l2_ok"
  shows "balanced clean D (start_finished h l2_ok ok now ns r)" "clean \<longrightarrow> runner_ok (start_finished h l2_ok ok now ns r)"
    "rt_live (start_finished h l2_ok ok now ns r) = rt_live r" "rt_live_phase (start_finished h l2_ok ok now ns r) = rt_live_phase r"
proof -
  define r1 where "r1 = r\<lparr>rt_current := Some h\<rparr>"
  have r1: "balanced clean D r1" unfolding r1_def by (rule balanced_view [OF assms(1)]) simp_all
  have plain: "balanced clean D ((activate_connection now r1)\<lparr>rt_reported := True\<rparr>)" unfolding activate_connection_def
    by (rule balanced_view [OF r1]) simp_all
  have shut: "balanced clean D ((activate_connection now ((close_l2_reanchor_gap l c r1)\<lparr>rt_l2_gap := None\<rparr>))\<lparr>rt_reported := True\<rparr>)"
    if "rt_l2_gap r1 = Some l" for l c
    by (rule balanced_close [OF r1, where why = L2_REANCHOR])
      (use that in \<open>auto simp: activate_connection_def close_l2_reanchor_gap_def journal_close_def held_gaps_def split: option.split\<close>)
  have failed: "balanced clean D (start_failed journal_error ok ns r1)" if "\<not> l2_ok"
  proof -
    have "\<not> clean" using that assms(3) by blast
    then show ?thesis using start_failed_ok(1) [OF r1] by blast
  qed
  show "balanced clean D (start_finished h l2_ok ok now ns r)"
    using plain shut failed by (auto simp: start_finished_def r1_def Let_def split: option.splits)
  show "clean \<longrightarrow> runner_ok (start_finished h l2_ok ok now ns r)"
    using assms(2,3) by (auto simp: start_finished_def runner_ok_def runner_fits_def activate_connection_def close_l2_reanchor_gap_def journal_close_def Let_def
        split: option.splits)
  show "rt_live (start_finished h l2_ok ok now ns r) = rt_live r" "rt_live_phase (start_finished h l2_ok ok now ns r) = rt_live_phase r"
    using start_failed_ok(3,4) by (auto simp: start_finished_def start_failed_def cover_loss_fields activate_connection_def close_l2_reanchor_gap_def
        journal_close_def Let_def split: option.splits route_error.splits)
qed

lemma continue_start_ok:
  assumes "balanced clean D r" "rt_current r = None" "clean \<longrightarrow> l2_ok"
    "clean \<longrightarrow> (rt_gap r \<noteq> None \<longleftrightarrow> reports \<and> \<not> transported) \<and> (0 < rt_generation r \<longrightarrow> reports \<and> (depth_types r \<noteq> [] \<longrightarrow> rt_l2_gap r \<noteq> None))"
  shows "balanced clean D (continue_start h reports transported ready l2_ok ok now ns r)"
    "clean \<longrightarrow> runner_ok (continue_start h reports transported ready l2_ok ok now ns r)"
    "rt_live (continue_start h reports transported ready l2_ok ok now ns r) = rt_live r"
    "rt_live_phase (continue_start h reports transported ready l2_ok ok now ns r) = rt_live_phase r"
proof -
  have wait: "balanced clean D (r\<lparr>rt_phase := p\<rparr>)" for p by (rule balanced_view [OF assms(1)]) simp_all
  have "clean \<longrightarrow> rt_gap r = None \<and> rt_current r = None" if "transported" using assms(2,4) that by auto
  note finished = start_finished_ok [OF assms(1) this assms(3)]
  show "balanced clean D (continue_start h reports transported ready l2_ok ok now ns r)"
    using wait finished(1) by (simp add: continue_start_def)
  have "clean \<longrightarrow> runner_ok (r\<lparr>rt_phase := Starting h reports transported ready\<rparr>)"
    using assms(2,4) by (simp add: runner_ok_def runner_fits_def)
  then show "clean \<longrightarrow> runner_ok (continue_start h reports transported ready l2_ok ok now ns r)"
    using finished(2) by (simp add: continue_start_def)
  show "rt_live (continue_start h reports transported ready l2_ok ok now ns r) = rt_live r"
    "rt_live_phase (continue_start h reports transported ready l2_ok ok now ns r) = rt_live_phase r"
    using finished(3,4) by (simp_all add: continue_start_def)
qed

lemma start_transported_ok:
  assumes "balanced clean D r" "rt_current r = None" "clean \<longrightarrow> l2_ok"
    "clean \<longrightarrow> (rt_gap r \<noteq> None \<longleftrightarrow> reports) \<and> (0 < rt_generation r \<longrightarrow> reports \<and> (depth_types r \<noteq> [] \<longrightarrow> rt_l2_gap r \<noteq> None))"
  shows "balanced clean D (start_transported h reports ready t_ok l2_ok ok now ns r)"
    "clean \<longrightarrow> runner_ok (start_transported h reports ready t_ok l2_ok ok now ns r)"
    "rt_live (start_transported h reports ready t_ok l2_ok ok now ns r) = rt_live r"
    "rt_live_phase (start_transported h reports ready t_ok l2_ok ok now ns r) = rt_live_phase r"
proof -
  note defs = start_transported_def
  have "(balanced clean D (start_transported h reports ready t_ok l2_ok ok now ns r) \<and>
      (clean \<longrightarrow> runner_ok (start_transported h reports ready t_ok l2_ok ok now ns r))) \<and>
      rt_live (start_transported h reports ready t_ok l2_ok ok now ns r) = rt_live r \<and>
      rt_live_phase (start_transported h reports ready t_ok l2_ok ok now ns r) = rt_live_phase r"
  proof (cases "\<exists>g. reports \<and> rt_gap r = Some g")
    case True
    then obtain g where g: "reports" "rt_gap r = Some g" by blast
    define r1 where "r1 = (close_transport_gap g (rt_gap_reason r) (hd_connection h) r)\<lparr>rt_gap := None\<rparr>"
    have fields: "rt_current r1 = rt_current r" "rt_gap r1 = None" "rt_generation r1 = rt_generation r" "rt_l2_gap r1 = rt_l2_gap r"
      "depth_types r1 = depth_types r" "rt_live r1 = rt_live r" "rt_live_phase r1 = rt_live_phase r"
      by (simp_all add: r1_def close_transport_gap_def journal_close_def depth_types_def)
    have r1: "balanced clean D r1"
      by (rule balanced_close [OF assms(1), where why = "rt_gap_reason r"])
        (use g in \<open>auto simp: r1_def close_transport_gap_def journal_close_def held_gaps_def split: option.split\<close>)
    show ?thesis
    proof (cases t_ok)
      case True
      have "clean \<longrightarrow> (rt_gap r1 \<noteq> None \<longleftrightarrow> reports \<and> \<not> True) \<and> (0 < rt_generation r1 \<longrightarrow> reports \<and> (depth_types r1 \<noteq> [] \<longrightarrow> rt_l2_gap r1 \<noteq> None))"
        using assms(4) g fields by simp
      note c = continue_start_ok [OF r1 _ assms(3) this, unfolded fields]
      show ?thesis using True g c assms(2) unfolding defs by (simp add: r1_def [symmetric])
    next
      case False
      have "clean \<longrightarrow> rt_current r = None \<and> (0 < rt_generation r \<longrightarrow> depth_types r \<noteq> [] \<longrightarrow> rt_l2_gap r \<noteq> None)" using assms(2,4) by simp
      note c = start_failed_ok [OF assms(1) this]
      show ?thesis using False g c unfolding defs by simp
    qed
  next
    case False
    have "clean \<longrightarrow> (rt_gap r \<noteq> None \<longleftrightarrow> reports \<and> \<not> True) \<and> (0 < rt_generation r \<longrightarrow> reports \<and> (depth_types r \<noteq> [] \<longrightarrow> rt_l2_gap r \<noteq> None))"
      using assms(4) False by auto
    note c = continue_start_ok [OF assms(1,2,3) this]
    have "start_transported h reports ready t_ok l2_ok ok now ns r = continue_start h reports True ready l2_ok ok now ns r"
      using False by (auto simp: defs split: option.split bool.split)
    then show ?thesis using c by simp
  qed
  then show "balanced clean D (start_transported h reports ready t_ok l2_ok ok now ns r)"
    "clean \<longrightarrow> runner_ok (start_transported h reports ready t_ok l2_ok ok now ns r)"
    "rt_live (start_transported h reports ready t_ok l2_ok ok now ns r) = rt_live r"
    "rt_live_phase (start_transported h reports ready t_ok l2_ok ok now ns r) = rt_live_phase r" by blast+
qed

lemma connection_lost_ok:
  assumes "balanced clean D r" "clean \<longrightarrow> rt_gap r = None"
  shows "balanced clean D (connection_lost h e ok now ns r)" "clean \<longrightarrow> runner_ok (connection_lost h e ok now ns r)"
    "rt_live (connection_lost h e ok now ns r) = rt_live r" "rt_live_phase (connection_lost h e ok now ns r) = rt_live_phase r"
proof -
  define r1 where "r1 = r\<lparr>rt_connection_ready := False, rt_reconnect := False\<rparr>"
  have r1: "balanced clean D r1" unfolding r1_def by (rule balanced_view [OF assms(1)]) simp_all
  have view: "balanced clean D (x\<lparr>rt_current := c\<rparr>)" "balanced clean D (x\<lparr>rt_failures := n\<rparr>)"
    "balanced clean D (x\<lparr>rt_phase := p\<rparr>)" if "balanced clean D x" for x c p n
    by (rule balanced_view [OF that]; simp)+
  have cover: "balanced clean D (cover_loss why msg c a ns r1)" if "why \<noteq> L2_SEQUENCE" for why msg c a
    using cover_loss_gap [OF r1 _ that] assms(2) by (simp add: r1_def)
  show "balanced clean D (connection_lost h e ok now ns r)"
    using r1 unfolding connection_lost_def Let_def r1_def [symmetric] by (auto intro!: view cover split: option.split route_error.split)
  show "clean \<longrightarrow> runner_ok (connection_lost h e ok now ns r)"
    unfolding connection_lost_def Let_def
    by (auto simp: runner_ok_def runner_fits_def cover_loss_fields split: option.split route_error.split)
  show "rt_live (connection_lost h e ok now ns r) = rt_live r" "rt_live_phase (connection_lost h e ok now ns r) = rt_live_phase r"
    unfolding connection_lost_def Let_def by (auto simp: cover_loss_fields)
qed

definition start_free :: "route \<Rightarrow> bool" where
  "start_free r \<longleftrightarrow> (case rt_phase r of Starting _ _ _ _ \<Rightarrow> rt_current r = None | _ \<Rightarrow> True)"

definition route_ok :: "bool \<Rightarrow> nat set \<Rightarrow> route \<Rightarrow> bool" where
  "route_ok clean D r \<longleftrightarrow> balanced clean D r \<and> live_ok r \<and> start_free r \<and> (clean \<longrightarrow> runner_ok r)"

lemma runner_view:
  "runner_ok r \<Longrightarrow> rt_phase r' = rt_phase r \<Longrightarrow> (rt_current r' = None \<longleftrightarrow> rt_current r = None) \<Longrightarrow> rt_gap r' = rt_gap r \<Longrightarrow>
    rt_l2_gap r' = rt_l2_gap r \<Longrightarrow> rt_generation r' = rt_generation r \<Longrightarrow> rt_stream_types r' = rt_stream_types r \<Longrightarrow> runner_ok r'"
  by (simp only: runner_ok_def depth_types_def)

lemma live_view: "live_ok r \<Longrightarrow> rt_live r' = rt_live r \<Longrightarrow> rt_live_phase r' = rt_live_phase r \<Longrightarrow> live_ok r'"
  by (simp only: live_ok_def)

lemma start_view: "start_free r \<Longrightarrow> rt_phase r' = rt_phase r \<Longrightarrow> (rt_current r' = None \<longleftrightarrow> rt_current r = None) \<Longrightarrow> start_free r'"
  by (simp only: start_free_def)

lemma route_view:
  "route_ok clean D r \<Longrightarrow> rt_gaps r' = rt_gaps r \<Longrightarrow> rt_next_gap r' = rt_next_gap r \<Longrightarrow> rt_gap r' = rt_gap r \<Longrightarrow> rt_l2_gap r' = rt_l2_gap r \<Longrightarrow>
    rt_gap_reason r' = rt_gap_reason r \<Longrightarrow> rt_live r' = rt_live r \<Longrightarrow> rt_live_phase r' = rt_live_phase r \<Longrightarrow> rt_phase r' = rt_phase r \<Longrightarrow>
    (rt_current r' = None \<longleftrightarrow> rt_current r = None) \<Longrightarrow> rt_generation r' = rt_generation r \<Longrightarrow> rt_stream_types r' = rt_stream_types r \<Longrightarrow> route_ok clean D r'"
  using balanced_view [of clean D r r'] live_view [of r r'] runner_view [of r r'] start_view [of r r'] by (simp add: route_ok_def)

lemma phase_moved:
  assumes "route_ok clean D r" "clean \<longrightarrow> runner_ok (r\<lparr>rt_phase := p\<rparr>)" "start_free (r\<lparr>rt_phase := p\<rparr>)"
  shows "route_ok clean D (r\<lparr>rt_phase := p\<rparr>)"
  using assms balanced_view [of clean D r "r\<lparr>rt_phase := p\<rparr>"] live_view [of r "r\<lparr>rt_phase := p\<rparr>"] by (simp add: route_ok_def)

lemma start_free_results:
  "start_free (start_failed e ok ns r)" "start_free (start_finished h l2_ok ok now ns r)" "start_free (connection_lost h e2 ok now ns r)"
  "rt_current r = None \<Longrightarrow> start_free (continue_start h reports transported ready l2_ok ok now ns r)"
  "rt_current r = None \<Longrightarrow> start_free (start_transported h reports ready t_ok l2_ok ok now ns r)"
proof -
  show failed: "start_free (start_failed e ok ns r)" for e r by (auto simp: start_failed_def start_free_def split: route_error.split)
  show finished: "start_free (start_finished h l2_ok ok now ns r)" for r
    using failed by (auto simp: start_finished_def Let_def activate_connection_def start_free_def split: option.split)
  show "start_free (connection_lost h e2 ok now ns r)" unfolding connection_lost_def Let_def by (auto simp: start_free_def)
  show continued: "start_free (continue_start h reports transported ready l2_ok ok now ns r)" if "rt_current r = None" for r transported
    using that finished by (auto simp: continue_start_def start_free_def)
  show "start_free (start_transported h reports ready t_ok l2_ok ok now ns r)" if "rt_current r = None"
    using that continued failed by (auto simp: start_transported_def close_transport_gap_def journal_close_def split: option.split bool.split)
qed

lemma runner_step_ok:
  assumes "route_ok clean D r" "runner_step ev r = Some r'" "clean \<longrightarrow> \<not> books_close_fails ev"
  shows "route_ok clean D r'"
proof -
  have ok: "balanced clean D r" "live_ok r" "start_free r" "clean \<Longrightarrow> runner_ok r" using assms(1) by (auto simp: route_ok_def)
  have moved_ok: "route_ok clean D x" if "balanced clean D x" "clean \<longrightarrow> runner_ok x" "rt_live x = rt_live r" "rt_live_phase x = rt_live_phase r"
    "start_free x" for x
    using that ok(2) live_view [of r x] by (simp add: route_ok_def)
  have moved: "route_ok clean D (r\<lparr>rt_phase := p\<rparr>)" if "runner_ok r \<Longrightarrow> runner_ok (r\<lparr>rt_phase := p\<rparr>)" "start_free (r\<lparr>rt_phase := p\<rparr>)" for p
    using phase_moved [OF assms(1)] ok(4) that by blast
  note flags = runner_ok_def runner_fits_def start_free_def
  have ended: "route_ok clean D (r\<lparr>rt_phase := Route_Ended\<rparr>)" "route_ok clean D (r\<lparr>rt_phase := Route_Crashed\<rparr>)"
    by (rule moved; simp add: flags)+
  show ?thesis
  proof (cases "rt_phase r")
    case Loop_Top
    then obtain stopping c where ev: "ev = Loop stopping c" using assms(2) by (cases ev) (auto simp: runner_step_def)
    have r': "r' = (if stopping then r\<lparr>rt_phase := Route_Ended\<rparr> else if rt_current r = None
        then r\<lparr>rt_phase := Starting \<lparr>hd_connection = c, hd_end = None\<rparr> (rt_gap r \<noteq> None) False False\<rparr> else r\<lparr>rt_phase := Watching\<rparr>)"
      using assms(2) by (simp add: ev Loop_Top runner_step_def)
    have "route_ok clean D (r\<lparr>rt_phase := Starting h (rt_gap r \<noteq> None) False False\<rparr>)" if "rt_current r = None" for h
      by (rule moved) (use that in \<open>simp_all add: flags Loop_Top\<close>)
    moreover have "route_ok clean D (r\<lparr>rt_phase := Watching\<rparr>)" if "rt_current r \<noteq> None"
      by (rule moved) (use that in \<open>simp_all add: flags Loop_Top\<close>)
    ultimately show ?thesis using ended unfolding r' by simp
  next
    case (Starting h reports transported ready)
    then have none: "rt_current r = None" using ok(3) by (simp add: start_free_def)
    have held: "clean \<longrightarrow> (rt_gap r \<noteq> None \<longleftrightarrow> reports \<and> \<not> transported) \<and>
        (0 < rt_generation r \<longrightarrow> reports \<and> (depth_types r \<noteq> [] \<longrightarrow> rt_l2_gap r \<noteq> None))"
      using ok(4) Starting none by (auto simp: runner_ok_def runner_fits_def)
    consider t_ok l2_ok o_ok now ns where "\<not> transported" "r' = start_transported h reports ready t_ok l2_ok o_ok now ns r" "clean \<longrightarrow> l2_ok"
      | l2_ok o_ok now ns where "r' = continue_start h reports transported True l2_ok o_ok now ns r" "clean \<longrightarrow> l2_ok"
      | e o_ok ns where "r' = start_failed e o_ok ns r"
    proof (cases ev)
      case (Start_Transported t_ok l2_ok o_ok now ns)
      then have "\<not> transported" "r' = start_transported h reports ready t_ok l2_ok o_ok now ns r" "clean \<longrightarrow> l2_ok"
        using assms(2,3) Starting by (simp_all add: runner_step_def books_close_fails_def split: bool.splits)
      then show ?thesis using that(1) by blast
    next
      case (Start_Ready l2_ok o_ok now ns)
      then have "r' = continue_start h reports transported True l2_ok o_ok now ns r" "clean \<longrightarrow> l2_ok"
        using assms(2,3) Starting by (simp_all add: runner_step_def books_close_fails_def split: bool.splits)
      then show ?thesis using that(2) by blast
    next
      case (Start_Failed e o_ok ns)
      then have "r' = start_failed e o_ok ns r" using assms(2) Starting by (simp add: runner_step_def)
      then show ?thesis using that(3) by blast
    qed (use assms(2) Starting in \<open>simp_all add: runner_step_def\<close>)
    then show ?thesis
    proof cases
      case 1
      then have "clean \<longrightarrow> (rt_gap r \<noteq> None \<longleftrightarrow> reports) \<and> (0 < rt_generation r \<longrightarrow> reports \<and> (depth_types r \<noteq> [] \<longrightarrow> rt_l2_gap r \<noteq> None))"
        using held by simp
      note c = start_transported_ok [OF ok(1) none 1(3) this] start_free_results(5) [OF none]
      show ?thesis unfolding 1(2) by (rule moved_ok) (rule c)+
    next
      case 2
      note c = continue_start_ok [OF ok(1) none 2(2) held] start_free_results(4) [OF none]
      show ?thesis unfolding 2(1) by (rule moved_ok) (rule c)+
    next
      case 3
      then have "clean \<longrightarrow> rt_current r = None \<and> (0 < rt_generation r \<longrightarrow> depth_types r \<noteq> [] \<longrightarrow> rt_l2_gap r \<noteq> None)" using none held by simp
      note c = start_failed_ok [OF ok(1) this] start_free_results(1)
      show ?thesis unfolding 3 by (rule moved_ok) (rule c)+
    qed
  next
    case Pausing
    then have "r' = r\<lparr>rt_phase := Loop_Top\<rparr>" using assms(2) by (cases ev) (auto simp: runner_step_def)
    then show ?thesis by (simp only:, intro moved) (auto simp: flags Pausing split: if_splits)
  next
    case Watching
    then obtain stopping rotating c o_ok now ns h where h: "rt_current r = Some h"
      "watch_woken stopping rotating c o_ok now ns h r = Some r'"
      using assms(2) by (cases ev) (auto simp: runner_step_def split: option.splits)
    consider "r' = r\<lparr>rt_phase := Route_Ended\<rparr>" | e where "r' = connection_lost h e o_ok now ns r"
      | h' where "r' = r\<lparr>rt_rotation := rt_rotation_base r, rt_phase := Replacing h' False False\<rparr>"
      using h(2) by (auto simp: watch_woken_def split: if_splits option.splits)
    then show ?thesis
    proof cases
      case 2
      have "clean \<longrightarrow> rt_gap r = None" using ok(4) Watching h(1) by (simp add: runner_ok_def runner_fits_def)
      note c = connection_lost_ok [OF ok(1) this] start_free_results(3)
      show ?thesis unfolding 2 by (rule moved_ok) (rule c)+
    next
      case 3
      have "route_ok clean D (r\<lparr>rt_rotation := rt_rotation_base r\<rparr>)" by (rule route_view [OF assms(1)]) simp_all
      then show ?thesis unfolding 3 using phase_moved [of clean D "r\<lparr>rt_rotation := rt_rotation_base r\<rparr>" "Replacing h' False False"] ok(4) h(1) Watching
        by (simp add: flags depth_types_def)
    qed (use ended in simp)
  next
    case (Replacing h transported ready)
    have current: "rt_current r \<noteq> None \<or> \<not> clean" using ok(4) Replacing by (auto simp: flags)
    consider t d where "r' = continue_replacement h t d r" | e where "r' = replacement_failed e r"
    proof (cases ev)
      case (Start_Transported t_ok l2_ok o_ok now ns)
      then show ?thesis using assms(2) Replacing by (intro that(1)) (auto simp: runner_step_def split: bool.splits)
    next
      case (Start_Ready l2_ok o_ok now ns)
      then show ?thesis using assms(2) Replacing by (intro that(1)) (auto simp: runner_step_def split: bool.splits)
    next
      case (Start_Failed e o_ok ns)
      then show ?thesis using assms(2) Replacing by (intro that(2) [of e]) (simp add: runner_step_def)
    qed (use assms(2) Replacing in \<open>simp_all add: runner_step_def\<close>)
    then show ?thesis
    proof cases
      case 1
      then show ?thesis by (simp only: 1 continue_replacement_def, intro moved) (use Replacing in \<open>auto simp: flags split: if_splits\<close>)
    next
      case 2
      have "route_ok clean D (r\<lparr>rt_phase := Pausing\<rparr>)" by (rule moved) (use Replacing in \<open>auto simp: flags split: if_splits\<close>)
      then show ?thesis using ended 2 by (cases e) (simp_all add: replacement_failed_def)
    qed
  next
    case (Overlapping h)
    then obtain stopping now where r': "r' = overlap_over stopping now h r" using assms(2) by (cases ev) (auto simp: runner_step_def)
    show ?thesis
    proof (cases stopping)
      case True
      then show ?thesis using r' ended by (simp add: overlap_over_def)
    next
      case False
      then have "balanced clean D r'" using balanced_view [OF ok(1), of r'] r' by (simp add: overlap_over_def activate_connection_def)
      moreover have "clean \<longrightarrow> runner_ok r'" using ok(4) Overlapping False r'
        by (auto simp: overlap_over_def activate_connection_def runner_ok_def runner_fits_def split: if_splits)
      ultimately show ?thesis using False r' by (intro moved_ok) (simp_all add: overlap_over_def activate_connection_def start_free_def)
    qed
  qed (use assms(2) in \<open>cases ev; auto simp: runner_step_def\<close>)+
qed

section \<open>The other tasks\<close>

lemma gaps_moved:
  assumes "route_ok clean D r" "balanced clean D' r'" "live_ok r'"
    "rt_phase r' = rt_phase r" "rt_current r' = rt_current r" "rt_gap r' = rt_gap r" "rt_l2_gap r' = rt_l2_gap r"
    "rt_generation r' = rt_generation r" "rt_stream_types r' = rt_stream_types r"
  shows "route_ok clean D' r'"
  using assms runner_view [of r r'] start_view [of r r'] by (simp add: route_ok_def)

lemma close_live_gap_ok:
  assumes "route_ok clean D r" "dict_get (rt_live r) k = Some (g, t)" "\<forall>k' g' a b. rt_live_phase r \<noteq> Live_Opened k' g' a b"
    "\<forall>k' g' a b. p \<noteq> Live_Opened k' g' a b"
  shows "route_ok clean D ((close_live_gap k g note_text r)\<lparr>rt_live_phase := p\<rparr>)"
proof -
  have ok: "balanced clean D r" "dict_ok (rt_live r)" using assms(1) by (auto simp: route_ok_def live_ok_def)
  have none: "(case q of Live_Opened _ g _ _ \<Rightarrow> [(g, CONNECTION_LOST)] | _ \<Rightarrow> []) = []" if "\<forall>k' g' a b. q \<noteq> Live_Opened k' g' a b" for q
    using that by (cases q) auto
  show ?thesis
  proof (rule gaps_moved [OF assms(1)])
    show "balanced clean D ((close_live_gap k g note_text r)\<lparr>rt_live_phase := p\<rparr>)"
      by (rule balanced_close [OF ok(1), where g = g and why = CONNECTION_LOST])
        (use live_taken [OF assms(2) ok(2)] none [OF assms(3)] none [OF assms(4)] in
          \<open>simp_all add: close_live_gap_def journal_close_def held_gaps_def split: option.split\<close>)
    show "live_ok ((close_live_gap k g note_text r)\<lparr>rt_live_phase := p\<rparr>)"
      using dict_ok_pop [OF ok(2)] assms(4) by (cases p) (simp_all add: close_live_gap_def journal_close_def live_ok_def)
  qed (simp_all add: close_live_gap_def journal_close_def)
qed

lemma live_phase_moved:
  assumes "route_ok clean D r" "\<forall>k' g' a b. rt_live_phase r \<noteq> Live_Opened k' g' a b" "\<forall>k' g' a b. p \<noteq> Live_Opened k' g' a b"
  shows "route_ok clean D (r\<lparr>rt_live_phase := p\<rparr>)"
proof (rule gaps_moved [OF assms(1)])
  have none: "(case q of Live_Opened _ g _ _ \<Rightarrow> [(g, CONNECTION_LOST)] | _ \<Rightarrow> []) = []" if "\<forall>k' g' a b. q \<noteq> Live_Opened k' g' a b" for q
    using that by (cases q) auto
  show "balanced clean D (r\<lparr>rt_live_phase := p\<rparr>)"
    by (rule balanced_same [of clean D r]) (use assms(1) none [OF assms(2)] none [OF assms(3)] in \<open>simp_all add: route_ok_def held_gaps_def split: option.split\<close>)
  show "live_ok (r\<lparr>rt_live_phase := p\<rparr>)" using assms(1,3) by (cases p) (simp_all add: route_ok_def live_ok_def)
qed simp_all

lemma live_failed_ok:
  assumes "route_ok clean D r" "\<forall>k' g' a b. rt_live_phase r \<noteq> Live_Opened k' g' a b"
  shows "route_ok clean D (live_failed e n r)"
proof -
  have view: "route_ok clean D (r\<lparr>rt_failure_generation := i, rt_refresh_failures := m, rt_reconnect := b\<rparr>)"
    "route_ok clean D (r\<lparr>rt_failure_generation := i, rt_refresh_failures := m\<rparr>)" for i m b
    by (rule route_view [OF assms(1)]; simp)+
  have "route_ok clean D (r\<lparr>rt_failure_generation := i, rt_refresh_failures := m, rt_reconnect := b, rt_live_phase := Live_Sleep\<rparr>)"
    "route_ok clean D (r\<lparr>rt_failure_generation := i, rt_refresh_failures := m, rt_live_phase := Live_Sleep\<rparr>)" for i m b
    using live_phase_moved [OF view(1), where p = Live_Sleep] live_phase_moved [OF view(2), where p = Live_Sleep] assms(2) by simp_all
  moreover have "route_ok clean D (r\<lparr>rt_live_phase := Live_Sleep\<rparr>)" "route_ok clean D (r\<lparr>rt_live_phase := Live_Crashed\<rparr>)"
    using live_phase_moved [OF assms] by simp_all
  ultimately show ?thesis by (cases e) (simp_all add: live_failed_def Let_def)
qed

lemma live_opened_ok:
  assumes "route_ok clean D r" "rt_live_phase r = Live_Opened k g rest keys"
  shows "route_ok (clean \<and> rt_live_phase (live_opened k g rest keys r) \<noteq> Live_Crashed) D (live_opened k g rest keys r)"
proof -
  have ok: "balanced clean D r" "dict_ok (rt_live r)" "dict_get (rt_live r) k = None"
    using assms by (auto simp: route_ok_def live_ok_def)
  show ?thesis
  proof (cases "dict_get (rt_last_event r) k")
    case None
    have "balanced False D (r\<lparr>rt_live_phase := Live_Crashed\<rparr>)"
      by (rule balanced_drop [OF ok(1), where p = "(g, CONNECTION_LOST)"]) (simp_all add: held_gaps_def assms(2) split: option.split)
    moreover have "live_ok (r\<lparr>rt_live_phase := Live_Crashed\<rparr>)" using ok(2) by (simp add: live_ok_def)
    moreover have "start_free (r\<lparr>rt_live_phase := Live_Crashed\<rparr>)" using assms(1) start_view [of r] by (simp add: route_ok_def)
    ultimately show ?thesis using None by (simp add: live_opened_def route_ok_def)
  next
    case (Some v)
    obtain t ns where v: "v = (t, ns)" by (cases v) blast
    define r' where "r' = r\<lparr>rt_live := dict_set k (g, t) (rt_live r), rt_live_phase := Live_Open rest keys\<rparr>"
    have r': "live_opened k g rest keys r = r'" using Some v by (simp add: live_opened_def r'_def)
    have "route_ok clean D r'"
    proof (rule gaps_moved [OF assms(1)])
      show "balanced clean D r'" by (rule balanced_same [OF ok(1)])
          (use live_added [OF ok(3)] in \<open>simp_all add: r'_def held_gaps_def assms(2) del: dict_set.simps split: option.split\<close>)
      show "live_ok r'" using dict_ok_set [OF ok(2)] by (simp add: r'_def live_ok_def del: dict_set.simps)
    qed (simp_all add: r'_def)
    then show ?thesis using r' by (simp add: r'_def)
  qed
qed

lemma live_step_ok:
  assumes "route_ok clean D r" "live_step ev r = Some r'"
  shows "route_ok (clean \<and> rt_live_phase r' \<noteq> Live_Crashed) D r'"
proof -
  have weak: "route_ok (clean \<and> b) D x" if "route_ok clean D x" for b x
    using that balanced_weaken [of clean D x] by (cases clean; cases b) (simp_all add: route_ok_def)
  note moved = live_phase_moved [OF assms(1)]
  show ?thesis
  proof (cases "rt_live_phase r")
    case Live_Sleep
    then obtain p where "r' = r\<lparr>rt_live_phase := p\<rparr>" "\<forall>k' g' a b. p \<noteq> Live_Opened k' g' a b"
      using assms(2) by (cases ev) (auto simp: live_step_def split: if_splits)
    then show ?thesis using weak moved Live_Sleep by simp
  next
    case (Live_Resume now keys)
    then obtain ok where r': "r' = live_resume now keys ok r" using assms(2) by (cases ev) (auto simp: live_step_def)
    have "route_ok clean D r'" unfolding r' live_resume_def Let_def
      using moved close_live_gap_ok [OF assms(1)] Live_Resume by (auto split: list.split option.split)
    then show ?thesis by (rule weak)
  next
    case (Live_Open stale keys)
    then obtain msg ok where r': "r' = live_open stale keys msg ok r" using assms(2) by (cases ev) (auto simp: live_step_def)
    have opens: "route_ok clean D (snd (journal_open CONNECTION_LOST None [snd k] [fst k] ns msg r)\<lparr>rt_live_phase := Live_Opened k (rt_next_gap r) rest keys\<rparr>)"
      if "dict_get (rt_live r) k = None" for k ns rest
    proof (rule gaps_moved [OF assms(1)])
      show "balanced clean D (snd (journal_open CONNECTION_LOST None [snd k] [fst k] ns msg r)\<lparr>rt_live_phase := Live_Opened k (rt_next_gap r) rest keys\<rparr>)"
        by (rule balanced_open [of clean D r, where why = CONNECTION_LOST])
          (use assms(1) Live_Open in \<open>simp_all add: route_ok_def journal_open_def held_gaps_def split: option.split\<close>)
      show "live_ok (snd (journal_open CONNECTION_LOST None [snd k] [fst k] ns msg r)\<lparr>rt_live_phase := Live_Opened k (rt_next_gap r) rest keys\<rparr>)"
        using assms(1) that by (simp add: route_ok_def live_ok_def journal_open_def)
    qed (simp_all add: journal_open_def)
    have "route_ok clean D r'"
    proof (cases stale)
      case Nil
      then show ?thesis using moved Live_Open by (simp add: r' live_open_def)
    next
      case (Cons kns rest)
      obtain k ns where "kns = (k, ns)" by (cases kns) blast
      then show ?thesis using Cons moved opens [where k = k and ns = ns and rest = rest] Live_Open
        by (cases "dict_get (rt_live r) k") (simp_all add: r' live_open_def journal_open_def)
    qed
    then show ?thesis by (rule weak)
  next
    case (Live_Opened k g rest keys)
    then have "r' = live_opened k g rest keys r" using assms(2) by (cases ev) (auto simp: live_step_def)
    then show ?thesis using live_opened_ok [OF assms(1) Live_Opened] by simp
  next
    case (Live_Refresh keys n)
    then have "(\<exists>now. r' = r\<lparr>rt_live_phase := Live_Wait keys n now\<rparr>) \<or> (\<exists>e. r' = live_failed e n r)"
      using assms(2) by (cases ev) (auto simp: live_step_def)
    then show ?thesis using weak moved live_failed_ok [OF assms(1)] Live_Refresh by auto
  next
    case (Live_Wait keys n seen)
    then have "r' = r\<lparr>rt_live_phase := Live_Crashed\<rparr> \<or> r' = r\<lparr>rt_live_phase := Live_Close keys n\<rparr> \<or> (\<exists>e. r' = live_failed e n r)"
      using assms(2) by (cases ev) (auto simp: live_step_def live_wait_def split: sum.splits list.splits)
    then show ?thesis using weak moved live_failed_ok [OF assms(1)] Live_Wait by auto
  next
    case (Live_Close keys n)
    then obtain ok where r': "r' = live_close keys n ok r" using assms(2) by (cases ev) (auto simp: live_step_def)
    have "route_ok clean D (r\<lparr>rt_failure_generation := -1, rt_refresh_failures := 0\<rparr>)" by (rule route_view [OF assms(1)]) simp_all
    note slept = live_phase_moved [OF this, where p = Live_Sleep]
    have "route_ok clean D r'" unfolding r' live_close_def
      using moved slept close_live_gap_ok [OF assms(1)] live_failed_ok [OF assms(1)] Live_Close by (auto split: list.split option.split)
    then show ?thesis by (rule weak)
  qed (use assms(2) in \<open>cases ev; simp add: live_step_def\<close>)+
qed

lemma weaken_ok: "route_ok clean D r \<Longrightarrow> route_ok (clean \<and> b) D r"
  using balanced_weaken [of clean D r] by (cases clean; cases b) (simp_all add: route_ok_def)

lemma update_step_ok:
  assumes "route_ok clean D r" "update_step ev r = Some r'"
  shows "route_ok clean D r'"
proof (rule route_view [OF assms(1)])
qed (use assms(2) in \<open>cases ev; auto simp: update_step_def begin_update_instruments_def fail_update_instruments_def finish_update_instruments_def Let_def
    split: option.splits phase.splits if_splits\<close>)+

definition depth_after :: "route_event \<Rightarrow> route \<Rightarrow> nat set \<Rightarrow> nat set" where
  "depth_after ev r D = (case ev of Depth_Gap_Opened _ _ _ _ _ \<Rightarrow> insert (rt_next_gap r) D | Depth_Gap_Closed g _ _ \<Rightarrow> D - {g} | _ \<Rightarrow> D)"

lemma depth_gap_ok:
  assumes "route_ok clean D r" "event_allowed ev r" "route_step ev r = Some r'"
    "(\<exists>c s t a n. ev = Depth_Gap_Opened c s t a n) \<or> (\<exists>g s t. ev = Depth_Gap_Closed g s t)"
  shows "route_ok clean (depth_after ev r D) r'"
proof -
  have ok: "balanced clean D r" "live_ok r" using assms(1) by (simp_all add: route_ok_def)
  from assms(4) show ?thesis
  proof (elim disjE exE)
    fix c s t a n
    assume ev: "ev = Depth_Gap_Opened c s t a n"
    then have r': "r' = snd (open_depth_gap c s t a n r)" using assms(3) by (simp add: route_step_def)
    show ?thesis
    proof (rule gaps_moved [OF assms(1)])
      have "balanced clean (insert (rt_next_gap r) D) r'" by (rule balanced_depth_open [OF ok(1)])
          (simp_all add: r' open_depth_gap_def journal_open_def held_gaps_def split: option.split)
      then show "balanced clean (depth_after ev r D) r'" by (simp add: ev depth_after_def)
      show "live_ok r'" by (rule live_view [OF ok(2)]) (simp_all add: r' open_depth_gap_def journal_open_def)
    qed (simp_all add: r' open_depth_gap_def journal_open_def)
  next
    fix g s t
    assume ev: "ev = Depth_Gap_Closed g s t"
    then have r': "r' = close_depth_gap g s t r" using assms(3) by (simp add: route_step_def)
    show ?thesis
    proof (rule gaps_moved [OF assms(1)])
      have "balanced clean (D - {g}) r'" by (rule balanced_depth_close [OF ok(1), where g = g])
          (use assms(2) ev in \<open>simp_all add: r' close_depth_gap_def journal_close_def held_gaps_def event_allowed_def split: option.split\<close>)
      then show "balanced clean (depth_after ev r D) r'" by (simp add: ev depth_after_def)
      show "live_ok r'" by (rule live_view [OF ok(2)]) (simp_all add: r' close_depth_gap_def journal_close_def)
    qed (simp_all add: r' close_depth_gap_def journal_close_def)
  qed
qed

lemma task_ended_ok:
  assumes "route_ok clean D r"
  shows "route_ok clean D (task_ended c e r)"
proof (cases "rt_phase r")
  case (Overlapping h)
  have "route_ok clean D (r\<lparr>rt_current := map_option (end_handle c e) (rt_current r)\<rparr>)" by (rule route_view [OF assms]) simp_all
  moreover have "runner_ok r \<Longrightarrow> runner_ok (r\<lparr>rt_current := map_option (end_handle c e) (rt_current r), rt_phase := Overlapping h'\<rparr>)" for h'
    using Overlapping by (auto simp: runner_ok_def runner_fits_def depth_types_def split: if_splits)
  ultimately show ?thesis
    using phase_moved [of clean D "r\<lparr>rt_current := map_option (end_handle c e) (rt_current r)\<rparr>" "Overlapping (end_handle c e h)"] assms Overlapping
    by (simp add: task_ended_def route_ok_def start_free_def)
qed (rule route_view [OF assms]; simp add: task_ended_def)+

lemma mark_event_ok: "route_ok clean D r \<Longrightarrow> route_ok clean D (mark_event stream symbol now ns r)"
  by (erule route_view) (auto simp: mark_event_def split: option.split)

lemma route_step_cases:
  assumes "route_step ev r = Some r'"
  obtains (ended) c e where "ev = Task_Ended c e" "r' = task_ended c e r"
    | (seen) stream symbol now ns where "ev = Event_Seen stream symbol now ns" "r' = mark_event stream symbol now ns r"
    | (depth) "(\<exists>c s t a n. ev = Depth_Gap_Opened c s t a n) \<or> (\<exists>g s t. ev = Depth_Gap_Closed g s t)"
    | (runner) "runner_step ev r = Some r'" "depth_after ev r = id"
    | (update) "update_step ev r = Some r'" "depth_after ev r = id"
    | (live) "live_step ev r = Some r'" "depth_after ev r = id"
  using assms by (cases ev) (auto simp: route_step_def depth_after_def fun_eq_iff split: option.splits)

lemma route_step_ok:
  assumes "route_ok clean D r" "event_allowed ev r" "route_step ev r = Some r'" "clean \<longrightarrow> \<not> books_close_fails ev"
  shows "route_ok (clean \<and> rt_live_phase r' \<noteq> Live_Crashed) (depth_after ev r D) r'"
  using assms(3)
proof (cases rule: route_step_cases)
  case live
  then show ?thesis using live_step_ok [OF assms(1)] by simp
next
  case runner
  then show ?thesis using weaken_ok [OF runner_step_ok [OF assms(1) runner(1) assms(4)]] by simp
next
  case update
  then show ?thesis using weaken_ok [OF update_step_ok [OF assms(1) update(1)]] by simp
next
  case depth
  show ?thesis by (rule weaken_ok [OF depth_gap_ok [OF assms(1,2,3) depth]])
next
  case ended
  then show ?thesis using weaken_ok [OF task_ended_ok [OF assms(1)]] by (simp add: depth_after_def)
next
  case seen
  then show ?thesis using weaken_ok [OF mark_event_ok [OF assms(1)]] by (simp add: depth_after_def)
qed

lemma new_route_ok: "route_ok True {} (new_route name subscriptions instruments types liveness d0 limit rotation offset timeout now ns)"
  by (simp add: new_route_def route_ok_def balanced_def balance_def opened_gaps_def closed_gaps_def List.map_filter_def held_gaps_def live_ok_def start_free_def
      runner_ok_def runner_fits_def)

lemma route_run_ok:
  assumes "route_run r0 clean r" "route_ok True D r0"
  shows "\<exists>D. route_ok clean D r"
  using assms
proof induction
  case (moved r0 clean r ev r')
  then obtain D where "route_ok clean D r" by blast
  then have "route_ok (clean \<and> \<not> books_close_fails ev) D r" by (rule weaken_ok)
  from route_step_ok [OF this moved.hyps(2,3)] show ?case by (auto simp: conj_assoc)
qed blast

fun route_events :: "route_event list \<Rightarrow> route \<Rightarrow> route option" where
  "route_events [] r = Some r"
| "route_events (ev # evs) r =
     (if event_allowed ev r then case route_step ev r of None \<Rightarrow> None | Some r1 \<Rightarrow> route_events evs r1 else None)"

lemma route_events_Cons:
  assumes "route_events (ev # evs) r = Some r'"
  obtains r1 where "event_allowed ev r" "route_step ev r = Some r1" "route_events evs r1 = Some r'"
  using assms by (auto split: if_splits option.splits)

lemma held_open: "route_ok clean D r \<Longrightarrow> (g, why) \<in> set (held_gaps r) \<Longrightarrow> gap_is_open r g why"
  using balanceD(5,6) unfolding route_ok_def balanced_def gap_is_open_def by blast

lemma open_held: "route_ok True D r \<Longrightarrow> gap_is_open r g why \<Longrightarrow> why \<noteq> L2_SEQUENCE \<Longrightarrow> (g, why) \<in> set (held_gaps r)"
  using balanceD(8) unfolding route_ok_def balanced_def gap_is_open_def by blast

lemma depth_open: "route_ok clean D r \<Longrightarrow> g \<in> D \<longleftrightarrow> gap_is_open r g L2_SEQUENCE"
  using balanceD(9) unfolding route_ok_def balanced_def gap_is_open_def by blast

lemma route_events_depth:
  assumes "route_events evs r = Some r'" "route_ok False D r" "g \<in> D" "\<forall>s t. Depth_Gap_Closed g s t \<notin> set evs"
  shows "gap_is_open r' g L2_SEQUENCE"
  using assms
proof (induction evs arbitrary: r D)
  case Nil
  then show ?case using depth_open by simp
next
  case (Cons ev evs)
  from Cons.prems(1) obtain r1 where r1: "event_allowed ev r" "route_step ev r = Some r1" "route_events evs r1 = Some r'"
    by (rule route_events_Cons)
  have "g \<in> depth_after ev r D" using Cons.prems(3,4) by (cases ev) (auto simp: depth_after_def)
  then show ?case using Cons.IH [OF r1(3)] route_step_ok [OF Cons.prems(2) r1(1,2)] Cons.prems(4) by simp
qed

section \<open>Properties\<close>

text \<open>C29. In every run in which the closes of the books' gap are written and the liveness loop has not crashed, as long as the
  runner of the route has neither ended nor crashed: a route with depth streams that has been active and has no connection now holds an open gap for its books, and while a connection is active every open gap of the route is one of
  the liveness loop or of a broken sequence. Both conditions on the run are needed: \<open>failed_close_gap_of_live_connection\<close> and
  \<open>removed_symbol_stops_liveness\<close>.\<close>

theorem inactive_route_has_gap:
  assumes "route_run (new_route name subscriptions instruments types liveness d0 limit rotation offset timeout now ns) True r"
    and "rt_phase r \<notin> {Route_Ended, Route_Crashed}"
  shows "(rt_current r = None \<longrightarrow> 0 < rt_generation r \<longrightarrow> depth_types r \<noteq> [] \<longrightarrow> (\<exists>l. rt_l2_gap r = Some l \<and> gap_is_open r l L2_REANCHOR)) \<and>
    (\<forall>g why. rt_current r \<noteq> None \<longrightarrow> gap_is_open r g why \<longrightarrow> why \<noteq> L2_SEQUENCE \<longrightarrow> why = CONNECTION_LOST \<and>
      ((\<exists>k t. (k, g, t) \<in> set (rt_live r)) \<or> (\<exists>k rest keys. rt_live_phase r = Live_Opened k g rest keys)))"
proof -
  obtain D where D: "route_ok True D r" using route_run_ok [OF assms(1) new_route_ok] by blast
  then have fits: "runner_ok r" by (simp add: route_ok_def)
  show ?thesis
  proof (intro conjI impI allI)
    assume "rt_current r = None" "0 < rt_generation r" "depth_types r \<noteq> []"
    then obtain l where l: "rt_l2_gap r = Some l" using fits assms(2) by (auto simp: runner_ok_def runner_fits_def split: phase.splits)
    then show "\<exists>l. rt_l2_gap r = Some l \<and> gap_is_open r l L2_REANCHOR" using held_open [OF D, of l L2_REANCHOR] by (simp add: held_gaps_def)
  next
    fix g why
    assume current: "rt_current r \<noteq> None" and g: "gap_is_open r g why" "why \<noteq> L2_SEQUENCE"
    have "rt_gap r = None" "rt_l2_gap r = None" using fits current assms(2) by (auto simp: runner_ok_def runner_fits_def)
    then have "(g, why) \<in> set (map (\<lambda>(_, g, _). (g, CONNECTION_LOST)) (rt_live r)) \<or>
        (g, why) \<in> set (case rt_live_phase r of Live_Opened _ g _ _ \<Rightarrow> [(g, CONNECTION_LOST)] | _ \<Rightarrow> [])"
      using open_held [OF D g] by (simp add: held_gaps_def)
    then show "why = CONNECTION_LOST" "(\<exists>k t. (k, g, t) \<in> set (rt_live r)) \<or> (\<exists>k rest keys. rt_live_phase r = Live_Opened k g rest keys)"
      by (cases "rt_live_phase r"; auto)+
  qed
qed

text \<open>C30. A gap of a broken sequence only closes when the recovery that opened it asks for it: once that connection has ended, no later
  connection, rotation or refresh of the route closes the gap.\<close>

theorem abandoned_depth_gap_stays_open:
  assumes "route_run (new_route name subscriptions instruments types liveness d0 limit rotation offset timeout now ns) clean r"
    and "gap_is_open r g L2_SEQUENCE" "route_events evs r = Some r'" "\<forall>s t. Depth_Gap_Closed g s t \<notin> set evs"
  shows "gap_is_open r' g L2_SEQUENCE"
proof -
  obtain D where "route_ok clean D r" using route_run_ok [OF assms(1) new_route_ok] by blast
  then have D: "route_ok False D r" using weaken_ok [of clean D r False] by simp
  show ?thesis using route_events_depth [OF assms(3) D _ assms(4)] depth_open [OF D] assms(2) by blast
qed

lemma map_result_fails: "x \<in> set xs \<Longrightarrow> f x = Inl e \<Longrightarrow> \<exists>e'. map_result f xs = Inl e'"
proof (induction xs)
  case (Cons y ys)
  then show ?case by (cases "f y") (auto simp: rbind_def split: sum.splits)
qed simp

text \<open>C31. When a symbol is removed from a route while the liveness loop waits for one of its streams, the next pass of the wait raises a
  \<open>KeyError\<close>, which the loop does not catch.\<close>

theorem removed_symbol_stops_liveness:
  assumes "rt_live_phase r = Live_Wait keys n seen" "(stream, s) \<in> set keys"
    and "rt_update r = Some u" "s \<notin> set (ru_instruments u)" "update_step (Update_Done now) r = Some r1"
  shows "\<exists>r2. live_step (Live_Moved msg ok) r1 = Some r2 \<and> rt_live_phase r2 = Live_Crashed"
proof -
  have r1: "r1 = finish_update_instruments u now r" using assms(3,5) by (simp add: update_step_def split: if_splits)
  have "(stream, s) \<notin> set (event_keys (rt_liveness_types r) (ru_instruments u))" using assms(4) by (auto simp: event_keys_def)
  then have "dict_get (rt_last_event r1) (stream, s) = None"
    by (auto simp: r1 finish_update_instruments_def dict_get_def map_of_eq_None_iff)
  then obtain e where "pending_keys keys seen r1 = Inl e"
    using map_result_fails [OF assms(2), of "\<lambda>k. case dict_get (rt_last_event r1) k of None \<Rightarrow> Inl (KeyError (snd k)) | Some (t, _) \<Rightarrow> Inr (k, t)"]
    by (auto simp: pending_keys_def)
  moreover have "rt_live_phase r1 = Live_Wait keys n seen" by (simp add: r1 finish_update_instruments_def assms(1))
  ultimately show ?thesis by (simp add: live_step_def live_wait_def)
qed

text \<open>The loss of the active connection while its replacement is started leaves no gap.\<close>

lemma rotation_hides_loss:
  assumes "rt_phase r = Replacing h False False" "rt_current r = Some c" "hd_connection h \<noteq> hd_connection c"
    and "route_events [Task_Ended (hd_connection c) (Some e), Start_Transported t1 l1 o1 m1 n1, Start_Ready l2 o2 m2 n2, Overlap_Over False m3] r = Some r'"
  shows "rt_phase r' = Watching \<and> rt_current r' = Some h \<and> rt_gaps r' = rt_gaps r \<and> rt_connection_ready r'"
  using assms by (auto simp: event_allowed_def route_step_def task_ended_def runner_step_def continue_replacement_def overlap_over_def
      activate_connection_def)

text \<open>A failing write of the books' close opens a transport gap for a connection that is up.\<close>

lemma failed_close_gap_of_live_connection:
  assumes "rt_gap r = None" "rt_l2_gap r = Some l"
  shows "rt_current (start_finished h False True now ns r) = Some h \<and> rt_phase (start_finished h False True now ns r) = Pausing \<and>
    (\<exists>g. rt_gap (start_finished h False True now ns r) = Some g) \<and> rt_l2_gap (start_finished h False True now ns r) = Some l"
  using assms cover_loss_fields
  by (simp add: start_finished_def Let_def start_failed_def journal_error_def)
    (simp add: cover_loss_def open_route_gap_def journal_open_def Let_def)

section \<open>A run\<close>

definition demo_route :: route where
  "demo_route = new_route ''p'' [] [''A''] [BOOK_TICKER, DEPTH] [DEPTH] False 2 100 0 (Some 30) 0 0"

definition demo_up :: "route_event list" where
  "demo_up = [Loop False ''c'', Start_Transported True True True 1 1, Start_Ready True True 1 1, Depth_Gap_Opened ''c'' ''A'' DEPTH 2 ''break'']"

definition demo_down :: "route_event list" where
  "demo_down = [Task_Ended ''c'' (Some (Transport_Lost ''reset'')), Watch_Woken False False [] True 3 3]"

definition demo_again :: "route_event list" where
  "demo_again = [Pause_Over, Loop False ''d'', Start_Transported True True True 4 4, Start_Ready True True 5 5]"

definition demo_stale :: "route_event list" where
  "demo_stale = [Live_Woken False 40, Live_Moved [] True, Live_Moved [] True, Live_Moved [] True, Live_Moved [] True, Live_Refreshed 41,
     Update_Begun [''B''] [] 42 42, Event_Seen DEPTH (Some ''B'') 43 43]"

fun flagged_events :: "route_event list \<Rightarrow> bool \<times> route \<Rightarrow> (bool \<times> route) option" where
  "flagged_events [] s = Some s"
| "flagged_events (ev # evs) (clean, r) =
     (if event_allowed ev r then
        case route_step ev r of
          None \<Rightarrow> None
        | Some r1 \<Rightarrow> flagged_events evs (clean \<and> \<not> books_close_fails ev \<and> rt_live_phase r1 \<noteq> Live_Crashed, r1)
      else None)"

lemma flagged_run: "flagged_events evs (clean, r) = Some (clean', r') \<Longrightarrow> route_run r0 clean r \<Longrightarrow> route_run r0 clean' r'"
proof (induction evs arbitrary: clean r)
  case (Cons ev evs)
  then obtain r1 where r1: "event_allowed ev r" "route_step ev r = Some r1"
    "flagged_events evs (clean \<and> \<not> books_close_fails ev \<and> rt_live_phase r1 \<noteq> Live_Crashed, r1) = Some (clean', r')"
    by (auto split: if_splits option.splits)
  show ?case by (rule Cons.IH [OF r1(3) moved [OF Cons.prems(2) r1(1,2)]])
qed simp

definition after_events :: "route_event list \<Rightarrow> route" where
  "after_events evs = snd (the (flagged_events evs (True, demo_route)))"

lemma after_run:
  assumes "map_option fst (flagged_events evs (True, demo_route)) = Some clean"
  shows "route_run demo_route clean (after_events evs)"
proof -
  obtain r where "flagged_events evs (True, demo_route) = Some (clean, r)" using assms by (cases "flagged_events evs (True, demo_route)") auto
  then show ?thesis using flagged_run [OF _ created] by (simp add: after_events_def)
qed

lemma demo_run_down:
  "map_option fst (flagged_events (demo_up @ demo_down) (True, demo_route)) = Some True" "rt_phase (after_events (demo_up @ demo_down)) = Pausing"
  "rt_current (after_events (demo_up @ demo_down)) = None" "0 < rt_generation (after_events (demo_up @ demo_down))"
  "depth_types (after_events (demo_up @ demo_down)) \<noteq> []"
  by code_simp+

theorem inactive_route_has_gap_witness: "\<exists>l. gap_is_open (after_events (demo_up @ demo_down)) l L2_REANCHOR"
proof -
  have phase: "rt_phase (after_events (demo_up @ demo_down)) \<notin> {Route_Ended, Route_Crashed}" by (simp add: demo_run_down(2))
  show ?thesis
    using inactive_route_has_gap [OF after_run [OF demo_run_down(1), unfolded demo_route_def] phase] demo_run_down(3,4,5) by blast
qed

lemma demo_run_up:
  "map_option fst (flagged_events demo_up (True, demo_route)) = Some True" "gap_is_open (after_events demo_up) 0 L2_SEQUENCE"
  "map_option (\<lambda>r. rt_phase r) (route_events (demo_down @ demo_again) (after_events demo_up)) = Some Watching"
  by code_simp+

theorem abandoned_depth_gap_stays_open_witness:
  "\<exists>r. route_events (demo_down @ demo_again) (after_events demo_up) = Some r \<and> rt_phase r = Watching \<and> gap_is_open r 0 L2_SEQUENCE"
proof -
  obtain r where r: "route_events (demo_down @ demo_again) (after_events demo_up) = Some r" "rt_phase r = Watching"
    using demo_run_up(3) by auto
  have "\<forall>s t. Depth_Gap_Closed 0 s t \<notin> set (demo_down @ demo_again)" by (simp add: demo_down_def demo_again_def)
  then show ?thesis
    using abandoned_depth_gap_stays_open [OF after_run [OF demo_run_up(1), unfolded demo_route_def] demo_run_up(2) r(1)] r by blast
qed

lemma demo_run_stale:
  "rt_live_phase (after_events demo_stale) = Live_Wait [(DEPTH, ''A'')] 0 41"
  "map_option ru_instruments (rt_update (after_events demo_stale)) = Some [''B'']"
  "\<not> Option.is_none (update_step (Update_Done 44) (after_events demo_stale))"
  by code_simp+

theorem removed_symbol_stops_liveness_witness:
  "\<exists>r1 r2. update_step (Update_Done 44) (after_events demo_stale) = Some r1 \<and> live_step (Live_Moved [] True) r1 = Some r2 \<and>
    rt_live_phase r2 = Live_Crashed"
proof -
  obtain u where u: "rt_update (after_events demo_stale) = Some u" "ru_instruments u = [''B'']" using demo_run_stale(2) by auto
  obtain r1 where r1: "update_step (Update_Done 44) (after_events demo_stale) = Some r1"
    using demo_run_stale(3) by (cases "update_step (Update_Done 44) (after_events demo_stale)") simp_all
  show ?thesis
    using removed_symbol_stops_liveness [OF demo_run_stale(1), of DEPTH "''A''", OF _ u(1) _ r1, of "[]" True] r1 u(2) by auto
qed

end
