(* ===== verification/Sharding.thy ===== *)
theory Sharding
  imports Doubles "HOL-Library.Multiset"
begin

text \<open>
  \<open>src/miry/collector/sharding.py\<close>, \<open>TrafficSharder\<close>: symbols are spread over the shards by message rate;
  known assignments are kept, and pairwise swaps narrow the spread of the loads. A dict of Python is a
  \<open>dict\<close>, a list of lists is a list of lists, and a set that is only sorted afterwards is a list without
  repetitions.
\<close>

section \<open>Operations\<close>

record sharder =
  ts_count :: nat
  ts_rates :: "(string, int) dict"
  ts_assignments :: "(string, nat) dict"

definition new_sharder :: "int \<Rightarrow> (string, int) dict \<Rightarrow> py_error + sharder" where
  "new_sharder n rates =
     (if n < 1 then Inl (ValueError ''shard count must be positive'')
      else Inr \<lparr>ts_count = nat n, ts_rates = rates, ts_assignments = []\<rparr>)"

definition message_rate :: "(string, int) dict \<Rightarrow> string \<Rightarrow> int" where
  "message_rate rates s =
     (case dict_get rates s of
        Some r \<Rightarrow> r
      | None \<Rightarrow> if rates \<noteq> [] then sort (map snd rates) ! (length rates div 2) else 1)"

type_synonym layout = "string list list \<times> int list"

definition place :: "(string, int) dict \<Rightarrow> string \<Rightarrow> nat \<Rightarrow> layout \<Rightarrow> layout" where
  "place rates s i = (\<lambda>(shards, loads).
     (shards[i := shards ! i @ [s]], loads[i := loads ! i + message_rate rates s]))"

definition spread :: "int list \<Rightarrow> int" where
  "spread loads = Max (set loads) - Min (set loads)"

text \<open>One candidate swap: shards, symbols and the two loads after it.\<close>

type_synonym swap = "nat \<times> nat \<times> string \<times> string \<times> int \<times> int"

definition swap_loads :: "(string, int) dict \<Rightarrow> int list \<Rightarrow> nat \<Rightarrow> nat \<Rightarrow> string \<Rightarrow> string \<Rightarrow> swap" where
  "swap_loads rates loads l r a b =
     (l, r, a, b, loads ! l - message_rate rates a + message_rate rates b,
      loads ! r - message_rate rates b + message_rate rates a)"

definition candidates :: "(string, int) dict \<Rightarrow> layout \<Rightarrow> swap list" where
  "candidates rates = (\<lambda>(shards, loads).
     concat (map (\<lambda>l. concat (map (\<lambda>r. concat (map (\<lambda>a. map (\<lambda>b. swap_loads rates loads l r a b) (shards ! r))
       (shards ! l))) [Suc l..<length shards])) [0..<length shards]))"

definition loads_after :: "int list \<Rightarrow> swap \<Rightarrow> int list" where
  "loads_after loads = (\<lambda>(l, r, a, b, nl, nr). loads[l := nl, r := nr])"

definition consider_swap :: "int list \<Rightarrow> swap \<Rightarrow> swap option \<times> int \<Rightarrow> swap option \<times> int" where
  "consider_swap loads c = (\<lambda>(best, best_spread).
     let s = spread (loads_after loads c) in if s < best_spread then (Some c, s) else (best, best_spread))"

definition best_swap :: "(string, int) dict \<Rightarrow> layout \<Rightarrow> swap option \<times> int" where
  "best_swap rates lay = fold (consider_swap (snd lay)) (candidates rates lay) (None, spread (snd lay))"

definition apply_swap :: "swap \<Rightarrow> layout \<Rightarrow> layout" where
  "apply_swap = (\<lambda>(l, r, a, b, nl, nr) (shards, loads).
     (shards[l := remove1 a (shards ! l) @ [b], r := remove1 b (shards ! r) @ [a]], loads[l := nl, r := nr]))"

text \<open>What the search keeps: the best spread so far belongs to the best candidate so far.\<close>

definition search_ok :: "int list \<Rightarrow> swap list \<Rightarrow> swap option \<times> int \<Rightarrow> bool" where
  "search_ok loads cs = (\<lambda>(best, s).
     (\<forall>c \<in> set cs. s \<le> spread (loads_after loads c)) \<and> s \<le> spread loads \<and>
     (case best of None \<Rightarrow> s = spread loads
      | Some c \<Rightarrow> s = spread (loads_after loads c) \<and> s < spread loads \<and> c \<in> set cs))"

lemma search_keeps: "search_ok loads ds (best, s) \<Longrightarrow> search_ok loads (ds @ cs) (fold (consider_swap loads) cs (best, s))"
proof (induction cs arbitrary: ds best s)
  case (Cons c cs)
  obtain best' s' where step: "consider_swap loads c (best, s) = (best', s')" by fastforce
  have "search_ok loads (ds @ [c]) (best', s')"
    using Cons.prems step
    by (cases c) (auto simp: search_ok_def consider_swap_def Let_def split: if_splits option.splits)
  from Cons.IH [OF this] show ?case by (simp add: step)
qed simp

lemma best_swap_ok: "search_ok (snd lay) (candidates rates lay) (best_swap rates lay)"
  using search_keeps [of "snd lay" "[]" None "spread (snd lay)" "candidates rates lay"]
  by (simp add: best_swap_def search_ok_def)

lemma best_swap_spread:
  assumes "fst (best_swap rates lay) = Some c"
  shows "spread (loads_after (snd lay) c) < spread (snd lay) \<and> c \<in> set (candidates rates lay)"
  using best_swap_ok [of lay rates] assms by (cases "best_swap rates lay") (simp add: search_ok_def)

lemma best_swap_None:
  assumes "fst (best_swap rates lay) = None" "c \<in> set (candidates rates lay)"
  shows "spread (snd lay) \<le> spread (loads_after (snd lay) c)"
  using best_swap_ok [of lay rates] assms by (cases "best_swap rates lay") (simp add: search_ok_def)

lemma snd_apply_swap: "snd (apply_swap c lay) = loads_after (snd lay) c"
  by (simp add: apply_swap_def loads_after_def split: prod.split)

lemma spread_nonneg: "loads \<noteq> [] \<Longrightarrow> 0 \<le> spread loads"
  unfolding spread_def by (simp add: Min_le_iff)

text \<open>
  The loop of \<open>_improve_balance\<close>; \<open>budget\<close> is what is left of \<open>max_swaps\<close>. Every swap makes the integer
  spread smaller, and the spread of a non-empty list is not negative.
\<close>

function improve_balance :: "(string, int) dict \<Rightarrow> nat option \<Rightarrow> layout \<Rightarrow> layout" where
  "improve_balance rates budget lay =
     (if budget = Some 0 then lay
      else case fst (best_swap rates lay) of
          None \<Rightarrow> lay
        | Some c \<Rightarrow> improve_balance rates (map_option (\<lambda>n. n - 1) budget) (apply_swap c lay))"
  by pat_completeness auto

termination
proof (relation "measure (\<lambda>(rates, budget, lay). nat (spread (snd lay)))")
  fix rates :: "(string, int) dict" and budget lay c
  assume "fst (best_swap rates lay) = Some c"
  note b = conjunct1 [OF best_swap_spread [OF this]]
  have "snd lay \<noteq> []"
  proof
    assume "snd lay = []"
    then have "loads_after (snd lay) c = snd lay" by (simp add: loads_after_def split: prod.split)
    then show False using b by simp
  qed
  then have "loads_after (snd lay) c \<noteq> []" by (auto simp: loads_after_def split: prod.split)
  then have "0 \<le> spread (loads_after (snd lay) c)" by (rule spread_nonneg)
  then show "((rates, map_option (\<lambda>n. n - 1) budget, apply_swap c lay), rates, budget, lay)
      \<in> measure (\<lambda>(rates, budget, lay). nat (spread (snd lay)))"
    using b by (simp add: snd_apply_swap)
qed simp

declare improve_balance.simps [simp del]

definition assignments_of :: "string list list \<Rightarrow> (string, nat) dict" where
  "assignments_of shards =
     fold (\<lambda>(i, ss). fold (\<lambda>s. dict_set s i) ss) (zip [0..<length shards] shards) []"

definition add_unassigned :: "(string, int) dict \<Rightarrow> nat \<Rightarrow> (string, nat) dict \<times> layout \<Rightarrow> string \<Rightarrow>
    py_error + ((string, nat) dict \<times> layout)" where
  "add_unassigned rates max_symbols = (\<lambda>(asg, lay) s.
     case first_min (\<lambda>i. (snd lay ! i, i)) (filter (\<lambda>i. length (fst lay ! i) < max_symbols) [0..<length (fst lay)]) of
       None \<Rightarrow> Inl (ValueError ''min() arg is an empty sequence'')
     | Some i \<Rightarrow> Inr (dict_set s i asg, place rates s i lay))"

definition sharder_shards :: "string list \<Rightarrow> sharder \<Rightarrow> py_error + (string list list \<times> sharder)" where
  "sharder_shards instruments t =
     (let shard_count = min (ts_count t) (length instruments) in
      if shard_count = 0 then Inr ([], t)
      else
        let initial_assignment = (ts_assignments t = []);
            active = remdups instruments;
            max_symbols = (length active + shard_count - 1) div shard_count + 1;
            kept = filter (\<lambda>(s, i). s \<in> set active \<and> i < shard_count) (ts_assignments t);
            lay = fold (\<lambda>(s, i). place (ts_rates t) s i) (sort kept)
              (replicate shard_count [], replicate shard_count 0);
            unassigned = sort_key (\<lambda>s. (- message_rate (ts_rates t) s, s))
              (filter (\<lambda>s. s \<notin> set (dict_keys kept)) active) in
        rbind (fold_result (add_unassigned (ts_rates t) max_symbols) (kept, lay) unassigned) (\<lambda>(asg, lay1).
        if initial_assignment then
          let lay2 = improve_balance (ts_rates t) None lay1 in
          Inr (map sort (fst lay2), t\<lparr>ts_assignments := assignments_of (fst lay2)\<rparr>)
        else Inr (map sort (fst lay1), t\<lparr>ts_assignments := asg\<rparr>)))"

definition REBALANCE_TRIGGER_RATIO :: rat where "REBALANCE_TRIGGER_RATIO = 5 / 4"

definition rebalance :: "string list \<Rightarrow> string list list \<Rightarrow> sharder \<Rightarrow> py_error + (string list list \<times> sharder)" where
  "rebalance instruments current t =
     (let shard_count = min (ts_count t) (length instruments); flattened = concat current in
      if length current \<noteq> shard_count then
        Inl (ValueError ''current shard count does not match configured shard count'')
      else if length flattened \<noteq> card (set instruments) \<or> set flattened \<noteq> set instruments then
        Inl (ValueError ''current shards must contain every active symbol exactly once'')
      else
        let loads = map (\<lambda>ss. sum_list (map (message_rate (ts_rates t)) ss)) current; total_load = sum_list loads in
        if shard_count < 2 \<or>
           of_int (Max (set loads) * int shard_count) \<le> double (double (of_int total_load) * REBALANCE_TRIGGER_RATIO) then
          Inr (map sort current, t\<lparr>ts_assignments := assignments_of current\<rparr>)
        else
          let lay = improve_balance (ts_rates t) (Some 1) (current, loads) in
          Inr (map sort (fst lay), t\<lparr>ts_assignments := assignments_of (fst lay)\<rparr>))"

section \<open>Layouts\<close>

text \<open>A layout of \<open>n\<close> shards that holds the symbols \<open>xs\<close>, with the loads of its shards.\<close>

definition layout_ok :: "(string, int) dict \<Rightarrow> nat \<Rightarrow> string multiset \<Rightarrow> layout \<Rightarrow> bool" where
  "layout_ok rates n xs = (\<lambda>(shards, loads). length shards = n \<and>
     loads = map (\<lambda>ss. sum_list (map (message_rate rates) ss)) shards \<and> mset (concat shards) = xs)"

lemma mset_concat_update:
  "i < length xss \<Longrightarrow> mset (concat (xss[i := ys])) + mset (xss ! i) = mset (concat xss) + mset ys"
proof (induction xss arbitrary: i)
  case (Cons xs xss)
  then show ?case by (cases i) (auto simp: ac_simps)
qed simp

lemma place_ok:
  assumes "layout_ok rates n xs lay" "i < n"
  shows "layout_ok rates n (add_mset s xs) (place rates s i lay)"
proof (cases lay)
  case (Pair shards loads)
  have "mset (concat (shards[i := shards ! i @ [s]])) + mset (shards ! i) = mset (concat shards) + mset (shards ! i @ [s])"
    using assms Pair by (intro mset_concat_update) (simp add: layout_ok_def)
  then show ?thesis using assms Pair by (simp add: layout_ok_def place_def map_update)
qed

lemma candidates_in:
  assumes "c \<in> set (candidates rates (shards, loads))"
  obtains l r a b where "c = swap_loads rates loads l r a b" "l < r" "r < length shards"
    "a \<in> set (shards ! l)" "b \<in> set (shards ! r)"
  using assms by (auto simp: candidates_def)

lemma sum_remove1: "a \<in> set xs \<Longrightarrow> sum_list (map f (remove1 a xs)) = sum_list (map f xs) - (f a :: int)"
  by (induction xs) auto

lemma swap_mset:
  assumes "A + mset ys = X + mset (remove1 a ys @ [b])" "a \<in> set ys"
  shows "add_mset a A = add_mset b X"
proof -
  have "add_mset a A + (mset ys - {#a#}) = A + mset ys" using assms(2) by simp
  also have "\<dots> = add_mset b X + (mset ys - {#a#})" using assms(1) by simp
  finally show ?thesis by simp
qed

lemma apply_swap_ok:
  assumes "layout_ok rates n xs lay" "c \<in> set (candidates rates lay)"
  shows "layout_ok rates n xs (apply_swap c lay)"
proof (cases lay)
  case (Pair shards loads)
  obtain l r a b where c: "c = swap_loads rates loads l r a b" "l < r" "r < length shards"
    "a \<in> set (shards ! l)" "b \<in> set (shards ! r)"
    using assms(2) Pair candidates_in by blast
  have ok: "length shards = n" "loads = map (\<lambda>ss. sum_list (map (message_rate rates) ss)) shards" "mset (concat shards) = xs"
    using assms(1) Pair by (simp_all add: layout_ok_def)
  let ?one = "shards[l := remove1 a (shards ! l) @ [b]]"
  let ?two = "?one[r := remove1 b (shards ! r) @ [a]]"
  have "mset (concat ?one) + mset (shards ! l) = xs + mset (remove1 a (shards ! l) @ [b])"
    using mset_concat_update [of l shards] c ok(3) by simp
  from swap_mset [OF this c(4)] have one: "add_mset a (mset (concat ?one)) = add_mset b xs" .
  have "mset (concat ?two) + mset (shards ! r) = mset (concat ?one) + mset (remove1 b (shards ! r) @ [a])"
    using mset_concat_update [of r ?one] c(2,3) by simp
  from swap_mset [OF this c(5)] have "mset (concat ?two) = xs" using one by simp
  moreover have "map (\<lambda>ss. sum_list (map (message_rate rates) ss))
        ?two =
      loads[l := loads ! l - message_rate rates a + message_rate rates b,
        r := loads ! r - message_rate rates b + message_rate rates a]"
    using c ok(2) by (simp add: map_update sum_remove1)
  ultimately show ?thesis
    using ok(1) by (simp add: Pair c(1) layout_ok_def apply_swap_def swap_loads_def)
qed

lemma improve_balance_ok:
  assumes "layout_ok rates n xs lay"
  shows "layout_ok rates n xs (improve_balance rates budget lay) \<and>
    spread (snd (improve_balance rates budget lay)) \<le> spread (snd lay) \<and>
    (budget = None \<longrightarrow> fst (best_swap rates (improve_balance rates budget lay)) = None)"
  using assms
proof (induction rates budget lay rule: improve_balance.induct)
  case (1 rates budget lay)
  show ?case
  proof (cases "budget = Some 0 \<or> fst (best_swap rates lay) = None")
    case True
    then have "improve_balance rates budget lay = lay" by (subst improve_balance.simps) (auto split: option.split)
    then show ?thesis using 1(2) True by auto
  next
    case False
    then obtain c where c: "fst (best_swap rates lay) = Some c" "budget \<noteq> Some 0" by blast
    note b = best_swap_spread [OF c(1)]
    have "layout_ok rates n xs (apply_swap c lay)" using apply_swap_ok 1(2) b by blast
    note IH = 1(1) [OF c(2,1) this]
    have "improve_balance rates budget lay = improve_balance rates (map_option (\<lambda>n. n - 1) budget) (apply_swap c lay)"
      using c by (subst improve_balance.simps) simp
    then show ?thesis using IH b by (cases budget) (simp_all add: snd_apply_swap)
  qed
qed

lemma placed_size:
  assumes "layout_ok rates n xs lay" "0 < n" "size xs < m" "m + n \<le> n * k"
  shows "\<exists>i < n. length (fst lay ! i) < k"
proof (rule ccontr)
  assume full: "\<not> (\<exists>i < n. length (fst lay ! i) < k)"
  obtain shards loads where lay: "lay = (shards, loads)" by (cases lay)
  have n: "length shards = n" "size xs = length (concat shards)"
    using assms(1) lay by (auto simp: layout_ok_def simp flip: size_mset)
  have "\<forall>ss \<in> set shards. k \<le> length ss" using full lay n(1) by (metis fst_conv in_set_conv_nth not_less)
  then have "length shards * k \<le> length (concat shards)" by (induction shards) auto
  then show False using assms n by simp
qed

lemma fold_place_ok:
  assumes "layout_ok rates n xs lay" "\<forall>(s, i) \<in> set kept. i < n"
  shows "layout_ok rates n (xs + mset (map fst kept)) (fold (\<lambda>(s, i). place rates s i) kept lay)"
  using assms
proof (induction kept arbitrary: xs lay)
  case (Cons si kept)
  obtain s i where si: "si = (s, i)" by (cases si)
  have "layout_ok rates n (add_mset s xs) (place rates s i lay)" using Cons.prems si by (intro place_ok) auto
  from Cons.IH [OF this] show ?case using Cons.prems si by simp
qed simp

text \<open>Placing only appends: what is in a shard stays there.\<close>

lemma place_keeps: "x \<in> set (fst lay ! k) \<Longrightarrow> k < length (fst lay) \<Longrightarrow> x \<in> set (fst (place rates s i lay) ! k)"
  by (cases lay) (cases "i = k"; simp add: place_def)

lemma fold_place_keeps:
  "x \<in> set (fst lay ! k) \<Longrightarrow> k < length (fst lay) \<Longrightarrow> x \<in> set (fst (fold (\<lambda>(s, i). place rates s i) kept lay) ! k) \<and>
     length (fst (fold (\<lambda>(s, i). place rates s i) kept lay)) = length (fst lay)"
proof (induction kept arbitrary: lay)
  case (Cons si kept)
  obtain s i where si: "si = (s, i)" by (cases si)
  have "length (fst (place rates s i lay)) = length (fst lay)" by (cases lay) (simp add: place_def)
  then show ?case using Cons.IH [of "place rates s i lay"] Cons.prems place_keeps si by simp
qed simp

lemma fold_place_in:
  "(s, i) \<in> set kept \<Longrightarrow> \<forall>(s, i) \<in> set kept. i < length (fst lay) \<Longrightarrow>
     s \<in> set (fst (fold (\<lambda>(s, i). place rates s i) kept lay) ! i)"
proof (induction kept arbitrary: lay)
  case (Cons tj kept)
  obtain t j where tj: "tj = (t, j)" by (cases tj)
  have len: "length (fst (place rates t j lay)) = length (fst lay)" by (cases lay) (simp add: place_def)
  show ?case
  proof (cases "(s, i) = (t, j)")
    case True
    then have "s \<in> set (fst (place rates t j lay) ! i)"
      using Cons.prems(2) tj by (cases lay) (simp add: place_def)
    then show ?thesis using fold_place_keeps [of s "place rates t j lay" i rates kept] Cons.prems(2) tj len True by simp
  next
    case False
    then show ?thesis using Cons.IH [of "place rates t j lay"] Cons.prems tj len by auto
  qed
qed simp

section \<open>New symbols\<close>

text \<open>The assignments name, for each placed symbol, the shard that holds it.\<close>

definition tracks :: "(string, nat) dict \<Rightarrow> string list list \<Rightarrow> bool" where
  "tracks asg xss \<longleftrightarrow> dict_ok asg \<and> (\<forall>i < length xss. \<forall>s \<in> set (xss ! i). dict_get asg s = Some i)"

lemma tracks_place:
  assumes "tracks asg (fst lay)" "s \<notin> set (concat (fst lay))" "i < length (fst lay)"
  shows "tracks (dict_set s i asg) (fst (place rates s i lay))"
proof (cases lay)
  case (Pair xss loads)
  have "dict_get (dict_set s i asg) u = Some j" if j: "j < length xss" "u \<in> set (xss[i := xss ! i @ [s]] ! j)" for j u
  proof (cases "u = s")
    case True
    then have "j = i" using j assms(2) Pair by (cases "j = i") auto
    then show ?thesis using True by simp
  next
    case False
    then have "u \<in> set (xss ! j)" using j by (cases "j = i") auto
    then show ?thesis using False j(1) assms(1) Pair by (simp add: tracks_def)
  qed
  then show ?thesis using assms(1) Pair by (simp add: tracks_def place_def)
qed

lemma layout_length: "layout_ok rates n xs lay \<Longrightarrow> length (fst lay) = n \<and> length (snd lay) = n"
  by (auto simp: layout_ok_def split: prod.splits)

lemma layout_set: "layout_ok rates n (mset xs) lay \<Longrightarrow> set (concat (fst lay)) = set xs"
  by (cases lay) (auto simp: layout_ok_def simp flip: set_concat dest: mset_eq_setD)

lemma add_unassigned_step:
  assumes "layout_ok rates n (mset xs) lay" "0 < n" "length xs < m" "m + n \<le> n * k"
  obtains i where "i < n" "add_unassigned rates k (asg, lay) s = Inr (dict_set s i asg, place rates s i lay)"
proof -
  let ?free = "filter (\<lambda>i. length (fst lay ! i) < k) [0..<length (fst lay)]"
  obtain j where j: "j < n" "length (fst lay ! j) < k" using placed_size assms by (metis size_mset)
  then have "j \<in> set ?free" using layout_length [OF assms(1)] by simp
  then have "?free \<noteq> []" by (cases ?free) simp_all
  then obtain i where i: "first_min (\<lambda>i. (snd lay ! i, i)) ?free = Some i"
    by (cases "first_min (\<lambda>i. (snd lay ! i, i)) ?free") simp_all
  then have "i \<in> set ?free" using first_min_Some by fast
  then have "i < n" using layout_length [OF assms(1)] by simp
  then show ?thesis using i that by (simp add: add_unassigned_def)
qed

lemma add_unassigned_all:
  assumes "layout_ok rates n (mset xs) lay" "tracks asg (fst lay)" "distinct (xs @ us)" "0 < n"
    "length xs + length us \<le> m" "m + n \<le> n * k"
  shows "\<exists>asg' lay'. fold_result (add_unassigned rates k) (asg, lay) us = Inr (asg', lay') \<and>
    layout_ok rates n (mset (xs @ us)) lay' \<and> tracks asg' (fst lay') \<and>
    (\<forall>i < n. set (fst lay ! i) \<subseteq> set (fst lay' ! i))"
  using assms
proof (induction us arbitrary: xs asg lay)
  case Nil
  then show ?case by auto
next
  case (Cons s us)
  obtain i where i: "i < n" "add_unassigned rates k (asg, lay) s = Inr (dict_set s i asg, place rates s i lay)"
    using add_unassigned_step [of rates n xs lay m k asg s] Cons.prems(1,4-6) by auto
  have ok: "layout_ok rates n (mset (xs @ [s])) (place rates s i lay)"
    using place_ok [OF Cons.prems(1) i(1)] by simp
  have len: "length (fst lay) = n" using layout_length Cons.prems(1) by blast
  have "tracks (dict_set s i asg) (fst (place rates s i lay))"
    using Cons.prems(3) layout_set [OF Cons.prems(1)] len i(1)
    by (intro tracks_place Cons.prems(2)) auto
  from Cons.IH [OF ok this] obtain asg' lay' where
    "fold_result (add_unassigned rates k) (dict_set s i asg, place rates s i lay) us = Inr (asg', lay')"
    "layout_ok rates n (mset (xs @ s # us)) lay'" "tracks asg' (fst lay')"
    "\<forall>j < n. set (fst (place rates s i lay) ! j) \<subseteq> set (fst lay' ! j)"
    using Cons.prems(3-6) by auto
  moreover have "\<forall>j < n. set (fst lay ! j) \<subseteq> set (fst (place rates s i lay) ! j)"
    using place_keeps len by blast
  ultimately show ?case using i(2) by fastforce
qed

text \<open>The first loop places the kept assignments.\<close>

lemma fold_place_tracks:
  assumes "layout_ok rates n (mset xs) lay" "\<forall>(s, i) \<in> set kept. i < n \<and> dict_get asg s = Some i"
    "tracks asg (fst lay)"
  shows "tracks asg (fst (fold (\<lambda>(s, i). place rates s i) kept lay))"
  using assms
proof (induction kept arbitrary: xs lay)
  case (Cons si kept)
  obtain s i where si: "si = (s, i)" by (cases si)
  obtain xss loads where lay: "lay = (xss, loads)" by (cases lay)
  have "length xss = n" using Cons.prems(1) layout_length lay by fastforce
  then have "tracks asg (fst (place rates s i lay))"
    using Cons.prems(2,3) si lay by (auto simp: tracks_def place_def nth_list_update)
  moreover have "layout_ok rates n (mset (s # xs)) (place rates s i lay)"
    using place_ok [OF Cons.prems(1), of i s] Cons.prems(2) si by simp
  ultimately show ?case using Cons.IH [of "s # xs" "place rates s i lay"] Cons.prems(2) si by simp
qed simp

lemma empty_layout: "layout_ok rates n (mset []) (replicate n [], replicate n 0)"
  by (simp add: layout_ok_def)

text \<open>\<open>enumerate(shards)\<close>: the comprehension that rebuilds the assignments.\<close>

lemma dict_get_set_all: "dict_get (fold (\<lambda>s. dict_set s i) ss d) k = (if k \<in> set ss then Some i else dict_get d k)"
  by (induction ss arbitrary: d) auto

lemma dict_ok_set_all: "dict_ok d \<Longrightarrow> dict_ok (fold (\<lambda>s. dict_set s i) ss d)"
  by (induction ss arbitrary: d) auto

lemma upt_Suc_Cons: "[m..<m + Suc n] = m # [Suc m..<Suc m + n]"
  by (simp add: upt_conv_Cons)

lemma enumerate_other:
  "s \<notin> set (concat xss) \<Longrightarrow>
     dict_get (fold (\<lambda>(i, ss). fold (\<lambda>s. dict_set s i) ss) (zip [m..<m + length xss] xss) d) s = dict_get d s"
proof (induction xss arbitrary: m d)
  case (Cons xs xss)
  show ?case
    unfolding length_Cons upt_Suc_Cons zip_Cons_Cons fold_simps case_prod_conv
    using Cons.IH [of "Suc m"] Cons.prems by (simp add: dict_get_set_all del: upt_Suc)
qed simp

lemma enumerate_get:
  "distinct (concat xss) \<Longrightarrow> i < length xss \<Longrightarrow> s \<in> set (xss ! i) \<Longrightarrow>
     dict_get (fold (\<lambda>(i, ss). fold (\<lambda>s. dict_set s i) ss) (zip [m..<m + length xss] xss) d) s = Some (m + i)"
proof (induction xss arbitrary: m d i)
  case (Cons xs xss)
  show ?case
  proof (cases i)
    case 0
    then have "s \<notin> set (concat xss)" "s \<in> set xs" using Cons.prems by auto
    then show ?thesis
      unfolding length_Cons upt_Suc_Cons zip_Cons_Cons fold_simps case_prod_conv
      using enumerate_other [of s xss "Suc m"] 0 by (simp add: dict_get_set_all del: upt_Suc)
  next
    case (Suc j)
    then show ?thesis
      unfolding length_Cons upt_Suc_Cons zip_Cons_Cons fold_simps case_prod_conv
      using Cons.IH [of j "Suc m"] Cons.prems by (simp del: upt_Suc)
  qed
qed simp

lemma enumerate_ok: "dict_ok d \<Longrightarrow> dict_ok (fold (\<lambda>(i, ss). fold (\<lambda>s. dict_set s i) ss) ps d)"
proof (induction ps arbitrary: d)
  case (Cons p ps)
  show ?case
    by (cases p) (simp only: fold_simps case_prod_conv Cons.IH dict_ok_set_all Cons.prems)
qed simp

lemma assignments_of_tracks: "distinct (concat xss) \<Longrightarrow> tracks (assignments_of xss) xss"
  unfolding tracks_def assignments_of_def
  using enumerate_get [of xss _ _ 0 "[]"] enumerate_ok [OF dict_ok_Nil] by simp

section \<open>What the sharder computes\<close>

lemma layout_mset: "layout_ok rates n xs lay \<Longrightarrow> mset (concat (fst lay)) = xs"
  by (cases lay) (simp add: layout_ok_def)

lemma layout_distinct: "layout_ok rates n (mset xs) lay \<Longrightarrow> distinct xs \<Longrightarrow> distinct (concat (fst lay))"
  using mset_eq_imp_distinct_iff [OF layout_mset] by blast

lemma shard_capacity: "0 < n \<Longrightarrow> m + n \<le> n * ((m + n - 1) div n + (1 :: nat))"
proof -
  assume n: "0 < n"
  have "m + n - 1 < n + n * ((m + n - 1) div n)" using dividend_less_times_div [OF n] .
  then show ?thesis unfolding distrib_left using n by linarith
qed

lemma sharder_layout:
  assumes "dict_ok (ts_assignments t)" "0 < ts_count t" "instruments \<noteq> []"
  obtains lay asg where
    "sharder_shards instruments t = Inr (map sort (fst lay), t\<lparr>ts_assignments := asg\<rparr>)"
    "layout_ok (ts_rates t) (min (ts_count t) (length instruments)) (mset (remdups instruments)) lay"
    "tracks asg (fst lay)"
    "\<forall>(s, i) \<in> set (ts_assignments t). s \<in> set instruments \<and> i < length (fst lay) \<longrightarrow> s \<in> set (fst lay ! i)"
    "ts_assignments t = [] \<longrightarrow> fst (best_swap (ts_rates t) lay) = None"
proof -
  define n where "n = min (ts_count t) (length instruments)"
  define active where "active = remdups instruments"
  define k where "k = (length active + n - 1) div n + 1"
  define kept where "kept = filter (\<lambda>(s, i). s \<in> set active \<and> i < n) (ts_assignments t)"
  define lay where "lay = fold (\<lambda>(s, i). place (ts_rates t) s i) (sort kept) (replicate n [], replicate n 0)"
  define us where "us = sort_key (\<lambda>s. (- message_rate (ts_rates t) s, s)) (filter (\<lambda>s. s \<notin> set (dict_keys kept)) active)"
  have n: "0 < n" using assms(2,3) by (simp add: n_def)
  have dk: "dict_ok kept" using assms(1) unfolding kept_def dict_ok_def by (rule distinct_map_filter)
  have kept: "\<forall>(s, i) \<in> set (sort kept). i < n \<and> dict_get kept s = Some i"
    using dk by (auto simp: dict_get_Some_iff) (simp add: kept_def)
  have "layout_ok (ts_rates t) n (mset [] + mset (map fst (sort kept))) lay"
    unfolding lay_def using empty_layout kept by (intro fold_place_ok) auto
  then have ok: "layout_ok (ts_rates t) n (mset (map fst (sort kept))) lay" by simp
  have tr: "tracks kept (fst lay)"
    unfolding lay_def using dk by (intro fold_place_tracks [OF empty_layout kept]) (simp add: tracks_def)
  have "set us = set active - fst ` set kept" by (auto simp: us_def dict_keys_def)
  moreover have "distinct us" by (simp add: us_def active_def)
  moreover have "distinct (map fst (sort kept))"
    using dk by (simp add: dict_ok_def distinct_map)
  ultimately have d: "distinct (map fst (sort kept) @ us)" by auto
  have "fst ` set kept \<subseteq> set active" by (auto simp: kept_def)
  then have s: "set (map fst (sort kept) @ us) = set active" using \<open>set us = _\<close> by auto
  have m: "mset (map fst (sort kept) @ us) = mset (remdups instruments)"
    using d s set_eq_iff_mset_eq_distinct [of "map fst (sort kept) @ us" active] by (simp add: active_def)
  then have len: "length (map fst (sort kept)) + length us \<le> length active"
    unfolding active_def by (metis length_append order_refl size_mset)
  obtain asg' lay' where un: "fold_result (add_unassigned (ts_rates t) k) (kept, lay) us = Inr (asg', lay')"
    "layout_ok (ts_rates t) n (mset (remdups instruments)) lay'" "tracks asg' (fst lay')"
    "\<forall>i < n. set (fst lay ! i) \<subseteq> set (fst lay' ! i)"
    using add_unassigned_all [OF ok tr d n len shard_capacity [OF n, of "length active"]]
    unfolding k_def [symmetric] m by blast
  have eq: "sharder_shards instruments t =
      (if ts_assignments t = [] then
         Inr (map sort (fst (improve_balance (ts_rates t) None lay')),
           t\<lparr>ts_assignments := assignments_of (fst (improve_balance (ts_rates t) None lay'))\<rparr>)
       else Inr (map sort (fst lay'), t\<lparr>ts_assignments := asg'\<rparr>))"
    unfolding sharder_shards_def Let_def n_def [symmetric] active_def [symmetric] k_def [symmetric]
      kept_def [symmetric] lay_def [symmetric] us_def [symmetric]
    using n un(1) by simp
  show ?thesis
  proof (cases "ts_assignments t = []")
    case True
    note imp = improve_balance_ok [OF un(2), of None]
    have "tracks (assignments_of (fst (improve_balance (ts_rates t) None lay'))) (fst (improve_balance (ts_rates t) None lay'))"
      by (intro assignments_of_tracks layout_distinct [OF conjunct1 [OF imp]] distinct_remdups)
    then show ?thesis using that [of "improve_balance (ts_rates t) None lay'"] eq imp True by (simp add: n_def)
  next
    case False
    have "s \<in> set (fst lay' ! i)" if si: "(s, i) \<in> set (ts_assignments t)" "s \<in> set instruments" "i < n" for s i
    proof -
      have "(s, i) \<in> set (sort kept)" using si by (simp add: kept_def active_def)
      then have "s \<in> set (fst lay ! i)" unfolding lay_def using kept by (intro fold_place_in) auto
      then show ?thesis using un(4) si by auto
    qed
    then show ?thesis
      using that [of lay' asg'] eq un False layout_length [OF un(2)] by (auto simp: n_def)
  qed
qed

lemma mset_concat_sorted: "mset (concat (map sort xss)) = mset (concat xss)"
  by (induction xss) simp_all

lemma sum_sorted: "sum_list (map f (sort xs)) = (sum_list (map f xs) :: int)"
  by (metis mset_map mset_sort sum_mset_sum_list)

lemma loads_sorted: "map (\<lambda>ss. sum_list (map f ss)) (map sort xss) = map (\<lambda>ss. sum_list (map f ss) :: int) xss"
  by (simp add: sum_sorted)

lemma layout_loads: "layout_ok rates n xs lay \<Longrightarrow> snd lay = map (\<lambda>ss. sum_list (map (message_rate rates) ss)) (fst lay)"
  by (cases lay) (simp add: layout_ok_def)

lemma candidates_intro:
  assumes "l < r" "r < length (fst lay)" "a \<in> set (fst lay ! l)" "b \<in> set (fst lay ! r)"
  shows "swap_loads rates (snd lay) l r a b \<in> set (candidates rates lay)"
proof (cases lay)
  case (Pair xss loads)
  have "l \<in> {0..<length xss}" "r \<in> {Suc l..<length xss}" using assms Pair by auto
  then show ?thesis using assms(3,4) unfolding Pair candidates_def by force
qed

section \<open>Properties\<close>

text \<open>C15. \<open>shards\<close> never fails (some shard always has room below \<open>max_symbols\<close>) and returns a sorted partition of the
  active symbols into \<open>min(count, len(instruments))\<close> shards. A symbol that already had a shard which still exists stays
  in it, and the assignments it leaves name the shard of every symbol, so the next call keeps the routes again.\<close>

theorem shards_partition:
  assumes "dict_ok (ts_assignments t)" "0 < ts_count t"
  shows "\<exists>res t'. sharder_shards instruments t = Inr (res, t') \<and>
    length res = min (ts_count t) (length instruments) \<and>
    mset (concat res) = mset (remdups instruments) \<and> (\<forall>ss \<in> set res. sorted ss) \<and>
    (\<forall>(s, i) \<in> set (ts_assignments t). s \<in> set instruments \<and> i < length res \<longrightarrow> s \<in> set (res ! i)) \<and>
    (\<forall>i < length res. \<forall>s \<in> set (res ! i). dict_get (ts_assignments t') s = Some i)"
proof (cases "instruments = []")
  case True
  then show ?thesis by (simp add: sharder_shards_def)
next
  case False
  obtain lay asg where lay: "sharder_shards instruments t = Inr (map sort (fst lay), t\<lparr>ts_assignments := asg\<rparr>)"
    "layout_ok (ts_rates t) (min (ts_count t) (length instruments)) (mset (remdups instruments)) lay"
    "tracks asg (fst lay)"
    "\<forall>(s, i) \<in> set (ts_assignments t). s \<in> set instruments \<and> i < length (fst lay) \<longrightarrow> s \<in> set (fst lay ! i)"
    "ts_assignments t = [] \<longrightarrow> fst (best_swap (ts_rates t) lay) = None"
    by (rule sharder_layout [OF assms False])
  show ?thesis
  proof (intro exI conjI)
    show "mset (concat (map sort (fst lay))) = mset (remdups instruments)"
      unfolding mset_concat_sorted by (rule layout_mset [OF lay(2)])
  qed (use lay layout_length [OF lay(2)] in \<open>auto simp: tracks_def\<close>)
qed

theorem shards_partition_witness:
  "\<exists>res t'. sharder_shards [''b'', ''a'', ''c'', ''b''] \<lparr>ts_count = 2, ts_rates = [(''a'', 5)], ts_assignments = [(''c'', 1)]\<rparr> =
      Inr (res, t') \<and> length res = 2 \<and> ''c'' \<in> set (res ! 1)"
  using shards_partition [of "\<lparr>ts_count = 2, ts_rates = [(''a'', 5)], ts_assignments = [(''c'', 1)]\<rparr>"
      "[''b'', ''a'', ''c'', ''b'']"]
  by (auto simp: dict_ok_def)

text \<open>The balancing loop of a first assignment ends, and where it ends no exchange of two symbols between two
  shards would make the spread of the loads smaller.\<close>

lemma initial_balance_is_local_optimum:
  assumes "ts_assignments t = []" "0 < ts_count t" "instruments \<noteq> []"
  shows "\<exists>res t'. sharder_shards instruments t = Inr (res, t') \<and>
    (\<forall>l r a b. l < r \<and> r < length res \<and> a \<in> set (res ! l) \<and> b \<in> set (res ! r) \<longrightarrow>
      (let loads = map (\<lambda>ss. sum_list (map (message_rate (ts_rates t)) ss)) res;
           move = message_rate (ts_rates t) a - message_rate (ts_rates t) b in
       spread loads \<le> spread (loads[l := loads ! l - move, r := loads ! r + move])))"
proof -
  have ok: "dict_ok (ts_assignments t)" using assms(1) by simp
  obtain lay asg where lay: "sharder_shards instruments t = Inr (map sort (fst lay), t\<lparr>ts_assignments := asg\<rparr>)"
    "layout_ok (ts_rates t) (min (ts_count t) (length instruments)) (mset (remdups instruments)) lay"
    "tracks asg (fst lay)"
    "\<forall>(s, i) \<in> set (ts_assignments t). s \<in> set instruments \<and> i < length (fst lay) \<longrightarrow> s \<in> set (fst lay ! i)"
    "ts_assignments t = [] \<longrightarrow> fst (best_swap (ts_rates t) lay) = None"
    by (rule sharder_layout [OF ok assms(2,3)])
  then have opt: "fst (best_swap (ts_rates t) lay) = None" using assms(1) by blast
  let ?loads = "map (\<lambda>ss. sum_list (map (message_rate (ts_rates t)) ss)) (map sort (fst lay))"
  have loads: "?loads = snd lay" unfolding loads_sorted layout_loads [OF lay(2)] ..
  have "spread (snd lay) \<le> spread ((snd lay)[l := snd lay ! l - (message_rate (ts_rates t) a - message_rate (ts_rates t) b),
      r := snd lay ! r + (message_rate (ts_rates t) a - message_rate (ts_rates t) b)])"
    if "l < r" "r < length (fst lay)" "a \<in> set (fst lay ! l)" "b \<in> set (fst lay ! r)" for l r a b
  proof -
    have "swap_loads (ts_rates t) (snd lay) l r a b \<in> set (candidates (ts_rates t) lay)"
      by (rule candidates_intro [OF that])
    from best_swap_None [OF opt this] show ?thesis by (simp add: loads_after_def swap_loads_def algebra_simps)
  qed
  then show ?thesis using lay(1) unfolding Let_def
    by (intro exI [of _ "map sort (fst lay)"] exI [of _ "t\<lparr>ts_assignments := asg\<rparr>"])
      (auto simp: loads [simplified])
qed

lemma initial_balance_is_local_optimum_witness:
  "\<exists>res t'. sharder_shards [''a'', ''b''] \<lparr>ts_count = 2, ts_rates = [], ts_assignments = []\<rparr> = Inr (res, t')"
  using initial_balance_is_local_optimum [of "\<lparr>ts_count = 2, ts_rates = [], ts_assignments = []\<rparr>" "[''a'', ''b'']"]
  by auto

lemma rebalance_layout:
  assumes "length current = min (ts_count t) (length instruments)" "distinct (concat current)"
    "set (concat current) = set instruments"
  obtains lay lay' where "layout_ok (ts_rates t) (length current) (mset (remdups instruments)) lay"
    "fst lay = current" "layout_ok (ts_rates t) (length current) (mset (remdups instruments)) lay'"
    "rebalance instruments current t = Inr (map sort (fst lay'), t\<lparr>ts_assignments := assignments_of (fst lay')\<rparr>)"
    "lay' = lay \<or> (\<exists>c \<in> set (candidates (ts_rates t) lay). lay' = apply_swap c lay \<and>
       spread (snd lay') < spread (snd lay))"
proof -
  define lay where "lay = (current, map (\<lambda>ss. sum_list (map (message_rate (ts_rates t)) ss)) current)"
  define lay' where "lay' = improve_balance (ts_rates t) (Some 1) lay"
  have m: "mset (concat current) = mset (remdups instruments)"
    using assms(2,3) set_eq_iff_mset_eq_distinct [of "concat current" "remdups instruments"] by simp
  then have ok: "layout_ok (ts_rates t) (length current) (mset (remdups instruments)) lay"
    unfolding lay_def layout_ok_def by simp
  have "length (concat current) = card (set instruments)"
    using distinct_card [OF assms(2)] assms(3) by simp
  then have "\<not> (length (concat current) \<noteq> card (set instruments) \<or> set (concat current) \<noteq> set instruments)"
    using assms(3) by simp
  then have eq: "rebalance instruments current t = Inr (map sort (fst lay), t\<lparr>ts_assignments := assignments_of (fst lay)\<rparr>) \<or>
      rebalance instruments current t = Inr (map sort (fst lay'), t\<lparr>ts_assignments := assignments_of (fst lay')\<rparr>)"
    unfolding rebalance_def Let_def lay'_def lay_def using assms(1) by (simp del: set_concat length_concat)
  have once: "lay' = (case fst (best_swap (ts_rates t) lay) of None \<Rightarrow> lay | Some c \<Rightarrow> apply_swap c lay)"
    unfolding lay'_def by (simp add: improve_balance.simps split: option.split)
  have ok': "layout_ok (ts_rates t) (length current) (mset (remdups instruments)) lay'"
    unfolding lay'_def using improve_balance_ok [OF ok] by blast
  have step: "lay' = lay \<or> (\<exists>c \<in> set (candidates (ts_rates t) lay). lay' = apply_swap c lay \<and>
      spread (snd lay') < spread (snd lay))"
  proof (cases "fst (best_swap (ts_rates t) lay)")
    case (Some c)
    then show ?thesis using best_swap_spread [OF Some] once by (auto simp: snd_apply_swap)
  qed (use once in simp)
  show ?thesis
    using eq
  proof
    assume "rebalance instruments current t = Inr (map sort (fst lay), t\<lparr>ts_assignments := assignments_of (fst lay)\<rparr>)"
    then show ?thesis using that [of lay lay] ok by (simp add: lay_def)
  next
    assume "rebalance instruments current t = Inr (map sort (fst lay'), t\<lparr>ts_assignments := assignments_of (fst lay')\<rparr>)"
    then show ?thesis using that [of lay lay'] ok ok' step by (simp add: lay_def)
  qed
qed

text \<open>C16. \<open>rebalance\<close> on a valid assignment never fails, still assigns every active symbol once, moves at most the two
  symbols of one exchange, and never makes the spread of the loads larger; an exchange makes it strictly smaller.\<close>

theorem rebalance_at_most_one_swap:
  assumes "length current = min (ts_count t) (length instruments)" "distinct (concat current)"
    "set (concat current) = set instruments"
  shows "\<exists>res t'. rebalance instruments current t = Inr (res, t') \<and>
    mset (concat res) = mset (remdups instruments) \<and> (\<forall>ss \<in> set res. sorted ss) \<and>
    (\<forall>i < length res. \<forall>s \<in> set (res ! i). dict_get (ts_assignments t') s = Some i) \<and>
    (map mset res = map mset current \<or>
     (\<exists>l r a b. l < r \<and> r < length current \<and> a \<in> set (current ! l) \<and> b \<in> set (current ! r) \<and>
        map mset res = (map mset current)[l := mset (current ! l) - {#a#} + {#b#}, r := mset (current ! r) - {#b#} + {#a#}] \<and>
        spread (map (\<lambda>ss. sum_list (map (message_rate (ts_rates t)) ss)) res) <
        spread (map (\<lambda>ss. sum_list (map (message_rate (ts_rates t)) ss)) current)))"
proof -
  obtain lay lay' where lay: "layout_ok (ts_rates t) (length current) (mset (remdups instruments)) lay"
    "fst lay = current" "layout_ok (ts_rates t) (length current) (mset (remdups instruments)) lay'"
    "rebalance instruments current t = Inr (map sort (fst lay'), t\<lparr>ts_assignments := assignments_of (fst lay')\<rparr>)"
    "lay' = lay \<or> (\<exists>c \<in> set (candidates (ts_rates t) lay). lay' = apply_swap c lay \<and>
       spread (snd lay') < spread (snd lay))"
    by (rule rebalance_layout [OF assms])
  have tr: "tracks (assignments_of (fst lay')) (fst lay')"
    by (intro assignments_of_tracks layout_distinct [OF lay(3)] distinct_remdups)
  have msets: "map mset (map sort xss) = map mset xss" for xss :: "string list list" by simp
  have moved: "map mset (fst lay') = map mset current \<or>
     (\<exists>l r a b. l < r \<and> r < length current \<and> a \<in> set (current ! l) \<and> b \<in> set (current ! r) \<and>
        map mset (fst lay') = (map mset current)[l := mset (current ! l) - {#a#} + {#b#}, r := mset (current ! r) - {#b#} + {#a#}] \<and>
        spread (snd lay') < spread (snd lay))"
    using lay(5)
  proof
    assume "\<exists>c \<in> set (candidates (ts_rates t) lay). lay' = apply_swap c lay \<and> spread (snd lay') < spread (snd lay)"
    then obtain c where c: "c \<in> set (candidates (ts_rates t) lay)" "lay' = apply_swap c lay" "spread (snd lay') < spread (snd lay)"
      by blast
    have "c \<in> set (candidates (ts_rates t) (current, snd lay))" using c(1) lay(2) by (cases lay) simp
    then obtain l r a b where s: "c = swap_loads (ts_rates t) (snd lay) l r a b" "l < r" "r < length current"
      "a \<in> set (current ! l)" "b \<in> set (current ! r)"
      by (rule candidates_in)
    have "fst lay' = current[l := remove1 a (current ! l) @ [b], r := remove1 b (current ! r) @ [a]]"
      unfolding c(2) s(1) apply_swap_def swap_loads_def using lay(2) by (auto split: prod.split)
    then have "map mset (fst lay') = (map mset current)[l := mset (current ! l) - {#a#} + {#b#}, r := mset (current ! r) - {#b#} + {#a#}]"
      by (simp add: map_update)
    then show ?thesis using s(2-5) c(3) by blast
  qed (use lay(2) in simp)
  have mc: "mset (concat (map sort (fst lay'))) = mset (remdups instruments)"
    unfolding mset_concat_sorted by (rule layout_mset [OF lay(3)])
  have sorted: "\<forall>ss \<in> set (map sort (fst lay')). sorted ss" by simp
  have named: "\<forall>i < length (map sort (fst lay')). \<forall>s \<in> set (map sort (fst lay') ! i).
      dict_get (ts_assignments (t\<lparr>ts_assignments := assignments_of (fst lay')\<rparr>)) s = Some i"
    using tr by (simp add: tracks_def)
  show ?thesis
    using lay(4) mc sorted named moved
    by (intro exI [of _ "map sort (fst lay')"] exI [of _ "t\<lparr>ts_assignments := assignments_of (fst lay')\<rparr>"] conjI)
      (simp_all only: msets loads_sorted layout_loads [OF lay(1)] layout_loads [OF lay(3)] lay(2))
qed

theorem rebalance_at_most_one_swap_witness:
  "\<exists>res t'. rebalance [''a'', ''b'', ''c'', ''d''] [[''a'', ''b''], [''c'', ''d'']]
     \<lparr>ts_count = 2, ts_rates = [(''a'', 9), (''b'', 9), (''c'', 1), (''d'', 1)], ts_assignments = []\<rparr> = Inr (res, t')"
  using rebalance_at_most_one_swap [of "[[''a'', ''b''], [''c'', ''d'']]"
      "\<lparr>ts_count = 2, ts_rates = [(''a'', 9), (''b'', 9), (''c'', 1), (''d'', 1)], ts_assignments = []\<rparr>"
      "[''a'', ''b'', ''c'', ''d'']"]
  by auto

end
