(* ===== verification/Sources.thy ===== *)
theory Sources
  imports Sharding
begin

text \<open>
  The source manager, \<open>src/miry/collector/sources.py\<close>: how the instruments of the running sources change. A
  change first adds to every route what it will have, and removes only when all additions are ready. The updates of
  one batch run concurrently: they complete in any order, which is an input with their outcomes, and the routes after
  every completion are part of the result.
\<close>

section \<open>Adding before removing\<close>

datatype source_name = Public nat | Market | Pollers

type_synonym source_routes = "(source_name, string list) dict"

text \<open>An update that fails or is cancelled may or may not have taken effect.\<close>

datatype update_outcome = Updated | Update_Raised bool | Update_Cancelled bool

datatype source_error = Source_Update_Error string | Source_Cancelled | Source_Runtime_Error string | Source_Sharding py_error

fun outcome_applies :: "update_outcome \<Rightarrow> bool" where
  "outcome_applies Updated \<longleftrightarrow> True"
| "outcome_applies (Update_Raised b) \<longleftrightarrow> b"
| "outcome_applies (Update_Cancelled b) \<longleftrightarrow> b"

fun outcome_failed :: "update_outcome \<Rightarrow> bool" where
  "outcome_failed Updated \<longleftrightarrow> False"
| "outcome_failed _ \<longleftrightarrow> True"

fun outcome_cancelled :: "update_outcome \<Rightarrow> bool" where
  "outcome_cancelled (Update_Cancelled _) \<longleftrightarrow> True"
| "outcome_cancelled _ \<longleftrightarrow> False"

type_synonym completions = "(source_name \<times> update_outcome) list"

text \<open>The routes before a batch and after each completion.\<close>

fun batch_states :: "(source_name \<times> string list) list \<Rightarrow> completions \<Rightarrow> source_routes \<Rightarrow> source_routes list" where
  "batch_states updates [] routes = [routes]"
| "batch_states updates ((n, outcome) # rest) routes =
     routes # batch_states updates rest
       (case map_of updates n of
          Some symbols \<Rightarrow> if outcome_applies outcome then dict_set n symbols routes else routes
        | None \<Rightarrow> routes)"

definition expanded_plans :: "(source_name \<times> string list \<times> string list) list \<Rightarrow> (source_name \<times> string list \<times> string list \<times> string list) list" where
  "expanded_plans plans =
     map (\<lambda>(n, current, target). (n, current, sort (remdups (current @ target)), target)) (filter (\<lambda>(_, current, target). current \<noteq> target) plans)"

definition plan_additions :: "(source_name \<times> string list \<times> string list) list \<Rightarrow> (source_name \<times> string list) list" where
  "plan_additions plans = map (\<lambda>(n, _, symbols, _). (n, symbols)) (filter (\<lambda>(_, current, symbols, _). symbols \<noteq> current) (expanded_plans plans))"

definition plan_rollbacks :: "(source_name \<times> string list \<times> string list) list \<Rightarrow> (source_name \<times> string list) list" where
  "plan_rollbacks plans = map (\<lambda>(n, current, _, _). (n, current)) (filter (\<lambda>(_, current, symbols, _). symbols \<noteq> current) (expanded_plans plans))"

definition plan_removals :: "(source_name \<times> string list \<times> string list) list \<Rightarrow> (source_name \<times> string list) list" where
  "plan_removals plans = map (\<lambda>(n, _, _, target). (n, target)) (filter (\<lambda>(_, _, symbols, target). target \<noteq> symbols) (expanded_plans plans))"

definition add_ready_remove :: "(source_name \<times> string list \<times> string list) list \<Rightarrow> completions \<Rightarrow> completions \<Rightarrow> completions \<Rightarrow> source_routes \<Rightarrow>
    (source_error + bool) \<times> source_routes list" where
  "add_ready_remove plans adds rollbacks removals routes =
     (if expanded_plans plans = [] then (Inr False, [routes])
      else
        let added = batch_states (plan_additions plans) adds routes in
        if list_ex (\<lambda>(_, outcome). outcome_failed outcome) adds then
          (if list_ex (\<lambda>(_, outcome). outcome_cancelled outcome) adds then Inl Source_Cancelled
           else Inl (Source_Update_Error ''source expansion failed before old subscriptions were removed''),
           added @ batch_states (plan_rollbacks plans) rollbacks (last added))
        else
          (if list_ex (\<lambda>(_, outcome). outcome_cancelled outcome) removals then Inl Source_Cancelled
           else if list_ex (\<lambda>(_, outcome). outcome_failed outcome) removals then
             Inl (Source_Update_Error ''source removal incomplete; expanded coverage remains active'')
           else Inr True,
           added @ batch_states (plan_removals plans) removals (last added)))"

section \<open>The manager\<close>

record sources =
  so_count :: nat
  so_rates :: "(string, int) dict"
  so_running :: bool
  so_stopping :: bool
  so_complete_evidence :: bool
  so_effective_rates :: "(string, int) dict"
  so_sharder :: sharder
  so_instruments :: "string list"
  so_routes :: source_routes

definition route_symbols :: "source_name \<Rightarrow> sources \<Rightarrow> string list" where
  "route_symbols n s = (case dict_get (so_routes s) n of Some symbols \<Rightarrow> symbols | None \<Rightarrow> [])"

definition public_route_plans :: "string list list \<Rightarrow> sources \<Rightarrow> (source_name \<times> string list \<times> string list) list" where
  "public_route_plans shards s = map (\<lambda>(i, shard). (Public i, route_symbols (Public i) s, shard)) (zip [0..<length shards] shards)"

definition current_public_shards :: "sources \<Rightarrow> string list list" where
  "current_public_shards s = map (\<lambda>i. route_symbols (Public i) s) [0..<so_count s]"

definition start_sources :: "string list \<Rightarrow> sources \<Rightarrow> source_error + sources" where
  "start_sources symbols s =
     (if so_running s then Inl (Source_Runtime_Error ''sources already running'')
      else case sharder_shards symbols (so_sharder s) of
        Inl e \<Rightarrow> Inl (Source_Sharding e)
      | Inr (shards, sharder) \<Rightarrow>
          Inr (s\<lparr>so_running := True, so_stopping := False, so_instruments := symbols, so_sharder := sharder,
            so_routes := map (\<lambda>(i, shard). (Public i, shard)) (zip [0..<length shards] shards) @ [(Market, symbols), (Pollers, symbols)]\<rparr>))"

definition stop_sources :: "sources \<Rightarrow> sources" where
  "stop_sources s = (if so_running s then s\<lparr>so_running := False, so_stopping := False, so_routes := []\<rparr> else s)"

text \<open>The sharder and the instruments are only replaced when every route has changed.\<close>

definition update_source_instruments :: "string list \<Rightarrow> completions \<Rightarrow> completions \<Rightarrow> completions \<Rightarrow> sources \<Rightarrow>
    (source_error + unit) \<times> sources \<times> source_routes list" where
  "update_source_instruments symbols adds rollbacks removals s =
     (if \<not> so_running s then (Inl (Source_Runtime_Error ''sources are not running''), s, [])
      else case sharder_shards symbols (so_sharder s) of
        Inl e \<Rightarrow> (Inl (Source_Sharding e), s, [])
      | Inr (shards, sharder) \<Rightarrow>
          let plans = public_route_plans shards s @ [(Market, so_instruments s, symbols), (Pollers, so_instruments s, symbols)];
              (result, states) = add_ready_remove plans adds rollbacks removals (so_routes s);
              s1 = s\<lparr>so_routes := last states\<rparr> in
          (case result of
             Inl e \<Rightarrow> (Inl e, s1, states)
           | Inr _ \<Rightarrow> (Inr (), s1\<lparr>so_sharder := sharder, so_instruments := symbols\<rparr>, states)))"

definition rebalance_public_routes :: "completions \<Rightarrow> completions \<Rightarrow> completions \<Rightarrow> sources \<Rightarrow>
    (source_error + bool) \<times> sources \<times> source_routes list" where
  "rebalance_public_routes adds rollbacks removals s =
     (if \<not> so_running s \<or> so_stopping s then (Inl (Source_Update_Error ''sources are not available for route rebalance''), s, [])
      else if \<not> so_complete_evidence s then (Inr False, s, [])
      else case sharder_shards (so_instruments s) (so_sharder s) of
        Inl e \<Rightarrow> (Inl (Source_Sharding e), s, [])
      | Inr (committed, sharder) \<Rightarrow>
          let s0 = s\<lparr>so_sharder := sharder\<rparr> in
          if current_public_shards s \<noteq> committed then
            let (result, states) = add_ready_remove (public_route_plans committed s) adds rollbacks removals (so_routes s);
                s1 = s0\<lparr>so_routes := last states\<rparr> in
            (case result of Inl e \<Rightarrow> (Inl e, s1, states) | Inr _ \<Rightarrow> (Inr True, s1, states))
          else case rbind (new_sharder (int (so_count s)) (so_effective_rates s)) (rebalance (so_instruments s) (current_public_shards s)) of
              Inl e \<Rightarrow> (Inl (Source_Sharding e), s0, [])
            | Inr (shards, balanced_sharder) \<Rightarrow>
                let (result, states) = add_ready_remove (public_route_plans shards s) adds rollbacks removals (so_routes s);
                    s1 = s0\<lparr>so_routes := last states\<rparr> in
                (case result of
                   Inl e \<Rightarrow> (Inl e, s1, states)
                 | Inr changed \<Rightarrow> (Inr changed, s1\<lparr>so_sharder := balanced_sharder\<rparr>, states)))"

section \<open>Coverage\<close>

definition covered :: "source_routes \<Rightarrow> string \<Rightarrow> bool" where
  "covered routes s \<longleftrightarrow> (\<exists>n symbols. dict_get routes n = Some symbols \<and> s \<in> set symbols)"

text \<open>Every route keeps a superset of a bound on what it has.\<close>

definition keeps :: "source_routes \<Rightarrow> (source_name \<Rightarrow> string set) \<Rightarrow> bool" where
  "keeps routes need \<longleftrightarrow> (\<forall>n. need n \<noteq> {} \<longrightarrow> (\<exists>symbols. dict_get routes n = Some symbols \<and> need n \<subseteq> set symbols))"

lemma batch_keeps:
  assumes "keeps routes need" "\<forall>(n, symbols) \<in> set updates. need n \<subseteq> set symbols" "st \<in> set (batch_states updates comps routes)"
  shows "keeps st need"
  using assms(1,3)
proof (induction comps arbitrary: routes)
  case (Cons a comps)
  obtain n outcome where a: "a = (n, outcome)" by (cases a) blast
  have "keeps (dict_set n symbols routes) need" if "map_of updates n = Some symbols" for symbols
    using Cons.prems(1) assms(2) map_of_SomeD [OF that] by (fastforce simp: keeps_def simp del: dict_set.simps)
  then have "keeps (case map_of updates n of Some symbols \<Rightarrow> if outcome_applies outcome then dict_set n symbols routes else routes | None \<Rightarrow> routes) need"
    using Cons.prems(1) by (simp split: option.split)
  then show ?case using Cons.IH Cons.prems by (auto simp: a simp del: dict_set.simps)
qed simp

lemma batch_states_last: "batch_states updates comps routes \<noteq> [] \<and> last (batch_states updates comps routes) \<in> set (batch_states updates comps routes)"
  by (induction comps arbitrary: routes) auto

text \<open>When every update of a batch succeeds its routes have their new symbols.\<close>

lemma batch_applied:
  assumes "distinct (map fst updates)" "fst ` set updates \<subseteq> fst ` set comps \<union> {n. dict_get routes n = map_of updates n}"
    "\<forall>(n, outcome) \<in> set comps. outcome_applies outcome"
  shows "\<forall>(n, symbols) \<in> set updates. dict_get (last (batch_states updates comps routes)) n = Some symbols"
  using assms(2,3)
proof (induction comps arbitrary: routes)
  case Nil
  then show ?case using assms(1) by (force simp: map_of_is_SomeI)
next
  case (Cons a comps)
  obtain n outcome where a: "a = (n, outcome)" by (cases a) blast
  define r1 where "r1 = (case map_of updates n of Some symbols \<Rightarrow> dict_set n symbols routes | None \<Rightarrow> routes)"
  have "dict_get r1 n = map_of updates n" if "n \<in> fst ` set updates"
    using that by (auto simp: r1_def map_of_eq_None_iff split: option.split simp del: dict_set.simps)
  moreover have "dict_get r1 m = dict_get routes m" if "m \<noteq> n" for m using that by (simp add: r1_def split: option.split del: dict_set.simps)
  ultimately have "fst ` set updates \<subseteq> fst ` set comps \<union> {n. dict_get r1 n = map_of updates n}" using Cons.prems(1) by (force simp: a)
  then have "\<forall>(n, symbols) \<in> set updates. dict_get (last (batch_states updates comps r1)) n = Some symbols"
    using Cons.IH Cons.prems(2) by simp
  moreover have "last (batch_states updates (a # comps) routes) = last (batch_states updates comps r1)"
    using Cons.prems(2) batch_states_last [of updates comps r1] by (auto simp: a r1_def simp del: dict_set.simps split: option.splits)
  ultimately show ?case by simp
qed

definition target_routes :: "(source_name \<times> string list \<times> string list) list \<Rightarrow> source_routes \<Rightarrow> source_routes" where
  "target_routes plans routes = fold (\<lambda>(n, _, target). dict_set n target) plans routes"

lemma target_routes_get:
  assumes "distinct (map fst plans)"
  shows "dict_get (target_routes plans routes) n = (case map_of plans n of Some (_, target) \<Rightarrow> Some target | None \<Rightarrow> dict_get routes n)"
  using assms unfolding target_routes_def
proof (induction plans arbitrary: routes)
  case (Cons p plans)
  obtain m c t where p: "p = (m, c, t)" by (cases p) blast
  show ?case
  proof (cases "m = n")
    case True
    then have "map_of plans n = None" using Cons.prems by (simp add: p map_of_eq_None_iff)
    then show ?thesis using Cons True by (simp add: p del: dict_set.simps)
  next
    case False
    then show ?thesis using Cons by (simp add: p split: option.split del: dict_set.simps)
  qed
qed simp

lemma distinct_additions: "distinct (map fst plans) \<Longrightarrow> distinct (map fst (plan_additions plans))"
proof (induction plans)
  case (Cons p plans)
  have "fst ` set (plan_additions plans) \<subseteq> fst ` set plans" by (force simp: plan_additions_def expanded_plans_def)
  moreover have "plan_additions (p # plans) = plan_additions plans \<or> (\<exists>v. plan_additions (p # plans) = (fst p, v) # plan_additions plans)"
    by (cases p) (simp add: plan_additions_def expanded_plans_def)
  ultimately show ?case using Cons by auto
qed (simp add: plan_additions_def expanded_plans_def)

definition has_of :: "source_routes \<Rightarrow> source_name \<Rightarrow> string set" where
  "has_of routes n = (case dict_get routes n of Some symbols \<Rightarrow> set symbols | None \<Rightarrow> {})"

lemma keeps_covers:
  assumes "keeps st (has_of routes)" "covered routes s"
  shows "covered st s"
proof -
  obtain n symbols where "dict_get routes n = Some symbols" "s \<in> set symbols" using assms(2) by (auto simp: covered_def)
  then have "s \<in> has_of routes n" by (simp add: has_of_def)
  then show ?thesis using assms(1) unfolding keeps_def covered_def by blast
qed

lemma keeps_self: "keeps routes (has_of routes)"
  by (simp add: keeps_def has_of_def split: option.split)

lemma expanded_plan:
  assumes "distinct (map fst plans)" "\<forall>(n, current, target) \<in> set plans. dict_get routes n = Some current"
    and "(n, c, v, t) \<in> set (expanded_plans plans)"
  shows "map_of plans n = Some (c, t)" "dict_get routes n = Some c" "v = sort (remdups (c @ t))"
proof -
  have p: "(n, c, t) \<in> set plans" "v = sort (remdups (c @ t))" using assms(3) by (auto simp: expanded_plans_def)
  then show "map_of plans n = Some (c, t)" "dict_get routes n = Some c" "v = sort (remdups (c @ t))"
    using assms(1,2) by (force intro: map_of_is_SomeI)+
qed

text \<open>The additions and their rollback leave every route at least what it had, the removals at least its target.\<close>

lemma plan_bounds:
  assumes "distinct (map fst plans)" "\<forall>(n, current, target) \<in> set plans. dict_get routes n = Some current"
  shows "\<forall>(n, symbols) \<in> set (plan_additions plans). has_of routes n \<subseteq> set symbols"
    and "\<forall>(n, symbols) \<in> set (plan_rollbacks plans). has_of routes n \<subseteq> set symbols"
    and "\<forall>(n, symbols) \<in> set (plan_removals plans). has_of (target_routes plans routes) n \<subseteq> set symbols"
proof -
  note plan = expanded_plan [OF assms]
  show "\<forall>(n, symbols) \<in> set (plan_additions plans). has_of routes n \<subseteq> set symbols"
    using plan(2,3) by (fastforce simp: plan_additions_def has_of_def)
  show "\<forall>(n, symbols) \<in> set (plan_rollbacks plans). has_of routes n \<subseteq> set symbols"
    using plan(2) by (fastforce simp: plan_rollbacks_def has_of_def)
  show "\<forall>(n, symbols) \<in> set (plan_removals plans). has_of (target_routes plans routes) n \<subseteq> set symbols"
    using plan(1) by (force simp: plan_removals_def has_of_def target_routes_get [OF assms(1)])
qed

lemma grown_plan_added:
  assumes "(n, c, t) \<in> set plans" "\<not> set t \<subseteq> set c"
  shows "(n, sort (remdups (c @ t))) \<in> set (plan_additions plans)"
proof -
  have "sort (remdups (c @ t)) \<noteq> c"
  proof
    assume "sort (remdups (c @ t)) = c"
    then have "set (sort (remdups (c @ t))) = set c" by simp
    then show False using assms(2) by auto
  qed
  moreover have "(n, c, sort (remdups (c @ t)), t) \<in> set (expanded_plans plans)"
    unfolding expanded_plans_def using assms by (force intro!: image_eqI [where x = "(n, c, t)"])
  ultimately show ?thesis
    unfolding plan_additions_def by (force intro!: image_eqI [where x = "(n, c, sort (remdups (c @ t)), t)"])
qed

text \<open>When no addition fails every route also has its target before the removals begin.\<close>

lemma additions_reach_targets:
  assumes "distinct (map fst plans)" "\<forall>(n, current, target) \<in> set plans. dict_get routes n = Some current"
    and "fst ` set (plan_additions plans) \<subseteq> fst ` set adds"
    and "\<not> list_ex (\<lambda>(_, outcome). outcome_failed outcome) adds"
  defines "added \<equiv> last (batch_states (plan_additions plans) adds routes)"
  shows "keeps added (has_of (target_routes plans routes))"
  unfolding keeps_def
proof (intro allI impI)
  fix n
  assume some: "has_of (target_routes plans routes) n \<noteq> {}"
  have "outcome_applies outcome" if "(m, outcome) \<in> set adds" for m outcome
    using assms(4) that by (cases outcome) (auto simp: list_ex_iff)
  then have applied: "dict_get added n = Some v" if "(n, v) \<in> set (plan_additions plans)" for v
    using batch_applied [OF distinct_additions [OF assms(1)], of adds routes] assms(3) that unfolding added_def by blast
  have start: "keeps added (has_of routes)"
    using batch_keeps [OF keeps_self plan_bounds(1) [OF assms(1,2)]] batch_states_last unfolding added_def by blast
  have within: "\<exists>symbols. dict_get added n = Some symbols \<and> has_of (target_routes plans routes) n \<subseteq> set symbols"
    if "has_of (target_routes plans routes) n \<subseteq> has_of routes n"
    using start that some unfolding keeps_def by blast
  have need: "has_of (target_routes plans routes) n = (case map_of plans n of Some (_, t) \<Rightarrow> set t | None \<Rightarrow> has_of routes n)"
    by (simp add: has_of_def target_routes_get [OF assms(1)] split: option.split prod.split)
  show "\<exists>symbols. dict_get added n = Some symbols \<and> has_of (target_routes plans routes) n \<subseteq> set symbols"
  proof (cases "map_of plans n")
    case None
    then show ?thesis using within need by simp
  next
    case (Some ct)
    obtain c t where ct: "ct = (c, t)" by (cases ct) blast
    have in_plans: "(n, c, t) \<in> set plans" using map_of_SomeD [OF Some] ct by simp
    have c: "has_of routes n = set c" using in_plans assms(2) by (auto simp: has_of_def)
    have t: "has_of (target_routes plans routes) n = set t" using need Some ct by simp
    show ?thesis
    proof (cases "set t \<subseteq> set c")
      case True
      then show ?thesis using within c t by simp
    next
      case False
      from applied [OF grown_plan_added [OF in_plans this]] show ?thesis using t by auto
    qed
  qed
qed

text \<open>C32. While instruments move between routes, no symbol that some route has and that some route is to have is ever without a route: it
  stays covered after every completion of every batch, in whatever order and with whatever outcomes the updates complete.\<close>

theorem moves_never_uncover:
  assumes "distinct (map fst plans)" "\<forall>(n, current, target) \<in> set plans. dict_get routes n = Some current"
    and "fst ` set (plan_additions plans) \<subseteq> fst ` set adds"
    and "covered routes s" "covered (target_routes plans routes) s"
  shows "\<forall>st \<in> set (snd (add_ready_remove plans adds rollbacks removals routes)). covered st s"
proof -
  define added where "added = batch_states (plan_additions plans) adds routes"
  note bounds = plan_bounds [OF assms(1,2)]
  have old: "\<forall>st \<in> set added. keeps st (has_of routes)"
    using batch_keeps [OF keeps_self bounds(1)] unfolding added_def by blast
  then have "keeps (last added) (has_of routes)" using batch_states_last unfolding added_def by blast
  then have rolled: "\<forall>st \<in> set (batch_states (plan_rollbacks plans) rollbacks (last added)). keeps st (has_of routes)"
    using batch_keeps [OF _ bounds(2)] by blast
  have removed: "\<forall>st \<in> set (batch_states (plan_removals plans) removals (last added)). keeps st (has_of (target_routes plans routes))"
    if "\<not> list_ex (\<lambda>(_, outcome). outcome_failed outcome) adds"
    using batch_keeps [OF additions_reach_targets [OF assms(1-3) that] bounds(3)] unfolding added_def by blast
  have "\<forall>st \<in> set added. covered st s" "\<forall>st \<in> set (batch_states (plan_rollbacks plans) rollbacks (last added)). covered st s" "covered routes s"
    using old rolled keeps_covers [OF _ assms(4)] assms(4) by blast+
  moreover have "\<forall>st \<in> set (batch_states (plan_removals plans) removals (last added)). covered st s"
    if "\<not> list_ex (\<lambda>(_, outcome). outcome_failed outcome) adds"
    using removed [OF that] keeps_covers [OF _ assms(5)] by blast
  ultimately show ?thesis by (auto simp: add_ready_remove_def Let_def added_def [symmetric])
qed

theorem moves_never_uncover_witness:
  "list_all (\<lambda>st. covered st ''a'') (snd (add_ready_remove [(Public 0, [''a'', ''b''], [''b'']), (Public 1, [''c''], [''a'', ''c''])]
      [(Public 1, Updated)] [] [(Public 0, Updated)] [(Public 0, [''a'', ''b'']), (Public 1, [''c''])]))"
  unfolding list_all_iff
proof (rule moves_never_uncover)
  show "covered [(Public 0, [''a'', ''b'']), (Public 1, [''c''])] ''a''" by (auto simp: covered_def dict_get_def)
  show "covered (target_routes [(Public 0, [''a'', ''b''], [''b'']), (Public 1, [''c''], [''a'', ''c''])] [(Public 0, [''a'', ''b'']), (Public 1, [''c''])]) ''a''"
    unfolding covered_def by (intro exI [of _ "Public 1"] exI [of _ "[''a'', ''c'']"]) (simp add: target_routes_def dict_get_def)
  have "plan_additions [(Public 0, [''a'', ''b''], [''b'']), (Public 1, [''c''], [''a'', ''c''])] = [(Public 1, [''a'', ''c''])]" by code_simp
  then show "fst ` set (plan_additions [(Public 0, [''a'', ''b''], [''b'']), (Public 1, [''c''], [''a'', ''c''])]) \<subseteq> fst ` set [(Public 1, Updated)]"
    by simp
qed (auto simp: dict_get_def)

end
