(* ===== verification/Service.thy ===== *)
theory Service
  imports Contracts
begin

text \<open>
  The collector service, \<open>src/miry/collector/service.py\<close>: starting with the gaps of the previous boot, the storage
  loop that stops and restarts the sources, the midnight boundary that puts a universe decision in force and the
  loop that retries a failed change of the instruments. A step is one pass of a loop; the spool status, the
  readiness of the sources and the outcome of their update are inputs. Gaps are their openings and closings.
\<close>

section \<open>State\<close>

datatype service_gap = Service_Opened nat gap_reason "string list" "int option" | Service_Closed nat gap_reason "string list"

datatype service_action =
    Rotated string
  | Emitted stream_type string
  | Sealed utc_date
  | Lease_Running
  | Lease_Clean

record service =
  sv_members :: "string list"
  sv_universe_hash :: string
  sv_running :: bool
  sv_sources :: "string list"
  sv_storage_gap :: "nat option"
  sv_stale :: "(nat \<times> gap_reason \<times> string list) list"
  sv_pending :: "(string list \<times> nat option \<times> string list) option"
  sv_attempt :: "(string list \<times> nat option \<times> string list) option"
  sv_membership_requested :: bool
  sv_rebalance_requested :: bool
  sv_formal_start :: bool
  sv_gaps :: "service_gap list"
  sv_next_gap :: nat
  sv_actions :: "service_action list"

definition open_service_gap :: "gap_reason \<Rightarrow> string list \<Rightarrow> int option \<Rightarrow> service \<Rightarrow> service" where
  "open_service_gap why symbols affected_ns s = s\<lparr>sv_gaps := sv_gaps s @ [Service_Opened (sv_next_gap s) why symbols affected_ns],
     sv_next_gap := sv_next_gap s + 1\<rparr>"

definition close_service_gap :: "nat \<Rightarrow> gap_reason \<Rightarrow> string list \<Rightarrow> service \<Rightarrow> service" where
  "close_service_gap g why symbols s = s\<lparr>sv_gaps := sv_gaps s @ [Service_Closed g why symbols]\<rparr>"

definition act :: "service_action list \<Rightarrow> service \<Rightarrow> service" where
  "act actions s = s\<lparr>sv_actions := sv_actions s @ actions\<rparr>"

section \<open>Starting\<close>

definition close_stale_gaps :: "service \<Rightarrow> service" where
  "close_stale_gaps s =
     fold (\<lambda>(g, why, symbols) s. if sv_storage_gap s = Some g then s else close_service_gap g why symbols s) (sv_stale s) (s\<lparr>sv_stale := []\<rparr>)"

definition seal_completed_days :: "utc_date list \<Rightarrow> service \<Rightarrow> service" where
  "seal_completed_days completed = act (map Sealed completed)"

definition mark_formal_start :: "string \<Rightarrow> string \<Rightarrow> service \<Rightarrow> service" where
  "mark_formal_start decision payload s =
     (let s1 = act [Emitted UNIVERSE_DECISION decision] s in
      if sv_formal_start s1 then act [Rotated (sv_universe_hash s1)] s1
      else (act [Emitted FORMAL_COLLECTION_STARTED payload, Rotated (sv_universe_hash s1)] s1)\<lparr>sv_formal_start := True\<rparr>)"

text \<open>The sources are up: stale gaps close, completed days are sealed, the start is marked.\<close>

definition sources_ready :: "utc_date list \<Rightarrow> string \<Rightarrow> string \<Rightarrow> service \<Rightarrow> service" where
  "sources_ready completed decision payload s = mark_formal_start decision payload (seal_completed_days completed (close_stale_gaps s))"

definition start_service_sources :: "service \<Rightarrow> service" where
  "start_service_sources s = s\<lparr>sv_running := True, sv_sources := sv_members s\<rparr>"

definition stop_service_sources :: "service \<Rightarrow> service" where
  "stop_service_sources s = s\<lparr>sv_running := False\<rparr>"

text \<open>\<open>run\<close> until its background tasks start; None stands for the exception of sources that do not become ready.\<close>

definition start_service :: "int option \<Rightarrow> (nat \<times> gap_reason \<times> string list) list \<Rightarrow> bool \<Rightarrow> bool \<Rightarrow> utc_date list \<Rightarrow> string \<Rightarrow> string \<Rightarrow>
    service \<Rightarrow> service option" where
  "start_service recovery_ns open_gaps hard_limited ready completed decision payload s =
     (let s1 = (case recovery_ns of None \<Rightarrow> s | Some t \<Rightarrow> open_service_gap COLLECTOR_STOPPED (sv_members s) (Some t) s);
          stale = open_gaps @ (case recovery_ns of None \<Rightarrow> [] | Some _ \<Rightarrow> [(sv_next_gap s, COLLECTOR_STOPPED, sv_members s)]);
          s2 = act [Lease_Running] (s1\<lparr>sv_stale := stale,
            sv_storage_gap := map_option fst (find (\<lambda>(_, why, _). why = STORAGE_EXHAUSTED) stale)\<rparr>) in
      if hard_limited then Some s2
      else if ready then Some (sources_ready completed decision payload (start_service_sources s2)) else None)"

section \<open>The storage loop\<close>

definition storage_check :: "bool \<Rightarrow> bool \<Rightarrow> utc_date list \<Rightarrow> string \<Rightarrow> string \<Rightarrow> service \<Rightarrow> service" where
  "storage_check hard_limited ready completed decision payload s =
     (if hard_limited then
        let s1 = (if sv_storage_gap s = None
          then (open_service_gap STORAGE_EXHAUSTED (sv_members s) None s)\<lparr>sv_storage_gap := Some (sv_next_gap s)\<rparr> else s) in
        if sv_running s1 then stop_service_sources s1 else s1
      else case sv_storage_gap s of
        None \<Rightarrow> s
      | Some g \<Rightarrow>
          let (recovered, s1) =
            (if sv_running s then (True, s)
             else if ready then (True, sources_ready completed decision payload (start_service_sources s))
             else (False, stop_service_sources (start_service_sources s))) in
          if recovered then (close_service_gap g STORAGE_EXHAUSTED (sv_members s1) s1)\<lparr>sv_storage_gap := None\<rparr> else s1)"

section \<open>Membership\<close>

text \<open>\<open>_apply_midnight_boundary\<close>: \<open>decision\<close> is the one that falls due, with its members, hash and payload.\<close>

definition symmetric_difference :: "string list \<Rightarrow> string list \<Rightarrow> string list" where
  "symmetric_difference xs ys = sort (remdups (filter (\<lambda>s. s \<notin> set ys) xs @ filter (\<lambda>s. s \<notin> set xs) ys))"

definition apply_decision :: "int \<Rightarrow> string list \<Rightarrow> string \<Rightarrow> bool \<Rightarrow> service \<Rightarrow> service" where
  "apply_decision boundary_ns names digest updated s =
     (let changed = symmetric_difference (sv_members s) names;
          opens = (sv_running s \<and> changed \<noteq> []);
          s1 = s\<lparr>sv_members := names, sv_universe_hash := digest\<rparr>;
          s2 = act [Rotated digest] (if opens then open_service_gap PLANNED_BOUNDARY changed (Some boundary_ns) s1 else s1);
          s3 = (if \<not> sv_running s then s2
            else if updated then s2\<lparr>sv_sources := names\<rparr>
            else s2\<lparr>sv_pending := Some (names, if opens then Some (sv_next_gap s) else None, changed), sv_membership_requested := True\<rparr>) in
      if opens \<and> sv_pending s3 = None then close_service_gap (sv_next_gap s) PLANNED_BOUNDARY changed s3 else s3)"

definition apply_midnight_boundary :: "utc_date \<Rightarrow> int \<Rightarrow> (string list \<times> string \<times> string) option \<Rightarrow> string \<Rightarrow> bool \<Rightarrow> service \<Rightarrow> service" where
  "apply_midnight_boundary previous_date boundary_ns decision active_payload updated s =
     (let (s1, payload) = (case decision of
            None \<Rightarrow> (act [Rotated (sv_universe_hash s)] s, active_payload)
          | Some (names, digest, payload) \<Rightarrow> (apply_decision boundary_ns names digest updated s, payload));
          s2 = act [Emitted UNIVERSE_DECISION payload, Rotated (sv_universe_hash s1), Sealed previous_date, Lease_Running] s1 in
      s2\<lparr>sv_rebalance_requested := (sv_rebalance_requested s2 \<or> sv_running s)\<rparr>)"

text \<open>\<open>_membership_loop\<close> does not hold the operation lock: an attempt, after its delay, takes the pending change and awaits the
  update of the sources (\<open>sv_attempt\<close>), and other loops run before it goes on. An attempt without running and ready sources
  changes nothing. The pending change is dropped only if it is still the one that was taken.\<close>

definition membership_updated :: "string list \<times> nat option \<times> string list \<Rightarrow> bool \<Rightarrow> service \<Rightarrow> service" where
  "membership_updated = (\<lambda>(names, gap, changed) updated s.
     (if \<not> updated then s
      else
        let s1 = s\<lparr>sv_sources := names\<rparr>;
            s2 = (case gap of Some g \<Rightarrow> close_service_gap g PLANNED_BOUNDARY changed s1 | None \<Rightarrow> s1);
            s3 = (if sv_pending s2 = Some (names, gap, changed) then s2\<lparr>sv_pending := None\<rparr> else s2) in
        s3\<lparr>sv_rebalance_requested := True\<rparr>))"

definition membership_begin :: "bool \<Rightarrow> service \<Rightarrow> service option" where
  "membership_begin sources_ready_now s =
     (case (sv_attempt s, sv_pending s) of
        (None, Some change) \<Rightarrow> Some (if \<not> sv_running s \<or> \<not> sources_ready_now then s else s\<lparr>sv_attempt := Some change\<rparr>)
      | _ \<Rightarrow> None)"

definition membership_end :: "bool \<Rightarrow> service \<Rightarrow> service option" where
  "membership_end updated s =
     (case sv_attempt s of None \<Rightarrow> None | Some change \<Rightarrow> Some (membership_updated change updated (s\<lparr>sv_attempt := None\<rparr>)))"

text \<open>An attempt that nothing interrupts.\<close>

definition membership_attempt :: "bool \<Rightarrow> bool \<Rightarrow> service \<Rightarrow> service option" where
  "membership_attempt sources_ready_now updated s =
     (case sv_pending s of
        None \<Rightarrow> None
      | Some change \<Rightarrow> Some (if \<not> sv_running s \<or> \<not> sources_ready_now then s else membership_updated change updated s))"

text \<open>The end of \<open>run\<close>.\<close>

definition stop_service :: "service \<Rightarrow> service" where
  "stop_service s =
     (let s1 = (if sv_running s then open_service_gap COLLECTOR_STOPPED (sv_members s) None s else s) in
      act [Lease_Clean] (stop_service_sources s1))"

datatype service_event =
    Storage_Checked bool bool "utc_date list" string string
  | Midnight utc_date int "(string list \<times> string \<times> string) option" string bool
  | Membership_Begun bool
  | Membership_Ended bool

definition service_step :: "service_event \<Rightarrow> service \<Rightarrow> service option" where
  "service_step ev s =
     (case ev of
        Storage_Checked hard_limited ready completed decision payload \<Rightarrow> Some (storage_check hard_limited ready completed decision payload s)
      | Midnight day ns decision payload updated \<Rightarrow> Some (apply_midnight_boundary day ns decision payload updated s)
      | Membership_Begun ready \<Rightarrow> membership_begin ready s
      | Membership_Ended updated \<Rightarrow> membership_end updated s)"

section \<open>Runs\<close>

definition new_service :: "string list \<Rightarrow> string \<Rightarrow> bool \<Rightarrow> service" where
  "new_service names digest formal =
     \<lparr>sv_members = names, sv_universe_hash = digest, sv_running = False, sv_sources = [], sv_storage_gap = None, sv_stale = [], sv_pending = None,
       sv_attempt = None, sv_membership_requested = False, sv_rebalance_requested = False, sv_formal_start = formal, sv_gaps = [], sv_next_gap = 0, sv_actions = []\<rparr>"

text \<open>A decision falls due while the change of the previous one is still pending.\<close>

definition overtakes :: "service_event \<Rightarrow> service \<Rightarrow> bool" where
  "overtakes ev s \<longleftrightarrow> (case ev of Midnight _ _ (Some _) _ _ \<Rightarrow> sv_pending s \<noteq> None | _ \<Rightarrow> False)"

inductive service_run :: "service \<Rightarrow> bool \<Rightarrow> service \<Rightarrow> bool" where
  started: "service_run s0 True s0"
| stepped: "service_run s0 clean s \<Longrightarrow> service_step ev s = Some s' \<Longrightarrow> service_run s0 (clean \<and> \<not> overtakes ev s) s'"

definition service_gap_open :: "service \<Rightarrow> nat \<Rightarrow> gap_reason \<Rightarrow> bool" where
  "service_gap_open s g why \<longleftrightarrow> (\<exists>symbols t. Service_Opened g why symbols t \<in> set (sv_gaps s)) \<and>
     (\<forall>w symbols. Service_Closed g w symbols \<notin> set (sv_gaps s))"

text \<open>The numbers of the gaps in the journal.\<close>

fun service_gap_id :: "service_gap \<Rightarrow> nat" where
  "service_gap_id (Service_Opened g _ _ _) = g"
| "service_gap_id (Service_Closed g _ _) = g"

definition numbered :: "service \<Rightarrow> bool" where
  "numbered s \<longleftrightarrow> (\<forall>x \<in> set (sv_gaps s). service_gap_id x < sv_next_gap s)"

definition gaps_fit :: "service \<Rightarrow> bool" where
  "gaps_fit s \<longleftrightarrow> numbered s \<and> (\<forall>g. sv_storage_gap s = Some g \<longrightarrow> service_gap_open s g STORAGE_EXHAUSTED) \<and>
     (\<forall>g v w. service_gap_open s g v \<longrightarrow> service_gap_open s g w \<longrightarrow> v = w)"

definition boundary_fit :: "service \<Rightarrow> bool" where
  "boundary_fit s \<longleftrightarrow>
     (sv_pending s = None \<longrightarrow> (sv_running s \<longrightarrow> sv_sources s = sv_members s) \<and> (\<forall>g. \<not> service_gap_open s g PLANNED_BOUNDARY)) \<and>
     (\<forall>names gap changed. sv_pending s = Some (names, gap, changed) \<longrightarrow> names = sv_members s \<and>
       (\<forall>g. service_gap_open s g PLANNED_BOUNDARY \<longrightarrow> gap = Some g))"

lemma gap_open_after_open:
  assumes "numbered s"
  shows "service_gap_open (open_service_gap why symbols t s) g v \<longleftrightarrow> service_gap_open s g v \<or> g = sv_next_gap s \<and> v = why"
proof -
  have "Service_Opened (sv_next_gap s) w x y \<notin> set (sv_gaps s)" "Service_Closed (sv_next_gap s) w x \<notin> set (sv_gaps s)" for w x y
    using assms unfolding numbered_def by (force dest: bspec)+
  then show ?thesis by (auto simp: service_gap_open_def open_service_gap_def)
qed

lemma gap_open_after_close: "service_gap_open (close_service_gap h why symbols s) g v \<longleftrightarrow> g \<noteq> h \<and> service_gap_open s g v"
  by (auto simp: service_gap_open_def close_service_gap_def)

lemma gap_open_view: "sv_gaps s' = sv_gaps s \<Longrightarrow> service_gap_open s' g v = service_gap_open s g v"
  by (simp add: service_gap_open_def)

lemma numbered_open: "numbered s \<Longrightarrow> numbered (open_service_gap why symbols t s)"
  by (auto simp: numbered_def open_service_gap_def)

lemma numbered_close: "numbered s \<Longrightarrow> service_gap_open s g v \<Longrightarrow> numbered (close_service_gap g why symbols s)"
  by (fastforce simp: numbered_def close_service_gap_def service_gap_open_def)

definition pending_open :: "service \<Rightarrow> bool" where
  "pending_open s \<longleftrightarrow> (\<forall>names g changed. sv_pending s = Some (names, Some g, changed) \<longrightarrow> service_gap_open s g PLANNED_BOUNDARY)"

definition service_ok :: "bool \<Rightarrow> service \<Rightarrow> bool" where
  "service_ok clean s \<longleftrightarrow> gaps_fit s \<and> pending_open s \<and> sv_stale s = [] \<and> (\<not> sv_running s \<longrightarrow> sv_storage_gap s \<noteq> None) \<and> (clean \<longrightarrow> boundary_fit s)"

lemma service_view:
  assumes "service_ok clean s" and same: "sv_gaps s' = sv_gaps s" "sv_next_gap s' = sv_next_gap s" "sv_storage_gap s' = sv_storage_gap s"
    "sv_stale s' = sv_stale s" "sv_running s' = sv_running s" "sv_sources s' = sv_sources s" "sv_members s' = sv_members s" "sv_pending s' = sv_pending s"
  shows "service_ok clean s'"
  using assms(1) unfolding service_ok_def gaps_fit_def pending_open_def boundary_fit_def numbered_def service_gap_open_def same .

lemma gaps_fit_view:
  assumes "gaps_fit s" and same: "sv_gaps s' = sv_gaps s" "sv_next_gap s' = sv_next_gap s" "sv_storage_gap s' = sv_storage_gap s"
  shows "gaps_fit s'"
  using assms(1) unfolding gaps_fit_def numbered_def service_gap_open_def same .

lemma act_fields [simp]:
  "sv_gaps (act xs s) = sv_gaps s" "sv_next_gap (act xs s) = sv_next_gap s" "sv_storage_gap (act xs s) = sv_storage_gap s"
  "sv_stale (act xs s) = sv_stale s" "sv_running (act xs s) = sv_running s" "sv_sources (act xs s) = sv_sources s"
  "sv_members (act xs s) = sv_members s" "sv_pending (act xs s) = sv_pending s" "sv_attempt (act xs s) = sv_attempt s"
  by (simp_all add: act_def)

lemma sources_ready_fields:
  assumes "sv_stale s = []"
  shows "sv_gaps (sources_ready ds d p s) = sv_gaps s" "sv_next_gap (sources_ready ds d p s) = sv_next_gap s"
    "sv_storage_gap (sources_ready ds d p s) = sv_storage_gap s" "sv_stale (sources_ready ds d p s) = []"
    "sv_running (sources_ready ds d p s) = sv_running s" "sv_sources (sources_ready ds d p s) = sv_sources s"
    "sv_members (sources_ready ds d p s) = sv_members s" "sv_pending (sources_ready ds d p s) = sv_pending s"
    "sv_attempt (sources_ready ds d p s) = sv_attempt s"
  using assms by (simp_all add: sources_ready_def mark_formal_start_def seal_completed_days_def close_stale_gaps_def Let_def)

lemma service_fits:
  assumes "gaps_fit s" "pending_open s" "sv_stale s = []" "\<not> sv_running s \<longrightarrow> sv_storage_gap s \<noteq> None" "clean \<longrightarrow> boundary_fit s"
  shows "service_ok clean s"
  using assms by (simp add: service_ok_def)

lemma storage_closed:
  assumes "gaps_fit s" "pending_open s" "sv_storage_gap s = Some g" "boundary_fit s \<or> \<not> clean" "sv_stale s = []" "sv_running s"
  shows "service_ok clean ((close_service_gap g STORAGE_EXHAUSTED symbols s)\<lparr>sv_storage_gap := None\<rparr>)"
proof -
  define s1 where "s1 = close_service_gap g STORAGE_EXHAUSTED symbols s"
  have g: "service_gap_open s g STORAGE_EXHAUSTED" using assms(1,3) by (simp add: gaps_fit_def)
  have fields: "sv_pending s1 = sv_pending s" "sv_running s1 = sv_running s" "sv_sources s1 = sv_sources s" "sv_members s1 = sv_members s" "sv_stale s1 = sv_stale s"
    by (simp_all add: s1_def close_service_gap_def)
  have opens: "service_gap_open (s1\<lparr>sv_storage_gap := None\<rparr>) h v \<longleftrightarrow> h \<noteq> g \<and> service_gap_open s h v" for h v
    using gap_open_view [of "s1\<lparr>sv_storage_gap := None\<rparr>" s1] gap_open_after_close unfolding s1_def by simp
  have "numbered s1" unfolding s1_def by (rule numbered_close [OF _ g]) (use assms(1) in \<open>simp add: gaps_fit_def\<close>)
  then have "gaps_fit (s1\<lparr>sv_storage_gap := None\<rparr>)" using assms(1) opens unfolding gaps_fit_def by (simp add: numbered_def) blast
  moreover have "boundary_fit s \<Longrightarrow> boundary_fit (s1\<lparr>sv_storage_gap := None\<rparr>)"
    using opens by (auto simp: boundary_fit_def fields)
  moreover have "pending_open (s1\<lparr>sv_storage_gap := None\<rparr>)"
  proof -
    have "\<not> service_gap_open s g PLANNED_BOUNDARY" using g assms(1) unfolding gaps_fit_def by blast
    then show ?thesis unfolding pending_open_def opens using assms(2) fields(1) by (auto simp: pending_open_def)
  qed
  ultimately have "service_ok clean (s1\<lparr>sv_storage_gap := None\<rparr>)" using assms(4,5,6) fields by (intro service_fits) auto
  then show ?thesis by (simp only: s1_def)
qed

lemma storage_check_ok:
  assumes "service_ok clean s"
  shows "service_ok clean (storage_check hard_limited ready ds d p s)"
proof -
  have pending: "pending_open s" using assms by (simp add: service_ok_def)
  have ok: "gaps_fit s" "sv_stale s = []" "\<not> sv_running s \<longrightarrow> sv_storage_gap s \<noteq> None" "clean \<longrightarrow> boundary_fit s"
    using assms by (auto simp: service_ok_def)
  have numbered: "numbered s" using ok(1) by (simp add: gaps_fit_def)
  show ?thesis
  proof (cases hard_limited)
    case True
    define s1 where "s1 = (if sv_storage_gap s = None
      then (open_service_gap STORAGE_EXHAUSTED (sv_members s) None s)\<lparr>sv_storage_gap := Some (sv_next_gap s)\<rparr> else s)"
    have s1: "gaps_fit s1 \<and> pending_open s1 \<and> (clean \<longrightarrow> boundary_fit s1) \<and> sv_storage_gap s1 \<noteq> None \<and> sv_stale s1 = [] \<and> sv_running s1 = sv_running s"
    proof (cases "sv_storage_gap s = None")
      case True
      have opens: "service_gap_open s1 g v \<longleftrightarrow> service_gap_open s g v \<or> g = sv_next_gap s \<and> v = STORAGE_EXHAUSTED" for g v
        using gap_open_after_open [OF numbered] gap_open_view [of s1 "open_service_gap STORAGE_EXHAUSTED (sv_members s) None s"] True
        by (simp add: s1_def)
      have fresh: "\<not> service_gap_open s (sv_next_gap s) v" for v using numbered by (force simp: numbered_def service_gap_open_def)
      have "numbered s1" using numbered_open [OF numbered] True by (simp add: s1_def numbered_def)
      then have "gaps_fit s1" using ok(1) opens fresh True unfolding gaps_fit_def by (auto simp: s1_def)
      moreover have "boundary_fit s \<Longrightarrow> boundary_fit s1" using opens True
        by (auto simp: boundary_fit_def s1_def open_service_gap_def)
      moreover have "pending_open s1" using pending opens True by (auto simp: pending_open_def s1_def open_service_gap_def)
      ultimately show ?thesis using ok True by (simp add: s1_def open_service_gap_def)
    next
      case False
      then have "s1 = s" by (auto simp: s1_def)
      then show ?thesis using ok pending False by simp
    qed
    define s2 where "s2 = (if sv_running s1 then stop_service_sources s1 else s1)"
    have s2: "sv_gaps s2 = sv_gaps s1" "sv_next_gap s2 = sv_next_gap s1" "sv_storage_gap s2 = sv_storage_gap s1" "sv_stale s2 = sv_stale s1"
      "sv_members s2 = sv_members s1" "sv_pending s2 = sv_pending s1" "\<not> sv_running s2"
      by (simp_all add: s2_def stop_service_sources_def)
    have "gaps_fit s2" by (rule gaps_fit_view [of s1]) (use s1 s2 in simp_all)
    moreover have "boundary_fit s1 \<Longrightarrow> boundary_fit s2" using s2 by (simp add: boundary_fit_def service_gap_open_def)
    moreover have "pending_open s2" using s1 s2 by (simp add: pending_open_def service_gap_open_def)
    ultimately have "service_ok clean s2" using s1 s2 by (intro service_fits) auto
    then show ?thesis using True by (simp add: storage_check_def s1_def [symmetric] s2_def [symmetric])
  next
    case False
    show ?thesis
    proof (cases "sv_storage_gap s")
      case None
      then show ?thesis using False assms by (simp add: storage_check_def)
    next
      case (Some g)
      define up where "up = start_service_sources s"
      have up: "sv_gaps up = sv_gaps s" "sv_next_gap up = sv_next_gap s" "sv_storage_gap up = Some g" "sv_stale up = []" "sv_running up"
        "sv_sources up = sv_members s" "sv_members up = sv_members s" "sv_pending up = sv_pending s"
        using Some ok(2) by (simp_all add: up_def start_service_sources_def)
      define r where "r = sources_ready ds d p up"
      note r = sources_ready_fields [OF up(4), of ds d p, folded r_def, unfolded up]
      have "gaps_fit r" by (rule gaps_fit_view [OF ok(1)]) (use r Some in simp_all)
      moreover have "boundary_fit s \<Longrightarrow> boundary_fit r" using r by (simp add: boundary_fit_def service_gap_open_def)
      moreover have "pending_open r" using pending r by (simp add: pending_open_def service_gap_open_def)
      ultimately have ready_ok: "service_ok clean ((close_service_gap g STORAGE_EXHAUSTED (sv_members r) r)\<lparr>sv_storage_gap := None\<rparr>)"
        by (intro storage_closed) (use r up(5) ok(4) in auto)
      define down where "down = stop_service_sources up"
      have "gaps_fit down" by (rule gaps_fit_view [OF ok(1)]) (use up Some in \<open>simp_all add: down_def stop_service_sources_def\<close>)
      moreover have "boundary_fit s \<Longrightarrow> boundary_fit down" using up
        by (simp add: boundary_fit_def service_gap_open_def down_def stop_service_sources_def)
      moreover have "pending_open down" using pending up by (simp add: pending_open_def service_gap_open_def down_def stop_service_sources_def)
      ultimately have down_ok: "service_ok clean down" by (intro service_fits) (use up ok(4) in \<open>auto simp: down_def stop_service_sources_def\<close>)
      have running_ok: "service_ok clean ((close_service_gap g STORAGE_EXHAUSTED (sv_members s) s)\<lparr>sv_storage_gap := None\<rparr>)" if "sv_running s"
        by (rule storage_closed) (use ok pending Some that in auto)
      show ?thesis using False Some ready_ok down_ok running_ok
        by (simp add: storage_check_def Let_def up_def [symmetric] r_def [symmetric] down_def [symmetric])
    qed
  qed
qed

lemma decision_ok:
  assumes "service_ok clean s" "clean \<longrightarrow> sv_pending s = None"
  shows "service_ok clean (apply_decision ns names digest updated s)"
proof -
  have pending: "pending_open s" using assms(1) by (simp add: service_ok_def)
  have ok: "gaps_fit s" "sv_stale s = []" "\<not> sv_running s \<longrightarrow> sv_storage_gap s \<noteq> None" "clean \<longrightarrow> boundary_fit s"
    using assms(1) by (auto simp: service_ok_def)
  have numbered: "numbered s" using ok(1) by (simp add: gaps_fit_def)
  have fresh: "\<not> service_gap_open s (sv_next_gap s) v" for v using numbered by (force simp: numbered_def service_gap_open_def)
  have idle: "clean \<longrightarrow> sv_pending s = None \<and> (\<forall>g. \<not> service_gap_open s g PLANNED_BOUNDARY)"
    using assms(2) ok(4) by (auto simp: boundary_fit_def)
  define changed where "changed = symmetric_difference (sv_members s) names"
  define s1 where "s1 = s\<lparr>sv_members := names, sv_universe_hash := digest\<rparr>"
  define opens where "opens = (sv_running s \<and> changed \<noteq> [])"
  define s2 where "s2 = act [Rotated digest] (if opens then open_service_gap PLANNED_BOUNDARY changed (Some ns) s1 else s1)"
  define s4 where "s4 = (if \<not> sv_running s then s2 else if updated then s2\<lparr>sv_sources := names\<rparr>
    else s2\<lparr>sv_pending := Some (names, if opens then Some (sv_next_gap s) else None, changed), sv_membership_requested := True\<rparr>)"
  define s3 where "s3 = (if opens \<and> sv_pending s4 = None then close_service_gap (sv_next_gap s) PLANNED_BOUNDARY changed s4 else s4)"
  have "numbered s1" using numbered by (simp add: s1_def numbered_def)
  then have open2: "service_gap_open s2 g v \<longleftrightarrow> service_gap_open s g v \<or> opens \<and> g = sv_next_gap s \<and> v = PLANNED_BOUNDARY" for g v
    using gap_open_after_open [of s1 PLANNED_BOUNDARY changed "Some ns" g v] gap_open_view [of s1 s] 
      gap_open_view [of s2 "if opens then open_service_gap PLANNED_BOUNDARY changed (Some ns) s1 else s1"]
    by (simp add: s2_def s1_def)
  have numbered2: "numbered s2" using numbered_open [OF \<open>numbered s1\<close>, of PLANNED_BOUNDARY changed "Some ns"] \<open>numbered s1\<close>
    by (simp add: s2_def numbered_def)
  have f2: "sv_storage_gap s2 = sv_storage_gap s" "sv_stale s2 = []" "sv_running s2 = sv_running s" "sv_sources s2 = sv_sources s"
    "sv_members s2 = names" "sv_pending s2 = sv_pending s"
    using ok(2) by (simp_all add: s2_def s1_def open_service_gap_def)
  have fit2: "gaps_fit s2" using ok(1) numbered2 f2(1) open2 fresh unfolding gaps_fit_def by (metis (no_types, opaque_lifting))
  have f4: "sv_gaps s4 = sv_gaps s2" "sv_next_gap s4 = sv_next_gap s2" "sv_storage_gap s4 = sv_storage_gap s2" "sv_stale s4 = []"
    "sv_running s4 = sv_running s" "sv_members s4 = names"
    using f2 by (simp_all add: s4_def)
  have fit4: "gaps_fit s4" by (rule gaps_fit_view [OF fit2]) (use f4 in simp_all)
  have open4: "service_gap_open s4 g v = service_gap_open s2 g v" for g v using gap_open_view f4(1) by blast
  have f3: "sv_storage_gap s3 = sv_storage_gap s" "sv_stale s3 = []" "sv_running s3 = sv_running s" "sv_members s3 = names"
    "sv_pending s3 = sv_pending s4" "sv_sources s3 = sv_sources s4" "sv_next_gap s3 = sv_next_gap s4"
    using f2 f4 by (simp_all add: s3_def close_service_gap_def)
  have open3: "service_gap_open s3 g v \<longleftrightarrow> service_gap_open s4 g v \<and> \<not> (opens \<and> sv_pending s4 = None \<and> g = sv_next_gap s)" for g v
    using gap_open_after_close by (simp add: s3_def) blast
  have "numbered s3"
  proof (cases "opens \<and> sv_pending s4 = None")
    case True
    then show ?thesis using numbered_close [of s4 "sv_next_gap s" PLANNED_BOUNDARY] fit4 open4 open2 by (simp add: s3_def gaps_fit_def)
  next
    case False
    then have "s3 = s4" by (auto simp: s3_def)
    then show ?thesis using fit4 by (simp add: gaps_fit_def)
  qed
  moreover have "sv_storage_gap s = Some g \<Longrightarrow> service_gap_open s3 g STORAGE_EXHAUSTED" for g
    using ok(1) fresh open3 open4 open2 unfolding gaps_fit_def by blast
  moreover have "service_gap_open s3 g v \<Longrightarrow> service_gap_open s3 g w \<Longrightarrow> v = w" for g v w
    using fit4 open3 unfolding gaps_fit_def by blast
  ultimately have fit3: "gaps_fit s3" using f3(1) unfolding gaps_fit_def by auto
  have bound: "boundary_fit s3" if clean
  proof -
    have none: "sv_pending s = None" "\<not> service_gap_open s g PLANNED_BOUNDARY" for g using idle that by auto
    have planned: "service_gap_open s3 g PLANNED_BOUNDARY \<longleftrightarrow> opens \<and> g = sv_next_gap s \<and> sv_pending s4 \<noteq> None" for g
      unfolding open3 open4 open2 using none(2) by auto
    show ?thesis unfolding boundary_fit_def f3 planned using f2 none(1)
      by (auto simp: s4_def opens_def split: if_splits)
  qed
  have "pending_open s3"
    unfolding pending_open_def f3 open3 open4 open2 using pending f2(6) by (auto simp: s4_def pending_open_def opens_def split: if_splits)
  then have "service_ok clean s3" using fit3 f3 ok(3) bound by (intro service_fits) auto
  then show ?thesis
    unfolding apply_decision_def Let_def s3_def s4_def s2_def s1_def opens_def changed_def .
qed

lemma midnight_ok:
  assumes "service_ok clean s" "clean \<longrightarrow> decision = None \<or> sv_pending s = None"
  shows "service_ok clean (apply_midnight_boundary day ns decision payload updated s)"
proof (cases decision)
  case None
  show ?thesis by (rule service_view [OF assms(1)]) (simp_all add: apply_midnight_boundary_def None Let_def)
next
  case (Some d)
  obtain names digest body where d: "d = (names, digest, body)" by (cases d) blast
  have "service_ok clean (apply_decision ns names digest updated s)" using decision_ok [OF assms(1)] assms(2) Some by simp
  then show ?thesis by (rule service_view) (simp_all add: apply_midnight_boundary_def Some d Let_def)
qed

text \<open>The attempt under way: its gap is open, and no other pending change has the same gap; unless a decision has overtaken a
  pending change, the attempt is at the pending change.\<close>

definition attempt_ok :: "bool \<Rightarrow> service \<Rightarrow> bool" where
  "attempt_ok clean s \<longleftrightarrow>
     (\<forall>names g changed. sv_attempt s = Some (names, Some g, changed) \<longrightarrow> service_gap_open s g PLANNED_BOUNDARY \<and>
        (\<forall>n c. sv_pending s = Some (n, Some g, c) \<longrightarrow> sv_pending s = sv_attempt s)) \<and>
     (clean \<longrightarrow> sv_attempt s = None \<or> sv_attempt s = sv_pending s)"

lemma attempt_ok_mono: "attempt_ok clean s \<Longrightarrow> attempt_ok (clean \<and> b) s"
  unfolding attempt_ok_def by blast

lemma attempt_okI:
  assumes "attempt_ok clean s" "sv_attempt s' = sv_attempt s" "sv_pending s' = sv_pending s"
    "\<And>g. service_gap_open s g PLANNED_BOUNDARY \<Longrightarrow> service_gap_open s' g PLANNED_BOUNDARY"
  shows "attempt_ok clean s'"
  using assms unfolding attempt_ok_def by metis

lemma storage_check_attempt:
  assumes "service_ok clean s" "attempt_ok clean s"
  shows "attempt_ok clean (storage_check hard_limited ready ds d p s)"
proof (rule attempt_okI [OF assms(2)])
  let ?s = "storage_check hard_limited ready ds d p s"
  have ok: "sv_stale s = []" "numbered s" using assms(1) by (auto simp: service_ok_def gaps_fit_def)
  have stale: "sv_stale (start_service_sources s) = []" using ok(1) by (simp add: start_service_sources_def)
  note r = sources_ready_fields [OF stale, of ds d p, unfolded start_service_sources_def]
  show "sv_attempt ?s = sv_attempt s" "sv_pending ?s = sv_pending s"
    by (auto simp: storage_check_def Let_def r start_service_sources_def stop_service_sources_def open_service_gap_def close_service_gap_def
        split: option.split)
  fix h assume h: "service_gap_open s h PLANNED_BOUNDARY"
  have other: "sv_storage_gap s = Some g \<Longrightarrow> h \<noteq> g" for g
    using assms(1) h unfolding service_ok_def gaps_fit_def by (metis gap_reason.distinct)
  have "sv_gaps ?s = sv_gaps s \<or> sv_gaps ?s = sv_gaps (open_service_gap STORAGE_EXHAUSTED (sv_members s) None s) \<or>
      (\<exists>g symbols. sv_storage_gap s = Some g \<and> sv_gaps ?s = sv_gaps (close_service_gap g STORAGE_EXHAUSTED symbols s))"
    by (auto simp: storage_check_def Let_def r start_service_sources_def stop_service_sources_def open_service_gap_def close_service_gap_def
        split: option.split)
  then show "service_gap_open ?s h PLANNED_BOUNDARY"
    using gap_open_view [of ?s] gap_open_after_open [OF ok(2)] gap_open_after_close h other by metis
qed

lemma decision_attempt:
  assumes "service_ok clean s" "attempt_ok clean s" "clean \<longrightarrow> sv_pending s = None"
  shows "attempt_ok clean (apply_decision ns names digest updated s)"
proof -
  let ?s = "apply_decision ns names digest updated s"
  have numbered: "numbered s" using assms(1) by (simp add: service_ok_def gaps_fit_def)
  have fresh: "\<not> service_gap_open s (sv_next_gap s) v" for v using numbered by (force simp: numbered_def service_gap_open_def)
  have attempt: "sv_attempt ?s = sv_attempt s"
    by (simp add: apply_decision_def Let_def open_service_gap_def close_service_gap_def)
  have pending: "sv_pending ?s = sv_pending s \<or> (\<exists>changed. sv_pending ?s = Some (names, None, changed) \<or>
      sv_pending ?s = Some (names, Some (sv_next_gap s), changed))"
    by (simp add: apply_decision_def Let_def open_service_gap_def close_service_gap_def)
  have opens: "service_gap_open s g PLANNED_BOUNDARY \<Longrightarrow> service_gap_open ?s g PLANNED_BOUNDARY" for g
    using fresh by (auto simp: apply_decision_def Let_def open_service_gap_def close_service_gap_def service_gap_open_def)
  have "clean \<longrightarrow> sv_attempt s = None" using assms(2,3) by (auto simp: attempt_ok_def)
  then show ?thesis
    using assms(2) pending opens fresh unfolding attempt_ok_def attempt by (metis option.inject option.distinct(1) prod.inject)
qed

lemma midnight_attempt:
  assumes "service_ok clean s" "attempt_ok clean s" "clean \<longrightarrow> decision = None \<or> sv_pending s = None"
  shows "attempt_ok clean (apply_midnight_boundary day ns decision payload updated s)"
proof (cases decision)
  case None
  show ?thesis by (rule attempt_okI [OF assms(2)]) (simp_all add: apply_midnight_boundary_def None Let_def service_gap_open_def)
next
  case (Some d)
  obtain names digest body where d: "d = (names, digest, body)" by (cases d) blast
  have "attempt_ok clean (apply_decision ns names digest updated s)" using decision_attempt [OF assms(1,2)] assms(3) Some by simp
  then show ?thesis by (rule attempt_okI) (simp_all add: apply_midnight_boundary_def Some d Let_def service_gap_open_def)
qed

lemma membership_begin_ok:
  assumes "service_ok clean s" "attempt_ok clean s" "membership_begin ready s = Some s'"
  shows "service_ok clean s' \<and> attempt_ok clean s'"
proof -
  obtain change where change: "sv_pending s = Some change" "s' = s \<or> s' = s\<lparr>sv_attempt := Some change\<rparr>"
    using assms(3) by (auto simp: membership_begin_def split: option.splits if_splits)
  have "attempt_ok clean (s\<lparr>sv_attempt := Some change\<rparr>)"
    using assms(1) change(1) unfolding attempt_ok_def service_ok_def pending_open_def by (simp add: service_gap_open_def)
  moreover have "service_ok clean (s\<lparr>sv_attempt := Some change\<rparr>)" by (rule service_view [OF assms(1)]) simp_all
  ultimately show ?thesis using change(2) assms(1,2) by auto
qed

lemma membership_end_ok:
  assumes "service_ok clean s" "attempt_ok clean s" "membership_end updated s = Some s'"
  shows "service_ok clean s' \<and> attempt_ok clean s'"
proof -
  obtain names gap changed where attempt: "sv_attempt s = Some (names, gap, changed)"
    and end_: "s' = membership_updated (names, gap, changed) updated (s\<lparr>sv_attempt := None\<rparr>)"
    using assms(3) by (auto simp: membership_end_def split: option.splits)
  have ok: "gaps_fit s" "pending_open s" "sv_stale s = []" "\<not> sv_running s \<longrightarrow> sv_storage_gap s \<noteq> None" "clean \<longrightarrow> boundary_fit s"
    using assms(1) by (auto simp: service_ok_def)
  show ?thesis
  proof (cases updated)
    case False
    then have s': "s' = s\<lparr>sv_attempt := None\<rparr>" using end_ by (simp add: membership_updated_def)
    have "service_ok clean s'" by (rule service_view [OF assms(1)]) (simp_all add: s')
    then show ?thesis by (simp add: attempt_ok_def s')
  next
    case True
    define s1 where "s1 = s\<lparr>sv_attempt := None, sv_sources := names\<rparr>"
    define s2 where "s2 = (case gap of Some g \<Rightarrow> close_service_gap g PLANNED_BOUNDARY changed s1 | None \<Rightarrow> s1)"
    define s3 where "s3 = (if sv_pending s2 = Some (names, gap, changed) then s2\<lparr>sv_pending := None\<rparr> else s2)"
    have s': "s' = s3\<lparr>sv_rebalance_requested := True\<rparr>"
      using end_ True by (cases gap) (simp_all add: membership_updated_def s1_def s2_def s3_def Let_def)
    have same: "service_gap_open s1 g v = service_gap_open s g v" for g v by (simp add: s1_def service_gap_open_def)
    have gaps: "sv_gaps s' = sv_gaps s2" "sv_next_gap s' = sv_next_gap s2" by (simp_all add: s' s3_def)
    have opens: "service_gap_open s' g v \<longleftrightarrow> gap \<noteq> Some g \<and> service_gap_open s g v" for g v
    proof -
      have "service_gap_open s' g v = service_gap_open s2 g v" by (simp add: gaps service_gap_open_def)
      also have "\<dots> \<longleftrightarrow> gap \<noteq> Some g \<and> service_gap_open s g v"
        unfolding s2_def using gap_open_after_close [of _ PLANNED_BOUNDARY changed s1 g v] same by (cases gap) auto
      finally show ?thesis .
    qed
    have held: "service_gap_open s g PLANNED_BOUNDARY" if "gap = Some g" for g
      using assms(2) attempt that by (simp add: attempt_ok_def)
    have n1: "numbered s1" using ok(1) by (simp add: s1_def gaps_fit_def numbered_def)
    have "numbered s2" unfolding s2_def using n1 numbered_close [OF n1] held same by (cases gap) auto
    then have n: "numbered s'" by (simp add: gaps numbered_def)
    have f2: "sv_pending s2 = sv_pending s" by (cases gap) (simp_all add: s2_def s1_def close_service_gap_def)
    have fields: "sv_storage_gap s' = sv_storage_gap s" "sv_stale s' = sv_stale s" "sv_running s' = sv_running s" "sv_sources s' = names"
      "sv_members s' = sv_members s" "sv_attempt s' = None"
      "sv_pending s' = (if sv_pending s = Some (names, gap, changed) then None else sv_pending s)"
      by (cases gap; simp add: s' s3_def f2 s2_def s1_def close_service_gap_def)+
    have uniq: "service_gap_open s g v \<Longrightarrow> service_gap_open s g w \<Longrightarrow> v = w" for g v w using ok(1) unfolding gaps_fit_def by blast
    have stored: "sv_storage_gap s = Some g \<Longrightarrow> service_gap_open s g STORAGE_EXHAUSTED" for g using ok(1) unfolding gaps_fit_def by blast
    have "gaps_fit s'" unfolding gaps_fit_def fields opens using n stored uniq held by (auto dest: uniq)
    moreover have "boundary_fit s'" if clean
    proof -
      have "sv_pending s = Some (names, gap, changed)" using assms(2) attempt that by (simp add: attempt_ok_def)
      then show ?thesis unfolding boundary_fit_def fields opens using ok(5) that by (auto simp: boundary_fit_def)
    qed
    moreover have "pending_open s'"
      unfolding pending_open_def
    proof (intro allI impI)
      fix n g c assume p': "sv_pending s' = Some (n, Some g, c)"
      then have p: "sv_pending s = Some (n, Some g, c)" "sv_pending s \<noteq> sv_attempt s" unfolding fields attempt by (auto split: if_splits)
      then have "gap \<noteq> Some g" using assms(2) attempt unfolding attempt_ok_def by metis
      moreover have "service_gap_open s g PLANNED_BOUNDARY" using ok(2) p(1) unfolding pending_open_def by blast
      ultimately show "service_gap_open s' g PLANNED_BOUNDARY" unfolding opens by blast
    qed
    ultimately have "service_ok clean s'" using ok(3,4) fields by (intro service_fits) simp_all
    then show ?thesis by (simp add: attempt_ok_def fields)
  qed
qed

lemma service_run_ok: "service_run s0 clean s \<Longrightarrow> service_ok True s0 \<Longrightarrow> attempt_ok True s0 \<Longrightarrow> service_ok clean s \<and> attempt_ok clean s"
proof (induction rule: service_run.induct)
  case (stepped s0 clean s ev s')
  then have "service_ok clean s" "attempt_ok clean s" by simp_all
  then have ok: "service_ok (clean \<and> \<not> overtakes ev s) s" "attempt_ok (clean \<and> \<not> overtakes ev s) s"
    using attempt_ok_mono by (simp_all add: service_ok_def)
  show ?case
  proof (cases ev)
    case (Storage_Checked hard_limited ready completed decision payload)
    then have "s' = storage_check hard_limited ready completed decision payload s" using stepped.hyps(2) by (simp add: service_step_def)
    then show ?thesis using storage_check_ok [OF ok(1)] storage_check_attempt [OF ok] by simp
  next
    case (Midnight day ns decision payload updated)
    then have "s' = apply_midnight_boundary day ns decision payload updated s" using stepped.hyps(2) by (simp add: service_step_def)
    moreover have "clean \<and> \<not> overtakes ev s \<longrightarrow> decision = None \<or> sv_pending s = None"
      by (cases decision; cases "sv_pending s") (simp_all add: Midnight overtakes_def)
    ultimately show ?thesis using midnight_ok [OF ok(1)] midnight_attempt [OF ok] by simp
  next
    case (Membership_Begun ready)
    then show ?thesis using membership_begin_ok [OF ok] stepped.hyps(2) by (simp add: service_step_def)
  next
    case (Membership_Ended updated)
    then show ?thesis using membership_end_ok [OF ok] stepped.hyps(2) by (simp add: service_step_def)
  qed
qed simp

lemma started_service_ok:
  assumes "start_service recovery [] False ready completed decision payload (new_service names digest formal) = Some s"
  shows "service_ok True s"
proof -
  define s1 where "s1 = (case recovery of None \<Rightarrow> new_service names digest formal
    | Some t \<Rightarrow> open_service_gap COLLECTOR_STOPPED names (Some t) (new_service names digest formal))"
  have s: "s = sources_ready completed decision payload (start_service_sources (act [Lease_Running]
      (s1\<lparr>sv_stale := (case recovery of None \<Rightarrow> [] | Some _ \<Rightarrow> [(0, COLLECTOR_STOPPED, names)]), sv_storage_gap := None\<rparr>)))"
    using assms by (cases recovery) (auto simp: start_service_def s1_def new_service_def Let_def split: if_splits)
  show ?thesis
    by (cases recovery) (auto simp: s s1_def sources_ready_def mark_formal_start_def seal_completed_days_def close_stale_gaps_def start_service_sources_def
        new_service_def open_service_gap_def close_service_gap_def act_def Let_def service_ok_def gaps_fit_def numbered_def pending_open_def boundary_fit_def
        service_gap_open_def)
qed

lemma started_attempt:
  assumes "start_service recovery [] False ready completed decision payload (new_service names digest formal) = Some s0"
  shows "attempt_ok True s0"
proof -
  have "sv_attempt s0 = None"
    using assms by (cases recovery)
      (auto simp: start_service_def new_service_def sources_ready_def mark_formal_start_def seal_completed_days_def close_stale_gaps_def
        close_service_gap_def start_service_sources_def open_service_gap_def act_def Let_def split: if_splits)
  then show ?thesis by (simp add: attempt_ok_def)
qed

text \<open>An attempt that nothing interrupts is a begin and an end.\<close>

lemma membership_attempt_steps:
  assumes "sv_attempt s = None" "sv_running s" "membership_begin True s = Some s1"
  shows "membership_attempt True updated s = membership_end updated s1"
proof -
  obtain change where change: "sv_pending s = Some change" "s1 = s\<lparr>sv_attempt := Some change\<rparr>"
    using assms by (auto simp: membership_begin_def split: option.splits)
  moreover have "s\<lparr>sv_attempt := None\<rparr> = s" using assms(1) by (cases s) simp
  ultimately show ?thesis using assms(2) by (simp add: membership_attempt_def membership_end_def)
qed

section \<open>Properties\<close>

text \<open>C33. In every run of a service that was started below the hard limit of the spool, so with its sources, and without open gaps of
  earlier boots: stopped sources are covered by an open storage gap; and unless a
  decision fell due while the change of an earlier one was pending, running sources without a pending change have exactly the
  members of the universe in force, with no gap of a universe boundary left open. An attempt of the membership loop may be
  interleaved with the storage loop and the midnights. A start at the hard limit is excluded: see
  \<open>room_before_first_check_stays_idle\<close>.\<close>

theorem sources_follow_universe:
  assumes "start_service recovery [] False ready completed decision payload (new_service names digest formal) = Some s0"
    and "service_run s0 clean s"
  shows "(\<not> sv_running s \<longrightarrow> (\<exists>g. sv_storage_gap s = Some g \<and> service_gap_open s g STORAGE_EXHAUSTED)) \<and>
    (clean \<longrightarrow> sv_running s \<longrightarrow> sv_pending s = None \<longrightarrow> sv_sources s = sv_members s \<and> (\<forall>g. \<not> service_gap_open s g PLANNED_BOUNDARY))"
  using service_run_ok [OF assms(2) started_service_ok [OF assms(1)] started_attempt [OF assms(1)]] by (auto simp: service_ok_def gaps_fit_def boundary_fit_def)

text \<open>C34. A decision that falls due and is applied while the change of an earlier one is pending is undone: the next retry puts the
  earlier instruments back, and the gap of the later boundary stays open with nobody to close it.\<close>

theorem stale_membership_restored:
  assumes "sv_pending s = Some (old, gap, changed)" "sv_running s" "numbered s" "gap \<noteq> Some (sv_next_gap s)"
    and "symmetric_difference (sv_members s) new \<noteq> []"
    and "membership_attempt True True (apply_midnight_boundary day ns (Some (new, digest, body)) payload True s) = Some s'"
  shows "sv_members s' = new \<and> sv_sources s' = old \<and> sv_pending s' = None \<and> service_gap_open s' (sv_next_gap s) PLANNED_BOUNDARY"
proof -
  define s1 where "s1 = apply_midnight_boundary day ns (Some (new, digest, body)) payload True s"
  have s1: "sv_pending s1 = Some (old, gap, changed)" "sv_running s1" "sv_members s1 = new"
    "sv_gaps s1 = sv_gaps (open_service_gap PLANNED_BOUNDARY (symmetric_difference (sv_members s) new) (Some ns) s)"
    using assms(1,2,5) by (simp_all add: s1_def apply_midnight_boundary_def apply_decision_def Let_def open_service_gap_def)
  have "service_gap_open s1 (sv_next_gap s) PLANNED_BOUNDARY"
    using gap_open_view [OF s1(4)] gap_open_after_open [OF assms(3)] by simp
  moreover have "s' = (case gap of Some g \<Rightarrow> close_service_gap g PLANNED_BOUNDARY changed (s1\<lparr>sv_sources := old\<rparr>) | None \<Rightarrow> s1\<lparr>sv_sources := old\<rparr>)
      \<lparr>sv_pending := None, sv_rebalance_requested := True\<rparr>"
    using assms(6) s1(1,2) unfolding s1_def [symmetric] by (cases gap) (auto simp: membership_attempt_def membership_updated_def close_service_gap_def Let_def)
  ultimately show ?thesis
    using assms(4) s1(3) by (cases gap) (auto simp: close_service_gap_def service_gap_open_def)
qed

text \<open>Sources that were not started because the spool was full at the start are never started when the first check finds room.\<close>

lemma room_before_first_check_stays_idle:
  assumes "start_service None [] True ready completed decision payload (new_service names digest formal) = Some s"
  shows "\<not> sv_running s \<and> sv_gaps s = [] \<and> storage_check False r2 c2 d2 p2 s = s"
  using assms by (auto simp: start_service_def new_service_def storage_check_def Let_def)

definition demo_service :: service where
  "demo_service = the (start_service (Some 5) [] False True [] ''d'' ''p'' (new_service [''a'', ''b''] ''h'' False))"

definition demo_service_events :: "service_event list" where
  "demo_service_events = [Midnight 1 10 (Some ([''a'', ''c''], ''h2'', ''d2'')) [] False, Storage_Checked True True [] [] []]"

fun service_events :: "service_event list \<Rightarrow> bool \<times> service \<Rightarrow> (bool \<times> service) option" where
  "service_events [] x = Some x"
| "service_events (ev # evs) (clean, s) =
     (case service_step ev s of None \<Rightarrow> None | Some s1 \<Rightarrow> service_events evs (clean \<and> \<not> overtakes ev s, s1))"

lemma service_events_run: "service_events evs (clean, s) = Some (clean', s') \<Longrightarrow> service_run s0 clean s \<Longrightarrow> service_run s0 clean' s'"
proof (induction evs arbitrary: clean s)
  case (Cons ev evs)
  then obtain s1 where s1: "service_step ev s = Some s1" "service_events evs (clean \<and> \<not> overtakes ev s, s1) = Some (clean', s')"
    by (auto split: option.splits)
  show ?case by (rule Cons.IH [OF s1(2) service_run.stepped [OF Cons.prems(2) s1(1)]])
qed simp

lemma demo_service_run:
  "start_service (Some 5) [] False True [] ''d'' ''p'' (new_service [''a'', ''b''] ''h'' False) = Some demo_service"
  "case service_events demo_service_events (True, demo_service) of None \<Rightarrow> False
   | Some (clean, s) \<Rightarrow> clean \<and> \<not> sv_running s \<and> sv_pending s = Some ([''a'', ''c''], Some 1, [''b'', ''c''])"
  by code_simp+

theorem sources_follow_universe_witness:
  "\<exists>s. service_run demo_service True s \<and> \<not> sv_running s \<and> sv_members s = [''a'', ''c''] \<and>
    (\<exists>g. sv_storage_gap s = Some g \<and> service_gap_open s g STORAGE_EXHAUSTED)"
proof -
  obtain s where s: "service_events demo_service_events (True, demo_service) = Some (True, s)" "\<not> sv_running s"
    "sv_pending s = Some ([''a'', ''c''], Some 1, [''b'', ''c''])"
    using demo_service_run(2) by (auto split: option.splits)
  have run: "service_run demo_service True s" by (rule service_events_run [OF s(1) service_run.started])
  have "boundary_fit s" using service_run_ok [OF run started_service_ok [OF demo_service_run(1)] started_attempt [OF demo_service_run(1)]] by (simp add: service_ok_def)
  then have "sv_members s = [''a'', ''c'']" using s(3) by (simp add: boundary_fit_def)
  then show ?thesis using sources_follow_universe [OF demo_service_run(1) run] run s(2) by blast
qed

theorem stale_membership_restored_witness:
  "\<exists>s'. membership_attempt True True (apply_midnight_boundary 2 20 (Some ([''a'', ''d''], ''h3'', ''d3'')) []  True
      (apply_midnight_boundary 1 10 (Some ([''a'', ''c''], ''h2'', ''d2'')) [] False demo_service)) = Some s' \<and>
    sv_members s' = [''a'', ''d''] \<and> sv_sources s' = [''a'', ''c'']"
proof -
  define s where "s = apply_midnight_boundary 1 10 (Some ([''a'', ''c''], ''h2'', ''d2'')) [] False demo_service"
  have s: "sv_pending s = Some ([''a'', ''c''], Some 1, [''b'', ''c''])" "sv_running s" "sv_next_gap s = 2" "sv_members s = [''a'', ''c'']"
    "symmetric_difference [''a'', ''c''] [''a'', ''d''] \<noteq> []"
    unfolding s_def by code_simp+
  have "numbered s" unfolding s_def numbered_def by code_simp
  have "\<not> Option.is_none (membership_attempt True True (apply_midnight_boundary 2 20 (Some ([''a'', ''d''], ''h3'', ''d3'')) [] True s))"
    unfolding s_def by code_simp
  then obtain s' where s': "membership_attempt True True (apply_midnight_boundary 2 20 (Some ([''a'', ''d''], ''h3'', ''d3'')) [] True s) = Some s'"
    by (auto simp: Option.is_none_def)
  have "sv_members s' = [''a'', ''d''] \<and> sv_sources s' = [''a'', ''c''] \<and> sv_pending s' = None \<and>
      service_gap_open s' (sv_next_gap s) PLANNED_BOUNDARY"
    by (rule stale_membership_restored [OF s(1,2) \<open>numbered s\<close> _ _ s']) (use s(3,4,5) in simp_all)
  then show ?thesis using s' unfolding s_def by blast
qed

end
