(* ===== verification/Traffic.thy ===== *)
theory Traffic
  imports Contracts
begin

text \<open>
  The rates of the public streams, \<open>src/miry/collector/traffic.py\<close>: messages are counted per minute, sixty minutes in
  a row give a block with the peak of every symbol, and the last 24 blocks decide how symbols are spread over the
  routes. A \<open>Counter\<close> is a dict; the clock is read as the number of its minute. The state file is the JSON value
  that is written and read back.
\<close>

section \<open>State\<close>

definition MINUTES_PER_BLOCK :: nat where
  "MINUTES_PER_BLOCK = 60"

definition OBSERVATION_BLOCKS :: nat where
  "OBSERVATION_BLOCKS = 24"

type_synonym counter = "(string, int) dict"

record rate_block =
  rb_start :: int
  rb_end :: int
  rb_rates :: counter

record traffic =
  tf_baseline :: counter
  tf_started :: int
  tf_last :: "int option"
  tf_symbols :: "(int, counter) dict"
  tf_routes :: "(int, counter) dict"
  tf_block_start :: "int option"
  tf_block_minutes :: nat
  tf_peaks :: counter
  tf_blocks :: "rate_block list"

definition counted :: "string \<Rightarrow> counter \<Rightarrow> int" where
  "counted k c = (case dict_get c k of Some n \<Rightarrow> n | None \<Rightarrow> 0)"

definition count_one :: "int \<Rightarrow> string \<Rightarrow> (int, counter) dict \<Rightarrow> (int, counter) dict" where
  "count_one minute k counters =
     (let c = (case dict_get counters minute of Some c \<Rightarrow> c | None \<Rightarrow> []) in dict_set minute (dict_set k (counted k c + 1) c) counters)"

section \<open>Recording\<close>

definition record_message :: "int \<Rightarrow> string \<Rightarrow> string \<Rightarrow> traffic \<Rightarrow> traffic" where
  "record_message minute route s t = t\<lparr>tf_symbols := count_one minute s (tf_symbols t), tf_routes := count_one minute route (tf_routes t)\<rparr>"

definition has_complete_evidence :: "traffic \<Rightarrow> bool" where
  "has_complete_evidence t \<longleftrightarrow> length (tf_blocks t) = OBSERVATION_BLOCKS"

definition raise_to :: "counter \<Rightarrow> counter \<Rightarrow> counter" where
  "raise_to rates block = fold (\<lambda>(s, rate) rates. dict_set s (max (counted s rates) rate) rates) block rates"

definition effective_rates :: "traffic \<Rightarrow> counter" where
  "effective_rates t =
     (if \<not> has_complete_evidence t then tf_baseline t
      else let rates = fold (\<lambda>b rates. raise_to rates (rb_rates b)) (tf_blocks t) [] in
        if rates \<noteq> [] then rates else tf_baseline t)"

definition reset_block :: "traffic \<Rightarrow> traffic" where
  "reset_block t = t\<lparr>tf_block_start := None, tf_block_minutes := 0, tf_peaks := []\<rparr>"

definition discard_minutes :: "int \<Rightarrow> traffic \<Rightarrow> traffic" where
  "discard_minutes minute t = t\<lparr>tf_symbols := filter (\<lambda>(m, _). minute < m) (tf_symbols t), tf_routes := filter (\<lambda>(m, _). minute < m) (tf_routes t)\<rparr>"

definition minute_counts :: "int \<Rightarrow> traffic \<Rightarrow> counter" where
  "minute_counts minute t = (case dict_get (tf_symbols t) minute of Some c \<Rightarrow> c | None \<Rightarrow> [])"

definition extend_block :: "int \<Rightarrow> counter \<Rightarrow> traffic \<Rightarrow> traffic" where
  "extend_block minute counts t =
     (let t1 = (case tf_last t of Some l \<Rightarrow> if minute \<noteq> l + 1 then reset_block t else t | None \<Rightarrow> t) in
      t1\<lparr>tf_last := Some minute, tf_block_start := Some (case tf_block_start t1 of Some b \<Rightarrow> b | None \<Rightarrow> minute),
        tf_block_minutes := tf_block_minutes t1 + 1, tf_peaks := raise_to (tf_peaks t1) counts\<rparr>)"

definition keep_last :: "nat \<Rightarrow> 'a list \<Rightarrow> 'a list" where
  "keep_last n xs = drop (length xs - n) xs"

definition finish_minute :: "int \<Rightarrow> traffic \<Rightarrow> bool \<times> traffic" where
  "finish_minute minute t =
     (let counts = minute_counts minute t; t1 = discard_minutes minute t in
      if minute \<le> tf_started t1 then (False, t1)
      else
        let t2 = extend_block minute counts t1 in
        if tf_block_minutes t2 < MINUTES_PER_BLOCK then (False, t2)
        else (True, reset_block (t2\<lparr>tf_blocks := keep_last OBSERVATION_BLOCKS (tf_blocks t2 @
          [\<lparr>rb_start = (case tf_block_start t2 of Some b \<Rightarrow> b | None \<Rightarrow> minute), rb_end = minute, rb_rates = sort_key fst (tf_peaks t2)\<rparr>])\<rparr>)))"

section \<open>The state file\<close>

definition block_json :: "rate_block \<Rightarrow> json" where
  "block_json b = JObj [(''end_minute'', JInt (rb_end b)), (''rates'', JObj (map (\<lambda>(s, r). (s, JInt r)) (sort_key fst (rb_rates b)))),
     (''start_minute'', JInt (rb_start b))]"

definition traffic_json :: "traffic \<Rightarrow> json" where
  "traffic_json t = JObj [(''blocks'', JList (map block_json (tf_blocks t))), (''version'', JInt 1)]"

definition parse_rate :: "unicode \<Rightarrow> counter \<Rightarrow> string \<times> json \<Rightarrow> py_error + counter" where
  "parse_rate u rates kv =
     (case snd kv of
        JInt r \<Rightarrow> if \<not> is_exchange_symbol u (fst kv) \<or> r \<le> 0 then Inl (ValueError ''public traffic state contains an invalid rate'')
          else Inr (dict_set (fst kv) r rates)
      | _ \<Rightarrow> Inl (ValueError ''public traffic state contains an invalid rate''))"

definition parse_block :: "unicode \<Rightarrow> rate_block list \<Rightarrow> json \<Rightarrow> py_error + rate_block list" where
  "parse_block u blocks v =
     (case v of
        JObj o' \<Rightarrow>
          (case (instance_int (jget o' ''start_minute''), instance_int (jget o' ''end_minute'')) of
             (Some start, Some stop) \<Rightarrow>
               if stop - start \<noteq> int MINUTES_PER_BLOCK - 1 then Inl (ValueError ''public traffic block must contain 60 minutes'')
               else if blocks \<noteq> [] \<and> start \<le> rb_end (last blocks) then Inl (ValueError ''public traffic blocks must be ordered'')
               else (case jget o' ''rates'' of
                  JObj rates \<Rightarrow> rbind (fold_result (parse_rate u) [] rates) (\<lambda>r.
                    Inr (blocks @ [\<lparr>rb_start = start, rb_end = stop, rb_rates = r\<rparr>]))
                | _ \<Rightarrow> Inl (ValueError ''public traffic rates must be an object''))
           | _ \<Rightarrow> Inl (ValueError ''public traffic block minutes must be integers''))
      | _ \<Rightarrow> Inl (ValueError ''public traffic block must be an object''))"

definition parse_blocks :: "unicode \<Rightarrow> json \<Rightarrow> py_error + rate_block list" where
  "parse_blocks u v =
     (case v of
        JObj o' \<Rightarrow>
          if \<not> equals_int (jget o' ''version'') 1 then Inl (ValueError ''unsupported public traffic state'')
          else (case jget o' ''blocks'' of
             JList vs \<Rightarrow> fold_result (parse_block u) [] vs
           | _ \<Rightarrow> Inl (ValueError ''public traffic blocks must be a list''))
      | _ \<Rightarrow> Inl (ValueError ''unsupported public traffic state''))"

text \<open>\<open>None\<close>: the file is missing or is not JSON. An invalid state is ignored.\<close>

definition load_blocks :: "unicode \<Rightarrow> json option \<Rightarrow> rate_block list" where
  "load_blocks u content =
     (case content of
        None \<Rightarrow> []
      | Some v \<Rightarrow> (case parse_blocks u v of Inl _ \<Rightarrow> [] | Inr blocks \<Rightarrow> keep_last OBSERVATION_BLOCKS blocks))"

definition new_traffic :: "unicode \<Rightarrow> counter \<Rightarrow> int \<Rightarrow> json option \<Rightarrow> traffic" where
  "new_traffic u baseline minute content =
     \<lparr>tf_baseline = baseline, tf_started = minute, tf_last = None, tf_symbols = [], tf_routes = [], tf_block_start = None,
       tf_block_minutes = 0, tf_peaks = [], tf_blocks = load_blocks u content\<rparr>"

section \<open>Runs\<close>

text \<open>A run with the minutes that counted, each with its messages per symbol.\<close>

inductive traffic_run :: "traffic \<Rightarrow> (int \<times> counter) list \<Rightarrow> traffic \<Rightarrow> bool" where
  fresh: "traffic_run t0 [] t0"
| message: "traffic_run t0 hist t \<Longrightarrow> traffic_run t0 hist (record_message minute route s t)"
| finished: "traffic_run t0 hist t \<Longrightarrow>
    traffic_run t0 (if minute \<le> tf_started t then hist else hist @ [(minute, minute_counts minute t)]) (snd (finish_minute minute t))"

definition counter_ok :: "counter \<Rightarrow> bool" where
  "counter_ok c \<longleftrightarrow> dict_ok c \<and> (\<forall>(s, n) \<in> set c. 0 < n)"

lemma counter_ok_get: "counter_ok c \<Longrightarrow> dict_get c s = Some n \<Longrightarrow> 0 < n"
  by (auto simp: counter_ok_def dict_get_Some_iff)

lemma counter_ok_Nil [simp]: "counter_ok []"
  by (simp add: counter_ok_def)

lemma counter_ok_set: "counter_ok c \<Longrightarrow> 0 < n \<Longrightarrow> counter_ok (dict_set s n c)"
proof -
  assume c: "counter_ok c" and n: "0 < n"
  have ok: "dict_ok (dict_set s n c)" using c by (simp add: counter_ok_def)
  have "0 < k" if "(x, k) \<in> set (dict_set s n c)" for x k
  proof -
    have "dict_get (dict_set s n c) x = Some k" by (simp only: dict_get_Some_iff [OF ok] that)
    then show ?thesis using c n counter_ok_get [OF c] by (simp split: if_splits)
  qed
  then show "counter_ok (dict_set s n c)" using ok by (auto simp: counter_ok_def)
qed

lemma counted_nonneg: "counter_ok c \<Longrightarrow> 0 \<le> counted s c"
  using counter_ok_get [of c s] by (fastforce simp: counted_def split: option.split)

lemma raise_to_ok: "counter_ok rates \<Longrightarrow> counter_ok block \<Longrightarrow> counter_ok (raise_to rates block)"
  unfolding raise_to_def
proof (induction block arbitrary: rates)
  case (Cons kv block)
  obtain s r where kv: "kv = (s, r)" by (cases kv) blast
  have r: "0 < r" and block: "counter_ok block" using Cons.prems(2) by (auto simp: kv counter_ok_def dict_ok_def)
  have "0 < max (counted s rates) r" using r by simp
  from counter_ok_set [OF Cons.prems(1) this] Cons.IH block show ?case by (simp add: kv)
qed simp

lemma raise_to_get:
  assumes "dict_ok block"
  shows "dict_get (raise_to rates block) s = (case dict_get block s of None \<Rightarrow> dict_get rates s | Some r \<Rightarrow> Some (max (counted s rates) r))"
  using assms unfolding raise_to_def
proof (induction block arbitrary: rates)
  case (Cons kv block)
  obtain k r where kv: "kv = (k, r)" by (cases kv) blast
  have block: "dict_ok block" "dict_get block k = None" using Cons.prems by (auto simp: kv dict_ok_def dict_get_None_iff)
  have get: "dict_get (kv # block) s = (if s = k then Some r else dict_get block s)" by (simp add: kv dict_get_def)
  show ?case
    using Cons.IH [OF block(1), of "dict_set k (max (counted k rates) r) rates"] block(2)
    by (simp add: kv get [unfolded kv] counted_def split: option.split)
qed simp

text \<open>The peak of a symbol over some minutes.\<close>

definition peak_rate :: "counter list \<Rightarrow> string \<Rightarrow> int option" where
  "peak_rate counts s = (let rs = List.map_filter (\<lambda>c. dict_get c s) counts in if rs = [] then None else Some (Max (set rs)))"

lemma peak_rate_Nil [simp]: "peak_rate [] s = None"
  by (simp add: peak_rate_def map_filter_simps)

lemma peak_rate_snoc:
  "peak_rate (cs @ [c]) s = (case dict_get c s of None \<Rightarrow> peak_rate cs s
     | Some r \<Rightarrow> Some (case peak_rate cs s of None \<Rightarrow> r | Some p \<Rightarrow> max p r))"
proof -
  have split: "List.map_filter f (cs @ [c]) = List.map_filter f cs @ List.map_filter f [c]" for f :: "counter \<Rightarrow> int option"
    by (simp add: map_filter_def)
  show ?thesis
    unfolding peak_rate_def Let_def split
    by (cases "List.map_filter (\<lambda>c. dict_get c s) cs = []"; cases "dict_get c s") (auto simp: map_filter_simps max.commute)
qed

lemma raise_to_peak:
  assumes "counter_ok c" "counter_ok rates" "dict_get rates = peak_rate cs"
  shows "dict_get (raise_to rates c) = peak_rate (cs @ [c])"
proof
  fix s
  have rates: "dict_get rates s = peak_rate cs s" by (simp add: assms(3))
  have nonneg: "0 \<le> r" if "dict_get c s = Some r" for r using counter_ok_get [OF assms(1) that] by simp
  have "dict_ok c" using assms(1) by (simp add: counter_ok_def)
  then show "dict_get (raise_to rates c) s = peak_rate (cs @ [c]) s"
    using rates nonneg by (simp add: raise_to_get peak_rate_snoc counted_def split: option.split)
qed

section \<open>The counts of the open minutes\<close>

definition minutes_ok :: "(int, counter) dict \<Rightarrow> bool" where
  "minutes_ok counters \<longleftrightarrow> (\<forall>(m, c) \<in> set counters. counter_ok c)"

lemma minutes_ok_get: "minutes_ok counters \<Longrightarrow> dict_get counters m = Some c \<Longrightarrow> counter_ok c"
  by (auto simp: minutes_ok_def dict_get_def dest: map_of_SomeD)

lemma minutes_ok_set: "minutes_ok counters \<Longrightarrow> counter_ok c \<Longrightarrow> minutes_ok (dict_set m c counters)"
  by (induction counters) (auto simp: minutes_ok_def split: if_splits)

lemma count_one_ok: "minutes_ok counters \<Longrightarrow> minutes_ok (count_one m k counters)"
proof -
  assume ok: "minutes_ok counters"
  have c: "counter_ok (case dict_get counters m of Some c \<Rightarrow> c | None \<Rightarrow> [])"
    using minutes_ok_get [OF ok] by (auto split: option.split)
  have "0 < counted k (case dict_get counters m of Some c \<Rightarrow> c | None \<Rightarrow> []) + 1" using counted_nonneg [OF c, of k] by simp
  from minutes_ok_set [OF ok counter_ok_set [OF c this]] show ?thesis by (simp add: count_one_def Let_def)
qed

text \<open>What the peaks of the block in progress are, and where its minutes lie in the run.\<close>

definition block_open :: "(int \<times> counter) list \<Rightarrow> traffic \<Rightarrow> bool" where
  "block_open hist t \<longleftrightarrow>
     (\<exists>past seg. hist = past @ seg \<and> length seg = tf_block_minutes t \<and> tf_block_minutes t < MINUTES_PER_BLOCK \<and>
       dict_get (tf_peaks t) = peak_rate (map snd seg) \<and>
       (case tf_block_start t of
          None \<Rightarrow> seg = []
        | Some b \<Rightarrow> seg \<noteq> [] \<and> map fst seg = [b..b + int (length seg) - 1] \<and> tf_last t = Some (b + int (length seg) - 1)))"

definition hourly_peak :: "(int \<times> counter) list \<Rightarrow> rate_block \<Rightarrow> bool" where
  "hourly_peak hist b \<longleftrightarrow>
     (\<exists>past seg rest. hist = past @ seg @ rest \<and> length seg = MINUTES_PER_BLOCK \<and> map fst seg = [rb_start b..rb_end b] \<and>
       dict_get (rb_rates b) = peak_rate (map snd seg))"

definition recorder_ok :: "rate_block list \<Rightarrow> (int \<times> counter) list \<Rightarrow> traffic \<Rightarrow> bool" where
  "recorder_ok loaded hist t \<longleftrightarrow> minutes_ok (tf_symbols t) \<and> counter_ok (tf_peaks t) \<and> block_open hist t \<and>
     (\<forall>b \<in> set (tf_blocks t). b \<in> set loaded \<or> hourly_peak hist b)"

lemma hourly_peak_grows: "hourly_peak hist b \<Longrightarrow> hourly_peak (hist @ later) b"
  unfolding hourly_peak_def by (metis append.assoc)

lemma upto_snoc: "b \<le> m + 1 \<Longrightarrow> [b..m] @ [m + 1] = [b..m + 1]"
  by (simp add: upto_rec2 [of b "m + 1"])

lemma extend_block_open:
  fixes minute :: int
  assumes "block_open hist t" "counter_ok counts" "counter_ok (tf_peaks t)"
  defines "t' \<equiv> extend_block minute counts t"
  shows "\<exists>past seg b. hist @ [(minute, counts)] = past @ seg \<and> seg \<noteq> [] \<and> length seg = tf_block_minutes t' \<and>
    tf_block_minutes t' \<le> MINUTES_PER_BLOCK \<and> dict_get (tf_peaks t') = peak_rate (map snd seg) \<and> counter_ok (tf_peaks t') \<and>
    tf_block_start t' = Some b \<and> map fst seg = [b..minute] \<and> minute = b + int (length seg) - 1 \<and> tf_last t' = Some minute"
proof -
  obtain past seg where seg: "hist = past @ seg" "length seg = tf_block_minutes t" "tf_block_minutes t < MINUTES_PER_BLOCK"
    "dict_get (tf_peaks t) = peak_rate (map snd seg)"
    "case tf_block_start t of None \<Rightarrow> seg = []
     | Some b \<Rightarrow> seg \<noteq> [] \<and> map fst seg = [b..b + int (length seg) - 1] \<and> tf_last t = Some (b + int (length seg) - 1)"
    using assms(1) unfolding block_open_def by blast
  show ?thesis
  proof (cases "\<exists>b. tf_block_start t = Some b \<and> tf_last t = Some (minute - 1)")
    case True
    then obtain b where b: "tf_block_start t = Some b" "tf_last t = Some (minute - 1)" by blast
    have m: "minute = b + int (length seg)" "map fst seg = [b..minute - 1]" "seg \<noteq> []" using seg(5) b by auto
    have "map fst (seg @ [(minute, counts)]) = [b..minute]" using upto_snoc [of b "minute - 1"] m by simp
    moreover have t': "tf_block_minutes t' = tf_block_minutes t + 1" "tf_peaks t' = raise_to (tf_peaks t) counts"
      "tf_block_start t' = Some b" "tf_last t' = Some minute"
      using b by (simp_all add: t'_def extend_block_def Let_def)
    moreover have "dict_get (tf_peaks t') = peak_rate (map snd (seg @ [(minute, counts)]))"
      using raise_to_peak [OF assms(2,3) seg(4)] t'(2) by simp
    moreover have "counter_ok (tf_peaks t')" using raise_to_ok [OF assms(3,2)] t'(2) by simp
    ultimately show ?thesis using seg(1-3) m(1)
      by (intro exI [of _ past] exI [of _ "seg @ [(minute, counts)]"] exI [of _ b]) simp
  next
    case False
    have t': "tf_block_minutes t' = 1 \<and> tf_peaks t' = raise_to [] counts \<and> tf_block_start t' = Some minute \<and> tf_last t' = Some minute"
    proof (cases "tf_block_start t")
      case None
      then have "seg = []" using seg(5) by simp
      then have "tf_block_minutes t = 0" "dict_get (tf_peaks t) = Map.empty" using seg(2,4) by (auto simp: fun_eq_iff)
      moreover have "tf_peaks t = []" using calculation(2) by (cases "tf_peaks t") (auto simp: dict_get_def fun_eq_iff split: if_splits)
      ultimately show ?thesis using None by (auto simp: t'_def extend_block_def reset_block_def Let_def split: option.split)
    next
      case (Some b)
      then obtain l where "tf_last t = Some l" "l + 1 \<noteq> minute" using seg(5) False by auto
      then show ?thesis by (auto simp: t'_def extend_block_def reset_block_def Let_def)
    qed
    have "dict_get (raise_to [] counts) = peak_rate ([] @ [counts])" by (rule raise_to_peak [OF assms(2)]) (auto simp: fun_eq_iff)
    moreover have "counter_ok (raise_to [] counts)" using raise_to_ok [OF counter_ok_Nil assms(2)] .
    ultimately show ?thesis using t'
      by (intro exI [of _ hist] exI [of _ "[(minute, counts)]"] exI [of _ minute]) (simp add: MINUTES_PER_BLOCK_def)
  qed
qed

section \<open>Blocks are hourly peaks\<close>

lemma reset_block_open: "tf_block_minutes t = 0 \<or> True \<Longrightarrow> block_open hist (reset_block t)"
  unfolding block_open_def
  by (intro exI [of _ hist] exI [of _ "[]"]) (auto simp: reset_block_def MINUTES_PER_BLOCK_def fun_eq_iff)

lemma block_open_view:
  assumes "block_open hist t" "tf_block_minutes t' = tf_block_minutes t" "tf_peaks t' = tf_peaks t" "tf_block_start t' = tf_block_start t"
    "tf_last t' = tf_last t"
  shows "block_open hist t'"
  using assms(1) unfolding block_open_def assms(2-5) .

lemma minutes_ok_filter: "minutes_ok counters \<Longrightarrow> minutes_ok (filter p counters)"
  by (auto simp: minutes_ok_def)

lemma discard_view:
  "tf_block_minutes (discard_minutes m t) = tf_block_minutes t" "tf_peaks (discard_minutes m t) = tf_peaks t"
  "tf_block_start (discard_minutes m t) = tf_block_start t" "tf_last (discard_minutes m t) = tf_last t"
  "tf_blocks (discard_minutes m t) = tf_blocks t" "tf_started (discard_minutes m t) = tf_started t"
  by (simp_all add: discard_minutes_def)

lemma extend_view:
  "tf_symbols (extend_block m c t) = tf_symbols t" "tf_blocks (extend_block m c t) = tf_blocks t" "tf_started (extend_block m c t) = tf_started t"
  by (simp_all add: extend_block_def reset_block_def Let_def split: option.split)

lemma minute_counts_ok: "minutes_ok (tf_symbols t) \<Longrightarrow> counter_ok (minute_counts m t)"
  using minutes_ok_get [of "tf_symbols t" m] by (auto simp: minute_counts_def split: option.split)

lemma keep_last_subset: "set (keep_last n xs) \<subseteq> set xs"
  by (auto simp: keep_last_def dest: in_set_dropD)

lemma sort_counter_get:
  assumes "dict_ok c"
  shows "dict_get (sort_key fst c) = dict_get c" "dict_ok (sort_key fst c)"
proof -
  show ok: "dict_ok (sort_key fst c)" using assms by (simp add: dict_ok_def distinct_map)
  show "dict_get (sort_key fst c) = dict_get c"
  proof
    fix s
    have "dict_get (sort_key fst c) s = Some v \<longleftrightarrow> dict_get c s = Some v" for v
      by (simp add: dict_get_Some_iff [OF assms] dict_get_Some_iff [OF ok])
    then show "dict_get (sort_key fst c) s = dict_get c s" by (metis not_None_eq)
  qed
qed

lemma finish_minute_ok:
  assumes "recorder_ok loaded hist t"
  shows "recorder_ok loaded (if minute \<le> tf_started t then hist else hist @ [(minute, minute_counts minute t)]) (snd (finish_minute minute t))"
proof -
  have ok: "minutes_ok (tf_symbols t)" "counter_ok (tf_peaks t)" "block_open hist t" "\<forall>b \<in> set (tf_blocks t). b \<in> set loaded \<or> hourly_peak hist b"
    using assms by (auto simp: recorder_ok_def)
  define t1 where "t1 = discard_minutes minute t"
  have t1: "block_open hist t1" by (rule block_open_view [OF ok(3)]) (simp_all add: t1_def discard_view)
  have symbols: "minutes_ok (tf_symbols t1)" using minutes_ok_filter [OF ok(1)] by (simp add: t1_def discard_minutes_def)
  show ?thesis
  proof (cases "minute \<le> tf_started t")
    case True
    then have "snd (finish_minute minute t) = t1" by (simp add: finish_minute_def t1_def discard_view Let_def)
    then show ?thesis using True t1 symbols ok by (simp add: recorder_ok_def t1_def discard_view)
  next
    case False
    define counts where "counts = minute_counts minute t"
    define t2 where "t2 = extend_block minute counts t1"
    have counts: "counter_ok counts" using minute_counts_ok [OF ok(1)] by (simp add: counts_def)
    have peaks: "counter_ok (tf_peaks t1)" using ok(2) by (simp add: t1_def discard_view)
    obtain past seg b where seg: "hist @ [(minute, counts)] = past @ seg" "seg \<noteq> []" "length seg = tf_block_minutes t2"
      "tf_block_minutes t2 \<le> MINUTES_PER_BLOCK" "dict_get (tf_peaks t2) = peak_rate (map snd seg)" "counter_ok (tf_peaks t2)"
      "tf_block_start t2 = Some b" "map fst seg = [b..minute]" "minute = b + int (length seg) - 1" "tf_last t2 = Some minute"
      using extend_block_open [OF t1 counts peaks, of minute] unfolding t2_def by blast
    have blocks: "\<forall>k \<in> set (tf_blocks t2). k \<in> set loaded \<or> hourly_peak (hist @ [(minute, counts)]) k"
      using ok(4) hourly_peak_grows by (auto simp: t2_def extend_view t1_def discard_view)
    have symbols2: "minutes_ok (tf_symbols t2)" using symbols by (simp add: t2_def extend_view)
    show ?thesis
    proof (cases "tf_block_minutes t2 < MINUTES_PER_BLOCK")
      case True
      then have "snd (finish_minute minute t) = t2"
        using False by (simp add: finish_minute_def t1_def [symmetric] counts_def [symmetric] t2_def [symmetric] Let_def)
          (simp add: t1_def discard_view)
      moreover have "block_open (hist @ [(minute, counts)]) t2"
        unfolding block_open_def using seg True by (intro exI [of _ past] exI [of _ seg]) auto
      ultimately show ?thesis using False symbols2 seg(6) blocks by (simp add: recorder_ok_def counts_def)
    next
      case full: False
      define new where "new = \<lparr>rb_start = b, rb_end = minute, rb_rates = sort_key fst (tf_peaks t2)\<rparr>"
      have result: "snd (finish_minute minute t) = reset_block (t2\<lparr>tf_blocks := keep_last OBSERVATION_BLOCKS (tf_blocks t2 @ [new])\<rparr>)"
        using False full seg(7) by (simp add: finish_minute_def t1_def [symmetric] counts_def [symmetric] t2_def [symmetric] Let_def new_def)
          (simp add: t1_def discard_view)
      have "dict_ok (tf_peaks t2)" using seg(6) by (simp add: counter_ok_def)
      then have "dict_get (rb_rates new) = peak_rate (map snd seg)" using seg(5) by (simp add: new_def sort_counter_get(1))
      moreover have "map fst seg = [rb_start new..rb_end new]" using seg(8) by (simp add: new_def)
      moreover have "hist @ [(minute, counts)] = past @ seg @ []" "length seg = MINUTES_PER_BLOCK" using seg(1,3,4) full by simp_all
      ultimately have "hourly_peak (hist @ [(minute, counts)]) new" unfolding hourly_peak_def by blast
      then have "\<forall>k \<in> set (keep_last OBSERVATION_BLOCKS (tf_blocks t2 @ [new])). k \<in> set loaded \<or> hourly_peak (hist @ [(minute, counts)]) k"
        using blocks keep_last_subset by fastforce
      then show ?thesis using False symbols2 unfolding result
        by (auto simp: recorder_ok_def counts_def [symmetric] reset_block_open) (auto simp: reset_block_def)
    qed
  qed
qed

lemma traffic_run_ok: "traffic_run t0 hist t \<Longrightarrow> recorder_ok loaded [] t0 \<Longrightarrow> recorder_ok loaded hist t"
proof (induction rule: traffic_run.induct)
  case (message t0 hist t minute route s)
  then have ok: "recorder_ok loaded hist t" by simp
  have "block_open hist (record_message minute route s t)"
    by (rule block_open_view [of _ t]) (use ok in \<open>simp_all add: record_message_def recorder_ok_def\<close>)
  then show ?case using ok count_one_ok by (simp add: recorder_ok_def record_message_def)
next
  case (finished t0 hist t minute)
  then show ?case using finish_minute_ok by blast
qed simp

lemma new_traffic_ok: "recorder_ok (load_blocks u content) [] (new_traffic u baseline minute content)"
  by (auto simp: recorder_ok_def new_traffic_def minutes_ok_def block_open_def MINUTES_PER_BLOCK_def fun_eq_iff)

section \<open>What is saved is loaded again\<close>

definition block_fits :: "unicode \<Rightarrow> rate_block \<Rightarrow> bool" where
  "block_fits u b \<longleftrightarrow> rb_end b - rb_start b = int MINUTES_PER_BLOCK - 1 \<and> counter_ok (rb_rates b) \<and> sorted (map fst (rb_rates b)) \<and>
     (\<forall>s \<in> fst ` set (rb_rates b). is_exchange_symbol u s)"

definition blocks_fit :: "unicode \<Rightarrow> rate_block list \<Rightarrow> bool" where
  "blocks_fit u blocks \<longleftrightarrow> (\<forall>b \<in> set blocks. block_fits u b) \<and> sorted_wrt (\<lambda>a b. rb_end a < rb_start b) blocks \<and>
     length blocks \<le> OBSERVATION_BLOCKS"

lemma dict_set_fresh: "dict_get c s = None \<Longrightarrow> dict_set s r c = c @ [(s, r)]"
  by (induction c) (auto simp: dict_get_def split: if_splits)

lemma parse_rates_saved:
  assumes "dict_ok (acc @ rates)" "\<forall>(s, r) \<in> set rates. is_exchange_symbol u s \<and> 0 < r"
  shows "fold_result (parse_rate u) acc (map (\<lambda>(s, r). (s, JInt r)) rates) = Inr (acc @ rates)"
  using assms
proof (induction rates arbitrary: acc)
  case (Cons kv rates)
  obtain s r where kv: "kv = (s, r)" by (cases kv) blast
  have "dict_get acc s = None" using Cons.prems(1) by (auto simp: kv dict_ok_def dict_get_None_iff)
  then have "parse_rate u acc (s, JInt r) = Inr (acc @ [(s, r)])" using Cons.prems(2) by (simp add: kv parse_rate_def dict_set_fresh)
  then show ?case using Cons.IH [of "acc @ [(s, r)]"] Cons.prems by (simp add: kv)
qed simp

lemma sorted_counter_same: "dict_ok c \<Longrightarrow> sorted (map fst c) \<Longrightarrow> sort_key fst c = c"
  by (simp add: sort_key_id_if_sorted)

lemma parse_block_saved:
  assumes "block_fits u b" "blocks \<noteq> [] \<longrightarrow> rb_end (last blocks) < rb_start b"
  shows "parse_block u blocks (block_json b) = Inr (blocks @ [b])"
proof -
  have ok: "dict_ok (rb_rates b)" "sorted (map fst (rb_rates b))" "\<forall>(s, r) \<in> set (rb_rates b). is_exchange_symbol u s \<and> 0 < r"
    using assms(1) by (auto simp: block_fits_def counter_ok_def)
  have "fold_result (parse_rate u) [] (map (\<lambda>(s, r). (s, JInt r)) (rb_rates b)) = Inr (rb_rates b)"
    using parse_rates_saved [of "[]" "rb_rates b" u] ok by simp
  then show ?thesis using assms
    by (auto simp: parse_block_def block_json_def jget_def instance_int_def block_fits_def sort_key_id_if_sorted)
qed

lemma parse_blocks_saved:
  assumes "sorted_wrt (\<lambda>a b. rb_end a < rb_start b) (acc @ blocks)" "\<forall>b \<in> set blocks. block_fits u b"
  shows "fold_result (parse_block u) acc (map block_json blocks) = Inr (acc @ blocks)"
  using assms
proof (induction blocks arbitrary: acc)
  case (Cons b blocks)
  have "acc \<noteq> [] \<longrightarrow> rb_end (last acc) < rb_start b" using Cons.prems(1) by (auto simp: sorted_wrt_append)
  then show ?case using parse_block_saved [of u b acc] Cons by simp
qed simp

lemma saved_blocks_load: "blocks_fit u (tf_blocks t) \<Longrightarrow> load_blocks u (Some (traffic_json t)) = tf_blocks t"
  using parse_blocks_saved [of "[]" "tf_blocks t" u]
  by (auto simp: load_blocks_def parse_blocks_def traffic_json_def jget_def equals_int_def blocks_fit_def keep_last_def)

lemma parse_rate_keeps:
  assumes "parse_rate u rates kv = Inr rates'" "counter_ok rates" "\<forall>s \<in> fst ` set rates. is_exchange_symbol u s"
  shows "counter_ok rates' \<and> (\<forall>s \<in> fst ` set rates'. is_exchange_symbol u s)"
proof -
  obtain r where r: "rates' = dict_set (fst kv) r rates" "0 < r" "is_exchange_symbol u (fst kv)"
    using assms(1) by (auto simp: parse_rate_def simp del: dict_set.simps split: json.splits if_splits)
  show ?thesis unfolding r(1) set_keys_set using counter_ok_set [OF assms(2) r(2)] assms(3) r(3) by (simp del: dict_set.simps)
qed

lemma parse_block_keeps:
  assumes "parse_block u blocks v = Inr blocks'"
    and "sorted_wrt (\<lambda>a b. rb_end a < rb_start b) blocks" "\<forall>b \<in> set blocks. sorted (map fst (rb_rates b)) \<longrightarrow> block_fits u b"
    and "\<forall>b \<in> set blocks. rb_start b \<le> rb_end b"
  shows "sorted_wrt (\<lambda>a b. rb_end a < rb_start b) blocks' \<and> (\<forall>b \<in> set blocks'. sorted (map fst (rb_rates b)) \<longrightarrow> block_fits u b) \<and>
    (\<forall>b \<in> set blocks'. rb_start b \<le> rb_end b)"
proof -
  obtain start stop rates r where new: "blocks' = blocks @ [\<lparr>rb_start = start, rb_end = stop, rb_rates = r\<rparr>]"
    "stop - start = int MINUTES_PER_BLOCK - 1" "blocks = [] \<or> rb_end (last blocks) < start" "fold_result (parse_rate u) [] rates = Inr r"
    using assms(1) by (auto simp: parse_block_def rbind_Inr_iff split: json.splits option.splits if_splits)
  have "counter_ok r \<and> (\<forall>s \<in> fst ` set r. is_exchange_symbol u s)"
    by (rule fold_result_invariant [OF new(4)]) (use parse_rate_keeps in auto)
  moreover have "rb_end b < start" if "b \<in> set blocks" for b
  proof -
    have ne: "blocks \<noteq> []" using that by auto
    then have "rb_end b \<le> rb_end (last blocks)"
    proof (cases "b = last blocks")
      case False
      have split: "blocks = butlast blocks @ [last blocks]" using ne by simp
      then have "b \<in> set (butlast blocks)" using that False by (metis rotate1.simps(2) set_ConsD set_rotate1)
      moreover have "sorted_wrt (\<lambda>a b. rb_end a < rb_start b) (butlast blocks @ [last blocks])" using assms(2) split by simp
      ultimately have "rb_end b < rb_start (last blocks)" unfolding sorted_wrt_append by simp
      then show ?thesis using bspec [OF assms(4) last_in_set [OF ne]] by linarith
    qed simp
    then show ?thesis using new(3) ne by auto
  qed
  ultimately show ?thesis using new(2) assms(2-4) unfolding new(1)
    by (auto simp: sorted_wrt_append block_fits_def MINUTES_PER_BLOCK_def)
qed

lemma sorted_wrt_keep_last: "sorted_wrt P xs \<Longrightarrow> sorted_wrt P (keep_last n xs)"
  by (simp add: keep_last_def sorted_wrt_drop)

lemma loaded_blocks_fit:
  assumes "\<forall>b \<in> set (load_blocks u content). sorted (map fst (rb_rates b))"
  shows "blocks_fit u (load_blocks u content)"
proof (cases "load_blocks u content = []")
  case False
  then obtain v o' vs blocks where v: "content = Some v" "fold_result (parse_block u) [] vs = Inr blocks"
    "load_blocks u content = keep_last OBSERVATION_BLOCKS blocks"
    by (auto simp: load_blocks_def parse_blocks_def split: option.splits sum.splits json.splits if_splits)
  have "sorted_wrt (\<lambda>a b. rb_end a < rb_start b) blocks \<and> (\<forall>b \<in> set blocks. sorted (map fst (rb_rates b)) \<longrightarrow> block_fits u b) \<and>
      (\<forall>b \<in> set blocks. rb_start b \<le> rb_end b)"
    by (rule fold_result_invariant [OF v(2)]) (use parse_block_keeps in auto)
  then show ?thesis
    using assms keep_last_subset [of OBSERVATION_BLOCKS blocks] sorted_wrt_keep_last
    unfolding blocks_fit_def v(3) by (auto simp: keep_last_def)
qed (simp add: blocks_fit_def)

text \<open>In a run whose minutes only grow the blocks stay ordered, before the block in progress.\<close>

definition last_minute :: "(int \<times> counter) list \<Rightarrow> traffic \<Rightarrow> int" where
  "last_minute hist t = (if hist = [] then tf_started t else fst (last hist))"

definition saved_ok :: "unicode \<Rightarrow> (int \<times> counter) list \<Rightarrow> traffic \<Rightarrow> bool" where
  "saved_ok u hist t \<longleftrightarrow> blocks_fit u (tf_blocks t) \<and> (\<forall>b \<in> set (tf_blocks t). rb_end b \<le> last_minute hist t) \<and> tf_started t \<le> last_minute hist t \<and>
     (\<forall>start. tf_block_start t = Some start \<longrightarrow> (\<forall>b \<in> set (tf_blocks t). rb_end b < start))"

definition orderly :: "unicode \<Rightarrow> (int \<times> counter) list \<Rightarrow> bool" where
  "orderly u hist \<longleftrightarrow> sorted_wrt (<) (map fst hist) \<and> (\<forall>(m, c) \<in> set hist. \<forall>s \<in> fst ` set c. is_exchange_symbol u s)"

lemma extend_block_start:
  "tf_block_start (extend_block minute counts t) = Some minute \<or> tf_block_start (extend_block minute counts t) = tf_block_start t"
  by (auto simp: extend_block_def reset_block_def Let_def split: option.split)

lemma peak_rate_counted: "peak_rate cs s = Some r \<Longrightarrow> \<exists>c \<in> set cs. dict_get c s \<noteq> None"
  by (induction cs rule: rev_induct) (auto simp: peak_rate_snoc split: option.splits)

lemma peaks_valid:
  assumes "orderly u hist" "hist = past @ seg" "dict_get peaks = peak_rate (map snd seg)" "s \<in> fst ` set peaks"
  shows "is_exchange_symbol u s"
proof -
  obtain r where "dict_get peaks s = Some r" using assms(4) dict_get_None_iff [of peaks s] by (cases "dict_get peaks s") auto
  then have "peak_rate (map snd seg) s = Some r" unfolding assms(3) .
  from peak_rate_counted [OF this] obtain m c where c: "(m, c) \<in> set seg" "dict_get c s \<noteq> None" by auto
  then have "s \<in> fst ` set c" using dict_get_None_iff by metis
  moreover have "(m, c) \<in> set hist" using c(1) assms(2) by simp
  ultimately show ?thesis using assms(1) by (fastforce simp: orderly_def)
qed

lemma finish_minute_saved:
  assumes "recorder_ok loaded hist t" "saved_ok u hist t" "tf_started t < minute" "orderly u (hist @ [(minute, minute_counts minute t)])"
  shows "saved_ok u (hist @ [(minute, minute_counts minute t)]) (snd (finish_minute minute t))"
proof -
  define counts where "counts = minute_counts minute t"
  define t1 where "t1 = discard_minutes minute t"
  define t2 where "t2 = extend_block minute counts t1"
  have ok: "minutes_ok (tf_symbols t)" "counter_ok (tf_peaks t)" "block_open hist t" using assms(1) by (auto simp: recorder_ok_def)
  have fits: "blocks_fit u (tf_blocks t)" "\<forall>b \<in> set (tf_blocks t). rb_end b \<le> last_minute hist t"
    "\<forall>b \<in> set (tf_blocks t). \<forall>start. tf_block_start t = Some start \<longrightarrow> rb_end b < start"
    using assms(2) by (auto simp: saved_ok_def)
  have t1: "block_open hist t1" by (rule block_open_view [OF ok(3)]) (simp_all add: t1_def discard_view)
  have counts: "counter_ok counts" using minute_counts_ok [OF ok(1)] by (simp add: counts_def)
  have peaks: "counter_ok (tf_peaks t1)" using ok(2) by (simp add: t1_def discard_view)
  obtain past seg b where seg: "hist @ [(minute, counts)] = past @ seg" "seg \<noteq> []" "length seg = tf_block_minutes t2"
      "tf_block_minutes t2 \<le> MINUTES_PER_BLOCK" "dict_get (tf_peaks t2) = peak_rate (map snd seg)" "counter_ok (tf_peaks t2)"
      "tf_block_start t2 = Some b" "map fst seg = [b..minute]" "minute = b + int (length seg) - 1" "tf_last t2 = Some minute"
    using extend_block_open [OF t1 counts peaks, of minute] unfolding t2_def by blast
  have "last_minute hist t < minute"
    using assms(3,4) by (cases "hist = []") (auto simp: last_minute_def orderly_def sorted_wrt_append)
  then have before: "rb_end k < b" if "k \<in> set (tf_blocks t)" for k
    using extend_block_start [of minute counts t1] seg(7) fits(2,3) that by (auto simp: t2_def t1_def discard_view)
  have blocks: "tf_blocks t2 = tf_blocks t" "tf_started t2 = tf_started t" by (simp_all add: t2_def t1_def extend_view discard_view)
  have b: "b \<le> minute" using seg(2,9) by (cases seg) auto
  show ?thesis
  proof (cases "tf_block_minutes t2 < MINUTES_PER_BLOCK")
    case True
    then have "snd (finish_minute minute t) = t2"
      using assms(3) by (simp add: finish_minute_def t1_def [symmetric] counts_def [symmetric] t2_def [symmetric] Let_def)
        (simp add: t1_def discard_view)
    then show ?thesis using fits(1) before b seg(7) assms(3) by (auto simp: saved_ok_def blocks last_minute_def dest: before)
  next
    case False
    define new where "new = \<lparr>rb_start = b, rb_end = minute, rb_rates = sort_key fst (tf_peaks t2)\<rparr>"
    have result: "snd (finish_minute minute t) = reset_block (t2\<lparr>tf_blocks := keep_last OBSERVATION_BLOCKS (tf_blocks t2 @ [new])\<rparr>)"
      using assms(3) False seg(7) by (simp add: finish_minute_def t1_def [symmetric] counts_def [symmetric] t2_def [symmetric] Let_def new_def)
        (simp add: t1_def discard_view)
    have valid: "is_exchange_symbol u s" if "s \<in> fst ` set (tf_peaks t2)" for s
      using peaks_valid [OF assms(4) _ seg(5) that] seg(1) by (simp add: counts_def)
    have "counter_ok (sort_key fst (tf_peaks t2))" using seg(6) sort_counter_get(2) [of "tf_peaks t2"] by (simp add: counter_ok_def)
    then have "block_fits u new"
      using valid seg(3,4,9) False by (auto simp: block_fits_def new_def)
    then have "\<forall>k \<in> set (tf_blocks t @ [new]). block_fits u k" using fits(1) by (simp add: blocks_fit_def)
    moreover have "sorted_wrt (\<lambda>a b. rb_end a < rb_start b) (tf_blocks t @ [new])"
      using fits(1) before by (simp add: blocks_fit_def sorted_wrt_append new_def)
    ultimately have "blocks_fit u (keep_last OBSERVATION_BLOCKS (tf_blocks t @ [new]))"
      using keep_last_subset [of OBSERVATION_BLOCKS "tf_blocks t @ [new]"] sorted_wrt_keep_last
      unfolding blocks_fit_def by (auto simp: keep_last_def simp del: drop_append)
    moreover have "\<forall>k \<in> set (keep_last OBSERVATION_BLOCKS (tf_blocks t @ [new])). rb_end k \<le> minute"
    proof
      fix k
      assume "k \<in> set (keep_last OBSERVATION_BLOCKS (tf_blocks t @ [new]))"
      then have "k \<in> set (tf_blocks t) \<or> k = new" using keep_last_subset [of OBSERVATION_BLOCKS "tf_blocks t @ [new]"] by auto
      then show "rb_end k \<le> minute" using before [of k] b by (auto simp: new_def)
    qed
    ultimately show ?thesis using assms(3) unfolding result by (auto simp: saved_ok_def reset_block_def last_minute_def blocks)
  qed
qed

lemma orderly_prefix: "orderly u (hist @ later) \<Longrightarrow> orderly u hist"
  by (auto simp: orderly_def sorted_wrt_append)

lemma traffic_run_saved:
  "traffic_run t0 hist t \<Longrightarrow> recorder_ok loaded [] t0 \<Longrightarrow> saved_ok u [] t0 \<Longrightarrow> orderly u hist \<Longrightarrow> saved_ok u hist t"
proof (induction rule: traffic_run.induct)
  case (message t0 hist t minute route s)
  then have "saved_ok u hist t" by simp
  then show ?case by (simp add: saved_ok_def record_message_def last_minute_def split: if_splits)
next
  case (finished t0 hist t minute)
  note ok = traffic_run_ok [OF finished.hyps finished.prems(1)]
  show ?case
  proof (cases "minute \<le> tf_started t")
    case True
    then have "snd (finish_minute minute t) = discard_minutes minute t" by (simp add: finish_minute_def discard_view Let_def)
    moreover have "saved_ok u hist t" using finished.IH finished.prems True by simp
    ultimately show ?thesis using True by (simp add: saved_ok_def discard_view last_minute_def split: if_splits)
  next
    case False
    then have "orderly u (hist @ [(minute, minute_counts minute t)])" using finished.prems by simp
    moreover have "saved_ok u hist t" using finished.IH finished.prems(1,2) orderly_prefix [OF calculation] by blast
    ultimately show ?thesis using finish_minute_saved [OF ok] False by simp
  qed
qed simp

section \<open>Properties\<close>

text \<open>C35. In every run each block that was not loaded at the start covers sixty minutes that were counted one after the other, and its
  rates are the largest number of messages each symbol had in one of them.\<close>

theorem blocks_are_hourly_peaks:
  assumes "traffic_run (new_traffic u baseline minute content) hist t" "b \<in> set (tf_blocks t)" "b \<notin> set (load_blocks u content)"
  shows "\<exists>past seg rest. hist = past @ seg @ rest \<and> length seg = 60 \<and> map fst seg = [rb_start b..rb_end b] \<and>
    dict_get (rb_rates b) = peak_rate (map snd seg)"
  using traffic_run_ok [OF assms(1) new_traffic_ok] assms(2,3)
  by (auto simp: recorder_ok_def hourly_peak_def MINUTES_PER_BLOCK_def)

text \<open>As long as the minutes only grow and the symbols are valid, a restart reads back exactly the blocks that were saved.\<close>

lemma saved_traffic_reloads:
  assumes "traffic_run (new_traffic u baseline minute content) hist t" "orderly u hist"
    and "\<forall>b \<in> set (load_blocks u content). rb_end b \<le> minute \<and> sorted (map fst (rb_rates b))"
  shows "load_blocks u (Some (traffic_json t)) = tf_blocks t"
proof -
  have "blocks_fit u (load_blocks u content)" using assms(3) by (intro loaded_blocks_fit) simp
  then have "saved_ok u [] (new_traffic u baseline minute content)"
    using assms(3) by (simp add: saved_ok_def new_traffic_def last_minute_def)
  from traffic_run_saved [OF assms(1) new_traffic_ok this assms(2)] show ?thesis
    by (intro saved_blocks_load) (simp add: saved_ok_def)
qed

fun finish_minutes :: "int list \<Rightarrow> (int \<times> counter) list \<times> traffic \<Rightarrow> (int \<times> counter) list \<times> traffic" where
  "finish_minutes [] x = x"
| "finish_minutes (m # ms) (hist, t) =
     finish_minutes ms (if m \<le> tf_started t then hist else hist @ [(m, minute_counts m t)], snd (finish_minute m t))"

lemma finish_minutes_run: "traffic_run t0 hist t \<Longrightarrow> finish_minutes ms (hist, t) = (hist', t') \<Longrightarrow> traffic_run t0 hist' t'"
proof (induction ms arbitrary: hist t)
  case (Cons m ms)
  show ?case by (rule Cons.IH [OF traffic_run.finished [OF Cons.prems(1), of m]]) (use Cons.prems(2) in simp)
qed simp

definition plain_unicode :: unicode where
  "plain_unicode = \<lparr>u_strip = id, u_nfc = id, u_upper = id, u_isalnum = (\<lambda>_. True)\<rparr>"

definition demo_traffic :: traffic where
  "demo_traffic = new_traffic plain_unicode [] 0 None"

definition demo_counts :: traffic where
  "demo_counts = record_message 2 ''public-0'' ''BTCUSDT'' (record_message 2 ''public-0'' ''BTCUSDT'' demo_traffic)"

lemma demo_hour: "case finish_minutes [1..60] ([], demo_counts) of (hist, t) \<Rightarrow>
   tf_blocks t = [\<lparr>rb_start = 1, rb_end = 60, rb_rates = [(''BTCUSDT'', 2)]\<rparr>] \<and> map fst hist = [1..60] \<and>
   list_all (\<lambda>(m, c). list_all (\<lambda>(s, _). s = ''BTCUSDT'') c) hist"
  by code_simp

text \<open>A clock that steps back after a full block: the next block begins with the minute the last one ended with.\<close>

lemma repeated_minute_spoils_state: "load_blocks plain_unicode (Some (traffic_json (snd (finish_minutes ([1..60] @ [60..119]) ([], demo_counts))))) = []"
  by code_simp

lemma demo_counts_run: "traffic_run demo_traffic [] demo_counts"
  unfolding demo_counts_def by (intro traffic_run.message traffic_run.fresh)

lemma demo_loaded: "load_blocks plain_unicode None = []"
  by (simp add: load_blocks_def)

lemma demo_traffic_run:
  obtains hist t where "traffic_run (new_traffic plain_unicode [] 0 None) hist t" "map fst hist = [1..60]" "orderly plain_unicode hist"
    "tf_blocks t = [\<lparr>rb_start = 1, rb_end = 60, rb_rates = [(''BTCUSDT'', 2)]\<rparr>]"
proof -
  obtain hist t where ht: "finish_minutes [1..60] ([], demo_counts) = (hist, t)" by (cases "finish_minutes [1..60] ([], demo_counts)") blast
  note run = finish_minutes_run [OF demo_counts_run ht]
  have facts: "tf_blocks t = [\<lparr>rb_start = 1, rb_end = 60, rb_rates = [(''BTCUSDT'', 2)]\<rparr>]" "map fst hist = [1..60]"
    "list_all (\<lambda>(m, c). list_all (\<lambda>(s, _). s = ''BTCUSDT'') c) hist"
    using demo_hour ht by auto
  have "is_exchange_symbol plain_unicode ''BTCUSDT''" by code_simp
  then have "\<forall>(m, c) \<in> set hist. \<forall>s \<in> fst ` set c. is_exchange_symbol plain_unicode s"
    using facts(3) by (fastforce simp: list_all_iff)
  moreover have "sorted_wrt (<) (map fst hist)" unfolding facts(2) by code_simp
  ultimately show thesis using that run facts(1,2) by (auto simp: demo_traffic_def orderly_def)
qed

theorem blocks_are_hourly_peaks_witness:
  "\<exists>hist t past seg rest. traffic_run (new_traffic plain_unicode [] 0 None) hist t \<and> tf_blocks t \<noteq> [] \<and> hist = past @ seg @ rest \<and>
    length seg = 60 \<and> peak_rate (map snd seg) ''BTCUSDT'' = Some 2"
proof -
  obtain hist t where run: "traffic_run (new_traffic plain_unicode [] 0 None) hist t" "map fst hist = [1..60]" "orderly plain_unicode hist"
    "tf_blocks t = [\<lparr>rb_start = 1, rb_end = 60, rb_rates = [(''BTCUSDT'', 2)]\<rparr>]" by (rule demo_traffic_run)
  from blocks_are_hourly_peaks [OF run(1), of "\<lparr>rb_start = 1, rb_end = 60, rb_rates = [(''BTCUSDT'', 2)]\<rparr>"]
  obtain past seg rest where "hist = past @ seg @ rest" "length seg = 60" "dict_get [(''BTCUSDT'', 2)] = peak_rate (map snd seg)"
    by (auto simp: run(4) demo_loaded)
  moreover have "dict_get [(''BTCUSDT'', 2 :: int)] ''BTCUSDT'' = Some 2" by (simp add: dict_get_def)
  ultimately show ?thesis using run(1,4) by (metis list.distinct(1))
qed

lemma saved_traffic_reloads_witness:
  "\<exists>hist t. traffic_run (new_traffic plain_unicode [] 0 None) hist t \<and> tf_blocks t \<noteq> [] \<and>
    load_blocks plain_unicode (Some (traffic_json t)) = tf_blocks t"
proof -
  obtain hist t where run: "traffic_run (new_traffic plain_unicode [] 0 None) hist t" "map fst hist = [1..60]" "orderly plain_unicode hist"
    "tf_blocks t = [\<lparr>rb_start = 1, rb_end = 60, rb_rates = [(''BTCUSDT'', 2)]\<rparr>]" by (rule demo_traffic_run)
  from saved_traffic_reloads [OF run(1,3)] have "load_blocks plain_unicode (Some (traffic_json t)) = tf_blocks t" by (simp add: demo_loaded)
  moreover have "tf_blocks t \<noteq> []" using run(4) by simp
  ultimately show ?thesis using run(1) by blast
qed

end
