(* ===== verification/Lease.thy ===== *)
theory Lease
  imports Json
begin

text \<open>
  What a boot of the collector knows of the one before and of its sources: the lease file, \<open>src/miry/collector/lease.py\<close>, from
  which the gap of a crash starts, and \<open>src/miry/collector/readiness.py\<close>. The sealed days are the dates of the sealed
  manifests in the ready directory; the file is the JSON value that is written.
\<close>

section \<open>The lease\<close>

record lease =
  le_boot :: string
  le_floor :: int
  le_file :: "json option"

definition latest_sealed_boundary_ns :: "utc_date list \<Rightarrow> int" where
  "latest_sealed_boundary_ns sealed = (if sealed = [] then 0 else midnight_ns (Max (set sealed) + 1))"

definition new_lease :: "string \<Rightarrow> utc_date list \<Rightarrow> json option \<Rightarrow> lease" where
  "new_lease boot sealed content = \<lparr>le_boot = boot, le_floor = latest_sealed_boundary_ns sealed, le_file = content\<rparr>"

definition recovery_start_ns :: "lease \<Rightarrow> py_error + int option" where
  "recovery_start_ns l =
     (case le_file l of
        Some (JObj o') \<Rightarrow>
          if jget o' ''state'' = JStr ''CLEAN'' then Inr None
          else (case instance_int (jget o' ''affected_from_realtime_ns'') of
             Some ns \<Rightarrow> if ns < 0 then Inl (ValueError ''collector lease has an invalid recovery watermark'') else Inr (Some (max ns (le_floor l)))
           | None \<Rightarrow> Inl (ValueError ''collector lease has an invalid recovery watermark''))
      | _ \<Rightarrow> Inr None)"

definition write_lease :: "string \<Rightarrow> int \<Rightarrow> lease \<Rightarrow> lease" where
  "write_lease state ns l = l\<lparr>le_file := Some (JObj [(''schema_version'', JInt 1), (''boot_id'', JStr (le_boot l)), (''state'', JStr state),
     (''affected_from_realtime_ns'', JInt (max ns (le_floor l)))])\<rparr>"

definition write_running :: "int \<Rightarrow> lease \<Rightarrow> lease" where
  "write_running = write_lease ''RUNNING''"

definition write_clean :: "int \<Rightarrow> lease \<Rightarrow> lease" where
  "write_clean = write_lease ''CLEAN''"

definition record_sealed :: "utc_date \<Rightarrow> lease \<Rightarrow> lease" where
  "record_sealed d l = l\<lparr>le_floor := max (le_floor l) (midnight_ns (d + 1))\<rparr>"

text \<open>A crash is recovered from the last watermark on, but not inside a sealed day; a clean stop is not recovered.\<close>

lemma crash_recovers_from_watermark:
  assumes "0 \<le> ns" "\<forall>d \<in> set sealed. 0 \<le> d"
  shows "recovery_start_ns (new_lease boot sealed (le_file (write_running ns l))) = Inr (Some (max ns (max (le_floor l) (latest_sealed_boundary_ns sealed))))"
  using assms by (simp add: recovery_start_ns_def new_lease_def write_running_def write_lease_def jget_def instance_int_def max.assoc)

lemma recovery_spares_sealed_days:
  assumes "recovery_start_ns (new_lease boot sealed content) = Inr (Some start)" "d \<in> set sealed"
  shows "midnight_ns (d + 1) \<le> start"
proof -
  have "midnight_ns (d + 1) \<le> latest_sealed_boundary_ns sealed" using assms(2) by (auto simp: latest_sealed_boundary_ns_def)
  moreover have "latest_sealed_boundary_ns sealed \<le> start"
    using assms(1) by (auto simp: recovery_start_ns_def new_lease_def split: option.splits json.splits if_splits)
  ultimately show ?thesis by simp
qed

lemma clean_stop_not_recovered: "recovery_start_ns (new_lease boot sealed (le_file (write_clean ns l))) = Inr None"
  by (simp add: recovery_start_ns_def new_lease_def write_clean_def write_lease_def jget_def)

section \<open>Readiness\<close>

definition required_realtime_sources :: "nat \<Rightarrow> string list" where
  "required_realtime_sources public_routes = map (\<lambda>i. ''public-'' @ show_nat i) [0..<public_routes] @ [''market-0'', ''open_interest'', ''clock'']"

record readiness =
  re_required :: "string list"
  re_seen :: "string list"
  re_realtime :: bool
  re_discovery :: bool

definition new_readiness :: "nat \<Rightarrow> readiness" where
  "new_readiness public_routes = \<lparr>re_required = required_realtime_sources public_routes, re_seen = [], re_realtime = False, re_discovery = False\<rparr>"

definition mark_ready :: "string \<Rightarrow> readiness \<Rightarrow> readiness" where
  "mark_ready name r =
     (let seen = List.insert name (re_seen r) in
      r\<lparr>re_seen := seen, re_discovery := (re_discovery r \<or> name = ''discovery''), re_realtime := (re_realtime r \<or> set (re_required r) \<subseteq> set seen)\<rparr>)"

text \<open>The realtime sources are ready exactly when every one of them has reported, in any order.\<close>

lemma mark_all_ready:
  fixes n :: nat
  assumes "names \<noteq> []"
  defines "r \<equiv> fold mark_ready names (new_readiness n)"
  shows "re_realtime r \<longleftrightarrow> set (required_realtime_sources n) \<subseteq> set names" "re_discovery r \<longleftrightarrow> ''discovery'' \<in> set names"
proof -
  have "re_required s = re_required s0 \<and> set (re_seen s) = set (re_seen s0) \<union> set names \<and> (re_discovery s \<longleftrightarrow> re_discovery s0 \<or> ''discovery'' \<in> set names) \<and>
      (re_realtime s \<longleftrightarrow> re_realtime s0 \<or> names \<noteq> [] \<and> set (re_required s0) \<subseteq> set (re_seen s0) \<union> set names)"
    if "s = fold mark_ready names s0" for s s0 :: readiness
    using that
  proof (induction names arbitrary: s0)
    case (Cons x names)
    then show ?case using Cons.IH [of "mark_ready x s0"] by (auto simp: mark_ready_def Let_def)
  qed simp
  then show "re_realtime r \<longleftrightarrow> set (required_realtime_sources n) \<subseteq> set names" "re_discovery r \<longleftrightarrow> ''discovery'' \<in> set names"
    using assms(1) by (simp_all add: r_def new_readiness_def)
qed

end
