(* ===== verification/Polling.thy ===== *)
theory Polling
  imports Contracts
begin

text \<open>
  The REST pollers, \<open>src/miry/collector/polling.py\<close> with \<open>scheduling.py\<close>: one task per symbol polls its open interest, two
  more loops poll the discovery and the clock, and each covers its failures with a gap. The locals of a task are fields of its
  record, a future is its number. A step is one poll, or one part of \<open>_replace_open_interest_tasks\<close>; the outcomes of
  requests and the readings of the monotonic clock, as rationals, are inputs. Tasks are cancelled between two polls.
\<close>

section \<open>Schedule\<close>

definition advance_fixed_deadline :: "rat \<Rightarrow> rat \<Rightarrow> rat \<Rightarrow> rat" where
  "advance_fixed_deadline previous interval now =
     (let deadline = previous + interval in
      if deadline \<le> now then deadline + of_int (\<lfloor>(now - deadline) / interval\<rfloor> + 1) * interval else deadline)"

definition staggered_offsets :: "int \<Rightarrow> rat \<Rightarrow> py_error + rat list" where
  "staggered_offsets count window =
     (if count < 0 then Inl (ValueError ''poll count cannot be negative'')
      else if window < 0 then Inl (ValueError ''poll window cannot be negative'')
      else Inr (map (\<lambda>i. of_nat i * window / of_int count) [0..<nat count]))"

text \<open>The next deadline lies in the future, by at most one interval, and on the grid of the previous one.\<close>

lemma advance_fixed_deadline_next:
  assumes "0 < interval"
  shows "now < advance_fixed_deadline previous interval now"
    and "advance_fixed_deadline previous interval now \<le> max (previous + interval) (now + interval)"
    and "\<exists>k. 1 \<le> k \<and> advance_fixed_deadline previous interval now = previous + of_int k * interval"
proof -
  define late where "late = \<lfloor>(now - (previous + interval)) / interval\<rfloor>"
  have "of_int late \<le> (now - (previous + interval)) / interval" unfolding late_def by (rule of_int_floor_le)
  then have below: "of_int late * interval \<le> now - (previous + interval)" by (simp only: pos_le_divide_eq [OF assms])
  have "(now - (previous + interval)) / interval < of_int late + 1" unfolding late_def using floor_correct by simp
  then have above: "now - (previous + interval) < (of_int late + 1) * interval" by (simp only: pos_divide_less_eq [OF assms])
  have late: "0 \<le> late" if "previous + interval \<le> now" using that assms by (simp add: late_def)
  have adv: "advance_fixed_deadline previous interval now =
      (if previous + interval \<le> now then previous + interval + of_int (late + 1) * interval else previous + interval)"
    by (simp only: advance_fixed_deadline_def Let_def late_def)
  show "now < advance_fixed_deadline previous interval now"
    using above by (simp add: adv algebra_simps)
  show "advance_fixed_deadline previous interval now \<le> max (previous + interval) (now + interval)"
    using below by (simp add: adv algebra_simps le_max_iff_disj)
  show "\<exists>k. 1 \<le> k \<and> advance_fixed_deadline previous interval now = previous + of_int k * interval"
  proof (cases "previous + interval \<le> now")
    case True
    then show ?thesis using late
      by (intro exI [of _ "late + 2"]) (simp add: adv algebra_simps)
  next
    case False
    then show ?thesis by (intro exI [of _ 1]) (simp add: adv)
  qed
qed

section \<open>State\<close>

datatype poll_gap = Poll_Opened nat gap_reason "string list" "stream_type list" | Poll_Closed nat gap_reason "string list" "stream_type list"

text \<open>A poll succeeds, finds the queues full, fails in the network, or raises what its loop does not catch.\<close>

datatype poll_outcome = Polled | Poll_Overloaded | Poll_Lost | Poll_Raised

datatype first_pass = First_Waiting | First_Passed | First_Cancelled

record oi_task =
  oi_gap :: "(nat \<times> gap_reason) option"
  oi_first :: nat
  oi_next :: rat
  oi_failed :: bool

record pollers =
  po_interval :: rat
  po_window :: rat
  po_instruments :: "string list"
  po_tasks :: "(string, oi_task) dict"
  po_first :: "(string, nat) dict"
  po_futures :: "first_pass list"
  po_waiting :: "(string list \<times> nat list) list"
  po_reported :: bool
  po_discovery :: "(nat \<times> gap_reason) option"
  po_clock :: "(nat \<times> gap_reason) option"
  po_running :: bool
  po_gaps :: "poll_gap list"
  po_next_gap :: nat
  po_ready :: "string list"

definition DISCOVERY_STREAMS :: "stream_type list" where
  "DISCOVERY_STREAMS = [EXCHANGE_INFO, MARKET_TICKERS, DAILY_KLINES, LIQUIDITY_DEPTH]"

section \<open>Gaps of a loop\<close>

definition open_poll_gap :: "(nat \<times> gap_reason) option \<Rightarrow> gap_reason \<Rightarrow> string list \<Rightarrow> stream_type list \<Rightarrow> pollers \<Rightarrow> (nat \<times> gap_reason) \<times> pollers" where
  "open_poll_gap current why symbols streams p =
     (case current of
        Some gap \<Rightarrow> (gap, p)
      | None \<Rightarrow> ((po_next_gap p, why), p\<lparr>po_gaps := po_gaps p @ [Poll_Opened (po_next_gap p) why symbols streams], po_next_gap := po_next_gap p + 1\<rparr>))"

definition close_poll_gap :: "(nat \<times> gap_reason) option \<Rightarrow> string list \<Rightarrow> stream_type list \<Rightarrow> pollers \<Rightarrow> pollers" where
  "close_poll_gap current symbols streams p =
     (case current of None \<Rightarrow> p | Some (g, why) \<Rightarrow> p\<lparr>po_gaps := po_gaps p @ [Poll_Closed g why symbols streams]\<rparr>)"

definition failure_reason :: "poll_outcome \<Rightarrow> gap_reason" where
  "failure_reason outcome = (if outcome = Poll_Overloaded then INGEST_OVERLOAD else CONNECTION_LOST)"

text \<open>What a poll does to the gap its loop holds.\<close>

definition poll_gap_after :: "poll_outcome \<Rightarrow> (nat \<times> gap_reason) option \<Rightarrow> string list \<Rightarrow> stream_type list \<Rightarrow> pollers \<Rightarrow> (nat \<times> gap_reason) option \<times> pollers" where
  "poll_gap_after outcome current symbols streams p =
     (if outcome = Polled then (None, close_poll_gap current symbols streams p)
      else if outcome = Poll_Raised then (current, p)
      else let (gap, p1) = open_poll_gap current (failure_reason outcome) symbols streams p in (Some gap, p1))"

section \<open>Loops\<close>

definition cancel_tasks :: "pollers \<Rightarrow> pollers" where
  "cancel_tasks p = p\<lparr>po_tasks := [], po_running := False\<rparr>"

definition open_interest_polled :: "string \<Rightarrow> poll_outcome \<Rightarrow> rat \<Rightarrow> pollers \<Rightarrow> pollers option" where
  "open_interest_polled s outcome now p =
     (case dict_get (po_tasks p) s of
        None \<Rightarrow> None
      | Some t \<Rightarrow>
          if oi_failed t then None
          else
            let (gap, p1) = poll_gap_after outcome (oi_gap t) [s] [OPEN_INTEREST] p;
                t1 = t\<lparr>oi_gap := gap, oi_failed := (outcome = Poll_Raised), oi_next := advance_fixed_deadline (oi_next t) (po_interval p) now\<rparr> in
            Some (p1\<lparr>po_tasks := dict_set s t1 (po_tasks p1),
              po_futures := (if outcome = Polled \<and> po_futures p1 ! oi_first t = First_Waiting
                then (po_futures p1)[oi_first t := First_Passed] else po_futures p1)\<rparr>))"

text \<open>\<open>_open_interest_loop\<close> looks at the tasks every second.\<close>

definition tasks_watched :: "pollers \<Rightarrow> pollers" where
  "tasks_watched p = (if list_ex (\<lambda>(_, t). oi_failed t) (po_tasks p) then cancel_tasks p else p)"

definition discovery_polled :: "poll_outcome \<Rightarrow> pollers \<Rightarrow> pollers" where
  "discovery_polled outcome p =
     (let (gap, p1) = poll_gap_after outcome (po_discovery p) [] DISCOVERY_STREAMS p;
          p2 = p1\<lparr>po_discovery := gap\<rparr> in
      if outcome = Polled then p2\<lparr>po_ready := po_ready p2 @ [''discovery'']\<rparr> else if outcome = Poll_Raised then cancel_tasks p2 else p2)"

definition clock_polled :: "poll_outcome \<Rightarrow> pollers \<Rightarrow> pollers" where
  "clock_polled outcome p =
     (let (gap, p1) = poll_gap_after outcome (po_clock p) [] [CLOCK_SAMPLE] p;
          p2 = p1\<lparr>po_clock := gap\<rparr> in
      if outcome = Polled then p2\<lparr>po_ready := po_ready p2 @ [''clock'']\<rparr> else if outcome = Poll_Raised then cancel_tasks p2 else p2)"

section \<open>Replacing the tasks\<close>

definition added_symbols :: "string list \<Rightarrow> pollers \<Rightarrow> string list" where
  "added_symbols instruments p = sort (remdups (filter (\<lambda>s. dict_get (po_tasks p) s = None) instruments))"

definition start_offsets :: "nat \<Rightarrow> pollers \<Rightarrow> rat list" where
  "start_offsets n p = (case staggered_offsets (int n) (min (po_interval p) (po_window p)) of Inr offsets \<Rightarrow> offsets | Inl _ \<Rightarrow> replicate n 0)"

text \<open>Under the lock: tasks of removed symbols are cancelled, tasks of added ones start with a future for their first pass.\<close>

definition begin_replace :: "string list \<Rightarrow> rat \<Rightarrow> pollers \<Rightarrow> pollers" where
  "begin_replace instruments now p =
     (let added = added_symbols instruments p;
          kept = filter (\<lambda>(s, _). s \<in> set instruments) (po_tasks p);
          firsts = filter (\<lambda>(s, _). s \<in> set instruments \<or> dict_get (po_tasks p) s = None) (po_first p);
          ids = map (\<lambda>i. length (po_futures p) + i) [0..<length added];
          fresh = map (\<lambda>(s, i, offset). (s, \<lparr>oi_gap = None, oi_first = i, oi_next = now + offset, oi_failed = False\<rparr>))
            (zip added (zip ids (start_offsets (length added) p))) in
      p\<lparr>po_instruments := instruments, po_tasks := kept @ fresh, po_first := fold (\<lambda>(s, i). dict_set s i) (zip added ids) firsts,
        po_futures := po_futures p @ replicate (length added) First_Waiting, po_waiting := po_waiting p @ [(instruments, ids)]\<rparr>)"

text \<open>\<open>all(future.done() and future.exception() is None ...)\<close>; \<open>exception\<close> of a cancelled future raises.\<close>

fun first_passes_ready :: "first_pass list \<Rightarrow> bool option" where
  "first_passes_ready [] = Some True"
| "first_passes_ready (First_Waiting # fs) = Some False"
| "first_passes_ready (First_Cancelled # fs) = None"
| "first_passes_ready (First_Passed # fs) = first_passes_ready fs"

datatype replace_result = Replaced | Replace_Timeout | Replace_Cancelled

text \<open>After the lock: \<open>None\<close> while the update still waits for the first passes of what it added.\<close>

definition finish_replace :: "string list \<Rightarrow> nat list \<Rightarrow> bool \<Rightarrow> pollers \<Rightarrow> (replace_result \<times> pollers) option" where
  "finish_replace proposed ids timed_out p =
     (if list_ex (\<lambda>i. po_futures p ! i = First_Cancelled) ids then Some (Replace_Cancelled, p)
      else if list_ex (\<lambda>i. po_futures p ! i = First_Waiting) ids then
        (if timed_out then Some (Replace_Timeout, p\<lparr>po_futures := fold (\<lambda>i fs. if fs ! i = First_Waiting then fs[i := First_Cancelled] else fs) ids (po_futures p)\<rparr>)
         else None)
      else if po_reported p \<or> set (dict_keys (po_first p)) \<noteq> set proposed then Some (Replaced, p)
      else case first_passes_ready (map (\<lambda>(_, i). po_futures p ! i) (po_first p)) of
          None \<Rightarrow> Some (Replace_Cancelled, p)
        | Some ready \<Rightarrow> Some (Replaced, if ready then p\<lparr>po_reported := True, po_ready := po_ready p @ [''open_interest'']\<rparr> else p))"

section \<open>Steps\<close>

datatype poll_event =
    OI_Polled string poll_outcome rat
  | Tasks_Watched
  | Discovery_Polled poll_outcome
  | Clock_Polled poll_outcome
  | Replace_Begun "string list" rat
  | Replace_Finished nat bool
  | Pollers_Stopped

definition poll_step :: "poll_event \<Rightarrow> pollers \<Rightarrow> pollers option" where
  "poll_step ev p =
     (if \<not> po_running p then None
      else case ev of
        OI_Polled s outcome now \<Rightarrow> open_interest_polled s outcome now p
      | Tasks_Watched \<Rightarrow> Some (tasks_watched p)
      | Discovery_Polled outcome \<Rightarrow> Some (discovery_polled outcome p)
      | Clock_Polled outcome \<Rightarrow> Some (clock_polled outcome p)
      | Replace_Begun instruments now \<Rightarrow> Some (begin_replace instruments now p)
      | Replace_Finished k timed_out \<Rightarrow>
          if k < length (po_waiting p) then
            map_option (\<lambda>(_, p1). p1\<lparr>po_waiting := take k (po_waiting p1) @ drop (Suc k) (po_waiting p1)\<rparr>)
              (finish_replace (fst (po_waiting p ! k)) (snd (po_waiting p ! k)) timed_out p)
          else None
      | Pollers_Stopped \<Rightarrow> Some (cancel_tasks p))"

definition new_pollers :: "rat \<Rightarrow> rat \<Rightarrow> string list \<Rightarrow> pollers" where
  "new_pollers interval window instruments =
     \<lparr>po_interval = interval, po_window = window, po_instruments = instruments, po_tasks = [], po_first = [], po_futures = [], po_waiting = [],
       po_reported = False, po_discovery = None, po_clock = None, po_running = True, po_gaps = [], po_next_gap = 0, po_ready = []\<rparr>"

section \<open>Runs\<close>

datatype poll_source = Source_OI string | Source_Discovery | Source_Clock

fun source_gap :: "pollers \<Rightarrow> poll_source \<Rightarrow> (nat \<times> gap_reason) option" where
  "source_gap p (Source_OI s) = (case dict_get (po_tasks p) s of Some t \<Rightarrow> oi_gap t | None \<Rightarrow> None)"
| "source_gap p Source_Discovery = po_discovery p"
| "source_gap p Source_Clock = po_clock p"

fun source_live :: "pollers \<Rightarrow> poll_source \<Rightarrow> bool" where
  "source_live p (Source_OI s) \<longleftrightarrow> dict_get (po_tasks p) s \<noteq> None"
| "source_live p _ \<longleftrightarrow> True"

fun polled_source :: "poll_event \<Rightarrow> (poll_source \<times> poll_outcome) option" where
  "polled_source (OI_Polled s outcome _) = Some (Source_OI s, outcome)"
| "polled_source (Discovery_Polled outcome) = Some (Source_Discovery, outcome)"
| "polled_source (Clock_Polled outcome) = Some (Source_Clock, outcome)"
| "polled_source _ = None"

text \<open>The sources whose last poll failed, and the gaps that lose their task.\<close>

definition failing_after :: "poll_event \<Rightarrow> pollers \<Rightarrow> poll_source set \<Rightarrow> poll_source set" where
  "failing_after ev p' failing =
     {src \<in> (case polled_source ev of
          Some (src, Polled) \<Rightarrow> failing - {src}
        | Some (src, Poll_Raised) \<Rightarrow> failing
        | Some (src, _) \<Rightarrow> insert src failing
        | None \<Rightarrow> failing). source_live p' src}"

definition lost_gaps :: "pollers \<Rightarrow> pollers \<Rightarrow> nat set" where
  "lost_gaps p p' = {g. \<exists>src why. source_gap p src = Some (g, why) \<and> \<not> source_live p' src}"

inductive poll_run :: "pollers \<Rightarrow> poll_source set \<Rightarrow> nat set \<Rightarrow> pollers \<Rightarrow> bool" for p0 where
  started: "poll_run p0 {} {} p0"
| stepped: "poll_run p0 failing lost p \<Longrightarrow> poll_step ev p = Some p' \<Longrightarrow> poll_run p0 (failing_after ev p' failing) (lost \<union> lost_gaps p p') p'"

definition poll_gap_open :: "poll_gap list \<Rightarrow> nat \<Rightarrow> bool" where
  "poll_gap_open gaps g \<longleftrightarrow> (\<exists>why symbols streams. Poll_Opened g why symbols streams \<in> set gaps) \<and>
     \<not> (\<exists>why symbols streams. Poll_Closed g why symbols streams \<in> set gaps)"

fun poll_gap_id :: "poll_gap \<Rightarrow> nat" where
  "poll_gap_id (Poll_Opened g _ _ _) = g"
| "poll_gap_id (Poll_Closed g _ _ _) = g"

section \<open>Who holds which gap\<close>

definition held_ok :: "(poll_source \<Rightarrow> (nat \<times> gap_reason) option) \<Rightarrow> nat set \<Rightarrow> poll_gap list \<Rightarrow> nat \<Rightarrow> bool" where
  "held_ok h lost gaps n \<longleftrightarrow> (\<forall>x \<in> set gaps. poll_gap_id x < n) \<and> lost \<subseteq> {..<n} \<and>
     (\<forall>g. poll_gap_open gaps g \<longleftrightarrow> (\<exists>src why. h src = Some (g, why)) \<or> g \<in> lost) \<and>
     (\<forall>src src' g why why'. h src = Some (g, why) \<longrightarrow> h src' = Some (g, why') \<longrightarrow> src = src') \<and>
     (\<forall>src g why. h src = Some (g, why) \<longrightarrow> g \<notin> lost)"

lemma open_number: "\<forall>x \<in> set gaps. poll_gap_id x < n \<Longrightarrow> poll_gap_open gaps g \<Longrightarrow> g < n"
  by (force simp: poll_gap_open_def)

lemma open_after_open:
  "\<forall>x \<in> set gaps. poll_gap_id x < n \<Longrightarrow> poll_gap_open (gaps @ [Poll_Opened n why symbols streams]) g \<longleftrightarrow> g = n \<or> poll_gap_open gaps g"
  by (fastforce simp: poll_gap_open_def)

lemma open_after_close:
  "poll_gap_open (gaps @ [Poll_Closed g' why symbols streams]) g \<longleftrightarrow> g \<noteq> g' \<and> poll_gap_open gaps g"
  by (auto simp: poll_gap_open_def)

lemma held_ok_opened:
  assumes "held_ok h lost gaps n" "h src = None"
  shows "held_ok (h(src \<mapsto> (n, why))) lost (gaps @ [Poll_Opened n why symbols streams]) (n + 1)"
proof -
  have ok: "\<forall>x \<in> set gaps. poll_gap_id x < n" "lost \<subseteq> {..<n}"
    "\<And>g. poll_gap_open gaps g \<longleftrightarrow> (\<exists>src why. h src = Some (g, why)) \<or> g \<in> lost"
    "\<And>src src' g why why'. h src = Some (g, why) \<Longrightarrow> h src' = Some (g, why') \<Longrightarrow> src = src'"
    "\<And>src g why. h src = Some (g, why) \<Longrightarrow> g \<notin> lost"
    using assms(1) unfolding held_ok_def by blast+
  have below: "g < n" if "h s = Some (g, w)" for s g w using open_number [OF ok(1)] ok(3) that by blast
  have "poll_gap_open (gaps @ [Poll_Opened n why symbols streams]) g \<longleftrightarrow> (\<exists>s w. (h(src \<mapsto> (n, why))) s = Some (g, w)) \<or> g \<in> lost" for g
    unfolding open_after_open [OF ok(1)] ok(3) using assms(2) by (auto split: if_splits) (metis option.distinct(1))
  then show ?thesis
    unfolding held_ok_def using ok(1,2,5) below
    by (auto split: if_splits dest: ok(4)) (fastforce simp: lessThan_def)+
qed

lemma held_ok_closed:
  assumes "held_ok h lost gaps n" "h src = Some (g', why')"
  shows "held_ok (h(src := None)) lost (gaps @ [Poll_Closed g' why symbols streams]) n"
proof -
  have ok: "\<forall>x \<in> set gaps. poll_gap_id x < n" "lost \<subseteq> {..<n}"
    "\<And>g. poll_gap_open gaps g \<longleftrightarrow> (\<exists>src why. h src = Some (g, why)) \<or> g \<in> lost"
    "\<And>src src' g why why'. h src = Some (g, why) \<Longrightarrow> h src' = Some (g, why') \<Longrightarrow> src = src'"
    "\<And>src g why. h src = Some (g, why) \<Longrightarrow> g \<notin> lost"
    using assms(1) unfolding held_ok_def by blast+
  have "poll_gap_open (gaps @ [Poll_Closed g' why symbols streams]) g \<longleftrightarrow> (\<exists>s w. (h(src := None)) s = Some (g, w)) \<or> g \<in> lost" for g
  proof -
    have "(\<exists>s w. (h(src := None)) s = Some (g, w)) \<longleftrightarrow> g \<noteq> g' \<and> (\<exists>s w. h s = Some (g, w))"
      by (metis (no_types) assms(2) fun_upd_apply ok(4) option.distinct(1) option.inject prod.inject)
    then show ?thesis unfolding open_after_close ok(3) using ok(5) [OF assms(2)] by blast
  qed
  moreover have "g' < n" using open_number [OF ok(1)] ok(3) assms(2) by blast
  ultimately show ?thesis unfolding held_ok_def using ok(1,2,4,5) by (auto split: if_splits)
qed

lemma poll_gap_after_ok:
  assumes "held_ok h lost (po_gaps p) (po_next_gap p)" "poll_gap_after outcome (h src) symbols streams p = (gap, p1)"
  shows "held_ok (h(src := gap)) lost (po_gaps p1) (po_next_gap p1)"
proof (cases "h src")
  case None
  then have same: "h(src := None) = h" by auto
  show ?thesis using assms None same held_ok_opened [OF assms(1) None]
    by (auto simp: poll_gap_after_def close_poll_gap_def open_poll_gap_def Let_def split: if_splits)
next
  case (Some held)
  then have same: "h(src := Some held) = h" by auto
  obtain g why where held: "held = (g, why)" by (cases held) blast
  show ?thesis using assms Some same held_ok_closed [OF assms(1) Some [unfolded held]]
    by (auto simp: poll_gap_after_def close_poll_gap_def open_poll_gap_def held Let_def split: if_splits)
qed

lemma held_ok_dropped:
  assumes "held_ok h lost gaps n" "\<forall>src. h' src = (if live src then h src else None)"
  shows "held_ok h' (lost \<union> {g. \<exists>src why. h src = Some (g, why) \<and> \<not> live src}) gaps n"
proof -
  have ok: "\<forall>x \<in> set gaps. poll_gap_id x < n" "lost \<subseteq> {..<n}"
    "\<And>g. poll_gap_open gaps g \<longleftrightarrow> (\<exists>src why. h src = Some (g, why)) \<or> g \<in> lost"
    "\<And>src src' g why why'. h src = Some (g, why) \<Longrightarrow> h src' = Some (g, why') \<Longrightarrow> src = src'"
    "\<And>src g why. h src = Some (g, why) \<Longrightarrow> g \<notin> lost"
    using assms(1) unfolding held_ok_def by blast+
  have below: "g < n" if "h s = Some (g, w)" for s g w using open_number [OF ok(1)] ok(3) that by blast
  show ?thesis
    unfolding held_ok_def using ok below assms(2) by (intro conjI) (auto split: if_splits, blast+)
qed

section \<open>Every step keeps the gaps in place\<close>

fun source_symbols :: "poll_source \<Rightarrow> string list" where
  "source_symbols (Source_OI s) = [s]"
| "source_symbols _ = []"

fun source_streams :: "poll_source \<Rightarrow> stream_type list" where
  "source_streams (Source_OI s) = [OPEN_INTEREST]"
| "source_streams Source_Discovery = DISCOVERY_STREAMS"
| "source_streams Source_Clock = [CLOCK_SAMPLE]"

definition named_gaps :: "(poll_source \<Rightarrow> (nat \<times> gap_reason) option) \<Rightarrow> poll_gap list \<Rightarrow> bool" where
  "named_gaps h gaps \<longleftrightarrow> (\<forall>src g why. h src = Some (g, why) \<longrightarrow> Poll_Opened g why (source_symbols src) (source_streams src) \<in> set gaps)"

definition po_ok :: "poll_source set \<Rightarrow> nat set \<Rightarrow> pollers \<Rightarrow> bool" where
  "po_ok failing lost p \<longleftrightarrow> held_ok (source_gap p) lost (po_gaps p) (po_next_gap p) \<and> (\<forall>src. src \<in> failing \<longleftrightarrow> source_gap p src \<noteq> None) \<and>
     named_gaps (source_gap p) (po_gaps p)"

lemma gap_after_named:
  assumes "named_gaps h (po_gaps p)" "poll_gap_after outcome (h src) (source_symbols src) (source_streams src) p = (gap, p1)"
  shows "named_gaps (h(src := gap)) (po_gaps p1)"
  using assms by (cases "h src")
    (auto simp: named_gaps_def poll_gap_after_def open_poll_gap_def close_poll_gap_def Let_def split: if_splits prod.splits)

lemma gap_after_some:
  "poll_gap_after outcome current symbols streams p = (gap, p1) \<Longrightarrow>
    gap \<noteq> None \<longleftrightarrow> outcome \<noteq> Polled \<and> (outcome = Poll_Raised \<longrightarrow> current \<noteq> None)"
  by (auto simp: poll_gap_after_def Let_def split: if_splits prod.splits)

lemma gap_after_view:
  "poll_gap_after outcome current symbols streams p = (gap, p1) \<Longrightarrow>
    po_tasks p1 = po_tasks p \<and> po_discovery p1 = po_discovery p \<and> po_clock p1 = po_clock p \<and> po_futures p1 = po_futures p"
  by (auto simp: poll_gap_after_def open_poll_gap_def close_poll_gap_def Let_def split: if_splits option.splits)

lemma silent_step_ok:
  assumes "po_ok failing lost p" "polled_source ev = None" "po_gaps p' = po_gaps p" "po_next_gap p' = po_next_gap p"
    and "\<And>src. source_gap p' src = (if source_live p' src then source_gap p src else None)"
  shows "po_ok (failing_after ev p' failing) (lost \<union> lost_gaps p p') p'"
proof -
  have "held_ok (source_gap p') (lost \<union> lost_gaps p p') (po_gaps p) (po_next_gap p)"
    unfolding lost_gaps_def using assms(1,5) by (intro held_ok_dropped) (simp_all add: po_ok_def)
  moreover have "named_gaps (source_gap p') (po_gaps p')"
    using assms(1,3,5) unfolding po_ok_def named_gaps_def by (metis option.distinct(1))
  ultimately show ?thesis using assms by (auto simp: po_ok_def failing_after_def)
qed

lemma poll_step_ok:
  assumes "po_ok failing lost p" "polled_source ev = Some (src, outcome)"
    and "poll_gap_after outcome (source_gap p src) (source_symbols src) (source_streams src) p = (gap, p1)"
    and "po_gaps p' = po_gaps p1" "po_next_gap p' = po_next_gap p1" "source_live p' src"
    and "\<And>s. source_gap p' s = (if source_live p' s then ((source_gap p)(src := gap)) s else None)"
  shows "po_ok (failing_after ev p' failing) (lost \<union> lost_gaps p p') p'"
proof -
  have "held_ok ((source_gap p)(src := gap)) lost (po_gaps p1) (po_next_gap p1)"
    using assms(1) poll_gap_after_ok [where h = "source_gap p" and src = src, OF _ assms(3)] by (simp add: po_ok_def)
  then have "held_ok (source_gap p') (lost \<union> {g. \<exists>s why. ((source_gap p)(src := gap)) s = Some (g, why) \<and> \<not> source_live p' s}) (po_gaps p1) (po_next_gap p1)"
    by (rule held_ok_dropped) (simp add: assms(7))
  moreover have "{g. \<exists>s why. ((source_gap p)(src := gap)) s = Some (g, why) \<and> \<not> source_live p' s} = lost_gaps p p'"
    unfolding lost_gaps_def using assms(6) by (auto split: if_splits)
  ultimately have "held_ok (source_gap p') (lost \<union> lost_gaps p p') (po_gaps p') (po_next_gap p')" using assms(4,5) by simp
  moreover have "s \<in> failing_after ev p' failing \<longleftrightarrow> source_gap p' s \<noteq> None" for s
    using assms(1,2) assms(7) [of s] gap_after_some [OF assms(3)] by (cases outcome) (auto simp: failing_after_def po_ok_def)
  moreover have "named_gaps ((source_gap p)(src := gap)) (po_gaps p1)"
    using assms(1) gap_after_named [where h = "source_gap p", OF _ assms(3)] by (simp add: po_ok_def)
  then have "named_gaps (source_gap p') (po_gaps p')"
    using assms(4,7) unfolding named_gaps_def by (metis option.distinct(1))
  ultimately show ?thesis by (simp add: po_ok_def)
qed

lemma cancel_view:
  "po_gaps (cancel_tasks p) = po_gaps p" "po_next_gap (cancel_tasks p) = po_next_gap p"
  "source_gap (cancel_tasks p) src = (if source_live (cancel_tasks p) src then source_gap p src else None)"
  by (cases src; simp add: cancel_tasks_def)+

lemma oi_polled_ok:
  assumes "po_ok failing lost p" "open_interest_polled s outcome now p = Some p'" "ev = OI_Polled s outcome now"
  shows "po_ok (failing_after ev p' failing) (lost \<union> lost_gaps p p') p'"
proof -
  obtain t where t: "dict_get (po_tasks p) s = Some t" "\<not> oi_failed t"
    using assms(2) by (auto simp: open_interest_polled_def split: option.splits if_splits)
  obtain gap p1 where after: "poll_gap_after outcome (oi_gap t) [s] [OPEN_INTEREST] p = (gap, p1)" by fastforce
  have p': "po_gaps p' = po_gaps p1" "po_next_gap p' = po_next_gap p1" "po_discovery p' = po_discovery p1" "po_clock p' = po_clock p1"
    "po_tasks p' = dict_set s (t\<lparr>oi_gap := gap, oi_failed := (outcome = Poll_Raised), oi_next := advance_fixed_deadline (oi_next t) (po_interval p) now\<rparr>) (po_tasks p)"
    using assms(2) t gap_after_view [OF after] by (auto simp: open_interest_polled_def after Let_def)
  show ?thesis
  proof (rule poll_step_ok [OF assms(1)])
    show "polled_source ev = Some (Source_OI s, outcome)" by (simp add: assms(3))
    show "poll_gap_after outcome (source_gap p (Source_OI s)) (source_symbols (Source_OI s)) (source_streams (Source_OI s)) p = (gap, p1)"
      using after t by simp
    show "source_live p' (Source_OI s)" by (simp add: p' del: dict_set.simps)
    fix src
    show "source_gap p' src = (if source_live p' src then ((source_gap p)(Source_OI s := gap)) src else None)"
      using gap_after_view [OF after] by (cases src) (auto simp: p' simp del: dict_set.simps split: option.split)
  qed (fact p')+
qed

lemma discovery_polled_ok:
  assumes "po_ok failing lost p" "ev = Discovery_Polled outcome"
  shows "po_ok (failing_after ev (discovery_polled outcome p) failing) (lost \<union> lost_gaps p (discovery_polled outcome p)) (discovery_polled outcome p)"
proof -
  obtain gap p1 where after: "poll_gap_after outcome (po_discovery p) [] DISCOVERY_STREAMS p = (gap, p1)" by fastforce
  show ?thesis
  proof (rule poll_step_ok [OF assms(1)])
    show "polled_source ev = Some (Source_Discovery, outcome)" by (simp add: assms(2))
    show "poll_gap_after outcome (source_gap p Source_Discovery) (source_symbols Source_Discovery) (source_streams Source_Discovery) p = (gap, p1)"
      using after by simp
    fix src
    show "source_gap (discovery_polled outcome p) src = (if source_live (discovery_polled outcome p) src then ((source_gap p)(Source_Discovery := gap)) src else None)"
      using gap_after_view [OF after] by (cases src) (auto simp: discovery_polled_def after cancel_tasks_def Let_def split: option.split)
  qed (simp_all add: discovery_polled_def after cancel_tasks_def Let_def)
qed

lemma clock_polled_ok:
  assumes "po_ok failing lost p" "ev = Clock_Polled outcome"
  shows "po_ok (failing_after ev (clock_polled outcome p) failing) (lost \<union> lost_gaps p (clock_polled outcome p)) (clock_polled outcome p)"
proof -
  obtain gap p1 where after: "poll_gap_after outcome (po_clock p) [] [CLOCK_SAMPLE] p = (gap, p1)" by fastforce
  show ?thesis
  proof (rule poll_step_ok [OF assms(1)])
    show "polled_source ev = Some (Source_Clock, outcome)" by (simp add: assms(2))
    show "poll_gap_after outcome (source_gap p Source_Clock) (source_symbols Source_Clock) (source_streams Source_Clock) p = (gap, p1)"
      using after by simp
    fix src
    show "source_gap (clock_polled outcome p) src = (if source_live (clock_polled outcome p) src then ((source_gap p)(Source_Clock := gap)) src else None)"
      using gap_after_view [OF after] by (cases src) (auto simp: clock_polled_def after cancel_tasks_def Let_def split: option.split)
  qed (simp_all add: clock_polled_def after cancel_tasks_def Let_def)
qed

lemma begin_replace_tasks:
  "dict_get (po_tasks (begin_replace instruments now p)) s = (if s \<notin> set instruments then None
     else case dict_get (po_tasks p) s of Some t \<Rightarrow> Some t
       | None \<Rightarrow> dict_get (po_tasks (begin_replace instruments now p)) s)"
  "dict_get (po_tasks p) s = None \<Longrightarrow> dict_get (po_tasks (begin_replace instruments now p)) s = Some t \<Longrightarrow> oi_gap t = None"
proof -
  define fresh where "fresh = map (\<lambda>(s, i, offset). (s, \<lparr>oi_gap = None, oi_first = i, oi_next = now + offset, oi_failed = False\<rparr>))
    (zip (added_symbols instruments p) (zip (map (\<lambda>i. length (po_futures p) + i) [0..<length (added_symbols instruments p)])
      (start_offsets (length (added_symbols instruments p)) p)))"
  have tasks: "po_tasks (begin_replace instruments now p) = filter (\<lambda>(s, _). s \<in> set instruments) (po_tasks p) @ fresh"
    by (simp add: begin_replace_def fresh_def Let_def)
  have "fst ` set fresh \<subseteq> set (added_symbols instruments p)" by (force simp: fresh_def dest: set_zip_leftD)
  then have new: "x \<in> set instruments \<and> dict_get (po_tasks p) x = None" if "(x, v) \<in> set fresh" for x v
    using that by (force simp: added_symbols_def)
  have no_gap: "oi_gap v = None" if "(x, v) \<in> set fresh" for x v using that by (auto simp: fresh_def)
  have kept: "map_of (filter (\<lambda>(s, _). s \<in> set instruments) xs) s = (if s \<in> set instruments then map_of xs s else None)" for xs :: "(string, oi_task) dict"
    by (induction xs) auto
  show "dict_get (po_tasks (begin_replace instruments now p)) s = (if s \<notin> set instruments then None
     else case dict_get (po_tasks p) s of Some t \<Rightarrow> Some t
       | None \<Rightarrow> dict_get (po_tasks (begin_replace instruments now p)) s)"
  proof -
    have "map_of fresh s = None" if "s \<notin> set instruments" using new that by (cases "map_of fresh s") (auto dest!: map_of_SomeD)
    then show ?thesis unfolding tasks by (auto simp: dict_get_def kept map_add_def split: option.split)
  qed
  show "oi_gap t = None" if "dict_get (po_tasks p) s = None" "dict_get (po_tasks (begin_replace instruments now p)) s = Some t"
    using that no_gap unfolding tasks by (auto simp: dict_get_def kept map_add_def split: option.splits if_splits dest!: map_of_SomeD)
qed

lemma begin_replace_gap:
  "source_gap (begin_replace instruments now p) src = (if source_live (begin_replace instruments now p) src then source_gap p src else None)"
proof (cases src)
  case (Source_OI s)
  show ?thesis
  proof (cases "s \<in> set instruments")
    case True
    then show ?thesis
      using begin_replace_tasks(1) [of instruments now p s] begin_replace_tasks(2) [of p s instruments now]
      by (cases "dict_get (po_tasks p) s") (auto simp: Source_OI split: option.split)
  next
    case False
    then show ?thesis using begin_replace_tasks(1) [of instruments now p s] by (simp add: Source_OI)
  qed
qed (simp_all add: begin_replace_def Let_def)

lemma finish_replace_view:
  assumes "finish_replace proposed ids timed_out p = Some (result, p1)"
  shows "po_gaps p1 = po_gaps p \<and> po_next_gap p1 = po_next_gap p \<and> po_tasks p1 = po_tasks p \<and> po_discovery p1 = po_discovery p \<and> po_clock p1 = po_clock p"
  using assms by (auto simp: finish_replace_def split: if_splits option.splits)

lemma dead_source: "\<not> source_live p src \<Longrightarrow> source_gap p src = None"
  by (cases src) (auto split: option.split)

lemma any_step_ok:
  assumes "po_ok failing lost p" "poll_step ev p = Some p'"
  shows "po_ok (failing_after ev p' failing) (lost \<union> lost_gaps p p') p'"
proof (cases ev)
  case (OI_Polled s outcome now)
  then show ?thesis using assms oi_polled_ok [OF assms(1) _ OI_Polled] by (simp add: poll_step_def split: if_splits)
next
  case Tasks_Watched
  then have p': "p' = p \<or> p' = cancel_tasks p" using assms(2) by (auto simp: poll_step_def tasks_watched_def split: if_splits)
  show ?thesis
    by (rule silent_step_ok [OF assms(1)]) (use p' Tasks_Watched cancel_view dead_source in auto)
next
  case (Discovery_Polled outcome)
  then show ?thesis using assms discovery_polled_ok [OF assms(1) Discovery_Polled] by (simp add: poll_step_def split: if_splits)
next
  case (Clock_Polled outcome)
  then show ?thesis using assms clock_polled_ok [OF assms(1) Clock_Polled] by (simp add: poll_step_def split: if_splits)
next
  case (Replace_Begun instruments now)
  then have p': "p' = begin_replace instruments now p" using assms(2) by (simp add: poll_step_def split: if_splits)
  show ?thesis
    by (rule silent_step_ok [OF assms(1)]) (simp_all add: Replace_Begun p' begin_replace_gap, simp_all add: begin_replace_def Let_def)
next
  case (Replace_Finished k timed_out)
  then obtain result p1 where p1: "finish_replace (fst (po_waiting p ! k)) (snd (po_waiting p ! k)) timed_out p = Some (result, p1)"
    "p' = p1\<lparr>po_waiting := take k (po_waiting p1) @ drop (Suc k) (po_waiting p1)\<rparr>"
    using assms(2) by (auto simp: poll_step_def split: if_splits)
  have same: "source_gap p' src = source_gap p src" for src using finish_replace_view [OF p1(1)] by (cases src) (simp_all add: p1(2))
  have live: "source_live p' src = source_live p src" for src using finish_replace_view [OF p1(1)] by (cases src) (simp_all add: p1(2))
  show ?thesis
    by (rule silent_step_ok [OF assms(1)]) (use finish_replace_view [OF p1(1)] same live dead_source in \<open>auto simp: Replace_Finished p1(2)\<close>)
next
  case Pollers_Stopped
  then have p': "p' = cancel_tasks p" using assms(2) by (simp add: poll_step_def split: if_splits)
  show ?thesis by (rule silent_step_ok [OF assms(1)]) (simp_all only: Pollers_Stopped polled_source.simps p' cancel_view)
qed

lemma new_pollers_ok: "po_ok {} {} (new_pollers interval window instruments)"
proof -
  have "source_gap (new_pollers interval window instruments) src = None" for src by (cases src) (simp_all add: new_pollers_def)
  then show ?thesis by (simp add: po_ok_def held_ok_def named_gaps_def) (simp add: new_pollers_def poll_gap_open_def)
qed

lemma poll_run_ok: "poll_run p0 failing lost p \<Longrightarrow> po_ok {} {} p0 \<Longrightarrow> po_ok failing lost p"
  by (induction rule: poll_run.induct) (auto intro: any_step_ok)

lemma poll_run_extends:
  assumes "poll_run p failing' lost' p2" "poll_run p0 failing lost p"
  shows "\<exists>failing2 lost2. poll_run p0 failing2 lost2 p2 \<and> lost \<subseteq> lost2"
  using assms
proof (induction rule: poll_run.induct)
  case started
  then show ?case by blast
next
  case (stepped failing' lost' q ev q')
  then obtain failing2 lost2 where "poll_run p0 failing2 lost2 q" "lost \<subseteq> lost2" by blast
  from poll_run.stepped [OF this(1) stepped.hyps(2)] this(2) show ?case by (meson le_supI1)
qed

section \<open>Properties\<close>

text \<open>C36. In every run a loop holds a gap exactly when its last poll failed, the gap was opened for its symbols and streams, and the gaps that are
  open are those the loops hold and those whose task was cancelled.\<close>

theorem failing_polls_have_gap:
  assumes "poll_run (new_pollers interval window instruments) failing lost p"
  shows "(\<forall>src. src \<in> failing \<longleftrightarrow> source_gap p src \<noteq> None) \<and>
    (\<forall>src g why. source_gap p src = Some (g, why) \<longrightarrow> Poll_Opened g why (source_symbols src) (source_streams src) \<in> set (po_gaps p)) \<and>
    (\<forall>g. poll_gap_open (po_gaps p) g \<longleftrightarrow> (\<exists>src why. source_gap p src = Some (g, why)) \<or> g \<in> lost)"
  using poll_run_ok [OF assms new_pollers_ok] by (simp add: po_ok_def held_ok_def named_gaps_def)

text \<open>C37. The gap of a symbol whose open interest cannot be polled is never closed once the symbol is removed: it stays open in every later state.\<close>

theorem removed_symbol_gap_stays_open:
  assumes "poll_run (new_pollers interval window instruments) failing lost p" "source_gap p (Source_OI s) = Some (g, why)"
    and "poll_step (Replace_Begun names now) p = Some p1" "s \<notin> set names" "poll_run p1 failing' lost' p2"
  shows "poll_gap_open (po_gaps p2) g"
proof -
  have "p1 = begin_replace names now p" using assms(3) by (simp add: poll_step_def split: if_splits)
  then have "\<not> source_live p1 (Source_OI s)" using begin_replace_tasks(1) [of names now p s] assms(4) by simp
  then have "g \<in> lost \<union> lost_gaps p p1" using assms(2) unfolding lost_gaps_def by blast
  moreover obtain failing2 lost2 where run: "poll_run (new_pollers interval window instruments) failing2 lost2 p2" "lost \<union> lost_gaps p p1 \<subseteq> lost2"
    using poll_run_extends [OF assms(5) poll_run.stepped [OF assms(1,3)]] by blast
  ultimately show ?thesis using poll_run_ok [OF run(1) new_pollers_ok] by (auto simp: po_ok_def held_ok_def)
qed

text \<open>An update that is retried after the first passes timed out returns at once, whether or not its symbols were ever polled.\<close>

lemma retried_replace_returns:
  assumes "po_reported p" "\<forall>s \<in> set names. dict_get (po_tasks p) s \<noteq> None"
  shows "last (po_waiting (begin_replace names now p)) = (names, []) \<and>
    finish_replace names [] timed_out (begin_replace names now p) = Some (Replaced, begin_replace names now p)"
proof -
  have "added_symbols names p = []" using assms(2) by (simp add: added_symbols_def filter_empty_conv)
  then show ?thesis using assms(1) by (simp add: begin_replace_def finish_replace_def Let_def)
qed

fun poll_events :: "poll_event list \<Rightarrow> pollers \<Rightarrow> pollers option" where
  "poll_events [] p = Some p"
| "poll_events (ev # evs) p = Option.bind (poll_step ev p) (poll_events evs)"

lemma poll_events_run: "poll_events evs p = Some p' \<Longrightarrow> poll_run p0 failing lost p \<Longrightarrow> \<exists>failing' lost'. poll_run p0 failing' lost' p'"
proof (induction evs arbitrary: p failing lost)
  case (Cons ev evs)
  then obtain p1 where p1: "poll_step ev p = Some p1" "poll_events evs p1 = Some p'" by (auto split: bind_splits)
  show ?case by (rule Cons.IH [OF p1(2) poll_run.stepped [OF Cons.prems(2) p1(1)]])
qed auto

definition demo_pollers :: pollers where
  "demo_pollers = the (poll_events [Replace_Begun [''A'', ''B''] 0, OI_Polled ''A'' Poll_Lost 1, Clock_Polled Poll_Overloaded]
     (new_pollers 60 30 [''A'', ''B'']))"

lemma demo_pollers_run: obtains failing lost where "poll_run (new_pollers 60 30 [''A'', ''B'']) failing lost demo_pollers"
proof -
  have "\<not> Option.is_none (poll_events [Replace_Begun [''A'', ''B''] 0, OI_Polled ''A'' Poll_Lost 1, Clock_Polled Poll_Overloaded]
     (new_pollers 60 30 [''A'', ''B'']))" by code_simp
  then have "poll_events [Replace_Begun [''A'', ''B''] 0, OI_Polled ''A'' Poll_Lost 1, Clock_Polled Poll_Overloaded]
     (new_pollers 60 30 [''A'', ''B'']) = Some demo_pollers" by (auto simp: Option.is_none_def demo_pollers_def)
  from poll_events_run [OF this poll_run.started] show thesis using that by blast
qed

lemma demo_pollers_gaps:
  "source_gap demo_pollers (Source_OI ''A'') = Some (0, CONNECTION_LOST)" "source_gap demo_pollers Source_Clock = Some (1, INGEST_OVERLOAD)"
  "\<not> Option.is_none (poll_step (Replace_Begun [''B''] 2) demo_pollers)"
  by code_simp+

theorem failing_polls_have_gap_witness:
  "\<exists>failing lost. poll_run (new_pollers 60 30 [''A'', ''B'']) failing lost demo_pollers \<and> Source_OI ''A'' \<in> failing \<and>
    poll_gap_open (po_gaps demo_pollers) 0 \<and> poll_gap_open (po_gaps demo_pollers) 1"
proof -
  obtain failing lost where run: "poll_run (new_pollers 60 30 [''A'', ''B'']) failing lost demo_pollers" by (rule demo_pollers_run)
  from failing_polls_have_gap [OF run] demo_pollers_gaps(1,2) run show ?thesis by (metis option.distinct(1))
qed

theorem removed_symbol_gap_stays_open_witness:
  "\<exists>p1. poll_step (Replace_Begun [''B''] 2) demo_pollers = Some p1 \<and> poll_gap_open (po_gaps p1) 0"
proof -
  obtain failing lost where run: "poll_run (new_pollers 60 30 [''A'', ''B'']) failing lost demo_pollers" by (rule demo_pollers_run)
  obtain p1 where p1: "poll_step (Replace_Begun [''B''] 2) demo_pollers = Some p1" using demo_pollers_gaps(3) by (auto simp: Option.is_none_def)
  have "poll_gap_open (po_gaps p1) 0"
    by (rule removed_symbol_gap_stays_open [OF run demo_pollers_gaps(1) p1 _ poll_run.started]) simp
  then show ?thesis using p1 by blast
qed

end
