(* ===== verification/Dec_Context.thy ===== *)
theory Dec_Context
  imports Decimals Doubles "HOL-Library.Multiset"
begin

text \<open>
  Arithmetic of \<open>decimal.Decimal\<close> under the default context: an operation is the exact one on
  rationals, rounded to 28 significant digits, half to even. Only the value of a decimal is kept, as
  the universe code compares and combines values; exponents stay far from the limits of the context.
  \<open>Decimal("Infinity")\<close> stands for a missing spread, so \<open>dec\<close> has the infinities.
\<close>

section \<open>Rounding\<close>

definition dec_exponent :: "rat \<Rightarrow> int" where
  "dec_exponent q =
     (let (n, d) = quotient_of q; k = int (floorlog 10 (nat n)) - int (floorlog 10 (nat d)) in
      if q < scale10 k then k - 28 else k - 27)"

definition dec_round_pos :: "rat \<Rightarrow> rat" where
  "dec_round_pos q = (let e = dec_exponent q in of_int (half_even (q / scale10 e)) * scale10 e)"

definition dec_round :: "rat \<Rightarrow> rat" where
  "dec_round q = (if q = 0 then 0 else if 0 < q then dec_round_pos q else - dec_round_pos (- q))"

definition dec_add :: "rat \<Rightarrow> rat \<Rightarrow> rat" where "dec_add a b = dec_round (a + b)"

definition dec_sub :: "rat \<Rightarrow> rat \<Rightarrow> rat" where "dec_sub a b = dec_round (a - b)"

definition dec_mul :: "rat \<Rightarrow> rat \<Rightarrow> rat" where "dec_mul a b = dec_round (a * b)"

definition dec_div :: "rat \<Rightarrow> rat \<Rightarrow> rat" where "dec_div a b = dec_round (a / b)"

lemma dec_round_0 [simp]: "dec_round 0 = 0"
  by (simp add: dec_round_def)

lemma dec_round_minus [simp]: "dec_round (- q) = - dec_round q"
  by (auto simp: dec_round_def)

text \<open>A power of ten is a decimal of one digit, and small integers are decimals.\<close>

lemma scale10_pos [simp]: "0 < scale10 e"
  by (simp add: scale10_def)

lemma scale10_nonzero [simp]: "scale10 e \<noteq> 0"
  using scale10_pos [of e] by linarith

lemma scale10_powi: "scale10 e = 10 powi e"
  by (simp add: scale10_def power_int_def power_inverse inverse_eq_divide power_one_over)

lemma scale10_add: "scale10 (a + b) = scale10 a * scale10 b"
  by (simp add: scale10_powi power_int_add)

lemma scale10_mono: "a \<le> b \<Longrightarrow> scale10 a \<le> scale10 b"
  by (simp add: scale10_powi power_int_increasing)

lemma half_even_mono: "a \<le> b \<Longrightarrow> half_even a \<le> half_even b"
  unfolding half_even_def Let_def
  by (cases "\<lfloor>a\<rfloor> = \<lfloor>b\<rfloor>") (use floor_mono [of a b] in \<open>auto split: if_splits\<close>)

lemma half_even_nonneg: "0 \<le> q \<Longrightarrow> 0 \<le> half_even q"
  using half_even_mono [of 0 q] by (simp add: half_even_def)

lemma dec_round_nonneg: "0 \<le> q \<Longrightarrow> 0 \<le> dec_round q"
  by (auto simp: dec_round_def dec_round_pos_def Let_def less_imp_le
      intro!: mult_nonneg_nonneg half_even_nonneg divide_nonneg_pos)

text \<open>
  The exponent leaves at most 28 digits, so rounding does not cross a decimal of 28 digits.
\<close>

lemma floorlog10_bounds:
  assumes "0 < n"
  shows "scale10 (int (floorlog 10 n) - 1) \<le> of_nat n" "of_nat n < scale10 (int (floorlog 10 n))"
proof -
  have b: "10 ^ (floorlog 10 n - 1) \<le> n" "n < 10 ^ floorlog 10 n"
    using Log_Nat.floorlog_bounds [of n 10] assms by auto
  have "0 < floorlog 10 n" using assms b(2) by (cases "floorlog 10 n") auto
  then have "scale10 (int (floorlog 10 n) - 1) = of_nat (10 ^ (floorlog 10 n - 1))"
    by (simp add: scale10_def nat_diff_distrib)
  also have "\<dots> \<le> of_nat n" using b(1) by (rule iffD2 [OF of_nat_le_iff])
  finally show "scale10 (int (floorlog 10 n) - 1) \<le> of_nat n" .
  have "(of_nat n :: rat) < of_nat (10 ^ floorlog 10 n)" using b(2) by (rule iffD2 [OF of_nat_less_iff])
  then show "of_nat n < scale10 (int (floorlog 10 n))" by (simp add: scale10_def)
qed

lemma dec_exponent_bound:
  assumes "0 < q"
  shows "scale10 (dec_exponent q + 27) \<le> q"
proof -
  obtain n d where nd: "quotient_of q = (n, d)" by (cases "quotient_of q")
  have d: "0 < d" "q = of_int n / of_int d" using nd quotient_of_denom_pos quotient_of_div by blast+
  then have n: "0 < n" using assms by (simp add: zero_less_divide_iff)
  define a where "a = int (floorlog 10 (nat n))"
  define b where "b = int (floorlog 10 (nat d))"
  have "scale10 (a - 1) \<le> of_int n" using floorlog10_bounds(1) [of "nat n"] n by (simp add: a_def)
  moreover have "of_int d < scale10 b" using floorlog10_bounds(2) [of "nat d"] d by (simp add: b_def)
  ultimately have "scale10 (a - 1) / scale10 b \<le> q"
    unfolding d(2) using d(1) n by (intro frac_le) auto
  moreover have "scale10 (a - 1) / scale10 b = scale10 (a - b - 28 + 27)"
    by (simp add: field_simps flip: scale10_add)
  ultimately have low: "scale10 (a - b - 28 + 27) \<le> q" by simp
  have e: "dec_exponent q = (if q < scale10 (a - b) then a - b - 28 else a - b - 27)"
    by (simp add: dec_exponent_def nd a_def b_def)
  show ?thesis
  proof (cases "q < scale10 (a - b)")
    case True
    then show ?thesis using low e by simp
  next
    case False
    then show ?thesis unfolding e by simp
  qed
qed

lemma dec_round_le:
  assumes "0 \<le> q" "q \<le> of_int m * scale10 k" "m < 10 ^ 28"
  shows "dec_round q \<le> of_int m * scale10 k"
proof (cases "q = 0")
  case False
  then have q: "0 < q" using assms(1) by simp
  define e where "e = dec_exponent q"
  have "scale10 (e + 27) \<le> q" using dec_exponent_bound [OF q] by (simp add: e_def)
  also have "q < scale10 28 * scale10 k"
  proof (rule le_less_trans [OF assms(2)])
    have "rat_of_int m < of_int (10 ^ 28)" using assms(3) by (rule iffD2 [OF of_int_less_iff])
    then show "of_int m * scale10 k < scale10 28 * scale10 k" by (simp add: scale10_def [of 28])
  qed
  finally have "scale10 (e + 27) < scale10 (28 + k)" by (simp add: scale10_add)
  then have "e \<le> k" using scale10_mono [of "28 + k" "e + 27"] by linarith
  then obtain j where j: "k = int j + e" by (metis add.commute diff_add_cancel nonneg_int_cases diff_ge_0_iff_ge)
  have k: "of_int m * scale10 k = of_int (m * 10 ^ j) * scale10 e"
    unfolding j scale10_add by (simp add: scale10_def [of "int j"])
  have "q / scale10 e \<le> of_int (m * 10 ^ j)" using assms(2) unfolding k by (simp add: divide_le_eq)
  then have "half_even (q / scale10 e) \<le> m * 10 ^ j" using half_even_mono half_even_int by metis
  then have "of_int (half_even (q / scale10 e)) * scale10 e \<le> of_int (m * 10 ^ j) * scale10 e"
    by (intro mult_right_mono) (simp_all only: of_int_le_iff scale10_pos less_imp_le)
  then show ?thesis unfolding k using q by (simp add: dec_round_def dec_round_pos_def Let_def e_def)
qed (use assms(2) in simp)

section \<open>Decimals with infinities\<close>

datatype dec = NegInf | Num rat | PosInf

instantiation dec :: linorder
begin

definition less_eq_dec :: "dec \<Rightarrow> dec \<Rightarrow> bool" where
  "less_eq_dec a b =
     (case (a, b) of (NegInf, _) \<Rightarrow> True | (_, PosInf) \<Rightarrow> True | (Num x, Num y) \<Rightarrow> x \<le> y | _ \<Rightarrow> False)"

definition less_dec :: "dec \<Rightarrow> dec \<Rightarrow> bool" where
  "less_dec a b \<longleftrightarrow> a \<le> b \<and> \<not> b \<le> (a :: dec)"

instance
  by standard (auto simp: less_eq_dec_def less_dec_def split: dec.splits)

end

lemma Num_le [simp]: "Num a \<le> Num b \<longleftrightarrow> a \<le> b"
  by (simp add: less_eq_dec_def)

lemma Num_less [simp]: "Num a < Num b \<longleftrightarrow> a < b"
  by (auto simp: less_dec_def)

definition dec_is_finite :: "dec \<Rightarrow> bool" where
  "dec_is_finite d = (case d of Num _ \<Rightarrow> True | _ \<Rightarrow> False)"

text \<open>The unary minus rounds to the context, as every operation does.\<close>

definition dec_neg :: "dec \<Rightarrow> dec" where
  "dec_neg d = (case d of NegInf \<Rightarrow> PosInf | Num x \<Rightarrow> Num (dec_round (- x)) | PosInf \<Rightarrow> NegInf)"

section \<open>Order statistics\<close>

text \<open>\<open>_median\<close> and \<open>_percentile\<close>; both are only called on values that are there: the configuration asks for at least 14
  baseline days and 60 instruments. \<open>dec_div\<close> is only called on divisors that are not zero: a ratio above 1, the number of
  rows, and the baseline medians that the panel of \<open>regime.py\<close> requires to be positive.\<close>

definition dec_median :: "rat list \<Rightarrow> rat" where
  "dec_median values =
     (let ordered = sort values; midpoint = length ordered div 2 in
      if length ordered mod 2 \<noteq> 0 then ordered ! midpoint
      else dec_div (dec_add (ordered ! (midpoint - 1)) (ordered ! midpoint)) 2)"

definition dec_percentile :: "rat list \<Rightarrow> nat \<Rightarrow> nat \<Rightarrow> rat" where
  "dec_percentile values numerator denominator =
     (let ordered = sort values; position = (length ordered - 1) * numerator;
          lower = position div denominator; remainder = position mod denominator in
      if remainder = 0 then ordered ! lower
      else dec_div (dec_add (dec_mul (ordered ! lower) (of_nat (denominator - remainder)))
        (dec_mul (ordered ! (lower + 1)) (of_nat remainder))) (of_nat denominator))"

lemma sort_mset_cong: "mset xs = mset ys \<Longrightarrow> sort xs = sort ys"
  by (intro properties_for_sort) simp_all

end
