(* ===== verification/Ranking.thy ===== *)
theory Ranking
  imports Dec_Context
begin

text \<open>
  \<open>src/miry/universe/ranking.py\<close>: ranking a cross-section of instruments by their weakest metric. A
  metric is its values by symbol with its direction; ranks are competition ranks, equal values share one.
\<close>

section \<open>Operations\<close>

type_synonym 'row metric = "('row \<Rightarrow> dec) \<times> bool"

text \<open>One step of the loop of \<open>_metric_ranks\<close>: the ranks so far, the previous value and its rank.\<close>

definition rank_step ::
    "nat \<times> string \<times> dec \<Rightarrow> (string, nat) dict \<times> dec option \<times> nat \<Rightarrow> (string, nat) dict \<times> dec option \<times> nat" where
  "rank_step = (\<lambda>(position, symbol, v) (ranks, previous, rank).
     let (rank', previous') = (if previous = None \<or> previous \<noteq> Some v then (position, Some v) else (rank, previous)) in
     (dict_set symbol rank' ranks, previous', rank'))"

definition metric_order :: "bool \<Rightarrow> (string, dec) dict \<Rightarrow> (string \<times> dec) list" where
  "metric_order descending values = sort_key (\<lambda>(s, v). (if descending then dec_neg v else v, s)) values"

definition metric_ranks :: "bool \<Rightarrow> (string, dec) dict \<Rightarrow> (string, nat) dict" where
  "metric_ranks descending values =
     (let ordered = metric_order descending values in
      fst (fold rank_step (zip [1..<Suc (length ordered)] ordered) ([], None, 0)))"

definition aggregate_key :: "nat list \<Rightarrow> string \<Rightarrow> nat \<times> nat \<times> nat list \<times> string" where
  "aggregate_key ranks symbol = (Max (set ranks), sum_list ranks, ranks, symbol)"

definition metric_values :: "('row \<Rightarrow> string) \<Rightarrow> ('row \<Rightarrow> dec) \<Rightarrow> 'row list \<Rightarrow> (string, dec) dict" where
  "metric_values symbol value rows = fold (\<lambda>r. dict_set (symbol r) (value r)) rows []"

definition rank_of :: "(string, nat) dict \<Rightarrow> string \<Rightarrow> nat" where
  "rank_of ranks s = (case dict_get ranks s of Some n \<Rightarrow> n | None \<Rightarrow> 0)"

definition rank_cross_section :: "('row \<Rightarrow> string) \<Rightarrow> 'row metric list \<Rightarrow> 'row list \<Rightarrow> 'row list" where
  "rank_cross_section symbol metrics rows =
     (let metric_rank_dicts = map (\<lambda>(value, descending). metric_ranks descending (metric_values symbol value rows)) metrics in
      sort_key (\<lambda>r. aggregate_key (map (\<lambda>ranks. rank_of ranks (symbol r)) metric_rank_dicts) (symbol r)) rows)"

section \<open>Competition ranks\<close>

text \<open>What comes before a value in the order of a metric.\<close>

definition better :: "bool \<Rightarrow> dec \<Rightarrow> dec \<Rightarrow> bool" where
  "better descending v w \<longleftrightarrow> (if descending then w < v else v < w)"

definition context_value :: "dec \<Rightarrow> bool" where
  "context_value v \<longleftrightarrow> (case v of Num x \<Rightarrow> dec_round x = x | _ \<Rightarrow> True)"

lemma dec_neg_less: "context_value v \<Longrightarrow> context_value w \<Longrightarrow> dec_neg v < dec_neg w \<longleftrightarrow> w < v"
  by (auto simp: context_value_def dec_neg_def less_dec_def less_eq_dec_def split: dec.splits)

text \<open>The loop over an ordered list gives every entry the number of strictly smaller keys, plus one.\<close>

definition ranks_ok :: "('k \<Rightarrow> 'k \<Rightarrow> bool) \<Rightarrow> (string \<times> 'k) list \<Rightarrow> (string, nat) dict \<Rightarrow> bool" where
  "ranks_ok before done ranks \<longleftrightarrow>
     (\<forall>(s, v) \<in> set done. dict_get ranks s = Some (Suc (length (filter (\<lambda>(_, w). before w v) done))))"

lemma rank_fold:
  assumes key: "\<And>v w. before v w \<longleftrightarrow> (f v :: 'o :: linorder) < f w"
    and same: "\<And>v w. (v, w) \<in> snd ` set (done @ todo) \<times> snd ` set (done @ todo) \<Longrightarrow> f v = f w \<longleftrightarrow> v = w"
    and sorted: "sorted (map (f \<circ> snd) (done @ todo))" and names: "distinct (map fst (done @ todo))"
    and ok: "ranks_ok before done ranks"
    and last: "done \<noteq> [] \<Longrightarrow> previous = Some (snd (last done)) \<and>
       rank = Suc (length (filter (\<lambda>(_, w). before w (snd (last done))) done))"
      "done = [] \<Longrightarrow> previous = None"
  shows "ranks_ok before (done @ todo)
    (fst (fold rank_step (zip [Suc (length done)..<Suc (length (done @ todo))] todo) (ranks, previous, rank)))"
  using assms(2-)
proof (induction todo arbitrary: "done" ranks previous rank)
  case (Cons sv todo)
  obtain s v where sv: "sv = (s, v)" by (cases sv)
  let ?n = "Suc (length (filter (\<lambda>(_, w). before w v) done))"
  have before_done: "f w \<le> f v" if "(t, w) \<in> set done" for t w
    using Cons.prems(2) that sv by (auto simp: sorted_append)
  have count: "(if previous = None \<or> previous \<noteq> Some v then Suc (length done) else rank) = ?n"
  proof (cases "done = []")
    case False
    then have l: "last done \<in> set done" by simp
    show ?thesis
    proof (cases "snd (last done) = v")
      case True
      then show ?thesis using Cons.prems(5) False by simp
    next
      case nv: False
      have ne: "f (snd (last done)) \<noteq> f v" using Cons.prems(1) [of "snd (last done)" v] l nv sv by force
      have "before w v" if w: "(t, w) \<in> set done" for t w
      proof -
        obtain d' where d': "done = d' @ [last done]" using False by (metis append_butlast_last_id)
        have "f w \<le> f (snd (last done))"
        proof (cases "(t, w) = last done")
          case True
          then show ?thesis by (metis order_refl snd_conv)
        next
          case no: False
          then have "(t, w) \<in> set d'" using w d' by (metis in_set_conv_decomp_last rotate1.simps(2) set_ConsD set_rotate1)
          moreover have "sorted (map (f \<circ> snd) (d' @ [last done]))"
            unfolding d' [symmetric] using Cons.prems(2) by (simp add: sorted_append comp_def)
          ultimately show ?thesis by (auto simp: sorted_append)
        qed
        moreover have "f (snd (last done)) \<le> f v" using before_done l by (metis surjective_pairing)
        ultimately show ?thesis using ne unfolding key by simp
      qed
      then have "filter (\<lambda>(_, w). before w v) done = done" by (intro filter_True) auto
      then show ?thesis using Cons.prems(5) False nv by simp
    qed
  qed (simp add: Cons.prems(6))
  have step: "rank_step (Suc (length done), s, v) (ranks, previous, rank) = (dict_set s ?n ranks, Some v, ?n)"
    using count by (auto simp: rank_step_def Let_def split: if_splits)
  have nb: "\<not> before v w" if "(t, w) \<in> set done \<or> w = v" for t w
    using before_done that unfolding key by (auto simp: not_less)
  have new: "length (filter (\<lambda>(_, w). before w u) (done @ [(s, v)])) = length (filter (\<lambda>(_, w). before w u) done)"
    if "(t, u) \<in> set (done @ [(s, v)])" for t u
    using nb [of t u] that by auto
  have "ranks_ok before (done @ [(s, v)]) (dict_set s ?n ranks)"
    unfolding ranks_ok_def
  proof (intro ballI, clarify)
    fix t u assume tu: "(t, u) \<in> set (done @ [(s, v)])"
    show "dict_get (dict_set s ?n ranks) t = Some (Suc (length (filter (\<lambda>(_, w). before w u) (done @ [(s, v)]))))"
      unfolding new [OF tu]
    proof (cases "(t, u) \<in> set done")
      case True
      then have "t \<noteq> s" using Cons.prems(3) sv by force
      then show "dict_get (dict_set s ?n ranks) t = Some (Suc (length (filter (\<lambda>(_, w). before w u) done)))"
        using True Cons.prems(4) by (auto simp: ranks_ok_def)
    qed (use tu in auto)
  qed
  then have "ranks_ok before ((done @ [(s, v)]) @ todo)
     (fst (fold rank_step (zip [Suc (length (done @ [(s, v)]))..<Suc (length ((done @ [(s, v)]) @ todo))] todo)
       (dict_set s ?n ranks, Some v, ?n)))"
    using Cons.prems(1-3) sv new [of s v] by (intro Cons.IH) auto
  moreover have "zip [Suc (length done)..<Suc (length (done @ sv # todo))] (sv # todo) =
      (Suc (length done), s, v) # zip [Suc (length (done @ [(s, v)]))..<Suc (length ((done @ [(s, v)]) @ todo))] todo"
    by (subst upt_conv_Cons) (simp_all add: sv del: upt_Suc)
  ultimately show ?case by (simp add: step sv del: upt_Suc)
qed simp

lemma dec_neg_inj: "context_value v \<Longrightarrow> context_value w \<Longrightarrow> dec_neg v = dec_neg w \<longleftrightarrow> v = w"
  by (metis dec_neg_less neq_iff)

lemma length_filter_sort_key: "length (filter P (sort_key f xs)) = length (filter P xs)"
  by (metis mset_filter mset_sort size_mset)

lemma sorted_firsts: "sorted ps \<Longrightarrow> sorted (map fst (ps :: ('o :: linorder \<times> 'p :: linorder) list))"
  by (induction ps) (auto simp: less_eq_prod_def)

lemma metric_ranks_count:
  assumes "dict_ok values" "\<forall>(s, v) \<in> set values. context_value v" "(s, v) \<in> set values"
  shows "rank_of (metric_ranks descending values) s = Suc (length (filter (\<lambda>(_, w). better descending w v) values))"
proof -
  define f where "f = (\<lambda>v. if descending then dec_neg v else v)"
  let ?o = "metric_order descending values"
  have in_o: "(t, w) \<in> set ?o \<longleftrightarrow> (t, w) \<in> set values" for t w by (simp add: metric_order_def)
  have "sorted (map (\<lambda>(s, v). (f v, s)) ?o)" unfolding metric_order_def f_def by simp
  from sorted_firsts [OF this] have sorted: "sorted (map (f \<circ> snd) ?o)" by (simp add: comp_def case_prod_beta)
  have "distinct (map fst ?o)"
    using assms(1) mset_eq_imp_distinct_iff [of "map fst ?o" "map fst values"]
    by (simp add: dict_ok_def metric_order_def)
  moreover have "f x = f y \<longleftrightarrow> x = y" if "(x, y) \<in> snd ` set ?o \<times> snd ` set ?o" for x y
  proof -
    have "context_value x" "context_value y" using that assms(2) in_o by auto
    then show ?thesis by (simp add: f_def dec_neg_inj)
  qed
  ultimately have "ranks_ok (\<lambda>v w. f v < f w) ?o (metric_ranks descending values)"
    using rank_fold [of "\<lambda>v w. f v < f w" f "[]" ?o "[]" None 0] sorted
    by (simp add: metric_ranks_def Let_def ranks_ok_def del: upt_Suc)
  from bspec [OF this [unfolded ranks_ok_def] iffD2 [OF in_o assms(3)]]
  have "rank_of (metric_ranks descending values) s = Suc (length (filter (\<lambda>(_, w). f w < f v) ?o))"
    by (simp add: rank_of_def)
  also have "length (filter (\<lambda>(_, w). f w < f v) ?o) = length (filter (\<lambda>(_, w). better descending w v) values)"
    unfolding metric_order_def length_filter_sort_key
  proof (intro arg_cong [of _ _ length] filter_cong refl)
    fix p assume "p \<in> set values"
    then have "context_value (snd p)" "context_value v" using assms(2,3) by auto
    then show "(case p of (_, w) \<Rightarrow> f w < f v) = (case p of (_, w) \<Rightarrow> better descending w v)"
      by (cases p) (simp add: f_def better_def dec_neg_less)
  qed
  finally show ?thesis .
qed

lemma dict_set_new: "k \<notin> fst ` set d \<Longrightarrow> dict_set k v d = d @ [(k, v)]"
  by (induction k v d rule: dict_set.induct) auto

lemma metric_values_map:
  assumes "distinct (map symbol rows)"
  shows "metric_values symbol value rows = map (\<lambda>r. (symbol r, value r)) rows"
proof -
  have "fold (\<lambda>r. dict_set (symbol r) (value r)) rows d = d @ map (\<lambda>r. (symbol r, value r)) rows"
    if "distinct (map fst d @ map symbol rows)" for d
    using that
  proof (induction rows arbitrary: d)
    case (Cons r rows)
    then have "dict_set (symbol r) (value r) d = d @ [(symbol r, value r)]" by (intro dict_set_new) auto
    then show ?case using Cons.IH [of "d @ [(symbol r, value r)]"] Cons.prems by simp
  qed simp
  from this [of "[]"] assms show ?thesis by (simp add: metric_values_def)
qed

lemma sorted_key_before:
  assumes "a \<in> set xs" "b \<in> set xs" "f a < (f b :: 'o :: linorder)"
  shows "\<exists>i j. i < j \<and> j < length xs \<and> sort_key f xs ! i = a \<and> sort_key f xs ! j = b"
proof -
  obtain i j where ij: "i < length xs" "sort_key f xs ! i = a" "j < length xs" "sort_key f xs ! j = b"
    using assms(1,2) by (metis in_set_conv_nth length_sort set_sort)
  have "i < j"
  proof (rule ccontr)
    assume "\<not> i < j"
    then have "map f (sort_key f xs) ! j \<le> map f (sort_key f xs) ! i"
      using ij by (intro sorted_nth_mono) simp_all
    then show False using ij assms(3) by simp
  qed
  then show ?thesis using ij by blast
qed

lemma sum_list_strict:
  "\<forall>x \<in> set xs. f x \<le> g x \<Longrightarrow> \<exists>x \<in> set xs. f x < g x \<Longrightarrow> sum_list (map f xs) < (sum_list (map g xs) :: nat)"
proof (induction xs)
  case (Cons x xs)
  have "sum_list (map f xs) \<le> sum_list (map g xs)" using Cons.prems(1) by (intro sum_list_mono) auto
  then show ?case using Cons by (cases "f x < g x") auto
qed simp

lemma Max_map_mono:
  "xs \<noteq> [] \<Longrightarrow> \<forall>x \<in> set xs. f x \<le> g x \<Longrightarrow> Max (set (map f xs)) \<le> (Max (set (map g xs)) :: nat)"
proof (induction xs rule: list_nonempty_induct)
  case (cons x xs)
  then show ?case by (auto simp: max_def)
qed simp

section \<open>Properties\<close>

text \<open>The ranking is a permutation of the rows that respects dominance: an instrument that is at least as good as
  another one in every metric and better in one is ranked before it, whatever the other instruments are. Values must have
  at most the 28 digits of the decimal context, because the descending order compares negated, hence rounded, values.\<close>

lemma ranking_respects_dominance:
  assumes "distinct (map symbol rows)" "\<forall>r \<in> set rows. \<forall>(value, _) \<in> set metrics. context_value (value r)"
    and "a \<in> set rows" "b \<in> set rows"
    and "\<forall>(value, descending) \<in> set metrics. \<not> better descending (value b) (value a)"
    and "\<exists>(value, descending) \<in> set metrics. better descending (value a) (value b)"
  shows "mset (rank_cross_section symbol metrics rows) = mset rows \<and>
    (\<exists>i j. i < j \<and> j < length rows \<and>
       rank_cross_section symbol metrics rows ! i = a \<and> rank_cross_section symbol metrics rows ! j = b)"
proof -
  define rk where "rk = (\<lambda>r m. rank_of (metric_ranks (snd m) (metric_values symbol (fst m) rows)) (symbol r))"
  define key where "key = (\<lambda>r. aggregate_key (map (rk r) metrics) (symbol r))"
  have sorted: "rank_cross_section symbol metrics rows = sort_key key rows"
    unfolding rank_cross_section_def Let_def key_def rk_def map_map comp_def case_prod_beta ..
  have rk: "rk r m = Suc (length (filter (\<lambda>q. better (snd m) (fst m q) (fst m r)) rows))"
    if "r \<in> set rows" "m \<in> set metrics" for r m
  proof -
    let ?entries = "map (\<lambda>r. (symbol r, fst m r)) rows"
    have "dict_ok ?entries" using assms(1) by (simp add: dict_ok_def comp_def)
    moreover have "\<forall>(s, v) \<in> set ?entries. context_value v" using that(2) assms(2) by fastforce
    moreover have "(symbol r, fst m r) \<in> set ?entries" using that(1) by simp
    ultimately show ?thesis
      using metric_ranks_count [of ?entries "symbol r" "fst m r" "snd m"] metric_values_map [OF assms(1), of "fst m"]
      by (simp add: rk_def filter_map comp_def case_prod_beta)
  qed
  have trans: "better (snd m) (fst m q) (fst m b)" if "better (snd m) (fst m q) (fst m a)" "m \<in> set metrics" for q m
    using that assms(5) by (cases m) (auto simp: better_def split: if_splits)
  have le: "rk a m \<le> rk b m" if "m \<in> set metrics" for m
    unfolding rk [OF assms(3) that] rk [OF assms(4) that] using trans that
    by (simp add: length_filter_conv_card card_mono Collect_mono)
  obtain m where m: "m \<in> set metrics" "better (snd m) (fst m a) (fst m b)" using assms(6) by auto
  have "length (filter (\<lambda>q. better (snd m) (fst m q) (fst m a)) rows) <
      length (filter (\<lambda>q. better (snd m) (fst m q) (fst m b)) rows)"
  proof -
    obtain i where i: "i < length rows" "rows ! i = a" using assms(3) by (auto simp: in_set_conv_nth)
    have "\<not> better (snd m) (fst m a) (fst m a)" by (simp add: better_def)
    then have "{i. i < length rows \<and> better (snd m) (fst m (rows ! i)) (fst m a)} \<subset>
        {i. i < length rows \<and> better (snd m) (fst m (rows ! i)) (fst m b)}"
      using trans [OF _ m(1)] m(2) i by blast
    then show ?thesis unfolding length_filter_conv_card by (intro psubset_card_mono) auto
  qed
  then have "rk a m < rk b m" by (simp add: rk m(1) assms(3,4))
  then have "sum_list (map (rk a) metrics) < sum_list (map (rk b) metrics)"
    using le m(1) by (intro sum_list_strict) auto
  moreover have "Max (set (map (rk a) metrics)) \<le> Max (set (map (rk b) metrics))"
    using le m(1) by (intro Max_map_mono) auto
  ultimately have "key a < key b" by (auto simp: key_def aggregate_key_def less_prod_def)
  then show ?thesis unfolding sorted using sorted_key_before [OF assms(3,4)] by simp
qed

definition sample_rows :: "(string \<times> dec \<times> dec) list" where
  "sample_rows = [(''B'', Num 2, Num 5), (''A'', Num 1, Num 7), (''C'', Num 3, Num 4)]"

definition sample_metrics :: "(string \<times> dec \<times> dec) metric list" where
  "sample_metrics = [(\<lambda>r. fst (snd r), True), (\<lambda>r. snd (snd r), False)]"

lemma small_round: "dec_round 0 = 0" "dec_round 1 = 1" "dec_round 2 = 2" "dec_round 3 = 3"
    "dec_round 4 = 4" "dec_round 5 = 5" "dec_round 7 = 7"
  by (simp_all add: dec_round_def dec_round_pos_def dec_exponent_def compute_floorlog scale10_def half_even_def)

lemma ranking_respects_dominance_witness:
  "\<exists>i j. i < j \<and> rank_cross_section fst sample_metrics sample_rows ! i = (''C'', Num 3, Num 4) \<and>
     rank_cross_section fst sample_metrics sample_rows ! j = (''B'', Num 2, Num 5)"
  using ranking_respects_dominance [of fst sample_rows sample_metrics "(''C'', Num 3, Num 4)" "(''B'', Num 2, Num 5)"]
  by (auto simp: sample_rows_def sample_metrics_def context_value_def better_def small_round)

end
