(* ===== verification/Regime.thy ===== *)
theory Regime
  imports Dec_Context
begin

text \<open>
  \<open>src/miry/universe/regime.py\<close>: whether the activity of the whole market has moved, judged by the
  median factor and by the share of instruments that moved with it, over 1, 3 and 7 days.
\<close>

section \<open>Operations\<close>

definition PENDING_DAYS :: nat where "PENDING_DAYS = 3"

definition CONFIRMATION_DAYS :: nat where "CONFIRMATION_DAYS = 7"

datatype market_state = NORMAL | SHOCK_PENDING | SHIFT_CONFIRMED

definition market_state_value :: "market_state \<Rightarrow> string" where
  "market_state_value s = (case s of NORMAL \<Rightarrow> ''NORMAL'' | SHOCK_PENDING \<Rightarrow> ''ACTIVITY_SHOCK_PENDING''
     | SHIFT_CONFIRMED \<Rightarrow> ''ACTIVITY_SHIFT_CONFIRMED'')"

record market_context =
  mc_state :: market_state
  horizon_days :: nat
  panel_count :: nat
  quote_volume_factor :: rat
  trade_count_factor :: rat
  quote_volume_breadth :: rat
  trade_count_breadth :: rat

record activity_series =
  quote_volumes :: "rat list"
  trade_counts :: "int list"

definition trade_decimals :: "activity_series \<Rightarrow> rat list" where
  "trade_decimals row = map of_int (trade_counts row)"

definition last_values :: "nat \<Rightarrow> 'a list \<Rightarrow> 'a list" where
  "last_values n xs = drop (length xs - n) xs"

definition in_panel :: "nat \<Rightarrow> activity_series \<Rightarrow> bool" where
  "in_panel baseline row \<longleftrightarrow>
     length (quote_volumes row) = baseline + CONFIRMATION_DAYS \<and> length (trade_counts row) = baseline + CONFIRMATION_DAYS \<and>
     0 < dec_median (take baseline (quote_volumes row)) \<and> 0 < dec_median (take baseline (trade_decimals row))"

definition volume_factor :: "nat \<Rightarrow> nat \<Rightarrow> activity_series \<Rightarrow> rat" where
  "volume_factor baseline horizon row =
     dec_div (dec_median (last_values horizon (quote_volumes row))) (dec_median (take baseline (quote_volumes row)))"

definition trade_factor :: "nat \<Rightarrow> nat \<Rightarrow> activity_series \<Rightarrow> rat" where
  "trade_factor baseline horizon row =
     dec_div (dec_median (last_values horizon (trade_decimals row))) (dec_median (take baseline (trade_decimals row)))"

definition directional_breadth :: "rat list \<Rightarrow> rat \<Rightarrow> bool \<Rightarrow> rat" where
  "directional_breadth values threshold upward =
     dec_div (of_nat (length (filter (\<lambda>v. if upward then threshold \<le> v else v \<le> threshold) values)))
       (of_nat (length values))"

definition evaluate_horizon :: "activity_series list \<Rightarrow> nat \<Rightarrow> nat \<Rightarrow> rat \<Rightarrow> market_context" where
  "evaluate_horizon rows horizon baseline ratio =
     (let volume_factors = map (volume_factor baseline horizon) rows;
          trade_factors = map (trade_factor baseline horizon) rows;
          volume = dec_median volume_factors; trade = dec_median trade_factors;
          upward = (ratio \<le> volume); threshold = (if upward then ratio else dec_div 1 ratio) in
      \<lparr>mc_state = NORMAL, horizon_days = horizon, panel_count = length rows,
        quote_volume_factor = volume, trade_count_factor = trade,
        quote_volume_breadth = directional_breadth volume_factors threshold upward,
        trade_count_breadth = directional_breadth trade_factors threshold upward\<rparr>)"

definition is_broad_move :: "market_context \<Rightarrow> rat \<Rightarrow> rat \<Rightarrow> bool" where
  "is_broad_move c ratio breadth \<longleftrightarrow>
     (let upward = (ratio \<le> quote_volume_factor c \<and> ratio \<le> trade_count_factor c);
          limit = dec_div 1 ratio;
          downward = (quote_volume_factor c \<le> limit \<and> trade_count_factor c \<le> limit) in
      (upward \<or> downward) \<and> breadth \<le> quote_volume_breadth c \<and> breadth \<le> trade_count_breadth c)"

definition with_state :: "market_context \<Rightarrow> market_state \<Rightarrow> market_context" where
  "with_state c s = c\<lparr>mc_state := s\<rparr>"

definition evaluate_market_context :: "activity_series list \<Rightarrow> nat \<Rightarrow> rat \<Rightarrow> rat \<Rightarrow> nat \<Rightarrow> market_context" where
  "evaluate_market_context series baseline ratio breadth minimum =
     (let panel = filter (in_panel baseline) series in
      if length panel < minimum then
        \<lparr>mc_state = NORMAL, horizon_days = 0, panel_count = length panel, quote_volume_factor = 1,
          trade_count_factor = 1, quote_volume_breadth = 0, trade_count_breadth = 0\<rparr>
      else
        let context = (\<lambda>h. evaluate_horizon panel h baseline ratio) in
        if is_broad_move (context CONFIRMATION_DAYS) ratio breadth then with_state (context CONFIRMATION_DAYS) SHIFT_CONFIRMED
        else case find (\<lambda>h. is_broad_move (context h) ratio breadth) [PENDING_DAYS, 1] of
            Some h \<Rightarrow> with_state (context h) SHOCK_PENDING
          | None \<Rightarrow> context 1)"

section \<open>A broad move is a move of the majority\<close>

definition moved :: "bool \<Rightarrow> rat \<Rightarrow> rat \<Rightarrow> bool" where
  "moved upward ratio factor \<longleftrightarrow> (if upward then ratio \<le> factor else factor \<le> dec_div 1 ratio)"

definition majority_moved :: "bool \<Rightarrow> rat \<Rightarrow> rat list \<Rightarrow> bool" where
  "majority_moved upward ratio factors \<longleftrightarrow> length factors < 2 * length (filter (moved upward ratio) factors)"

lemma breadth_majority:
  assumes "1 / 2 < directional_breadth values (if upward then ratio else dec_div 1 ratio) upward"
  shows "majority_moved upward ratio values"
proof (rule ccontr)
  let ?k = "length (filter (moved upward ratio) values)"
  assume "\<not> majority_moved upward ratio values"
  then have "2 * ?k \<le> length values" by (simp add: majority_moved_def)
  then have "rat_of_nat (2 * ?k) \<le> of_nat (length values)" by (rule iffD2 [OF of_nat_le_iff])
  then have "rat_of_nat ?k / of_nat (length values) \<le> of_int 5 * scale10 (- 1)"
    by (cases "values = []") (simp_all add: scale10_def field_simps)
  then have "dec_round (rat_of_nat ?k / of_nat (length values)) \<le> of_int 5 * scale10 (- 1)"
    by (intro dec_round_le) simp_all
  moreover have "filter (\<lambda>v. if upward then (if upward then ratio else dec_div 1 ratio) \<le> v
      else v \<le> (if upward then ratio else dec_div 1 ratio)) values = filter (moved upward ratio) values"
    by (intro filter_cong) (simp_all add: moved_def)
  ultimately show False using assms by (simp add: directional_breadth_def dec_div_def scale10_def)
qed

lemma inverse_ratio: "1 < ratio \<Longrightarrow> dec_div 1 ratio < ratio"
proof -
  assume r: "1 < ratio"
  then have "dec_round (1 / ratio) \<le> of_int 1 * scale10 0" by (intro dec_round_le) (simp_all add: scale10_def divide_le_eq)
  then show ?thesis using r by (simp add: dec_div_def scale10_def)
qed

lemma broad_move_majority:
  assumes "is_broad_move (evaluate_horizon rows h baseline ratio) ratio breadth" "1 < ratio" "1 / 2 < breadth"
  shows "\<exists>upward. majority_moved upward ratio (map (volume_factor baseline h) rows) \<and>
    majority_moved upward ratio (map (trade_factor baseline h) rows)"
proof -
  define upward where "upward = (ratio \<le> dec_median (map (volume_factor baseline h) rows))"
  let ?t = "if upward then ratio else dec_div 1 ratio"
  have "breadth \<le> directional_breadth (map (volume_factor baseline h) rows) ?t upward"
    "breadth \<le> directional_breadth (map (trade_factor baseline h) rows) ?t upward"
    using assms(1) by (simp_all add: is_broad_move_def evaluate_horizon_def Let_def upward_def)
  then show ?thesis using assms(3) breadth_majority by (intro exI [of _ upward]) force
qed

section \<open>Properties\<close>

text \<open>With the ratios that the configuration admits, a market state other than \<open>NORMAL\<close> means that over one of the
  horizons more than half of a large enough panel moved beyond the change ratio, all in the same direction, in quote
  volume and also in trade count; a confirmed shift means it over the full confirmation week.\<close>

lemma market_state_needs_majority:
  assumes "1 < ratio" "1 / 2 < breadth" "mc_state c \<noteq> NORMAL"
    and "c = evaluate_market_context series baseline ratio breadth minimum"
  shows "minimum \<le> panel_count c \<and>
    (\<exists>h \<in> {1, PENDING_DAYS, CONFIRMATION_DAYS}. \<exists>upward. h = horizon_days c \<and>
      (mc_state c = SHIFT_CONFIRMED \<longleftrightarrow> h = CONFIRMATION_DAYS) \<and>
      majority_moved upward ratio (map (volume_factor baseline h) (filter (in_panel baseline) series)) \<and>
      majority_moved upward ratio (map (trade_factor baseline h) (filter (in_panel baseline) series)))"
proof -
  let ?panel = "filter (in_panel baseline) series"
  let ?c = "\<lambda>h. evaluate_horizon ?panel h baseline ratio"
  have normal: "mc_state (?c h) = NORMAL" "panel_count (?c h) = length ?panel" "horizon_days (?c h) = h" for h
    by (simp_all add: evaluate_horizon_def Let_def)
  have large: "\<not> length ?panel < minimum" using assms(3,4) by (auto simp: evaluate_market_context_def)
  obtain h where h: "h \<in> {1, PENDING_DAYS, CONFIRMATION_DAYS}" "is_broad_move (?c h) ratio breadth"
    "c = with_state (?c h) (if h = CONFIRMATION_DAYS then SHIFT_CONFIRMED else SHOCK_PENDING)"
  proof (cases "is_broad_move (?c CONFIRMATION_DAYS) ratio breadth")
    case True
    then show thesis using that [of CONFIRMATION_DAYS] assms(4) large by (simp add: evaluate_market_context_def Let_def)
  next
    case no: False
    show thesis
    proof (cases "find (\<lambda>h. is_broad_move (?c h) ratio breadth) [PENDING_DAYS, 1]")
      case None
      then have "c = ?c 1" using no assms(4) large by (simp add: evaluate_market_context_def Let_def)
      then show thesis using assms(3) normal by simp
    next
      case (Some h)
      then have "h \<in> {PENDING_DAYS, 1}" "is_broad_move (?c h) ratio breadth" by (auto split: if_splits)
      moreover have "h \<noteq> CONFIRMATION_DAYS"
        using calculation by (auto simp: PENDING_DAYS_def CONFIRMATION_DAYS_def)
      moreover have "c = with_state (?c h) SHOCK_PENDING"
        using no Some assms(4) large by (simp add: evaluate_market_context_def Let_def)
      ultimately show thesis using that [of h] by auto
    qed
  qed
  have c: "horizon_days c = h" "panel_count c = length ?panel" "mc_state c = SHIFT_CONFIRMED \<longleftrightarrow> h = CONFIRMATION_DAYS"
    using h(3) normal by (simp_all add: with_state_def)
  from broad_move_majority [OF h(2) assms(1,2)] show ?thesis using c h(1) large by auto
qed

definition doubled_series :: activity_series where
  "doubled_series = \<lparr>quote_volumes = [1, 2, 2, 2, 2, 2, 2, 2], trade_counts = [3, 6, 6, 6, 6, 6, 6, 6]\<rparr>"

lemma median_one [simp]: "dec_median [x] = x"
  by (simp add: dec_median_def)

lemma median_seven: "dec_median [x, x, x, x, x, x, x] = x"
proof -
  have "[x, x, x, x, x, x, x] = replicate 7 x" by (simp add: numeral_eq_Suc)
  moreover have "sort (replicate 7 x) = replicate 7 x" by (intro sorted_sort_id) simp
  ultimately show ?thesis by (simp add: dec_median_def)
qed

lemma round_digit: "dec_round 2 = 2" "dec_round 1 = 1"
  by (simp_all add: dec_round_def dec_round_pos_def dec_exponent_def compute_floorlog scale10_def half_even_def)

lemma doubled_factors:
  "in_panel 1 doubled_series" "volume_factor 1 7 doubled_series = 2" "trade_factor 1 7 doubled_series = 2"
proof -
  have "last_values 7 (quote_volumes doubled_series) = [2, 2, 2, 2, 2, 2, 2]"
    "last_values 7 (trade_decimals doubled_series) = [6, 6, 6, 6, 6, 6, 6]"
    by (simp_all add: doubled_series_def last_values_def trade_decimals_def)
  moreover have "take 1 (quote_volumes doubled_series) = [1]" "take 1 (trade_decimals doubled_series) = [3]"
    by (simp_all add: doubled_series_def trade_decimals_def)
  ultimately show "volume_factor 1 7 doubled_series = 2" "trade_factor 1 7 doubled_series = 2"
      "in_panel 1 doubled_series"
    by (simp_all add: volume_factor_def trade_factor_def in_panel_def median_seven dec_div_def round_digit)
      (simp_all add: doubled_series_def CONFIRMATION_DAYS_def)
qed

lemma doubled_confirmed: "mc_state (evaluate_market_context [doubled_series] 1 (5 / 4) (7 / 10) 1) = SHIFT_CONFIRMED"
proof -

  have "is_broad_move (evaluate_horizon [doubled_series] 7 1 (5 / 4)) (5 / 4) (7 / 10)"
    by (simp add: is_broad_move_def evaluate_horizon_def Let_def doubled_factors [unfolded One_nat_def] dec_median_def
        directional_breadth_def dec_div_def round_digit)
  then show ?thesis
    by (simp add: evaluate_market_context_def doubled_factors [unfolded One_nat_def] CONFIRMATION_DAYS_def with_state_def)
qed

lemma market_state_needs_majority_witness:
  "\<exists>h upward. majority_moved upward (5 / 4) (map (volume_factor 1 h) (filter (in_panel 1) [doubled_series]))"
  using market_state_needs_majority [of "5 / 4" "7 / 10" "evaluate_market_context [doubled_series] 1 (5 / 4) (7 / 10) 1"
      "[doubled_series]" 1 1] doubled_confirmed
  by fastforce

end
