(* ===== verification/Evidence.thy ===== *)
theory Evidence
  imports Contracts Ranking Regime
begin

text \<open>
  \<open>src/miry/universe/evidence.py\<close> and \<open>models.py\<close>: the market evidence of a discovery snapshot (exchange
  information, daily klines, order book samples) is checked and condensed to one row per eligible
  symbol, and the pools of mature and recent candidates are ranked from the rows. A source file is its
  bytes with what \<open>orjson.loads\<close> returns on them, \<open>None\<close> when it raises.
\<close>

section \<open>Policy and snapshot\<close>

record rolling_policy =
  liquidity_window_days :: nat
  probe_minimum_complete_days :: nat
  market_context_baseline_days :: nat
  market_context_change_ratio :: rat
  market_context_breadth_ratio :: rat
  market_context_minimum_instruments :: nat
  liquidity_depth_samples :: nat
  liquidity_book_ticker_samples :: nat
  depth_mature_candidate_count :: nat
  depth_probe_candidate_count :: nat
  candidate_minimum_dwell_hours :: int
  core_minimum_dwell_days :: int
  candidate_daily_replacements :: nat
  core_weekly_replacements :: nat
  core_minimum_age_days :: int
  core_entry_rank :: nat
  core_retain_rank :: nat
  boundary_retain_rank :: nat
  mature_pool_warning_size :: nat

definition default_policy :: rolling_policy where
  "default_policy = \<lparr>liquidity_window_days = 14, probe_minimum_complete_days = 7, market_context_baseline_days = 28,
     market_context_change_ratio = 5 / 4, market_context_breadth_ratio = 7 / 10, market_context_minimum_instruments = 60,
     liquidity_depth_samples = 3, liquidity_book_ticker_samples = 21, depth_mature_candidate_count = 200,
     depth_probe_candidate_count = 100, candidate_minimum_dwell_hours = 48, core_minimum_dwell_days = 14,
     candidate_daily_replacements = 2, core_weekly_replacements = 5, core_minimum_age_days = 30, core_entry_rank = 45,
     core_retain_rank = 55, boundary_retain_rank = 10, mature_pool_warning_size = 65\<rparr>"

type_synonym evidence_file = "string \<times> json option"

record discovery_snapshot =
  observed_at :: py_datetime
  exchange_info :: evidence_file
  exchange_info_confirmation :: evidence_file
  market_tickers :: evidence_file
  daily_klines :: evidence_file
  liquidity_depth :: evidence_file

definition snapshot_hashes :: "(string \<Rightarrow> string) \<Rightarrow> discovery_snapshot \<Rightarrow> string list" where
  "snapshot_hashes sha256 s = map (\<lambda>f. sha256 (fst f))
     [exchange_info s, exchange_info_confirmation s, market_tickers s, daily_klines s, liquidity_depth s]"

definition loads :: "evidence_file \<Rightarrow> py_error + json" where
  "loads f = (case snd f of None \<Rightarrow> Inl (ValueError ''invalid JSON'') | Some v \<Rightarrow> Inr v)"

section \<open>Reading numbers\<close>

definition DAY_MS :: int where "DAY_MS = 86400000"

definition TEN_BPS :: rat where "TEN_BPS = 1 / 1000"

definition FIFTY_BPS :: rat where "FIFTY_BPS = 5 / 1000"

definition positive_int :: "json \<Rightarrow> bool \<Rightarrow> py_error + int" where
  "positive_int v allow_zero =
     (case (case v of JBool _ \<Rightarrow> None | _ \<Rightarrow> Option.bind (py_str v) parse_int) of
        None \<Rightarrow> Inl (ValueError ''must be an integer'')
      | Some parsed \<Rightarrow>
          if parsed < 0 \<or> (parsed = 0 \<and> \<not> allow_zero) then Inl (ValueError ''must be positive'') else Inr parsed)"

definition decimal_value :: "json \<Rightarrow> bool \<Rightarrow> py_error + rat" where
  "decimal_value v allow_zero =
     (case Option.bind (py_str v) parse_decimal of
        None \<Rightarrow> Inl (ValueError ''must be a finite decimal'')
      | Some d \<Rightarrow>
          if dval d < 0 \<or> (dval d = 0 \<and> \<not> allow_zero) then Inl (ValueError ''must be positive'') else Inr (dval d))"

section \<open>Exchange information and klines\<close>

definition add_symbol_info ::
    "(string, (string \<times> json) list) dict \<Rightarrow> json \<Rightarrow> py_error + (string, (string \<times> json) list) dict" where
  "add_symbol_info result value =
     (case value of
        JObj row \<Rightarrow> (case jget row ''symbol'' of
            JStr symbol \<Rightarrow>
              if dict_get result symbol \<noteq> None then Inl (ValueError ''exchangeInfo contains duplicate symbol'')
              else Inr (dict_set symbol row result)
          | _ \<Rightarrow> Inl (ValueError ''exchangeInfo contains an invalid symbol row''))
      | _ \<Rightarrow> Inl (ValueError ''exchangeInfo contains an invalid symbol row''))"

definition symbol_info :: "evidence_file \<Rightarrow> py_error + (string, (string \<times> json) list) dict" where
  "symbol_info raw =
     rbind (loads raw) (\<lambda>payload.
     case payload of
       JObj obj \<Rightarrow> (case jget obj ''symbols'' of
           JList values \<Rightarrow> fold_result add_symbol_info [] values
         | _ \<Rightarrow> Inl (ValueError ''exchangeInfo must contain a symbols array''))
     | _ \<Rightarrow> Inl (ValueError ''exchangeInfo must contain a symbols array''))"

definition eligibility_reason :: "unicode \<Rightarrow> (string \<times> json) list \<Rightarrow> string \<Rightarrow> string option" where
  "eligibility_reason u raw symbol =
     (if jget raw ''status'' \<noteq> JStr ''TRADING'' then Some ''not_trading''
      else if jget raw ''contractType'' \<noteq> JStr ''PERPETUAL'' then Some ''not_perpetual''
      else if jget raw ''quoteAsset'' \<noteq> JStr ''USDT'' \<or> jget raw ''marginAsset'' \<noteq> JStr ''USDT'' then Some ''not_usdt''
      else if \<not> is_exchange_symbol u symbol then Some ''invalid_symbol''
      else None)"

definition kline_payload :: "string \<times> json \<Rightarrow> py_error + (string \<times> json list)" where
  "kline_payload = (\<lambda>(symbol, value).
     case value of
       JObj obj \<Rightarrow> (case jget obj ''payload'' of
           JList bars \<Rightarrow> Inr (symbol, bars)
         | _ \<Rightarrow> Inl (ValueError ''invalid daily kline evidence''))
     | _ \<Rightarrow> Inl (ValueError ''invalid daily kline evidence''))"

definition read_daily_klines :: "evidence_file \<Rightarrow> py_error + ((string, json list) dict \<times> int)" where
  "read_daily_klines raw =
     rbind (loads raw) (\<lambda>payload.
     case payload of
       JObj obj \<Rightarrow> (case jget obj ''symbols'' of
           JObj symbols \<Rightarrow>
             rbind (positive_int (jget obj ''window_end_exclusive_ms'') False) (\<lambda>cutoff_ms.
             if cutoff_ms mod DAY_MS \<noteq> 0 then Inl (ValueError ''daily kline evidence cutoff must be 00:00 UTC'')
             else rbind (map_result kline_payload symbols) (\<lambda>result. Inr (result, cutoff_ms)))
         | _ \<Rightarrow> Inl (ValueError ''daily kline evidence must contain a symbols object''))
     | _ \<Rightarrow> Inl (ValueError ''daily kline evidence must contain a symbols object''))"

section \<open>History of a symbol\<close>

record historical_row =
  hr_symbol :: string
  onboard_time_ms :: int
  age_days :: int
  volumes :: "rat list"
  trades :: "int list"
  market_volumes :: "rat list"
  market_trades :: "int list"
  expected_probe_days :: nat
  observed_probe_days :: nat
  q25_quote_volume :: rat
  q25_trades :: rat

text \<open>\<open>range(lo, hi, DAY_MS)\<close>.\<close>

definition day_range :: "int \<Rightarrow> int \<Rightarrow> int list" where
  "day_range lo hi = map (\<lambda>k. lo + int k * DAY_MS) [0..<nat ((hi - lo + DAY_MS - 1) div DAY_MS)]"

definition evidence_start :: "rolling_policy \<Rightarrow> int \<Rightarrow> int" where
  "evidence_start p cutoff_ms =
     cutoff_ms - int (max (liquidity_window_days p) (market_context_baseline_days p + CONFIRMATION_DAYS)) * DAY_MS"

definition add_bar :: "rolling_policy \<Rightarrow> int \<Rightarrow> (int, json list) dict \<Rightarrow> json \<Rightarrow> py_error + (int, json list) dict" where
  "add_bar p cutoff_ms bars value =
     (case value of
        JList xs \<Rightarrow>
          if length xs < 9 then Inl (ValueError ''invalid daily kline'')
          else
            rbind (positive_int (xs ! 0) True) (\<lambda>open_ms.
            rbind (positive_int (xs ! 6) True) (\<lambda>close_ms.
            Inr (if open_ms \<in> set (day_range (evidence_start p cutoff_ms) cutoff_ms) \<and> close_ms < cutoff_ms
              then dict_set open_ms xs bars else bars)))
      | _ \<Rightarrow> Inl (ValueError ''invalid daily kline''))"

definition bar_at :: "(int, json list) dict \<Rightarrow> int \<Rightarrow> json list" where
  "bar_at bars open_ms = (case dict_get bars open_ms of Some xs \<Rightarrow> xs | None \<Rightarrow> [])"

definition bar_volumes :: "(int, json list) dict \<Rightarrow> int list \<Rightarrow> py_error + rat list" where
  "bar_volumes bars opens = map_result (\<lambda>ms. decimal_value (bar_at bars ms ! 7) True) opens"

definition bar_trades :: "(int, json list) dict \<Rightarrow> int list \<Rightarrow> py_error + int list" where
  "bar_trades bars opens = map_result (\<lambda>ms. positive_int (bar_at bars ms ! 8) True) opens"

definition historical_row_of ::
    "rolling_policy \<Rightarrow> int \<Rightarrow> string \<Rightarrow> (string \<times> json) list \<Rightarrow> json list \<Rightarrow> py_error + historical_row option" where
  "historical_row_of p cutoff_ms symbol raw klines =
     (let selection_start = cutoff_ms - int (liquidity_window_days p) * DAY_MS;
          context_days = market_context_baseline_days p + CONFIRMATION_DAYS;
          context_expected = day_range (cutoff_ms - int context_days * DAY_MS) cutoff_ms in
      rbind (positive_int (jget raw ''onboardDate'') False) (\<lambda>onboard_ms.
      rbind (fold_result (add_bar p cutoff_ms) [] klines) (\<lambda>bars.
      let opens = filter (\<lambda>ms. selection_start \<le> ms) (sort (dict_keys bars));
          market_opens = filter (\<lambda>ms. ms \<in> set (dict_keys bars)) context_expected in
      rbind (bar_volumes bars opens) (\<lambda>vs.
      rbind (bar_trades bars opens) (\<lambda>ts.
      rbind (bar_volumes bars market_opens) (\<lambda>mvs.
      rbind (bar_trades bars market_opens) (\<lambda>mts.
      let first_full_day = ((onboard_ms + DAY_MS - 1) div DAY_MS) * DAY_MS;
          first_probe_day = max first_full_day selection_start;
          expected_probe = (if first_probe_day < cutoff_ms then day_range first_probe_day cutoff_ms else []);
          observed_probe = length (filter (\<lambda>ms. ms \<in> set (dict_keys bars)) expected_probe) in
      if vs = [] then Inr None
      else Inr (Some \<lparr>hr_symbol = symbol, onboard_time_ms = onboard_ms,
        age_days = max 0 ((cutoff_ms - onboard_ms) div DAY_MS), volumes = vs, trades = ts,
        market_volumes = mvs, market_trades = mts, expected_probe_days = length expected_probe,
        observed_probe_days = observed_probe, q25_quote_volume = dec_percentile vs 1 4,
        q25_trades = dec_percentile (map of_int ts) 1 4\<rparr>))))))))"

definition historical_rows ::
    "rolling_policy \<Rightarrow> int \<Rightarrow> (string, (string \<times> json) list) dict \<Rightarrow> (string, json list) dict \<Rightarrow> py_error + historical_row list" where
  "historical_rows p cutoff_ms eligible klines =
     rbind (map_result (\<lambda>(symbol, raw). historical_row_of p cutoff_ms symbol raw
         (case dict_get klines symbol of Some bars \<Rightarrow> bars | None \<Rightarrow> [])) eligible) (\<lambda>rows.
     Inr (concat (map (\<lambda>r. case r of None \<Rightarrow> [] | Some row \<Rightarrow> [row]) rows)))"

section \<open>Liquidity\<close>

record liquidity_metrics =
  lm_depth_sample_count :: nat
  lm_thin_depth_10bps :: rat
  lm_thin_depth_50bps :: rat
  lm_book_ticker_sample_count :: nat
  lm_spread_q95_bps :: dec

definition missing_metrics :: liquidity_metrics where
  "missing_metrics = \<lparr>lm_depth_sample_count = 0, lm_thin_depth_10bps = 0, lm_thin_depth_50bps = 0,
     lm_book_ticker_sample_count = 0, lm_spread_q95_bps = PosInf\<rparr>"

definition book_level :: "json \<Rightarrow> py_error + (rat \<times> rat)" where
  "book_level value =
     (case value of
        JList (p # q # _) \<Rightarrow>
          rbind (decimal_value p False) (\<lambda>price. rbind (decimal_value q True) (\<lambda>quantity. Inr (price, quantity)))
      | _ \<Rightarrow> Inl (ValueError ''invalid level''))"

definition book_levels :: "(string \<times> json) list \<Rightarrow> string \<Rightarrow> py_error + (rat \<times> rat) list" where
  "book_levels payload key =
     (case jget payload key of
        JList values \<Rightarrow> if values = [] then Inl (ValueError ''depth sample has no levels'') else map_result book_level values
      | _ \<Rightarrow> Inl (ValueError ''depth sample has no levels''))"

definition dec_sum :: "rat list \<Rightarrow> rat" where
  "dec_sum xs = foldl dec_add 0 xs"

definition thin_depth :: "rat \<Rightarrow> (rat \<times> rat) list \<Rightarrow> (rat \<times> rat) list \<Rightarrow> rat" where
  "thin_depth width bids asks =
     (let midpoint = dec_div (dec_add (fst (bids ! 0)) (fst (asks ! 0))) 2;
          bid_floor = dec_mul midpoint (dec_sub 1 width);
          ask_ceiling = dec_mul midpoint (dec_add 1 width);
          bid_depth = dec_sum (map (\<lambda>(p, q). dec_mul p q) (filter (\<lambda>(p, q). bid_floor \<le> p) bids));
          ask_depth = dec_sum (map (\<lambda>(p, q). dec_mul p q) (filter (\<lambda>(p, q). p \<le> ask_ceiling) asks)) in
      min bid_depth ask_depth)"

definition depth_sample :: "json \<Rightarrow> py_error + (rat \<times> rat)" where
  "depth_sample sample =
     (case sample of
        JObj obj \<Rightarrow> (case jget obj ''payload'' of
            JObj depth \<Rightarrow>
              rbind (book_levels depth ''bids'') (\<lambda>bids.
              rbind (book_levels depth ''asks'') (\<lambda>asks.
              Inr (thin_depth TEN_BPS bids asks, thin_depth FIFTY_BPS bids asks)))
          | _ \<Rightarrow> Inl (ValueError ''invalid depth sample''))
      | _ \<Rightarrow> Inl (ValueError ''invalid depth sample''))"

definition add_ticker :: "(string, rat list) dict \<Rightarrow> json \<Rightarrow> py_error + (string, rat list) dict" where
  "add_ticker spreads ticker =
     (case ticker of
        JObj obj \<Rightarrow> (case jget obj ''symbol'' of
            JStr symbol \<Rightarrow>
              rbind (decimal_value (jget obj ''bidPrice'') False) (\<lambda>bid.
              rbind (decimal_value (jget obj ''askPrice'') False) (\<lambda>ask.
              let midpoint = dec_div (dec_add bid ask) 2;
                  known = (case dict_get spreads symbol of Some xs \<Rightarrow> xs | None \<Rightarrow> []) in
              Inr (dict_set symbol (known @ [dec_mul (dec_div (dec_sub ask bid) midpoint) 10000]) spreads)))
          | _ \<Rightarrow> Inl (ValueError ''invalid book ticker row''))
      | _ \<Rightarrow> Inl (ValueError ''invalid book ticker row''))"

definition add_book_sample :: "(string, rat list) dict \<Rightarrow> json \<Rightarrow> py_error + (string, rat list) dict" where
  "add_book_sample spreads sample =
     (case sample of
        JObj obj \<Rightarrow> (case jget obj ''payload'' of
            JList tickers \<Rightarrow> fold_result add_ticker spreads tickers
          | _ \<Rightarrow> Inl (ValueError ''invalid book ticker evidence''))
      | _ \<Rightarrow> Inl (ValueError ''invalid book ticker evidence''))"

definition add_symbol_depth ::
    "(string, rat list) dict \<Rightarrow> (string, liquidity_metrics) dict \<Rightarrow> string \<times> json \<Rightarrow>
       py_error + (string, liquidity_metrics) dict" where
  "add_symbol_depth book_spreads result = (\<lambda>(symbol, samples).
     case samples of
       JList xs \<Rightarrow>
         rbind (map_result depth_sample xs) (\<lambda>depths.
         let spreads = (case dict_get book_spreads symbol of Some ys \<Rightarrow> ys | None \<Rightarrow> []) in
         Inr (if depths = [] then result
           else dict_set symbol \<lparr>lm_depth_sample_count = length depths, lm_thin_depth_10bps = Min (set (map fst depths)),
             lm_thin_depth_50bps = Min (set (map snd depths)), lm_book_ticker_sample_count = length spreads,
             lm_spread_q95_bps = (if spreads = [] then PosInf else Num (dec_percentile spreads 19 20))\<rparr> result))
     | _ \<Rightarrow> Inl (ValueError ''invalid liquidity depth evidence''))"

definition depth_metrics :: "evidence_file \<Rightarrow> py_error + (string, liquidity_metrics) dict" where
  "depth_metrics raw =
     rbind (loads raw) (\<lambda>payload.
     case payload of
       JObj obj \<Rightarrow> (case jget obj ''symbols'' of
           JObj symbols \<Rightarrow> (case jget obj ''book_tickers'' of
               JList book_samples \<Rightarrow>
                 rbind (fold_result add_book_sample [] book_samples) (\<lambda>book_spreads.
                 fold_result (add_symbol_depth book_spreads) [] symbols)
             | _ \<Rightarrow> Inl (ValueError ''liquidity depth evidence must contain book_tickers''))
         | _ \<Rightarrow> Inl (ValueError ''liquidity depth evidence must contain a symbols object''))
     | _ \<Rightarrow> Inl (ValueError ''liquidity depth evidence must contain a symbols object''))"

section \<open>Market rows and pools\<close>

record market_row =
  history :: historical_row
  depth_sample_count :: nat
  thin_depth_10bps :: rat
  thin_depth_50bps :: rat
  book_ticker_sample_count :: nat
  spread_q95_bps :: dec

abbreviation row_symbol :: "market_row \<Rightarrow> string" where
  "row_symbol r \<equiv> hr_symbol (history r)"

definition eligible_symbols ::
    "unicode \<Rightarrow> (string, (string \<times> json) list) dict \<Rightarrow> (string, (string \<times> json) list) dict \<Rightarrow>
       (string, (string \<times> json) list) dict" where
  "eligible_symbols u first_info confirmed =
     concat (map (\<lambda>(symbol, raw).
       case dict_get confirmed symbol of
         Some confirmation \<Rightarrow>
           if eligibility_reason u raw symbol = None \<and> eligibility_reason u confirmation symbol = None
           then [(symbol, confirmation)] else []
       | None \<Rightarrow> []) first_info)"

definition market_row_of :: "(string, liquidity_metrics) dict \<Rightarrow> historical_row \<Rightarrow> market_row" where
  "market_row_of depth h =
     (let m = (case dict_get depth (hr_symbol h) of Some m \<Rightarrow> m | None \<Rightarrow> missing_metrics) in
      \<lparr>history = h, depth_sample_count = lm_depth_sample_count m, thin_depth_10bps = lm_thin_depth_10bps m,
        thin_depth_50bps = lm_thin_depth_50bps m, book_ticker_sample_count = lm_book_ticker_sample_count m,
        spread_q95_bps = lm_spread_q95_bps m\<rparr>)"

definition market_rows ::
    "unicode \<Rightarrow> rolling_policy \<Rightarrow> discovery_snapshot \<Rightarrow> string list \<Rightarrow> py_error + (market_row list \<times> string list)" where
  "market_rows u p snapshot tracked =
     rbind (symbol_info (exchange_info snapshot)) (\<lambda>first_info.
     rbind (symbol_info (exchange_info_confirmation snapshot)) (\<lambda>confirmed.
     let eligible = eligible_symbols u first_info confirmed;
         inactive = sort (filter (\<lambda>s. s \<notin> set (dict_keys eligible)) tracked) in
     rbind (read_daily_klines (daily_klines snapshot)) (\<lambda>(klines, cutoff_ms).
     rbind (historical_rows p cutoff_ms eligible klines) (\<lambda>histories.
     rbind (depth_metrics (liquidity_depth snapshot)) (\<lambda>depth.
     Inr (map (market_row_of depth) histories, inactive))))))"

definition complete_market_evidence :: "rolling_policy \<Rightarrow> market_row \<Rightarrow> bool" where
  "complete_market_evidence p r \<longleftrightarrow>
     depth_sample_count r = liquidity_depth_samples p \<and> book_ticker_sample_count r = liquidity_book_ticker_samples p \<and>
     dec_is_finite (spread_q95_bps r) \<and> Num 0 \<le> spread_q95_bps r \<and>
     0 \<le> thin_depth_10bps r \<and> 0 \<le> thin_depth_50bps r"

definition rank_historical_rows :: "historical_row list \<Rightarrow> historical_row list" where
  "rank_historical_rows rows =
     rank_cross_section hr_symbol [(\<lambda>r. Num (q25_quote_volume r), True), (\<lambda>r. Num (q25_trades r), True)] rows"

definition rank_market_rows :: "market_row list \<Rightarrow> market_row list" where
  "rank_market_rows rows =
     rank_cross_section row_symbol
       [(\<lambda>r. Num (q25_quote_volume (history r)), True), (\<lambda>r. Num (q25_trades (history r)), True),
        (\<lambda>r. Num (thin_depth_10bps r), True), (\<lambda>r. Num (thin_depth_50bps r), True), (spread_q95_bps, False)] rows"

definition is_mature :: "rolling_policy \<Rightarrow> historical_row \<Rightarrow> bool" where
  "is_mature p h \<longleftrightarrow> core_minimum_age_days p \<le> age_days h \<and> length (volumes h) = liquidity_window_days p"

definition is_probe :: "rolling_policy \<Rightarrow> historical_row \<Rightarrow> bool" where
  "is_probe p h \<longleftrightarrow> probe_minimum_complete_days p \<le> expected_probe_days h \<and> observed_probe_days h = expected_probe_days h"

definition mature_pool :: "rolling_policy \<Rightarrow> market_row list \<Rightarrow> market_row list" where
  "mature_pool p rows = rank_market_rows (filter (\<lambda>r. is_mature p (history r) \<and> complete_market_evidence p r) rows)"

definition probe_pool :: "rolling_policy \<Rightarrow> market_row list \<Rightarrow> market_row list" where
  "probe_pool p rows =
     (let eligible = filter (\<lambda>r. is_probe p (history r) \<and> complete_market_evidence p r) rows;
          recent = filter (\<lambda>r. age_days (history r) < core_minimum_age_days p) eligible;
          fallback = filter (\<lambda>r. core_minimum_age_days p \<le> age_days (history r)) eligible in
      rank_market_rows recent @ rank_market_rows fallback)"

definition market_context_of :: "rolling_policy \<Rightarrow> market_row list \<Rightarrow> market_context" where
  "market_context_of p rows =
     evaluate_market_context
       (map (\<lambda>r. \<lparr>quote_volumes = market_volumes (history r), trade_counts = market_trades (history r)\<rparr>) rows)
       (market_context_baseline_days p) (market_context_change_ratio p) (market_context_breadth_ratio p)
       (market_context_minimum_instruments p)"

end
