(* ===== verification/Kline_Cache.thy ===== *)
theory Kline_Cache
  imports Evidence
begin

text \<open>
  The daily klines of the discovery poll, \<open>_fetch_daily_klines\<close> of \<open>src/miry/collector/polling.py\<close>: the klines of every
  eligible symbol are taken from the last observation, the missing days are asked from the exchange in one
  request, and the result is the evidence the selection reads. A response is its bytes with what \<open>orjson.loads\<close>
  returns on them; the text Python gives a list or a dict is a parameter.
\<close>

section \<open>Eligible instruments\<close>

definition add_eligible :: "unicode \<Rightarrow> (string, int) dict \<Rightarrow> json \<Rightarrow> py_error + (string, int) dict" where
  "add_eligible u symbols v =
     (case v of
        JObj item' \<Rightarrow> (case jget item' ''symbol'' of
            JStr s \<Rightarrow>
              if jget item' ''status'' = JStr ''TRADING'' \<and> jget item' ''contractType'' = JStr ''PERPETUAL'' \<and>
                 jget item' ''quoteAsset'' = JStr ''USDT'' \<and> jget item' ''marginAsset'' = JStr ''USDT'' \<and> is_exchange_symbol u s then
                (case Option.bind (map_of item' ''onboardDate'') (\<lambda>d. Option.bind (py_str d) parse_int) of
                   None \<Rightarrow> Inl (ValueError ''invalid onboardDate'')
                 | Some onboard_ms \<Rightarrow> if onboard_ms \<le> 0 then Inl (ValueError ''invalid onboardDate'') else Inr (dict_set s onboard_ms symbols))
              else Inr symbols
          | _ \<Rightarrow> Inl (ValueError ''exchangeInfo contains an invalid symbol row''))
      | _ \<Rightarrow> Inl (ValueError ''exchangeInfo contains an invalid symbol row''))"

definition eligible_instruments :: "unicode \<Rightarrow> evidence_file \<Rightarrow> py_error + (string, int) dict" where
  "eligible_instruments u exchange_info_file =
     rbind (loads exchange_info_file) (\<lambda>payload.
     case payload of
       JObj o' \<Rightarrow> (case jget o' ''symbols'' of
           JList vs \<Rightarrow> rbind (fold_result (add_eligible u) [] vs) (\<lambda>symbols. Inr (sort_key fst symbols))
         | _ \<Rightarrow> Inl (ValueError ''exchangeInfo must contain a symbols array''))
     | _ \<Rightarrow> Inl (ValueError ''exchangeInfo must contain a symbols array''))"

section \<open>The last observation\<close>

text \<open>\<open>_cached_daily_klines\<close>; \<open>None\<close>: there is no observation or it cannot be read.\<close>

definition cached_daily_klines :: "json option \<Rightarrow> (string, (string \<times> json) list) dict" where
  "cached_daily_klines content =
     (case content of
        Some (JObj o') \<Rightarrow> (case jget o' ''symbols'' of
            JObj symbols \<Rightarrow> List.map_filter (\<lambda>(s, v). case v of JObj value \<Rightarrow> Some (s, value) | _ \<Rightarrow> None) symbols
          | _ \<Rightarrow> [])
      | _ \<Rightarrow> [])"

definition cached_rows :: "(string \<times> json) list \<Rightarrow> json list" where
  "cached_rows cached = (case jget cached ''payload'' of JList rows \<Rightarrow> rows | _ \<Rightarrow> [])"

definition cached_hashes :: "(json \<Rightarrow> string) \<Rightarrow> (string \<times> json) list \<Rightarrow> string list" where
  "cached_hashes container_text cached =
     (let hashes = (case jget cached ''source_response_sha256s'' of
            JList vs \<Rightarrow> map (\<lambda>v. case py_str v of Some s \<Rightarrow> s | None \<Rightarrow> container_text v) vs | _ \<Rightarrow> []) in
      if hashes = [] then (case jget cached ''response_sha256'' of JStr s \<Rightarrow> [s] | _ \<Rightarrow> []) else hashes)"

section \<open>One symbol\<close>

definition first_full_day :: "int \<Rightarrow> int" where
  "first_full_day onboard_ms = (onboard_ms + DAY_MS - 1) div DAY_MS * DAY_MS"

definition add_kline :: "int list \<Rightarrow> (int, json) dict \<Rightarrow> json \<Rightarrow> py_error + (int, json) dict" where
  "add_kline expected by_open v =
     (case v of
        JList cells \<Rightarrow>
          if 9 \<le> length cells then rbind (py_int (hd cells)) (\<lambda>open_ms. Inr (if open_ms \<in> set expected then dict_set open_ms v by_open else by_open))
          else Inr by_open
      | _ \<Rightarrow> Inr by_open)"

definition missing_days :: "int list \<Rightarrow> (int, json) dict \<Rightarrow> int list" where
  "missing_days expected by_open = filter (\<lambda>open_ms. dict_get by_open open_ms = None) expected"

text \<open>\<open>fetch\<close> is the request with its start, its end and its limit, after the retries.\<close>

type_synonym kline_fetch = "int \<Rightarrow> int \<Rightarrow> nat \<Rightarrow> py_error + evidence_file"

definition fetch_missing :: "kline_fetch \<Rightarrow> int \<Rightarrow> int list \<Rightarrow> (int, json) dict \<Rightarrow> py_error + ((int, json) dict \<times> string option)" where
  "fetch_missing fetch cutoff_ms expected by_open =
     (let missing = missing_days expected by_open in
      if missing = [] then Inr (by_open, None)
      else rbind (fetch (Min (set missing)) (cutoff_ms - 1) (length missing)) (\<lambda>payload.
        rbind (loads payload) (\<lambda>parsed.
        case parsed of
          JList rows \<Rightarrow> rbind (fold_result (add_kline expected) by_open rows) (\<lambda>by_open'. Inr (by_open', Some (fst payload)))
        | _ \<Rightarrow> Inl (ValueError ''daily kline response is not an array''))))"

text \<open>\<open>list(dict.fromkeys(xs))\<close>\<close>

definition unique_in_order :: "string list \<Rightarrow> string list" where
  "unique_in_order xs = rev (remdups (rev xs))"

definition sorted_klines :: "(int, json) dict \<Rightarrow> json list" where
  "sorted_klines by_open = map snd (sort_key fst by_open)"

definition symbol_klines :: "(string \<Rightarrow> string) \<Rightarrow> (json \<Rightarrow> string) \<Rightarrow> kline_fetch \<Rightarrow> int \<Rightarrow> int \<Rightarrow> (string \<times> json) list \<Rightarrow> int \<Rightarrow> py_error + json" where
  "symbol_klines sha256 container_text fetch evidence_days cutoff_ms cached onboard_ms =
     (let expected = day_range (max (cutoff_ms - evidence_days * DAY_MS) (first_full_day onboard_ms)) cutoff_ms in
      rbind (fold_result (add_kline expected) [] (cached_rows cached)) (\<lambda>by_open.
      rbind (fetch_missing fetch cutoff_ms expected by_open) (\<lambda>(by_open', fetched).
        let hashes = unique_in_order (cached_hashes container_text cached @ (case fetched of None \<Rightarrow> [] | Some body \<Rightarrow> [sha256 body])) in
        Inr (JObj [(''payload'', JList (sorted_klines by_open')),
          (''source_response_sha256s'', JList (map JStr (drop (length hashes - nat (evidence_days + 1)) hashes)))]))))"

section \<open>All symbols\<close>

definition kline_evidence_days :: "rolling_policy \<Rightarrow> int" where
  "kline_evidence_days policy = int (max (liquidity_window_days policy) (market_context_baseline_days policy + 7))"

definition fetch_daily_klines :: "unicode \<Rightarrow> (string \<Rightarrow> string) \<Rightarrow> (json \<Rightarrow> string) \<Rightarrow> (string \<Rightarrow> kline_fetch) \<Rightarrow> rolling_policy \<Rightarrow> evidence_file \<Rightarrow>
    json option \<Rightarrow> int \<Rightarrow> py_error + json" where
  "fetch_daily_klines u sha256 container_text fetch policy exchange_info_file observation cutoff_ms =
     (let evidence_days = kline_evidence_days policy; cached = cached_daily_klines observation in
      rbind (eligible_instruments u exchange_info_file) (\<lambda>eligible.
      rbind (map_result (\<lambda>(s, onboard_ms).
          rbind (symbol_klines sha256 container_text (fetch s) evidence_days cutoff_ms
            (case dict_get cached s of Some value \<Rightarrow> value | None \<Rightarrow> []) onboard_ms) (\<lambda>v. Inr (s, v))) eligible) (\<lambda>responses.
        Inr (JObj [(''endpoint'', JStr ''/fapi/v1/klines''), (''interval'', JStr ''1d''), (''schema_version'', JInt 1),
          (''symbols'', JObj responses), (''window_end_exclusive_ms'', JInt cutoff_ms),
          (''window_start_ms'', JInt (cutoff_ms - evidence_days * DAY_MS))]))))"

section \<open>Days\<close>

text \<open>The day a kline opens on, if it is one.\<close>

definition kline_day :: "json \<Rightarrow> int option" where
  "kline_day v = (case v of JList cells \<Rightarrow> if 9 \<le> length cells then (case py_int (hd cells) of Inr o' \<Rightarrow> Some o' | Inl _ \<Rightarrow> None) else None | _ \<Rightarrow> None)"

definition days_of :: "json list \<Rightarrow> int list" where
  "days_of rows = List.map_filter kline_day rows"

definition kline_days :: "json \<Rightarrow> int list" where
  "kline_days v = days_of (case v of JObj o' \<Rightarrow> cached_rows o' | _ \<Rightarrow> [])"

lemma set_days_of: "d \<in> set (days_of rows) \<longleftrightarrow> (\<exists>v \<in> set rows. kline_day v = Some d)"
  by (force simp: days_of_def map_filter_def)

lemma days_of_append: "days_of (xs @ ys) = days_of xs @ days_of ys"
  by (simp add: days_of_def map_filter_def)

lemma add_kline_day:
  assumes "add_kline expected by_open v = Inr by_open'"
  shows "by_open' = (case kline_day v of Some d \<Rightarrow> if d \<in> set expected then dict_set d v by_open else by_open | None \<Rightarrow> by_open)"
  using assms by (auto simp: add_kline_def kline_day_def rbind_Inr_iff split: json.splits if_splits sum.splits)

lemma add_klines_keys:
  assumes "fold_result (add_kline expected) by_open rows = Inr by_open'"
  shows "dict_get by_open' d \<noteq> None \<longleftrightarrow> dict_get by_open d \<noteq> None \<or> d \<in> set expected \<inter> set (days_of rows)"
  using assms
proof (induction rows arbitrary: by_open)
  case (Cons v rows)
  then obtain b where b: "add_kline expected by_open v = Inr b" "fold_result (add_kline expected) b rows = Inr by_open'"
    by (auto simp: rbind_Inr_iff)
  have "dict_get b d \<noteq> None \<longleftrightarrow> dict_get by_open d \<noteq> None \<or> (d \<in> set expected \<and> kline_day v = Some d)"
    unfolding add_kline_day [OF b(1)] by (auto split: option.split)
  then show ?case using Cons.IH [OF b(2)] by (auto simp: set_days_of)
qed (simp add: days_of_def map_filter_def)

definition klines_fit :: "int list \<Rightarrow> (int, json) dict \<Rightarrow> bool" where
  "klines_fit expected by_open \<longleftrightarrow> dict_ok by_open \<and> (\<forall>(d, v) \<in> set by_open. d \<in> set expected \<and> kline_day v = Some d)"

lemma klines_fit_set: "klines_fit expected by_open \<Longrightarrow> d \<in> set expected \<Longrightarrow> kline_day v = Some d \<Longrightarrow> klines_fit expected (dict_set d v by_open)"
proof -
  assume fit: "klines_fit expected by_open" and d: "d \<in> set expected" "kline_day v = Some d"
  have ok: "dict_ok (dict_set d v by_open)" using fit by (simp add: klines_fit_def)
  have "x \<in> set expected \<and> kline_day w = Some x" if "(x, w) \<in> set (dict_set d v by_open)" for x w
  proof -
    have "dict_get (dict_set d v by_open) x = Some w" by (simp only: dict_get_Some_iff [OF ok] that)
    then show ?thesis using fit d by (auto simp: klines_fit_def dict_get_Some_iff split: if_splits)
  qed
  then show "klines_fit expected (dict_set d v by_open)" using ok by (auto simp: klines_fit_def)
qed

lemma add_klines_fit: "fold_result (add_kline expected) by_open rows = Inr by_open' \<Longrightarrow> klines_fit expected by_open \<Longrightarrow> klines_fit expected by_open'"
proof (erule fold_result_invariant)
  fix by_open v by_open'
  assume fit: "klines_fit expected by_open" and v: "add_kline expected by_open v = Inr by_open'"
  show "klines_fit expected by_open'"
    unfolding add_kline_day [OF v] using fit klines_fit_set [OF fit] by (auto split: option.split)
qed

lemma klines_fit_days:
  assumes "klines_fit expected by_open"
  shows "days_of (sorted_klines by_open) = sort (map fst by_open)"
proof -
  have day: "kline_day v = Some d" if "(d, v) \<in> set (sort_key fst by_open)" for d v using assms that by (auto simp: klines_fit_def)
  have "days_of (map snd kvs) = map fst kvs" if "\<forall>(d, v) \<in> set kvs. kline_day v = Some d" for kvs :: "(int, json) dict"
    using that by (induction kvs) (auto simp: days_of_def map_filter_simps)
  then have "days_of (sorted_klines by_open) = map fst (sort_key fst by_open)" using day unfolding sorted_klines_def by blast
  also have "\<dots> = sort (map fst by_open)" by (rule properties_for_sort [symmetric]) simp_all
  finally show ?thesis .
qed

section \<open>The exchange\<close>

text \<open>The documented answer of the exchange that has the klines \<open>rows\<close>: those that open between start and end, the earliest first, at
  most \<open>limit\<close> of them.\<close>

definition serves :: "json list \<Rightarrow> kline_fetch \<Rightarrow> bool" where
  "serves rows fetch \<longleftrightarrow> sorted_wrt (<) (days_of rows) \<and> (\<forall>v \<in> set rows. kline_day v \<noteq> None) \<and>
     (\<forall>start stop limit. \<exists>body. fetch start stop limit = Inr (body, Some (JList (take limit (filter (\<lambda>v. start \<le> the (kline_day v) \<and> the (kline_day v) \<le> stop) rows)))))"

lemma days_of_days: "\<forall>v \<in> set rows. kline_day v \<noteq> None \<Longrightarrow> days_of rows = map (the \<circ> kline_day) rows"
  by (induction rows) (auto simp: days_of_def map_filter_simps)

lemma fetch_missing_rows:
  assumes "fetch_missing fetch cutoff_ms expected by_open = Inr (by_open', fetched)"
  shows "by_open' = by_open \<or> (\<exists>rows. fold_result (add_kline expected) by_open rows = Inr by_open')"
proof (cases "missing_days expected by_open = []")
  case True
  then show ?thesis using assms by (simp add: fetch_missing_def)
next
  case False
  then obtain payload :: evidence_file and parsed where parsed: "(case parsed of
      JList rows \<Rightarrow> rbind (fold_result (add_kline expected) by_open rows) (\<lambda>by_open'. Inr (by_open', Some (fst payload)))
    | _ \<Rightarrow> Inl (ValueError ''daily kline response is not an array'')) = Inr (by_open', fetched)"
    using assms unfolding fetch_missing_def Let_def if_not_P [OF False] rbind_Inr_iff by blast
  then show ?thesis by (cases parsed) (auto simp: rbind_Inr_iff)
qed

lemma symbol_klines_days:
  assumes "symbol_klines sha256 container_text fetch n cutoff_ms cached onboard_ms = Inr v"
    and "expected = day_range (max (cutoff_ms - n * DAY_MS) (first_full_day onboard_ms)) cutoff_ms"
  obtains by_open by_open' fetched where "klines_fit expected by_open" "\<And>d. dict_get by_open d \<noteq> None \<longleftrightarrow> d \<in> set expected \<inter> set (days_of (cached_rows cached))"
    "fetch_missing fetch cutoff_ms expected by_open = Inr (by_open', fetched)" "klines_fit expected by_open'" "kline_days v = sort (map fst by_open')"
proof -
  obtain by_open by_open' fetched where b: "fold_result (add_kline expected) [] (cached_rows cached) = Inr by_open"
    "fetch_missing fetch cutoff_ms expected by_open = Inr (by_open', fetched)"
    "\<exists>hashes. v = JObj [(''payload'', JList (sorted_klines by_open')), (''source_response_sha256s'', hashes)]"
    using assms by (auto simp: symbol_klines_def Let_def rbind_Inr_iff)
  have fit: "klines_fit expected by_open" by (rule add_klines_fit [OF b(1)]) (simp add: klines_fit_def)
  have fit': "klines_fit expected by_open'"
    using fetch_missing_rows [OF b(2)] fit add_klines_fit by blast
  have "kline_days v = days_of (sorted_klines by_open')" using b(3) by (auto simp: kline_days_def cached_rows_def jget_def)
  then have "kline_days v = sort (map fst by_open')" using klines_fit_days [OF fit'] by simp
  then show thesis using that fit add_klines_keys [OF b(1)] b(2) fit' by simp
qed

lemma missing_days_cached:
  assumes "\<And>d. dict_get by_open d \<noteq> None \<longleftrightarrow> d \<in> set expected \<inter> set (days_of (cached_rows cached))"
  shows "missing_days expected by_open = filter (\<lambda>d. d \<notin> set (days_of (cached_rows cached))) expected"
proof -
  have "dict_get by_open d = None \<longleftrightarrow> d \<notin> set expected \<or> d \<notin> set (days_of (cached_rows cached))" for d using assms [of d] by blast
  then show ?thesis unfolding missing_days_def by (intro filter_cong) auto
qed

lemma served_days:
  assumes "serves rows fetch" "fetch_missing fetch cutoff_ms expected by_open = Inr (by_open', fetched)" "missing_days expected by_open \<noteq> []"
  defines "missing \<equiv> missing_days expected by_open"
  shows "dict_get by_open' d \<noteq> None \<longleftrightarrow> dict_get by_open d \<noteq> None \<or>
    d \<in> set expected \<inter> set (take (length missing) (filter (\<lambda>d. Min (set missing) \<le> d \<and> d \<le> cutoff_ms - 1) (days_of rows)))"
proof -
  define asked where "asked = filter (\<lambda>v. Min (set missing) \<le> the (kline_day v) \<and> the (kline_day v) \<le> cutoff_ms - 1) rows"
  obtain body where "fetch (Min (set missing)) (cutoff_ms - 1) (length missing) = Inr (body, Some (JList (take (length missing) asked)))"
    using assms(1) unfolding serves_def asked_def by blast
  then have "fold_result (add_kline expected) by_open (take (length missing) asked) = Inr by_open'"
    using assms(2,3) by (simp add: fetch_missing_def missing_def [symmetric] Let_def loads_def rbind_Inr_iff)
  note keys = add_klines_keys [OF this]
  have all: "\<forall>v \<in> set rows. kline_day v \<noteq> None" using assms(1) by (simp add: serves_def)
  then have "\<forall>v \<in> set (take (length missing) asked). kline_day v \<noteq> None" by (auto simp: asked_def dest: in_set_takeD)
  then have "days_of (take (length missing) asked) = take (length missing) (map (the \<circ> kline_day) asked)" using days_of_days by (metis take_map)
  also have "map (the \<circ> kline_day) asked = filter (\<lambda>d. Min (set missing) \<le> d \<and> d \<le> cutoff_ms - 1) (days_of rows)"
    unfolding days_of_days [OF all] asked_def by (simp add: filter_map o_def)
  finally show ?thesis using keys by simp
qed

section \<open>Day ranges\<close>

lemma DAY_MS_pos [simp]: "0 < DAY_MS"
  by (simp add: DAY_MS_def)

lemma sorted_day_range: "sorted_wrt (<) (day_range start stop)"
  by (simp add: day_range_def sorted_wrt_map sorted_wrt_upt)

lemma distinct_day_range: "distinct (day_range start stop)"
  using sorted_day_range strict_sorted_iff by blast

lemma day_range_iff:
  assumes "start mod DAY_MS = 0" "stop mod DAY_MS = 0"
  shows "d \<in> set (day_range start stop) \<longleftrightarrow> start \<le> d \<and> d < stop \<and> d mod DAY_MS = 0"
proof -
  define a b where "a = start div DAY_MS" and "b = stop div DAY_MS"
  have ab: "start = a * DAY_MS" "stop = b * DAY_MS"
    using div_mult_mod_eq [of start DAY_MS] div_mult_mod_eq [of stop DAY_MS] assms by (simp_all add: a_def b_def)
  have "stop - start + DAY_MS - 1 = (DAY_MS - 1) + (b - a) * DAY_MS" by (simp add: ab algebra_simps)
  then have n: "(stop - start + DAY_MS - 1) div DAY_MS = b - a" by (simp add: DAY_MS_def)
  show ?thesis
  proof
    assume "d \<in> set (day_range start stop)"
    then obtain i where i: "i < nat (b - a)" "d = start + int i * DAY_MS" by (auto simp: day_range_def n)
    have "a + int i < b" using i(1) by linarith
    then have "(a + int i) * DAY_MS < b * DAY_MS" by (simp add: DAY_MS_def)
    moreover have "0 \<le> int i * DAY_MS" by (simp add: DAY_MS_def)
    moreover have "d = (a + int i) * DAY_MS" using i(2) ab(1) by (simp add: algebra_simps)
    ultimately show "start \<le> d \<and> d < stop \<and> d mod DAY_MS = 0" using i(2) ab(2) by simp
  next
    assume d: "start \<le> d \<and> d < stop \<and> d mod DAY_MS = 0"
    then obtain c where c: "d = c * DAY_MS" using div_mult_mod_eq [of d DAY_MS] by fastforce
    have "a \<le> c" "c < b" using d by (simp_all add: ab c DAY_MS_def)
    then have "nat (c - a) < nat (b - a)" "d = start + int (nat (c - a)) * DAY_MS" by (simp_all add: ab c algebra_simps)
    then show "d \<in> set (day_range start stop)" unfolding day_range_def n by (auto intro!: image_eqI [where x = "nat (c - a)"])
  qed
qed

lemma first_full_day_mod: "first_full_day onboard_ms mod DAY_MS = 0"
  by (simp add: first_full_day_def)

lemma strict_sorted_unique: "sorted_wrt (<) xs \<Longrightarrow> sorted_wrt (<) ys \<Longrightarrow> set xs = set ys \<Longrightarrow> xs = (ys :: int list)"
  using strict_sorted_equal by blast

lemma day_range_less: "d \<in> set (day_range start stop) \<Longrightarrow> d < stop"
proof -
  assume "d \<in> set (day_range start stop)"
  then obtain i where "i < nat ((stop - start + DAY_MS - 1) div DAY_MS)" and i: "d = start + int i * DAY_MS" by (auto simp: day_range_def)
  then have "int i < (stop - start + DAY_MS - 1) div DAY_MS" by linarith
  then have "(int i + 1) * DAY_MS \<le> (stop - start + DAY_MS - 1) div DAY_MS * DAY_MS" by (intro mult_right_mono) (simp_all add: DAY_MS_def)
  also have "\<dots> \<le> stop - start + DAY_MS - 1" by (simp add: DAY_MS_def)
  finally show "d < stop" by (simp add: i algebra_simps)
qed

text \<open>Of a growing list only elements with fewer predecessors are taken.\<close>

lemma late_element_not_taken:
  assumes "sorted_wrt (<) xs" "k \<le> length (filter (\<lambda>y. y < x) xs)"
  shows "(x :: int) \<notin> set (take k xs)"
  using assms
proof (induction xs arbitrary: k)
  case (Cons y ys)
  show ?case
  proof (cases k)
    case (Suc m)
    have later: "\<forall>z \<in> set ys. y < z" using Cons.prems(1) by simp
    have "y < x"
    proof (rule ccontr)
      assume "\<not> y < x"
      then have "filter (\<lambda>y. y < x) (y # ys) = []" using later by (auto simp: filter_empty_conv)
      then show False using Cons.prems(2) Suc by simp
    qed
    then show ?thesis using Cons.IH [of m] Cons.prems Suc by simp
  qed simp
qed simp

section \<open>The selection reads the evidence\<close>

lemma evidence_window: "cutoff_ms - kline_evidence_days policy * DAY_MS = evidence_start policy cutoff_ms"
  by (simp add: kline_evidence_days_def evidence_start_def CONFIRMATION_DAYS_def)

text \<open>The assembled evidence is read by the selection as one list of klines per eligible symbol.\<close>

lemma kline_evidence_reads_back:
  assumes "fetch_daily_klines u sha256 container_text fetch policy exchange_info_file observation cutoff_ms = Inr v"
    and "0 < cutoff_ms" "cutoff_ms mod DAY_MS = 0"
  shows "\<exists>eligible klines. eligible_instruments u exchange_info_file = Inr eligible \<and> read_daily_klines (body, Some v) = Inr (klines, cutoff_ms) \<and>
    map fst klines = map fst eligible"
proof -
  obtain eligible responses where e: "eligible_instruments u exchange_info_file = Inr eligible"
    and r: "map_result (\<lambda>(s, onboard_ms). rbind (symbol_klines sha256 container_text (fetch s) (kline_evidence_days policy) cutoff_ms
        (case dict_get (cached_daily_klines observation) s of Some value \<Rightarrow> value | None \<Rightarrow> []) onboard_ms) (\<lambda>v. Inr (s, v))) eligible = Inr responses"
    and v: "v = JObj [(''endpoint'', JStr ''/fapi/v1/klines''), (''interval'', JStr ''1d''), (''schema_version'', JInt 1),
        (''symbols'', JObj responses), (''window_end_exclusive_ms'', JInt cutoff_ms),
        (''window_start_ms'', JInt (cutoff_ms - kline_evidence_days policy * DAY_MS))]"
    using assms(1) by (auto simp: fetch_daily_klines_def Let_def rbind_Inr_iff)
  have one: "\<exists>rows. kline_payload (s, w) = Inr (s, rows)" if "symbol_klines sha256 container_text f n c cached o' = Inr w" for s w f n c cached o'
    using that by (auto simp: symbol_klines_def Let_def rbind_Inr_iff kline_payload_def jget_def)
  have "\<exists>klines. map_result kline_payload responses = Inr klines \<and> map fst klines = map fst eligible"
    using r
  proof (induction eligible arbitrary: responses)
    case (Cons x eligible)
    obtain s onboard_ms where x: "x = (s, onboard_ms)" by (cases x) blast
    obtain w responses' where w: "symbol_klines sha256 container_text (fetch s) (kline_evidence_days policy) cutoff_ms
        (case dict_get (cached_daily_klines observation) s of Some value \<Rightarrow> value | None \<Rightarrow> []) onboard_ms = Inr w"
      "responses = (s, w) # responses'"
      "map_result (\<lambda>(s, onboard_ms). rbind (symbol_klines sha256 container_text (fetch s) (kline_evidence_days policy) cutoff_ms
        (case dict_get (cached_daily_klines observation) s of Some value \<Rightarrow> value | None \<Rightarrow> []) onboard_ms) (\<lambda>v. Inr (s, v))) eligible = Inr responses'"
      using Cons.prems by (auto simp: x rbind_Inr_iff)
    obtain rows where "kline_payload (s, w) = Inr (s, rows)" using one [OF w(1)] by blast
    then show ?case using Cons.IH [OF w(3)] w(2) x by auto
  qed simp
  then show ?thesis using e assms(2,3) by (auto simp: v read_daily_klines_def loads_def jget_def positive_int_def py_str_def)
qed

section \<open>Properties\<close>

text \<open>C38. When the cached days come before the missing ones and the exchange has all missing days, the evidence of a symbol has exactly one
  kline for every day of the window since the symbol's first full day, in order.\<close>

theorem unbroken_klines_complete:
  assumes "serves rows fetch" "symbol_klines sha256 container_text fetch n cutoff_ms cached onboard_ms = Inr v"
    and "\<forall>d \<in> set (days_of rows). d mod DAY_MS = 0" "cutoff_ms mod DAY_MS = 0"
    and "known = set (days_of (cached_rows cached))"
    and "expected = day_range (max (cutoff_ms - n * DAY_MS) (first_full_day onboard_ms)) cutoff_ms"
    and "\<forall>d \<in> set expected. \<forall>m \<in> set expected. d \<in> known \<longrightarrow> m \<notin> known \<longrightarrow> d < m"
    and "\<forall>m \<in> set expected. m \<notin> known \<longrightarrow> m \<in> set (days_of rows)"
  shows "kline_days v = expected"
proof -
  obtain by_open by_open' fetched where b: "klines_fit expected by_open"
    "\<And>d. dict_get by_open d \<noteq> None \<longleftrightarrow> d \<in> set expected \<inter> set (days_of (cached_rows cached))"
    "fetch_missing fetch cutoff_ms expected by_open = Inr (by_open', fetched)" "klines_fit expected by_open'" "kline_days v = sort (map fst by_open')"
    using symbol_klines_days [OF assms(2,6)] by blast
  define missing where "missing = missing_days expected by_open"
  have missing: "missing = filter (\<lambda>d. d \<notin> known) expected" using missing_days_cached [OF b(2)] assms(5) by (simp add: missing_def)
  have start: "max (cutoff_ms - n * DAY_MS) (first_full_day onboard_ms) mod DAY_MS = 0"
    using assms(4) first_full_day_mod [of onboard_ms] by (simp add: max_def mod_diff_eq [symmetric])
  note day = day_range_iff [OF start assms(4), folded assms(6)]
  have "dict_get by_open' d \<noteq> None \<longleftrightarrow> d \<in> set expected" for d
  proof (cases "missing = []")
    case True
    then have "by_open' = by_open" using b(3) by (simp add: fetch_missing_def missing_def [symmetric])
    then show ?thesis using b(2) [of d] True missing assms(5) by (auto simp: filter_empty_conv)
  next
    case False
    define asked where "asked = filter (\<lambda>d. Min (set missing) \<le> d \<and> d \<le> cutoff_ms - 1) (days_of rows)"
    have "Min (set missing) \<in> set missing" using False by simp
    then have least: "Min (set missing) \<in> set expected" "Min (set missing) \<notin> known" using missing by auto
    have "x \<in> set asked \<longleftrightarrow> x \<in> set missing" for x
    proof
      assume x: "x \<in> set asked"
      then have "x \<in> set expected" using assms(3) least(1) by (simp add: asked_def day)
      moreover have "x \<notin> known" using x assms(7) calculation least by (fastforce simp: asked_def)
      ultimately show "x \<in> set missing" by (simp add: missing)
    next
      assume x: "x \<in> set missing"
      then show "x \<in> set asked" using assms(8) day [of x] by (auto simp: asked_def missing)
    qed
    moreover have "sorted_wrt (<) asked" using assms(1) by (simp add: asked_def serves_def sorted_wrt_filter)
    moreover have "sorted_wrt (<) missing" using sorted_day_range assms(6) by (simp add: missing sorted_wrt_filter)
    ultimately have "asked = missing" using strict_sorted_unique by blast
    then have "dict_get by_open' d \<noteq> None \<longleftrightarrow> dict_get by_open d \<noteq> None \<or> d \<in> set expected \<inter> set missing"
      using served_days [OF assms(1) b(3), of d] False by (simp add: missing_def [symmetric] asked_def)
    then show ?thesis using b(2) [of d] assms(5) missing by auto
  qed
  then have "set (map fst by_open') = set expected" using dict_get_None_iff [of by_open'] by auto
  moreover have "distinct (map fst by_open')" using b(4) by (simp add: klines_fit_def dict_ok_def)
  ultimately show ?thesis
    unfolding b(5) using sorted_day_range [of _ cutoff_ms] strict_sorted_iff by (intro sorted_distinct_set_unique) (auto simp: assms(6) distinct_day_range)
qed

text \<open>C39. A day the last observation lacks keeps newer days out: the request begins with the earliest missing day but asks for as many klines
  as days are missing, so when the exchange has that many klines before a new day, the evidence lacks the new day.\<close>

theorem missing_day_freezes_klines:
  assumes "serves rows fetch" "symbol_klines sha256 container_text fetch n cutoff_ms cached onboard_ms = Inr v"
    and "known = set (days_of (cached_rows cached))"
    and "expected = day_range (max (cutoff_ms - n * DAY_MS) (first_full_day onboard_ms)) cutoff_ms"
    and "hole \<in> set expected" "hole \<notin> known" "new_day \<in> set expected" "new_day \<notin> known"
    and "length (filter (\<lambda>d. d \<notin> known) expected) \<le> length (filter (\<lambda>d. hole \<le> d \<and> d < new_day) (days_of rows))"
  shows "new_day \<notin> set (kline_days v)"
proof -
  obtain by_open by_open' fetched where b: "klines_fit expected by_open"
    "\<And>d. dict_get by_open d \<noteq> None \<longleftrightarrow> d \<in> set expected \<inter> set (days_of (cached_rows cached))"
    "fetch_missing fetch cutoff_ms expected by_open = Inr (by_open', fetched)" "klines_fit expected by_open'" "kline_days v = sort (map fst by_open')"
    using symbol_klines_days [OF assms(2,4)] by blast
  define missing where "missing = missing_days expected by_open"
  have missing: "missing = filter (\<lambda>d. d \<notin> known) expected" using missing_days_cached [OF b(2)] assms(3) by (simp add: missing_def)
  have hole: "hole \<in> set missing" "missing \<noteq> []" "Min (set missing) \<le> hole" using assms(5,6) by (auto simp: missing filter_empty_conv)
  define asked where "asked = filter (\<lambda>d. Min (set missing) \<le> d \<and> d \<le> cutoff_ms - 1) (days_of rows)"
  have "new_day \<notin> set (take (length missing) asked)"
  proof (rule late_element_not_taken)
    show "sorted_wrt (<) asked" using assms(1) by (simp add: asked_def serves_def sorted_wrt_filter)
    have "new_day < cutoff_ms" using assms(4,7) by (auto simp: day_range_less)
    then have "filter (\<lambda>d. hole \<le> d \<and> d < new_day) (days_of rows) = filter (\<lambda>d. hole \<le> d \<and> d < new_day) asked"
      using hole(3) by (auto simp: asked_def intro!: filter_cong)
    also have "\<dots> = filter (\<lambda>d. hole \<le> d) (filter (\<lambda>d. d < new_day) asked)" by (simp add: conj_commute)
    also have "length \<dots> \<le> length (filter (\<lambda>d. d < new_day) asked)" by (rule length_filter_le)
    finally show "length missing \<le> length (filter (\<lambda>d. d < new_day) asked)" using assms(9) by (simp add: missing)
  qed
  then have "dict_get by_open' new_day = None"
    using served_days [OF assms(1) b(3), of new_day] hole(2) b(2) [of new_day] assms(3,8) by (auto simp: missing_def [symmetric] asked_def)
  then show ?thesis unfolding b(5) by (simp add: dict_get_None_iff)
qed

definition demo_kline :: "int \<Rightarrow> json" where
  "demo_kline d = JList (JInt (d * DAY_MS) # replicate 8 (JInt 1))"

definition demo_rows :: "json list" where
  "demo_rows = map demo_kline [97, 98, 99]"

definition demo_exchange :: "json list \<Rightarrow> kline_fetch" where
  "demo_exchange rows start stop limit = Inr (''response'', Some (JList (take limit
     (filter (\<lambda>v. start \<le> the (kline_day v) \<and> the (kline_day v) \<le> stop) rows))))"

definition demo_cached :: "int list \<Rightarrow> (string \<times> json) list" where
  "demo_cached ds = [(''payload'', JList (map demo_kline ds))]"

definition demo_symbol :: "int \<Rightarrow> int list \<Rightarrow> py_error + json" where
  "demo_symbol n ds = symbol_klines id (\<lambda>_. []) (demo_exchange demo_rows) n (100 * DAY_MS) (demo_cached ds) 1"

lemma demo_serves: "serves demo_rows (demo_exchange demo_rows)"
proof -
  have "sorted_wrt (<) (days_of demo_rows)" "list_all (\<lambda>v. \<not> Option.is_none (kline_day v)) demo_rows"
    by code_simp+
  then show ?thesis unfolding serves_def by (auto simp: demo_exchange_def list_all_iff Option.is_none_def)
qed

lemma demo_days:
  "set (days_of (cached_rows (demo_cached [97]))) = {97 * DAY_MS}"
  "day_range (max (100 * DAY_MS - 3 * DAY_MS) (first_full_day 1)) (100 * DAY_MS) = [97 * DAY_MS, 98 * DAY_MS, 99 * DAY_MS]"
  "set (days_of (cached_rows (demo_cached [97, 98]))) = {97 * DAY_MS, 98 * DAY_MS}"
  "day_range (max (100 * DAY_MS - 4 * DAY_MS) (first_full_day 1)) (100 * DAY_MS) = [96 * DAY_MS, 97 * DAY_MS, 98 * DAY_MS, 99 * DAY_MS]"
  "days_of demo_rows = [97 * DAY_MS, 98 * DAY_MS, 99 * DAY_MS]"
  by code_simp+

theorem unbroken_klines_complete_witness:
  "\<exists>v. demo_symbol 3 [97] = Inr v \<and> kline_days v = [97 * DAY_MS, 98 * DAY_MS, 99 * DAY_MS]"
proof -
  have "case demo_symbol 3 [97] of Inr _ \<Rightarrow> True | Inl _ \<Rightarrow> False" by code_simp
  then obtain v where v: "demo_symbol 3 [97] = Inr v" by (cases "demo_symbol 3 [97]") auto
  have "kline_days v = [97 * DAY_MS, 98 * DAY_MS, 99 * DAY_MS]"
    by (rule unbroken_klines_complete [OF demo_serves v [unfolded demo_symbol_def] _ _ refl demo_days(2) [symmetric]])
      (simp_all add: demo_days DAY_MS_def)
  then show ?thesis using v by blast
qed

theorem missing_day_freezes_klines_witness:
  "\<exists>v. demo_symbol 4 [97, 98] = Inr v \<and> 99 * DAY_MS \<notin> set (kline_days v)"
proof -
  have "case demo_symbol 4 [97, 98] of Inr _ \<Rightarrow> True | Inl _ \<Rightarrow> False" by code_simp
  then obtain v where v: "demo_symbol 4 [97, 98] = Inr v" by (cases "demo_symbol 4 [97, 98]") auto
  have "99 * DAY_MS \<notin> set (kline_days v)"
    by (rule missing_day_freezes_klines [OF demo_serves v [unfolded demo_symbol_def] refl refl, where hole = "96 * DAY_MS"])
      (simp_all only: demo_days, simp_all add: DAY_MS_def)
  then show ?thesis using v by blast
qed

end
