(* ===== verification/Retention.thy ===== *)
theory Retention
  imports Contracts
begin

text \<open>
  What may be deleted: \<open>src/miry/pipeline/retention.py\<close> removes raw days that are old, sealed and not pinned by a release,
  \<open>src/miry/cli/pin.py\<close> writes the releases, and \<open>deploy/campus-107/prune-l2-projections.py\<close> keeps the projections below a
  byte budget. An archive is its day directories in the order in which they are listed, and the contents of its sealed
  manifests. \<open>date.fromisoformat\<close>, the decoder of a manifest and SHA-256 are parameters.
\<close>

section \<open>The archive\<close>

type_synonym day_dir = "string \<times> string"

record archive =
  ar_days :: "day_dir list"
  ar_sealed :: "(string \<times> utc_date, string) dict"

record retention_env =
  rt_date :: "string \<Rightarrow> utc_date option"
  rt_manifest :: "string \<Rightarrow> py_error + day_manifest"
  rt_sha256 :: "string \<Rightarrow> string"

definition dir_date :: "retention_env \<Rightarrow> string \<Rightarrow> utc_date option" where
  "dir_date env name = rt_date env (if take 5 name = ''date='' then drop 5 name else name)"

section \<open>Releases\<close>

definition pin_day :: "retention_env \<Rightarrow> archive \<Rightarrow> string \<times> utc_date \<Rightarrow> py_error + day_release_ref" where
  "pin_day env a = (\<lambda>(c, d).
     case dict_get (ar_sealed a) (c, d) of
       None \<Rightarrow> Inl (FileNotFoundError ''SEALED.json'')
     | Some content \<Rightarrow> rbind (rt_manifest env content) (\<lambda>m.
         if dm_collector_id m \<noteq> c \<or> dm_utc_date m \<noteq> d then Inl (ValueError ''sealed manifest identity mismatch'')
         else Inr \<lparr>dr_collector_id = c, dr_utc_date = d, sealed_manifest_sha256 = rt_sha256 env content\<rparr>))"

definition pin_release :: "retention_env \<Rightarrow> string \<Rightarrow> py_datetime \<Rightarrow> (string \<times> utc_date) list \<Rightarrow> archive \<Rightarrow> py_error + dataset_release" where
  "pin_release env name now refs a =
     rbind (map_result (pin_day env a) refs) (\<lambda>pins.
       validate_dataset_release \<lparr>rel_schema_version = 1, release_id = name, rel_created_at = now,
         days = sort_key (\<lambda>r. (dr_collector_id r, dr_utc_date r)) pins\<rparr>)"

definition add_pinned :: "retention_env \<Rightarrow> archive \<Rightarrow> (string \<times> utc_date) list \<Rightarrow> day_release_ref \<Rightarrow> py_error + (string \<times> utc_date) list" where
  "add_pinned env a pinned r =
     (case dict_get (ar_sealed a) (dr_collector_id r, dr_utc_date r) of
        None \<Rightarrow> Inl (ValueError ''release references a missing or changed manifest'')
      | Some content \<Rightarrow>
          if rt_sha256 env content \<noteq> sealed_manifest_sha256 r then Inl (ValueError ''release references a missing or changed manifest'')
          else Inr (pinned @ [(dr_collector_id r, dr_utc_date r)]))"

text \<open>A release file is its validation.\<close>

definition pinned_days :: "retention_env \<Rightarrow> (py_error + dataset_release) list \<Rightarrow> archive \<Rightarrow> py_error + (string \<times> utc_date) list" where
  "pinned_days env releases a =
     fold_result (\<lambda>pinned release. rbind release (\<lambda>rel. fold_result (add_pinned env a) pinned (days rel))) [] releases"

section \<open>Deleting raw days\<close>

definition add_expired :: "retention_env \<Rightarrow> archive \<Rightarrow> (string \<times> utc_date) list \<Rightarrow> utc_date \<Rightarrow> day_dir list \<Rightarrow> day_dir \<Rightarrow> py_error + day_dir list" where
  "add_expired env a pinned cutoff expired = (\<lambda>(c, name).
     case dir_date env name of
       None \<Rightarrow> Inr expired
     | Some d \<Rightarrow> (case dict_get (ar_sealed a) (c, d) of
           Some content \<Rightarrow>
             if d < cutoff \<and> (c, d) \<notin> set pinned then rbind (rt_manifest env content) (\<lambda>_. Inr (expired @ [(c, name)])) else Inr expired
         | None \<Rightarrow> Inr expired))"

definition expired_unpinned_days :: "retention_env \<Rightarrow> (py_error + dataset_release) list \<Rightarrow> int \<Rightarrow> utc_date \<Rightarrow> archive \<Rightarrow> py_error + day_dir list" where
  "expired_unpinned_days env releases retention_days today a =
     (if retention_days < 1 then Inl (ValueError ''retention_days must be positive'')
      else rbind (pinned_days env releases a) (\<lambda>pinned.
        fold_result (add_expired env a pinned (today - retention_days)) [] (ar_days a)))"

definition remove_day :: "retention_env \<Rightarrow> archive \<Rightarrow> day_dir \<Rightarrow> py_error + archive" where
  "remove_day env a = (\<lambda>(c, name).
     if (c, name) \<notin> set (ar_days a) then Inl (FileNotFoundError name)
     else if take 5 name \<noteq> ''date='' then Inl (ValueError ''unsafe retention target'')
     else case dir_date env name of
         None \<Rightarrow> Inl (ValueError ''Invalid isoformat string'')
       | Some d \<Rightarrow> Inr (a\<lparr>ar_days := filter (\<lambda>x. x \<noteq> (c, name)) (ar_days a), ar_sealed := dict_pop (c, d) (ar_sealed a)\<rparr>))"

definition apply_retention :: "retention_env \<Rightarrow> day_dir list \<Rightarrow> archive \<Rightarrow> py_error + archive" where
  "apply_retention env paths a = fold_result (remove_day env) a paths"

section \<open>Pruning projections\<close>

text \<open>\<open>retention_plan\<close> over the days with their sizes and the outcome of their validation, oldest first.\<close>

fun prune_days :: "int \<Rightarrow> utc_date \<Rightarrow> (utc_date \<times> int \<times> (py_error + unit)) list \<Rightarrow> int \<Rightarrow> (utc_date \<times> int) list \<Rightarrow> py_error + ((utc_date \<times> int) list \<times> int)" where
  "prune_days max_bytes cutoff [] remaining plan = Inr (plan, remaining)"
| "prune_days max_bytes cutoff ((d, size_of, valid) # rest) remaining plan =
     (if remaining \<le> max_bytes then Inr (plan, remaining)
      else if cutoff < d then prune_days max_bytes cutoff rest remaining plan
      else rbind valid (\<lambda>_. prune_days max_bytes cutoff rest (remaining - size_of) (plan @ [(d, size_of)])))"

definition prune_plan :: "int \<Rightarrow> int \<Rightarrow> utc_date \<Rightarrow> (utc_date \<times> int \<times> (py_error + unit)) list \<Rightarrow> py_error + ((utc_date \<times> int) list \<times> int)" where
  "prune_plan max_bytes minimum_days as_of projections =
     rbind (prune_days max_bytes (as_of - minimum_days) projections (sum_list (map (\<lambda>(_, n, _). n) projections)) []) (\<lambda>(plan, remaining).
       if max_bytes < remaining then Inl (ValueError ''projection byte budget cannot be met without violating minimum retention'')
       else Inr (plan, remaining))"

section \<open>What the scans return\<close>

definition verified :: "retention_env \<Rightarrow> archive \<Rightarrow> day_release_ref \<Rightarrow> bool" where
  "verified env a r \<longleftrightarrow> map_option (rt_sha256 env) (dict_get (ar_sealed a) (dr_collector_id r, dr_utc_date r)) = Some (sealed_manifest_sha256 r)"

lemma add_pinned_iff: "add_pinned env a pinned r = Inr pinned' \<longleftrightarrow> verified env a r \<and> pinned' = pinned @ [(dr_collector_id r, dr_utc_date r)]"
  by (auto simp: add_pinned_def verified_def split: option.split)

lemma add_pinned_all:
  "fold_result (add_pinned env a) pinned rs = Inr pinned' \<longleftrightarrow>
     (\<forall>r \<in> set rs. verified env a r) \<and> pinned' = pinned @ map (\<lambda>r. (dr_collector_id r, dr_utc_date r)) rs"
  by (induction rs arbitrary: pinned) (auto simp: rbind_Inr_iff add_pinned_iff)

lemma pinned_release_verifies:
  assumes "pin_release env name now refs a = Inr rel"
  shows "\<exists>pinned. pinned_days env [Inr rel] a = Inr pinned \<and> set pinned = set refs"
proof -
  obtain pins where pins: "map_result (pin_day env a) refs = Inr pins" "days rel = sort_key (\<lambda>r. (dr_collector_id r, dr_utc_date r)) pins"
    using assms by (auto simp: pin_release_def rbind_Inr_iff validate_dataset_release_def Let_def split: if_splits)
  have pin: "verified env a r \<and> (dr_collector_id r, dr_utc_date r) = x" if "pin_day env a x = Inr r" for x r
    using that by (auto simp: pin_day_def verified_def rbind_Inr_iff split: prod.splits option.splits if_splits)
  have rel: "list_all2 (\<lambda>x r. pin_day env a x = Inr r) refs pins" using pins(1) by (simp add: map_result_Inr_iff)
  then have "map (\<lambda>r. (dr_collector_id r, dr_utc_date r)) pins = refs" by (induction rule: list_all2_induct) (use pin in auto)
  moreover have "\<forall>r \<in> set pins. verified env a r" using map_result_origin [OF pins(1)] pin by blast
  ultimately show ?thesis
    by (auto simp: pinned_days_def rbind_Inr_iff add_pinned_all pins(2))
qed

definition removable :: "retention_env \<Rightarrow> archive \<Rightarrow> (string \<times> utc_date) list \<Rightarrow> utc_date \<Rightarrow> day_dir \<Rightarrow> bool" where
  "removable env a pinned cutoff = (\<lambda>(c, name).
     case dir_date env name of None \<Rightarrow> False
     | Some d \<Rightarrow> d < cutoff \<and> dict_get (ar_sealed a) (c, d) \<noteq> None \<and> (c, d) \<notin> set pinned)"

lemma add_expired_step:
  "add_expired env a pinned cutoff expired x = Inr expired' \<Longrightarrow> expired' = (if removable env a pinned cutoff x then expired @ [x] else expired)"
  by (auto simp: add_expired_def removable_def rbind_Inr_iff split: option.splits if_splits)

lemma add_expired_all:
  "fold_result (add_expired env a pinned cutoff) expired xs = Inr paths \<Longrightarrow> paths = expired @ filter (removable env a pinned cutoff) xs"
proof (induction xs arbitrary: expired)
  case (Cons x xs)
  then obtain expired' where step: "add_expired env a pinned cutoff expired x = Inr expired'"
    "fold_result (add_expired env a pinned cutoff) expired' xs = Inr paths" by (auto simp: rbind_Inr_iff)
  show ?case using Cons.IH [OF step(2)] add_expired_step [OF step(1)] by simp
qed simp

lemma no_expired:
  "\<forall>x \<in> set xs. \<not> removable env a pinned cutoff x \<Longrightarrow> fold_result (add_expired env a pinned cutoff) expired xs = Inr expired"
proof (induction xs)
  case (Cons x xs)
  obtain c name where x: "x = (c, name)" by (cases x) blast
  have "\<not> removable env a pinned cutoff (c, name)" using Cons.prems x by simp
  then have "add_expired env a pinned cutoff expired (c, name) = Inr expired"
    by (cases "dir_date env name") (auto simp: add_expired_def removable_def split: option.split)
  then show ?case using Cons x by simp
qed simp

lemma apply_retention_all:
  assumes "set paths \<subseteq> set (ar_days a)" "distinct paths" "\<forall>(c, name) \<in> set paths. take 5 name = ''date='' \<and> dir_date env name \<noteq> None"
  shows "\<exists>a'. apply_retention env paths a = Inr a' \<and> ar_days a' = filter (\<lambda>x. x \<notin> set paths) (ar_days a) \<and>
    (\<forall>c d. dict_get (ar_sealed a') (c, d) = (if \<exists>name. (c, name) \<in> set paths \<and> dir_date env name = Some d then None else dict_get (ar_sealed a) (c, d)))"
  using assms
proof (induction paths arbitrary: a)
  case (Cons x paths)
  obtain c name d where x: "x = (c, name)" "take 5 name = ''date=''" "dir_date env name = Some d"
    using Cons.prems(3) by (cases x) auto
  define a1 where "a1 = a\<lparr>ar_days := filter (\<lambda>y. y \<noteq> x) (ar_days a), ar_sealed := dict_pop (c, d) (ar_sealed a)\<rparr>"
  have step: "remove_day env a x = Inr a1" using Cons.prems(1) x by (simp add: remove_day_def a1_def)
  have "set paths \<subseteq> set (ar_days a1)" using Cons.prems(1,2) by (auto simp: a1_def)
  then obtain a' where a': "apply_retention env paths a1 = Inr a'" "ar_days a' = filter (\<lambda>x. x \<notin> set paths) (ar_days a1)"
    "\<And>c d. dict_get (ar_sealed a') (c, d) = (if \<exists>name. (c, name) \<in> set paths \<and> dir_date env name = Some d then None else dict_get (ar_sealed a1) (c, d))"
    using Cons.IH [of a1] Cons.prems(2,3) by auto
  have "apply_retention env (x # paths) a = Inr a'" using a'(1) step by (simp add: apply_retention_def)
  moreover have "ar_days a' = filter (\<lambda>y. y \<notin> set (x # paths)) (ar_days a)" by (auto simp: a'(2) a1_def intro!: filter_cong)
  moreover have "dict_get (ar_sealed a') (k, e) = (if \<exists>name. (k, name) \<in> set (x # paths) \<and> dir_date env name = Some e then None else dict_get (ar_sealed a) (k, e))" for k e
    unfolding a'(3) using x by (auto simp: a1_def)
  ultimately show ?case by blast
qed (simp add: apply_retention_def)

lemma pinned_days_same:
  assumes "pinned_days env releases a = Inr pinned" "\<And>c d. (c, d) \<in> set pinned \<Longrightarrow> dict_get (ar_sealed a') (c, d) = dict_get (ar_sealed a) (c, d)"
  shows "pinned_days env releases a' = Inr pinned"
proof -
  have "fold_result (\<lambda>pinned release. rbind release (\<lambda>rel. fold_result (add_pinned env a') pinned (days rel))) acc rs = Inr out"
    if "fold_result (\<lambda>pinned release. rbind release (\<lambda>rel. fold_result (add_pinned env a) pinned (days rel))) acc rs = Inr out" "set out \<subseteq> set pinned"
    for acc out and rs :: "(py_error + dataset_release) list"
    using that
  proof (induction rs arbitrary: acc)
    case (Cons r rs)
    then obtain rel acc' where step: "r = Inr rel" "fold_result (add_pinned env a) acc (days rel) = Inr acc'"
      "fold_result (\<lambda>pinned release. rbind release (\<lambda>rel. fold_result (add_pinned env a) pinned (days rel))) acc' rs = Inr out"
      by (auto simp: rbind_Inr_iff)
    have "set acc' \<subseteq> set out"
      by (rule fold_result_invariant [OF step(3), where P = "\<lambda>out. set acc' \<subseteq> set out"]) (auto simp: rbind_Inr_iff add_pinned_all)
    then have "\<forall>r \<in> set (days rel). (dr_collector_id r, dr_utc_date r) \<in> set pinned" using step(2) Cons.prems(2) by (auto simp: add_pinned_all)
    then have "fold_result (add_pinned env a') acc (days rel) = Inr acc'" using step(2) assms(2) by (auto simp: add_pinned_all verified_def)
    then show ?case using Cons.IH [OF step(3) Cons.prems(2)] step(1) by simp
  qed simp
  then show ?thesis using assms(1) by (simp add: pinned_days_def)
qed

section \<open>Properties\<close>

text \<open>C40. Applying retention succeeds, and removes a day directory of the archive if and only if its day is sealed, older than the
  retention period and not pinned; it leaves every release verifiable with the same pinned days, and leaves nothing for a second
  run. The archive lists every directory once, under the names \<open>date=...\<close> by which they are listed.\<close>

theorem retention_keeps_releases:
  assumes "expired_unpinned_days env releases retention_days today a = Inr paths"
    and "distinct (ar_days a)" "\<forall>(c, name) \<in> set (ar_days a). take 5 name = ''date=''"
  shows "\<exists>a' pinned. apply_retention env paths a = Inr a' \<and> pinned_days env releases a = Inr pinned \<and> pinned_days env releases a' = Inr pinned \<and>
    set (ar_days a') = set (ar_days a) - set paths \<and>
    (\<forall>c name. (c, name) \<in> set paths \<longleftrightarrow> (c, name) \<in> set (ar_days a) \<and>
       (\<exists>d. dir_date env name = Some d \<and> d < today - retention_days \<and>
         dict_get (ar_sealed a) (c, d) \<noteq> None \<and> (c, d) \<notin> set pinned)) \<and>
    expired_unpinned_days env releases retention_days today a' = Inr []"
proof -
  define cutoff where "cutoff = today - retention_days"
  obtain pinned where pinned: "pinned_days env releases a = Inr pinned" "1 \<le> retention_days"
    and scan: "fold_result (add_expired env a pinned cutoff) [] (ar_days a) = Inr paths"
    using assms(1) by (auto simp: expired_unpinned_days_def rbind_Inr_iff cutoff_def split: if_splits)
  have paths: "paths = filter (removable env a pinned cutoff) (ar_days a)" using add_expired_all [OF scan] by simp
  have old: "\<exists>d. dir_date env name = Some d \<and> d < cutoff \<and> dict_get (ar_sealed a) (c, d) \<noteq> None \<and> (c, d) \<notin> set pinned"
    if "(c, name) \<in> set paths" for c name
    using that by (auto simp: paths removable_def split: option.splits)
  have "\<forall>(c, name) \<in> set paths. take 5 name = ''date='' \<and> dir_date env name \<noteq> None" using assms(3) old by (fastforce simp: paths)
  moreover have "set paths \<subseteq> set (ar_days a)" "distinct paths" using assms(2) by (auto simp: paths)
  ultimately obtain a' where a': "apply_retention env paths a = Inr a'" "ar_days a' = filter (\<lambda>x. x \<notin> set paths) (ar_days a)"
    "\<And>c d. dict_get (ar_sealed a') (c, d) = (if \<exists>name. (c, name) \<in> set paths \<and> dir_date env name = Some d then None else dict_get (ar_sealed a) (c, d))"
    using apply_retention_all [of paths a env] by blast
  have "pinned_days env releases a' = Inr pinned"
    by (rule pinned_days_same [OF pinned(1)]) (use old in \<open>fastforce simp: a'(3)\<close>)
  moreover have "\<not> removable env a' pinned cutoff x" if "x \<in> set (ar_days a')" for x
  proof
    assume late: "removable env a' pinned cutoff x"
    obtain c name where x: "x = (c, name)" by (cases x) blast
    obtain d where d: "dir_date env name = Some d" "d < cutoff" "dict_get (ar_sealed a') (c, d) \<noteq> None" "(c, d) \<notin> set pinned"
      using late by (auto simp: x removable_def split: option.splits)
    then have "dict_get (ar_sealed a) (c, d) \<noteq> None" using a'(3) [of c d] by (auto split: if_splits)
    then have "removable env a pinned cutoff x" using d by (simp add: x removable_def)
    moreover have "x \<in> set (ar_days a)" "x \<notin> set paths" using that by (auto simp: a'(2))
    ultimately show False by (simp add: paths)
  qed
  then have "fold_result (add_expired env a' pinned cutoff) [] (ar_days a') = Inr []" by (intro no_expired) blast
  ultimately have "expired_unpinned_days env releases retention_days today a' = Inr []"
    using pinned(2) by (simp add: expired_unpinned_days_def cutoff_def)
  moreover have "(c, name) \<in> set paths \<longleftrightarrow> (c, name) \<in> set (ar_days a) \<and> (\<exists>d. dir_date env name = Some d \<and> d < cutoff \<and>
      dict_get (ar_sealed a) (c, d) \<noteq> None \<and> (c, d) \<notin> set pinned)" for c name
    by (auto simp: paths removable_def split: option.splits)
  ultimately show ?thesis using a'(1,2) pinned(1) \<open>pinned_days env releases a' = Inr pinned\<close> by (auto simp: cutoff_def)
qed

text \<open>A pruning plan meets the budget and spares the days within the minimum retention.\<close>

lemma prune_days_bounds:
  assumes "prune_days max_bytes cutoff xs remaining plan = Inr (plan', remaining')"
  shows "\<exists>more. plan' = plan @ more \<and> (\<forall>(d, n) \<in> set more. d \<le> cutoff \<and> (\<exists>valid. (d, n, valid) \<in> set xs)) \<and>
    remaining' = remaining - sum_list (map snd more)"
  using assms
proof (induction xs arbitrary: remaining plan)
  case (Cons x xs)
  obtain d n valid where x: "x = (d, n, valid)" by (cases x) blast
  consider "remaining \<le> max_bytes" | "\<not> remaining \<le> max_bytes" "cutoff < d" | "\<not> remaining \<le> max_bytes" "d \<le> cutoff" by linarith
  then show ?case
  proof cases
    case 1
    then show ?thesis using Cons.prems by (simp add: x)
  next
    case 2
    then have "prune_days max_bytes cutoff xs remaining plan = Inr (plan', remaining')" using Cons.prems by (simp add: x)
    from Cons.IH [OF this] show ?thesis by fastforce
  next
    case 3
    then have "prune_days max_bytes cutoff xs (remaining - n) (plan @ [(d, n)]) = Inr (plan', remaining')"
      using Cons.prems by (auto simp: x rbind_Inr_iff)
    from Cons.IH [OF this] obtain more where "plan' = (plan @ [(d, n)]) @ more" "\<forall>(d, n) \<in> set more. d \<le> cutoff \<and> (\<exists>valid. (d, n, valid) \<in> set xs)"
      "remaining' = remaining - n - sum_list (map snd more)" by blast
    then show ?thesis using 3 by (intro exI [of _ "(d, n) # more"]) (auto simp: x)
  qed
qed auto

lemma prune_plan_bounds:
  assumes "prune_plan max_bytes minimum_days as_of projections = Inr (plan, remaining)"
  shows "remaining \<le> max_bytes \<and> (\<forall>(d, n) \<in> set plan. d \<le> as_of - minimum_days \<and> (\<exists>valid. (d, n, valid) \<in> set projections)) \<and>
    remaining + sum_list (map snd plan) = sum_list (map (\<lambda>(_, n, _). n) projections)"
  using assms prune_days_bounds [of max_bytes "as_of - minimum_days" projections]
  by (fastforce simp: prune_plan_def rbind_Inr_iff split: if_splits)

definition demo_manifest :: day_manifest where
  "demo_manifest = \<lparr>dm_schema_version = 1, dm_collector_id = ''tokyo'', dm_utc_date = 0, sealed_at = \<lparr>wall_us = 0, utc_offset = Some 0\<rparr>, chunks = []\<rparr>"

definition demo_retention_env :: retention_env where
  "demo_retention_env = \<lparr>rt_date = (\<lambda>s. if s = ''1'' then Some 1 else if s = ''2'' then Some 2 else None), rt_manifest = (\<lambda>_. Inr demo_manifest), rt_sha256 = id\<rparr>"

definition demo_archive :: archive where
  "demo_archive = \<lparr>ar_days = [(''tokyo'', ''date=1''), (''tokyo'', ''date=2'')], ar_sealed = [((''tokyo'', 1), ''x''), ((''tokyo'', 2), ''y'')]\<rparr>"

definition demo_release :: dataset_release where
  "demo_release = \<lparr>rel_schema_version = 1, release_id = ''release-1'', rel_created_at = \<lparr>wall_us = 0, utc_offset = Some 0\<rparr>,
     days = [\<lparr>dr_collector_id = ''tokyo'', dr_utc_date = 2, sealed_manifest_sha256 = ''y''\<rparr>]\<rparr>"

theorem retention_keeps_releases_witness:
  "\<exists>a'. apply_retention demo_retention_env [(''tokyo'', ''date=1'')] demo_archive = Inr a' \<and> set (ar_days a') = {(''tokyo'', ''date=2'')} \<and>
    expired_unpinned_days demo_retention_env [Inr demo_release] 5 100 a' = Inr []"
proof -
  have "expired_unpinned_days demo_retention_env [Inr demo_release] 5 100 demo_archive = Inr [(''tokyo'', ''date=1'')]" by code_simp
  from retention_keeps_releases [OF this] show ?thesis by (auto simp: demo_archive_def)
qed

end
