(* ===== verification/Selection.thy ===== *)
theory Selection
  imports Evidence
begin

text \<open>
  \<open>src/miry/universe/selection.py\<close>, with the role bookkeeping of \<open>evidence.py\<close>: the bootstrap universe, its
  validation, and the rolling selection that replaces inactive members, promotes on Mondays, and
  changes the probe and boundary roles within daily limits. Time stamps are UTC and compared by their wall clock.
\<close>

section \<open>Role bookkeeping\<close>

type_synonym joined = "(string, py_datetime) dict"

definition us_per_hour :: int where "us_per_hour = 3600 * 1000000"

definition dwell_complete :: "py_datetime \<Rightarrow> py_datetime \<Rightarrow> int \<Rightarrow> bool" where
  "dwell_complete joined effective required_us \<longleftrightarrow> wall_us joined \<le> wall_us effective - required_us"

definition joined_at :: "joined \<Rightarrow> py_datetime \<Rightarrow> string \<Rightarrow> py_datetime" where
  "joined_at since otherwise s = (case dict_get since s of Some t \<Rightarrow> t | None \<Rightarrow> otherwise)"

definition take_first :: "string list \<Rightarrow> string set \<Rightarrow> string option" where
  "take_first values forbidden = find (\<lambda>v. v \<notin> forbidden) values"

text \<open>\<open>list(dict.fromkeys(values))\<close>: the first occurrence of every value.\<close>

definition first_occurrences :: "'a list \<Rightarrow> 'a list" where
  "first_occurrences xs = rev (remdups (rev xs))"

fun fill_role :: "string list \<Rightarrow> string list \<Rightarrow> string list" where
  "fill_role [] result = result"
| "fill_role (s # preferred) result =
     (if 5 \<le> length result then result
      else fill_role preferred (if s \<in> set result then result else result @ [s]))"

text \<open>The normal replacements; \<open>head5\<close> is \<open>preferred[:5]\<close> and \<open>dwelled\<close> the test of the dwell time.\<close>

fun normal_replacements ::
    "string list \<Rightarrow> (string \<Rightarrow> bool) \<Rightarrow> nat \<Rightarrow> string list \<Rightarrow> nat \<Rightarrow> string list \<Rightarrow> string list" where
  "normal_replacements head5 dwelled limit [] changes result = result"
| "normal_replacements head5 dwelled limit (s # preferred) changes result =
     (if s \<in> set result \<or> limit \<le> changes then normal_replacements head5 dwelled limit preferred changes result
      else
        let removable = filter (\<lambda>i. i \<notin> set head5 \<and> dwelled i) result in
        if removable = [] then normal_replacements head5 dwelled limit preferred changes result
        else normal_replacements head5 dwelled limit preferred (changes + 1) (remove1 (last removable) result @ [s]))"

definition reconcile_bucket ::
    "string list \<Rightarrow> string list \<Rightarrow> string set \<Rightarrow> string set \<Rightarrow> joined \<Rightarrow> py_datetime \<Rightarrow> int \<Rightarrow> nat \<Rightarrow> py_error + string list" where
  "reconcile_bucket current preferred0 forbidden inactive member_since effective minimum_dwell limit =
     (let preferred = first_occurrences (filter (\<lambda>s. s \<notin> forbidden) preferred0);
          result0 = filter (\<lambda>s. s \<notin> forbidden \<and> s \<notin> inactive) current;
          forced_vacancies = 5 - int (length result0);
          result1 = fill_role preferred result0;
          result = normal_replacements (take 5 preferred)
            (\<lambda>i. dwell_complete (joined_at member_since effective i) effective minimum_dwell) limit preferred 0 result1 in
      if length result \<noteq> 5 then Inl (ValueError ''not enough qualified instruments to fill candidate role'')
      else if forced_vacancies = 0 \<and> limit < card (set current - set result) then
        Inl (ValueError ''candidate replacement limit exceeded'')
      else Inr (sort result))"

section \<open>Results\<close>

record selection_result =
  sel_core :: "string list"
  sel_boundary :: "string list"
  sel_probe :: "string list"
  sel_inactive :: "string list"
  sel_source_hashes :: "string list"
  mature_pool_count :: nat
  probe_pool_count :: nat
  sel_market_context :: "market_context option"
  decision_frozen_reason :: "string option"

definition preserve_active ::
    "universe_decision \<Rightarrow> string list \<Rightarrow> string list \<Rightarrow> nat \<Rightarrow> nat \<Rightarrow> market_context \<Rightarrow> string option \<Rightarrow> selection_result" where
  "preserve_active active hashes inactive mature_count probe_count context why =
     \<lparr>sel_core = core active, sel_boundary = boundary active, sel_probe = probe active, sel_inactive = sort inactive,
       sel_source_hashes = hashes, mature_pool_count = mature_count, probe_pool_count = probe_count,
       sel_market_context = Some context, decision_frozen_reason = why\<rparr>"

section \<open>Bootstrap\<close>

definition select_bootstrap_universe ::
    "unicode \<Rightarrow> (string \<Rightarrow> string) \<Rightarrow> rolling_policy \<Rightarrow> discovery_snapshot \<Rightarrow> py_error + selection_result" where
  "select_bootstrap_universe u sha256 p snapshot =
     rbind (market_rows u p snapshot []) (\<lambda>(rows, _).
     let probes = probe_pool p rows in
     if length probes < 5 then Inl (ValueError ''not enough recent candidates have complete evidence'')
     else
       let probe5 = sort (map row_symbol (take 5 probes));
           mature = filter (\<lambda>r. row_symbol r \<notin> set probe5) (mature_pool p rows) in
       if length mature < 55 then Inl (ValueError ''not enough mature candidates have complete evidence'')
       else Inr \<lparr>sel_core = sort (map row_symbol (take 50 mature)),
         sel_boundary = sort (map row_symbol (take 5 (drop 50 mature))), sel_probe = probe5, sel_inactive = [],
         sel_source_hashes = snapshot_hashes sha256 snapshot, mature_pool_count = length mature,
         probe_pool_count = length probes, sel_market_context = None, decision_frozen_reason = None\<rparr>)"

definition validate_bootstrap_universe ::
    "unicode \<Rightarrow> (string \<Rightarrow> string) \<Rightarrow> rolling_policy \<Rightarrow> discovery_snapshot \<Rightarrow> string list \<Rightarrow> string list \<Rightarrow> string list \<Rightarrow>
       py_error + selection_result" where
  "validate_bootstrap_universe u sha256 p snapshot cs bs ps =
     rbind (market_rows u p snapshot (sort (cs @ bs @ ps))) (\<lambda>(rows, inactive).
     let formal_probe_pool = probe_pool p rows;
         mature = filter (\<lambda>r. row_symbol r \<notin> set ps) (mature_pool p rows);
         missing_mature = set (cs @ bs) - set (map row_symbol mature);
         missing_probe = set ps - set (map row_symbol formal_probe_pool) in
     if missing_mature \<noteq> {} \<or> missing_probe \<noteq> {} then
       Inl (ValueError ''configured bootstrap members lack complete cross-sectional evidence'')
     else if length mature < 55 then Inl (ValueError ''not enough mature candidates have complete evidence'')
     else if length formal_probe_pool < 5 then Inl (ValueError ''not enough recent candidates have complete evidence'')
     else Inr \<lparr>sel_core = cs, sel_boundary = bs, sel_probe = ps, sel_inactive = inactive,
       sel_source_hashes = snapshot_hashes sha256 snapshot, mature_pool_count = length mature,
       probe_pool_count = length formal_probe_pool, sel_market_context = None, decision_frozen_reason = None\<rparr>)"

definition liquidity_validation_symbols ::
    "unicode \<Rightarrow> rolling_policy \<Rightarrow> evidence_file \<Rightarrow> evidence_file \<Rightarrow> string list \<Rightarrow> py_error + string list" where
  "liquidity_validation_symbols u p exchange klines_file tracked =
     rbind (symbol_info exchange) (\<lambda>info.
     let eligible = filter (\<lambda>(s, raw). eligibility_reason u raw s = None) info in
     rbind (read_daily_klines klines_file) (\<lambda>(klines, cutoff_ms).
     rbind (historical_rows p cutoff_ms eligible klines) (\<lambda>histories.
     let mature = take (depth_mature_candidate_count p) (rank_historical_rows (filter (is_mature p) histories));
         probes = take (depth_probe_candidate_count p) (sort_key
           (\<lambda>h. (core_minimum_age_days p \<le> age_days h, - onboard_time_ms h, hr_symbol h)) (filter (is_probe p) histories)) in
     Inr (sort (remdups (tracked @ map hr_symbol (mature @ probes)))))))"

section \<open>Rolling selection\<close>

definition rank_table :: "string list \<Rightarrow> (string, nat) dict" where
  "rank_table symbols = fold (\<lambda>(i, s). dict_set s i) (zip [1..<Suc (length symbols)] symbols) []"

definition rank_or_last :: "(string, nat) dict \<Rightarrow> string \<Rightarrow> nat" where
  "rank_or_last table s = (case dict_get table s of Some n \<Rightarrow> n | None \<Rightarrow> 10 ^ 9)"

definition weekday :: "py_datetime \<Rightarrow> int" where
  "weekday t = (dt_date t + 3) mod 7"

definition incomplete_member ::
    "rolling_policy \<Rightarrow> universe_decision \<Rightarrow> (string, market_row) dict \<Rightarrow> string \<Rightarrow> bool" where
  "incomplete_member p active rows_by_symbol s =
     (case dict_get rows_by_symbol s of
        None \<Rightarrow> True
      | Some row \<Rightarrow>
          \<not> complete_market_evidence p row \<or>
          (s \<in> set (core active @ boundary active) \<and>
            (age_days (history row) < core_minimum_age_days p \<or>
             length (volumes (history row)) \<noteq> liquidity_window_days p)) \<or>
          (s \<in> set (probe active) \<and>
            (expected_probe_days (history row) < probe_minimum_complete_days p \<or>
             observed_probe_days (history row) \<noteq> expected_probe_days (history row))))"

text \<open>The loop that replaces inactive core members; it walks the core it changes.\<close>

definition replace_inactive_at :: "string list \<Rightarrow> string set \<Rightarrow> string list \<Rightarrow> nat \<Rightarrow> py_error + string list" where
  "replace_inactive_at pool inactive cs i =
     (if cs ! i \<notin> inactive then Inr cs
      else case take_first pool (set cs) of
          None \<Rightarrow> Inl (ValueError ''not enough mature instruments to replace inactive core'')
        | Some replacement \<Rightarrow> Inr (cs[first_index (\<lambda>s. s = cs ! i) cs := replacement]))"

definition replace_inactive_core :: "string list \<Rightarrow> string set \<Rightarrow> string list \<Rightarrow> py_error + string list" where
  "replace_inactive_core pool inactive cs = fold_result (replace_inactive_at pool inactive) cs [0..<length cs]"

text \<open>The Monday promotions; \<open>rank\<close> is the mature rank and \<open>dwelled\<close> the test of the core dwell time.\<close>

fun promote ::
    "(string \<Rightarrow> nat) \<Rightarrow> nat \<Rightarrow> (string \<Rightarrow> bool) \<Rightarrow> nat \<Rightarrow> string list \<Rightarrow> nat \<Rightarrow> string list \<Rightarrow> string list" where
  "promote rank retain dwelled limit [] changes cs = cs"
| "promote rank retain dwelled limit (challenger # promotable) changes cs =
     (if limit \<le> changes then cs
      else case first_max rank (filter (\<lambda>s. retain < rank s \<and> dwelled s) cs) of
          None \<Rightarrow> cs
        | Some incumbent \<Rightarrow>
            if rank incumbent \<le> rank challenger then cs
            else promote rank retain dwelled limit promotable (changes + 1)
              (cs[first_index (\<lambda>s. s = incumbent) cs := challenger]))"

definition joined_texts :: "string list \<Rightarrow> string" where
  "joined_texts xs = concat (case xs of [] \<Rightarrow> [] | x # ys \<Rightarrow> x # map (\<lambda>y. CHR '','' # y) ys)"

text \<open>The core after both loops.\<close>

definition next_core ::
    "rolling_policy \<Rightarrow> universe_decision \<Rightarrow> string list \<Rightarrow> string set \<Rightarrow> joined \<Rightarrow> py_datetime \<Rightarrow> bool \<Rightarrow> py_error + string list" where
  "next_core p active mature_symbols inactive core_since effective allow =
     (let rank = rank_or_last (rank_table mature_symbols);
          pool = filter (\<lambda>s. s \<notin> set (core active)) mature_symbols in
      rbind (replace_inactive_core pool inactive (core active)) (\<lambda>core1.
      Inr (if allow \<and> weekday effective = 0 then
        promote rank (core_retain_rank p)
          (\<lambda>s. dwell_complete (joined_at core_since (effective_at active) s) effective (core_minimum_dwell_days p * us_per_day))
          (core_weekly_replacements p)
          (filter (\<lambda>s. s \<notin> set core1 \<and> rank s \<le> core_entry_rank p) pool)
          (card (set (core active) - set core1)) core1
        else core1)))"

definition candidate_dwell :: "rolling_policy \<Rightarrow> int" where
  "candidate_dwell p = candidate_minimum_dwell_hours p * us_per_hour"

text \<open>The preferred boundary: protected members by rank, then all by rank.\<close>

definition boundary_preferred ::
    "rolling_policy \<Rightarrow> universe_decision \<Rightarrow> string list \<Rightarrow> string set \<Rightarrow> string set \<Rightarrow> string list" where
  "boundary_preferred p active boundary_ranked inactive taken =
     (let rank = rank_or_last (rank_table boundary_ranked) in
      sort_key rank (filter (\<lambda>s. s \<notin> inactive \<and> s \<notin> taken \<and> rank s \<le> boundary_retain_rank p) (boundary active))
        @ boundary_ranked)"

definition select_rolling_universe ::
    "unicode \<Rightarrow> (string \<Rightarrow> string) \<Rightarrow> rolling_policy \<Rightarrow> universe_decision \<Rightarrow> discovery_snapshot \<Rightarrow> py_datetime \<Rightarrow>
       joined \<Rightarrow> joined \<Rightarrow> py_error + selection_result" where
  "select_rolling_universe u sha256 p active snapshot effective member_since core_since =
     rbind (market_rows u p snapshot (members active)) (\<lambda>(rows, inactive).
     let mature = map row_symbol (mature_pool p rows); probes = map row_symbol (probe_pool p rows);
         context = market_context_of p rows; hashes = snapshot_hashes sha256 snapshot;
         rows_by_symbol = fold (\<lambda>r. dict_set (row_symbol r) r) rows [];
         incomplete_active = sort (filter (\<lambda>s. s \<notin> set inactive \<and> incomplete_member p active rows_by_symbol s) (members active));
         preserve = (\<lambda>probe_count why. Inr (preserve_active active hashes inactive (length mature) probe_count context why)) in
     if incomplete_active \<noteq> [] then
       preserve (length probes) (Some (''active_member_evidence_incomplete:'' @ joined_texts incomplete_active))
     else if length mature < 55 \<or> length probes < 5 then preserve (length probes) (Some ''cross_sectional_reserve_incomplete'')
     else
       let freeze_reason =
             (if panel_count context < market_context_minimum_instruments p then Some ''market_context_panel_incomplete''
              else if mc_state context = SHOCK_PENDING then Some ''market_activity_shock_pending'' else None);
           allow = (freeze_reason = None) in
       if \<not> allow \<and> inactive = [] then preserve (length probes) freeze_reason
       else
         rbind (next_core p active mature (set inactive) core_since effective allow) (\<lambda>core'.
         let probe_preferred = filter (\<lambda>s. s \<notin> set core') probes in
         if length probe_preferred < 5 then preserve (length probe_preferred) (Some ''probe_reserve_incomplete'')
         else
           rbind (reconcile_bucket (probe active) probe_preferred (set core') (set inactive) member_since effective
               (candidate_dwell p) (if allow then 1 else 0)) (\<lambda>probe'.
           let boundary_ranked = filter (\<lambda>s. s \<notin> set core' \<and> s \<notin> set probe') mature in
           if length boundary_ranked < 5 then preserve (length probe_preferred) (Some ''boundary_reserve_incomplete'')
           else
             rbind (reconcile_bucket (boundary active)
                 (boundary_preferred p active boundary_ranked (set inactive) (set core' \<union> set probe'))
                 (set core' \<union> set probe') (set inactive) member_since effective (candidate_dwell p)
                 (if allow then max 1 (candidate_daily_replacements p - 1) else 0)) (\<lambda>boundary'.
             Inr \<lparr>sel_core = sort core', sel_boundary = sort boundary', sel_probe = sort probe',
               sel_inactive = sort inactive, sel_source_hashes = hashes, mature_pool_count = length mature,
               probe_pool_count = length probe_preferred, sel_market_context = Some context,
               decision_frozen_reason = freeze_reason\<rparr>))))"

section \<open>Symbols of the rows\<close>

lemma symbol_info_ok: "symbol_info raw = Inr info \<Longrightarrow> dict_ok info"
proof -
  assume "symbol_info raw = Inr info"
  then obtain v where v: "(case v of
       JObj obj \<Rightarrow> (case jget obj ''symbols'' of
           JList values \<Rightarrow> fold_result add_symbol_info [] values
         | _ \<Rightarrow> Inl (ValueError ''exchangeInfo must contain a symbols array''))
     | _ \<Rightarrow> Inl (ValueError ''exchangeInfo must contain a symbols array'')) = Inr info"
    unfolding symbol_info_def rbind_Inr_iff by blast
  then obtain obj where "v = JObj obj" by (cases v) simp_all
  with v obtain vs where "fold_result add_symbol_info [] vs = Inr info" by (cases "jget obj ''symbols''") simp_all
  then show "dict_ok info"
  proof (rule fold_result_invariant)
    fix d d' :: "(string, (string \<times> json) list) dict" and v
    show "dict_ok d \<Longrightarrow> add_symbol_info d v = Inr d' \<Longrightarrow> dict_ok d'"
      by (auto simp: add_symbol_info_def split: json.split_asm if_splits)
  qed simp
qed

lemma eligible_symbols_keys:
  "dict_ok info \<Longrightarrow> dict_ok (eligible_symbols u info confirmed) \<and>
     fst ` set (eligible_symbols u info confirmed) \<subseteq> fst ` set info"
proof (induction info)
  case (Cons sr info)
  obtain s raw where sr: "sr = (s, raw)" by (cases sr)
  have step: "eligible_symbols u (sr # info) confirmed = eligible_symbols u info confirmed \<or>
      (\<exists>c. eligible_symbols u (sr # info) confirmed = (s, c) # eligible_symbols u info confirmed)"
    by (auto simp: eligible_symbols_def sr split: option.split)
  have info: "dict_ok info" "s \<notin> fst ` set info" using Cons.prems by (simp_all add: dict_ok_def sr)
  note IH = Cons.IH [OF info(1)]
  have new: "s \<notin> fst ` set (eligible_symbols u info confirmed)" using IH info(2) by blast
  have "fst ` set (eligible_symbols u info confirmed) \<subseteq> insert s (fst ` set info)" using IH by blast
  then show ?case using step IH new unfolding dict_ok_def by (elim disjE exE) (simp_all add: sr)
qed (simp add: eligible_symbols_def)

lemma historical_row_symbol:
  "historical_row_of p cutoff s raw klines = Inr (Some row) \<Longrightarrow> hr_symbol row = s"
  by (auto simp: historical_row_of_def Let_def rbind_Inr_iff split: if_splits)

lemma historical_rows_symbols:
  assumes "historical_rows p cutoff eligible klines = Inr rows" "dict_ok eligible"
  shows "distinct (map hr_symbol rows) \<and> set (map hr_symbol rows) \<subseteq> fst ` set eligible"
  using assms
proof (induction eligible arbitrary: rows)
  case Nil
  then show ?case by (simp add: historical_rows_def)
next
  case (Cons sr eligible)
  obtain s raw where sr: "sr = (s, raw)" by (cases sr)
  from Cons.prems(1) obtain r rest where
    r: "historical_row_of p cutoff s raw (case dict_get klines s of Some bars \<Rightarrow> bars | None \<Rightarrow> []) = Inr r"
    and rest: "historical_rows p cutoff eligible klines = Inr rest"
    and rows: "rows = (case r of None \<Rightarrow> [] | Some row \<Rightarrow> [row]) @ rest"
    by (auto simp: historical_rows_def sr rbind_Inr_iff)
  have IH: "distinct (map hr_symbol rest)" "set (map hr_symbol rest) \<subseteq> fst ` set eligible"
    using Cons.IH [OF rest] Cons.prems(2) by (auto simp: dict_ok_def)
  have "s \<notin> fst ` set eligible" using Cons.prems(2) sr by (simp add: dict_ok_def)
  then show ?case
    using IH r historical_row_symbol rows sr by (cases r) auto
qed

lemma market_rows_symbols:
  assumes "market_rows u p snapshot tracked = Inr (rows, inactive)"
  shows "distinct (map row_symbol rows) \<and> set (map row_symbol rows) \<inter> set inactive = {} \<and> set inactive \<subseteq> set tracked"
proof -
  obtain info confirmed klines cutoff hs depth where
    i: "symbol_info (exchange_info snapshot) = Inr info"
    and h: "historical_rows p cutoff (eligible_symbols u info confirmed) klines = Inr hs"
    and rows: "rows = map (market_row_of depth) hs"
    and inactive: "inactive = sort (filter (\<lambda>s. s \<notin> set (dict_keys (eligible_symbols u info confirmed))) tracked)"
    using assms unfolding market_rows_def Let_def rbind_Inr_iff by (clarsimp simp: rbind_Inr_iff) blast
  have "map row_symbol rows = map hr_symbol hs" by (simp add: rows market_row_of_def Let_def comp_def)
  then show ?thesis
    using historical_rows_symbols [OF h] eligible_symbols_keys [OF symbol_info_ok [OF i], of u confirmed] inactive
    by (auto simp: dict_keys_def)
qed

lemma mset_rank_market_rows: "mset (rank_market_rows rows) = mset rows"
  by (simp add: rank_market_rows_def rank_cross_section_def Let_def)

lemma mature_pool_symbols:
  assumes "distinct (map row_symbol rows)"
  shows "distinct (map row_symbol (mature_pool p rows)) \<and> set (mature_pool p rows) \<subseteq> set rows"
proof -
  have m: "mset (mature_pool p rows) = mset (filter (\<lambda>r. is_mature p (history r) \<and> complete_market_evidence p r) rows)"
    by (simp add: mature_pool_def mset_rank_market_rows)
  then have "mset (map row_symbol (mature_pool p rows)) =
      mset (map row_symbol (filter (\<lambda>r. is_mature p (history r) \<and> complete_market_evidence p r) rows))"
    unfolding mset_map by simp
  from mset_eq_imp_distinct_iff [OF this] have "distinct (map row_symbol (mature_pool p rows))"
    using distinct_map_filter [OF assms] by blast
  then show ?thesis using mset_eq_setD [OF m] by auto
qed

lemma probe_pool_symbols: "set (probe_pool p rows) \<subseteq> set rows"
proof -
  have "set (rank_market_rows xs) = set xs" for xs using mset_eq_setD [OF mset_rank_market_rows] .
  then show ?thesis by (auto simp: probe_pool_def Let_def)
qed

lemma probe_pool_distinct:
  assumes "distinct (map row_symbol rows)"
  shows "distinct (map row_symbol (probe_pool p rows))"
proof -
  let ?e = "filter (\<lambda>r. is_probe p (history r) \<and> complete_market_evidence p r) rows"
  let ?recent = "filter (\<lambda>r. age_days (history r) < core_minimum_age_days p) ?e"
  let ?fallback = "filter (\<lambda>r. core_minimum_age_days p \<le> age_days (history r)) ?e"
  have "mset (probe_pool p rows) = mset (?recent @ ?fallback)"
    by (simp add: probe_pool_def Let_def mset_rank_market_rows)
  then have m: "mset (map row_symbol (probe_pool p rows)) = mset (map row_symbol (?recent @ ?fallback))"
    unfolding mset_map by simp
  have "distinct rows" "inj_on row_symbol (set rows)" using assms by (simp_all add: distinct_map)
  then have "distinct (map row_symbol (?recent @ ?fallback))" unfolding distinct_map by (auto simp: inj_on_def)
  then show ?thesis using mset_eq_imp_distinct_iff [OF m] by simp
qed

section \<open>The core\<close>

lemma take_first_Some: "take_first values forbidden = Some v \<Longrightarrow> v \<in> set values \<and> v \<notin> forbidden"
  by (auto simp: take_first_def find_Some_iff)

lemma first_index_of: "x \<in> set xs \<Longrightarrow> first_index (\<lambda>s. s = x) xs < length xs \<and> xs ! first_index (\<lambda>s. s = x) xs = x"
  using first_index_length_iff [of "\<lambda>s. s = x" xs] first_index_le [of "\<lambda>s. s = x" xs] first_index_nth [of "\<lambda>s. s = x" xs]
  by (metis le_neq_implies_less)

lemma fold_result_upt:
  assumes "fold_result f s [0..<n] = Inr t" "I 0 s" "\<And>i s s'. i < n \<Longrightarrow> I i s \<Longrightarrow> f s i = Inr s' \<Longrightarrow> I (Suc i) s'"
  shows "I n t"
  using assms
proof (induction n arbitrary: t)
  case (Suc n)
  then obtain s' where s': "fold_result f s [0..<n] = Inr s'" "f s' n = Inr t"
    by (auto simp: fold_result_append rbind_Inr_iff)
  have "I n s'" by (rule Suc.IH [OF s'(1) Suc.prems(2)]) (use Suc.prems(3) in auto)
  then show ?case using Suc.prems(3) s'(2) by blast
qed simp

text \<open>The core \<open>c\<close> after the loop has visited the positions below \<open>i\<close> of \<open>cs\<close>.\<close>

definition replaced_until :: "string list \<Rightarrow> string set \<Rightarrow> string list \<Rightarrow> nat \<Rightarrow> string list \<Rightarrow> bool" where
  "replaced_until pool inactive cs i c \<longleftrightarrow> length c = length cs \<and> distinct c \<and> (\<forall>j < length cs. i \<le> j \<longrightarrow> c ! j = cs ! j) \<and>
     (\<forall>j < i. j < length cs \<longrightarrow> (if cs ! j \<in> inactive then c ! j \<in> set pool else c ! j = cs ! j))"

lemma replaced_step:
  assumes i: "i < length cs" and c: "replaced_until pool inactive cs i c" and step: "replace_inactive_at pool inactive c i = Inr c'"
  shows "replaced_until pool inactive cs (Suc i) c'"
proof (cases "c ! i \<in> inactive")
  case False
  then have "c' = c" using step by (simp add: replace_inactive_at_def)
  moreover have "c ! i = cs ! i" using c i by (simp add: replaced_until_def)
  ultimately show ?thesis using c False by (auto simp: replaced_until_def less_Suc_eq)
next
  case True
  then obtain r where r: "take_first pool (set c) = Some r" "c' = c[first_index (\<lambda>s. s = c ! i) c := r]"
    using step by (auto simp: replace_inactive_at_def split: option.splits)
  have len: "length c = length cs" "distinct c" using c by (simp_all add: replaced_until_def)
  have "first_index (\<lambda>s. s = c ! i) c = i"
    using first_index_of [of "c ! i" c] i len nth_eq_iff_index_eq by (metis nth_mem)
  then have c': "c' = c[i := r]" using r(2) by simp
  have ci: "c ! i = cs ! i" using c i by (simp add: replaced_until_def)
  show ?thesis unfolding replaced_until_def
  proof (intro conjI allI impI)
    show "length c' = length cs" "distinct c'"
      using take_first_Some [OF r(1)] len by (simp_all add: c' distinct_list_update)
    show "c' ! j = cs ! j" if "j < length cs" "Suc i \<le> j" for j using that c by (simp add: c' replaced_until_def)
    show "if cs ! j \<in> inactive then c' ! j \<in> set pool else c' ! j = cs ! j" if "j < Suc i" "j < length cs" for j
    proof (cases "j = i")
      case True
      then show ?thesis using \<open>c ! i \<in> inactive\<close> take_first_Some [OF r(1)] ci len i by (simp add: c')
    next
      case False
      then show ?thesis using that c by (simp add: c' replaced_until_def less_Suc_eq)
    qed
  qed
qed

lemma replaced_start: "distinct cs \<Longrightarrow> replaced_until pool inactive cs 0 cs"
  by (simp add: replaced_until_def)

lemma replace_inactive_core_ok:
  assumes "replace_inactive_core pool inactive cs = Inr cs'" "distinct cs" "set pool \<inter> inactive = {}"
  shows "distinct cs' \<and> length cs' = length cs \<and> set cs' \<subseteq> set cs \<union> set pool \<and> set cs' \<inter> inactive = {} \<and>
    set cs - inactive \<subseteq> set cs'"
proof -
  have "replaced_until pool inactive cs (length cs) cs'"
    using fold_result_upt [where I = "replaced_until pool inactive cs",
        OF assms(1) [unfolded replace_inactive_core_def] replaced_start [OF assms(2)]] replaced_step by blast
  then have e: "length cs' = length cs" "distinct cs'"
    "\<And>j. j < length cs \<Longrightarrow> (if cs ! j \<in> inactive then cs' ! j \<in> set pool else cs' ! j = cs ! j)"
    by (simp_all add: replaced_until_def)
  show ?thesis
  proof (intro conjI subsetI equals0I)
    show "x \<in> set cs \<union> set pool" if "x \<in> set cs'" for x
      using that e(1,3) by (force simp: in_set_conv_nth split: if_splits)
    show False if "x \<in> set cs' \<inter> inactive" for x
      using that e(1,3) assms(3) by (force simp: in_set_conv_nth split: if_splits)
    show "x \<in> set cs'" if "x \<in> set cs - inactive" for x
      using that e(1,3) by (force simp: in_set_conv_nth split: if_splits)
  qed (use e in simp_all)
qed

text \<open>The pool never runs dry when it has a symbol for every inactive member.\<close>

lemma replacement_available:
  assumes c: "replaced_until pool inactive cs i c" "i < length cs" "cs ! i \<in> inactive"
    and pool: "set pool \<inter> set cs = {}" "length (filter (\<lambda>s. s \<in> inactive) cs) \<le> card (set pool)"
  shows "take_first pool (set c) \<noteq> None"
proof
  assume "take_first pool (set c) = None"
  then have "set pool \<subseteq> set c" by (auto simp: take_first_def find_None_iff)
  moreover have "set c \<inter> set pool \<subseteq> (\<lambda>j. c ! j) ` {j. j < i \<and> cs ! j \<in> inactive}"
  proof
    fix x assume x: "x \<in> set c \<inter> set pool"
    then obtain j where j: "j < length c" "c ! j = x" by (auto simp: in_set_conv_nth)
    have len: "length c = length cs" using c(1) by (simp add: replaced_until_def)
    have "c ! j \<noteq> cs ! j" using x j pool(1) nth_mem [of j cs] len by auto
    then have "j < i \<and> cs ! j \<in> inactive" using c(1) j len by (auto simp: replaced_until_def split: if_splits)
    then show "x \<in> (\<lambda>j. c ! j) ` {j. j < i \<and> cs ! j \<in> inactive}" using j by auto
  qed
  ultimately have "set pool \<subseteq> (\<lambda>j. c ! j) ` {j. j < i \<and> cs ! j \<in> inactive}" by blast
  then have "card (set pool) \<le> card ((\<lambda>j. c ! j) ` {j. j < i \<and> cs ! j \<in> inactive})" by (intro card_mono) auto
  also have "\<dots> \<le> card {j. j < i \<and> cs ! j \<in> inactive}" by (intro card_image_le) auto
  also have "\<dots> < card {j. j < length cs \<and> cs ! j \<in> inactive}"
    using c(2,3) by (intro psubset_card_mono) auto
  finally show False using pool(2) by (simp add: length_filter_conv_card)
qed

lemma replace_inactive_core_total:
  assumes "distinct cs" "set pool \<inter> set cs = {}" "length (filter (\<lambda>s. s \<in> inactive) cs) \<le> card (set pool)"
  shows "\<exists>cs'. replace_inactive_core pool inactive cs = Inr cs'"
proof -
  have "\<exists>c. fold_result (replace_inactive_at pool inactive) cs [0..<i] = Inr c \<and> replaced_until pool inactive cs i c"
    if "i \<le> length cs" for i
    using that
  proof (induction i)
    case (Suc i)
    then obtain c where c: "fold_result (replace_inactive_at pool inactive) cs [0..<i] = Inr c" "replaced_until pool inactive cs i c"
      by auto
    have "c ! i = cs ! i" using c(2) Suc.prems by (simp add: replaced_until_def)
    then have "\<exists>c'. replace_inactive_at pool inactive c i = Inr c'"
      using replacement_available [OF c(2) _ _ assms(2,3)] Suc.prems by (auto simp: replace_inactive_at_def)
    then show ?case using c replaced_step Suc.prems by (fastforce simp: fold_result_append)
  qed (use replaced_start [OF assms(1)] in simp)
  then show ?thesis unfolding replace_inactive_core_def by blast
qed

lemma swap_member:
  assumes "distinct cs" "x \<in> set cs" "y \<notin> set cs"
  shows "set (cs[first_index (\<lambda>s. s = x) cs := y]) = insert y (set cs - {x})"
    "distinct (cs[first_index (\<lambda>s. s = x) cs := y])"
  using first_index_of [OF assms(2)] assms
  by (simp_all add: set_update_distinct distinct_list_update)

lemma promote_ok:
  assumes "distinct cs" "distinct promotable" "set promotable \<inter> set cs = {}"
  shows "distinct (promote rank retain dwelled limit promotable changes cs) \<and>
    length (promote rank retain dwelled limit promotable changes cs) = length cs \<and>
    set (promote rank retain dwelled limit promotable changes cs) \<subseteq> set cs \<union> set promotable \<and>
    card (set cs - set (promote rank retain dwelled limit promotable changes cs)) \<le> limit - changes \<and>
    (\<forall>s \<in> set cs - set (promote rank retain dwelled limit promotable changes cs). retain < rank s \<and> dwelled s)"
  using assms
proof (induction rank retain dwelled limit promotable changes cs rule: promote.induct)
  case (2 rank retain dwelled limit challenger promotable changes cs)
  let ?r = "promote rank retain dwelled limit (challenger # promotable) changes cs"
  show ?case
  proof (cases "?r = cs")
    case True
    show ?thesis unfolding True using 2(2) by auto
  next
    case False
    then obtain x where x: "\<not> limit \<le> changes" "first_max rank (filter (\<lambda>s. retain < rank s \<and> dwelled s) cs) = Some x"
      "\<not> rank x \<le> rank challenger"
      by (auto split: if_splits option.splits)
    let ?c = "cs[first_index (\<lambda>s. s = x) cs := challenger]"
    have xc: "x \<in> set cs" "retain < rank x" "dwelled x" using first_max_Some [OF x(2)] by auto
    have ch: "challenger \<notin> set cs" using 2(4) by simp
    note sw = swap_member [OF 2(2) xc(1) ch]
    have "set promotable \<inter> set ?c = {}" unfolding sw(1) using 2(3,4) by auto
    note IH = 2(1) [OF x sw(2) _ this]
    have r: "?r = promote rank retain dwelled limit promotable (changes + 1) ?c" using x by simp
    have IH': "distinct ?r" "length ?r = length cs" "set ?r \<subseteq> set ?c \<union> set promotable"
      "card (set ?c - set ?r) \<le> limit - (changes + 1)" "\<forall>s \<in> set ?c - set ?r. retain < rank s \<and> dwelled s"
      unfolding r using IH 2(3) by simp_all
    have sub: "set cs - set ?r \<subseteq> insert x (set ?c - set ?r)" unfolding sw(1) by blast
    have "card (set cs - set ?r) \<le> card (insert x (set ?c - set ?r))" by (intro card_mono sub) simp
    also have "\<dots> \<le> Suc (card (set ?c - set ?r))" by (rule card_insert_le_m1) simp_all
    also have "\<dots> \<le> limit - changes" using IH'(4) x(1) by simp
    finally have "card (set cs - set ?r) \<le> limit - changes" .
    moreover have "\<forall>s \<in> set cs - set ?r. retain < rank s \<and> dwelled s" using sub IH'(5) xc(2,3) by blast
    moreover have "set ?r \<subseteq> set cs \<union> set (challenger # promotable)" using IH'(3) unfolding sw(1) by auto
    ultimately show ?thesis using IH'(1,2) by blast
  qed
qed simp

lemma next_core_ok:
  assumes "next_core p active mature inactive core_since effective allow = Inr cs" "distinct (core active)"
    and "distinct mature" "set mature \<inter> inactive = {}"
  shows "distinct cs \<and> length cs = length (core active) \<and> set cs \<subseteq> set (core active) \<union> set mature \<and> set cs \<inter> inactive = {} \<and>
    card (set (core active) - inactive - set cs) \<le> core_weekly_replacements p \<and>
    (\<forall>s \<in> set (core active) - inactive - set cs. allow \<and> weekday effective = 0 \<and>
       core_retain_rank p < rank_or_last (rank_table mature) s \<and>
       dwell_complete (joined_at core_since (effective_at active) s) effective (core_minimum_dwell_days p * us_per_day))"
proof -
  let ?pool = "filter (\<lambda>s. s \<notin> set (core active)) mature"
  let ?rank = "rank_or_last (rank_table mature)"
  let ?dwelled = "\<lambda>s. dwell_complete (joined_at core_since (effective_at active) s) effective (core_minimum_dwell_days p * us_per_day)"
  obtain c1 where c1: "replace_inactive_core ?pool inactive (core active) = Inr c1"
    and cs: "cs = (if allow \<and> weekday effective = 0 then promote ?rank (core_retain_rank p) ?dwelled (core_weekly_replacements p)
        (filter (\<lambda>s. s \<notin> set c1 \<and> ?rank s \<le> core_entry_rank p) ?pool) (card (set (core active) - set c1)) c1 else c1)"
    using assms(1) by (auto simp: next_core_def Let_def rbind_Inr_iff)
  have "set ?pool \<inter> inactive = {}" using assms(4) by auto
  note r = replace_inactive_core_ok [OF c1 assms(2) this]
  show ?thesis
  proof (cases "allow \<and> weekday effective = 0")
    case False
    then have "cs = c1" unfolding cs by (rule if_not_P)
    have none: "set (core active) - inactive - set cs = {}" unfolding \<open>cs = c1\<close> using r by blast
    have "set cs \<subseteq> set (core active) \<union> set mature" unfolding \<open>cs = c1\<close> using r by auto
    then show ?thesis unfolding none using r \<open>cs = c1\<close> by simp
  next
    case True
    let ?promotable = "filter (\<lambda>s. s \<notin> set c1 \<and> ?rank s \<le> core_entry_rank p) ?pool"
    have eq: "cs = promote ?rank (core_retain_rank p) ?dwelled (core_weekly_replacements p) ?promotable
        (card (set (core active) - set c1)) c1"
      using True by (simp add: cs)
    have P: "distinct cs \<and> length cs = length c1 \<and> set cs \<subseteq> set c1 \<union> set ?promotable \<and>
        card (set c1 - set cs) \<le> core_weekly_replacements p - card (set (core active) - set c1) \<and>
        (\<forall>s \<in> set c1 - set cs. core_retain_rank p < ?rank s \<and> ?dwelled s)"
      unfolding eq using r assms(3) by (intro promote_ok) auto
    have sub: "set (core active) - inactive - set cs \<subseteq> set c1 - set cs" using r by blast
    have "card (set (core active) - inactive - set cs) \<le> card (set c1 - set cs)" by (intro card_mono sub) simp
    then have "card (set (core active) - inactive - set cs) \<le> core_weekly_replacements p" using P by linarith
    moreover have "set cs \<subseteq> set (core active) \<union> set mature" using P r by auto
    moreover have "set cs \<inter> inactive = {}" using P r assms(4) by auto
    moreover have "\<forall>s \<in> set (core active) - inactive - set cs. allow \<and> weekday effective = 0 \<and> core_retain_rank p < ?rank s \<and> ?dwelled s"
      using sub P True by blast
    ultimately show ?thesis using P r by simp
  qed
qed

section \<open>The candidate roles\<close>

lemma set_first_occurrences [simp]: "set (first_occurrences xs) = set xs"
  by (simp add: first_occurrences_def)

lemma fill_role_ok:
  "distinct result \<Longrightarrow> distinct (fill_role preferred result) \<and> set result \<subseteq> set (fill_role preferred result) \<and>
     set (fill_role preferred result) \<subseteq> set result \<union> set preferred"
proof (induction preferred result rule: fill_role.induct)
  case (2 s preferred result)
  then show ?case by (cases "5 \<le> length result"; cases "s \<in> set result") auto
qed simp

lemma normal_replacements_ok:
  assumes "distinct result"
  shows "distinct (normal_replacements head5 dwelled limit preferred changes result) \<and>
    set (normal_replacements head5 dwelled limit preferred changes result) \<subseteq> set result \<union> set preferred \<and>
    card (set result - set (normal_replacements head5 dwelled limit preferred changes result)) \<le> limit - changes \<and>
    (\<forall>s \<in> set result - set (normal_replacements head5 dwelled limit preferred changes result). dwelled s)"
  using assms
proof (induction head5 dwelled limit preferred changes result rule: normal_replacements.induct)
  case (2 head5 dwelled limit s preferred changes result)
  define rem where "rem = filter (\<lambda>i. i \<notin> set head5 \<and> dwelled i) result"
  show ?case
  proof (cases "s \<in> set result \<or> limit \<le> changes \<or> rem = []")
    case True
    then have "normal_replacements head5 dwelled limit (s # preferred) changes result =
        normal_replacements head5 dwelled limit preferred changes result"
      by (auto simp: rem_def [symmetric])
    moreover have "distinct (normal_replacements head5 dwelled limit preferred changes result) \<and>
      set (normal_replacements head5 dwelled limit preferred changes result) \<subseteq> set result \<union> set preferred \<and>
      card (set result - set (normal_replacements head5 dwelled limit preferred changes result)) \<le> limit - changes \<and>
      (\<forall>s \<in> set result - set (normal_replacements head5 dwelled limit preferred changes result). dwelled s)"
      using True 2(1) [OF _ 2(4)] 2(2) [OF _ rem_def _ 2(4)] by blast
    ultimately show ?thesis by auto
  next
    case False
    then have c: "\<not> (s \<in> set result \<or> limit \<le> changes)" "rem \<noteq> []" by blast+
    let ?x = "last rem" and ?n = "remove1 (last rem) result @ [s]"
    let ?r = "normal_replacements head5 dwelled limit preferred (changes + 1) ?n"
    have "?x \<in> set rem" using c(2) by simp
    then have x: "?x \<in> set result" "dwelled ?x" by (simp_all add: rem_def)
    have n: "distinct ?n" "set ?n = insert s (set result - {?x})" using 2(4) c(1) by auto
    have eq: "normal_replacements head5 dwelled limit (s # preferred) changes result = ?r"
      using c by (simp add: rem_def [symmetric])
    note IH = 2(3) [OF c(1) rem_def c(2) n(1)]
    have sub: "set result - set ?r \<subseteq> insert ?x (set ?n - set ?r)" unfolding n(2) by blast
    have "card (set result - set ?r) \<le> card (insert ?x (set ?n - set ?r))" by (intro card_mono sub) simp
    also have "\<dots> \<le> Suc (card (set ?n - set ?r))" by (rule card_insert_le_m1) simp_all
    also have "\<dots> \<le> limit - changes"
    proof -
      have "card (set ?n - set ?r) \<le> limit - (changes + 1)" using IH by blast
      then show ?thesis using c(1) by linarith
    qed
    finally have "card (set result - set ?r) \<le> limit - changes" .
    moreover have "\<forall>i \<in> set result - set ?r. dwelled i" using sub IH x(2) by blast
    moreover have "set ?r \<subseteq> set result \<union> set (s # preferred)" using IH n(2) by auto
    ultimately show ?thesis unfolding eq using IH by blast
  qed
qed simp

lemma reconcile_bucket_ok:
  assumes "reconcile_bucket current preferred forbidden inactive since effective dwell limit = Inr r" "distinct current"
    and "set preferred \<inter> inactive = {}"
  shows "length r = 5 \<and> distinct r \<and> sorted r \<and> set r \<inter> forbidden = {} \<and> set r \<inter> inactive = {} \<and>
    card (set current - forbidden - inactive - set r) \<le> limit \<and>
    (\<forall>s \<in> set current - forbidden - inactive - set r. dwell_complete (joined_at since effective s) effective dwell)"
proof -
  define pref where "pref = first_occurrences (filter (\<lambda>s. s \<notin> forbidden) preferred)"
  define r0 where "r0 = filter (\<lambda>s. s \<notin> forbidden \<and> s \<notin> inactive) current"
  define r1 where "r1 = fill_role pref r0"
  define dwelled where "dwelled = (\<lambda>i. dwell_complete (joined_at since effective i) effective dwell)"
  define r2 where "r2 = normal_replacements (take 5 pref) dwelled limit pref 0 r1"
  have r: "length r2 = 5" "r = sort r2"
    using assms(1) by (auto simp: reconcile_bucket_def Let_def pref_def r0_def r1_def r2_def dwelled_def split: if_splits)
  have r1: "distinct r1 \<and> set r0 \<subseteq> set r1 \<and> set r1 \<subseteq> set r0 \<union> set pref"
    unfolding r1_def using assms(2) by (intro fill_role_ok) (simp add: r0_def)
  have r2: "distinct r2 \<and> set r2 \<subseteq> set r1 \<union> set pref \<and> card (set r1 - set r2) \<le> limit - 0 \<and> (\<forall>s \<in> set r1 - set r2. dwelled s)"
    unfolding r2_def using r1 by (intro normal_replacements_ok) blast
  have in_r2: "set r2 \<subseteq> set r0 \<union> set pref" using r1 r2 by blast
  have out: "set r0 \<inter> (forbidden \<union> inactive) = {}" "set pref \<inter> (forbidden \<union> inactive) = {}"
    using assms(3) by (auto simp: r0_def pref_def)
  have sub: "set current - forbidden - inactive - set r2 \<subseteq> set r1 - set r2" using r1 by (auto simp: r0_def)
  have "card (set current - forbidden - inactive - set r2) \<le> card (set r1 - set r2)" by (intro card_mono sub) simp
  then have "card (set current - forbidden - inactive - set r2) \<le> limit" using r2 by simp
  moreover have "\<forall>s \<in> set current - forbidden - inactive - set r2. dwelled s" using sub r2 by blast
  ultimately show ?thesis using r r2 in_r2 out by (auto simp: dwelled_def)
qed

section \<open>The selection does not fail\<close>

lemma next_core_total:
  assumes "length (core active) = 50" "distinct (core active)" "distinct mature" "set mature \<inter> inactive = {}" "55 \<le> length mature"
  shows "\<exists>cs. next_core p active mature inactive core_since effective allow = Inr cs"
proof -
  let ?pool = "filter (\<lambda>s. s \<notin> set (core active)) mature"
  have "set (core active) \<inter> set mature \<subseteq> set (filter (\<lambda>s. s \<notin> inactive) (core active))" using assms(4) by auto
  then have "card (set (core active) \<inter> set mature) \<le> length (filter (\<lambda>s. s \<notin> inactive) (core active))"
    by (metis card_length card_mono finite_set le_trans)
  moreover have "length (filter (\<lambda>s. s \<in> inactive) (core active)) + length (filter (\<lambda>s. s \<notin> inactive) (core active)) = 50"
    using assms(1) by (simp add: sum_length_filter_compl)
  moreover have "card (set mature) = card (set (core active) \<inter> set mature) + card (set ?pool)"
  proof -
    have eq: "set mature = (set (core active) \<inter> set mature) \<union> set ?pool" and dj: "(set (core active) \<inter> set mature) \<inter> set ?pool = {}"
      by auto
    show ?thesis by (subst eq) (intro card_Un_disjoint dj, simp_all)
  qed
  moreover have "card (set mature) = length mature" using assms(3) by (rule distinct_card)
  ultimately have "length (filter (\<lambda>s. s \<in> inactive) (core active)) \<le> card (set ?pool)" using assms(5) by linarith
  then obtain c1 where "replace_inactive_core ?pool inactive (core active) = Inr c1"
    using replace_inactive_core_total [OF assms(2), of ?pool inactive] by auto
  then show ?thesis by (simp add: next_core_def Let_def)
qed

lemma fill_role_length:
  assumes "distinct result" "length result \<le> 5" "5 \<le> card (set result \<union> set preferred)"
  shows "length (fill_role preferred result) = 5"
  using assms
proof (induction preferred result rule: fill_role.induct)
  case (1 result)
  then show ?case by (simp add: distinct_card)
next
  case (2 s preferred result)
  show ?case
  proof (cases "5 \<le> length result")
    case True
    then show ?thesis using 2(3) by simp
  next
    case False
    let ?n = "if s \<in> set result then result else result @ [s]"
    have "set ?n \<union> set preferred = set result \<union> set (s # preferred)" by auto
    then have "length (fill_role preferred ?n) = 5" using 2(2-4) False by (intro 2(1) [OF False]) auto
    then show ?thesis using False by simp
  qed
qed

lemma normal_replacements_length: "length (normal_replacements head5 dwelled limit preferred changes result) = length result"
proof (induction head5 dwelled limit preferred changes result rule: normal_replacements.induct)
  case (2 head5 dwelled limit s preferred changes result)
  define rem where "rem = filter (\<lambda>i. i \<notin> set head5 \<and> dwelled i) result"
  have "length (remove1 (last rem) result @ [s]) = length result" if "rem \<noteq> []"
  proof -
    have "last rem \<in> set result" using last_in_set [OF that] by (simp add: rem_def)
    moreover from this have "0 < length result" by (rule length_pos_if_in_set)
    ultimately show ?thesis by (simp add: length_remove1)
  qed
  then show ?case using 2 by (simp add: Let_def rem_def [symmetric])
qed simp

lemma reconcile_bucket_total:
  assumes "distinct current" "length current = 5" "5 \<le> card (set preferred - forbidden)"
  shows "\<exists>r. reconcile_bucket current preferred forbidden inactive since effective dwell limit = Inr r"
proof -
  define pref where "pref = first_occurrences (filter (\<lambda>s. s \<notin> forbidden) preferred)"
  define r0 where "r0 = filter (\<lambda>s. s \<notin> forbidden \<and> s \<notin> inactive) current"
  define r1 where "r1 = fill_role pref r0"
  define dwelled where "dwelled = (\<lambda>i. dwell_complete (joined_at since effective i) effective dwell)"
  define r2 where "r2 = normal_replacements (take 5 pref) dwelled limit pref 0 r1"
  have r0: "distinct r0" "length r0 \<le> 5" using assms(1,2) length_filter_le [of _ current] by (auto simp: r0_def)
  have "set pref = set preferred - forbidden" by (auto simp: pref_def)
  then have "5 \<le> card (set r0 \<union> set pref)" using assms(3) by (metis card_mono finite_UnI finite_set le_trans sup_ge2)
  then have "length r1 = 5" unfolding r1_def using r0 by (intro fill_role_length)
  then have r2: "length r2 = 5" by (simp add: r2_def normal_replacements_length)
  have r1: "distinct r1" "set r0 \<subseteq> set r1" using fill_role_ok [OF r0(1)] by (simp_all add: r1_def)
  have "card (set current - set r2) \<le> limit" if "length r0 = 5"
  proof -
    have "r0 = current" using that assms(2) unfolding r0_def by (metis filter_id_conv length_filter_less less_irrefl)
    then have "card (set current - set r2) \<le> card (set r1 - set r2)" using r1(2) by (intro card_mono) auto
    also have "\<dots> \<le> limit" using normal_replacements_ok [OF r1(1), of "take 5 pref" dwelled limit pref 0] by (simp add: r2_def)
    finally show ?thesis .
  qed
  then show ?thesis
    using r2 unfolding reconcile_bucket_def Let_def pref_def [symmetric] r0_def [symmetric] r1_def [symmetric]
      dwelled_def [symmetric] r2_def [symmetric]
    by auto
qed

section \<open>Properties\<close>

text \<open>What the rolling selection guarantees on its roles, relative to the active decision.\<close>

definition roles_partition :: "selection_result \<Rightarrow> bool" where
  "roles_partition r \<longleftrightarrow> length (sel_core r) = 50 \<and> length (sel_boundary r) = 5 \<and> length (sel_probe r) = 5 \<and>
     sorted (sel_core r) \<and> sorted (sel_boundary r) \<and> sorted (sel_probe r) \<and>
     distinct (sel_core r @ sel_boundary r @ sel_probe r)"

definition keeps_active :: "universe_decision \<Rightarrow> selection_result \<Rightarrow> bool" where
  "keeps_active active r \<longleftrightarrow> sel_core r = core active \<and> sel_boundary r = boundary active \<and> sel_probe r = probe active"

definition roles_of :: "selection_result \<Rightarrow> string set" where
  "roles_of r = set (sel_core r) \<union> set (sel_boundary r) \<union> set (sel_probe r)"

definition left_core :: "universe_decision \<Rightarrow> selection_result \<Rightarrow> string set" where
  "left_core active r = set (core active) - set (sel_inactive r) - set (sel_core r)"

definition left_probe :: "universe_decision \<Rightarrow> selection_result \<Rightarrow> string set" where
  "left_probe active r = set (probe active) - set (sel_core r) - set (sel_inactive r) - set (sel_probe r)"

definition left_boundary :: "universe_decision \<Rightarrow> selection_result \<Rightarrow> string set" where
  "left_boundary active r =
     set (boundary active) - (set (sel_core r) \<union> set (sel_probe r)) - set (sel_inactive r) - set (sel_boundary r)"

text \<open>The successful end of the selection, taken apart once for all properties.\<close>

lemma rolling_cases:
  assumes "select_rolling_universe u sha256 p active snapshot effective member_since core_since = Inr r"
  obtains (kept) "keeps_active active r"
  | (changed) rows inactive mature probes allow core' probe' boundary' where
    "market_rows u p snapshot (members active) = Inr (rows, inactive)"
    "mature = map row_symbol (mature_pool p rows)" "probes = map row_symbol (probe_pool p rows)"
    "allow \<longleftrightarrow> market_context_minimum_instruments p \<le> panel_count (market_context_of p rows) \<and>
       mc_state (market_context_of p rows) \<noteq> SHOCK_PENDING"
    "next_core p active mature (set inactive) core_since effective allow = Inr core'"
    "reconcile_bucket (probe active) (filter (\<lambda>s. s \<notin> set core') probes) (set core') (set inactive) member_since effective
       (candidate_dwell p) (if allow then 1 else 0) = Inr probe'"
    "reconcile_bucket (boundary active)
       (boundary_preferred p active (filter (\<lambda>s. s \<notin> set core' \<and> s \<notin> set probe') mature) (set inactive) (set core' \<union> set probe'))
       (set core' \<union> set probe') (set inactive) member_since effective (candidate_dwell p)
       (if allow then max 1 (candidate_daily_replacements p - 1) else 0) = Inr boundary'"
    "sel_core r = sort core'" "sel_boundary r = sort boundary'" "sel_probe r = sort probe'" "sel_inactive r = sort inactive"
proof -
  obtain rows inactive where rows: "market_rows u p snapshot (members active) = Inr (rows, inactive)"
    using assms by (auto simp: select_rolling_universe_def rbind_Inr_iff)
  show thesis
    using assms kept changed [OF rows refl refl]
    unfolding select_rolling_universe_def rows Let_def
    by (simp add: rbind_Inr_iff preserve_active_def keeps_active_def split: if_split_asm) auto
qed

text \<open>The roles of a changed universe, before they are sorted.\<close>

lemma changed_roles:
  assumes rows: "market_rows u p snapshot (members active) = Inr (rows, inactive)"
    and mature: "mature = map row_symbol (mature_pool p rows)" and probes: "probes = map row_symbol (probe_pool p rows)"
    and core': "next_core p active mature (set inactive) core_since effective allow = Inr core'"
    and probe': "reconcile_bucket (probe active) (filter (\<lambda>s. s \<notin> set core') probes) (set core') (set inactive)
      member_since effective (candidate_dwell p) limit1 = Inr probe'"
    and boundary': "reconcile_bucket (boundary active) (boundary_preferred p active
        (filter (\<lambda>s. s \<notin> set core' \<and> s \<notin> set probe') mature) (set inactive) (set core' \<union> set probe'))
      (set core' \<union> set probe') (set inactive) member_since effective (candidate_dwell p) limit2 = Inr boundary'"
    and active: "distinct (core active @ boundary active @ probe active)"
  shows "distinct (core' @ boundary' @ probe') \<and> length core' = length (core active) \<and> length boundary' = 5 \<and> length probe' = 5 \<and>
    (set core' \<union> set boundary' \<union> set probe') \<inter> set inactive = {}"
    "card (set (core active) - set inactive - set core') \<le> core_weekly_replacements p \<and>
      (\<forall>s \<in> set (core active) - set inactive - set core'. allow \<and> weekday effective = 0 \<and>
         core_retain_rank p < rank_or_last (rank_table mature) s \<and>
         dwell_complete (joined_at core_since (effective_at active) s) effective (core_minimum_dwell_days p * us_per_day))"
    "card (set (probe active) - set core' - set inactive - set probe') \<le> limit1 \<and>
      (\<forall>s \<in> set (probe active) - set core' - set inactive - set probe'.
         dwell_complete (joined_at member_since effective s) effective (candidate_dwell p))"
    "card (set (boundary active) - (set core' \<union> set probe') - set inactive - set boundary') \<le> limit2 \<and>
      (\<forall>s \<in> set (boundary active) - (set core' \<union> set probe') - set inactive - set boundary'.
         dwell_complete (joined_at member_since effective s) effective (candidate_dwell p))"
proof -
  note sym = market_rows_symbols [OF rows]
  note ms = mature_pool_symbols [OF conjunct1 [OF sym], of p]
  have m: "distinct mature" "set mature \<inter> set inactive = {}"
    using sym ms by (auto simp: mature)
  have pr: "set (filter (\<lambda>s. s \<notin> set core') probes) \<inter> set inactive = {}"
    using sym probe_pool_symbols [of p rows] by (auto simp: probes)
  have br: "set (boundary_preferred p active (filter (\<lambda>s. s \<notin> set core' \<and> s \<notin> set probe') mature)
      (set inactive) (set core' \<union> set probe')) \<inter> set inactive = {}"
    using m(2) by (auto simp: boundary_preferred_def Let_def)
  have d: "distinct (core active)" "distinct (probe active)" "distinct (boundary active)" using active by auto
  note C = next_core_ok [OF core' d(1) m]
  note P = reconcile_bucket_ok [OF probe' d(2) pr]
  note B = reconcile_bucket_ok [OF boundary' d(3) br]
  show "distinct (core' @ boundary' @ probe') \<and> length core' = length (core active) \<and> length boundary' = 5 \<and> length probe' = 5 \<and>
      (set core' \<union> set boundary' \<union> set probe') \<inter> set inactive = {}"
    using C P B by auto
  show "card (set (core active) - set inactive - set core') \<le> core_weekly_replacements p \<and>
      (\<forall>s \<in> set (core active) - set inactive - set core'. allow \<and> weekday effective = 0 \<and>
         core_retain_rank p < rank_or_last (rank_table mature) s \<and>
         dwell_complete (joined_at core_since (effective_at active) s) effective (core_minimum_dwell_days p * us_per_day))"
    using C by blast
  show "card (set (probe active) - set core' - set inactive - set probe') \<le> limit1 \<and>
      (\<forall>s \<in> set (probe active) - set core' - set inactive - set probe'.
         dwell_complete (joined_at member_since effective s) effective (candidate_dwell p))" using P by blast
  show "card (set (boundary active) - (set core' \<union> set probe') - set inactive - set boundary') \<le> limit2 \<and>
      (\<forall>s \<in> set (boundary active) - (set core' \<union> set probe') - set inactive - set boundary'.
         dwell_complete (joined_at member_since effective s) effective (candidate_dwell p))" using B by blast
qed

definition active_roles_ok :: "universe_decision \<Rightarrow> bool" where
  "active_roles_ok d \<longleftrightarrow> length (core d) = 50 \<and> length (boundary d) = 5 \<and> length (probe d) = 5 \<and>
     sorted (core d) \<and> sorted (boundary d) \<and> sorted (probe d) \<and> distinct (core d @ boundary d @ probe d)"

lemma rolling_roles:
  assumes "select_rolling_universe u sha256 p active snapshot effective member_since core_since = Inr r" "active_roles_ok active"
  shows "roles_partition r \<and> (keeps_active active r \<or> roles_of r \<inter> set (sel_inactive r) = {})"
  using assms(1)
proof (cases rule: rolling_cases)
  case kept
  then show ?thesis using assms(2) by (simp add: keeps_active_def roles_partition_def active_roles_ok_def)
next
  case (changed rows inactive mature probes allow core' probe' boundary')
  have "distinct (core active @ boundary active @ probe active)" using assms(2) by (simp add: active_roles_ok_def)
  note R = changed_roles(1) [OF changed(1,2,3,5,6,7) this]
  show ?thesis
    using R assms(2) changed(8-11) by (simp add: roles_partition_def active_roles_ok_def roles_of_def)
qed

lemma distinct_count:
  assumes "distinct xs"
  shows "card (set xs - S) = length (filter (\<lambda>x. x \<notin> S) xs)"
proof -
  have "set xs - S = set (filter (\<lambda>x. x \<notin> S) xs)" by auto
  then show ?thesis using distinct_card [OF distinct_filter [OF assms]] by metis
qed

lemma returns_if:
  "(c \<Longrightarrow> \<exists>r. x = Inr r) \<Longrightarrow> (\<not> c \<Longrightarrow> \<exists>r. y = Inr r) \<Longrightarrow> \<exists>r. (if c then x else y) = Inr r"
  by simp

lemma returns_rbind:
  "\<exists>v. x = Inr v \<Longrightarrow> (\<And>v. x = Inr v \<Longrightarrow> \<exists>r. f v = Inr r) \<Longrightarrow> \<exists>r. rbind x f = Inr r"
  by (auto simp: rbind_Inr_iff)

text \<open>C19. Once the evidence file parses, the rolling selection always returns a decision: its checks of the reserves
  (at least 55 mature symbols, 5 probe symbols, and 5 symbols left for the boundary) are strong enough that neither the replacement of the
  inactive core members nor the filling of the two candidate roles can run out of symbols.\<close>

theorem rolling_selection_total:
  assumes rows: "market_rows u p snapshot (members active) = Inr (rows, inactive)" and active: "active_roles_ok active"
  shows "\<exists>r. select_rolling_universe u sha256 p active snapshot effective member_since core_since = Inr r"
proof -
  note sym = market_rows_symbols [OF rows]
  let ?mature = "map row_symbol (mature_pool p rows)" and ?probes = "map row_symbol (probe_pool p rows)"
  have d: "distinct ?mature" "set ?mature \<inter> set inactive = {}" "distinct ?probes"
    using sym mature_pool_symbols [of rows p] probe_pool_distinct [of rows p] by auto
  have a: "length (core active) = 50" "distinct (core active)" "length (probe active) = 5" "distinct (probe active)"
    "length (boundary active) = 5" "distinct (boundary active)"
    using active by (simp_all add: active_roles_ok_def)
  have core: "\<exists>c. next_core p active ?mature (set inactive) core_since effective allow = Inr c"
    if "\<not> length ?mature < 55" for allow
    using next_core_total [OF a(1,2) d(1,2)] that by simp
  have probe: "\<exists>r. reconcile_bucket (probe active) (filter (\<lambda>s. s \<notin> set c) ?probes) (set c) (set inactive) since effective dwell limit = Inr r"
    if "\<not> length (filter (\<lambda>s. s \<notin> set c) ?probes) < 5" for c since dwell limit
  proof (rule reconcile_bucket_total [OF a(4,3)])
    show "5 \<le> card (set (filter (\<lambda>s. s \<notin> set c) ?probes) - set c)"
      using that d(3) by (subst distinct_count) (simp_all add: distinct_map_filter)
  qed
  have boundary: "\<exists>r. reconcile_bucket (boundary active) (boundary_preferred p active ranked (set inactive) (set c \<union> set pr))
      (set c \<union> set pr) (set inactive) since effective dwell limit = Inr r"
    if "ranked = filter (\<lambda>s. s \<notin> set c \<and> s \<notin> set pr) ?mature" "\<not> length ranked < 5" for ranked c pr since dwell limit
  proof (rule reconcile_bucket_total [OF a(6,5)])
    have "set ranked - (set c \<union> set pr) \<subseteq> set (boundary_preferred p active ranked (set inactive) (set c \<union> set pr)) - (set c \<union> set pr)"
      by (auto simp: boundary_preferred_def Let_def)
    then have "card (set ranked - (set c \<union> set pr)) \<le>
        card (set (boundary_preferred p active ranked (set inactive) (set c \<union> set pr)) - (set c \<union> set pr))"
      by (intro card_mono) auto
    moreover have "5 \<le> card (set ranked - (set c \<union> set pr))"
      using that d(1) by (subst distinct_count) (simp_all add: distinct_map_filter)
    ultimately show "5 \<le> card (set (boundary_preferred p active ranked (set inactive) (set c \<union> set pr)) - (set c \<union> set pr))"
      by linarith
  qed
  show ?thesis
    unfolding select_rolling_universe_def rows Let_def rbind_simps prod.case preserve_active_def
    by (intro returns_if returns_rbind core probe boundary) simp_all
qed

text \<open>C17. Whatever the evidence says, a rolling selection that returns yields a well-formed universe: 50, 5 and 5 sorted
  symbols in disjoint roles; and unless it keeps the active roles unchanged, no symbol that is inactive on the
  exchange stays in any role.\<close>

theorem rolling_selection_well_formed:
  assumes "select_rolling_universe u sha256 p active snapshot effective member_since core_since = Inr r" "active_roles_ok active"
  shows "roles_partition r \<and> (keeps_active active r \<or> roles_of r \<inter> set (sel_inactive r) = {})"
  by (rule rolling_roles [OF assms])

text \<open>C18. A rolling selection moves slowly: symbols leave the core without being inactive only on Mondays, at most
  \<open>core_weekly_replacements\<close> of them and only after their core dwell time; at most one symbol leaves the probe role and at most
  \<open>max 1 (candidate_daily_replacements - 1)\<close> leave the boundary role other than by inactivity or a move to another role, each
  after its dwell time; and while a market shock is pending or the panel is too small, only inactive members are replaced.\<close>

theorem rolling_changes_bounded:
  assumes "select_rolling_universe u sha256 p active snapshot effective member_since core_since = Inr r" "active_roles_ok active"
  shows "card (left_core active r) \<le> core_weekly_replacements p \<and> (left_core active r \<noteq> {} \<longrightarrow> weekday effective = 0) \<and>
    (\<forall>s \<in> left_core active r.
       dwell_complete (joined_at core_since (effective_at active) s) effective (core_minimum_dwell_days p * us_per_day)) \<and>
    card (left_probe active r) \<le> 1 \<and> card (left_boundary active r) \<le> max 1 (candidate_daily_replacements p - 1) \<and>
    (\<forall>s \<in> left_probe active r \<union> left_boundary active r.
       dwell_complete (joined_at member_since effective s) effective (candidate_dwell p)) \<and>
    (\<forall>rows inactive. market_rows u p snapshot (members active) = Inr (rows, inactive) \<and>
       (panel_count (market_context_of p rows) < market_context_minimum_instruments p \<or>
        mc_state (market_context_of p rows) = SHOCK_PENDING) \<longrightarrow>
       left_core active r = {} \<and> left_probe active r = {} \<and> left_boundary active r = {})"
  using assms(1)
proof (cases rule: rolling_cases)
  case kept
  then have "left_core active r = {}" "left_probe active r = {}" "left_boundary active r = {}"
    by (auto simp: keeps_active_def left_core_def left_probe_def left_boundary_def)
  then show ?thesis by simp
next
  case (changed rows inactive mature probes allow core' probe' boundary')
  have active: "distinct (core active @ boundary active @ probe active)" using assms(2) by (simp add: active_roles_ok_def)
  note R = changed_roles [OF changed(1,2,3,5,6,7) active]
  have left: "left_core active r = set (core active) - set inactive - set core'"
    "left_probe active r = set (probe active) - set core' - set inactive - set probe'"
    "left_boundary active r = set (boundary active) - (set core' \<union> set probe') - set inactive - set boundary'"
    by (simp_all add: left_core_def left_probe_def left_boundary_def changed(8-11))
  have frozen: "left_core active r = {} \<and> left_probe active r = {} \<and> left_boundary active r = {}" if "\<not> allow"
  proof -
    have "card (left_probe active r) = 0" "card (left_boundary active r) = 0" "left_core active r = {}"
      using R(2-4) that unfolding left by auto
    then show ?thesis by (simp add: left)
  qed
  have "card (left_probe active r) \<le> 1"
    unfolding left by (rule order_trans [OF conjunct1 [OF R(3)]]) simp
  moreover have "card (left_boundary active r) \<le> max 1 (candidate_daily_replacements p - 1)"
    unfolding left by (rule order_trans [OF conjunct1 [OF R(4)]]) simp
  moreover have "\<forall>rows' inactive'. market_rows u p snapshot (members active) = Inr (rows', inactive') \<and>
      (panel_count (market_context_of p rows') < market_context_minimum_instruments p \<or>
       mc_state (market_context_of p rows') = SHOCK_PENDING) \<longrightarrow> \<not> allow"
    using changed(1,4) by auto
  ultimately show ?thesis using R(2-4) frozen unfolding left by blast
qed

definition empty_snapshot :: discovery_snapshot where
  "empty_snapshot = \<lparr>observed_at = ex_time 20001, exchange_info = ('''', Some (JObj [(''symbols'', JList [])])),
     exchange_info_confirmation = ('''', Some (JObj [(''symbols'', JList [])])), market_tickers = ('''', None),
     daily_klines = ('''', Some (JObj [(''symbols'', JObj []), (''window_end_exclusive_ms'', JInt 86400000)])),
     liquidity_depth = ('''', Some (JObj [(''symbols'', JObj []), (''book_tickers'', JList [])]))\<rparr>"

lemma empty_rows: "market_rows u p empty_snapshot tracked = Inr ([], sort tracked)"
  by (simp add: market_rows_def symbol_info_def loads_def empty_snapshot_def jget_def read_daily_klines_def positive_int_def
      py_str_def DAY_MS_def historical_rows_def depth_metrics_def eligible_symbols_def dict_keys_def Let_def)

lemma empty_selection:
  "\<exists>r. select_rolling_universe u sha256 p ex_decision empty_snapshot (ex_time 20002) [] [] = Inr r"
  by (simp add: select_rolling_universe_def empty_rows Let_def mature_pool_def rank_market_rows_def rank_cross_section_def)

lemma ex_decision_roles: "active_roles_ok ex_decision"
  by code_simp

theorem rolling_selection_total_witness:
  "market_rows ascii default_policy empty_snapshot (members ex_decision) = Inr ([], sort (members ex_decision)) \<and>
     (\<exists>r. select_rolling_universe ascii id default_policy ex_decision empty_snapshot (ex_time 20002) [] [] = Inr r)"
  using rolling_selection_total [OF empty_rows ex_decision_roles] empty_rows by blast

theorem rolling_selection_well_formed_witness:
  "\<exists>r. select_rolling_universe ascii id default_policy ex_decision empty_snapshot (ex_time 20002) [] [] = Inr r \<and>
     roles_partition r"
  using rolling_selection_well_formed [OF _ ex_decision_roles]
    empty_selection [of ascii id default_policy] by blast

theorem rolling_changes_bounded_witness:
  "\<exists>r. select_rolling_universe ascii id default_policy ex_decision empty_snapshot (ex_time 20002) [] [] = Inr r \<and>
     card (left_probe ex_decision r) \<le> 1"
  using rolling_changes_bounded [OF _ ex_decision_roles]
    empty_selection [of ascii id default_policy] by blast

end
