(* ===== verification/Config.thy ===== *)
theory Config
  imports Evidence
begin

text \<open>
  \<open>src/miry/collector/config.py\<close>: the checked configuration. The field constraints of pydantic are written
  out; floats are their exact values. Reading the YAML file is left out.
\<close>

section \<open>Universe policy\<close>

record universe_policy_config =
  experiment_id :: string
  bootstrap_evidence_sha256 :: string
  cfg_core_generation :: int
  cfg_candidate_revision :: int
  cfg_decision_sequence :: int
  cfg_core :: "string list"
  cfg_boundary :: "string list"
  cfg_probe :: "string list"
  discovery_hour_utc :: int
  discovery_minute_utc :: int
  decision_cutoff_minute_utc :: int
  automation_enabled :: bool
  liquidity_request_interval_seconds :: rat
  cfg_rolling :: rolling_policy

text \<open>\<open>validate_role\<close>: the values in upper case, sorted; the number of values is a field constraint.\<close>

definition configured_role :: "unicode \<Rightarrow> nat \<Rightarrow> string list \<Rightarrow> py_error + string list" where
  "configured_role u n values =
     (if length values \<noteq> n then Inl (ValueError ''universe role has the wrong size'')
      else let normalized = sort (map (u_upper u) values) in
      if list_ex (\<lambda>v. \<not> is_exchange_symbol u v) normalized then
        Inl (ValueError ''universe role contains an invalid symbol'')
      else if card (set normalized) \<noteq> length normalized then Inl (ValueError ''universe role contains duplicates'')
      else Inr normalized)"

text \<open>The bounds of the fields that \<open>rolling_policy()\<close> hands on.\<close>

definition rolling_bounds :: "rolling_policy \<Rightarrow> bool" where
  "rolling_bounds p \<longleftrightarrow>
     14 \<le> liquidity_window_days p \<and> liquidity_window_days p \<le> 30 \<and>
     1 \<le> probe_minimum_complete_days p \<and> probe_minimum_complete_days p \<le> 14 \<and>
     14 \<le> market_context_baseline_days p \<and> market_context_baseline_days p \<le> 60 \<and>
     1 < market_context_change_ratio p \<and>
     1 / 2 < market_context_breadth_ratio p \<and> market_context_breadth_ratio p \<le> 1 \<and>
     60 \<le> market_context_minimum_instruments p \<and>
     3 \<le> liquidity_depth_samples p \<and> liquidity_depth_samples p \<le> 5 \<and>
     21 \<le> liquidity_book_ticker_samples p \<and> liquidity_book_ticker_samples p \<le> 30 \<and>
     60 \<le> depth_mature_candidate_count p \<and> depth_mature_candidate_count p \<le> 200 \<and>
     10 \<le> depth_probe_candidate_count p \<and> depth_probe_candidate_count p \<le> 100 \<and>
     1 \<le> candidate_minimum_dwell_hours p \<and> 1 \<le> core_minimum_dwell_days p \<and>
     1 \<le> candidate_daily_replacements p \<and> candidate_daily_replacements p \<le> 2 \<and>
     1 \<le> core_weekly_replacements p \<and> core_weekly_replacements p \<le> 5 \<and>
     1 \<le> core_minimum_age_days p \<and>
     1 \<le> core_entry_rank p \<and> core_entry_rank p \<le> 50 \<and> 50 \<le> core_retain_rank p \<and>
     5 \<le> boundary_retain_rank p \<and> 55 \<le> mature_pool_warning_size p"

definition universe_bounds :: "universe_policy_config \<Rightarrow> bool" where
  "universe_bounds c \<longleftrightarrow>
     8 \<le> code_points (experiment_id c) \<and> code_points (experiment_id c) \<le> 160 \<and>
     1 \<le> cfg_core_generation c \<and> 0 \<le> cfg_candidate_revision c \<and> 1 \<le> cfg_decision_sequence c \<and>
     0 \<le> discovery_hour_utc c \<and> discovery_hour_utc c \<le> 23 \<and>
     0 \<le> discovery_minute_utc c \<and> discovery_minute_utc c \<le> 59 \<and>
     0 \<le> decision_cutoff_minute_utc c \<and> decision_cutoff_minute_utc c \<le> 59 \<and>
     1 / 10 \<le> liquidity_request_interval_seconds c \<and> liquidity_request_interval_seconds c \<le> 2 \<and>
     rolling_bounds (cfg_rolling c)"

definition validate_universe_roles :: "universe_policy_config \<Rightarrow> py_error + universe_policy_config" where
  "validate_universe_roles c =
     (if card (set (cfg_core c @ cfg_boundary c @ cfg_probe c)) \<noteq> 60 then
        Inl (ValueError ''universe roles must contain 60 distinct symbols'')
      else if decision_cutoff_minute_utc c \<le> discovery_minute_utc c then
        Inl (ValueError ''decision cutoff must follow discovery in the same UTC hour'')
      else if liquidity_window_days (cfg_rolling c) < probe_minimum_complete_days (cfg_rolling c) then
        Inl (ValueError ''probe history cannot exceed the liquidity window'')
      else Inr c)"

definition validate_universe_policy :: "unicode \<Rightarrow> universe_policy_config \<Rightarrow> py_error + universe_policy_config" where
  "validate_universe_policy u c =
     (if \<not> universe_bounds c then Inl (ValueError ''a field is out of its bounds'')
      else
        rbind (configured_role u 50 (cfg_core c)) (\<lambda>cs.
        rbind (configured_role u 5 (cfg_boundary c)) (\<lambda>bs.
        rbind (configured_role u 5 (cfg_probe c)) (\<lambda>ps.
        if \<not> hash_pattern (bootstrap_evidence_sha256 c) then
          Inl (ValueError ''bootstrap evidence must be a lowercase SHA-256'')
        else validate_universe_roles (c\<lparr>cfg_core := cs, cfg_boundary := bs, cfg_probe := ps\<rparr>)))))"

definition cfg_members :: "universe_policy_config \<Rightarrow> string list" where
  "cfg_members c = sort (cfg_core c @ cfg_boundary c @ cfg_probe c)"

definition rolling_policy_of :: "universe_policy_config \<Rightarrow> rolling_policy" where
  "rolling_policy_of c = cfg_rolling c"

section \<open>Collector configuration\<close>

record collector_config =
  cc_collector_id :: string
  universe_policy :: universe_policy_config
  public_connection_shards :: int
  message_rates :: "(string, int) dict"
  connection_rotation_seconds :: int
  connection_overlap_seconds :: int
  websocket_receive_timeout_seconds :: rat
  websocket_ping_interval_seconds :: rat
  websocket_ping_timeout_seconds :: rat
  subscription_audit_seconds :: rat
  subscription_audit_timeout_seconds :: rat
  subscription_audit_failures_before_reconnect :: int
  refresh_failures_before_reconnect :: int
  websocket_max_queue :: int
  websocket_max_message_bytes :: int
  public_stream_liveness_seconds :: rat
  mark_price_liveness_seconds :: rat
  day_seal_grace_seconds :: rat
  lease_heartbeat_seconds :: rat
  open_interest_interval_seconds :: int
  open_interest_startup_spread_seconds :: rat
  clock_sample_interval_seconds :: int
  snapshot_request_interval_seconds :: rat
  snapshot_request_concurrency :: int
  queue_max_bytes :: int
  queue_warn_ratio :: rat
  queue_resume_ratio :: rat
  chunk_max_seconds :: int
  chunk_max_bytes :: int
  chunk_max_events :: int
  writer_batch_events :: int
  writer_batch_bytes :: int
  spool_max_bytes :: int
  minimum_free_bytes :: int
  storage_check_seconds :: int
  d0_enabled :: bool

definition collector_bounds :: "collector_config \<Rightarrow> bool" where
  "collector_bounds c \<longleftrightarrow>
     1 \<le> length (cc_collector_id c) \<and> length (cc_collector_id c) \<le> 100 \<and> list_all is_id_char (cc_collector_id c) \<and>
     1 \<le> public_connection_shards c \<and> public_connection_shards c \<le> 8 \<and>
     3600 \<le> connection_rotation_seconds c \<and> connection_rotation_seconds c \<le> 86000 \<and>
     1 \<le> connection_overlap_seconds c \<and> connection_overlap_seconds c \<le> 120 \<and>
     5 \<le> websocket_receive_timeout_seconds c \<and> websocket_receive_timeout_seconds c \<le> 300 \<and>
     5 \<le> websocket_ping_interval_seconds c \<and> websocket_ping_interval_seconds c \<le> 60 \<and>
     5 \<le> websocket_ping_timeout_seconds c \<and> websocket_ping_timeout_seconds c \<le> 60 \<and>
     10 \<le> subscription_audit_seconds c \<and> subscription_audit_seconds c \<le> 300 \<and>
     1 \<le> subscription_audit_timeout_seconds c \<and> subscription_audit_timeout_seconds c \<le> 30 \<and>
     1 \<le> subscription_audit_failures_before_reconnect c \<and> subscription_audit_failures_before_reconnect c \<le> 5 \<and>
     1 \<le> refresh_failures_before_reconnect c \<and> refresh_failures_before_reconnect c \<le> 5 \<and>
     1 \<le> websocket_max_queue c \<and> websocket_max_queue c \<le> 16 \<and> 1024 ^ 2 \<le> websocket_max_message_bytes c \<and>
     10 \<le> public_stream_liveness_seconds c \<and> public_stream_liveness_seconds c \<le> 300 \<and>
     3 \<le> mark_price_liveness_seconds c \<and> mark_price_liveness_seconds c \<le> 30 \<and>
     10 \<le> day_seal_grace_seconds c \<and> day_seal_grace_seconds c \<le> 600 \<and>
     5 \<le> lease_heartbeat_seconds c \<and> lease_heartbeat_seconds c \<le> 300 \<and>
     10 \<le> open_interest_interval_seconds c \<and> open_interest_interval_seconds c \<le> 300 \<and>
     1 \<le> open_interest_startup_spread_seconds c \<and> open_interest_startup_spread_seconds c \<le> 30 \<and>
     10 \<le> clock_sample_interval_seconds c \<and> clock_sample_interval_seconds c \<le> 300 \<and>
     1 / 2 \<le> snapshot_request_interval_seconds c \<and> snapshot_request_interval_seconds c \<le> 10 \<and>
     1 \<le> snapshot_request_concurrency c \<and> snapshot_request_concurrency c \<le> 8 \<and>
     16 * 1024 ^ 2 \<le> queue_max_bytes c \<and>
     0 < queue_warn_ratio c \<and> queue_warn_ratio c < 1 \<and> 0 < queue_resume_ratio c \<and> queue_resume_ratio c < 1 \<and>
     5 \<le> chunk_max_seconds c \<and> chunk_max_seconds c \<le> 300 \<and>
     1024 ^ 2 \<le> chunk_max_bytes c \<and> 1000 \<le> chunk_max_events c \<and>
     100 \<le> writer_batch_events c \<and> 64 * 1024 \<le> writer_batch_bytes c \<and>
     1024 ^ 3 \<le> spool_max_bytes c \<and> 1024 ^ 3 \<le> minimum_free_bytes c \<and>
     1 \<le> storage_check_seconds c \<and> storage_check_seconds c \<le> 60"

definition validate_message_rates :: "unicode \<Rightarrow> (string, int) dict \<Rightarrow> py_error + (string, int) dict" where
  "validate_message_rates u values =
     (let normalized = fold (\<lambda>(s, rate). dict_set (u_upper u s) rate) values [] in
      if length normalized \<noteq> length values then Inl (ValueError ''message rates contain duplicate symbols'')
      else if list_ex (\<lambda>s. \<not> is_exchange_symbol u s) (dict_keys normalized) then
        Inl (ValueError ''message rates contain an invalid symbol'')
      else if list_ex (\<lambda>(_, rate). rate \<le> 0) normalized then Inl (ValueError ''message rates must be positive'')
      else Inr normalized)"

definition validate_ratios :: "collector_config \<Rightarrow> py_error + collector_config" where
  "validate_ratios c =
     (let audit_detection_seconds = subscription_audit_seconds c +
            double (subscription_audit_timeout_seconds c * of_int (subscription_audit_failures_before_reconnect c)) in
      if queue_warn_ratio c \<le> queue_resume_ratio c then Inl (ValueError ''queue_resume_ratio must be below queue_warn_ratio'')
      else if day_seal_grace_seconds c \<le> public_stream_liveness_seconds c then
        Inl (ValueError ''day seal grace must exceed public stream liveness timeout'')
      else if subscription_audit_seconds c \<le> websocket_receive_timeout_seconds c then
        Inl (ValueError ''subscription audit must exceed websocket receive timeout'')
      else if subscription_audit_seconds c \<le> subscription_audit_timeout_seconds c then
        Inl (ValueError ''subscription audit interval must exceed its response timeout'')
      else if day_seal_grace_seconds c \<le> double audit_detection_seconds then
        Inl (ValueError ''day seal grace must exceed the subscription audit detection window'')
      else Inr c)"

definition validate_collector_config :: "unicode \<Rightarrow> collector_config \<Rightarrow> py_error + collector_config" where
  "validate_collector_config u c =
     (if \<not> collector_bounds c then Inl (ValueError ''a field is out of its bounds'')
      else
        rbind (validate_universe_policy u (universe_policy c)) (\<lambda>policy.
        rbind (validate_message_rates u (message_rates c)) (\<lambda>rates.
        validate_ratios (c\<lparr>universe_policy := policy, message_rates := rates\<rparr>))))"

section \<open>What a checked policy guarantees\<close>

lemma configured_role_Inr:
  assumes "configured_role u n values = Inr r"
  shows "length r = n \<and> sorted r \<and> distinct r \<and> (\<forall>s \<in> set r. is_exchange_symbol u s)"
  using assms unfolding configured_role_def Let_def
  by (auto simp: list_ex_iff intro: card_distinct split: if_splits)

lemma validate_universe_policy_Inr:
  assumes "validate_universe_policy u c = Inr c'"
  shows "length (cfg_core c') = 50 \<and> length (cfg_boundary c') = 5 \<and> length (cfg_probe c') = 5 \<and>
    sorted (cfg_core c') \<and> sorted (cfg_boundary c') \<and> sorted (cfg_probe c') \<and>
    distinct (cfg_core c' @ cfg_boundary c' @ cfg_probe c') \<and>
    (\<forall>s \<in> set (cfg_core c' @ cfg_boundary c' @ cfg_probe c'). is_exchange_symbol u s) \<and>
    hash_pattern (bootstrap_evidence_sha256 c') \<and> universe_bounds c'"
proof -
  obtain cs bs ps where roles: "configured_role u 50 (cfg_core c) = Inr cs" "configured_role u 5 (cfg_boundary c) = Inr bs"
      "configured_role u 5 (cfg_probe c) = Inr ps"
    and bounds: "universe_bounds c" and hash: "hash_pattern (bootstrap_evidence_sha256 c)"
    and final: "validate_universe_roles (c\<lparr>cfg_core := cs, cfg_boundary := bs, cfg_probe := ps\<rparr>) = Inr c'"
    using assms by (auto simp: validate_universe_policy_def rbind_Inr_iff split: if_splits)
  have c': "c' = c\<lparr>cfg_core := cs, cfg_boundary := bs, cfg_probe := ps\<rparr>" and all60: "card (set (cs @ bs @ ps)) = 60"
    using final by (auto simp: validate_universe_roles_def split: if_splits)
  note rs = configured_role_Inr [OF roles(1)] configured_role_Inr [OF roles(2)] configured_role_Inr [OF roles(3)]
  have "distinct (cs @ bs @ ps)" using rs all60 by (intro card_distinct) simp
  moreover have "universe_bounds c'" using bounds by (simp add: c' universe_bounds_def)
  ultimately show ?thesis using rs hash by (auto simp: c')
qed

end
