(* ===== verification/Iso_Time.thy ===== *)
theory Iso_Time
  imports Calendar
begin

text \<open>
  \<open>datetime.isoformat\<close> and \<open>datetime.fromisoformat\<close> as the code uses them on its own state files: the
  text \<open>YYYY-MM-DDTHH:MM:SS\<close>, six digits of microseconds when there are any, and the offset from UTC
  in hours and minutes. The reader takes the texts of this form (Python reads more forms of ISO 8601, none of
  which the code writes). The lemmas show that the reader inverts the printer on every UTC time of the
  years 1 to 9999, the range of \<open>datetime\<close>.
\<close>

section \<open>Printing\<close>

definition offset_text :: "int option \<Rightarrow> string" where
  "offset_text off =
     (case off of None \<Rightarrow> ''''
      | Some us \<Rightarrow>
          (let minutes = \<bar>us\<bar> div 60000000 in
           (if us < 0 then ''-'' else ''+'') @ zfill 2 (minutes div 60) @ '':'' @ zfill 2 (minutes mod 60)))"

definition iso_clock :: "int \<Rightarrow> string" where
  "iso_clock us =
     (let s = us div 1000000; fraction = us mod 1000000 in
      zfill 2 (s div 3600) @ '':'' @ zfill 2 (s div 60 mod 60) @ '':'' @ zfill 2 (s mod 60) @
      (if fraction = 0 then '''' else ''.'' @ zfill 6 fraction))"

definition isoformat :: "py_datetime \<Rightarrow> string" where
  "isoformat t = iso_date (dt_date t) @ ''T'' @ iso_clock (wall_us t mod us_per_day) @ offset_text (utc_offset t)"

section \<open>Reading\<close>

definition number_at :: "nat \<Rightarrow> nat \<Rightarrow> string \<Rightarrow> int option" where
  "number_at i n s =
     (let cs = take n (drop i s) in
      if length cs = n \<and> list_all is_digit cs then Some (int (digits_value cs)) else None)"

definition days_from_civil :: "int \<Rightarrow> int \<Rightarrow> int \<Rightarrow> utc_date" where
  "days_from_civil y m k =
     (let y' = (if m \<le> 2 then y - 1 else y); yoe = y' mod 400;
          doy = (153 * (if 2 < m then m - 3 else m + 9) + 2) div 5 + k - 1 in
      y' div 400 * 146097 + (365 * yoe + yoe div 4 - yoe div 100) + doy - 719468)"

text \<open>The date of three numbers, if there is one in the years 1 to 9999.\<close>

definition read_date :: "int \<Rightarrow> int \<Rightarrow> int \<Rightarrow> utc_date option" where
  "read_date y m k =
     (if 1 \<le> y \<and> y \<le> 9999 \<and> civil (days_from_civil y m k) = (y, m, k) then Some (days_from_civil y m k) else None)"

definition read_clock :: "int \<Rightarrow> int \<Rightarrow> int \<Rightarrow> int option" where
  "read_clock h m s = (if h < 24 \<and> m < 60 \<and> s < 60 then Some ((h * 3600 + m * 60 + s) * 1000000) else None)"

text \<open>The microseconds, and the text after them.\<close>

definition read_fraction :: "string \<Rightarrow> (int \<times> string) option" where
  "read_fraction s =
     (if take 1 s = ''.'' then (case number_at 1 6 s of None \<Rightarrow> None | Some f \<Rightarrow> Some (f, drop 7 s)) else Some (0, s))"

definition read_offset :: "string \<Rightarrow> int option option" where
  "read_offset s =
     (if s = [] then Some None
      else if length s = 6 \<and> (hd s = CHR ''+'' \<or> hd s = CHR ''-'') \<and> s ! 3 = CHR '':'' then
        (case (number_at 1 2 s, number_at 4 2 s) of
           (Some h, Some m) \<Rightarrow>
             if h < 24 \<and> m < 60 then Some (Some ((if hd s = CHR ''-'' then - 1 else 1) * ((h * 60 + m) * 60000000))) else None
         | _ \<Rightarrow> None)
      else None)"

definition read_wall :: "string \<Rightarrow> int option" where
  "read_wall s =
     (case (number_at 0 4 s, number_at 5 2 s, number_at 8 2 s, number_at 11 2 s, number_at 14 2 s, number_at 17 2 s) of
        (Some y, Some mo, Some k, Some h, Some mi, Some sec) \<Rightarrow>
          if map ((!) s) [4, 7, 10, 13, 16] = ''--T::'' then
            (case (read_date y mo k, read_clock h mi sec) of (Some d, Some c) \<Rightarrow> Some (d * us_per_day + c) | _ \<Rightarrow> None)
          else None
      | _ \<Rightarrow> None)"

definition fromisoformat :: "string \<Rightarrow> py_error + py_datetime" where
  "fromisoformat s =
     (case read_wall s of
        None \<Rightarrow> Inl (ValueError ''Invalid isoformat string'')
      | Some w \<Rightarrow>
          (case read_fraction (drop 19 s) of
             None \<Rightarrow> Inl (ValueError ''Invalid isoformat string'')
           | Some (f, rest) \<Rightarrow>
               (case read_offset rest of
                  None \<Rightarrow> Inl (ValueError ''Invalid isoformat string'')
                | Some off \<Rightarrow> Inr \<lparr>wall_us = w + f, utc_offset = off\<rparr>)))"

section \<open>Dates\<close>

text \<open>The year of a day within an era of 400 years that starts in March, and the days before a year.\<close>

definition era_year :: "int \<Rightarrow> int" where
  "era_year doe = (doe - doe div 1460 + doe div 36524 - doe div 146096) div 365"

definition days_before :: "int \<Rightarrow> int" where
  "days_before y = 365 * y + y div 4 - y div 100"

lemma div_next:
  assumes "0 < (n :: int)"
  shows "(d + 1) div n = d div n + (if n dvd d + 1 then 1 else 0)"
proof (cases "n dvd d + 1")
  case True
  then obtain q where q: "d + 1 = n * q" by (auto elim: dvdE)
  then have "d = n * (q - 1) + (n - 1)" by (simp add: algebra_simps)
  then have "d div n = q - 1" by (rule int_div_pos_eq) (use assms in auto)
  then show ?thesis using q assms True by simp
next
  case False
  have hi: "(d + 1) mod n < n" using assms by simp
  have "(d + 1) mod n \<noteq> 0" using False by (simp add: dvd_eq_mod_eq_0)
  then have m: "1 \<le> (d + 1) mod n" using assms pos_mod_sign [of n "d + 1"] by linarith
  have "d = n * ((d + 1) div n) + ((d + 1) mod n - 1)" by (simp add: algebra_simps)
  then have "d div n = (d + 1) div n" using m hi by (intro int_div_pos_eq [of _ _ _ "(d + 1) mod n - 1"]) auto
  then show ?thesis using False by simp
qed

text \<open>A year of the era is \<open>100 c + 4 b + a\<close>; the corrections of \<open>era_year\<close> are exact on its days.\<close>

lemma era_year_day:
  assumes "0 \<le> a" "a \<le> 3" "0 \<le> b" "b \<le> 24" "0 \<le> c" "c \<le> 3" "0 \<le> r"
    "r \<le> (if a = 3 \<and> (b < 24 \<or> c = 3) then 365 else 364)"
  shows "era_year (36524 * c + 1461 * b + 365 * a + r) = 100 * c + 4 * b + a"
proof -
  let ?d = "36524 * c + 1461 * b + 365 * a + r"
  define e where "e = (24 * c + b + 365 * a + r) div 1460"
  have d1: "?d div 1460 = 25 * c + b + e"
  proof -
    have "?d = (24 * c + b + 365 * a + r) + (25 * c + b) * 1460" by simp
    then show ?thesis unfolding e_def by simp
  qed
  have e: "e = (if 1460 \<le> 24 * c + b + 365 * a + r then 1 else 0)"
  proof (cases "1460 \<le> 24 * c + b + 365 * a + r")
    case True
    have "24 * c + b + 365 * a + r = 1460 * 1 + (24 * c + b + 365 * a + r - 1460)" by simp
    then have "e = 1" unfolding e_def by (rule int_div_pos_eq) (use True assms in \<open>auto split: if_splits\<close>)
    then show ?thesis using True by simp
  next
    case False
    then show ?thesis using assms unfolding e_def by (simp add: div_pos_pos_trivial)
  qed
  have x: "?d - ?d div 1460 + ?d div 36524 - ?d div 146096 = 365 * (100 * c + 4 * b + a) + (r - e)" if "?d \<noteq> 146096"
  proof -
    have small: "1461 * b + 365 * a + r < 36524 \<or> c = 3 \<and> b = 24 \<and> a = 3 \<and> r = 365" using assms by (auto split: if_splits)
    then have "?d div 36524 = c" using that assms by (intro int_div_pos_eq [of _ _ _ "1461 * b + 365 * a + r"]) auto
    moreover have "?d div 146096 = 0" using small that assms by (intro div_pos_pos_trivial) auto
    ultimately show ?thesis unfolding d1 by simp
  qed
  show ?thesis
  proof (cases "?d = 146096")
    case True
    then have "c = 3 \<and> b = 24 \<and> a = 3" using assms by (auto split: if_splits)
    then show ?thesis using True by (simp add: era_year_def)
  next
    case False
    have "0 \<le> r - e \<and> r - e < 365" using assms by (auto simp: e split: if_splits)
    then show ?thesis unfolding era_year_def x [OF False] by (intro int_div_pos_eq [of _ _ _ "r - e"]) auto
  qed
qed

lemma days_before_parts:
  assumes "0 \<le> a" "a \<le> 3" "0 \<le> b" "b \<le> 24"
  shows "days_before (100 * c + 4 * b + a) = 36524 * c + 1461 * b + 365 * a"
proof -
  have "(100 * c + 4 * b + a) div 4 = 25 * c + b" by (rule int_div_pos_eq [of _ _ _ a]) (use assms in auto)
  moreover have "(100 * c + 4 * b + a) div 100 = c" by (rule int_div_pos_eq [of _ _ _ "4 * b + a"]) (use assms in auto)
  ultimately show ?thesis by (simp add: days_before_def)
qed

lemma era_year_found:
  assumes "days_before (int y) \<le> d" "y < 400" "if y = 399 then d \<le> 146096 else d < days_before (int y + 1)"
  shows "era_year d = int y"
proof -
  define a b c where "a = int y mod 4" and "b = int y div 4 mod 25" and "c = int y div 100"
  have y: "int y = 100 * c + 4 * b + a"
  proof -
    have "c = int y div 4 div 25" unfolding c_def by (subst zdiv_zmult2_eq [of 25 _ 4, symmetric]) auto
    moreover have "int y = 4 * (int y div 4) + a" "int y div 4 = 25 * (int y div 4 div 25) + b" unfolding a_def b_def by simp_all
    ultimately show ?thesis by linarith
  qed
  have bounds: "0 \<le> a" "a \<le> 3" "0 \<le> b" "b \<le> 24" "0 \<le> c" unfolding a_def b_def c_def by auto
  have c3: "c \<le> 3" using assms(2) y bounds by linarith
  have start: "days_before (int y) = 36524 * c + 1461 * b + 365 * a" unfolding y by (rule days_before_parts [OF bounds(1-4)])
  have over: "days_before (int y + 1) = 36524 * c + 1461 * b + 365 * a + (if a = 3 \<and> b < 24 then 366 else 365)"
  proof (cases "a = 3")
    case False
    then have "days_before (100 * c + 4 * b + (a + 1)) = 36524 * c + 1461 * b + 365 * (a + 1)"
      using bounds by (intro days_before_parts) auto
    then show ?thesis using False by (simp add: y add.assoc)
  next
    case True
    show ?thesis
    proof (cases "b = 24")
      case False
      then have "days_before (100 * c + 4 * (b + 1) + 0) = 36524 * c + 1461 * (b + 1) + 365 * 0"
        using bounds by (intro days_before_parts) auto
      then show ?thesis using False True bounds by (simp add: y algebra_simps)
    next
      case b: True
      have "days_before (100 * (c + 1) + 4 * 0 + 0) = 36524 * (c + 1) + 1461 * 0 + 365 * 0" by (rule days_before_parts) auto
      then show ?thesis using True b by (simp add: y algebra_simps)
    qed
  qed
  have "y = 399 \<Longrightarrow> a = 3 \<and> b = 24 \<and> c = 3" using y bounds c3 by linarith
  then have r: "d - days_before (int y) \<le> (if a = 3 \<and> (b < 24 \<or> c = 3) then 365 else 364)"
    using assms(3) start over by (auto split: if_splits)
  have "era_year (36524 * c + 1461 * b + 365 * a + (d - days_before (int y))) = 100 * c + 4 * b + a"
    using bounds c3 r assms(1) by (intro era_year_day) auto
  then show ?thesis unfolding start [symmetric] y [symmetric] by simp
qed

lemma year_exists: "0 \<le> d \<Longrightarrow> d < days_before (int n) \<Longrightarrow> \<exists>y < n. days_before (int y) \<le> d \<and> d < days_before (int y + 1)"
proof (induction n)
  case 0
  then show ?case by (simp add: days_before_def)
next
  case (Suc n)
  show ?case
  proof (cases "d < days_before (int n)")
    case True
    then show ?thesis using Suc by (meson less_Suc_eq)
  next
    case False
    then show ?thesis using Suc.prems by (intro exI [of _ n]) (simp add: add.commute)
  qed
qed

lemma days_before_step: "days_before (y + 1) \<le> days_before y + 366"
proof -
  have "(100 :: int) dvd y + 1 \<Longrightarrow> (4 :: int) dvd y + 1" by (rule dvd_trans [of _ 100]) simp_all
  then show ?thesis by (auto simp: days_before_def div_next)
qed

lemma era_year_bounds:
  assumes "0 \<le> d" "d < 146097"
  shows "0 \<le> era_year d \<and> era_year d < 400 \<and> days_before (era_year d) \<le> d \<and> d \<le> days_before (era_year d) + 365"
proof (cases "d = 146096")
  case True
  have "days_before 399 = 145731" by (simp add: days_before_def)
  then have "era_year d = 399" using era_year_found [of 399 d] True by simp
  then show ?thesis using True by (simp add: days_before_def)
next
  case False
  have "days_before (int 400) = 146096" by (simp add: days_before_def)
  then obtain y where y: "y < 400" "days_before (int y) \<le> d" "d < days_before (int y + 1)"
    using year_exists [of d 400] assms False by auto
  have "era_year d = int y" using era_year_found [of y d] y assms(2) by simp
  then show ?thesis using y days_before_step [of "int y"] by simp
qed

lemma civil_parts:
  assumes "civil n = (y, m, k)"
  shows "days_from_civil y m k = n \<and> 1 \<le> m \<and> m \<le> 12 \<and> 1 \<le> k \<and> k \<le> 31"
proof -
  define z where "z = n + 719468"
  define doe where "doe = z mod 146097"
  define doy where "doy = doe - days_before (era_year doe)"
  define mp where "mp = (5 * doy + 2) div 153"
  have doe: "0 \<le> doe" "doe < 146097" by (simp_all add: doe_def)
  note b = era_year_bounds [OF doe]
  have doy: "0 \<le> doy" "doy \<le> 365" using b by (simp_all add: doy_def)
  have mp: "0 \<le> mp" "mp \<le> 11" using doy by (simp_all add: mp_def)
  have parts: "m = (if mp < 10 then mp + 3 else mp - 9)" "k = doy - (153 * mp + 2) div 5 + 1"
    "y = era_year doe + z div 146097 * 400 + (if m \<le> 2 then 1 else 0)"
    using assms unfolding civil_def Let_def z_def [symmetric] doe_def [symmetric] era_year_def [symmetric]
      days_before_def [symmetric] doy_def [symmetric] mp_def [symmetric] by auto
  have m: "1 \<le> m" "m \<le> 12" "(if 2 < m then m - 3 else m + 9) = mp" using mp by (auto simp: parts(1))
  have y': "(if m \<le> 2 then y - 1 else y) = era_year doe + z div 146097 * 400" by (simp add: parts(3))
  have ey: "(era_year doe + z div 146097 * 400) mod 400 = era_year doe" "(era_year doe + z div 146097 * 400) div 400 = z div 146097"
    using b by simp_all
  have "days_from_civil y m k = z div 146097 * 146097 + days_before (era_year doe) + doy - 719468"
    unfolding days_from_civil_def Let_def y' ey m(3) days_before_def parts(2) by simp
  also have "\<dots> = n" by (simp add: doy_def doe_def z_def)
  finally have "days_from_civil y m k = n" .
  moreover have "1 \<le> k" "k \<le> 31"
  proof -
    have r: "5 * doy + 2 = 153 * mp + (5 * doy + 2) mod 153" "0 \<le> (5 * doy + 2) mod 153" "(5 * doy + 2) mod 153 < 153"
      by (simp_all add: mp_def)
    have q: "153 * mp + 2 = 5 * ((153 * mp + 2) div 5) + (153 * mp + 2) mod 5" "0 \<le> (153 * mp + 2) mod 5" "(153 * mp + 2) mod 5 < 5"
      by simp_all
    show "1 \<le> k" "k \<le> 31" unfolding parts(2) using r q by linarith+
  qed
  ultimately show ?thesis using m by simp
qed

section \<open>Digits\<close>

lemma length_show_nat: "length (show_nat k) \<le> n \<longleftrightarrow> (if n = 0 then False else k < 10 ^ n)"
proof (induction k arbitrary: n rule: show_nat.induct)
  case (1 k)
  show ?case
  proof (cases "k < 10")
    case True
    moreover have "n \<noteq> 0 \<Longrightarrow> k < 10 ^ n" using True by (cases n) (simp_all add: less_le_trans [of k 10])
    ultimately show ?thesis by (subst show_nat.simps) (cases n; simp)
  next
    case False
    show ?thesis
    proof (cases n)
      case (Suc m)
      have "k div 10 < 10 ^ m \<longleftrightarrow> k < 10 ^ n" by (simp add: Suc div_less_iff_less_mult mult.commute)
      moreover have "m = 0 \<Longrightarrow> \<not> k < 10 ^ n" using False Suc by simp
      ultimately show ?thesis using 1 [of m] False by (subst show_nat.simps) (auto simp: Suc split: if_splits)
    qed (simp)
  qed
qed

lemma zfill_number:
  assumes "0 \<le> i" "i < 10 ^ n" "0 < n"
  shows "length (zfill n i) = n" "list_all is_digit (zfill n i)" "int (digits_value (zfill n i)) = i"
proof -
  have "nat i < 10 ^ n" using assms by (simp add: nat_less_iff)
  then have "length (show_nat (nat i)) \<le> n" using assms(3) by (simp add: length_show_nat)
  then show "length (zfill n i) = n" by (simp add: zfill_def Let_def)
  show "list_all is_digit (zfill n i)"
    using show_nat_digits by (auto simp: zfill_def Let_def list_all_iff is_digit_def)
  have "digits_value (replicate k CHR ''0'' @ s) = digits_value s" for k s
    by (induction k) (simp_all add: digits_value_def char_digit_def)
  then show "int (digits_value (zfill n i)) = i" using assms(1) by (simp add: zfill_def Let_def)
qed

section \<open>The round trip\<close>

text \<open>What a UTC \<open>datetime\<close> can be.\<close>

definition datetime_ok :: "py_datetime \<Rightarrow> bool" where
  "datetime_ok t \<longleftrightarrow> utc_offset t = Some 0 \<and> (case civil (dt_date t) of (y, _, _) \<Rightarrow> 1 \<le> y \<and> y \<le> 9999)"

lemma number_at_take:
  "number_at 0 n s = (if n \<le> length s \<and> list_all is_digit (take n s) then Some (int (digits_value (take n s))) else None)"
  by (auto simp: number_at_def Let_def min_def)

lemma number_at_prefix:
  assumes "list_all is_digit x" "length x = n"
  shows "number_at 0 n (x @ post) = Some (int (digits_value x))"
  using assms by (simp add: number_at_take)

lemma number_at_skip: "length pre \<le> i \<Longrightarrow> number_at i n (pre @ s) = number_at (i - length pre) n s"
  by (simp add: number_at_def Let_def)

lemma number_at_skip1: "0 < i \<Longrightarrow> number_at i n (c # s) = number_at (i - 1) n s"
  by (cases i) (simp_all add: number_at_def Let_def)

lemma read_wall_text:
  assumes "\<forall>x \<in> set [Y, M, K, H, I, S]. list_all is_digit x" "length Y = 4" "\<forall>x \<in> set [M, K, H, I, S]. length x = 2"
  shows "read_wall (Y @ ''-'' @ M @ ''-'' @ K @ ''T'' @ H @ '':'' @ I @ '':'' @ S @ post) =
    (case (read_date (int (digits_value Y)) (int (digits_value M)) (int (digits_value K)),
           read_clock (int (digits_value H)) (int (digits_value I)) (int (digits_value S))) of
       (Some d, Some c) \<Rightarrow> Some (d * us_per_day + c) | _ \<Rightarrow> None)"
proof -
  let ?s = "Y @ ''-'' @ M @ ''-'' @ K @ ''T'' @ H @ '':'' @ I @ '':'' @ S @ post"
  have n: "number_at 0 4 ?s = Some (int (digits_value Y))" "number_at 5 2 ?s = Some (int (digits_value M))"
    "number_at 8 2 ?s = Some (int (digits_value K))" "number_at 11 2 ?s = Some (int (digits_value H))"
    "number_at 14 2 ?s = Some (int (digits_value I))" "number_at 17 2 ?s = Some (int (digits_value S))"
    using assms by (simp_all add: number_at_prefix number_at_skip number_at_skip1)
  have c: "map ((!) ?s) [4, 7, 10, 13, 16] = ''--T::''" using assms(2,3) by (simp add: nth_append)
  show ?thesis unfolding read_wall_def n c by simp
qed

lemma read_fraction_text:
  assumes "0 \<le> f" "f < 1000000" "take 1 post \<noteq> ''.''"
  shows "read_fraction ((if f = 0 then '''' else ''.'' @ zfill 6 f) @ post) = Some (f, post)"
proof (cases "f = 0")
  case False
  have z: "length (zfill 6 f) = 6" "list_all is_digit (zfill 6 f)" "int (digits_value (zfill 6 f)) = f"
    using zfill_number [of f 6] assms by simp_all
  have "number_at 1 6 (CHR ''.'' # zfill 6 f @ post) = Some f"
    using z number_at_prefix [of "zfill 6 f" 6 post] by (simp add: number_at_skip1)
  then show ?thesis using False z(1) by (simp add: read_fraction_def)
qed (use assms in \<open>simp add: read_fraction_def\<close>)

lemma utc_offset_text: "read_offset (offset_text (Some 0)) = Some (Some 0)" "take 1 (offset_text (Some 0)) \<noteq> ''.''"
  by code_simp+

lemma fromisoformat_isoformat:
  assumes "datetime_ok t"
  shows "fromisoformat (isoformat t) = Inr t"
proof -
  obtain y m k where c: "civil (dt_date t) = (y, m, k)" by (cases "civil (dt_date t)")
  have off: "utc_offset t = Some 0" and y: "1 \<le> y" "y \<le> 9999" using assms by (simp_all add: datetime_ok_def c)
  note d = civil_parts [OF c]
  define us where "us = wall_us t mod us_per_day"
  define s where "s = us div 1000000"
  define f where "f = us mod 1000000"
  have us: "0 \<le> us" "us < 86400000000" by (simp_all add: us_def us_per_day_def)
  have s: "0 \<le> s" "s < 86400" "us = s * 1000000 + f" "0 \<le> f" "f < 1000000" using us by (simp_all add: s_def f_def)
  define h mi sec where "h = s div 3600" and "mi = s div 60 mod 60" and "sec = s mod 60"
  have hm: "s div 60 = 60 * h + mi"
  proof -
    have "h = s div 60 div 60" unfolding h_def by (subst zdiv_zmult2_eq [of 60 _ 60, symmetric]) auto
    then show ?thesis unfolding mi_def by simp
  qed
  have "s = 60 * (s div 60) + sec" by (simp add: sec_def)
  then have parts: "s = h * 3600 + mi * 60 + sec" using hm by linarith
  have ranges: "0 \<le> h" "h < 24" "0 \<le> mi" "mi < 60" "0 \<le> sec" "sec < 60" using s by (simp_all add: h_def mi_def sec_def)
  have Y: "length (zfill 4 y) = 4" "list_all is_digit (zfill 4 y)" "int (digits_value (zfill 4 y)) = y"
    using zfill_number [of y 4] y by simp_all
  have two: "length (zfill 2 i) = 2 \<and> list_all is_digit (zfill 2 i) \<and> int (digits_value (zfill 2 i)) = i" if "0 \<le> i" "i < 100" for i
    using zfill_number [of i 2] that by simp
  note T = two [of m] two [of k] two [of h] two [of mi] two [of sec]
  let ?post = "(if f = 0 then '''' else ''.'' @ zfill 6 f) @ offset_text (Some 0)"
  have clock: "iso_clock us = zfill 2 h @ '':'' @ zfill 2 mi @ '':'' @ zfill 2 sec @ (if f = 0 then '''' else ''.'' @ zfill 6 f)"
    unfolding iso_clock_def Let_def s_def [symmetric] f_def [symmetric] h_def mi_def sec_def ..
  have shape: "isoformat t = zfill 4 y @ ''-'' @ zfill 2 m @ ''-'' @ zfill 2 k @ ''T'' @ zfill 2 h @ '':'' @ zfill 2 mi @ '':'' @
      zfill 2 sec @ ?post"
    unfolding isoformat_def iso_date_def c off us_def [symmetric] clock by simp
  have "read_date y m k = Some (dt_date t)" using y d c by (simp add: read_date_def)
  moreover have "read_clock h mi sec = Some (s * 1000000)" using parts ranges by (simp add: read_clock_def)
  ultimately have w: "read_wall (isoformat t) = Some (dt_date t * us_per_day + s * 1000000)"
    unfolding shape by (subst read_wall_text) (use Y T d ranges in auto)
  have "drop 19 (isoformat t) = ?post" unfolding shape using Y(1) T d ranges by simp
  then have r: "read_fraction (drop 19 (isoformat t)) = Some (f, offset_text (Some 0))"
    using read_fraction_text [OF s(4,5) utc_offset_text(2)] by simp
  have "dt_date t * us_per_day + us = wall_us t" by (simp add: dt_date_def us_def)
  then have "dt_date t * us_per_day + s * 1000000 + f = wall_us t" using s(3) by simp
  then show ?thesis by (simp add: fromisoformat_def w r utc_offset_text off)
qed

end
