(* ===== verification/Membership.thy ===== *)
theory Membership
  imports Selection Config Iso_Time
begin

text \<open>
  \<open>src/miry/collector/membership.py\<close>, \<open>UniverseStore\<close>: the active universe decision with the times its members
  joined, the pending decision of the automatic selection, and the manual overrides. Files are fields of
  the state; a file that holds a model is what its validation reads, the state file is the JSON value it holds,
  with the texts of \<open>isoformat\<close> (\<open>Iso_Time\<close>) for its times. Times are UTC. Observations are
  recorded by their time, evaluations by their result. An operation is the list of its changes on disk, so that the
  runs can stop between any two of them.
\<close>

section \<open>State\<close>

record evaluation =
  ev_active :: universe_decision
  ev_result :: selection_result
  ev_effective_at :: py_datetime
  ev_evaluated_at :: py_datetime
  ev_kind :: string

record universe_store =
  us_policy :: universe_policy_config
  us_active :: "universe_decision option"
  us_member_since :: joined
  us_core_since :: joined
  us_active_file :: "universe_decision option"
  us_state_file :: "json option"
  us_pending_file :: "universe_decision option"
  us_overrides :: "(string, candidate_override option) dict"
  us_rejected :: "string list"
  us_decisions :: "universe_decision list"
  us_observations :: "py_datetime list"
  us_evaluations :: "evaluation list"

text \<open>What the store uses of other code: the Unicode tables, the digest, and the hash of the roles.\<close>

record store_env =
  se_unicode :: unicode
  se_sha256 :: "string \<Rightarrow> string"
  se_hash :: "string list \<Rightarrow> string list \<Rightarrow> string list \<Rightarrow> string"

definition new_store :: "universe_policy_config \<Rightarrow> universe_store" where
  "new_store policy = \<lparr>us_policy = policy, us_active = None, us_member_since = [], us_core_since = [], us_active_file = None,
     us_state_file = None, us_pending_file = None, us_overrides = [], us_rejected = [], us_decisions = [],
     us_observations = [], us_evaluations = []\<rparr>"

definition store_active :: "universe_store \<Rightarrow> py_error + universe_decision" where
  "store_active st = (case us_active st of
     None \<Rightarrow> Inl (RuntimeError ''universe store has not been initialized'') | Some d \<Rightarrow> Inr d)"

text \<open>An operation changes the disk step by step; every write replaces its file at once.\<close>

type_synonym disk_change = "universe_store \<Rightarrow> universe_store"

definition run_changes :: "disk_change list \<Rightarrow> universe_store \<Rightarrow> universe_store" where
  "run_changes changes st = fold (\<lambda>change s. change s) changes st"

definition put_active :: "universe_decision \<Rightarrow> disk_change" where
  "put_active d st = st\<lparr>us_active_file := Some d\<rparr>"

definition put_decision :: "universe_decision \<Rightarrow> disk_change" where
  "put_decision d st = st\<lparr>us_decisions := us_decisions st @ [d]\<rparr>"

definition write_active :: "universe_decision \<Rightarrow> disk_change list" where
  "write_active d = [put_active d, put_decision d]"

definition since_json :: "joined \<Rightarrow> json" where
  "since_json since = JObj (map (\<lambda>(symbol, t). (symbol, JStr (isoformat t))) (sort_key fst since))"

definition state_json :: "joined \<Rightarrow> joined \<Rightarrow> json" where
  "state_json core_since member_since = JObj [(''core_since'', since_json core_since), (''member_since'', since_json member_since)]"

definition write_state :: disk_change where
  "write_state st = st\<lparr>us_state_file := Some (state_json (us_core_since st) (us_member_since st))\<rparr>"

definition read_time :: "json \<Rightarrow> py_error + py_datetime" where
  "read_time v = (case v of JStr s \<Rightarrow> fromisoformat s | _ \<Rightarrow> Inl (TypeError ''fromisoformat: argument must be str''))"

definition read_since :: "(string \<times> json) list \<Rightarrow> string \<Rightarrow> py_error + joined" where
  "read_since raw k =
     (case map_of raw k of
        None \<Rightarrow> Inl (KeyError k)
      | Some (JObj kvs) \<Rightarrow> map_result (\<lambda>(symbol, v). rbind (read_time v) (\<lambda>t. Inr (symbol, t))) kvs
      | Some _ \<Rightarrow> Inl (AttributeError ''items''))"

definition load_state :: "universe_store \<Rightarrow> py_error + universe_store" where
  "load_state st =
     (case us_state_file st of
        None \<Rightarrow> Inl (FileNotFoundError ''membership-state.json'')
      | Some (JObj raw) \<Rightarrow>
          rbind (read_since raw ''member_since'') (\<lambda>member_since.
          rbind (read_since raw ''core_since'') (\<lambda>core_since.
          Inr (st\<lparr>us_member_since := member_since, us_core_since := core_since\<rparr>)))
      | Some _ \<Rightarrow> Inl (TypeError ''indices must be integers''))"

section \<open>Initialisation\<close>

text \<open>A comprehension over the members of a decision.\<close>

definition since_all :: "string list \<Rightarrow> py_datetime \<Rightarrow> joined" where
  "since_all symbols t = fold (\<lambda>s. dict_set s t) symbols []"

definition bootstrap_decision :: "store_env \<Rightarrow> universe_policy_config \<Rightarrow> py_datetime \<Rightarrow> py_error + universe_decision" where
  "bootstrap_decision env c now =
     validate_universe_decision (se_unicode env) (se_hash env) \<lparr>core_generation = cfg_core_generation c,
       candidate_revision = cfg_candidate_revision c, decision_sequence = cfg_decision_sequence c,
       universe_version = version_text (cfg_core_generation c) (cfg_candidate_revision c),
       created_at = now, effective_at = now, decision_reason = FORMAL_BOOTSTRAP,
       core = cfg_core c, boundary = cfg_boundary c, probe = cfg_probe c, source_hashes = [bootstrap_evidence_sha256 c],
       ud_universe_hash = se_hash env (cfg_core c) (cfg_boundary c) (cfg_probe c)\<rparr>"

definition bootstrap_memory :: "universe_decision \<Rightarrow> py_datetime \<Rightarrow> universe_store \<Rightarrow> universe_store" where
  "bootstrap_memory active now st = st\<lparr>us_active := Some active,
     us_member_since := since_all (members active) now, us_core_since := since_all (core active) now\<rparr>"

definition initialize_changes :: "universe_decision \<Rightarrow> disk_change list" where
  "initialize_changes active = write_active active @ [write_state]"

definition initialize :: "store_env \<Rightarrow> py_datetime \<Rightarrow> universe_store \<Rightarrow> py_error + universe_store" where
  "initialize env now st =
     (case us_active_file st of
        Some d \<Rightarrow>
          rbind (validate_universe_decision (se_unicode env) (se_hash env) d) (\<lambda>active.
          load_state (st\<lparr>us_active := Some active\<rparr>))
      | None \<Rightarrow>
          rbind (bootstrap_decision env (us_policy st) now) (\<lambda>active.
          Inr (run_changes (initialize_changes active) (bootstrap_memory active now st))))"

section \<open>Planning\<close>

definition next_effective_at :: "py_datetime \<Rightarrow> int \<Rightarrow> py_datetime" where
  "next_effective_at now cutoff_minute =
     (let minute_of_day = (wall_us now mod us_per_day) div 60000000;
          late = (minute_of_day div 60 = 23 \<and> cutoff_minute < minute_of_day mod 60) in
      \<lparr>wall_us = (dt_date now + 1 + (if late then 1 else 0)) * us_per_day, utc_offset = Some 0\<rparr>)"

definition decision_reason_of :: "universe_decision \<Rightarrow> selection_result \<Rightarrow> py_datetime \<Rightarrow> universe_decision_reason" where
  "decision_reason_of active result effective =
     (if sel_inactive result \<noteq> [] then INACTIVE_REPLACEMENT
      else if sel_core result \<noteq> core active \<and> weekday effective = 0 then WEEKLY_CORE
      else DAILY_CANDIDATE)"

definition next_version :: "universe_decision \<Rightarrow> string list \<Rightarrow> int \<times> int" where
  "next_version active new_core =
     (if new_core \<noteq> core active then (core_generation active + 1, 0)
      else (core_generation active, candidate_revision active + 1))"

definition write_evaluation :: "universe_decision \<Rightarrow> selection_result \<Rightarrow> py_datetime \<Rightarrow> py_datetime \<Rightarrow> string \<Rightarrow> universe_store \<Rightarrow> universe_store" where
  "write_evaluation active result now effective kind st =
     st\<lparr>us_evaluations := us_evaluations st @ [\<lparr>ev_active = active, ev_result = result, ev_effective_at = effective,
       ev_evaluated_at = now, ev_kind = kind\<rparr>]\<rparr>"

definition write_observation :: "discovery_snapshot \<Rightarrow> universe_store \<Rightarrow> universe_store" where
  "write_observation snapshot st = st\<lparr>us_observations := us_observations st @ [observed_at snapshot]\<rparr>"

text \<open>Before the formal start the configured universe is only verified, and the hashes of its evidence are recorded.\<close>

definition verified_decision :: "store_env \<Rightarrow> universe_policy_config \<Rightarrow> discovery_snapshot \<Rightarrow> universe_decision \<Rightarrow> universe_decision" where
  "verified_decision env policy snapshot active =
     active\<lparr>source_hashes := bootstrap_evidence_sha256 policy # snapshot_hashes (se_sha256 env) snapshot\<rparr>"

definition verify_changes :: "universe_decision \<Rightarrow> selection_result \<Rightarrow> py_datetime \<Rightarrow> disk_change list" where
  "verify_changes active verified now = write_active active @ [write_evaluation active verified now now ''bootstrap'']"

definition verify_bootstrap :: "store_env \<Rightarrow> discovery_snapshot \<Rightarrow> py_datetime \<Rightarrow> universe_decision \<Rightarrow> universe_store \<Rightarrow> py_error + universe_store" where
  "verify_bootstrap env snapshot now active st =
     rbind (validate_bootstrap_universe (se_unicode env) (se_sha256 env) (rolling_policy_of (us_policy st)) snapshot
         (core active) (boundary active) (probe active)) (\<lambda>verified.
     let active' = verified_decision env (us_policy st) snapshot active in
     Inr (run_changes (verify_changes active' verified now) (st\<lparr>us_active := Some active'\<rparr>)))"

definition planned_decision ::
    "store_env \<Rightarrow> universe_decision \<Rightarrow> selection_result \<Rightarrow> py_datetime \<Rightarrow> py_datetime \<Rightarrow> py_error + universe_decision" where
  "planned_decision env active result now effective =
     (let (generation, revision) = next_version active (sel_core result) in
      validate_universe_decision (se_unicode env) (se_hash env) \<lparr>core_generation = generation, candidate_revision = revision,
        decision_sequence = decision_sequence active + 1, universe_version = version_text generation revision,
        created_at = now, effective_at = effective, decision_reason = decision_reason_of active result effective,
        core = sel_core result, boundary = sel_boundary result, probe = sel_probe result,
        source_hashes = sel_source_hashes result,
        ud_universe_hash = se_hash env (sel_core result) (sel_boundary result) (sel_probe result)\<rparr>)"

definition observe_and_plan ::
    "store_env \<Rightarrow> bool \<Rightarrow> discovery_snapshot \<Rightarrow> py_datetime \<Rightarrow> universe_store \<Rightarrow> py_error + (universe_decision option \<times> universe_store)" where
  "observe_and_plan env formally_started snapshot now st =
     (let st1 = write_observation snapshot st;
          effective = next_effective_at now (decision_cutoff_minute_utc (us_policy st)) in
      rbind (store_active st1) (\<lambda>active.
      if \<not> formally_started then rbind (verify_bootstrap env snapshot now active st1) (\<lambda>st2. Inr (None, st2))
      else
        rbind (select_rolling_universe (se_unicode env) (se_sha256 env) (rolling_policy_of (us_policy st)) active snapshot
            effective (us_member_since st1) (us_core_since st1)) (\<lambda>result.
        let st2 = write_evaluation active result now effective ''rolling'' st1 in
        if \<not> automation_enabled (us_policy st) then Inr (None, st2\<lparr>us_pending_file := None\<rparr>)
        else if keeps_active active result then Inr (None, st2\<lparr>us_pending_file := None\<rparr>)
        else
          rbind (planned_decision env active result now effective) (\<lambda>d.
          Inr (Some d, st2\<lparr>us_pending_file := Some d\<rparr>)))))"

section \<open>Overrides and due decisions\<close>

definition decision_from_override ::
    "store_env \<Rightarrow> universe_store \<Rightarrow> universe_decision \<Rightarrow> candidate_override \<Rightarrow> py_error + universe_decision" where
  "decision_from_override env st active c =
     (let proposed = set (co_boundary c @ co_probe c); current = set (boundary active @ probe active);
          p = rolling_policy_of (us_policy st);
          minimum_joined = wall_us (co_effective_at c) - candidate_minimum_dwell_hours p * us_per_hour;
          too_young = {s \<in> current - proposed. minimum_joined < wall_us (joined_at (us_member_since st) (co_effective_at c) s)} in
      if proposed \<inter> set (core active) \<noteq> {} then Inl (ValueError ''candidate override cannot include active core members'')
      else if candidate_daily_replacements p < card (proposed - current) then
        Inl (ValueError ''candidate override exceeds daily replacement limit'')
      else if too_young \<noteq> {} then Inl (ValueError ''candidate override violates dwell'')
      else
        validate_universe_decision (se_unicode env) (se_hash env) \<lparr>core_generation = core_generation active,
          candidate_revision = candidate_revision active + 1, decision_sequence = decision_sequence active + 1,
          universe_version = version_text (core_generation active) (candidate_revision active + 1),
          created_at = co_created_at c, effective_at = co_effective_at c, decision_reason = MANUAL_CANDIDATE_OVERRIDE,
          core = core active, boundary = co_boundary c, probe = co_probe c, source_hashes = [],
          ud_universe_hash = se_hash env (core active) (co_boundary c) (co_probe c)\<rparr>)"

text \<open>The decision of an override file; every \<open>ValueError\<close> rejects the file.\<close>

definition read_override :: "store_env \<Rightarrow> universe_store \<Rightarrow> universe_decision \<Rightarrow> candidate_override option \<Rightarrow> py_error + universe_decision" where
  "read_override env st active raw =
     (case raw of
        None \<Rightarrow> Inl (ValueError ''invalid JSON'')
      | Some c \<Rightarrow> rbind (validate_candidate_override (se_unicode env) c) (\<lambda>c'. decision_from_override env st active c'))"

definition is_due :: "universe_decision \<Rightarrow> py_datetime \<Rightarrow> universe_decision \<Rightarrow> bool" where
  "is_due active now d \<longleftrightarrow> decision_sequence active < decision_sequence d \<and> wall_us (effective_at d) \<le> wall_us now"

definition consider_override ::
    "store_env \<Rightarrow> universe_decision \<Rightarrow> py_datetime \<Rightarrow> (universe_decision \<times> string) list \<times> universe_store \<Rightarrow>
       string \<times> candidate_override option \<Rightarrow> py_error + ((universe_decision \<times> string) list \<times> universe_store)" where
  "consider_override env active now = (\<lambda>(candidates, st) (name, raw).
     case read_override env st active raw of
       Inl (ValueError _) \<Rightarrow>
         Inr (candidates, st\<lparr>us_overrides := dict_pop name (us_overrides st), us_rejected := us_rejected st @ [name]\<rparr>)
     | Inl e \<Rightarrow> Inl e
     | Inr d \<Rightarrow> Inr (if is_due active now d then candidates @ [(d, name)] else candidates, st))"

definition pending_candidates ::
    "store_env \<Rightarrow> universe_decision \<Rightarrow> py_datetime \<Rightarrow> universe_store \<Rightarrow> py_error + (universe_decision \<times> string) list" where
  "pending_candidates env active now st =
     (case us_pending_file st of
        Some raw \<Rightarrow>
          if automation_enabled (us_policy st) then
            rbind (validate_universe_decision (se_unicode env) (se_hash env) raw) (\<lambda>d.
            Inr (if is_due active now d then [(d, ''pending.json'')] else []))
          else Inr []
      | None \<Rightarrow> Inr [])"

definition due_key :: "universe_decision \<times> string \<Rightarrow> int \<times> int \<times> int \<times> string" where
  "due_key = (\<lambda>(d, name). (decision_sequence d, wall_us (effective_at d), wall_us (created_at d), name))"

definition select_due ::
    "store_env \<Rightarrow> py_datetime \<Rightarrow> universe_store \<Rightarrow> py_error + ((universe_decision \<times> string) option \<times> universe_store)" where
  "select_due env now st =
     rbind (store_active st) (\<lambda>active.
     rbind (pending_candidates env active now st) (\<lambda>pending.
     rbind (fold_result (consider_override env active now) (pending, st) (us_overrides st)) (\<lambda>(candidates, st').
     Inr (first_max due_key candidates, st'))))"

definition has_due :: "store_env \<Rightarrow> py_datetime \<Rightarrow> universe_store \<Rightarrow> py_error + (bool \<times> universe_store)" where
  "has_due env now st = rbind (select_due env now st) (\<lambda>(selected, st'). Inr (selected \<noteq> None, st'))"

definition set_missing :: "py_datetime \<Rightarrow> string list \<Rightarrow> joined \<Rightarrow> joined" where
  "set_missing t symbols since = fold (\<lambda>s d. if dict_get d s = None then dict_set s t d else d) symbols since"

definition core_joins :: "universe_decision \<Rightarrow> universe_decision \<Rightarrow> joined \<Rightarrow> joined" where
  "core_joins previous d since =
     fold (\<lambda>s m. if s \<notin> set (core previous) then dict_set s (effective_at d) m
       else if dict_get m s = None then dict_set s (effective_at d) m else m) (core d) since"

definition apply_memory :: "universe_decision \<Rightarrow> universe_decision \<Rightarrow> universe_store \<Rightarrow> universe_store" where
  "apply_memory previous d st = st\<lparr>us_active := Some d,
       us_member_since := filter (\<lambda>(s, _). s \<in> set (members d)) (set_missing (effective_at d) (members d) (us_member_since st)),
       us_core_since := filter (\<lambda>(s, _). s \<in> set (core d)) (core_joins previous d (us_core_since st))\<rparr>"

definition unlink_source :: "string \<Rightarrow> disk_change" where
  "unlink_source name st = st\<lparr>us_overrides := dict_pop name (us_overrides st),
     us_pending_file := (if name = ''pending.json'' then None else us_pending_file st)\<rparr>"

definition unlink_pending :: disk_change where
  "unlink_pending st = st\<lparr>us_pending_file := None\<rparr>"

definition apply_changes :: "universe_decision \<Rightarrow> string \<Rightarrow> disk_change list" where
  "apply_changes d name = write_active d @ [write_state, unlink_source name, unlink_pending]"

definition apply_due :: "store_env \<Rightarrow> py_datetime \<Rightarrow> universe_store \<Rightarrow> py_error + (universe_decision option \<times> universe_store)" where
  "apply_due env now st =
     rbind (select_due env now st) (\<lambda>(selected, st1).
     case selected of
       None \<Rightarrow> Inr (None, st1)
     | Some (d, name) \<Rightarrow>
         rbind (store_active st1) (\<lambda>previous.
         Inr (Some d, run_changes (apply_changes d name) (apply_memory previous d st1))))"

section \<open>Valid decisions\<close>

definition valid_decision :: "store_env \<Rightarrow> universe_decision \<Rightarrow> bool" where
  "valid_decision env d \<longleftrightarrow> validate_universe_decision (se_unicode env) (se_hash env) d = Inr d"

lemma validate_role_again:
  assumes "validate_role u n values = Inr r"
  shows "validate_role u n r = Inr r"
proof -
  have r: "length r = n" "\<not> list_ex (\<lambda>v. \<not> is_exchange_symbol u v) r" "length r = card (set r)" "r = sort r"
    using assms by (auto simp: validate_role_def Let_def split: if_splits)
  have "map (u_upper u) r = r" using r(2) by (intro map_idI) (auto simp: list_ex_iff is_exchange_symbol_def)
  then show ?thesis unfolding validate_role_def Let_def using r by simp
qed

lemma validated_fields:
  assumes "validate_universe_decision u H d = Inr d'"
  shows "validate_role u 50 (core d') = Inr (core d')" "validate_role u 5 (boundary d') = Inr (boundary d')"
    "validate_role u 5 (probe d') = Inr (probe d')" "validate_schedule_version_and_hash H d' = Inr d'"
    "d' = d\<lparr>core := core d', boundary := boundary d', probe := probe d'\<rparr>"
    "\<not> core_generation d' < 1" "\<not> candidate_revision d' < 0" "\<not> decision_sequence d' < 1" "version_pattern (universe_version d')"
    "require_utc (created_at d') = Inr ()" "require_utc (effective_at d') = Inr ()"
    "\<not> list_ex (\<lambda>h. \<not> hash_pattern h) (source_hashes d')"
proof -
  obtain c b p where roles: "validate_role u 50 (core d) = Inr c" "validate_role u 5 (boundary d) = Inr b"
      "validate_role u 5 (probe d) = Inr p"
    and final: "validate_schedule_version_and_hash H (d\<lparr>core := c, boundary := b, probe := p\<rparr>) = Inr d'"
    and fields: "\<not> core_generation d < 1" "\<not> candidate_revision d < 0" "\<not> decision_sequence d < 1"
      "version_pattern (universe_version d)" "require_utc (created_at d) = Inr ()" "require_utc (effective_at d) = Inr ()"
      "\<not> list_ex (\<lambda>h. \<not> hash_pattern h) (source_hashes d)"
    using assms by (auto simp: validate_universe_decision_def rbind_Inr_iff split: if_splits)
  have d': "d' = d\<lparr>core := c, boundary := b, probe := p\<rparr>"
    using final by (auto simp: validate_schedule_version_and_hash_def split: if_splits)
  show "validate_schedule_version_and_hash H d' = Inr d'" using final d' by simp
  show "validate_role u 50 (core d') = Inr (core d')" "validate_role u 5 (boundary d') = Inr (boundary d')"
    "validate_role u 5 (probe d') = Inr (probe d')"
    using roles [THEN validate_role_again] by (simp_all add: d')
  show "d' = d\<lparr>core := core d', boundary := boundary d', probe := probe d'\<rparr>"
    "\<not> core_generation d' < 1" "\<not> candidate_revision d' < 0" "\<not> decision_sequence d' < 1" "version_pattern (universe_version d')"
    "require_utc (created_at d') = Inr ()" "require_utc (effective_at d') = Inr ()"
    "\<not> list_ex (\<lambda>h. \<not> hash_pattern h) (source_hashes d')"
    using fields by (simp_all add: d')
qed

lemma valid_decisionI:
  assumes "validate_role (se_unicode env) 50 (core d) = Inr (core d)" "validate_role (se_unicode env) 5 (boundary d) = Inr (boundary d)"
    "validate_role (se_unicode env) 5 (probe d) = Inr (probe d)" "validate_schedule_version_and_hash (se_hash env) d = Inr d"
    "\<not> core_generation d < 1" "\<not> candidate_revision d < 0" "\<not> decision_sequence d < 1" "version_pattern (universe_version d)"
    "require_utc (created_at d) = Inr ()" "require_utc (effective_at d) = Inr ()"
    "\<not> list_ex (\<lambda>h. \<not> hash_pattern h) (source_hashes d)"
  shows "valid_decision env d"
  unfolding valid_decision_def validate_universe_decision_def
  by (simp only: assms if_False not_not rbind_simps simp_thms if_True) (simp add: assms(4))

lemma validated_is_valid:
  "validate_universe_decision (se_unicode env) (se_hash env) d = Inr d' \<Longrightarrow> valid_decision env d'"
  by (rule valid_decisionI) (rule validated_fields, assumption)+

lemma valid_decision_roles: "valid_decision env d \<Longrightarrow> active_roles_ok d"
  using validated_fields(1-3) [of "se_unicode env" "se_hash env" d d, THEN validate_role_Inr]
    validate_decision_Inr [of "se_unicode env" "se_hash env" d d]
  by (simp add: valid_decision_def active_roles_ok_def)

section \<open>The membership times\<close>

lemma set_missing_ok: "dict_ok since \<Longrightarrow> dict_ok (set_missing t symbols since)"
  unfolding set_missing_def by (induction symbols arbitrary: since) auto

lemma set_missing_get:
  "dict_get (set_missing t symbols since) s =
     (case dict_get since s of Some x \<Rightarrow> Some x | None \<Rightarrow> if s \<in> set symbols then Some t else None)"
  unfolding set_missing_def by (induction symbols arbitrary: since) (auto split: option.splits)

lemma core_joins_ok: "dict_ok since \<Longrightarrow> dict_ok (core_joins previous d since)"
proof -
  have "dict_ok m \<Longrightarrow> dict_ok (fold (\<lambda>s m. if s \<notin> set (core previous) then dict_set s (effective_at d) m
      else if dict_get m s = None then dict_set s (effective_at d) m else m) xs m)" for xs m
    by (induction xs arbitrary: m) auto
  then show "dict_ok since \<Longrightarrow> dict_ok (core_joins previous d since)" unfolding core_joins_def .
qed

lemma core_joins_get:
  "dict_get (core_joins previous d since) s =
     (if s \<in> set (core d) \<and> s \<notin> set (core previous) then Some (effective_at d)
      else case dict_get since s of Some x \<Rightarrow> Some x | None \<Rightarrow> if s \<in> set (core d) then Some (effective_at d) else None)"
proof -
  have "dict_get (fold (\<lambda>s m. if s \<notin> set (core previous) then dict_set s (effective_at d) m
        else if dict_get m s = None then dict_set s (effective_at d) m else m) xs m) s =
      (if s \<in> set xs \<and> s \<notin> set (core previous) then Some (effective_at d)
       else case dict_get m s of Some x \<Rightarrow> Some x | None \<Rightarrow> if s \<in> set xs then Some (effective_at d) else None)" for xs m
    by (induction xs arbitrary: m) (auto split: option.splits)
  then show ?thesis unfolding core_joins_def .
qed

lemma dict_get_filter: "dict_get (filter (\<lambda>(s, _). s \<in> A) d) s = (if s \<in> A then dict_get d s else None)"
  unfolding dict_get_def by (induction d) auto

lemma dict_ok_filter: "dict_ok d \<Longrightarrow> dict_ok (filter P d)"
  unfolding dict_ok_def by (rule distinct_map_filter)

lemma keys_from_get: "fst ` set d = {s. dict_get d s \<noteq> None}"
  by (auto simp: dict_get_None_iff)

lemma since_all_ok: "dict_ok (since_all symbols t) \<and> fst ` set (since_all symbols t) = set symbols"
proof -
  have "dict_ok d \<Longrightarrow> dict_ok (fold (\<lambda>s. dict_set s t) symbols d) \<and>
      fst ` set (fold (\<lambda>s. dict_set s t) symbols d) = fst ` set d \<union> set symbols" for d :: joined
    by (induction symbols arbitrary: d) auto
  from this [of "[]"] show ?thesis by (simp add: since_all_def)
qed

section \<open>The state file\<close>

text \<open>Joining times as the store holds them: each symbol once, every time a UTC \<open>datetime\<close>.\<close>

definition times_ok :: "joined \<Rightarrow> bool" where
  "times_ok since \<longleftrightarrow> (\<forall>kv \<in> set since. datetime_ok (snd kv))"

definition since_ok :: "joined \<Rightarrow> bool" where
  "since_ok since \<longleftrightarrow> dict_ok since \<and> times_ok since"

lemma dict_get_perm:
  assumes "dict_ok d" "set d' = set d" "length d' = length d"
  shows "dict_ok d' \<and> dict_get d' = dict_get d"
proof -
  have "distinct (map fst d')"
  proof (rule card_distinct)
    have "card (set (map fst d')) = card (set (map fst d))" by (simp add: assms(2))
    also have "\<dots> = length (map fst d)" using assms(1) unfolding dict_ok_def by (rule distinct_card)
    finally show "card (set (map fst d')) = length (map fst d')" by (simp add: assms(3))
  qed
  then have ok: "dict_ok d'" by (simp add: dict_ok_def)
  have "dict_get d' k = dict_get d k" for k
  proof (cases "dict_get d k")
    case None
    then have "dict_get d' k = None" using assms(2) by (simp add: dict_get_None_iff)
    then show ?thesis using None by simp
  next
    case (Some v)
    then show ?thesis using assms(1,2) ok dict_get_Some_iff by metis
  qed
  then show ?thesis using ok by auto
qed

lemma sorted_since:
  assumes "since_ok since"
  shows "since_ok (sort_key fst since) \<and> dict_get (sort_key fst since) = dict_get since \<and>
    fst ` set (sort_key fst since) = fst ` set since"
  using assms dict_get_perm [of since "sort_key fst since"] by (auto simp: since_ok_def times_ok_def)

lemma sort_key_sorted: "sorted (map f xs) \<Longrightarrow> sort_key f xs = xs"
  by (induction xs) (auto simp: insort_is_Cons)

lemma since_json_sorted: "since_json (sort_key fst since) = since_json since"
  by (simp add: since_json_def sort_key_sorted)

lemma read_times:
  assumes "times_ok xs"
  shows "map_result (\<lambda>(symbol, v). rbind (read_time v) (\<lambda>t. Inr (symbol, t))) (map (\<lambda>(symbol, t). (symbol, JStr (isoformat t))) xs) = Inr xs"
  using assms
proof (induction xs)
  case (Cons x xs)
  then show ?case by (cases x) (simp add: read_time_def fromisoformat_isoformat times_ok_def)
qed simp

lemma load_written:
  assumes "us_state_file st = Some (state_json cs ms)" "since_ok cs" "since_ok ms"
  shows "load_state st = Inr (st\<lparr>us_member_since := sort_key fst ms, us_core_since := sort_key fst cs\<rparr>)"
proof -
  have times: "map_result (\<lambda>(symbol, v). rbind (read_time v) (\<lambda>t. Inr (symbol, t)))
      (map (\<lambda>(symbol, t). (symbol, JStr (isoformat t))) (sort_key fst since)) = Inr (sort_key fst since)" if "since_ok since" for since
    using that by (intro read_times) (simp add: since_ok_def times_ok_def)
  show ?thesis
    unfolding load_state_def assms(1) state_json_def option.case json.case
    by (simp add: read_since_def since_json_def times assms(2,3))
qed

section \<open>Runs of the store\<close>

text \<open>What survives a stop of the process: the files.\<close>

definition lose_memory :: "universe_store \<Rightarrow> universe_store" where
  "lose_memory st = st\<lparr>us_active := None, us_member_since := [], us_core_since := []\<rparr>"

definition override_ok :: "candidate_override option \<Rightarrow> bool" where
  "override_ok raw \<longleftrightarrow> (case raw of None \<Rightarrow> True | Some c \<Rightarrow> datetime_ok (co_effective_at c))"

text \<open>
  The runs of the store: starts, observations, plans, applied decisions and files of overrides, in any order. The process can
  stop between any two operations, and inside an operation after any number of its changes on disk; then only a start
  goes on. The flag is false once an application was cut off between its write of the active decision and its write
  of the joining times. Every time that comes in is a \<open>datetime\<close> of Python.
\<close>

inductive store_reachable :: "store_env \<Rightarrow> universe_policy_config \<Rightarrow> bool \<Rightarrow> universe_store \<Rightarrow> bool" for env policy where
  fresh: "store_reachable env policy True (new_store policy)"
| started: "store_reachable env policy clean st \<Longrightarrow> datetime_ok now \<Longrightarrow> initialize env now (lose_memory st) = Inr st' \<Longrightarrow>
    store_reachable env policy clean st'"
| start_interrupted: "store_reachable env policy clean st \<Longrightarrow> us_active_file st = None \<Longrightarrow> datetime_ok now \<Longrightarrow>
    bootstrap_decision env policy now = Inr d \<Longrightarrow>
    store_reachable env policy clean (lose_memory (run_changes (take n (initialize_changes d)) (bootstrap_memory d now st)))"
| planned: "store_reachable env policy clean st \<Longrightarrow> datetime_ok (next_effective_at now (decision_cutoff_minute_utc policy)) \<Longrightarrow>
    observe_and_plan env formally_started snapshot now st = Inr (r, st') \<Longrightarrow> store_reachable env policy clean st'"
| observed: "store_reachable env policy clean st \<Longrightarrow> store_reachable env policy clean (write_observation snapshot st)"
| verify_interrupted: "store_reachable env policy clean st \<Longrightarrow> us_active st = Some active \<Longrightarrow>
    validate_bootstrap_universe (se_unicode env) (se_sha256 env) (rolling_policy_of policy) snapshot
      (core active) (boundary active) (probe active) = Inr verified \<Longrightarrow>
    store_reachable env policy clean (lose_memory (run_changes
      (take n (verify_changes (verified_decision env policy snapshot active) verified now)) (write_observation snapshot st)))"
| plan_interrupted: "store_reachable env policy clean st \<Longrightarrow> us_active st = Some active \<Longrightarrow>
    select_rolling_universe (se_unicode env) (se_sha256 env) (rolling_policy_of policy) active snapshot
      effective (us_member_since st) (us_core_since st) = Inr result \<Longrightarrow>
    store_reachable env policy clean (lose_memory (write_evaluation active result now effective ''rolling'' (write_observation snapshot st)))"
| applied: "store_reachable env policy clean st \<Longrightarrow> apply_due env now st = Inr (r, st') \<Longrightarrow> store_reachable env policy clean st'"
| apply_interrupted: "store_reachable env policy clean st \<Longrightarrow> us_active st = Some previous \<Longrightarrow>
    select_due env now st = Inr (Some (d, name), st1) \<Longrightarrow>
    store_reachable env policy (clean \<and> n \<notin> {1, 2})
      (lose_memory (run_changes (take n (apply_changes d name)) (apply_memory previous d st1)))"
| inspected: "store_reachable env policy clean st \<Longrightarrow> has_due env now st = Inr (b, st') \<Longrightarrow> store_reachable env policy clean st'"
| override_written: "store_reachable env policy clean st \<Longrightarrow> override_ok raw \<Longrightarrow>
    store_reachable env policy clean (st\<lparr>us_overrides := dict_set name raw (us_overrides st)\<rparr>)"
| stopped: "store_reachable env policy clean st \<Longrightarrow> store_reachable env policy clean (lose_memory st)"

text \<open>The state file belongs to the active file: after a clean history it names exactly the members and the core.\<close>

definition times_of :: "bool \<Rightarrow> universe_decision \<Rightarrow> joined \<Rightarrow> joined \<Rightarrow> bool" where
  "times_of clean d cs ms \<longleftrightarrow> since_ok cs \<and> since_ok ms \<and>
     (clean \<longrightarrow> fst ` set ms = set (members d) \<and> fst ` set cs = set (core d))"

definition files_ok :: "store_env \<Rightarrow> bool \<Rightarrow> universe_store \<Rightarrow> bool" where
  "files_ok env clean st \<longleftrightarrow>
     (case us_active_file st of
        None \<Rightarrow> us_active st = None \<and> us_state_file st = None
      | Some d \<Rightarrow> valid_decision env d \<and>
          (us_state_file st = None \<and> us_active st = None \<or>
           (\<exists>cs ms. us_state_file st = Some (state_json cs ms) \<and> times_of clean d cs ms)))"

definition inputs_ok :: "universe_store \<Rightarrow> bool" where
  "inputs_ok st \<longleftrightarrow> list_all (\<lambda>(name, raw). override_ok raw) (us_overrides st) \<and>
     (case us_pending_file st of None \<Rightarrow> True | Some d \<Rightarrow> datetime_ok (effective_at d))"

definition store_ok :: "store_env \<Rightarrow> universe_policy_config \<Rightarrow> bool \<Rightarrow> universe_store \<Rightarrow> bool" where
  "store_ok env policy clean st \<longleftrightarrow> us_policy st = policy \<and> inputs_ok st \<and> files_ok env clean st \<and>
     (\<forall>d. us_active st = Some d \<longrightarrow> us_active_file st = Some d \<and>
        us_state_file st = Some (state_json (us_core_since st) (us_member_since st)) \<and>
        times_of clean d (us_core_since st) (us_member_since st))"

text \<open>The configuration and the digest give hashes of the form that decisions admit.\<close>

definition env_ok :: "store_env \<Rightarrow> universe_policy_config \<Rightarrow> bool" where
  "env_ok env policy \<longleftrightarrow> (\<forall>x. hash_pattern (se_sha256 env x)) \<and> hash_pattern (bootstrap_evidence_sha256 policy)"

lemma lose_memory_ok: "store_ok env policy clean st \<Longrightarrow> store_ok env policy clean (lose_memory st)"
  by (auto simp: store_ok_def files_ok_def inputs_ok_def lose_memory_def split: option.splits)

text \<open>A live store: the last conjunct of the invariant gives the first.\<close>

lemma live_files_ok:
  assumes "us_active_file st = Some d" "valid_decision env d" "us_state_file st = Some (state_json cs ms)" "times_of clean d cs ms"
  shows "files_ok env clean st"
  using assms by (auto simp: files_ok_def)

lemma started_store:
  assumes "store_ok env policy clean st" "us_active_file st = Some d" "us_state_file st = Some (state_json cs ms)" "times_of clean d cs ms"
  shows "initialize env now (lose_memory st) = Inr (st\<lparr>us_active := Some d, us_member_since := sort_key fst ms, us_core_since := sort_key fst cs\<rparr>)"
    "store_ok env policy clean (st\<lparr>us_active := Some d, us_member_since := sort_key fst ms, us_core_since := sort_key fst cs\<rparr>)"
proof -
  have v: "valid_decision env d" using assms(1,2) by (simp add: store_ok_def files_ok_def)
  have ok: "since_ok cs" "since_ok ms" using assms(4) by (simp_all add: times_of_def)
  let ?st = "(lose_memory st)\<lparr>us_active := Some d\<rparr>"
  have "load_state ?st = Inr (?st\<lparr>us_member_since := sort_key fst ms, us_core_since := sort_key fst cs\<rparr>)"
    using ok assms(3) by (intro load_written) (simp_all add: lose_memory_def)
  then show "initialize env now (lose_memory st) = Inr (st\<lparr>us_active := Some d, us_member_since := sort_key fst ms, us_core_since := sort_key fst cs\<rparr>)"
    using v assms(2) by (simp add: initialize_def valid_decision_def) (simp add: lose_memory_def)
  have "times_of clean d (sort_key fst cs) (sort_key fst ms)" using assms(4) sorted_since ok by (simp add: times_of_def)
  moreover have "state_json (sort_key fst cs) (sort_key fst ms) = state_json cs ms" by (simp add: state_json_def since_json_sorted)
  ultimately show "store_ok env policy clean (st\<lparr>us_active := Some d, us_member_since := sort_key fst ms, us_core_since := sort_key fst cs\<rparr>)"
    using assms by (simp add: store_ok_def files_ok_def inputs_ok_def)
qed

lemma dict_set_times:
  assumes "times_ok d" "datetime_ok t"
  shows "times_ok (dict_set symbol t d)"
  using assms unfolding times_ok_def by (induction d) (fastforce split: if_splits)+

lemma times_ok_filter: "times_ok d \<Longrightarrow> times_ok (filter P d)"
  by (simp add: times_ok_def)

lemma times_ok_Nil [simp]: "times_ok []"
  by (simp add: times_ok_def)

lemma dict_set_overrides:
  assumes "list_all (\<lambda>(name, raw). override_ok raw) d" "override_ok raw"
  shows "list_all (\<lambda>(name, raw). override_ok raw) (dict_set name raw d)"
  using assms by (induction d) (fastforce split: if_splits)+

lemma since_all_times: "datetime_ok t \<Longrightarrow> times_ok (since_all symbols t)"
proof -
  assume t: "datetime_ok t"
  have "times_ok d \<Longrightarrow> times_ok (fold (\<lambda>s. dict_set s t) symbols d)" for d
  proof (induction symbols arbitrary: d)
    case (Cons s ss)
    then show ?case using dict_set_times [OF Cons.prems t] by simp
  qed simp
  from this [of "[]"] show ?thesis by (simp add: since_all_def)
qed

lemma bootstrap_times: "datetime_ok now \<Longrightarrow> times_of clean d (since_all (core d) now) (since_all (members d) now)"
  using since_all_ok since_all_times by (simp add: times_of_def since_ok_def)

text \<open>The changes of an operation one at a time.\<close>

lemma run_simps [simp]:
  "run_changes [] st = st" "run_changes (c # cs) st = run_changes cs (c st)"
  by (simp_all add: run_changes_def)

lemma take_cases: "take n [a, b] = (if n = 0 then [] else if n = 1 then [a] else [a, b])"
  "take n [a, b, c] = (if n = 0 then [] else if n = 1 then [a] else if n = 2 then [a, b] else [a, b, c])"
  "take n (a # b # c # ds) = (if n = 0 then [] else if n = 1 then [a] else if n = 2 then [a, b] else a # b # c # take (n - 3) ds)"
  by (cases n; cases "n - 1"; cases "n - 2"; simp add: take_Cons' split: nat.splits)+

lemmas change_defs = put_active_def put_decision_def write_state_def unlink_source_def unlink_pending_def write_evaluation_def
  write_observation_def

text \<open>\<open>_select_due\<close> changes nothing but the override files, and selects only valid decisions that are due.\<close>

lemma decision_from_override_valid:
  assumes "decision_from_override env st active c = Inr d"
  shows "valid_decision env d \<and> effective_at d = co_effective_at c"
proof -
  obtain raw where raw: "validate_universe_decision (se_unicode env) (se_hash env) raw = Inr d" "effective_at raw = co_effective_at c"
    using assms by (fastforce simp: decision_from_override_def Let_def split: if_splits)
  have "effective_at d = effective_at raw" by (subst validated_fields(5) [OF raw(1)], simp)
  then show ?thesis using validated_is_valid raw by metis
qed

lemma validated_override_effective: "validate_candidate_override u c = Inr c' \<Longrightarrow> co_effective_at c' = co_effective_at c"
  by (auto simp: validate_candidate_override_def rbind_Inr_iff Let_def split: if_splits)

lemma read_override_valid:
  assumes "read_override env st active raw = Inr d" "override_ok raw"
  shows "valid_decision env d \<and> datetime_ok (effective_at d)"
  using assms decision_from_override_valid validated_override_effective
  by (fastforce simp: read_override_def rbind_Inr_iff override_ok_def split: option.splits)

definition without_overrides :: "universe_store \<Rightarrow> universe_store" where
  "without_overrides st = st\<lparr>us_overrides := [], us_rejected := []\<rparr>"

lemma without_overrides_update [simp]:
  "without_overrides (st\<lparr>us_overrides := files, us_rejected := rejected\<rparr>) = without_overrides st"
  "without_overrides (st\<lparr>us_overrides := files\<rparr>) = without_overrides st"
  by (simp_all add: without_overrides_def)

lemma without_overrides_same:
  assumes "without_overrides st' = without_overrides st"
  shows "us_policy st' = us_policy st" "us_active st' = us_active st" "us_member_since st' = us_member_since st"
    "us_core_since st' = us_core_since st" "us_active_file st' = us_active_file st" "us_state_file st' = us_state_file st"
    "us_pending_file st' = us_pending_file st"
  using arg_cong [OF assms, of us_policy] arg_cong [OF assms, of us_active] arg_cong [OF assms, of us_member_since]
    arg_cong [OF assms, of us_core_since] arg_cong [OF assms, of us_active_file] arg_cong [OF assms, of us_state_file]
    arg_cong [OF assms, of us_pending_file]
  by (simp_all add: without_overrides_def)

lemma store_ok_cong:
  assumes "without_overrides st' = without_overrides st" "inputs_ok st'" "store_ok env policy clean st"
  shows "store_ok env policy clean st'"
  using assms(2,3) unfolding store_ok_def files_ok_def without_overrides_same [OF assms(1)] by blast

lemma select_due_ok:
  assumes "select_due env now st = Inr (selected, st')" "us_active st = Some active" "inputs_ok st"
  shows "without_overrides st' = without_overrides st \<and> inputs_ok st' \<and>
    (\<forall>d name. selected = Some (d, name) \<longrightarrow> valid_decision env d \<and> is_due active now d \<and> datetime_ok (effective_at d))"
proof -
  define good where "good = (\<lambda>(candidates :: (universe_decision \<times> string) list, s).
      without_overrides s = without_overrides st \<and> inputs_ok s \<and>
      (\<forall>(d, name) \<in> set candidates. valid_decision env d \<and> is_due active now d \<and> datetime_ok (effective_at d)))"
  obtain pending candidates where p: "pending_candidates env active now st = Inr pending"
    and f: "fold_result (consider_override env active now) (pending, st) (us_overrides st) = Inr (candidates, st')"
    and sel: "selected = first_max due_key candidates"
    using assms(1,2) by (auto simp: select_due_def store_active_def rbind_Inr_iff)
  have pend: "valid_decision env d \<and> datetime_ok (effective_at d)"
    if "us_pending_file st = Some raw" "validate_universe_decision (se_unicode env) (se_hash env) raw = Inr d" for raw d
  proof -
    have "effective_at d = effective_at raw" by (subst validated_fields(5) [OF that(2)], simp)
    then show ?thesis using that assms(3) validated_is_valid by (simp add: inputs_ok_def)
  qed
  have start: "good (pending, st)"
    using p pend assms(3)
    by (auto simp: pending_candidates_def good_def rbind_Inr_iff split: option.splits if_splits)
  have inputs: "\<forall>(name, raw) \<in> set (us_overrides st). override_ok raw" using assms(3) by (simp add: inputs_ok_def list_all_iff)
  have "good (candidates, st')"
  proof (rule fold_result_invariant [where P = good, OF f start])
    fix s c s' assume s: "good s" and step: "consider_override env active now s c = Inr s'" and c: "c \<in> set (us_overrides st)"
    obtain cs t name raw where eq: "s = (cs, t)" "c = (name, raw)" by (metis surj_pair)
    have raw: "override_ok raw" using inputs c eq by blast
    have popped: "inputs_ok (t\<lparr>us_overrides := dict_pop name (us_overrides t), us_rejected := r\<rparr>)" for r
      using s by (auto simp: good_def eq inputs_ok_def dict_pop_def list_all_iff)
    show "good s'"
    proof (cases "read_override env t active raw")
      case (Inl e)
      then show ?thesis using s step popped by (cases e) (auto simp: eq consider_override_def good_def)
    next
      case (Inr d)
      then have "valid_decision env d \<and> datetime_ok (effective_at d)" using raw by (rule read_override_valid)
      then show ?thesis using s step Inr by (auto simp: eq consider_override_def good_def split: if_splits)
    qed
  qed
  then show ?thesis using sel first_max_Some [of due_key candidates] by (fastforce simp: good_def)
qed

text \<open>The memory of an applied decision, and the changes on disk that follow it.\<close>

lemma set_missing_times:
  assumes "times_ok since" "datetime_ok t"
  shows "times_ok (set_missing t symbols since)"
  using assms(1) unfolding set_missing_def
proof (induction symbols arbitrary: since)
  case (Cons s ss)
  then show ?case using dict_set_times [OF Cons.prems assms(2)] by simp
qed simp

lemma core_joins_times:
  assumes "times_ok since" "datetime_ok (effective_at d)"
  shows "times_ok (core_joins previous d since)"
proof -
  have "times_ok m \<Longrightarrow> times_ok (fold (\<lambda>s m. if s \<notin> set (core previous) then dict_set s (effective_at d) m
      else if dict_get m s = None then dict_set s (effective_at d) m else m) xs m)" for xs m
  proof (induction xs arbitrary: m)
    case (Cons s ss)
    then show ?case using dict_set_times [OF Cons.prems assms(2)] by simp
  qed simp
  then show ?thesis using assms(1) unfolding core_joins_def .
qed

lemma apply_memory_times:
  assumes "times_of clean previous (us_core_since st) (us_member_since st)" "datetime_ok (effective_at d)"
  shows "times_of clean' d (us_core_since (apply_memory previous d st)) (us_member_since (apply_memory previous d st))"
proof -
  let ?m = "filter (\<lambda>(s, _). s \<in> set (members d)) (set_missing (effective_at d) (members d) (us_member_since st))"
  let ?c = "filter (\<lambda>(s, _). s \<in> set (core d)) (core_joins previous d (us_core_since st))"
  have ok: "dict_ok (us_member_since st)" "dict_ok (us_core_since st)"
    "times_ok (us_member_since st)" "times_ok (us_core_since st)"
    using assms(1) by (auto simp: times_of_def since_ok_def)
  have "dict_ok ?m" "dict_ok ?c" using ok set_missing_ok core_joins_ok dict_ok_filter by blast+
  moreover have "times_ok ?m" using set_missing_times [OF ok(3) assms(2)] by (rule times_ok_filter)
  moreover have "times_ok ?c" using core_joins_times [OF ok(4) assms(2)] by (rule times_ok_filter)
  moreover have "fst ` set ?m = set (members d)"
    unfolding keys_from_get by (auto simp: dict_get_filter set_missing_get split: option.splits)
  moreover have "fst ` set ?c = set (core d)"
    unfolding keys_from_get by (auto simp: dict_get_filter core_joins_get split: option.splits)
  ultimately show ?thesis by (simp add: times_of_def since_ok_def apply_memory_def)
qed

text \<open>After any number of its changes the application leaves files that a start can read.\<close>

lemma interrupted_apply_ok:
  assumes "store_ok env policy clean st" "us_active st = Some previous" "valid_decision env d" "datetime_ok (effective_at d)"
  shows "store_ok env policy (clean \<and> n \<notin> {1, 2}) (lose_memory (run_changes (take n (apply_changes d name)) (apply_memory previous d st)))"
proof -
  let ?st = "apply_memory previous d st" and ?clean = "clean \<and> n \<notin> {1, 2}"
  have old: "us_active_file st = Some previous" "us_state_file st = Some (state_json (us_core_since st) (us_member_since st))"
    "times_of clean previous (us_core_since st) (us_member_since st)" "inputs_ok st" "us_policy st = policy" "valid_decision env previous"
    using assms(1,2) by (auto simp: store_ok_def files_ok_def)
  note new = apply_memory_times [OF old(3) assms(4)]
  define s where "s = run_changes (take n (apply_changes d name)) ?st"
  have popped: "list_all (\<lambda>(name, raw). override_ok raw) (dict_pop name (us_overrides st))"
    using old(4) by (auto simp: inputs_ok_def dict_pop_def list_all_iff)
  consider "n = 0" | "n \<in> {1, 2}" | "3 \<le> n" by fastforce
  then show ?thesis
  proof cases
    case 1
    then show ?thesis using old by (auto simp: store_ok_def files_ok_def inputs_ok_def lose_memory_def apply_memory_def)
  next
    case 2
    have "times_of False d (us_core_since st) (us_member_since st)" using old(3) by (simp add: times_of_def)
    then show ?thesis
      using 2 old assms(3)
      by (auto simp: store_ok_def files_ok_def inputs_ok_def lose_memory_def apply_memory_def apply_changes_def write_active_def take_cases
          change_defs)
  next
    case 3
    have "us_active_file s = Some d \<and> us_state_file s = Some (state_json (us_core_since ?st) (us_member_since ?st)) \<and>
        us_policy s = policy \<and> inputs_ok s"
      using 3 old popped unfolding s_def apply_changes_def write_active_def
      by (auto simp: take_Cons' inputs_ok_def apply_memory_def change_defs split: option.splits)
    then show ?thesis using new 3 assms(3) unfolding s_def [symmetric]
      by (auto simp: store_ok_def files_ok_def inputs_ok_def lose_memory_def)
  qed
qed

lemma apply_ok:
  assumes "store_ok env policy clean st" "us_active st = Some previous" "valid_decision env d" "datetime_ok (effective_at d)"
  shows "store_ok env policy clean (run_changes (apply_changes d name) (apply_memory previous d st))"
proof -
  let ?st = "apply_memory previous d st"
  have old: "times_of clean previous (us_core_since st) (us_member_since st)" "inputs_ok st" "us_policy st = policy"
    using assms(1,2) by (auto simp: store_ok_def)
  have "list_all (\<lambda>(name, raw). override_ok raw) (dict_pop name (us_overrides st))"
    using old(2) by (auto simp: inputs_ok_def dict_pop_def list_all_iff)
  then show ?thesis
    using apply_memory_times [OF old(1) assms(4)] old(2,3) assms(3)
    by (auto simp: store_ok_def files_ok_def inputs_ok_def apply_changes_def write_active_def change_defs apply_memory_def)
qed

lemma apply_due_cases:
  assumes "apply_due env now st = Inr (r, st')" "us_active st = Some active" "inputs_ok st"
  obtains (idle) "r = None" "without_overrides st' = without_overrides st" "inputs_ok st'"
  | (applied) d name st1 where "r = Some d" "valid_decision env d" "is_due active now d" "datetime_ok (effective_at d)"
      "without_overrides st1 = without_overrides st" "inputs_ok st1"
      "st' = run_changes (apply_changes d name) (apply_memory active d st1)"
proof -
  obtain selected st1 where sel: "select_due env now st = Inr (selected, st1)"
    and rest: "(case selected of None \<Rightarrow> Inr (None, st1)
     | Some (d, name) \<Rightarrow> rbind (store_active st1) (\<lambda>previous. Inr (Some d,
         run_changes (apply_changes d name) (apply_memory previous d st1)))) = Inr (r, st')"
    using assms(1) by (auto simp: apply_due_def rbind_Inr_iff)
  note ok = select_due_ok [OF sel assms(2,3)]
  have st1: "us_active st1 = Some active" using without_overrides_same(2) [of st1 st] ok assms(2) by simp
  show thesis
  proof (cases selected)
    case None
    have "r = None" "st1 = st'" using rest by (simp_all add: None)
    then show ?thesis using ok by (intro idle) simp_all
  next
    case (Some dn)
    obtain d name where dn: "dn = (d, name)" by (cases dn)
    have "r = Some d" "st' = run_changes (apply_changes d name) (apply_memory active d st1)"
      using rest st1 by (simp_all add: Some dn store_active_def del: run_simps)
    then show ?thesis using applied ok Some dn by blast
  qed
qed

lemma apply_due_ok:
  assumes "apply_due env now st = Inr (r, st')" "store_ok env policy clean st" "us_active st = Some active"
  shows "store_ok env policy clean st'"
proof -
  have "inputs_ok st" using assms(2) by (simp add: store_ok_def)
  from assms(1,3) this show ?thesis
  proof (cases rule: apply_due_cases)
    case idle
    then show ?thesis using assms(2) store_ok_cong by blast
  next
    case (applied d name st1)
    have "store_ok env policy clean st1" "us_active st1 = Some active"
      using applied(5,6) assms(2,3) store_ok_cong without_overrides_same(2) by metis+
    from apply_ok [OF this applied(2,4)] show ?thesis unfolding applied(7) .
  qed
qed

lemma verified_decision_valid:
  assumes "valid_decision env active" "env_ok env policy"
  shows "valid_decision env (verified_decision env policy snapshot active)"
proof -
  let ?d = "verified_decision env policy snapshot active"
  have v: "validate_universe_decision (se_unicode env) (se_hash env) active = Inr active"
    using assms(1) by (simp add: valid_decision_def)
  have "\<not> list_ex (\<lambda>h. \<not> hash_pattern h) (source_hashes ?d)"
    using assms(2) by (simp add: verified_decision_def env_ok_def snapshot_hashes_def)
  moreover have "validate_schedule_version_and_hash (se_hash env) ?d = Inr ?d"
    using validated_fields(4) [OF v] by (auto simp: validate_schedule_version_and_hash_def verified_decision_def split: if_splits)
  ultimately show ?thesis
    using validated_fields [OF v] by (intro valid_decisionI) (simp_all add: verified_decision_def)
qed

text \<open>The active file and the evaluations of a verified universe, whole or cut off: members and core are what they were.\<close>

lemma interrupted_verify_ok:
  assumes "store_ok env policy clean st" "us_active st = Some active" "env_ok env policy"
  shows "store_ok env policy clean (lose_memory (run_changes (take n (verify_changes (verified_decision env policy snapshot active) verified now)) st))"
proof -
  let ?d = "verified_decision env policy snapshot active"
  have old: "us_active_file st = Some active" "us_state_file st = Some (state_json (us_core_since st) (us_member_since st))"
    "times_of clean active (us_core_since st) (us_member_since st)" "inputs_ok st" "us_policy st = policy" "valid_decision env active"
    using assms(1,2) by (auto simp: store_ok_def files_ok_def)
  have "times_of clean ?d (us_core_since st) (us_member_since st)"
    using old(3) by (simp add: times_of_def verified_decision_def members_def)
  then show ?thesis
    using old verified_decision_valid [OF old(6) assms(3)]
    by (auto simp: store_ok_def files_ok_def inputs_ok_def lose_memory_def verify_changes_def write_active_def take_cases change_defs)
qed

lemma verify_ok:
  assumes "verify_bootstrap env snapshot now active st = Inr st'" "store_ok env policy clean st" "us_active st = Some active" "env_ok env policy"
  shows "store_ok env policy clean st'"
proof -
  let ?d = "verified_decision env policy snapshot active"
  have old: "us_active_file st = Some active" "us_state_file st = Some (state_json (us_core_since st) (us_member_since st))"
    "times_of clean active (us_core_since st) (us_member_since st)" "inputs_ok st" "us_policy st = policy" "valid_decision env active"
    using assms(2,3) by (auto simp: store_ok_def files_ok_def)
  obtain verified where st': "st' = run_changes (verify_changes ?d verified now) (st\<lparr>us_active := Some ?d\<rparr>)"
    using assms(1) old(5) by (auto simp: verify_bootstrap_def rbind_Inr_iff Let_def)
  have "times_of clean ?d (us_core_since st) (us_member_since st)"
    using old(3) by (simp add: times_of_def verified_decision_def members_def)
  then show ?thesis
    using old verified_decision_valid [OF old(6) assms(4)]
    by (auto simp: st' store_ok_def files_ok_def inputs_ok_def verify_changes_def write_active_def change_defs)
qed

text \<open>The successful results of \<open>observe_and_plan\<close>.\<close>

lemma observe_cases:
  assumes "observe_and_plan env formally_started snapshot now st = Inr (r, st')" "us_active st = Some active"
  obtains (bootstrap) "r = None" "verify_bootstrap env snapshot now active (write_observation snapshot st) = Inr st'"
  | (unchanged) result where "r = None"
      "st' = (write_evaluation active result now (next_effective_at now (decision_cutoff_minute_utc (us_policy st))) ''rolling''
        (write_observation snapshot st))\<lparr>us_pending_file := None\<rparr>"
  | (planned) result d where "r = Some d"
      "select_rolling_universe (se_unicode env) (se_sha256 env) (rolling_policy_of (us_policy st)) active snapshot
        (next_effective_at now (decision_cutoff_minute_utc (us_policy st))) (us_member_since st) (us_core_since st) = Inr result"
      "automation_enabled (us_policy st)" "\<not> keeps_active active result"
      "planned_decision env active result now (next_effective_at now (decision_cutoff_minute_utc (us_policy st))) = Inr d"
      "st' = (write_evaluation active result now (next_effective_at now (decision_cutoff_minute_utc (us_policy st))) ''rolling''
        (write_observation snapshot st))\<lparr>us_pending_file := Some d\<rparr>"
proof (cases formally_started)
  case False
  then show thesis
    using assms bootstrap by (auto simp: observe_and_plan_def rbind_Inr_iff store_active_def write_observation_def Let_def)
next
  case True
  let ?e = "next_effective_at now (decision_cutoff_minute_utc (us_policy st))"
  obtain result where result: "select_rolling_universe (se_unicode env) (se_sha256 env) (rolling_policy_of (us_policy st)) active snapshot
        ?e (us_member_since st) (us_core_since st) = Inr result"
    using True assms by (auto simp: observe_and_plan_def rbind_Inr_iff store_active_def write_observation_def Let_def)
  have rest: "(if \<not> automation_enabled (us_policy st) \<or> keeps_active active result
      then Inr (None, (write_evaluation active result now ?e ''rolling'' (write_observation snapshot st))\<lparr>us_pending_file := None\<rparr>)
      else rbind (planned_decision env active result now ?e) (\<lambda>d.
        Inr (Some d, (write_evaluation active result now ?e ''rolling'' (write_observation snapshot st))\<lparr>us_pending_file := Some d\<rparr>)))
      = Inr (r, st')"
    using True assms result
    by (cases "automation_enabled (us_policy st)"; cases "keeps_active active result")
      (simp_all add: observe_and_plan_def store_active_def write_observation_def Let_def)
  show thesis
  proof (cases "\<not> automation_enabled (us_policy st) \<or> keeps_active active result")
    case True
    then show ?thesis using rest by (intro unchanged [of result]) auto
  next
    case False
    then show ?thesis using rest planned result by (auto simp: rbind_Inr_iff)
  qed
qed

lemma files_ok_views [simp]:
  "files_ok env clean (st\<lparr>us_pending_file := p\<rparr>) = files_ok env clean st"
  "files_ok env clean (st\<lparr>us_evaluations := es\<rparr>) = files_ok env clean st"
  "files_ok env clean (st\<lparr>us_overrides := os\<rparr>) = files_ok env clean st"
  "files_ok env clean (st\<lparr>us_observations := ts\<rparr>) = files_ok env clean st"
  by (simp_all add: files_ok_def split: option.split)

lemma store_ok_observation: "store_ok env policy clean (write_observation snapshot st) = store_ok env policy clean st"
  by (simp add: store_ok_def inputs_ok_def write_observation_def)

lemma planned_effective:
  assumes "planned_decision env active result now effective = Inr d"
  shows "effective_at d = effective"
proof -
  obtain raw where "validate_universe_decision (se_unicode env) (se_hash env) raw = Inr d" "effective_at raw = effective"
    using assms by (fastforce simp: planned_decision_def split: prod.splits)
  then show ?thesis by (metis validated_fields(5) universe_decision.select_convs(6) universe_decision.surjective universe_decision.update_convs)
qed

lemma observe_ok:
  assumes "observe_and_plan env formally_started snapshot now st = Inr (r, st')" "store_ok env policy clean st" "env_ok env policy"
    and "us_active st = Some active" "datetime_ok (next_effective_at now (decision_cutoff_minute_utc policy))"
  shows "store_ok env policy clean st'"
proof -
  have o: "store_ok env policy clean (write_observation snapshot st)" "us_active (write_observation snapshot st) = Some active"
    using assms(2,4) store_ok_observation by (simp_all add: write_observation_def)
  have policy: "us_policy st = policy" using assms(2) by (simp add: store_ok_def)
  from assms(1,4) show ?thesis
  proof (cases rule: observe_cases)
    case bootstrap
    then show ?thesis using verify_ok o assms(3) by blast
  next
    case (unchanged result)
    then show ?thesis using o(1) by (simp add: store_ok_def inputs_ok_def write_evaluation_def)
  next
    case (planned result d)
    have "datetime_ok (effective_at d)" using planned_effective [OF planned(5)] assms(5) policy by simp
    then show ?thesis using o(1) by (simp add: planned(6) store_ok_def inputs_ok_def write_evaluation_def)
  qed
qed

lemma first_start_ok:
  assumes "store_ok env policy clean st" "us_active_file st = None" "bootstrap_decision env policy now = Inr d" "datetime_ok now"
  shows "store_ok env policy clean (run_changes (initialize_changes d) (bootstrap_memory d now st))"
    "store_ok env policy clean (lose_memory (run_changes (take n (initialize_changes d)) (bootstrap_memory d now st)))"
proof -
  have v: "valid_decision env d" using assms(3) unfolding bootstrap_decision_def by (rule validated_is_valid)
  have old: "inputs_ok st" "us_policy st = policy" "us_state_file st = None" using assms(1,2) by (simp_all add: store_ok_def files_ok_def)
  note t = bootstrap_times [OF assms(4)]
  show "store_ok env policy clean (run_changes (initialize_changes d) (bootstrap_memory d now st))"
    using v old t by (auto simp: store_ok_def files_ok_def inputs_ok_def initialize_changes_def write_active_def change_defs bootstrap_memory_def)
  show "store_ok env policy clean (lose_memory (run_changes (take n (initialize_changes d)) (bootstrap_memory d now st)))"
    using v old t assms(2)
    by (auto simp: store_ok_def files_ok_def inputs_ok_def initialize_changes_def write_active_def take_cases lose_memory_def change_defs
        bootstrap_memory_def)
qed

lemma started_ok:
  assumes "store_ok env policy clean st" "datetime_ok now" "initialize env now (lose_memory st) = Inr st'"
  shows "store_ok env policy clean st'"
proof (cases "us_active_file st")
  case None
  have "us_policy st = policy" using assms(1) by (simp add: store_ok_def)
  then obtain d where "bootstrap_decision env policy now = Inr d"
    "st' = run_changes (initialize_changes d) (bootstrap_memory d now (lose_memory st))"
    using assms(3) None by (auto simp: initialize_def rbind_Inr_iff lose_memory_def)
  then show ?thesis using first_start_ok(1) [OF lose_memory_ok [OF assms(1)]] None assms(2) by (simp add: lose_memory_def)
next
  case (Some d)
  have "us_state_file st \<noteq> None"
    by (rule notI) (use assms(3) Some in \<open>simp add: initialize_def rbind_Inr_iff lose_memory_def load_state_def\<close>)
  then obtain cs ms where f: "us_state_file st = Some (state_json cs ms)" "times_of clean d cs ms"
    using assms(1) Some by (auto simp: store_ok_def files_ok_def)
  show ?thesis using started_store [OF assms(1) Some f] assms(3) by simp
qed

lemma reachable_ok:
  assumes "store_reachable env policy clean st" "env_ok env policy"
  shows "store_ok env policy clean st"
  using assms(1)
proof induction
  case fresh
  then show ?case by (simp add: store_ok_def new_store_def files_ok_def inputs_ok_def)
next
  case (started clean st now st')
  then show ?case using started_ok by blast
next
  case (start_interrupted clean st now d n)
  then show ?case using first_start_ok(2) by blast
next
  case (planned clean st now formally_started snapshot r st')
  then obtain active where "us_active st = Some active"
    by (cases "us_active st") (auto simp: observe_and_plan_def store_active_def write_observation_def)
  then show ?case using observe_ok planned assms(2) by blast
next
  case (observed clean st snapshot)
  then show ?case by (simp only: store_ok_observation)
next
  case (verify_interrupted clean st active snapshot verified n now)
  have "store_ok env policy clean (write_observation snapshot st)" "us_active (write_observation snapshot st) = Some active"
    using verify_interrupted store_ok_observation by (simp_all add: write_observation_def)
  then show ?case using interrupted_verify_ok assms(2) by blast
next
  case (plan_interrupted clean st active snapshot effective result now)
  have "store_ok env policy clean (write_evaluation active result now effective ''rolling'' (write_observation snapshot st))"
    using plan_interrupted.IH by (simp add: store_ok_def inputs_ok_def change_defs)
  then show ?case by (rule lose_memory_ok)
next
  case (applied clean st now r st')
  then obtain active where "us_active st = Some active"
    by (cases "us_active st") (auto simp: apply_due_def select_due_def store_active_def)
  then show ?case using apply_due_ok applied by blast
next
  case (apply_interrupted clean st previous now d name st1 n)
  have "inputs_ok st" using apply_interrupted.IH by (simp add: store_ok_def)
  note sel = select_due_ok [OF apply_interrupted.hyps(3,2) this]
  have "store_ok env policy clean st1" using sel apply_interrupted.IH store_ok_cong by blast
  moreover have "us_active st1 = Some previous" using sel apply_interrupted.hyps(2) without_overrides_same(2) by metis
  ultimately show ?case using interrupted_apply_ok sel by blast
next
  case (inspected clean st now b st')
  then obtain active selected where a: "us_active st = Some active" "select_due env now st = Inr (selected, st')"
    by (cases "us_active st") (auto simp: has_due_def rbind_Inr_iff select_due_def store_active_def)
  have "inputs_ok st" using inspected.IH by (simp add: store_ok_def)
  from select_due_ok [OF a(2,1) this] show ?case using inspected.IH store_ok_cong by blast
next
  case (override_written clean st raw name)
  have "inputs_ok (st\<lparr>us_overrides := dict_set name raw (us_overrides st)\<rparr>)"
    using override_written dict_set_overrides [of "us_overrides st" raw name] by (auto simp: store_ok_def inputs_ok_def)
  then show ?case using override_written.IH by (simp add: store_ok_def)
next
  case (stopped clean st)
  then show ?case by (intro lose_memory_ok)
qed

section \<open>Properties\<close>

text \<open>C20. In every run of the store - starts, observations, plans, applied decisions, files of overrides, and stops of the
  process between any two changes on disk of any of them - a store that is up can be stopped and started again and is
  the same: the start reads the active decision, and reads from the JSON texts of the state file exactly the joining times of
  every symbol (\<open>isoformat\<close>, then \<open>fromisoformat\<close>); the files stay as they were. The active decision is valid and is the
  one of the active file. Unless an application was cut off between its writes of the active decision and of the joining times
  (\<open>clean\<close>), exactly the members have a joining time and exactly the core members a core time. The hypotheses are the
  forms of the hashes.\<close>

theorem restart_restores_store:
  assumes "store_reachable env policy clean st" "env_ok env policy" "us_active st = Some d"
  shows "valid_decision env d \<and> us_active_file st = Some d \<and>
    (clean \<longrightarrow> fst ` set (us_member_since st) = set (members d) \<and> fst ` set (us_core_since st) = set (core d)) \<and>
    (\<exists>st'. initialize env now (lose_memory st) = Inr st' \<and> us_active st' = Some d \<and>
       dict_get (us_member_since st') = dict_get (us_member_since st) \<and>
       dict_get (us_core_since st') = dict_get (us_core_since st) \<and> lose_memory st' = lose_memory st)"
proof -
  have ok: "store_ok env policy clean st" using reachable_ok [OF assms(1,2)] .
  then have f: "us_active_file st = Some d" "us_state_file st = Some (state_json (us_core_since st) (us_member_since st))"
    "times_of clean d (us_core_since st) (us_member_since st)" "valid_decision env d"
    using assms(3) by (auto simp: store_ok_def files_ok_def)
  have "since_ok (us_core_since st)" "since_ok (us_member_since st)" using f(3) by (simp_all add: times_of_def)
  from this [THEN sorted_since] show ?thesis
    using f started_store(1) [OF ok f(1-3)] by (auto simp: times_of_def lose_memory_def)
qed

text \<open>The first start writes the active decision before the joining times. Cut off between the two, it leaves a store that never
  starts again: every later start finds the active file and no state file.\<close>

lemma interrupted_first_start_blocks:
  assumes "bootstrap_decision env policy now = Inr d" "n = 1 \<or> n = 2"
  shows "initialize env later (lose_memory (run_changes (take n (initialize_changes d)) (bootstrap_memory d now (new_store policy)))) =
    Inl (FileNotFoundError ''membership-state.json'')"
proof -
  have "valid_decision env d" using assms(1) unfolding bootstrap_decision_def by (rule validated_is_valid)
  then show ?thesis
    using assms(2)
    by (auto simp: initialize_def initialize_changes_def write_active_def take_cases lose_memory_def change_defs bootstrap_memory_def
        new_store_def valid_decision_def load_state_def)
qed

text \<open>An application that is cut off between the same two writes is a new decision with the old joining times: after the start the
  members that joined with it have none.\<close>

lemma interrupted_apply_forgets_times:
  assumes "store_ok env policy clean st" "us_active st = Some previous" "valid_decision env d" "datetime_ok (effective_at d)"
    and "n = 1 \<or> n = 2"
  shows "\<exists>st'. initialize env now (lose_memory (run_changes (take n (apply_changes d name)) (apply_memory previous d st))) = Inr st' \<and>
    us_active st' = Some d \<and> dict_get (us_member_since st') = dict_get (us_member_since st)"
proof -
  let ?s = "run_changes (take n (apply_changes d name)) (apply_memory previous d st)"
  have ok: "store_ok env policy (clean \<and> n \<notin> {1, 2}) (lose_memory ?s)" by (rule interrupted_apply_ok [OF assms(1-4)])
  have t: "times_of clean previous (us_core_since st) (us_member_since st)"
    "us_state_file st = Some (state_json (us_core_since st) (us_member_since st))"
    using assms(1,2) by (auto simp: store_ok_def)
  have f: "us_active_file (lose_memory ?s) = Some d"
    "us_state_file (lose_memory ?s) = Some (state_json (us_core_since st) (us_member_since st))"
    "times_of (clean \<and> n \<notin> {1, 2}) d (us_core_since st) (us_member_since st)"
    using assms(5) t
    by (auto simp: apply_changes_def write_active_def take_cases lose_memory_def change_defs apply_memory_def times_of_def)
  have "lose_memory (lose_memory ?s) = lose_memory ?s" by (simp add: lose_memory_def)
  moreover have "since_ok (us_member_since st)" using t by (simp add: times_of_def)
  ultimately show ?thesis using started_store(1) [OF ok f, of now] sorted_since by auto
qed

lemma due_decision_applied:
  assumes "apply_due env now st = Inr (Some d, st')" "store_ok env policy True st" "us_active st = Some active"
  shows "us_active st' = Some d \<and> valid_decision env d \<and> is_due active now d \<and>
    (\<forall>s \<in> set (members d). dict_get (us_member_since st') s =
       (if s \<in> set (members active) then dict_get (us_member_since st) s else Some (effective_at d))) \<and>
    (\<forall>s \<in> set (core d). dict_get (us_core_since st') s =
       (if s \<in> set (core active) then dict_get (us_core_since st) s else Some (effective_at d)))"
proof -
  have "inputs_ok st" using assms(2) by (simp add: store_ok_def)
  from assms(1,3) this show ?thesis
  proof (cases rule: apply_due_cases)
  case (applied d' name st1)
  have "d' = d" using applied(1) by simp
  note same = without_overrides_same [OF applied(5)]
  have keys: "dict_get (us_member_since st) s \<noteq> None \<longleftrightarrow> s \<in> set (members active)"
    "dict_get (us_core_since st) s \<noteq> None \<longleftrightarrow> s \<in> set (core active)" for s
    using assms(2,3) by (auto simp: store_ok_def times_of_def dict_get_None_iff)
  have since: "us_member_since st' = filter (\<lambda>(s, _). s \<in> set (members d)) (set_missing (effective_at d) (members d) (us_member_since st))"
    "us_core_since st' = filter (\<lambda>(s, _). s \<in> set (core d)) (core_joins active d (us_core_since st))" "us_active st' = Some d"
    by (simp_all add: applied(7) apply_changes_def write_active_def change_defs apply_memory_def same \<open>d' = d\<close>)
  have "\<forall>s \<in> set (members d). dict_get (us_member_since st') s =
      (if s \<in> set (members active) then dict_get (us_member_since st) s else Some (effective_at d))"
  proof
    fix s assume "s \<in> set (members d)"
    then show "dict_get (us_member_since st') s =
        (if s \<in> set (members active) then dict_get (us_member_since st) s else Some (effective_at d))"
      using keys(1) [of s] by (cases "dict_get (us_member_since st) s") (simp_all add: since(1) dict_get_filter set_missing_get)
  qed
  moreover have "\<forall>s \<in> set (core d). dict_get (us_core_since st') s =
      (if s \<in> set (core active) then dict_get (us_core_since st) s else Some (effective_at d))"
  proof
    fix s assume "s \<in> set (core d)"
    then show "dict_get (us_core_since st') s =
        (if s \<in> set (core active) then dict_get (us_core_since st) s else Some (effective_at d))"
      using keys(2) [of s] by (cases "dict_get (us_core_since st) s") (simp_all add: since(2) dict_get_filter core_joins_get)
  qed
  ultimately show ?thesis using applied(2,3) since(3) \<open>d' = d\<close> by blast
  qed simp
qed

text \<open>Applying a due decision moves the history forward and keeps the dwell clocks honest: the new active decision is valid, has
  a larger sequence number and was effective by now; members that stay keep the time they joined, members that join get the
  effective time, and the same holds for the core with its own times.\<close>

lemma apply_due_advances:
  assumes "store_reachable env policy True st" "env_ok env policy" "us_active st = Some active"
    and "apply_due env now st = Inr (Some d, st')"
  shows "us_active st' = Some d \<and> valid_decision env d \<and> decision_sequence active < decision_sequence d \<and>
    wall_us (effective_at d) \<le> wall_us now \<and>
    (\<forall>s \<in> set (members d). dict_get (us_member_since st') s =
       (if s \<in> set (members active) then dict_get (us_member_since st) s else Some (effective_at d))) \<and>
    (\<forall>s \<in> set (core d). dict_get (us_core_since st') s =
       (if s \<in> set (core active) then dict_get (us_core_since st) s else Some (effective_at d)))"
  using due_decision_applied [OF assms(4) reachable_ok [OF assms(1,2)] assms(3)] by (simp add: is_due_def)

lemma next_effective_bounds:
  "dt_midnight (next_effective_at now m) \<and> utc_offset (next_effective_at now m) = Some 0 \<and>
     wall_us now < wall_us (next_effective_at now m) \<and> wall_us (next_effective_at now m) \<le> wall_us now + 2 * us_per_day"
proof -
  have e: "wall_us (next_effective_at now m) = (dt_date now + 1) * us_per_day \<or>
      wall_us (next_effective_at now m) = (dt_date now + 2) * us_per_day"
    by (simp add: next_effective_at_def Let_def)
  have "dt_date now * us_per_day \<le> wall_us now" "wall_us now < (dt_date now + 1) * us_per_day"
    using pos_mod_sign [of us_per_day "wall_us now"] pos_mod_bound [of us_per_day "wall_us now"]
    by (simp_all add: dt_date_def us_per_day_def minus_mod_eq_div_mult [symmetric] distrib_right)
  then have "wall_us now < wall_us (next_effective_at now m) \<and> wall_us (next_effective_at now m) \<le> wall_us now + 2 * us_per_day"
    using e by (auto simp: us_per_day_def)
  then show ?thesis by (simp add: dt_midnight_def next_effective_at_def Let_def)
qed

lemma validated_core:
  "validate_universe_decision u H d = Inr d' \<Longrightarrow> core d' = map (u_upper u) (core d) \<and>
     boundary d' = map (u_upper u) (boundary d) \<and> probe d' = map (u_upper u) (probe d)"
  by (auto simp: validate_universe_decision_def validate_role_def validate_schedule_version_and_hash_def rbind_Inr_iff Let_def
      split: if_splits)

text \<open>A planned decision is valid and is the next one: its sequence number is the next, its version is larger, it takes
  effect at a UTC midnight after now and at most two days later, and it only replaces the pending file; the active
  universe stays what it was.\<close>

lemma planned_decision_is_next:
  assumes "us_active st = Some active" "valid_decision env active"
    "observe_and_plan env formally_started snapshot now st = Inr (Some d, st')"
  shows "valid_decision env d \<and> decision_sequence d = decision_sequence active + 1 \<and>
    (core_generation active, candidate_revision active) < (core_generation d, candidate_revision d) \<and>
    (core d \<noteq> core active \<longrightarrow> core_generation d = core_generation active + 1 \<and> candidate_revision d = 0) \<and>
    created_at d = now \<and> dt_midnight (effective_at d) \<and> wall_us now < wall_us (effective_at d) \<and>
    wall_us (effective_at d) \<le> wall_us now + 2 * us_per_day \<and>
    us_pending_file st' = Some d \<and> us_active st' = us_active st \<and> us_active_file st' = us_active_file st"
  using assms(3,1)
proof (cases rule: observe_cases)
  case (planned result d')
  let ?e = "next_effective_at now (decision_cutoff_minute_utc (us_policy st))"
  obtain g v where gv: "next_version active (sel_core result) = (g, v)" by (cases "next_version active (sel_core result)")
  have d: "d' = d" using planned(1) by simp
  have val: "validate_universe_decision (se_unicode env) (se_hash env) \<lparr>core_generation = g, candidate_revision = v,
        decision_sequence = decision_sequence active + 1, universe_version = version_text g v,
        created_at = now, effective_at = ?e, decision_reason = decision_reason_of active result ?e,
        core = sel_core result, boundary = sel_boundary result, probe = sel_probe result,
        source_hashes = sel_source_hashes result,
        ud_universe_hash = se_hash env (sel_core result) (sel_boundary result) (sel_probe result)\<rparr> = Inr d"
    using planned(5) by (simp add: planned_decision_def gv d)
  note fields = validated_fields(5) [OF val]
  have f: "core_generation d = g" "candidate_revision d = v" "decision_sequence d = decision_sequence active + 1"
    "created_at d = now" "effective_at d = ?e"
    by (subst fields, simp)+
  have "(core_generation active, candidate_revision active) < (g, v) \<and> (sel_core result \<noteq> core active \<longrightarrow> g = core_generation active + 1 \<and> v = 0)"
    using gv by (auto simp: next_version_def split: if_splits)
  moreover have "sel_core result = core active \<longrightarrow> core d = core active"
    using validated_core [OF val] validated_core [of "se_unicode env" "se_hash env" active active] assms(2)
    by (simp add: valid_decision_def)
  ultimately have "(core_generation active, candidate_revision active) < (g, v)"
    "core d \<noteq> core active \<longrightarrow> g = core_generation active + 1 \<and> v = 0" by blast+
  then show ?thesis
    using validated_is_valid [OF val] next_effective_bounds f
    by (simp add: planned(6) d write_evaluation_def write_observation_def)
qed simp_all

lemma upper_of_symbols: "\<forall>s \<in> set xs. is_exchange_symbol u s \<Longrightarrow> map (u_upper u) xs = xs"
  by (rule map_idI) (simp add: is_exchange_symbol_def)

lemma validated_override_symbols:
  assumes "validate_candidate_override u c = Inr c'"
  shows "\<forall>s \<in> set (co_boundary c' @ co_probe c'). is_exchange_symbol u s"
proof -
  have "\<forall>s \<in> set r. is_exchange_symbol u s" if "validate_override_role u vs = Inr r" for vs r
    using that unfolding validate_override_role_def Let_def by (auto simp: list_ex_iff split: if_splits)
  then show ?thesis
    using assms by (fastforce simp: validate_candidate_override_def rbind_Inr_iff split: if_splits)
qed

text \<open>A manual override can only touch the candidate roles, and only within the limits of the automatic selection: the decision it
  becomes is valid, keeps the core, brings in at most \<open>candidate_daily_replacements\<close> new candidates, and drops only candidates
  that joined at least the minimum dwell time before it takes effect.\<close>

lemma override_within_limits:
  assumes "read_override env st active (Some c) = Inr d" "valid_decision env active"
  shows "valid_decision env d \<and> core d = core active \<and> decision_sequence d = decision_sequence active + 1 \<and>
    core_generation d = core_generation active \<and> candidate_revision d = candidate_revision active + 1 \<and>
    card (set (boundary d @ probe d) - set (boundary active @ probe active)) \<le> candidate_daily_replacements (cfg_rolling (us_policy st)) \<and>
    (\<forall>s \<in> set (boundary active @ probe active) - set (boundary d @ probe d).
       dwell_complete (joined_at (us_member_since st) (effective_at d) s) (effective_at d)
         (candidate_dwell (cfg_rolling (us_policy st))))"
proof -
  obtain c' where c': "validate_candidate_override (se_unicode env) c = Inr c'" "decision_from_override env st active c' = Inr d"
    using assms(1) by (auto simp: read_override_def rbind_Inr_iff)
  let ?raw = "\<lparr>core_generation = core_generation active,
          candidate_revision = candidate_revision active + 1, decision_sequence = decision_sequence active + 1,
          universe_version = version_text (core_generation active) (candidate_revision active + 1),
          created_at = co_created_at c', effective_at = co_effective_at c', decision_reason = MANUAL_CANDIDATE_OVERRIDE,
          core = core active, boundary = co_boundary c', probe = co_probe c', source_hashes = [],
          ud_universe_hash = se_hash env (core active) (co_boundary c') (co_probe c')\<rparr>"
  have val: "validate_universe_decision (se_unicode env) (se_hash env) ?raw = Inr d"
    and few: "card (set (co_boundary c' @ co_probe c') - set (boundary active @ probe active)) \<le>
      candidate_daily_replacements (cfg_rolling (us_policy st))"
    and old: "{s \<in> set (boundary active @ probe active) - set (co_boundary c' @ co_probe c').
      wall_us (co_effective_at c') - candidate_minimum_dwell_hours (cfg_rolling (us_policy st)) * us_per_hour <
      wall_us (joined_at (us_member_since st) (co_effective_at c') s)} = {}"
    using c'(2) by (auto simp only: decision_from_override_def Let_def rolling_policy_of_def not_less split: if_splits)
  note up = upper_of_symbols [of _ "se_unicode env"] validated_override_symbols [OF c'(1)]
  have roles: "boundary d = co_boundary c'" "probe d = co_probe c'" "core d = core active"
    using validated_core [OF val] validated_core [OF assms(2) [unfolded valid_decision_def]] up by simp_all
  have fields: "core_generation d = core_generation active" "candidate_revision d = candidate_revision active + 1"
    "decision_sequence d = decision_sequence active + 1" "effective_at d = co_effective_at c'"
    by (subst validated_fields(5) [OF val], simp)+
  show ?thesis
    using validated_is_valid [OF val] few old unfolding roles fields dwell_complete_def candidate_dwell_def by (auto simp: not_less)
qed

section \<open>An example run\<close>

definition demo_env :: store_env where
  "demo_env = \<lparr>se_unicode = ascii, se_sha256 = (\<lambda>_. replicate 64 CHR ''a''), se_hash = (\<lambda>_ _ _. ''h'')\<rparr>"

definition demo_policy :: universe_policy_config where
  "demo_policy = \<lparr>experiment_id = ''experiment'', bootstrap_evidence_sha256 = replicate 64 CHR ''a'', cfg_core_generation = 7,
     cfg_candidate_revision = 0, cfg_decision_sequence = 3, cfg_core = core ex_decision, cfg_boundary = boundary ex_decision,
     cfg_probe = probe ex_decision, discovery_hour_utc = 23, discovery_minute_utc = 50, decision_cutoff_minute_utc = 55,
     automation_enabled = True, liquidity_request_interval_seconds = 1 / 4, cfg_rolling = default_policy\<rparr>"

definition demo_active :: universe_decision where
  "demo_active = ex_decision\<lparr>created_at := ex_time 20000, effective_at := ex_time 20000, decision_reason := FORMAL_BOOTSTRAP,
     source_hashes := [replicate 64 CHR ''a'']\<rparr>"

lemma demo_bootstrap: "bootstrap_decision demo_env demo_policy (ex_time 20000) = Inr demo_active"
  by code_simp

definition demo_store :: universe_store where
  "demo_store = run_changes (initialize_changes demo_active) (bootstrap_memory demo_active (ex_time 20000) (new_store demo_policy))"

lemma demo_env_ok: "env_ok demo_env demo_policy"
proof -
  have "hash_pattern (replicate 64 CHR ''a'')" by code_simp
  then show ?thesis by (simp add: env_ok_def demo_env_def demo_policy_def)
qed

lemma demo_time: "datetime_ok (ex_time 20000)" "datetime_ok (ex_time 20010)"
  by code_simp+

lemma demo_initialized: "initialize demo_env (ex_time 20000) (lose_memory (new_store demo_policy)) = Inr demo_store"
  using demo_bootstrap by (simp add: initialize_def demo_store_def new_store_def lose_memory_def del: run_simps)

lemma demo_reachable: "store_reachable demo_env demo_policy True demo_store"
  by (rule started [OF fresh demo_time(1) demo_initialized])

lemma demo_store_fields:
  "us_policy demo_store = demo_policy" "us_active demo_store = Some demo_active" "us_overrides demo_store = []"
  "us_member_since demo_store = since_all (members demo_active) (ex_time 20000)" "us_pending_file demo_store = None"
  by (simp_all add: demo_store_def initialize_changes_def bootstrap_memory_def write_active_def change_defs new_store_def)

theorem restart_restores_store_witness:
  "\<exists>st'. initialize demo_env (ex_time 20005) (lose_memory demo_store) = Inr st' \<and> us_active st' = Some demo_active \<and>
     dict_get (us_member_since st') = dict_get (us_member_since demo_store)"
  using restart_restores_store [OF demo_reachable demo_env_ok demo_store_fields(2)] by blast

definition demo_override :: candidate_override where
  "demo_override = \<lparr>co_created_at = ex_time 20009, co_effective_at = ex_time 20010,
     co_boundary = [''FB'', ''FC'', ''FD'', ''FE'', ''GA''], co_probe = probe ex_decision\<rparr>"

definition demo_overridden :: universe_decision where
  "demo_overridden = demo_active\<lparr>candidate_revision := 1, decision_sequence := 4, universe_version := ''7.1'',
     created_at := ex_time 20009, effective_at := ex_time 20010, decision_reason := MANUAL_CANDIDATE_OVERRIDE,
     boundary := [''FB'', ''FC'', ''FD'', ''FE'', ''GA''], source_hashes := []\<rparr>"

definition demo_due :: universe_store where
  "demo_due = demo_store\<lparr>us_overrides := dict_set ''a.override.json'' (Some demo_override) (us_overrides demo_store)\<rparr>"

lemma demo_override_read: "read_override demo_env demo_due demo_active (Some demo_override) = Inr demo_overridden"
proof -
  have v: "validate_candidate_override ascii demo_override = Inr demo_override" by code_simp
  have a: "set (co_boundary demo_override @ co_probe demo_override) \<inter> set (core demo_active) = {}" by code_simp
  have b: "\<not> 2 < card (set (co_boundary demo_override @ co_probe demo_override) - set (boundary demo_active @ probe demo_active))"
    by code_simp
  have c: "set (boundary demo_active @ probe demo_active) - set (co_boundary demo_override @ co_probe demo_override) = {''FA''}"
    by code_simp
  have d: "wall_us (joined_at (us_member_since demo_due) (co_effective_at demo_override) ''FA'') = 20000 * us_per_day"
  proof -
    have "dict_get (since_all (members demo_active) (ex_time 20000)) ''FA'' = Some (ex_time 20000)" by code_simp
    then show ?thesis by (simp add: demo_due_def demo_store_fields joined_at_def ex_time_def)
  qed
  have e: "validate_universe_decision ascii (\<lambda>_ _ _. ''h'') \<lparr>core_generation = core_generation demo_active,
      candidate_revision = candidate_revision demo_active + 1, decision_sequence = decision_sequence demo_active + 1,
      universe_version = version_text (core_generation demo_active) (candidate_revision demo_active + 1),
      created_at = co_created_at demo_override, effective_at = co_effective_at demo_override,
      decision_reason = MANUAL_CANDIDATE_OVERRIDE, core = core demo_active, boundary = co_boundary demo_override,
      probe = co_probe demo_override, source_hashes = [], ud_universe_hash = ''h''\<rparr> = Inr demo_overridden"
    by code_simp
  have p: "candidate_daily_replacements (rolling_policy_of (us_policy demo_due)) = 2"
    "candidate_minimum_dwell_hours (rolling_policy_of (us_policy demo_due)) = 48"
    by (simp_all add: demo_due_def demo_store_fields rolling_policy_of_def demo_policy_def default_policy_def)
  have young: "{s \<in> {''FA''}. wall_us (co_effective_at demo_override) - 48 * us_per_hour <
      wall_us (joined_at (us_member_since demo_due) (co_effective_at demo_override) s)} = {}"
    using d by (auto simp: demo_override_def ex_time_def us_per_day_def us_per_hour_def)
  have env: "se_unicode demo_env = ascii" "se_hash demo_env = (\<lambda>_ _ _. ''h'')" by (simp_all add: demo_env_def)
  show ?thesis
    unfolding read_override_def option.case env v rbind_simps decision_from_override_def Let_def p c
    unfolding a young e using b by simp
qed

lemma demo_applied: "\<exists>st'. apply_due demo_env (ex_time 20010) demo_due = Inr (Some demo_overridden, st')"
proof -
  have due: "is_due demo_active (ex_time 20010) demo_overridden"
    by (simp add: is_due_def demo_overridden_def demo_active_def ex_decision_def ex_time_def)
  have f: "us_active demo_due = Some demo_active" "us_pending_file demo_due = None"
    "us_overrides demo_due = [(''a.override.json'', Some demo_override)]"
    by (simp_all add: demo_due_def demo_store_fields)
  show ?thesis
    by (simp add: apply_due_def select_due_def store_active_def f pending_candidates_def consider_override_def
        demo_override_read due)
qed

lemma apply_due_advances_witness:
  "\<exists>st'. apply_due demo_env (ex_time 20010) demo_due = Inr (Some demo_overridden, st') \<and> us_active st' = Some demo_overridden"
proof -
  have "store_reachable demo_env demo_policy True demo_due"
    unfolding demo_due_def
    by (rule override_written [OF demo_reachable]) (simp add: override_ok_def demo_override_def demo_time)
  moreover have "us_active demo_due = Some demo_active" by (simp add: demo_due_def demo_store_fields)
  ultimately show ?thesis
    using apply_due_advances [OF _ demo_env_ok] demo_applied by blast
qed

lemma demo_active_valid: "valid_decision demo_env demo_active"
  using demo_bootstrap validated_is_valid unfolding bootstrap_decision_def by blast

lemma override_within_limits_witness:
  "core demo_overridden = core demo_active \<and> decision_sequence demo_overridden = decision_sequence demo_active + 1"
  using override_within_limits [OF demo_override_read demo_active_valid] by blast

end
